(* ===== verification/Prelude.thy ===== *)
theory Prelude
  imports Main "HOL-Library.Word" "HOL-Library.AList"
begin

text \<open>
  What every component of the development shares.

  \<^item> The machine types of the Rust sources: \<open>u64\<close> is a 64-bit word, so \<open>+ 1\<close> wraps as a release
    build does; \<open>usize\<close> and \<open>u16\<close> are \<open>nat\<close> with saturation and wrap-around written out.
  \<^item> Rust strings as lists of Unicode scalar values, with ASCII literals through \<open>ascii\<close>.
  \<^item> \<open>result\<close>, Rust's \<open>Result\<close> with its two constructors.
  \<^item> \<open>HashMap\<close> as an association list.  The list order plays the part of the iteration order,
    which the Rust type leaves unspecified.
  \<^item> Two interfaces: \<open>key_store\<close>, what clients of a map rely on, and \<open>guarded_machine\<close>, a step
    function with a guard and an invariant.
\<close>

named_theorems store_simps \<open>lookup, key and value facts about hash maps\<close>
named_theorems text_simps \<open>facts about strings and characters\<close>

section \<open>Machine types\<close>

type_synonym u64 = "64 word"
type_synonym uuid = "128 word"
type_synonym u16 = nat
type_synonym usize = nat

definition u16_max :: nat where "u16_max = 65535"
definition usize_max :: nat where "usize_max = 2 ^ 64 - 1"

definition wrap16 :: "nat \<Rightarrow> u16" where
  "wrap16 n = n mod 65536"

definition sat_add16 :: "u16 \<Rightarrow> u16 \<Rightarrow> u16" where
  "sat_add16 a b = min (a + b) u16_max"

definition sat_add_usize :: "usize \<Rightarrow> usize \<Rightarrow> usize" where
  "sat_add_usize a b = min (a + b) usize_max"

lemma wrap16_id [simp]: "n \<le> u16_max \<Longrightarrow> wrap16 n = n"
  by (simp add: wrap16_def u16_max_def)

lemma sat_add16_le [simp]: "sat_add16 a b \<le> u16_max"
  by (simp add: sat_add16_def)

section \<open>Results\<close>

datatype ('a, 'e) result = Ok 'a | Err 'e

fun is_Ok :: "('a, 'e) result \<Rightarrow> bool" where
  "is_Ok (Ok _) = True"
| "is_Ok (Err _) = False"

lemma is_Ok_iff: "is_Ok r \<longleftrightarrow> (\<exists>v. r = Ok v)"
  by (cases r) auto

lemma not_is_Ok_iff: "\<not> is_Ok r \<longleftrightarrow> (\<exists>e. r = Err e)"
  by (cases r) auto

section \<open>Strings\<close>

type_synonym rchar = nat
type_synonym rstring = "rchar list"

definition ascii :: "string \<Rightarrow> rstring" where
  "ascii s = map of_char s"

lemma ascii_simps [simp, text_simps]:
  "ascii [] = []" "ascii (c # s) = of_char c # ascii s"
  by (simp_all add: ascii_def)

lemma length_ascii [simp, text_simps]: "length (ascii s) = length s"
  by (simp add: ascii_def)

text \<open>Decimal rendering, as \<open>format!("{n}")\<close> does it.\<close>

fun decimal :: "nat \<Rightarrow> rstring" where
  "decimal n = (if n < 10 then [48 + n] else decimal (n div 10) @ [48 + n mod 10])"

declare decimal.simps [simp del]

fun undecimal :: "nat \<Rightarrow> rstring \<Rightarrow> nat" where
  "undecimal acc [] = acc"
| "undecimal acc (c # cs) = undecimal (acc * 10 + (c - 48)) cs"

lemma undecimal_append: "undecimal acc (xs @ ys) = undecimal (undecimal acc xs) ys"
  by (induction xs arbitrary: acc) auto

lemma undecimal_decimal: "undecimal 0 (decimal n) = n"
proof (induction n rule: decimal.induct)
  case (1 n)
  then show ?case
    by (cases "n < 10") (simp_all add: decimal.simps [of n] undecimal_append)
qed

lemma decimal_inject [simp]: "decimal m = decimal n \<longleftrightarrow> m = n"
  by (metis undecimal_decimal)

lemma decimal_digits: "c \<in> set (decimal n) \<Longrightarrow> 48 \<le> c \<and> c \<le> 57"
proof (induction n rule: decimal.induct)
  case (1 n)
  show ?case
  proof (cases "n < 10")
    case True
    with 1(2) show ?thesis by (subst (asm) decimal.simps) auto
  next
    case False
    then have "c \<in> set (decimal (n div 10)) \<or> c = 48 + n mod 10"
      using 1(2) by (subst (asm) decimal.simps) auto
    with 1(1) False show ?thesis by auto
  qed
qed

lemma decimal_nonempty [simp]: "decimal n \<noteq> []"
  by (subst decimal.simps) simp

section \<open>Trimming\<close>

text \<open>\<open>str::trim\<close> and its byte-level relatives drop a predicate's run at both ends.\<close>

definition trim_by :: "('a \<Rightarrow> bool) \<Rightarrow> 'a list \<Rightarrow> 'a list" where
  "trim_by ws xs = rev (dropWhile ws (rev (dropWhile ws xs)))"

definition trimmed_by :: "('a \<Rightarrow> bool) \<Rightarrow> 'a list \<Rightarrow> bool" where
  "trimmed_by ws xs \<longleftrightarrow> xs = [] \<or> (\<not> ws (hd xs) \<and> \<not> ws (last xs))"

lemma set_trim_by: "set (trim_by ws xs) \<subseteq> set xs"
proof -
  have sub: "set (dropWhile ws ys) \<subseteq> set ys" for ys
    using set_dropWhileD [of _ ws ys] by blast
  have "set (trim_by ws xs) \<subseteq> set (rev (dropWhile ws xs))"
    using sub [of "rev (dropWhile ws xs)"] by (simp add: trim_by_def)
  also have "\<dots> \<subseteq> set xs" using sub [of xs] by simp
  finally show ?thesis .
qed

lemma trim_by_trimmed: "trimmed_by ws (trim_by ws xs)"
proof (cases "trim_by ws xs = []")
  case True
  then show ?thesis by (simp add: trimmed_by_def)
next
  case False
  define ys where "ys = dropWhile ws xs"
  define zs where "zs = dropWhile ws (rev ys)"
  have t: "trim_by ws xs = rev zs" by (simp add: trim_by_def zs_def ys_def)
  with False have zs: "zs \<noteq> []" by simp
  have "\<not> ws (hd zs)" using zs by (simp add: zs_def hd_dropWhile)
  moreover have "\<not> ws (last zs)"
  proof -
    obtain us where "rev ys = us @ zs" by (metis zs_def takeWhile_dropWhile_id)
    then have "ys = rev zs @ rev us" by (metis rev_append rev_rev_ident)
    with zs have "hd ys = last zs" "ys \<noteq> []" by (auto simp: hd_rev)
    then show ?thesis by (metis hd_dropWhile ys_def)
  qed
  ultimately show ?thesis using zs by (simp add: trimmed_by_def t hd_rev last_rev)
qed

lemma trim_by_id: "trimmed_by ws xs \<Longrightarrow> trim_by ws xs = xs"
proof (cases xs)
  case (Cons x ys)
  assume t: "trimmed_by ws xs"
  with Cons have "dropWhile ws xs = xs" by (simp add: trimmed_by_def)
  moreover have "dropWhile ws (rev xs) = rev xs"
    using t Cons by (cases "rev xs") (auto simp: trimmed_by_def hd_rev [symmetric])
  ultimately show ?thesis by (simp add: trim_by_def)
qed (simp add: trim_by_def)

lemma trim_by_idem [simp]: "trim_by ws (trim_by ws xs) = trim_by ws xs"
  by (rule trim_by_id [OF trim_by_trimmed])

lemma trim_by_filter_comm:
  "\<forall>x \<in> set xs. P x \<Longrightarrow> filter P (trim_by ws xs) = trim_by ws xs"
  using set_trim_by [of ws xs] by (auto simp: filter_id_conv)

section \<open>Hash maps\<close>

type_synonym ('k, 'v) hashmap = "('k \<times> 'v) list"

abbreviation hm_get :: "('k, 'v) hashmap \<Rightarrow> 'k \<Rightarrow> 'v option" where
  "hm_get m k \<equiv> map_of m k"

definition hm_contains :: "('k, 'v) hashmap \<Rightarrow> 'k \<Rightarrow> bool" where
  "hm_contains m k \<longleftrightarrow> hm_get m k \<noteq> None"

definition hm_insert :: "'k \<Rightarrow> 'v \<Rightarrow> ('k, 'v) hashmap \<Rightarrow> ('k, 'v) hashmap" where
  "hm_insert k v m = AList.update k v m"

definition hm_remove :: "'k \<Rightarrow> ('k, 'v) hashmap \<Rightarrow> ('k, 'v) hashmap" where
  "hm_remove k m = filter (\<lambda>(k', _). k' \<noteq> k) m"

definition hm_values :: "('k, 'v) hashmap \<Rightarrow> 'v list" where
  "hm_values m = map snd m"

definition hm_keys :: "('k, 'v) hashmap \<Rightarrow> 'k list" where
  "hm_keys m = map fst m"

text \<open>\<open>if let Some(v) = m.get_mut(&k) { *v = f(v) }\<close>\<close>

definition hm_modify :: "'k \<Rightarrow> ('v \<Rightarrow> 'v) \<Rightarrow> ('k, 'v) hashmap \<Rightarrow> ('k, 'v) hashmap" where
  "hm_modify k f m = map (\<lambda>(k', v). (k', if k' = k then f v else v)) m"

text \<open>\<open>for v in m.values_mut().filter(p) { *v = f(v) }\<close>\<close>

definition hm_modify_where :: "('v \<Rightarrow> bool) \<Rightarrow> ('v \<Rightarrow> 'v) \<Rightarrow> ('k, 'v) hashmap \<Rightarrow> ('k, 'v) hashmap" where
  "hm_modify_where p f m = map (\<lambda>(k, v). (k, if p v then f v else v)) m"

definition hm_retain :: "('k \<Rightarrow> bool) \<Rightarrow> ('k, 'v) hashmap \<Rightarrow> ('k, 'v) hashmap" where
  "hm_retain p m = filter (\<lambda>(k, _). p k) m"

definition hm_wf :: "('k, 'v) hashmap \<Rightarrow> bool" where
  "hm_wf m \<longleftrightarrow> distinct (map fst m)"

lemma hm_wf_Nil [simp]: "hm_wf []"
  by (simp add: hm_wf_def)

lemma hm_contains_iff [store_simps]: "hm_contains m k \<longleftrightarrow> (\<exists>v. hm_get m k = Some v)"
  by (auto simp: hm_contains_def)

lemma hm_get_insert [store_simps]: "hm_get (hm_insert k v m) = (hm_get m)(k \<mapsto> v)"
  by (simp add: hm_insert_def update_conv' fun_eq_iff)

lemma hm_get_remove [store_simps]: "hm_get (hm_remove k m) = (hm_get m)(k := None)"
proof
  fix x show "hm_get (hm_remove k m) x = ((hm_get m)(k := None)) x"
    by (induction m) (auto simp: hm_remove_def)
qed

lemma hm_get_modify [store_simps]:
  "hm_get (hm_modify k f m) x = (if x = k then map_option f (hm_get m x) else hm_get m x)"
  by (induction m) (auto simp: hm_modify_def)

lemma hm_get_modify_where [store_simps]:
  "hm_get (hm_modify_where p f m) x = map_option (\<lambda>v. if p v then f v else v) (hm_get m x)"
  by (induction m) (auto simp: hm_modify_where_def)

lemma hm_get_retain [store_simps]:
  "hm_get (hm_retain p m) x = (if p x then hm_get m x else None)"
  by (induction m) (auto simp: hm_retain_def)

lemma hm_wf_insert [store_simps]: "hm_wf m \<Longrightarrow> hm_wf (hm_insert k v m)"
  by (simp add: hm_wf_def hm_insert_def distinct_update)

lemma hm_wf_remove [store_simps]: "hm_wf m \<Longrightarrow> hm_wf (hm_remove k m)"
  by (simp add: hm_wf_def hm_remove_def distinct_map_filter)

lemma hm_wf_modify [store_simps]: "hm_wf (hm_modify k f m) = hm_wf m"
  by (simp add: hm_wf_def hm_modify_def comp_def case_prod_unfold)

lemma hm_wf_modify_where [store_simps]: "hm_wf (hm_modify_where p f m) = hm_wf m"
  by (simp add: hm_wf_def hm_modify_where_def comp_def case_prod_unfold)

lemma hm_wf_retain [store_simps]: "hm_wf m \<Longrightarrow> hm_wf (hm_retain p m)"
  by (simp add: hm_wf_def hm_retain_def distinct_map_filter)

lemma hm_values_iff: "hm_wf m \<Longrightarrow> v \<in> set (hm_values m) \<longleftrightarrow> (\<exists>k. hm_get m k = Some v)"
  by (force simp: hm_values_def hm_wf_def dest: map_of_SomeD)

lemma hm_keys_iff: "k \<in> set (hm_keys m) \<longleftrightarrow> (\<exists>v. hm_get m k = Some v)"
  by (metis hm_keys_def map_of_eq_None_iff not_Some_eq list.set_map)

subsection \<open>The contract of a keyed store\<close>

text \<open>
  What the session graph needs of its three maps and two side tables: an update changes the
  entry at its key and no other.  Two consequences are used again and again.
\<close>

locale key_store =
  fixes get :: "'m \<Rightarrow> 'k \<Rightarrow> 'v option"
    and put :: "'k \<Rightarrow> 'v \<Rightarrow> 'm \<Rightarrow> 'm"
    and del :: "'k \<Rightarrow> 'm \<Rightarrow> 'm"
    and sound :: "'m \<Rightarrow> bool"
  assumes get_put: "sound m \<Longrightarrow> get (put k v m) x = (if x = k then Some v else get m x)"
    and get_del: "sound m \<Longrightarrow> get (del k m) x = (if x = k then None else get m x)"
    and sound_put: "sound m \<Longrightarrow> sound (put k v m)"
    and sound_del: "sound m \<Longrightarrow> sound (del k m)"
begin

lemma del_many:
  "sound m \<Longrightarrow> sound (fold del ks m) \<and>
     get (fold del ks m) x = (if x \<in> set ks then None else get m x)"
  by (induction ks arbitrary: m) (auto simp: get_del sound_del)

lemma put_many:
  "sound m \<Longrightarrow> x \<notin> fst ` set kvs \<Longrightarrow>
     sound (fold (\<lambda>(k, v). put k v) kvs m) \<and> get (fold (\<lambda>(k, v). put k v) kvs m) x = get m x"
  by (induction kvs arbitrary: m) (auto simp: get_put sound_put)

end

interpretation hash_map: key_store map_of hm_insert hm_remove hm_wf
  by unfold_locales (auto simp: store_simps)

section \<open>Guarded machines\<close>

text \<open>
  A component driven by a list of inputs: \<open>step\<close> is its transition function, \<open>ok\<close> what the
  environment guarantees about an input in a state, \<open>inv\<close> the component's invariant.
\<close>

fun run_ok :: "('s \<Rightarrow> 'e \<Rightarrow> 's) \<Rightarrow> ('s \<Rightarrow> 'e \<Rightarrow> bool) \<Rightarrow> 's \<Rightarrow> 'e list \<Rightarrow> bool" where
  "run_ok step ok s [] = True"
| "run_ok step ok s (e # es) = (ok s e \<and> run_ok step ok (step s e) es)"

inductive reachable :: "('s \<Rightarrow> 'e \<Rightarrow> 's) \<Rightarrow> ('s \<Rightarrow> 'e \<Rightarrow> bool) \<Rightarrow> 's \<Rightarrow> 's \<Rightarrow> bool"
  for step :: "'s \<Rightarrow> 'e \<Rightarrow> 's" and ok :: "'s \<Rightarrow> 'e \<Rightarrow> bool" and init :: 's where
  start: "reachable step ok init init"
| next_step: "reachable step ok init s \<Longrightarrow> ok s e \<Longrightarrow> reachable step ok init (step s e)"

locale guarded_machine =
  fixes step :: "'s \<Rightarrow> 'e \<Rightarrow> 's"
    and ok :: "'s \<Rightarrow> 'e \<Rightarrow> bool"
    and inv :: "'s \<Rightarrow> bool"
  assumes step_inv: "inv s \<Longrightarrow> ok s e \<Longrightarrow> inv (step s e)"
begin

lemma run_inv: "inv s \<Longrightarrow> run_ok step ok s es \<Longrightarrow> inv (foldl step s es)"
  by (induction es arbitrary: s) (auto simp: step_inv)

lemma reachable_inv: "reachable step ok s0 s \<Longrightarrow> inv s0 \<Longrightarrow> inv s"
  by (induction rule: reachable.induct) (auto simp: step_inv)

end

lemma run_reachable: "reachable step ok s0 s \<Longrightarrow> run_ok step ok s es \<Longrightarrow>
  reachable step ok s0 (foldl step s es)"
  by (induction es arbitrary: s) (auto intro: reachable.next_step)

section \<open>List helpers\<close>

text \<open>\<open>Iterator::find\<close> and \<open>Iterator::position\<close>.\<close>

lemma find_Some_iff_mem: "List.find P xs = Some x \<Longrightarrow> x \<in> set xs \<and> P x"
  by (metis find_Some_iff nth_mem)

lemma find_None_all: "List.find P xs = None \<longleftrightarrow> (\<forall>x \<in> set xs. \<not> P x)"
  by (auto simp: find_None_iff)

fun position :: "('a \<Rightarrow> bool) \<Rightarrow> 'a list \<Rightarrow> nat option" where
  "position P [] = None"
| "position P (x # xs) = (if P x then Some 0 else map_option Suc (position P xs))"

lemma position_Some: "position P xs = Some i \<Longrightarrow> i < length xs \<and> P (xs ! i) \<and> (\<forall>j < i. \<not> P (xs ! j))"
proof (induction xs arbitrary: i)
  case (Cons x xs)
  then show ?case by (cases i) (auto split: if_splits simp: less_Suc_eq_0_disj)
qed simp

lemma position_None: "position P xs = None \<longleftrightarrow> (\<forall>x \<in> set xs. \<not> P x)"
  by (induction xs) auto

end
