(* ===== verification/Ids.thy ===== *)
theory Ids
  imports Prelude
begin

text \<open>
  The identifier newtypes of \<^verbatim>\<open>shux-core/src/model.rs\<close>: one wrapper around a UUID per kind of
  entity, so that a pane id is never taken for a window id.  \<open>Uuid::new_v4\<close> is code of the
  \<^verbatim>\<open>uuid\<close> crate: an operation that draws an id takes it as an argument.
\<close>

datatype session_id = SessionId (session_uuid: uuid)
datatype window_id = WindowId (window_uuid: uuid)
datatype pane_id = PaneId (pane_uuid: uuid)
datatype plugin_id = PluginId (plugin_uuid: uuid)
datatype client_id = ClientId (client_uuid: uuid)

end
