(* ===== verification/Float32.thy ===== *)
theory Float32
  imports Prelude "HOL-Library.Log_Nat"
begin

text \<open>
  Rust's \<open>f32\<close>, IEEE-754 binary32, as far as the layout engine uses it: addition, subtraction,
  multiplication and division with round-to-nearest-even, comparison, \<open>clamp\<close>, \<open>round\<close> (half away
  from zero) and the saturating cast \<open>as u16\<close>.

  A finite float is the rational it denotes, so the two zeros are one value; no operation used by
  the program tells them apart.  Infinities and NaN are values of their own, and every operation
  computes: \<open>rnd32\<close> finds the binade of its argument from the bit lengths of numerator and
  denominator and rounds to a multiple of that binade's quantum (24 significant bits, with the
  subnormal quantum \<open>2 powi -149\<close> as the floor and overflow to infinity at \<open>2 ^ 128\<close>).
\<close>

datatype f32 = Fin rat | Inf bool | NaN

section \<open>Rounding\<close>

definition ilog2 :: "rat \<Rightarrow> int" where
  "ilog2 x = (let (p, q) = quotient_of x; k = bitlen p - bitlen q
              in if 2 powi k \<le> x then k else k - 1)"

definition round_half_even :: "rat \<Rightarrow> int" where
  "round_half_even x =
     (let f = \<lfloor>x\<rfloor>; d = x - of_int f
      in if d < 1 / 2 then f else if 1 / 2 < d then f + 1
         else if even f then f else f + 1)"

definition quantum_exp :: "rat \<Rightarrow> int" where
  "quantum_exp x = max (ilog2 x - 23) (- 149)"

definition rnd32 :: "rat \<Rightarrow> f32" where
  "rnd32 x =
     (if x = 0 then Fin 0
      else let q = 2 powi quantum_exp \<bar>x\<bar>;
               y = of_int (round_half_even (\<bar>x\<bar> / q)) * q
           in if 2 ^ 128 \<le> y then Inf (x < 0) else Fin (sgn x * y))"

section \<open>Operations\<close>

fun f32_add :: "f32 \<Rightarrow> f32 \<Rightarrow> f32" where
  "f32_add (Fin a) (Fin b) = rnd32 (a + b)"
| "f32_add NaN _ = NaN"
| "f32_add _ NaN = NaN"
| "f32_add (Inf s) (Inf t) = (if s = t then Inf s else NaN)"
| "f32_add (Inf s) (Fin _) = Inf s"
| "f32_add (Fin _) (Inf t) = Inf t"

fun f32_neg :: "f32 \<Rightarrow> f32" where
  "f32_neg (Fin a) = Fin (- a)"
| "f32_neg (Inf s) = Inf (\<not> s)"
| "f32_neg NaN = NaN"

definition f32_sub :: "f32 \<Rightarrow> f32 \<Rightarrow> f32" where
  "f32_sub a b = f32_add a (f32_neg b)"

fun f32_mul :: "f32 \<Rightarrow> f32 \<Rightarrow> f32" where
  "f32_mul (Fin a) (Fin b) = rnd32 (a * b)"
| "f32_mul NaN _ = NaN"
| "f32_mul _ NaN = NaN"
| "f32_mul (Inf s) (Inf t) = Inf (s \<noteq> t)"
| "f32_mul (Inf s) (Fin b) = (if b = 0 then NaN else Inf (s \<noteq> (b < 0)))"
| "f32_mul (Fin a) (Inf t) = (if a = 0 then NaN else Inf (t \<noteq> (a < 0)))"

text \<open>Division; the zeros being one value, a finite non-zero value over zero is taken as over
  \<open>+0.0\<close>, the only zero a \<open>u16\<close> converts to.\<close>

fun f32_div :: "f32 \<Rightarrow> f32 \<Rightarrow> f32" where
  "f32_div (Fin a) (Fin b) =
     (if b = 0 then (if a = 0 then NaN else Inf (a < 0)) else rnd32 (a / b))"
| "f32_div NaN _ = NaN"
| "f32_div _ NaN = NaN"
| "f32_div (Inf s) (Inf t) = NaN"
| "f32_div (Inf s) (Fin b) = Inf (s \<noteq> (b < 0))"
| "f32_div (Fin a) (Inf t) = Fin 0"

fun f32_lt :: "f32 \<Rightarrow> f32 \<Rightarrow> bool" where
  "f32_lt (Fin a) (Fin b) = (a < b)"
| "f32_lt NaN _ = False"
| "f32_lt _ NaN = False"
| "f32_lt (Inf s) (Inf t) = (s \<and> \<not> t)"
| "f32_lt (Inf s) (Fin _) = s"
| "f32_lt (Fin _) (Inf t) = (\<not> t)"

text \<open>\<open>f32::clamp\<close>: two comparisons, both false for NaN.\<close>

definition f32_clamp :: "f32 \<Rightarrow> f32 \<Rightarrow> f32 \<Rightarrow> f32" where
  "f32_clamp x lo hi =
     (let y = (if f32_lt x lo then lo else x) in if f32_lt hi y then hi else y)"

definition round_half_away :: "rat \<Rightarrow> rat" where
  "round_half_away x = sgn x * of_int \<lfloor>\<bar>x\<bar> + 1 / 2\<rfloor>"

fun f32_round :: "f32 \<Rightarrow> f32" where
  "f32_round (Fin a) = Fin (round_half_away a)"
| "f32_round x = x"

text \<open>\<open>x as u16\<close>: truncate, saturate at both ends, NaN to 0.\<close>

fun f32_as_u16 :: "f32 \<Rightarrow> u16" where
  "f32_as_u16 (Fin a) = (if a \<le> 0 then 0 else min (nat \<lfloor>a\<rfloor>) u16_max)"
| "f32_as_u16 (Inf s) = (if s then 0 else u16_max)"
| "f32_as_u16 NaN = 0"

definition f32_of_u16 :: "u16 \<Rightarrow> f32" where
  "f32_of_u16 n = Fin (of_nat n)"

section \<open>Binades\<close>

lemma ilog2_bounds:
  assumes "0 < x"
  shows "2 powi ilog2 x \<le> x" and "x < 2 powi (ilog2 x + 1)"
proof -
  obtain p q where pq: "quotient_of x = (p, q)" by fastforce
  have q: "0 < q" using quotient_of_denom_pos [OF pq] .
  have x: "x = of_int p / of_int q" using quotient_of_div [OF pq] .
  have p: "0 < p" using assms q by (simp add: x zero_less_divide_iff)
  define k where "k = bitlen p - bitlen q"
  have bp: "2 ^ nat (bitlen p - 1) \<le> p" "p < 2 ^ nat (bitlen p)" using bitlen_bounds [OF p] by auto
  have bq: "2 ^ nat (bitlen q - 1) \<le> q" "q < 2 ^ nat (bitlen q)" using bitlen_bounds [OF q] by auto
  have pos: "0 < bitlen p" "0 < bitlen q"
    using p q bp(2) bq(2) bitlen_nonneg [of p] bitlen_nonneg [of q]
    by (cases "bitlen p = 0"; cases "bitlen q = 0"; simp)+
  have conv: "(2 :: rat) powi n = of_int (2 ^ nat n)" if "0 \<le> n" for n :: int
    using that by (simp add: power_int_def)
  have P: "2 powi (bitlen p - 1) \<le> (of_int p :: rat)" "(of_int p :: rat) < 2 powi bitlen p"
    using bp pos by (simp_all only: conv of_int_le_iff of_int_less_iff)
  have Q: "2 powi (bitlen q - 1) \<le> (of_int q :: rat)" "(of_int q :: rat) < 2 powi bitlen q"
    using bq pos by (simp_all only: conv of_int_le_iff of_int_less_iff)
  have lo: "2 powi (k - 1) \<le> x"
  proof -
    have "(2::rat) powi (k - 1) * of_int q \<le> 2 powi (k - 1) * 2 powi bitlen q"
      using Q(2) by (simp add: mult_left_mono)
    also have "\<dots> = 2 powi (bitlen p - 1)" by (simp add: k_def power_int_add [symmetric])
    also have "\<dots> \<le> of_int p" by (rule P(1))
    finally show ?thesis using q by (simp add: x pos_le_divide_eq)
  qed
  have hi: "x < 2 powi (k + 1)"
  proof -
    have "(of_int p :: rat) < 2 powi bitlen p" by (rule P(2))
    also have "\<dots> = 2 powi (k + 1) * 2 powi (bitlen q - 1)"
      by (simp add: k_def power_int_add [symmetric])
    also have "\<dots> \<le> 2 powi (k + 1) * of_int q"
      using Q(1) by (simp add: mult_left_mono)
    finally show ?thesis using q by (simp add: x pos_divide_less_eq)
  qed
  show "2 powi ilog2 x \<le> x" using lo by (simp add: ilog2_def pq k_def [symmetric])
  show "x < 2 powi (ilog2 x + 1)" using hi by (simp add: ilog2_def pq k_def [symmetric])
qed

lemma ilog2_less: "0 < x \<Longrightarrow> x < 2 powi k \<Longrightarrow> ilog2 x < k"
proof (rule ccontr)
  assume x: "0 < x" "x < 2 powi k" and "\<not> ilog2 x < k"
  then have "(2::rat) powi k \<le> 2 powi ilog2 x" by (simp add: power_int_increasing)
  also have "\<dots> \<le> x" by (rule ilog2_bounds(1) [OF x(1)])
  finally show False using x(2) by simp
qed

lemma ilog2_ge: "0 < x \<Longrightarrow> 2 powi k \<le> x \<Longrightarrow> k \<le> ilog2 x"
proof (rule ccontr)
  assume x: "0 < x" "2 powi k \<le> x" and "\<not> k \<le> ilog2 x"
  then have "(2::rat) powi (ilog2 x + 1) \<le> 2 powi k" by (simp add: power_int_increasing)
  with x(2) ilog2_bounds(2) [OF x(1)] show False by simp
qed

section \<open>Rounding to an integer multiple\<close>

lemma round_half_even_le: "x \<le> of_int n \<Longrightarrow> round_half_even x \<le> n"
proof -
  assume le: "x \<le> of_int n"
  then have f: "\<lfloor>x\<rfloor> \<le> n" by linarith
  show ?thesis
  proof (cases "\<lfloor>x\<rfloor> = n")
    case True
    then have "x = of_int n" using le by linarith
    then show ?thesis by (simp add: round_half_even_def)
  next
    case False
    with f show ?thesis by (simp add: round_half_even_def Let_def)
  qed
qed

lemma round_half_even_ge: "of_int n \<le> x \<Longrightarrow> n \<le> round_half_even x"
proof -
  assume "of_int n \<le> x"
  then have "n \<le> \<lfloor>x\<rfloor>" by (simp add: le_floor_iff)
  then show ?thesis by (simp add: round_half_even_def Let_def)
qed

lemma round_half_even_mono: "x \<le> y \<Longrightarrow> round_half_even x \<le> round_half_even y"
proof -
  assume le: "x \<le> y"
  then have f: "\<lfloor>x\<rfloor> \<le> \<lfloor>y\<rfloor>" by (rule floor_mono)
  show ?thesis
  proof (cases "\<lfloor>x\<rfloor> = \<lfloor>y\<rfloor>")
    case True
    with le show ?thesis by (auto simp: round_half_even_def Let_def)
  next
    case False
    with f have "\<lfloor>x\<rfloor> + 1 \<le> \<lfloor>y\<rfloor>" by simp
    then show ?thesis by (auto simp: round_half_even_def Let_def)
  qed
qed

lemma round_half_even_error: "\<bar>of_int (round_half_even x) - x\<bar> \<le> 1 / 2"
proof -
  have "of_int \<lfloor>x\<rfloor> \<le> x" "x < of_int \<lfloor>x\<rfloor> + 1" by linarith+
  then show ?thesis by (auto simp: round_half_even_def Let_def abs_le_iff)
qed

definition rnd_val :: "rat \<Rightarrow> rat" where
  "rnd_val x = (let q = 2 powi quantum_exp x in of_int (round_half_even (x / q)) * q)"

lemma quantum_pos [simp]: "0 < (2 :: rat) powi quantum_exp x"
  by simp

lemma rnd_val_nonneg: "0 \<le> x \<Longrightarrow> 0 \<le> rnd_val x"
  using round_half_even_ge [of 0 "x / 2 powi quantum_exp x"] by (simp add: rnd_val_def Let_def)

text \<open>
  The fact the layout engine rests on: rounding a non-negative value that is at most a small
  integer never passes that integer, because below \<open>2 ^ 24\<close> the quantum divides one.
\<close>

lemma powi_int: "0 \<le> e \<Longrightarrow> (2 :: rat) powi e = of_int (2 ^ nat e)"
  by (simp add: power_int_def)

lemma powi_scale: "e \<le> k \<Longrightarrow> (2 :: rat) powi k = of_int (2 ^ nat (k - e)) * 2 powi e"
proof -
  assume "e \<le> k"
  then have "of_int (2 ^ nat (k - e)) * (2 :: rat) powi e = 2 powi (k - e) * 2 powi e"
    by (simp add: powi_int)
  also have "\<dots> = 2 powi k" by (simp add: power_int_add [symmetric])
  finally show ?thesis by simp
qed

lemma rnd_val_le_multiple:
  assumes "0 < x" "x \<le> of_int m * 2 powi k" "quantum_exp x \<le> k"
  shows "rnd_val x \<le> of_int m * 2 powi k"
proof -
  define e where "e = quantum_exp x"
  define q where "q = (2 :: rat) powi e"
  have q: "0 < q" by (simp add: q_def)
  have k: "2 powi k = of_int (2 ^ nat (k - e)) * q"
    unfolding q_def by (rule powi_scale) (use assms(3) in \<open>simp add: e_def\<close>)
  have "x / q \<le> of_int (m * 2 ^ nat (k - e))"
    using assms(2) q by (simp add: k pos_divide_le_eq mult.assoc)
  then have "round_half_even (x / q) \<le> m * 2 ^ nat (k - e)" by (rule round_half_even_le)
  then have "(of_int (round_half_even (x / q)) :: rat) \<le> of_int (m * 2 ^ nat (k - e))"
    by (simp only: of_int_le_iff)
  then have "of_int (round_half_even (x / q)) * q \<le> of_int (m * 2 ^ nat (k - e)) * q"
    using q by (simp add: mult_right_mono)
  then show ?thesis by (simp add: rnd_val_def Let_def k e_def [symmetric] q_def [symmetric] mult.assoc)
qed

lemma rnd_val_ge_multiple:
  assumes "0 < x" "of_int m * 2 powi k \<le> x" "quantum_exp x \<le> k"
  shows "of_int m * 2 powi k \<le> rnd_val x"
proof -
  define e where "e = quantum_exp x"
  define q where "q = (2 :: rat) powi e"
  have q: "0 < q" by (simp add: q_def)
  have k: "2 powi k = of_int (2 ^ nat (k - e)) * q"
    unfolding q_def by (rule powi_scale) (use assms(3) in \<open>simp add: e_def\<close>)
  have "of_int (m * 2 ^ nat (k - e)) \<le> x / q"
    using assms(2) q by (simp add: k pos_le_divide_eq mult.assoc)
  then have "m * 2 ^ nat (k - e) \<le> round_half_even (x / q)" by (rule round_half_even_ge)
  then have "(of_int (m * 2 ^ nat (k - e)) :: rat) \<le> of_int (round_half_even (x / q))"
    by (simp only: of_int_le_iff)
  then have "of_int (m * 2 ^ nat (k - e)) * q \<le> of_int (round_half_even (x / q)) * q"
    using q by (simp add: mult_right_mono)
  then show ?thesis by (simp add: rnd_val_def Let_def k e_def [symmetric] q_def [symmetric] mult.assoc)
qed

lemma quantum_exp_small: "0 < x \<Longrightarrow> x < 2 powi 24 \<Longrightarrow> quantum_exp x \<le> 0"
  using ilog2_less [of x 24] by (simp add: quantum_exp_def)

lemma rnd_val_le_int:
  assumes "0 \<le> x" "x \<le> of_nat n" "n < 2 ^ 24"
  shows "rnd_val x \<le> of_nat n"
proof (cases "x = 0")
  case True
  then show ?thesis by (simp add: rnd_val_def round_half_even_def)
next
  case False
  have "(of_nat n :: rat) < of_nat (2 ^ 24)" using assms(3) by (simp only: of_nat_less_iff)
  then have "x < 2 powi 24" using assms(2) by (simp add: power_int_def)
  with False assms(1) have "quantum_exp x \<le> 0" by (intro quantum_exp_small) auto
  then show ?thesis
    using rnd_val_le_multiple [of x "int n" 0] False assms(1,2) by simp
qed

lemma rnd32_val:
  assumes "0 \<le> x" "x \<le> of_nat n" "n < 2 ^ 24"
  shows "rnd32 x = Fin (rnd_val x)"
proof (cases "x = 0")
  case True
  then show ?thesis by (simp add: rnd32_def rnd_val_def round_half_even_def)
next
  case False
  have "(of_nat n :: rat) < of_nat (2 ^ 24)" using assms(3) by (simp only: of_nat_less_iff)
  moreover have "(of_nat (2 ^ 24) :: rat) \<le> 2 ^ 128" by simp
  ultimately have "rnd_val x < 2 ^ 128" using rnd_val_le_int [OF assms] by linarith
  then show ?thesis using False assms(1) by (simp add: rnd32_def rnd_val_def Let_def)
qed

text \<open>Rounding is monotone, also across binades, and moves a value by half a quantum at most.\<close>

lemma rnd_val_mono:
  assumes "0 < x" "x \<le> y"
  shows "rnd_val x \<le> rnd_val y"
proof (cases "quantum_exp x = quantum_exp y")
  case True
  have "round_half_even (x / 2 powi quantum_exp y) \<le> round_half_even (y / 2 powi quantum_exp y)"
    using assms(2) by (intro round_half_even_mono divide_right_mono) auto
  then show ?thesis by (simp add: rnd_val_def Let_def True mult_right_mono)
next
  case False
  have y: "0 < y" using assms by simp
  have "ilog2 x \<le> ilog2 y" using ilog2_ge [OF y] ilog2_bounds(1) [OF assms(1)] assms(2) by force
  with False have lt: "ilog2 x + 1 \<le> ilog2 y" and qy: "quantum_exp y = ilog2 y - 23"
    and qx: "quantum_exp x \<le> ilog2 y - 24"
    by (auto simp: quantum_exp_def split: if_splits)
  have "x \<le> of_int 1 * 2 powi ilog2 y"
  proof -
    have "x \<le> 2 powi (ilog2 x + 1)" using ilog2_bounds(2) [OF assms(1)] by simp
    also have "\<dots> \<le> 2 powi ilog2 y" using lt by (simp add: power_int_increasing)
    finally show ?thesis by simp
  qed
  then have "rnd_val x \<le> of_int 1 * 2 powi ilog2 y"
    using qx by (intro rnd_val_le_multiple [OF assms(1)]) auto
  also have "\<dots> \<le> rnd_val y"
    using qy ilog2_bounds(1) [OF y] by (intro rnd_val_ge_multiple [OF y]) auto
  finally show ?thesis .
qed

lemma rnd_val_error: "\<bar>rnd_val x - x\<bar> \<le> 2 powi quantum_exp x / 2"
proof -
  define q where "q = (2 :: rat) powi quantum_exp x"
  have q: "0 < q" by (simp add: q_def)
  have "rnd_val x - x = (of_int (round_half_even (x / q)) - x / q) * q"
    using q by (simp add: rnd_val_def Let_def q_def [symmetric] left_diff_distrib)
  then have "\<bar>rnd_val x - x\<bar> = \<bar>of_int (round_half_even (x / q)) - x / q\<bar> * q"
    using q by (simp add: abs_mult)
  also have "\<dots> \<le> 1 / 2 * q"
    using round_half_even_error [of "x / q"] q by (intro mult_right_mono) auto
  finally show ?thesis by (simp add: q_def)
qed

section \<open>The rounded share of a cell count\<close>

text \<open>\<open>(total as f32 * ratio).round() as u16\<close>, the expression every split is made of.\<close>

definition f32_share :: "f32 \<Rightarrow> u16 \<Rightarrow> u16" where
  "f32_share ratio cells = f32_as_u16 (f32_round (f32_mul (f32_of_u16 cells) ratio))"

text \<open>A value a layout ratio can take: NaN, or within \<open>[0, 1]\<close>.\<close>

fun unit_f32 :: "f32 \<Rightarrow> bool" where
  "unit_f32 (Fin r) = (0 \<le> r \<and> r \<le> 1)"
| "unit_f32 (Inf _) = False"
| "unit_f32 NaN = True"

lemma round_half_away_le_int:
  assumes "0 \<le> y" "y \<le> of_nat n"
  shows "round_half_away y \<le> of_nat n" and "0 \<le> round_half_away y"
proof -
  have "\<lfloor>y + 1 / 2\<rfloor> \<le> int n" using assms(2) by linarith
  then have "(of_int \<lfloor>y + 1 / 2\<rfloor> :: rat) \<le> of_int (int n)" by (simp only: of_int_le_iff)
  then show "round_half_away y \<le> of_nat n"
    using assms(1) by (auto simp: round_half_away_def sgn_if)
  show "0 \<le> round_half_away y" using assms(1) by (simp add: round_half_away_def sgn_if)
qed

lemma f32_share_le:
  assumes "unit_f32 r" "n \<le> u16_max"
  shows "f32_share r n \<le> n"
proof (cases r)
  case (Fin a)
  with assms have a: "0 \<le> a" "a \<le> 1" by auto
  have le: "of_nat n * a \<le> of_nat n" using a by (simp add: mult_left_le)
  have n24: "n < 2 ^ 24" using assms(2) by (simp add: u16_max_def)
  define y where "y = rnd_val (of_nat n * a)"
  have y: "rnd32 (of_nat n * a) = Fin y" "0 \<le> y" "y \<le> of_nat n"
    using rnd32_val [OF _ le n24] rnd_val_nonneg rnd_val_le_int [OF _ le n24] a by (auto simp: y_def)
  have "\<lfloor>round_half_away y\<rfloor> \<le> int n"
    using round_half_away_le_int(1) [OF y(2,3)] by linarith
  then show ?thesis by (simp add: f32_share_def f32_of_u16_def Fin y(1)) linarith
qed (use assms in \<open>auto simp: f32_share_def f32_of_u16_def\<close>)

text \<open>
  The share grows with the run it is taken from, by one cell per cell at most: the exact product
  moves by the ratio, which stays clear of one by more than the two rounding errors.
\<close>

definition share_val :: "rat \<Rightarrow> nat \<Rightarrow> int" where
  "share_val a n = \<lfloor>rnd_val (of_nat n * a) + 1 / 2\<rfloor>"

lemma f32_share_val:
  assumes "0 \<le> a" "a \<le> 1" "n \<le> u16_max"
  shows "int (f32_share (Fin a) n) = share_val a n"
proof -
  have le: "of_nat n * a \<le> of_nat n" using assms by (simp add: mult_left_le)
  have n24: "n < 2 ^ 24" using assms(3) by (simp add: u16_max_def)
  define y where "y = rnd_val (of_nat n * a)"
  have y: "rnd32 (of_nat n * a) = Fin y" "0 \<le> y" "y \<le> of_nat n"
    using rnd32_val [OF _ le n24] rnd_val_nonneg rnd_val_le_int [OF _ le n24] assms(1)
    by (auto simp: y_def)
  have fl: "0 \<le> \<lfloor>y + 1 / 2\<rfloor>" "\<lfloor>y + 1 / 2\<rfloor> \<le> int n" using y(2,3) by linarith+
  have half: "\<lfloor>(1 :: rat) / 2\<rfloor> = 0" by (simp add: floor_eq_iff)
  show ?thesis
  proof (cases "y = 0")
    case True
    then show ?thesis
      by (simp add: half f32_share_def f32_of_u16_def share_val_def y(1) y_def [symmetric] round_half_away_def)
  next
    case False
    with y(2) have "round_half_away y = of_int \<lfloor>y + 1 / 2\<rfloor>" by (simp add: round_half_away_def sgn_if)
    then show ?thesis
      using fl assms(3) floor_eq_iff [of "y + 1 / 2" 0]
      by (auto simp: f32_share_def f32_of_u16_def share_val_def y(1) y_def [symmetric])
  qed
qed

lemma quantum_u16: "0 < x \<Longrightarrow> x < 65536 \<Longrightarrow> (2 :: rat) powi quantum_exp x \<le> 1 / 256"
proof -
  assume x: "0 < x" "x < 65536"
  then have "ilog2 x < 16" using ilog2_less [of x 16] by (simp add: power_int_def)
  then have "quantum_exp x \<le> - 8" by (simp add: quantum_exp_def)
  then have "(2 :: rat) powi quantum_exp x \<le> 2 powi (- 8)" by (rule power_int_increasing) simp
  also have "(2 :: rat) powi (- 8) = 1 / 256" by (simp add: power_int_def power_divide)
  finally show ?thesis .
qed

lemma share_val_step:
  assumes "0 < a" "a \<le> 99 / 100" "n < u16_max"
  shows "share_val a n \<le> share_val a (Suc n)" and "share_val a (Suc n) \<le> share_val a n + 1"
proof -
  have "(of_nat (Suc n) :: rat) < of_nat 65536"
    using assms(3) unfolding u16_max_def by (intro iffD2 [OF of_nat_less_iff]) simp
  then have n: "(of_nat (Suc n) :: rat) < 65536" by (simp only: of_nat_numeral)
  have lt: "of_nat (Suc n) * a < 65536"
  proof -
    have "of_nat (Suc n) * a \<le> of_nat (Suc n) * 1" using assms by (intro mult_left_mono) auto
    then have "of_nat (Suc n) * a \<le> of_nat (Suc n)" by (simp only: mult_1_right)
    then show ?thesis using n by (rule le_less_trans)
  qed
  have step: "of_nat (Suc n) * a = of_nat n * a + a" by (simp add: algebra_simps)
  have pos: "0 < of_nat (Suc n) * a" using assms(1) by simp
  have err: "\<bar>rnd_val x - x\<bar> \<le> 1 / 512" if "0 \<le> x" "x < 65536" for x :: rat
  proof (cases "x = 0")
    case False
    then show ?thesis using rnd_val_error [of x] quantum_u16 [of x] that by simp
  qed (simp add: rnd_val_def round_half_even_def)
  have E: "\<bar>rnd_val (of_nat n * a) - of_nat n * a\<bar> \<le> 1 / 512"
    "\<bar>rnd_val (of_nat (Suc n) * a) - of_nat (Suc n) * a\<bar> \<le> 1 / 512"
    using assms(1) lt step by (intro err; simp)+
  have "rnd_val (of_nat n * a) \<le> rnd_val (of_nat (Suc n) * a)"
  proof (cases "n = 0")
    case True
    then show ?thesis using rnd_val_nonneg [of a] assms(1) by (simp add: rnd_val_def [of 0] round_half_even_def)
  next
    case False
    then show ?thesis using assms(1) step by (intro rnd_val_mono) auto
  qed
  then show "share_val a n \<le> share_val a (Suc n)" unfolding share_val_def by (intro floor_mono) simp
  have "rnd_val (of_nat (Suc n) * a) \<le> rnd_val (of_nat n * a) + 1"
    using E step assms(2) by linarith
  then show "share_val a (Suc n) \<le> share_val a n + 1" unfolding share_val_def by linarith
qed

end
