(* ===== verification/Layout.thy ===== *)
theory Layout
  imports Ids Float32
begin

text \<open>
  The layout engine, \<^verbatim>\<open>shux-core/src/layout.rs\<close>: a binary tree of splits with a pane in every
  leaf, the rectangles a viewport gives them, the tree operations (split, resize, remove, swap),
  directional focus, the fitted viewport of a detached window, and the zoom state of a window.

  Rectangles are in cells (\<open>u16\<close>); split ratios are binary32 values and are rounded the way the
  code rounds them (theory \<open>Float32\<close>).
\<close>

named_theorems layout_simps \<open>pane sets and shapes of layout trees\<close>

section \<open>Data\<close>

datatype direction = Horizontal | Vertical

fun perpendicular :: "direction \<Rightarrow> direction" where
  "perpendicular Horizontal = Vertical"
| "perpendicular Vertical = Horizontal"

definition MIN_RATIO :: f32 where "MIN_RATIO = rnd32 (5 / 100)"
definition MAX_RATIO :: f32 where "MAX_RATIO = rnd32 (95 / 100)"
definition SEPARATOR_SIZE :: u16 where "SEPARATOR_SIZE = 1"

datatype layout_node =
    Split (split_dir: direction) (split_ratio: f32) (child_a: layout_node) (child_b: layout_node)
  | Leaf (leaf_pane: pane_id)

record rect =
  rect_x :: u16
  rect_y :: u16
  rect_width :: u16
  rect_height :: u16

definition rect_new :: "u16 \<Rightarrow> u16 \<Rightarrow> u16 \<Rightarrow> u16 \<Rightarrow> rect" where
  "rect_new px py w h = \<lparr>rect_x = px, rect_y = py, rect_width = w, rect_height = h\<rparr>"

definition is_visible :: "rect \<Rightarrow> bool" where
  "is_visible r \<longleftrightarrow> 0 < rect_width r \<and> 0 < rect_height r"

datatype nav_direction = Up | Down | Left | Right

definition clamp_ratio :: "f32 \<Rightarrow> f32" where
  "clamp_ratio r = f32_clamp r MIN_RATIO MAX_RATIO"

section \<open>Geometry\<close>

fun split_rect :: "rect \<Rightarrow> direction \<Rightarrow> f32 \<Rightarrow> rect \<times> rect" where
  "split_rect v Vertical ratio =
     (let cells = rect_width v - SEPARATOR_SIZE;
          a_width = f32_share ratio cells;
          b_width = cells - a_width
      in (rect_new (rect_x v) (rect_y v) a_width (rect_height v),
          rect_new (wrap16 (rect_x v + a_width + SEPARATOR_SIZE)) (rect_y v) b_width (rect_height v)))"
| "split_rect v Horizontal ratio =
     (let cells = rect_height v - SEPARATOR_SIZE;
          a_height = f32_share ratio cells;
          b_height = cells - a_height
      in (rect_new (rect_x v) (rect_y v) (rect_width v) a_height,
          rect_new (rect_x v) (wrap16 (rect_y v + a_height + SEPARATOR_SIZE)) (rect_width v) b_height))"

section \<open>Trees\<close>

definition node_split :: "direction \<Rightarrow> f32 \<Rightarrow> layout_node \<Rightarrow> layout_node \<Rightarrow> layout_node" where
  "node_split d r a b = Split d (clamp_ratio r) a b"

fun is_leaf :: "layout_node \<Rightarrow> bool" where
  "is_leaf (Leaf _) = True"
| "is_leaf (Split _ _ _ _) = False"

fun pane_id_of :: "layout_node \<Rightarrow> pane_id option" where
  "pane_id_of (Leaf p) = Some p"
| "pane_id_of (Split _ _ _ _) = None"

fun collect_pane_ids :: "layout_node \<Rightarrow> pane_id list \<Rightarrow> pane_id list" where
  "collect_pane_ids (Leaf p) acc = acc @ [p]"
| "collect_pane_ids (Split _ _ a b) acc = collect_pane_ids b (collect_pane_ids a acc)"

definition pane_ids :: "layout_node \<Rightarrow> pane_id list" where
  "pane_ids t = collect_pane_ids t []"

fun pane_count :: "layout_node \<Rightarrow> nat" where
  "pane_count (Leaf _) = 1"
| "pane_count (Split _ _ a b) = pane_count a + pane_count b"

fun contains_pane :: "layout_node \<Rightarrow> pane_id \<Rightarrow> bool" where
  "contains_pane (Leaf p) target = (p = target)"
| "contains_pane (Split _ _ a b) target = (contains_pane a target \<or> contains_pane b target)"

fun depth_of_inner :: "layout_node \<Rightarrow> pane_id \<Rightarrow> nat \<Rightarrow> nat option" where
  "depth_of_inner (Leaf p) target d = (if p = target then Some d else None)"
| "depth_of_inner (Split _ _ a b) target d =
     (case depth_of_inner a target (d + 1) of
        Some k \<Rightarrow> Some k
      | None \<Rightarrow> depth_of_inner b target (d + 1))"

definition depth_of :: "layout_node \<Rightarrow> pane_id \<Rightarrow> nat option" where
  "depth_of t target = depth_of_inner t target 0"

fun compute_rects_inner :: "layout_node \<Rightarrow> rect \<Rightarrow> (pane_id \<times> rect) list \<Rightarrow> (pane_id \<times> rect) list" where
  "compute_rects_inner (Leaf p) v acc = acc @ [(p, v)]"
| "compute_rects_inner (Split d r a b) v acc =
     (let (ra, rb) = split_rect v d r
      in compute_rects_inner b rb (compute_rects_inner a ra acc))"

definition compute_rects :: "layout_node \<Rightarrow> rect \<Rightarrow> (pane_id \<times> rect) list" where
  "compute_rects t v = compute_rects_inner t v []"

fun split_pane :: "layout_node \<Rightarrow> pane_id \<Rightarrow> pane_id \<Rightarrow> direction \<Rightarrow> f32 \<Rightarrow> layout_node option" where
  "split_pane (Leaf p) target new d r =
     (if p = target then Some (node_split d r (Leaf target) (Leaf new)) else None)"
| "split_pane (Split sd sr a b) target new d r =
     (case split_pane a target new d r of
        Some a' \<Rightarrow> Some (node_split sd sr a' b)
      | None \<Rightarrow> map_option (\<lambda>b'. node_split sd sr a b') (split_pane b target new d r))"

definition smart_split :: "layout_node \<Rightarrow> pane_id \<Rightarrow> pane_id \<Rightarrow> rect \<Rightarrow> layout_node option" where
  "smart_split t target new v =
     (case List.find (\<lambda>(p, _). p = target) (compute_rects t v) of
        None \<Rightarrow> None
      | Some (_, r) \<Rightarrow>
          let d = (if rect_height r \<le> rect_width r then Vertical else Horizontal)
          in split_pane t target new d (Fin (1 / 2)))"

fun resize_pane :: "layout_node \<Rightarrow> pane_id \<Rightarrow> direction \<Rightarrow> f32 \<Rightarrow> layout_node option" where
  "resize_pane (Leaf _) target d delta = None"
| "resize_pane (Split sd r a b) target d delta =
     (let in_a = contains_pane a target; in_b = contains_pane b target
      in if \<not> in_a \<and> \<not> in_b then None
         else if sd = d then
           (let r' = (if in_a then clamp_ratio (f32_add r delta) else clamp_ratio (f32_sub r delta))
            in Some (node_split sd r' a b))
         else if in_a then map_option (\<lambda>a'. node_split sd r a' b) (resize_pane a target d delta)
         else map_option (\<lambda>b'. node_split sd r a b') (resize_pane b target d delta))"

fun remove_pane :: "layout_node \<Rightarrow> pane_id \<Rightarrow> layout_node option" where
  "remove_pane (Leaf _) target = None"
| "remove_pane (Split d r a b) target =
     (if a = Leaf target then Some b
      else if b = Leaf target then Some a
      else if contains_pane a target then map_option (\<lambda>a'. node_split d r a' b) (remove_pane a target)
      else if contains_pane b target then map_option (\<lambda>b'. node_split d r a b') (remove_pane b target)
      else None)"

fun swap_inner :: "layout_node \<Rightarrow> pane_id \<Rightarrow> pane_id \<Rightarrow> layout_node" where
  "swap_inner (Leaf p) pa pb = (if p = pa then Leaf pb else if p = pb then Leaf pa else Leaf p)"
| "swap_inner (Split d r a b) pa pb = node_split d r (swap_inner a pa pb) (swap_inner b pa pb)"

definition swap_panes :: "layout_node \<Rightarrow> pane_id \<Rightarrow> pane_id \<Rightarrow> layout_node option" where
  "swap_panes t pa pb =
     (if \<not> contains_pane t pa \<or> \<not> contains_pane t pb then None else Some (swap_inner t pa pb))"

section \<open>Directional focus\<close>

definition center_x :: "rect \<Rightarrow> int" where
  "center_x r = int (rect_x r) + int (rect_width r) div 2"

definition center_y :: "rect \<Rightarrow> int" where
  "center_y r = int (rect_y r) + int (rect_height r) div 2"

fun nav_valid :: "nav_direction \<Rightarrow> int \<Rightarrow> int \<Rightarrow> int \<Rightarrow> int \<Rightarrow> bool" where
  "nav_valid Left cx cy px py = (px < cx)"
| "nav_valid Right cx cy px py = (cx < px)"
| "nav_valid Up cx cy px py = (py < cy)"
| "nav_valid Down cx cy px py = (cy < py)"

fun nav_dist :: "nav_direction \<Rightarrow> int \<Rightarrow> int \<Rightarrow> int \<Rightarrow> int \<Rightarrow> int" where
  "nav_dist Left cx cy px py = \<bar>px - cx\<bar> * 1000 + \<bar>py - cy\<bar>"
| "nav_dist Right cx cy px py = \<bar>px - cx\<bar> * 1000 + \<bar>py - cy\<bar>"
| "nav_dist Up cx cy px py = \<bar>py - cy\<bar> * 1000 + \<bar>px - cx\<bar>"
| "nav_dist Down cx cy px py = \<bar>py - cy\<bar> * 1000 + \<bar>px - cx\<bar>"

fun best_neighbor ::
  "pane_id \<Rightarrow> nav_direction \<Rightarrow> int \<Rightarrow> int \<Rightarrow> (pane_id \<times> rect) list \<Rightarrow> (pane_id \<times> int) option
     \<Rightarrow> (pane_id \<times> int) option" where
  "best_neighbor cur nd cx cy [] best = best"
| "best_neighbor cur nd cx cy ((p, r) # rest) best =
     (if p = cur then best_neighbor cur nd cx cy rest best
      else let px = center_x r; py = center_y r
           in if nav_valid nd cx cy px py then
                (let dist = nav_dist nd cx cy px py
                 in best_neighbor cur nd cx cy rest
                      (case best of
                         None \<Rightarrow> Some (p, dist)
                       | Some (_, d) \<Rightarrow> if dist < d then Some (p, dist) else best))
              else best_neighbor cur nd cx cy rest best)"

definition directional_focus :: "layout_node \<Rightarrow> pane_id \<Rightarrow> nav_direction \<Rightarrow> rect \<Rightarrow> pane_id option" where
  "directional_focus t cur nd v =
     (let rects = compute_rects t v
      in case List.find (\<lambda>(p, _). p = cur) rects of
           None \<Rightarrow> None
         | Some (_, r) \<Rightarrow> map_option fst (best_neighbor cur nd (center_x r) (center_y r) rects None))"

section \<open>Fitted viewports\<close>

type_synonym sizes = "pane_id \<Rightarrow> (u16 \<times> u16) option"

fun reratioed :: "layout_node \<Rightarrow> sizes \<Rightarrow> (layout_node \<times> (u16 \<times> u16)) option" where
  "reratioed (Leaf p) size_of = map_option (\<lambda>s. (Leaf p, s)) (size_of p)"
| "reratioed (Split d _ a b) size_of =
     (case reratioed a size_of of
        None \<Rightarrow> None
      | Some (a', aw, ah) \<Rightarrow>
          (case reratioed b size_of of
             None \<Rightarrow> None
           | Some (b', bw, bh) \<Rightarrow>
               let ((x, y), size) =
                     (case d of
                        Vertical \<Rightarrow> ((aw, bw), (sat_add16 (sat_add16 aw SEPARATOR_SIZE) bw, max ah bh))
                      | Horizontal \<Rightarrow> ((ah, bh), (max aw bw, sat_add16 (sat_add16 ah SEPARATOR_SIZE) bh)));
                   ratio = f32_div (f32_of_u16 x) (f32_of_u16 (max (sat_add16 x y) 1))
               in Some (node_split d ratio a' b', size)))"

text \<open>The largest shortfall of any sized pane along one axis, 0 when there is none.\<close>

definition deficit ::
  "layout_node \<Rightarrow> sizes \<Rightarrow> u16 \<Rightarrow> u16 \<Rightarrow> (rect \<Rightarrow> u16 \<times> u16 \<Rightarrow> u16) \<Rightarrow> u16" where
  "deficit t size_of w h axis =
     foldr max (List.map_filter (\<lambda>(p, r). map_option (\<lambda>s. axis r s) (size_of p))
                  (compute_rects t (rect_new 0 0 w h))) 0"

definition short_cols :: "rect \<Rightarrow> u16 \<times> u16 \<Rightarrow> u16" where
  "short_cols r s = fst s - rect_width r"

definition short_rows :: "rect \<Rightarrow> u16 \<times> u16 \<Rightarrow> u16" where
  "short_rows r s = snd s - rect_height r"

text \<open>
  The two growth loops.  The last disjunct of each exit test is implied by the one before it for
  any cap that is a \<open>u16\<close>; it makes the functions total on every \<open>nat\<close>.
\<close>

function grow_width :: "layout_node \<Rightarrow> sizes \<Rightarrow> u16 \<Rightarrow> u16 \<Rightarrow> u16 \<Rightarrow> u16" where
  "grow_width t size_of cap h w =
     (let short = deficit t size_of w h short_cols
      in if short = 0 \<or> cap \<le> w \<or> u16_max \<le> w then w
         else grow_width t size_of cap h (min (sat_add16 w short) cap))"
  by pat_completeness auto
termination
  by (relation "measure (\<lambda>(t, size_of, cap, h, w). cap - w)") (auto simp: sat_add16_def)

function grow_height :: "layout_node \<Rightarrow> sizes \<Rightarrow> u16 \<Rightarrow> u16 \<Rightarrow> u16 \<Rightarrow> u16" where
  "grow_height t size_of cap w h =
     (let short = deficit t size_of w h short_rows
      in if short = 0 \<or> cap \<le> h \<or> u16_max \<le> h then h
         else grow_height t size_of cap w (min (sat_add16 h short) cap))"
  by pat_completeness auto
termination
  by (relation "measure (\<lambda>(t, size_of, cap, w, h). cap - h)") (auto simp: sat_add16_def)

declare grow_width.simps [simp del] grow_height.simps [simp del]

definition fitted :: "layout_node \<Rightarrow> sizes \<Rightarrow> u16 \<Rightarrow> (layout_node \<times> (u16 \<times> u16)) option" where
  "fitted t size_of cap =
     (case reratioed t size_of of
        None \<Rightarrow> None
      | Some (t', w0, h0) \<Rightarrow>
          let w = grow_width t' size_of cap h0 w0;
              h = grow_height t' size_of cap w h0
          in Some (t', min w cap, min h cap))"

section \<open>Window layouts and zoom\<close>

record zoom_state =
  saved_layout :: layout_node
  zoomed_pane_of :: pane_id

record window_layout =
  wl_tree :: layout_node
  wl_zoom :: "zoom_state option"

definition wl_new :: "pane_id \<Rightarrow> window_layout" where
  "wl_new p = \<lparr>wl_tree = Leaf p, wl_zoom = None\<rparr>"

definition wl_is_zoomed :: "window_layout \<Rightarrow> bool" where
  "wl_is_zoomed l \<longleftrightarrow> wl_zoom l \<noteq> None"

text \<open>\<open>if let Some(zoom) = self.zoom.take() { self.tree = zoom.saved_layout; }\<close>\<close>

definition wl_take_zoom :: "window_layout \<Rightarrow> window_layout" where
  "wl_take_zoom l =
     (case wl_zoom l of
        None \<Rightarrow> l
      | Some z \<Rightarrow> \<lparr>wl_tree = saved_layout z, wl_zoom = None\<rparr>)"

definition toggle_zoom :: "window_layout \<Rightarrow> pane_id \<Rightarrow> window_layout" where
  "toggle_zoom l p =
     (let l' = wl_take_zoom l
      in if (case wl_zoom l of None \<Rightarrow> False | Some z \<Rightarrow> zoomed_pane_of z = p) then l'
         else if contains_pane (wl_tree l') p \<and> 1 < pane_count (wl_tree l') then
           \<lparr>wl_tree = Leaf p,
            wl_zoom = Some \<lparr>saved_layout = wl_tree l', zoomed_pane_of = p\<rparr>\<rparr>
         else l')"

definition wl_compute_rects :: "window_layout \<Rightarrow> rect \<Rightarrow> (pane_id \<times> rect) list" where
  "wl_compute_rects l v = compute_rects (wl_tree l) v"

definition wl_split_pane ::
  "window_layout \<Rightarrow> pane_id \<Rightarrow> pane_id \<Rightarrow> direction \<Rightarrow> f32 \<Rightarrow> window_layout \<times> bool" where
  "wl_split_pane l target new d r =
     (let l' = wl_take_zoom l
      in case split_pane (wl_tree l') target new d r of
           Some t \<Rightarrow> (l'\<lparr>wl_tree := t\<rparr>, True)
         | None \<Rightarrow> (l', False))"

definition wl_smart_split :: "window_layout \<Rightarrow> pane_id \<Rightarrow> pane_id \<Rightarrow> rect \<Rightarrow> window_layout \<times> bool" where
  "wl_smart_split l target new v =
     (let l' = wl_take_zoom l
      in case smart_split (wl_tree l') target new v of
           Some t \<Rightarrow> (l'\<lparr>wl_tree := t\<rparr>, True)
         | None \<Rightarrow> (l', False))"

definition wl_remove_pane :: "window_layout \<Rightarrow> pane_id \<Rightarrow> window_layout \<times> bool" where
  "wl_remove_pane l p =
     (let l' = wl_take_zoom l
      in case remove_pane (wl_tree l') p of
           Some t \<Rightarrow> (l'\<lparr>wl_tree := t\<rparr>, True)
         | None \<Rightarrow> (l', False))"

section \<open>Pane lists and shapes\<close>

lemma collect_pane_ids_append: "collect_pane_ids t acc = acc @ collect_pane_ids t []"
proof (induction t arbitrary: acc)
  case (Split d r a b)
  have "collect_pane_ids (Split d r a b) acc = collect_pane_ids a acc @ collect_pane_ids b []"
    using Split.IH(2) [of "collect_pane_ids a acc"] by simp
  also have "\<dots> = acc @ collect_pane_ids a [] @ collect_pane_ids b []"
    using Split.IH(1) [of acc] by simp
  also have "collect_pane_ids a [] @ collect_pane_ids b [] = collect_pane_ids (Split d r a b) []"
    using Split.IH(2) [of "collect_pane_ids a []"] by simp
  finally show ?case .
qed simp

lemma pane_ids_simps [simp]:
  "pane_ids (Leaf p) = [p]"
  "pane_ids (Split d r a b) = pane_ids a @ pane_ids b"
  using collect_pane_ids_append [of b "collect_pane_ids a []"] by (simp_all add: pane_ids_def)

lemma pane_ids_node_split [simp]: "pane_ids (node_split d r a b) = pane_ids a @ pane_ids b"
  by (simp add: node_split_def)

lemma pane_ids_nonempty [simp]: "pane_ids t \<noteq> []"
  by (induction t) auto

lemma length_pane_ids [layout_simps]: "length (pane_ids t) = pane_count t"
  by (induction t) auto

lemma contains_pane_iff [layout_simps]: "contains_pane t p \<longleftrightarrow> p \<in> set (pane_ids t)"
  by (induction t) auto

lemma pane_count_pos [simp]: "0 < pane_count t"
  by (induction t) auto

lemma compute_rects_inner_append:
  "compute_rects_inner t v acc = acc @ compute_rects_inner t v []"
proof (induction t arbitrary: v acc)
  case (Split d r a b)
  obtain ra rb where s: "split_rect v d r = (ra, rb)" by fastforce
  have "compute_rects_inner (Split d r a b) v acc
      = compute_rects_inner a ra acc @ compute_rects_inner b rb []"
    using Split.IH(2) [of rb "compute_rects_inner a ra acc"] by (simp add: s)
  also have "\<dots> = acc @ compute_rects_inner a ra [] @ compute_rects_inner b rb []"
    using Split.IH(1) [of ra acc] by simp
  also have "compute_rects_inner a ra [] @ compute_rects_inner b rb []
      = compute_rects_inner (Split d r a b) v []"
    using Split.IH(2) [of rb "compute_rects_inner a ra []"] by (simp add: s)
  finally show ?case .
qed simp

lemma compute_rects_simps [simp]:
  "compute_rects (Leaf p) v = [(p, v)]"
  "compute_rects (Split d r a b) v =
     compute_rects a (fst (split_rect v d r)) @ compute_rects b (snd (split_rect v d r))"
  using compute_rects_inner_append [of b "snd (split_rect v d r)"
      "compute_rects_inner a (fst (split_rect v d r)) []"]
  by (simp_all add: compute_rects_def split_beta)

lemma map_fst_compute_rects: "map fst (compute_rects t v) = pane_ids t"
  by (induction t arbitrary: v) auto

end
