(* ===== verification/Layout_Geometry.thy ===== *)
theory Layout_Geometry
  imports Layout
begin

text \<open>
  What the rectangles of a layout are: no cell of the viewport belongs to two panes and no pane
  reaches outside it, and directional focus picks the nearest pane on the asked side.
\<close>

section \<open>Clamped ratios\<close>

definition ratio_ok :: "f32 \<Rightarrow> bool" where
  "ratio_ok r \<longleftrightarrow> clamp_ratio r = r"

primrec ratios_ok :: "layout_node \<Rightarrow> bool" where
  "ratios_ok (Leaf _) = True"
| "ratios_ok (Split _ r a b) = (ratio_ok r \<and> ratios_ok a \<and> ratios_ok b)"

lemma MIN_RATIO_val: "MIN_RATIO = Fin (13421773 / 268435456)"
  unfolding MIN_RATIO_def by code_simp

lemma MAX_RATIO_val: "MAX_RATIO = Fin (15938355 / 16777216)"
  unfolding MAX_RATIO_def by code_simp

lemmas ratio_consts = MIN_RATIO_val MAX_RATIO_val

lemma clamp_ratio_idem [simp]: "clamp_ratio (clamp_ratio r) = clamp_ratio r"
  by (cases r) (auto simp: clamp_ratio_def f32_clamp_def ratio_consts Let_def)

lemma ratio_ok_clamp [simp]: "ratio_ok (clamp_ratio r)"
  by (simp add: ratio_ok_def)

lemma ratios_ok_node_split [simp]: "ratios_ok (node_split d r a b) = (ratios_ok a \<and> ratios_ok b)"
  by (simp add: node_split_def)

lemma ratio_ok_cases: "ratio_ok r \<longleftrightarrow> r = NaN \<or> (\<exists>q. r = Fin q \<and> 13421773 / 268435456 \<le> q \<and> q \<le> 15938355 / 16777216)"
  by (cases r) (auto simp: ratio_ok_def clamp_ratio_def f32_clamp_def ratio_consts Let_def)

lemma ratio_ok_unit: "ratio_ok r \<Longrightarrow> unit_f32 r"
  by (auto simp: ratio_ok_cases)

lemma node_split_ok: "ratio_ok r \<Longrightarrow> node_split d r a b = Split d r a b"
  by (simp add: node_split_def ratio_ok_def)

section \<open>Sharing a run of cells\<close>

definition in_run :: "nat \<Rightarrow> nat \<Rightarrow> nat \<Rightarrow> bool" where
  "in_run start len c \<longleftrightarrow> start \<le> c \<and> c < start + len"

text \<open>
  The interface between the arithmetic of ratios and the geometry: a share never exceeds what is
  shared.  Everything about the two halves of a split follows from that alone.
\<close>

locale cell_share =
  fixes share :: "'r \<Rightarrow> nat \<Rightarrow> nat"
    and fair :: "'r \<Rightarrow> bool"
  assumes share_le: "fair r \<Longrightarrow> n \<le> u16_max \<Longrightarrow> share r n \<le> n"
begin

lemma share_pred_le: "fair r \<Longrightarrow> s + n \<le> u16_max \<Longrightarrow> share r (n - 1) \<le> n - 1"
  by (rule share_le) auto

lemma halves_sum: "fair r \<Longrightarrow> n \<le> u16_max \<Longrightarrow> 0 < n \<Longrightarrow>
  share r (n - 1) + 1 + (n - 1 - share r (n - 1)) = n"
  using share_le [of r "n - 1"] by linarith

lemma second_start: "fair r \<Longrightarrow> s + n \<le> u16_max \<Longrightarrow> 0 < n \<Longrightarrow>
  wrap16 (s + share r (n - 1) + 1) = s + share r (n - 1) + 1"
  using share_le [of r "n - 1"] by (intro wrap16_id) linarith

lemma halves_within:
  assumes "fair r" "s + n \<le> u16_max"
    and "in_run s (share r (n - 1)) c \<or>
         in_run (wrap16 (s + share r (n - 1) + 1)) (n - 1 - share r (n - 1)) c"
  shows "in_run s n c"
proof (cases "n = 0")
  case True
  then show ?thesis using assms share_le [of r 0] by (auto simp: in_run_def)
next
  case False
  then show ?thesis
    using assms(3) second_start [OF assms(1,2)] share_pred_le [OF assms(1,2)]
    by (auto simp: in_run_def)
qed

lemma halves_disjoint:
  assumes "fair r" "s + n \<le> u16_max"
    and "in_run s (share r (n - 1)) c"
    and "in_run (wrap16 (s + share r (n - 1) + 1)) (n - 1 - share r (n - 1)) c"
  shows False
proof (cases "n = 0")
  case True
  then show ?thesis using assms share_le [of r 0] by (auto simp: in_run_def)
next
  case False
  then show ?thesis using assms second_start [OF assms(1,2)] by (auto simp: in_run_def)
qed

lemma halves_cover:
  assumes "fair r" "s + n \<le> u16_max" "in_run s n c"
  shows "in_run s (share r (n - 1)) c \<or> c = s + share r (n - 1) \<or>
         in_run (wrap16 (s + share r (n - 1) + 1)) (n - 1 - share r (n - 1)) c"
proof -
  have "0 < n" using assms(3) by (auto simp: in_run_def)
  then show ?thesis
    using assms(3) second_start [OF assms(1,2)] share_pred_le [OF assms(1,2)]
    by (auto simp: in_run_def)
qed

lemma separator_outside:
  assumes "fair r" "s + n \<le> u16_max" "0 < n"
  shows "\<not> in_run s (share r (n - 1)) (s + share r (n - 1))"
    and "\<not> in_run (wrap16 (s + share r (n - 1) + 1)) (n - 1 - share r (n - 1)) (s + share r (n - 1))"
    and "in_run s n (s + share r (n - 1))"
  using second_start [OF assms] share_pred_le [OF assms(1,2)] assms(3) by (auto simp: in_run_def)

lemma second_in_range:
  assumes "fair r" "s + n \<le> u16_max"
  shows "wrap16 (s + share r (n - 1) + 1) + (n - 1 - share r (n - 1)) \<le> u16_max"
proof (cases "n = 0")
  case True
  then show ?thesis using assms by (simp add: wrap16_def u16_max_def)
next
  case False
  then show ?thesis
    using assms(2) second_start [OF assms(1,2)] share_pred_le [OF assms(1,2)] by auto
qed

end

interpretation f32_cells: cell_share f32_share ratio_ok
  by unfold_locales (simp add: f32_share_le ratio_ok_unit)

section \<open>Panes tile the viewport\<close>

definition rect_cell :: "rect \<Rightarrow> nat \<Rightarrow> nat \<Rightarrow> bool" where
  "rect_cell r cx cy \<longleftrightarrow>
     in_run (rect_x r) (rect_width r) cx \<and> in_run (rect_y r) (rect_height r) cy"

definition rect_in_range :: "rect \<Rightarrow> bool" where
  "rect_in_range r \<longleftrightarrow> rect_x r + rect_width r \<le> u16_max \<and> rect_y r + rect_height r \<le> u16_max"

definition panes_at :: "layout_node \<Rightarrow> rect \<Rightarrow> nat \<Rightarrow> nat \<Rightarrow> (pane_id \<times> rect) list" where
  "panes_at t v cx cy = filter (\<lambda>(_, r). rect_cell r cx cy) (compute_rects t v)"

lemma split_rect_in_range:
  assumes "rect_in_range v" "ratio_ok r"
  shows "rect_in_range (fst (split_rect v d r)) \<and> rect_in_range (snd (split_rect v d r))"
proof (cases d)
  case Horizontal
  have le: "rect_y v + rect_height v \<le> u16_max" using assms(1) by (simp add: rect_in_range_def)
  then have "rect_y v + f32_share r (rect_height v - 1) \<le> u16_max"
    using f32_cells.share_pred_le [OF assms(2) le] by linarith
  with Horizontal assms f32_cells.second_in_range [of r "rect_y v" "rect_height v"] show ?thesis
    by (simp add: rect_in_range_def rect_new_def Let_def SEPARATOR_SIZE_def)
next
  case Vertical
  have le: "rect_x v + rect_width v \<le> u16_max" using assms(1) by (simp add: rect_in_range_def)
  then have "rect_x v + f32_share r (rect_width v - 1) \<le> u16_max"
    using f32_cells.share_pred_le [OF assms(2) le] by linarith
  with Vertical assms f32_cells.second_in_range [of r "rect_x v" "rect_width v"] show ?thesis
    by (simp add: rect_in_range_def rect_new_def Let_def SEPARATOR_SIZE_def)
qed

lemma split_rect_cells:
  assumes "rect_in_range v" "ratio_ok r"
  shows "rect_cell (fst (split_rect v d r)) cx cy \<Longrightarrow> rect_cell v cx cy"
    and "rect_cell (snd (split_rect v d r)) cx cy \<Longrightarrow> rect_cell v cx cy"
    and "rect_cell (fst (split_rect v d r)) cx cy \<Longrightarrow> \<not> rect_cell (snd (split_rect v d r)) cx cy"
proof -
  have H: "rect_x v + rect_width v \<le> u16_max" "rect_y v + rect_height v \<le> u16_max"
    using assms(1) by (auto simp: rect_in_range_def)
  note unfold = rect_cell_def rect_new_def Let_def SEPARATOR_SIZE_def
  show "rect_cell (fst (split_rect v d r)) cx cy \<Longrightarrow> rect_cell v cx cy"
    using f32_cells.halves_within [OF assms(2) H(1), of cx] f32_cells.halves_within [OF assms(2) H(2), of cy]
    by (cases d) (auto simp: unfold)
  show "rect_cell (snd (split_rect v d r)) cx cy \<Longrightarrow> rect_cell v cx cy"
    using f32_cells.halves_within [OF assms(2) H(1), of cx] f32_cells.halves_within [OF assms(2) H(2), of cy]
    by (cases d) (auto simp: unfold)
  show "rect_cell (fst (split_rect v d r)) cx cy \<Longrightarrow> \<not> rect_cell (snd (split_rect v d r)) cx cy"
    using f32_cells.halves_disjoint [OF assms(2) H(1), of cx] f32_cells.halves_disjoint [OF assms(2) H(2), of cy]
    by (cases d) (auto simp: unfold)
qed

text \<open>The cells of the one-cell lines between the two sides of every split.\<close>

fun separator_at :: "layout_node \<Rightarrow> rect \<Rightarrow> nat \<Rightarrow> nat \<Rightarrow> bool" where
  "separator_at (Leaf _) v cx cy = False"
| "separator_at (Split d r a b) v cx cy =
     (let (va, vb) = split_rect v d r
      in rect_cell v cx cy \<and>
           (case d of Vertical \<Rightarrow> cx = rect_x v + rect_width va
                    | Horizontal \<Rightarrow> cy = rect_y v + rect_height va)
         \<or> separator_at a va cx cy \<or> separator_at b vb cx cy)"

lemma split_rect_separator:
  assumes "rect_in_range v" "ratio_ok r" "rect_cell v cx cy"
  shows "(case d of Vertical \<Rightarrow> cx = rect_x v + rect_width (fst (split_rect v d r))
                  | Horizontal \<Rightarrow> cy = rect_y v + rect_height (fst (split_rect v d r)))
     \<longleftrightarrow> \<not> rect_cell (fst (split_rect v d r)) cx cy \<and> \<not> rect_cell (snd (split_rect v d r)) cx cy"
proof -
  have H: "rect_x v + rect_width v \<le> u16_max" "rect_y v + rect_height v \<le> u16_max"
    using assms(1) by (auto simp: rect_in_range_def)
  have c: "in_run (rect_x v) (rect_width v) cx" "in_run (rect_y v) (rect_height v) cy"
    using assms(3) by (auto simp: rect_cell_def)
  then have pos: "0 < rect_width v" "0 < rect_height v" by (auto simp: in_run_def)
  show ?thesis
  proof (cases d)
    case Vertical
    with c f32_cells.halves_cover [OF assms(2) H(1) c(1)] f32_cells.separator_outside [OF assms(2) H(1) pos(1)]
    show ?thesis by (auto simp: rect_cell_def rect_new_def Let_def SEPARATOR_SIZE_def)
  next
    case Horizontal
    with c f32_cells.halves_cover [OF assms(2) H(2) c(2)] f32_cells.separator_outside [OF assms(2) H(2) pos(2)]
    show ?thesis by (auto simp: rect_cell_def rect_new_def Let_def SEPARATOR_SIZE_def)
  qed
qed

lemma separator_at_cell:
  "ratios_ok t \<Longrightarrow> rect_in_range v \<Longrightarrow> separator_at t v cx cy \<Longrightarrow> rect_cell v cx cy"
proof (induction t arbitrary: v)
  case (Split d r a b)
  have ok: "ratio_ok r" "ratios_ok a" "ratios_ok b" using Split.prems(1) by auto
  let ?va = "fst (split_rect v d r)" and ?vb = "snd (split_rect v d r)"
  from split_rect_in_range [OF Split.prems(2) ok(1), of d]
    split_rect_cells(1,2) [OF Split.prems(2) ok(1), of d cx cy]
    Split.IH(1) [OF ok(2), of ?va] Split.IH(2) [OF ok(3), of ?vb] Split.prems(3)
  show ?case by (auto simp: split_beta)
qed simp

lemma panes_at_Split:
  "panes_at (Split d r a b) v cx cy =
     panes_at a (fst (split_rect v d r)) cx cy @ panes_at b (snd (split_rect v d r)) cx cy"
  by (simp add: panes_at_def)

lemma panes_at_count:
  "ratios_ok t \<Longrightarrow> rect_in_range v \<Longrightarrow>
     length (panes_at t v cx cy) = (if rect_cell v cx cy \<and> \<not> separator_at t v cx cy then 1 else 0)"
proof (induction t arbitrary: v)
  case (Leaf p)
  then show ?case by (simp add: panes_at_def)
next
  case (Split d r a b)
  let ?va = "fst (split_rect v d r)" and ?vb = "snd (split_rect v d r)"
  have ok: "ratio_ok r" "ratios_ok a" "ratios_ok b" using Split.prems(1) by auto
  have rng: "rect_in_range ?va" "rect_in_range ?vb"
    using split_rect_in_range [OF Split.prems(2) ok(1)] by auto
  note cells = split_rect_cells [OF Split.prems(2) ok(1), of d cx cy]
  have sep: "separator_at (Split d r a b) v cx cy \<longleftrightarrow>
      rect_cell v cx cy \<and> \<not> rect_cell ?va cx cy \<and> \<not> rect_cell ?vb cx cy
      \<or> separator_at a ?va cx cy \<or> separator_at b ?vb cx cy"
    using split_rect_separator [OF Split.prems(2) ok(1), of cx cy d] by (auto simp: split_beta)
  have len: "length (panes_at (Split d r a b) v cx cy) =
      (if rect_cell ?va cx cy \<and> \<not> separator_at a ?va cx cy then 1 else 0) +
      (if rect_cell ?vb cx cy \<and> \<not> separator_at b ?vb cx cy then 1 else 0)"
    using Split.IH(1) [OF ok(2) rng(1)] Split.IH(2) [OF ok(3) rng(2)] by (simp add: panes_at_Split)
  have sa: "separator_at a ?va cx cy \<Longrightarrow> rect_cell ?va cx cy"
    by (rule separator_at_cell [OF ok(2) rng(1)])
  have sb: "separator_at b ?vb cx cy \<Longrightarrow> rect_cell ?vb cx cy"
    by (rule separator_at_cell [OF ok(3) rng(2)])
  show ?case unfolding len sep using cells sa sb by auto
qed

section \<open>Directional focus\<close>

definition nav_candidates :: "pane_id \<Rightarrow> nav_direction \<Rightarrow> int \<Rightarrow> int \<Rightarrow> (pane_id \<times> rect) list \<Rightarrow> (pane_id \<times> int) list" where
  "nav_candidates cur nd cx cy rects =
     map (\<lambda>(p, r). (p, nav_dist nd cx cy (center_x r) (center_y r)))
       (filter (\<lambda>(p, r). p \<noteq> cur \<and> nav_valid nd cx cy (center_x r) (center_y r)) rects)"

lemma best_neighbor_spec:
  "best_neighbor cur nd cx cy rects best = res \<Longrightarrow>
     (res = None \<longleftrightarrow> best = None \<and> nav_candidates cur nd cx cy rects = []) \<and>
     (\<forall>p d. res = Some (p, d) \<longrightarrow>
        (best = Some (p, d) \<or> (p, d) \<in> set (nav_candidates cur nd cx cy rects)) \<and>
        (\<forall>(q, e) \<in> set (nav_candidates cur nd cx cy rects). d \<le> e) \<and>
        (\<forall>q e. best = Some (q, e) \<longrightarrow> d \<le> e))"
proof (induction cur nd cx cy rects best arbitrary: res rule: best_neighbor.induct)
  case (1 cur nd cx cy best)
  then show ?case by (auto simp: nav_candidates_def)
next
  case (2 cur nd cx cy p r rest best)
  let ?d = "nav_dist nd cx cy (center_x r) (center_y r)"
  consider "p = cur \<or> \<not> nav_valid nd cx cy (center_x r) (center_y r)"
    | "p \<noteq> cur" "nav_valid nd cx cy (center_x r) (center_y r)" by blast
  then show ?case
  proof cases
    case 1
    then have "nav_candidates cur nd cx cy ((p, r) # rest) = nav_candidates cur nd cx cy rest"
      by (auto simp: nav_candidates_def)
    moreover have "best_neighbor cur nd cx cy rest best = res" using 1 2(4) by (auto simp: Let_def)
    ultimately show ?thesis using 1 2(1,3) by (metis (no_types, lifting))
  next
    case 2
    let ?best = "case best of None \<Rightarrow> Some (p, ?d) | Some (_, d) \<Rightarrow> if ?d < d then Some (p, ?d) else best"
    have c: "nav_candidates cur nd cx cy ((p, r) # rest) = (p, ?d) # nav_candidates cur nd cx cy rest"
      using 2 by (simp add: nav_candidates_def)
    have "best_neighbor cur nd cx cy rest ?best = res" using 2 \<open>best_neighbor _ _ _ _ _ _ = res\<close> by (simp add: Let_def)
    note IH = "2.IH"(2) [OF 2(1) refl refl 2(2) refl this]
    show ?thesis using IH unfolding c by (cases best) (fastforce split: if_splits prod.splits)+
  qed
qed

text \<open>C9: the panes tile the viewport: every pane of the tree gets one rectangle, in tree order, and
  a cell belongs to exactly one pane when it lies in the viewport off the one-cell separator lines,
  and to none otherwise.  So panes never overlap and never reach outside the viewport, for every
  ratio the clamp lets through and with the binary32 rounding of the code.\<close>

theorem panes_tile_the_viewport:
  assumes "ratios_ok t" and "rect_in_range v"
  shows "map fst (compute_rects t v) = pane_ids t \<and>
         length (filter (\<lambda>(_, r). rect_cell r cx cy) (compute_rects t v))
           = (if rect_cell v cx cy \<and> \<not> separator_at t v cx cy then 1 else 0)"
  using panes_at_count [OF assms, of cx cy] by (simp add: map_fst_compute_rects panes_at_def)

lemma half_share_79: "f32_share (Fin (1 / 2)) 79 = 40"
proof -
  have "rnd32 (79 / 2) = Fin (79 / 2)" by code_simp
  moreover have "rnd32 79 = Fin 79" by code_simp
  ultimately show ?thesis by (simp add: f32_share_def f32_of_u16_def round_half_away_def u16_max_def)
qed

theorem panes_tile_the_viewport_witness:
  "let t = Split Vertical (Fin (1 / 2)) (Leaf (PaneId 1)) (Leaf (PaneId 2)); v = rect_new 0 0 80 24
   in length (filter (\<lambda>(_, r). rect_cell r 39 5) (compute_rects t v)) = 1 \<and>
      length (filter (\<lambda>(_, r). rect_cell r 40 5) (compute_rects t v)) = 0"
proof -
  let ?t = "Split Vertical (Fin (1 / 2)) (Leaf (PaneId 1)) (Leaf (PaneId 2))"
  have "ratios_ok ?t" by (simp add: ratio_ok_def clamp_ratio_def f32_clamp_def ratio_consts Let_def)
  moreover have "rect_in_range (rect_new 0 0 80 24)" by (simp add: rect_in_range_def rect_new_def u16_max_def)
  moreover have "\<not> separator_at ?t (rect_new 0 0 80 24) 39 5" "separator_at ?t (rect_new 0 0 80 24) 40 5"
    by (simp_all add: half_share_79 rect_new_def in_run_def SEPARATOR_SIZE_def rect_cell_def wrap16_def)
  moreover have "rect_cell (rect_new 0 0 80 24) 39 5" by (simp add: rect_cell_def in_run_def rect_new_def)
  ultimately show ?thesis
    using panes_tile_the_viewport [of ?t "rect_new 0 0 80 24" 39 5]
      panes_tile_the_viewport [of ?t "rect_new 0 0 80 24" 40 5] by (simp add: Let_def)
qed

lemma find_rect:
  assumes "distinct (pane_ids t)" "(p, r) \<in> set (compute_rects t v)"
  shows "List.find (\<lambda>(q, _). q = p) (compute_rects t v) = Some (p, r)"
proof -
  have d: "distinct (map fst (compute_rects t v))" using assms(1) by (simp add: map_fst_compute_rects)
  obtain q s where f: "List.find (\<lambda>(q, _). q = p) (compute_rects t v) = Some (q, s)"
    using assms(2) find_None_all [of "\<lambda>(q, _). q = p" "compute_rects t v"]
    by (cases "List.find (\<lambda>(q, _). q = p) (compute_rects t v)") auto
  from find_Some_iff_mem [OF f] have "(q, s) \<in> set (compute_rects t v)" "q = p" by auto
  with d assms(2) have "s = r" by (metis eq_key_imp_eq_value)
  with f \<open>q = p\<close> show ?thesis by simp
qed

definition on_side :: "nav_direction \<Rightarrow> rect \<Rightarrow> rect \<Rightarrow> bool" where
  "on_side nd rc r \<longleftrightarrow> nav_valid nd (center_x rc) (center_y rc) (center_x r) (center_y r)"

definition nav_metric :: "nav_direction \<Rightarrow> rect \<Rightarrow> rect \<Rightarrow> int" where
  "nav_metric nd rc r = nav_dist nd (center_x rc) (center_y rc) (center_x r) (center_y r)"

text \<open>directional focus answers with the nearest pane strictly on the asked side, in the code's
  metric, and answers nothing exactly when no pane lies on that side.\<close>

theorem directional_focus_nearest:
  assumes "distinct (pane_ids t)" and "(cur, rc) \<in> set (compute_rects t v)"
  shows "(directional_focus t cur nd v = None \<longleftrightarrow>
            (\<forall>(q, s) \<in> set (compute_rects t v). q = cur \<or> \<not> on_side nd rc s)) \<and>
         (\<forall>p. directional_focus t cur nd v = Some p \<longrightarrow>
            (\<exists>r. (p, r) \<in> set (compute_rects t v) \<and> p \<noteq> cur \<and> on_side nd rc r \<and>
               (\<forall>(q, s) \<in> set (compute_rects t v). q \<noteq> cur \<longrightarrow> on_side nd rc s \<longrightarrow> nav_metric nd rc r \<le> nav_metric nd rc s)))"
proof -
  let ?rects = "compute_rects t v"
  let ?best = "best_neighbor cur nd (center_x rc) (center_y rc) ?rects None"
  let ?cands = "nav_candidates cur nd (center_x rc) (center_y rc) ?rects"
  have focus: "directional_focus t cur nd v = map_option fst ?best"
    by (simp add: directional_focus_def find_rect [OF assms(1,2)])
  note spec = best_neighbor_spec [of cur nd "center_x rc" "center_y rc" ?rects None ?best, OF refl]
  have mem: "(q, e) \<in> set ?cands \<longleftrightarrow> (\<exists>s. (q, s) \<in> set ?rects \<and> q \<noteq> cur \<and> on_side nd rc s \<and> e = nav_metric nd rc s)" for q e
    by (auto simp: nav_candidates_def on_side_def nav_metric_def)
  have empty: "?cands = [] \<longleftrightarrow> (\<forall>(q, s) \<in> set ?rects. q = cur \<or> \<not> on_side nd rc s)"
    by (auto simp: nav_candidates_def on_side_def filter_empty_conv)
  show ?thesis
  proof (cases ?best)
    case None
    then show ?thesis using spec by (simp add: focus empty)
  next
    case (Some pd)
    then obtain p d where pd: "?best = Some (p, d)" by (cases pd) auto
    with spec have "(p, d) \<in> set ?cands" and least: "\<forall>(q, e) \<in> set ?cands. d \<le> e" and "?cands \<noteq> []"
      by auto
    then obtain r where r: "(p, r) \<in> set ?rects" "p \<noteq> cur" "on_side nd rc r" "d = nav_metric nd rc r" using mem by blast
    have "\<forall>(q, s) \<in> set ?rects. q \<noteq> cur \<longrightarrow> on_side nd rc s \<longrightarrow> nav_metric nd rc r \<le> nav_metric nd rc s"
      using least mem r(4) by blast
    with r pd \<open>?cands \<noteq> []\<close> show ?thesis by (auto simp: focus empty)
  qed
qed

theorem directional_focus_nearest_witness:
  "directional_focus (Split Vertical (Fin (1 / 2)) (Leaf (PaneId 1)) (Leaf (PaneId 2))) (PaneId 1) Right
     (rect_new 0 0 80 24) \<noteq> None"
proof -
  let ?t = "Split Vertical (Fin (1 / 2)) (Leaf (PaneId 1)) (Leaf (PaneId 2))"
  have rects: "compute_rects ?t (rect_new 0 0 80 24) =
      [(PaneId 1, rect_new 0 0 40 24), (PaneId 2, rect_new 41 0 39 24)]"
    by (simp add: half_share_79 rect_new_def SEPARATOR_SIZE_def wrap16_def)
  then show ?thesis
    using directional_focus_nearest [of ?t "PaneId 1" "rect_new 0 0 40 24" "rect_new 0 0 80 24" Right]
    by (simp add: on_side_def center_x_def rect_new_def)
qed

end
