(* ===== verification/Layout_Tree.thy ===== *)
theory Layout_Tree
  imports Layout_Geometry
begin

text \<open>
  The tree operations of the layout engine and what the session graph may rely on: which panes a
  layout holds after a split, a removal, a swap, a resize or a zoom.  The last section states that
  as an interface, \<open>pane_arrangement\<close>, and shows that window layouts implement it.
\<close>

section \<open>Split\<close>

lemma split_pane_None: "split_pane t target new d r = None \<longleftrightarrow> target \<notin> set (pane_ids t)"
  by (induction t) (auto split: option.splits)

lemma split_pane_not_leaf: "split_pane t target new d r = Some t' \<Longrightarrow> \<not> is_leaf t'"
  by (cases t) (auto simp: node_split_def split: if_splits option.splits)

lemma split_pane_order:
  "split_pane t target new d r = Some t' \<Longrightarrow>
     \<exists>xs ys. pane_ids t = xs @ target # ys \<and> target \<notin> set xs \<and> pane_ids t' = xs @ target # new # ys"
proof (induction t arbitrary: t')
  case (Leaf p)
  then have "pane_ids (Leaf p) = [] @ target # [] \<and> target \<notin> set [] \<and> pane_ids t' = [] @ target # new # []"
    by (auto split: if_splits)
  then show ?case by blast
next
  case (Split sd sr a b)
  show ?case
  proof (cases "split_pane a target new d r")
    case None
    then obtain b' where b: "split_pane b target new d r = Some b'" "t' = node_split sd sr a b'"
      using Split.prems by auto
    from Split.IH(2) [OF b(1)] obtain xs ys where
      "pane_ids b = xs @ target # ys" "target \<notin> set xs" "pane_ids b' = xs @ target # new # ys" by auto
    moreover have "target \<notin> set (pane_ids a)" using None by (simp add: split_pane_None)
    ultimately have "pane_ids (Split sd sr a b) = (pane_ids a @ xs) @ target # ys \<and>
        target \<notin> set (pane_ids a @ xs) \<and> pane_ids t' = (pane_ids a @ xs) @ target # new # ys"
      using b(2) by simp
    then show ?thesis by blast
  next
    case (Some a')
    then have t': "t' = node_split sd sr a' b" using Split.prems by simp
    from Split.IH(1) [OF Some] obtain xs ys where
      "pane_ids a = xs @ target # ys" "target \<notin> set xs" "pane_ids a' = xs @ target # new # ys" by auto
    then have "pane_ids (Split sd sr a b) = xs @ target # (ys @ pane_ids b) \<and>
        target \<notin> set xs \<and> pane_ids t' = xs @ target # new # (ys @ pane_ids b)"
      using t' by simp
    then show ?thesis by blast
  qed
qed

lemma split_pane_ratios: "split_pane t target new d r = Some t' \<Longrightarrow> ratios_ok t \<Longrightarrow> ratios_ok t'"
  by (induction t arbitrary: t') (auto split: if_splits option.splits)

lemma split_pane_set:
  assumes "split_pane t target new d r = Some t'"
  shows "set (pane_ids t') = insert new (set (pane_ids t))" and "target \<in> set (pane_ids t)"
  using split_pane_order [OF assms] by auto

lemma split_pane_distinct:
  assumes "split_pane t target new d r = Some t'" "distinct (pane_ids t)" "new \<notin> set (pane_ids t)"
  shows "distinct (pane_ids t')"
  using split_pane_order [OF assms(1)] assms(2,3) by auto

section \<open>Removal\<close>

lemma remove_pane_None: "remove_pane t p = None \<longleftrightarrow> p \<notin> set (pane_ids t) \<or> is_leaf t"
proof (induction t)
  case (Split d r a b)
  then show ?case by (cases a; cases b) (auto simp: contains_pane_iff)
qed simp

lemma remove_pane_ids:
  "remove_pane t p = Some t' \<Longrightarrow> distinct (pane_ids t) \<Longrightarrow> pane_ids t' = filter (\<lambda>q. q \<noteq> p) (pane_ids t)"
proof (induction t arbitrary: t')
  case (Split d r a b)
  have out: "p \<notin> set (pane_ids x) \<Longrightarrow> filter (\<lambda>q. q \<noteq> p) (pane_ids x) = pane_ids x" for x
    by (auto simp: filter_id_conv)
  consider "a = Leaf p" | "a \<noteq> Leaf p" "b = Leaf p"
    | a' where "a \<noteq> Leaf p" "b \<noteq> Leaf p" "p \<in> set (pane_ids a)" "remove_pane a p = Some a'" "t' = node_split d r a' b"
    | b' where "a \<noteq> Leaf p" "b \<noteq> Leaf p" "p \<notin> set (pane_ids a)" "remove_pane b p = Some b'" "t' = node_split d r a b'"
    using Split.prems(1) by (auto simp: contains_pane_iff split: if_splits)
  then show ?case
  proof cases
    case 1
    with Split.prems show ?thesis by (simp add: out)
  next
    case 2
    with Split.prems show ?thesis by (auto simp: out split: if_splits)
  next
    case (3 a')
    with Split.prems have "p \<notin> set (pane_ids b)" by auto
    with 3 Split show ?thesis by (simp add: out)
  next
    case (4 b')
    with Split show ?thesis by (simp add: out)
  qed
qed simp

lemma distinct_remove1_filter_length:
  "distinct xs \<Longrightarrow> x \<in> set xs \<Longrightarrow> length xs = length (filter (\<lambda>y. y \<noteq> x) xs) + 1"
proof (induction xs)
  case (Cons y ys)
  have "x \<notin> set ys \<Longrightarrow> filter (\<lambda>y. y \<noteq> x) ys = ys" by (auto simp: filter_id_conv)
  with Cons show ?case by auto
qed simp

lemma remove_pane_ratios: "remove_pane t p = Some t' \<Longrightarrow> ratios_ok t \<Longrightarrow> ratios_ok t'"
  by (induction t arbitrary: t') (auto split: if_splits)

lemma remove_pane_facts:
  assumes "remove_pane t p = Some t'" "distinct (pane_ids t)"
  shows "distinct (pane_ids t')" and "set (pane_ids t') = set (pane_ids t) - {p}"
  using remove_pane_ids [OF assms] assms(2) by auto

lemma remove_split_inverse:
  "split_pane t target new d r = Some t' \<Longrightarrow> new \<notin> set (pane_ids t) \<Longrightarrow> ratios_ok t \<Longrightarrow>
     remove_pane t' new = Some t"
proof (induction t arbitrary: t')
  case (Leaf p)
  then show ?case by (auto simp: node_split_def split: if_splits)
next
  case (Split sd sr a b)
  have fresh: "new \<notin> set (pane_ids a)" "new \<notin> set (pane_ids b)" and ok: "ratio_ok sr" "ratios_ok a" "ratios_ok b"
    using Split.prems by auto
  have ne: "a \<noteq> Leaf new" "b \<noteq> Leaf new" using fresh by auto
  show ?case
  proof (cases "split_pane a target new d r")
    case (Some a')
    then have t': "t' = Split sd sr a' b" using Split.prems(1) ok by (simp add: node_split_ok)
    have "new \<in> set (pane_ids a')" "a' \<noteq> Leaf new"
      using split_pane_set [OF Some] split_pane_not_leaf [OF Some] by auto
    with Split.IH(1) [OF Some fresh(1) ok(2)] ne ok show ?thesis
      by (simp add: t' contains_pane_iff node_split_ok)
  next
    case None
    then obtain b' where b: "split_pane b target new d r = Some b'" and t': "t' = Split sd sr a b'"
      using Split.prems(1) ok by (auto simp: node_split_ok)
    have "new \<in> set (pane_ids b')" "b' \<noteq> Leaf new"
      using split_pane_set [OF b] split_pane_not_leaf [OF b] by auto
    with Split.IH(2) [OF b fresh(2) ok(3)] ne ok fresh show ?thesis
      by (simp add: t' contains_pane_iff node_split_ok)
  qed
qed

section \<open>Swap\<close>

definition swap_id :: "pane_id \<Rightarrow> pane_id \<Rightarrow> pane_id \<Rightarrow> pane_id" where
  "swap_id pa pb p = (if p = pa then pb else if p = pb then pa else p)"

lemma swap_id_inj: "inj (swap_id pa pb)"
  by (auto simp: inj_def swap_id_def split: if_splits)

lemma pane_ids_swap: "pane_ids (swap_inner t pa pb) = map (swap_id pa pb) (pane_ids t)"
  by (induction t) (auto simp: swap_id_def)

lemma swap_ratios: "ratios_ok t \<Longrightarrow> ratios_ok (swap_inner t pa pb)"
  by (induction t) auto

lemma swap_inner_involution: "ratios_ok t \<Longrightarrow> swap_inner (swap_inner t pa pb) pa pb = t"
  by (induction t) (auto simp: node_split_def ratio_ok_def)

lemma swap_panes_facts:
  assumes "swap_panes t pa pb = Some t'"
  shows "set (pane_ids t') = set (pane_ids t)" and "distinct (pane_ids t') = distinct (pane_ids t)"
    and "ratios_ok t \<Longrightarrow> ratios_ok t'"
proof -
  have ab: "pa \<in> set (pane_ids t)" "pb \<in> set (pane_ids t)" and t': "t' = swap_inner t pa pb"
    using assms by (auto simp: swap_panes_def contains_pane_iff split: if_splits)
  show "set (pane_ids t') = set (pane_ids t)"
    using ab by (auto simp: t' pane_ids_swap swap_id_def image_iff)
  show "distinct (pane_ids t') = distinct (pane_ids t)"
    using swap_id_inj [of pa pb] by (simp add: t' pane_ids_swap distinct_map inj_on_subset [OF swap_id_inj])
  show "ratios_ok t \<Longrightarrow> ratios_ok t'" by (simp add: t' swap_ratios)
qed

section \<open>Resize\<close>

lemma resize_pane_ids: "resize_pane t p d delta = Some t' \<Longrightarrow> pane_ids t' = pane_ids t"
  by (induction t arbitrary: t') (auto simp: Let_def split: if_splits)

lemma resize_pane_ratios: "resize_pane t p d delta = Some t' \<Longrightarrow> ratios_ok t \<Longrightarrow> ratios_ok t'"
  by (induction t arbitrary: t') (auto simp: Let_def split: if_splits)

text \<open>A split in direction \<open>d\<close> lies above the pane.\<close>

fun under_split :: "layout_node \<Rightarrow> pane_id \<Rightarrow> direction \<Rightarrow> bool" where
  "under_split (Leaf _) p d = False"
| "under_split (Split sd _ a b) p d =
     (contains_pane a p \<and> (sd = d \<or> under_split a p d) \<or>
      contains_pane b p \<and> (sd = d \<or> under_split b p d))"

lemma resize_pane_None:
  "distinct (pane_ids t) \<Longrightarrow> resize_pane t p d delta = None \<longleftrightarrow> \<not> under_split t p d"
proof (induction t)
  case (Split sd r a b)
  then show ?case by (auto simp: Let_def contains_pane_iff split: if_splits)
qed simp

section \<open>Window layouts\<close>

text \<open>The whole arrangement of a window, also while a zoom hides part of it.\<close>

definition full_tree :: "window_layout \<Rightarrow> layout_node" where
  "full_tree l = (case wl_zoom l of None \<Rightarrow> wl_tree l | Some z \<Rightarrow> saved_layout z)"

definition wl_panes :: "window_layout \<Rightarrow> pane_id set" where
  "wl_panes l = set (pane_ids (full_tree l))"

definition wl_shown :: "window_layout \<Rightarrow> pane_id list" where
  "wl_shown l = pane_ids (wl_tree l)"

definition zoom_ok :: "window_layout \<Rightarrow> bool" where
  "zoom_ok l \<longleftrightarrow>
     (\<forall>z. wl_zoom l = Some z \<longrightarrow>
        wl_tree l = Leaf (zoomed_pane_of z) \<and> zoomed_pane_of z \<in> set (pane_ids (saved_layout z)) \<and>
        1 < pane_count (saved_layout z))"

definition wl_ok :: "window_layout \<Rightarrow> bool" where
  "wl_ok l \<longleftrightarrow> distinct (pane_ids (full_tree l)) \<and> ratios_ok (full_tree l) \<and> zoom_ok l"

lemma take_zoom_facts [simp]:
  "wl_tree (wl_take_zoom l) = full_tree l" "wl_zoom (wl_take_zoom l) = None"
  by (auto simp: wl_take_zoom_def full_tree_def split: option.splits)

lemma full_tree_take_zoom [simp]: "full_tree (wl_take_zoom l) = full_tree l"
  by (simp add: full_tree_def [of "wl_take_zoom l"])

lemma wl_ok_unzoomed:
  "wl_zoom l = None \<Longrightarrow> wl_ok l \<longleftrightarrow> distinct (pane_ids (wl_tree l)) \<and> ratios_ok (wl_tree l)"
  by (simp add: wl_ok_def full_tree_def zoom_ok_def)

lemma wl_ok_take_zoom: "wl_ok l \<Longrightarrow> wl_ok (wl_take_zoom l)"
  by (simp add: wl_ok_unzoomed) (simp add: wl_ok_def)

lemma wl_new_facts: "wl_ok (wl_new p)" "wl_panes (wl_new p) = {p}" "wl_shown (wl_new p) = [p]"
  by (simp_all add: wl_new_def wl_ok_def full_tree_def zoom_ok_def wl_panes_def wl_shown_def)

lemma shown_subset: "wl_ok l \<Longrightarrow> set (wl_shown l) \<subseteq> wl_panes l"
  by (auto simp: wl_ok_def zoom_ok_def wl_panes_def wl_shown_def full_tree_def split: option.splits)

lemma unzoomed_shown: "wl_zoom l = None \<Longrightarrow> set (wl_shown l) = wl_panes l"
  by (simp add: wl_panes_def wl_shown_def full_tree_def)

lemma wl_split_facts:
  assumes "wl_ok l" "target \<in> wl_panes l" "new \<notin> wl_panes l"
  shows "\<exists>l'. wl_split_pane l target new d r = (l', True) \<and> wl_ok l' \<and> wl_zoom l' = None \<and>
           wl_panes l' = insert new (wl_panes l)"
proof -
  obtain t' where t': "split_pane (full_tree l) target new d r = Some t'"
    using assms(2) split_pane_None [of "full_tree l" target new d r] by (auto simp: wl_panes_def)
  have "distinct (pane_ids t')" "ratios_ok t'"
    using split_pane_distinct [OF t'] split_pane_ratios [OF t'] assms
    by (auto simp: wl_ok_def wl_panes_def)
  with split_pane_set(1) [OF t'] show ?thesis
    by (simp add: wl_split_pane_def Let_def t' wl_ok_unzoomed) (simp add: wl_panes_def full_tree_def)
qed

lemma wl_remove_facts:
  assumes "wl_ok l" "p \<in> wl_panes l" "wl_panes l \<noteq> {p}"
  shows "\<exists>l'. wl_remove_pane l p = (l', True) \<and> wl_ok l' \<and> wl_zoom l' = None \<and>
           wl_panes l' = wl_panes l - {p}"
proof -
  have "\<not> is_leaf (full_tree l)" using assms(2,3) by (cases "full_tree l") (auto simp: wl_panes_def)
  then obtain t' where t': "remove_pane (full_tree l) p = Some t'"
    using assms(2) remove_pane_None [of "full_tree l" p] by (auto simp: wl_panes_def)
  have "distinct (pane_ids t')" "ratios_ok t'" "set (pane_ids t') = set (pane_ids (full_tree l)) - {p}"
    using remove_pane_facts [OF t'] remove_pane_ratios [OF t'] assms(1) by (auto simp: wl_ok_def)
  then show ?thesis
    by (simp add: wl_remove_pane_def Let_def t' wl_ok_unzoomed) (simp add: wl_panes_def full_tree_def)
qed

lemma toggle_zoom_facts:
  assumes "wl_ok l"
  shows "wl_ok (toggle_zoom l p)" and "wl_panes (toggle_zoom l p) = wl_panes l"
    and "wl_zoom (toggle_zoom l p) \<noteq> None \<Longrightarrow> wl_shown (toggle_zoom l p) = [p]"
proof -
  show "wl_ok (toggle_zoom l p)"
    using wl_ok_take_zoom [OF assms] assms
    by (auto simp: toggle_zoom_def Let_def contains_pane_iff wl_ok_def full_tree_def zoom_ok_def)
  show "wl_panes (toggle_zoom l p) = wl_panes l"
    by (auto simp: toggle_zoom_def Let_def wl_panes_def) (auto simp: full_tree_def)
  show "wl_zoom (toggle_zoom l p) \<noteq> None \<Longrightarrow> wl_shown (toggle_zoom l p) = [p]"
    by (auto simp: toggle_zoom_def Let_def wl_shown_def split: if_splits)
qed

section \<open>What the session graph relies on\<close>

locale pane_arrangement =
  fixes panes :: "'l \<Rightarrow> 'p set"
    and shown :: "'l \<Rightarrow> 'p list"
    and zoomed :: "'l \<Rightarrow> bool"
    and good :: "'l \<Rightarrow> bool"
    and add :: "'l \<Rightarrow> 'p \<Rightarrow> 'p \<Rightarrow> 'd \<Rightarrow> 'r \<Rightarrow> 'l \<times> bool"
    and remove :: "'l \<Rightarrow> 'p \<Rightarrow> 'l \<times> bool"
  assumes shown_panes: "good l \<Longrightarrow> set (shown l) \<subseteq> panes l"
    and shown_some: "shown l \<noteq> []"
    and all_shown: "good l \<Longrightarrow> \<not> zoomed l \<Longrightarrow> set (shown l) = panes l"
    and add_law: "good l \<Longrightarrow> t \<in> panes l \<Longrightarrow> n \<notin> panes l \<Longrightarrow>
      \<exists>l'. add l t n d r = (l', True) \<and> good l' \<and> \<not> zoomed l' \<and> panes l' = insert n (panes l)"
    and remove_law: "good l \<Longrightarrow> p \<in> panes l \<Longrightarrow> panes l \<noteq> {p} \<Longrightarrow>
      \<exists>l'. remove l p = (l', True) \<and> good l' \<and> \<not> zoomed l' \<and> panes l' = panes l - {p}"
begin

text \<open>The pane that takes the focus when the focused one is destroyed is a survivor on screen.\<close>

lemma survivor:
  assumes "good l" "p \<in> panes l" "panes l \<noteq> {p}"
  shows "hd (shown (fst (remove l p))) \<in> panes l - {p}"
    and "hd (shown (fst (remove l p))) \<in> set (shown (fst (remove l p)))"
proof -
  obtain l' where l': "remove l p = (l', True)" "good l'" "panes l' = panes l - {p}"
    using remove_law [OF assms] by blast
  have "hd (shown l') \<in> set (shown l')" by (rule hd_in_set [OF shown_some])
  then show "hd (shown (fst (remove l p))) \<in> panes l - {p}"
    and "hd (shown (fst (remove l p))) \<in> set (shown (fst (remove l p)))"
    using shown_panes [OF l'(2)] l' by auto
qed

text \<open>A survivor that was in the arrangement is on screen after a removal.\<close>

lemma others_shown:
  assumes "good l" "p \<in> panes l" "q \<in> panes l" "q \<noteq> p"
  shows "q \<in> set (shown (fst (remove l p)))"
proof -
  have "panes l \<noteq> {p}" using assms(3,4) by blast
  then obtain l' where "remove l p = (l', True)" "good l'" "\<not> zoomed l'" "panes l' = panes l - {p}"
    using remove_law [OF assms(1,2)] by blast
  then show ?thesis using all_shown [of l'] assms(3,4) by simp
qed

text \<open>The new pane of a split is on screen.\<close>

lemma added_shown:
  assumes "good l" "t \<in> panes l" "n \<notin> panes l"
  shows "n \<in> set (shown (fst (add l t n d r)))"
proof -
  obtain l' where "add l t n d r = (l', True)" "good l'" "\<not> zoomed l'" "panes l' = insert n (panes l)"
    using add_law [OF assms] by blast
  then show ?thesis using all_shown [of l'] by simp
qed

end

interpretation window_panes: pane_arrangement wl_panes wl_shown wl_is_zoomed wl_ok wl_split_pane wl_remove_pane
proof unfold_locales
  fix l p assume "wl_ok l" "p \<in> wl_panes l" "wl_panes l \<noteq> {p}"
  from wl_remove_facts [OF this] show "\<exists>l'. wl_remove_pane l p = (l', True) \<and> wl_ok l' \<and>
      \<not> wl_is_zoomed l' \<and> wl_panes l' = wl_panes l - {p}"
    by (auto simp: wl_is_zoomed_def)
next
  fix l t n d r assume "wl_ok l" "t \<in> wl_panes l" "n \<notin> wl_panes l"
  from wl_split_facts [OF this] show "\<exists>l'. wl_split_pane l t n d r = (l', True) \<and> wl_ok l' \<and>
      \<not> wl_is_zoomed l' \<and> wl_panes l' = insert n (wl_panes l)"
    by (auto simp: wl_is_zoomed_def)
qed (auto simp: shown_subset unzoomed_shown wl_is_zoomed_def, simp add: wl_shown_def)

section \<open>Properties of the tree operations\<close>

definition demo_tree :: layout_node where
  "demo_tree = Split Vertical (Fin (1 / 2)) (Leaf (PaneId 1))
     (Split Horizontal (Fin (1 / 2)) (Leaf (PaneId 2)) (Leaf (PaneId 3)))"

lemma half_ok: "ratio_ok (Fin (1 / 2))"
  unfolding ratio_ok_cases by (rule disjI2, rule exI [of _ "1 / 2"]) simp

lemma demo_tree_facts:
  "distinct (pane_ids demo_tree)" "ratios_ok demo_tree" "pane_ids demo_tree = [PaneId 1, PaneId 2, PaneId 3]"
  by (simp_all add: demo_tree_def half_ok)

text \<open>\<open>LayoutNode::split_pane\<close> answers \<open>None\<close> exactly when the target is not in the tree; otherwise
  the new pane stands right after the target in tree order, every other pane keeps its place, all
  ratios stay clamped and a tree without duplicates stays one when the new id is fresh.\<close>

theorem split_pane_places_new_pane:
  assumes "distinct (pane_ids t)" and "ratios_ok t" and "new \<notin> set (pane_ids t)"
  shows "(split_pane t target new d r = None \<longleftrightarrow> target \<notin> set (pane_ids t)) \<and>
    (\<forall>t'. split_pane t target new d r = Some t' \<longrightarrow>
       distinct (pane_ids t') \<and> ratios_ok t' \<and> pane_count t' = pane_count t + 1 \<and>
       (\<exists>xs ys. pane_ids t = xs @ target # ys \<and> pane_ids t' = xs @ target # new # ys))"
proof (intro conjI allI impI)
  show "split_pane t target new d r = None \<longleftrightarrow> target \<notin> set (pane_ids t)" by (rule split_pane_None)
  fix t' assume s: "split_pane t target new d r = Some t'"
  show "distinct (pane_ids t')" by (rule split_pane_distinct [OF s assms(1,3)])
  show "ratios_ok t'" by (rule split_pane_ratios [OF s assms(2)])
  from split_pane_order [OF s] show "\<exists>xs ys. pane_ids t = xs @ target # ys \<and> pane_ids t' = xs @ target # new # ys"
    by blast
  then show "pane_count t' = pane_count t + 1" by (auto simp: length_pane_ids [symmetric])
qed

theorem split_pane_places_new_pane_witness:
  "\<exists>t'. split_pane demo_tree (PaneId 2) (PaneId 9) Vertical (Fin (1 / 2)) = Some t' \<and>
     distinct (pane_ids t') \<and> pane_count t' = 4"
proof -
  obtain t' where t': "split_pane demo_tree (PaneId 2) (PaneId 9) Vertical (Fin (1 / 2)) = Some t'"
    by (simp add: demo_tree_def)
  have "PaneId 9 \<notin> set (pane_ids demo_tree)" "pane_count demo_tree = 3" by (simp_all add: demo_tree_def)
  with split_pane_places_new_pane [of demo_tree "PaneId 9" "PaneId 2" Vertical "Fin (1 / 2)"] t' show ?thesis
    by (simp add: demo_tree_facts(1,2))
qed

text \<open>C38: removing the pane a split has just added gives back the tree before the split, for every
  direction and ratio of the split.\<close>

theorem remove_undoes_split:
  assumes "ratios_ok t" and "new \<notin> set (pane_ids t)" and "split_pane t target new d r = Some t'"
  shows "remove_pane t' new = Some t"
  by (rule remove_split_inverse [OF assms(3,2,1)])

theorem remove_undoes_split_witness:
  "remove_pane (the (split_pane demo_tree (PaneId 3) (PaneId 9) Vertical NaN)) (PaneId 9) = Some demo_tree"
  by (rule remove_undoes_split [where target = "PaneId 3" and d = Vertical and r = NaN])
     (simp_all add: demo_tree_def half_ok)

text \<open>\<open>LayoutNode::remove_pane\<close> answers \<open>None\<close> exactly when the pane is missing or is the whole
  tree; otherwise the survivors keep their order, the ratios stay clamped and one pane is gone.\<close>

theorem remove_pane_keeps_survivors:
  assumes "distinct (pane_ids t)" and "ratios_ok t"
  shows "(remove_pane t p = None \<longleftrightarrow> p \<notin> set (pane_ids t) \<or> t = Leaf p) \<and>
    (\<forall>t'. remove_pane t p = Some t' \<longrightarrow>
       pane_ids t' = filter (\<lambda>q. q \<noteq> p) (pane_ids t) \<and> ratios_ok t' \<and> pane_count t = pane_count t' + 1)"
proof (intro conjI allI impI)
  show "remove_pane t p = None \<longleftrightarrow> p \<notin> set (pane_ids t) \<or> t = Leaf p"
    unfolding remove_pane_None by (cases t) auto
  fix t' assume r: "remove_pane t p = Some t'"
  show ids: "pane_ids t' = filter (\<lambda>q. q \<noteq> p) (pane_ids t)" by (rule remove_pane_ids [OF r assms(1)])
  show "ratios_ok t'" by (rule remove_pane_ratios [OF r assms(2)])
  have "p \<in> set (pane_ids t)" using r remove_pane_None [of t p] by auto
  then show "pane_count t = pane_count t' + 1"
    using ids distinct_remove1_filter_length [OF assms(1)] by (simp add: length_pane_ids [symmetric])
qed

theorem remove_pane_keeps_survivors_witness:
  "\<exists>t'. remove_pane demo_tree (PaneId 2) = Some t' \<and> pane_ids t' = [PaneId 1, PaneId 3]"
proof -
  obtain t' where "remove_pane demo_tree (PaneId 2) = Some t'" by (simp add: demo_tree_def)
  with remove_pane_keeps_survivors [of demo_tree "PaneId 2"] show ?thesis by (auto simp: demo_tree_facts)
qed

text \<open>\<open>LayoutNode::resize_pane\<close> succeeds exactly when a split in the asked direction lies above
  the pane; it moves no pane and every ratio stays in the clamped range, for every delta.\<close>

theorem resize_pane_moves_no_pane:
  assumes "distinct (pane_ids t)" and "ratios_ok t"
  shows "(resize_pane t p d delta = None \<longleftrightarrow> \<not> under_split t p d) \<and>
    (\<forall>t'. resize_pane t p d delta = Some t' \<longrightarrow> pane_ids t' = pane_ids t \<and> ratios_ok t')"
  using resize_pane_None [OF assms(1)] resize_pane_ids resize_pane_ratios [OF _ assms(2)] by blast

theorem resize_pane_moves_no_pane_witness:
  "resize_pane demo_tree (PaneId 1) Horizontal (Fin 1) = None \<and>
   (\<exists>t'. resize_pane demo_tree (PaneId 3) Horizontal (Fin 1) = Some t' \<and> pane_ids t' = pane_ids demo_tree)"
proof -
  have "\<not> under_split demo_tree (PaneId 1) Horizontal" by (simp add: demo_tree_def)
  moreover obtain t' where "resize_pane demo_tree (PaneId 3) Horizontal (Fin 1) = Some t'"
    by (simp add: demo_tree_def Let_def)
  ultimately show ?thesis
    using resize_pane_moves_no_pane [of demo_tree "PaneId 1" Horizontal "Fin 1"]
      resize_pane_moves_no_pane [of demo_tree "PaneId 3" Horizontal "Fin 1"]
    by (auto simp: demo_tree_facts)
qed

text \<open>\<open>LayoutNode::swap_panes\<close> answers \<open>None\<close> exactly when one of the panes is missing; otherwise
  it exchanges the two panes and leaves the others, and swapping again gives the tree back.\<close>

theorem swap_panes_exchanges:
  assumes "ratios_ok t"
  shows "(swap_panes t pa pb = None \<longleftrightarrow> pa \<notin> set (pane_ids t) \<or> pb \<notin> set (pane_ids t)) \<and>
    (\<forall>t'. swap_panes t pa pb = Some t' \<longrightarrow>
       pane_ids t' = map (swap_id pa pb) (pane_ids t) \<and> swap_panes t' pa pb = Some t)"
proof (intro conjI allI impI)
  show "swap_panes t pa pb = None \<longleftrightarrow> pa \<notin> set (pane_ids t) \<or> pb \<notin> set (pane_ids t)"
    by (auto simp: swap_panes_def contains_pane_iff)
  fix t' assume s: "swap_panes t pa pb = Some t'"
  then have t': "t' = swap_inner t pa pb" and m: "pa \<in> set (pane_ids t)" "pb \<in> set (pane_ids t)"
    by (auto simp: swap_panes_def contains_pane_iff split: if_splits)
  show "pane_ids t' = map (swap_id pa pb) (pane_ids t)" by (simp add: t' pane_ids_swap)
  have "set (pane_ids t') = set (pane_ids t)" by (rule swap_panes_facts [OF s])
  with m show "swap_panes t' pa pb = Some t"
    by (simp add: swap_panes_def contains_pane_iff) (simp add: t' swap_inner_involution [OF assms])
qed

theorem swap_panes_exchanges_witness:
  "\<exists>t'. swap_panes demo_tree (PaneId 1) (PaneId 3) = Some t' \<and> pane_ids t' = [PaneId 3, PaneId 2, PaneId 1] \<and>
     swap_panes t' (PaneId 1) (PaneId 3) = Some demo_tree"
proof -
  obtain t' where "swap_panes demo_tree (PaneId 1) (PaneId 3) = Some t'"
    by (simp add: demo_tree_def swap_panes_def)
  with swap_panes_exchanges [of demo_tree "PaneId 1" "PaneId 3"] show ?thesis
    by (auto simp: demo_tree_facts swap_id_def)
qed

text \<open>zooming never loses the arrangement: \<open>toggle_zoom\<close> keeps the full tree and the window's
  well-formedness, ends zoomed exactly when the pane is in a tree of several panes and was not
  the zoomed one, then shows that pane alone, and undoes itself on a window that is not zoomed.\<close>

theorem toggle_zoom_keeps_arrangement:
  assumes "wl_ok l"
  shows "wl_ok (toggle_zoom l p) \<and> full_tree (toggle_zoom l p) = full_tree l \<and>
    (wl_is_zoomed (toggle_zoom l p) \<longleftrightarrow>
       p \<in> wl_panes l \<and> 1 < pane_count (full_tree l) \<and> (\<forall>z. wl_zoom l = Some z \<longrightarrow> zoomed_pane_of z \<noteq> p)) \<and>
    (wl_is_zoomed (toggle_zoom l p) \<longrightarrow> wl_shown (toggle_zoom l p) = [p]) \<and>
    (wl_zoom l = None \<longrightarrow> toggle_zoom (toggle_zoom l p) p = l)"
proof (intro conjI impI)
  show "wl_ok (toggle_zoom l p)" by (rule toggle_zoom_facts [OF assms])
  show "full_tree (toggle_zoom l p) = full_tree l"
    by (auto simp: toggle_zoom_def Let_def) (simp add: full_tree_def)
  show "wl_is_zoomed (toggle_zoom l p) \<longleftrightarrow>
       p \<in> wl_panes l \<and> 1 < pane_count (full_tree l) \<and> (\<forall>z. wl_zoom l = Some z \<longrightarrow> zoomed_pane_of z \<noteq> p)"
    by (auto simp: toggle_zoom_def Let_def wl_is_zoomed_def wl_panes_def contains_pane_iff split: option.splits)
  show "wl_is_zoomed (toggle_zoom l p) \<Longrightarrow> wl_shown (toggle_zoom l p) = [p]"
    using toggle_zoom_facts(3) [OF assms] by (simp add: wl_is_zoomed_def)
  show "wl_zoom l = None \<Longrightarrow> toggle_zoom (toggle_zoom l p) p = l"
    by (auto simp: toggle_zoom_def Let_def wl_take_zoom_def)
qed

theorem toggle_zoom_keeps_arrangement_witness:
  "(let l = \<lparr>wl_tree = demo_tree, wl_zoom = None\<rparr>
    in wl_is_zoomed (toggle_zoom l (PaneId 2)) \<and> wl_shown (toggle_zoom l (PaneId 2)) = [PaneId 2] \<and>
       toggle_zoom (toggle_zoom l (PaneId 2)) (PaneId 2) = l)"
proof -
  let ?l = "\<lparr>wl_tree = demo_tree, wl_zoom = None\<rparr>"
  have "wl_ok ?l" by (simp add: wl_ok_unzoomed demo_tree_facts)
  then show ?thesis using toggle_zoom_keeps_arrangement [of ?l "PaneId 2"]
    by (simp add: wl_panes_def full_tree_def demo_tree_facts) (simp add: demo_tree_def)
qed

end
