(* ===== verification/Layout_Fit.thy ===== *)
theory Layout_Fit
  imports Layout_Geometry
begin

text \<open>
  The fitted viewport of \<open>LayoutNode::fitted\<close>.  Along each axis the panes' extents depend on the
  viewport's extent on that axis alone, grow with it, and grow by one cell per cell at most; so
  growing by the largest shortfall stops at the smallest extent that leaves no pane short.
\<close>

section \<open>Extents along one axis\<close>

text \<open>\<open>axis_sizes d t n\<close>: the extents of the panes when splits in direction \<open>d\<close> share \<open>n\<close> cells;
  \<open>d = Vertical\<close> gives widths, \<open>d = Horizontal\<close> gives heights.\<close>

fun axis_sizes :: "direction \<Rightarrow> layout_node \<Rightarrow> nat \<Rightarrow> (pane_id \<times> nat) list" where
  "axis_sizes d (Leaf p) n = [(p, n)]"
| "axis_sizes d (Split sd r a b) n =
     (if sd = d then axis_sizes d a (f32_share r (n - 1)) @ axis_sizes d b (n - 1 - f32_share r (n - 1))
      else axis_sizes d a n @ axis_sizes d b n)"

lemma widths_axis: "map (\<lambda>(p, r). (p, rect_width r)) (compute_rects t v) = axis_sizes Vertical t (rect_width v)"
proof (induction t arbitrary: v)
  case (Split d r a b)
  then show ?case by (cases d) (simp_all add: Let_def rect_new_def SEPARATOR_SIZE_def)
qed simp

lemma heights_axis: "map (\<lambda>(p, r). (p, rect_height r)) (compute_rects t v) = axis_sizes Horizontal t (rect_height v)"
proof (induction t arbitrary: v)
  case (Split d r a b)
  then show ?case by (cases d) (simp_all add: Let_def rect_new_def SEPARATOR_SIZE_def)
qed simp

lemma share_step:
  assumes "ratio_ok r" "n < u16_max"
  shows "f32_share r n \<le> f32_share r (Suc n) \<and> f32_share r (Suc n) \<le> f32_share r n + 1"
proof (cases r)
  case (Fin a)
  with assms(1) have a: "0 < a" "a \<le> 99 / 100" "0 \<le> a" "a \<le> 1" by (auto simp: ratio_ok_cases)
  have n: "n \<le> u16_max" "Suc n \<le> u16_max" using assms(2) by auto
  show ?thesis
    using share_val_step [OF a(1,2) assms(2)] f32_share_val [OF a(3,4) n(1)] f32_share_val [OF a(3,4) n(2)]
    unfolding Fin by linarith
qed (use assms in \<open>auto simp: ratio_ok_cases f32_share_def f32_of_u16_def\<close>)

lemma share_mono:
  assumes "ratio_ok r" "m \<le> n" "n \<le> u16_max"
  shows "f32_share r m \<le> f32_share r n \<and> f32_share r n \<le> f32_share r m + (n - m)"
  using assms(2,3)
proof (induction n rule: dec_induct)
  case (step n)
  then show ?case using share_step [OF assms(1), of n] by auto
qed simp

definition grown :: "nat \<Rightarrow> pane_id \<times> nat \<Rightarrow> pane_id \<times> nat \<Rightarrow> bool" where
  "grown k x y \<longleftrightarrow> fst x = fst y \<and> snd x \<le> snd y \<and> snd y \<le> snd x + k"

lemma grown_mono: "grown k x y \<Longrightarrow> k \<le> l \<Longrightarrow> grown l x y"
  by (auto simp: grown_def)

lemma axis_sizes_grown:
  "ratios_ok t \<Longrightarrow> m \<le> n \<Longrightarrow> n \<le> u16_max \<Longrightarrow>
     list_all2 (grown (n - m)) (axis_sizes d t m) (axis_sizes d t n)"
proof (induction t arbitrary: m n)
  case (Leaf p)
  then show ?case by (auto simp: grown_def)
next
  case (Split sd r a b)
  have ok: "ratio_ok r" "ratios_ok a" "ratios_ok b" using Split.prems(1) by auto
  have up: "n - 1 \<le> u16_max" "m - 1 \<le> n - 1" using Split.prems by auto
  note S = share_mono [OF ok(1) up(2,1)]
  have le: "f32_share r (n - 1) \<le> n - 1" "f32_share r (m - 1) \<le> m - 1"
    using f32_cells.share_le [OF ok(1)] up by auto
  show ?case
  proof (cases "sd = d")
    case True
    have A: "list_all2 (grown (f32_share r (n - 1) - f32_share r (m - 1)))
        (axis_sizes d a (f32_share r (m - 1))) (axis_sizes d a (f32_share r (n - 1)))"
      using S le up by (intro Split.IH(1) [OF ok(2)]) linarith+
    have B: "list_all2 (grown ((n - 1 - f32_share r (n - 1)) - (m - 1 - f32_share r (m - 1))))
        (axis_sizes d b (m - 1 - f32_share r (m - 1))) (axis_sizes d b (n - 1 - f32_share r (n - 1)))"
      using S le up by (intro Split.IH(2) [OF ok(3)]) linarith+
    have "f32_share r (n - 1) - f32_share r (m - 1) \<le> n - m"
      "(n - 1 - f32_share r (n - 1)) - (m - 1 - f32_share r (m - 1)) \<le> n - m"
      using S le Split.prems(2) by linarith+
    with A B show ?thesis
      using True by (auto intro!: list_all2_appendI elim!: list_all2_mono grown_mono)
  next
    case False
    with Split show ?thesis by (auto intro!: list_all2_appendI)
  qed
qed

section \<open>Shortfalls\<close>

definition want_cols :: "sizes \<Rightarrow> pane_id \<Rightarrow> nat option" where
  "want_cols size_of p = map_option fst (size_of p)"

definition want_rows :: "sizes \<Rightarrow> pane_id \<Rightarrow> nat option" where
  "want_rows size_of p = map_option snd (size_of p)"

definition axis_deficit :: "direction \<Rightarrow> layout_node \<Rightarrow> (pane_id \<Rightarrow> nat option) \<Rightarrow> nat \<Rightarrow> nat" where
  "axis_deficit d t sz n =
     foldr max (List.map_filter (\<lambda>(p, a). map_option (\<lambda>s. s - a) (sz p)) (axis_sizes d t n)) 0"

lemma map_filter_comp: "List.map_filter f (map g xs) = List.map_filter (f \<circ> g) xs"
  by (induction xs) (auto simp: List.map_filter_simps split: option.splits)

lemma deficit_cols: "deficit t size_of w h short_cols = axis_deficit Vertical t (want_cols size_of) w"
proof -
  have w: "axis_sizes Vertical t w = map (\<lambda>(p, r). (p, rect_width r)) (compute_rects t (rect_new 0 0 w h))"
    by (simp add: widths_axis rect_new_def)
  show ?thesis
    unfolding deficit_def axis_deficit_def w map_filter_comp
    by (simp add: comp_def short_cols_def [abs_def] want_cols_def option.map_comp case_prod_unfold)
qed

lemma deficit_rows: "deficit t size_of w h short_rows = axis_deficit Horizontal t (want_rows size_of) h"
proof -
  have h: "axis_sizes Horizontal t h = map (\<lambda>(p, r). (p, rect_height r)) (compute_rects t (rect_new 0 0 w h))"
    by (simp add: heights_axis rect_new_def)
  show ?thesis
    unfolding deficit_def axis_deficit_def h map_filter_comp
    by (simp add: comp_def short_rows_def [abs_def] want_rows_def option.map_comp case_prod_unfold)
qed

lemma foldr_max_le: "foldr max xs 0 \<le> (k :: nat) \<longleftrightarrow> (\<forall>x \<in> set xs. x \<le> k)"
  by (induction xs) auto

lemma set_map_filter: "set (List.map_filter f xs) = {y. \<exists>x \<in> set xs. f x = Some y}"
  by (induction xs) (auto simp: List.map_filter_simps split: option.splits)

lemma axis_deficit_le:
  "axis_deficit d t sz n \<le> k \<longleftrightarrow> (\<forall>p a s. (p, a) \<in> set (axis_sizes d t n) \<longrightarrow> sz p = Some s \<longrightarrow> s \<le> a + k)"
  unfolding axis_deficit_def foldr_max_le set_map_filter by force

lemma axis_deficit_zero:
  "axis_deficit d t sz n = 0 \<longleftrightarrow> (\<forall>p a s. (p, a) \<in> set (axis_sizes d t n) \<longrightarrow> sz p = Some s \<longrightarrow> s \<le> a)"
  using axis_deficit_le [of d t sz n 0] by simp

lemma axis_deficit_Split:
  "axis_deficit d (Split sd r a b) sz n = 0 \<longleftrightarrow>
     (if sd = d then axis_deficit d a sz (f32_share r (n - 1)) = 0 \<and>
                     axis_deficit d b sz (n - 1 - f32_share r (n - 1)) = 0
      else axis_deficit d a sz n = 0 \<and> axis_deficit d b sz n = 0)"
  unfolding axis_deficit_zero axis_sizes.simps by (cases "sd = d") (simp_all, blast+)

lemma axis_deficit_shrinks:
  assumes "ratios_ok t" "m \<le> n" "n \<le> u16_max"
  shows "axis_deficit d t sz m \<le> axis_deficit d t sz n + (n - m)"
  unfolding axis_deficit_le
proof (intro allI impI)
  fix p a s assume pa: "(p, a) \<in> set (axis_sizes d t m)" and s: "sz p = Some s"
  from pa obtain i where i: "i < length (axis_sizes d t m)" "axis_sizes d t m ! i = (p, a)"
    by (auto simp: in_set_conv_nth)
  have g: "list_all2 (grown (n - m)) (axis_sizes d t m) (axis_sizes d t n)"
    by (rule axis_sizes_grown [OF assms])
  then have "grown (n - m) (axis_sizes d t m ! i) (axis_sizes d t n ! i)"
    and "i < length (axis_sizes d t n)"
    using i(1) by (auto simp: list_all2_conv_all_nth)
  then obtain b where b: "(p, b) \<in> set (axis_sizes d t n)" "b \<le> a + (n - m)"
    using i(2) by (metis fst_conv grown_def nth_mem prod.collapse snd_conv)
  have "s \<le> b + axis_deficit d t sz n"
    using axis_deficit_le [of d t sz n "axis_deficit d t sz n"] b(1) s by blast
  with b(2) show "s \<le> a + (axis_deficit d t sz n + (n - m))" by simp
qed

section \<open>The growth loop\<close>

function grow :: "(nat \<Rightarrow> nat) \<Rightarrow> nat \<Rightarrow> nat \<Rightarrow> nat" where
  "grow short cap n =
     (if short n = 0 \<or> cap \<le> n \<or> u16_max \<le> n then n
      else grow short cap (min (sat_add16 n (short n)) cap))"
  by pat_completeness auto
termination
  by (relation "measure (\<lambda>(short, cap, n). cap - n)") (auto simp: sat_add16_def)

declare grow.simps [simp del]

lemma grow_width_eq:
  "grow_width t size_of cap h w = grow (axis_deficit Vertical t (want_cols size_of)) cap w"
proof (induction t size_of cap h w rule: grow_width.induct)
  case (1 t size_of cap h w)
  show ?case
    unfolding grow_width.simps [of t size_of cap h w] grow.simps [of _ cap w] deficit_cols Let_def
    using 1 by (simp add: deficit_cols Let_def)
qed

lemma grow_height_eq:
  "grow_height t size_of cap w h = grow (axis_deficit Horizontal t (want_rows size_of)) cap h"
proof (induction t size_of cap w h rule: grow_height.induct)
  case (1 t size_of cap w h)
  show ?case
    unfolding grow_height.simps [of t size_of cap w h] grow.simps [of _ cap h] deficit_rows Let_def
    using 1 by (simp add: deficit_rows Let_def)
qed

lemma grow_stops: "cap \<le> u16_max \<Longrightarrow> short (grow short cap n) = 0 \<or> cap \<le> grow short cap n"
proof (induction short cap n rule: grow.induct)
  case (1 short cap n)
  show ?case
  proof (cases "short n = 0 \<or> cap \<le> n \<or> u16_max \<le> n")
    case True
    then show ?thesis using 1(2) by (auto simp: grow.simps [of short cap n])
  next
    case False
    then show ?thesis using 1(1) [OF False 1(2)] by (simp add: grow.simps [of short cap n])
  qed
qed

lemma grow_least:
  assumes shrinks: "\<And>m n. m \<le> n \<Longrightarrow> n \<le> cap \<Longrightarrow> short m \<le> short n + (n - m)"
  shows "n \<le> m \<Longrightarrow> m \<le> cap \<Longrightarrow> short m = 0 \<Longrightarrow> grow short cap n \<le> m"
  using shrinks
proof (induction short cap n rule: grow.induct)
  case (1 short cap n)
  show ?case
  proof (cases "short n = 0 \<or> cap \<le> n \<or> u16_max \<le> n")
    case True
    then show ?thesis using 1(2) by (auto simp: grow.simps [of short cap n])
  next
    case False
    have "short n \<le> m - n" using 1(5) [OF 1(2,3)] 1(4) by simp
    then have "min (sat_add16 n (short n)) cap \<le> m" using 1(2) by (auto simp: sat_add16_def)
    then show ?thesis
      using 1(1) [OF False _ 1(3,4) 1(5)] False by (simp add: grow.simps [of short cap n])
  qed
qed

section \<open>The starting size\<close>

definition sizes_pos :: "sizes \<Rightarrow> bool" where
  "sizes_pos size_of \<longleftrightarrow> (\<forall>p w h. size_of p = Some (w, h) \<longrightarrow> 0 < w \<and> w \<le> u16_max \<and> 0 < h \<and> h \<le> u16_max)"

lemma reratioed_Split:
  assumes "reratioed (Split d r a b) size_of = Some (t', w, h)"
  obtains a' aw ah b' bw bh q where
    "reratioed a size_of = Some (a', aw, ah)" "reratioed b size_of = Some (b', bw, bh)"
    "t' = Split d q a' b'" "ratio_ok q"
    "w = (if d = Vertical then sat_add16 (sat_add16 aw 1) bw else max aw bw)"
    "h = (if d = Horizontal then sat_add16 (sat_add16 ah 1) bh else max ah bh)"
proof -
  obtain a' aw ah where A: "reratioed a size_of = Some (a', aw, ah)"
    using assms by (cases "reratioed a size_of") auto
  obtain b' bw bh where B: "reratioed b size_of = Some (b', bw, bh)"
    using assms A by (cases "reratioed b size_of") auto
  show thesis
    using assms that [OF A B] by (cases d) (auto simp: A B Let_def SEPARATOR_SIZE_def node_split_def)
qed

lemma reratioed_facts:
  "reratioed t size_of = Some (t', w, h) \<Longrightarrow>
     pane_ids t' = pane_ids t \<and> ratios_ok t' \<and> (\<forall>p \<in> set (pane_ids t). size_of p \<noteq> None)"
proof (induction t arbitrary: t' w h)
  case (Split d r a b)
  from reratioed_Split [OF Split.prems] obtain a' aw ah b' bw bh q
    where "reratioed a size_of = Some (a', aw, ah)" "reratioed b size_of = Some (b', bw, bh)"
      "t' = Split d q a' b'" "ratio_ok q" by metis
  with Split.IH(1) [of a' aw ah] Split.IH(2) [of b' bw bh] show ?case by auto
qed auto

lemma reratioed_None: "reratioed t size_of = None \<longleftrightarrow> (\<exists>p \<in> set (pane_ids t). size_of p = None)"
proof (induction t)
  case (Split d r a b)
  then show ?case by (cases d) (auto simp: Let_def split: option.splits)
qed auto

lemma axis_sizes_panes: "map fst (axis_sizes d t n) = pane_ids t"
  by (induction t arbitrary: n) auto

text \<open>Any extent at which the re-ratioed tree leaves no pane short is at least the starting one.\<close>

lemma start_cols_least:
  assumes pos: "sizes_pos size_of"
  shows "reratioed t size_of = Some (t', w, h) \<Longrightarrow> n \<le> u16_max \<Longrightarrow>
     axis_deficit Vertical t' (want_cols size_of) n = 0 \<Longrightarrow> 0 < w \<and> w \<le> n"
proof (induction t arbitrary: t' w h n)
  case (Leaf p)
  then obtain s where s: "size_of p = Some s" "t' = Leaf p" "(w, h) = s" by auto
  then show ?case using Leaf.prems(3) pos by (auto simp: axis_deficit_zero sizes_pos_def want_cols_def want_rows_def)
next
  case (Split d r a b)
  from reratioed_Split [OF Split.prems(1)] obtain a' aw ah b' bw bh q
    where A: "reratioed a size_of = Some (a', aw, ah)" and B: "reratioed b size_of = Some (b', bw, bh)"
      and t': "t' = Split d q a' b'" and q: "ratio_ok q"
      and w: "w = (if d = Vertical then sat_add16 (sat_add16 aw 1) bw else max aw bw)"
      and h: "h = (if d = Horizontal then sat_add16 (sat_add16 ah 1) bh else max ah bh)" .
  show ?case
  proof (cases d)
    case Vertical
    define sh where "sh = f32_share q (n - 1)"
    have le: "sh \<le> n - 1" unfolding sh_def using Split.prems(2) q by (intro f32_cells.share_le) auto
    have "axis_deficit Vertical a' (want_cols size_of) sh = 0"
      "axis_deficit Vertical b' (want_cols size_of) (n - 1 - sh) = 0"
      using Split.prems(3) by (simp_all add: t' Vertical axis_deficit_Split sh_def)
    then have "0 < aw \<and> aw \<le> sh" "0 < bw \<and> bw \<le> n - 1 - sh"
      using Split.IH(1) [OF A, of sh] Split.IH(2) [OF B, of "n - 1 - sh"] le Split.prems(2) by auto
    moreover have "w = sat_add16 (sat_add16 aw 1) bw" using w Vertical by simp
    ultimately show ?thesis using le by (auto simp: sat_add16_def u16_max_def)
  next
    case Horizontal
    then have "axis_deficit Vertical a' (want_cols size_of) n = 0"
      "axis_deficit Vertical b' (want_cols size_of) n = 0"
      using Split.prems(3) by (simp_all add: t' axis_deficit_Split)
    then have "0 < aw \<and> aw \<le> n" "0 < bw \<and> bw \<le> n"
      using Split.IH(1) [OF A, of n] Split.IH(2) [OF B, of n] Split.prems(2) by auto
    moreover have "w = max aw bw" using w Horizontal by simp
    ultimately show ?thesis by linarith
  qed
qed

lemma start_rows_least:
  assumes pos: "sizes_pos size_of"
  shows "reratioed t size_of = Some (t', w, h) \<Longrightarrow> n \<le> u16_max \<Longrightarrow>
     axis_deficit Horizontal t' (want_rows size_of) n = 0 \<Longrightarrow> 0 < h \<and> h \<le> n"
proof (induction t arbitrary: t' w h n)
  case (Leaf p)
  then obtain s where s: "size_of p = Some s" "t' = Leaf p" "(w, h) = s" by auto
  then show ?case using Leaf.prems(3) pos by (auto simp: axis_deficit_zero sizes_pos_def want_cols_def want_rows_def)
next
  case (Split d r a b)
  from reratioed_Split [OF Split.prems(1)] obtain a' aw ah b' bw bh q
    where A: "reratioed a size_of = Some (a', aw, ah)" and B: "reratioed b size_of = Some (b', bw, bh)"
      and t': "t' = Split d q a' b'" and q: "ratio_ok q"
      and w: "w = (if d = Vertical then sat_add16 (sat_add16 aw 1) bw else max aw bw)"
      and h: "h = (if d = Horizontal then sat_add16 (sat_add16 ah 1) bh else max ah bh)" .
  show ?case
  proof (cases d)
    case Horizontal
    define sh where "sh = f32_share q (n - 1)"
    have le: "sh \<le> n - 1" unfolding sh_def using Split.prems(2) q by (intro f32_cells.share_le) auto
    have "axis_deficit Horizontal a' (want_rows size_of) sh = 0"
      "axis_deficit Horizontal b' (want_rows size_of) (n - 1 - sh) = 0"
      using Split.prems(3) by (simp_all add: t' Horizontal axis_deficit_Split sh_def)
    then have "0 < ah \<and> ah \<le> sh" "0 < bh \<and> bh \<le> n - 1 - sh"
      using Split.IH(1) [OF A, of sh] Split.IH(2) [OF B, of "n - 1 - sh"] le Split.prems(2) by auto
    moreover have "h = sat_add16 (sat_add16 ah 1) bh" using h Horizontal by simp
    ultimately show ?thesis using le by (auto simp: sat_add16_def u16_max_def)
  next
    case Vertical
    then have "axis_deficit Horizontal a' (want_rows size_of) n = 0"
      "axis_deficit Horizontal b' (want_rows size_of) n = 0"
      using Split.prems(3) by (simp_all add: t' axis_deficit_Split)
    then have "0 < ah \<and> ah \<le> n" "0 < bh \<and> bh \<le> n"
      using Split.IH(1) [OF A, of n] Split.IH(2) [OF B, of n] Split.prems(2) by auto
    moreover have "h = max ah bh" using h Vertical by simp
    ultimately show ?thesis by linarith
  qed
qed

section \<open>Fitted viewports\<close>

text \<open>No sized pane is narrower, or lower, than it wants to be in a viewport.\<close>

definition fits_cols :: "layout_node \<Rightarrow> sizes \<Rightarrow> u16 \<Rightarrow> u16 \<Rightarrow> bool" where
  "fits_cols t size_of w h \<longleftrightarrow>
     (\<forall>p r c l. (p, r) \<in> set (compute_rects t (rect_new 0 0 w h)) \<longrightarrow> size_of p = Some (c, l) \<longrightarrow> c \<le> rect_width r)"

definition fits_rows :: "layout_node \<Rightarrow> sizes \<Rightarrow> u16 \<Rightarrow> u16 \<Rightarrow> bool" where
  "fits_rows t size_of w h \<longleftrightarrow>
     (\<forall>p r c l. (p, r) \<in> set (compute_rects t (rect_new 0 0 w h)) \<longrightarrow> size_of p = Some (c, l) \<longrightarrow> l \<le> rect_height r)"

lemma fits_cols_axis: "fits_cols t size_of w h \<longleftrightarrow> axis_deficit Vertical t (want_cols size_of) w = 0"
proof -
  have "axis_sizes Vertical t w = map (\<lambda>(p, r). (p, rect_width r)) (compute_rects t (rect_new 0 0 w h))"
    by (simp add: widths_axis rect_new_def)
  then show ?thesis unfolding fits_cols_def axis_deficit_zero want_cols_def by force
qed

lemma fits_rows_axis: "fits_rows t size_of w h \<longleftrightarrow> axis_deficit Horizontal t (want_rows size_of) h = 0"
proof -
  have "axis_sizes Horizontal t h = map (\<lambda>(p, r). (p, rect_height r)) (compute_rects t (rect_new 0 0 w h))"
    by (simp add: heights_axis rect_new_def)
  then show ?thesis unfolding fits_rows_def axis_deficit_zero want_rows_def by force
qed

lemma fitted_parts:
  assumes "fitted t size_of cap = Some (t', w, h)"
  obtains w0 h0 where "reratioed t size_of = Some (t', w0, h0)"
    "w = min (grow (axis_deficit Vertical t' (want_cols size_of)) cap w0) cap"
    "h = min (grow (axis_deficit Horizontal t' (want_rows size_of)) cap h0) cap"
  using assms
  by (auto simp: fitted_def Let_def grow_width_eq grow_height_eq split: option.splits)

lemma fitted_fits_axis:
  assumes "w = min (grow short cap n) cap" "cap \<le> u16_max"
  shows "short w = 0 \<or> w = cap"
  using grow_stops [OF assms(2), of short n] assms(1) by (auto simp: min_def)

lemma fitted_least_axis:
  assumes "ratios_ok t" "cap \<le> u16_max" "w = min (grow (axis_deficit d t sz) cap n) cap"
    and "axis_deficit d t sz m = 0" "n \<le> m" "m \<le> cap"
  shows "w \<le> m"
proof -
  have "grow (axis_deficit d t sz) cap n \<le> m"
    using assms by (intro grow_least axis_deficit_shrinks) auto
  then show ?thesis using assms(3) by simp
qed

text \<open>\<open>LayoutNode::fitted\<close> returns exactly when every pane of the tree has a known size, keeps the
  panes in order, never passes the cap, and leaves no pane short of columns unless the width is
  the cap, nor short of rows unless the height is the cap.\<close>

theorem fitted_leaves_no_pane_short:
  assumes "cap \<le> u16_max"
  shows "(fitted t size_of cap = None \<longleftrightarrow> (\<exists>p \<in> set (pane_ids t). size_of p = None)) \<and>
    (\<forall>t' w h. fitted t size_of cap = Some (t', w, h) \<longrightarrow>
       pane_ids t' = pane_ids t \<and> ratios_ok t' \<and> w \<le> cap \<and> h \<le> cap \<and>
       (fits_cols t' size_of w h \<or> w = cap) \<and> (fits_rows t' size_of w h \<or> h = cap))"
proof (intro conjI allI impI)
  show "fitted t size_of cap = None \<longleftrightarrow> (\<exists>p \<in> set (pane_ids t). size_of p = None)"
    unfolding reratioed_None [symmetric] by (auto simp: fitted_def Let_def split: option.splits)
next
  fix t' w h assume "fitted t size_of cap = Some (t', w, h)"
  then obtain w0 h0 where "reratioed t size_of = Some (t', w0, h0)"
    and w: "w = min (grow (axis_deficit Vertical t' (want_cols size_of)) cap w0) cap"
    and h: "h = min (grow (axis_deficit Horizontal t' (want_rows size_of)) cap h0) cap"
    by (rule fitted_parts)
  from reratioed_facts [OF this(1)] show "pane_ids t' = pane_ids t" "ratios_ok t'" by auto
  show "w \<le> cap" "h \<le> cap" by (simp_all add: w h)
  show "fits_cols t' size_of w h \<or> w = cap" "fits_rows t' size_of w h \<or> h = cap"
    unfolding fits_cols_axis fits_rows_axis by (rule fitted_fits_axis [OF w assms], rule fitted_fits_axis [OF h assms])
qed

definition demo_pair :: layout_node where
  "demo_pair = Split Vertical (Fin (1 / 2)) (Leaf (PaneId 1)) (Leaf (PaneId 2))"

definition demo_sizes :: sizes where
  "demo_sizes p = (if p = PaneId 1 then Some (100, 30) else Some (40, 24))"

theorem fitted_leaves_no_pane_short_witness:
  "\<exists>t' w h. fitted demo_pair demo_sizes 500 = Some (t', w, h) \<and> pane_ids t' = [PaneId 1, PaneId 2] \<and>
     (fits_cols t' demo_sizes w h \<or> w = 500)"
proof -
  have cap: "500 \<le> u16_max" by (simp add: u16_max_def)
  then obtain t' w h where f: "fitted demo_pair demo_sizes 500 = Some (t', w, h)"
    using fitted_leaves_no_pane_short [of 500 demo_pair demo_sizes]
    by (cases "fitted demo_pair demo_sizes 500") (auto simp: demo_pair_def demo_sizes_def split: if_splits)
  with fitted_leaves_no_pane_short [OF cap, of demo_pair demo_sizes] show ?thesis
    by (auto simp: demo_pair_def)
qed



end
