(* ===== verification/Titles.thy ===== *)
theory Titles
  imports Prelude
begin

text \<open>
  Titles and program names, the text half of \<^verbatim>\<open>shux-core/src/model.rs\<close>: which characters may enter a
  title, how a title is neutralised and clamped, and which word of an argument vector names the
  program a pane runs.

  \<open>char::is_control\<close>, \<open>char::is_whitespace\<close> and \<open>Path::file_name\<close> of the standard library are
  written out.  A path is valid UTF-8, so \<open>to_str\<close> succeeds and \<open>to_string_lossy\<close> changes nothing.
\<close>

section \<open>Characters\<close>

definition is_control :: "rchar \<Rightarrow> bool" where
  "is_control c \<longleftrightarrow> c < 32 \<or> 127 \<le> c \<and> c \<le> 159"

definition is_whitespace :: "rchar \<Rightarrow> bool" where
  "is_whitespace c \<longleftrightarrow>
     9 \<le> c \<and> c \<le> 13 \<or> c = 32 \<or> c = 0x85 \<or> c = 0xa0 \<or> c = 0x1680 \<or> 0x2000 \<le> c \<and> c \<le> 0x200a \<or>
     c = 0x2028 \<or> c = 0x2029 \<or> c = 0x202f \<or> c = 0x205f \<or> c = 0x3000"

definition is_ascii_digit :: "rchar \<Rightarrow> bool" where
  "is_ascii_digit c \<longleftrightarrow> 48 \<le> c \<and> c \<le> 57"

definition is_ascii_alphabetic :: "rchar \<Rightarrow> bool" where
  "is_ascii_alphabetic c \<longleftrightarrow> 65 \<le> c \<and> c \<le> 90 \<or> 97 \<le> c \<and> c \<le> 122"

definition is_ascii_alphanumeric :: "rchar \<Rightarrow> bool" where
  "is_ascii_alphanumeric c \<longleftrightarrow> is_ascii_digit c \<or> is_ascii_alphabetic c"

definition is_ascii_lowercase :: "rchar \<Rightarrow> bool" where
  "is_ascii_lowercase c \<longleftrightarrow> 97 \<le> c \<and> c \<le> 122"

definition is_default_ignorable :: "rchar \<Rightarrow> bool" where
  "is_default_ignorable c \<longleftrightarrow>
     (if c = 0x200d \<or> c = 0xfe0e \<or> c = 0xfe0f then False
      else c = 0x00ad \<or> c = 0x034f \<or> 0x115f \<le> c \<and> c \<le> 0x1160 \<or> 0x17b4 \<le> c \<and> c \<le> 0x17b5 \<or>
           0x180b \<le> c \<and> c \<le> 0x180f \<or> 0x200b \<le> c \<and> c \<le> 0x200f \<or> 0x202a \<le> c \<and> c \<le> 0x202e \<or>
           0x2060 \<le> c \<and> c \<le> 0x206f \<or> c = 0x3164 \<or> 0xfe00 \<le> c \<and> c \<le> 0xfe0f \<or> c = 0xfeff \<or>
           c = 0xffa0 \<or> 0xfff0 \<le> c \<and> c \<le> 0xfff8 \<or> 0x1bca0 \<le> c \<and> c \<le> 0x1bca3 \<or>
           0x1d173 \<le> c \<and> c \<le> 0x1d17a \<or> 0xe0000 \<le> c \<and> c \<le> 0xe0fff)"

definition is_title_hostile :: "rchar \<Rightarrow> bool" where
  "is_title_hostile c \<longleftrightarrow>
     is_control c \<or> c = 0x2028 \<or> c = 0x2029 \<or>
     0x202a \<le> c \<and> c \<le> 0x202e \<or> 0x2066 \<le> c \<and> c \<le> 0x2069 \<or>
     c = 0x200e \<or> c = 0x200f \<or> c = 0x061c \<or> is_default_ignorable c"

lemmas char_class_defs =
  is_control_def is_whitespace_def is_ascii_digit_def is_ascii_alphabetic_def is_ascii_alphanumeric_def
  is_ascii_lowercase_def is_default_ignorable_def is_title_hostile_def

section \<open>Sanitising\<close>

definition MAX_TITLE_CHARS :: nat where "MAX_TITLE_CHARS = 64"

definition trim :: "rstring \<Rightarrow> rstring" where
  "trim s = trim_by is_whitespace s"

definition is_window_number :: "rstring \<Rightarrow> bool" where
  "is_window_number spec \<longleftrightarrow> spec \<noteq> [] \<and> list_all is_ascii_digit spec"

definition sanitize_title :: "rstring \<Rightarrow> rstring" where
  "sanitize_title raw = trim (filter (\<lambda>c. \<not> is_title_hostile c) raw)"

definition sanitize_title_clamped :: "rstring \<Rightarrow> rstring" where
  "sanitize_title_clamped raw =
     (let cleaned = sanitize_title raw
      in if length cleaned \<le> MAX_TITLE_CHARS then cleaned else take MAX_TITLE_CHARS cleaned)"

section \<open>Program names\<close>

text \<open>\<open>str::split\<close> on a character predicate: the pieces between matches, empty ones included.\<close>

fun split_on :: "('a \<Rightarrow> bool) \<Rightarrow> 'a list \<Rightarrow> 'a list list" where
  "split_on p [] = [[]]"
| "split_on p (c # cs) =
     (if p c then [] # split_on p cs
      else case split_on p cs of [] \<Rightarrow> [[c]] | w # ws \<Rightarrow> (c # w) # ws)"

definition split_whitespace :: "rstring \<Rightarrow> rstring list" where
  "split_whitespace s = filter (\<lambda>w. w \<noteq> []) (split_on is_whitespace s)"

text \<open>\<open>Path::file_name\<close>: the last component unless it is \<open>..\<close>; separators and \<open>.\<close> make none.\<close>

definition file_name :: "rstring \<Rightarrow> rstring option" where
  "file_name path =
     (case rev (filter (\<lambda>w. w \<noteq> [] \<and> w \<noteq> ascii ''.'') (split_on (\<lambda>c. c = 47) path)) of
        [] \<Rightarrow> None
      | w # _ \<Rightarrow> if w = ascii ''..'' then None else Some w)"

definition program_name :: "rstring \<Rightarrow> rstring option" where
  "program_name path =
     (case file_name path of
        None \<Rightarrow> None
      | Some name \<Rightarrow> if name \<noteq> [] then Some name else None)"

definition is_shell :: "rstring \<Rightarrow> bool" where
  "is_shell program \<longleftrightarrow>
     program \<in> set (map ascii [''sh'', ''bash'', ''zsh'', ''dash'', ''ash'', ''ksh'', ''ksh93'',
                          ''mksh'', ''fish'', ''busybox''])"

definition is_shell_command_flag :: "rstring \<Rightarrow> bool" where
  "is_shell_command_flag flag =
     (case flag of
        [] \<Rightarrow> False
      | c # letters \<Rightarrow>
          c = 45 \<and> letters \<noteq> [] \<and> 99 \<in> set letters \<and>
          list_all (\<lambda>l. l = 99 \<or> l = 108 \<or> l = 105) letters)"

definition is_shell_operator :: "rchar \<Rightarrow> bool" where
  "is_shell_operator c \<longleftrightarrow> c \<in> set (ascii ''|&;<>()`'') \<or> c = 10"

definition is_shell_keyword :: "rstring \<Rightarrow> bool" where
  "is_shell_keyword token \<longleftrightarrow>
     token \<in> set (map ascii [''if'', ''then'', ''else'', ''elif'', ''fi'', ''for'', ''while'', ''until'',
       ''do'', ''done'', ''case'', ''esac'', ''in'', ''select'', ''function'', ''coproc'', '':'',
       ''{'', ''}'', ''[['', '']]''])"

text \<open>The characters \<open>$ \ " ' * ? [ ] { } ~ # ! =\<close>.\<close>

definition is_shell_syntax :: "rchar \<Rightarrow> bool" where
  "is_shell_syntax c \<longleftrightarrow> c \<in> {36, 92, 34, 39, 42, 63, 91, 93, 123, 125, 126, 35, 33, 61}"

definition is_env_assignment :: "rstring \<Rightarrow> bool" where
  "is_env_assignment token \<longleftrightarrow>
     61 \<in> set token \<and>
     (let name = takeWhile (\<lambda>c. c \<noteq> 61) token;
          v = tl (dropWhile (\<lambda>c. c \<noteq> 61) token);
          name_ok = (name \<noteq> [] \<and> (is_ascii_alphabetic (hd name) \<or> hd name = 95) \<and>
                     list_all (\<lambda>c. is_ascii_alphanumeric c \<or> c = 95) name)
      in name_ok \<and> \<not> list_ex (\<lambda>c. c \<noteq> 61 \<and> is_shell_syntax c) v)"

fun leading_word :: "rstring list \<Rightarrow> rstring option" where
  "leading_word [] = None"
| "leading_word (token # rest) =
     (if token = ascii ''exec'' \<or> token = ascii ''time'' \<or> is_env_assignment token then leading_word rest
      else if is_shell_keyword token \<or> list_ex is_shell_syntax token then None
      else if take 1 token = [45] then None
      else case program_name token of
             None \<Rightarrow> None
           | Some name \<Rightarrow> if list_all is_ascii_digit name then None else Some name)"

definition script_leading_word :: "rstring \<Rightarrow> rstring option" where
  "script_leading_word script = leading_word (split_whitespace (hd (split_on is_shell_operator script)))"

definition command_display_name :: "rstring list \<Rightarrow> rstring option" where
  "command_display_name command =
     (case command of
        [] \<Rightarrow> None
      | raw # _ \<Rightarrow>
          let program = program_name raw;
              word = (case program of
                        None \<Rightarrow> None
                      | Some prog \<Rightarrow>
                          if is_shell prog \<and> 3 \<le> length command \<and> is_shell_command_flag (command ! 1)
                          then script_leading_word (command ! 2) else None)
          in case word of Some w \<Rightarrow> Some w | None \<Rightarrow> program)"

lemmas program_name_defs =
  command_display_name_def script_leading_word_def split_whitespace_def program_name_def file_name_def
  is_shell_def is_shell_command_flag_def is_shell_operator_def is_shell_keyword_def is_shell_syntax_def
  is_env_assignment_def

section \<open>Lemmas\<close>

lemma split_on_pieces: "w \<in> set (split_on p s) \<Longrightarrow> c \<in> set w \<Longrightarrow> c \<in> set s \<and> \<not> p c"
  by (induction s arbitrary: w) (auto split: if_splits list.splits, metis list.set_intros(1), metis list.set_intros(2))

lemma split_on_nonempty [simp]: "split_on p s \<noteq> []"
  by (induction s) (auto split: list.splits)

lemma file_name_Some:
  assumes "file_name path = Some w"
  shows "w \<noteq> [] \<and> w \<noteq> ascii ''.'' \<and> w \<noteq> ascii ''..'' \<and> 47 \<notin> set w \<and> set w \<subseteq> set path"
proof -
  let ?ws = "filter (\<lambda>w. w \<noteq> [] \<and> w \<noteq> ascii ''.'') (split_on (\<lambda>c. c = 47) path)"
  obtain v vs where r: "rev ?ws = v # vs" and v: "v = w" "w \<noteq> ascii ''..''"
    using assms by (auto simp: file_name_def split: list.splits if_splits)
  have "v \<in> set (rev ?ws)" by (simp only: r) simp
  then show ?thesis using v split_on_pieces [of w "\<lambda>c. c = 47" path] by auto
qed

lemma program_name_Some:
  "program_name path = Some w \<Longrightarrow> w \<noteq> [] \<and> w \<noteq> ascii ''.'' \<and> w \<noteq> ascii ''..'' \<and> 47 \<notin> set w \<and> set w \<subseteq> set path"
  using file_name_Some [of path] by (auto simp: program_name_def split: option.splits if_splits)

lemma leading_word_Some:
  "leading_word ws = Some w \<Longrightarrow>
     \<exists>t \<in> set ws. program_name t = Some w \<and> \<not> list_ex is_shell_syntax t \<and> \<not> is_shell_keyword t \<and>
       \<not> list_all is_ascii_digit w"
  by (induction ws) (auto split: if_splits option.splits)

lemma script_leading_word_Some:
  assumes "script_leading_word script = Some w"
  shows "w \<noteq> [] \<and> 47 \<notin> set w \<and> \<not> list_all is_ascii_digit w \<and>
         (\<forall>c \<in> set w. \<not> is_shell_syntax c \<and> \<not> is_shell_operator c \<and> \<not> is_whitespace c)"
proof -
  let ?seg = "hd (split_on is_shell_operator script)"
  from leading_word_Some [of "split_whitespace ?seg" w] assms obtain t where
    t: "t \<in> set (split_whitespace ?seg)" "program_name t = Some w" "\<not> list_ex is_shell_syntax t" "\<not> list_all is_ascii_digit w"
    by (auto simp: script_leading_word_def)
  have seg: "\<not> is_shell_operator c" if "c \<in> set ?seg" for c
    using split_on_pieces [of ?seg is_shell_operator script c] that by simp
  have "c \<in> set ?seg \<and> \<not> is_whitespace c" if "c \<in> set t" for c
    using split_on_pieces [of t is_whitespace ?seg c] that t(1) by (auto simp: split_whitespace_def)
  then show ?thesis using program_name_Some [OF t(2)] t(3,4) seg by (auto simp: list_ex_iff)
qed

lemma control_hostile: "is_control c \<Longrightarrow> is_title_hostile c"
  unfolding is_title_hostile_def by blast

definition inert :: "rstring \<Rightarrow> bool" where
  "inert s \<longleftrightarrow> (\<forall>c \<in> set s. \<not> is_title_hostile c)"

lemma inert_Nil [simp]: "inert []"
  by (simp add: inert_def)

lemma inert_sub: "inert s \<Longrightarrow> set t \<subseteq> set s \<Longrightarrow> inert t"
  by (auto simp: inert_def)

lemma inert_sanitize [simp, text_simps]: "inert (sanitize_title raw)"
  using set_trim_by [of is_whitespace "filter (\<lambda>c. \<not> is_title_hostile c) raw"]
  by (auto simp: inert_def sanitize_title_def trim_def)

lemma inert_clamped [simp, text_simps]: "inert (sanitize_title_clamped raw)"
  using inert_sub [OF inert_sanitize, of "take MAX_TITLE_CHARS (sanitize_title raw)" raw]
  by (auto simp: sanitize_title_clamped_def Let_def dest: in_set_takeD)

lemma clamped_length [simp, text_simps]: "length (sanitize_title_clamped raw) \<le> MAX_TITLE_CHARS"
  by (simp add: sanitize_title_clamped_def Let_def)

lemma clamped_empty [text_simps]: "sanitize_title_clamped raw = [] \<longleftrightarrow> sanitize_title raw = []"
  by (simp add: sanitize_title_clamped_def Let_def MAX_TITLE_CHARS_def)

lemma sanitize_id: "inert s \<Longrightarrow> trimmed_by is_whitespace s \<Longrightarrow> sanitize_title s = s"
  by (simp add: sanitize_title_def trim_def inert_def filter_id_conv [THEN iffD2] trim_by_id)

lemma sanitize_trimmed [text_simps]: "trimmed_by is_whitespace (sanitize_title raw)"
  by (simp add: sanitize_title_def trim_def trim_by_trimmed)

lemma sanitize_idem [simp, text_simps]: "sanitize_title (sanitize_title raw) = sanitize_title raw"
  by (rule sanitize_id [OF inert_sanitize sanitize_trimmed])

section \<open>Properties\<close>

text \<open>\<open>sanitize_title\<close> is the single title rule: its result holds no hostile character (no C0, DEL or
  C1 control, no line separator, no bidi formatting character), begins and ends with a visible
  character, is a fixed point of the rule, and a title already of that shape is left alone.\<close>

theorem sanitize_title_is_inert:
  "(\<forall>c \<in> set (sanitize_title raw). \<not> is_title_hostile c \<and> \<not> is_control c) \<and>
   trimmed_by is_whitespace (sanitize_title raw) \<and>
   sanitize_title (sanitize_title raw) = sanitize_title raw \<and>
   (\<forall>s. inert s \<longrightarrow> trimmed_by is_whitespace s \<longrightarrow> sanitize_title s = s)"
  using inert_sanitize [of raw] sanitize_trimmed [of raw] sanitize_id control_hostile
  unfolding inert_def sanitize_idem by blast

theorem sanitize_title_is_inert_witness:
  "sanitize_title (ascii '' a'' @ [27, 93] @ ascii ''b '') = [97, 93, 98] \<and>
   sanitize_title [97, 93, 98] = [97, 93, 98]"
proof
  show "sanitize_title (ascii '' a'' @ [27, 93] @ ascii ''b '') = [97, 93, 98]"
    by (simp add: sanitize_title_def trim_def trim_by_def char_class_defs)
  have "inert [97, 93, 98]" "trimmed_by is_whitespace [97, 93, 98]"
    by (simp_all add: inert_def trimmed_by_def char_class_defs)
  then show "sanitize_title [97, 93, 98] = [97, 93, 98]"
    using sanitize_title_is_inert [of "[97, 93, 98]"] by blast
qed

text \<open>a pane title is at most 64 characters, as inert as an unclamped one, a prefix of the
  unclamped title, and empty only when the unclamped title is: the strip runs before the clamp, so
  filler that later disappears cannot push a payload past the window.\<close>

theorem sanitize_title_clamped_is_prefix:
  "length (sanitize_title_clamped raw) \<le> MAX_TITLE_CHARS \<and> inert (sanitize_title_clamped raw) \<and>
   sanitize_title_clamped raw = take MAX_TITLE_CHARS (sanitize_title raw) \<and>
   (sanitize_title_clamped raw = [] \<longleftrightarrow> sanitize_title raw = [])"
  by (simp add: clamped_empty) (simp add: sanitize_title_clamped_def Let_def)

text \<open>the name a pane shows for its command is a file name: not empty, not \<open>.\<close> or \<open>..\<close>, without a
  slash.  When a shell wrapper is unwrapped the word also has no shell syntax, operator or
  white space in it and is not a bare number.\<close>

theorem command_display_name_is_file_name:
  assumes "command_display_name command = Some w"
  shows "w \<noteq> [] \<and> 47 \<notin> set w \<and>
    (program_name (hd command) = Some w \<or>
     is_shell (the (program_name (hd command))) \<and> is_shell_command_flag (command ! 1) \<and>
     script_leading_word (command ! 2) = Some w \<and> \<not> list_all is_ascii_digit w \<and>
     (\<forall>c \<in> set w. \<not> is_shell_syntax c \<and> \<not> is_shell_operator c \<and> \<not> is_whitespace c))"
proof -
  from assms obtain raw rest where c: "command = raw # rest"
    by (auto simp: command_display_name_def split: list.splits)
  consider "program_name raw = Some w"
    | "is_shell (the (program_name raw))" "is_shell_command_flag (command ! 1)" "script_leading_word (command ! 2) = Some w"
    using assms by (auto simp: command_display_name_def c Let_def split: option.splits if_splits)
  then show ?thesis
  proof cases
    case 1
    then show ?thesis using program_name_Some [OF 1] by (simp add: c)
  next
    case 2
    then show ?thesis using script_leading_word_Some [OF 2(3)] by (simp add: c)
  qed
qed

theorem command_display_name_is_file_name_witness:
  "command_display_name [ascii ''/bin/bash'', ascii ''-lc'', ascii ''TERM=x exec top -d 1''] = Some (ascii ''top'') \<and>
   47 \<notin> set (ascii ''top'')"
proof -
  have "command_display_name [ascii ''/bin/bash'', ascii ''-lc'', ascii ''TERM=x exec top -d 1''] = Some (ascii ''top'')"
    by (simp add: program_name_defs char_class_defs)
  with command_display_name_is_file_name show ?thesis by blast
qed

end
