(* ===== verification/Status_Model.thy ===== *)
theory Status_Model
  imports Titles "HOL-Library.List_Lexorder"
begin

text \<open>
  The data of the program-status protocol, \<^verbatim>\<open>shux-program-status/src\<close>: \<^verbatim>\<open>limits.rs\<close>, \<^verbatim>\<open>model.rs\<close>,
  \<^verbatim>\<open>rank.rs\<close>, \<^verbatim>\<open>summary.rs\<close> and \<^verbatim>\<open>display.rs\<close>.  Record ids are paths; the last section shows that
  they form a tree.
\<close>

section \<open>Limits\<close>

definition MAX_SEQUENCE_BYTES :: nat where "MAX_SEQUENCE_BYTES = 4096"
definition FRAMING_BYTES :: nat where "FRAMING_BYTES = 9"
definition MAX_PAYLOAD_BYTES :: nat where "MAX_PAYLOAD_BYTES = MAX_SEQUENCE_BYTES - FRAMING_BYTES"
definition MAX_KEY_BYTES :: nat where "MAX_KEY_BYTES = 16"
definition MAX_MSG_ENCODED :: nat where "MAX_MSG_ENCODED = 2732"
definition MAX_MSG_DECODED :: nat where "MAX_MSG_DECODED = 2048"
definition MAX_TITLE_ENCODED :: nat where "MAX_TITLE_ENCODED = 256"
definition MAX_TITLE_DECODED :: nat where "MAX_TITLE_DECODED = 192"
definition MAX_APP_BYTES :: nat where "MAX_APP_BYTES = 32"
definition MAX_ID_BYTES :: nat where "MAX_ID_BYTES = 128"
definition MAX_ID_SEGMENT_BYTES :: nat where "MAX_ID_SEGMENT_BYTES = 32"
definition MAX_ID_DEPTH :: nat where "MAX_ID_DEPTH = 8"
definition MAX_RECORDS :: nat where "MAX_RECORDS = 256"

lemmas limit_defs =
  MAX_SEQUENCE_BYTES_def FRAMING_BYTES_def MAX_PAYLOAD_BYTES_def MAX_KEY_BYTES_def MAX_MSG_ENCODED_def
  MAX_MSG_DECODED_def MAX_TITLE_ENCODED_def MAX_TITLE_DECODED_def MAX_APP_BYTES_def MAX_ID_BYTES_def
  MAX_ID_SEGMENT_BYTES_def MAX_ID_DEPTH_def MAX_RECORDS_def

section \<open>States and kinds\<close>

datatype state = Idle | Working | Done | Blocked | Error

definition state_all :: "state list" where
  "state_all = [Idle, Working, Done, Blocked, Error]"

fun state_str :: "state \<Rightarrow> rstring" where
  "state_str Idle = ascii ''idle''"
| "state_str Working = ascii ''working''"
| "state_str Done = ascii ''done''"
| "state_str Blocked = ascii ''blocked''"
| "state_str Error = ascii ''error''"

definition state_parse :: "rstring \<Rightarrow> state option" where
  "state_parse s = List.find (\<lambda>st. state_str st = s) state_all"

fun survives_exit :: "state \<Rightarrow> bool" where
  "survives_exit Done = True"
| "survives_exit Error = True"
| "survives_exit _ = False"

text \<open>\<open>state as usize\<close>: the discriminants are the positions in \<open>State::ALL\<close>.\<close>

fun state_index :: "state \<Rightarrow> nat" where
  "state_index Idle = 0"
| "state_index Working = 1"
| "state_index Done = 2"
| "state_index Blocked = 3"
| "state_index Error = 4"

datatype kind = Permission | Question | Auth

definition kind_all :: "kind list" where
  "kind_all = [Permission, Question, Auth]"

fun kind_str :: "kind \<Rightarrow> rstring" where
  "kind_str Permission = ascii ''permission''"
| "kind_str Question = ascii ''question''"
| "kind_str Auth = ascii ''auth''"

definition kind_parse :: "rstring \<Rightarrow> kind option" where
  "kind_parse s = List.find (\<lambda>k. kind_str k = s) kind_all"

section \<open>Record ids\<close>

datatype record_id = RecordId (id_str: rstring)

definition is_id_byte :: "nat \<Rightarrow> bool" where
  "is_id_byte b \<longleftrightarrow> is_ascii_alphanumeric b \<or> b = 95 \<or> b = 46 \<or> b = 43 \<or> b = 45"

definition segment_ok :: "rstring \<Rightarrow> bool" where
  "segment_ok seg \<longleftrightarrow> seg \<noteq> [] \<and> length seg \<le> MAX_ID_SEGMENT_BYTES \<and> list_all is_id_byte seg"

fun segments_ok :: "nat \<Rightarrow> rstring list \<Rightarrow> bool" where
  "segments_ok depth [] = True"
| "segments_ok depth (seg # rest) =
     (let depth = depth + 1
      in if \<not> segment_ok seg \<or> MAX_ID_DEPTH < depth then False else segments_ok depth rest)"

definition record_id_parse :: "rstring \<Rightarrow> record_id option" where
  "record_id_parse s =
     (if s = [] \<or> MAX_ID_BYTES < length s then None
      else if segments_ok 0 (split_on (\<lambda>b. b = 47) s) then Some (RecordId s) else None)"

definition is_within :: "record_id \<Rightarrow> record_id \<Rightarrow> bool" where
  "is_within self other \<longleftrightarrow>
     take (length (id_str other)) (id_str self) = id_str other \<and>
     (let rest = drop (length (id_str other)) (id_str self) in rest = [] \<or> hd rest = 47)"

definition parent :: "record_id \<Rightarrow> record_id option" where
  "parent self =
     (if 47 \<in> set (id_str self)
      then Some (RecordId (rev (tl (dropWhile (\<lambda>b. b \<noteq> 47) (rev (id_str self))))))
      else None)"

instantiation record_id :: linorder
begin

definition less_eq_record_id :: "record_id \<Rightarrow> record_id \<Rightarrow> bool" where
  "less_eq_record_id a b \<longleftrightarrow> id_str a \<le> id_str b"

definition less_record_id :: "record_id \<Rightarrow> record_id \<Rightarrow> bool" where
  "less_record_id a b \<longleftrightarrow> id_str a < id_str b"

instance
  by standard (auto simp: less_eq_record_id_def less_record_id_def record_id.expand)

end

section \<open>Records, reports and views\<close>

record status_record =
  rec_state :: state
  rec_kind :: "kind option"
  rec_progress :: "nat option"
  rec_app :: "rstring option"
  rec_title :: "rstring option"
  rec_msg :: "rstring option"

datatype report = ReportSet "record_id option" status_record | ReportClear "record_id option"

record record_view =
  view_id :: "record_id option"
  view_state :: state
  view_kind :: "kind option"
  view_progress :: "nat option"
  view_app :: "rstring option"
  view_title :: "rstring option"
  view_msg :: "rstring option"
  view_reported_generation :: u64
  view_reported_in :: "u64 list"

definition last_reported :: "record_view \<Rightarrow> state \<Rightarrow> u64" where
  "last_reported v st = view_reported_in v ! state_index st"

section \<open>Ranking and summaries\<close>

fun urgency :: "state \<Rightarrow> nat" where
  "urgency Blocked = 4"
| "urgency Error = 3"
| "urgency Done = 2"
| "urgency Working = 1"
| "urgency Idle = 0"

record state_counts =
  cnt_idle :: u16
  cnt_working :: u16
  cnt_done :: u16
  cnt_blocked :: u16
  cnt_error :: u16

definition no_counts :: state_counts where
  "no_counts = \<lparr>cnt_idle = 0, cnt_working = 0, cnt_done = 0, cnt_blocked = 0, cnt_error = 0\<rparr>"

fun counts_add :: "state_counts \<Rightarrow> state \<Rightarrow> state_counts" where
  "counts_add c Idle = c\<lparr>cnt_idle := sat_add16 (cnt_idle c) 1\<rparr>"
| "counts_add c Working = c\<lparr>cnt_working := sat_add16 (cnt_working c) 1\<rparr>"
| "counts_add c Done = c\<lparr>cnt_done := sat_add16 (cnt_done c) 1\<rparr>"
| "counts_add c Blocked = c\<lparr>cnt_blocked := sat_add16 (cnt_blocked c) 1\<rparr>"
| "counts_add c Error = c\<lparr>cnt_error := sat_add16 (cnt_error c) 1\<rparr>"

fun count_of :: "state_counts \<Rightarrow> state \<Rightarrow> u16" where
  "count_of c Idle = cnt_idle c"
| "count_of c Working = cnt_working c"
| "count_of c Done = cnt_done c"
| "count_of c Blocked = cnt_blocked c"
| "count_of c Error = cnt_error c"

record status_summary =
  sum_state :: state
  sum_kind :: "kind option"
  sum_progress :: "nat option"
  sum_app :: "rstring option"
  sum_id :: "record_id option"
  sum_counts :: state_counts

section \<open>Display\<close>

definition is_disarmed :: "rchar \<Rightarrow> bool" where
  "is_disarmed c \<longleftrightarrow> is_control c \<or>
     c = 0x00AD \<or> c = 0x034F \<or> c = 0x061C \<or> 0x115F \<le> c \<and> c \<le> 0x1160 \<or> c = 0x180E \<or>
     0x200B \<le> c \<and> c \<le> 0x200F \<or> 0x2028 \<le> c \<and> c \<le> 0x202E \<or> 0x2060 \<le> c \<and> c \<le> 0x206F \<or>
     c = 0x3164 \<or> c = 0xFEFF \<or> c = 0xFFA0 \<or> 0xFFF9 \<le> c \<and> c \<le> 0xFFFB \<or>
     0xE0000 \<le> c \<and> c \<le> 0xE007F"

definition sanitize_for_display :: "rstring \<Rightarrow> rstring" where
  "sanitize_for_display t = filter (\<lambda>c. \<not> is_disarmed c) t"

section \<open>Lemmas\<close>

lemma state_parse_str [simp]: "state_parse (state_str st) = Some st"
  by (cases st) (simp_all add: state_parse_def state_all_def)

lemma state_parse_sound: "state_parse s = Some st \<Longrightarrow> s = state_str st"
  by (auto simp: state_parse_def dest: find_Some_iff_mem)

lemma kind_parse_str [simp]: "kind_parse (kind_str k) = Some k"
  by (cases k) (simp_all add: kind_parse_def kind_all_def)

lemma state_index_lt: "state_index st < 5"
  by (cases st) auto

lemma state_index_inj [simp]: "state_index a = state_index b \<longleftrightarrow> a = b"
  by (cases a; cases b) auto

lemma urgency_inj [simp]: "urgency a = urgency b \<longleftrightarrow> a = b"
  by (cases a; cases b) auto

lemma count_of_add: "count_of (counts_add c st) st' = (if st' = st then sat_add16 (count_of c st') 1 else count_of c st')"
  by (cases st; cases st') auto

lemma segments_ok_iff:
  "segments_ok d segs \<longleftrightarrow> list_all segment_ok segs \<and> (segs = [] \<or> d + length segs \<le> MAX_ID_DEPTH)"
  by (induction segs arbitrary: d) (auto simp: Let_def)

lemma split_on_append:
  assumes "p c"
  shows "split_on p (xs @ c # ys) = split_on p xs @ split_on p ys"
  using assms by (induction xs) (auto split: list.splits)

lemma parent_str: "parent self = Some q \<Longrightarrow> \<exists>seg. id_str self = id_str q @ 47 # seg \<and> 47 \<notin> set seg"
proof -
  assume "parent self = Some q"
  then have m: "47 \<in> set (id_str self)" and q: "id_str q = rev (tl (dropWhile (\<lambda>b. b \<noteq> 47) (rev (id_str self))))"
    by (auto simp: parent_def split: if_splits)
  obtain as bs where s: "rev (id_str self) = as @ 47 # bs" "47 \<notin> set as"
    using split_list_first [of 47 "rev (id_str self)"] m by auto
  then have "dropWhile (\<lambda>b. b \<noteq> 47) (rev (id_str self)) = 47 # bs"
    by (subst s(1), subst dropWhile_append2) (use s(2) in auto)
  then have "id_str q = rev bs" by (simp add: q)
  moreover have "id_str self = rev bs @ 47 # rev as"
    using s(1) by (metis append.assoc append_Cons append_Nil rev.simps(2) rev_append rev_rev_ident)
  ultimately show ?thesis using s(2) by auto
qed

lemma parent_shorter: "parent self = Some q \<Longrightarrow> length (id_str q) < length (id_str self)"
  using parent_str by fastforce

lemma is_within_refl [simp]: "is_within a a"
  by (simp add: is_within_def Let_def)

lemma is_within_iff: "is_within a b \<longleftrightarrow> a = b \<or> (\<exists>seg. id_str a = id_str b @ 47 # seg)"
proof
  assume w: "is_within a b"
  let ?n = "length (id_str b)"
  have a: "id_str a = id_str b @ drop ?n (id_str a)"
    using w by (metis append_take_drop_id is_within_def)
  show "a = b \<or> (\<exists>seg. id_str a = id_str b @ 47 # seg)"
  proof (cases "drop ?n (id_str a)")
    case Nil
    then show ?thesis using a by (metis append_Nil2 record_id.expand)
  next
    case (Cons c cs)
    then have "c = 47" using w by (auto simp: is_within_def Let_def)
    then show ?thesis using a Cons by auto
  qed
qed (auto simp: is_within_def Let_def)

lemma is_within_trans: "is_within a b \<Longrightarrow> is_within b c \<Longrightarrow> is_within a c"
  by (auto simp: is_within_iff)

lemma is_within_antisym: "is_within a b \<Longrightarrow> is_within b a \<Longrightarrow> a = b"
  by (fastforce simp: is_within_iff)

lemma parent_within: "parent self = Some q \<Longrightarrow> is_within self q \<and> q \<noteq> self"
  using parent_str [of self q] parent_shorter [of self q] by (auto simp: is_within_iff)

definition valid_id :: "record_id \<Rightarrow> bool" where
  "valid_id i \<longleftrightarrow> record_id_parse (id_str i) = Some i"

lemma valid_id_parse: "record_id_parse s = Some i \<Longrightarrow> valid_id i \<and> id_str i = s"
  by (auto simp: valid_id_def record_id_parse_def split: if_splits)

lemma valid_id_iff: "valid_id i \<longleftrightarrow> id_str i \<noteq> [] \<and> length (id_str i) \<le> MAX_ID_BYTES \<and>
    list_all segment_ok (split_on (\<lambda>b. b = 47) (id_str i)) \<and>
    length (split_on (\<lambda>b. b = 47) (id_str i)) \<le> MAX_ID_DEPTH"
  by (auto simp: valid_id_def record_id_parse_def segments_ok_iff)

lemma split_segment: "\<forall>x \<in> set seg. \<not> p x \<Longrightarrow> split_on p seg = [seg]"
  by (induction seg) auto

lemma parent_valid:
  assumes "valid_id i" "parent i = Some q"
  shows "valid_id q \<and> length (split_on (\<lambda>b. b = 47) (id_str i)) = Suc (length (split_on (\<lambda>b. b = 47) (id_str q)))"
proof -
  obtain seg where s: "id_str i = id_str q @ 47 # seg" "47 \<notin> set seg" using parent_str [OF assms(2)] by auto
  have sp: "split_on (\<lambda>b. b = 47) (id_str i) = split_on (\<lambda>b. b = 47) (id_str q) @ [seg]"
    using s by (subst s(1), subst split_on_append) (use s(2) in \<open>auto intro!: split_segment\<close>)
  have "id_str q \<noteq> []"
  proof
    assume "id_str q = []"
    then show False using assms(1) sp by (auto simp: valid_id_iff segment_ok_def)
  qed
  then show ?thesis using assms(1) sp s(1) by (simp add: valid_id_iff)
qed

section \<open>Properties\<close>

text \<open>record ids form a tree of bounded depth.  An id \<open>RecordId::parse\<close> accepts has at most eight
  valid segments; its parent is again an id \<open>parse\<close> accepts, one level up, and lies strictly above
  it; only an id of one segment has no parent.\<close>

theorem record_ids_form_a_tree:
  assumes "record_id_parse s = Some i"
  shows "id_str i = s \<and> length (split_on (\<lambda>b. b = 47) s) \<le> MAX_ID_DEPTH \<and>
    (\<forall>q. parent i = Some q \<longrightarrow> record_id_parse (id_str q) = Some q \<and> is_within i q \<and> \<not> is_within q i \<and>
       length (split_on (\<lambda>b. b = 47) s) = Suc (length (split_on (\<lambda>b. b = 47) (id_str q)))) \<and>
    (parent i = None \<longrightarrow> length (split_on (\<lambda>b. b = 47) s) = 1)"
proof (intro conjI allI impI)
  have v: "valid_id i" and s: "id_str i = s" using valid_id_parse [OF assms] by auto
  show "id_str i = s" by (rule s)
  show "length (split_on (\<lambda>b. b = 47) s) \<le> MAX_ID_DEPTH" using v s by (simp add: valid_id_iff)
  show "length (split_on (\<lambda>b. b = 47) s) = 1" if "parent i = None"
  proof -
    have "\<forall>x \<in> set s. x \<noteq> 47" using that s by (auto simp: parent_def split: if_splits)
    then show ?thesis by (simp add: split_segment)
  qed
  fix q assume p: "parent i = Some q"
  show "record_id_parse (id_str q) = Some q" using parent_valid [OF v p] by (simp add: valid_id_def)
  show "is_within i q" using parent_within [OF p] by simp
  show "\<not> is_within q i" using parent_within [OF p] is_within_antisym by blast
  show "length (split_on (\<lambda>b. b = 47) s) = Suc (length (split_on (\<lambda>b. b = 47) (id_str q)))"
    using parent_valid [OF v p] s by simp
qed

theorem record_ids_form_a_tree_witness:
  "let i = RecordId (ascii ''a/b'') in record_id_parse (ascii ''a/b'') = Some i \<and>
     parent i = Some (RecordId (ascii ''a'')) \<and> is_within i (RecordId (ascii ''a''))"
proof -
  have "record_id_parse (ascii ''a/b'') = Some (RecordId (ascii ''a/b''))"
    by (simp add: record_id_parse_def limit_defs segment_ok_def is_id_byte_def char_class_defs)
  moreover have "parent (RecordId (ascii ''a/b'')) = Some (RecordId (ascii ''a''))" by (simp add: parent_def)
  ultimately show ?thesis using record_ids_form_a_tree by (simp add: Let_def)
qed

end
