(* ===== verification/Utf8.thy ===== *)
theory Utf8
  imports Prelude
begin

text \<open>
  UTF-8 as the standard library has it: \<open>String::into_bytes\<close>, and \<open>String::from_utf8\<close> with its
  rejection of overlong forms, surrogates and values past the last scalar.
\<close>

definition scalar :: "rchar \<Rightarrow> bool" where
  "scalar c \<longleftrightarrow> c < 0xD800 \<or> 0xE000 \<le> c \<and> c \<le> 0x10FFFF"

definition utf8_char :: "rchar \<Rightarrow> nat list" where
  "utf8_char c =
     (if c < 0x80 then [c]
      else if c < 0x800 then [0xC0 + c div 64, 0x80 + c mod 64]
      else if c < 0x10000 then [0xE0 + c div 4096, 0x80 + c div 64 mod 64, 0x80 + c mod 64]
      else [0xF0 + c div 262144, 0x80 + c div 4096 mod 64, 0x80 + c div 64 mod 64, 0x80 + c mod 64])"

definition utf8_encode :: "rstring \<Rightarrow> nat list" where
  "utf8_encode s = concat (map utf8_char s)"

definition utf8_len :: "rstring \<Rightarrow> nat" where
  "utf8_len s = length (utf8_encode s)"

definition is_cont :: "nat \<Rightarrow> bool" where
  "is_cont b \<longleftrightarrow> 0x80 \<le> b \<and> b < 0xC0"

fun utf8_decode :: "nat list \<Rightarrow> rstring option" where
  "utf8_decode [] = Some []"
| "utf8_decode (b # bs) =
     (if b < 0x80 then map_option ((#) b) (utf8_decode bs)
      else if 0xC2 \<le> b \<and> b < 0xE0 then
        (case bs of
           b1 # rest \<Rightarrow>
             (if is_cont b1 then map_option ((#) ((b - 0xC0) * 64 + (b1 - 0x80))) (utf8_decode rest) else None)
         | _ \<Rightarrow> None)
      else if 0xE0 \<le> b \<and> b < 0xF0 then
        (case bs of
           b1 # b2 # rest \<Rightarrow>
             (let c = (b - 0xE0) * 4096 + (b1 - 0x80) * 64 + (b2 - 0x80)
              in if is_cont b1 \<and> is_cont b2 \<and> 0x800 \<le> c \<and> scalar c
                 then map_option ((#) c) (utf8_decode rest) else None)
         | _ \<Rightarrow> None)
      else if 0xF0 \<le> b \<and> b < 0xF5 then
        (case bs of
           b1 # b2 # b3 # rest \<Rightarrow>
             (let c = (b - 0xF0) * 262144 + (b1 - 0x80) * 4096 + (b2 - 0x80) * 64 + (b3 - 0x80)
              in if is_cont b1 \<and> is_cont b2 \<and> is_cont b3 \<and> 0x10000 \<le> c \<and> scalar c
                 then map_option ((#) c) (utf8_decode rest) else None)
         | _ \<Rightarrow> None)
      else None)"

lemma utf8_encode_simps [simp]: "utf8_encode [] = []" "utf8_encode (c # s) = utf8_char c @ utf8_encode s"
  by (simp_all add: utf8_encode_def)

lemma digits64: "(c :: nat) div 4096 * 4096 + c div 64 mod 64 * 64 + c mod 64 = c"
proof -
  define a where "a = c div 64"
  have "c div 4096 = a div 64" by (simp add: a_def div_mult2_eq [symmetric])
  moreover have "a = a div 64 * 64 + a mod 64" "c = a * 64 + c mod 64" by (simp_all add: a_def)
  ultimately show ?thesis unfolding a_def [symmetric] by linarith
qed

lemma digits64': "(c :: nat) div 262144 * 262144 + c div 4096 mod 64 * 4096 + c div 64 mod 64 * 64 + c mod 64 = c"
proof -
  define a where "a = c div 4096"
  have "c div 262144 = a div 64" by (simp add: a_def div_mult2_eq [symmetric])
  moreover have "a = a div 64 * 64 + a mod 64" by simp
  ultimately show ?thesis using digits64 [of c] unfolding a_def [symmetric] by linarith
qed

lemma utf8_decode_char: "scalar c \<Longrightarrow> utf8_decode (utf8_char c @ bs) = map_option ((#) c) (utf8_decode bs)"
proof -
  assume c: "scalar c"
  consider "c < 0x80" | "0x80 \<le> c" "c < 0x800" | "0x800 \<le> c" "c < 0x10000" | "0x10000 \<le> c" "c \<le> 0x10FFFF"
    using c by (force simp: scalar_def)
  then show ?thesis
  proof cases
    case 1
    then show ?thesis by (simp add: utf8_char_def)
  next
    case 2
    define q m where "q = c div 64" and "m = c mod 64"
    have "2 \<le> q" "q < 32" "m < 64" "c = q * 64 + m" using 2 by (auto simp: q_def m_def less_mult_imp_div_less)
    moreover have "utf8_char c = [0xC0 + q, 0x80 + m]" using 2 by (simp add: utf8_char_def q_def m_def)
    ultimately show ?thesis by (simp add: is_cont_def)
  next
    case 3
    define q m n where "q = c div 4096" and "m = c div 64 mod 64" and "n = c mod 64"
    have "q < 16" "m < 64" "n < 64" "c = q * 4096 + m * 64 + n"
      using 3 digits64 [of c] by (auto simp: q_def m_def n_def less_mult_imp_div_less)
    moreover have "utf8_char c = [0xE0 + q, 0x80 + m, 0x80 + n]" using 3 by (simp add: utf8_char_def q_def m_def n_def)
    ultimately show ?thesis using 3 c by (simp add: is_cont_def)
  next
    case 4
    define q l m n where "q = c div 262144" and "l = c div 4096 mod 64" and "m = c div 64 mod 64" and "n = c mod 64"
    have "q < 5" "l < 64" "m < 64" "n < 64" "c = q * 262144 + l * 4096 + m * 64 + n"
      using 4 digits64' [of c] by (auto simp: q_def l_def m_def n_def less_mult_imp_div_less)
    moreover have "utf8_char c = [0xF0 + q, 0x80 + l, 0x80 + m, 0x80 + n]"
      using 4 by (simp add: utf8_char_def q_def l_def m_def n_def)
    ultimately show ?thesis using 4 c by (simp add: is_cont_def)
  qed
qed

lemma utf8_roundtrip: "\<forall>c \<in> set s. scalar c \<Longrightarrow> utf8_decode (utf8_encode s) = Some s"
  by (induction s) (simp_all add: utf8_decode_char)

lemma utf8_bytes: "scalar c \<Longrightarrow> b \<in> set (utf8_char c) \<Longrightarrow> b < 256"
proof -
  assume "scalar c" "b \<in> set (utf8_char c)"
  moreover have "scalar c \<Longrightarrow> c < 0x110000" by (auto simp: scalar_def)
  ultimately show ?thesis by (auto simp: utf8_char_def split: if_splits)
qed

lemma utf8_encode_bytes: "\<forall>c \<in> set s. scalar c \<Longrightarrow> b \<in> set (utf8_encode s) \<Longrightarrow> b < 256"
  by (induction s) (auto dest: utf8_bytes)

lemma utf8_encode_Nil [simp]: "utf8_encode s = [] \<longleftrightarrow> s = []"
  by (cases s) (auto simp: utf8_char_def)

lemma utf8_ascii: "\<forall>c \<in> set s. c < 128 \<Longrightarrow> utf8_decode s = Some s"
  by (induction s) auto

lemma div_mod_64: "n < 64 \<Longrightarrow> (q * 64 + n) div 64 = (q :: nat) \<and> (q * 64 + n) mod 64 = n"
  by simp

lemma utf8_two: "0xC2 \<le> b \<Longrightarrow> b < 0xE0 \<Longrightarrow> is_cont b1 \<Longrightarrow> utf8_char ((b - 0xC0) * 64 + (b1 - 0x80)) = [b, b1]"
proof -
  assume a: "0xC2 \<le> b" "b < 0xE0" "is_cont b1"
  define p q c where "p = b - 0xC0" and "q = b1 - 0x80" and "c = p * 64 + q"
  have l: "2 \<le> p" "p < 32" "q < 64" "b = 0xC0 + p" "b1 = 0x80 + q" using a by (auto simp: p_def q_def is_cont_def)
  then have "c div 64 = p" "c mod 64 = q" "0x80 \<le> c" "c < 0x800" using div_mod_64 [of q p] by (auto simp: c_def)
  then show ?thesis using l by (simp add: utf8_char_def p_def [symmetric] q_def [symmetric] c_def [symmetric])
qed

lemma utf8_three:
  assumes "0xE0 \<le> b" "b < 0xF0" "is_cont b1" "is_cont b2" "c = (b - 0xE0) * 4096 + (b1 - 0x80) * 64 + (b2 - 0x80)" "0x800 \<le> c"
  shows "utf8_char c = [b, b1, b2]"
proof -
  define p q r where "p = b - 0xE0" and "q = b1 - 0x80" and "r = b2 - 0x80"
  have l: "p < 16" "q < 64" "r < 64" "b = 0xE0 + p" "b1 = 0x80 + q" "b2 = 0x80 + r"
    using assms by (auto simp: p_def q_def r_def is_cont_def)
  have c: "c = (p * 64 + q) * 64 + r" using assms(5) by (simp add: p_def q_def r_def)
  have "c div 64 = p * 64 + q" "c mod 64 = r" unfolding c using div_mod_64 [OF l(3)] by blast+
  moreover have "c div 4096 = c div 64 div 64" by (simp add: div_mult2_eq [symmetric])
  ultimately have "c div 4096 = p" "c div 64 mod 64 = q" "c mod 64 = r" using l by simp_all
  moreover have "c < 0x10000" using l by (simp add: c)
  ultimately show ?thesis using assms(6) l by (simp add: utf8_char_def)
qed

lemma utf8_four:
  assumes "0xF0 \<le> b" "b < 0xF5" "is_cont b1" "is_cont b2" "is_cont b3"
    and "c = (b - 0xF0) * 262144 + (b1 - 0x80) * 4096 + (b2 - 0x80) * 64 + (b3 - 0x80)" "0x10000 \<le> c"
  shows "utf8_char c = [b, b1, b2, b3]"
proof -
  define p q r s where "p = b - 0xF0" and "q = b1 - 0x80" and "r = b2 - 0x80" and "s = b3 - 0x80"
  have l: "q < 64" "r < 64" "s < 64" "b = 0xF0 + p" "b1 = 0x80 + q" "b2 = 0x80 + r" "b3 = 0x80 + s"
    using assms by (auto simp: p_def q_def r_def s_def is_cont_def)
  have c: "c = ((p * 64 + q) * 64 + r) * 64 + s" using assms(6) by (simp add: p_def q_def r_def s_def)
  have "c div 64 = (p * 64 + q) * 64 + r" "c mod 64 = s" unfolding c using div_mod_64 [OF l(3)] by blast+
  moreover have "c div 4096 = c div 64 div 64" "c div 262144 = c div 64 div 64 div 64" by (simp_all add: div_mult2_eq [symmetric])
  ultimately have "c div 262144 = p" "c div 4096 mod 64 = q" "c div 64 mod 64 = r" "c mod 64 = s"
    using div_mod_64 [OF l(2), of "p * 64 + q"] div_mod_64 [OF l(1), of p] by metis+
  with assms(7) l show ?thesis by (simp add: utf8_char_def)
qed

lemma utf8_decode_sound: "utf8_decode bs = Some s \<Longrightarrow> utf8_encode s = bs \<and> (\<forall>c \<in> set s. scalar c)"
proof (induction bs arbitrary: s rule: utf8_decode.induct)
  case (2 b bs)
  note prem = "2.prems"
  consider "b < 0x80" | "\<not> b < 0x80" "0xC2 \<le> b" "b < 0xE0" | "\<not> b < 0x80" "0xE0 \<le> b" "b < 0xF0" | "\<not> b < 0x80" "0xF0 \<le> b" "b < 0xF5"
    using prem by (auto split: if_splits)
  then show ?case
  proof cases
    case 1
    then obtain t where "utf8_decode bs = Some t" "s = b # t" using prem by auto
    with "2.IH"(1) [OF 1] 1 show ?thesis by (auto simp: utf8_char_def scalar_def)
  next
    case 2
    then obtain b1 rest t where t: "bs = b1 # rest" "is_cont b1" "utf8_decode rest = Some t"
      "s = ((b - 0xC0) * 64 + (b1 - 0x80)) # t" using prem by (auto split: list.splits if_splits)
    have "(b - 0xC0) * 64 + (b1 - 0x80) < 0xD800" using 2 t(2) by (auto simp: is_cont_def)
    with "2.IH"(2) [OF 2(1) _ t(1) t(2) t(3)] 2 t utf8_two [OF 2(2,3) t(2)] show ?thesis
      by (auto simp: scalar_def)
  next
    case 3
    let ?c = "\<lambda>b1 b2. (b - 0xE0) * 4096 + (b1 - 0x80) * 64 + (b2 - 0x80)"
    from 3 obtain b1 b2 rest t where t: "bs = b1 # b2 # rest" "utf8_decode rest = Some t" "s = ?c b1 b2 # t"
      and g: "is_cont b1" "is_cont b2" "0x800 \<le> ?c b1 b2" "scalar (?c b1 b2)"
      using prem by (auto simp: Let_def split: list.splits if_splits)
    have "utf8_char (?c b1 b2) = [b, b1, b2]" by (rule utf8_three [OF 3(2,3) g(1,2) refl g(3)])
    moreover have "utf8_encode t = rest \<and> (\<forall>c \<in> set t. scalar c)"
      using "2.IH"(3) [OF 3(1) _ _ t(1) refl refl _ t(2)] 3 g by auto
    ultimately show ?thesis using t g(4) by simp
  next
    case 4
    let ?c = "\<lambda>b1 b2 b3. (b - 0xF0) * 262144 + (b1 - 0x80) * 4096 + (b2 - 0x80) * 64 + (b3 - 0x80)"
    from 4 obtain b1 b2 b3 rest t where t: "bs = b1 # b2 # b3 # rest" "utf8_decode rest = Some t" "s = ?c b1 b2 b3 # t"
      and g: "is_cont b1" "is_cont b2" "is_cont b3" "0x10000 \<le> ?c b1 b2 b3" "scalar (?c b1 b2 b3)"
      using prem by (auto simp: Let_def split: list.splits if_splits)
    have "utf8_char (?c b1 b2 b3) = [b, b1, b2, b3]" by (rule utf8_four [OF 4(2,3) g(1,2,3) refl g(4)])
    moreover have "utf8_encode t = rest \<and> (\<forall>c \<in> set t. scalar c)"
      using "2.IH"(4) [OF 4(1) _ _ _ t(1) refl refl refl _ t(2)] 4 g by auto
    ultimately show ?thesis using t g(5) by simp
  qed
qed simp

end
