(* ===== verification/Status_Wire.thy ===== *)
theory Status_Wire
  imports Status_Model Utf8
begin

text \<open>
  The OSC 7501 payload codec, \<^verbatim>\<open>shux-program-status/src/wire.rs\<close>, over byte lists.

  The base64 engine is a library: its encoder and decoder are the parameters \<open>enc\<close> and \<open>dec\<close> of the
  model, and what the round trip relies on is the interface \<open>base64_engine\<close>.  The last section
  interprets it on the standard alphabet written out.
\<close>

section \<open>Model\<close>

type_synonym bytes = "nat list"

datatype message = Query | MsgReport report

datatype reject = PayloadTooLong | KeyTooLong | ValueTooLong | BadId | BadText | MissingState | UnknownState

definition QUERY_REPLY_BODY :: bytes where
  "QUERY_REPLY_BODY = ascii ''?:states=idle,working,done,blocked,error:kinds=permission,question,auth''"

definition query_reply :: "bytes \<Rightarrow> bytes" where
  "query_reply terminator = [27] @ ascii '']7501;'' @ QUERY_REPLY_BODY @ terminator"

text \<open>The \<open>push\<close> closure of \<open>encode_payload\<close>, and the pushes it makes for a report.\<close>

definition push_pair :: "bytes \<Rightarrow> bytes \<times> bytes \<Rightarrow> bytes" where
  "push_pair out kv = (if out = [] then [] else out @ [58]) @ fst kv @ [61] @ snd kv"

fun opt_pair :: "string \<Rightarrow> bytes option \<Rightarrow> (bytes \<times> bytes) list" where
  "opt_pair key None = []"
| "opt_pair key (Some v) = [(ascii key, v)]"

fun report_pairs :: "(bytes \<Rightarrow> bytes) \<Rightarrow> report \<Rightarrow> (bytes \<times> bytes) list" where
  "report_pairs enc (ReportClear i) =
     (ascii ''state'', ascii ''clear'') # opt_pair ''id'' (map_option id_str i)"
| "report_pairs enc (ReportSet i r) =
     (ascii ''state'', state_str (rec_state r)) #
     opt_pair ''id'' (map_option id_str i) @
     opt_pair ''kind'' (map_option kind_str (rec_kind r)) @
     opt_pair ''progress'' (map_option decimal (rec_progress r)) @
     opt_pair ''app'' (rec_app r) @
     opt_pair ''title'' (map_option (\<lambda>t. enc (utf8_encode t)) (rec_title r)) @
     opt_pair ''msg'' (map_option (\<lambda>t. enc (utf8_encode t)) (rec_msg r))"

definition encode_payload :: "(bytes \<Rightarrow> bytes) \<Rightarrow> report \<Rightarrow> bytes" where
  "encode_payload enc rep = foldl push_pair [] (report_pairs enc rep)"

definition is_value_byte :: "nat \<Rightarrow> bool" where
  "is_value_byte b \<longleftrightarrow> is_ascii_alphanumeric b \<or> b \<in> set (ascii ''_.,+/=-'')"

definition is_pad :: "nat \<Rightarrow> bool" where
  "is_pad b \<longleftrightarrow> b = 32 \<or> b = 9"

definition trim_bytes :: "bytes \<Rightarrow> bytes" where
  "trim_bytes b = trim_by is_pad b"

definition parse_progress :: "bytes \<Rightarrow> nat option" where
  "parse_progress s =
     (if s = [] \<or> 3 < length s \<or> \<not> list_all is_ascii_digit s then None
      else let n = undecimal 0 s in if n \<le> 255 \<and> n \<le> 100 then Some n else None)"

definition parse_app :: "bytes \<Rightarrow> rstring option" where
  "parse_app s = (if s \<noteq> [] \<and> list_all is_id_byte s then Some s else None)"

definition decode_text :: "(bytes \<Rightarrow> bytes option) \<Rightarrow> bytes \<Rightarrow> nat \<Rightarrow> (rstring option, reject) result" where
  "decode_text dec v max_decoded =
     (if v = [] then Ok None
      else if (case position (\<lambda>b. b = 61) v of
                 None \<Rightarrow> False
               | Some pad \<Rightarrow> \<not> 4 dvd length v \<or> 2 < length v - pad) then Err BadText
      else case dec v of
             None \<Rightarrow> Err BadText
           | Some bs \<Rightarrow>
               if max_decoded < length bs then Err ValueTooLong
               else case utf8_decode bs of
                      None \<Rightarrow> Err BadText
                    | Some t \<Rightarrow>
                        if list_ex is_control t then Err BadText
                        else Ok (if t \<noteq> [] then Some t else None))"

record fields =
  f_state :: "bytes option"
  f_id :: "record_id option"
  f_kind :: "kind option"
  f_progress :: "nat option"
  f_app :: "rstring option"
  f_title :: "rstring option"
  f_msg :: "rstring option"

definition no_fields :: fields where
  "no_fields = \<lparr>f_state = None, f_id = None, f_kind = None, f_progress = None, f_app = None,
                f_title = None, f_msg = None\<rparr>"

definition key_limit :: "bytes \<Rightarrow> nat" where
  "key_limit key =
     (if key = ascii ''msg'' then MAX_MSG_ENCODED
      else if key = ascii ''title'' then MAX_TITLE_ENCODED
      else if key = ascii ''app'' then MAX_APP_BYTES
      else if key = ascii ''id'' then MAX_ID_BYTES
      else usize_max)"

text \<open>The second half of \<open>Fields::take\<close>, after the key has passed its checks.\<close>

definition take_value ::
  "(bytes \<Rightarrow> bytes option) \<Rightarrow> fields \<Rightarrow> bytes \<Rightarrow> bytes \<Rightarrow> (fields, reject) result" where
  "take_value dec f key v =
     (if key_limit key < length v then Err (if key = ascii ''id'' then BadId else ValueTooLong)
      else if key = ascii ''id'' then
        (case utf8_decode v of
           None \<Rightarrow> Err BadId
         | Some _ \<Rightarrow> (case record_id_parse v of None \<Rightarrow> Err BadId | Some i \<Rightarrow> Ok (f\<lparr>f_id := Some i\<rparr>)))
      else if \<not> list_all is_value_byte v then Ok f
      else if key = ascii ''state'' then Ok (f\<lparr>f_state := Some v\<rparr>)
      else if key = ascii ''kind'' then Ok (f\<lparr>f_kind := kind_parse v\<rparr>)
      else if key = ascii ''progress'' then Ok (f\<lparr>f_progress := parse_progress v\<rparr>)
      else if key = ascii ''app'' then Ok (f\<lparr>f_app := parse_app v\<rparr>)
      else if key = ascii ''title'' then
        (case decode_text dec v MAX_TITLE_DECODED of Err e \<Rightarrow> Err e | Ok t \<Rightarrow> Ok (f\<lparr>f_title := t\<rparr>))
      else if key = ascii ''msg'' then
        (case decode_text dec v MAX_MSG_DECODED of Err e \<Rightarrow> Err e | Ok t \<Rightarrow> Ok (f\<lparr>f_msg := t\<rparr>))
      else Ok f)"

definition fields_take :: "(bytes \<Rightarrow> bytes option) \<Rightarrow> fields \<Rightarrow> bytes \<Rightarrow> (fields, reject) result" where
  "fields_take dec f pair =
     (case position (\<lambda>b. b = 61) pair of
        None \<Rightarrow> Ok f
      | Some eq \<Rightarrow>
          let key = trim_bytes (take eq pair); v = trim_bytes (drop (eq + 1) pair)
          in if key = [] then Ok f
             else if MAX_KEY_BYTES < length key then Err KeyTooLong
             else if \<not> list_all is_ascii_lowercase key then Ok f
             else take_value dec f key v)"

fun take_all :: "(bytes \<Rightarrow> bytes option) \<Rightarrow> fields \<Rightarrow> bytes list \<Rightarrow> (fields, reject) result" where
  "take_all dec f [] = Ok f"
| "take_all dec f (pair # rest) =
     (case fields_take dec f pair of Err e \<Rightarrow> Err e | Ok f' \<Rightarrow> take_all dec f' rest)"

definition into_report :: "fields \<Rightarrow> (report, reject) result" where
  "into_report f =
     (case f_state f of
        None \<Rightarrow> Err MissingState
      | Some st \<Rightarrow>
          if st = ascii ''clear'' then Ok (ReportClear (f_id f))
          else case (case utf8_decode st of None \<Rightarrow> None | Some s \<Rightarrow> state_parse s) of
                 None \<Rightarrow> Err UnknownState
               | Some s \<Rightarrow>
                   Ok (ReportSet (f_id f)
                     \<lparr>rec_state = s,
                      rec_kind = (if s = Blocked then f_kind f else None),
                      rec_progress = (if s = Working \<or> s = Blocked then f_progress f else None),
                      rec_app = f_app f, rec_title = f_title f, rec_msg = f_msg f\<rparr>))"

definition decode :: "(bytes \<Rightarrow> bytes option) \<Rightarrow> bytes \<Rightarrow> (message, reject) result" where
  "decode dec payload =
     (if MAX_PAYLOAD_BYTES < length payload then Err PayloadTooLong
      else if trim_bytes payload = ascii ''?'' then Ok Query
      else case take_all dec no_fields (split_on (\<lambda>b. b = 58) payload) of
             Err e \<Rightarrow> Err e
           | Ok f \<Rightarrow> (case into_report f of Err e \<Rightarrow> Err e | Ok rep \<Rightarrow> Ok (MsgReport rep)))"

section \<open>What a decoded report satisfies\<close>

definition text_ok :: "nat \<Rightarrow> rstring option \<Rightarrow> bool" where
  "text_ok m t \<longleftrightarrow> (\<forall>s. t = Some s \<longrightarrow> s \<noteq> [] \<and> (\<forall>c \<in> set s. scalar c \<and> \<not> is_control c) \<and> utf8_len s \<le> m)"

fun record_ok :: "status_record \<Rightarrow> bool" where
  "record_ok r \<longleftrightarrow>
     (rec_kind r \<noteq> None \<longrightarrow> rec_state r = Blocked) \<and>
     (rec_progress r \<noteq> None \<longrightarrow> rec_state r = Working \<or> rec_state r = Blocked) \<and>
     (\<forall>n. rec_progress r = Some n \<longrightarrow> n \<le> 100) \<and>
     (\<forall>a. rec_app r = Some a \<longrightarrow> a \<noteq> [] \<and> length a \<le> MAX_APP_BYTES \<and> list_all is_id_byte a) \<and>
     text_ok MAX_TITLE_DECODED (rec_title r) \<and> text_ok MAX_MSG_DECODED (rec_msg r)"

fun report_ok :: "report \<Rightarrow> bool" where
  "report_ok (ReportClear i) \<longleftrightarrow> (\<forall>k. i = Some k \<longrightarrow> valid_id k)"
| "report_ok (ReportSet i r) \<longleftrightarrow> (\<forall>k. i = Some k \<longrightarrow> valid_id k) \<and> record_ok r"

section \<open>Pairs\<close>

definition pair_str :: "bytes \<times> bytes \<Rightarrow> bytes" where
  "pair_str kv = fst kv @ 61 # snd kv"

definition pair_ok :: "bytes \<times> bytes \<Rightarrow> bool" where
  "pair_ok kv \<longleftrightarrow> fst kv \<noteq> [] \<and> length (fst kv) \<le> MAX_KEY_BYTES \<and> list_all is_ascii_lowercase (fst kv) \<and>
     list_all is_value_byte (snd kv)"

fun take_values :: "(bytes \<Rightarrow> bytes option) \<Rightarrow> fields \<Rightarrow> (bytes \<times> bytes) list \<Rightarrow> (fields, reject) result" where
  "take_values dec f [] = Ok f"
| "take_values dec f (kv # rest) =
     (case take_value dec f (fst kv) (snd kv) of Err e \<Rightarrow> Err e | Ok f' \<Rightarrow> take_values dec f' rest)"

lemma value_byte_clean: "is_value_byte b \<Longrightarrow> b \<noteq> 58 \<and> \<not> is_pad b"
  by (auto simp: is_value_byte_def is_pad_def char_class_defs)

lemma lowercase_clean: "is_ascii_lowercase b \<Longrightarrow> b \<noteq> 58 \<and> b \<noteq> 61 \<and> \<not> is_pad b"
  by (auto simp: is_ascii_lowercase_def is_pad_def)

lemma trim_clean: "\<forall>b \<in> set bs. \<not> is_pad b \<Longrightarrow> trim_bytes bs = bs"
  by (cases "bs = []") (simp_all add: trim_bytes_def trim_by_id trimmed_by_def)

lemma position_after: "\<forall>x \<in> set xs. \<not> P x \<Longrightarrow> P y \<Longrightarrow> position P (xs @ y # ys) = Some (length xs)"
  by (induction xs) auto

lemma fields_take_pair:
  assumes "pair_ok kv"
  shows "fields_take dec f (pair_str kv) = take_value dec f (fst kv) (snd kv)"
proof -
  obtain k v where kv: "kv = (k, v)" by (cases kv)
  have k: "\<forall>b \<in> set k. b \<noteq> 61 \<and> \<not> is_pad b" and v: "\<forall>b \<in> set v. \<not> is_pad b"
    using assms lowercase_clean value_byte_clean by (auto simp: kv pair_ok_def list_all_iff)
  then have "position (\<lambda>b. b = 61) (k @ 61 # v) = Some (length k)" by (intro position_after) auto
  with assms k v show ?thesis
    by (simp add: kv fields_take_def pair_str_def pair_ok_def trim_clean)
qed

lemma take_all_pairs: "list_all pair_ok kvs \<Longrightarrow> take_all dec f (map pair_str kvs) = take_values dec f kvs"
  by (induction kvs arbitrary: f) (auto simp: fields_take_pair split: result.splits)

lemma take_values_append:
  "take_values dec f (xs @ ys) = (case take_values dec f xs of Err e \<Rightarrow> Err e | Ok f' \<Rightarrow> take_values dec f' ys)"
  by (induction xs arbitrary: f) (auto split: result.splits)

lemma push_pair_nonempty: "kvs \<noteq> [] \<Longrightarrow> foldl push_pair [] kvs \<noteq> []"
  by (cases kvs rule: rev_cases) (auto simp: push_pair_def)

lemma pair_str_colons: "pair_ok kv \<Longrightarrow> b \<in> set (pair_str kv) \<Longrightarrow> b \<noteq> 58 \<and> \<not> is_pad b"
  using lowercase_clean value_byte_clean by (auto simp: pair_str_def pair_ok_def list_all_iff is_pad_def)

lemma split_payload:
  "kvs \<noteq> [] \<Longrightarrow> list_all pair_ok kvs \<Longrightarrow> split_on (\<lambda>b. b = 58) (foldl push_pair [] kvs) = map pair_str kvs"
proof (induction kvs rule: rev_induct)
  case (snoc kv kvs)
  have one: "split_on (\<lambda>b. b = 58) (pair_str kv) = [pair_str kv]"
    using pair_str_colons [of kv] snoc.prems by (intro split_segment) auto
  show ?case
  proof (cases "kvs = []")
    case True
    then show ?thesis using one by (simp add: push_pair_def pair_str_def)
  next
    case False
    then have "foldl push_pair [] (kvs @ [kv]) = foldl push_pair [] kvs @ 58 # pair_str kv"
      using push_pair_nonempty [OF False] by (simp add: push_pair_def pair_str_def)
    with snoc False one show ?thesis by (simp add: split_on_append)
  qed
qed simp

lemma payload_clean: "list_all pair_ok kvs \<Longrightarrow> b \<in> set (foldl push_pair [] kvs) \<Longrightarrow> \<not> is_pad b"
proof (induction kvs rule: rev_induct)
  case (snoc kv kvs)
  then have "b \<in> set (foldl push_pair [] kvs) \<or> b = 58 \<or> b \<in> set (pair_str kv)"
    by (auto simp: push_pair_def [of _ kv] pair_str_def split: if_splits)
  with snoc pair_str_colons [of kv b] show ?case by (auto simp: is_pad_def)
qed simp

definition weight :: "(bytes \<times> bytes) list \<Rightarrow> nat" where
  "weight kvs = sum_list (map (\<lambda>kv. length (fst kv) + length (snd kv) + 2) kvs)"

lemma weight_simps [simp]:
  "weight [] = 0" "weight (kv # kvs) = length (fst kv) + length (snd kv) + 2 + weight kvs"
  "weight (xs @ ys) = weight xs + weight ys"
  by (simp_all add: weight_def)

lemma payload_length: "length (foldl push_pair [] kvs) \<le> weight kvs"
  by (induction kvs rule: rev_induct) (auto simp: push_pair_def)

section \<open>Each pair of a well-formed report\<close>

lemma valid_id_bytes: "valid_id i \<Longrightarrow> b \<in> set (id_str i) \<Longrightarrow> is_id_byte b \<or> b = 47"
proof -
  assume v: "valid_id i" and b: "b \<in> set (id_str i)"
  have pieces: "b \<in> set s \<Longrightarrow> b = 47 \<or> (\<exists>w \<in> set (split_on (\<lambda>b. b = 47) s). b \<in> set w)" for s
    by (induction s) (auto split: list.splits)
  show ?thesis using v pieces [OF b] by (auto simp: valid_id_iff list_all_iff segment_ok_def)
qed

lemma id_byte_value: "is_id_byte b \<Longrightarrow> is_value_byte b \<and> b < 128"
  by (auto simp: is_id_byte_def is_value_byte_def char_class_defs)

lemma valid_id_value: "valid_id i \<Longrightarrow> list_all is_value_byte (id_str i) \<and> (\<forall>b \<in> set (id_str i). b < 128)"
proof -
  assume v: "valid_id i"
  have "is_value_byte b \<and> b < 128" if "b \<in> set (id_str i)" for b
    using valid_id_bytes [OF v that] id_byte_value [of b] by (auto simp: is_value_byte_def)
  then show ?thesis by (simp add: list_all_iff)
qed

lemma state_str_value: "list_all is_value_byte (state_str st)" "length (state_str st) \<le> 7"
  "\<forall>b \<in> set (state_str st). b < 128" "state_str st \<noteq> ascii ''clear''"
  by (cases st; simp add: is_value_byte_def char_class_defs)+

lemma kind_str_value: "list_all is_value_byte (kind_str k)" "length (kind_str k) \<le> 10"
  by (cases k; simp add: is_value_byte_def char_class_defs)+

lemma decimal_value: "list_all is_value_byte (decimal n)" "list_all is_ascii_digit (decimal n)"
  using decimal_digits [of _ n] by (auto simp: list_all_iff is_value_byte_def char_class_defs)

lemma decimal_short: "n \<le> 100 \<Longrightarrow> length (decimal n) \<le> 3"
proof -
  assume n: "n \<le> 100"
  have step: "length (decimal m) \<le> Suc (length (decimal (m div 10)))" for m
    by (subst decimal.simps) simp
  have "length (decimal (n div 10 div 10)) = 1" using n by (subst decimal.simps) simp
  with step [of n] step [of "n div 10"] show ?thesis by simp
qed

lemma parse_progress_decimal: "n \<le> 100 \<Longrightarrow> parse_progress (decimal n) = Some n"
  using decimal_short [of n] decimal_value [of n] by (simp add: parse_progress_def undecimal_decimal)

lemma take_state: "list_all is_value_byte v \<Longrightarrow> length v \<le> 7 \<Longrightarrow> take_value dec f (ascii ''state'') v = Ok (f\<lparr>f_state := Some v\<rparr>)"
  by (simp add: take_value_def key_limit_def usize_max_def)

lemma take_id:
  "\<forall>k. i = Some k \<longrightarrow> valid_id k \<Longrightarrow> f_id f = None \<Longrightarrow>
     take_values dec f (opt_pair ''id'' (map_option id_str i)) = Ok (f\<lparr>f_id := i\<rparr>)"
  using valid_id_value
  by (cases i) (auto simp: take_value_def key_limit_def valid_id_def utf8_ascii record_id_parse_def split: if_splits)

lemma take_kind: "f_kind f = None \<Longrightarrow>
    take_values dec f (opt_pair ''kind'' (map_option kind_str k)) = Ok (f\<lparr>f_kind := k\<rparr>)"
proof (cases k)
  case (Some x)
  with kind_str_value [of x] show ?thesis by (auto simp: take_value_def key_limit_def usize_max_def)
qed simp

lemma take_progress: "\<forall>n. p = Some n \<longrightarrow> n \<le> 100 \<Longrightarrow> f_progress f = None \<Longrightarrow>
    take_values dec f (opt_pair ''progress'' (map_option decimal p)) = Ok (f\<lparr>f_progress := p\<rparr>)"
proof (cases p)
  case (Some n)
  moreover assume "\<forall>n. p = Some n \<longrightarrow> n \<le> 100"
  ultimately show ?thesis
    using decimal_value [of n] decimal_short [of n]
    by (auto simp: take_value_def key_limit_def usize_max_def parse_progress_decimal)
qed simp

lemma take_app: "\<forall>s. a = Some s \<longrightarrow> s \<noteq> [] \<and> length s \<le> MAX_APP_BYTES \<and> list_all is_id_byte s \<Longrightarrow> f_app f = None \<Longrightarrow>
    take_values dec f (opt_pair ''app'' a) = Ok (f\<lparr>f_app := a\<rparr>)"
  using id_byte_value by (cases a) (auto simp: take_value_def key_limit_def parse_app_def list_all_iff)

section \<open>The base64 engine\<close>

locale base64_engine =
  fixes enc :: "bytes \<Rightarrow> bytes" and dec :: "bytes \<Rightarrow> bytes option"
  assumes dec_enc: "\<forall>b \<in> set bs. b < 256 \<Longrightarrow> dec (enc bs) = Some bs"
    and enc_alphabet: "b \<in> set (enc bs) \<Longrightarrow> is_ascii_alphanumeric b \<or> b = 43 \<or> b = 47 \<or> b = 61"
    and enc_length: "length (enc bs) = 4 * ((length bs + 2) div 3)"
    and enc_padding: "position (\<lambda>b. b = 61) (enc bs) = Some k \<Longrightarrow> length (enc bs) - k \<le> 2"
begin

lemma enc_value_bytes: "list_all is_value_byte (enc bs)"
  using enc_alphabet [of _ bs] by (fastforce simp: list_all_iff is_value_byte_def)

lemma decode_text_enc:
  assumes "s \<noteq> []" "\<forall>c \<in> set s. scalar c \<and> \<not> is_control c" "utf8_len s \<le> m"
  shows "decode_text dec (enc (utf8_encode s)) m = Ok (Some s)"
proof -
  have "dec (enc (utf8_encode s)) = Some (utf8_encode s)" "utf8_decode (utf8_encode s) = Some s"
    using assms(2) utf8_encode_bytes [of s] by (auto intro!: dec_enc utf8_roundtrip)
  moreover have "enc (utf8_encode s) \<noteq> []" "4 dvd length (enc (utf8_encode s))"
    using assms(1) enc_length [of "utf8_encode s"] utf8_encode_Nil [of s]
    by (cases "utf8_encode s"; auto)+
  ultimately show ?thesis
    using assms enc_padding [of "utf8_encode s"]
    by (auto simp: decode_text_def utf8_len_def list_ex_iff not_less split: option.splits)
qed

lemma enc_size: "length bs \<le> 3 * n \<Longrightarrow> length (enc bs) \<le> 4 * n"
proof -
  assume "length bs \<le> 3 * n"
  then have "(length bs + 2) div 3 \<le> (3 * n + 2) div 3" by (intro div_le_mono) simp
  then show ?thesis by (simp add: enc_length)
qed

lemma text_enc_size:
  "text_ok MAX_TITLE_DECODED (Some s) \<Longrightarrow> length (enc (utf8_encode s)) \<le> MAX_TITLE_ENCODED"
  "text_ok MAX_MSG_DECODED (Some s) \<Longrightarrow> length (enc (utf8_encode s)) \<le> MAX_MSG_ENCODED"
  using enc_size [of "utf8_encode s" 64] enc_size [of "utf8_encode s" 683]
  by (simp_all add: text_ok_def utf8_len_def limit_defs)

lemma take_title: "text_ok MAX_TITLE_DECODED t \<Longrightarrow> f_title f = None \<Longrightarrow>
    take_values dec f (opt_pair ''title'' (map_option (\<lambda>t. enc (utf8_encode t)) t)) = Ok (f\<lparr>f_title := t\<rparr>)"
proof (cases t)
  case (Some s)
  moreover assume "text_ok MAX_TITLE_DECODED t"
  ultimately show ?thesis
    using decode_text_enc [of s MAX_TITLE_DECODED] text_enc_size(1) [of s] enc_value_bytes
    by (auto simp: take_value_def key_limit_def text_ok_def)
qed simp

lemma take_msg: "text_ok MAX_MSG_DECODED t \<Longrightarrow> f_msg f = None \<Longrightarrow>
    take_values dec f (opt_pair ''msg'' (map_option (\<lambda>t. enc (utf8_encode t)) t)) = Ok (f\<lparr>f_msg := t\<rparr>)"
proof (cases t)
  case (Some s)
  moreover assume "text_ok MAX_MSG_DECODED t"
  ultimately show ?thesis
    using decode_text_enc [of s MAX_MSG_DECODED] text_enc_size(2) [of s] enc_value_bytes
    by (auto simp: take_value_def key_limit_def text_ok_def)
qed simp

lemma opt_pair_ok:
  "pair_ok (ascii key, []) \<Longrightarrow> \<forall>x. v = Some x \<longrightarrow> list_all is_value_byte x \<Longrightarrow> list_all pair_ok (opt_pair key v)"
  by (cases v) (auto simp: pair_ok_def)

lemma keys_ok: "pair_ok (ascii ''state'', [])" "pair_ok (ascii ''id'', [])" "pair_ok (ascii ''kind'', [])"
  "pair_ok (ascii ''progress'', [])" "pair_ok (ascii ''app'', [])" "pair_ok (ascii ''title'', [])" "pair_ok (ascii ''msg'', [])"
  by (simp_all add: pair_ok_def MAX_KEY_BYTES_def is_ascii_lowercase_def)

lemma pair_ok_value: "pair_ok (k, []) \<Longrightarrow> list_all is_value_byte v \<Longrightarrow> pair_ok (k, v)"
  by (simp add: pair_ok_def)

lemma app_value: "list_all is_id_byte a \<Longrightarrow> list_all is_value_byte a"
  using id_byte_value by (auto simp: list_all_iff)

lemma id_pairs_ok: "\<forall>k. i = Some k \<longrightarrow> valid_id k \<Longrightarrow> list_all pair_ok (opt_pair ''id'' (map_option id_str i))"
  by (rule opt_pair_ok [OF keys_ok(2)]) (auto simp: valid_id_value)

lemma record_pairs_ok:
  "list_all pair_ok (opt_pair ''kind'' (map_option kind_str k))"
  "list_all pair_ok (opt_pair ''progress'' (map_option decimal p))"
  "\<forall>x. a = Some x \<longrightarrow> list_all is_id_byte x \<Longrightarrow> list_all pair_ok (opt_pair ''app'' a)"
  "list_all pair_ok (opt_pair ''title'' (map_option (\<lambda>t. enc (utf8_encode t)) t))"
  "list_all pair_ok (opt_pair ''msg'' (map_option (\<lambda>t. enc (utf8_encode t)) t))"
  by (rule opt_pair_ok, (simp only: keys_ok), auto simp: kind_str_value decimal_value app_value enc_value_bytes)+

lemma report_pairs_ok: "report_ok rep \<Longrightarrow> list_all pair_ok (report_pairs enc rep)"
proof (cases rep)
  case (ReportClear i)
  assume "report_ok rep"
  then have "list_all pair_ok (opt_pair ''id'' (map_option id_str i))" using ReportClear by (intro id_pairs_ok) simp
  moreover have "pair_ok (ascii ''state'', ascii ''clear'')"
    by (rule pair_ok_value [OF keys_ok(1)]) (simp add: is_value_byte_def char_class_defs)
  ultimately show ?thesis by (simp add: ReportClear del: ascii_simps)
next
  case (ReportSet i r)
  assume ok: "report_ok rep"
  then have "list_all pair_ok (opt_pair ''id'' (map_option id_str i))" using ReportSet by (intro id_pairs_ok) simp
  moreover have "list_all pair_ok (opt_pair ''app'' (rec_app r))" using ok ReportSet by (intro record_pairs_ok) simp
  moreover have "pair_ok (ascii ''state'', state_str (rec_state r))"
    by (rule pair_ok_value [OF keys_ok(1) state_str_value(1)])
  ultimately show ?thesis by (simp add: ReportSet record_pairs_ok(1,2,4,5) del: ascii_simps)
qed

lemma into_report_set:
  assumes "record_ok r"
  shows "into_report \<lparr>f_state = Some (state_str (rec_state r)), f_id = i, f_kind = rec_kind r, f_progress = rec_progress r,
           f_app = rec_app r, f_title = rec_title r, f_msg = rec_msg r\<rparr> = Ok (ReportSet i r)"
proof -
  have "(if rec_state r = Blocked then rec_kind r else None) = rec_kind r"
    "(if rec_state r = Working \<or> rec_state r = Blocked then rec_progress r else None) = rec_progress r"
    using assms by auto
  then show ?thesis using state_str_value [of "rec_state r"]
    by (simp only: into_report_def fields.simps option.simps if_False utf8_ascii state_parse_str) simp
qed

lemma report_fields:
  assumes "report_ok rep"
  shows "\<exists>f. take_values dec no_fields (report_pairs enc rep) = Ok f \<and> into_report f = Ok rep"
proof (cases rep)
  case (ReportClear i)
  have "take_value dec no_fields (ascii ''state'') (ascii ''clear'') = Ok (no_fields\<lparr>f_state := Some (ascii ''clear'')\<rparr>)"
    by (rule take_state) (simp_all add: is_value_byte_def char_class_defs)
  with assms ReportClear show ?thesis
    by (simp add: take_id no_fields_def into_report_def del: ascii_simps)
next
  case (ReportSet i r)
  let ?f = "no_fields\<lparr>f_state := Some (state_str (rec_state r))\<rparr>"
  have "take_value dec no_fields (ascii ''state'') (state_str (rec_state r)) = Ok ?f"
    by (rule take_state) (simp_all add: state_str_value)
  then have "take_values dec no_fields (report_pairs enc rep) =
      Ok \<lparr>f_state = Some (state_str (rec_state r)), f_id = i, f_kind = rec_kind r, f_progress = rec_progress r,
          f_app = rec_app r, f_title = rec_title r, f_msg = rec_msg r\<rparr>"
    using assms ReportSet
    by (simp add: take_values_append take_id take_kind take_progress take_app take_title take_msg no_fields_def
        del: ascii_simps)
  with into_report_set [of r i] assms ReportSet show ?thesis by auto
qed

lemma opt_pair_weight: "\<forall>x. v = Some x \<longrightarrow> length x \<le> n \<Longrightarrow> length key + n + 2 \<le> m \<Longrightarrow> weight (opt_pair key v) \<le> m"
  by (cases v) auto

lemma id_weight: "\<forall>k. i = Some k \<longrightarrow> valid_id k \<Longrightarrow> weight (opt_pair ''id'' (map_option id_str i)) \<le> 132"
  by (rule opt_pair_weight [of _ MAX_ID_BYTES]) (auto simp: valid_id_iff MAX_ID_BYTES_def)

lemma text_weight:
  "text_ok MAX_TITLE_DECODED t \<Longrightarrow> weight (opt_pair ''title'' (map_option (\<lambda>t. enc (utf8_encode t)) t)) \<le> 263"
  "text_ok MAX_MSG_DECODED t \<Longrightarrow> weight (opt_pair ''msg'' (map_option (\<lambda>t. enc (utf8_encode t)) t)) \<le> 2737"
  by (rule opt_pair_weight [of _ MAX_TITLE_ENCODED], use text_enc_size(1) in force, simp add: limit_defs)
     (rule opt_pair_weight [of _ MAX_MSG_ENCODED], use text_enc_size(2) in force, simp add: limit_defs)

lemma record_weight:
  assumes "record_ok r"
  shows "weight (opt_pair ''kind'' (map_option kind_str (rec_kind r))) \<le> 16"
    and "weight (opt_pair ''progress'' (map_option decimal (rec_progress r))) \<le> 13"
    and "weight (opt_pair ''app'' (rec_app r)) \<le> 37"
proof -
  show "weight (opt_pair ''kind'' (map_option kind_str (rec_kind r))) \<le> 16"
    by (rule opt_pair_weight [of _ 10]) (use kind_str_value in auto)
  show "weight (opt_pair ''progress'' (map_option decimal (rec_progress r))) \<le> 13"
    by (rule opt_pair_weight [of _ 3]) (use assms decimal_short in auto)
  show "weight (opt_pair ''app'' (rec_app r)) \<le> 37"
    by (rule opt_pair_weight [of _ MAX_APP_BYTES]) (use assms in \<open>simp_all add: MAX_APP_BYTES_def\<close>)
qed

lemma payload_fits: "report_ok rep \<Longrightarrow> length (encode_payload enc rep) \<le> MAX_PAYLOAD_BYTES"
proof -
  assume ok: "report_ok rep"
  have "weight (report_pairs enc rep) \<le> MAX_PAYLOAD_BYTES"
  proof (cases rep)
    case (ReportClear i)
    then show ?thesis using id_weight [of i] ok by (simp add: limit_defs)
  next
    case (ReportSet i r)
    then have "record_ok r" and i: "\<forall>k. i = Some k \<longrightarrow> valid_id k"
      and "text_ok MAX_TITLE_DECODED (rec_title r)" "text_ok MAX_MSG_DECODED (rec_msg r)" using ok by auto
    with id_weight [OF i] record_weight [of r] text_weight state_str_value(2) [of "rec_state r"]
    show ?thesis by (fastforce simp: ReportSet limit_defs simp del: record_ok.simps)
  qed
  then show ?thesis using payload_length [of "report_pairs enc rep"] by (simp add: encode_payload_def)
qed

lemma decode_encode:
  assumes "report_ok rep"
  shows "decode dec (encode_payload enc rep) = Ok (MsgReport rep)"
proof -
  have ps: "list_all pair_ok (report_pairs enc rep)" "report_pairs enc rep \<noteq> []"
    using report_pairs_ok [OF assms] by (cases rep; simp)+
  have "trim_bytes (encode_payload enc rep) = encode_payload enc rep"
    using payload_clean [OF ps(1)] by (intro trim_clean) (auto simp: encode_payload_def)
  moreover have "encode_payload enc rep \<noteq> ascii ''?''"
  proof
    assume "encode_payload enc rep = ascii ''?''"
    then have "split_on (\<lambda>b. b = 58) (encode_payload enc rep) = [[63]]" by simp
    with split_payload [OF ps(2,1)] have "map pair_str (report_pairs enc rep) = [[63]]"
      by (simp add: encode_payload_def)
    then show False by (cases rep; simp add: pair_str_def)
  qed
  ultimately show ?thesis
    using report_fields [OF assms] split_payload [OF ps(2,1)] take_all_pairs [OF ps(1)] payload_fits [OF assms]
    by (auto simp: decode_def encode_payload_def)
qed

end

section \<open>What decoding accepts\<close>

definition fields_ok :: "fields \<Rightarrow> bool" where
  "fields_ok f \<longleftrightarrow>
     (\<forall>k. f_id f = Some k \<longrightarrow> valid_id k) \<and> (\<forall>n. f_progress f = Some n \<longrightarrow> n \<le> 100) \<and>
     (\<forall>a. f_app f = Some a \<longrightarrow> a \<noteq> [] \<and> length a \<le> MAX_APP_BYTES \<and> list_all is_id_byte a) \<and>
     text_ok MAX_TITLE_DECODED (f_title f) \<and> text_ok MAX_MSG_DECODED (f_msg f)"

lemma decode_text_ok: "decode_text dec v m = Ok t \<Longrightarrow> text_ok m t"
  using utf8_decode_sound
  by (auto simp: decode_text_def text_ok_def utf8_len_def list_ex_iff split: if_splits option.splits)

lemma parse_progress_le: "parse_progress s = Some n \<Longrightarrow> n \<le> 100"
  by (auto simp: parse_progress_def Let_def split: if_splits)

lemma parse_app_Some: "parse_app s = Some a \<longleftrightarrow> a = s \<and> s \<noteq> [] \<and> list_all is_id_byte s"
  by (auto simp: parse_app_def)

lemma key_limit_app: "key_limit (ascii ''app'') = MAX_APP_BYTES"
  by (simp add: key_limit_def)

fun good_fields :: "(fields, reject) result \<Rightarrow> bool" where
  "good_fields (Ok f) = fields_ok f"
| "good_fields (Err _) = True"

lemma good_if: "(c \<Longrightarrow> good_fields a) \<Longrightarrow> (\<not> c \<Longrightarrow> good_fields b) \<Longrightarrow> good_fields (if c then a else b)"
  by simp

lemma good_updates:
  assumes "fields_ok f"
  shows "good_fields (case record_id_parse v of None \<Rightarrow> Err BadId | Some i \<Rightarrow> Ok (f\<lparr>f_id := Some i\<rparr>))"
    and "good_fields (Ok (f\<lparr>f_state := s\<rparr>))" and "good_fields (Ok (f\<lparr>f_kind := k\<rparr>))"
    and "good_fields (Ok (f\<lparr>f_progress := parse_progress v\<rparr>))"
    and "length v \<le> MAX_APP_BYTES \<Longrightarrow> good_fields (Ok (f\<lparr>f_app := parse_app v\<rparr>))"
    and "good_fields (case decode_text dec v MAX_TITLE_DECODED of Err e \<Rightarrow> Err e | Ok t \<Rightarrow> Ok (f\<lparr>f_title := t\<rparr>))"
    and "good_fields (case decode_text dec v MAX_MSG_DECODED of Err e \<Rightarrow> Err e | Ok t \<Rightarrow> Ok (f\<lparr>f_msg := t\<rparr>))"
    and "good_fields (Ok f)"
  using assms valid_id_parse parse_progress_le decode_text_ok
  by (auto simp: fields_ok_def parse_app_Some split: option.splits result.splits)

lemma take_value_good: "fields_ok f \<Longrightarrow> good_fields (take_value dec f key v)"
  unfolding take_value_def
  by (intro good_if; (elim good_updates)?)
     (auto simp del: ascii_simps simp: key_limit_app good_updates(1) split: option.split intro!: good_updates(5))

lemma take_value_ok: "fields_ok f \<Longrightarrow> take_value dec f key v = Ok f' \<Longrightarrow> fields_ok f'"
  using take_value_good [of f dec key v] by simp

lemma take_all_ok: "fields_ok f \<Longrightarrow> take_all dec f ps = Ok f' \<Longrightarrow> fields_ok f'"
proof (induction ps arbitrary: f)
  case (Cons p ps)
  then obtain g where g: "fields_take dec f p = Ok g" "take_all dec g ps = Ok f'" by (auto split: result.splits)
  have "fields_ok g" using g(1) Cons.prems(1) take_value_ok
    by (auto simp: fields_take_def Let_def split: option.splits if_splits)
  with Cons.IH g show ?case by blast
qed simp

lemma into_report_ok: "fields_ok f \<Longrightarrow> into_report f = Ok rep \<Longrightarrow> report_ok rep"
  by (auto simp: into_report_def fields_ok_def split: option.splits if_splits)

section \<open>The standard alphabet\<close>

definition b64_char :: "nat \<Rightarrow> nat" where
  "b64_char n = (if n < 26 then 65 + n else if n < 52 then 71 + n else if n < 62 then n - 4
                 else if n = 62 then 43 else 47)"

definition b64_val :: "nat \<Rightarrow> nat" where
  "b64_val c = (if 65 \<le> c \<and> c \<le> 90 then c - 65 else if 97 \<le> c \<and> c \<le> 122 then c - 71
                else if 48 \<le> c \<and> c \<le> 57 then c + 4 else if c = 43 then 62 else 63)"

fun b64_encode :: "bytes \<Rightarrow> bytes" where
  "b64_encode [] = []"
| "b64_encode [a] = [b64_char (a div 4), b64_char (a mod 4 * 16), 61, 61]"
| "b64_encode [a, b] = [b64_char (a div 4), b64_char (a mod 4 * 16 + b div 16), b64_char (b mod 16 * 4), 61]"
| "b64_encode (a # b # c # rest) =
     b64_char (a div 4) # b64_char (a mod 4 * 16 + b div 16) # b64_char (b mod 16 * 4 + c div 64) #
     b64_char (c mod 64) # b64_encode rest"

text \<open>Padding complete or left out, no stray bits in the last group.\<close>

definition is_b64_byte :: "nat \<Rightarrow> bool" where
  "is_b64_byte c \<longleftrightarrow> is_ascii_alphanumeric c \<or> c = 43 \<or> c = 47"

fun b64_groups :: "bytes \<Rightarrow> bytes option" where
  "b64_groups [] = Some []"
| "b64_groups [w] = None"
| "b64_groups [w, x] = (if b64_val x mod 16 = 0 then Some [b64_val w * 4 + b64_val x div 16] else None)"
| "b64_groups [w, x, y] =
     (if b64_val y mod 4 = 0
      then Some [b64_val w * 4 + b64_val x div 16, b64_val x mod 16 * 16 + b64_val y div 4] else None)"
| "b64_groups (w # x # y # z # rest) =
     map_option (\<lambda>bs. (b64_val w * 4 + b64_val x div 16) # (b64_val x mod 16 * 16 + b64_val y div 4) #
                      (b64_val y mod 4 * 64 + b64_val z) # bs) (b64_groups rest)"

definition b64_decode :: "bytes \<Rightarrow> bytes option" where
  "b64_decode v =
     (let body = takeWhile (\<lambda>c. c \<noteq> 61) v
      in if list_all is_b64_byte body \<and> list_all (\<lambda>c. c = 61) (drop (length body) v) then b64_groups body else None)"

lemma b64_val_char [simp]: "n < 64 \<Longrightarrow> b64_val (b64_char n) = n"
  by (auto simp: b64_val_def b64_char_def)

lemma b64_char_byte [simp]: "is_b64_byte (b64_char n)" "b64_char n \<noteq> 61"
  by (auto simp: is_b64_byte_def b64_char_def char_class_defs)

lemma b64_split: "\<forall>b \<in> set bs. b < 256 \<Longrightarrow>
  \<exists>body pad. b64_encode bs = body @ pad \<and> list_all is_b64_byte body \<and> 61 \<notin> set body \<and> list_all (\<lambda>c. c = 61) pad \<and>
    length pad \<le> 2 \<and> b64_groups body = Some bs"
proof (induction bs rule: b64_encode.induct)
  case (2 a)
  have "a div 4 < 64" "a mod 4 * 16 < 64" using 2 by auto
  then show ?case
    by (intro exI [of _ "[b64_char (a div 4), b64_char (a mod 4 * 16)]"] exI [of _ "[61, 61]"]) simp
next
  case (3 a b)
  have "b div 16 < 16" using 3 by auto
  moreover have "a mod 4 < 4" "b mod 16 < 16" by simp_all
  ultimately have l: "a div 4 < 64" "a mod 4 * 16 + b div 16 < 64" "b mod 16 * 4 < 64"
    and "(a mod 4 * 16 + b div 16) div 16 = a mod 4" "(a mod 4 * 16 + b div 16) mod 16 = b div 16"
    using 3 by auto
  then show ?case
    by (intro exI [of _ "[b64_char (a div 4), b64_char (a mod 4 * 16 + b div 16), b64_char (b mod 16 * 4)]"]
        exI [of _ "[61]"]) simp
next
  case (4 a b c rest)
  then obtain body pad where IH: "b64_encode rest = body @ pad" "list_all is_b64_byte body" "61 \<notin> set body"
    "list_all (\<lambda>c. c = 61) pad" "length pad \<le> 2" "b64_groups body = Some rest" by auto
  have "b div 16 < 16" "c div 64 < 4" using 4 by auto
  moreover have "a mod 4 < 4" "b mod 16 < 16" by simp_all
  ultimately have l: "a div 4 < 64" "a mod 4 * 16 + b div 16 < 64" "b mod 16 * 4 + c div 64 < 64"
    and "(a mod 4 * 16 + b div 16) div 16 = a mod 4" "(a mod 4 * 16 + b div 16) mod 16 = b div 16"
    and "(b mod 16 * 4 + c div 64) div 4 = b mod 16" "(b mod 16 * 4 + c div 64) mod 4 = c div 64"
    using 4 by auto
  then show ?case using IH
    by (intro exI [of _ "b64_char (a div 4) # b64_char (a mod 4 * 16 + b div 16) # b64_char (b mod 16 * 4 + c div 64) #
          b64_char (c mod 64) # body"] exI [of _ pad]) simp
qed simp

lemma b64_roundtrip: "\<forall>b \<in> set bs. b < 256 \<Longrightarrow> b64_decode (b64_encode bs) = Some bs"
proof -
  assume "\<forall>b \<in> set bs. b < 256"
  from b64_split [OF this] obtain body pad where s: "b64_encode bs = body @ pad" "list_all is_b64_byte body" "61 \<notin> set body"
    "list_all (\<lambda>c. c = 61) pad" "b64_groups body = Some bs" by blast
  have "takeWhile (\<lambda>c. c \<noteq> 61) (body @ pad) = body"
    using s(3,4) by (cases pad) (auto simp: takeWhile_append2 takeWhile_tail)
  with s show ?thesis by (simp add: b64_decode_def)
qed

lemma b64_shape:
  "\<exists>body pad. b64_encode bs = body @ pad \<and> list_all is_b64_byte body \<and> list_all (\<lambda>c. c = 61) pad \<and> length pad \<le> 2 \<and>
     length (b64_encode bs) = 4 * ((length bs + 2) div 3)"
proof (induction bs rule: b64_encode.induct)
  case (2 a)
  show ?case
    by (intro exI [of _ "[b64_char (a div 4), b64_char (a mod 4 * 16)]"] exI [of _ "[61, 61]"]) simp
next
  case (3 a b)
  show ?case
    by (intro exI [of _ "[b64_char (a div 4), b64_char (a mod 4 * 16 + b div 16), b64_char (b mod 16 * 4)]"]
        exI [of _ "[61]"]) simp
next
  case (4 a b c rest)
  then obtain body pad where "b64_encode rest = body @ pad" "list_all is_b64_byte body" "list_all (\<lambda>c. c = 61) pad"
    "length pad \<le> 2" "length (b64_encode rest) = 4 * ((length rest + 2) div 3)" by auto
  moreover have "(length (a # b # c # rest) + 2) div 3 = (length rest + 2) div 3 + 1"
    by (subst div_add_self2 [symmetric]) simp_all
  ultimately show ?case
    by (intro exI [of _ "b64_char (a div 4) # b64_char (a mod 4 * 16 + b div 16) # b64_char (b mod 16 * 4 + c div 64) #
          b64_char (c mod 64) # body"] exI [of _ pad]) (simp del: One_nat_def)
qed simp

lemma position_pad: "list_all is_b64_byte body \<Longrightarrow> position (\<lambda>b. b = 61) (body @ pad) = Some k \<Longrightarrow> length body \<le> k"
  by (induction body arbitrary: k) (auto simp: is_b64_byte_def char_class_defs split: if_splits)

interpretation std_base64: base64_engine b64_encode b64_decode
proof
  fix bs :: bytes
  show "\<forall>b \<in> set bs. b < 256 \<Longrightarrow> b64_decode (b64_encode bs) = Some bs" by (rule b64_roundtrip)
  obtain body pad where s: "b64_encode bs = body @ pad" "list_all is_b64_byte body" "list_all (\<lambda>c. c = 61) pad"
    "length pad \<le> 2" "length (b64_encode bs) = 4 * ((length bs + 2) div 3)" using b64_shape by blast
  show "length (b64_encode bs) = 4 * ((length bs + 2) div 3)" by (rule s(5))
  show "is_ascii_alphanumeric b \<or> b = 43 \<or> b = 47 \<or> b = 61" if "b \<in> set (b64_encode bs)" for b
    using that s(2,3) by (auto simp: s(1) list_all_iff is_b64_byte_def)
  show "length (b64_encode bs) - k \<le> 2" if "position (\<lambda>b. b = 61) (b64_encode bs) = Some k" for k
    using position_pad [OF s(2), of pad k] that s(1,4) by simp
qed

section \<open>Properties\<close>

text \<open>C15: with any base64 engine that keeps its documented laws, \<open>decode\<close> turns the payload
  \<open>encode_payload\<close> makes of a report within the limits back into that report; in particular such a
  payload always fits the protocol's size limit.\<close>

theorem decode_encode_roundtrip:
  assumes "base64_engine enc dec" and "report_ok rep"
  shows "decode dec (encode_payload enc rep) = Ok (MsgReport rep) \<and> length (encode_payload enc rep) \<le> MAX_PAYLOAD_BYTES"
  using base64_engine.decode_encode [OF assms] base64_engine.payload_fits [OF assms] by simp

definition demo_report :: report where
  "demo_report = ReportSet (Some (RecordId (ascii ''build/unit'')))
     \<lparr>rec_state = Blocked, rec_kind = Some Question, rec_progress = Some 42, rec_app = Some (ascii ''cargo''),
      rec_title = Some (ascii ''ok?''), rec_msg = None\<rparr>"

lemma demo_report_ok: "report_ok demo_report"
  by (simp add: demo_report_def valid_id_iff segment_ok_def is_id_byte_def char_class_defs limit_defs text_ok_def
      scalar_def utf8_len_def utf8_char_def)

theorem decode_encode_roundtrip_witness:
  "decode b64_decode (encode_payload b64_encode demo_report) = Ok (MsgReport demo_report)"
  using decode_encode_roundtrip [OF std_base64.base64_engine_axioms demo_report_ok] by simp

text \<open>a report that \<open>decode\<close> accepts keeps every limit and every coherence rule of the protocol,
  whatever bytes arrive and whatever the base64 engine answers: a valid id, an app of at most 32
  id bytes, text without control characters within its decoded size, progress at most 100 and only
  on working or blocked records, a kind only on blocked ones.\<close>

theorem decoded_reports_within_limits:
  assumes "decode dec payload = Ok (MsgReport rep)"
  shows "report_ok rep"
proof -
  obtain f where f: "take_all dec no_fields (split_on (\<lambda>b. b = 58) payload) = Ok f" "into_report f = Ok rep"
    using assms by (auto simp: decode_def split: if_splits result.splits)
  have "fields_ok no_fields" by (simp add: fields_ok_def no_fields_def text_ok_def)
  from into_report_ok [OF take_all_ok [OF this f(1)] f(2)] show ?thesis .
qed

theorem decoded_reports_within_limits_witness:
  "report_ok demo_report"
  using decoded_reports_within_limits [of b64_decode "encode_payload b64_encode demo_report" demo_report]
    std_base64.decode_encode [OF demo_report_ok] by simp

end
