(* ===== verification/Status_Table.thy ===== *)
theory Status_Table
  imports Status_Model "HOL-Library.Product_Lexorder"
begin

text \<open>
  The status table of one terminal, \<^verbatim>\<open>shux-program-status/src/table.rs\<close> with the order of
  \<^verbatim>\<open>rank.rs\<close>: reports set, replace, evict and clear records; readers take a ranked list and a
  summary.  The table is run as a machine whose inputs are reports, prompts, exits and resets.

  The counters are 64-bit words.  The invariant speaks of the order of the report counter, so the
  machine's guard leaves out the one report that would wrap it.
\<close>

section \<open>Model\<close>

definition order_key :: "state \<Rightarrow> bool \<Rightarrow> u64 \<Rightarrow> int \<times> bool \<times> int" where
  "order_key st is_root updated = (- int (urgency st), \<not> is_root, - int (unat updated))"

text \<open>\<open>Iterator::min_by_key\<close>: the first of the elements with the least key.\<close>

fun min_by_key :: "('a \<Rightarrow> 'k :: linorder) \<Rightarrow> 'a list \<Rightarrow> 'a option" where
  "min_by_key f [] = None"
| "min_by_key f (x # xs) =
     (case min_by_key f xs of
        None \<Rightarrow> Some x
      | Some y \<Rightarrow> if f x \<le> f y then Some x else Some y)"

text \<open>\<open>Vec::swap_remove\<close>\<close>

definition swap_remove :: "nat \<Rightarrow> 'a list \<Rightarrow> 'a list" where
  "swap_remove i xs = butlast (xs[i := last xs])"

record entry =
  e_id :: "record_id option"
  e_record :: status_record
  e_reported :: u64
  e_updated :: u64
  e_stamp :: u64
  e_stamp_in :: "u64 list"

record status_table =
  t_entries :: "entry list"
  t_seq :: u64
  t_revision :: u64

definition table_new :: status_table where
  "table_new = \<lparr>t_entries = [], t_seq = 0, t_revision = 0\<rparr>"

definition table_len :: "status_table \<Rightarrow> nat" where
  "table_len t = length (t_entries t)"

definition table_is_empty :: "status_table \<Rightarrow> bool" where
  "table_is_empty t \<longleftrightarrow> t_entries t = []"

text \<open>The record of an entry that a report names again.\<close>

definition restamp :: "status_record \<Rightarrow> u64 \<Rightarrow> u64 \<Rightarrow> entry \<Rightarrow> entry" where
  "restamp r stamp seq e =
     (let e = e\<lparr>e_reported := seq, e_stamp := stamp,
               e_stamp_in := (e_stamp_in e)[state_index (rec_state r) := stamp]\<rparr>
      in if e_record e \<noteq> r then e\<lparr>e_record := r, e_updated := seq\<rparr> else e)"

definition table_set :: "status_table \<Rightarrow> record_id option \<Rightarrow> status_record \<Rightarrow> u64 \<Rightarrow> status_table" where
  "table_set t i r stamp =
     (let seq = t_seq t + 1; es = t_entries t
      in case position (\<lambda>e. e_id e = i) es of
           Some k \<Rightarrow>
             t\<lparr>t_seq := seq, t_entries := es[k := restamp r stamp seq (es ! k)],
               t_revision := (if e_record (es ! k) \<noteq> r then t_revision t + 1 else t_revision t)\<rparr>
         | None \<Rightarrow>
             let es' = (if MAX_RECORDS \<le> length es then
                          (case min_by_key (\<lambda>(_, e). e_reported e) (List.enumerate 0 es) of
                             Some (oldest, _) \<Rightarrow> swap_remove oldest es
                           | None \<Rightarrow> es)
                        else es);
                 new = \<lparr>e_id = i, e_record = r, e_reported = seq, e_updated = seq, e_stamp = stamp,
                        e_stamp_in = (replicate (length state_all) 0)[state_index (rec_state r) := stamp]\<rparr>
             in t\<lparr>t_seq := seq, t_entries := es' @ [new], t_revision := t_revision t + 1\<rparr>)"

definition table_retain :: "status_table \<Rightarrow> (entry \<Rightarrow> bool) \<Rightarrow> status_table" where
  "table_retain t keep =
     (let es = filter keep (t_entries t)
      in t\<lparr>t_entries := es,
           t_revision := (if length es \<noteq> length (t_entries t) then t_revision t + 1 else t_revision t)\<rparr>)"

fun table_apply :: "status_table \<Rightarrow> report \<Rightarrow> u64 \<Rightarrow> status_table" where
  "table_apply t (ReportSet i r) stamp = table_set t i r stamp"
| "table_apply t (ReportClear None) stamp = table_retain t (\<lambda>_. False)"
| "table_apply t (ReportClear (Some i)) stamp =
     table_retain t (\<lambda>e. \<not> (case e_id e of None \<Rightarrow> False | Some eid \<Rightarrow> is_within eid i))"

definition on_prompt_start :: "status_table \<Rightarrow> status_table" where
  "on_prompt_start t = table_retain t (\<lambda>e. survives_exit (rec_state (e_record e)))"

definition on_process_exit :: "status_table \<Rightarrow> status_table" where
  "on_process_exit t = table_retain t (\<lambda>e. survives_exit (rec_state (e_record e)))"

definition on_full_reset :: "status_table \<Rightarrow> status_table" where
  "on_full_reset t = table_retain t (\<lambda>_. False)"

definition app_at :: "status_table \<Rightarrow> record_id option \<Rightarrow> rstring option" where
  "app_at t i = (case List.find (\<lambda>e. e_id e = i) (t_entries t) of None \<Rightarrow> None | Some e \<Rightarrow> rec_app (e_record e))"

function ancestor_app :: "status_table \<Rightarrow> record_id option \<Rightarrow> rstring option" where
  "ancestor_app t ancestor =
     (case app_at t ancestor of
        Some app \<Rightarrow> Some app
      | None \<Rightarrow> (case ancestor of None \<Rightarrow> None | Some i \<Rightarrow> ancestor_app t (parent i)))"
  by pat_completeness auto
termination
  by (relation "measure (\<lambda>(t, a). case a of None \<Rightarrow> 0 | Some i \<Rightarrow> Suc (length (id_str i)))")
     (auto split: option.splits dest: parent_shorter)

declare ancestor_app.simps [simp del]

definition effective_app :: "status_table \<Rightarrow> entry \<Rightarrow> rstring option" where
  "effective_app t e =
     (case rec_app (e_record e) of
        Some app \<Rightarrow> Some app
      | None \<Rightarrow> (case e_id e of None \<Rightarrow> None | Some i \<Rightarrow> ancestor_app t (parent i)))"

definition table_view :: "status_table \<Rightarrow> entry \<Rightarrow> record_view" where
  "table_view t e =
     \<lparr>view_id = e_id e, view_state = rec_state (e_record e), view_kind = rec_kind (e_record e),
      view_progress = rec_progress (e_record e), view_app = effective_app t e,
      view_title = rec_title (e_record e), view_msg = rec_msg (e_record e),
      view_reported_generation = e_stamp e, view_reported_in = e_stamp_in e\<rparr>"

definition entry_key :: "entry \<Rightarrow> int \<times> bool \<times> int" where
  "entry_key e = order_key (rec_state (e_record e)) (e_id e = None) (e_updated e)"

definition records :: "status_table \<Rightarrow> record_view list" where
  "records t = map (table_view t) (sort_key entry_key (t_entries t))"

definition summary :: "status_table \<Rightarrow> status_summary option" where
  "summary t =
     (case min_by_key entry_key (t_entries t) of
        None \<Rightarrow> None
      | Some lead \<Rightarrow>
          Some \<lparr>sum_state = rec_state (e_record lead), sum_kind = rec_kind (e_record lead),
                sum_progress = rec_progress (e_record lead), sum_app = effective_app t lead,
                sum_id = e_id lead,
                sum_counts = foldl (\<lambda>c e. counts_add c (rec_state (e_record e))) no_counts (t_entries t)\<rparr>)"

section \<open>Least elements and removal\<close>

lemma min_by_key_None [simp]: "min_by_key f xs = None \<longleftrightarrow> xs = []"
  by (cases xs) (auto split: option.splits)

lemma min_by_key_least: "min_by_key f xs = Some x \<Longrightarrow> x \<in> set xs \<and> (\<forall>y \<in> set xs. f x \<le> f y)"
proof (induction xs arbitrary: x)
  case (Cons a xs)
  then show ?case by (fastforce split: option.splits if_splits)
qed simp

lemma min_by_key_sort: "min_by_key f xs = (case sort_key f xs of [] \<Rightarrow> None | y # _ \<Rightarrow> Some y)"
proof (induction xs)
  case (Cons x xs)
  then show ?case by (cases "sort_key f xs") (auto split: option.splits)
qed simp

lemma swap_remove_set:
  assumes "i < length xs" "distinct xs"
  shows "set (swap_remove i xs) = set xs - {xs ! i}" and "distinct (swap_remove i xs)"
    and "length (swap_remove i xs) = length xs - 1"
proof -
  obtain ys z where xs: "xs = ys @ [z]" using assms(1) by (cases xs rule: rev_cases) auto
  show "length (swap_remove i xs) = length xs - 1" by (simp add: swap_remove_def)
  show "set (swap_remove i xs) = set xs - {xs ! i}"
  proof (cases "i < length ys")
    case True
    then have sr: "swap_remove i (ys @ [z]) = ys[i := z]" by (simp add: swap_remove_def list_update_append1)
    from True assms(2) show ?thesis by (auto simp: sr xs nth_append set_update_distinct)
  next
    case False
    with assms(1) have "i = length ys" by (simp add: xs)
    then show ?thesis using assms(2) by (auto simp: swap_remove_def xs)
  qed
  show "distinct (swap_remove i xs)"
  proof (cases "i < length ys")
    case True
    then have sr: "swap_remove i (ys @ [z]) = ys[i := z]" by (simp add: swap_remove_def list_update_append1)
    from True assms(2) show ?thesis by (auto simp: sr xs intro!: distinct_list_update)
  next
    case False
    with assms(1) have "i = length ys" by (simp add: xs)
    then show ?thesis using assms(2) by (auto simp: swap_remove_def xs)
  qed
qed

lemma map_swap_remove: "i < length xs \<Longrightarrow> map f (swap_remove i xs) = swap_remove i (map f xs)"
  by (cases "xs = []") (auto simp: swap_remove_def map_butlast map_update last_map)

section \<open>The table as a map from ids to entries\<close>

definition entry_at :: "status_table \<Rightarrow> record_id option \<Rightarrow> entry option" where
  "entry_at t i = List.find (\<lambda>e. e_id e = i) (t_entries t)"

definition table_inv :: "status_table \<Rightarrow> bool" where
  "table_inv t \<longleftrightarrow>
     distinct (map e_id (t_entries t)) \<and> length (t_entries t) \<le> MAX_RECORDS \<and>
     (\<forall>e \<in> set (t_entries t). e_updated e \<le> e_reported e \<and> e_reported e \<le> t_seq t \<and> length (e_stamp_in e) = 5)"

lemma entry_at_iff:
  assumes "distinct (map e_id (t_entries t))"
  shows "entry_at t i = Some e \<longleftrightarrow> e \<in> set (t_entries t) \<and> e_id e = i"
proof
  show "entry_at t i = Some e \<Longrightarrow> e \<in> set (t_entries t) \<and> e_id e = i"
    by (auto simp: entry_at_def dest: find_Some_iff_mem)
  assume e: "e \<in> set (t_entries t) \<and> e_id e = i"
  then obtain f where f: "entry_at t i = Some f"
    by (cases "entry_at t i") (auto simp: entry_at_def find_None_all)
  then have "f \<in> set (t_entries t)" "e_id f = i" by (auto simp: entry_at_def dest: find_Some_iff_mem)
  with e assms have "f = e" by (metis distinct_map inj_on_eq_iff)
  with f show "entry_at t i = Some e" by simp
qed

lemma entry_at_None: "entry_at t i = None \<longleftrightarrow> (\<forall>e \<in> set (t_entries t). e_id e \<noteq> i)"
  by (auto simp: entry_at_def find_None_all)

lemma position_entry: "position (\<lambda>e. e_id e = i) es = Some k \<Longrightarrow> k < length es \<and> e_id (es ! k) = i"
  using position_Some by fastforce

lemma restamp_facts [simp]:
  "e_id (restamp r stamp seq e) = e_id e" "e_record (restamp r stamp seq e) = r"
  "e_reported (restamp r stamp seq e) = seq" "e_stamp (restamp r stamp seq e) = stamp"
  "e_stamp_in (restamp r stamp seq e) = (e_stamp_in e)[state_index (rec_state r) := stamp]"
  by (auto simp: restamp_def Let_def)

lemma restamp_updated: "e_updated (restamp r stamp seq e) = (if e_record e \<noteq> r then seq else e_updated e)"
  by (simp add: restamp_def Let_def)

text \<open>A report on a known record touches that entry only.\<close>

lemma table_set_known:
  assumes "position (\<lambda>e. e_id e = i) (t_entries t) = Some k"
  shows "t_entries (table_set t i r stamp) = (t_entries t)[k := restamp r stamp (t_seq t + 1) (t_entries t ! k)]"
    and "map e_id (t_entries (table_set t i r stamp)) = map e_id (t_entries t)"
proof -
  show es: "t_entries (table_set t i r stamp) = (t_entries t)[k := restamp r stamp (t_seq t + 1) (t_entries t ! k)]"
    by (simp add: table_set_def Let_def assms)
  show "map e_id (t_entries (table_set t i r stamp)) = map e_id (t_entries t)"
    using position_entry [OF assms] unfolding es by (simp add: map_update list_update_same_conv)
qed

text \<open>The entries a new record finds: all of them, or all but the least recently reported one.\<close>

definition make_room :: "entry list \<Rightarrow> entry list" where
  "make_room es =
     (if MAX_RECORDS \<le> length es then
        (case min_by_key (\<lambda>(_, e). e_reported e) (List.enumerate 0 es) of
           Some (oldest, _) \<Rightarrow> swap_remove oldest es
         | None \<Rightarrow> es)
      else es)"

lemma make_room_facts:
  assumes "distinct (map e_id es)" "length es \<le> MAX_RECORDS"
  shows "distinct (map e_id (make_room es))" and "length (make_room es) < MAX_RECORDS"
    and "set (make_room es) \<subseteq> set es"
    and "e \<in> set es \<Longrightarrow> e \<notin> set (make_room es) \<Longrightarrow>
           length es = MAX_RECORDS \<and> (\<forall>f \<in> set es. e_reported e \<le> e_reported f)"
proof -
  have "distinct (map e_id (make_room es)) \<and> length (make_room es) < MAX_RECORDS \<and> set (make_room es) \<subseteq> set es \<and>
     (\<forall>e \<in> set es - set (make_room es). length es = MAX_RECORDS \<and> (\<forall>f \<in> set es. e_reported e \<le> e_reported f))"
  proof (cases "MAX_RECORDS \<le> length es")
    case False
    then show ?thesis using assms by (simp add: make_room_def)
  next
    case True
    with assms(2) have len: "length es = MAX_RECORDS" by simp
    then have "es \<noteq> []" by (auto simp: MAX_RECORDS_def)
    then obtain k e where m: "min_by_key (\<lambda>(_, e). e_reported e) (List.enumerate 0 es) = Some (k, e)"
      by (cases "min_by_key (\<lambda>(_, e). e_reported e) (List.enumerate 0 es)") (auto simp: enumerate_eq_zip)
    from min_by_key_least [OF m] have ke: "k < length es" "e = es ! k"
      and least: "\<forall>(j, f) \<in> set (List.enumerate 0 es). e_reported e \<le> e_reported f"
      by (auto simp: in_set_enumerate_eq)
    have least': "\<forall>f \<in> set es. e_reported e \<le> e_reported f"
    proof
      fix f assume "f \<in> set es"
      then obtain j where "j < length es" "es ! j = f" by (auto simp: in_set_conv_nth)
      then have "(j, f) \<in> set (List.enumerate 0 es)" by (auto simp: in_set_enumerate_eq)
      with least show "e_reported e \<le> e_reported f" by blast
    qed
    have mr: "make_room es = swap_remove k es" using True m by (simp add: make_room_def)
    have "distinct es" using assms(1) by (simp add: distinct_map)
    note sr = swap_remove_set [OF ke(1) this]
    have "distinct (map e_id (make_room es))"
      using swap_remove_set(2) [of k "map e_id es"] ke(1) assms(1) by (simp add: mr map_swap_remove)
    then show ?thesis using sr len least' ke by (auto simp: mr MAX_RECORDS_def)
  qed
  then show "distinct (map e_id (make_room es))" "length (make_room es) < MAX_RECORDS" "set (make_room es) \<subseteq> set es"
    "e \<in> set es \<Longrightarrow> e \<notin> set (make_room es) \<Longrightarrow>
       length es = MAX_RECORDS \<and> (\<forall>f \<in> set es. e_reported e \<le> e_reported f)" by blast+
qed

lemma table_set_new:
  assumes "position (\<lambda>e. e_id e = i) (t_entries t) = None"
  obtains new where "t_entries (table_set t i r stamp) = make_room (t_entries t) @ [new]"
    and "e_id new = i" "e_record new = r" "e_reported new = t_seq t + 1" "e_updated new = t_seq t + 1"
    and "e_stamp new = stamp" "length (e_stamp_in new) = 5" "e_stamp_in new ! state_index (rec_state r) = stamp"
proof
  let ?new = "\<lparr>e_id = i, e_record = r, e_reported = t_seq t + 1, e_updated = t_seq t + 1, e_stamp = stamp,
                e_stamp_in = (replicate (length state_all) 0)[state_index (rec_state r) := stamp]\<rparr>"
  show "t_entries (table_set t i r stamp) = make_room (t_entries t) @ [?new]"
    by (simp add: table_set_def Let_def assms make_room_def)
  show "length (e_stamp_in ?new) = 5" "e_stamp_in ?new ! state_index (rec_state r) = stamp"
    by (cases "rec_state r"; simp add: state_all_def)+
qed simp_all

lemma table_set_seq [simp]: "t_seq (table_set t i r stamp) = t_seq t + 1"
  by (simp add: table_set_def Let_def split: option.splits)

lemma table_retain_facts [simp]:
  "t_entries (table_retain t keep) = filter keep (t_entries t)" "t_seq (table_retain t keep) = t_seq t"
  by (simp_all add: table_retain_def Let_def)

lemma seq_step: "unat (s :: u64) < 2 ^ 64 - 1 \<Longrightarrow> s \<le> s + 1 \<and> unat (s + 1) = unat s + 1"
  by (simp add: unat_word_ariths word_le_nat_alt)

section \<open>The table as a machine\<close>

datatype table_input = ApplyReport report u64 | PromptStart | ProcessExit | FullReset

fun table_step :: "status_table \<Rightarrow> table_input \<Rightarrow> status_table" where
  "table_step t (ApplyReport rep stamp) = table_apply t rep stamp"
| "table_step t PromptStart = on_prompt_start t"
| "table_step t ProcessExit = on_process_exit t"
| "table_step t FullReset = on_full_reset t"

fun counter_free :: "status_table \<Rightarrow> table_input \<Rightarrow> bool" where
  "counter_free t (ApplyReport (ReportSet _ _) _) = (unat (t_seq t) < 2 ^ 64 - 1)"
| "counter_free t _ = True"

lemma table_inv_retain: "table_inv t \<Longrightarrow> table_inv (table_retain t keep)"
  using le_trans [OF length_filter_le, of "t_entries t" MAX_RECORDS keep]
  by (auto simp: table_inv_def distinct_map_filter)

lemma table_inv_set:
  assumes inv: "table_inv t" and seq: "unat (t_seq t) < 2 ^ 64 - 1"
  shows "table_inv (table_set t i r stamp)"
proof -
  have up: "e_reported e \<le> t_seq t + 1" if "e \<in> set (t_entries t)" for e
    using inv seq_step [OF seq] that by (auto simp: table_inv_def intro: order_trans)
  have d: "distinct (map e_id (t_entries t))" "length (t_entries t) \<le> MAX_RECORDS"
    using inv by (auto simp: table_inv_def)
  show ?thesis
  proof (cases "position (\<lambda>e. e_id e = i) (t_entries t)")
    case (Some k)
    let ?e = "t_entries t ! k"
    have k: "?e \<in> set (t_entries t)" using position_entry [OF Some] by simp
    have "e_updated (restamp r stamp (t_seq t + 1) ?e) \<le> t_seq t + 1"
      using up [OF k] inv k by (auto simp: restamp_updated table_inv_def intro: order_trans)
    moreover have "length (e_stamp_in ?e) = 5" using inv k by (simp add: table_inv_def)
    ultimately show ?thesis
      using d table_set_known [OF Some, of r stamp] inv up
      by (auto simp: table_inv_def dest!: set_update_subset_insert [THEN subsetD])
  next
    case None
    from table_set_new [OF None, of r stamp] obtain new where
      new: "t_entries (table_set t i r stamp) = make_room (t_entries t) @ [new]" "e_id new = i"
        "e_reported new = t_seq t + 1" "e_updated new = t_seq t + 1" "length (e_stamp_in new) = 5" by metis
    note mr = make_room_facts [OF d]
    have "i \<notin> e_id ` set (make_room (t_entries t))" using None mr(3) by (auto simp: position_None)
    then show ?thesis using mr(1-3) inv up new by (fastforce simp: table_inv_def)
  qed
qed

interpretation status_machine: guarded_machine table_step counter_free table_inv
proof
  fix t x assume "table_inv t" "counter_free t x"
  then show "table_inv (table_step t x)"
    by (cases "(t, x)" rule: table_step.cases; cases "(t, case x of ApplyReport rep _ \<Rightarrow> rep | _ \<Rightarrow> ReportClear None, 0 :: u64)" rule: table_apply.cases)
       (auto simp: table_inv_set table_inv_retain on_prompt_start_def on_process_exit_def on_full_reset_def)
qed

section \<open>Properties\<close>

text \<open>C16: whatever reports, prompts, exits and resets a terminal sees, its table never holds more than
  256 records nor two records with one id, and no stamp runs ahead of the report counter.\<close>

theorem status_table_bounded:
  assumes "reachable table_step counter_free table_new t"
  shows "table_len t \<le> MAX_RECORDS \<and> distinct (map e_id (t_entries t)) \<and>
    (\<forall>e \<in> set (t_entries t). e_updated e \<le> e_reported e \<and> e_reported e \<le> t_seq t)"
proof -
  have "table_inv table_new" by (simp add: table_inv_def table_new_def)
  then have "table_inv t" by (rule status_machine.reachable_inv [OF assms])
  then show ?thesis by (simp add: table_inv_def table_len_def)
qed

definition demo_record :: status_record where
  "demo_record = \<lparr>rec_state = Blocked, rec_kind = Some Auth, rec_progress = None, rec_app = None,
                  rec_title = None, rec_msg = None\<rparr>"

definition demo_table :: status_table where
  "demo_table = table_step table_new (ApplyReport (ReportSet None demo_record) 7)"

lemma demo_table_facts: "reachable table_step counter_free table_new demo_table" "table_inv demo_table"
proof -
  show "reachable table_step counter_free table_new demo_table"
    unfolding demo_table_def by (rule reachable.next_step [OF reachable.start]) (simp add: table_new_def)
  then show "table_inv demo_table"
    by (rule status_machine.reachable_inv) (simp add: table_inv_def table_new_def)
qed

theorem status_table_bounded_witness: "table_len demo_table \<le> MAX_RECORDS \<and> table_len demo_table = 1"
  using status_table_bounded [OF demo_table_facts(1)]
  by (simp add: demo_table_def table_set_def table_len_def table_new_def Let_def MAX_RECORDS_def)

lemma option_eqI: "(\<And>e. a = Some e \<longleftrightarrow> b = Some e) \<Longrightarrow> a = b"
  by (cases a; cases b) auto

lemma set_known_entries:
  assumes "table_inv t" "position (\<lambda>e. e_id e = i) (t_entries t) = Some k"
  shows "set (t_entries (table_set t i r stamp)) =
           insert (restamp r stamp (t_seq t + 1) (t_entries t ! k)) (set (t_entries t) - {t_entries t ! k})"
  using assms table_set_known(1) [OF assms(2), of r stamp] position_entry [OF assms(2)]
  by (simp add: set_update_distinct table_inv_def distinct_map)

lemma set_stores:
  assumes inv: "table_inv t" and seq: "unat (t_seq t) < 2 ^ 64 - 1"
  shows "\<exists>e. entry_at (table_set t i r stamp) i = Some e \<and> e_record e = r \<and> e_stamp e = stamp \<and>
           e_stamp_in e ! state_index (rec_state r) = stamp"
proof -
  note at = entry_at_iff [OF table_inv_set [OF inv seq, unfolded table_inv_def, THEN conjunct1]]
  show ?thesis
  proof (cases "position (\<lambda>e. e_id e = i) (t_entries t)")
    case (Some k)
    have k: "t_entries t ! k \<in> set (t_entries t)" "e_id (t_entries t ! k) = i"
      using position_entry [OF Some] by auto
    then have "length (e_stamp_in (t_entries t ! k)) = 5" using inv by (simp add: table_inv_def)
    then show ?thesis unfolding at set_known_entries [OF inv Some]
      using k(2) state_index_lt [of "rec_state r"]
      by (intro exI [of _ "restamp r stamp (t_seq t + 1) (t_entries t ! k)"]) simp
  next
    case None
    from table_set_new [OF None, of r stamp] obtain new where
      "t_entries (table_set t i r stamp) = make_room (t_entries t) @ [new]" "e_id new = i" "e_record new = r"
      "e_stamp new = stamp" "e_stamp_in new ! state_index (rec_state r) = stamp" by metis
    then show ?thesis unfolding at by auto
  qed
qed

lemma set_keeps_others:
  assumes inv: "table_inv t" and seq: "unat (t_seq t) < 2 ^ 64 - 1" and j: "j \<noteq> i"
  shows "entry_at (table_set t i r stamp) j = entry_at t j \<or>
           entry_at (table_set t i r stamp) j = None \<and> entry_at t i = None \<and> table_len t = MAX_RECORDS \<and>
           (\<exists>e. entry_at t j = Some e \<and> (\<forall>f \<in> set (t_entries t). e_reported e \<le> e_reported f))"
proof -
  have d: "distinct (map e_id (t_entries t))" "length (t_entries t) \<le> MAX_RECORDS"
    using inv by (auto simp: table_inv_def)
  note at = entry_at_iff [OF table_inv_set [OF inv seq, unfolded table_inv_def, THEN conjunct1]] entry_at_iff [OF d(1)]
  show ?thesis
  proof (cases "position (\<lambda>e. e_id e = i) (t_entries t)")
    case (Some k)
    then have "entry_at (table_set t i r stamp) j = entry_at t j"
      using position_entry [OF Some] j by (intro option_eqI) (auto simp: at set_known_entries [OF inv Some])
    then show ?thesis ..
  next
    case None
    from table_set_new [OF None, of r stamp] obtain new where
      new: "t_entries (table_set t i r stamp) = make_room (t_entries t) @ [new]" "e_id new = i" by metis
    note mr = make_room_facts [OF d]
    have i: "entry_at t i = None" using None by (simp add: entry_at_None position_None)
    show ?thesis
    proof (cases "entry_at t j")
      case None
      then have "entry_at (table_set t i r stamp) j = None" using mr(3) new j by (auto simp: entry_at_None)
      then show ?thesis using None by simp
    next
      case (Some e)
      then have e: "e \<in> set (t_entries t)" "e_id e = j" by (auto simp: at)
      show ?thesis
      proof (cases "e \<in> set (make_room (t_entries t))")
        case True
        then have "entry_at (table_set t i r stamp) j = Some e" using e new by (simp add: at)
        then show ?thesis using Some by simp
      next
        case False
        have "entry_at (table_set t i r stamp) j = None"
          unfolding entry_at_None new(1)
        proof
          fix f assume f: "f \<in> set (make_room (t_entries t) @ [new])"
          show "e_id f \<noteq> j"
          proof
            assume fj: "e_id f = j"
            with f new(2) j have "f \<in> set (make_room (t_entries t))" by auto
            then have "f \<in> set (t_entries t)" using mr(3) by blast
            with e fj d(1) have "f = e" by (metis distinct_map inj_on_eq_iff)
            with False \<open>f \<in> set (make_room _)\<close> show False by simp
          qed
        qed
        then show ?thesis using Some i mr(4) [OF e(1) False] by (auto simp: table_len_def)
      qed
    qed
  qed
qed

text \<open>a \<open>Set\<close> report is stored: its record is then the one at its id, stamped with the report's
  stamp, overall and in its state.  Any other record is untouched, except that a new id on a full
  table evicts one record, the one least recently reported.\<close>

theorem set_report_stored:
  assumes "table_inv t" and "unat (t_seq t) < 2 ^ 64 - 1"
  shows "(\<exists>e. entry_at (table_apply t (ReportSet i r) stamp) i = Some e \<and> e_record e = r \<and> e_stamp e = stamp \<and>
           e_stamp_in e ! state_index (rec_state r) = stamp) \<and>
    (\<forall>j. j \<noteq> i \<longrightarrow>
       entry_at (table_apply t (ReportSet i r) stamp) j = entry_at t j \<or>
       entry_at (table_apply t (ReportSet i r) stamp) j = None \<and> entry_at t i = None \<and>
       table_len t = MAX_RECORDS \<and>
       (\<exists>e. entry_at t j = Some e \<and> (\<forall>f \<in> set (t_entries t). e_reported e \<le> e_reported f)))"
  using set_stores [OF assms] set_keeps_others [OF assms] by simp

theorem set_report_stored_witness:
  "\<exists>e. entry_at (table_apply demo_table (ReportSet (Some (RecordId (ascii ''build''))) demo_record) 8)
     (Some (RecordId (ascii ''build''))) = Some e \<and> e_stamp e = 8"
proof -
  have "unat (t_seq demo_table) < 2 ^ 64 - 1" by (simp add: demo_table_def table_new_def)
  then show ?thesis
    using set_report_stored [OF demo_table_facts(2), of "Some (RecordId (ascii ''build''))" demo_record 8] by blast
qed

text \<open>What readers can see of a table: its records by position.\<close>

definition content :: "status_table \<Rightarrow> (record_id option \<times> status_record) list" where
  "content t = map (\<lambda>e. (e_id e, e_record e)) (t_entries t)"

lemma revision_set:
  assumes "table_inv t"
  shows "t_revision (table_set t i r stamp) = t_revision t + (if content (table_set t i r stamp) = content t then 0 else 1)"
proof (cases "position (\<lambda>e. e_id e = i) (t_entries t)")
  case (Some k)
  have k: "k < length (t_entries t)" using position_entry [OF Some] by simp
  have "content (table_set t i r stamp) = (content t)[k := (e_id (t_entries t ! k), r)]"
    by (simp add: content_def table_set_known(1) [OF Some] map_update)
  then have "content (table_set t i r stamp) = content t \<longleftrightarrow> e_record (t_entries t ! k) = r"
    using k by (auto simp: list_update_same_conv content_def)
  then show ?thesis using Some by (simp add: table_set_def Let_def)
next
  case None
  from table_set_new [OF None, of r stamp] obtain new where
    "t_entries (table_set t i r stamp) = make_room (t_entries t) @ [new]" "e_id new = i" by metis
  then have "i \<in> fst ` set (content (table_set t i r stamp))" by (auto simp: content_def)
  moreover have "i \<notin> fst ` set (content t)" using None by (auto simp: content_def position_None)
  ultimately have "content (table_set t i r stamp) \<noteq> content t" by auto
  then show ?thesis using None by (simp add: table_set_def Let_def)
qed

lemma revision_retain:
  "t_revision (table_retain t keep) = t_revision t + (if content (table_retain t keep) = content t then 0 else 1)"
proof -
  have "length (filter keep (t_entries t)) = length (t_entries t) \<Longrightarrow> filter keep (t_entries t) = t_entries t"
    by (metis filter_id_conv length_filter_less nat_neq_iff)
  then have "content (table_retain t keep) = content t \<longleftrightarrow> length (filter keep (t_entries t)) = length (t_entries t)"
    by (auto simp: content_def) (metis length_map)
  then show ?thesis by (simp add: table_retain_def Let_def)
qed

text \<open>the revision moves, by one, exactly when the stored records change.  A report that repeats
  what is stored, a clear that hits nothing and an exit that drops nothing leave it alone.\<close>

theorem revision_tracks_content:
  assumes "table_inv t"
  shows "t_revision (table_step t x) = t_revision t + (if content (table_step t x) = content t then 0 else 1)"
proof (cases x)
  case (ApplyReport rep stamp)
  then show ?thesis
    by (cases "(t, rep, stamp)" rule: table_apply.cases) (simp_all add: revision_set [OF assms] revision_retain)
qed (simp_all add: on_prompt_start_def on_process_exit_def on_full_reset_def revision_retain)

theorem revision_tracks_content_witness:
  "t_revision (table_step demo_table PromptStart) = 2 \<and> content (table_step demo_table PromptStart) = []"
proof -
  have c: "content (table_step demo_table PromptStart) = []" "content demo_table \<noteq> []" "t_revision demo_table = 1"
    by (simp_all add: content_def demo_table_def table_set_def table_new_def on_prompt_start_def demo_record_def Let_def MAX_RECORDS_def)
  then show ?thesis using revision_tracks_content [OF demo_table_facts(2), of PromptStart] by simp
qed

text \<open>what the lifetimes drop.  \<open>clear\<close> with an id removes exactly the records at or beneath it,
  \<open>clear\<close> without one and a full reset remove everything, and a prompt or a process exit removes
  exactly the records that are neither \<open>done\<close> nor \<open>error\<close>; the survivors keep their order.\<close>

theorem lifetimes_drop_exactly:
  "t_entries (table_step t (ApplyReport (ReportClear (Some i)) stamp)) =
     filter (\<lambda>e. \<forall>k. e_id e = Some k \<longrightarrow> \<not> is_within k i) (t_entries t) \<and>
   t_entries (table_step t (ApplyReport (ReportClear None) stamp)) = [] \<and>
   t_entries (table_step t FullReset) = [] \<and>
   t_entries (table_step t PromptStart) = filter (\<lambda>e. rec_state (e_record e) \<in> {Done, Error}) (t_entries t) \<and>
   t_entries (table_step t ProcessExit) = filter (\<lambda>e. rec_state (e_record e) \<in> {Done, Error}) (t_entries t)"
proof -
  have s: "survives_exit st \<longleftrightarrow> st \<in> {Done, Error}" for st by (cases st) auto
  have c: "(\<lambda>e. \<not> (case e_id e of None \<Rightarrow> False | Some eid \<Rightarrow> is_within eid i)) =
      (\<lambda>e. \<forall>k. e_id e = Some k \<longrightarrow> \<not> is_within k i)"
    by (auto simp: fun_eq_iff split: option.splits)
  show ?thesis
    by (simp add: on_prompt_start_def on_process_exit_def on_full_reset_def s c)
qed

theorem lifetimes_drop_exactly_witness:
  "t_entries (table_step demo_table ProcessExit) = [] \<and> t_entries demo_table \<noteq> []"
  using lifetimes_drop_exactly [of demo_table "RecordId []" 0]
  by (simp add: demo_table_def table_set_def table_new_def demo_record_def Let_def MAX_RECORDS_def)

lemma counts_foldl:
  "length es + count_of c st \<le> u16_max \<Longrightarrow>
     count_of (foldl (\<lambda>c e. counts_add c (rec_state (e_record e))) c es) st =
       count_of c st + length (filter (\<lambda>e. rec_state (e_record e) = st) es)"
proof (induction es arbitrary: c)
  case (Cons e es)
  have "count_of (counts_add c (rec_state (e_record e))) st =
      (if st = rec_state (e_record e) then count_of c st + 1 else count_of c st)"
    using Cons.prems by (auto simp: count_of_add sat_add16_def)
  with Cons show ?case by auto
qed simp

text \<open>the summary leads with the record the ranked list puts first, which no record beats in
  urgency, and counts the records of each state exactly.  There is one whenever there is a record.\<close>

theorem summary_leads_with_most_urgent:
  assumes "table_inv t"
  shows "(summary t = None \<longleftrightarrow> table_is_empty t) \<and>
    (\<forall>s. summary t = Some s \<longrightarrow>
       (let lead = hd (records t) in
          sum_id s = view_id lead \<and> sum_state s = view_state lead \<and> sum_app s = view_app lead) \<and>
       (\<forall>e \<in> set (t_entries t). urgency (rec_state (e_record e)) \<le> urgency (sum_state s)) \<and>
       (\<forall>st. count_of (sum_counts s) st = length (filter (\<lambda>e. rec_state (e_record e) = st) (t_entries t))))"
proof (intro conjI allI impI)
  show "summary t = None \<longleftrightarrow> table_is_empty t"
    by (auto simp: summary_def table_is_empty_def split: option.splits)
  fix s assume s: "summary t = Some s"
  then obtain lead where m: "min_by_key entry_key (t_entries t) = Some lead" and
    ids: "sum_id s = e_id lead" "sum_state s = rec_state (e_record lead)" "sum_app s = effective_app t lead" and
    cnt: "sum_counts s = foldl (\<lambda>c e. counts_add c (rec_state (e_record e))) no_counts (t_entries t)"
    by (auto simp: summary_def split: option.splits)
  from m have "sort_key entry_key (t_entries t) \<noteq> []" "hd (sort_key entry_key (t_entries t)) = lead"
    by (auto simp: min_by_key_sort split: list.splits)
  then have "hd (records t) = table_view t lead" by (simp add: records_def hd_map)
  then show "let lead = hd (records t) in
      sum_id s = view_id lead \<and> sum_state s = view_state lead \<and> sum_app s = view_app lead"
    by (simp add: ids table_view_def)
  show "\<forall>e \<in> set (t_entries t). urgency (rec_state (e_record e)) \<le> urgency (sum_state s)"
    using min_by_key_least [OF m] by (auto simp: ids entry_key_def order_key_def less_eq_prod_def)
  fix st
  have "length (t_entries t) + count_of no_counts st \<le> u16_max"
    using assms by (cases st) (auto simp: table_inv_def no_counts_def MAX_RECORDS_def u16_max_def)
  from counts_foldl [OF this] show "count_of (sum_counts s) st = length (filter (\<lambda>e. rec_state (e_record e) = st) (t_entries t))"
    by (cases st) (simp_all add: cnt no_counts_def)
qed

theorem summary_leads_with_most_urgent_witness:
  "\<exists>s. summary demo_table = Some s \<and> sum_state s = Blocked \<and> count_of (sum_counts s) Blocked = 1"
proof -
  have e: "map (\<lambda>e. rec_state (e_record e)) (t_entries demo_table) = [Blocked]"
    by (simp add: demo_table_def table_set_def table_new_def demo_record_def Let_def MAX_RECORDS_def)
  then obtain x where x: "t_entries demo_table = [x]" "rec_state (e_record x) = Blocked"
    by (metis (no_types, lifting) map_eq_Cons_conv map_is_Nil_conv)
  then obtain s where s: "summary demo_table = Some s" "sum_state s = Blocked" by (simp add: summary_def)
  from summary_leads_with_most_urgent [OF demo_table_facts(2)] s(1)
  have "count_of (sum_counts s) Blocked = length (filter (\<lambda>e. rec_state (e_record e) = Blocked) (t_entries demo_table))"
    by blast
  with s x show ?thesis by simp
qed

text \<open>The ids above an id, nearest first, the root last.\<close>

function ancestors :: "record_id option \<Rightarrow> record_id option list" where
  "ancestors None = []"
| "ancestors (Some i) = parent i # ancestors (parent i)"
  by pat_completeness auto
termination
  by (relation "measure (\<lambda>a. case a of None \<Rightarrow> 0 | Some i \<Rightarrow> Suc (length (id_str i)))")
     (auto split: option.splits dest: parent_shorter)

lemma ancestor_app_chain:
  "ancestor_app t a = (case List.find (\<lambda>j. app_at t j \<noteq> None) (a # ancestors a) of None \<Rightarrow> None | Some j \<Rightarrow> app_at t j)"
proof (induction t a rule: ancestor_app.induct)
  case (1 t a)
  then show ?case
    by (subst ancestor_app.simps) (cases "app_at t a"; cases a; auto)
qed

text \<open>a record without an app of its own takes the app of its nearest ancestor that has one, the
  root being the outermost; the search always ends.\<close>

theorem effective_app_is_nearest_ancestor:
  "effective_app t e =
     (case rec_app (e_record e) of
        Some app \<Rightarrow> Some app
      | None \<Rightarrow> (case List.find (\<lambda>j. app_at t j \<noteq> None) (ancestors (e_id e)) of
                   None \<Rightarrow> None | Some j \<Rightarrow> app_at t j))"
  by (cases "e_id e") (simp_all add: effective_app_def ancestor_app_chain split: option.splits)

end
