(* ===== verification/Model.thy ===== *)
theory Model
  imports Layout_Tree Titles Status_Model
begin

text \<open>
  The entities of the session graph, \<^verbatim>\<open>shux-core/src/model.rs\<close>: sessions, windows and panes, how a
  pane's title follows from its four sources, and when an exited program is restarted.

  Ids and the clock come from outside: constructors take the fresh id, the creation time and the
  creation number as arguments.  A path is its string.
\<close>

section \<open>Entities\<close>

datatype restart_policy = Never | OnFail | Always

type_synonym theme_ref = rstring
type_synonym tags = "(rstring, rstring) hashmap"
type_synonym version = u64
type_synonym system_time = nat

record session =
  s_id :: session_id
  s_name :: rstring
  s_created_at :: system_time
  s_created_seq :: u64
  s_windows :: "window_id list"
  s_active_window :: window_id
  s_env :: "(rstring, rstring) hashmap"
  s_theme :: "theme_ref option"
  s_tags :: tags
  s_version :: version
  s_created_by_plugin :: "plugin_id option"

definition session_new :: "session_id \<Rightarrow> system_time \<Rightarrow> u64 \<Rightarrow> rstring \<Rightarrow> window_id \<Rightarrow> session" where
  "session_new sid now seq name initial_window_id =
     \<lparr>s_id = sid, s_name = name, s_created_at = now, s_created_seq = seq, s_windows = [initial_window_id],
      s_active_window = initial_window_id, s_env = [], s_theme = None, s_tags = [], s_version = 1,
      s_created_by_plugin = None\<rparr>"

record window =
  w_id :: window_id
  w_session_id :: session_id
  w_title :: rstring
  w_active_pane :: pane_id
  w_layout :: window_layout
  w_cwd :: "rstring option"
  w_theme :: "theme_ref option"
  w_tags :: tags
  w_version :: version
  w_created_by_plugin :: "plugin_id option"

definition window_new :: "window_id \<Rightarrow> session_id \<Rightarrow> rstring \<Rightarrow> pane_id \<Rightarrow> window" where
  "window_new wid session_id title initial_pane_id =
     \<lparr>w_id = wid, w_session_id = session_id, w_title = sanitize_title title, w_active_pane = initial_pane_id,
      w_layout = wl_new initial_pane_id, w_cwd = None, w_theme = None, w_tags = [], w_version = 1,
      w_created_by_plugin = None\<rparr>"

record program_exit =
  x_status :: int
  x_signal :: "int option"
  x_by_shux :: bool

definition program_exit_code :: "int \<Rightarrow> program_exit" where
  "program_exit_code status = \<lparr>x_status = status, x_signal = None, x_by_shux = False\<rparr>"

record pane =
  p_id :: pane_id
  p_window_id :: window_id
  p_title :: rstring
  p_manual_title :: "rstring option"
  p_osc_title :: "rstring option"
  p_auto_title :: bool
  p_cwd :: rstring
  p_command :: "rstring list"
  p_exit_status :: "int option"
  p_exit_signal :: "int option"
  p_exit_by_shux :: bool
  p_restart :: restart_policy
  p_theme :: "theme_ref option"
  p_tags :: tags
  p_version :: version
  p_created_by_plugin :: "plugin_id option"
  p_program_status :: "status_summary option"
  p_program_status_seen :: bool
  p_program_status_enabled :: bool

section \<open>Titles of panes\<close>

definition FALLBACK_PANE_TITLE :: rstring where "FALLBACK_PANE_TITLE = ascii ''pane''"

text \<open>The first of the automatic sources that leaves something after sanitising.\<close>

definition auto_derived_title :: "rstring list \<Rightarrow> rstring \<Rightarrow> rstring" where
  "auto_derived_title command cwd =
     (let from_name = (\<lambda>name k. case name of
                         None \<Rightarrow> k
                       | Some n \<Rightarrow> let sanitized = sanitize_title_clamped n in if sanitized \<noteq> [] then sanitized else k);
          whole = sanitize_title_clamped cwd
      in from_name (command_display_name command)
           (from_name (file_name cwd)
              (if whole = [] then FALLBACK_PANE_TITLE else whole)))"

definition recalculate_title :: "pane \<Rightarrow> pane" where
  "recalculate_title p =
     (case p_manual_title p of
        Some m \<Rightarrow> p\<lparr>p_title := m\<rparr>
      | None \<Rightarrow>
          if p_auto_title p then
            (case p_osc_title p of
               Some osc \<Rightarrow> p\<lparr>p_title := osc\<rparr>
             | None \<Rightarrow> p\<lparr>p_title := auto_derived_title (p_command p) (p_cwd p)\<rparr>)
          else p)"

definition pane_new :: "pane_id \<Rightarrow> window_id \<Rightarrow> rstring \<Rightarrow> pane" where
  "pane_new pid window_id cwd =
     recalculate_title
       \<lparr>p_id = pid, p_window_id = window_id, p_title = [], p_manual_title = None, p_osc_title = None,
        p_auto_title = True, p_cwd = cwd, p_command = [], p_exit_status = None, p_exit_signal = None,
        p_exit_by_shux = False, p_restart = Never, p_theme = None, p_tags = [], p_version = 1,
        p_created_by_plugin = None, p_program_status = None, p_program_status_seen = False,
        p_program_status_enabled = False\<rparr>"

definition pane_with_command :: "pane_id \<Rightarrow> window_id \<Rightarrow> rstring \<Rightarrow> rstring list \<Rightarrow> pane" where
  "pane_with_command pid window_id cwd command =
     recalculate_title ((pane_new pid window_id cwd)\<lparr>p_command := command\<rparr>)"

definition is_alive :: "pane \<Rightarrow> bool" where
  "is_alive p \<longleftrightarrow> p_exit_status p = None"

definition should_restart :: "pane \<Rightarrow> bool" where
  "should_restart p =
     (case (p_restart p, p_exit_status p) of
        (Always, Some _) \<Rightarrow> True
      | (OnFail, Some code) \<Rightarrow> code \<noteq> 0
      | _ \<Rightarrow> False)"

definition effective_title :: "pane \<Rightarrow> rstring" where
  "effective_title p =
     (case p_manual_title p of
        Some m \<Rightarrow> m
      | None \<Rightarrow> if p_auto_title p then (case p_osc_title p of Some osc \<Rightarrow> osc | None \<Rightarrow> p_title p) else p_title p)"

definition set_manual_title :: "pane \<Rightarrow> rstring option \<Rightarrow> pane" where
  "set_manual_title p title = recalculate_title (p\<lparr>p_manual_title := map_option sanitize_title_clamped title\<rparr>)"

definition set_osc_title :: "pane \<Rightarrow> rstring \<Rightarrow> pane \<times> bool" where
  "set_osc_title p title =
     (let sanitized = sanitize_title_clamped title;
          new_osc = (if sanitized = [] then None else Some sanitized)
      in if p_osc_title p = new_osc then (p, False)
         else let p' = recalculate_title (p\<lparr>p_osc_title := new_osc\<rparr>)
              in (p', p_title p \<noteq> p_title p'))"

definition set_auto_title :: "pane \<Rightarrow> bool \<Rightarrow> pane" where
  "set_auto_title p enabled =
     (if p_auto_title p = enabled then p else recalculate_title (p\<lparr>p_auto_title := enabled\<rparr>))"

section \<open>Lemmas\<close>

lemma auto_derived_title_facts:
  "auto_derived_title command cwd \<noteq> []" "inert (auto_derived_title command cwd)"
  "length (auto_derived_title command cwd) \<le> MAX_TITLE_CHARS"
proof -
  have f: "inert FALLBACK_PANE_TITLE" "FALLBACK_PANE_TITLE \<noteq> []" "length FALLBACK_PANE_TITLE \<le> MAX_TITLE_CHARS"
    by (simp_all add: FALLBACK_PANE_TITLE_def inert_def char_class_defs MAX_TITLE_CHARS_def)
  then show "auto_derived_title command cwd \<noteq> []" "inert (auto_derived_title command cwd)"
    "length (auto_derived_title command cwd) \<le> MAX_TITLE_CHARS"
    by (auto simp: auto_derived_title_def Let_def split: option.splits)
qed

lemma recalculate_title_keeps [simp]:
  "p_id (recalculate_title p) = p_id p" "p_window_id (recalculate_title p) = p_window_id p"
  "p_manual_title (recalculate_title p) = p_manual_title p" "p_osc_title (recalculate_title p) = p_osc_title p"
  "p_auto_title (recalculate_title p) = p_auto_title p" "p_cwd (recalculate_title p) = p_cwd p"
  "p_command (recalculate_title p) = p_command p" "p_exit_status (recalculate_title p) = p_exit_status p"
  "p_exit_signal (recalculate_title p) = p_exit_signal p" "p_exit_by_shux (recalculate_title p) = p_exit_by_shux p"
  "p_version (recalculate_title p) = p_version p" "p_program_status (recalculate_title p) = p_program_status p"
  by (auto simp: recalculate_title_def split: option.splits)

lemma pane_new_keeps [simp]:
  "p_id (pane_new pid wid cwd) = pid" "p_window_id (pane_new pid wid cwd) = wid"
  "p_cwd (pane_new pid wid cwd) = cwd" "p_command (pane_new pid wid cwd) = []"
  "p_id (pane_with_command pid wid cwd cmd) = pid" "p_window_id (pane_with_command pid wid cwd cmd) = wid"
  "p_cwd (pane_with_command pid wid cwd cmd) = cwd" "p_command (pane_with_command pid wid cwd cmd) = cmd"
  "p_exit_status (pane_new pid wid cwd) = None" "p_exit_status (pane_with_command pid wid cwd cmd) = None"
  by (simp_all add: pane_new_def pane_with_command_def)

text \<open>
  What a pane's titles satisfy between operations: every stored title is inert and short, the
  displayed one is that of the highest source present, and an automatic title is never empty.
\<close>

definition short_inert :: "rstring \<Rightarrow> bool" where
  "short_inert s \<longleftrightarrow> inert s \<and> length s \<le> MAX_TITLE_CHARS"

definition titles_ok :: "pane \<Rightarrow> bool" where
  "titles_ok p \<longleftrightarrow>
     short_inert (p_title p) \<and>
     (\<forall>m. p_manual_title p = Some m \<longrightarrow> short_inert m \<and> p_title p = m) \<and>
     (\<forall>osc. p_osc_title p = Some osc \<longrightarrow> short_inert osc \<and> osc \<noteq> []) \<and>
     (p_manual_title p = None \<longrightarrow> p_auto_title p \<longrightarrow> p_title p \<noteq> [] \<and>
        (\<forall>osc. p_osc_title p = Some osc \<longrightarrow> p_title p = osc))"

lemma short_inert_clamped [simp]: "short_inert (sanitize_title_clamped s)"
  by (simp add: short_inert_def)

lemma recalculate_titles_ok:
  assumes "short_inert (p_title p)" "\<forall>m. p_manual_title p = Some m \<longrightarrow> short_inert m"
    "\<forall>osc. p_osc_title p = Some osc \<longrightarrow> short_inert osc \<and> osc \<noteq> []"
  shows "titles_ok (recalculate_title p)"
  using assms auto_derived_title_facts [of "p_command p" "p_cwd p"]
  by (auto simp: titles_ok_def recalculate_title_def short_inert_def split: option.splits)

lemma pane_new_titles_ok: "titles_ok (pane_new pid wid cwd)"
  unfolding pane_new_def by (rule recalculate_titles_ok) (simp_all add: short_inert_def)

lemma pane_with_command_titles_ok: "titles_ok (pane_with_command pid wid cwd command)"
  unfolding pane_with_command_def
  by (rule recalculate_titles_ok) (use pane_new_titles_ok [of pid wid cwd] in \<open>auto simp: titles_ok_def\<close>)

lemma set_manual_titles_ok: "titles_ok p \<Longrightarrow> titles_ok (set_manual_title p title)"
  unfolding set_manual_title_def by (rule recalculate_titles_ok) (auto simp: titles_ok_def)

lemma set_osc_titles_ok: "titles_ok p \<Longrightarrow> titles_ok (fst (set_osc_title p osc))"
proof -
  assume ok: "titles_ok p"
  let ?new = "if sanitize_title_clamped osc = [] then None else Some (sanitize_title_clamped osc)"
  have "titles_ok (recalculate_title (p\<lparr>p_osc_title := ?new\<rparr>))"
    by (rule recalculate_titles_ok) (use ok in \<open>auto simp: titles_ok_def\<close>)
  then show ?thesis using ok by (simp add: set_osc_title_def Let_def)
qed

lemma set_auto_titles_ok: "titles_ok p \<Longrightarrow> titles_ok (set_auto_title p enabled)"
proof -
  assume ok: "titles_ok p"
  have "titles_ok (recalculate_title (p\<lparr>p_auto_title := enabled\<rparr>))"
    by (rule recalculate_titles_ok) (use ok in \<open>auto simp: titles_ok_def\<close>)
  then show ?thesis using ok by (simp add: set_auto_title_def)
qed

section \<open>Properties\<close>

text \<open>every way of building or retitling a pane leaves its titles in order: all of them free of
  hostile characters and at most 64 long, the displayed title that of the highest-priority source
  (so reading \<open>title\<close> directly and \<open>effective_title()\<close> agree), and never empty while automatic
  titles are on and no manual title is set.\<close>

theorem pane_titles_stay_in_order:
  "titles_ok (pane_new pid wid cwd) \<and> titles_ok (pane_with_command pid wid cwd command) \<and>
   (titles_ok p \<longrightarrow> titles_ok (set_manual_title p title) \<and> titles_ok (fst (set_osc_title p osc)) \<and>
      titles_ok (set_auto_title p enabled) \<and> effective_title p = p_title p)"
  using pane_new_titles_ok pane_with_command_titles_ok set_manual_titles_ok set_osc_titles_ok set_auto_titles_ok
  by (auto simp: effective_title_def titles_ok_def [of p] split: option.splits)

theorem pane_titles_stay_in_order_witness:
  "effective_title (pane_new (PaneId 1) (WindowId 2) (ascii ''/'')) = ascii ''/'' \<and>
   titles_ok (set_manual_title (pane_new (PaneId 1) (WindowId 2) (ascii ''/'')) (Some (ascii ''build'')))"
proof -
  let ?p = "pane_new (PaneId 1) (WindowId 2) (ascii ''/'')"
  have slash: "sanitize_title_clamped [47] = [47]"
    by (simp add: sanitize_title_clamped_def sanitize_title_def trim_def trim_by_def char_class_defs MAX_TITLE_CHARS_def)
  have "p_title ?p = ascii ''/''"
    by (simp add: pane_new_def recalculate_title_def auto_derived_title_def command_display_name_def file_name_def Let_def slash)
  then show ?thesis
    using pane_titles_stay_in_order [of "PaneId 1" "WindowId 2" "ascii ''/''" "[]" ?p "Some (ascii ''build'')" "[]" True]
    by simp
qed

text \<open>an OSC title reports a change exactly when the displayed title moves, and never moves it while
  a manual title is set or automatic titles are off.\<close>

theorem set_osc_title_reports_change:
  assumes "titles_ok p"
  shows "(snd (set_osc_title p osc) \<longleftrightarrow> p_title (fst (set_osc_title p osc)) \<noteq> p_title p) \<and>
    (p_manual_title p \<noteq> None \<or> \<not> p_auto_title p \<longrightarrow> p_title (fst (set_osc_title p osc)) = p_title p)"
  using assms
  by (auto simp: set_osc_title_def Let_def recalculate_title_def titles_ok_def split: option.splits)

theorem set_osc_title_reports_change_witness:
  "snd (set_osc_title (pane_new (PaneId 1) (WindowId 2) (ascii ''/'')) []) =
     (p_title (fst (set_osc_title (pane_new (PaneId 1) (WindowId 2) (ascii ''/'')) [])) \<noteq>
        p_title (pane_new (PaneId 1) (WindowId 2) (ascii ''/'')))"
proof -
  let ?p = "pane_new (PaneId 1) (WindowId 2) (ascii ''/'')"
  have "titles_ok ?p" by (rule pane_new_titles_ok)
  with set_osc_title_reports_change [of ?p "[]"] show ?thesis by blast
qed

end
