(* ===== verification/Event.thy ===== *)
theory Event
  imports Model
begin

text \<open>
  The event taxonomy of \<^verbatim>\<open>shux-core/src/event.rs\<close>: typed payloads, the dotted type string each
  carries, and prefix filters.  JSON values inside payloads are only carried.
\<close>

datatype json =
    JNull
  | JBool bool
  | JNumber rstring
  | JString rstring
  | JArray "json list"
  | JObject "(rstring \<times> json) list"

text \<open>In events a plugin is named by its human-readable string.\<close>

type_synonym event_plugin_id = rstring

record config_change =
  cc_key :: rstring
  cc_old :: "json option"
  cc_new :: json

datatype (plugins only: code) event_data =
    SessionCreated session_id rstring
  | SessionRenamed session_id rstring rstring
  | SessionKilled session_id rstring
  | SessionAttached session_id client_id
  | SessionDetached session_id client_id
  | WindowCreated window_id session_id rstring nat
  | WindowActivated window_id session_id "window_id option"
  | WindowRenamed window_id session_id rstring rstring
  | WindowReordered window_id session_id usize usize
  | WindowKilled window_id session_id
  | PaneCreated pane_id window_id session_id "rstring list"
  | PaneFocused pane_id window_id session_id "pane_id option"
  | PaneResized pane_id window_id session_id u16 u16
  | PaneZoomed pane_id window_id session_id bool
  | PaneTitleChanged pane_id window_id session_id rstring rstring
  | PaneCwdChanged pane_id window_id session_id rstring rstring
  | PaneExited pane_id window_id session_id "int option" "int option" bool "rstring list"
  | PaneRespawned pane_id window_id session_id "rstring list"
  | PaneCommandCompleted pane_id window_id session_id rstring "int option" rstring rstring u64
  | PaneOutput pane_id window_id session_id rstring bool
  | PaneInput pane_id window_id session_id rstring
  | PaneStatusChanged pane_id window_id session_id "status_summary option" "status_summary option" bool bool
  | PaneBell pane_id window_id session_id
  | PaneTagChanged pane_id window_id session_id rstring "rstring option" "rstring option"
  | ClientConnected client_id u16 u16
  | ClientDisconnected client_id rstring
  | ClientResized client_id u16 u16 u16 u16
  | ThemeChanged rstring rstring "rstring option" rstring
  | ConfigReloaded rstring "config_change list"
  | PluginEnabled event_plugin_id rstring
  | PluginDisabled event_plugin_id rstring
  | PluginReloaded event_plugin_id rstring
  | PluginError event_plugin_id rstring rstring
  | PluginEvent event_plugin_id rstring json
  | KeybindingChanged rstring "rstring option" rstring
  | ErrorEvent int rstring rstring

definition event_type_of :: "event_data \<Rightarrow> rstring" where
  "event_type_of d =
     ascii (case d of
       SessionCreated _ _ \<Rightarrow> ''session.created''
     | SessionRenamed _ _ _ \<Rightarrow> ''session.renamed''
     | SessionKilled _ _ \<Rightarrow> ''session.killed''
     | SessionAttached _ _ \<Rightarrow> ''session.attached''
     | SessionDetached _ _ \<Rightarrow> ''session.detached''
     | WindowCreated _ _ _ _ \<Rightarrow> ''window.created''
     | WindowActivated _ _ _ \<Rightarrow> ''window.activated''
     | WindowRenamed _ _ _ _ \<Rightarrow> ''window.renamed''
     | WindowReordered _ _ _ _ \<Rightarrow> ''window.reordered''
     | WindowKilled _ _ \<Rightarrow> ''window.killed''
     | PaneCreated _ _ _ _ \<Rightarrow> ''pane.created''
     | PaneFocused _ _ _ _ \<Rightarrow> ''pane.focused''
     | PaneResized _ _ _ _ _ \<Rightarrow> ''pane.resized''
     | PaneZoomed _ _ _ _ \<Rightarrow> ''pane.zoomed''
     | PaneTitleChanged _ _ _ _ _ \<Rightarrow> ''pane.title_changed''
     | PaneCwdChanged _ _ _ _ _ \<Rightarrow> ''pane.cwd_changed''
     | PaneExited _ _ _ _ _ _ _ \<Rightarrow> ''pane.exited''
     | PaneRespawned _ _ _ _ \<Rightarrow> ''pane.respawned''
     | PaneCommandCompleted _ _ _ _ _ _ _ _ \<Rightarrow> ''pane.command_completed''
     | PaneOutput _ _ _ _ _ \<Rightarrow> ''pane.output''
     | PaneInput _ _ _ _ \<Rightarrow> ''pane.input''
     | PaneStatusChanged _ _ _ _ _ _ _ \<Rightarrow> ''pane.status_changed''
     | PaneBell _ _ _ \<Rightarrow> ''pane.bell''
     | PaneTagChanged _ _ _ _ _ _ \<Rightarrow> ''pane.tag_changed''
     | ClientConnected _ _ _ \<Rightarrow> ''client.connected''
     | ClientDisconnected _ _ \<Rightarrow> ''client.disconnected''
     | ClientResized _ _ _ _ _ \<Rightarrow> ''client.resized''
     | ThemeChanged _ _ _ _ \<Rightarrow> ''theme.changed''
     | ConfigReloaded _ _ \<Rightarrow> ''config.reloaded''
     | PluginEnabled _ _ \<Rightarrow> ''plugin.enabled''
     | PluginDisabled _ _ \<Rightarrow> ''plugin.disabled''
     | PluginReloaded _ _ \<Rightarrow> ''plugin.reloaded''
     | PluginError _ _ _ \<Rightarrow> ''plugin.error''
     | PluginEvent _ _ _ \<Rightarrow> ''plugin.event''
     | KeybindingChanged _ _ _ \<Rightarrow> ''keybinding.changed''
     | ErrorEvent _ _ _ \<Rightarrow> ''error'')"

definition full_event_type :: "event_data \<Rightarrow> rstring" where
  "full_event_type d =
     (case d of
        PluginEvent plugin_id event_type _ \<Rightarrow> ascii ''plugin.'' @ plugin_id @ ascii ''.'' @ event_type
      | _ \<Rightarrow> event_type_of d)"

record event_metadata =
  m_seq :: u64
  m_timestamp :: system_time
  m_event_type :: rstring
  m_correlation_id :: "rstring option"

record event =
  ev_meta :: event_metadata
  ev_data :: event_data

definition ev_seq :: "event \<Rightarrow> u64" where
  "ev_seq e = m_seq (ev_meta e)"

definition ev_type :: "event \<Rightarrow> rstring" where
  "ev_type e = m_event_type (ev_meta e)"

definition matches_filter :: "event \<Rightarrow> rstring \<Rightarrow> bool" where
  "matches_filter e f \<longleftrightarrow> f = [] \<or> take (length f) (m_event_type (ev_meta e)) = f"

lemma full_event_type_PluginEvent [simp]:
  "full_event_type (PluginEvent p t j) = ascii ''plugin.'' @ p @ ascii ''.'' @ t"
  by (simp add: full_event_type_def)

end
