(* ===== verification/Bus.thy ===== *)
theory Bus
  imports Event
begin

text \<open>
  The event bus, \<^verbatim>\<open>shux-core/src/bus.rs\<close>: sequence numbers, the bounded history behind
  \<open>events.history\<close> and \<open>from_seq\<close> resumption, the data plane, and subscriptions.

  A publication holds the history lock from the sequence number to the broadcast, so it is one
  step here.  The broadcast channel is a library: the bus keeps what it has sent (\<open>b_sent\<close>,
  \<open>b_data_sent\<close>), and a subscription reads a list of what its receiver yields.
\<close>

section \<open>Model\<close>

record pane_output_event =
  po_seq :: u64
  po_pane_id :: pane_id
  po_window_id :: window_id
  po_session_id :: session_id
  po_timestamp :: system_time
  po_bytes :: rstring
  po_sampled :: bool

record event_bus_config =
  broadcast_capacity :: usize
  history_capacity :: usize
  data_plane_capacity :: usize

definition default_bus_config :: event_bus_config where
  "default_bus_config = \<lparr>broadcast_capacity = 4096, history_capacity = 8192, data_plane_capacity = 16384\<rparr>"

record event_history =
  h_buffer :: "event list"
  h_capacity :: usize

record event_bus =
  b_sent :: "event list"
  b_seq_counter :: u64
  b_history :: event_history
  b_data_sent :: "pane_output_event list"
  b_data_seq :: u64
  b_config :: event_bus_config

definition history_new :: "usize \<Rightarrow> event_history" where
  "history_new capacity = \<lparr>h_buffer = [], h_capacity = capacity\<rparr>"

definition history_push :: "event_history \<Rightarrow> event \<Rightarrow> event_history" where
  "history_push h e =
     (let buf = (if h_capacity h \<le> length (h_buffer h) then tl (h_buffer h) else h_buffer h)
      in h\<lparr>h_buffer := buf @ [e]\<rparr>)"

definition oldest_seq :: "event_history \<Rightarrow> u64 option" where
  "oldest_seq h = (case h_buffer h of [] \<Rightarrow> None | e # _ \<Rightarrow> Some (ev_seq e))"

definition newest_seq :: "event_history \<Rightarrow> u64 option" where
  "newest_seq h = (if h_buffer h = [] then None else Some (ev_seq (last (h_buffer h))))"

definition sat_sub64 :: "u64 \<Rightarrow> u64 \<Rightarrow> u64" where
  "sat_sub64 a b = (if a \<le> b then 0 else a - b)"

definition history_from_seq :: "event_history \<Rightarrow> u64 \<Rightarrow> event list \<times> u64" where
  "history_from_seq h from_seq =
     (let oldest = (case oldest_seq h of Some s \<Rightarrow> s | None \<Rightarrow> 0);
          gap = sat_sub64 oldest from_seq
      in (filter (\<lambda>e. from_seq \<le> ev_seq e) (h_buffer h), gap))"

definition recent :: "event_history \<Rightarrow> usize \<Rightarrow> event list" where
  "recent h count = drop (length (h_buffer h) - count) (h_buffer h)"

definition recent_filtered :: "event_history \<Rightarrow> usize \<Rightarrow> rstring list \<Rightarrow> event list" where
  "recent_filtered h count filters =
     (if filters = [] then recent h count
      else rev (take count (filter (\<lambda>e. list_ex (matches_filter e) filters) (rev (h_buffer h)))))"

definition bus_with_config :: "event_bus_config \<Rightarrow> event_bus" where
  "bus_with_config config =
     \<lparr>b_sent = [], b_seq_counter = 1, b_history = history_new (history_capacity config),
      b_data_sent = [], b_data_seq = 1, b_config = config\<rparr>"

definition bus_new :: event_bus where
  "bus_new = bus_with_config default_bus_config"

definition publish_with_correlation ::
  "event_bus \<Rightarrow> system_time \<Rightarrow> event_data \<Rightarrow> rstring option \<Rightarrow> event_bus \<times> u64" where
  "publish_with_correlation b now d correlation_id =
     (let seq = b_seq_counter b;
          e = \<lparr>ev_meta = \<lparr>m_seq = seq, m_timestamp = now, m_event_type = full_event_type d,
                          m_correlation_id = correlation_id\<rparr>,
               ev_data = d\<rparr>
      in (b\<lparr>b_seq_counter := seq + 1, b_history := history_push (b_history b) e, b_sent := b_sent b @ [e]\<rparr>, seq))"

definition publish :: "event_bus \<Rightarrow> system_time \<Rightarrow> event_data \<Rightarrow> event_bus \<times> u64" where
  "publish b now d = publish_with_correlation b now d None"

definition bus_history :: "event_bus \<Rightarrow> usize \<Rightarrow> event list" where
  "bus_history b count = recent (b_history b) count"

definition bus_history_filtered :: "event_bus \<Rightarrow> usize \<Rightarrow> rstring list \<Rightarrow> event list" where
  "bus_history_filtered b count filters = recent_filtered (b_history b) count filters"

definition events_from_seq :: "event_bus \<Rightarrow> u64 \<Rightarrow> event list \<times> u64" where
  "events_from_seq b from_seq = history_from_seq (b_history b) from_seq"

definition current_seq :: "event_bus \<Rightarrow> u64" where
  "current_seq b = b_seq_counter b"

definition publish_pane_output ::
  "event_bus \<Rightarrow> system_time \<Rightarrow> pane_id \<Rightarrow> window_id \<Rightarrow> session_id \<Rightarrow> rstring \<Rightarrow> bool \<Rightarrow> event_bus \<times> u64" where
  "publish_pane_output b now pid wid sid bytes_b64 sampled =
     (let seq = b_data_seq b;
          e = \<lparr>po_seq = seq, po_pane_id = pid, po_window_id = wid, po_session_id = sid, po_timestamp = now,
               po_bytes = bytes_b64, po_sampled = sampled\<rparr>
      in (b\<lparr>b_data_seq := seq + 1, b_data_sent := b_data_sent b @ [e]\<rparr>, seq))"

definition current_data_seq :: "event_bus \<Rightarrow> u64" where
  "current_data_seq b = b_data_seq b"

text \<open>
  What a broadcast receiver yields next, and how one call of \<open>recv\<close> ends: it waits for more, the
  bus is gone, or it has something; in each case with the outcomes it has not read yet.
\<close>

datatype 'e recv_result = RecvOk 'e | RecvLagged nat | RecvClosed

datatype subscription_event = SubEvent event | SubLagged nat

datatype chunk_event = Chunk pane_output_event | ChunkLagged nat

datatype ('a, 'r) recv_end = Waiting | Shutdown 'r | Received 'a 'r

definition sub_matches :: "rstring list \<Rightarrow> event \<Rightarrow> bool" where
  "sub_matches filters e \<longleftrightarrow> filters = [] \<or> list_ex (matches_filter e) filters"

fun sub_recv :: "rstring list \<Rightarrow> event recv_result list \<Rightarrow> (subscription_event, event recv_result list) recv_end" where
  "sub_recv filters [] = Waiting"
| "sub_recv filters (RecvOk e # rest) =
     (if sub_matches filters e then Received (SubEvent e) rest else sub_recv filters rest)"
| "sub_recv filters (RecvLagged count # rest) = Received (SubLagged count) rest"
| "sub_recv filters (RecvClosed # rest) = Shutdown rest"

fun pane_output_recv ::
  "pane_output_event recv_result list \<Rightarrow> (chunk_event, pane_output_event recv_result list) recv_end" where
  "pane_output_recv [] = Waiting"
| "pane_output_recv (RecvOk c # rest) = Received (Chunk c) rest"
| "pane_output_recv (RecvLagged n # rest) = Received (ChunkLagged n) rest"
| "pane_output_recv (RecvClosed # rest) = Shutdown rest"

section \<open>A bounded log\<close>

text \<open>
  The contract between the history and its readers: the buffer is the newest part of the log,
  at most \<open>room\<close> entries of it.  What the buffer does not hold any more has aged out in order.
\<close>

definition newest :: "nat \<Rightarrow> 'a list \<Rightarrow> 'a list" where
  "newest k xs = drop (length xs - k) xs"

lemma newest_length [simp]: "length (newest k xs) = min k (length xs)"
  by (simp add: newest_def)

lemma newest_sub: "set (newest k xs) \<subseteq> set xs"
  by (simp add: newest_def set_drop_subset)

lemma newest_rev: "newest k xs = rev (take k (rev xs))"
  by (simp add: newest_def rev_take)

locale bounded_log =
  fixes buffer :: "'h \<Rightarrow> 'e list" and push :: "'h \<Rightarrow> 'e \<Rightarrow> 'h" and room :: "'h \<Rightarrow> nat"
  assumes room_pos: "0 < room h"
    and room_push: "room (push h e) = room h"
    and push_buffer: "length (buffer h) \<le> room h \<Longrightarrow>
      buffer (push h e) = (if length (buffer h) = room h then tl (buffer h) else buffer h) @ [e]"
begin

lemma buffer_newest:
  "buffer h = newest (room h) sent \<Longrightarrow>
     buffer (foldl push h es) = newest (room h) (sent @ es) \<and> room (foldl push h es) = room h"
proof (induction es arbitrary: h sent)
  case (Cons e es)
  have len: "length (buffer h) \<le> room h" using Cons.prems by simp
  have "buffer (push h e) = newest (room h) (sent @ [e])"
  proof (cases "length (buffer h) = room h")
    case True
    then have l: "room h \<le> length sent" using Cons.prems by simp
    have "tl (newest (room h) sent) = drop (Suc (length sent - room h)) sent"
      by (simp only: newest_def drop_Suc drop_tl)
    moreover have "newest (room h) (sent @ [e]) = drop (Suc (length sent) - room h) sent @ [e]"
      using l room_pos [of h] by (simp add: newest_def)
    ultimately show ?thesis using True Cons.prems l by (simp add: push_buffer [OF len] Suc_diff_le)
  next
    case False
    with Cons.prems have "length sent < room h" by auto
    then show ?thesis using False Cons.prems by (simp add: push_buffer [OF len] newest_def)
  qed
  from Cons.IH [of "push h e" "sent @ [e]"] this show ?case by (simp add: room_push)
qed simp

end

definition history_room :: "event_history \<Rightarrow> nat" where
  "history_room h = max 1 (h_capacity h)"

interpretation ring: bounded_log h_buffer history_push history_room
proof
  fix h e
  show "0 < history_room h" by (simp add: history_room_def)
  show "history_room (history_push h e) = history_room h" by (simp add: history_room_def history_push_def Let_def)
  show "length (h_buffer h) \<le> history_room h \<Longrightarrow> h_buffer (history_push h e) =
      (if length (h_buffer h) = history_room h then tl (h_buffer h) else h_buffer h) @ [e]"
    by (cases "h_capacity h"; cases "h_buffer h") (auto simp: history_push_def history_room_def Let_def)
qed

section \<open>Runs of the bus\<close>

type_synonym publication = "system_time \<times> event_data \<times> rstring option"

definition publish_one :: "event_bus \<Rightarrow> publication \<Rightarrow> event_bus" where
  "publish_one b p = fst (publish_with_correlation b (fst p) (fst (snd p)) (snd (snd p)))"

definition publish_all :: "event_bus \<Rightarrow> publication list \<Rightarrow> event_bus" where
  "publish_all b ps = foldl publish_one b ps"

definition bus_inv :: "event_bus \<Rightarrow> bool" where
  "bus_inv b \<longleftrightarrow>
     h_buffer (b_history b) = newest (history_room (b_history b)) (b_sent b) \<and>
     map (\<lambda>e. unat (ev_seq e)) (b_sent b) = [1..<Suc (length (b_sent b))] \<and>
     unat (b_seq_counter b) = Suc (length (b_sent b))"

lemma publish_one_facts:
  "h_capacity (b_history (publish_one b p)) = h_capacity (b_history b)"
  "\<exists>e. b_sent (publish_one b p) = b_sent b @ [e] \<and> ev_data e = fst (snd p) \<and> ev_seq e = b_seq_counter b \<and>
     m_correlation_id (ev_meta e) = snd (snd p) \<and> b_history (publish_one b p) = history_push (b_history b) e"
  "b_seq_counter (publish_one b p) = b_seq_counter b + 1"
  by (simp_all add: publish_one_def publish_with_correlation_def Let_def history_push_def ev_seq_def)

lemma publish_one_inv:
  assumes "bus_inv b" "length (b_sent b) < 2 ^ 64 - 2"
  shows "bus_inv (publish_one b p)"
proof -
  obtain e where e: "b_sent (publish_one b p) = b_sent b @ [e]" "ev_seq e = b_seq_counter b"
    "b_history (publish_one b p) = history_push (b_history b) e" using publish_one_facts(2) by blast
  have "h_buffer (history_push (b_history b) e) = newest (history_room (b_history b)) (b_sent b @ [e])"
    using ring.buffer_newest [of "b_history b" "b_sent b" "[e]"] assms(1) by (simp add: bus_inv_def)
  moreover have "unat (b_seq_counter b + 1) = Suc (Suc (length (b_sent b)))"
    using assms by (simp add: bus_inv_def unat_word_ariths)
  ultimately show ?thesis
    using assms(1) e by (simp add: bus_inv_def ring.room_push publish_one_facts(3))
qed

lemma publish_all_facts:
  "bus_inv b \<Longrightarrow> length (b_sent b) + length ps < 2 ^ 64 - 1 \<Longrightarrow>
     bus_inv (publish_all b ps) \<and> h_capacity (b_history (publish_all b ps)) = h_capacity (b_history b) \<and>
     map (\<lambda>e. (ev_data e, m_correlation_id (ev_meta e))) (b_sent (publish_all b ps)) =
       map (\<lambda>e. (ev_data e, m_correlation_id (ev_meta e))) (b_sent b) @ map snd ps"
proof (induction ps arbitrary: b)
  case (Cons p ps)
  obtain e where e: "b_sent (publish_one b p) = b_sent b @ [e]" "ev_data e = fst (snd p)"
    "m_correlation_id (ev_meta e) = snd (snd p)" using publish_one_facts(2) by blast
  have "bus_inv (publish_one b p)" by (rule publish_one_inv) (use Cons.prems in auto)
  from Cons.IH [OF this] Cons.prems(2) e show ?case
    by (simp add: publish_all_def publish_one_facts(1))
qed (simp add: publish_all_def)

lemma bus_inv_new: "bus_inv (bus_with_config config)"
  by (simp add: bus_inv_def bus_with_config_def history_new_def newest_def)

section \<open>Properties\<close>

text \<open>C17: the bus is a bounded log.  After any sequence of publications (fewer than \<open>2\<^sup>6\<^sup>4\<close>) the events
  broadcast are exactly those published, in order, numbered 1, 2, 3 and so on without a gap; the
  history is the newest of them, as many as its capacity (one at least), and the next number is
  what \<open>current_seq\<close> answers.\<close>

theorem bus_is_bounded_log:
  assumes "length ps < 2 ^ 64 - 1"
  shows "let b = publish_all (bus_with_config config) ps in
    map (\<lambda>e. (ev_data e, m_correlation_id (ev_meta e))) (b_sent b) = map snd ps \<and>
    map (\<lambda>e. unat (ev_seq e)) (b_sent b) = [1..<Suc (length ps)] \<and>
    h_buffer (b_history b) = newest (max 1 (history_capacity config)) (b_sent b) \<and>
    unat (current_seq b) = Suc (length ps)"
proof -
  let ?b = "publish_all (bus_with_config config) ps"
  have f: "bus_inv ?b" "h_capacity (b_history ?b) = history_capacity config"
    "map (\<lambda>e. (ev_data e, m_correlation_id (ev_meta e))) (b_sent ?b) = map snd ps"
    using publish_all_facts [OF bus_inv_new, of config ps] assms
    by (simp_all add: bus_with_config_def history_new_def)
  then have "length (b_sent ?b) = length ps" by (metis length_map)
  with f show ?thesis by (simp add: Let_def bus_inv_def history_room_def current_seq_def)
qed

definition demo_config :: event_bus_config where
  "demo_config = \<lparr>broadcast_capacity = 16, history_capacity = 2, data_plane_capacity = 16\<rparr>"

definition demo_publications :: "publication list" where
  "demo_publications = [(0, SessionKilled (SessionId 1) (ascii ''a''), None),
     (1, SessionKilled (SessionId 2) (ascii ''b''), None), (2, SessionKilled (SessionId 3) (ascii ''c''), None)]"

theorem bus_is_bounded_log_witness:
  "let b = publish_all (bus_with_config demo_config) demo_publications in
     map (\<lambda>e. unat (ev_seq e)) (b_sent b) = [1, 2, 3] \<and> length (h_buffer (b_history b)) = 2"
proof -
  let ?b = "publish_all (bus_with_config demo_config) demo_publications"
  have "length demo_publications < 2 ^ 64 - 1" by (simp add: demo_publications_def)
  moreover have "[1..<Suc (length demo_publications)] = [1, 2, 3]" by (simp add: demo_publications_def upt_rec)
  moreover have "length demo_publications = 3" "max 1 (history_capacity demo_config) = 2"
    by (simp_all add: demo_publications_def demo_config_def)
  ultimately have m: "map (\<lambda>e. unat (ev_seq e)) (b_sent ?b) = [1, 2, 3]" and "h_buffer (b_history ?b) = newest 2 (b_sent ?b)"
    using bus_is_bounded_log [of demo_publications demo_config] unfolding Let_def by metis+
  moreover have "length (b_sent ?b) = 3" using arg_cong [OF m, of length] by simp
  ultimately show ?thesis by (simp add: Let_def)
qed

lemma filter_upt: "filter (\<lambda>s. k \<le> s) [a..<b] = [max a k..<b]"
  by (induction b) (auto simp: max_def le_Suc_eq)

lemma length_filter_map: "length (filter (\<lambda>e. P (f e)) es) = length (filter P (map f es))"
  by (induction es) auto

text \<open>C37: resuming from a sequence number loses nothing silently: the events returned are those of the
  history numbered from there on, and together with the reported gap they account for every
  event ever broadcast from that number on.\<close>

theorem events_from_seq_accounts:
  assumes "length ps < 2 ^ 64 - 1" and "b = publish_all (bus_with_config config) ps" and "1 \<le> from_seq"
  shows "fst (events_from_seq b from_seq) = filter (\<lambda>e. from_seq \<le> ev_seq e) (h_buffer (b_history b)) \<and>
    unat (snd (events_from_seq b from_seq)) + length (fst (events_from_seq b from_seq)) =
      length (filter (\<lambda>e. from_seq \<le> ev_seq e) (b_sent b))"
proof
  let ?n = "length (b_sent b)" and ?h = "h_buffer (b_history b)" and ?k = "unat from_seq"
  show "fst (events_from_seq b from_seq) = filter (\<lambda>e. from_seq \<le> ev_seq e) ?h"
    by (simp add: events_from_seq_def history_from_seq_def Let_def)
  have inv: "bus_inv b" using publish_all_facts [OF bus_inv_new, of config ps] assms(1,2)
    by (simp add: bus_with_config_def)
  define r where "r = min (history_room (b_history b)) ?n"
  have k: "1 \<le> ?k" using assms(3) by (simp add: word_le_nat_alt)
  have seqs: "map (\<lambda>e. unat (ev_seq e)) (b_sent b) = [1..<Suc ?n]" using inv by (simp add: bus_inv_def)
  have hist: "map (\<lambda>e. unat (ev_seq e)) ?h = [Suc (?n - r)..<Suc ?n]"
  proof -
    have "?h = drop (?n - r) (b_sent b)" using inv by (auto simp: bus_inv_def newest_def r_def min_def)
    then show ?thesis by (simp add: drop_map [symmetric] seqs drop_upt del: upt_Suc)
  qed
  have cnt: "length (filter (\<lambda>e. from_seq \<le> ev_seq e) es) = length (filter ((\<le>) ?k) (map (\<lambda>e. unat (ev_seq e)) es))" for es
    by (simp add: word_le_nat_alt length_filter_map [symmetric] comp_def)
  have gap: "unat (snd (events_from_seq b from_seq)) = (if ?n = 0 then 0 else Suc (?n - r) - ?k)"
  proof (cases ?h)
    case Nil
    have "length ?h = r" using arg_cong [OF hist, of length] by (simp add: r_def del: upt_Suc)
    with Nil have "r = 0" by simp
    then have "?n = 0" using ring.room_pos [of "b_history b"] by (auto simp: r_def min_def split: if_splits)
    with Nil show ?thesis by (simp add: events_from_seq_def history_from_seq_def oldest_seq_def sat_sub64_def)
  next
    case (Cons e es)
    with hist have u: "[Suc (?n - r)..<Suc ?n] = unat (ev_seq e) # map (\<lambda>e. unat (ev_seq e)) es" by simp
    have "unat (ev_seq e) = Suc (?n - r)" using u by (simp only: upt_eq_Cons_conv)
    moreover have "?n \<noteq> 0" using u by (auto simp: upt_eq_Cons_conv simp del: upt_Suc)
    ultimately show ?thesis using Cons
      by (auto simp: events_from_seq_def history_from_seq_def oldest_seq_def sat_sub64_def word_le_nat_alt unat_sub)
  qed
  have "r \<le> ?n" "?n \<noteq> 0 \<Longrightarrow> 0 < r" using ring.room_pos [of "b_history b"] by (auto simp: r_def)
  then show "unat (snd (events_from_seq b from_seq)) + length (fst (events_from_seq b from_seq)) =
      length (filter (\<lambda>e. from_seq \<le> ev_seq e) (b_sent b))"
    using k gap
    by (simp add: events_from_seq_def history_from_seq_def cnt hist seqs filter_upt del: upt_Suc) (auto simp: max_def)
qed

theorem events_from_seq_accounts_witness:
  "let b = publish_all (bus_with_config demo_config) demo_publications in
     unat (snd (events_from_seq b 1)) + length (fst (events_from_seq b 1)) =
       length (filter (\<lambda>e. 1 \<le> ev_seq e) (b_sent b))"
proof -
  have "length demo_publications < 2 ^ 64 - 1" by (simp add: demo_publications_def)
  from events_from_seq_accounts [OF this refl order_refl, of demo_config] show ?thesis
    unfolding Let_def by (rule conjunct2)
qed

text \<open>\<open>recent_filtered\<close> is what its callers expect of it, the newest \<open>count\<close> of the matching events of
  the history, oldest first; an empty filter list matches everything.\<close>

theorem recent_filtered_is_newest_matching:
  "recent_filtered h count filters = newest count (filter (sub_matches filters) (h_buffer h))"
proof (cases "filters = []")
  case True
  then have "filter (sub_matches filters) (h_buffer h) = h_buffer h" by (simp add: sub_matches_def)
  then show ?thesis by (simp add: recent_filtered_def recent_def newest_def True)
next
  case False
  then have "filter (\<lambda>e. list_ex (matches_filter e) filters) es = filter (sub_matches filters) es" for es
    by (auto simp: sub_matches_def intro: filter_cong)
  then show ?thesis using False by (simp add: recent_filtered_def newest_rev rev_filter)
qed

lemma recv_Received:
  "sub_recv filters q = Received x rest \<Longrightarrow>
     \<exists>skipped y. q = map RecvOk skipped @ y # rest \<and> (\<forall>e \<in> set skipped. \<not> sub_matches filters e) \<and>
       ((\<exists>e. x = SubEvent e \<and> y = RecvOk e \<and> sub_matches filters e) \<or> (\<exists>n. x = SubLagged n \<and> y = RecvLagged n))"
proof (induction filters q rule: sub_recv.induct)
  case (2 filters e q)
  show ?case
  proof (cases "sub_matches filters e")
    case True
    with 2 show ?thesis by (auto intro!: exI [of _ "[]"])
  next
    case False
    with 2 obtain sk y where "q = map RecvOk sk @ y # rest" "\<forall>e \<in> set sk. \<not> sub_matches filters e"
      "(\<exists>e. x = SubEvent e \<and> y = RecvOk e \<and> sub_matches filters e) \<or> (\<exists>n. x = SubLagged n \<and> y = RecvLagged n)"
      by auto
    with False show ?thesis by (intro exI [of _ "e # sk"] exI [of _ y]) auto
  qed
qed (auto intro!: exI [of _ "[]"])

lemma recv_Waiting:
  "sub_recv filters q = Waiting \<longleftrightarrow> (\<forall>y \<in> set q. \<exists>e. y = RecvOk e \<and> \<not> sub_matches filters e)"
  by (induction filters q rule: sub_recv.induct) auto

text \<open>a subscriber misses nothing its filters let through.  What one \<open>recv\<close> returns is the first
  matching event or the first lag notice among the receiver's outcomes; it skips only events the
  filters reject, and it waits only when every outcome so far is such an event.\<close>

theorem recv_skips_only_rejected:
  "(\<forall>x rest. sub_recv filters q = Received x rest \<longrightarrow>
      (\<exists>skipped y. q = map RecvOk skipped @ y # rest \<and> (\<forall>e \<in> set skipped. \<not> sub_matches filters e) \<and>
         ((\<exists>e. x = SubEvent e \<and> y = RecvOk e \<and> sub_matches filters e) \<or> (\<exists>n. x = SubLagged n \<and> y = RecvLagged n)))) \<and>
   (sub_recv filters q = Waiting \<longleftrightarrow> (\<forall>y \<in> set q. \<exists>e. y = RecvOk e \<and> \<not> sub_matches filters e))"
  using recv_Received [of filters q] recv_Waiting [of filters q] by blast

theorem recv_skips_only_rejected_witness:
  "\<exists>skipped y. [RecvLagged 4 :: event recv_result] = map RecvOk skipped @ y # []"
  using recv_skips_only_rejected [of "[]" "[RecvLagged 4]"] by simp

text \<open>on a bus that has lost nothing, resuming from sequence number 0 still reports a gap of one:
  numbering starts at 1, and the gap is taken from the oldest number kept.\<close>

theorem from_seq_zero_reports_gap:
  "let b = publish_all (bus_with_config demo_config) [(0, d, None)] in
     length (fst (events_from_seq b 0)) = length (b_sent b) \<and> snd (events_from_seq b 0) = 1"
  by (simp add: Let_def publish_all_def publish_one_def publish_with_correlation_def bus_with_config_def demo_config_def
      history_push_def history_new_def events_from_seq_def history_from_seq_def oldest_seq_def sat_sub64_def ev_seq_def)

end
