(* ===== verification/Graph_State.thy ===== *)
theory Graph_State
  imports Bus
begin

text \<open>
  The state of the session graph and everything its operations share, from
  \<^verbatim>\<open>shux-core/src/graph.rs\<close>: errors, the snapshot and its queries, name rules, the capacity rule
  of a session, committing a snapshot and publishing events.

  What the code takes from other crates is a \<open>host\<close>: the Unicode table behind
  \<open>char::is_alphanumeric\<close>, the lengths \<^verbatim>\<open>serde_json\<close> gives an argument vector and a path, the text
  of a UUID, and the clock that stamps the event with a given number.  Ids an operation draws come
  in a \<open>fresh\<close> record; \<open>NEXT_SESSION_SEQ\<close>, a static in the code, is a field of the graph.
\<close>

section \<open>Hosts, fresh ids, errors\<close>

record host =
  h_alnum :: "rchar \<Rightarrow> bool"
  h_json_argv_len :: "rstring list \<Rightarrow> usize"
  h_json_path_len :: "rstring \<Rightarrow> usize"
  h_show_uuid :: "uuid \<Rightarrow> rstring"
  h_clock :: "u64 \<Rightarrow> system_time"

text \<open>\<open>fr_probe\<close> and \<open>fr_title_probe\<close> are ids drawn for a query on a session that does not exist yet.\<close>

record fresh =
  fr_session :: session_id
  fr_window :: window_id
  fr_pane :: pane_id
  fr_probe :: session_id
  fr_title_probe :: session_id
  fr_now :: system_time

datatype (plugins only: code) graph_error =
    SessionNotFound session_id
  | WindowNotFound window_id
  | PaneNotFound pane_id
  | SessionNameExists rstring
  | EmptySessionName
  | SessionNameTooLong rstring
  | InvalidSessionName rstring
  | VersionConflict rstring rstring version version
  | LastWindow
  | LastPane
  | WindowNameConflict rstring
  | EmptyWindowName
  | WindowNameTooLong rstring
  | NumericWindowName rstring
  | SessionPaneBytes usize usize usize
  | SessionPaneLimit usize
  | WindowIndexOutOfRange usize usize
  | PaneSwapSelf
  | PaneCrossWindow
  | NoNeighbor nav_direction
  | LayoutError rstring
  | GraphShutdown

section \<open>Snapshots\<close>

record snapshot =
  sn_sessions :: "(session_id, session) hashmap"
  sn_windows :: "(window_id, window) hashmap"
  sn_panes :: "(pane_id, pane) hashmap"
  sn_version :: version

definition snapshot_default :: snapshot where
  "snapshot_default = \<lparr>sn_sessions = [], sn_windows = [], sn_panes = [], sn_version = 0\<rparr>"

abbreviation get_session :: "snapshot \<Rightarrow> session_id \<Rightarrow> session option" where
  "get_session sn sid \<equiv> hm_get (sn_sessions sn) sid"

abbreviation get_window :: "snapshot \<Rightarrow> window_id \<Rightarrow> window option" where
  "get_window sn wid \<equiv> hm_get (sn_windows sn) wid"

abbreviation get_pane :: "snapshot \<Rightarrow> pane_id \<Rightarrow> pane option" where
  "get_pane sn pid \<equiv> hm_get (sn_panes sn) pid"

definition find_session_by_name :: "snapshot \<Rightarrow> rstring \<Rightarrow> session option" where
  "find_session_by_name sn name = List.find (\<lambda>s. s_name s = name) (hm_values (sn_sessions sn))"

definition session_windows :: "snapshot \<Rightarrow> session_id \<Rightarrow> window list" where
  "session_windows sn sid =
     (case get_session sn sid of
        None \<Rightarrow> []
      | Some s \<Rightarrow> List.map_filter (\<lambda>wid. get_window sn wid) (s_windows s))"

definition window_panes_of :: "snapshot \<Rightarrow> window_id \<Rightarrow> pane list" where
  "window_panes_of sn wid = filter (\<lambda>p. p_window_id p = wid) (hm_values (sn_panes sn))"

definition session_name_exists :: "snapshot \<Rightarrow> rstring \<Rightarrow> bool" where
  "session_name_exists sn name \<longleftrightarrow> list_ex (\<lambda>s. s_name s = name) (hm_values (sn_sessions sn))"

definition find_window_by_name :: "snapshot \<Rightarrow> session_id \<Rightarrow> rstring \<Rightarrow> window option" where
  "find_window_by_name sn sid name =
     (case get_session sn sid of
        None \<Rightarrow> None
      | Some s \<Rightarrow>
          let name = sanitize_title name
          in List.find (\<lambda>w. w_title w = name) (List.map_filter (\<lambda>wid. get_window sn wid) (s_windows s)))"

definition window_name_exists_in_session :: "snapshot \<Rightarrow> session_id \<Rightarrow> rstring \<Rightarrow> bool" where
  "window_name_exists_in_session sn sid name \<longleftrightarrow> find_window_by_name sn sid name \<noteq> None"

section \<open>Names\<close>

definition validate_session_name :: "host \<Rightarrow> rstring \<Rightarrow> (unit, graph_error) result" where
  "validate_session_name h name =
     (if name = [] then Err EmptySessionName
      else if 128 < length name then Err (SessionNameTooLong name)
      else if \<not> list_all (\<lambda>c. h_alnum h c \<or> c = 45 \<or> c = 95 \<or> c = 46) name then Err (InvalidSessionName name)
      else Ok ())"

definition MAX_WINDOW_TITLE_CHARS :: nat where "MAX_WINDOW_TITLE_CHARS = 128"

definition validate_window_title :: "rstring \<Rightarrow> (rstring, graph_error) result" where
  "validate_window_title raw =
     (let cleaned = sanitize_title raw
      in if cleaned = [] then Err EmptyWindowName
         else if MAX_WINDOW_TITLE_CHARS < length cleaned then Err (WindowNameTooLong cleaned)
         else if is_window_number cleaned then Err (NumericWindowName cleaned)
         else Ok cleaned)"

definition check_window_title :: "rstring \<Rightarrow> (rstring, graph_error) result" where
  "check_window_title raw = validate_window_title raw"

text \<open>
  The search for a free name, \<open>base-n\<close> from \<open>n\<close> on among the titles of a session.  Distinct numbers
  give distinct titles, so it ends.
\<close>

lemma free_search_step:
  assumes "inj c" "c n \<in> set taken"
  shows "card {m. Suc n \<le> m \<and> c m \<in> set taken} < card {m. n \<le> m \<and> c m \<in> set taken}"
proof (rule psubset_card_mono)
  have "finite (c -` set taken)" using assms(1) by (intro finite_vimageI) auto
  then show "finite {m. n \<le> m \<and> c m \<in> set taken}" by (rule rev_finite_subset) auto
  have "n \<in> {m. n \<le> m \<and> c m \<in> set taken}" "n \<notin> {m. Suc n \<le> m \<and> c m \<in> set taken}" using assms(2) by auto
  moreover have "{m. Suc n \<le> m \<and> c m \<in> set taken} \<subseteq> {m. n \<le> m \<and> c m \<in> set taken}" by auto
  ultimately show "{m. Suc n \<le> m \<and> c m \<in> set taken} \<subset> {m. n \<le> m \<and> c m \<in> set taken}" by blast
qed

definition numbered :: "rstring \<Rightarrow> nat \<Rightarrow> rstring" where
  "numbered base n = base @ ascii ''-'' @ decimal n"

lemma digit_plain: "c \<in> set (decimal n) \<Longrightarrow> \<not> is_whitespace c \<and> \<not> is_title_hostile c"
  using decimal_digits [of c n] by (auto simp: char_class_defs)

lemma sanitize_numbered:
  "sanitize_title (numbered base n) =
     dropWhile is_whitespace (filter (\<lambda>c. \<not> is_title_hostile c) base) @ 45 # decimal n"
proof -
  let ?b = "filter (\<lambda>c. \<not> is_title_hostile c) base"
  have dash: "\<not> is_whitespace 45" "\<not> is_title_hostile 45" by (simp_all add: char_class_defs)
  have dec: "filter (\<lambda>c. \<not> is_title_hostile c) (decimal n) = decimal n"
    using digit_plain by (auto simp: filter_id_conv)
  have f: "filter (\<lambda>c. \<not> is_title_hostile c) (numbered base n) = ?b @ 45 # decimal n"
    using dash(2) dec by (simp add: numbered_def)
  have d: "dropWhile is_whitespace (?b @ 45 # decimal n) = dropWhile is_whitespace ?b @ 45 # decimal n"
  proof (cases "\<forall>c \<in> set ?b. is_whitespace c")
    case True
    then have "dropWhile is_whitespace ?b = []" by (simp add: dropWhile_eq_Nil_conv)
    then show ?thesis using True dash(1) by (subst dropWhile_append2) auto
  next
    case False
    then obtain x where "x \<in> set ?b" "\<not> is_whitespace x" by blast
    then show ?thesis by (rule dropWhile_append1)
  qed
  have "rev (decimal n) \<noteq> []" by simp
  then obtain c cs where c: "rev (decimal n) = c # cs" by (cases "rev (decimal n)") auto
  then have "c \<in> set (decimal n)" by (metis list.set_intros(1) set_rev)
  then have "\<not> is_whitespace c" using digit_plain by blast
  then have "dropWhile is_whitespace (rev (xs @ 45 # decimal n)) = rev (xs @ 45 # decimal n)" for xs
    using c by simp
  then show ?thesis by (simp add: sanitize_title_def trim_def trim_by_def f d)
qed

lemma numbered_inj: "inj (\<lambda>n. sanitize_title (numbered base n))"
  by (rule injI) (simp add: sanitize_numbered)

function free_title :: "rstring list \<Rightarrow> rstring \<Rightarrow> nat \<Rightarrow> rstring" where
  "free_title taken base n =
     (if sanitize_title (numbered base n) \<in> set taken then free_title taken base (Suc n) else numbered base n)"
  by pat_completeness auto
termination
  by (relation "measure (\<lambda>(taken, base, n). card {m. n \<le> m \<and> sanitize_title (numbered base m) \<in> set taken})")
     (auto intro!: free_search_step [OF numbered_inj])

declare free_title.simps [simp del]

definition default_window_title :: "snapshot \<Rightarrow> session_id \<Rightarrow> rstring list \<Rightarrow> rstring \<Rightarrow> rstring" where
  "default_window_title sn sid command cwd =
     (let pane_title = p_title (pane_with_command (PaneId 0) (WindowId 0) cwd command);
          base = (case validate_window_title pane_title of Ok t \<Rightarrow> t | Err _ \<Rightarrow> ascii ''window'')
      in if \<not> window_name_exists_in_session sn sid base then base
         else free_title (map w_title (session_windows sn sid)) base 2)"

section \<open>Capacity\<close>

definition MAX_PANES_PER_SESSION :: nat where "MAX_PANES_PER_SESSION = 1024"
definition MAX_SESSION_PANE_BYTES :: nat where "MAX_SESSION_PANE_BYTES = 4 * 1024 * 1024"

definition pane_bytes :: "host \<Rightarrow> rstring list \<Rightarrow> rstring \<Rightarrow> usize" where
  "pane_bytes h command cwd = sat_add_usize (h_json_argv_len h command) (h_json_path_len h cwd)"

definition session_panes :: "snapshot \<Rightarrow> session_id \<Rightarrow> pane list" where
  "session_panes sn sid =
     filter (\<lambda>p. map_option w_session_id (get_window sn (p_window_id p)) = Some sid) (hm_values (sn_panes sn))"

definition used_bytes :: "host \<Rightarrow> pane list \<Rightarrow> usize" where
  "used_bytes h ps = foldl (\<lambda>b p. sat_add_usize b (pane_bytes h (p_command p) (p_cwd p))) 0 ps"

definition check_session_capacity ::
  "host \<Rightarrow> snapshot \<Rightarrow> session_id \<Rightarrow> rstring list \<Rightarrow> rstring \<Rightarrow> (unit, graph_error) result" where
  "check_session_capacity h sn sid command cwd =
     (let ps = session_panes sn sid; count = length ps; used = used_bytes h ps
      in if MAX_PANES_PER_SESSION \<le> count then Err (SessionPaneLimit MAX_PANES_PER_SESSION)
         else let adding = pane_bytes h command cwd
              in if MAX_SESSION_PANE_BYTES < sat_add_usize used adding
                 then Err (SessionPaneBytes used adding MAX_SESSION_PANE_BYTES)
                 else Ok ())"

section \<open>The graph\<close>

record pane_status_update =
  su_generation :: u64
  su_enabled :: bool
  su_summary :: "status_summary option"
  su_seen :: bool

record graph =
  g_state :: snapshot
  g_status_generations :: "(pane_id, u64) hashmap"
  g_pty_owners :: "(pane_id, u64) hashmap"
  g_event_bus :: "event_bus option"
  g_next_session_seq :: u64

definition graph_new :: "event_bus option \<Rightarrow> graph" where
  "graph_new bus =
     \<lparr>g_state = snapshot_default, g_status_generations = [], g_pty_owners = [], g_event_bus = bus,
      g_next_session_seq = 1\<rparr>"

definition fire :: "host \<Rightarrow> graph \<Rightarrow> event_data \<Rightarrow> graph" where
  "fire h g d =
     (case g_event_bus g of
        None \<Rightarrow> g
      | Some b \<Rightarrow> g\<lparr>g_event_bus := Some (fst (publish b (h_clock h (b_seq_counter b)) d))\<rparr>)"

definition fire_with_correlation :: "host \<Rightarrow> graph \<Rightarrow> event_data \<Rightarrow> rstring \<Rightarrow> graph \<times> u64" where
  "fire_with_correlation h g d correlation_id =
     (case g_event_bus g of
        None \<Rightarrow> (g, 0)
      | Some b \<Rightarrow>
          let (b', seq) = publish_with_correlation b (h_clock h (b_seq_counter b)) d (Some correlation_id)
          in (g\<lparr>g_event_bus := Some b'\<rparr>, seq))"

definition commit_snapshot :: "graph \<Rightarrow> snapshot \<Rightarrow> graph" where
  "commit_snapshot g sn =
     g\<lparr>g_pty_owners := hm_retain (hm_contains (sn_panes sn)) (g_pty_owners g),
       g_status_generations := hm_retain (hm_contains (sn_panes sn)) (g_status_generations g),
       g_state := sn\<rparr>"

text \<open>Every successful mutation: commit once, then publish its events in order.\<close>

definition commit_and_fire :: "host \<Rightarrow> graph \<Rightarrow> snapshot \<Rightarrow> event_data list \<Rightarrow> graph" where
  "commit_and_fire h g sn evs = foldl (fire h) (commit_snapshot g sn) evs"

definition zoomed_pane :: "window_layout \<Rightarrow> pane_id option" where
  "zoomed_pane l = map_option zoomed_pane_of (wl_zoom l)"

definition unzoom_events :: "pane_id option \<Rightarrow> window_id \<Rightarrow> session_id \<Rightarrow> event_data list" where
  "unzoom_events unzoomed wid sid = (case unzoomed of None \<Rightarrow> [] | Some pid \<Rightarrow> [PaneZoomed pid wid sid False])"

definition version_conflict :: "host \<Rightarrow> string \<Rightarrow> uuid \<Rightarrow> version option \<Rightarrow> version \<Rightarrow> graph_error option" where
  "version_conflict h resource u expected_version actual =
     (case expected_version of
        None \<Rightarrow> None
      | Some ev \<Rightarrow> if actual \<noteq> ev then Some (VersionConflict (ascii resource) (h_show_uuid h u) ev actual) else None)"

section \<open>Lemmas\<close>

lemma fire_state [simp]:
  "g_state (fire h g d) = g_state g" "g_pty_owners (fire h g d) = g_pty_owners g"
  "g_status_generations (fire h g d) = g_status_generations g" "g_next_session_seq (fire h g d) = g_next_session_seq g"
  by (auto simp: fire_def split: option.splits)

lemma fold_fire_state [simp]:
  "g_state (foldl (fire h) g ds) = g_state g" "g_pty_owners (foldl (fire h) g ds) = g_pty_owners g"
  "g_status_generations (foldl (fire h) g ds) = g_status_generations g"
  "g_next_session_seq (foldl (fire h) g ds) = g_next_session_seq g"
  by (induction ds arbitrary: g) auto

lemma commit_snapshot_facts [simp]:
  "g_state (commit_snapshot g sn) = sn" "g_event_bus (commit_snapshot g sn) = g_event_bus g"
  "g_next_session_seq (commit_snapshot g sn) = g_next_session_seq g"
  "g_pty_owners (commit_snapshot g sn) = hm_retain (hm_contains (sn_panes sn)) (g_pty_owners g)"
  "g_status_generations (commit_snapshot g sn) = hm_retain (hm_contains (sn_panes sn)) (g_status_generations g)"
  by (simp_all add: commit_snapshot_def)

lemma commit_and_fire_facts [simp]:
  "g_state (commit_and_fire h g sn evs) = sn" "g_next_session_seq (commit_and_fire h g sn evs) = g_next_session_seq g"
  "g_pty_owners (commit_and_fire h g sn evs) = hm_retain (hm_contains (sn_panes sn)) (g_pty_owners g)"
  "g_status_generations (commit_and_fire h g sn evs) = hm_retain (hm_contains (sn_panes sn)) (g_status_generations g)"
  by (simp_all add: commit_and_fire_def)

text \<open>What an operation has published: the payloads of the events on the bus.\<close>

definition published :: "graph \<Rightarrow> event_data list" where
  "published g = (case g_event_bus g of None \<Rightarrow> [] | Some b \<Rightarrow> map ev_data (b_sent b))"

definition has_bus :: "graph \<Rightarrow> bool" where
  "has_bus g \<longleftrightarrow> g_event_bus g \<noteq> None"

lemma fire_published: "published (fire h g d) = published g @ (if has_bus g then [d] else [])" "has_bus (fire h g d) = has_bus g"
  by (auto simp: fire_def published_def has_bus_def publish_def publish_with_correlation_def Let_def split: option.splits)

lemma fold_fire_published:
  "published (foldl (fire h) g ds) = published g @ (if has_bus g then ds else [])" "has_bus (foldl (fire h) g ds) = has_bus g"
  by (induction ds arbitrary: g) (auto simp: fire_published)

lemma commit_published [simp]: "published (commit_snapshot g sn) = published g" "has_bus (commit_snapshot g sn) = has_bus g"
  by (simp_all add: published_def has_bus_def)

lemma commit_and_fire_published:
  "published (commit_and_fire h g sn evs) = published g @ (if has_bus g then evs else [])"
  by (simp add: commit_and_fire_def fold_fire_published)

lemma map_filter_set: "y \<in> set (List.map_filter f xs) \<longleftrightarrow> (\<exists>x \<in> set xs. f x = Some y)"
  by (force simp: List.map_filter_def split: option.splits)

lemma window_name_exists_iff:
  "window_name_exists_in_session sn sid name \<longleftrightarrow> sanitize_title name \<in> set (map w_title (session_windows sn sid))"
proof (cases "get_session sn sid")
  case (Some s)
  let ?ws = "List.map_filter (get_window sn) (s_windows s)"
  have "List.find (\<lambda>w. w_title w = sanitize_title name) ?ws \<noteq> None \<longleftrightarrow> (\<exists>w \<in> set ?ws. w_title w = sanitize_title name)"
    unfolding find_None_all by blast
  also have "\<dots> \<longleftrightarrow> sanitize_title name \<in> set (map w_title ?ws)" by force
  finally show ?thesis
    using Some by (simp add: window_name_exists_in_session_def find_window_by_name_def session_windows_def Let_def)
qed (simp add: window_name_exists_in_session_def find_window_by_name_def session_windows_def)

lemma free_title_fresh: "sanitize_title (free_title taken base n) \<notin> set taken \<and> (\<exists>m \<ge> n. free_title taken base n = numbered base m)"
proof (induction taken base n rule: free_title.induct)
  case (1 taken base n)
  show ?case
  proof (cases "sanitize_title (numbered base n) \<in> set taken")
    case True
    with 1 have IH: "sanitize_title (free_title taken base (Suc n)) \<notin> set taken"
      "\<exists>m \<ge> Suc n. free_title taken base (Suc n) = numbered base m" by auto
    have "free_title taken base n = free_title taken base (Suc n)" using True by (subst free_title.simps) simp
    with IH show ?thesis by (metis Suc_leD)
  next
    case False
    then show ?thesis by (subst free_title.simps, subst free_title.simps) auto
  qed
qed

end
