(* ===== verification/Graph_Ops.thy ===== *)
theory Graph_Ops
  imports Graph_State
begin

text \<open>
  The mutations of \<open>SessionGraph\<close> in \<^verbatim>\<open>shux-core/src/graph.rs\<close>, one definition per method.  Each
  takes the host, the ids it may draw and the graph, and gives the reply with the graph after it.
  The order of the checks, the point of commit and the order of the events are those of the code.
\<close>

section \<open>Helpers\<close>

type_synonym 'a reply = "('a, graph_error) result \<times> graph"

abbreviation touch :: "snapshot \<Rightarrow> snapshot" where
  "touch sn \<equiv> sn\<lparr>sn_version := sn_version sn + 1\<rparr>"

definition bump_session :: "session \<Rightarrow> session" where
  "bump_session s = s\<lparr>s_version := s_version s + 1\<rparr>"

definition bump_window :: "window \<Rightarrow> window" where
  "bump_window w = w\<lparr>w_version := w_version w + 1\<rparr>"

definition bump_pane :: "pane \<Rightarrow> pane" where
  "bump_pane p = p\<lparr>p_version := p_version p + 1\<rparr>"

definition on_session :: "session_id \<Rightarrow> (session \<Rightarrow> session) \<Rightarrow> snapshot \<Rightarrow> snapshot" where
  "on_session sid f sn = sn\<lparr>sn_sessions := hm_modify sid (\<lambda>s. bump_session (f s)) (sn_sessions sn)\<rparr>"

definition on_window :: "window_id \<Rightarrow> (window \<Rightarrow> window) \<Rightarrow> snapshot \<Rightarrow> snapshot" where
  "on_window wid f sn = sn\<lparr>sn_windows := hm_modify wid (\<lambda>w. bump_window (f w)) (sn_windows sn)\<rparr>"

definition on_pane :: "pane_id \<Rightarrow> (pane \<Rightarrow> pane) \<Rightarrow> snapshot \<Rightarrow> snapshot" where
  "on_pane pid f sn = sn\<lparr>sn_panes := hm_modify pid (\<lambda>p. bump_pane (f p)) (sn_panes sn)\<rparr>"

text \<open>The loop that bumps every pane of a window after a layout change.\<close>

definition bump_window_panes :: "window_id \<Rightarrow> snapshot \<Rightarrow> snapshot" where
  "bump_window_panes wid sn =
     sn\<lparr>sn_panes := fold (\<lambda>pid. hm_modify pid bump_pane) (map p_id (window_panes_of sn wid)) (sn_panes sn)\<rparr>"

definition new_pane :: "pane_id \<Rightarrow> window_id \<Rightarrow> rstring \<Rightarrow> rstring list \<Rightarrow> pane" where
  "new_pane pid wid cwd command =
     (if command = [] then pane_new pid wid cwd else pane_with_command pid wid cwd command)"

text \<open>The cast \<open>as u32\<close>.\<close>

definition as_u32 :: "usize \<Rightarrow> nat" where
  "as_u32 n = n mod 2 ^ 32"

section \<open>Sessions\<close>

definition create_session_with_command ::
  "host \<Rightarrow> fresh \<Rightarrow> graph \<Rightarrow> rstring \<Rightarrow> rstring \<Rightarrow> rstring list \<Rightarrow> session_id reply" where
  "create_session_with_command h f g name cwd command =
     (case validate_session_name h name of
        Err e \<Rightarrow> (Err e, g)
      | Ok _ \<Rightarrow>
          let current = g_state g
          in if session_name_exists current name then (Err (SessionNameExists name), g)
             else case check_session_capacity h current (fr_probe f) command cwd of
                    Err e \<Rightarrow> (Err e, g)
                  | Ok _ \<Rightarrow>
                      let pid = fr_pane f; wid = fr_window f; sid = fr_session f;
                          pane = new_pane pid wid cwd command;
                          title = default_window_title current (fr_title_probe f) command (p_cwd pane);
                          window = window_new wid sid title pid;
                          session = session_new sid (fr_now f) (g_next_session_seq g) name wid;
                          sn = (touch current)
                                 \<lparr>sn_panes := hm_insert pid pane (sn_panes current),
                                  sn_windows := hm_insert wid window (sn_windows current),
                                  sn_sessions := hm_insert sid session (sn_sessions current)\<rparr>
                      in (Ok sid,
                          commit_and_fire h (g\<lparr>g_next_session_seq := g_next_session_seq g + 1\<rparr>) sn
                            [SessionCreated sid name, WindowCreated wid sid title 1, PaneCreated pid wid sid command]))"

definition create_session :: "host \<Rightarrow> fresh \<Rightarrow> graph \<Rightarrow> rstring \<Rightarrow> rstring \<Rightarrow> session_id reply" where
  "create_session h f g name cwd = create_session_with_command h f g name cwd []"

definition destroy_session :: "host \<Rightarrow> graph \<Rightarrow> session_id \<Rightarrow> version option \<Rightarrow> unit reply" where
  "destroy_session h g sid expected_version =
     (let current = g_state g
      in case get_session current sid of
           None \<Rightarrow> (Err (SessionNotFound sid), g)
         | Some session \<Rightarrow>
             (case version_conflict h ''session'' (session_uuid sid) expected_version (s_version session) of
                Some e \<Rightarrow> (Err e, g)
              | None \<Rightarrow>
                  let killed_name = s_name session;
                      window_ids = s_windows session;
                      panes_to_kill =
                        map (\<lambda>p. (p_id p, p_window_id p, p_command p))
                          (filter (\<lambda>p. p_window_id p \<in> set window_ids) (hm_values (sn_panes current)));
                      sn = (touch current)
                             \<lparr>sn_panes := fold hm_remove (map fst panes_to_kill) (sn_panes current),
                              sn_windows := fold hm_remove window_ids (sn_windows current),
                              sn_sessions := hm_remove sid (sn_sessions current)\<rparr>
                  in (Ok (),
                      commit_and_fire h g sn
                        (map (\<lambda>(pid, wid, command). PaneExited pid wid sid None None False command) panes_to_kill
                         @ map (\<lambda>wid. WindowKilled wid sid) window_ids
                         @ [SessionKilled sid killed_name]))))"

definition rename_session ::
  "host \<Rightarrow> graph \<Rightarrow> session_id \<Rightarrow> rstring \<Rightarrow> version option \<Rightarrow> unit reply" where
  "rename_session h g sid new_name expected_version =
     (case validate_session_name h new_name of
        Err e \<Rightarrow> (Err e, g)
      | Ok _ \<Rightarrow>
          let current = g_state g
          in case get_session current sid of
               None \<Rightarrow> (Err (SessionNotFound sid), g)
             | Some session \<Rightarrow>
                 (case version_conflict h ''session'' (session_uuid sid) expected_version (s_version session) of
                    Some e \<Rightarrow> (Err e, g)
                  | None \<Rightarrow>
                      if session_name_exists current new_name then (Err (SessionNameExists new_name), g)
                      else (Ok (),
                            commit_and_fire h g (on_session sid (\<lambda>s. s\<lparr>s_name := new_name\<rparr>) (touch current))
                              [SessionRenamed sid (s_name session) new_name])))"

section \<open>Windows\<close>

definition create_window_with_command ::
  "host \<Rightarrow> fresh \<Rightarrow> graph \<Rightarrow> session_id \<Rightarrow> rstring \<Rightarrow> rstring \<Rightarrow> rstring list \<Rightarrow> window_id reply" where
  "create_window_with_command h f g sid title cwd command =
     (case validate_window_title title of
        Err e \<Rightarrow> (Err e, g)
      | Ok title \<Rightarrow>
          let current = g_state g
          in if \<not> hm_contains (sn_sessions current) sid then (Err (SessionNotFound sid), g)
             else if window_name_exists_in_session current sid title then (Err (WindowNameConflict title), g)
             else case check_session_capacity h current sid command cwd of
                    Err e \<Rightarrow> (Err e, g)
                  | Ok _ \<Rightarrow>
                      let pid = fr_pane f; wid = fr_window f;
                          sn = (touch current)
                                 \<lparr>sn_panes := hm_insert pid (new_pane pid wid cwd command) (sn_panes current),
                                  sn_windows := hm_insert wid (window_new wid sid title pid) (sn_windows current)\<rparr>;
                          sn' = on_session sid (\<lambda>s. s\<lparr>s_windows := s_windows s @ [wid], s_active_window := wid\<rparr>) sn;
                          event_index = (case get_session sn' sid of None \<Rightarrow> 0 | Some s \<Rightarrow> as_u32 (length (s_windows s)))
                      in (Ok wid,
                          commit_and_fire h g sn'
                            [WindowCreated wid sid title event_index, PaneCreated pid wid sid command]))"

definition create_window :: "host \<Rightarrow> fresh \<Rightarrow> graph \<Rightarrow> session_id \<Rightarrow> rstring \<Rightarrow> rstring \<Rightarrow> window_id reply" where
  "create_window h f g sid title cwd = create_window_with_command h f g sid title cwd []"

definition destroy_window :: "host \<Rightarrow> graph \<Rightarrow> window_id \<Rightarrow> version option \<Rightarrow> unit reply" where
  "destroy_window h g wid expected_version =
     (let current = g_state g
      in case get_window current wid of
           None \<Rightarrow> (Err (WindowNotFound wid), g)
         | Some window \<Rightarrow>
             (case version_conflict h ''window'' (window_uuid wid) expected_version (w_version window) of
                Some e \<Rightarrow> (Err e, g)
              | None \<Rightarrow>
                  let sid = w_session_id window
                  in case get_session current sid of
                       None \<Rightarrow> (Err (SessionNotFound sid), g)
                     | Some session \<Rightarrow>
                         if length (s_windows session) \<le> 1 then (Err LastWindow, g)
                         else
                           let panes_to_kill =
                                 map (\<lambda>p. (p_id p, p_command p)) (window_panes_of current wid);
                               sn = (touch current)
                                      \<lparr>sn_panes := fold hm_remove (map fst panes_to_kill) (sn_panes current)\<rparr>;
                               sn' = on_session sid
                                       (\<lambda>s. let ws = filter (\<lambda>w. w \<noteq> wid) (s_windows s)
                                            in s\<lparr>s_windows := ws,
                                                 s_active_window :=
                                                   (if s_active_window s = wid then ws ! 0 else s_active_window s)\<rparr>) sn
                           in (Ok (),
                               commit_and_fire h g (sn'\<lparr>sn_windows := hm_remove wid (sn_windows sn')\<rparr>)
                                 (map (\<lambda>(pid, command). PaneExited pid wid sid None None False command) panes_to_kill
                                  @ [WindowKilled wid sid]))))"

definition rename_window :: "host \<Rightarrow> graph \<Rightarrow> window_id \<Rightarrow> rstring \<Rightarrow> version option \<Rightarrow> unit reply" where
  "rename_window h g wid new_title expected_version =
     (case validate_window_title new_title of
        Err e \<Rightarrow> (Err e, g)
      | Ok new_title \<Rightarrow>
          let current = g_state g
          in case get_window current wid of
               None \<Rightarrow> (Err (WindowNotFound wid), g)
             | Some window \<Rightarrow>
                 (case version_conflict h ''window'' (window_uuid wid) expected_version (w_version window) of
                    Some e \<Rightarrow> (Err e, g)
                  | None \<Rightarrow>
                      let sid = w_session_id window
                      in case get_session current sid of
                           None \<Rightarrow> (Err (SessionNotFound sid), g)
                         | Some session \<Rightarrow>
                             if list_ex (\<lambda>w. w \<noteq> wid \<and>
                                  (case get_window current w of None \<Rightarrow> False | Some x \<Rightarrow> w_title x = new_title))
                                  (s_windows session)
                             then (Err (WindowNameConflict new_title), g)
                             else (Ok (),
                                   commit_and_fire h g (on_window wid (\<lambda>w. w\<lparr>w_title := new_title\<rparr>) (touch current))
                                     [WindowRenamed wid sid (w_title window) new_title])))"

definition focus_window :: "host \<Rightarrow> graph \<Rightarrow> window_id \<Rightarrow> version option \<Rightarrow> window_id option reply" where
  "focus_window h g wid expected_version =
     (let current = g_state g
      in case get_window current wid of
           None \<Rightarrow> (Err (WindowNotFound wid), g)
         | Some window \<Rightarrow>
             (case version_conflict h ''window'' (window_uuid wid) expected_version (w_version window) of
                Some e \<Rightarrow> (Err e, g)
              | None \<Rightarrow>
                  let sid = w_session_id window
                  in case get_session current sid of
                       None \<Rightarrow> (Err (SessionNotFound sid), g)
                     | Some session \<Rightarrow>
                         if wid \<notin> set (s_windows session) then (Err (WindowNotFound wid), g)
                         else
                           let previous = (if s_active_window session \<noteq> wid then Some (s_active_window session) else None)
                           in (Ok previous,
                               commit_and_fire h g
                                 (on_session sid (\<lambda>s. s\<lparr>s_active_window := wid\<rparr>) (touch current)) [])))"

definition move_to :: "'a \<Rightarrow> nat \<Rightarrow> nat \<Rightarrow> 'a list \<Rightarrow> 'a list" where
  "move_to x from to xs =
     (let ys = take from xs @ drop (Suc from) xs in take to ys @ x # drop to ys)"

definition reorder_window :: "host \<Rightarrow> graph \<Rightarrow> window_id \<Rightarrow> usize \<Rightarrow> version option \<Rightarrow> unit reply" where
  "reorder_window h g wid new_index expected_version =
     (let current = g_state g
      in case get_window current wid of
           None \<Rightarrow> (Err (WindowNotFound wid), g)
         | Some window \<Rightarrow>
             (case version_conflict h ''window'' (window_uuid wid) expected_version (w_version window) of
                Some e \<Rightarrow> (Err e, g)
              | None \<Rightarrow>
                  let sid = w_session_id window
                  in case get_session current sid of
                       None \<Rightarrow> (Err (SessionNotFound sid), g)
                     | Some session \<Rightarrow>
                         let window_count = length (s_windows session)
                         in if window_count \<le> new_index then (Err (WindowIndexOutOfRange new_index window_count), g)
                            else
                              let sn = (case position (\<lambda>w. w = wid) (s_windows session) of
                                          None \<Rightarrow> touch current
                                        | Some i \<Rightarrow> on_session sid (\<lambda>s. s\<lparr>s_windows := move_to wid i new_index (s_windows s)\<rparr>)
                                                     (touch current))
                              in (Ok (), commit_and_fire h g sn [])))"

section \<open>Panes\<close>

definition create_pane ::
  "host \<Rightarrow> fresh \<Rightarrow> graph \<Rightarrow> window_id \<Rightarrow> rstring \<Rightarrow> rstring list \<Rightarrow> pane_id reply" where
  "create_pane h f g wid cwd command =
     (let current = g_state g
      in case get_window current wid of
           None \<Rightarrow> (Err (WindowNotFound wid), g)
         | Some window \<Rightarrow>
             (case check_session_capacity h current (w_session_id window) command cwd of
                Err e \<Rightarrow> (Err e, g)
              | Ok _ \<Rightarrow>
                  let pid = fr_pane f;
                      sn = (touch current)\<lparr>sn_panes := hm_insert pid (new_pane pid wid cwd command) (sn_panes current)\<rparr>
                  in (Ok pid, commit_and_fire h g sn [PaneCreated pid wid (w_session_id window) command])))"

text \<open>What \<open>destroy_pane\<close> does to the window: take the pane out of the layout and hand focus on.\<close>

definition refocus_after :: "pane_id \<Rightarrow> window_id \<Rightarrow> (pane_id, pane) hashmap \<Rightarrow> window \<Rightarrow> window" where
  "refocus_after pid wid panes w =
     (let w = w\<lparr>w_layout := fst (wl_remove_pane (w_layout w) pid)\<rparr>
      in if w_active_pane w = pid then
           (case (case pane_ids (wl_tree (w_layout w)) of
                    x # _ \<Rightarrow> Some x
                  | [] \<Rightarrow> map_option p_id (List.find (\<lambda>p. p_window_id p = wid) (hm_values panes))) of
              Some active \<Rightarrow> w\<lparr>w_active_pane := active\<rparr>
            | None \<Rightarrow> w)
         else w)"

definition destroy_pane :: "host \<Rightarrow> graph \<Rightarrow> pane_id \<Rightarrow> version option \<Rightarrow> unit reply" where
  "destroy_pane h g pid expected_version =
     (let current = g_state g
      in case get_pane current pid of
           None \<Rightarrow> (Err (PaneNotFound pid), g)
         | Some pane \<Rightarrow>
             (case version_conflict h ''pane'' (pane_uuid pid) expected_version (p_version pane) of
                Some e \<Rightarrow> (Err e, g)
              | None \<Rightarrow>
                  let wid = p_window_id pane
                  in if length (window_panes_of current wid) \<le> 1 then (Err LastPane, g)
                     else case get_window current wid of
                            None \<Rightarrow> (Err (WindowNotFound wid), g)
                          | Some window \<Rightarrow>
                              let sid = w_session_id window;
                                  unzoomed = zoomed_pane (w_layout window);
                                  panes = hm_remove pid (sn_panes current)
                              in (Ok (),
                                  commit_and_fire h g (on_window wid (refocus_after pid wid panes) ((touch current)\<lparr>sn_panes := panes\<rparr>))
                                    (unzoom_events unzoomed wid sid
                                     @ [PaneExited pid wid sid None None False (p_command pane)]))))"

definition find_pane_window :: "graph \<Rightarrow> pane_id \<Rightarrow> (snapshot \<times> window_id, graph_error) result" where
  "find_pane_window g pid =
     (case get_pane (g_state g) pid of
        None \<Rightarrow> Err (PaneNotFound pid)
      | Some pane \<Rightarrow> Ok (g_state g, p_window_id pane))"

definition destroy_pane_and_empty_parents :: "host \<Rightarrow> graph \<Rightarrow> pane_id \<Rightarrow> unit reply" where
  "destroy_pane_and_empty_parents h g pid =
     (let (r, g) = destroy_pane h g pid None
      in if r \<noteq> Err LastPane then (r, g)
         else case find_pane_window g pid of
                Err e \<Rightarrow> (Err e, g)
              | Ok (current, wid) \<Rightarrow>
                  (case get_window current wid of
                     None \<Rightarrow> (Err (WindowNotFound wid), g)
                   | Some window \<Rightarrow>
                       let (r, g) = destroy_window h g wid None
                       in if r \<noteq> Err LastWindow then (r, g) else destroy_session h g (w_session_id window) None))"

definition claim_pane_pty :: "host \<Rightarrow> graph \<Rightarrow> pane_id \<Rightarrow> u64 \<Rightarrow> bool reply" where
  "claim_pane_pty h g pid incarnation =
     (let current = g_state g
      in case get_pane current pid of
           None \<Rightarrow> (Err (PaneNotFound pid), g)
         | Some pane \<Rightarrow>
             if (case hm_get (g_pty_owners g) pid of None \<Rightarrow> False | Some owner \<Rightarrow> incarnation < owner)
             then (Ok False, g)
             else
               let g = g\<lparr>g_pty_owners := hm_insert pid incarnation (g_pty_owners g)\<rparr>
               in if p_exit_status pane = None then (Ok True, g)
                  else let wid = p_window_id pane
                       in case get_window current wid of
                            None \<Rightarrow> (Err (WindowNotFound wid), g)
                          | Some window \<Rightarrow>
                              (Ok True,
                               commit_and_fire h g
                                 (on_pane pid (\<lambda>p. p\<lparr>p_exit_status := None, p_exit_signal := None, p_exit_by_shux := False\<rparr>)
                                    (touch current))
                                 [PaneRespawned pid wid (w_session_id window) (p_command pane)]))"

definition set_pane_exit :: "host \<Rightarrow> graph \<Rightarrow> pane_id \<Rightarrow> program_exit \<Rightarrow> unit reply" where
  "set_pane_exit h g pid ex =
     (let current = g_state g
      in case get_pane current pid of
           None \<Rightarrow> (Err (PaneNotFound pid), g)
         | Some pane \<Rightarrow>
             let wid = p_window_id pane
             in case get_window current wid of
                  None \<Rightarrow> (Err (WindowNotFound wid), g)
                | Some window \<Rightarrow>
                    (Ok (),
                     commit_and_fire h g
                       (on_pane pid (\<lambda>p. p\<lparr>p_exit_status := Some (x_status ex), p_exit_signal := x_signal ex,
                                          p_exit_by_shux := x_by_shux ex\<rparr>) (touch current))
                       [PaneExited pid wid (w_session_id window) (Some (x_status ex)) (x_signal ex) (x_by_shux ex)
                          (p_command pane)]))"

definition set_pane_exit_status :: "host \<Rightarrow> graph \<Rightarrow> pane_id \<Rightarrow> int \<Rightarrow> unit reply" where
  "set_pane_exit_status h g pid exit_status = set_pane_exit h g pid (program_exit_code exit_status)"

definition set_pane_program_status :: "host \<Rightarrow> graph \<Rightarrow> pane_id \<Rightarrow> pane_status_update \<Rightarrow> unit reply" where
  "set_pane_program_status h g pid status =
     (let current = g_state g
      in case get_pane current pid of
           None \<Rightarrow> (Err (PaneNotFound pid), g)
         | Some pane \<Rightarrow>
             if p_exit_status pane \<noteq> None then (Ok (), g)
             else let wid = p_window_id pane
                  in case get_window current wid of
                       None \<Rightarrow> (Err (WindowNotFound wid), g)
                     | Some window \<Rightarrow>
                         let gens = g_status_generations g;
                             seen_gen = (case hm_get gens pid of None \<Rightarrow> 0 | Some n \<Rightarrow> n);
                             gens = hm_insert pid seen_gen gens
                         in if su_generation status \<le> seen_gen then (Ok (), g\<lparr>g_status_generations := gens\<rparr>)
                            else
                              let g = g\<lparr>g_status_generations := hm_insert pid (su_generation status) gens\<rparr>
                              in if p_program_status pane = su_summary status \<and> p_program_status_seen pane = su_seen status \<and>
                                    p_program_status_enabled pane = su_enabled status then (Ok (), g)
                                 else
                                   (Ok (),
                                    commit_and_fire h g
                                      (on_pane pid (\<lambda>p. p\<lparr>p_program_status := su_summary status,
                                         p_program_status_seen := su_seen status,
                                         p_program_status_enabled := su_enabled status\<rparr>) (touch current))
                                      [PaneStatusChanged pid wid (w_session_id window) (p_program_status pane)
                                         (su_summary status) (su_seen status) (su_enabled status)]))"

definition set_pane_exit_status_owned ::
  "host \<Rightarrow> graph \<Rightarrow> pane_id \<Rightarrow> program_exit \<Rightarrow> u64 \<Rightarrow> pane_status_update option \<Rightarrow> unit reply" where
  "set_pane_exit_status_owned h g pid ex incarnation final_status =
     (if hm_get (g_pty_owners g) pid \<noteq> Some incarnation then (Ok (), g)
      else case final_status of
             None \<Rightarrow> set_pane_exit h g pid ex
           | Some status \<Rightarrow>
               (case set_pane_program_status h g pid status of
                  (Err e, g) \<Rightarrow> (Err e, g)
                | (Ok _, g) \<Rightarrow> set_pane_exit h g pid ex))"

section \<open>Tags, themes, titles\<close>

definition set_session_tag :: "host \<Rightarrow> graph \<Rightarrow> session_id \<Rightarrow> rstring \<Rightarrow> rstring \<Rightarrow> unit reply" where
  "set_session_tag h g sid key v =
     (let current = g_state g
      in if \<not> hm_contains (sn_sessions current) sid then (Err (SessionNotFound sid), g)
         else (Ok (), commit_and_fire h g
                 (on_session sid (\<lambda>s. s\<lparr>s_tags := hm_insert key v (s_tags s)\<rparr>) (touch current)) []))"

definition set_pane_tag :: "host \<Rightarrow> graph \<Rightarrow> pane_id \<Rightarrow> rstring \<Rightarrow> rstring \<Rightarrow> unit reply" where
  "set_pane_tag h g pid key v =
     (let current = g_state g
      in if \<not> hm_contains (sn_panes current) pid then (Err (PaneNotFound pid), g)
         else (Ok (), commit_and_fire h g
                 (on_pane pid (\<lambda>p. p\<lparr>p_tags := hm_insert key v (p_tags p)\<rparr>) (touch current)) []))"

definition set_session_theme :: "host \<Rightarrow> graph \<Rightarrow> session_id \<Rightarrow> theme_ref option \<Rightarrow> unit reply" where
  "set_session_theme h g sid theme =
     (let current = g_state g
      in if \<not> hm_contains (sn_sessions current) sid then (Err (SessionNotFound sid), g)
         else (Ok (), commit_and_fire h g (on_session sid (\<lambda>s. s\<lparr>s_theme := theme\<rparr>) (touch current)) []))"

definition set_pane_theme :: "host \<Rightarrow> graph \<Rightarrow> pane_id \<Rightarrow> theme_ref option \<Rightarrow> unit reply" where
  "set_pane_theme h g pid theme =
     (let current = g_state g
      in if \<not> hm_contains (sn_panes current) pid then (Err (PaneNotFound pid), g)
         else (Ok (), commit_and_fire h g (on_pane pid (\<lambda>p. p\<lparr>p_theme := theme\<rparr>) (touch current)) []))"

definition retitle :: "rstring option \<Rightarrow> bool option \<Rightarrow> pane \<Rightarrow> pane" where
  "retitle title auto p =
     set_manual_title (case auto of None \<Rightarrow> p | Some a \<Rightarrow> set_auto_title p a) title"

definition set_pane_title :: "host \<Rightarrow> graph \<Rightarrow> pane_id \<Rightarrow> rstring option \<Rightarrow> bool option \<Rightarrow> unit reply" where
  "set_pane_title h g pid title auto =
     (let current = g_state g
      in case get_pane current pid of
           None \<Rightarrow> (Err (PaneNotFound pid), g)
         | Some pane \<Rightarrow>
             let wid = p_window_id pane
             in case get_window current wid of
                  None \<Rightarrow> (Err (WindowNotFound wid), g)
                | Some window \<Rightarrow>
                    let old_title = p_title pane; new_title = p_title (retitle title auto pane)
                    in (Ok (),
                        commit_and_fire h g (on_pane pid (retitle title auto) (touch current))
                          (if old_title \<noteq> new_title
                           then [PaneTitleChanged pid wid (w_session_id window) old_title new_title] else [])))"

definition set_pane_osc_title :: "host \<Rightarrow> graph \<Rightarrow> pane_id \<Rightarrow> rstring \<Rightarrow> unit reply" where
  "set_pane_osc_title h g pid title =
     (let current = g_state g
      in case get_pane current pid of
           None \<Rightarrow> (Err (PaneNotFound pid), g)
         | Some pane \<Rightarrow>
             let wid = p_window_id pane
             in case get_window current wid of
                  None \<Rightarrow> (Err (WindowNotFound wid), g)
                | Some window \<Rightarrow>
                    let old_title = p_title pane;
                        already = (p_osc_title pane = Some title);
                        manual_active = (p_manual_title pane \<noteq> None)
                    in if already \<and> (manual_active \<or> \<not> p_auto_title pane) then (Ok (), g)
                       else let (pane', changed) = set_osc_title pane title
                            in (Ok (),
                                commit_and_fire h g (on_pane pid (\<lambda>p. fst (set_osc_title p title)) (touch current))
                                  (if changed
                                   then [PaneTitleChanged pid wid (w_session_id window) old_title (p_title pane')] else [])))"

section \<open>Layout operations\<close>

definition split_pane_with_command ::
  "host \<Rightarrow> fresh \<Rightarrow> graph \<Rightarrow> pane_id \<Rightarrow> direction \<Rightarrow> f32 \<Rightarrow> rstring list \<Rightarrow> pane_id reply" where
  "split_pane_with_command h f g target_pane d ratio command =
     (case find_pane_window g target_pane of
        Err e \<Rightarrow> (Err e, g)
      | Ok (current, wid) \<Rightarrow>
          let target = the (get_pane current target_pane)
          in case get_window current wid of
               None \<Rightarrow> (Err (WindowNotFound wid), g)
             | Some window \<Rightarrow>
                 let sid = w_session_id window
                 in case check_session_capacity h current sid command (p_cwd target) of
                      Err e \<Rightarrow> (Err e, g)
                    | Ok _ \<Rightarrow>
                        let pid = fr_pane f;
                            unzoomed = zoomed_pane (w_layout window);
                            (layout, split_ok) = wl_split_pane (w_layout window) target_pane pid d ratio
                        in if \<not> split_ok then (Err (LayoutError (ascii ''split_pane failed'')), g)
                           else
                             let sn = on_window wid (\<lambda>w. w\<lparr>w_layout := layout, w_active_pane := pid\<rparr>) (touch current)
                             in (Ok pid,
                                 commit_and_fire h g
                                   (sn\<lparr>sn_panes := hm_insert pid (new_pane pid wid (p_cwd target) command) (sn_panes sn)\<rparr>)
                                   (unzoom_events unzoomed wid sid @ [PaneCreated pid wid sid command])))"

definition graph_split_pane :: "host \<Rightarrow> fresh \<Rightarrow> graph \<Rightarrow> pane_id \<Rightarrow> direction \<Rightarrow> f32 \<Rightarrow> pane_id reply" where
  "graph_split_pane h f g target_pane d ratio = split_pane_with_command h f g target_pane d ratio []"

definition focus_pane :: "host \<Rightarrow> graph \<Rightarrow> pane_id \<Rightarrow> pane_id option reply" where
  "focus_pane h g pid =
     (case find_pane_window g pid of
        Err e \<Rightarrow> (Err e, g)
      | Ok (current, wid) \<Rightarrow>
          (case get_window current wid of
             None \<Rightarrow> (Err (WindowNotFound wid), g)
           | Some window \<Rightarrow>
               let previous = (if w_active_pane window \<noteq> pid then Some (w_active_pane window) else None);
                   sid = w_session_id window;
                   unzoomed = (case zoomed_pane (w_layout window) of
                                 None \<Rightarrow> None
                               | Some z \<Rightarrow> if z \<noteq> pid then Some z else None);
                   refocus = (\<lambda>w. (case unzoomed of
                                    None \<Rightarrow> w
                                  | Some z \<Rightarrow> w\<lparr>w_layout := toggle_zoom (w_layout w) z\<rparr>)\<lparr>w_active_pane := pid\<rparr>);
                   sn = on_window wid refocus (touch current);
                   sn' = (if unzoomed = None then sn
                          else sn\<lparr>sn_panes := hm_modify_where (\<lambda>p. p_window_id p = wid) bump_pane (sn_panes sn)\<rparr>)
               in (Ok previous,
                   commit_and_fire h g sn'
                     (unzoom_events unzoomed wid sid @ [PaneFocused pid wid sid previous]))))"

definition focus_pane_direction ::
  "host \<Rightarrow> graph \<Rightarrow> window_id \<Rightarrow> nav_direction \<Rightarrow> rect \<Rightarrow> pane_id option reply" where
  "focus_pane_direction h g wid nd viewport =
     (case get_window (g_state g) wid of
        None \<Rightarrow> (Err (WindowNotFound wid), g)
      | Some window \<Rightarrow>
          (case directional_focus (wl_tree (w_layout window)) (w_active_pane window) nd viewport of
             Some target \<Rightarrow>
               (case focus_pane h g target of
                  (Err e, g) \<Rightarrow> (Err e, g)
                | (Ok _, g) \<Rightarrow> (Ok (Some target), g))
           | None \<Rightarrow> (Ok None, g)))"

definition graph_resize_pane ::
  "host \<Rightarrow> graph \<Rightarrow> pane_id \<Rightarrow> direction \<Rightarrow> f32 \<Rightarrow> version option \<Rightarrow> unit reply" where
  "graph_resize_pane h g pid d delta expected_version =
     (case find_pane_window g pid of
        Err e \<Rightarrow> (Err e, g)
      | Ok (current, wid) \<Rightarrow>
          (case version_conflict h ''pane'' (pane_uuid pid) expected_version (p_version (the (get_pane current pid))) of
             Some e \<Rightarrow> (Err e, g)
           | None \<Rightarrow>
               (case get_window current wid of
                  None \<Rightarrow> (Err (WindowNotFound wid), g)
                | Some window \<Rightarrow>
                    let unzoomed = zoomed_pane (w_layout window);
                        sid = w_session_id window;
                        layout = wl_take_zoom (w_layout window)
                    in case resize_pane (wl_tree layout) pid d delta of
                         None \<Rightarrow> (Ok (), g)
                       | Some tree \<Rightarrow>
                           (Ok (),
                            commit_and_fire h g
                              (bump_window_panes wid
                                 (on_window wid (\<lambda>w. w\<lparr>w_layout := layout\<lparr>wl_tree := tree\<rparr>\<rparr>) (touch current)))
                              (unzoom_events unzoomed wid sid)))))"

definition zoom_pane :: "host \<Rightarrow> graph \<Rightarrow> pane_id \<Rightarrow> version option \<Rightarrow> bool reply" where
  "zoom_pane h g pid expected_version =
     (case find_pane_window g pid of
        Err e \<Rightarrow> (Err e, g)
      | Ok (current, wid) \<Rightarrow>
          (case version_conflict h ''pane'' (pane_uuid pid) expected_version (p_version (the (get_pane current pid))) of
             Some e \<Rightarrow> (Err e, g)
           | None \<Rightarrow>
               (case get_window current wid of
                  None \<Rightarrow> (Err (WindowNotFound wid), g)
                | Some window \<Rightarrow>
                    let sid = w_session_id window;
                        was_zoomed = zoomed_pane (w_layout window);
                        layout = toggle_zoom (w_layout window) pid;
                        now_zoomed = zoomed_pane layout
                    in if was_zoomed = now_zoomed then (Ok (now_zoomed \<noteq> None), g)
                       else
                         let is_zoomed = (now_zoomed \<noteq> None);
                             refocused = (is_zoomed \<and> w_active_pane window \<noteq> pid);
                             sn = on_window wid (\<lambda>w. w\<lparr>w_layout := layout,
                                    w_active_pane := (if refocused then pid else w_active_pane w)\<rparr>) (touch current)
                         in (Ok is_zoomed,
                             commit_and_fire h g (bump_window_panes wid sn)
                               (unzoom_events was_zoomed wid sid
                                @ (case now_zoomed of None \<Rightarrow> [] | Some z \<Rightarrow> [PaneZoomed z wid sid True])
                                @ (if refocused then [PaneFocused pid wid sid (Some (w_active_pane window))] else []))))))"

definition zoom_pane_if_focused :: "host \<Rightarrow> graph \<Rightarrow> pane_id \<Rightarrow> pane_id \<Rightarrow> bool reply" where
  "zoom_pane_if_focused h g pid focused =
     (case find_pane_window g pid of
        Err e \<Rightarrow> (Err e, g)
      | Ok (current, wid) \<Rightarrow>
          (case get_window current wid of
             None \<Rightarrow> (Err (WindowNotFound wid), g)
           | Some window \<Rightarrow>
               if w_active_pane window \<noteq> focused \<or> wl_is_zoomed (w_layout window) \<or> pane_count (wl_tree (w_layout window)) < 2
               then (Ok False, g)
               else zoom_pane h g pid None))"

definition graph_swap_panes :: "host \<Rightarrow> graph \<Rightarrow> pane_id \<Rightarrow> pane_id \<Rightarrow> version option \<Rightarrow> unit reply" where
  "graph_swap_panes h g a b expected_version =
     (if a = b then (Err PaneSwapSelf, g)
      else let current = g_state g
           in case get_pane current a of
                None \<Rightarrow> (Err (PaneNotFound a), g)
              | Some pane_a \<Rightarrow>
                  (case get_pane current b of
                     None \<Rightarrow> (Err (PaneNotFound b), g)
                   | Some pane_b \<Rightarrow>
                       if p_window_id pane_a \<noteq> p_window_id pane_b then (Err PaneCrossWindow, g)
                       else
                         (case version_conflict h ''pane'' (pane_uuid a) expected_version (p_version pane_a) of
                            Some e \<Rightarrow> (Err e, g)
                          | None \<Rightarrow>
                              let wid = p_window_id pane_a
                              in case get_window current wid of
                                   None \<Rightarrow> (Err (WindowNotFound wid), g)
                                 | Some window \<Rightarrow>
                                     let unzoomed = zoomed_pane (w_layout window);
                                         sid = w_session_id window;
                                         layout = wl_take_zoom (w_layout window)
                                     in case swap_panes (wl_tree layout) a b of
                                          None \<Rightarrow> (Err (LayoutError (ascii ''swap_panes failed'')), g)
                                        | Some tree \<Rightarrow>
                                            (Ok (),
                                             commit_and_fire h g
                                               (bump_window_panes wid
                                                  (on_window wid (\<lambda>w. w\<lparr>w_layout := layout\<lparr>wl_tree := tree\<rparr>\<rparr>) (touch current)))
                                               (unzoom_events unzoomed wid sid)))))"

end
