(* ===== verification/Graph_Inv.thy ===== *)
theory Graph_Inv
  imports Graph_Ops
begin

text \<open>
  The invariants of the session graph, and how the shapes of change the operations make keep them:
  updates in place, additions and removals.

  \<^item> \<open>refs_ok\<close>: the three maps agree.  Every window is in the list of its session and every pane in
    a window, keys are ids, no window or session is empty, the active window is one of the list.
  \<^item> \<open>names_ok\<close>: session names are valid and unique, window titles valid and unique per session.
  \<^item> \<open>room_ok\<close>: no session holds more panes or bytes than a listing may carry.
  \<^item> \<open>layout_ok\<close>: a window's layout arranges exactly its panes, and its focused pane is on screen.
\<close>

section \<open>Invariants\<close>

definition session_ok :: "snapshot \<Rightarrow> session_id \<Rightarrow> session \<Rightarrow> bool" where
  "session_ok sn sid s \<longleftrightarrow>
     s_id s = sid \<and> distinct (s_windows s) \<and> s_active_window s \<in> set (s_windows s) \<and>
     (\<forall>wid \<in> set (s_windows s). \<exists>w. get_window sn wid = Some w \<and> w_session_id w = sid)"

definition window_ok :: "snapshot \<Rightarrow> window_id \<Rightarrow> window \<Rightarrow> bool" where
  "window_ok sn wid w \<longleftrightarrow>
     w_id w = wid \<and> (\<exists>s. get_session sn (w_session_id w) = Some s \<and> wid \<in> set (s_windows s)) \<and>
     (\<exists>pid p. get_pane sn pid = Some p \<and> p_window_id p = wid)"

definition pane_ok :: "snapshot \<Rightarrow> pane_id \<Rightarrow> pane \<Rightarrow> bool" where
  "pane_ok sn pid p \<longleftrightarrow> p_id p = pid \<and> (\<exists>w. get_window sn (p_window_id p) = Some w) \<and> titles_ok p"

definition refs_ok :: "snapshot \<Rightarrow> bool" where
  "refs_ok sn \<longleftrightarrow>
     hm_wf (sn_sessions sn) \<and> hm_wf (sn_windows sn) \<and> hm_wf (sn_panes sn) \<and>
     (\<forall>sid s. get_session sn sid = Some s \<longrightarrow> session_ok sn sid s) \<and>
     (\<forall>wid w. get_window sn wid = Some w \<longrightarrow> window_ok sn wid w) \<and>
     (\<forall>pid p. get_pane sn pid = Some p \<longrightarrow> pane_ok sn pid p)"

definition names_ok :: "host \<Rightarrow> snapshot \<Rightarrow> bool" where
  "names_ok h sn \<longleftrightarrow>
     (\<forall>sid s. get_session sn sid = Some s \<longrightarrow> validate_session_name h (s_name s) = Ok ()) \<and>
     (\<forall>i s j t. get_session sn i = Some s \<longrightarrow> get_session sn j = Some t \<longrightarrow> s_name s = s_name t \<longrightarrow> i = j) \<and>
     (\<forall>wid w. get_window sn wid = Some w \<longrightarrow> validate_window_title (w_title w) = Ok (w_title w)) \<and>
     (\<forall>i v j w. get_window sn i = Some v \<longrightarrow> get_window sn j = Some w \<longrightarrow>
        w_session_id v = w_session_id w \<longrightarrow> w_title v = w_title w \<longrightarrow> i = j)"

definition room_ok :: "host \<Rightarrow> snapshot \<Rightarrow> bool" where
  "room_ok h sn \<longleftrightarrow>
     (\<forall>sid. length (session_panes sn sid) \<le> MAX_PANES_PER_SESSION \<and>
            used_bytes h (session_panes sn sid) \<le> MAX_SESSION_PANE_BYTES)"

definition panes_in :: "snapshot \<Rightarrow> window_id \<Rightarrow> pane_id set" where
  "panes_in sn wid = {pid. \<exists>p. get_pane sn pid = Some p \<and> p_window_id p = wid}"

definition arranged :: "snapshot \<Rightarrow> window_id \<Rightarrow> window \<Rightarrow> bool" where
  "arranged sn wid w \<longleftrightarrow>
     wl_ok (w_layout w) \<and> wl_panes (w_layout w) = panes_in sn wid \<and> w_active_pane w \<in> set (wl_shown (w_layout w))"

definition layout_ok :: "snapshot \<Rightarrow> bool" where
  "layout_ok sn \<longleftrightarrow> (\<forall>wid w. get_window sn wid = Some w \<longrightarrow> arranged sn wid w)"

definition snap_ok :: "host \<Rightarrow> snapshot \<Rightarrow> bool" where
  "snap_ok h sn \<longleftrightarrow> refs_ok sn \<and> names_ok h sn \<and> room_ok h sn"

lemma refs_okD:
  assumes "refs_ok sn"
  shows "hm_wf (sn_sessions sn)" "hm_wf (sn_windows sn)" "hm_wf (sn_panes sn)"
    and "get_session sn sid = Some s \<Longrightarrow> session_ok sn sid s"
    and "get_window sn wid = Some w \<Longrightarrow> window_ok sn wid w"
    and "get_pane sn pid = Some p \<Longrightarrow> pane_ok sn pid p"
  using assms by (auto simp: refs_ok_def)

lemma names_okD:
  assumes "names_ok h sn"
  shows "get_session sn sid = Some s \<Longrightarrow> validate_session_name h (s_name s) = Ok ()"
    and "get_session sn i = Some s \<Longrightarrow> get_session sn j = Some t \<Longrightarrow> s_name s = s_name t \<Longrightarrow> i = j"
    and "get_window sn wid = Some w \<Longrightarrow> validate_window_title (w_title w) = Ok (w_title w)"
    and "get_window sn k = Some v \<Longrightarrow> get_window sn l = Some w \<Longrightarrow> w_session_id v = w_session_id w \<Longrightarrow>
      w_title v = w_title w \<Longrightarrow> k = l"
  using assms unfolding names_ok_def by blast+

lemma names_okI:
  assumes "\<And>sid s. get_session sn sid = Some s \<Longrightarrow> validate_session_name h (s_name s) = Ok ()"
    and "\<And>i s j t. get_session sn i = Some s \<Longrightarrow> get_session sn j = Some t \<Longrightarrow> s_name s = s_name t \<Longrightarrow> i = j"
    and "\<And>wid w. get_window sn wid = Some w \<Longrightarrow> validate_window_title (w_title w) = Ok (w_title w)"
    and "\<And>i v j w. get_window sn i = Some v \<Longrightarrow> get_window sn j = Some w \<Longrightarrow> w_session_id v = w_session_id w \<Longrightarrow>
      w_title v = w_title w \<Longrightarrow> i = j"
  shows "names_ok h sn"
  using assms unfolding names_ok_def by blast

section \<open>Updates in place\<close>

definition pane_keep :: "pane \<Rightarrow> pane \<Rightarrow> bool" where
  "pane_keep p q \<longleftrightarrow> p_id q = p_id p \<and> p_window_id q = p_window_id p \<and> p_command q = p_command p \<and> p_cwd q = p_cwd p \<and>
     (titles_ok p \<longrightarrow> titles_ok q)"

definition window_keep :: "window \<Rightarrow> window \<Rightarrow> bool" where
  "window_keep v w \<longleftrightarrow> w_id w = w_id v \<and> w_session_id w = w_session_id v"

definition session_keep :: "session \<Rightarrow> session \<Rightarrow> bool" where
  "session_keep s t \<longleftrightarrow> s_id t = s_id s \<and> set (s_windows t) = set (s_windows s) \<and>
     (distinct (s_windows s) \<longrightarrow> distinct (s_windows t)) \<and>
     (s_active_window s \<in> set (s_windows s) \<longrightarrow> s_active_window t \<in> set (s_windows t))"

definition map_keep :: "('v \<Rightarrow> 'v \<Rightarrow> bool) \<Rightarrow> ('k, 'v) hashmap \<Rightarrow> ('k, 'v) hashmap \<Rightarrow> bool" where
  "map_keep R m n \<longleftrightarrow> list_all2 (\<lambda>x y. fst y = fst x \<and> R (snd x) (snd y)) m n"

lemma map_keep_keys: "map_keep R m n \<Longrightarrow> map fst n = map fst m"
  unfolding map_keep_def by (induction rule: list_all2_induct) auto

lemma map_keep_wf: "map_keep R m n \<Longrightarrow> hm_wf m \<Longrightarrow> hm_wf n"
  by (simp add: hm_wf_def map_keep_keys)

lemma map_keep_get:
  assumes "map_keep R m n"
  shows "hm_get n k = Some y \<Longrightarrow> \<exists>x. hm_get m k = Some x \<and> R x y"
    and "hm_get m k = Some x \<Longrightarrow> \<exists>y. hm_get n k = Some y \<and> R x y"
  using assms unfolding map_keep_def by (induction rule: list_all2_induct) (auto split: if_splits)

lemma map_keep_refl: "(\<And>x. R x x) \<Longrightarrow> map_keep R m m"
  by (simp add: map_keep_def list_all2_refl)

lemma map_keep_trans: "(\<And>x y z. R x y \<Longrightarrow> R y z \<Longrightarrow> R x z) \<Longrightarrow> map_keep R a b \<Longrightarrow> map_keep R b c \<Longrightarrow> map_keep R a c"
  unfolding map_keep_def by (rule list_all2_trans [where ?P1.0 = "\<lambda>x y. fst y = fst x \<and> R (snd x) (snd y)"]) auto

lemma map_keep_modify:
  "hm_wf m \<Longrightarrow> (\<And>x. R x x) \<Longrightarrow> (\<And>x. hm_get m k = Some x \<Longrightarrow> R x (f x)) \<Longrightarrow> map_keep R m (hm_modify k f m)"
  by (auto simp: map_keep_def hm_modify_def list_all2_map2 hm_wf_def intro!: list_all2_refl list.rel_refl_strong)

lemma map_keep_modify_all: "(\<And>x. R x x) \<Longrightarrow> (\<And>x. R x (f x)) \<Longrightarrow> map_keep R m (hm_modify k f m)"
  by (auto simp: map_keep_def hm_modify_def list_all2_map2 intro!: list.rel_refl_strong)

lemma map_keep_modify_where: "(\<And>x. R x x) \<Longrightarrow> (\<And>x. R x (f x)) \<Longrightarrow> map_keep R m (hm_modify_where p f m)"
  by (auto simp: map_keep_def hm_modify_where_def list_all2_map2 intro!: list.rel_refl_strong)

lemma map_keep_fold_modify:
  "(\<And>x. R x x) \<Longrightarrow> (\<And>x y z. R x y \<Longrightarrow> R y z \<Longrightarrow> R x z) \<Longrightarrow> (\<And>x. R x (f x)) \<Longrightarrow>
     map_keep R m (fold (\<lambda>k. hm_modify k f) ks m)"
proof (induction ks arbitrary: m)
  case (Cons k ks)
  have "map_keep R m (hm_modify k f m)" by (rule map_keep_modify_all) (use Cons.prems in auto)
  moreover have "map_keep R (hm_modify k f m) (fold (\<lambda>k. hm_modify k f) ks (hm_modify k f m))"
    using Cons by blast
  ultimately show ?case using Cons.prems(2) by (auto intro: map_keep_trans)
qed (simp add: map_keep_refl)

lemma pane_keep_refl [simp]: "pane_keep p p" by (simp add: pane_keep_def)
lemma window_keep_refl [simp]: "window_keep w w" by (simp add: window_keep_def)
lemma session_keep_refl [simp]: "session_keep s s" by (simp add: session_keep_def)

lemma pane_keep_trans: "pane_keep a b \<Longrightarrow> pane_keep b c \<Longrightarrow> pane_keep a c"
  by (auto simp: pane_keep_def)

definition evolves :: "snapshot \<Rightarrow> snapshot \<Rightarrow> bool" where
  "evolves sn sn' \<longleftrightarrow>
     map_keep session_keep (sn_sessions sn) (sn_sessions sn') \<and>
     map_keep window_keep (sn_windows sn) (sn_windows sn') \<and>
     map_keep pane_keep (sn_panes sn) (sn_panes sn')"

lemma evolves_get:
  assumes "evolves sn sn'"
  shows "get_session sn' sid = Some t \<Longrightarrow> \<exists>s. get_session sn sid = Some s \<and> session_keep s t"
    and "get_window sn' wid = Some w \<Longrightarrow> \<exists>v. get_window sn wid = Some v \<and> window_keep v w"
    and "get_pane sn' pid = Some q \<Longrightarrow> \<exists>p. get_pane sn pid = Some p \<and> pane_keep p q"
    and "get_session sn sid = Some s \<Longrightarrow> \<exists>t. get_session sn' sid = Some t \<and> session_keep s t"
    and "get_window sn wid = Some v \<Longrightarrow> \<exists>w. get_window sn' wid = Some w \<and> window_keep v w"
    and "get_pane sn pid = Some p \<Longrightarrow> \<exists>q. get_pane sn' pid = Some q \<and> pane_keep p q"
  using assms unfolding evolves_def by (blast dest: map_keep_get)+

lemma evolves_panes_in: "evolves sn sn' \<Longrightarrow> panes_in sn' wid = panes_in sn wid"
proof -
  assume "evolves sn sn'"
  note k = evolves_get(3,6) [OF this]
  show ?thesis unfolding panes_in_def using k by (force simp: pane_keep_def)
qed

lemma evolves_refs:
  assumes ev: "evolves sn sn'" and ok: "refs_ok sn"
  shows "refs_ok sn'"
proof -
  note fwd = evolves_get(4-6) [OF ev] and bwd = evolves_get(1-3) [OF ev]
  have "hm_wf (sn_sessions sn')" "hm_wf (sn_windows sn')" "hm_wf (sn_panes sn')"
    using ev refs_okD(1-3) [OF ok] by (auto simp: evolves_def intro: map_keep_wf)
  moreover have "session_ok sn' sid t" if t: "get_session sn' sid = Some t" for sid t
  proof -
    obtain s where s: "get_session sn sid = Some s" "session_keep s t" using bwd(1) [OF t] by blast
    have "\<exists>w. get_window sn' wid = Some w \<and> w_session_id w = sid" if "wid \<in> set (s_windows s)" for wid
      using refs_okD(4) [OF ok s(1)] that fwd(2) by (fastforce simp: session_ok_def window_keep_def)
    then show ?thesis using refs_okD(4) [OF ok s(1)] s(2) by (auto simp: session_ok_def session_keep_def)
  qed
  moreover have "window_ok sn' wid w" if w: "get_window sn' wid = Some w" for wid w
  proof -
    obtain v where v: "get_window sn wid = Some v" "window_keep v w" using bwd(2) [OF w] by blast
    note okv = refs_okD(5) [OF ok v(1)]
    obtain s where s: "get_session sn (w_session_id v) = Some s" "wid \<in> set (s_windows s)" using okv by (auto simp: window_ok_def)
    then obtain t where "get_session sn' (w_session_id v) = Some t" "session_keep s t" using fwd(1) by blast
    moreover obtain pid p where "get_pane sn pid = Some p" "p_window_id p = wid" using okv by (auto simp: window_ok_def)
    then obtain q where "get_pane sn' pid = Some q" "p_window_id q = wid" using fwd(3) by (auto simp: pane_keep_def)
    ultimately show ?thesis using okv v(2) s(2) by (auto simp: window_ok_def window_keep_def session_keep_def)
  qed
  moreover have "pane_ok sn' pid q" if q: "get_pane sn' pid = Some q" for pid q
  proof -
    obtain p where p: "get_pane sn pid = Some p" "pane_keep p q" using bwd(3) [OF q] by blast
    then show ?thesis using refs_okD(6) [OF ok p(1)] fwd(2) by (fastforce simp: pane_ok_def pane_keep_def)
  qed
  ultimately show ?thesis by (simp add: refs_ok_def)
qed

lemma used_bytes_keep: "list_all2 pane_keep ps qs \<Longrightarrow> used_bytes h qs = used_bytes h ps"
proof -
  have "list_all2 pane_keep ps qs \<Longrightarrow>
      foldl (\<lambda>b p. sat_add_usize b (pane_bytes h (p_command p) (p_cwd p))) b qs =
      foldl (\<lambda>b p. sat_add_usize b (pane_bytes h (p_command p) (p_cwd p))) b ps" for b
    by (induction arbitrary: b rule: list_all2_induct) (auto simp: pane_keep_def)
  then show "list_all2 pane_keep ps qs \<Longrightarrow> ?thesis" by (simp add: used_bytes_def)
qed

lemma list_all2_filter:
  "list_all2 R xs ys \<Longrightarrow> (\<And>x y. R x y \<Longrightarrow> P x \<longleftrightarrow> Q y) \<Longrightarrow> list_all2 R (filter P xs) (filter Q ys)"
  by (induction rule: list_all2_induct) auto

lemma evolves_window_session:
  assumes "evolves sn sn'"
  shows "map_option w_session_id (get_window sn' wid) = map_option w_session_id (get_window sn wid)"
proof (cases "get_window sn wid")
  case None
  then have "get_window sn' wid = None"
    using evolves_get(2) [OF assms, of wid] by (cases "get_window sn' wid") auto
  with None show ?thesis by simp
next
  case (Some v)
  then obtain w where "get_window sn' wid = Some w" "window_keep v w" using evolves_get(5) [OF assms] by blast
  with Some show ?thesis by (simp add: window_keep_def)
qed

lemma evolves_session_panes: "evolves sn sn' \<Longrightarrow> list_all2 pane_keep (session_panes sn sid) (session_panes sn' sid)"
proof -
  assume ev: "evolves sn sn'"
  have "list_all2 pane_keep (hm_values (sn_panes sn)) (hm_values (sn_panes sn'))"
    using ev by (auto simp: evolves_def map_keep_def hm_values_def list_all2_map1 list_all2_map2 elim: list_all2_mono)
  then show ?thesis unfolding session_panes_def
    by (rule list_all2_filter) (simp add: pane_keep_def evolves_window_session [OF ev])
qed

lemma evolves_room: "evolves sn sn' \<Longrightarrow> room_ok h sn \<Longrightarrow> room_ok h sn'"
  using evolves_session_panes used_bytes_keep list_all2_lengthD unfolding room_ok_def by metis

lemma evolves_names:
  assumes "evolves sn sn'" "names_ok h sn"
    and "\<And>sid. map_option s_name (get_session sn' sid) = map_option s_name (get_session sn sid)"
    and "\<And>wid. map_option w_title (get_window sn' wid) = map_option w_title (get_window sn wid)"
  shows "names_ok h sn'"
proof -
  have s: "\<exists>s. get_session sn sid = Some s \<and> s_name s = s_name t" if "get_session sn' sid = Some t" for sid t
    using assms(3) [of sid] that by (cases "get_session sn sid") auto
  have w: "\<exists>v. get_window sn wid = Some v \<and> w_title v = w_title w \<and> w_session_id v = w_session_id w"
    if "get_window sn' wid = Some w" for wid w
    using assms(4) [of wid] that evolves_window_session [OF assms(1), of wid] by (cases "get_window sn wid") auto
  note ok = names_okD [OF assms(2)]
  show ?thesis
  proof (rule names_okI)
    fix sid t assume "get_session sn' sid = Some t"
    with s ok(1) show "validate_session_name h (s_name t) = Ok ()" by metis
  next
    fix i a j b assume "get_session sn' i = Some a" "get_session sn' j = Some b" "s_name a = s_name b"
    with s ok(2) show "i = j" by metis
  next
    fix wid v assume "get_window sn' wid = Some v"
    with w ok(3) show "validate_window_title (w_title v) = Ok (w_title v)" by metis
  next
    fix i a j b assume "get_window sn' i = Some a" "get_window sn' j = Some b" "w_session_id a = w_session_id b" "w_title a = w_title b"
    with w ok(4) show "i = j" by metis
  qed
qed

lemma evolves_layout:
  assumes ev: "evolves sn sn'" and ok: "layout_ok sn"
    and new: "\<And>wid v w. get_window sn wid = Some v \<Longrightarrow> get_window sn' wid = Some w \<Longrightarrow> arranged sn wid v \<Longrightarrow>
      wl_ok (w_layout w) \<and> wl_panes (w_layout w) = wl_panes (w_layout v) \<and> w_active_pane w \<in> set (wl_shown (w_layout w))"
  shows "layout_ok sn'"
  unfolding layout_ok_def
proof (intro allI impI)
  fix wid w assume w: "get_window sn' wid = Some w"
  then obtain v where v: "get_window sn wid = Some v" using evolves_get(2) [OF ev] by blast
  then have "arranged sn wid v" using ok by (simp add: layout_ok_def)
  with new [OF v w] show "arranged sn' wid w" by (simp add: arranged_def evolves_panes_in [OF ev])
qed

definition quiet :: "snapshot \<Rightarrow> snapshot \<Rightarrow> bool" where
  "quiet sn sn' \<longleftrightarrow> evolves sn sn' \<and>
     (\<forall>sid. map_option s_name (get_session sn' sid) = map_option s_name (get_session sn sid)) \<and>
     (\<forall>wid. map_option w_title (get_window sn' wid) = map_option w_title (get_window sn wid))"

definition still :: "snapshot \<Rightarrow> snapshot \<Rightarrow> bool" where
  "still sn sn' \<longleftrightarrow> quiet sn sn' \<and>
     (\<forall>wid. map_option (\<lambda>w. (w_layout w, w_active_pane w)) (get_window sn' wid) =
            map_option (\<lambda>w. (w_layout w, w_active_pane w)) (get_window sn wid))"

lemma quiet_snap_ok: "quiet sn sn' \<Longrightarrow> snap_ok h sn \<Longrightarrow> snap_ok h sn'"
  using evolves_refs evolves_names evolves_room unfolding quiet_def snap_ok_def by blast

lemma still_layout_ok:
  assumes "still sn sn'" "layout_ok sn"
  shows "layout_ok sn'"
proof (rule evolves_layout [OF _ assms(2)])
  show "evolves sn sn'" using assms(1) by (simp add: still_def quiet_def)
next
  fix wid v w assume "get_window sn wid = Some v" "get_window sn' wid = Some w" "arranged sn wid v"
  moreover have "w_layout w = w_layout v \<and> w_active_pane w = w_active_pane v"
    using assms(1) calculation by (auto simp: still_def dest!: spec [of _ wid])
  ultimately show "wl_ok (w_layout w) \<and> wl_panes (w_layout w) = wl_panes (w_layout v) \<and>
      w_active_pane w \<in> set (wl_shown (w_layout w))" by (simp add: arranged_def)
qed

lemma bump_keeps [simp]:
  "pane_keep p (bump_pane p)" "s_name (bump_session s) = s_name s" "s_windows (bump_session s) = s_windows s"
  "w_title (bump_window w) = w_title w" "w_layout (bump_window w) = w_layout w"
  "w_active_pane (bump_window w) = w_active_pane w" "w_session_id (bump_window w) = w_session_id w"
  "s_active_window (bump_session s) = s_active_window s" "s_id (bump_session s) = s_id s" "w_id (bump_window w) = w_id w"
  by (simp_all add: bump_pane_def bump_session_def bump_window_def pane_keep_def titles_ok_def)

lemma titles_ok_bump [simp]: "titles_ok (bump_pane p) = titles_ok p"
  by (simp add: bump_pane_def titles_ok_def)

lemma still_touch: "still sn (touch sn)"
  by (simp add: still_def quiet_def evolves_def map_keep_refl)

lemma still_on_pane:
  assumes "\<And>p. pane_keep p (f p)"
  shows "still sn (on_pane pid f (touch sn))"
proof -
  have "pane_keep p (bump_pane (f p))" for p using assms pane_keep_trans bump_keeps(1) by blast
  then show ?thesis
    by (auto simp: still_def quiet_def evolves_def on_pane_def map_keep_refl intro!: map_keep_modify_all)
qed

lemma on_session_evolves:
  assumes "hm_wf (sn_sessions sn)" "\<And>s. get_session sn sid = Some s \<Longrightarrow> session_keep s (f s)"
  shows "evolves sn (on_session sid f (touch sn))"
proof -
  have "session_keep s (bump_session (f s))" if "get_session sn sid = Some s" for s
    using assms(2) [OF that] by (auto simp: session_keep_def)
  then show ?thesis
    by (auto simp: evolves_def on_session_def map_keep_refl intro!: map_keep_modify [OF assms(1)])
qed

lemma still_on_session:
  assumes "hm_wf (sn_sessions sn)" "\<And>s. get_session sn sid = Some s \<Longrightarrow> session_keep s (f s) \<and> s_name (f s) = s_name s"
  shows "still sn (on_session sid f (touch sn))"
proof -
  have "evolves sn (on_session sid f (touch sn))" by (rule on_session_evolves) (use assms in auto)
  moreover have "map_option s_name (get_session (on_session sid f (touch sn)) i) = map_option s_name (get_session sn i)" for i
    using assms(2) by (cases "get_session sn i") (auto simp: on_session_def store_simps)
  ultimately show ?thesis by (simp add: still_def quiet_def) (simp add: on_session_def)
qed

lemma on_window_evolves:
  assumes "hm_wf (sn_windows sn)" "\<And>w. get_window sn wid = Some w \<Longrightarrow> window_keep w (f w)"
  shows "evolves sn (on_window wid f (touch sn))"
proof -
  have "window_keep w (bump_window (f w))" if "get_window sn wid = Some w" for w
    using assms(2) [OF that] by (simp add: window_keep_def)
  then show ?thesis
    by (auto simp: evolves_def on_window_def map_keep_refl intro!: map_keep_modify [OF assms(1)])
qed

lemma quiet_on_window:
  assumes "hm_wf (sn_windows sn)" "\<And>w. get_window sn wid = Some w \<Longrightarrow> window_keep w (f w) \<and> w_title (f w) = w_title w"
  shows "quiet sn (on_window wid f (touch sn))"
proof -
  have "evolves sn (on_window wid f (touch sn))" by (rule on_window_evolves) (use assms in auto)
  moreover have "map_option w_title (get_window (on_window wid f (touch sn)) i) = map_option w_title (get_window sn i)" for i
    using assms(2) by (cases "get_window sn i") (auto simp: on_window_def store_simps)
  ultimately show ?thesis by (simp add: quiet_def) (simp add: on_window_def)
qed

lemma window_on_window: "get_window (on_window wid f sn) i =
    (if i = wid then map_option (\<lambda>w. bump_window (f w)) (get_window sn i) else get_window sn i)"
  by (simp add: on_window_def store_simps)

lemma layout_on_window:
  assumes wf: "hm_wf (sn_windows sn)" and ok: "layout_ok sn"
    and keep: "\<And>w. get_window sn wid = Some w \<Longrightarrow> window_keep w (f w)"
    and new: "\<And>w. get_window sn wid = Some w \<Longrightarrow> arranged sn wid w \<Longrightarrow>
      wl_ok (w_layout (f w)) \<and> wl_panes (w_layout (f w)) = wl_panes (w_layout w) \<and>
      w_active_pane (f w) \<in> set (wl_shown (w_layout (f w)))"
  shows "layout_ok (on_window wid f (touch sn))"
proof (rule evolves_layout [OF on_window_evolves [OF wf keep] ok])
  fix i v w assume i: "get_window sn i = Some v" "get_window (on_window wid f (touch sn)) i = Some w" "arranged sn i v"
  show "wl_ok (w_layout w) \<and> wl_panes (w_layout w) = wl_panes (w_layout v) \<and> w_active_pane w \<in> set (wl_shown (w_layout w))"
  proof (cases "i = wid")
    case True
    with i have "w = bump_window (f v)" by (simp add: window_on_window)
    then show ?thesis using new i True by simp
  next
    case False
    with i have "w = v" by (simp add: window_on_window)
    then show ?thesis using i(3) by (simp add: arranged_def)
  qed
qed

text \<open>Bumping the panes of a window changes nothing an invariant speaks of.\<close>

lemma still_panes: "map_keep pane_keep (sn_panes sn) ps \<Longrightarrow> still sn (sn\<lparr>sn_panes := ps\<rparr>)"
  by (simp add: still_def quiet_def evolves_def map_keep_refl)

lemma still_bump_window_panes: "still sn (bump_window_panes wid sn)"
  unfolding bump_window_panes_def
  by (rule still_panes, rule map_keep_fold_modify) (auto intro: pane_keep_trans)

lemma still_bump_where: "still sn (sn\<lparr>sn_panes := hm_modify_where P bump_pane (sn_panes sn)\<rparr>)"
  by (rule still_panes, rule map_keep_modify_where) auto

section \<open>Additions\<close>

lemma hm_values_insert_new: "hm_get m k = None \<Longrightarrow> hm_values (hm_insert k v m) = hm_values m @ [v]"
  by (simp add: hm_values_def hm_insert_def) (induction m; auto split: if_splits)

lemma used_bytes_snoc: "used_bytes h (ps @ [p]) = sat_add_usize (used_bytes h ps) (pane_bytes h (p_command p) (p_cwd p))"
  by (simp add: used_bytes_def)

lemma capacity_Ok:
  "check_session_capacity h sn sid command cwd = Ok () \<Longrightarrow>
     length (session_panes sn sid) < MAX_PANES_PER_SESSION \<and>
     sat_add_usize (used_bytes h (session_panes sn sid)) (pane_bytes h command cwd) \<le> MAX_SESSION_PANE_BYTES"
  by (auto simp: check_session_capacity_def Let_def split: if_splits)

lemma capacity_result: "\<exists>e. check_session_capacity h sn sid command cwd = Err e \<or> check_session_capacity h sn sid command cwd = Ok ()"
  by (cases "check_session_capacity h sn sid command cwd") auto

lemma room_add:
  assumes refs: "refs_ok sn" and room: "room_ok h sn" and new: "get_pane sn pid = None"
    and cap: "check_session_capacity h sn probe command cwd = Ok ()"
    and probe: "sid = probe \<or> session_panes sn sid = [] \<and> session_panes sn probe = []"
    and panes: "sn_panes sn' = hm_insert pid p (sn_panes sn)" and p: "p_command p = command" "p_cwd p = cwd"
    and own: "map_option w_session_id (get_window sn' (p_window_id p)) = Some sid"
    and others: "\<And>wid w. get_window sn wid = Some w \<Longrightarrow> map_option w_session_id (get_window sn' wid) = Some (w_session_id w)"
  shows "room_ok h sn'"
proof -
  have same: "filter (\<lambda>q. map_option w_session_id (get_window sn' (p_window_id q)) = Some i) (hm_values (sn_panes sn)) =
      session_panes sn i" for i
    unfolding session_panes_def
  proof (rule filter_cong [OF refl])
    fix q assume "q \<in> set (hm_values (sn_panes sn))"
    then obtain k where "get_pane sn k = Some q" using refs_okD(3) [OF refs] by (auto simp: hm_values_iff)
    then obtain w where w: "get_window sn (p_window_id q) = Some w" using refs_okD(6) [OF refs] by (auto simp: pane_ok_def)
    show "(map_option w_session_id (get_window sn' (p_window_id q)) = Some i) =
        (map_option w_session_id (get_window sn (p_window_id q)) = Some i)" using others [OF w] w by auto
  qed
  have sp: "session_panes sn' i = session_panes sn i @ (if i = sid then [p] else [])" for i
  proof -
    have "session_panes sn' i = filter (\<lambda>q. map_option w_session_id (get_window sn' (p_window_id q)) = Some i)
        (hm_values (sn_panes sn) @ [p])"
      by (simp add: session_panes_def panes hm_values_insert_new [OF new])
    moreover have "(map_option w_session_id (get_window sn' (p_window_id p)) = Some i) = (i = sid)" using own by auto
    ultimately show ?thesis using same [of i] by simp
  qed
  have "length (session_panes sn sid) < MAX_PANES_PER_SESSION \<and>
      sat_add_usize (used_bytes h (session_panes sn sid)) (pane_bytes h command cwd) \<le> MAX_SESSION_PANE_BYTES"
    using capacity_Ok [OF cap] probe by auto
  then show ?thesis using room by (auto simp: room_ok_def sp used_bytes_snoc p)
qed

lemma new_pane_facts [simp]:
  "p_id (new_pane pid wid cwd command) = pid" "p_window_id (new_pane pid wid cwd command) = wid"
  "p_command (new_pane pid wid cwd command) = command" "p_cwd (new_pane pid wid cwd command) = cwd"
  "titles_ok (new_pane pid wid cwd command)"
  by (simp_all add: new_pane_def pane_new_titles_ok pane_with_command_titles_ok)

text \<open>
  A new window with its first pane, in an existing session or in a new one.  \<open>sn\<close> is the state
  before, \<open>s'\<close> the session as it is afterwards.
\<close>

definition adds_window :: "snapshot \<Rightarrow> snapshot \<Rightarrow> session_id \<Rightarrow> session \<Rightarrow> window_id \<Rightarrow> window \<Rightarrow> pane_id \<Rightarrow> pane \<Rightarrow> bool" where
  "adds_window sn sn' sid s' wid w pid p \<longleftrightarrow>
     get_window sn wid = None \<and> get_pane sn pid = None \<and>
     w_id w = wid \<and> w_session_id w = sid \<and> p_id p = pid \<and> p_window_id p = wid \<and> titles_ok p \<and>
     hm_wf (sn_sessions sn') \<and>
     hm_get (sn_sessions sn') = (hm_get (sn_sessions sn))(sid \<mapsto> s') \<and>
     sn_windows sn' = hm_insert wid w (sn_windows sn) \<and> sn_panes sn' = hm_insert pid p (sn_panes sn) \<and>
     s_id s' = sid \<and> distinct (s_windows s') \<and> s_active_window s' \<in> set (s_windows s') \<and>
     (case get_session sn sid of
        None \<Rightarrow> s_windows s' = [wid]
      | Some s \<Rightarrow> s_name s' = s_name s \<and> set (s_windows s') = insert wid (set (s_windows s)))"

lemma adds_window_refs:
  assumes add: "adds_window sn sn' sid s' wid w pid p" and ok: "refs_ok sn"
  shows "refs_ok sn'"
proof -
  have lw: "\<And>i. get_window sn' i = (if i = wid then Some w else get_window sn i)"
    and lp: "\<And>i. get_pane sn' i = (if i = pid then Some p else get_pane sn i)"
    and ls: "\<And>j. get_session sn' j = (if j = sid then Some s' else get_session sn j)"
    using add by (auto simp: adds_window_def store_simps)
  have new: "get_window sn wid = None" "get_pane sn pid = None" and
    f: "w_id w = wid" "w_session_id w = sid" "p_id p = pid" "p_window_id p = wid" "titles_ok p" "s_id s' = sid"
      "distinct (s_windows s')" "s_active_window s' \<in> set (s_windows s')"
    and wf: "hm_wf (sn_sessions sn')" "hm_wf (sn_windows sn')" "hm_wf (sn_panes sn')"
    using add refs_okD(2,3) [OF ok] by (auto simp: adds_window_def store_simps)
  have mem: "wid \<in> set (s_windows s')" "\<And>s. get_session sn sid = Some s \<Longrightarrow> set (s_windows s) \<subseteq> set (s_windows s')"
    "\<And>i. i \<in> set (s_windows s') \<Longrightarrow> i = wid \<or> (\<exists>s. get_session sn sid = Some s \<and> i \<in> set (s_windows s))"
    using add by (auto simp: adds_window_def split: option.splits)
  have "session_ok sn' j t" if "get_session sn' j = Some t" for j t
  proof (cases "j = sid")
    case True
    then have t: "t = s'" using that by (simp add: ls)
    have "\<exists>v. get_window sn' i = Some v \<and> w_session_id v = sid" if "i \<in> set (s_windows s')" for i
      using mem(3) [OF that] f(2) refs_okD(4) [OF ok] by (auto simp: lw session_ok_def)
    then show ?thesis using f True by (simp add: session_ok_def t)
  next
    case False
    with that have t: "get_session sn j = Some t" by (simp add: ls)
    then show ?thesis using refs_okD(4) [OF ok t] new(1) by (fastforce simp: session_ok_def lw)
  qed
  moreover have "window_ok sn' i v" if "get_window sn' i = Some v" for i v
  proof (cases "i = wid")
    case True
    then show ?thesis using that f mem(1) by (auto simp: lw ls lp window_ok_def)
  next
    case False
    with that have v: "get_window sn i = Some v" by (simp add: lw)
    note okv = refs_okD(5) [OF ok v]
    obtain q a where q: "get_pane sn q = Some a" "p_window_id a = i" using okv by (auto simp: window_ok_def)
    then have "get_pane sn' q = Some a" using new(2) by (auto simp: lp)
    moreover have "\<exists>t. get_session sn' (w_session_id v) = Some t \<and> i \<in> set (s_windows t)"
      using okv mem(2) by (auto simp: window_ok_def ls)
    ultimately show ?thesis using okv q(2) by (auto simp: window_ok_def)
  qed
  moreover have "pane_ok sn' i a" if "get_pane sn' i = Some a" for i a
    using that f refs_okD(6) [OF ok, of i a] by (auto simp: lp lw pane_ok_def split: if_splits)
  ultimately show ?thesis using wf by (simp add: refs_ok_def)
qed

lemma adds_window_names:
  assumes add: "adds_window sn sn' sid s' wid w pid p" and refs: "refs_ok sn" and ok: "names_ok h sn"
    and title: "validate_window_title (w_title w) = Ok (w_title w)"
    and uniq: "\<not> window_name_exists_in_session sn sid (w_title w)"
    and name: "get_session sn sid = None \<longrightarrow>
      validate_session_name h (s_name s') = Ok () \<and> \<not> session_name_exists sn (s_name s')"
  shows "names_ok h sn'"
proof -
  have lw: "\<And>i. get_window sn' i = (if i = wid then Some w else get_window sn i)"
    and ls: "\<And>j. get_session sn' j = (if j = sid then Some s' else get_session sn j)"
    and ws: "w_session_id w = sid" and new: "get_window sn wid = None"
    using add by (auto simp: adds_window_def store_simps)
  have old: "s_name s' = s_name s" if "get_session sn sid = Some s" for s
    using add that by (simp add: adds_window_def)
  have free: "s_name t \<noteq> s_name s'" if "get_session sn j = Some t" "j \<noteq> sid" for j t
  proof (cases "get_session sn sid")
    case None
    then have "\<not> session_name_exists sn (s_name s')" using name by blast
    moreover have "t \<in> set (hm_values (sn_sessions sn))" using that(1) refs_okD(1) [OF refs] by (auto simp: hm_values_iff)
    ultimately show ?thesis by (auto simp: session_name_exists_def list_ex_iff)
  next
    case (Some s)
    then show ?thesis using names_okD(2) [OF ok that(1) Some] that(2) old [OF Some] by auto
  qed
  have san: "sanitize_title (w_title w) = w_title w"
    using title by (auto simp: validate_window_title_def Let_def split: if_splits)
  have tfree: "w_title v \<noteq> w_title w" if v: "get_window sn i = Some v" "w_session_id v = sid" for i v
  proof
    assume "w_title v = w_title w"
    moreover obtain s where s: "get_session sn sid = Some s" "i \<in> set (s_windows s)"
      using refs_okD(5) [OF refs v(1)] v(2) by (auto simp: window_ok_def)
    then have "v \<in> set (session_windows sn sid)" using v(1) by (auto simp: session_windows_def map_filter_set)
    ultimately show False using uniq by (simp add: window_name_exists_iff san) (metis imageI)
  qed
  show ?thesis
  proof (rule names_okI)
    fix j t assume "get_session sn' j = Some t"
    then show "validate_session_name h (s_name t) = Ok ()"
      using names_okD(1) [OF ok] name old by (cases "get_session sn sid") (auto simp: ls split: if_splits)
  next
    fix i a j b assume "get_session sn' i = Some a" "get_session sn' j = Some b" "s_name a = s_name b"
    then show "i = j" using names_okD(2) [OF ok, of i a j b] free by (auto simp: ls split: if_splits)
  next
    fix i v assume "get_window sn' i = Some v"
    then show "validate_window_title (w_title v) = Ok (w_title v)"
      using names_okD(3) [OF ok] title by (auto simp: lw split: if_splits)
  next
    fix i a j b assume ab: "get_window sn' i = Some a" "get_window sn' j = Some b"
      "w_session_id a = w_session_id b" "w_title a = w_title b"
    then show "i = j"
      using names_okD(4) [OF ok, of i a j b] tfree ws by (auto simp: lw split: if_splits)
  qed
qed

lemma adds_window_layout:
  assumes add: "adds_window sn sn' sid s' wid w pid p" and refs: "refs_ok sn" and ok: "layout_ok sn"
    and w: "w_layout w = wl_new pid" "w_active_pane w = pid"
  shows "layout_ok sn'"
proof -
  have lw: "\<And>i. get_window sn' i = (if i = wid then Some w else get_window sn i)"
    and lp: "\<And>i. get_pane sn' i = (if i = pid then Some p else get_pane sn i)"
    and new: "get_window sn wid = None" "get_pane sn pid = None" and pw: "p_window_id p = wid"
    using add by (auto simp: adds_window_def store_simps)
  have none: "p_window_id a \<noteq> wid" if "get_pane sn q = Some a" for q a
    using refs_okD(6) [OF refs that] new(1) by (auto simp: pane_ok_def)
  have pin: "panes_in sn' i = (if i = wid then {pid} else panes_in sn i)" for i
    using none new pw by (auto simp: panes_in_def lp)
  show ?thesis unfolding layout_ok_def
  proof (intro allI impI)
    fix i v assume "get_window sn' i = Some v"
    then show "arranged sn' i v"
      using ok w wl_new_facts [of pid] by (auto simp: arranged_def pin lw layout_ok_def split: if_splits)
  qed
qed

text \<open>A new pane in a window that may change with it.\<close>

definition adds_pane :: "snapshot \<Rightarrow> snapshot \<Rightarrow> window_id \<Rightarrow> (window \<Rightarrow> window) \<Rightarrow> pane_id \<Rightarrow> pane \<Rightarrow> bool" where
  "adds_pane sn sn' wid f pid p \<longleftrightarrow>
     get_pane sn pid = None \<and> get_window sn wid \<noteq> None \<and> p_id p = pid \<and> p_window_id p = wid \<and> titles_ok p \<and>
     (\<forall>w. window_keep w (f w) \<and> w_title (f w) = w_title w) \<and>
     sn_sessions sn' = sn_sessions sn \<and> sn_panes sn' = hm_insert pid p (sn_panes sn) \<and>
     hm_wf (sn_windows sn') \<and>
     (\<forall>i. get_window sn' i = (if i = wid then map_option f (get_window sn i) else get_window sn i))"

lemma adds_pane_windows:
  assumes "adds_pane sn sn' wid f pid p"
  shows "get_window sn' i = Some w \<Longrightarrow> \<exists>v. get_window sn i = Some v \<and> window_keep v w \<and> w_title w = w_title v"
    and "get_window sn i = Some v \<Longrightarrow> \<exists>w. get_window sn' i = Some w \<and> window_keep v w \<and> w_title w = w_title v"
proof -
  have lw: "get_window sn' i = (if i = wid then map_option f (get_window sn i) else get_window sn i)"
    and f: "\<And>w. window_keep w (f w) \<and> w_title (f w) = w_title w"
    using assms by (auto simp: adds_pane_def)
  show "get_window sn' i = Some w \<Longrightarrow> \<exists>v. get_window sn i = Some v \<and> window_keep v w \<and> w_title w = w_title v"
    using f by (auto simp: lw split: if_splits)
  show "get_window sn i = Some v \<Longrightarrow> \<exists>w. get_window sn' i = Some w \<and> window_keep v w \<and> w_title w = w_title v"
    using f by (auto simp: lw)
qed

lemma adds_pane_refs:
  assumes add: "adds_pane sn sn' wid f pid p" and ok: "refs_ok sn"
  shows "refs_ok sn'"
proof -
  note fwd = adds_pane_windows(2) [OF add] and bwd = adds_pane_windows(1) [OF add]
  have lp: "\<And>i. get_pane sn' i = (if i = pid then Some p else get_pane sn i)"
    and new: "get_pane sn pid = None" and p: "p_id p = pid" "p_window_id p = wid" "titles_ok p" "get_window sn wid \<noteq> None"
    and ls: "sn_sessions sn' = sn_sessions sn" and wf: "hm_wf (sn_windows sn')" "hm_wf (sn_panes sn')"
    using add refs_okD(3) [OF ok] by (auto simp: adds_pane_def store_simps)
  have "session_ok sn' j t" if "get_session sn' j = Some t" for j t
    using that refs_okD(4) [OF ok, of j t] fwd by (fastforce simp: session_ok_def window_keep_def ls)
  moreover have "window_ok sn' i w" if w: "get_window sn' i = Some w" for i w
  proof -
    obtain v where v: "get_window sn i = Some v" "window_keep v w" using bwd [OF w] by blast
    note okv = refs_okD(5) [OF ok v(1)]
    obtain q a where q: "get_pane sn q = Some a" "p_window_id a = i" using okv by (auto simp: window_ok_def)
    then have "get_pane sn' q = Some a" using new by (auto simp: lp)
    then show ?thesis using okv v(2) q(2) by (auto simp: window_ok_def window_keep_def ls)
  qed
  moreover have "pane_ok sn' i a" if "get_pane sn' i = Some a" for i a
  proof (cases "i = pid")
    case True
    moreover obtain v where "get_window sn wid = Some v" using p(4) by blast
    ultimately show ?thesis using that p(1-3) fwd by (fastforce simp: lp pane_ok_def)
  next
    case False
    then show ?thesis using that refs_okD(6) [OF ok, of i a] fwd by (fastforce simp: lp pane_ok_def)
  qed
  ultimately show ?thesis using wf refs_okD(1) [OF ok] by (simp add: refs_ok_def ls)
qed

lemma adds_pane_names:
  assumes add: "adds_pane sn sn' wid f pid p" and ok: "names_ok h sn"
  shows "names_ok h sn'"
proof (rule names_okI)
  have ls: "sn_sessions sn' = sn_sessions sn" using add by (simp add: adds_pane_def)
  show "get_session sn' j = Some t \<Longrightarrow> validate_session_name h (s_name t) = Ok ()" for j t
    using names_okD(1) [OF ok] by (simp add: ls)
  show "get_session sn' i = Some a \<Longrightarrow> get_session sn' j = Some b \<Longrightarrow> s_name a = s_name b \<Longrightarrow> i = j" for i a j b
    using names_okD(2) [OF ok] by (simp add: ls)
  show "get_window sn' i = Some v \<Longrightarrow> validate_window_title (w_title v) = Ok (w_title v)" for i v
    using adds_pane_windows(1) [OF add] names_okD(3) [OF ok] by metis
  show "get_window sn' i = Some a \<Longrightarrow> get_window sn' j = Some b \<Longrightarrow> w_session_id a = w_session_id b \<Longrightarrow>
      w_title a = w_title b \<Longrightarrow> i = j" for i a j b
    using adds_pane_windows(1) [OF add] names_okD(4) [OF ok] unfolding window_keep_def by metis
qed

lemma adds_pane_layout:
  assumes add: "adds_pane sn sn' wid f pid p" and ok: "layout_ok sn"
    and new: "\<And>w. get_window sn wid = Some w \<Longrightarrow> arranged sn wid w \<Longrightarrow>
      wl_ok (w_layout (f w)) \<and> wl_panes (w_layout (f w)) = insert pid (wl_panes (w_layout w)) \<and>
      w_active_pane (f w) \<in> set (wl_shown (w_layout (f w)))"
  shows "layout_ok sn'"
  unfolding layout_ok_def
proof (intro allI impI)
  have lp: "\<And>i. get_pane sn' i = (if i = pid then Some p else get_pane sn i)"
    and fresh: "get_pane sn pid = None" and pw: "p_window_id p = wid"
    and lw: "\<And>i. get_window sn' i = (if i = wid then map_option f (get_window sn i) else get_window sn i)"
    using add by (auto simp: adds_pane_def store_simps)
  have pin: "panes_in sn' i = (if i = wid then insert pid (panes_in sn i) else panes_in sn i)" for i
    using fresh pw by (auto simp: panes_in_def lp)
  fix i w assume w: "get_window sn' i = Some w"
  show "arranged sn' i w"
  proof (cases "i = wid")
    case True
    with w obtain v where v: "get_window sn wid = Some v" "w = f v" by (auto simp: lw)
    then have "arranged sn wid v" using ok by (simp add: layout_ok_def)
    with new [OF v(1)] v(2) True show ?thesis by (simp add: arranged_def pin)
  next
    case False
    then show ?thesis using w ok by (simp add: lw layout_ok_def arranged_def pin)
  qed
qed

section \<open>Removals\<close>

text \<open>The panes \<open>K\<close> and the windows \<open>W\<close> go, with every session all of whose windows are in \<open>W\<close>.\<close>

definition removes :: "snapshot \<Rightarrow> snapshot \<Rightarrow> pane_id set \<Rightarrow> window_id set \<Rightarrow> bool" where
  "removes sn sn' K W \<longleftrightarrow>
     hm_wf (sn_sessions sn') \<and> hm_wf (sn_windows sn') \<and>
     sn_panes sn' = filter (\<lambda>x. fst x \<notin> K) (sn_panes sn) \<and>
     (\<forall>pid p. get_pane sn pid = Some p \<longrightarrow> p_window_id p \<in> W \<longrightarrow> pid \<in> K) \<and>
     (\<forall>i w. get_window sn' i = Some w \<longrightarrow>
        i \<notin> W \<and> (\<exists>v. get_window sn i = Some v \<and> window_keep v w \<and> w_title w = w_title v) \<and>
        (\<exists>t. get_session sn' (w_session_id w) = Some t) \<and>
        (\<exists>pid p. get_pane sn pid = Some p \<and> p_window_id p = i \<and> pid \<notin> K)) \<and>
     (\<forall>i v. get_window sn i = Some v \<longrightarrow> i \<notin> W \<longrightarrow> (\<exists>w. get_window sn' i = Some w \<and> window_keep v w)) \<and>
     (\<forall>j t. get_session sn' j = Some t \<longrightarrow>
        (\<exists>s. get_session sn j = Some s \<and> s_id t = s_id s \<and> s_name t = s_name s \<and>
           set (s_windows t) = set (s_windows s) - W \<and> distinct (s_windows t) \<and> s_active_window t \<in> set (s_windows t)))"

lemma removesD:
  assumes "removes sn sn' K W"
  shows "hm_wf (sn_sessions sn')" "hm_wf (sn_windows sn')" "sn_panes sn' = filter (\<lambda>x. fst x \<notin> K) (sn_panes sn)"
    and "get_pane sn pid = Some p \<Longrightarrow> p_window_id p \<in> W \<Longrightarrow> pid \<in> K"
    and "get_window sn' i = Some w \<Longrightarrow>
        i \<notin> W \<and> (\<exists>v. get_window sn i = Some v \<and> window_keep v w \<and> w_title w = w_title v) \<and>
        (\<exists>t. get_session sn' (w_session_id w) = Some t) \<and>
        (\<exists>pid p. get_pane sn pid = Some p \<and> p_window_id p = i \<and> pid \<notin> K)"
    and "get_window sn i = Some v \<Longrightarrow> i \<notin> W \<Longrightarrow> \<exists>w. get_window sn' i = Some w \<and> window_keep v w"
    and "get_session sn' j = Some t \<Longrightarrow>
        \<exists>s. get_session sn j = Some s \<and> s_id t = s_id s \<and> s_name t = s_name s \<and>
          set (s_windows t) = set (s_windows s) - W \<and> distinct (s_windows t) \<and> s_active_window t \<in> set (s_windows t)"
  using assms unfolding removes_def by blast+

lemma get_filter_keys: "hm_get (filter (\<lambda>x. fst x \<notin> K) m) k = (if k \<in> K then None else hm_get m k)"
  by (induction m) auto

lemma wf_filter: "hm_wf m \<Longrightarrow> hm_wf (filter P m)"
  by (simp add: hm_wf_def distinct_map_filter)

lemma removes_refs:
  assumes rm: "removes sn sn' K W" and ok: "refs_ok sn"
  shows "refs_ok sn'"
proof -
  note d = removesD [OF rm]
  have lp: "get_pane sn' i = (if i \<in> K then None else get_pane sn i)" for i by (simp add: d(3) get_filter_keys)
  have "session_ok sn' j t" if t: "get_session sn' j = Some t" for j t
  proof -
    obtain s where s: "get_session sn j = Some s" "s_id t = s_id s" "set (s_windows t) = set (s_windows s) - W"
      "distinct (s_windows t)" "s_active_window t \<in> set (s_windows t)" using d(7) [OF t] by blast
    have "\<exists>w. get_window sn' i = Some w \<and> w_session_id w = j" if "i \<in> set (s_windows t)" for i
      using refs_okD(4) [OF ok s(1)] that d(6) s(3) by (fastforce simp: session_ok_def window_keep_def)
    then show ?thesis using refs_okD(4) [OF ok s(1)] s by (simp add: session_ok_def)
  qed
  moreover have "window_ok sn' i w" if w: "get_window sn' i = Some w" for i w
  proof -
    obtain v where v: "i \<notin> W" "get_window sn i = Some v" "window_keep v w" using d(5) [OF w] by blast
    obtain t where t: "get_session sn' (w_session_id w) = Some t" using d(5) [OF w] by blast
    obtain q a where q: "get_pane sn q = Some a" "p_window_id a = i" "q \<notin> K" using d(5) [OF w] by blast
    obtain s where "get_session sn (w_session_id w) = Some s" "set (s_windows t) = set (s_windows s) - W"
      using d(7) [OF t] by blast
    moreover note okv = refs_okD(5) [OF ok v(2)]
    ultimately have "i \<in> set (s_windows t)" using v by (auto simp: window_ok_def window_keep_def)
    with t q okv v(3) show ?thesis by (auto simp: window_ok_def window_keep_def lp)
  qed
  moreover have "pane_ok sn' i a" if "get_pane sn' i = Some a" for i a
  proof -
    from that have a: "get_pane sn i = Some a" "i \<notin> K" by (auto simp: lp split: if_splits)
    note oka = refs_okD(6) [OF ok a(1)]
    then obtain w where "get_window sn (p_window_id a) = Some w" by (auto simp: pane_ok_def)
    moreover have "p_window_id a \<notin> W" using d(4) [OF a(1)] a(2) by blast
    ultimately show ?thesis using oka d(6) by (fastforce simp: pane_ok_def)
  qed
  ultimately show ?thesis using d(1-3) refs_okD(3) [OF ok] by (simp add: refs_ok_def wf_filter)
qed

lemma removes_names:
  assumes rm: "removes sn sn' K W" and ok: "names_ok h sn"
  shows "names_ok h sn'"
proof (rule names_okI)
  note d = removesD [OF rm]
  show "get_session sn' j = Some t \<Longrightarrow> validate_session_name h (s_name t) = Ok ()" for j t
    using d(7) names_okD(1) [OF ok] by metis
  show "get_session sn' i = Some a \<Longrightarrow> get_session sn' j = Some b \<Longrightarrow> s_name a = s_name b \<Longrightarrow> i = j" for i a j b
    using d(7) names_okD(2) [OF ok] by metis
  show "get_window sn' i = Some v \<Longrightarrow> validate_window_title (w_title v) = Ok (w_title v)" for i v
    using d(5) names_okD(3) [OF ok] by metis
  show "get_window sn' i = Some a \<Longrightarrow> get_window sn' j = Some b \<Longrightarrow> w_session_id a = w_session_id b \<Longrightarrow>
      w_title a = w_title b \<Longrightarrow> i = j" for i a j b
    using d(5) names_okD(4) [OF ok] unfolding window_keep_def by metis
qed

lemma used_bytes_sum: "used_bytes h ps = min (sum_list (map (\<lambda>p. pane_bytes h (p_command p) (p_cwd p)) ps)) usize_max"
proof (induction ps rule: rev_induct)
  case (snoc p ps)
  then show ?case by (auto simp: used_bytes_snoc sat_add_usize_def min_def)
qed (simp add: used_bytes_def)

lemma filter_sub_sum:
  "\<forall>x \<in> set m. Q x \<longrightarrow> P' (snd x) \<longrightarrow> P (snd x) \<Longrightarrow>
     sum_list (map (f :: _ \<Rightarrow> nat) (filter P' (map snd (filter Q m)))) \<le> sum_list (map f (filter P (map snd m))) \<and>
     length (filter P' (map snd (filter Q m))) \<le> length (filter P (map snd m))"
  by (induction m) auto

lemma removes_room:
  assumes rm: "removes sn sn' K W" and refs: "refs_ok sn" and ok: "room_ok h sn"
  shows "room_ok h sn'"
proof -
  note d = removesD [OF rm]
  have sub: "sum_list (map f (session_panes sn' sid)) \<le> sum_list (map f (session_panes sn sid)) \<and>
      length (session_panes sn' sid) \<le> length (session_panes sn sid)" for sid and f :: "pane \<Rightarrow> nat"
    unfolding session_panes_def hm_values_def d(3)
  proof (rule filter_sub_sum, intro ballI impI)
    fix x assume "map_option w_session_id (get_window sn' (p_window_id (snd x))) = Some sid"
    then obtain w where w: "get_window sn' (p_window_id (snd x)) = Some w" "w_session_id w = sid" by auto
    then show "map_option w_session_id (get_window sn (p_window_id (snd x))) = Some sid"
      using d(5) [OF w(1)] by (auto simp: window_keep_def)
  qed
  show ?thesis unfolding room_ok_def
  proof
    fix sid
    have "used_bytes h (session_panes sn' sid) \<le> used_bytes h (session_panes sn sid)"
      using sub [of _ sid] by (simp add: used_bytes_sum min_le_iff_disj)
    then show "length (session_panes sn' sid) \<le> MAX_PANES_PER_SESSION \<and>
        used_bytes h (session_panes sn' sid) \<le> MAX_SESSION_PANE_BYTES"
      using sub [of "\<lambda>_. 0" sid] ok unfolding room_ok_def by (meson le_trans)
  qed
qed

lemma removes_snap_ok: "removes sn sn' K W \<Longrightarrow> snap_ok h sn \<Longrightarrow> snap_ok h sn'"
  using removes_refs removes_names removes_room unfolding snap_ok_def by blast

lemma fold_remove: "fold hm_remove ks m = filter (\<lambda>x. fst x \<notin> set ks) m"
proof (induction ks arbitrary: m)
  case (Cons k ks)
  then show ?case by (auto simp: hm_remove_def case_prod_unfold intro: filter_cong)
qed simp

lemma removes_layout:
  assumes rm: "removes sn sn' K W" and ok: "layout_ok sn"
    and new: "\<And>i v w. get_window sn i = Some v \<Longrightarrow> get_window sn' i = Some w \<Longrightarrow> arranged sn i v \<Longrightarrow>
      wl_ok (w_layout w) \<and> wl_panes (w_layout w) = wl_panes (w_layout v) - K \<and> w_active_pane w \<in> set (wl_shown (w_layout w))"
  shows "layout_ok sn'"
  unfolding layout_ok_def
proof (intro allI impI)
  note d = removesD [OF rm]
  fix i w assume w: "get_window sn' i = Some w"
  then obtain v where v: "get_window sn i = Some v" using d(5) by blast
  then have "arranged sn i v" using ok by (simp add: layout_ok_def)
  moreover have "panes_in sn' i = panes_in sn i - K" by (auto simp: panes_in_def d(3) get_filter_keys)
  ultimately show "arranged sn' i w" using new [OF v w] by (simp add: arranged_def)
qed

end
