(* ===== verification/Graph_Stage.thy ===== *)
theory Graph_Stage
  imports Graph_Ops
begin

text \<open>
  The staged forms of the three creating operations (\<open>stage_create_session\<close>, \<open>stage_create_window\<close>,
  \<open>stage_split_pane\<close> in \<^verbatim>\<open>shux-core/src/graph.rs\<close>), which change a snapshot and return the events to
  fire, and their relation to the operations that commit at once.
\<close>

section \<open>Staged operations\<close>

text \<open>\<open>None\<close> and the empty string both mean that the template leaves the title to the default.\<close>

definition initial_title ::
  "snapshot \<Rightarrow> session_id \<Rightarrow> rstring list \<Rightarrow> rstring \<Rightarrow> rstring option \<Rightarrow> (rstring, graph_error) result" where
  "initial_title sn probe initial_command cwd initial_window_title =
     (case initial_window_title of
        Some raw \<Rightarrow>
          if raw \<noteq> [] then validate_window_title raw else Ok (default_window_title sn probe initial_command cwd)
      | None \<Rightarrow> Ok (default_window_title sn probe initial_command cwd))"

text \<open>\<open>seq\<close> is the session counter, a static in the code: staging a session advances it.\<close>

definition stage_create_session ::
  "host \<Rightarrow> fresh \<Rightarrow> snapshot \<Rightarrow> u64 \<Rightarrow> rstring \<Rightarrow> rstring \<Rightarrow> rstring list \<Rightarrow> rstring option \<Rightarrow>
     (session_id \<times> window_id \<times> pane_id \<times> event_data list \<times> snapshot \<times> u64, graph_error) result" where
  "stage_create_session h f sn seq name cwd initial_command initial_window_title =
     (case validate_session_name h name of
        Err e \<Rightarrow> Err e
      | Ok _ \<Rightarrow>
          if session_name_exists sn name then Err (SessionNameExists name)
          else case check_session_capacity h sn (fr_probe f) initial_command cwd of
                 Err e \<Rightarrow> Err e
               | Ok _ \<Rightarrow>
                   let pid = fr_pane f; wid = fr_window f; sid = fr_session f;
                       pane = new_pane pid wid cwd initial_command
                   in case initial_title sn (fr_title_probe f) initial_command (p_cwd pane) initial_window_title of
                        Err e \<Rightarrow> Err e
                      | Ok title \<Rightarrow>
                          let window = window_new wid sid title pid;
                              session = session_new sid (fr_now f) seq name wid;
                              sn' = (touch sn)
                                      \<lparr>sn_panes := hm_insert pid pane (sn_panes sn),
                                       sn_windows := hm_insert wid window (sn_windows sn),
                                       sn_sessions := hm_insert sid session (sn_sessions sn)\<rparr>
                          in Ok (sid, wid, pid,
                                 [SessionCreated sid name, WindowCreated wid sid title 1, PaneCreated pid wid sid initial_command],
                                 sn', seq + 1))"

definition stage_create_window ::
  "host \<Rightarrow> fresh \<Rightarrow> snapshot \<Rightarrow> session_id \<Rightarrow> rstring \<Rightarrow> rstring \<Rightarrow> rstring list \<Rightarrow>
     (window_id \<times> pane_id \<times> event_data list \<times> snapshot, graph_error) result" where
  "stage_create_window h f sn sid title cwd initial_command =
     (if \<not> hm_contains (sn_sessions sn) sid then Err (SessionNotFound sid)
      else case validate_window_title title of
             Err e \<Rightarrow> Err e
           | Ok title \<Rightarrow>
               if window_name_exists_in_session sn sid title then Err (WindowNameConflict title)
               else case check_session_capacity h sn sid initial_command cwd of
                      Err e \<Rightarrow> Err e
                    | Ok _ \<Rightarrow>
                        let pid = fr_pane f; wid = fr_window f;
                            sn1 = (touch sn)
                                    \<lparr>sn_panes := hm_insert pid (new_pane pid wid cwd initial_command) (sn_panes sn),
                                     sn_windows := hm_insert wid (window_new wid sid title pid) (sn_windows sn)\<rparr>;
                            sn' = on_session sid (\<lambda>s. s\<lparr>s_windows := s_windows s @ [wid], s_active_window := wid\<rparr>) sn1;
                            event_index = (case get_session sn' sid of None \<Rightarrow> 0 | Some s \<Rightarrow> as_u32 (length (s_windows s)))
                        in Ok (wid, pid, [WindowCreated wid sid title event_index, PaneCreated pid wid sid initial_command], sn'))"

definition stage_split_pane ::
  "host \<Rightarrow> fresh \<Rightarrow> snapshot \<Rightarrow> pane_id \<Rightarrow> direction \<Rightarrow> f32 \<Rightarrow> rstring list \<Rightarrow> rstring option \<Rightarrow>
     (pane_id \<times> window_id \<times> session_id \<times> event_data list \<times> snapshot, graph_error) result" where
  "stage_split_pane h f sn target_pane d ratio command cwd =
     (case get_pane sn target_pane of
        None \<Rightarrow> Err (PaneNotFound target_pane)
      | Some target \<Rightarrow>
          let wid = p_window_id target;
              pane_cwd = (case cwd of None \<Rightarrow> p_cwd target | Some c \<Rightarrow> c)
          in case get_window sn wid of
               None \<Rightarrow> Err (WindowNotFound wid)
             | Some window \<Rightarrow>
                 let sid = w_session_id window
                 in case check_session_capacity h sn sid command pane_cwd of
                      Err e \<Rightarrow> Err e
                    | Ok _ \<Rightarrow>
                        let pid = fr_pane f;
                            unzoomed = zoomed_pane (w_layout window);
                            (layout, split_ok) = wl_split_pane (w_layout window) target_pane pid d ratio
                        in if \<not> split_ok then Err (LayoutError (ascii ''split_pane failed''))
                           else
                             let sn1 = on_window wid (\<lambda>w. w\<lparr>w_layout := layout, w_active_pane := pid\<rparr>) (touch sn);
                                 sn' = sn1\<lparr>sn_panes := hm_insert pid (new_pane pid wid pane_cwd command) (sn_panes sn1)\<rparr>
                             in Ok (pid, wid, sid, unzoom_events unzoomed wid sid @ [PaneCreated pid wid sid command], sn'))"

section \<open>Staging against committing at once\<close>

text \<open>
  \<open>commits h g r out\<close>: the operation's outcome \<open>r\<close> is that of staging with result \<open>out\<close>.  On success it
  commits the staged snapshot and fires the staged events in order, on failure it changes nothing.
\<close>

definition commits :: "host \<Rightarrow> graph \<Rightarrow> 'a reply \<Rightarrow> ('a \<times> event_data list \<times> snapshot, graph_error) result \<Rightarrow> bool" where
  "commits h g r out \<longleftrightarrow>
     (case out of
        Ok (v, evs, sn) \<Rightarrow> r = (Ok v, commit_and_fire h g sn evs)
      | Err _ \<Rightarrow> (\<exists>e. r = (Err e, g)))"

fun map_ok :: "('a \<Rightarrow> 'b) \<Rightarrow> ('a, 'e) result \<Rightarrow> ('b, 'e) result" where
  "map_ok f (Ok v) = Ok (f v)"
| "map_ok f (Err e) = Err e"

lemma create_session_stages:
  "commits h (g\<lparr>g_next_session_seq := g_next_session_seq g + (if is_Ok (fst r) then 1 else 0)\<rparr>) r
     (map_ok (\<lambda>(sid, wid, pid, evs, sn, seq). (sid, evs, sn))
        (stage_create_session h f (g_state g) (g_next_session_seq g) name cwd command None))"
  if "r = create_session_with_command h f g name cwd command"
  unfolding that
  by (auto simp: commits_def create_session_with_command_def stage_create_session_def initial_title_def Let_def
      split: result.splits)

lemma create_window_stages:
  "commits h g (create_window_with_command h f g sid title cwd command)
     (map_ok (\<lambda>(wid, pid, evs, sn). (wid, evs, sn)) (stage_create_window h f (g_state g) sid title cwd command))"
  by (auto simp: commits_def create_window_with_command_def stage_create_window_def Let_def split: result.splits)

lemma split_pane_stages:
  "commits h g (split_pane_with_command h f g target d ratio command)
     (map_ok (\<lambda>(pid, wid, sid, evs, sn). (pid, evs, sn)) (stage_split_pane h f (g_state g) target d ratio command None))"
  by (auto simp: commits_def split_pane_with_command_def stage_split_pane_def find_pane_window_def Let_def
      split: result.splits option.splits prod.splits)

end
