(* ===== verification/Graph_Keeps.thy ===== *)
theory Graph_Keeps
  imports Graph_Inv Graph_Stage "HOL-Library.Multiset"
begin

text \<open>
  Every operation of the session graph keeps the invariants of \<^verbatim>\<open>Graph_Inv\<close>.  \<open>safe h sn sn'\<close> says
  that the state \<open>sn'\<close> is consistent, and arranged if \<open>sn\<close> was; each operation has one lemma.
  \<open>CreatePane\<close> alone does not keep the arrangement.
\<close>

section \<open>Safe changes\<close>

definition safe :: "host \<Rightarrow> snapshot \<Rightarrow> snapshot \<Rightarrow> bool" where
  "safe h sn sn' \<longleftrightarrow> snap_ok h sn' \<and> (layout_ok sn \<longrightarrow> layout_ok sn')"

definition fresh_ok :: "fresh \<Rightarrow> snapshot \<Rightarrow> bool" where
  "fresh_ok f sn \<longleftrightarrow>
     get_session sn (fr_session f) = None \<and> get_session sn (fr_probe f) = None \<and>
     get_session sn (fr_title_probe f) = None \<and> get_window sn (fr_window f) = None \<and> get_pane sn (fr_pane f) = None"

lemma safe_refl [simp]: "safe h sn sn \<longleftrightarrow> snap_ok h sn"
  by (simp add: safe_def)

lemma safe_trans: "safe h a b \<Longrightarrow> safe h b c \<Longrightarrow> safe h a c"
  by (auto simp: safe_def)

lemma safeD: "safe h a b \<Longrightarrow> snap_ok h b"
  by (simp add: safe_def)

lemma snap_okD: "snap_ok h sn \<Longrightarrow> refs_ok sn" "snap_ok h sn \<Longrightarrow> names_ok h sn" "snap_ok h sn \<Longrightarrow> room_ok h sn"
  by (simp_all add: snap_ok_def)

lemma snap_ok_wf: "snap_ok h sn \<Longrightarrow> hm_wf (sn_sessions sn)" "snap_ok h sn \<Longrightarrow> hm_wf (sn_windows sn)" "snap_ok h sn \<Longrightarrow> hm_wf (sn_panes sn)"
  using refs_okD(1-3) snap_okD(1) by blast+

lemma still_safe: "still sn sn' \<Longrightarrow> snap_ok h sn \<Longrightarrow> safe h sn sn'"
  using still_layout_ok [of sn sn'] quiet_snap_ok [of sn sn' h] unfolding safe_def still_def by blast

text \<open>The two follow-ups of a layout change: bumping the panes of a window, one by one or in one pass.\<close>

lemma safe_bump_window_panes: "safe h sn sn' \<Longrightarrow> safe h sn (bump_window_panes wid sn')"
  using still_safe [OF still_bump_window_panes] safe_trans safeD by blast

lemma safe_bump_where: "safe h sn sn' \<Longrightarrow> safe h sn (sn'\<lparr>sn_panes := hm_modify_where P bump_pane (sn_panes sn')\<rparr>)"
  using still_safe [OF still_bump_where] safe_trans safeD by blast

lemma pane_window:
  assumes "snap_ok h sn" "get_pane sn pid = Some p"
  obtains w where "get_window sn (p_window_id p) = Some w" "p_id p = pid"
  using refs_okD(6) [OF snap_okD(1) [OF assms(1)] assms(2)] by (auto simp: pane_ok_def)

lemma window_session:
  assumes "snap_ok h sn" "get_window sn wid = Some w"
  obtains s where "get_session sn (w_session_id w) = Some s" "wid \<in> set (s_windows s)" "w_id w = wid"
  using refs_okD(5) [OF snap_okD(1) [OF assms(1)] assms(2)] by (auto simp: window_ok_def)

lemma pane_in_layout: "layout_ok sn \<Longrightarrow> get_pane sn pid = Some p \<Longrightarrow> get_window sn (p_window_id p) = Some w \<Longrightarrow>
    arranged sn (p_window_id p) w \<and> pid \<in> wl_panes (w_layout w)"
  by (auto simp: layout_ok_def arranged_def panes_in_def)

lemma safe_on_window:
  assumes ok: "snap_ok h sn"
    and keep: "\<And>w. get_window sn wid = Some w \<Longrightarrow> window_keep w (f w) \<and> w_title (f w) = w_title w"
    and new: "\<And>w. layout_ok sn \<Longrightarrow> get_window sn wid = Some w \<Longrightarrow> arranged sn wid w \<Longrightarrow>
      wl_ok (w_layout (f w)) \<and> wl_panes (w_layout (f w)) = wl_panes (w_layout w) \<and>
      w_active_pane (f w) \<in> set (wl_shown (w_layout (f w)))"
  shows "safe h sn (on_window wid f (touch sn))"
  unfolding safe_def
proof (intro conjI impI)
  show "snap_ok h (on_window wid f (touch sn))"
    by (rule quiet_snap_ok [OF quiet_on_window [OF snap_ok_wf(2) [OF ok] keep] ok])
  assume "layout_ok sn"
  then show "layout_ok (on_window wid f (touch sn))"
    by (rule layout_on_window [OF snap_ok_wf(2) [OF ok]]) (use keep new \<open>layout_ok sn\<close> in auto)
qed

section \<open>Changes in place\<close>

lemmas op_splits = result.splits option.splits prod.splits if_splits

lemma set_pane_tag_safe: "snap_ok h (g_state g) \<Longrightarrow> safe h (g_state g) (g_state (snd (set_pane_tag h g pid k v)))"
  by (simp add: set_pane_tag_def Let_def) (auto intro!: still_safe still_on_pane simp: pane_keep_def titles_ok_def)

lemma set_pane_theme_safe: "snap_ok h (g_state g) \<Longrightarrow> safe h (g_state g) (g_state (snd (set_pane_theme h g pid th)))"
  by (simp add: set_pane_theme_def Let_def) (auto intro!: still_safe still_on_pane simp: pane_keep_def titles_ok_def)

lemma set_session_tag_safe: "snap_ok h (g_state g) \<Longrightarrow> safe h (g_state g) (g_state (snd (set_session_tag h g sid k v)))"
  by (simp add: set_session_tag_def Let_def) (auto intro!: still_safe still_on_session simp: session_keep_def snap_ok_wf)

lemma set_session_theme_safe: "snap_ok h (g_state g) \<Longrightarrow> safe h (g_state g) (g_state (snd (set_session_theme h g sid th)))"
  by (simp add: set_session_theme_def Let_def) (auto intro!: still_safe still_on_session simp: session_keep_def snap_ok_wf)

lemma retitle_keep: "pane_keep p (retitle title auto p)"
proof -
  have "titles_ok (retitle title auto p)" if "titles_ok p"
    using that set_manual_titles_ok set_auto_titles_ok by (auto simp: retitle_def split: option.splits)
  then show ?thesis
    by (auto simp: pane_keep_def retitle_def set_manual_title_def set_auto_title_def recalculate_title_def split: option.splits)
qed

lemma set_pane_title_safe: "snap_ok h (g_state g) \<Longrightarrow> safe h (g_state g) (g_state (snd (set_pane_title h g pid title auto)))"
  by (auto simp: set_pane_title_def Let_def split: option.splits intro!: still_safe still_on_pane retitle_keep)

lemma set_osc_keep: "pane_keep p (fst (set_osc_title p title))"
  using set_osc_titles_ok [of p title]
  by (auto simp: pane_keep_def set_osc_title_def Let_def recalculate_title_def split: option.splits)

lemma set_pane_osc_title_safe: "snap_ok h (g_state g) \<Longrightarrow> safe h (g_state g) (g_state (snd (set_pane_osc_title h g pid title)))"
  by (auto simp: set_pane_osc_title_def Let_def split: option.splits prod.splits intro!: still_safe still_on_pane set_osc_keep)

lemma set_pane_exit_safe: "snap_ok h (g_state g) \<Longrightarrow> safe h (g_state g) (g_state (snd (set_pane_exit h g pid ex)))"
  by (auto simp: set_pane_exit_def Let_def split: option.splits intro!: still_safe still_on_pane)
     (auto simp: pane_keep_def titles_ok_def)

lemma set_pane_program_status_safe:
  "snap_ok h (g_state g) \<Longrightarrow> safe h (g_state g) (g_state (snd (set_pane_program_status h g pid st)))"
  by (auto simp: set_pane_program_status_def Let_def split: option.splits if_splits intro!: still_safe still_on_pane)
     (auto simp: pane_keep_def titles_ok_def)

lemma set_pane_exit_status_owned_safe:
  assumes ok: "snap_ok h (g_state g)"
  shows "safe h (g_state g) (g_state (snd (set_pane_exit_status_owned h g pid ex inc final)))"
proof -
  obtain r g1 where r: "set_pane_program_status h g pid (the final) = (r, g1)" by fastforce
  have 1: "safe h (g_state g) (g_state g1)" using set_pane_program_status_safe [OF ok, of pid "the final"] r by simp
  then have "safe h (g_state g) (g_state (snd (set_pane_exit h g1 pid ex)))"
    using set_pane_exit_safe [of h g1] safe_trans safeD by blast
  with r 1 set_pane_exit_safe [OF ok] ok show ?thesis
    by (auto simp: set_pane_exit_status_owned_def split: option.splits result.splits)
qed

lemma claim_pane_pty_safe: "snap_ok h (g_state g) \<Longrightarrow> safe h (g_state g) (g_state (snd (claim_pane_pty h g pid inc)))"
  by (auto simp: claim_pane_pty_def Let_def split: option.splits if_splits intro!: still_safe still_on_pane)
     (auto simp: pane_keep_def titles_ok_def)

lemma focus_window_safe: "snap_ok h (g_state g) \<Longrightarrow> safe h (g_state g) (g_state (snd (focus_window h g wid ev)))"
  by (auto simp: focus_window_def Let_def split: option.splits if_splits intro!: still_safe still_on_session
      simp: session_keep_def snap_ok_wf)

lemma move_to_perm:
  assumes "i < length xs" "xs ! i = x" "to < length xs"
  shows "mset (move_to x i to xs) = mset xs"
proof -
  let ?ys = "take i xs @ drop (Suc i) xs"
  have "mset (move_to x i to xs) = add_mset x (mset (take to ?ys @ drop to ?ys))"
    by (simp add: move_to_def Let_def)
  also have "\<dots> = add_mset x (mset ?ys)" by (simp only: append_take_drop_id)
  also have "\<dots> = mset (take i xs @ x # drop (Suc i) xs)" by simp
  also have "take i xs @ x # drop (Suc i) xs = xs" using id_take_nth_drop [OF assms(1)] assms(2) by simp
  finally show ?thesis .
qed

lemma reorder_window_safe:
  assumes ok: "snap_ok h (g_state g)"
  shows "safe h (g_state g) (g_state (snd (reorder_window h g wid n ev)))"
proof -
  have "safe h (g_state g) (on_session sid (\<lambda>s. s\<lparr>s_windows := move_to wid i n (s_windows s)\<rparr>) (touch (g_state g)))"
    if s: "get_session (g_state g) sid = Some s" and p: "position (\<lambda>w. w = wid) (s_windows s) = Some i" and n: "n < length (s_windows s)"
    for sid s i
  proof (rule still_safe [OF still_on_session ok])
    show "hm_wf (sn_sessions (g_state g))" by (rule snap_ok_wf [OF ok])
    fix t assume "get_session (g_state g) sid = Some t"
    with s have t: "t = s" by simp
    have m: "mset (move_to wid i n (s_windows s)) = mset (s_windows s)"
      using position_Some [OF p] n by (intro move_to_perm) auto
    then have "set (move_to wid i n (s_windows s)) = set (s_windows s)" by (rule mset_eq_setD)
    moreover have "distinct (move_to wid i n (s_windows s)) = distinct (s_windows s)" by (rule mset_eq_imp_distinct_iff [OF m])
    ultimately show "session_keep t (t\<lparr>s_windows := move_to wid i n (s_windows t)\<rparr>) \<and>
        s_name (t\<lparr>s_windows := move_to wid i n (s_windows t)\<rparr>) = s_name t"
      by (simp add: session_keep_def t)
  qed
  then show ?thesis using ok
    by (auto simp: reorder_window_def Let_def split: option.splits if_splits intro!: still_safe still_touch)
qed

section \<open>Renaming\<close>

lemma session_name_exists_iff:
  "hm_wf (sn_sessions sn) \<Longrightarrow> session_name_exists sn name \<longleftrightarrow> (\<exists>sid s. get_session sn sid = Some s \<and> s_name s = name)"
  unfolding session_name_exists_def list_ex_iff by (metis hm_values_iff)

lemma rename_session_safe:
  assumes ok: "snap_ok h (g_state g)"
  shows "safe h (g_state g) (g_state (snd (rename_session h g sid name ev)))"
proof -
  let ?sn = "g_state g" and ?sn' = "on_session sid (\<lambda>s. s\<lparr>s_name := name\<rparr>) (touch (g_state g))"
  have "safe h ?sn ?sn'" if valid: "validate_session_name h name = Ok ()" and free: "\<not> session_name_exists ?sn name"
  proof -
    have ev: "evolves ?sn ?sn'" by (rule on_session_evolves) (auto simp: snap_ok_wf [OF ok] session_keep_def)
    have ls: "get_session ?sn' i = (if i = sid then map_option (\<lambda>s. bump_session (s\<lparr>s_name := name\<rparr>)) (get_session ?sn i)
        else get_session ?sn i)" for i by (simp add: on_session_def store_simps)
    have lw: "sn_windows ?sn' = sn_windows ?sn" by (simp add: on_session_def)
    have unused: "s_name s \<noteq> name" if "get_session ?sn i = Some s" for i s
      using free that by (auto simp: session_name_exists_iff [OF snap_ok_wf(1) [OF ok]])
    note nm = names_okD [OF snap_okD(2) [OF ok]]
    have "names_ok h ?sn'"
    proof (rule names_okI)
      show "get_session ?sn' i = Some s \<Longrightarrow> validate_session_name h (s_name s) = Ok ()" for i s
        using nm(1) valid by (auto simp: ls split: if_splits)
      show "get_session ?sn' i = Some s \<Longrightarrow> get_session ?sn' j = Some t \<Longrightarrow> s_name s = s_name t \<Longrightarrow> i = j" for i s j t
        using nm(2) [of i s j t] unused [of i s] unused [of j t] by (auto simp: ls split: if_splits)
    qed (use nm(3,4) in \<open>auto simp: lw\<close>)
    then have "snap_ok h ?sn'" using evolves_refs [OF ev] evolves_room [OF ev] ok by (simp add: snap_ok_def)
    moreover have "layout_ok ?sn \<longrightarrow> layout_ok ?sn'"
      using evolves_layout [OF ev] by (auto simp: lw arranged_def)
    ultimately show ?thesis by (simp add: safe_def)
  qed
  then show ?thesis using ok by (auto simp: rename_session_def Let_def split: option.splits result.splits)
qed

lemma validate_window_title_Ok:
  "validate_window_title raw = Ok t \<Longrightarrow> t = sanitize_title raw \<and> validate_window_title t = Ok t \<and> sanitize_title t = t \<and> t \<noteq> []"
  by (auto simp: validate_window_title_def Let_def split: if_splits)

lemma rename_window_safe:
  assumes ok: "snap_ok h (g_state g)"
  shows "safe h (g_state g) (g_state (snd (rename_window h g wid raw ev)))"
proof -
  let ?sn = "g_state g"
  have "safe h ?sn (on_window wid (\<lambda>w. w\<lparr>w_title := t\<rparr>) (touch ?sn))"
    if valid: "validate_window_title raw = Ok t" and w: "get_window ?sn wid = Some w"
      and s: "get_session ?sn (w_session_id w) = Some s"
      and free: "\<not> list_ex (\<lambda>i. i \<noteq> wid \<and> (case get_window ?sn i of None \<Rightarrow> False | Some x \<Rightarrow> w_title x = t)) (s_windows s)"
    for t w s
  proof -
    let ?sn' = "on_window wid (\<lambda>w. w\<lparr>w_title := t\<rparr>) (touch ?sn)"
    have ev: "evolves ?sn ?sn'" by (rule on_window_evolves) (auto simp: snap_ok_wf [OF ok] window_keep_def)
    have ls: "sn_sessions ?sn' = sn_sessions ?sn" by (simp add: on_window_def)
    have other: "w_title v \<noteq> t" if v: "get_window ?sn i = Some v" "w_session_id v = w_session_id w" "i \<noteq> wid" for i v
    proof -
      have "i \<in> set (s_windows s)" using window_session [OF ok v(1)] s v(2) by (metis option.inject)
      then show ?thesis using free v by (auto simp: list_ex_iff)
    qed
    note nm = names_okD [OF snap_okD(2) [OF ok]]
    have t: "validate_window_title t = Ok t" using validate_window_title_Ok [OF valid] by blast
    have "names_ok h ?sn'"
    proof (rule names_okI)
      show "get_window ?sn' i = Some v \<Longrightarrow> validate_window_title (w_title v) = Ok (w_title v)" for i v
        using nm(3) t by (auto simp: window_on_window split: if_splits)
      show "get_window ?sn' i = Some v \<Longrightarrow> get_window ?sn' j = Some u \<Longrightarrow> w_session_id v = w_session_id u \<Longrightarrow>
          w_title v = w_title u \<Longrightarrow> i = j" for i v j u
        using nm(4) [of i v j u] other [of i v] other [of j u] w by (auto simp: window_on_window split: if_splits)
      show "get_session ?sn' i = Some a \<Longrightarrow> get_session ?sn' j = Some b \<Longrightarrow> s_name a = s_name b \<Longrightarrow> i = j" for i a j b
        unfolding ls by (rule nm(2))
      show "get_session ?sn' i = Some a \<Longrightarrow> validate_session_name h (s_name a) = Ok ()" for i a
        unfolding ls by (rule nm(1))
    qed
    then have "snap_ok h ?sn'" using evolves_refs [OF ev] evolves_room [OF ev] ok by (simp add: snap_ok_def)
    moreover have "layout_ok ?sn \<longrightarrow> layout_ok ?sn'"
      by (intro impI layout_on_window) (auto simp: snap_ok_wf [OF ok] window_keep_def arranged_def)
    ultimately show ?thesis by (simp add: safe_def)
  qed
  then show ?thesis using ok by (auto simp: rename_window_def Let_def split: option.splits result.splits if_splits)
qed

section \<open>Layout changes\<close>

lemma toggle_off: "wl_zoom l = Some z \<Longrightarrow> toggle_zoom l (zoomed_pane_of z) = wl_take_zoom l"
  by (simp add: toggle_zoom_def Let_def)

lemma unzoomed_arranged:
  assumes "wl_ok l"
  shows "wl_ok (wl_take_zoom l)" "wl_panes (wl_take_zoom l) = wl_panes l" "set (wl_shown (wl_take_zoom l)) = wl_panes l"
  using wl_ok_take_zoom [OF assms] unzoomed_shown [of "wl_take_zoom l"] by (simp_all add: wl_panes_def)

lemma shown_zoomed: "wl_ok l \<Longrightarrow> wl_zoom l = Some z \<Longrightarrow> wl_shown l = [zoomed_pane_of z]"
  by (simp add: wl_ok_def zoom_ok_def wl_shown_def)

lemma either: "P a \<Longrightarrow> P b \<Longrightarrow> P (if c then a else b)"
  by simp

lemma focus_pane_safe:
  assumes ok: "snap_ok h (g_state g)"
  shows "safe h (g_state g) (g_state (snd (focus_pane h g pid)))"
proof (cases "get_pane (g_state g) pid")
  case None
  then show ?thesis using ok by (simp add: focus_pane_def find_pane_window_def)
next
  case (Some p)
  let ?sn = "g_state g" and ?wid = "p_window_id p"
  obtain w where w: "get_window ?sn ?wid = Some w" using pane_window [OF ok Some] by blast
  let ?un = "case zoomed_pane (w_layout w) of None \<Rightarrow> None | Some z \<Rightarrow> if z \<noteq> pid then Some z else None"
  let ?f = "\<lambda>w. (case ?un of None \<Rightarrow> w | Some z \<Rightarrow> w\<lparr>w_layout := toggle_zoom (w_layout w) z\<rparr>)\<lparr>w_active_pane := pid\<rparr>"
  have "safe h ?sn (on_window ?wid ?f (touch ?sn))"
  proof (rule safe_on_window [OF ok])
    fix v assume "get_window ?sn ?wid = Some v"
    show "window_keep v (?f v) \<and> w_title (?f v) = w_title v" by (simp add: window_keep_def split: option.splits)
  next
    fix v assume lay: "layout_ok ?sn" and "get_window ?sn ?wid = Some v" and arr: "arranged ?sn ?wid v"
    then have v: "v = w" using w by simp
    have l: "wl_ok (w_layout w)" "pid \<in> wl_panes (w_layout w)"
      using arr pane_in_layout [OF lay Some w] by (auto simp: arranged_def v)
    show "wl_ok (w_layout (?f v)) \<and> wl_panes (w_layout (?f v)) = wl_panes (w_layout v) \<and>
        w_active_pane (?f v) \<in> set (wl_shown (w_layout (?f v)))"
      using l unzoomed_arranged [OF l(1)] unzoomed_shown [of "w_layout w"] shown_zoomed [OF l(1)]
      by (cases "wl_zoom (w_layout w)") (auto simp: v zoomed_pane_def toggle_off)
  qed
  from this safe_bump_where [OF this] show ?thesis using Some w
    by (simp add: focus_pane_def find_pane_window_def Let_def split del: if_split) (rule either)
qed

lemma focus_pane_direction_safe:
  assumes ok: "snap_ok h (g_state g)"
  shows "safe h (g_state g) (g_state (snd (focus_pane_direction h g wid nd v)))"
  using ok focus_pane_safe [OF ok]
  by (auto simp: focus_pane_direction_def split: option.splits result.splits prod.splits) (metis snd_conv)+

text \<open>Resizing and swapping: unzoom, then rearrange the tree without losing a pane.\<close>

lemma safe_rearrange:
  assumes ok: "snap_ok h sn" and w: "get_window sn wid = Some w"
    and tree: "distinct (pane_ids t) = distinct (pane_ids (full_tree (w_layout w)))"
      "set (pane_ids t) = set (pane_ids (full_tree (w_layout w)))"
      "ratios_ok (full_tree (w_layout w)) \<Longrightarrow> ratios_ok t"
  shows "safe h sn (bump_window_panes wid (on_window wid (\<lambda>v. v\<lparr>w_layout := (wl_take_zoom (w_layout w))\<lparr>wl_tree := t\<rparr>\<rparr>) (touch sn)))"
proof (rule safe_bump_window_panes, rule safe_on_window [OF ok])
  let ?l = "(wl_take_zoom (w_layout w))\<lparr>wl_tree := t\<rparr>"
  have un: "wl_zoom ?l = None" by simp
  fix v assume "get_window sn wid = Some v" "arranged sn wid v"
  then have v: "v = w" and arr: "arranged sn wid w" using w by auto
  have "wl_ok ?l" using arr tree by (simp add: wl_ok_unzoomed arranged_def) (simp add: wl_ok_def)
  moreover have "wl_panes ?l = wl_panes (w_layout w)" using tree(2) by (simp add: wl_panes_def full_tree_def [of ?l])
  moreover have "w_active_pane w \<in> wl_panes (w_layout w)" using arr shown_subset by (auto simp: arranged_def)
  ultimately show "wl_ok (w_layout (v\<lparr>w_layout := ?l\<rparr>)) \<and> wl_panes (w_layout (v\<lparr>w_layout := ?l\<rparr>)) = wl_panes (w_layout v) \<and>
      w_active_pane (v\<lparr>w_layout := ?l\<rparr>) \<in> set (wl_shown (w_layout (v\<lparr>w_layout := ?l\<rparr>)))"
    using unzoomed_shown [OF un] by (simp add: v)
qed (simp add: window_keep_def)

lemma graph_resize_pane_safe:
  assumes ok: "snap_ok h (g_state g)"
  shows "safe h (g_state g) (g_state (snd (graph_resize_pane h g pid d delta ev)))"
proof -
  have "safe h (g_state g) (bump_window_panes wid (on_window wid
      (\<lambda>v. v\<lparr>w_layout := (wl_take_zoom (w_layout w))\<lparr>wl_tree := t\<rparr>\<rparr>) (touch (g_state g))))"
    if "get_window (g_state g) wid = Some w" "resize_pane (full_tree (w_layout w)) pid d delta = Some t" for wid w t
    by (rule safe_rearrange [OF ok that(1)]) (use resize_pane_ids [OF that(2)] resize_pane_ratios [OF that(2)] in auto)
  then show ?thesis using ok
    by (auto simp: graph_resize_pane_def find_pane_window_def Let_def split: option.splits)
qed

lemma graph_swap_panes_safe:
  assumes ok: "snap_ok h (g_state g)"
  shows "safe h (g_state g) (g_state (snd (graph_swap_panes h g pa pb ev)))"
proof -
  have "safe h (g_state g) (bump_window_panes wid (on_window wid
      (\<lambda>v. v\<lparr>w_layout := (wl_take_zoom (w_layout w))\<lparr>wl_tree := t\<rparr>\<rparr>) (touch (g_state g))))"
    if "get_window (g_state g) wid = Some w" "swap_panes (full_tree (w_layout w)) pa pb = Some t" for wid w t
    by (rule safe_rearrange [OF ok that(1)]) (use swap_panes_facts [OF that(2)] in auto)
  then show ?thesis using ok
    by (auto simp: graph_swap_panes_def Let_def split: option.splits)
qed

lemma zoom_pane_safe:
  assumes ok: "snap_ok h (g_state g)"
  shows "safe h (g_state g) (g_state (snd (zoom_pane h g pid ev)))"
proof -
  have "safe h (g_state g) (bump_window_panes wid (on_window wid (\<lambda>v. v\<lparr>w_layout := toggle_zoom (w_layout w) pid,
        w_active_pane := (if zoomed_pane (toggle_zoom (w_layout w) pid) \<noteq> None \<and> w_active_pane w \<noteq> pid then pid
          else w_active_pane v)\<rparr>) (touch (g_state g))))"
    if w: "get_window (g_state g) wid = Some w" for wid w
  proof (rule safe_bump_window_panes, rule safe_on_window [OF ok])
    let ?l = "toggle_zoom (w_layout w) pid"
    let ?a = "if zoomed_pane ?l \<noteq> None \<and> w_active_pane w \<noteq> pid then pid else w_active_pane w"
    fix v assume "get_window (g_state g) wid = Some v" "arranged (g_state g) wid v"
    then have v: "v = w" and arr: "arranged (g_state g) wid w" using w by auto
    then have l: "wl_ok (w_layout w)" "w_active_pane w \<in> wl_panes (w_layout w)" using shown_subset by (auto simp: arranged_def)
    note t = toggle_zoom_facts [OF l(1), of pid]
    have "?a \<in> set (wl_shown ?l)"
      using t l(2) unzoomed_shown [of ?l] by (cases "wl_zoom ?l") (auto simp: zoomed_pane_def)
    then show "wl_ok (w_layout (v\<lparr>w_layout := ?l, w_active_pane := (if zoomed_pane ?l \<noteq> None \<and> w_active_pane w \<noteq> pid then pid else w_active_pane v)\<rparr>)) \<and>
        wl_panes (w_layout (v\<lparr>w_layout := ?l, w_active_pane := (if zoomed_pane ?l \<noteq> None \<and> w_active_pane w \<noteq> pid then pid else w_active_pane v)\<rparr>)) =
          wl_panes (w_layout v) \<and>
        w_active_pane (v\<lparr>w_layout := ?l, w_active_pane := (if zoomed_pane ?l \<noteq> None \<and> w_active_pane w \<noteq> pid then pid else w_active_pane v)\<rparr>)
          \<in> set (wl_shown (w_layout (v\<lparr>w_layout := ?l, w_active_pane := (if zoomed_pane ?l \<noteq> None \<and> w_active_pane w \<noteq> pid then pid else w_active_pane v)\<rparr>)))"
      using t(1,2) by (auto simp: v split: if_splits)
  qed (simp add: window_keep_def)
  then show ?thesis using ok
    by (auto simp: zoom_pane_def find_pane_window_def Let_def split: option.splits)
qed

lemma zoom_pane_if_focused_safe:
  "snap_ok h (g_state g) \<Longrightarrow> safe h (g_state g) (g_state (snd (zoom_pane_if_focused h g pid fo)))"
  using zoom_pane_safe [of h g pid None]
  by (auto simp: zoom_pane_if_focused_def find_pane_window_def split: option.splits)

section \<open>Creations\<close>

lemma session_panes_none:
  assumes "refs_ok sn" "get_session sn sid = None"
  shows "session_panes sn sid = []"
proof -
  have "map_option w_session_id (get_window sn wid) \<noteq> Some sid" for wid
    using refs_okD(5) [OF assms(1), of wid] assms(2) by (cases "get_window sn wid") (auto simp: window_ok_def)
  then show ?thesis by (simp add: session_panes_def)
qed

lemma no_window_names: "get_session sn sid = None \<Longrightarrow> \<not> window_name_exists_in_session sn sid name"
  by (simp add: window_name_exists_in_session_def find_window_by_name_def)

lemma window_word_valid: "validate_window_title (ascii ''window'') = Ok (ascii ''window'')"
  by (simp add: validate_window_title_def Let_def sanitize_title_def trim_def trim_by_def char_class_defs
      is_window_number_def MAX_WINDOW_TITLE_CHARS_def)

lemma first_title_valid:
  assumes "get_session sn sid = None"
  shows "validate_window_title (default_window_title sn sid command cwd) = Ok (default_window_title sn sid command cwd)"
  using window_word_valid validate_window_title_Ok
  by (auto simp: default_window_title_def Let_def no_window_names [OF assms] split: result.splits)

lemma safe_adds_window:
  assumes ok: "snap_ok h sn" and add: "adds_window sn sn' sid s' wid w pid p"
    and title: "validate_window_title (w_title w) = Ok (w_title w)" "\<not> window_name_exists_in_session sn sid (w_title w)"
    and name: "get_session sn sid = None \<longrightarrow> validate_session_name h (s_name s') = Ok () \<and> \<not> session_name_exists sn (s_name s')"
    and cap: "check_session_capacity h sn probe (p_command p) (p_cwd p) = Ok ()"
    and probe: "sid = probe \<or> get_session sn sid = None \<and> get_session sn probe = None"
    and w: "w_layout w = wl_new pid" "w_active_pane w = pid"
  shows "safe h sn sn'"
proof -
  note refs = snap_okD(1) [OF ok] and names = snap_okD(2) [OF ok] and room = snap_okD(3) [OF ok]
  have lw: "\<And>i. get_window sn' i = (if i = wid then Some w else get_window sn i)"
    and new: "get_window sn wid = None" "get_pane sn pid = None" "w_session_id w = sid" "p_window_id p = wid"
    and panes: "sn_panes sn' = hm_insert pid p (sn_panes sn)"
    using add by (auto simp: adds_window_def store_simps)
  have "room_ok h sn'"
  proof (rule room_add [OF refs room new(2) cap _ panes refl refl])
    show "sid = probe \<or> session_panes sn sid = [] \<and> session_panes sn probe = []"
      using probe session_panes_none [OF refs] by blast
  qed (use new in \<open>auto simp: lw\<close>)
  then show ?thesis
    using adds_window_refs [OF add refs] adds_window_names [OF add refs names title name]
      adds_window_layout [OF add refs _ w] by (simp add: safe_def snap_ok_def)
qed

lemma commits_safe:
  assumes "commits h g r out" "snap_ok h (g_state g)" "\<And>v evs sn. out = Ok (v, evs, sn) \<Longrightarrow> safe h (g_state g) sn"
  shows "safe h (g_state g) (g_state (snd r))"
  using assms by (auto simp: commits_def split: result.splits)

lemma map_ok_Ok [simp]: "map_ok F r = Ok v \<longleftrightarrow> (\<exists>u. r = Ok u \<and> F u = v)"
  by (cases r) auto

lemma stage_create_session_safe:
  assumes ok: "snap_ok h sn" and f: "fresh_ok f sn"
    and stage: "stage_create_session h f sn seq name cwd command title = Ok (sid, wid, pid, evs, sn', seq')"
  shows "safe h sn sn'"
proof -
  have new: "get_session sn (fr_session f) = None" "get_session sn (fr_probe f) = None"
    "get_session sn (fr_title_probe f) = None" "get_window sn (fr_window f) = None" "get_pane sn (fr_pane f) = None"
    using f by (auto simp: fresh_ok_def)
  obtain t where c: "validate_session_name h name = Ok ()" "\<not> session_name_exists sn name"
      "check_session_capacity h sn (fr_probe f) command cwd = Ok ()"
    and t: "initial_title sn (fr_title_probe f) command cwd title = Ok t"
    and sn': "sn' = (touch sn)\<lparr>sn_panes := hm_insert (fr_pane f) (new_pane (fr_pane f) (fr_window f) cwd command) (sn_panes sn),
        sn_windows := hm_insert (fr_window f) (window_new (fr_window f) (fr_session f) t (fr_pane f)) (sn_windows sn),
        sn_sessions := hm_insert (fr_session f) (session_new (fr_session f) (fr_now f) seq name (fr_window f)) (sn_sessions sn)\<rparr>"
    using stage by (auto simp: stage_create_session_def Let_def split: result.splits if_splits)
  have valid: "validate_window_title t = Ok t" "sanitize_title t = t"
    using t first_title_valid [OF new(3), of command cwd] validate_window_title_Ok by (auto simp: initial_title_def split: option.splits if_splits)
  have "adds_window sn sn' (fr_session f) (session_new (fr_session f) (fr_now f) seq name (fr_window f)) (fr_window f)
      (window_new (fr_window f) (fr_session f) t (fr_pane f)) (fr_pane f) (new_pane (fr_pane f) (fr_window f) cwd command)"
    using new snap_ok_wf(1) [OF ok]
    by (simp add: adds_window_def sn' store_simps window_new_def session_new_def fun_eq_iff)
  then show ?thesis
    by (rule safe_adds_window [OF ok, where probe = "fr_probe f"])
       (use c new valid in \<open>auto simp: window_new_def session_new_def no_window_names\<close>)
qed

lemma create_session_with_command_safe:
  assumes ok: "snap_ok h (g_state g)" and f: "fresh_ok f (g_state g)"
  shows "safe h (g_state g) (g_state (snd (create_session_with_command h f g name cwd command)))"
proof -
  have "safe h (g_state g) sn" if "map_ok (\<lambda>(sid, wid, pid, evs, sn, seq). (sid, evs, sn))
      (stage_create_session h f (g_state g) (g_next_session_seq g) name cwd command None) = Ok (v, evs, sn)" for v evs sn
    using that stage_create_session_safe [OF ok f] by auto
  with commits_safe [OF create_session_stages [OF refl], of h g f name cwd command] ok show ?thesis by auto
qed

lemma stage_create_window_safe:
  assumes ok: "snap_ok h sn" and f: "fresh_ok f sn"
    and stage: "stage_create_window h f sn sid raw cwd command = Ok (wid, pid, evs, sn')"
  shows "safe h sn sn'"
proof -
  have new: "get_window sn (fr_window f) = None" "get_pane sn (fr_pane f) = None" using f by (auto simp: fresh_ok_def)
  obtain t s where t: "validate_window_title raw = Ok t" "\<not> window_name_exists_in_session sn sid t"
      "check_session_capacity h sn sid command cwd = Ok ()"
    and s: "get_session sn sid = Some s"
    and sn': "sn' = on_session sid (\<lambda>s. s\<lparr>s_windows := s_windows s @ [fr_window f], s_active_window := fr_window f\<rparr>)
        ((touch sn)\<lparr>sn_panes := hm_insert (fr_pane f) (new_pane (fr_pane f) (fr_window f) cwd command) (sn_panes sn),
           sn_windows := hm_insert (fr_window f) (window_new (fr_window f) sid t (fr_pane f)) (sn_windows sn)\<rparr>)"
    using stage by (auto simp: stage_create_window_def store_simps Let_def split: result.splits if_splits)
  let ?w = "window_new (fr_window f) sid t (fr_pane f)" and ?p = "new_pane (fr_pane f) (fr_window f) cwd command"
  let ?s = "bump_session (s\<lparr>s_windows := s_windows s @ [fr_window f], s_active_window := fr_window f\<rparr>)"
  have "session_ok sn sid s" using refs_okD(4) [OF snap_okD(1) [OF ok] s] .
  then have "fr_window f \<notin> set (s_windows s)" "distinct (s_windows s)" "s_id s = sid" using new(1) by (auto simp: session_ok_def)
  then have "adds_window sn sn' sid ?s (fr_window f) ?w (fr_pane f) ?p"
    using new s snap_ok_wf(1) [OF ok]
    by (simp add: adds_window_def sn' store_simps window_new_def on_session_def fun_eq_iff)
  then show ?thesis
    by (rule safe_adds_window [OF ok, where probe = sid])
       (use t s validate_window_title_Ok [OF t(1)] in \<open>auto simp: window_new_def\<close>)
qed

lemma create_window_with_command_safe:
  assumes ok: "snap_ok h (g_state g)" and f: "fresh_ok f (g_state g)"
  shows "safe h (g_state g) (g_state (snd (create_window_with_command h f g sid raw cwd command)))"
  by (rule commits_safe [OF create_window_stages ok]) (use stage_create_window_safe [OF ok f] in auto)

lemma adds_pane_snap_ok:
  assumes ok: "snap_ok h sn" and add: "adds_pane sn sn' wid f pid p" and w: "get_window sn wid = Some w"
    and cap: "check_session_capacity h sn (w_session_id w) (p_command p) (p_cwd p) = Ok ()"
  shows "snap_ok h sn'"
proof -
  have new: "get_pane sn pid = None" "p_window_id p = wid" and panes: "sn_panes sn' = hm_insert pid p (sn_panes sn)"
    using add by (auto simp: adds_pane_def)
  have "room_ok h sn'"
    by (rule room_add [OF snap_okD(1) [OF ok] snap_okD(3) [OF ok] new(1) cap _ panes refl refl, where sid = "w_session_id w"])
       (use adds_pane_windows(2) [OF add] w new(2) in \<open>fastforce simp: window_keep_def\<close>)+
  then show ?thesis using adds_pane_refs [OF add] adds_pane_names [OF add] ok by (simp add: snap_ok_def)
qed

lemma create_pane_snap_ok:
  assumes ok: "snap_ok h (g_state g)" and f: "fresh_ok f (g_state g)"
  shows "snap_ok h (g_state (snd (create_pane h f g wid cwd command)))"
proof -
  let ?sn = "g_state g" and ?r = "create_pane h f g wid cwd command"
  show ?thesis
  proof (cases "\<exists>w. get_window ?sn wid = Some w \<and> check_session_capacity h ?sn (w_session_id w) command cwd = Ok ()")
    case False
    then have "g_state (snd ?r) = ?sn" by (auto simp: create_pane_def Let_def split: option.splits result.splits)
    then show ?thesis using ok by simp
  next
    case True
    then obtain w where w: "get_window ?sn wid = Some w" "check_session_capacity h ?sn (w_session_id w) command cwd = Ok ()" by blast
    then have "adds_pane ?sn (g_state (snd ?r)) wid (\<lambda>w. w) (fr_pane f) (new_pane (fr_pane f) wid cwd command)"
      using f snap_ok_wf(2) [OF ok]
      by (simp add: adds_pane_def create_pane_def Let_def fresh_ok_def option.map_ident)
    then show ?thesis by (rule adds_pane_snap_ok [OF ok _ w(1)]) (use w(2) in simp)
  qed
qed

lemma stage_split_pane_safe:
  assumes ok: "snap_ok h sn" and f: "fresh_ok f sn"
    and stage: "stage_split_pane h f sn target d ratio command cwd = Ok (pid, wid, sid, evs, sn')"
  shows "safe h sn sn'"
proof -
  obtain q w l where q: "get_pane sn target = Some q" and w: "get_window sn (p_window_id q) = Some w"
    and cap: "check_session_capacity h sn (w_session_id w) command (case cwd of None \<Rightarrow> p_cwd q | Some c \<Rightarrow> c) = Ok ()"
    and l: "wl_split_pane (w_layout w) target (fr_pane f) d ratio = (l, True)"
    and sn': "sn' = (on_window (p_window_id q) (\<lambda>w. w\<lparr>w_layout := l, w_active_pane := fr_pane f\<rparr>) (touch sn))
      \<lparr>sn_panes := hm_insert (fr_pane f) (new_pane (fr_pane f) (p_window_id q) (case cwd of None \<Rightarrow> p_cwd q | Some c \<Rightarrow> c) command)
         (sn_panes sn)\<rparr>"
    using stage by (auto simp: stage_split_pane_def Let_def on_window_def split: option.splits result.splits if_splits prod.splits)
  let ?f = "\<lambda>w. bump_window (w\<lparr>w_layout := l, w_active_pane := fr_pane f\<rparr>)"
  have add: "adds_pane sn sn' (p_window_id q) ?f (fr_pane f)
      (new_pane (fr_pane f) (p_window_id q) (case cwd of None \<Rightarrow> p_cwd q | Some c \<Rightarrow> c) command)"
    using f snap_ok_wf(2) [OF ok] w
    by (simp add: adds_pane_def sn' fresh_ok_def window_keep_def on_window_def store_simps)
  have "layout_ok sn'" if lay: "layout_ok sn"
  proof (rule adds_pane_layout [OF add lay])
    fix v assume "get_window sn (p_window_id q) = Some v" "arranged sn (p_window_id q) v"
    then have v: "v = w" and lw: "wl_ok (w_layout w)" "wl_panes (w_layout w) = panes_in sn (p_window_id q)"
      using w by (auto simp: arranged_def)
    have "target \<in> wl_panes (w_layout w)" using pane_in_layout [OF lay q w] by blast
    moreover have "fr_pane f \<notin> wl_panes (w_layout w)" using f lw(2) by (auto simp: panes_in_def fresh_ok_def)
    ultimately have "wl_ok l \<and> wl_zoom l = None \<and> wl_panes l = insert (fr_pane f) (wl_panes (w_layout w))"
      using wl_split_facts [OF lw(1), of target "fr_pane f" d ratio] l by auto
    then show "wl_ok (w_layout (?f v)) \<and> wl_panes (w_layout (?f v)) = insert (fr_pane f) (wl_panes (w_layout v)) \<and>
        w_active_pane (?f v) \<in> set (wl_shown (w_layout (?f v)))"
      using unzoomed_shown [of l] by (simp add: v)
  qed
  moreover have "snap_ok h sn'" by (rule adds_pane_snap_ok [OF ok add w]) (use cap in simp)
  ultimately show ?thesis by (simp add: safe_def)
qed

lemma split_pane_with_command_safe:
  assumes ok: "snap_ok h (g_state g)" and f: "fresh_ok f (g_state g)"
  shows "safe h (g_state g) (g_state (snd (split_pane_with_command h f g target d ratio command)))"
  by (rule commits_safe [OF split_pane_stages ok]) (use stage_split_pane_safe [OF ok f] in auto)

section \<open>Removals\<close>

lemma kill_list: "hm_wf m \<Longrightarrow> (\<And>k v. hm_get m k = Some v \<Longrightarrow> p_id v = k) \<Longrightarrow>
    set (map p_id (filter P (hm_values m))) = {k. \<exists>v. hm_get m k = Some v \<and> P v}"
  by (force simp: hm_values_iff)

lemma pane_keys: "snap_ok h sn \<Longrightarrow> get_pane sn k = Some p \<Longrightarrow> p_id p = k"
  using refs_okD(6) snap_okD(1) by (fastforce simp: pane_ok_def)

lemma window_owner:
  "snap_ok h sn \<Longrightarrow> get_session sn sid = Some s \<Longrightarrow> get_window sn wid = Some w \<Longrightarrow> wid \<in> set (s_windows s) \<longleftrightarrow> w_session_id w = sid"
  using refs_okD(4) [OF snap_okD(1), of h sn sid s] window_session [of h sn wid w]
  by (metis (no_types, opaque_lifting) option.inject session_ok_def)

lemma safe_removes_whole:
  assumes ok: "snap_ok h sn" and rm: "removes sn sn' K W"
    and K: "\<And>k p. k \<in> K \<Longrightarrow> get_pane sn k = Some p \<Longrightarrow> p_window_id p \<in> W"
    and same: "\<And>i. i \<notin> W \<Longrightarrow> get_window sn' i = get_window sn i"
  shows "safe h sn sn'"
proof -
  have "layout_ok sn'" if lay: "layout_ok sn"
  proof (rule removes_layout [OF rm lay])
    fix i v w assume v: "get_window sn i = Some v" "get_window sn' i = Some w" "arranged sn i v"
    have "i \<notin> W" using removesD(5) [OF rm v(2)] by blast
    then have "w = v" using same v by simp
    moreover have "wl_panes (w_layout v) \<inter> K = {}" using v(3) K \<open>i \<notin> W\<close> by (auto simp: arranged_def panes_in_def)
    ultimately show "wl_ok (w_layout w) \<and> wl_panes (w_layout w) = wl_panes (w_layout v) - K \<and>
        w_active_pane w \<in> set (wl_shown (w_layout w))" using v(3) by (auto simp: arranged_def)
  qed
  then show ?thesis using removes_snap_ok [OF rm ok] by (simp add: safe_def)
qed

lemma destroy_session_safe:
  assumes ok: "snap_ok h (g_state g)"
  shows "safe h (g_state g) (g_state (snd (destroy_session h g sid ev)))"
proof -
  let ?sn = "g_state g" and ?r = "destroy_session h g sid ev"
  show ?thesis
  proof (cases "\<exists>s. get_session ?sn sid = Some s \<and> version_conflict h ''session'' (session_uuid sid) ev (s_version s) = None")
    case False
    then have "g_state (snd ?r) = ?sn" by (auto simp: destroy_session_def Let_def split: option.splits)
    then show ?thesis using ok by simp
  next
    case True
    then obtain s where s: "get_session ?sn sid = Some s"
      and v: "version_conflict h ''session'' (session_uuid sid) ev (s_version s) = None" by blast
    let ?W = "set (s_windows s)" and ?sn' = "g_state (snd ?r)"
    let ?K = "set (map p_id (filter (\<lambda>p. p_window_id p \<in> ?W) (hm_values (sn_panes ?sn))))"
    have K: "?K = {k. \<exists>p. get_pane ?sn k = Some p \<and> p_window_id p \<in> ?W}"
      by (rule kill_list) (use ok snap_ok_wf pane_keys in blast)+
    have ps: "sn_panes ?sn' = filter (\<lambda>x. fst x \<notin> ?K) (sn_panes ?sn)"
      using s v by (simp add: destroy_session_def Let_def fold_remove image_image)
    have lw: "get_window ?sn' i = (if i \<in> ?W then None else get_window ?sn i)" for i
      using s v by (simp add: destroy_session_def Let_def fold_remove get_filter_keys)
    have ls: "get_session ?sn' j = (if j = sid then None else get_session ?sn j)" for j
      using s v by (simp add: destroy_session_def Let_def store_simps)
    have wf: "hm_wf (sn_sessions ?sn')" "hm_wf (sn_windows ?sn')"
      using s v snap_ok_wf [OF ok] by (simp_all add: destroy_session_def Let_def store_simps fold_remove wf_filter)
    have "removes ?sn ?sn' ?K ?W"
      unfolding removes_def
    proof (intro conjI allI impI)
      fix i w assume w: "get_window ?sn' i = Some w"
      then have i: "i \<notin> ?W" "get_window ?sn i = Some w" by (auto simp: lw split: if_splits)
      show "i \<notin> ?W" by (rule i)
      show "\<exists>v. get_window ?sn i = Some v \<and> window_keep v w \<and> w_title w = w_title v" using i by auto
      show "\<exists>t. get_session ?sn' (w_session_id w) = Some t"
        using window_session [OF ok i(2)] window_owner [OF ok s i(2)] i(1) by (metis ls)
      show "\<exists>pid p. get_pane ?sn pid = Some p \<and> p_window_id p = i \<and> pid \<notin> ?K"
        using refs_okD(5) [OF snap_okD(1) [OF ok] i(2)] i(1) unfolding K by (fastforce simp: window_ok_def)
    next
      fix j t assume t: "get_session ?sn' j = Some t"
      then have j: "j \<noteq> sid" "get_session ?sn j = Some t" by (auto simp: ls split: if_splits)
      note okt = refs_okD(4) [OF snap_okD(1) [OF ok] j(2)]
      have "set (s_windows t) \<inter> ?W = {}"
        using okt window_owner [OF ok s] j(1) by (fastforce simp: session_ok_def)
      then have "set (s_windows t) = set (s_windows t) - ?W" by blast
      with okt j(2) show "\<exists>s'. get_session ?sn j = Some s' \<and> s_id t = s_id s' \<and> s_name t = s_name s' \<and>
          set (s_windows t) = set (s_windows s') - ?W \<and> distinct (s_windows t) \<and> s_active_window t \<in> set (s_windows t)"
        by (auto simp: session_ok_def)
    qed (use wf ps K lw in auto)
    then show ?thesis by (rule safe_removes_whole [OF ok]) (use K lw in auto)
  qed
qed

lemma destroy_window_safe:
  assumes ok: "snap_ok h (g_state g)"
  shows "safe h (g_state g) (g_state (snd (destroy_window h g wid ev)))"
proof -
  let ?sn = "g_state g" and ?r = "destroy_window h g wid ev"
  show ?thesis
  proof (cases "\<exists>w s. get_window ?sn wid = Some w \<and> version_conflict h ''window'' (window_uuid wid) ev (w_version w) = None \<and>
      get_session ?sn (w_session_id w) = Some s \<and> 1 < length (s_windows s)")
    case False
    then have "g_state (snd ?r) = ?sn" by (auto simp: destroy_window_def Let_def split: option.splits)
    then show ?thesis using ok by simp
  next
    case True
    then obtain w s where w: "get_window ?sn wid = Some w" and s: "get_session ?sn (w_session_id w) = Some s"
      and v: "version_conflict h ''window'' (window_uuid wid) ev (w_version w) = None" and len: "1 < length (s_windows s)" by blast
    let ?sid = "w_session_id w" and ?sn' = "g_state (snd ?r)" and ?ws = "filter (\<lambda>i. i \<noteq> wid) (s_windows s)"
    let ?K = "set (map p_id (window_panes_of ?sn wid))"
    have K: "?K = {k. \<exists>p. get_pane ?sn k = Some p \<and> p_window_id p = wid}"
      unfolding window_panes_of_def by (rule kill_list) (use ok snap_ok_wf pane_keys in blast)+
    have ps: "sn_panes ?sn' = filter (\<lambda>x. fst x \<notin> ?K) (sn_panes ?sn)"
      using s v w len by (simp add: destroy_window_def Let_def fold_remove image_image on_session_def)
    have lw: "get_window ?sn' i = (if i = wid then None else get_window ?sn i)" for i
      using s v w len by (simp add: destroy_window_def Let_def on_session_def store_simps)
    let ?f = "\<lambda>s. bump_session (s\<lparr>s_windows := filter (\<lambda>w. w \<noteq> wid) (s_windows s),
        s_active_window := (if s_active_window s = wid then filter (\<lambda>w. w \<noteq> wid) (s_windows s) ! 0 else s_active_window s)\<rparr>)"
    have ls: "get_session ?sn' j = (if j = ?sid then map_option ?f (get_session ?sn j) else get_session ?sn j)" for j
      using s v w len by (simp add: destroy_window_def Let_def on_session_def store_simps)
    have wf: "hm_wf (sn_sessions ?sn')" "hm_wf (sn_windows ?sn')"
      using s v w len snap_ok_wf [OF ok] by (simp_all add: destroy_window_def Let_def store_simps on_session_def)
    have oks: "session_ok ?sn ?sid s" using refs_okD(4) [OF snap_okD(1) [OF ok] s] .
    have ne: "?ws \<noteq> []"
    proof
      assume "?ws = []"
      then have "set (s_windows s) \<subseteq> {wid}" by (auto simp: filter_empty_conv)
      then have "card (set (s_windows s)) \<le> 1" using card_mono [of "{wid}"] by fastforce
      then show False using len oks by (simp add: session_ok_def distinct_card)
    qed
    then have hd: "?ws ! 0 \<in> set ?ws" by (metis length_greater_0_conv nth_mem)
    have "removes ?sn ?sn' ?K {wid}"
      unfolding removes_def
    proof (intro conjI allI impI)
      fix i u assume "get_window ?sn' i = Some u"
      then have i: "i \<noteq> wid" "get_window ?sn i = Some u" by (auto simp: lw split: if_splits)
      show "i \<notin> {wid}" using i(1) by simp
      show "\<exists>v. get_window ?sn i = Some v \<and> window_keep v u \<and> w_title u = w_title v" using i by auto
      obtain t where "get_session ?sn (w_session_id u) = Some t" using window_session [OF ok i(2)] by blast
      then show "\<exists>t. get_session ?sn' (w_session_id u) = Some t" by (auto simp: ls)
      show "\<exists>pid p. get_pane ?sn pid = Some p \<and> p_window_id p = i \<and> pid \<notin> ?K"
        using refs_okD(5) [OF snap_okD(1) [OF ok] i(2)] i(1) unfolding K by (fastforce simp: window_ok_def)
    next
      fix j t assume t: "get_session ?sn' j = Some t"
      show "\<exists>s'. get_session ?sn j = Some s' \<and> s_id t = s_id s' \<and> s_name t = s_name s' \<and>
          set (s_windows t) = set (s_windows s') - {wid} \<and> distinct (s_windows t) \<and> s_active_window t \<in> set (s_windows t)"
      proof (cases "j = ?sid")
        case True
        then have t': "t = ?f s" using t s by (simp add: ls)
        show ?thesis using oks s hd by (auto simp: t' True session_ok_def)
      next
        case False
        then have j: "get_session ?sn j = Some t" using t by (simp add: ls)
        note okt = refs_okD(4) [OF snap_okD(1) [OF ok] j]
        have "wid \<notin> set (s_windows t)" using window_owner [OF ok j w] False by blast
        then show ?thesis using okt j by (auto simp: session_ok_def)
      qed
    qed (use wf ps K lw in auto)
    then show ?thesis by (rule safe_removes_whole [OF ok]) (use K lw in auto)
  qed
qed

lemma refocus_after_keep: "window_keep w (refocus_after pid wid ps w)" "w_title (refocus_after pid wid ps w) = w_title w"
  by (auto simp: window_keep_def refocus_after_def Let_def split: option.splits)

lemma refocus_after_arranged:
  assumes l: "wl_ok (w_layout w)" "w_active_pane w \<in> wl_panes (w_layout w)" "pid \<in> wl_panes (w_layout w)"
    and more: "wl_panes (w_layout w) \<noteq> {pid}"
  shows "let v = refocus_after pid wid ps w
         in wl_ok (w_layout v) \<and> wl_panes (w_layout v) = wl_panes (w_layout w) - {pid} \<and>
            w_active_pane v \<in> set (wl_shown (w_layout v))"
proof -
  obtain l' where l': "wl_remove_pane (w_layout w) pid = (l', True)" "wl_ok l'" "wl_zoom l' = None"
    "wl_panes l' = wl_panes (w_layout w) - {pid}" using wl_remove_facts [OF l(1,3) more] by blast
  have "w_active_pane w = pid \<or> w_active_pane w \<in> set (wl_shown l')" using l' l(2) unzoomed_shown [OF l'(3)] by auto
  moreover obtain x xs where "pane_ids (wl_tree l') = x # xs" by (metis list.exhaust pane_ids_nonempty)
  ultimately show ?thesis using l' by (auto simp: refocus_after_def Let_def wl_shown_def)
qed

lemma another_pane:
  assumes ok: "snap_ok h sn" and len: "1 < length (window_panes_of sn wid)"
  shows "\<exists>j q. get_pane sn j = Some q \<and> p_window_id q = wid \<and> j \<noteq> pid"
proof -
  let ?ids = "map p_id (window_panes_of sn wid)"
  have "map p_id (hm_values (sn_panes sn)) = map fst (sn_panes sn)"
    using pane_keys [OF ok] snap_ok_wf(3) [OF ok] by (auto simp: hm_values_def hm_wf_def)
  then have "distinct (map p_id (hm_values (sn_panes sn)))" using snap_ok_wf(3) [OF ok] by (simp add: hm_wf_def)
  then have "distinct ?ids" unfolding window_panes_of_def by (rule distinct_map_filter)
  then have "card (set ?ids) = length (window_panes_of sn wid)" using distinct_card by fastforce
  then have "\<not> set ?ids \<subseteq> {pid}" using len card_mono [of "{pid}" "set ?ids"] by auto
  then show ?thesis
    using pane_keys [OF ok] snap_ok_wf(3) [OF ok] by (auto simp: window_panes_of_def hm_values_iff)
qed

text \<open>One pane goes, its window changes, nothing else does.\<close>

definition drops_pane :: "snapshot \<Rightarrow> snapshot \<Rightarrow> pane_id \<Rightarrow> window_id \<Rightarrow> (window \<Rightarrow> window) \<Rightarrow> bool" where
  "drops_pane sn sn' pid wid f \<longleftrightarrow>
     sn_sessions sn' = sn_sessions sn \<and> hm_wf (sn_windows sn') \<and>
     sn_panes sn' = filter (\<lambda>x. fst x \<notin> {pid}) (sn_panes sn) \<and>
     (\<forall>i. get_window sn' i = (if i = wid then map_option f (get_window sn i) else get_window sn i)) \<and>
     (\<forall>w. window_keep w (f w) \<and> w_title (f w) = w_title w)"

lemma drops_pane_removes:
  assumes ok: "snap_ok h sn" and d: "drops_pane sn sn' pid wid f"
    and p: "get_pane sn pid = Some p" "p_window_id p = wid" and len: "1 < length (window_panes_of sn wid)"
  shows "removes sn sn' {pid} {}"
  unfolding removes_def
proof (intro conjI allI impI)
  have lw: "\<And>i. get_window sn' i = (if i = wid then map_option f (get_window sn i) else get_window sn i)"
    and keep: "\<And>w. window_keep w (f w) \<and> w_title (f w) = w_title w" and ls: "sn_sessions sn' = sn_sessions sn"
    using d by (auto simp: drops_pane_def)
  show "hm_wf (sn_sessions sn')" "hm_wf (sn_windows sn')" "sn_panes sn' = filter (\<lambda>x. fst x \<notin> {pid}) (sn_panes sn)"
    using d snap_ok_wf(1) [OF ok] by (auto simp: drops_pane_def)
  show "get_window sn i = Some v \<Longrightarrow> \<exists>w. get_window sn' i = Some w \<and> window_keep v w" for i v
    using keep by (auto simp: lw)
  fix i u assume u: "get_window sn' i = Some u"
  then obtain u0 where u0: "get_window sn i = Some u0" "window_keep u0 u" "w_title u = w_title u0"
    using keep by (auto simp: lw split: if_splits)
  then show "\<exists>v. get_window sn i = Some v \<and> window_keep v u \<and> w_title u = w_title v" by blast
  show "\<exists>t. get_session sn' (w_session_id u) = Some t"
    using window_session [OF ok u0(1)] u0(2) by (metis ls window_keep_def)
  show "\<exists>k a. get_pane sn k = Some a \<and> p_window_id a = i \<and> k \<notin> {pid}"
  proof (cases "i = wid")
    case True
    then show ?thesis using another_pane [OF ok len] by blast
  next
    case False
    then show ?thesis using refs_okD(5) [OF snap_okD(1) [OF ok] u0(1)] p by (fastforce simp: window_ok_def)
  qed
next
  fix j t assume "get_session sn' j = Some t"
  then show "\<exists>s'. get_session sn j = Some s' \<and> s_id t = s_id s' \<and> s_name t = s_name s' \<and>
      set (s_windows t) = set (s_windows s') - {} \<and> distinct (s_windows t) \<and> s_active_window t \<in> set (s_windows t)"
    using refs_okD(4) [OF snap_okD(1) [OF ok], of j t] d by (auto simp: drops_pane_def session_ok_def)
qed auto

lemma drops_pane_layout:
  assumes ok: "snap_ok h sn" and d: "drops_pane sn sn' pid wid (\<lambda>w. bump_window (refocus_after pid wid ps w))"
    and p: "get_pane sn pid = Some p" "p_window_id p = wid" and len: "1 < length (window_panes_of sn wid)"
    and lay: "layout_ok sn"
  shows "layout_ok sn'"
proof (rule removes_layout [OF drops_pane_removes [OF ok d p len] lay])
  have lw: "\<And>i. get_window sn' i = (if i = wid then map_option (\<lambda>w. bump_window (refocus_after pid wid ps w)) (get_window sn i)
      else get_window sn i)" using d by (auto simp: drops_pane_def)
  fix i v u assume iv: "get_window sn i = Some v" "get_window sn' i = Some u" "arranged sn i v"
  show "wl_ok (w_layout u) \<and> wl_panes (w_layout u) = wl_panes (w_layout v) - {pid} \<and> w_active_pane u \<in> set (wl_shown (w_layout u))"
  proof (cases "i = wid")
    case True
    have "wl_ok (w_layout v)" "wl_panes (w_layout v) = panes_in sn wid" "w_active_pane v \<in> wl_panes (w_layout v)"
      using iv(3) True shown_subset by (auto simp: arranged_def)
    moreover from this(2) have "pid \<in> wl_panes (w_layout v)" using p by (auto simp: panes_in_def)
    moreover obtain j q where "get_pane sn j = Some q" "p_window_id q = wid" "j \<noteq> pid" using another_pane [OF ok len] by blast
    with calculation(2) have "wl_panes (w_layout v) \<noteq> {pid}" by (auto simp: panes_in_def)
    ultimately have "let u = refocus_after pid wid ps v in wl_ok (w_layout u) \<and>
        wl_panes (w_layout u) = wl_panes (w_layout v) - {pid} \<and> w_active_pane u \<in> set (wl_shown (w_layout u))"
      by (intro refocus_after_arranged)
    moreover have "u = bump_window (refocus_after pid wid ps v)" using iv True by (simp add: lw)
    ultimately show ?thesis by (simp add: Let_def)
  next
    case False
    then have "pid \<notin> wl_panes (w_layout v)" using iv(3) p by (auto simp: arranged_def panes_in_def)
    then show ?thesis using iv False by (simp add: lw arranged_def)
  qed
qed

lemma destroy_pane_safe:
  assumes ok: "snap_ok h (g_state g)"
  shows "safe h (g_state g) (g_state (snd (destroy_pane h g pid ev)))"
proof -
  let ?sn = "g_state g" and ?r = "destroy_pane h g pid ev"
  show ?thesis
  proof (cases "\<exists>p w. get_pane ?sn pid = Some p \<and> version_conflict h ''pane'' (pane_uuid pid) ev (p_version p) = None \<and>
      1 < length (window_panes_of ?sn (p_window_id p)) \<and> get_window ?sn (p_window_id p) = Some w")
    case False
    then have "g_state (snd ?r) = ?sn" by (auto simp: destroy_pane_def Let_def split: option.splits)
    then show ?thesis using ok by simp
  next
    case True
    then obtain p w where p: "get_pane ?sn pid = Some p" and w: "get_window ?sn (p_window_id p) = Some w"
      and v: "version_conflict h ''pane'' (pane_uuid pid) ev (p_version p) = None"
      and len: "1 < length (window_panes_of ?sn (p_window_id p))" by blast
    have d: "drops_pane ?sn (g_state (snd ?r)) pid (p_window_id p)
        (\<lambda>w. bump_window (refocus_after pid (p_window_id p) (hm_remove pid (sn_panes ?sn)) w))"
      using p v w len snap_ok_wf(2) [OF ok] refocus_after_keep
      by (simp add: drops_pane_def destroy_pane_def Let_def on_window_def store_simps hm_remove_def case_prod_unfold window_keep_def)
    show ?thesis
      using removes_snap_ok [OF drops_pane_removes [OF ok d p refl len] ok] drops_pane_layout [OF ok d p refl len]
      by (simp add: safe_def)
  qed
qed

lemma destroy_pane_and_empty_parents_safe:
  assumes ok: "snap_ok h (g_state g)"
  shows "safe h (g_state g) (g_state (snd (destroy_pane_and_empty_parents h g pid)))"
proof -
  have 1: "safe h (g_state g) (g_state g1)" if "destroy_pane h g pid None = (r, g1)" for r g1
    using destroy_pane_safe [OF ok, of pid None] that by simp
  have 2: "safe h (g_state g) (g_state g2)" if "safe h (g_state g) (g_state g1)" "destroy_window h g1 wid None = (r, g2)" for g1 wid r g2
    using destroy_window_safe [of h g1 wid None] that safe_trans safeD by (metis snd_conv)
  have 3: "safe h (g_state g) (g_state (snd (destroy_session h g2 sid None)))" if "safe h (g_state g) (g_state g2)" for g2 sid
    using destroy_session_safe [of h g2 sid None] that safe_trans safeD by blast
  show ?thesis unfolding destroy_pane_and_empty_parents_def
    by (auto simp: Let_def split: prod.splits result.splits option.splits dest: 1 2 intro: 3)
qed

section \<open>The empty graph and a host to compute with\<close>

lemma default_ok [simp]: "snap_ok h snapshot_default" "layout_ok snapshot_default"
  by (simp_all add: snap_ok_def refs_ok_def names_ok_def room_ok_def layout_ok_def snapshot_default_def session_panes_def
      hm_values_def used_bytes_def)

definition demo_host :: host where
  "demo_host =
     \<lparr>h_alnum = is_ascii_alphanumeric, h_json_argv_len = (\<lambda>argv. 2 + sum_list (map (\<lambda>a. length a + 3) argv)),
      h_json_path_len = (\<lambda>p. length p + 2), h_show_uuid = (\<lambda>u. decimal (unat u)), h_clock = (\<lambda>_. 0)\<rparr>"

definition demo_fresh :: fresh where
  "demo_fresh =
     \<lparr>fr_session = SessionId 1, fr_window = WindowId 2, fr_pane = PaneId 3, fr_probe = SessionId 4,
      fr_title_probe = SessionId 5, fr_now = 0\<rparr>"

end
