(* ===== verification/Apply.thy ===== *)
theory Apply
  imports Graph_Keeps
begin

text \<open>
  Batches: the operations of \<^verbatim>\<open>shux-core/src/apply.rs\<close> and \<open>SessionGraph::apply_batch\<close>, which stages
  every operation on one copy of the state, then commits once and publishes all events under one
  correlation id.  The ids the operation with index \<open>i\<close> draws are \<open>fr i\<close>; the UUID of the
  correlation id is an argument.
\<close>

section \<open>Operations and results\<close>

datatype session_ref = SessionRefId session_id | SessionBackRef usize
datatype pane_ref = PaneRefId pane_id | PaneBackRef usize

datatype batch_op =
    OpCreateSession "rstring option" rstring "rstring list" "rstring option"
  | OpCreateWindow session_ref rstring "rstring option" "rstring list"
  | OpSplitPane pane_ref direction f32 "rstring list" "rstring option"

record op_output =
  oo_op_index :: usize
  oo_session_id :: "session_id option"
  oo_window_id :: "window_id option"
  oo_pane_id :: "pane_id option"

record spawn_result =
  sr_op_index :: usize
  sr_pane_id :: pane_id
  sr_spawned :: bool
  sr_error :: "rstring option"

record batch_result =
  br_outputs :: "op_output list"
  br_correlation_id :: rstring
  br_last_event_seq :: u64
  br_spawn_results :: "spawn_result list"

datatype batch_error =
    BackRefOutOfRange usize usize usize
  | BackRefWrongType usize usize rstring
  | OpFailed usize graph_error
  | BatchEmpty

definition new_correlation_id :: "host \<Rightarrow> uuid \<Rightarrow> rstring" where
  "new_correlation_id h u = ascii ''apply-'' @ h_show_uuid h u"

definition back_ref :: "op_output list \<Rightarrow> usize \<Rightarrow> usize \<Rightarrow> (op_output \<Rightarrow> 'a option) \<Rightarrow> string \<Rightarrow> ('a, batch_error) result" where
  "back_ref outputs op_index ref_op field expected =
     (if length outputs \<le> ref_op then Err (BackRefOutOfRange op_index ref_op (length outputs))
      else case field (outputs ! ref_op) of
             None \<Rightarrow> Err (BackRefWrongType op_index ref_op (ascii expected))
           | Some v \<Rightarrow> Ok v)"

fun resolve_session_ref :: "session_ref \<Rightarrow> op_output list \<Rightarrow> usize \<Rightarrow> (session_id, batch_error) result" where
  "resolve_session_ref (SessionRefId sid) outputs op_index = Ok sid"
| "resolve_session_ref (SessionBackRef ref_op) outputs op_index =
     back_ref outputs op_index ref_op oo_session_id ''session_id''"

fun resolve_pane_ref :: "pane_ref \<Rightarrow> op_output list \<Rightarrow> usize \<Rightarrow> (pane_id, batch_error) result" where
  "resolve_pane_ref (PaneRefId pid) outputs op_index = Ok pid"
| "resolve_pane_ref (PaneBackRef ref_op) outputs op_index =
     back_ref outputs op_index ref_op oo_pane_id ''pane_id''"

text \<open>The search for an unused \<open>session-N\<close>.\<close>

definition session_n :: "nat \<Rightarrow> rstring" where
  "session_n idx = ascii ''session-'' @ decimal idx"

lemma session_n_inj: "inj session_n"
  by (rule injI) (simp add: session_n_def)

function free_session_name :: "rstring list \<Rightarrow> nat \<Rightarrow> rstring" where
  "free_session_name taken idx =
     (if session_n idx \<in> set taken then free_session_name taken (Suc idx) else session_n idx)"
  by pat_completeness auto
termination
  by (relation "measure (\<lambda>(taken, idx). card {m. idx \<le> m \<and> session_n m \<in> set taken})")
     (auto intro!: free_search_step [OF session_n_inj])

declare free_session_name.simps [simp del]

definition auto_session_name :: "snapshot \<Rightarrow> rstring" where
  "auto_session_name sn =
     free_session_name (map s_name (hm_values (sn_sessions sn))) (length (sn_sessions sn) + 1)"

section \<open>Batches\<close>

record staged =
  st_snapshot :: snapshot
  st_seq :: u64
  st_outputs :: "op_output list"
  st_events :: "event_data list"

definition staged_push :: "staged \<Rightarrow> snapshot \<Rightarrow> op_output \<Rightarrow> event_data list \<Rightarrow> staged" where
  "staged_push st sn out evs =
     st\<lparr>st_snapshot := sn, st_outputs := st_outputs st @ [out], st_events := st_events st @ evs\<rparr>"

text \<open>The working directory of a window: its own, else that of some pane of the session, else \<open>.\<close>.\<close>

definition window_cwd :: "snapshot \<Rightarrow> session_id \<Rightarrow> rstring option \<Rightarrow> rstring" where
  "window_cwd sn sid cwd =
     (case cwd of
        Some c \<Rightarrow> c
      | None \<Rightarrow>
          (case List.find (\<lambda>p. case get_window sn (p_window_id p) of None \<Rightarrow> False | Some w \<Rightarrow> w_session_id w = sid)
                  (hm_values (sn_panes sn)) of
             Some p \<Rightarrow> p_cwd p
           | None \<Rightarrow> ascii ''.''))"

fun apply_op :: "host \<Rightarrow> fresh \<Rightarrow> staged \<Rightarrow> usize \<Rightarrow> batch_op \<Rightarrow> (staged, batch_error) result" where
  "apply_op h f st op_index (OpCreateSession name cwd initial_command initial_window_title) =
     (let sn = st_snapshot st;
          resolved_name = (case name of Some n \<Rightarrow> n | None \<Rightarrow> auto_session_name sn)
      in case stage_create_session h f sn (st_seq st) resolved_name cwd initial_command initial_window_title of
           Err e \<Rightarrow> Err (OpFailed op_index e)
         | Ok (sid, wid, pid, evs, sn', seq') \<Rightarrow>
             Ok (staged_push (st\<lparr>st_seq := seq'\<rparr>) sn'
                   \<lparr>oo_op_index = op_index, oo_session_id = Some sid, oo_window_id = Some wid, oo_pane_id = Some pid\<rparr> evs))"
| "apply_op h f st op_index (OpCreateWindow sref title cwd initial_command) =
     (case resolve_session_ref sref (st_outputs st) op_index of
        Err e \<Rightarrow> Err e
      | Ok sid \<Rightarrow>
          let sn = st_snapshot st
          in case stage_create_window h f sn sid title (window_cwd sn sid cwd) initial_command of
               Err e \<Rightarrow> Err (OpFailed op_index e)
             | Ok (wid, pid, evs, sn') \<Rightarrow>
                 Ok (staged_push st sn'
                       \<lparr>oo_op_index = op_index, oo_session_id = Some sid, oo_window_id = Some wid, oo_pane_id = Some pid\<rparr> evs))"
| "apply_op h f st op_index (OpSplitPane pref d ratio command cwd) =
     (case resolve_pane_ref pref (st_outputs st) op_index of
        Err e \<Rightarrow> Err e
      | Ok target \<Rightarrow>
          case stage_split_pane h f (st_snapshot st) target d ratio command cwd of
            Err e \<Rightarrow> Err (OpFailed op_index e)
          | Ok (pid, wid, sid, evs, sn') \<Rightarrow>
              Ok (staged_push st sn'
                    \<lparr>oo_op_index = op_index, oo_session_id = Some sid, oo_window_id = Some wid, oo_pane_id = Some pid\<rparr> evs))"

text \<open>A failing batch reports the counter it has reached beside the error.\<close>

fun apply_ops :: "host \<Rightarrow> (usize \<Rightarrow> fresh) \<Rightarrow> staged \<Rightarrow> usize \<Rightarrow> batch_op list \<Rightarrow> (staged, batch_error \<times> u64) result" where
  "apply_ops h fr st i [] = Ok st"
| "apply_ops h fr st i (op # ops) =
     (case apply_op h (fr i) st i op of
        Err e \<Rightarrow> Err (e, st_seq st)
      | Ok st' \<Rightarrow> apply_ops h fr st' (Suc i) ops)"

definition fire_batch :: "host \<Rightarrow> graph \<Rightarrow> rstring \<Rightarrow> event_data list \<Rightarrow> graph \<times> u64" where
  "fire_batch h g correlation_id evs =
     foldl (\<lambda>(g, _) ev. fire_with_correlation h g ev correlation_id) (g, 0) evs"

definition staging :: "graph \<Rightarrow> staged" where
  "staging g = \<lparr>st_snapshot = g_state g, st_seq = g_next_session_seq g, st_outputs = [], st_events = []\<rparr>"

definition apply_batch ::
  "host \<Rightarrow> (usize \<Rightarrow> fresh) \<Rightarrow> uuid \<Rightarrow> graph \<Rightarrow> batch_op list \<Rightarrow> (batch_result, batch_error) result \<times> graph" where
  "apply_batch h fr u g ops =
     (if ops = [] then (Err BatchEmpty, g)
      else case apply_ops h fr (staging g) 0 ops of
             Err (e, seq) \<Rightarrow> (Err e, g\<lparr>g_next_session_seq := seq\<rparr>)
           | Ok st \<Rightarrow>
               let g1 = commit_snapshot (g\<lparr>g_next_session_seq := st_seq st\<rparr>) (st_snapshot st);
                   correlation_id = new_correlation_id h u;
                   (g2, last_event_seq) = fire_batch h g1 correlation_id (st_events st)
               in (Ok \<lparr>br_outputs = st_outputs st, br_correlation_id = correlation_id,
                       br_last_event_seq = last_event_seq, br_spawn_results = []\<rparr>, g2))"

section \<open>Lemmas\<close>

lemma free_session_name_free:
  "free_session_name taken idx \<notin> set taken \<and>
   (\<exists>n \<ge> idx. free_session_name taken idx = session_n n \<and> (\<forall>m. idx \<le> m \<longrightarrow> m < n \<longrightarrow> session_n m \<in> set taken))"
proof (induction taken idx rule: free_session_name.induct)
  case (1 taken idx)
  show ?case
  proof (cases "session_n idx \<in> set taken")
    case True
    then have eq: "free_session_name taken idx = free_session_name taken (Suc idx)"
      by (subst free_session_name.simps) simp
    obtain n where n: "Suc idx \<le> n" "free_session_name taken (Suc idx) = session_n n"
      "\<forall>m. Suc idx \<le> m \<longrightarrow> m < n \<longrightarrow> session_n m \<in> set taken" using 1 [OF True] by blast
    have "session_n m \<in> set taken" if "idx \<le> m" "m < n" for m
      using that n(3) True by (cases "m = idx") auto
    then show ?thesis using 1 [OF True] n by (auto simp: eq intro!: exI [of _ n])
  next
    case False
    then show ?thesis by (subst free_session_name.simps, subst (2) free_session_name.simps) (auto intro!: exI [of _ idx])
  qed
qed

lemma apply_op_outputs:
  "apply_op h f st i op = Ok st' \<Longrightarrow>
     \<exists>out evs. st_outputs st' = st_outputs st @ [out] \<and> oo_op_index out = i \<and> st_events st' = st_events st @ evs \<and>
       oo_session_id out \<noteq> None \<and> oo_window_id out \<noteq> None \<and> oo_pane_id out = Some (fr_pane f)"
  by (cases op)
     (auto simp: staged_push_def Let_def stage_create_session_def stage_create_window_def stage_split_pane_def
       split: result.splits prod.splits if_splits option.splits)

lemma apply_ops_outputs:
  "apply_ops h fr st i ops = Ok st' \<Longrightarrow> map oo_op_index (st_outputs st) = [0..<i] \<Longrightarrow>
     map oo_op_index (st_outputs st') = [0..<i + length ops]"
proof (induction ops arbitrary: st i)
  case (Cons op ops)
  then obtain st1 where st1: "apply_op h (fr i) st i op = Ok st1" "apply_ops h fr st1 (Suc i) ops = Ok st'"
    by (auto split: result.splits)
  have "map oo_op_index (st_outputs st1) = [0..<Suc i]" using apply_op_outputs [OF st1(1)] Cons.prems(2) by auto
  with Cons.IH [OF st1(2)] show ?case by simp
qed simp

text \<open>Staging an operation keeps the invariants and adds no id but the ones it draws.\<close>

lemma apply_op_safe:
  assumes "snap_ok h (st_snapshot st)" "fresh_ok f (st_snapshot st)" "apply_op h f st i op = Ok st'"
  shows "safe h (st_snapshot st) (st_snapshot st')"
  using assms(3) stage_create_session_safe [OF assms(1,2)] stage_create_window_safe [OF assms(1,2)]
    stage_split_pane_safe [OF assms(1,2)]
  by (cases op) (auto simp: staged_push_def Let_def split: result.splits prod.splits)

definition adds_only :: "fresh \<Rightarrow> snapshot \<Rightarrow> snapshot \<Rightarrow> bool" where
  "adds_only f sn sn' \<longleftrightarrow>
     (\<forall>j. get_session sn j = None \<longrightarrow> j \<noteq> fr_session f \<longrightarrow> get_session sn' j = None) \<and>
     (\<forall>j. get_window sn j = None \<longrightarrow> j \<noteq> fr_window f \<longrightarrow> get_window sn' j = None) \<and>
     (\<forall>j. get_pane sn j = None \<longrightarrow> j \<noteq> fr_pane f \<longrightarrow> get_pane sn' j = None)"

lemma apply_op_ids: "apply_op h f st i op = Ok st' \<Longrightarrow> adds_only f (st_snapshot st) (st_snapshot st')"
  by (cases op)
     (auto simp: adds_only_def staged_push_def Let_def stage_create_session_def stage_create_window_def
       stage_split_pane_def store_simps on_session_def on_window_def split: result.splits prod.splits if_splits option.splits)

text \<open>What \<open>Uuid::new_v4\<close> gives: every draw is new to the state and to the draws before it.\<close>

definition fresh_apart :: "fresh \<Rightarrow> fresh \<Rightarrow> bool" where
  "fresh_apart f f' \<longleftrightarrow>
     fr_session f \<noteq> fr_session f' \<and> fr_session f \<noteq> fr_probe f' \<and> fr_session f \<noteq> fr_title_probe f' \<and>
     fr_window f \<noteq> fr_window f' \<and> fr_pane f \<noteq> fr_pane f'"

definition fresh_supply :: "(usize \<Rightarrow> fresh) \<Rightarrow> nat \<Rightarrow> nat \<Rightarrow> snapshot \<Rightarrow> bool" where
  "fresh_supply fr i n sn \<longleftrightarrow>
     list_all (\<lambda>k. fresh_ok (fr k) sn) [i..<n] \<and> list_all (\<lambda>k. list_all (\<lambda>l. fresh_apart (fr k) (fr l)) [Suc k..<n]) [i..<n]"

lemma fresh_supply_step:
  assumes sup: "fresh_supply fr i n sn" and add: "adds_only (fr i) sn sn'" and i: "i < n"
  shows "fresh_supply fr (Suc i) n sn'"
proof -
  have "fresh_ok (fr k) sn'" if k: "Suc i \<le> k" "k < n" for k
  proof -
    have "fresh_ok (fr k) sn" using sup k by (auto simp: fresh_supply_def list_all_iff)
    moreover have "fresh_apart (fr i) (fr k)" using sup k i by (auto simp: fresh_supply_def list_all_iff)
    ultimately show ?thesis using add by (auto simp: fresh_ok_def fresh_apart_def adds_only_def)
  qed
  then show ?thesis using sup by (auto simp: fresh_supply_def list_all_iff)
qed

lemma apply_ops_safe:
  "snap_ok h (st_snapshot st) \<Longrightarrow> fresh_supply fr i (i + length ops) (st_snapshot st) \<Longrightarrow>
     apply_ops h fr st i ops = Ok st' \<Longrightarrow> safe h (st_snapshot st) (st_snapshot st')"
proof (induction ops arbitrary: st i)
  case (Cons op ops)
  obtain st1 where st1: "apply_op h (fr i) st i op = Ok st1" "apply_ops h fr st1 (Suc i) ops = Ok st'"
    using Cons.prems(3) by (auto split: result.splits)
  have "i \<in> set [i..<i + length (op # ops)]" by simp
  then have "fresh_ok (fr i) (st_snapshot st)" using Cons.prems(2) unfolding fresh_supply_def list_all_iff by blast
  then have 1: "safe h (st_snapshot st) (st_snapshot st1)" using apply_op_safe [OF Cons.prems(1) _ st1(1)] by blast
  moreover have "fresh_supply fr (Suc i) (Suc i + length ops) (st_snapshot st1)"
    using fresh_supply_step [OF Cons.prems(2) apply_op_ids [OF st1(1)]] by simp
  then have "safe h (st_snapshot st1) (st_snapshot st')" using Cons.IH [OF safeD [OF 1] _ st1(2)] by simp
  ultimately show ?case by (rule safe_trans)
qed simp

text \<open>Publishing a batch.\<close>

definition event_log :: "graph \<Rightarrow> event list" where
  "event_log g = (case g_event_bus g of None \<Rightarrow> [] | Some b \<Rightarrow> b_sent b)"

lemma published_log: "published g = map ev_data (event_log g)"
  by (simp add: published_def event_log_def split: option.splits)

lemma fire_batch_snoc:
  "fire_batch h g c (evs @ [e]) = fire_with_correlation h (fst (fire_batch h g c evs)) e c"
  by (simp add: fire_batch_def split: prod.splits)

lemma fire_with_correlation_facts:
  assumes "fire_with_correlation h g d c = (g', q)"
  shows "g_state g' = g_state g" "has_bus g' = has_bus g" "g_next_session_seq g' = g_next_session_seq g"
    "g_pty_owners g' = g_pty_owners g" "g_status_generations g' = g_status_generations g"
    "\<exists>new. event_log g' = event_log g @ new \<and> map ev_data new = (if has_bus g then [d] else []) \<and>
       list_all (\<lambda>e. m_correlation_id (ev_meta e) = Some c) new \<and> (has_bus g \<longrightarrow> q = ev_seq (last new))"
  using assms
  by (auto simp: fire_with_correlation_def event_log_def has_bus_def publish_with_correlation_def Let_def ev_seq_def
      split: option.splits)

lemma fire_batch_facts:
  "\<exists>new. event_log (fst (fire_batch h g c evs)) = event_log g @ new \<and>
     map ev_data new = (if has_bus g then evs else []) \<and>
     list_all (\<lambda>e. m_correlation_id (ev_meta e) = Some c) new \<and>
     (new \<noteq> [] \<longrightarrow> snd (fire_batch h g c evs) = ev_seq (last new)) \<and>
     g_state (fst (fire_batch h g c evs)) = g_state g \<and> has_bus (fst (fire_batch h g c evs)) = has_bus g \<and>
     g_next_session_seq (fst (fire_batch h g c evs)) = g_next_session_seq g \<and>
     g_pty_owners (fst (fire_batch h g c evs)) = g_pty_owners g \<and>
     g_status_generations (fst (fire_batch h g c evs)) = g_status_generations g"
proof (induction evs rule: rev_induct)
  case (snoc e evs)
  let ?g = "fst (fire_batch h g c evs)"
  obtain g' q where r: "fire_with_correlation h ?g e c = (g', q)" by fastforce
  note f = fire_with_correlation_facts [OF r]
  from snoc.IH obtain new where new: "event_log ?g = event_log g @ new" "map ev_data new = (if has_bus g then evs else [])"
    "list_all (\<lambda>e. m_correlation_id (ev_meta e) = Some c) new" "has_bus ?g = has_bus g" by blast
  from f(6) obtain n1 where n1: "event_log g' = event_log ?g @ n1" "map ev_data n1 = (if has_bus ?g then [e] else [])"
    "list_all (\<lambda>e. m_correlation_id (ev_meta e) = Some c) n1" "has_bus ?g \<longrightarrow> q = ev_seq (last n1)" by blast
  have "n1 = [] \<longleftrightarrow> \<not> has_bus g" "new = [] \<or> has_bus g" using n1(2) new(2,4) by (auto split: if_splits)
  then show ?case using snoc.IH new n1 f(1-5)
    by (intro exI [of _ "new @ n1"]) (auto simp: fire_batch_snoc r)
qed (simp add: fire_batch_def)

lemma apply_batch_safe:
  assumes "snap_ok h (g_state g)" and "fresh_supply fr 0 (length ops) (g_state g)"
  shows "safe h (g_state g) (g_state (snd (apply_batch h fr u g ops)))"
proof (cases "apply_ops h fr (staging g) 0 ops")
  case (Ok st)
  let ?g = "commit_snapshot (g\<lparr>g_next_session_seq := st_seq st\<rparr>) (st_snapshot st)"
  have "safe h (g_state g) (st_snapshot st)" using apply_ops_safe [OF _ _ Ok] assms by (simp add: staging_def)
  then show ?thesis
    using assms Ok fire_batch_facts [of h ?g "new_correlation_id h u" "st_events st"]
    by (auto simp: apply_batch_def Let_def split: prod.splits)
next
  case (Err x)
  then show ?thesis using assms by (cases x) (simp add: apply_batch_def)
qed

section \<open>Properties\<close>


text \<open>whatever a batch does, the graph stays consistent and arranged, provided the ids it draws are
  new: names valid and unique, every reference live, no session past its pane and byte budget, and
  every window showing its focused pane.\<close>

theorem apply_batch_keeps_invariants:
  assumes "snap_ok h (g_state g)" and "fresh_supply fr 0 (length ops) (g_state g)"
  shows "snap_ok h (g_state (snd (apply_batch h fr u g ops))) \<and>
    (layout_ok (g_state g) \<longrightarrow> layout_ok (g_state (snd (apply_batch h fr u g ops))))"
  using apply_batch_safe [OF assms] by (simp add: safe_def)

theorem apply_batch_keeps_invariants_witness:
  "let g = snd (apply_batch demo_host (\<lambda>_. demo_fresh) 5 (graph_new None) [OpCreateSession None (ascii ''/'') [] None])
   in snap_ok demo_host (g_state g) \<and> layout_ok (g_state g)"
proof -
  have "fresh_supply (\<lambda>_. demo_fresh) 0 1 snapshot_default"
    by (simp add: fresh_supply_def fresh_ok_def snapshot_default_def)
  then show ?thesis
    using apply_batch_keeps_invariants [of demo_host "graph_new None" "\<lambda>_. demo_fresh"
        "[OpCreateSession None (ascii ''/'') [] None]" 5]
    by (simp add: graph_new_def Let_def)
qed

text \<open>C35: the operations that commit at once are the staged ones: each succeeds exactly when staging on the
  same state does, commits the staged snapshot and fires the staged events in order; on failure it
  changes nothing.\<close>

theorem direct_operations_stage:
  "commits h (g\<lparr>g_next_session_seq := g_next_session_seq g +
       (if is_Ok (fst (create_session_with_command h f g name cwd command)) then 1 else 0)\<rparr>)
     (create_session_with_command h f g name cwd command)
     (map_ok (\<lambda>(sid, wid, pid, evs, sn, seq). (sid, evs, sn))
        (stage_create_session h f (g_state g) (g_next_session_seq g) name cwd command None)) \<and>
   commits h g (create_window_with_command h f g sid title cwd command)
     (map_ok (\<lambda>(wid, pid, evs, sn). (wid, evs, sn)) (stage_create_window h f (g_state g) sid title cwd command)) \<and>
   commits h g (split_pane_with_command h f g target d ratio command)
     (map_ok (\<lambda>(pid, wid, sid, evs, sn). (pid, evs, sn)) (stage_split_pane h f (g_state g) target d ratio command None))"
  using create_session_stages [OF refl] create_window_stages split_pane_stages by blast

text \<open>C40: the name given to an unnamed session of a batch is not in use, and it is the first free one of
  \<open>session-N\<close>, \<open>session-(N+1)\<close>, ... where \<open>N\<close> is the number of sessions plus one; the search ends.\<close>

theorem auto_session_name_is_first_free:
  "\<not> session_name_exists sn (auto_session_name sn) \<and>
   (\<exists>n \<ge> length (sn_sessions sn) + 1.
      auto_session_name sn = session_n n \<and>
      list_all (\<lambda>m. session_name_exists sn (session_n m)) [length (sn_sessions sn) + 1..<n])"
proof -
  have "session_name_exists sn x \<longleftrightarrow> x \<in> set (map s_name (hm_values (sn_sessions sn)))" for x
    by (auto simp: session_name_exists_def list_ex_iff)
  then show ?thesis
    using free_session_name_free [of "map s_name (hm_values (sn_sessions sn))" "length (sn_sessions sn) + 1"]
    by (auto simp: auto_session_name_def list_all_iff)
qed

end
