(* ===== verification/Graph_Effects.thy ===== *)
theory Graph_Effects
  imports Graph_Keeps
begin

text \<open>
  What an operation of the session graph can do besides changing the state: nothing when it fails,
  no entry in a side table for a pane that is gone, and a change of the session names only where
  its name says so.
\<close>

section \<open>Failure and side tables\<close>

definition side_ok :: "graph \<Rightarrow> bool" where
  "side_ok g \<longleftrightarrow>
     list_all (hm_contains (sn_panes (g_state g))) (hm_keys (g_pty_owners g)) \<and>
     list_all (hm_contains (sn_panes (g_state g))) (hm_keys (g_status_generations g))"

definition clean :: "graph \<Rightarrow> 'a reply \<Rightarrow> bool" where
  "clean g r \<longleftrightarrow> (is_Ok (fst r) \<or> snd r = g) \<and> (side_ok g \<longrightarrow> side_ok (snd r))"

text \<open>Panes that live on keep their entries.\<close>

definition kept :: "('k, 'v) hashmap \<Rightarrow> ('k, 'w) hashmap \<Rightarrow> ('k, 'w) hashmap \<Rightarrow> bool" where
  "kept live m m' \<longleftrightarrow> (\<forall>k. hm_contains live k \<longrightarrow> hm_get m' k = hm_get m k)"

definition owners_kept :: "graph \<Rightarrow> graph \<Rightarrow> bool" where
  "owners_kept g g' \<longleftrightarrow> kept (sn_panes (g_state g')) (g_pty_owners g) (g_pty_owners g')"

definition generations_kept :: "graph \<Rightarrow> graph \<Rightarrow> bool" where
  "generations_kept g g' \<longleftrightarrow> kept (sn_panes (g_state g')) (g_status_generations g) (g_status_generations g')"

definition calm :: "graph \<Rightarrow> 'a reply \<Rightarrow> bool" where
  "calm g r \<longleftrightarrow> clean g r \<and> owners_kept g (snd r) \<and> generations_kept g (snd r)"

lemma kept_facts [simp]: "kept live m m" "kept live m (hm_retain (hm_contains live) m)"
  by (simp_all add: kept_def store_simps)

lemma kept_graph_facts [simp]:
  "owners_kept g g" "generations_kept g g"
  "g_pty_owners g1 = g_pty_owners g \<Longrightarrow> owners_kept g (commit_and_fire h g1 sn evs)"
  "g_status_generations g1 = g_status_generations g \<Longrightarrow> generations_kept g (commit_and_fire h g1 sn evs)"
  by (simp_all add: owners_kept_def generations_kept_def)

lemma retained_keys: "list_all P (hm_keys (hm_retain P m))"
  by (auto simp: list_all_iff hm_keys_def hm_retain_def)

lemma insert_keysI: "P k \<Longrightarrow> list_all P (hm_keys m) \<Longrightarrow> list_all P (hm_keys (hm_insert k v m))"
  by (induction m) (auto simp: hm_insert_def hm_keys_def list_all_iff)

lemma side_ok_commit [simp]: "side_ok (commit_and_fire h g sn evs)"
  by (simp add: side_ok_def retained_keys)

lemma side_ok_put:
  assumes "side_ok g" "get_pane (g_state g) pid = Some p"
  shows "side_ok (g\<lparr>g_pty_owners := hm_insert pid n (g_pty_owners g)\<rparr>)"
    and "side_ok (g\<lparr>g_status_generations := hm_insert pid n (g_status_generations g)\<rparr>)"
    and "side_ok (g\<lparr>g_status_generations := hm_insert pid m (hm_insert pid n (g_status_generations g))\<rparr>)"
  using assms by (auto simp: side_ok_def store_simps intro!: insert_keysI)

lemma clean_simps [simp]:
  "clean g (Err e, g)" "clean g (Ok v, g)" "clean g (Ok v, commit_and_fire h g1 sn evs)"
  by (simp_all add: clean_def)

lemma calm_simps [simp]:
  "calm g (Err e, g)" "calm g (Ok v, g)"
  "g_pty_owners g1 = g_pty_owners g \<Longrightarrow> g_status_generations g1 = g_status_generations g \<Longrightarrow>
     calm g (Ok v, commit_and_fire h g1 sn evs)"
  by (simp_all add: calm_def)

lemma calm_clean: "calm g r \<Longrightarrow> clean g r"
  by (simp add: calm_def)

lemma calm_if [simp]: "calm g (if b then r else r') \<longleftrightarrow> (if b then calm g r else calm g r')"
  by simp

lemma create_session_calm: "calm g (create_session_with_command h f g name cwd command)"
  by (simp add: create_session_with_command_def Let_def split: result.splits)

lemma destroy_session_calm: "calm g (destroy_session h g sid ev)"
  by (simp add: destroy_session_def Let_def split: option.splits)

lemma rename_session_calm: "calm g (rename_session h g sid name ev)"
  by (simp add: rename_session_def Let_def split: option.splits result.splits)

lemma create_window_calm: "calm g (create_window_with_command h f g sid title cwd command)"
  by (simp add: create_window_with_command_def Let_def split: result.splits)

lemma destroy_window_calm: "calm g (destroy_window h g wid ev)"
  by (simp add: destroy_window_def Let_def split: option.splits)

lemma rename_window_calm: "calm g (rename_window h g wid title ev)"
  by (simp add: rename_window_def Let_def split: option.splits result.splits)

lemma focus_window_calm: "calm g (focus_window h g wid ev)"
  by (simp add: focus_window_def Let_def split: option.splits)

lemma reorder_window_calm: "calm g (reorder_window h g wid n ev)"
  by (simp add: reorder_window_def Let_def split: option.splits)

lemma create_pane_calm: "calm g (create_pane h f g wid cwd command)"
  by (simp add: create_pane_def Let_def split: option.splits result.splits)

lemma destroy_pane_calm: "calm g (destroy_pane h g pid ev)"
  by (simp add: destroy_pane_def Let_def split: option.splits)

lemma set_pane_exit_calm: "calm g (set_pane_exit h g pid ex)"
  by (simp add: set_pane_exit_def Let_def split: option.splits)

lemma set_session_tag_calm: "calm g (set_session_tag h g sid k v)"
  by (simp add: set_session_tag_def Let_def)

lemma set_pane_tag_calm: "calm g (set_pane_tag h g pid k v)"
  by (simp add: set_pane_tag_def Let_def)

lemma set_session_theme_calm: "calm g (set_session_theme h g sid th)"
  by (simp add: set_session_theme_def Let_def)

lemma set_pane_theme_calm: "calm g (set_pane_theme h g pid th)"
  by (simp add: set_pane_theme_def Let_def)

lemma set_pane_title_calm: "calm g (set_pane_title h g pid title auto)"
  by (simp add: set_pane_title_def Let_def split: option.splits)

lemma set_pane_osc_title_calm: "calm g (set_pane_osc_title h g pid title)"
  by (simp add: set_pane_osc_title_def Let_def split: option.splits prod.splits)

lemma split_pane_calm: "calm g (split_pane_with_command h f g target d ratio command)"
  by (simp add: split_pane_with_command_def find_pane_window_def Let_def split: option.splits result.splits prod.splits)

lemma focus_pane_calm: "calm g (focus_pane h g pid)"
  by (simp add: focus_pane_def find_pane_window_def Let_def split: option.splits)

lemma calm_then: "calm g r \<Longrightarrow> calm g (case r of (Err e, g') \<Rightarrow> (Err e, g') | (Ok _, g') \<Rightarrow> (Ok v, g'))"
  by (cases r) (auto simp: calm_def clean_def split: result.splits)

lemma focus_pane_direction_calm: "calm g (focus_pane_direction h g wid nd v)"
  by (simp add: focus_pane_direction_def calm_then [OF focus_pane_calm] split: option.splits)

lemma resize_pane_calm: "calm g (graph_resize_pane h g pid d delta ev)"
  by (simp add: graph_resize_pane_def find_pane_window_def Let_def split: option.splits)

lemma zoom_pane_calm: "calm g (zoom_pane h g pid ev)"
  by (simp add: zoom_pane_def find_pane_window_def Let_def split: option.splits)

lemma zoom_pane_if_focused_calm: "calm g (zoom_pane_if_focused h g pid fo)"
  by (simp add: zoom_pane_if_focused_def find_pane_window_def Let_def zoom_pane_calm split: option.splits)

lemma swap_panes_calm: "calm g (graph_swap_panes h g pa pb ev)"
  by (simp add: graph_swap_panes_def Let_def split: option.splits)

lemma calm_cases: "calm g (r, g') \<Longrightarrow> is_Ok r \<or> g' = g"
  by (simp add: calm_def clean_def)

lemma destroy_pane_and_empty_parents_calm: "calm g (destroy_pane_and_empty_parents h g pid)"
proof -
  obtain r g1 where r: "destroy_pane h g pid None = (r, g1)" by fastforce
  have c: "calm g (r, g1)" using destroy_pane_calm [of g h pid None] r by simp
  show ?thesis
  proof (cases "r = Err LastPane")
    case False
    then show ?thesis using r c by (simp add: destroy_pane_and_empty_parents_def)
  next
    case True
    then have g1: "g1 = g" using calm_cases [OF c] by simp
    have "calm g (let (r, g) = destroy_window h g wid None
        in if r \<noteq> Err LastWindow then (r, g) else destroy_session h g sid None)" for wid sid
    proof -
      obtain q g2 where q: "destroy_window h g wid None = (q, g2)" by fastforce
      have c2: "calm g (q, g2)" using destroy_window_calm [of g h wid None] q by simp
      then show ?thesis using q calm_cases [OF c2] destroy_session_calm [of g h sid None] by auto
    qed
    then show ?thesis using r True g1
      by (auto simp: destroy_pane_and_empty_parents_def find_pane_window_def split: option.splits)
  qed
qed

text \<open>The three operations on the side tables; the panes of a consistent graph have a window.\<close>

lemma claim_pane_pty_clean:
  assumes "snap_ok h (g_state g)"
  shows "clean g (claim_pane_pty h g pid inc)"
proof (cases "get_pane (g_state g) pid")
  case (Some p)
  then obtain w where "get_window (g_state g) (p_window_id p) = Some w" using pane_window [OF assms] by blast
  then show ?thesis using Some
    by (auto simp: claim_pane_pty_def Let_def clean_def side_ok_put split: option.splits)
qed (simp add: claim_pane_pty_def)

lemma claim_pane_pty_generations: "generations_kept g (snd (claim_pane_pty h g pid inc))"
  by (auto simp: claim_pane_pty_def Let_def generations_kept_def split: option.splits)

lemma set_pane_program_status_clean: "clean g (set_pane_program_status h g pid st)"
  by (auto simp: set_pane_program_status_def Let_def clean_def side_ok_put split: option.splits)

lemma set_pane_program_status_owners: "owners_kept g (snd (set_pane_program_status h g pid st))"
  by (auto simp: set_pane_program_status_def Let_def owners_kept_def split: option.splits)

lemma owned_owners: "owners_kept g (snd (set_pane_exit_status_owned h g pid ex inc final))"
proof -
  obtain r g1 where r: "set_pane_program_status h g pid (the final) = (r, g1)" by fastforce
  have 1: "owners_kept g g1" using set_pane_program_status_owners [of g h pid "the final"] r by simp
  have "owners_kept g1 (snd (set_pane_exit h g1 pid ex))" using set_pane_exit_calm [of g1 h pid ex] by (simp add: calm_def)
  moreover have "get_pane (g_state (snd (set_pane_exit h g1 pid ex))) k = None" if "get_pane (g_state g1) k = None" for k
    using that by (auto simp: set_pane_exit_def Let_def on_pane_def store_simps split: option.splits)
  ultimately have "owners_kept g (snd (set_pane_exit h g1 pid ex))"
    using 1 unfolding owners_kept_def kept_def hm_contains_def by metis
  then show ?thesis using r 1 set_pane_exit_calm [of g h pid ex]
    by (auto simp: set_pane_exit_status_owned_def calm_def split: option.splits result.splits)
qed

lemma set_pane_exit_status_owned_clean:
  assumes ok: "snap_ok h (g_state g)"
  shows "clean g (set_pane_exit_status_owned h g pid ex inc final)"
proof (cases "hm_get (g_pty_owners g) pid = Some inc \<and> final \<noteq> None")
  case False
  then show ?thesis using calm_clean [OF set_pane_exit_calm [of g h]]
    by (auto simp: set_pane_exit_status_owned_def split: option.splits)
next
  case True
  then obtain st where st: "final = Some st" by blast
  obtain r g1 where r: "set_pane_program_status h g pid st = (r, g1)" by fastforce
  have c: "clean g (r, g1)" using set_pane_program_status_clean [of g h pid st] r by simp
  have ok1: "snap_ok h (g_state g1)" using safeD [OF set_pane_program_status_safe [OF ok, of pid st]] r by simp
  show ?thesis
  proof (cases r)
    case (Err e)
    then show ?thesis using True st r c by (simp add: set_pane_exit_status_owned_def)
  next
    case (Ok v)
    have "get_pane (g_state g) pid \<noteq> None"
      using r Ok by (cases "get_pane (g_state g) pid") (simp_all add: set_pane_program_status_def)
    then have "get_pane (g_state g1) pid \<noteq> None"
      using r by (auto simp: set_pane_program_status_def Let_def on_pane_def store_simps split: option.splits if_splits)
    then obtain p where p: "get_pane (g_state g1) pid = Some p" by blast
    then obtain w where "get_window (g_state g1) (p_window_id p) = Some w" using pane_window [OF ok1] by blast
    then have "\<exists>sn evs. set_pane_exit h g1 pid ex = (Ok (), commit_and_fire h g1 sn evs)"
      using p by (auto simp: set_pane_exit_def Let_def)
    then show ?thesis using True st r Ok by (auto simp: set_pane_exit_status_owned_def)
  qed
qed

lemmas op_calm =
  create_session_calm create_window_calm split_pane_calm destroy_session_calm rename_session_calm
  destroy_window_calm rename_window_calm focus_window_calm reorder_window_calm create_pane_calm
  destroy_pane_calm set_pane_exit_calm set_session_tag_calm set_pane_tag_calm set_session_theme_calm
  set_pane_theme_calm set_pane_title_calm set_pane_osc_title_calm 
  focus_pane_calm focus_pane_direction_calm resize_pane_calm zoom_pane_calm zoom_pane_if_focused_calm
  destroy_pane_and_empty_parents_calm swap_panes_calm

lemmas op_clean = op_calm [THEN calm_clean] set_pane_program_status_clean

section \<open>Session names\<close>

text \<open>The directory of a snapshot: the name of every session.\<close>

definition directory :: "snapshot \<Rightarrow> session_id \<Rightarrow> rstring option" where
  "directory sn = (\<lambda>sid. map_option s_name (get_session sn sid))"

lemma directory_simps [simp]:
  "directory (on_window wid fw sn) = directory sn" "directory (on_pane pid fp sn) = directory sn"
  "directory (touch sn) = directory sn" "directory (sn\<lparr>sn_panes := ps\<rparr>) = directory sn"
  "directory (sn\<lparr>sn_windows := ws\<rparr>) = directory sn" "directory (bump_window_panes wid sn) = directory sn"
  by (simp_all add: directory_def on_window_def on_pane_def bump_window_panes_def)

lemma directory_on_session:
  "(\<And>s. s_name (f s) = s_name s) \<Longrightarrow> directory (on_session sid f sn) = directory sn"
  by (auto simp: directory_def on_session_def store_simps bump_session_def map_option.compositionality comp_def)

lemma directory_create: "stage_create_session h f sn seq name cwd command title = Ok (sid, wid, pid, evs, sn', seq') \<Longrightarrow>
    validate_session_name h name = Ok () \<and> \<not> session_name_exists sn name \<and> sid = fr_session f \<and>
    directory sn' = (directory sn)(sid \<mapsto> name)"
  by (auto simp: stage_create_session_def Let_def directory_def store_simps session_new_def fun_eq_iff split: result.splits if_splits)

lemma directory_stage_window: "stage_create_window h f sn sid title cwd command = Ok (wid, pid, evs, sn') \<Longrightarrow> directory sn' = directory sn"
  by (auto simp: stage_create_window_def Let_def directory_on_session split: result.splits if_splits)

lemma directory_stage_split: "stage_split_pane h f sn target d ratio command cwd = Ok (pid, wid, sid, evs, sn') \<Longrightarrow> directory sn' = directory sn"
  by (auto simp: stage_split_pane_def Let_def split: result.splits if_splits option.splits prod.splits)

lemma directory_create_session:
  "directory (g_state (snd (create_session_with_command h f g name cwd command))) =
     (if is_Ok (fst (create_session_with_command h f g name cwd command))
      then (directory (g_state g))(fr_session f \<mapsto> name) else directory (g_state g))"
  "is_Ok (fst (create_session_with_command h f g name cwd command)) \<Longrightarrow>
     validate_session_name h name = Ok () \<and> \<not> session_name_exists (g_state g) name"
  by (auto simp: create_session_with_command_def Let_def directory_def store_simps session_new_def fun_eq_iff split: result.splits)

lemma directory_destroy_session:
  "directory (g_state (snd (destroy_session h g sid ev))) =
     (if is_Ok (fst (destroy_session h g sid ev)) then (directory (g_state g))(sid := None) else directory (g_state g))"
  by (auto simp: destroy_session_def Let_def directory_def store_simps fun_eq_iff split: option.splits)

lemma directory_rename_session:
  "directory (g_state (snd (rename_session h g sid name ev))) =
     (if is_Ok (fst (rename_session h g sid name ev)) then (directory (g_state g))(sid \<mapsto> name) else directory (g_state g))"
  "is_Ok (fst (rename_session h g sid name ev)) \<Longrightarrow>
     validate_session_name h name = Ok () \<and> \<not> session_name_exists (g_state g) name \<and> directory (g_state g) sid \<noteq> None"
  by (auto simp: rename_session_def Let_def directory_def store_simps on_session_def bump_session_def fun_eq_iff
      split: option.splits result.splits)

text \<open>\<open>same_names g r\<close>: the operation leaves the directory alone.\<close>

abbreviation same_names :: "graph \<Rightarrow> 'a reply \<Rightarrow> bool" where
  "same_names g r \<equiv> directory (g_state (snd r)) = directory (g_state g)"

lemma window_op_names:
  "same_names g (create_window_with_command h f g sid title cwd command)"
  "same_names g (destroy_window h g wid ev)" "same_names g (rename_window h g wid title ev)"
  "same_names g (focus_window h g wid ev)" "same_names g (reorder_window h g wid n ev)"
  by (auto simp: create_window_with_command_def destroy_window_def rename_window_def focus_window_def reorder_window_def
      Let_def directory_on_session split: option.splits result.splits)

lemma pane_op_names:
  "same_names g (create_pane h f g wid cwd command)" "same_names g (destroy_pane h g pid ev)"
  "same_names g (set_pane_exit h g pid ex)" "same_names g (set_pane_program_status h g pid st)"
  "same_names g (claim_pane_pty h g pid inc)"
  by (auto simp: create_pane_def destroy_pane_def set_pane_exit_def set_pane_program_status_def claim_pane_pty_def Let_def
      split: option.splits result.splits)

lemma owned_names: "same_names g (set_pane_exit_status_owned h g pid ex inc final)"
  using pane_op_names(3,4) by (auto simp: set_pane_exit_status_owned_def split: option.splits result.splits prod.splits)
     (metis snd_conv)+

lemma setting_names:
  "same_names g (set_session_tag h g sid k v)" "same_names g (set_pane_tag h g pid k v)"
  "same_names g (set_session_theme h g sid th)" "same_names g (set_pane_theme h g pid th)"
  "same_names g (set_pane_title h g pid title auto)" "same_names g (set_pane_osc_title h g pid osc)"
  by (auto simp: set_session_tag_def set_pane_tag_def set_session_theme_def set_pane_theme_def set_pane_title_def
      set_pane_osc_title_def Let_def directory_on_session split: option.splits prod.splits)

lemma focus_pane_names: "same_names g (focus_pane h g pid)"
  by (auto simp: focus_pane_def find_pane_window_def Let_def split: option.splits)

lemma layout_op_names:
  "same_names g (split_pane_with_command h f g target d ratio command)"
  "same_names g (graph_resize_pane h g pid d delta ev)" "same_names g (zoom_pane h g pid ev)"
  "same_names g (graph_swap_panes h g pa pb ev)"
  by (auto simp: split_pane_with_command_def graph_resize_pane_def zoom_pane_def graph_swap_panes_def find_pane_window_def
      Let_def split: option.splits result.splits prod.splits)

lemma derived_op_names:
  "same_names g (focus_pane_direction h g wid nd v)" "same_names g (zoom_pane_if_focused h g pid fo)"
  using focus_pane_names [where g = g and h = h] layout_op_names(3) [where g = g and h = h]
  by (auto simp: focus_pane_direction_def zoom_pane_if_focused_def find_pane_window_def split: option.splits result.splits prod.splits)
     (metis snd_conv)+

lemmas op_names = window_op_names pane_op_names owned_names setting_names focus_pane_names layout_op_names derived_op_names

end
