(* ===== verification/Graph_Loop.thy ===== *)
theory Graph_Loop
  imports Apply Graph_Effects
begin

text \<open>
  The single-writer task: \<open>GraphCommand\<close>, one execution step per command, transactions
  (\<open>GraphHandle::atomically\<close>), and \<open>run_graph_loop\<close> of \<^verbatim>\<open>shux-core/src/graph.rs\<close> as a step relation
  between the command channel and the graph.

  A command's reply channel is dropped from its constructor; what is sent on it is the value of
  \<open>exec\<close>.  \<open>draw\<close> holds the ids and the UUID a command may draw while it runs.
\<close>

section \<open>Commands\<close>

datatype (plugins only: code) graph_command =
    CreateSession rstring rstring "rstring list"
  | DestroySession session_id "version option"
  | RenameSession session_id rstring "version option"
  | CreateWindow session_id rstring rstring "rstring list"
  | DestroyWindow window_id "version option"
  | RenameWindow window_id rstring "version option"
  | FocusWindow window_id "version option"
  | ReorderWindow window_id usize "version option"
  | CreatePane window_id rstring "rstring list"
  | DestroyPane pane_id "version option"
  | SetPaneExitStatus pane_id int
  | SetSessionTag session_id rstring rstring
  | SetPaneTag pane_id rstring rstring
  | SetSessionTheme session_id "theme_ref option"
  | SetPaneTheme pane_id "theme_ref option"
  | SetPaneTitle pane_id "rstring option" "bool option"
  | SetPaneOscTitle pane_id rstring
  | SetPaneProgramStatus pane_id pane_status_update
  | ClaimPanePty pane_id u64
  | SetPaneExitStatusOwned pane_id program_exit u64 "pane_status_update option"
  | SplitPane pane_id direction f32 "rstring list"
  | FocusPane pane_id
  | FocusPaneDirection window_id nav_direction rect
  | ResizePane pane_id direction f32 "version option"
  | ZoomPane pane_id "version option"
  | ZoomPaneIfFocused pane_id pane_id
  | DestroyPaneAndEmptyParents pane_id
  | SwapPanes pane_id pane_id "version option"
  | Snapshot
  | ApplyBatch "batch_op list"

datatype graph_reply =
    UnitReply "(unit, graph_error) result"
  | BoolReply "(bool, graph_error) result"
  | SessionReply "(session_id, graph_error) result"
  | WindowReply "(window_id, graph_error) result"
  | PaneReply "(pane_id, graph_error) result"
  | WindowOptReply "(window_id option, graph_error) result"
  | PaneOptReply "(pane_id option, graph_error) result"
  | SnapshotReply snapshot
  | BatchReply "(batch_result, batch_error) result"

record draw =
  d_fresh :: "usize \<Rightarrow> fresh"
  d_uuid :: uuid

fun exec :: "host \<Rightarrow> draw \<Rightarrow> graph \<Rightarrow> graph_command \<Rightarrow> graph_reply \<times> graph" where
  "exec h d g (CreateSession name cwd initial_command) =
     apfst SessionReply (create_session_with_command h (d_fresh d 0) g name cwd initial_command)"
| "exec h d g (DestroySession sid ev) = apfst UnitReply (destroy_session h g sid ev)"
| "exec h d g (RenameSession sid new_name ev) = apfst UnitReply (rename_session h g sid new_name ev)"
| "exec h d g (CreateWindow sid title cwd initial_command) =
     apfst WindowReply (create_window_with_command h (d_fresh d 0) g sid title cwd initial_command)"
| "exec h d g (DestroyWindow wid ev) = apfst UnitReply (destroy_window h g wid ev)"
| "exec h d g (RenameWindow wid new_title ev) = apfst UnitReply (rename_window h g wid new_title ev)"
| "exec h d g (FocusWindow wid ev) = apfst WindowOptReply (focus_window h g wid ev)"
| "exec h d g (ReorderWindow wid new_index ev) = apfst UnitReply (reorder_window h g wid new_index ev)"
| "exec h d g (CreatePane wid cwd command) = apfst PaneReply (create_pane h (d_fresh d 0) g wid cwd command)"
| "exec h d g (DestroyPane pid ev) = apfst UnitReply (destroy_pane h g pid ev)"
| "exec h d g (SetPaneExitStatus pid exit_status) = apfst UnitReply (set_pane_exit_status h g pid exit_status)"
| "exec h d g (SetSessionTag sid key v) = apfst UnitReply (set_session_tag h g sid key v)"
| "exec h d g (SetPaneTag pid key v) = apfst UnitReply (set_pane_tag h g pid key v)"
| "exec h d g (SetSessionTheme sid theme) = apfst UnitReply (set_session_theme h g sid theme)"
| "exec h d g (SetPaneTheme pid theme) = apfst UnitReply (set_pane_theme h g pid theme)"
| "exec h d g (SetPaneTitle pid title auto) = apfst UnitReply (set_pane_title h g pid title auto)"
| "exec h d g (SetPaneOscTitle pid title) = apfst UnitReply (set_pane_osc_title h g pid title)"
| "exec h d g (SetPaneProgramStatus pid status) = apfst UnitReply (set_pane_program_status h g pid status)"
| "exec h d g (ClaimPanePty pid incarnation) = apfst BoolReply (claim_pane_pty h g pid incarnation)"
| "exec h d g (SetPaneExitStatusOwned pid ex incarnation final_status) =
     apfst UnitReply (set_pane_exit_status_owned h g pid ex incarnation final_status)"
| "exec h d g (SplitPane target dir ratio command) =
     apfst PaneReply (split_pane_with_command h (d_fresh d 0) g target dir ratio command)"
| "exec h d g (FocusPane pid) = apfst PaneOptReply (focus_pane h g pid)"
| "exec h d g (FocusPaneDirection wid nd viewport) = apfst PaneOptReply (focus_pane_direction h g wid nd viewport)"
| "exec h d g (ResizePane pid dir delta ev) = apfst UnitReply (graph_resize_pane h g pid dir delta ev)"
| "exec h d g (ZoomPane pid ev) = apfst BoolReply (zoom_pane h g pid ev)"
| "exec h d g (ZoomPaneIfFocused pid focused) = apfst BoolReply (zoom_pane_if_focused h g pid focused)"
| "exec h d g (DestroyPaneAndEmptyParents pid) = apfst UnitReply (destroy_pane_and_empty_parents h g pid)"
| "exec h d g (SwapPanes a b ev) = apfst UnitReply (graph_swap_panes h g a b ev)"
| "exec h d g Snapshot = (SnapshotReply (g_state g), g)"
| "exec h d g (ApplyBatch ops) = apfst BatchReply (apply_batch h (d_fresh d) (d_uuid d) g ops)"

text \<open>
  A transaction is a closure that calls the methods of the graph and goes on with what they
  return.  Nothing else touches the graph while it runs.
\<close>

datatype transaction = Finish | Call graph_command "graph_reply \<Rightarrow> transaction"

primrec run_transaction :: "transaction \<Rightarrow> host \<Rightarrow> (nat \<Rightarrow> draw) \<Rightarrow> graph \<Rightarrow> graph" where
  "run_transaction Finish h ds g = g"
| "run_transaction (Call c k) h ds g =
     (let (r, g') = exec h (ds 0) g c in run_transaction (k r) h (\<lambda>n. ds (Suc n)) g')"

datatype loop_command = Command graph_command | Atomically transaction

fun run_command :: "host \<Rightarrow> (nat \<Rightarrow> draw) \<Rightarrow> graph \<Rightarrow> loop_command \<Rightarrow> graph_reply option \<times> graph" where
  "run_command h ds g (Command c) = apfst Some (exec h (ds 0) g c)"
| "run_command h ds g (Atomically work) = (None, run_transaction work h ds g)"

section \<open>The loop\<close>

text \<open>
  The channel holds the commands in the order they were sent.  \<open>l_sent\<close> records what handles put into
  it, \<open>l_done\<close> the commands that ran and \<open>l_replies\<close> what was sent back: a command that never runs gets \<open>GraphError::Shutdown\<close> at
  the handle, because its reply sender is dropped with the queue.
\<close>

type_synonym request = "(nat \<Rightarrow> draw) \<times> loop_command"

record loop_state =
  l_graph :: graph
  l_queue :: "request list"
  l_running :: bool
  l_sent :: "request list"
  l_done :: "request list"
  l_replies :: "graph_reply option list"

definition loop_start :: "graph \<Rightarrow> loop_state" where
  "loop_start g = \<lparr>l_graph = g, l_queue = [], l_running = True, l_sent = [], l_done = [], l_replies = []\<rparr>"

definition handle_next :: "host \<Rightarrow> loop_state \<Rightarrow> request \<Rightarrow> request list \<Rightarrow> loop_state" where
  "handle_next h s req rest =
     (let (r, g') = run_command h (fst req) (l_graph s) (snd req)
      in s\<lparr>l_graph := g', l_queue := rest, l_done := l_done s @ [req], l_replies := l_replies s @ [r]\<rparr>)"

inductive run_graph_loop :: "host \<Rightarrow> loop_state \<Rightarrow> loop_state \<Rightarrow> bool" for h :: host where
  send: "run_graph_loop h s (s\<lparr>l_queue := l_queue s @ [req], l_sent := l_sent s @ [req]\<rparr>)" if "l_running s"
| recv: "run_graph_loop h s (handle_next h s req rest)" if "l_running s" "l_queue s = req # rest"
| closed: "run_graph_loop h s (s\<lparr>l_running := False\<rparr>)" if "l_running s" "l_queue s = []"
| cancelled: "run_graph_loop h s (s\<lparr>l_running := False, l_queue := []\<rparr>)" if "l_running s"

inductive_cases loop_stepE: "run_graph_loop h s s'"

section \<open>Every command keeps the invariants\<close>

fun draw_ok :: "draw \<Rightarrow> snapshot \<Rightarrow> graph_command \<Rightarrow> bool" where
  "draw_ok d sn (ApplyBatch ops) = fresh_supply (d_fresh d) 0 (length ops) sn"
| "draw_ok d sn c = fresh_ok (d_fresh d 0) sn"

fun is_create_pane :: "graph_command \<Rightarrow> bool" where
  "is_create_pane (CreatePane wid cwd command) = True"
| "is_create_pane c = False"

lemmas op_safe =
  create_session_with_command_safe create_window_with_command_safe split_pane_with_command_safe
  destroy_session_safe rename_session_safe destroy_window_safe rename_window_safe focus_window_safe
  reorder_window_safe destroy_pane_safe set_pane_exit_safe set_session_tag_safe set_pane_tag_safe
  set_session_theme_safe set_pane_theme_safe set_pane_title_safe set_pane_osc_title_safe
  set_pane_program_status_safe claim_pane_pty_safe set_pane_exit_status_owned_safe focus_pane_safe
  focus_pane_direction_safe graph_resize_pane_safe zoom_pane_safe zoom_pane_if_focused_safe
  destroy_pane_and_empty_parents_safe graph_swap_panes_safe

lemma exec_safe:
  assumes ok: "snap_ok h (g_state g)" and d: "draw_ok d (g_state g) c"
  shows "\<not> is_create_pane c \<Longrightarrow> safe h (g_state g) (g_state (snd (exec h d g c)))"
    and "snap_ok h (g_state (snd (exec h d g c)))"
proof -
  show 1: "safe h (g_state g) (g_state (snd (exec h d g c)))" if "\<not> is_create_pane c"
    using that ok d op_safe [OF ok] apply_batch_safe [OF ok]
    by (cases c) (simp_all add: set_pane_exit_status_def)
  show "snap_ok h (g_state (snd (exec h d g c)))"
    using 1 safeD create_pane_snap_ok [OF ok] d by (cases "is_create_pane c"; cases c) auto
qed

definition graph_ok :: "host \<Rightarrow> graph \<Rightarrow> bool" where
  "graph_ok h g \<longleftrightarrow> snap_ok h (g_state g) \<and> side_ok g"

lemma apply_batch_side_ok: "side_ok g \<Longrightarrow> side_ok (snd (apply_batch h fr u g ops))"
proof (cases "apply_ops h fr (staging g) 0 ops")
  case (Ok st)
  let ?g = "commit_snapshot (g\<lparr>g_next_session_seq := st_seq st\<rparr>) (st_snapshot st)"
  assume "side_ok g"
  then show ?thesis
    using Ok fire_batch_facts [of h ?g "new_correlation_id h u" "st_events st"] retained_keys
    by (auto simp: apply_batch_def side_ok_def Let_def split: prod.splits)
next
  case (Err x)
  then show "side_ok g \<Longrightarrow> ?thesis" by (cases x) (simp add: apply_batch_def side_ok_def)
qed

lemma clean_side_ok: "clean g r \<Longrightarrow> side_ok g \<Longrightarrow> side_ok (snd r)"
  by (simp add: clean_def)

lemma exec_side_ok:
  assumes "snap_ok h (g_state g)" "side_ok g"
  shows "side_ok (snd (exec h d g c))"
  using assms(2) op_clean [THEN clean_side_ok] claim_pane_pty_clean [OF assms(1), THEN clean_side_ok]
    set_pane_exit_status_owned_clean [OF assms(1), THEN clean_side_ok] apply_batch_side_ok
  by (cases c) (simp_all add: set_pane_exit_status_def)

section \<open>Contracts over commands\<close>

text \<open>
  An invariant every allowed command keeps, and what follows for transactions and for whole
  histories.  \<open>allowed\<close> is judged in the state in which the command runs.
\<close>

primrec transaction_ok :: "transaction \<Rightarrow> (draw \<Rightarrow> graph \<Rightarrow> graph_command \<Rightarrow> bool) \<Rightarrow> host \<Rightarrow> (nat \<Rightarrow> draw) \<Rightarrow> graph \<Rightarrow> bool" where
  "transaction_ok Finish allowed h ds g = True"
| "transaction_ok (Call c k) allowed h ds g =
     (allowed (ds 0) g c \<and>
      (let (r, g') = exec h (ds 0) g c in transaction_ok (k r) allowed h (\<lambda>n. ds (Suc n)) g'))"

fun request_ok :: "(draw \<Rightarrow> graph \<Rightarrow> graph_command \<Rightarrow> bool) \<Rightarrow> host \<Rightarrow> graph \<Rightarrow> request \<Rightarrow> bool" where
  "request_ok allowed h g (ds, Command c) = allowed (ds 0) g c"
| "request_ok allowed h g (ds, Atomically work) = transaction_ok work allowed h ds g"

definition serve :: "host \<Rightarrow> graph \<Rightarrow> request \<Rightarrow> graph" where
  "serve h g req = snd (run_command h (fst req) g (snd req))"

locale command_contract =
  fixes h :: host
    and allowed :: "draw \<Rightarrow> graph \<Rightarrow> graph_command \<Rightarrow> bool"
    and inv :: "graph \<Rightarrow> bool"
  assumes exec_keeps: "inv g \<Longrightarrow> allowed d g c \<Longrightarrow> inv (snd (exec h d g c))"
begin

lemma transaction_keeps: "inv g \<Longrightarrow> transaction_ok work allowed h ds g \<Longrightarrow> inv (run_transaction work h ds g)"
proof (induction work arbitrary: ds g)
  case (Call c k)
  obtain r g' where r: "exec h (ds 0) g c = (r, g')" by fastforce
  have "inv g'" using exec_keeps [of g "ds 0" c] Call.prems r by simp
  then show ?case using Call.IH [OF rangeI [of k r]] Call.prems(2) r by simp
qed simp

lemma serve_keeps: "inv g \<Longrightarrow> request_ok allowed h g req \<Longrightarrow> inv (serve h g req)"
  using exec_keeps transaction_keeps by (cases "(allowed, h, g, req)" rule: request_ok.cases) (auto simp: serve_def)

end

sublocale command_contract \<subseteq> guarded_machine "serve h" "request_ok allowed h" inv
  by unfold_locales (rule serve_keeps)

definition new_ids :: "draw \<Rightarrow> graph \<Rightarrow> graph_command \<Rightarrow> bool" where
  "new_ids d g c \<longleftrightarrow> draw_ok d (g_state g) c"

definition no_stray_pane :: "draw \<Rightarrow> graph \<Rightarrow> graph_command \<Rightarrow> bool" where
  "no_stray_pane d g c \<longleftrightarrow> new_ids d g c \<and> \<not> is_create_pane c"

interpretation consistent: command_contract h new_ids "graph_ok h" for h
  by unfold_locales (simp add: graph_ok_def new_ids_def exec_safe(2) exec_side_ok)

interpretation on_screen: command_contract h no_stray_pane "\<lambda>g. graph_ok h g \<and> layout_ok (g_state g)" for h
proof
  fix g d c assume "graph_ok h g \<and> layout_ok (g_state g)" "no_stray_pane d g c"
  then show "graph_ok h (snd (exec h d g c)) \<and> layout_ok (g_state (snd (exec h d g c)))"
    using exec_safe [of h g d c] exec_side_ok [of h g d c]
    by (simp add: graph_ok_def no_stray_pane_def new_ids_def safe_def)
qed

lemma graph_new_ok [simp]: "graph_ok h (graph_new bus)" "layout_ok (g_state (graph_new bus))"
  by (simp_all add: graph_ok_def graph_new_def side_ok_def hm_keys_def)

end
