(* ===== verification/Graph_Safety.thy ===== *)
theory Graph_Safety
  imports Graph_Loop
begin

text \<open>
  Properties of whole histories of the session graph: consistency, focus on screen, failure without
  effect, and the order in which the loop serves its clients.
\<close>

section \<open>Helpers\<close>

fun reply_failed :: "graph_reply \<Rightarrow> bool" where
  "reply_failed (UnitReply r) = (\<not> is_Ok r)"
| "reply_failed (BoolReply r) = (\<not> is_Ok r)"
| "reply_failed (SessionReply r) = (\<not> is_Ok r)"
| "reply_failed (WindowReply r) = (\<not> is_Ok r)"
| "reply_failed (PaneReply r) = (\<not> is_Ok r)"
| "reply_failed (WindowOptReply r) = (\<not> is_Ok r)"
| "reply_failed (PaneOptReply r) = (\<not> is_Ok r)"
| "reply_failed (SnapshotReply sn) = False"
| "reply_failed (BatchReply r) = (\<not> is_Ok r)"

fun is_batch :: "graph_command \<Rightarrow> bool" where
  "is_batch (ApplyBatch ops) = True"
| "is_batch c = False"

lemma clean_failed: "clean g r \<Longrightarrow> \<not> is_Ok (fst r) \<Longrightarrow> snd r = g"
  by (simp add: clean_def)

lemma exec_failed:
  assumes "snap_ok h (g_state g)" "reply_failed (fst (exec h d g c))" "\<not> is_batch c"
  shows "snd (exec h d g c) = g"
  using assms(2,3) op_clean [THEN clean_failed] claim_pane_pty_clean [OF assms(1), THEN clean_failed]
    set_pane_exit_status_owned_clean [OF assms(1), THEN clean_failed]
  by (cases c) (simp_all add: set_pane_exit_status_def)

lemma batch_failed:
  assumes "\<not> is_Ok (fst (apply_batch h fr u g ops))"
  shows "\<exists>seq. snd (apply_batch h fr u g ops) = g\<lparr>g_next_session_seq := seq\<rparr>"
  using assms
  by (auto simp: apply_batch_def Let_def split: result.splits prod.splits if_splits intro: exI [of _ "g_next_session_seq g"])

definition demo_draw :: draw where
  "demo_draw = \<lparr>d_fresh = (\<lambda>_. demo_fresh), d_uuid = 9\<rparr>"

definition demo_request :: request where
  "demo_request = ((\<lambda>_. demo_draw), Command (CreateSession (ascii ''main'') (ascii ''/'') []))"

lemma demo_request_ok: "request_ok no_stray_pane h (graph_new bus) demo_request" "request_ok new_ids h (graph_new bus) demo_request"
  by (simp_all add: demo_request_def demo_draw_def no_stray_pane_def new_ids_def fresh_ok_def graph_new_def snapshot_default_def)

lemma demo_reachable:
  "reachable (serve h) (request_ok no_stray_pane h) (graph_new bus) (serve h (graph_new bus) demo_request)"
  "reachable (serve h) (request_ok new_ids h) (graph_new bus) (serve h (graph_new bus) demo_request)"
  by (rule reachable.next_step [where step = "serve h"], rule reachable.start, rule demo_request_ok)+

lemma demo_graph_facts:
  "get_pane (g_state (serve demo_host (graph_new None) demo_request)) (PaneId 3) =
     Some (new_pane (PaneId 3) (WindowId 2) (ascii ''/'') [])"
  "g_pty_owners (serve demo_host (graph_new None) demo_request) = []"
  "g_status_generations (serve demo_host (graph_new None) demo_request) = []"
  "p_exit_status (new_pane (PaneId 3) (WindowId 2) (ascii ''/'') []) = None"
proof -
  have v: "validate_session_name demo_host (ascii ''main'') = Ok ()"
    by (simp add: validate_session_name_def demo_host_def char_class_defs)
  have c: "check_session_capacity demo_host snapshot_default (SessionId 4) [] (ascii ''/'') = Ok ()"
    by (simp add: check_session_capacity_def Let_def session_panes_def snapshot_default_def hm_values_def used_bytes_def
        pane_bytes_def demo_host_def sat_add_usize_def usize_max_def MAX_PANES_PER_SESSION_def MAX_SESSION_PANE_BYTES_def)
  have n: "\<not> session_name_exists snapshot_default (ascii ''main'')"
    by (simp add: session_name_exists_def snapshot_default_def hm_values_def)
  note run = serve_def demo_request_def demo_draw_def demo_fresh_def graph_new_def create_session_with_command_def Let_def
  show "get_pane (g_state (serve demo_host (graph_new None) demo_request)) (PaneId 3) =
     Some (new_pane (PaneId 3) (WindowId 2) (ascii ''/'') [])"
    using v c n by (simp add: run store_simps)
  show "g_pty_owners (serve demo_host (graph_new None) demo_request) = []"
    "g_status_generations (serve demo_host (graph_new None) demo_request) = []"
    using v c n by (simp_all add: run hm_retain_def)
  show "p_exit_status (new_pane (PaneId 3) (WindowId 2) (ascii ''/'') []) = None"
    by (simp add: new_pane_def pane_new_def recalculate_title_def split: option.splits)
qed

lemma demo_session_facts:
  "\<exists>w s. get_window (g_state (serve demo_host (graph_new None) demo_request)) (WindowId 2) = Some w \<and>
     w_session_id w = SessionId 1 \<and>
     get_session (g_state (serve demo_host (graph_new None) demo_request)) (SessionId 1) = Some s \<and> WindowId 2 \<in> set (s_windows s)"
proof -
  let ?sn = "g_state (serve demo_host (graph_new None) demo_request)"
  have ok: "snap_ok demo_host ?sn"
    using consistent.reachable_inv [OF demo_reachable(2) graph_new_ok(1)] by (simp add: graph_ok_def)
  obtain w where w: "get_window ?sn (WindowId 2) = Some w" using pane_window [OF ok demo_graph_facts(1)] by auto
  obtain s where s: "get_session ?sn (w_session_id w) = Some s" "WindowId 2 \<in> set (s_windows s)" using window_session [OF ok w] by blast
  have "get_session ?sn sid = None" if "sid \<noteq> SessionId 1" for sid
    using that by (auto simp: serve_def demo_request_def demo_draw_def demo_fresh_def graph_new_def snapshot_default_def
        create_session_with_command_def Let_def store_simps split: result.splits)
  then have "w_session_id w = SessionId 1" using s(1) by (metis option.distinct(1))
  then show ?thesis using w s by metis
qed

section \<open>Properties\<close>



text \<open>C2: as long as no \<open>CreatePane\<close> is issued, the layout of every window arranges exactly the panes of
  that window, each once, and the focused pane is one the window shows: no split, close, zoom,
  resize, swap, batch or transaction ever hides the pane that gets the input.\<close>

theorem focus_stays_on_screen:
  assumes "reachable (serve h) (request_ok no_stray_pane h) (graph_new bus) g"
  shows "layout_ok (g_state g)"
  using on_screen.reachable_inv [OF assms] by simp

theorem focus_stays_on_screen_witness:
  "layout_ok (g_state (serve demo_host (graph_new None) demo_request))"
  by (rule focus_stays_on_screen [OF demo_reachable(1)])

text \<open>C3: a command that replies with an error has changed nothing: not the state, not the side tables,
  not the event log.  A failed batch may have advanced the counter that orders sessions, and that
  alone.\<close>

theorem failed_command_changes_nothing:
  assumes "graph_ok h g" and "reply_failed (fst (exec h d g c))"
  shows "(\<exists>seq. snd (exec h d g c) = g\<lparr>g_next_session_seq := seq\<rparr>) \<and> (is_batch c \<or> snd (exec h d g c) = g)"
proof (cases "is_batch c")
  case True
  then obtain ops where "c = ApplyBatch ops" by (cases c) auto
  then show ?thesis using assms(2) batch_failed [of h "d_fresh d" "d_uuid d" g ops] by simp
next
  case False
  then have "snd (exec h d g c) = g" using exec_failed assms by (simp add: graph_ok_def)
  then show ?thesis by (auto intro: exI [of _ "g_next_session_seq g"])
qed

theorem failed_command_changes_nothing_witness:
  "snd (exec demo_host demo_draw (graph_new None) (DestroyPane (PaneId 7) None)) = graph_new None"
proof -
  have "reply_failed (fst (exec demo_host demo_draw (graph_new None) (DestroyPane (PaneId 7) None)))"
    by (simp add: destroy_pane_def graph_new_def snapshot_default_def)
  then show ?thesis using failed_command_changes_nothing [OF graph_new_ok(1)] by fastforce
qed

definition replies_of :: "host \<Rightarrow> graph \<Rightarrow> request list \<Rightarrow> graph_reply option list" where
  "replies_of h g reqs =
     map (\<lambda>i. fst (run_command h (fst (reqs ! i)) (foldl (serve h) g (take i reqs)) (snd (reqs ! i)))) [0..<length reqs]"

lemma replies_snoc: "replies_of h g (reqs @ [req]) =
    replies_of h g reqs @ [fst (run_command h (fst req) (foldl (serve h) g reqs) (snd req))]"
  by (simp add: replies_of_def nth_append)

text \<open>C20: the loop is a single writer that serves its channel in order.  In every reachable state the
  commands that ran are an initial part of those sent, in the order they were sent; the graph is the
  result of running them one after another, with one reply each; whatever is not served yet is still
  in the channel while the loop runs, and a stopped loop takes no further step.\<close>

theorem graph_loop_serves_in_order:
  assumes "(run_graph_loop h)\<^sup>*\<^sup>* (loop_start g) s"
  shows "l_graph s = foldl (serve h) g (l_done s) \<and> l_replies s = replies_of h g (l_done s) \<and>
    (\<exists>rest. l_sent s = l_done s @ rest) \<and>
    (if l_running s then l_sent s = l_done s @ l_queue s else \<forall>s'. \<not> run_graph_loop h s s')"
proof -
  have "l_graph s = foldl (serve h) g (l_done s) \<and> l_replies s = replies_of h g (l_done s) \<and>
      (\<exists>rest. l_sent s = l_done s @ rest) \<and> (l_running s \<longrightarrow> l_sent s = l_done s @ l_queue s)"
    using assms
  proof (induction rule: rtranclp_induct)
    case (step s s')
    have "l_graph (handle_next h s req rest) = serve h (l_graph s) req \<and>
        l_replies (handle_next h s req rest) = l_replies s @ [fst (run_command h (fst req) (l_graph s) (snd req))] \<and>
        l_done (handle_next h s req rest) = l_done s @ [req] \<and> l_sent (handle_next h s req rest) = l_sent s \<and>
        l_queue (handle_next h s req rest) = rest" for req rest
      by (simp add: handle_next_def serve_def split: prod.splits)
    with step show ?case by (auto simp: replies_snoc elim!: loop_stepE)
  qed (simp add: loop_start_def replies_of_def)
  moreover have "\<not> run_graph_loop h s s'" if "\<not> l_running s" for s' using that by (auto elim: loop_stepE)
  ultimately show ?thesis by simp
qed

theorem graph_loop_serves_in_order_witness:
  "let s1 = (loop_start (graph_new None))\<lparr>l_queue := [demo_request], l_sent := [demo_request]\<rparr>;
       s2 = handle_next demo_host s1 demo_request []
   in l_graph s2 = serve demo_host (graph_new None) demo_request \<and> length (l_replies s2) = 1"
proof -
  let ?s0 = "loop_start (graph_new None)" and ?s1 = "(loop_start (graph_new None))\<lparr>l_queue := [demo_request], l_sent := [demo_request]\<rparr>"
  let ?s2 = "handle_next demo_host ?s1 demo_request []"
  have "run_graph_loop demo_host ?s0 ?s1" using run_graph_loop.send [of ?s0 demo_host demo_request] by (simp add: loop_start_def)
  moreover have "run_graph_loop demo_host ?s1 ?s2" by (rule run_graph_loop.recv) (simp_all add: loop_start_def)
  ultimately have "(run_graph_loop demo_host)\<^sup>*\<^sup>* ?s0 ?s2" by auto
  note o = graph_loop_serves_in_order [OF this]
  have "l_done ?s2 = [demo_request]" by (simp add: handle_next_def loop_start_def split: prod.splits)
  then show ?thesis using o by (simp add: replies_of_def)
qed



end
