(* ===== verification/Graph_Order.thy ===== *)
theory Graph_Order
  imports Graph_Safety
begin

text \<open>
  Properties of the session graph that order concurrent clients: the expected version of a command,
  the ownership of a pane by a PTY incarnation, and the generations of status publications.
\<close>

section \<open>Expected versions\<close>

datatype target = OnSession session_id | OnWindow window_id | OnPane pane_id

fun target_version :: "snapshot \<Rightarrow> target \<Rightarrow> version option" where
  "target_version sn (OnSession sid) = map_option s_version (get_session sn sid)"
| "target_version sn (OnWindow wid) = map_option w_version (get_window sn wid)"
| "target_version sn (OnPane pid) = map_option p_version (get_pane sn pid)"

fun expects :: "graph_command \<Rightarrow> (target \<times> version) option" where
  "expects (DestroySession sid ev) = map_option (Pair (OnSession sid)) ev"
| "expects (RenameSession sid name ev) = map_option (Pair (OnSession sid)) ev"
| "expects (DestroyWindow wid ev) = map_option (Pair (OnWindow wid)) ev"
| "expects (RenameWindow wid title ev) = map_option (Pair (OnWindow wid)) ev"
| "expects (FocusWindow wid ev) = map_option (Pair (OnWindow wid)) ev"
| "expects (ReorderWindow wid n ev) = map_option (Pair (OnWindow wid)) ev"
| "expects (DestroyPane pid ev) = map_option (Pair (OnPane pid)) ev"
| "expects (ResizePane pid dir delta ev) = map_option (Pair (OnPane pid)) ev"
| "expects (ZoomPane pid ev) = map_option (Pair (OnPane pid)) ev"
| "expects (SwapPanes pa pb ev) = map_option (Pair (OnPane pa)) ev"
| "expects c = None"

text \<open>The commands that change the entity whose version they name.\<close>

fun changes_target :: "graph_command \<Rightarrow> bool" where
  "changes_target (FocusWindow wid ev) = False"
| "changes_target (ReorderWindow wid n ev) = False"
| "changes_target c = True"

lemma stale_refused:
  assumes "expects c = Some (t, v)" "target_version (g_state g) t \<noteq> Some v"
  shows "reply_failed (fst (exec h d g c)) \<and> snd (exec h d g c) = g"
  using assms
  by (cases c)
     (auto simp: destroy_session_def rename_session_def destroy_window_def rename_window_def focus_window_def
       reorder_window_def destroy_pane_def graph_resize_pane_def zoom_pane_def graph_swap_panes_def find_pane_window_def
       version_conflict_def Let_def split: option.splits result.splits)

lemma version_moves [simp]: "(v :: version) + 1 \<noteq> v"
  by simp

lemma fold_modify_get:
  "distinct ks \<Longrightarrow> hm_get (fold (\<lambda>k. hm_modify k f) ks m) x = (if x \<in> set ks then map_option f (hm_get m x) else hm_get m x)"
  by (induction ks arbitrary: m) (auto simp: store_simps)

lemma distinct_pane_ids: "snap_ok h sn \<Longrightarrow> distinct (map p_id (hm_values (sn_panes sn)))"
proof -
  assume ok: "snap_ok h sn"
  have "map p_id (hm_values (sn_panes sn)) = map fst (sn_panes sn)"
    using pane_keys [OF ok] snap_ok_wf(3) [OF ok] by (auto simp: hm_values_def hm_wf_def)
  then show ?thesis using snap_ok_wf(3) [OF ok] by (simp add: hm_wf_def)
qed

lemma bumped_panes:
  assumes ok: "snap_ok h sn" and same: "sn_panes sn' = sn_panes sn"
  shows "get_pane (bump_window_panes wid sn') pid =
    map_option (\<lambda>p. if p_window_id p = wid then bump_pane p else p) (get_pane sn pid)"
proof -
  have ids: "set (map p_id (window_panes_of sn wid)) = {k. \<exists>v. get_pane sn k = Some v \<and> p_window_id v = wid}"
    unfolding window_panes_of_def by (rule kill_list) (use ok snap_ok_wf pane_keys in blast)+
  have d: "distinct (map p_id (window_panes_of sn wid))"
    unfolding window_panes_of_def by (rule distinct_map_filter [OF distinct_pane_ids [OF ok]])
  have "window_panes_of sn' wid = window_panes_of sn wid" by (simp add: window_panes_of_def same)
  then have "get_pane (bump_window_panes wid sn') pid =
      (if pid \<in> set (map p_id (window_panes_of sn wid)) then map_option bump_pane (get_pane sn pid) else get_pane sn pid)"
    by (simp add: bump_window_panes_def same fold_modify_get [OF d])
  then show ?thesis unfolding ids by (cases "get_pane sn pid") auto
qed

lemma target_moves:
  assumes ok: "snap_ok h (g_state g)" and e: "expects c = Some (t, v)" and own: "changes_target c"
  shows "snd (exec h d g c) = g \<or> target_version (g_state (snd (exec h d g c))) t \<noteq> Some v"
proof -
  have panes: "sn_panes (on_window wid f sn) = sn_panes sn" for wid f sn by (simp add: on_window_def)
  have "sn_panes (on_window wid f (touch (g_state g))) = sn_panes (g_state g)" for wid f by (simp add: panes)
  note bump = bumped_panes [OF ok this]
  show ?thesis
  proof (cases "target_version (g_state g) t = Some v")
    case False
    then show ?thesis using stale_refused [OF e] by blast
  next
    case True
    then show ?thesis using e own
      by (cases c)
         (auto simp: destroy_session_def rename_session_def destroy_window_def rename_window_def destroy_pane_def
           graph_resize_pane_def zoom_pane_def graph_swap_panes_def find_pane_window_def Let_def store_simps on_session_def
           window_on_window bump_session_def bump_window_def panes bump bump_pane_def split: option.splits result.splits)
  qed
qed

section \<open>Side tables over histories\<close>

lemma exec_tables:
  "owners_kept g (snd (exec h d g c)) \<or> (\<exists>pid n. c = ClaimPanePty pid n)"
  "generations_kept g (snd (exec h d g c)) \<or> (\<exists>pid st. c = SetPaneProgramStatus pid st) \<or>
     (\<exists>pid ex n st. c = SetPaneExitStatusOwned pid ex n st)"
proof -
  have calmD: "calm g r \<Longrightarrow> owners_kept g (snd r) \<and> generations_kept g (snd r)" for g and r :: "'x reply"
    by (simp add: calm_def)
  have batch: "owners_kept g (snd (apply_batch h fr u g ops)) \<and> generations_kept g (snd (apply_batch h fr u g ops))" for fr u ops
  proof (cases "apply_ops h fr (staging g) 0 ops")
    case (Ok st)
    let ?g = "commit_snapshot (g\<lparr>g_next_session_seq := st_seq st\<rparr>) (st_snapshot st)"
    show ?thesis using Ok fire_batch_facts [of h ?g "new_correlation_id h u" "st_events st"]
      by (auto simp: apply_batch_def owners_kept_def generations_kept_def Let_def split: prod.splits)
  next
    case (Err x)
    then show ?thesis by (cases x) (simp add: apply_batch_def owners_kept_def generations_kept_def)
  qed
  show "owners_kept g (snd (exec h d g c)) \<or> (\<exists>pid n. c = ClaimPanePty pid n)"
    using op_calm [THEN calmD] batch set_pane_program_status_owners owned_owners
    by (cases c) (simp_all add: set_pane_exit_status_def)
  show "generations_kept g (snd (exec h d g c)) \<or> (\<exists>pid st. c = SetPaneProgramStatus pid st) \<or>
      (\<exists>pid ex n st. c = SetPaneExitStatusOwned pid ex n st)"
    using op_calm [THEN calmD] batch claim_pane_pty_generations by (cases c) (simp_all add: set_pane_exit_status_def)
qed

text \<open>Entries of live panes never go back.\<close>

definition grows :: "graph \<Rightarrow> (pane_id, u64) hashmap \<Rightarrow> (pane_id, u64) hashmap \<Rightarrow> bool" where
  "grows g' m m' \<longleftrightarrow>
     (\<forall>k n. hm_contains (sn_panes (g_state g')) k \<longrightarrow> hm_get m k = Some n \<longrightarrow> (\<exists>n' \<ge> n. hm_get m' k = Some n'))"

lemma kept_grows: "owners_kept g g' \<Longrightarrow> grows g' (g_pty_owners g) (g_pty_owners g')"
  "generations_kept g g' \<Longrightarrow> grows g' (g_status_generations g) (g_status_generations g')"
  by (auto simp: grows_def owners_kept_def generations_kept_def kept_def)

lemma claim_grows: "grows (snd (claim_pane_pty h g pid n)) (g_pty_owners g) (g_pty_owners (snd (claim_pane_pty h g pid n)))"
  by (auto simp: grows_def claim_pane_pty_def Let_def store_simps not_less split: option.splits if_splits)

lemma status_grows: "grows (snd (set_pane_program_status h g pid st)) (g_status_generations g)
    (g_status_generations (snd (set_pane_program_status h g pid st)))"
proof (cases "\<exists>p w. get_pane (g_state g) pid = Some p \<and> p_exit_status p = None \<and> get_window (g_state g) (p_window_id p) = Some w")
  case False
  then have "snd (set_pane_program_status h g pid st) = g"
    by (auto simp: set_pane_program_status_def Let_def split: option.splits)
  then show ?thesis by (simp add: grows_def)
next
  case True
  then obtain p w where p: "get_pane (g_state g) pid = Some p" "p_exit_status p = None"
    "get_window (g_state g) (p_window_id p) = Some w" by blast
  define seen where "seen = (case hm_get (g_status_generations g) pid of None \<Rightarrow> 0 | Some n \<Rightarrow> n)"
  have n: "n = seen" if "hm_get (g_status_generations g) pid = Some n" for n using that by (simp add: seen_def)
  show ?thesis
  proof (cases "su_generation st \<le> seen")
    case True
    then have "g_status_generations (snd (set_pane_program_status h g pid st)) = hm_insert pid seen (g_status_generations g)"
      using p by (simp add: set_pane_program_status_def Let_def seen_def)
    then show ?thesis using n by (auto simp: grows_def store_simps)
  next
    case False
    then have le: "seen \<le> su_generation st" by simp
    let ?r = "snd (set_pane_program_status h g pid st)"
    let ?t = "hm_insert pid (su_generation st) (hm_insert pid seen (g_status_generations g))"
    have "g_status_generations ?r = ?t \<or> g_status_generations ?r = hm_retain (hm_contains (sn_panes (g_state ?r))) ?t"
      using p False by (simp add: set_pane_program_status_def Let_def seen_def [symmetric])
    then have "hm_get (g_status_generations ?r) k = hm_get ?t k" if "hm_contains (sn_panes (g_state ?r)) k" for k
      using that by (auto simp: hm_get_retain)
    then show ?thesis using n le by (auto simp: grows_def hm_get_insert)
  qed
qed

lemma owned_grows: "grows (snd (set_pane_exit_status_owned h g pid ex n final)) (g_status_generations g)
    (g_status_generations (snd (set_pane_exit_status_owned h g pid ex n final)))"
proof -
  obtain r g1 where r: "set_pane_program_status h g pid (the final) = (r, g1)" by fastforce
  have 1: "grows g1 (g_status_generations g) (g_status_generations g1)" using status_grows [of h g pid "the final"] r by simp
  have k: "generations_kept g1 (snd (set_pane_exit h g1 pid ex))" using set_pane_exit_calm [of g1 h pid ex] by (simp add: calm_def)
  have live: "hm_contains (sn_panes (g_state g1)) j" if "hm_contains (sn_panes (g_state (snd (set_pane_exit h g1 pid ex)))) j" for j
    using that by (auto simp: set_pane_exit_def Let_def on_pane_def store_simps split: option.splits if_splits)
  have "grows (snd (set_pane_exit h g1 pid ex)) (g_status_generations g) (g_status_generations (snd (set_pane_exit h g1 pid ex)))"
    using 1 k live unfolding grows_def generations_kept_def kept_def by metis
  then show ?thesis using r 1 kept_grows(2) [of g] set_pane_exit_calm [of g h pid ex]
    by (auto simp: set_pane_exit_status_owned_def calm_def split: option.splits result.splits)
qed

lemma exec_grows:
  "grows (snd (exec h d g c)) (g_pty_owners g) (g_pty_owners (snd (exec h d g c)))"
  "grows (snd (exec h d g c)) (g_status_generations g) (g_status_generations (snd (exec h d g c)))"
  using exec_tables [of g h d c] kept_grows [of g "snd (exec h d g c)"] claim_grows status_grows owned_grows by auto

definition alive :: "pane_id \<Rightarrow> graph \<Rightarrow> bool" where
  "alive pid g \<longleftrightarrow> hm_contains (sn_panes (g_state g)) pid"

definition sparing :: "pane_id \<Rightarrow> host \<Rightarrow> draw \<Rightarrow> graph \<Rightarrow> graph_command \<Rightarrow> bool" where
  "sparing pid h d g c \<longleftrightarrow> alive pid (snd (exec h d g c))"

definition at_least :: "u64 \<Rightarrow> u64 option \<Rightarrow> bool" where
  "at_least n x \<longleftrightarrow> (case x of None \<Rightarrow> False | Some m \<Rightarrow> n \<le> m)"

interpretation owned_pane: command_contract h "sparing pid h" "\<lambda>g. at_least n (hm_get (g_pty_owners g) pid)" for h pid n
proof
  fix g d c assume o: "at_least n (hm_get (g_pty_owners g) pid)" "sparing pid h d g c"
  then obtain m where m: "hm_get (g_pty_owners g) pid = Some m" "n \<le> m" by (auto simp: at_least_def split: option.splits)
  then obtain m' where "m \<le> m'" "hm_get (g_pty_owners (snd (exec h d g c))) pid = Some m'"
    using exec_grows(1) [of h d g c] o(2) by (auto simp: grows_def sparing_def alive_def)
  then show "at_least n (hm_get (g_pty_owners (snd (exec h d g c))) pid)" using m(2) by (simp add: at_least_def)
qed

interpretation published_pane: command_contract h "sparing pid h" "\<lambda>g. at_least n (hm_get (g_status_generations g) pid)" for h pid n
proof
  fix g d c assume o: "at_least n (hm_get (g_status_generations g) pid)" "sparing pid h d g c"
  then obtain m where m: "hm_get (g_status_generations g) pid = Some m" "n \<le> m" by (auto simp: at_least_def split: option.splits)
  then obtain m' where "m \<le> m'" "hm_get (g_status_generations (snd (exec h d g c))) pid = Some m'"
    using exec_grows(2) [of h d g c] o(2) by (auto simp: grows_def sparing_def alive_def)
  then show "at_least n (hm_get (g_status_generations (snd (exec h d g c))) pid)" using m(2) by (simp add: at_least_def)
qed

section \<open>Properties\<close>



text \<open>C18: a PTY that has been replaced cannot declare its pane dead.  Once incarnation \<open>n\<close> has claimed a
  pane, and whatever commands, batches and transactions run afterwards while the pane lives, an exit
  reported by an older incarnation is acknowledged and has no effect at all.\<close>

theorem replaced_pty_cannot_exit_pane:
  assumes "claim_pane_pty h g pid n = (Ok True, g1)"
    and "run_ok (serve h) (request_ok (sparing pid h) h) g1 reqs" and "m < n"
  shows "set_pane_exit_status_owned h (foldl (serve h) g1 reqs) pid ex m final = (Ok (), foldl (serve h) g1 reqs)"
proof -
  have "at_least n (hm_get (g_pty_owners g1) pid)"
    using assms(1) by (auto simp: claim_pane_pty_def at_least_def Let_def on_pane_def store_simps split: option.splits if_splits)
  then have "at_least n (hm_get (g_pty_owners (foldl (serve h) g1 reqs)) pid)"
    by (rule owned_pane.run_inv) (rule assms(2))
  then have "hm_get (g_pty_owners (foldl (serve h) g1 reqs)) pid \<noteq> Some m"
    using assms(3) by (auto simp: at_least_def)
  then show ?thesis by (simp add: set_pane_exit_status_owned_def)
qed

theorem replaced_pty_cannot_exit_pane_witness:
  "let g = serve demo_host (graph_new None) demo_request; g1 = snd (claim_pane_pty demo_host g (PaneId 3) 8);
       req = ((\<lambda>_. demo_draw), Command (SetPaneTag (PaneId 3) (ascii ''k'') (ascii ''v'')));
       g2 = serve demo_host g1 req
   in set_pane_exit_status_owned demo_host g2 (PaneId 3) (program_exit_code 0) 7 None = (Ok (), g2)"
proof -
  let ?g = "serve demo_host (graph_new None) demo_request" and ?g1 = "snd (claim_pane_pty demo_host (serve demo_host (graph_new None) demo_request) (PaneId 3) 8)"
  let ?req = "((\<lambda>_. demo_draw), Command (SetPaneTag (PaneId 3) (ascii ''k'') (ascii ''v'')))"
  note demo = demo_graph_facts
  have claim: "claim_pane_pty demo_host ?g (PaneId 3) 8 = (Ok True, ?g1)"
    using demo by (simp add: claim_pane_pty_def Let_def)
  have "alive (PaneId 3) (serve demo_host ?g1 ?req)"
    using demo by (simp add: claim_pane_pty_def Let_def serve_def set_pane_tag_def alive_def on_pane_def store_simps)
  then have "run_ok (serve demo_host) (request_ok (sparing (PaneId 3) demo_host) demo_host) ?g1 [?req]"
    by (simp add: sparing_def serve_def)
  from replaced_pty_cannot_exit_pane [OF claim this, of 7 "program_exit_code 0" None] show ?thesis by (simp add: Let_def)
qed

text \<open>C19: status publications of a pane take effect in the order of their generations.  Once one with
  generation \<open>n\<close> has been taken up, and whatever runs afterwards while the pane lives, a publication
  with generation \<open>n\<close> or less leaves the state and the event log as they are.\<close>

theorem late_status_is_ignored:
  assumes "get_pane (g_state g) pid = Some p" and "p_exit_status p = None" and "graph_ok h g"
    and "su_generation st' \<le> su_generation st"
    and "run_ok (serve h) (request_ok (sparing pid h) h) (snd (set_pane_program_status h g pid st)) reqs"
  shows "let g2 = foldl (serve h) (snd (set_pane_program_status h g pid st)) reqs;
             g3 = snd (set_pane_program_status h g2 pid st')
         in g_state g3 = g_state g2 \<and> event_log g3 = event_log g2"
proof -
  let ?n = "su_generation st"
  obtain w where w: "get_window (g_state g) (p_window_id p) = Some w"
    using assms(1,3) by (auto simp: graph_ok_def elim: pane_window)
  have "at_least ?n (hm_get (g_status_generations (snd (set_pane_program_status h g pid st))) pid)"
    using assms(1,2) w
    by (auto simp: set_pane_program_status_def at_least_def Let_def on_pane_def store_simps split: option.splits)
  moreover define g2 where "g2 = foldl (serve h) (snd (set_pane_program_status h g pid st)) reqs"
  ultimately have "at_least ?n (hm_get (g_status_generations g2) pid)"
    using published_pane.run_inv assms(5) by blast
  then obtain m where m: "hm_get (g_status_generations g2) pid = Some m" "?n \<le> m" by (auto simp: at_least_def split: option.splits)
  have le: "su_generation st' \<le> m" using assms(4) m(2) by simp
  have "g_state (snd (set_pane_program_status h g2 pid st')) = g_state g2 \<and>
      event_log (snd (set_pane_program_status h g2 pid st')) = event_log g2"
    using m(1) le by (simp add: set_pane_program_status_def Let_def event_log_def split: option.splits)
  then show ?thesis by (simp only: g2_def Let_def)
qed

theorem late_status_is_ignored_witness:
  "let g = serve demo_host (graph_new None) demo_request;
       st = \<lparr>su_generation = 4, su_enabled = True, su_summary = None, su_seen = False\<rparr>;
       g2 = snd (set_pane_program_status demo_host g (PaneId 3) st)
   in g_state (snd (set_pane_program_status demo_host g2 (PaneId 3) (st\<lparr>su_seen := True\<rparr>))) = g_state g2"
proof -
  let ?g = "serve demo_host (graph_new None) demo_request"
  let ?st = "\<lparr>su_generation = 4, su_enabled = True, su_summary = None, su_seen = False\<rparr>"
  have ok: "graph_ok demo_host ?g" using consistent.reachable_inv [OF demo_reachable(2) graph_new_ok(1)] .
  have p: "get_pane (g_state ?g) (PaneId 3) = Some (new_pane (PaneId 3) (WindowId 2) (ascii ''/'') [])"
    using demo_graph_facts by simp
  have "p_exit_status (new_pane (PaneId 3) (WindowId 2) (ascii ''/'') []) = None"
    by (simp add: new_pane_def pane_new_def recalculate_title_def split: option.splits)
  from late_status_is_ignored [OF p this ok, of "?st\<lparr>su_seen := True\<rparr>" ?st "[]"] show ?thesis by (simp add: Let_def)
qed

end
