(* ===== verification/Graph_Spec.thy ===== *)
theory Graph_Spec
  imports Graph_Safety
begin

text \<open>
  What the session graph promises its clients, stated without its data structures: a directory of
  session names, what the end of a session takes with it, and default window titles that always
  work.  Three lemmas at the end show where comments in the code promise more than it does.
\<close>

section \<open>The directory of sessions\<close>

text \<open>
  The abstract machine: a partial map from session ids to names.  A session appears under a name
  nobody has, takes a name nobody has, or goes.
\<close>

inductive dir_step :: "host \<Rightarrow> (session_id \<Rightarrow> rstring option) \<Rightarrow> (session_id \<Rightarrow> rstring option) \<Rightarrow> bool" for h :: host where
  enter: "dir_step h dir (dir(sid \<mapsto> name))"
    if "dir sid = None" "name \<notin> ran dir" "validate_session_name h name = Ok ()"
| rename: "dir_step h dir (dir(sid \<mapsto> name))"
    if "dir sid \<noteq> None" "name \<notin> ran dir" "validate_session_name h name = Ok ()"
| leave: "dir_step h dir (dir(sid := None))" if "dir sid \<noteq> None"

inductive_cases dir_stepE: "dir_step h dir dir'"

abbreviation dir_steps :: "host \<Rightarrow> (session_id \<Rightarrow> rstring option) \<Rightarrow> (session_id \<Rightarrow> rstring option) \<Rightarrow> bool" where
  "dir_steps h \<equiv> (dir_step h)\<^sup>*\<^sup>*"

lemma dir_step_names_unique:
  assumes "dir_step h dir dir'" "inj_on dir (dom dir)"
  shows "inj_on dir' (dom dir')"
  using assms
proof (cases rule: dir_step.cases)
  case (enter sid name)
  then show ?thesis using assms(2) by (auto simp: inj_on_def ran_def dom_def)
next
  case (rename sid name)
  then show ?thesis using assms(2) by (auto simp: inj_on_def ran_def dom_def)
next
  case (leave sid)
  then show ?thesis using assms(2) by (auto simp: inj_on_def dom_def)
qed

lemma name_not_in_directory:
  "hm_wf (sn_sessions sn) \<Longrightarrow> \<not> session_name_exists sn name \<Longrightarrow> name \<notin> ran (directory sn)"
  by (auto simp: session_name_exists_iff ran_def directory_def)

lemma create_session_dir:
  assumes ok: "snap_ok h (g_state g)" and f: "fresh_ok f (g_state g)"
  shows "dir_steps h (directory (g_state g)) (directory (g_state (snd (create_session_with_command h f g name cwd command))))"
proof (cases "is_Ok (fst (create_session_with_command h f g name cwd command))")
  case True
  note c = directory_create_session(2) [OF True]
  have "directory (g_state g) (fr_session f) = None" using f by (simp add: directory_def fresh_ok_def)
  then have "dir_step h (directory (g_state g)) ((directory (g_state g))(fr_session f \<mapsto> name))"
    using c name_not_in_directory [OF snap_ok_wf(1) [OF ok]] by (blast intro: dir_step.enter)
  then show ?thesis using True by (simp add: directory_create_session(1))
qed (simp add: directory_create_session(1))

lemma rename_session_dir:
  assumes ok: "snap_ok h (g_state g)"
  shows "dir_steps h (directory (g_state g)) (directory (g_state (snd (rename_session h g sid name ev))))"
proof (cases "is_Ok (fst (rename_session h g sid name ev))")
  case True
  note c = directory_rename_session(2) [OF True]
  then have "dir_step h (directory (g_state g)) ((directory (g_state g))(sid \<mapsto> name))"
    using name_not_in_directory [OF snap_ok_wf(1) [OF ok]] by (blast intro: dir_step.rename)
  then show ?thesis using True by (simp add: directory_rename_session(1))
qed (simp add: directory_rename_session(1))

lemma destroy_session_dir: "dir_steps h (directory (g_state g)) (directory (g_state (snd (destroy_session h g sid ev))))"
proof (cases "is_Ok (fst (destroy_session h g sid ev))")
  case True
  then have "directory (g_state g) sid \<noteq> None"
    by (cases "get_session (g_state g) sid") (simp_all add: destroy_session_def directory_def)
  then have "dir_step h (directory (g_state g)) ((directory (g_state g))(sid := None))" by (rule dir_step.leave)
  then show ?thesis using True by (simp add: directory_destroy_session)
qed (simp add: directory_destroy_session)

lemma cascade_dir: "dir_steps h (directory (g_state g)) (directory (g_state (snd (destroy_pane_and_empty_parents h g pid))))"
proof -
  obtain r g1 where r: "destroy_pane h g pid None = (r, g1)" by fastforce
  have d1: "directory (g_state g1) = directory (g_state g)" using pane_op_names(2) [where g = g and h = h and pid = pid and ev = None] r by simp
  have "dir_steps h (directory (g_state g)) (directory (g_state (snd (let (r, g) = destroy_window h g1 wid None
      in if r \<noteq> Err LastWindow then (r, g) else destroy_session h g sid None))))" for wid sid
  proof -
    obtain q g2 where q: "destroy_window h g1 wid None = (q, g2)" by fastforce
    have "directory (g_state g2) = directory (g_state g)"
      using window_op_names(2) [where g = g1 and h = h and wid = wid and ev = None] q d1 by simp
    then show ?thesis using q destroy_session_dir [of h g2 sid None] by simp
  qed
  then show ?thesis using r d1
    by (auto simp: destroy_pane_and_empty_parents_def find_pane_window_def split: option.splits)
qed

lemma apply_op_dir:
  assumes ok: "snap_ok h (st_snapshot st)" and f: "fresh_ok f (st_snapshot st)" and op: "apply_op h f st i op = Ok st'"
  shows "dir_steps h (directory (st_snapshot st)) (directory (st_snapshot st'))"
proof (cases op)
  case (OpCreateSession name cwd command title)
  then obtain nm sid wid pid evs sn' seq' where
    s: "stage_create_session h f (st_snapshot st) (st_seq st) nm cwd command title = Ok (sid, wid, pid, evs, sn', seq')"
    "st_snapshot st' = sn'"
    using op by (auto simp: Let_def staged_push_def split: result.splits)
  note c = directory_create [OF s(1)]
  have "directory (st_snapshot st) sid = None" using f c by (simp add: directory_def fresh_ok_def)
  then have "dir_step h (directory (st_snapshot st)) ((directory (st_snapshot st))(sid \<mapsto> nm))"
    using c name_not_in_directory [OF snap_ok_wf(1) [OF ok]] by (blast intro: dir_step.enter)
  then show ?thesis using c s(2) by simp
next
  case (OpCreateWindow sref title cwd command)
  then show ?thesis using op directory_stage_window by (fastforce simp: Let_def staged_push_def split: result.splits)
next
  case (OpSplitPane pref d ratio command cwd)
  then show ?thesis using op directory_stage_split by (fastforce simp: staged_push_def split: result.splits)
qed

lemma apply_ops_dir:
  "snap_ok h (st_snapshot st) \<Longrightarrow> fresh_supply fr i (i + length ops) (st_snapshot st) \<Longrightarrow>
     apply_ops h fr st i ops = Ok st' \<Longrightarrow> dir_steps h (directory (st_snapshot st)) (directory (st_snapshot st'))"
proof (induction ops arbitrary: st i)
  case (Cons op ops)
  obtain st1 where st1: "apply_op h (fr i) st i op = Ok st1" "apply_ops h fr st1 (Suc i) ops = Ok st'"
    using Cons.prems(3) by (auto split: result.splits)
  have "i \<in> set [i..<i + length (op # ops)]" by simp
  then have f: "fresh_ok (fr i) (st_snapshot st)" using Cons.prems(2) unfolding fresh_supply_def list_all_iff by blast
  have "snap_ok h (st_snapshot st1)" using safeD [OF apply_op_safe [OF Cons.prems(1) f st1(1)]] .
  moreover have "fresh_supply fr (Suc i) (Suc i + length ops) (st_snapshot st1)"
    using fresh_supply_step [OF Cons.prems(2) apply_op_ids [OF st1(1)]] by simp
  ultimately show ?case using Cons.IH [OF _ _ st1(2)] apply_op_dir [OF Cons.prems(1) f st1(1)] by (meson rtranclp_trans)
qed simp

lemma apply_batch_dir:
  assumes "snap_ok h (g_state g)" "fresh_supply fr 0 (length ops) (g_state g)"
  shows "dir_steps h (directory (g_state g)) (directory (g_state (snd (apply_batch h fr u g ops))))"
proof (cases "apply_ops h fr (staging g) 0 ops")
  case (Ok st)
  let ?g = "commit_snapshot (g\<lparr>g_next_session_seq := st_seq st\<rparr>) (st_snapshot st)"
  have "dir_steps h (directory (g_state g)) (directory (st_snapshot st))" using apply_ops_dir [OF _ _ Ok] assms by (simp add: staging_def)
  then show ?thesis using Ok fire_batch_facts [of h ?g "new_correlation_id h u" "st_events st"]
    by (auto simp: apply_batch_def Let_def split: prod.splits)
next
  case (Err x)
  then show ?thesis by (cases x) (simp add: apply_batch_def)
qed

lemma exec_dir:
  assumes ok: "snap_ok h (g_state g)" and d: "draw_ok d (g_state g) c"
  shows "dir_steps h (directory (g_state g)) (directory (g_state (snd (exec h d g c))))"
  using d op_names create_session_dir [OF ok] rename_session_dir [OF ok] destroy_session_dir cascade_dir apply_batch_dir [OF ok]
  by (cases c) (simp_all add: set_pane_exit_status_def)

interpretation registry: command_contract h new_ids "\<lambda>g. graph_ok h g \<and> dir_steps h dir (directory (g_state g))" for h dir
proof
  fix g d c assume "graph_ok h g \<and> dir_steps h dir (directory (g_state g))" "new_ids d g c"
  then show "graph_ok h (snd (exec h d g c)) \<and> dir_steps h dir (directory (g_state (snd (exec h d g c))))"
    using consistent.exec_keeps exec_dir [of h g d c] by (auto simp: graph_ok_def new_ids_def intro: rtranclp_trans)
qed

lemma dir_steps_names_unique: "dir_steps h dir dir' \<Longrightarrow> inj_on dir (dom dir) \<Longrightarrow> inj_on dir' (dom dir')"
  by (induction rule: rtranclp_induct) (auto dest: dir_step_names_unique)

section \<open>Default titles\<close>

lemma free_title_bound: "\<exists>m. n \<le> m \<and> m \<le> n + length taken \<and> free_title taken base n = numbered base m"
proof -
  obtain m where m: "n \<le> m" "free_title taken base n = numbered base m"
    "\<forall>k. n \<le> k \<longrightarrow> k < m \<longrightarrow> sanitize_title (numbered base k) \<in> set taken"
  proof (induction taken base n rule: free_title.induct)
    case (1 taken base n)
    show ?case
    proof (cases "sanitize_title (numbered base n) \<in> set taken")
      case True
      then have eq: "free_title taken base n = free_title taken base (Suc n)" by (subst free_title.simps) simp
      show ?thesis
      proof (rule 1(1) [OF True])
        fix m assume m: "Suc n \<le> m" "free_title taken base (Suc n) = numbered base m"
          "\<forall>k. Suc n \<le> k \<longrightarrow> k < m \<longrightarrow> sanitize_title (numbered base k) \<in> set taken"
        then show ?thesis using 1(2) [of m] True eq by (metis Suc_leD le_neq_implies_less Suc_leI)
      qed
    next
      case False
      then have "free_title taken base n = numbered base n" by (subst free_title.simps) simp
      then show ?thesis using 1(2) [of n] by simp
    qed
  qed
  have "card ((\<lambda>k. sanitize_title (numbered base k)) ` {n..<m}) = m - n"
    using numbered_inj [of base] by (subst card_image) (auto intro: inj_on_subset)
  moreover have "(\<lambda>k. sanitize_title (numbered base k)) ` {n..<m} \<subseteq> set taken" using m(3) by auto
  then have "card ((\<lambda>k. sanitize_title (numbered base k)) ` {n..<m}) \<le> length taken"
    by (meson List.finite_set card_length card_mono le_trans)
  ultimately show ?thesis using m(1,2) by (intro exI [of _ m]) auto
qed

lemma length_decimal: "n < 10 ^ k \<Longrightarrow> 0 < k \<Longrightarrow> length (decimal n) \<le> k"
proof (induction k arbitrary: n)
  case (Suc k)
  show ?case
  proof (cases "n < 10")
    case True
    then show ?thesis by (simp add: decimal.simps [of n])
  next
    case False
    then have "0 < k" using Suc.prems(1) by (cases k) auto
    moreover have "n div 10 < 10 ^ k" using Suc.prems(1) by (simp add: less_mult_imp_div_less mult.commute)
    ultimately show ?thesis using Suc.IH [of "n div 10"] False by (simp add: decimal.simps [of n])
  qed
qed simp

lemma sanitized_shape: "sanitize_title s = s \<Longrightarrow> inert s \<and> trimmed_by is_whitespace s"
  using inert_sanitize [of s] sanitize_trimmed [of s] by simp

lemma sanitize_shorter: "length (sanitize_title s) \<le> length s"
proof -
  have "length (trim xs) \<le> length xs" for xs
    using length_dropWhile_le [of is_whitespace "rev (dropWhile is_whitespace xs)"] length_dropWhile_le [of is_whitespace xs]
    by (simp add: trim_def trim_by_def)
  then show ?thesis unfolding sanitize_title_def using length_filter_le le_trans by blast
qed

lemma numbered_valid:
  assumes "validate_window_title base = Ok base" "length base \<le> 64" "n < 10 ^ 60"
  shows "validate_window_title (numbered base n) = Ok (numbered base n)"
proof -
  have s: "sanitize_title base = base" "base \<noteq> []" using validate_window_title_Ok [OF assms(1)] by auto
  then have f: "filter (\<lambda>c. \<not> is_title_hostile c) base = base" "dropWhile is_whitespace base = base"
    using sanitized_shape [OF s(1)] by (auto simp: inert_def trimmed_by_def filter_id_conv neq_Nil_conv)
  then have "sanitize_title (numbered base n) = numbered base n" by (simp add: sanitize_numbered) (simp add: numbered_def)
  moreover have "length (numbered base n) \<le> 128"
    using assms(2) length_decimal [OF assms(3)] by (simp add: numbered_def)
  moreover have "\<not> is_window_number (numbered base n)"
    by (simp add: is_window_number_def numbered_def char_class_defs)
  moreover have "numbered base n \<noteq> []" by (simp add: numbered_def)
  ultimately show ?thesis by (simp add: validate_window_title_def Let_def MAX_WINDOW_TITLE_CHARS_def)
qed

section \<open>Properties\<close>



text \<open>C36: ending a session takes exactly what belongs to it: the session, its windows and their panes are
  gone, everything else is untouched, and subscribers hear first of every pane, then of every window
  in order, and last of the session.\<close>

theorem destroy_session_cascades:
  assumes "graph_ok h g" and "get_session (g_state g) sid = Some s"
  shows "let (r, g') = destroy_session h g sid None; doomed = (\<lambda>p. p_window_id p \<in> set (s_windows s))
    in r = Ok () \<and>
       hm_get (sn_sessions (g_state g')) = (hm_get (sn_sessions (g_state g)))(sid := None) \<and>
       hm_get (sn_windows (g_state g')) = (\<lambda>wid. if wid \<in> set (s_windows s) then None else get_window (g_state g) wid) \<and>
       hm_get (sn_panes (g_state g')) =
         (\<lambda>pid. case get_pane (g_state g) pid of None \<Rightarrow> None | Some p \<Rightarrow> if doomed p then None else Some p) \<and>
       published g' = published g @
         (if has_bus g then
            map (\<lambda>p. PaneExited (p_id p) (p_window_id p) sid None None False (p_command p))
              (filter doomed (hm_values (sn_panes (g_state g)))) @
            map (\<lambda>wid. WindowKilled wid sid) (s_windows s) @ [SessionKilled sid (s_name s)]
          else [])"
proof -
  let ?sn = "g_state g" and ?doomed = "\<lambda>p. p_window_id p \<in> set (s_windows s)"
  have ok: "snap_ok h ?sn" using assms(1) by (simp add: graph_ok_def)
  have K: "set (map p_id (filter ?doomed (hm_values (sn_panes ?sn)))) = {k. \<exists>p. get_pane ?sn k = Some p \<and> ?doomed p}"
    by (rule kill_list) (use ok snap_ok_wf pane_keys in blast)+
  have ps: "hm_get (fold hm_remove (map p_id (filter ?doomed (hm_values (sn_panes ?sn)))) (sn_panes ?sn)) =
      (\<lambda>pid. case get_pane ?sn pid of None \<Rightarrow> None | Some p \<Rightarrow> if ?doomed p then None else Some p)"
    by (rule ext) (simp only: fold_remove get_filter_keys K, auto split: option.splits)
  have ws: "hm_get (fold hm_remove (s_windows s) (sn_windows ?sn)) =
      (\<lambda>wid. if wid \<in> set (s_windows s) then None else get_window ?sn wid)"
    by (rule ext) (simp add: fold_remove get_filter_keys)
  show ?thesis using assms(2) ps ws
    by (simp add: destroy_session_def Let_def version_conflict_def commit_and_fire_published store_simps comp_def)
qed

theorem destroy_session_cascades_witness:
  "let g' = snd (destroy_session demo_host (serve demo_host (graph_new None) demo_request) (SessionId 1) None)
   in get_session (g_state g') (SessionId 1) = None \<and> get_pane (g_state g') (PaneId 3) = None"
proof -
  let ?g = "serve demo_host (graph_new None) demo_request"
  have ok: "graph_ok demo_host ?g" using consistent.reachable_inv [OF demo_reachable(2) graph_new_ok(1)] .
  obtain w s where w: "get_window (g_state ?g) (WindowId 2) = Some w" "w_session_id w = SessionId 1"
    and s: "get_session (g_state ?g) (SessionId 1) = Some s" "WindowId 2 \<in> set (s_windows s)"
    using demo_session_facts by blast
  from destroy_session_cascades [OF ok s(1)] demo_graph_facts(1) s(2) show ?thesis
    by (auto simp: Let_def split: prod.splits)
qed

text \<open>the title a window gets when none is given always works: whatever its command, working directory
  and siblings, it passes the rules for window titles unchanged and no window of the session has it.
  The search for a free number ends.\<close>

theorem default_window_title_is_usable:
  assumes "length (session_windows sn sid) \<le> usize_max"
  shows "validate_window_title (default_window_title sn sid command cwd) = Ok (default_window_title sn sid command cwd) \<and>
    \<not> window_name_exists_in_session sn sid (default_window_title sn sid command cwd)"
proof -
  define pane_title where "pane_title = p_title (pane_with_command (PaneId 0) (WindowId 0) cwd command)"
  define base where "base = (case validate_window_title pane_title of Ok t \<Rightarrow> t | Err _ \<Rightarrow> ascii ''window'')"
  have "length pane_title \<le> 64"
    using pane_with_command_titles_ok by (simp add: pane_title_def titles_ok_def short_inert_def MAX_TITLE_CHARS_def)
  then have len: "length base \<le> 64"
    using validate_window_title_Ok [of pane_title] sanitize_shorter [of pane_title]
    by (auto simp: base_def split: result.splits)
  have valid: "validate_window_title base = Ok base"
    using validate_window_title_Ok window_word_valid by (auto simp: base_def split: result.splits)
  let ?taken = "map w_title (session_windows sn sid)"
  show ?thesis
  proof (cases "window_name_exists_in_session sn sid base")
    case False
    then have "default_window_title sn sid command cwd = base"
      by (simp add: default_window_title_def pane_title_def [symmetric] base_def [symmetric] Let_def)
    then show ?thesis using False valid by simp
  next
    case True
    then have t: "default_window_title sn sid command cwd = free_title ?taken base 2"
      by (simp add: default_window_title_def pane_title_def [symmetric] base_def [symmetric] Let_def)
    obtain m where m: "m \<le> 2 + length ?taken" "free_title ?taken base 2 = numbered base m" using free_title_bound by blast
    have "2 + usize_max < 10 ^ 60" by (simp add: usize_max_def)
    then have "m < 10 ^ 60" using m(1) assms by simp
    then show ?thesis using numbered_valid [OF valid len] free_title_fresh [of ?taken base 2] t m(2)
      by (simp add: window_name_exists_iff)
  qed
qed

theorem default_window_title_is_usable_witness:
  "validate_window_title (default_window_title snapshot_default (SessionId 1) [] (ascii ''/'')) =
     Ok (default_window_title snapshot_default (SessionId 1) [] (ascii ''/''))"
  using default_window_title_is_usable [of snapshot_default "SessionId 1" "[]" "ascii ''/''"]
  by (simp add: session_windows_def snapshot_default_def)

section \<open>Where comments promise more\<close>

text \<open>
  \<open>create_pane\<close> puts a pane in a window without a place in its layout.  Destroying the only pane the
  layout has then succeeds, and leaves the window showing and focusing a pane that is gone.
\<close>

lemma create_pane_can_strand_a_window:
  assumes w: "get_window (g_state g) wid = Some w" "w_layout w = wl_new pid" "w_active_pane w = pid"
    and p: "get_pane (g_state g) pid = Some p" "p_window_id p = wid" "p_id p = pid"
    and new: "get_pane (g_state g) (fr_pane f) = None"
    and cap: "check_session_capacity h (g_state g) (w_session_id w) command cwd = Ok ()"
  defines "g1 \<equiv> snd (create_pane h f g wid cwd command)"
  defines "g2 \<equiv> snd (destroy_pane h g1 pid None)"
  shows "fst (destroy_pane h g1 pid None) = Ok () \<and> get_pane (g_state g2) pid = None \<and>
    (\<exists>w2. get_window (g_state g2) wid = Some w2 \<and> wl_shown (w_layout w2) = [pid] \<and> w_active_pane w2 = pid)"
proof -
  have ne: "pid \<noteq> fr_pane f" using p(1) new by auto
  have g1: "get_pane (g_state g1) pid = Some p" "get_window (g_state g1) wid = Some w"
    "hm_values (sn_panes (g_state g1)) = hm_values (sn_panes (g_state g)) @ [new_pane (fr_pane f) wid cwd command]"
    using w p new cap ne by (simp_all add: g1_def create_pane_def Let_def store_simps hm_values_insert_new)
  have "p \<in> set (hm_values (sn_panes (g_state g)))" using p(1) map_of_SomeD by (force simp: hm_values_def)
  then have "\<not> length (window_panes_of (g_state g1) wid) \<le> 1"
    using p(2) by (auto simp: window_panes_of_def g1(3) filter_empty_conv Suc_le_eq)
  moreover have "refocus_after pid wid ps w = w" for ps
    using w(2,3) by (simp add: refocus_after_def wl_new_def wl_remove_pane_def wl_take_zoom_def Let_def)
  ultimately show ?thesis using g1(1,2) p(2) w(2,3)
    by (auto simp: g2_def destroy_pane_def Let_def version_conflict_def window_on_window wl_new_def wl_shown_def)
       (simp_all add: on_window_def store_simps)
qed

text \<open>
  The fast path of \<open>set_pane_osc_title\<close> covers a title that is not shown.  Repeating the OSC title a
  pane does show commits a new snapshot and bumps the pane's version each time.
\<close>

lemma repeated_osc_title_bumps_versions:
  assumes "get_pane (g_state g) pid = Some p" "get_window (g_state g) (p_window_id p) = Some w"
    and "p_osc_title p = Some title" "p_manual_title p = None" "p_auto_title p"
  shows "let g' = snd (set_pane_osc_title h g pid title) in sn_version (g_state g') = sn_version (g_state g) + 1 \<and>
    map_option p_version (get_pane (g_state g') pid) = Some (p_version p + 1)"
proof -
  have "p_version (fst (set_osc_title p title)) = p_version p" by (simp add: set_osc_title_def Let_def)
  then show ?thesis using assms
    by (cases "set_osc_title p title")
      (simp add: set_pane_osc_title_def Let_def on_pane_def store_simps bump_pane_def)
qed

text \<open>
  \<open>swap_panes\<close> checks the version of one pane, because \<open>any layout op in the window bumps every pane's version\<close>.
  A split is a layout operation and bumps none.
\<close>

lemma split_bumps_no_sibling:
  assumes "split_pane_with_command h f g target d ratio command = (Ok pid, g')" "q \<noteq> fr_pane f"
  shows "get_pane (g_state g') q = get_pane (g_state g) q"
  using assms
  by (auto simp: split_pane_with_command_def find_pane_window_def Let_def on_window_def store_simps
      split: option.splits result.splits prod.splits if_splits)

end
