(* ===== verification/IdRef.thy ===== *)
theory IdRef
  imports Graph_State
begin

text \<open>
  Entity references, \<^verbatim>\<open>shux-core/src/idref.rs\<close>, and the three lookups of \<^verbatim>\<open>graph.rs\<close> built on them: a
  complete UUID stands for itself, anything else is a prefix of the hex digits of one live id.

  Parsing and printing UUIDs is code of the \<^verbatim>\<open>uuid\<close> crate.  \<open>uuid_api\<close> holds its three functions and
  \<open>uuid_api_ok\<close> what its documentation says of them; \<open>Uuid\<close>'s order is that of the 16 bytes, which is
  that of the 128-bit number.
\<close>

section \<open>References\<close>

definition MIN_PREFIX_LEN :: usize where "MIN_PREFIX_LEN = 4"
definition UUID_HEX_LEN :: usize where "UUID_HEX_LEN = 32"
definition MAX_LISTED_CANDIDATES :: usize where "MAX_LISTED_CANDIDATES = 8"

datatype ref_kind = RefSession | RefWindow | RefPane

fun ref_kind_str :: "ref_kind \<Rightarrow> rstring" where
  "ref_kind_str RefSession = ascii ''session''"
| "ref_kind_str RefWindow = ascii ''window''"
| "ref_kind_str RefPane = ascii ''pane''"

datatype malformed_reason = RefEmpty | NoDigits | TooShort usize | NotHex | TooLong usize

fun malformed_text :: "malformed_reason \<Rightarrow> rstring" where
  "malformed_text RefEmpty = ascii ''it is empty''"
| "malformed_text NoDigits = ascii ''it is all hyphens, with no hex digits''"
| "malformed_text (TooShort n) = ascii ''an id prefix needs at least '' @ decimal MIN_PREFIX_LEN @ ascii '' hex characters, got '' @ decimal n"
| "malformed_text NotHex = ascii ''an id is hex digits and hyphens only''"
| "malformed_text (TooLong n) = ascii ''an id prefix is at most '' @ decimal (UUID_HEX_LEN - 1) @
     ascii '' hex characters (a whole uuid is '' @ decimal UUID_HEX_LEN @ ascii ''), got '' @ decimal n"

datatype ref_error =
    RefMalformed ref_kind rstring malformed_reason
  | RefNotFound ref_kind rstring
  | RefAmbiguous ref_kind rstring "rstring list" usize

fun ref_error_kind :: "ref_error \<Rightarrow> ref_kind" where
  "ref_error_kind (RefMalformed k i r) = k"
| "ref_error_kind (RefNotFound k i) = k"
| "ref_error_kind (RefAmbiguous k i cs n) = k"

fun ref_error_input :: "ref_error \<Rightarrow> rstring" where
  "ref_error_input (RefMalformed k i r) = i"
| "ref_error_input (RefNotFound k i) = i"
| "ref_error_input (RefAmbiguous k i cs n) = i"

datatype parsed_ref = Exact uuid | Prefix rstring

record uuid_api =
  ua_parse :: "rstring \<Rightarrow> uuid option"
  ua_simple :: "uuid \<Rightarrow> rstring"
  ua_hyphenated :: "uuid \<Rightarrow> rstring"

text \<open>\<open>char::is_ascii_hexdigit\<close> and \<open>char::to_ascii_lowercase\<close>.\<close>

definition is_ascii_hexdigit :: "rchar \<Rightarrow> bool" where
  "is_ascii_hexdigit c \<longleftrightarrow> 48 \<le> c \<and> c \<le> 57 \<or> 65 \<le> c \<and> c \<le> 70 \<or> 97 \<le> c \<and> c \<le> 102"

definition to_ascii_lowercase :: "rchar \<Rightarrow> rchar" where
  "to_ascii_lowercase c = (if 65 \<le> c \<and> c \<le> 90 then c + 32 else c)"

definition ref_hex :: "rstring \<Rightarrow> rstring" where
  "ref_hex trimmed = map to_ascii_lowercase (filter (\<lambda>c. c \<noteq> 45) trimmed)"

definition parse_ref :: "uuid_api \<Rightarrow> ref_kind \<Rightarrow> rstring \<Rightarrow> (parsed_ref, ref_error) result" where
  "parse_ref U kind input =
     (let trimmed = trim input
      in case ua_parse U trimmed of
           Some u \<Rightarrow> Ok (Exact u)
         | None \<Rightarrow>
             let malformed = (\<lambda>reason. Err (RefMalformed kind input reason))
             in if trimmed = [] then malformed RefEmpty
                else
                  let hex = ref_hex trimmed
                  in if hex = [] then malformed NoDigits
                     else if \<not> list_all is_ascii_hexdigit hex then malformed NotHex
                     else if length hex < MIN_PREFIX_LEN then malformed (TooShort (length hex))
                     else if UUID_HEX_LEN \<le> length hex then malformed (TooLong (length hex))
                     else Ok (Prefix hex))"

definition starts_with :: "rstring \<Rightarrow> rstring \<Rightarrow> bool" where
  "starts_with s p \<longleftrightarrow> take (length p) s = p"

definition match_prefix :: "uuid_api \<Rightarrow> ref_kind \<Rightarrow> rstring \<Rightarrow> rstring \<Rightarrow> uuid list \<Rightarrow> (uuid, ref_error) result" where
  "match_prefix U kind input pre ids =
     (let hits = filter (\<lambda>u. starts_with (ua_simple U u) pre) ids
      in case hits of
           [] \<Rightarrow> Err (RefNotFound kind (trim input))
         | [u] \<Rightarrow> Ok u
         | _ \<Rightarrow> Err (RefAmbiguous kind (trim input)
                   (map (ua_hyphenated U) (take MAX_LISTED_CANDIDATES (sort hits))) (length hits)))"

definition resolve_ref :: "uuid_api \<Rightarrow> ref_kind \<Rightarrow> rstring \<Rightarrow> uuid list \<Rightarrow> (uuid, ref_error) result" where
  "resolve_ref U kind input ids =
     (case parse_ref U kind input of
        Err e \<Rightarrow> Err e
      | Ok (Exact u) \<Rightarrow> Ok u
      | Ok (Prefix pre) \<Rightarrow> match_prefix U kind input pre ids)"

fun map_result :: "('a \<Rightarrow> 'b) \<Rightarrow> ('a, 'e) result \<Rightarrow> ('b, 'e) result" where
  "map_result f (Ok v) = Ok (f v)"
| "map_result f (Err e) = Err e"

definition lookup_pane_ref :: "uuid_api \<Rightarrow> snapshot \<Rightarrow> rstring \<Rightarrow> (pane_id, ref_error) result" where
  "lookup_pane_ref U sn input = map_result PaneId (resolve_ref U RefPane input (map pane_uuid (hm_keys (sn_panes sn))))"

definition lookup_window_ref :: "uuid_api \<Rightarrow> snapshot \<Rightarrow> rstring \<Rightarrow> (window_id, ref_error) result" where
  "lookup_window_ref U sn input = map_result WindowId (resolve_ref U RefWindow input (map window_uuid (hm_keys (sn_windows sn))))"

definition lookup_session_ref :: "uuid_api \<Rightarrow> snapshot \<Rightarrow> rstring \<Rightarrow> (session_id, ref_error) result" where
  "lookup_session_ref U sn input = map_result SessionId (resolve_ref U RefSession input (map session_uuid (hm_keys (sn_sessions sn))))"

section \<open>The documented behaviour of the crate\<close>

definition is_lower_hex :: "rchar \<Rightarrow> bool" where
  "is_lower_hex c \<longleftrightarrow> 48 \<le> c \<and> c \<le> 57 \<or> 97 \<le> c \<and> c \<le> 102"

text \<open>
  The simple form is 32 lower-case hex digits and determines the id, the hyphenated form has the same
  digits, every accepted spelling has at least 32 hex digits, and both forms parse back.
\<close>

definition uuid_api_ok :: "uuid_api \<Rightarrow> bool" where
  "uuid_api_ok U \<longleftrightarrow>
     (\<forall>u. length (ua_simple U u) = UUID_HEX_LEN \<and> list_all is_lower_hex (ua_simple U u) \<and>
          filter (\<lambda>c. c \<noteq> 45) (ua_hyphenated U u) = ua_simple U u \<and>
          list_all (\<lambda>c. c = 45 \<or> is_lower_hex c) (ua_hyphenated U u) \<and>
          ua_parse U (ua_simple U u) = Some u \<and> ua_parse U (ua_hyphenated U u) = Some u) \<and>
     (\<forall>s u. ua_parse U s = Some u \<longrightarrow> UUID_HEX_LEN \<le> length (filter is_ascii_hexdigit s))"

lemmas uuid_hex_defs = MIN_PREFIX_LEN_def UUID_HEX_LEN_def is_ascii_hexdigit_def is_lower_hex_def to_ascii_lowercase_def

lemma uuid_api_okD:
  assumes "uuid_api_ok U"
  shows "length (ua_simple U u) = 32" "list_all is_lower_hex (ua_simple U u)"
    "filter (\<lambda>c. c \<noteq> 45) (ua_hyphenated U u) = ua_simple U u"
    "list_all (\<lambda>c. c = 45 \<or> is_lower_hex c) (ua_hyphenated U u)"
    "ua_parse U (ua_simple U u) = Some u" "ua_parse U (ua_hyphenated U u) = Some u"
    "ua_parse U s = Some v \<Longrightarrow> 32 \<le> length (filter is_ascii_hexdigit s)"
  using assms by (simp_all add: uuid_api_ok_def UUID_HEX_LEN_def)

lemma simple_inj: "uuid_api_ok U \<Longrightarrow> ua_simple U u = ua_simple U v \<longleftrightarrow> u = v"
  using uuid_api_okD(5) [of U] by (metis option.inject)

section \<open>What a reference can name\<close>

text \<open>The hex digits of a string are those of its normal form.\<close>

lemma lower_hexdigit [simp]: "is_ascii_hexdigit (to_ascii_lowercase c) = is_ascii_hexdigit c"
  by (auto simp: uuid_hex_defs)

lemma length_hexdigits: "list_all is_ascii_hexdigit (ref_hex s) \<Longrightarrow> length (filter is_ascii_hexdigit s) = length (ref_hex s)"
proof (induction s)
  case (Cons c s)
  then show ?case by (cases "c = 45") (auto simp: ref_hex_def is_ascii_hexdigit_def [of 45])
qed (simp add: ref_hex_def)

lemma ref_hex_lower: "list_all is_ascii_hexdigit (ref_hex s) \<Longrightarrow> list_all is_lower_hex (ref_hex s)"
  by (induction s) (auto simp: ref_hex_def uuid_hex_defs)

lemma prefix_not_uuid:
  assumes "uuid_api_ok U" "list_all is_ascii_hexdigit (ref_hex s)" "length (ref_hex s) < 32"
  shows "ua_parse U s = None"
  using uuid_api_okD(7) [OF assms(1), of s] length_hexdigits [OF assms(2)] assms(3) by fastforce

lemma parse_ref_prefix:
  assumes "uuid_api_ok U"
  shows "parse_ref U k s = Ok (Prefix p) \<longleftrightarrow>
    p = ref_hex (trim s) \<and> list_all is_ascii_hexdigit p \<and> 4 \<le> length p \<and> length p < 32"
  using prefix_not_uuid [OF assms, of "trim s"]
  by (auto simp: parse_ref_def Let_def MIN_PREFIX_LEN_def UUID_HEX_LEN_def ref_hex_def split: option.splits)

lemma parse_ref_exact: "parse_ref U k s = Ok (Exact u) \<longleftrightarrow> ua_parse U (trim s) = Some u"
  by (simp add: parse_ref_def Let_def split: option.splits)

lemma filter_one: "distinct xs \<Longrightarrow> filter P xs = [x] \<longleftrightarrow> {y \<in> set xs. P y} = {x}"
proof
  assume d: "distinct xs" and s: "{y \<in> set xs. P y} = {x}"
  have f: "set (filter P xs) = {x}" using s by simp
  then have "length (filter P xs) = 1" using distinct_card [OF distinct_filter [OF d], of P] by simp
  then show "filter P xs = [x]" using f by (cases "filter P xs") auto
qed (metis empty_set list.simps(15) set_filter)

definition sharing :: "uuid_api \<Rightarrow> uuid list \<Rightarrow> rstring \<Rightarrow> uuid list" where
  "sharing U ids p = filter (\<lambda>u. starts_with (ua_simple U u) p) ids"

lemma match_prefix_Ok: "match_prefix U k s p ids = Ok u \<longleftrightarrow> sharing U ids p = [u]"
  by (auto simp: match_prefix_def sharing_def Let_def split: list.splits)

lemma match_prefix_cases:
  assumes "u \<in> set (sharing U ids p)"
  shows "match_prefix U k s p ids =
    (if sharing U ids p = [u] then Ok u
     else Err (RefAmbiguous k (trim s) (map (ua_hyphenated U) (take 8 (sort (sharing U ids p)))) (length (sharing U ids p))))"
proof (cases "sharing U ids p" rule: remdups_adj.cases)
  case (2 x)
  then show ?thesis using assms by (simp add: match_prefix_def sharing_def)
qed (use assms in \<open>simp_all add: match_prefix_def sharing_def Let_def MAX_LISTED_CANDIDATES_def\<close>)

lemma resolve_ref_prefix:
  assumes "uuid_api_ok U" "p = ref_hex (trim s)" "list_all is_ascii_hexdigit p" "4 \<le> length p" "length p < 32"
  shows "resolve_ref U k s ids = match_prefix U k s p ids"
proof -
  have "parse_ref U k s = Ok (Prefix p)" using parse_ref_prefix [OF assms(1)] assms(2-) by blast
  then show ?thesis by (simp add: resolve_ref_def)
qed

section \<open>A concrete printer and parser\<close>

definition hex_char :: "nat \<Rightarrow> rchar" where
  "hex_char d = (if d < 10 then 48 + d else 87 + d)"

definition hex_value :: "rchar \<Rightarrow> nat" where
  "hex_value c = (if c < 97 then c - 48 else c - 87)"

primrec hex_digits :: "nat \<Rightarrow> nat \<Rightarrow> rstring" where
  "hex_digits 0 n = []"
| "hex_digits (Suc k) n = hex_digits k (n div 16) @ [hex_char (n mod 16)]"

definition from_hex :: "rstring \<Rightarrow> nat" where
  "from_hex s = foldl (\<lambda>n c. n * 16 + hex_value c) 0 s"

definition plain_uuid_api :: uuid_api where
  "plain_uuid_api =
     \<lparr>ua_parse = (\<lambda>s. let d = filter (\<lambda>c. c \<noteq> 45) s
                     in if length d = 32 \<and> list_all is_ascii_hexdigit d then Some (word_of_nat (from_hex d)) else None),
      ua_simple = (\<lambda>u. hex_digits 32 (unat u)),
      ua_hyphenated = (\<lambda>u. let d = hex_digits 32 (unat u)
                          in take 8 d @ 45 # take 4 (drop 8 d) @ 45 # take 4 (drop 12 d) @ 45 # take 4 (drop 16 d) @ 45 # drop 20 d)\<rparr>"

lemma hex_digits_shape: "length (hex_digits k n) = k" "list_all is_lower_hex (hex_digits k n)"
  by (induction k arbitrary: n) (auto simp: hex_char_def is_lower_hex_def)

lemma take_hex_digits: "take j (hex_digits (k + j) n) = hex_digits j (n div 16 ^ k)"
proof (induction k arbitrary: n)
  case 0
  then show ?case by (simp add: hex_digits_shape)
next
  case (Suc k)
  then show ?case by (simp add: hex_digits_shape div_mult2_eq)
qed

lemma from_hex_digits: "from_hex (hex_digits k n) = n mod 16 ^ k"
proof (induction k arbitrary: n)
  case (Suc k)
  have "hex_value (hex_char (n mod 16)) = n mod 16" by (auto simp: hex_value_def hex_char_def)
  then show ?case using Suc [of "n div 16"] by (simp add: from_hex_def mod_mult2_eq mult.commute)
qed (simp add: from_hex_def)

lemma lower_hex_no_hyphen: "list_all is_lower_hex s \<Longrightarrow> filter (\<lambda>c. c \<noteq> 45) s = s"
  by (induction s) (auto simp: is_lower_hex_def)

lemma lower_hex_hexdigit: "list_all is_lower_hex s \<Longrightarrow> list_all is_ascii_hexdigit s"
  by (induction s) (auto simp: uuid_hex_defs)

lemma list_all_pieces: "list_all P s \<Longrightarrow> list_all P (take n s) \<and> list_all P (drop n s)"
  by (metis append_take_drop_id list_all_append)

lemma plain_uuid_api_ok: "uuid_api_ok plain_uuid_api"
proof -
  let ?d = "\<lambda>u::uuid. hex_digits 32 (unat u)"
  have lower: "list_all is_lower_hex (?d u)" for u by (rule hex_digits_shape)
  note piece = list_all_pieces [THEN conjunct1] list_all_pieces [THEN conjunct2]
  have pieces: "take 8 d @ take 4 (drop 8 d) @ take 4 (drop 12 d) @ take 4 (drop 16 d) @ drop 20 d = d" for d :: rstring
    using append_take_drop_id [of 8 d] append_take_drop_id [of 4 "drop 8 d"] append_take_drop_id [of 4 "drop 12 d"]
      append_take_drop_id [of 4 "drop 16 d"] by simp
  have hy: "filter (\<lambda>c. c \<noteq> 45) (ua_hyphenated plain_uuid_api u) = ?d u" for u
    using pieces [of "?d u"] by (simp add: plain_uuid_api_def Let_def lower_hex_no_hyphen [OF piece(1)] lower_hex_no_hyphen [OF piece(2)] lower piece)
  have le: "list_all is_lower_hex xs \<Longrightarrow> list_all (\<lambda>c. c = 45 \<or> is_lower_hex c) xs" for xs by (simp add: list_all_iff)
  have hc: "list_all (\<lambda>c. c = 45 \<or> is_lower_hex c) (ua_hyphenated plain_uuid_api u)" for u
    by (simp add: plain_uuid_api_def Let_def le piece lower)
  have fh: "word_of_nat (from_hex (?d u)) = u" for u
  proof -
    have "unat u < 16 ^ 32" using unsigned_less [of u] by simp
    then show ?thesis by (simp add: from_hex_digits)
  qed
  have parse: "ua_parse plain_uuid_api s = Some u" if "filter (\<lambda>c. c \<noteq> 45) s = ?d u" for s u
    using that fh [of u] hex_digits_shape [of 32 "unat u"] by (simp add: plain_uuid_api_def Let_def lower_hex_hexdigit)
  have len: "length (filter is_ascii_hexdigit s) \<ge> 32" if "ua_parse plain_uuid_api s = Some u" for s u
  proof -
    have "list_all is_ascii_hexdigit (filter (\<lambda>c. c \<noteq> 45) s)" and "length (filter (\<lambda>c. c \<noteq> 45) s) = 32"
      using that by (auto simp: plain_uuid_api_def Let_def split: if_splits)
    then have "filter is_ascii_hexdigit (filter (\<lambda>c. c \<noteq> 45) s) = filter (\<lambda>c. c \<noteq> 45) s" "length (filter (\<lambda>c. c \<noteq> 45) s) = 32"
      by (metis Ball_set filter_True, blast)
    moreover have "length (filter is_ascii_hexdigit (filter (\<lambda>c. c \<noteq> 45) s)) \<le> length (filter is_ascii_hexdigit s)"
      using length_filter_le [of "\<lambda>c. c \<noteq> 45" "filter is_ascii_hexdigit s"] by (simp add: conj_commute)
    ultimately show ?thesis by simp
  qed
  have "ua_simple plain_uuid_api u = ?d u" for u by (simp add: plain_uuid_api_def)
  then show ?thesis unfolding uuid_api_ok_def UUID_HEX_LEN_def
    using hex_digits_shape hy hc parse [OF lower_hex_no_hyphen [OF lower]] parse [OF hy] len by simp
qed

section \<open>Properties\<close>

text \<open>a reference never guesses.  A string resolves to an id exactly when it is a complete UUID spelling
  of it, or when its digits, with hyphens and case ignored, are 4 to 31 hex digits that begin this
  one of the live ids and no other.\<close>

theorem resolve_ref_never_guesses:
  assumes "uuid_api_ok U" and "distinct ids"
  shows "resolve_ref U k s ids = Ok u \<longleftrightarrow>
    ua_parse U (trim s) = Some u \<or>
    (let p = ref_hex (trim s)
     in list_all is_ascii_hexdigit p \<and> 4 \<le> length p \<and> length p < 32 \<and>
        {v \<in> set ids. take (length p) (ua_simple U v) = p} = {u})"
proof -
  have "sharing U ids p = [u] \<longleftrightarrow> {v \<in> set ids. take (length p) (ua_simple U v) = p} = {u}" for p
    using filter_one [OF assms(2)] by (simp add: sharing_def starts_with_def)
  then have "resolve_ref U k s ids = Ok u \<longleftrightarrow> parse_ref U k s = Ok (Exact u) \<or>
      (\<exists>p. parse_ref U k s = Ok (Prefix p) \<and> {v \<in> set ids. take (length p) (ua_simple U v) = p} = {u})"
    by (auto simp: resolve_ref_def match_prefix_Ok split: result.splits parsed_ref.splits)
  then show ?thesis unfolding parse_ref_exact parse_ref_prefix [OF assms(1)] Let_def by blast
qed

lemma hex_digits_numeral:
  "hex_digits (numeral k) n = hex_digits (pred_numeral k) (n div 16) @ [hex_char (n mod 16)]"
  by (simp only: numeral_eq_Suc [of k] hex_digits.simps)

lemma few_digits:
  "hex_digits 6 n = map (\<lambda>i. hex_char (n div 16 ^ i mod 16)) [5, 4, 3, 2, 1, 0]"
  "hex_digits 8 n = map (\<lambda>i. hex_char (n div 16 ^ i mod 16)) [7, 6, 5, 4, 3, 2, 1, 0]"
  by (simp_all add: hex_digits_numeral flip: div_mult2_eq)

theorem resolve_ref_never_guesses_witness:
  "resolve_ref plain_uuid_api RefPane (ascii '' 0000-00'') [1, 0x0A000000000000000000000000000000] = Ok 1"
proof -
  have "ref_hex (trim (ascii '' 0000-00'')) = [48, 48, 48, 48, 48, 48]"
    by (simp add: ref_hex_def trim_def trim_by_def ascii_def is_whitespace_def to_ascii_lowercase_def)
  moreover have "take 6 (ua_simple plain_uuid_api 0x0A000000000000000000000000000000) = [48, 97, 48, 48, 48, 48]"
    using take_hex_digits [of 6 26 "0x0A000000000000000000000000000000"]
    by (simp add: plain_uuid_api_def hex_char_def few_digits)
  moreover have "take 6 (ua_simple plain_uuid_api 1) = [48, 48, 48, 48, 48, 48]"
    using take_hex_digits [of 6 26 1] by (simp add: plain_uuid_api_def hex_char_def few_digits)
  moreover define other :: uuid where "other = 0x0A000000000000000000000000000000"
  ultimately have "{v \<in> set [1, other]. take 6 (ua_simple plain_uuid_api v) = [48, 48, 48, 48, 48, 48]} = {1}" by auto
  moreover have "distinct [1, other]" by (simp add: other_def)
  moreover have six: "length [48, 48, 48, 48, 48, 48 :: rchar] = 6" by simp
  moreover note hex = \<open>ref_hex (trim (ascii '' 0000-00'')) = [48, 48, 48, 48, 48, 48]\<close>
  ultimately have "resolve_ref plain_uuid_api RefPane (ascii '' 0000-00'') [1, other] = Ok 1"
    by (subst resolve_ref_never_guesses [OF plain_uuid_api_ok]) (simp_all add: hex six is_ascii_hexdigit_def del: list.size)
  then show ?thesis by (simp only: other_def)
qed

text \<open>whatever part of a listed id a user copies is enough or says why not.  For a live pane, any
  spelling of 4 to 31 leading digits of its id resolves to that pane when no other pane shares them;
  otherwise the error counts the panes that do and names up to eight of them, in order.\<close>

theorem listed_pane_id_resolves:
  assumes "uuid_api_ok U" and "hm_wf (sn_panes sn)" and "hm_contains (sn_panes sn) (PaneId u)"
    and "ref_hex (trim s) = take n (ua_simple U u)" and "4 \<le> n" and "n < 32"
  shows "let same = sharing U (map pane_uuid (hm_keys (sn_panes sn))) (take n (ua_simple U u))
    in u \<in> set same \<and> distinct same \<and>
       lookup_pane_ref U sn s =
         (if length same = 1 then Ok (PaneId u)
          else Err (RefAmbiguous RefPane (trim s) (map (ua_hyphenated U) (take 8 (sort same))) (length same)))"
proof -
  let ?ids = "map pane_uuid (hm_keys (sn_panes sn))" and ?p = "take n (ua_simple U u)"
  let ?same = "sharing U ?ids ?p"
  have "PaneId u \<in> set (hm_keys (sn_panes sn))" using assms(3) by (auto simp: hm_keys_iff hm_contains_def)
  then have "u \<in> set ?ids" by (simp add: image_iff) (metis pane_id.sel)
  then have u: "u \<in> set ?same" using uuid_api_okD(1) [OF assms(1)] assms(6) by (simp add: sharing_def starts_with_def)
  have "distinct ?ids" using assms(2)
    by (auto simp: distinct_map hm_wf_def hm_keys_def inj_on_def pane_id.expand)
  then have d: "distinct ?same" by (simp add: sharing_def)
  have one: "length ?same = 1 \<longleftrightarrow> ?same = [u]" using u by (cases ?same) auto
  have "list_all is_ascii_hexdigit ?p" "length ?p = n"
    using uuid_api_okD(1,2) [OF assms(1), of u] assms(6) list_all_pieces lower_hex_hexdigit by auto
  then have "resolve_ref U RefPane s ?ids = match_prefix U RefPane s ?p ?ids"
    by (intro resolve_ref_prefix [OF assms(1)]) (use assms(4-) in simp_all)
  then show ?thesis using match_prefix_cases [OF u, of RefPane s] u d one by (simp add: lookup_pane_ref_def Let_def)
qed

theorem listed_pane_id_resolves_witness:
  "let sn = snapshot_default\<lparr>sn_panes := [(PaneId 1, new_pane (PaneId 1) (WindowId 2) [] [])]\<rparr>
   in lookup_pane_ref plain_uuid_api sn (ascii ''00000000'') = Ok (PaneId 1)"
proof -
  let ?sn = "snapshot_default\<lparr>sn_panes := [(PaneId 1, new_pane (PaneId 1) (WindowId 2) [] [])]\<rparr>"
  have "ref_hex (trim (ascii ''00000000'')) = take 8 (ua_simple plain_uuid_api 1)"
    using take_hex_digits [of 8 24 1]
    by (simp add: ref_hex_def trim_def trim_by_def ascii_def is_whitespace_def to_ascii_lowercase_def plain_uuid_api_def hex_char_def few_digits)
  from listed_pane_id_resolves [OF plain_uuid_api_ok _ _ this, of ?sn] show ?thesis
    using uuid_api_okD(1) [OF plain_uuid_api_ok] by (simp add: Let_def sharing_def starts_with_def hm_wf_def hm_keys_def hm_contains_def)
qed

end
