(* ===== verification/Vt_Cell.thy ===== *)
theory Vt_Cell
  imports Prelude
begin

text \<open>
  Cells of the terminal emulator, \<^verbatim>\<open>shux-vt/src/cell.rs\<close>: a character with its display width and
  style, and a rarely used payload for text of several code points, which one cell may not grow
  without bound.  \<open>Arc\<close> sharing is copy-on-write and therefore invisible: a shared value is its value.
\<close>

unbundle bit_operations_syntax

section \<open>Cells\<close>

type_synonym u8 = "8 word"

definition MAX_GRAPHEME_SCALARS :: usize where "MAX_GRAPHEME_SCALARS = 32"

datatype cell_flags = CellFlags (flag_bits: u8)

definition BOLD :: u8 where "BOLD = 0b00000001"
definition DIM :: u8 where "DIM = 0b00000010"
definition ITALIC :: u8 where "ITALIC = 0b00000100"
definition UNDERLINE :: u8 where "UNDERLINE = 0b00001000"
definition BLINK :: u8 where "BLINK = 0b00010000"
definition INVERSE :: u8 where "INVERSE = 0b00100000"
definition HIDDEN :: u8 where "HIDDEN = 0b01000000"
definition STRIKETHROUGH :: u8 where "STRIKETHROUGH = 0b10000000"

definition flags_contain :: "cell_flags \<Rightarrow> u8 \<Rightarrow> bool" where
  "flags_contain f flag \<longleftrightarrow> flag_bits f AND flag \<noteq> 0"

definition flags_set :: "cell_flags \<Rightarrow> u8 \<Rightarrow> cell_flags" where
  "flags_set f flag = CellFlags (flag_bits f OR flag)"

definition flags_unset :: "cell_flags \<Rightarrow> u8 \<Rightarrow> cell_flags" where
  "flags_unset f flag = CellFlags (flag_bits f AND NOT flag)"

definition flags_reset :: "cell_flags \<Rightarrow> cell_flags" where
  "flags_reset f = CellFlags 0"

datatype color = ColorDefault | Indexed u8 | Rgb u8 u8 u8

type_synonym rgb = "u8 \<times> u8 \<times> u8"

record terminal_default_colors =
  tdc_fg :: "rgb option"
  tdc_bg :: "rgb option"
  tdc_cursor :: "rgb option"

record cell_style =
  cs_fg :: color
  cs_bg :: color
  cs_flags :: cell_flags

definition default_style :: cell_style where
  "default_style = \<lparr>cs_fg = ColorDefault, cs_bg = ColorDefault, cs_flags = CellFlags 0\<rparr>"

datatype underline_style = UnderlineNone | UnderlineSingle | UnderlineDouble | UnderlineCurly | UnderlineDotted | UnderlineDashed

record extended_attrs =
  xa_grapheme :: "rstring option"
  xa_hyperlink :: "rstring option"
  xa_underline_color :: "color option"
  xa_underline_style :: underline_style

definition default_extended :: extended_attrs where
  "default_extended = \<lparr>xa_grapheme = None, xa_hyperlink = None, xa_underline_color = None, xa_underline_style = UnderlineNone\<rparr>"

text \<open>The display width is a \<open>u8\<close> that no operation computes with; it is only compared and summed.\<close>

record cell =
  c_ch :: rchar
  c_width :: nat
  c_style :: cell_style
  c_extended :: "extended_attrs option"

definition cell_empty :: cell where
  "cell_empty = \<lparr>c_ch = 32, c_width = 1, c_style = default_style, c_extended = None\<rparr>"

definition cell_alignment :: cell where
  "cell_alignment = \<lparr>c_ch = 69, c_width = 1, c_style = default_style, c_extended = None\<rparr>"

definition wide_continuation :: cell where
  "wide_continuation = \<lparr>c_ch = 32, c_width = 0, c_style = default_style, c_extended = None\<rparr>"

definition is_wide_continuation :: "cell \<Rightarrow> bool" where
  "is_wide_continuation c \<longleftrightarrow> c_width c = 0"

definition is_wide :: "cell \<Rightarrow> bool" where
  "is_wide c \<longleftrightarrow> c_width c = 2"

definition grapheme :: "cell \<Rightarrow> rstring option" where
  "grapheme c = Option.bind (c_extended c) xa_grapheme"

definition display_text :: "cell \<Rightarrow> rstring" where
  "display_text c = (case grapheme c of Some t \<Rightarrow> t | None \<Rightarrow> [c_ch c])"

definition push_display_text :: "cell \<Rightarrow> rstring \<Rightarrow> rstring" where
  "push_display_text c out = (case grapheme c of Some t \<Rightarrow> out @ t | None \<Rightarrow> out @ [c_ch c])"

definition has_grapheme_payload :: "cell \<Rightarrow> bool" where
  "has_grapheme_payload c \<longleftrightarrow> grapheme c \<noteq> None"

definition prune_default_extended :: "cell \<Rightarrow> cell" where
  "prune_default_extended c = (if c_extended c = Some default_extended then c\<lparr>c_extended := None\<rparr> else c)"

definition set_grapheme_payload :: "cell \<Rightarrow> rstring \<Rightarrow> cell" where
  "set_grapheme_payload c text =
     (if text = [c_ch c]
      then prune_default_extended (c\<lparr>c_extended := map_option (xa_grapheme_update (\<lambda>_. None)) (c_extended c)\<rparr>)
      else let extended = (case c_extended c of Some x \<Rightarrow> x | None \<Rightarrow> default_extended)
           in c\<lparr>c_extended := Some (extended\<lparr>xa_grapheme := Some text\<rparr>)\<rparr>)"

definition append_grapheme_scalar :: "cell \<Rightarrow> rchar \<Rightarrow> bool \<times> cell" where
  "append_grapheme_scalar c ch =
     (case grapheme c of
        Some existing \<Rightarrow>
          if MAX_GRAPHEME_SCALARS \<le> length existing then (False, c)
          else (True, c\<lparr>c_extended := map_option (\<lambda>x. x\<lparr>xa_grapheme := map_option (\<lambda>t. t @ [ch]) (xa_grapheme x)\<rparr>) (c_extended c)\<rparr>)
      | None \<Rightarrow> (True, set_grapheme_payload c [c_ch c, ch]))"

definition cell_reset :: "color \<Rightarrow> cell \<Rightarrow> cell" where
  "cell_reset bg c = \<lparr>c_ch = 32, c_width = 1, c_style = \<lparr>cs_fg = ColorDefault, cs_bg = bg, cs_flags = CellFlags 0\<rparr>, c_extended = None\<rparr>"

section \<open>Lemmas\<close>

lemma cell_reset_simps [simp]:
  "cell_reset ColorDefault c = cell_empty" "cell_reset bg (cell_reset bg' c) = cell_reset bg c"
  "c_ch (cell_reset bg c) = 32" "c_width (cell_reset bg c) = 1"
  by (simp_all add: cell_reset_def cell_empty_def default_style_def)

lemma cell_width_simps [simp]:
  "\<not> is_wide (cell_reset bg c)" "\<not> is_wide_continuation (cell_reset bg c)"
  "\<not> is_wide cell_empty" "\<not> is_wide_continuation cell_empty"
  "\<not> is_wide cell_alignment" "\<not> is_wide_continuation cell_alignment"
  "\<not> is_wide wide_continuation" "is_wide_continuation wide_continuation"
  "c_ch cell_empty = 32" "c_width cell_empty = 1" "c_ch wide_continuation = 32" "c_width wide_continuation = 0"
  by (simp_all add: cell_reset_def cell_empty_def cell_alignment_def wide_continuation_def is_wide_def is_wide_continuation_def)

lemma not_wide_and_continuation [simp]: "is_wide c \<Longrightarrow> \<not> is_wide_continuation c"
  by (simp add: is_wide_def is_wide_continuation_def)

lemma push_display_text_appends: "push_display_text c out = out @ display_text c"
  by (simp add: push_display_text_def display_text_def split: option.splits)

lemma grapheme_set_payload: "grapheme (set_grapheme_payload c text) = (if text = [c_ch c] then None else Some text)"
  by (cases "c_extended c") (auto simp: set_grapheme_payload_def prune_default_extended_def grapheme_def Let_def)

lemma display_set_payload: "display_text (set_grapheme_payload c text) = text"
proof -
  have "c_ch (set_grapheme_payload c text) = c_ch c"
    by (simp add: set_grapheme_payload_def prune_default_extended_def Let_def)
  then show ?thesis by (auto simp: display_text_def grapheme_set_payload)
qed

lemma append_scalar_full: "fst (append_grapheme_scalar c ch) \<longleftrightarrow> length (display_text c) < 32 \<or> grapheme c = None"
  by (auto simp: append_grapheme_scalar_def display_text_def MAX_GRAPHEME_SCALARS_def split: option.splits)

lemma append_scalar_text:
  "display_text (snd (append_grapheme_scalar c ch)) = display_text c @ (if fst (append_grapheme_scalar c ch) then [ch] else [])"
proof (cases "grapheme c")
  case None
  then show ?thesis by (simp add: append_grapheme_scalar_def display_set_payload) (simp add: display_text_def)
next
  case (Some t)
  then obtain x where "c_extended c = Some x" "xa_grapheme x = Some t" by (auto simp: grapheme_def split: bind_splits)
  then show ?thesis by (simp add: append_grapheme_scalar_def grapheme_def display_text_def)
qed

text \<open>A flag is independent of the others, and pruned storage shows the same text.\<close>

lemma flag_set_unset:
  "flag = 2 ^ n \<Longrightarrow> flags_unset (flags_set f flag) flag = flags_unset f flag"
  "flag AND other = 0 \<Longrightarrow> flags_contain (flags_set f flag) other = flags_contain f other"
  "flags_set (flags_unset f flag) flag = flags_set f flag"
  by (auto simp: flags_set_def flags_unset_def flags_contain_def bit_eq_iff bit_simps)

lemma prune_keeps_text [simp]: "display_text (prune_default_extended c) = display_text c"
  by (simp add: prune_default_extended_def display_text_def grapheme_def default_extended_def split: option.splits)

end
