(* ===== verification/Vt_Row.thy ===== *)
theory Vt_Row
  imports Vt_Cell
begin

text \<open>
  Rows of the terminal grid, the first part of \<^verbatim>\<open>shux-vt/src/grid.rs\<close>.  A wide character fills two
  cells, a head of width 2 and a continuation of width 0 behind it; \<open>row_ok\<close> says that neither half
  stands alone.  Every editing operation keeps it, whichever columns it cuts through.
\<close>

section \<open>Rows\<close>

record row =
  r_cells :: "cell list"
  r_wrapped :: bool

definition row_new :: "usize \<Rightarrow> row" where
  "row_new cols = \<lparr>r_cells = replicate cols cell_empty, r_wrapped = False\<rparr>"

definition row_len :: "row \<Rightarrow> usize" where
  "row_len r = length (r_cells r)"

definition row_is_empty :: "row \<Rightarrow> bool" where
  "row_is_empty r \<longleftrightarrow> r_cells r = []"

definition row_get :: "row \<Rightarrow> usize \<Rightarrow> cell option" where
  "row_get r col = (if col < length (r_cells r) then Some (r_cells r ! col) else None)"

text \<open>\<open>Vec::resize\<close>.\<close>

definition vec_resize :: "usize \<Rightarrow> 'a \<Rightarrow> 'a list \<Rightarrow> 'a list" where
  "vec_resize n x xs = take n xs @ replicate (n - length xs) x"

definition row_resize :: "usize \<Rightarrow> cell \<Rightarrow> row \<Rightarrow> row" where
  "row_resize cols template r = r\<lparr>r_cells := vec_resize cols template (r_cells r)\<rparr>"

definition row_reset_blank :: "usize \<Rightarrow> row \<Rightarrow> row" where
  "row_reset_blank cols r = r\<lparr>r_cells := vec_resize cols cell_empty [], r_wrapped := False\<rparr>"

definition row_reset :: "color \<Rightarrow> row \<Rightarrow> row" where
  "row_reset bg r = r\<lparr>r_cells := map (cell_reset bg) (r_cells r), r_wrapped := False\<rparr>"

definition row_fill_alignment :: "row \<Rightarrow> row" where
  "row_fill_alignment r = r\<lparr>r_cells := map (\<lambda>_. cell_alignment) (r_cells r), r_wrapped := False\<rparr>"

definition reset_at :: "color \<Rightarrow> usize \<Rightarrow> cell list \<Rightarrow> cell list" where
  "reset_at bg i cells = cells[i := cell_reset bg (cells ! i)]"

definition clear_wide_pair_around :: "usize \<Rightarrow> color \<Rightarrow> row \<Rightarrow> row" where
  "clear_wide_pair_around col bg r =
     (let cells = r_cells r
      in if length cells \<le> col then r
         else if is_wide_continuation (cells ! col) then
           (let cells' = reset_at bg col cells
            in r\<lparr>r_cells := if 0 < col \<and> is_wide (cells' ! (col - 1)) then reset_at bg (col - 1) cells' else cells'\<rparr>)
         else if is_wide (cells ! col) then
           (let cells' = reset_at bg col cells
            in r\<lparr>r_cells := if col + 1 < length cells' \<and> is_wide_continuation (cells' ! (col + 1))
                           then reset_at bg (col + 1) cells' else cells'\<rparr>)
         else r)"

definition sanitize_at :: "color \<Rightarrow> cell list \<Rightarrow> usize \<Rightarrow> cell list" where
  "sanitize_at bg cells col =
     (if is_wide (cells ! col) then
        (let has_tail = col + 1 < length cells \<and> is_wide_continuation (cells ! (col + 1)) \<and> c_ch (cells ! (col + 1)) = 32
         in if \<not> has_tail then reset_at bg col cells else cells)
      else if is_wide_continuation (cells ! col) then
        (let has_head = 0 < col \<and> is_wide (cells ! (col - 1))
         in if \<not> has_head \<or> c_ch (cells ! col) \<noteq> 32 then reset_at bg col cells else cells)
      else cells)"

definition sanitize_cells :: "color \<Rightarrow> cell list \<Rightarrow> cell list" where
  "sanitize_cells bg cells = foldl (sanitize_at bg) cells [0..<length cells]"

definition sanitize_wide_pairs :: "color \<Rightarrow> row \<Rightarrow> row" where
  "sanitize_wide_pairs bg r = r\<lparr>r_cells := sanitize_cells bg (r_cells r)\<rparr>"

text \<open>The loop \<open>for cell in &mut cells[start..end]\<close> of several operations.\<close>

definition map_range :: "(cell \<Rightarrow> cell) \<Rightarrow> usize \<Rightarrow> usize \<Rightarrow> cell list \<Rightarrow> cell list" where
  "map_range f a b cells = take a cells @ map f (take (b - a) (drop a cells)) @ drop (max a b) cells"

definition erase_chars_expanding_wide_pairs ::
  "usize \<Rightarrow> usize \<Rightarrow> color \<Rightarrow> row \<Rightarrow> (usize \<times> usize) option \<times> row" where
  "erase_chars_expanding_wide_pairs col count bg r =
     (let cells = r_cells r; len = length cells;
          start = min col len; stop = min (sat_add_usize col count) len
      in if stop \<le> start then (None, r)
         else
           let start' = (if 0 < start \<and> is_wide_continuation (cells ! start) \<and> is_wide (cells ! (start - 1))
                         then start - 1 else start);
               stop' = (if stop < len \<and> 0 < stop \<and> is_wide (cells ! (stop - 1)) \<and> is_wide_continuation (cells ! stop)
                        then stop + 1 else stop)
           in (Some (start', stop'), r\<lparr>r_cells := map_range (cell_reset bg) start' stop' cells\<rparr>))"

definition row_is_blank :: "row \<Rightarrow> bool" where
  "row_is_blank r \<longleftrightarrow> list_all (\<lambda>c. c_ch c = 32 \<and> c_style c = default_style) (r_cells r)"

text \<open>The row edits of \<open>Grid::insert_chars\<close> and \<open>Grid::delete_chars\<close>, loops included.\<close>

definition shift_right :: "usize \<Rightarrow> usize \<Rightarrow> cell list \<Rightarrow> cell list" where
  "shift_right col count cells =
     foldl (\<lambda>cs i. if i + count < length cells then cs[i + count := cs ! i] else cs) cells (rev [col..<length cells])"

definition row_insert_chars :: "usize \<Rightarrow> usize \<Rightarrow> row \<Rightarrow> row" where
  "row_insert_chars col count r =
     (let len = row_len r;
          r = (if col < len then clear_wide_pair_around col ColorDefault r else r);
          cells = shift_right col count (r_cells r);
          cells = map_range (\<lambda>_. cell_empty) col (min (col + count) len) cells
      in sanitize_wide_pairs ColorDefault (r\<lparr>r_cells := cells\<rparr>))"

definition shift_left :: "usize \<Rightarrow> usize \<Rightarrow> cell list \<Rightarrow> cell list" where
  "shift_left col actual cells =
     foldl (\<lambda>cs i. cs[i := cs ! (i + actual)]) cells [col..<length cells - actual]"

definition row_delete_chars :: "usize \<Rightarrow> usize \<Rightarrow> row \<Rightarrow> row" where
  "row_delete_chars col actual r =
     (let len = row_len r;
          cells = shift_left col actual (r_cells r);
          cells = map_range (\<lambda>_. cell_empty) (len - actual) len cells
      in sanitize_wide_pairs ColorDefault (r\<lparr>r_cells := cells\<rparr>))"

section \<open>Wide pairs\<close>

definition head_ok :: "cell list \<Rightarrow> usize \<Rightarrow> bool" where
  "head_ok cells i \<longleftrightarrow> \<not> is_wide (cells ! i) \<or>
     i + 1 < length cells \<and> is_wide_continuation (cells ! (i + 1)) \<and> c_ch (cells ! (i + 1)) = 32"

definition tail_ok :: "cell list \<Rightarrow> usize \<Rightarrow> bool" where
  "tail_ok cells i \<longleftrightarrow> \<not> is_wide_continuation (cells ! i) \<or> 0 < i \<and> is_wide (cells ! (i - 1)) \<and> c_ch (cells ! i) = 32"

definition paired :: "cell list \<Rightarrow> bool" where
  "paired cells \<longleftrightarrow> (\<forall>i < length cells. head_ok cells i \<and> tail_ok cells i)"

definition row_ok :: "usize \<Rightarrow> row \<Rightarrow> bool" where
  "row_ok cols r \<longleftrightarrow> length (r_cells r) = cols \<and> paired (r_cells r)"

lemma pairedD:
  "paired cells \<Longrightarrow> i < length cells \<Longrightarrow> is_wide (cells ! i) \<Longrightarrow>
    i + 1 < length cells \<and> is_wide_continuation (cells ! (i + 1)) \<and> c_ch (cells ! (i + 1)) = 32"
  "paired cells \<Longrightarrow> i < length cells \<Longrightarrow> is_wide_continuation (cells ! i) \<Longrightarrow>
    0 < i \<and> is_wide (cells ! (i - 1)) \<and> c_ch (cells ! i) = 32"
  by (auto simp: paired_def head_ok_def tail_ok_def)

lemma sanitize_at_simps [simp]:
  "length (sanitize_at bg cells i) = length cells"
  "j \<noteq> i \<Longrightarrow> sanitize_at bg cells i ! j = cells ! j"
  by (auto simp: sanitize_at_def reset_at_def Let_def)

text \<open>
  One pass from left to right decides every cell by the original row: a half that stands alone
  becomes a blank, everything else stays.  Looking at a head that an earlier step may have blanked
  makes no difference, because that step saw the same missing tail.
\<close>

abbreviation in_order :: "cell list \<Rightarrow> usize \<Rightarrow> bool" where
  "in_order cells i \<equiv> head_ok cells i \<and> tail_ok cells i"

definition sanitized_upto :: "color \<Rightarrow> nat \<Rightarrow> cell list \<Rightarrow> cell list" where
  "sanitized_upto bg k cells =
     map (\<lambda>i. if i < k \<and> \<not> in_order cells i then cell_reset bg (cells ! i) else cells ! i) [0..<length cells]"

lemma sanitized_upto_step:
  assumes "k < length cells"
  shows "sanitize_at bg (sanitized_upto bg k cells) k = sanitized_upto bg (Suc k) cells"
proof -
  let ?cs = "sanitized_upto bg k cells"
  have nth: "?cs ! i = (if i < k \<and> \<not> in_order cells i then cell_reset bg (cells ! i) else cells ! i)" if "i < length cells" for i
    using that by (auto simp: sanitized_upto_def)
  have len: "length ?cs = length cells" by (simp add: sanitized_upto_def)
  have self: "?cs[k := cells ! k] = ?cs" using nth [OF assms] list_update_id [of ?cs k] by simp
  have head: "is_wide (?cs ! (k - 1)) \<longleftrightarrow> is_wide (cells ! (k - 1)) \<and> head_ok cells (k - 1)" if "0 < k"
    using that assms by (auto simp: nth tail_ok_def)
  have "sanitize_at bg ?cs k = ?cs[k := if in_order cells k then cells ! k else cell_reset bg (cells ! k)]"
  proof (cases "is_wide (cells ! k)")
    case True
    then have t: "tail_ok cells k" by (simp add: tail_ok_def)
    have "k + 1 < length cells \<Longrightarrow> ?cs ! (k + 1) = cells ! (k + 1)" by (simp add: nth)
    then show ?thesis using True t nth [OF assms] self by (auto simp: sanitize_at_def reset_at_def Let_def head_ok_def len)
  next
    case False
    then have h: "head_ok cells k" by (simp add: head_ok_def)
    show ?thesis
    proof (cases "is_wide_continuation (cells ! k)")
      case True
      then have "0 < k \<Longrightarrow> is_wide (?cs ! (k - 1)) \<and> c_ch (cells ! k) = 32 \<longleftrightarrow> is_wide (cells ! (k - 1)) \<and> c_ch (cells ! k) = 32"
        using head assms by (auto simp: head_ok_def)
      then show ?thesis using False True h nth [OF assms] self by (auto simp: sanitize_at_def reset_at_def Let_def tail_ok_def)
    next
      case plain: False
      then show ?thesis using False h nth [OF assms] self by (simp add: sanitize_at_def tail_ok_def)
    qed
  qed
  also have "\<dots> = sanitized_upto bg (Suc k) cells"
    using assms by (intro nth_equalityI) (auto simp: len nth nth_list_update sanitized_upto_def less_Suc_eq)
  finally show ?thesis .
qed

lemma sanitize_eq:
  "sanitize_cells bg cells =
     map (\<lambda>i. if in_order cells i then cells ! i else cell_reset bg (cells ! i)) [0..<length cells]"
proof -
  have "k \<le> length cells \<Longrightarrow> foldl (sanitize_at bg) cells [0..<k] = sanitized_upto bg k cells" for k
  proof (induction k)
    case 0
    then show ?case by (simp add: sanitized_upto_def map_nth)
  qed (simp add: sanitized_upto_step)
  then show ?thesis by (auto simp: sanitize_cells_def sanitized_upto_def)
qed

lemma length_sanitize [simp]: "length (sanitize_cells bg cells) = length cells"
  by (simp add: sanitize_eq)

lemma sanitize_nth: "i < length cells \<Longrightarrow>
    sanitize_cells bg cells ! i = (if in_order cells i then cells ! i else cell_reset bg (cells ! i))"
  by (simp add: sanitize_eq)

lemma sanitize_paired: "paired (sanitize_cells bg cells)"
  unfolding paired_def
proof (intro allI impI)
  fix i assume "i < length (sanitize_cells bg cells)"
  then have i: "i < length cells" by simp
  have "head_ok (sanitize_cells bg cells) i"
    using i by (cases "i + 1 < length cells") (auto simp: head_ok_def sanitize_nth tail_ok_def)
  moreover have "tail_ok (sanitize_cells bg cells) i"
    using i by (cases i) (auto simp: tail_ok_def sanitize_nth head_ok_def)
  ultimately show "head_ok (sanitize_cells bg cells) i \<and> tail_ok (sanitize_cells bg cells) i" ..
qed

lemma sanitize_cells_id: "paired cells \<Longrightarrow> sanitize_cells bg cells = cells"
  by (rule nth_equalityI) (auto simp: sanitize_nth paired_def)

section \<open>Edits\<close>

lemma vec_resize_simps [simp]:
  "length (vec_resize n x xs) = n"
  "i < n \<Longrightarrow> vec_resize n x xs ! i = (if i < length xs then xs ! i else x)"
  by (auto simp: vec_resize_def nth_append)

lemma length_map_range [simp]: "length (map_range f a b cells) = length cells"
  by (simp add: map_range_def)

lemma map_range_nth: "i < length cells \<Longrightarrow> map_range f a b cells ! i = (if a \<le> i \<and> i < b then f (cells ! i) else cells ! i)"
  by (auto simp: map_range_def nth_append min_def max_def)

lemma length_foldl_update: "length (foldl (\<lambda>cs i. if P i then cs[t i := g cs i] else cs) cells is) = length cells"
  by (induction "is" arbitrary: cells) auto

lemma shift_right_upto:
  assumes "col \<le> k" "k \<le> length cells"
  shows "length (foldl (\<lambda>cs i. if i + count < length cells then cs[i + count := cs ! i] else cs) cells (rev [k..<length cells])) = length cells \<and>
    (\<forall>j < length cells. foldl (\<lambda>cs i. if i + count < length cells then cs[i + count := cs ! i] else cs) cells (rev [k..<length cells]) ! j =
      (if k + count \<le> j then cells ! (j - count) else cells ! j))"
  using assms(2)
proof (induction "length cells - k" arbitrary: k)
  case (Suc n)
  then have k: "k < length cells" "n = length cells - Suc k" "Suc k \<le> length cells" by auto
  show ?case using Suc.hyps(1) [OF k(2,3)] k(1)
    by (auto simp: upt_rec [of k] nth_list_update not_less_eq_eq le_Suc_eq)
qed auto

lemma shift_right_simps [simp]:
  "length (shift_right col count cells) = length cells"
  "j < length cells \<Longrightarrow> shift_right col count cells ! j = (if col + count \<le> j then cells ! (j - count) else cells ! j)"
proof -
  have "length (shift_right col count cells) = length cells \<and>
    (\<forall>j < length cells. shift_right col count cells ! j = (if col + count \<le> j then cells ! (j - count) else cells ! j))"
  proof (cases "col \<le> length cells")
    case True
    then show ?thesis using shift_right_upto [of col col cells count] by (simp add: shift_right_def)
  qed (simp add: shift_right_def)
  then show "length (shift_right col count cells) = length cells"
    "j < length cells \<Longrightarrow> shift_right col count cells ! j = (if col + count \<le> j then cells ! (j - count) else cells ! j)" by auto
qed

lemma shift_left_upto:
  assumes "k + actual \<le> length cells" "0 < actual"
  shows "length (foldl (\<lambda>cs i. cs[i := cs ! (i + actual)]) cells [col..<k]) = length cells \<and>
    (\<forall>j < length cells. foldl (\<lambda>cs i. cs[i := cs ! (i + actual)]) cells [col..<k] ! j =
      (if col \<le> j \<and> j < k then cells ! (j + actual) else cells ! j))"
  using assms(1)
proof (induction k)
  case (Suc k)
  then show ?case using assms(2) by (cases "col \<le> k") (auto simp: nth_list_update less_Suc_eq)
qed simp

lemma shift_left_simps [simp]:
  assumes "0 < actual"
  shows "length (shift_left col actual cells) = length cells"
    "j < length cells \<Longrightarrow> shift_left col actual cells ! j =
       (if col \<le> j \<and> j < length cells - actual then cells ! (j + actual) else cells ! j)"
proof -
  have "length (shift_left col actual cells) = length cells \<and> (\<forall>j < length cells. shift_left col actual cells ! j =
       (if col \<le> j \<and> j < length cells - actual then cells ! (j + actual) else cells ! j))"
    using shift_left_upto [of "length cells - actual" actual cells col] assms
    by (cases "actual \<le> length cells") (simp_all add: shift_left_def)
  then show "length (shift_left col actual cells) = length cells"
    "j < length cells \<Longrightarrow> shift_left col actual cells ! j =
       (if col \<le> j \<and> j < length cells - actual then cells ! (j + actual) else cells ! j)" by auto
qed

lemma length_clear_pair [simp]: "length (r_cells (clear_wide_pair_around col bg r)) = length (r_cells r)"
  by (simp add: clear_wide_pair_around_def reset_at_def Let_def)

lemma r_cells_simps [simp]:
  "r_cells (row_new n) = replicate n cell_empty" "r_cells (row_reset bg r) = map (cell_reset bg) (r_cells r)"
  "r_cells (row_reset_blank n r) = replicate n cell_empty"
  "r_cells (row_resize n c r) = vec_resize n c (r_cells r)" "r_cells (sanitize_wide_pairs bg r) = sanitize_cells bg (r_cells r)"
  by (simp_all add: row_new_def row_reset_def row_reset_blank_def row_resize_def sanitize_wide_pairs_def vec_resize_def)

text \<open>Blanking reuses a row but gives the same row as a new one.\<close>

lemma reset_is_new: "row_len r = cols \<Longrightarrow> row_reset ColorDefault r = row_new cols"
proof -
  have "map (cell_reset ColorDefault) cells = replicate (length cells) cell_empty" for cells by (induction cells) auto
  then show "row_len r = cols \<Longrightarrow> ?thesis" by (cases r) (auto simp: row_reset_def row_new_def row_len_def)
qed

lemma reset_blank_is_new: "row_reset_blank cols r = row_new cols"
  by (cases r) (auto simp: row_reset_blank_def row_new_def vec_resize_def)

lemma paired_plain: "\<forall>c \<in> set cells. \<not> is_wide c \<and> \<not> is_wide_continuation c \<Longrightarrow> paired cells"
  by (simp add: paired_def head_ok_def tail_ok_def)

lemma row_ok_new [simp]: "row_ok cols (row_new cols)"
  by (auto simp: row_ok_def intro!: paired_plain)

lemma row_ok_reset: "length (r_cells r) = cols \<Longrightarrow> row_ok cols (row_reset bg r)"
  by (auto simp: row_ok_def intro!: paired_plain)

lemma row_ok_alignment: "length (r_cells r) = cols \<Longrightarrow> row_ok cols (row_fill_alignment r)"
  by (auto simp: row_ok_def row_fill_alignment_def intro!: paired_plain)

lemma row_ok_sanitize: "length (r_cells r) = cols \<Longrightarrow> row_ok cols (sanitize_wide_pairs bg r)"
  by (simp add: row_ok_def sanitize_paired)

text \<open>Clearing around a column removes the pair it is part of, and leaves the rest.\<close>

lemma clear_pair_nth:
  assumes "paired (r_cells r)" "i < length (r_cells r)" "col < length (r_cells r)"
  shows "r_cells (clear_wide_pair_around col bg r) ! i =
    (if i = col \<and> (is_wide (r_cells r ! col) \<or> is_wide_continuation (r_cells r ! col)) \<or>
        i + 1 = col \<and> is_wide_continuation (r_cells r ! col) \<or> i = col + 1 \<and> is_wide (r_cells r ! col)
     then cell_reset bg (r_cells r ! i) else r_cells r ! i)"
proof -
  have "is_wide_continuation (r_cells r ! col) \<Longrightarrow> 0 < col \<and> is_wide (r_cells r ! (col - 1))"
    "is_wide (r_cells r ! col) \<Longrightarrow> col + 1 < length (r_cells r) \<and> is_wide_continuation (r_cells r ! (col + 1))"
    using pairedD [OF assms(1,3)] by auto
  then show ?thesis using assms(2,3)
    by (cases "is_wide_continuation (r_cells r ! col)"; cases "is_wide (r_cells r ! col)")
      (auto simp: clear_wide_pair_around_def reset_at_def Let_def nth_list_update not_le)
qed

lemma clear_pair_paired:
  assumes "paired (r_cells r)" "col < length (r_cells r)"
  shows "paired (r_cells (clear_wide_pair_around col bg r))"
  unfolding paired_def
proof (intro allI impI)
  fix i assume "i < length (r_cells (clear_wide_pair_around col bg r))"
  then have i: "i < length (r_cells r)" by simp
  note n = clear_pair_nth [OF assms(1) _ assms(2)]
  show "head_ok (r_cells (clear_wide_pair_around col bg r)) i \<and> tail_ok (r_cells (clear_wide_pair_around col bg r)) i"
    using pairedD [OF assms(1) i] pairedD [OF assms] i
    by (cases i) (auto simp: head_ok_def tail_ok_def n split: if_splits)
qed

text \<open>
  A range cuts no pair when no head stands just before either end.  Blanking such a range keeps the
  pairs, and that is what erasing expands its range to.
\<close>

lemma map_range_paired:
  assumes p: "paired cells" and "0 < a \<Longrightarrow> a < length cells \<Longrightarrow> \<not> is_wide (cells ! (a - 1))"
    and "0 < b \<Longrightarrow> b < length cells \<Longrightarrow> \<not> is_wide (cells ! (b - 1))"
  shows "paired (map_range (cell_reset bg) a b cells)"
  unfolding paired_def
proof (intro allI impI)
  fix i assume "i < length (map_range (cell_reset bg) a b cells)"
  then have i: "i < length cells" by simp
  have h: "i + 1 \<noteq> a" "i + 1 \<noteq> b" if "is_wide (cells ! i)" using assms(2,3) pairedD(1) [OF p i that] that by auto
  have t: "i \<noteq> a" "i \<noteq> b" "0 < i" if "is_wide_continuation (cells ! i)" using assms(2,3) pairedD(2) [OF p i that] i by auto
  have "head_ok (map_range (cell_reset bg) a b cells) i"
    using pairedD(1) [OF p i] h i by (auto simp: head_ok_def map_range_nth)
  moreover have "tail_ok (map_range (cell_reset bg) a b cells) i"
    using pairedD(2) [OF p i] t i by (cases i) (auto simp: tail_ok_def map_range_nth)
  ultimately show "in_order (map_range (cell_reset bg) a b cells) i" ..
qed

lemma erase_spec:
  assumes "erase_chars_expanding_wide_pairs col count bg r = (d, r')"
  shows "d = None \<Longrightarrow> r' = r"
    and "d = Some (a, b) \<Longrightarrow> a \<le> col \<and> a < b \<and> b \<le> length (r_cells r) \<and> min (sat_add_usize col count) (length (r_cells r)) \<le> b \<and>
      r' = r\<lparr>r_cells := map_range (cell_reset bg) a b (r_cells r)\<rparr>"
  using assms by (auto simp: erase_chars_expanding_wide_pairs_def Let_def split: if_splits)

lemma erase_bounds:
  assumes p: "paired (r_cells r)" and e: "erase_chars_expanding_wide_pairs col count bg r = (Some (a, b), r')"
  shows "(0 < a \<longrightarrow> \<not> is_wide (r_cells r ! (a - 1))) \<and> (0 < b \<and> b < length (r_cells r) \<longrightarrow> \<not> is_wide (r_cells r ! (b - 1)))"
proof -
  let ?c = "r_cells r"
  define start stop where "start = min col (length ?c)" and "stop = min (sat_add_usize col count) (length ?c)"
  define A B where "A = (if 0 < start \<and> is_wide_continuation (?c ! start) \<and> is_wide (?c ! (start - 1)) then start - 1 else start)"
    and "B = (if stop < length ?c \<and> 0 < stop \<and> is_wide (?c ! (stop - 1)) \<and> is_wide_continuation (?c ! stop) then stop + 1 else stop)"
  have e': "erase_chars_expanding_wide_pairs col count bg r =
      (if stop \<le> start then (None, r) else (Some (A, B), r\<lparr>r_cells := map_range (cell_reset bg) A B ?c\<rparr>))"
    by (simp only: erase_chars_expanding_wide_pairs_def Let_def start_def stop_def A_def B_def)
  have stop: "stop \<le> length ?c" by (simp add: stop_def)
  have lt: "start < stop" using e e' by (cases "stop \<le> start") auto
  have a: "a = A" and b: "b = B" using e e' lt by auto
  have alone: "is_wide_continuation (?c ! i)" if "0 < i" "is_wide (?c ! (i - 1))" "i \<le> length ?c" for i
    using that pairedD(1) [OF p, of "i - 1"] by simp
  have 1: "\<not> is_wide (?c ! (a - 1))" if "0 < a"
    using that a alone [of a] lt stop less_imp_diff_less [of start "length ?c" 1] not_wide_and_continuation [of "?c ! a"] unfolding A_def by (auto split: if_splits)
  have "\<not> is_wide (?c ! stop)" if "is_wide_continuation (?c ! stop)" using that not_wide_and_continuation by blast
  then have "\<not> is_wide (?c ! (b - 1))" if "0 < b" "b < length ?c"
    using that b alone [of stop] stop unfolding B_def by (auto split: if_splits)
  with 1 show ?thesis by blast
qed

lemma erase_row_ok:
  assumes "row_ok cols r"
  shows "row_ok cols (snd (erase_chars_expanding_wide_pairs col count bg r))"
proof (cases "erase_chars_expanding_wide_pairs col count bg r")
  case (Pair d r')
  let ?cells = "r_cells r"
  have p: "paired ?cells" and len: "length ?cells = cols" using assms by (auto simp: row_ok_def)
  show ?thesis
  proof (cases d)
    case None
    then show ?thesis using Pair assms erase_spec(1) [OF Pair] by simp
  next
    case (Some ab)
    then obtain a b where ab: "d = Some (a, b)" by (cases ab) auto
    have "0 < a \<Longrightarrow> \<not> is_wide (?cells ! (a - 1))" "0 < b \<Longrightarrow> b < length ?cells \<Longrightarrow> \<not> is_wide (?cells ! (b - 1))"
      using erase_bounds [OF p Pair [unfolded ab]] by auto
    then have "paired (map_range (cell_reset bg) a b ?cells)" using map_range_paired [OF p] by blast
    then show ?thesis using erase_spec(2) [OF Pair ab] Pair len by (simp add: row_ok_def)
  qed
qed

lemma row_insert_ok: "length (r_cells r) = cols \<Longrightarrow> row_ok cols (row_insert_chars col count r)"
  by (simp add: row_insert_chars_def Let_def row_ok_def sanitize_paired)

lemma row_delete_ok: "length (r_cells r) = cols \<Longrightarrow> 0 < actual \<Longrightarrow> row_ok cols (row_delete_chars col actual r)"
  by (simp add: row_delete_chars_def Let_def row_ok_def sanitize_paired)

text \<open>Insertion and deletion leave everything left of the column alone, but for a head cut off there.\<close>

lemma insert_left_of:
  assumes "paired (r_cells r)" "i + 1 < col" "i < length (r_cells r)"
  shows "r_cells (row_insert_chars col count r) ! i = r_cells r ! i"
proof -
  let ?cells = "r_cells r" and ?c = "r_cells (if col < row_len r then clear_wide_pair_around col ColorDefault r else r)"
  let ?m = "map_range (\<lambda>_. cell_empty) col (min (col + count) (length ?cells)) (shift_right col count ?c)"
  have len: "length ?c = length ?cells" by simp
  have c: "?c ! j = ?cells ! j" if "j < length ?cells" "j + 1 < col" for j
    using that clear_pair_nth [OF assms(1) that(1)] by (auto simp: row_len_def)
  have m: "?m ! j = ?c ! j" if "j < length ?cells" "j < col" for j using that len by (simp add: map_range_nth del: if_splits)
  have next_tail: "is_wide_continuation (?c ! (i + 1)) \<and> c_ch (?c ! (i + 1)) = 32" "i + 1 < length ?cells" if "is_wide (?cells ! i)"
    using that pairedD(1) [OF assms(1,3)] clear_pair_nth [OF assms(1), of "i + 1" col ColorDefault] pairedD [OF assms(1), of col] assms(2)
    by (auto simp: row_len_def split: if_splits)
  have "in_order ?m i"
  proof -
    have "head_ok ?m i" using next_tail assms(2,3) by (auto simp: head_ok_def m c len)
    moreover have "tail_ok ?m i" using pairedD(2) [OF assms(1,3)] assms(2,3) by (cases i) (auto simp: tail_ok_def m c)
    ultimately show ?thesis ..
  qed
  then show ?thesis using assms(2,3) m c
    by (simp add: row_insert_chars_def Let_def row_len_def sanitize_nth)
qed

lemma delete_left_of:
  assumes "paired (r_cells r)" "i + 1 < col" "0 < actual" "col + actual \<le> length (r_cells r)"
  shows "r_cells (row_delete_chars col actual r) ! i = r_cells r ! i"
proof -
  let ?cells = "r_cells r"
  let ?m = "map_range (\<lambda>_. cell_empty) (length ?cells - actual) (length ?cells) (shift_left col actual ?cells)"
  have i: "i < length ?cells" "i + 1 < length ?cells" using assms(2-) by auto
  have m: "?m ! j = ?cells ! j" if "j < col" for j using that assms(3,4) by (simp add: map_range_nth)
  have "in_order ?m i" using pairedD [OF assms(1) i(1)] assms(2,3) i
    by (cases i) (auto simp: head_ok_def tail_ok_def m)
  then show ?thesis using assms(2,3) i m by (simp add: row_delete_chars_def Let_def row_len_def sanitize_nth)
qed

end
