(* ===== verification/Vt_Dirty.thy ===== *)
theory Vt_Dirty
  imports Prelude
begin

text \<open>
  Damage tracking of the terminal grid, \<open>DirtyState\<close> in \<^verbatim>\<open>shux-vt/src/grid.rs\<close>: which cells of the
  viewport a renderer has not drawn yet, kept as one column range per row with shortcuts for whole
  rows and whole frames.  \<open>damage\<close> is what the representation stands for, a set of cells; each
  operation is shown to do on it what its name says.
\<close>

section \<open>State and operations\<close>

record dirty_region =
  dr_row :: usize
  dr_cols :: "usize \<times> usize"

record dirty_state =
  ds_enabled :: bool
  ds_full_frame :: bool
  ds_any_dirty :: bool
  ds_last_full_row :: "usize option"
  ds_full_rows :: "bool list"
  ds_rows :: "(usize \<times> usize) option list"

definition dirty_new :: "usize \<Rightarrow> bool \<Rightarrow> dirty_state" where
  "dirty_new rows enabled =
     \<lparr>ds_enabled = enabled, ds_full_frame = False, ds_any_dirty = False, ds_last_full_row = None,
      ds_full_rows = replicate rows False, ds_rows = replicate rows None\<rparr>"

definition dirty_is_dirty :: "dirty_state \<Rightarrow> bool" where
  "dirty_is_dirty d \<longleftrightarrow> ds_enabled d \<and> ds_any_dirty d"

definition resize_rows :: "usize \<Rightarrow> dirty_state \<Rightarrow> dirty_state" where
  "resize_rows rows d =
     d\<lparr>ds_full_rows := take rows (ds_full_rows d) @ replicate (rows - length (ds_full_rows d)) False,
       ds_rows := take rows (ds_rows d) @ replicate (rows - length (ds_rows d)) None\<rparr>"

definition dirty_reset :: "usize \<Rightarrow> bool \<Rightarrow> dirty_state \<Rightarrow> dirty_state" where
  "dirty_reset rows enabled d =
     d\<lparr>ds_enabled := enabled, ds_full_frame := False, ds_any_dirty := False, ds_last_full_row := None,
       ds_full_rows := replicate rows False, ds_rows := replicate rows None\<rparr>"

definition mark_all :: "dirty_state \<Rightarrow> dirty_state" where
  "mark_all d = (if \<not> ds_enabled d then d
     else d\<lparr>ds_last_full_row := None, ds_full_frame := True, ds_any_dirty := True\<rparr>)"

definition row_is_fully_dirty :: "dirty_state \<Rightarrow> usize \<Rightarrow> bool" where
  "row_is_fully_dirty d row \<longleftrightarrow> row < length (ds_rows d) \<and> row < length (ds_full_rows d) \<and> ds_full_rows d ! row"

definition mark_row :: "usize \<Rightarrow> usize \<Rightarrow> usize \<Rightarrow> dirty_state \<Rightarrow> dirty_state" where
  "mark_row row rows cols d =
     (if \<not> ds_enabled d \<or> ds_full_frame d \<or> rows \<le> row \<or> cols = 0 then d
      else if ds_last_full_row d = Some row then d
      else if row_is_fully_dirty d row then d\<lparr>ds_last_full_row := Some row\<rparr>
      else d\<lparr>ds_any_dirty := True, ds_full_rows := (ds_full_rows d)[row := True], ds_last_full_row := Some row,
             ds_rows := (ds_rows d)[row := Some (0, cols)]\<rparr>)"

definition mark_rows :: "usize \<Rightarrow> usize \<Rightarrow> usize \<Rightarrow> usize \<Rightarrow> dirty_state \<Rightarrow> dirty_state" where
  "mark_rows start stop rows cols d =
     (if \<not> ds_enabled d \<or> ds_full_frame d then d
      else fold (\<lambda>row. mark_row row rows cols) [min start rows..<min stop rows] d)"

definition mark_range :: "usize \<Rightarrow> usize \<times> usize \<Rightarrow> usize \<Rightarrow> usize \<Rightarrow> dirty_state \<Rightarrow> dirty_state" where
  "mark_range row rng rows cols d =
     (if \<not> ds_enabled d \<or> ds_full_frame d \<or> row_is_fully_dirty d row then d
      else
        let d = d\<lparr>ds_last_full_row := None\<rparr>;
            start = min (fst rng) cols; stop = min (snd rng) cols
        in if rows \<le> row \<or> cols = 0 \<or> stop \<le> start then d
           else
             let d = d\<lparr>ds_any_dirty := True\<rparr>
             in case ds_rows d ! row of
                  Some (s, e) \<Rightarrow>
                    let s = min s start; e = max e stop
                    in d\<lparr>ds_full_rows := (if s = 0 \<and> cols \<le> e then (ds_full_rows d)[row := True] else ds_full_rows d),
                         ds_rows := (ds_rows d)[row := Some (s, e)]\<rparr>
                | None \<Rightarrow>
                    d\<lparr>ds_full_rows := (if start = 0 \<and> cols \<le> stop then (ds_full_rows d)[row := True] else ds_full_rows d),
                      ds_rows := (ds_rows d)[row := Some (start, stop)]\<rparr>)"

definition should_mark_row :: "dirty_state \<Rightarrow> usize \<Rightarrow> usize \<Rightarrow> usize \<Rightarrow> bool" where
  "should_mark_row d row rows cols \<longleftrightarrow>
     ds_enabled d \<and> \<not> ds_full_frame d \<and> row < rows \<and> 0 < cols \<and> \<not> row_is_fully_dirty d row"

definition clamp_region_cols :: "usize \<Rightarrow> usize \<Rightarrow> usize \<times> (usize \<times> usize) option \<Rightarrow> dirty_region list" where
  "clamp_region_cols rows cols p =
     (case snd p of
        None \<Rightarrow> []
      | Some (s, e) \<Rightarrow>
          let start = min s cols; stop = min e cols
          in if fst p < rows \<and> start < stop then [\<lparr>dr_row = fst p, dr_cols = (start, stop)\<rparr>] else [])"

definition dirty_take :: "usize \<Rightarrow> usize \<Rightarrow> dirty_state \<Rightarrow> dirty_region list \<times> dirty_state" where
  "dirty_take rows cols d =
     (if \<not> ds_enabled d \<or> \<not> ds_any_dirty d then ([], d)
      else
        let regions =
              (if ds_full_frame d
               then map (\<lambda>row. \<lparr>dr_row = row, dr_cols = (0, cols)\<rparr>) (filter (\<lambda>_. 0 < cols) [0..<rows])
               else concat (map (clamp_region_cols rows cols) (List.enumerate 0 (ds_rows d))))
        in (regions,
            d\<lparr>ds_full_frame := False, ds_any_dirty := False, ds_last_full_row := None,
              ds_full_rows := replicate (length (ds_full_rows d)) False, ds_rows := replicate (length (ds_rows d)) None\<rparr>))"

section \<open>What it stands for\<close>

definition row_damage :: "usize \<Rightarrow> dirty_state \<Rightarrow> usize \<Rightarrow> usize set" where
  "row_damage cols d row =
     (if ds_full_frame d then {..<cols} else case ds_rows d ! row of None \<Rightarrow> {} | Some (s, e) \<Rightarrow> {s..<e})"

definition damage :: "usize \<Rightarrow> usize \<Rightarrow> dirty_state \<Rightarrow> (usize \<times> usize) set" where
  "damage rows cols d = {(r, c). r < rows \<and> ds_enabled d \<and> c \<in> row_damage cols d r}"

text \<open>
  The invariant.  Under a full frame the rows are stale and do not matter; otherwise a row marked as
  full covers all its columns, a range is not empty and inside the row, and the shortcut for the last
  full row points at one.
\<close>

definition range_ok :: "usize \<Rightarrow> bool \<Rightarrow> (usize \<times> usize) option \<Rightarrow> bool" where
  "range_ok cols full x \<longleftrightarrow> (case x of None \<Rightarrow> \<not> full | Some (s, e) \<Rightarrow> s < e \<and> e \<le> cols \<and> (full \<longrightarrow> s = 0 \<and> e = cols))"

definition dirty_ok :: "usize \<Rightarrow> usize \<Rightarrow> dirty_state \<Rightarrow> bool" where
  "dirty_ok rows cols d \<longleftrightarrow>
     length (ds_full_rows d) = rows \<and> length (ds_rows d) = rows \<and>
     (if ds_full_frame d then ds_enabled d \<and> ds_any_dirty d \<and> ds_last_full_row d = None
      else (\<forall>r < rows. range_ok cols (ds_full_rows d ! r) (ds_rows d ! r)) \<and>
           (case ds_last_full_row d of None \<Rightarrow> True | Some r \<Rightarrow> r < rows \<and> ds_full_rows d ! r) \<and>
           (ds_any_dirty d \<or> ds_rows d = replicate rows None) \<and>
           (ds_enabled d \<or> \<not> ds_any_dirty d))"

lemma range_ok_simps [simp]:
  "range_ok cols full None \<longleftrightarrow> \<not> full"
  "range_ok cols full (Some (s, e)) \<longleftrightarrow> s < e \<and> e \<le> cols \<and> (full \<longrightarrow> s = 0 \<and> e = cols)"
  by (simp_all add: range_ok_def)

lemma dirty_new_ok [simp]: "dirty_ok rows cols (dirty_new rows e)" "damage rows cols (dirty_new rows e) = {}"
  by (auto simp: dirty_ok_def dirty_new_def damage_def row_damage_def range_ok_def)

lemma dirty_reset_is_new: "dirty_reset rows e d = dirty_new rows e"
  by (cases d) (simp add: dirty_reset_def dirty_new_def)

lemma dirty_ok_not_dirty: "dirty_ok rows cols d \<Longrightarrow> \<not> ds_any_dirty d \<Longrightarrow> d = dirty_new rows (ds_enabled d)"
proof -
  assume ok: "dirty_ok rows cols d" and n: "\<not> ds_any_dirty d"
  then have f: "\<not> ds_full_frame d" "length (ds_full_rows d) = rows" "ds_rows d = replicate rows None"
    by (auto simp: dirty_ok_def split: if_splits)
  have r: "\<not> ds_full_rows d ! r" if "r < rows" for r using ok f that by (auto simp: dirty_ok_def range_ok_def)
  then have "ds_full_rows d = replicate rows False" using f(2) by (intro nth_equalityI) auto
  moreover have "ds_last_full_row d = None" using ok f(1) r by (auto simp: dirty_ok_def split: option.splits)
  ultimately show ?thesis using f n by (cases d) (simp add: dirty_new_def)
qed

section \<open>Marking and draining\<close>

lemma mark_all_spec:
  assumes "length (ds_full_rows d) = rows" "length (ds_rows d) = rows" "ds_enabled d"
  shows "dirty_ok rows cols (mark_all d)" "damage rows cols (mark_all d) = {..<rows} \<times> {..<cols}" "ds_enabled (mark_all d)"
  using assms by (auto simp: mark_all_def dirty_ok_def damage_def row_damage_def)

lemma mark_row_spec:
  assumes ok: "dirty_ok rows cols d"
  shows "dirty_ok rows cols (mark_row row rows cols d)" "ds_enabled (mark_row row rows cols d) = ds_enabled d"
    "damage rows cols (mark_row row rows cols d) =
       damage rows cols d \<union> (if ds_enabled d \<and> row < rows then {row} \<times> {..<cols} else {})"
proof -
  have full: "damage rows cols d \<inter> {row} \<times> UNIV = {row} \<times> {..<cols}"
    if "ds_enabled d" "row < rows" "ds_full_frame d \<or> ds_full_rows d ! row"
    using ok that by (auto simp: dirty_ok_def damage_def row_damage_def range_ok_def split: if_splits option.splits)
  show "dirty_ok rows cols (mark_row row rows cols d)" "ds_enabled (mark_row row rows cols d) = ds_enabled d"
    using ok by (auto simp: mark_row_def dirty_ok_def row_is_fully_dirty_def nth_list_update split: if_splits)
  consider (all) "ds_full_frame d \<or> \<not> ds_enabled d \<or> rows \<le> row \<or> cols = 0" | (full) "ds_enabled d" "row < rows" "ds_full_rows d ! row" "\<not> ds_full_frame d"
    | (new) "ds_enabled d" "row < rows" "\<not> ds_full_rows d ! row" "\<not> ds_full_frame d" "0 < cols" by fastforce
  then show "damage rows cols (mark_row row rows cols d) =
       damage rows cols d \<union> (if ds_enabled d \<and> row < rows then {row} \<times> {..<cols} else {})"
  proof cases
    case all
    then have "mark_row row rows cols d = d" by (auto simp: mark_row_def)
    then show ?thesis using all full by auto
  next
    case f: full
    then have "damage rows cols (mark_row row rows cols d) = damage rows cols d"
      using ok by (auto simp: mark_row_def damage_def row_damage_def row_is_fully_dirty_def dirty_ok_def)
    then show ?thesis using full f by auto
  next
    case new
    then have "ds_last_full_row d \<noteq> Some row" "\<not> row_is_fully_dirty d row" "row < length (ds_rows d)"
      using ok by (auto simp: dirty_ok_def row_is_fully_dirty_def)
    then have m: "mark_row row rows cols d = d\<lparr>ds_any_dirty := True, ds_full_rows := (ds_full_rows d)[row := True],
        ds_last_full_row := Some row, ds_rows := (ds_rows d)[row := Some (0, cols)]\<rparr>" "row < length (ds_rows d)"
      using new by (auto simp: mark_row_def)
    have "row_damage cols d row \<subseteq> {..<cols}" using ok new by (auto simp: dirty_ok_def row_damage_def range_ok_def split: option.splits)
    then show ?thesis using new m by (auto simp: damage_def row_damage_def nth_list_update split: if_splits)
  qed
qed

lemma mark_rows_spec:
  assumes "dirty_ok rows cols d"
  shows "dirty_ok rows cols (mark_rows a b rows cols d)" "ds_enabled (mark_rows a b rows cols d) = ds_enabled d"
    "damage rows cols (mark_rows a b rows cols d) = damage rows cols d \<union> (if ds_enabled d then ({a..<b} \<inter> {..<rows}) \<times> {..<cols} else {})"
proof -
  let ?f = "\<lambda>rs. fold (\<lambda>row. mark_row row rows cols) rs d"
  have f: "dirty_ok rows cols (?f rs) \<and> ds_enabled (?f rs) = ds_enabled d \<and>
      damage rows cols (?f rs) = damage rows cols d \<union> (if ds_enabled d then (set rs \<inter> {..<rows}) \<times> {..<cols} else {})" for rs
    using assms
  proof (induction rs arbitrary: d)
    case (Cons r rs)
    note m = mark_row_spec [OF Cons.prems, of r]
    from Cons.IH [OF m(1)] show ?case by (auto simp: m(2,3))
  qed simp
  have e: "mark_rows a b rows cols d = d \<and> damage rows cols d = {..<rows} \<times> {..<cols} \<or> mark_rows a b rows cols d = d \<and> \<not> ds_enabled d \<or>
      mark_rows a b rows cols d = ?f [min a rows..<min b rows]"
    by (auto simp: mark_rows_def damage_def row_damage_def)
  have s: "set [min a rows..<min b rows] \<inter> {..<rows} = {a..<b} \<inter> {..<rows}" by auto
  show "dirty_ok rows cols (mark_rows a b rows cols d)" "ds_enabled (mark_rows a b rows cols d) = ds_enabled d"
    "damage rows cols (mark_rows a b rows cols d) = damage rows cols d \<union> (if ds_enabled d then ({a..<b} \<inter> {..<rows}) \<times> {..<cols} else {})"
    using e f [of "[min a rows..<min b rows]"] assms unfolding s by auto
qed

text \<open>A range is merged with what the row already has, so the result may cover more of that row, but no other.\<close>

lemma mark_range_spec:
  assumes ok: "dirty_ok rows cols d"
  shows "dirty_ok rows cols (mark_range row (a, b) rows cols d)" "ds_enabled (mark_range row (a, b) rows cols d) = ds_enabled d"
    "damage rows cols d \<subseteq> damage rows cols (mark_range row (a, b) rows cols d)"
    "ds_enabled d \<Longrightarrow> row < rows \<Longrightarrow> {row} \<times> ({a..<b} \<inter> {..<cols}) \<subseteq> damage rows cols (mark_range row (a, b) rows cols d)"
    "damage rows cols (mark_range row (a, b) rows cols d) \<subseteq> damage rows cols d \<union> {row} \<times> {..<cols}"
proof -
  let ?m = "mark_range row (a, b) rows cols d"
  have full: "{row} \<times> {..<cols} \<subseteq> damage rows cols d" if "ds_enabled d" "row < rows" "ds_full_frame d \<or> row_is_fully_dirty d row"
    using ok that by (auto simp: dirty_ok_def damage_def row_damage_def range_ok_def row_is_fully_dirty_def split: if_splits option.splits)
  have "dirty_ok rows cols ?m \<and> ds_enabled ?m = ds_enabled d \<and> damage rows cols d \<subseteq> damage rows cols ?m \<and>
      (ds_enabled d \<and> row < rows \<longrightarrow> {row} \<times> ({a..<b} \<inter> {..<cols}) \<subseteq> damage rows cols ?m) \<and>
      damage rows cols ?m \<subseteq> damage rows cols d \<union> {row} \<times> {..<cols}"
  proof (cases "\<not> ds_enabled d \<or> ds_full_frame d \<or> row_is_fully_dirty d row")
    case True
    then show ?thesis using ok full by (auto simp: mark_range_def)
  next
    case False
    define start stop where "start = min a cols" and "stop = min b cols"
    have keep: "dirty_ok rows cols (d\<lparr>ds_last_full_row := None\<rparr>)" "damage rows cols (d\<lparr>ds_last_full_row := None\<rparr>) = damage rows cols d"
      using ok False by (auto simp: dirty_ok_def damage_def row_damage_def)
    show ?thesis
    proof (cases "rows \<le> row \<or> cols = 0 \<or> stop \<le> start")
      case True
      then have "?m = d\<lparr>ds_last_full_row := None\<rparr>" using False by (simp add: mark_range_def start_def stop_def)
      moreover have "row < rows \<Longrightarrow> {a..<b} \<inter> {..<cols} = {}" using True by (auto simp: start_def stop_def min_def split: if_splits)
      ultimately show ?thesis using keep by simp
    next
      case sub: False
      then have r: "row < rows" "row < length (ds_rows d)" "row < length (ds_full_rows d)" "\<not> ds_full_rows d ! row" "start < stop" "stop \<le> cols"
        using ok False by (auto simp: dirty_ok_def row_is_fully_dirty_def stop_def)
      have g: "ds_enabled d" "\<not> ds_full_frame d" "\<not> row_is_fully_dirty d row" "\<not> rows \<le> row" "cols \<noteq> 0" "\<not> stop \<le> start"
        using False sub by auto
      obtain s e where se: "s \<le> start" "stop \<le> e" "e \<le> cols" "row_damage cols d row \<subseteq> {s..<e}"
        and m: "?m = d\<lparr>ds_last_full_row := None, ds_any_dirty := True,
            ds_full_rows := (if s = 0 \<and> cols \<le> e then (ds_full_rows d)[row := True] else ds_full_rows d),
            ds_rows := (ds_rows d)[row := Some (s, e)]\<rparr>"
      proof (cases "ds_rows d ! row")
        case None
        then have "row_damage cols d row = {}" using g by (simp add: row_damage_def)
        moreover have "?m = d\<lparr>ds_last_full_row := None, ds_any_dirty := True,
            ds_full_rows := (if start = 0 \<and> cols \<le> stop then (ds_full_rows d)[row := True] else ds_full_rows d),
            ds_rows := (ds_rows d)[row := Some (start, stop)]\<rparr>"
          unfolding mark_range_def Let_def fst_conv snd_conv start_def [symmetric] stop_def [symmetric] using None g by simp
        ultimately show ?thesis using that [of start stop] r by simp
      next
        case (Some se)
        then obtain s0 e0 where x: "ds_rows d ! row = Some (s0, e0)" by (cases se) auto
        have "\<forall>r < rows. range_ok cols (ds_full_rows d ! r) (ds_rows d ! r)" using ok g(2) by (simp add: dirty_ok_def)
        from this [rule_format, OF r(1)] have "row_damage cols d row = {s0..<e0}" "e0 \<le> cols" using g x by (simp_all add: row_damage_def)
        moreover have "?m = d\<lparr>ds_last_full_row := None, ds_any_dirty := True,
            ds_full_rows := (if min s0 start = 0 \<and> cols \<le> max e0 stop then (ds_full_rows d)[row := True] else ds_full_rows d),
            ds_rows := (ds_rows d)[row := Some (min s0 start, max e0 stop)]\<rparr>"
          unfolding mark_range_def Let_def fst_conv snd_conv start_def [symmetric] stop_def [symmetric] using x g by (auto simp: min_def)
        ultimately show ?thesis using that [of "min s0 start" "max e0 stop"] r by simp
      qed
      have ok': "dirty_ok rows cols ?m" unfolding m using ok False r se by (auto simp: dirty_ok_def nth_list_update)
      have d: "damage rows cols ?m = {p \<in> damage rows cols d. fst p \<noteq> row} \<union> {row} \<times> {s..<e}"
      proof -
        have "row_damage cols ?m q = (if q = row then {s..<e} else row_damage cols d q)" for q
          unfolding m using g r by (simp add: row_damage_def)
        moreover have "ds_enabled ?m" unfolding m using g by simp
        ultimately show ?thesis using g r by (auto simp: damage_def split: if_splits)
      qed
      have old: "{p \<in> damage rows cols d. fst p = row} \<subseteq> {row} \<times> {s..<e}" using se(4) by (auto simp: damage_def)
      show ?thesis using ok' False se d old by (auto simp: m start_def stop_def)
    qed
  qed
  then show "dirty_ok rows cols ?m" "ds_enabled ?m = ds_enabled d" "damage rows cols d \<subseteq> damage rows cols ?m"
    "ds_enabled d \<Longrightarrow> row < rows \<Longrightarrow> {row} \<times> ({a..<b} \<inter> {..<cols}) \<subseteq> damage rows cols ?m"
    "damage rows cols ?m \<subseteq> damage rows cols d \<union> {row} \<times> {..<cols}" by blast+
qed

definition region_cells :: "dirty_region list \<Rightarrow> (usize \<times> usize) set" where
  "region_cells rs = (\<Union>x \<in> set rs. {dr_row x} \<times> {fst (dr_cols x)..<snd (dr_cols x)})"

lemma region_cells_concat: "region_cells (concat (map f xs)) = (\<Union>x \<in> set xs. region_cells (f x))"
  by (auto simp: region_cells_def)

lemma set_enumerate: "set (List.enumerate 0 xs) = (\<lambda>r. (r, xs ! r)) ` {..<length xs}"
  by (auto simp: in_set_enumerate_eq image_iff)

text \<open>Draining hands out exactly the damage, and leaves a fresh tracker.\<close>

lemma dirty_take_spec:
  assumes ok: "dirty_ok rows cols d"
  shows "region_cells (fst (dirty_take rows cols d)) = damage rows cols d"
    and "snd (dirty_take rows cols d) = dirty_new rows (ds_enabled d)"
proof -
  have len: "length (ds_rows d) = rows" "length (ds_full_rows d) = rows" using ok by (auto simp: dirty_ok_def)
  have "region_cells (fst (dirty_take rows cols d)) = damage rows cols d \<and> snd (dirty_take rows cols d) = dirty_new rows (ds_enabled d)"
  proof (cases "ds_enabled d \<and> ds_any_dirty d")
    case False
    then have "\<not> ds_any_dirty d" using ok by (auto simp: dirty_ok_def split: if_splits)
    from dirty_ok_not_dirty [OF ok this] have n: "d = dirty_new rows (ds_enabled d)" .
    have "dirty_take rows cols d = ([], d)" using False by (simp add: dirty_take_def)
    moreover have "damage rows cols d = {}" by (subst n) simp
    ultimately show ?thesis using n by (simp add: region_cells_def)
  next
    case True
    then have snd: "snd (dirty_take rows cols d) = dirty_new rows (ds_enabled d)"
      using len by (cases d) (auto simp: dirty_take_def dirty_new_def)
    have "region_cells (fst (dirty_take rows cols d)) = damage rows cols d"
    proof (cases "ds_full_frame d")
      case full: True
      then show ?thesis using True by (auto simp: dirty_take_def region_cells_def damage_def row_damage_def)
    next
      case partial: False
      have one: "region_cells (clamp_region_cols rows cols (r, ds_rows d ! r)) = {r} \<times> row_damage cols d r" if "r < rows" for r
      proof -
        have "range_ok cols (ds_full_rows d ! r) (ds_rows d ! r)" using ok partial that by (simp add: dirty_ok_def)
        then show ?thesis
        proof (cases "ds_rows d ! r")
          case (Some x)
          obtain s e where x: "x = (s, e)" by fastforce
          have "s < e" "e \<le> cols" using \<open>range_ok _ _ _\<close> Some x by auto
          then have "clamp_region_cols rows cols (r, ds_rows d ! r) = [\<lparr>dr_row = r, dr_cols = (s, e)\<rparr>]"
            using Some x that by (simp add: clamp_region_cols_def min_absorb1)
          then show ?thesis using Some x partial by (simp add: region_cells_def row_damage_def)
        qed (use partial in \<open>simp add: clamp_region_cols_def region_cells_def row_damage_def\<close>)
      qed
      have "region_cells (fst (dirty_take rows cols d)) = (\<Union>r < rows. region_cells (clamp_region_cols rows cols (r, ds_rows d ! r)))"
        using True partial len by (simp add: dirty_take_def region_cells_concat set_enumerate)
      also have "\<dots> = damage rows cols d" using True one by (auto simp: damage_def)
      finally show ?thesis .
    qed
    with snd show ?thesis by blast
  qed
  then show "region_cells (fst (dirty_take rows cols d)) = damage rows cols d"
    "snd (dirty_take rows cols d) = dirty_new rows (ds_enabled d)" by blast+
qed

lemma should_mark_row_exact:
  assumes "dirty_ok rows cols d" "\<not> should_mark_row d row rows cols"
  shows "damage rows cols (mark_row row rows cols d) = damage rows cols d"
proof -
  have "ds_enabled d \<Longrightarrow> row < rows \<Longrightarrow> {row} \<times> {..<cols} \<subseteq> damage rows cols d"
    using assms by (auto simp: should_mark_row_def dirty_ok_def damage_def row_damage_def range_ok_def row_is_fully_dirty_def split: if_splits option.splits)
  then show ?thesis using mark_row_spec(3) [OF assms(1)] by auto
qed

end
