(* ===== verification/Vt_Image.thy ===== *)
theory Vt_Image
  imports Prelude
begin

text \<open>
  Pictures in the terminal grid: the stored image of \<^verbatim>\<open>shux-vt/src/graphics/image.rs\<close> and the geometry
  of a placement in \<^verbatim>\<open>shux-vt/src/grid.rs\<close>.  All quantities are \<open>u32\<close> or \<open>usize\<close>; the products are
  formed in \<open>u64\<close> and \<open>u128\<close>, where they fit, so naturals compute them exactly.
\<close>

definition u32_max :: nat where "u32_max = 2 ^ 32 - 1"

definition DECLARED_CELL_PIXELS :: "nat \<times> nat" where "DECLARED_CELL_PIXELS = (9, 19)"

datatype image_format = Rgba32 | Rgb24 | Png

record stored_image =
  si_payload :: "nat list"
  si_format :: image_format
  si_compressed :: bool
  si_width :: nat
  si_height :: nat

definition MAX_IMAGE_BYTES :: usize where "MAX_IMAGE_BYTES = 32 * 1024 * 1024"

section \<open>Geometry\<close>

record pixel_rect =
  px_x :: nat
  px_y :: nat
  px_w :: nat
  px_h :: nat

record image_geometry =
  ig_crop :: pixel_rect
  ig_display :: "(usize \<times> usize) option"

definition div_ceil :: "nat \<Rightarrow> nat \<Rightarrow> nat" where
  "div_ceil a b = (a + b - 1) div b"

definition clamp_nat :: "nat \<Rightarrow> nat \<Rightarrow> nat \<Rightarrow> nat" where
  "clamp_nat lo hi x = (if x < lo then lo else if hi < x then hi else x)"

definition display_box :: "nat \<times> nat \<Rightarrow> nat \<times> nat \<Rightarrow> (nat \<times> nat) option" where
  "display_box cr wh =
     (let (c, r) = cr; (w, h) = wh; (dw, dh) = DECLARED_CELL_PIXELS
      in if c = 0 \<and> r = 0 then None
         else if r = 0 then Some (c, div_ceil (c * dw * h) (w * dh))
         else if c = 0 then Some (div_ceil (r * dh * w) (h * dw), r)
         else Some (c, r))"

definition geometry_resolve ::
  "nat \<times> nat \<Rightarrow> nat \<times> nat \<times> nat \<times> nat \<Rightarrow> nat \<times> nat \<Rightarrow> usize \<times> usize \<Rightarrow> image_geometry option" where
  "geometry_resolve dims box cr mx =
     (let (width, height) = dims; (x, y, w, h) = box; (cols, rows) = cr
      in if width \<le> x \<or> height \<le> y then None
         else
           let w = (if w = 0 then width - x else min w (width - x));
               h = (if h = 0 then height - y else min h (height - y))
           in if w = 0 \<or> h = 0 then None
              else
                let cap = (\<lambda>n mx. min n (max mx 1));
                    display = map_option (\<lambda>(c, r). (clamp_nat 1 (max (fst mx) 1) c, clamp_nat 1 (max (snd mx) 1) r))
                                (display_box (cap cols (fst mx), cap rows (snd mx)) (w, h))
                in Some \<lparr>ig_crop = \<lparr>px_x = x, px_y = y, px_w = w, px_h = h\<rparr>, ig_display = display\<rparr>)"

definition geometry_cells :: "image_geometry \<Rightarrow> usize \<times> usize" where
  "geometry_cells g =
     (case ig_display g of
        Some d \<Rightarrow> d
      | None \<Rightarrow> (max (div_ceil (px_w (ig_crop g)) (fst DECLARED_CELL_PIXELS)) 1,
                 max (div_ceil (px_h (ig_crop g)) (snd DECLARED_CELL_PIXELS)) 1))"

definition drawn_px :: "image_geometry \<Rightarrow> nat \<Rightarrow> nat \<Rightarrow> nat \<times> nat" where
  "drawn_px g cell_w cell_h =
     (let (dw, dh) = DECLARED_CELL_PIXELS; w = px_w (ig_crop g); h = px_h (ig_crop g)
      in case ig_display g of
           None \<Rightarrow>
             let scale = (\<lambda>px cell declared. min (max (px * cell div max declared 1) 1) u32_max)
             in (scale w cell_w dw, scale h cell_h dh)
         | Some (cols, rows) \<Rightarrow>
             let bw = cols * cell_w; bh = rows * cell_h
             in if w * bh \<le> h * bw then (clamp_nat 1 (max bw 1) (w * bh div h), max bh 1)
                else (max bw 1, clamp_nat 1 (max bh 1) (h * bw div w)))"

section \<open>Lemmas\<close>

text \<open>A resolved crop lies inside the image and is not empty, and its box inside the pane.\<close>

lemma resolve_inside:
  assumes "geometry_resolve (width, height) box cr mx = Some g"
  shows "0 < px_w (ig_crop g)" "0 < px_h (ig_crop g)"
    "px_x (ig_crop g) + px_w (ig_crop g) \<le> width" "px_y (ig_crop g) + px_h (ig_crop g) \<le> height"
    "ig_display g = Some (c, r) \<Longrightarrow> 1 \<le> c \<and> c \<le> max (fst mx) 1 \<and> 1 \<le> r \<and> r \<le> max (snd mx) 1"
proof -
  obtain x y w h cols rows where b: "box = (x, y, w, h)" "cr = (cols, rows)" by (cases box, cases cr)
  define w' h' where "w' = (if w = 0 then width - x else min w (width - x))" and "h' = (if h = 0 then height - y else min h (height - y))"
  define d where "d = map_option (\<lambda>(c, r). (clamp_nat 1 (max (fst mx) 1) c, clamp_nat 1 (max (snd mx) 1) r))
      (display_box (min cols (max (fst mx) 1), min rows (max (snd mx) 1)) (w', h'))"
  have "geometry_resolve (width, height) box cr mx = (if width \<le> x \<or> height \<le> y \<or> w' = 0 \<or> h' = 0 then None
      else Some \<lparr>ig_crop = \<lparr>px_x = x, px_y = y, px_w = w', px_h = h'\<rparr>, ig_display = d\<rparr>)"
    by (simp add: geometry_resolve_def b w'_def h'_def d_def Let_def)
  then have g: "g = \<lparr>ig_crop = \<lparr>px_x = x, px_y = y, px_w = w', px_h = h'\<rparr>, ig_display = d\<rparr>" "x < width" "y < height" "0 < w'" "0 < h'"
    using assms by (auto split: if_splits)
  have "w' \<le> width - x" "h' \<le> height - y" by (auto simp: w'_def h'_def)
  then show "0 < px_w (ig_crop g)" "0 < px_h (ig_crop g)"
    "px_x (ig_crop g) + px_w (ig_crop g) \<le> width" "px_y (ig_crop g) + px_h (ig_crop g) \<le> height" using g by auto
  show "ig_display g = Some (c, r) \<Longrightarrow> 1 \<le> c \<and> c \<le> max (fst mx) 1 \<and> 1 \<le> r \<and> r \<le> max (snd mx) 1"
    using g(1) by (auto simp: d_def clamp_nat_def)
qed

lemma cells_positive: "ig_display g = None \<or> (\<exists>c r. ig_display g = Some (c, r) \<and> 1 \<le> c \<and> 1 \<le> r) \<Longrightarrow>
    1 \<le> fst (geometry_cells g) \<and> 1 \<le> snd (geometry_cells g)"
  by (auto simp: geometry_cells_def)

text \<open>A picture drawn into a box keeps inside it, and touches it on one side.\<close>

lemma drawn_inside_box:
  assumes "ig_display g = Some (cols, rows)"
  shows "fst (drawn_px g cw ch) \<le> max (cols * cw) 1" "snd (drawn_px g cw ch) \<le> max (rows * ch) 1"
    "fst (drawn_px g cw ch) = max (cols * cw) 1 \<or> snd (drawn_px g cw ch) = max (rows * ch) 1"
  using assms by (auto simp: drawn_px_def Let_def clamp_nat_def DECLARED_CELL_PIXELS_def split: if_splits)

end
