(* ===== verification/Vt_Grid.thy ===== *)
theory Vt_Grid
  imports Vt_Row Vt_Dirty Vt_Image
begin

text \<open>
  The terminal grid, \<open>Grid\<close> in \<^verbatim>\<open>shux-vt/src/grid.rs\<close>, without its resizing: scrollback and viewport in
  one line buffer, scrolling, clearing, character edits, placed pictures, and the write tally.

  A row index that the code uses unchecked panics out of range; those operations return \<open>None\<close> there.
  \<open>mutations\<close> and \<open>evicted\<close> saturate at the largest \<open>u64\<close>.  \<open>VecDeque\<close> is a list.
\<close>

section \<open>State\<close>

definition u64_max :: nat where "u64_max = 2 ^ 64 - 1"

definition sat_add64 :: "nat \<Rightarrow> nat \<Rightarrow> nat" where
  "sat_add64 a b = min (a + b) u64_max"

record grid_config =
  gc_max_scrollback :: usize
  gc_track_dirty :: bool

definition default_grid_config :: grid_config where
  "default_grid_config = \<lparr>gc_max_scrollback = 5000, gc_track_dirty = True\<rparr>"

definition MAX_PLACEMENTS :: usize where "MAX_PLACEMENTS = 256"

record placement =
  pl_image :: stored_image
  pl_abs_row :: nat
  pl_col :: usize
  pl_image_id :: nat
  pl_placement_id :: nat
  pl_z :: int
  pl_geometry :: image_geometry

record grid =
  gr_raw :: "row list"
  gr_rows :: usize
  gr_cols :: usize
  gr_config :: grid_config
  gr_dirty :: dirty_state
  gr_mutations :: nat
  gr_placements :: "placement list"
  gr_placed_bytes :: usize
  gr_evicted :: nat

definition grid_new :: "usize \<Rightarrow> usize \<Rightarrow> grid_config \<Rightarrow> grid" where
  "grid_new rows cols config =
     \<lparr>gr_raw = replicate rows (row_new cols), gr_rows = rows, gr_cols = cols, gr_config = config,
      gr_dirty = dirty_new rows (gc_track_dirty config), gr_mutations = 0, gr_placements = [], gr_placed_bytes = 0,
      gr_evicted = 0\<rparr>"

definition grid_clone :: "grid \<Rightarrow> grid" where
  "grid_clone g = g\<lparr>gr_dirty := dirty_new (gr_rows g) (gc_track_dirty (gr_config g))\<rparr>"

definition scrollback_len :: "grid \<Rightarrow> usize" where
  "scrollback_len g = length (gr_raw g) - gr_rows g"

definition total_lines :: "grid \<Rightarrow> usize" where
  "total_lines g = length (gr_raw g)"

definition visible_row :: "grid \<Rightarrow> usize \<Rightarrow> row option" where
  "visible_row g row =
     (let idx = scrollback_len g + row in if idx < length (gr_raw g) then Some (gr_raw g ! idx) else None)"

definition scrollback_row :: "grid \<Rightarrow> usize \<Rightarrow> row option" where
  "scrollback_row g row = (if row < scrollback_len g then Some (gr_raw g ! row) else None)"

definition grid_row :: "grid \<Rightarrow> usize \<Rightarrow> row option" where
  "grid_row g row = (if row < length (gr_raw g) then Some (gr_raw g ! row) else None)"

definition bump_mutations :: "grid \<Rightarrow> grid" where
  "bump_mutations g = g\<lparr>gr_mutations := sat_add64 (gr_mutations g) 1\<rparr>"

definition grid_is_dirty :: "grid \<Rightarrow> bool" where
  "grid_is_dirty g \<longleftrightarrow> dirty_is_dirty (gr_dirty g)"

definition take_dirty_regions :: "grid \<Rightarrow> dirty_region list \<times> grid" where
  "take_dirty_regions g =
     (let (regions, d) = dirty_take (gr_rows g) (gr_cols g) (gr_dirty g) in (regions, g\<lparr>gr_dirty := d\<rparr>))"

definition mark_all_dirty :: "grid \<Rightarrow> grid" where
  "mark_all_dirty g = g\<lparr>gr_dirty := mark_all (gr_dirty g)\<rparr>"

definition clone_presented_viewport :: "grid \<Rightarrow> grid" where
  "clone_presented_viewport g =
     (let sb = scrollback_len g
      in g\<lparr>gr_raw := drop sb (gr_raw g), gr_config := \<lparr>gc_max_scrollback = gr_rows g, gc_track_dirty = gc_track_dirty (gr_config g)\<rparr>,
           gr_evicted := sat_add64 (gr_evicted g) sb\<rparr>)"

definition clone_visible :: "grid \<Rightarrow> grid option" where
  "clone_visible g =
     map_option (\<lambda>raw. g\<lparr>gr_raw := raw, gr_config := \<lparr>gc_max_scrollback = 0, gc_track_dirty = gc_track_dirty (gr_config g)\<rparr>,
         gr_dirty := dirty_new (gr_rows g) (gc_track_dirty (gr_config g)), gr_mutations := 0,
         gr_evicted := sat_add64 (gr_evicted g) (scrollback_len g)\<rparr>)
       (those (map (visible_row g) [0..<gr_rows g]))"

definition row_text :: "row \<Rightarrow> rstring" where
  "row_text r = fold (\<lambda>c line. if is_wide_continuation c then line else push_display_text c line) (r_cells r) []"

fun join_lines :: "rstring list \<Rightarrow> rstring" where
  "join_lines [] = []"
| "join_lines [l] = l"
| "join_lines (l # ls) = l @ [10] @ join_lines ls"

definition glance_text :: "grid \<Rightarrow> rstring option" where
  "glance_text g = map_option (\<lambda>rs. join_lines (map row_text rs)) (those (map (visible_row g) [0..<gr_rows g]))"

section \<open>Placements\<close>

definition payload_len :: "placement \<Rightarrow> nat" where
  "payload_len p = length (si_payload (pl_image p))"

definition viewport_row :: "placement \<Rightarrow> grid \<Rightarrow> int" where
  "viewport_row p g = int (pl_abs_row p) - int (gr_evicted g + scrollback_len g)"

definition placement_live :: "nat \<Rightarrow> placement \<Rightarrow> bool" where
  "placement_live evicted p \<longleftrightarrow> evicted < sat_add64 (pl_abs_row p) (snd (geometry_cells (pl_geometry p)))"

definition prune_evicted_placements :: "grid \<Rightarrow> grid" where
  "prune_evicted_placements g =
     (let freed = sum_list (map payload_len (filter (\<lambda>p. \<not> placement_live (gr_evicted g) p) (gr_placements g)))
      in g\<lparr>gr_placements := filter (placement_live (gr_evicted g)) (gr_placements g), gr_placed_bytes := gr_placed_bytes g - freed\<rparr>)"

definition put_placement :: "grid \<Rightarrow> placement \<Rightarrow> bool \<times> grid" where
  "put_placement g0 p =
     (let g = prune_evicted_placements g0;
          same = (\<lambda>q. pl_image_id p \<noteq> 0 \<and> pl_placement_id p \<noteq> 0 \<and>
                      pl_image_id q = pl_image_id p \<and> pl_placement_id q = pl_placement_id p)
      in case position same (gr_placements g) of
           Some i \<Rightarrow>
             let rest = gr_placed_bytes g - payload_len (gr_placements g ! i)
             in if MAX_IMAGE_BYTES < rest + payload_len p then (False, g)
                else (True, bump_mutations (g\<lparr>gr_placed_bytes := rest + payload_len p,
                                              gr_placements := (gr_placements g)[i := p]\<rparr>))
         | None \<Rightarrow>
             if MAX_PLACEMENTS \<le> length (gr_placements g) \<or> MAX_IMAGE_BYTES < gr_placed_bytes g + payload_len p then (False, g)
             else (True, bump_mutations (g\<lparr>gr_placed_bytes := gr_placed_bytes g + payload_len p,
                                           gr_placements := gr_placements g @ [p]\<rparr>)))"

definition unplace_where :: "(placement \<Rightarrow> bool) \<Rightarrow> grid \<Rightarrow> nat list \<times> grid" where
  "unplace_where gone g =
     (let dropped = filter gone (gr_placements g);
          ids = map pl_image_id dropped;
          g = g\<lparr>gr_placements := filter (\<lambda>q. \<not> gone q) (gr_placements g),
                gr_placed_bytes := gr_placed_bytes g - sum_list (map payload_len dropped)\<rparr>
      in (ids, if ids \<noteq> [] then bump_mutations g else g))"

definition unplace_image :: "nat \<Rightarrow> nat \<Rightarrow> grid \<Rightarrow> nat list \<times> grid" where
  "unplace_image image_id placement_id =
     unplace_where (\<lambda>q. pl_image_id q = image_id \<and> (placement_id = 0 \<or> pl_placement_id q = placement_id))"

definition shows_image :: "grid \<Rightarrow> nat \<Rightarrow> bool" where
  "shows_image g i \<longleftrightarrow> list_ex (\<lambda>q. pl_image_id q = i) (gr_placements g)"

definition unplace_all :: "grid \<Rightarrow> grid" where
  "unplace_all g = (if gr_placements g = [] then g else bump_mutations (g\<lparr>gr_placements := [], gr_placed_bytes := 0\<rparr>))"

section \<open>Recycling\<close>

definition is_blank_canvas :: "grid \<Rightarrow> usize \<Rightarrow> usize \<Rightarrow> grid_config \<Rightarrow> bool" where
  "is_blank_canvas g rows cols config \<longleftrightarrow>
     gr_mutations g = 0 \<and> gr_rows g = rows \<and> gr_cols g = cols \<and> length (gr_raw g) = rows \<and> gr_config g = config"

definition is_actually_blank :: "grid \<Rightarrow> usize \<Rightarrow> bool" where
  "is_actually_blank g cols \<longleftrightarrow>
     gr_placements g = [] \<and>
     list_all (\<lambda>r. \<not> r_wrapped r \<and> row_len r = cols \<and> list_all (\<lambda>c. c = cell_empty) (r_cells r)) (gr_raw g)"

definition grid_reset_blank :: "usize \<Rightarrow> usize \<Rightarrow> grid_config \<Rightarrow> grid \<Rightarrow> grid" where
  "grid_reset_blank rows cols config g =
     (let raw = map (row_reset_blank cols) (take rows (gr_raw g));
          raw = raw @ replicate (rows - length raw) (row_new cols)
      in g\<lparr>gr_raw := raw, gr_rows := rows, gr_cols := cols, gr_dirty := dirty_reset rows (gc_track_dirty config) (gr_dirty g),
           gr_config := config, gr_mutations := 0, gr_evicted := 0, gr_placements := [], gr_placed_bytes := 0\<rparr>)"

section \<open>Access to a visible row\<close>

definition set_line :: "grid \<Rightarrow> usize \<Rightarrow> row \<Rightarrow> grid" where
  "set_line g idx r = g\<lparr>gr_raw := (gr_raw g)[idx := r]\<rparr>"

text \<open>\<open>visible_row_mut\<close> with the writes done through its guard, which marks the row when it is dropped.\<close>

definition visible_row_mut :: "usize \<Rightarrow> (row \<Rightarrow> row) \<Rightarrow> grid \<Rightarrow> grid option" where
  "visible_row_mut row f g0 =
     (let g = bump_mutations g0;
          mark_on_drop = should_mark_row (gr_dirty g) row (gr_rows g) (gr_cols g)
      in case visible_row g row of
           None \<Rightarrow> None
         | Some r \<Rightarrow>
             let g = set_line g (scrollback_len g + row) (f r)
             in Some (if mark_on_drop then g\<lparr>gr_dirty := mark_row row (gr_rows g) (gr_cols g) (gr_dirty g)\<rparr> else g))"

definition visible_row_mut_untracked :: "usize \<Rightarrow> (row \<Rightarrow> row) \<Rightarrow> grid \<Rightarrow> grid option" where
  "visible_row_mut_untracked row f g =
     map_option (\<lambda>r. set_line g (scrollback_len g + row) (f r)) (visible_row g row)"

definition visible_row_mut_marked :: "usize \<Rightarrow> (row \<Rightarrow> row) \<Rightarrow> grid \<Rightarrow> grid option" where
  "visible_row_mut_marked row f g0 =
     (let g = bump_mutations g0
      in visible_row_mut_untracked row f (g\<lparr>gr_dirty := mark_row row (gr_rows g) (gr_cols g) (gr_dirty g)\<rparr>))"

section \<open>Scrolling\<close>

definition clamp_region :: "grid \<Rightarrow> usize \<Rightarrow> usize \<Rightarrow> (usize \<times> usize) option" where
  "clamp_region g region_top region_bottom =
     (if gr_rows g = 0 then None
      else let bottom = min region_bottom (gr_rows g - 1)
           in if bottom < region_top then None else Some (region_top, bottom))"

definition blank_row :: "usize \<Rightarrow> row \<Rightarrow> row" where
  "blank_row cols r = (if row_len r = cols then row_reset ColorDefault r else row_new cols)"

definition blank_row_at :: "usize \<Rightarrow> usize \<Rightarrow> row list \<Rightarrow> row list" where
  "blank_row_at cols idx raw = raw[idx := blank_row cols (raw ! idx)]"

fun swap_inwards :: "usize \<Rightarrow> usize \<Rightarrow> 'a list \<Rightarrow> 'a list" where
  "swap_inwards i j raw =
     (if i < j then swap_inwards (i + 1) (j - 1) (raw[i := raw ! j, j := raw ! i]) else raw)"

declare swap_inwards.simps [simp del]

definition reverse_range :: "usize \<Rightarrow> usize \<Rightarrow> 'a list \<Rightarrow> 'a list" where
  "reverse_range start stop raw = (if stop \<le> start then raw else swap_inwards start (stop - 1) raw)"

definition rotate_range_left :: "usize \<Rightarrow> usize \<Rightarrow> usize \<Rightarrow> 'a list \<Rightarrow> 'a list" where
  "rotate_range_left start stop n raw =
     (let len = stop - start
      in if len = 0 then raw
         else let n = n mod len
              in if n = 0 then raw
                 else reverse_range start stop (reverse_range (start + n) stop (reverse_range start (start + n) raw)))"

definition mark_scrolled :: "usize \<Rightarrow> usize \<Rightarrow> grid \<Rightarrow> grid" where
  "mark_scrolled region_top region_bottom g =
     g\<lparr>gr_dirty := if region_top = 0 \<and> region_bottom = gr_rows g - 1 then mark_all (gr_dirty g)
                   else mark_rows region_top (region_bottom + 1) (gr_rows g) (gr_cols g) (gr_dirty g)\<rparr>"

text \<open>The recycling loop of a full-screen scroll, and the loop that restores the cap.\<close>

fun recycle_front :: "usize \<Rightarrow> row list \<times> nat \<Rightarrow> row list \<times> nat" where
  "recycle_front cols ([], ev) = ([], ev)"
| "recycle_front cols (r # rs, ev) = (rs @ [blank_row cols r], sat_add64 ev 1)"

fun trim_front :: "usize \<Rightarrow> row list \<Rightarrow> nat \<Rightarrow> row list \<times> nat" where
  "trim_front max_total [] ev = ([], ev)"
| "trim_front max_total (r # rs) ev =
     (if max_total < length (r # rs) then trim_front max_total rs (sat_add64 ev 1) else (r # rs, ev))"

definition scroll_up_n :: "usize \<Rightarrow> usize \<Rightarrow> usize \<Rightarrow> grid \<Rightarrow> grid" where
  "scroll_up_n region_top region_bottom lines g =
     (case clamp_region g region_top region_bottom of
        None \<Rightarrow> g
      | Some (top_row, bottom_row) \<Rightarrow>
          let height = bottom_row - top_row + 1; n = min lines height
          in if n = 0 then g
             else
               let g = g\<lparr>gr_mutations := sat_add64 (gr_mutations g) n\<rparr>;
                   g = (if top_row = 0 \<and> bottom_row = gr_rows g - 1 then
                          let max_total = gr_rows g + gc_max_scrollback (gr_config g);
                              grow = min n (max_total - length (gr_raw g));
                              raw = gr_raw g @ replicate grow (row_new (gr_cols g));
                              (raw, ev) = (recycle_front (gr_cols g) ^^ (n - grow)) (raw, gr_evicted g);
                              (raw, ev) = trim_front max_total raw ev
                          in g\<lparr>gr_raw := raw, gr_evicted := ev\<rparr>
                        else
                          let sb = scrollback_len g; start = sb + top_row; stop = sb + bottom_row + 1
                          in g\<lparr>gr_raw := fold (blank_row_at (gr_cols g)) [stop - n..<stop]
                                          (rotate_range_left start stop n (gr_raw g))\<rparr>)
               in mark_scrolled top_row bottom_row g)"

definition scroll_down_n :: "usize \<Rightarrow> usize \<Rightarrow> usize \<Rightarrow> grid \<Rightarrow> grid" where
  "scroll_down_n region_top region_bottom lines g =
     (case clamp_region g region_top region_bottom of
        None \<Rightarrow> g
      | Some (top_row, bottom_row) \<Rightarrow>
          let height = bottom_row - top_row + 1; n = min lines height
          in if n = 0 then g
             else
               let g = g\<lparr>gr_mutations := sat_add64 (gr_mutations g) n\<rparr>;
                   sb = scrollback_len g; start = sb + top_row; stop = sb + bottom_row + 1
               in mark_scrolled top_row bottom_row
                    (g\<lparr>gr_raw := fold (blank_row_at (gr_cols g)) [start..<start + n]
                                  (rotate_range_left start stop (height - n) (gr_raw g))\<rparr>))"

definition scroll_up :: "usize \<Rightarrow> usize \<Rightarrow> grid \<Rightarrow> grid" where
  "scroll_up region_top region_bottom = scroll_up_n region_top region_bottom 1"

definition scroll_down :: "usize \<Rightarrow> usize \<Rightarrow> grid \<Rightarrow> grid" where
  "scroll_down region_top region_bottom = scroll_down_n region_top region_bottom 1"

section \<open>Clearing and editing\<close>

text \<open>The loop \<open>for i in a..b\<close> over the lines of the buffer.\<close>

definition map_lines :: "(row \<Rightarrow> row) \<Rightarrow> usize \<Rightarrow> usize \<Rightarrow> grid \<Rightarrow> grid" where
  "map_lines f a b g = g\<lparr>gr_raw := fold (\<lambda>i raw. raw[i := f (raw ! i)]) [a..<b] (gr_raw g)\<rparr>"

definition clear_visible :: "color \<Rightarrow> grid \<Rightarrow> grid" where
  "clear_visible bg g0 =
     (let g = bump_mutations g0; sb = scrollback_len g
      in (map_lines (row_reset bg) sb (length (gr_raw g)) g)
           \<lparr>gr_dirty := mark_rows 0 (gr_rows g) (gr_rows g) (gr_cols g) (gr_dirty g)\<rparr>)"

definition fill_alignment_pattern :: "grid \<Rightarrow> grid" where
  "fill_alignment_pattern g0 =
     (let g = bump_mutations g0; sb = scrollback_len g
      in (map_lines row_fill_alignment sb (length (gr_raw g)) g)
           \<lparr>gr_dirty := mark_rows 0 (gr_rows g) (gr_rows g) (gr_cols g) (gr_dirty g)\<rparr>)"

definition clear_below :: "usize \<Rightarrow> color \<Rightarrow> grid \<Rightarrow> grid" where
  "clear_below start_row bg g0 =
     (let g = bump_mutations g0; sb = scrollback_len g
      in (map_lines (row_reset bg) (sb + start_row) (length (gr_raw g)) g)
           \<lparr>gr_dirty := mark_rows start_row (gr_rows g) (gr_rows g) (gr_cols g) (gr_dirty g)\<rparr>)"

definition clear_above :: "usize \<Rightarrow> color \<Rightarrow> grid \<Rightarrow> grid option" where
  "clear_above end_row bg g0 =
     (let g = bump_mutations g0; sb = scrollback_len g
      in if length (gr_raw g) \<le> sb + end_row then None
         else Some ((map_lines (row_reset bg) sb (sb + end_row + 1) g)
                \<lparr>gr_dirty := mark_rows 0 (end_row + 1) (gr_rows g) (gr_cols g) (gr_dirty g)\<rparr>))"

definition clear_scrollback :: "grid \<Rightarrow> grid" where
  "clear_scrollback g =
     (let sb = scrollback_len g in g\<lparr>gr_raw := drop sb (gr_raw g), gr_evicted := sat_add64 (gr_evicted g) sb\<rparr>)"

definition erase_chars :: "usize \<Rightarrow> usize \<Rightarrow> usize \<Rightarrow> color \<Rightarrow> grid \<Rightarrow> grid option" where
  "erase_chars row col count bg g0 =
     (let g = bump_mutations g0
      in case visible_row g row of
           None \<Rightarrow> None
         | Some r \<Rightarrow>
             let (d, r') = erase_chars_expanding_wide_pairs col count bg r;
                 g = set_line g (scrollback_len g + row) r'
             in Some (case d of
                        None \<Rightarrow> g
                      | Some rng \<Rightarrow> g\<lparr>gr_dirty := mark_range row rng (gr_rows g) (gr_cols g) (gr_dirty g)\<rparr>))"

definition insert_chars :: "usize \<Rightarrow> usize \<Rightarrow> usize \<Rightarrow> grid \<Rightarrow> grid option" where
  "insert_chars row col count g0 =
     (let g = bump_mutations g0
      in case visible_row g row of
           None \<Rightarrow> None
         | Some r \<Rightarrow>
             let len = row_len r; g = set_line g (scrollback_len g + row) (row_insert_chars col count r)
             in Some (if 0 < count \<and> col < len
                      then g\<lparr>gr_dirty := mark_range row (col - 1, len) (gr_rows g) (gr_cols g) (gr_dirty g)\<rparr> else g))"

definition delete_chars :: "usize \<Rightarrow> usize \<Rightarrow> usize \<Rightarrow> grid \<Rightarrow> grid option" where
  "delete_chars row col count g0 =
     (let g = bump_mutations g0
      in case visible_row g row of
           None \<Rightarrow> None
         | Some r \<Rightarrow>
             let len = row_len r; actual = min count (len - col)
             in if actual = 0 then Some g
                else
                  let g = set_line g (scrollback_len g + row) (row_delete_chars col actual r)
                  in Some (g\<lparr>gr_dirty := mark_range row (col - 1, len) (gr_rows g) (gr_cols g) (gr_dirty g)\<rparr>))"

end
