(* ===== verification/Vt_Scroll.thy ===== *)
theory Vt_Scroll
  imports Vt_Grid
begin

text \<open>
  The grid invariant and what scrolling does to the lines.  The bulk operations of the code (rotation
  by three reversals, recycling of evicted rows, trimming) are shown equal to list surgery: a region
  loses lines at one end and gains blank ones at the other.
\<close>

section \<open>The invariant\<close>

definition grid_ok :: "grid \<Rightarrow> bool" where
  "grid_ok g \<longleftrightarrow> gr_rows g \<le> length (gr_raw g) \<and> (\<forall>r \<in> set (gr_raw g). row_ok (gr_cols g) r) \<and>
     dirty_ok (gr_rows g) (gr_cols g) (gr_dirty g) \<and> ds_enabled (gr_dirty g) = gc_track_dirty (gr_config g) \<and>
     gr_evicted g \<le> u64_max"

text \<open>Within the cap, the lines fill no more than the viewport and the configured scrollback.\<close>

definition within_cap :: "grid \<Rightarrow> bool" where
  "within_cap g \<longleftrightarrow> length (gr_raw g) \<le> gr_rows g + gc_max_scrollback (gr_config g)"

lemma grid_okD:
  assumes "grid_ok g"
  shows "gr_rows g \<le> length (gr_raw g)" "scrollback_len g + gr_rows g = length (gr_raw g)"
    "i < length (gr_raw g) \<Longrightarrow> row_ok (gr_cols g) (gr_raw g ! i)"
    "dirty_ok (gr_rows g) (gr_cols g) (gr_dirty g)" "ds_enabled (gr_dirty g) = gc_track_dirty (gr_config g)"
    "gr_evicted g \<le> u64_max"
  using assms by (auto simp: grid_ok_def scrollback_len_def)

lemma dirty_enabled_new [simp]: "ds_enabled (dirty_new rows e) = e"
  by (simp add: dirty_new_def)

lemma grid_new_ok [simp]: "grid_ok (grid_new rows cols config)" "within_cap (grid_new rows cols config)"
  by (auto simp: grid_ok_def within_cap_def grid_new_def)

section \<open>Lists\<close>

lemma length_swap_inwards [simp]: "length (swap_inwards i j xs) = length xs"
  by (induction i j xs rule: swap_inwards.induct) (subst swap_inwards.simps, simp)

lemma swap_inwards_nth:
  "j < length xs \<Longrightarrow> k < length xs \<Longrightarrow> swap_inwards i j xs ! k = (if i \<le> k \<and> k \<le> j then xs ! (i + j - k) else xs ! k)"
proof (induction i j xs rule: swap_inwards.induct)
  case (1 i j xs)
  show ?case
  proof (cases "i < j")
    case True
    have "swap_inwards i j xs ! k = swap_inwards (i + 1) (j - 1) (xs[i := xs ! j, j := xs ! i]) ! k"
      using True by (subst swap_inwards.simps) simp
    also have "\<dots> = (if i + 1 \<le> k \<and> k \<le> j - 1 then xs[i := xs ! j, j := xs ! i] ! (i + 1 + (j - 1) - k) else xs[i := xs ! j, j := xs ! i] ! k)"
      using 1 True by simp
    also have "\<dots> = (if i \<le> k \<and> k \<le> j then xs ! (i + j - k) else xs ! k)"
      using True 1(2,3) by (auto simp: nth_list_update)
    finally show ?thesis .
  next
    case False
    then have "i \<le> k \<and> k \<le> j \<Longrightarrow> i + j - k = k" by auto
    then show ?thesis using False by (subst swap_inwards.simps) auto
  qed
qed

lemma length_reverse_range [simp]: "length (reverse_range a b xs) = length xs"
  by (simp add: reverse_range_def)

lemma reverse_range_nth:
  "b \<le> length xs \<Longrightarrow> k < length xs \<Longrightarrow> reverse_range a b xs ! k = (if a \<le> k \<and> k < b then xs ! (a + b - 1 - k) else xs ! k)"
  by (auto simp: reverse_range_def swap_inwards_nth)

lemma length_rotate_range [simp]: "length (rotate_range_left a b n xs) = length xs"
  by (simp add: rotate_range_left_def Let_def)

text \<open>Three reversals rotate: within the range, line \<open>k\<close> is the one \<open>n\<close> further on, cyclically.\<close>

lemma rotate_range_nth:
  assumes "b \<le> length xs" "k < length xs" "a + n \<le> b"
  shows "rotate_range_left a b n xs ! k =
    (if a \<le> k \<and> k < b then (if k + n < b then xs ! (k + n) else xs ! (k + n - (b - a))) else xs ! k)"
proof (cases "n = 0 \<or> n = b - a")
  case True
  then show ?thesis using assms by (auto simp: rotate_range_left_def Let_def)
next
  case False
  then have n: "0 < n" "a + n < b" "n mod (b - a) = n" using assms(3) by auto
  let ?r = "reverse_range a b (reverse_range (a + n) b (reverse_range a (a + n) xs))"
  have "rotate_range_left a b n xs = ?r" using n by (simp add: rotate_range_left_def)
  moreover have "?r ! k = (if a \<le> k \<and> k < b then (if k + n < b then xs ! (k + n) else xs ! (k + n - (b - a))) else xs ! k)"
    using n assms by (auto simp: reverse_range_nth intro!: arg_cong [of _ _ "(!) xs"])
  ultimately show ?thesis by simp
qed

lemma length_fold_update [simp]: "length (fold (\<lambda>i raw. raw[i := f (raw ! i)]) is raw) = length raw"
  by (induction "is" arbitrary: raw) auto

lemma fold_update_nth:
  "k < length raw \<Longrightarrow> fold (\<lambda>i raw. raw[i := f (raw ! i)]) [a..<b] raw ! k = (if a \<le> k \<and> k < b then f (raw ! k) else raw ! k)"
proof (induction b)
  case (Suc b)
  then show ?case by (cases "a \<le> b"; cases "k = b") (auto simp: nth_list_update)
qed simp

lemma blank_row_new [simp]: "blank_row cols r = row_new cols"
  by (simp add: blank_row_def reset_is_new)

lemma blank_rows_nth:
  "k < length raw \<Longrightarrow> fold (blank_row_at cols) [a..<b] raw ! k = (if a \<le> k \<and> k < b then row_new cols else raw ! k)"
  "length (fold (blank_row_at cols) [a..<b] raw) = length raw"
proof -
  have e: "blank_row_at cols = (\<lambda>i raw. raw[i := (\<lambda>_. row_new cols) (raw ! i)])" by (intro ext) (simp add: blank_row_at_def)
  show "k < length raw \<Longrightarrow> fold (blank_row_at cols) [a..<b] raw ! k = (if a \<le> k \<and> k < b then row_new cols else raw ! k)"
    using fold_update_nth [of k raw "\<lambda>_. row_new cols" a b] by (simp add: e)
  show "length (fold (blank_row_at cols) [a..<b] raw) = length raw" using length_fold_update [of "\<lambda>_. row_new cols" "[a..<b]" raw] by (simp add: e)
qed

section \<open>Scrolling a part of the screen\<close>

definition region_up :: "usize \<Rightarrow> usize \<Rightarrow> usize \<Rightarrow> row \<Rightarrow> row list \<Rightarrow> row list" where
  "region_up start stop n blank raw = take start raw @ drop (start + n) (take stop raw) @ replicate n blank @ drop stop raw"

definition region_down :: "usize \<Rightarrow> usize \<Rightarrow> usize \<Rightarrow> row \<Rightarrow> row list \<Rightarrow> row list" where
  "region_down start stop n blank raw = take start raw @ replicate n blank @ drop start (take (stop - n) raw) @ drop stop raw"

lemma region_up_nth:
  assumes "start + n \<le> stop" "stop \<le> length raw" "k < length raw"
  shows "region_up start stop n blank raw ! k =
    (if start \<le> k \<and> k + n < stop then raw ! (k + n) else if start \<le> k \<and> k < stop then blank else raw ! k)"
  using assms by (auto simp: region_up_def nth_append min_def not_less intro!: arg_cong [of _ _ "(!) raw"])

lemma region_down_nth:
  assumes "start + n \<le> stop" "stop \<le> length raw" "k < length raw"
  shows "region_down start stop n blank raw ! k =
    (if start \<le> k \<and> k < start + n then blank else if start + n \<le> k \<and> k < stop then raw ! (k - n) else raw ! k)"
  using assms by (auto simp: region_down_def nth_append min_def not_less intro!: arg_cong [of _ _ "(!) raw"])

lemma length_region [simp]:
  "start + n \<le> stop \<Longrightarrow> stop \<le> length raw \<Longrightarrow> length (region_up start stop n blank raw) = length raw"
  "start + n \<le> stop \<Longrightarrow> stop \<le> length raw \<Longrightarrow> length (region_down start stop n blank raw) = length raw"
  by (simp_all add: region_up_def region_down_def)

lemma rotate_blank_up:
  assumes "start + n \<le> stop" "stop \<le> length raw"
  shows "fold (blank_row_at cols) [stop - n..<stop] (rotate_range_left start stop n raw) = region_up start stop n (row_new cols) raw"
  using assms by (intro nth_equalityI) (auto simp: blank_rows_nth rotate_range_nth region_up_nth)

lemma rotate_blank_down:
  assumes "start + n \<le> stop" "stop \<le> length raw"
  shows "fold (blank_row_at cols) [start..<start + n] (rotate_range_left start stop (stop - start - n) raw) =
    region_down start stop n (row_new cols) raw"
  using assms by (intro nth_equalityI) (auto simp: blank_rows_nth rotate_range_nth region_down_nth intro!: arg_cong [of _ _ "(!) raw"])

section \<open>Scrolling the whole screen\<close>

lemma sat_add64_assoc: "sat_add64 (sat_add64 a b) c = sat_add64 a (b + c)"
  by (simp add: sat_add64_def)

lemma sat_add64_0 [simp]: "a \<le> u64_max \<Longrightarrow> sat_add64 a 0 = a"
  by (simp add: sat_add64_def)

lemma recycle_front_many:
  "k \<le> length raw \<Longrightarrow> ev \<le> u64_max \<Longrightarrow>
    (recycle_front cols ^^ k) (raw, ev) = (drop k raw @ replicate k (row_new cols), sat_add64 ev k)"
proof (induction k)
  case (Suc k)
  then have "drop k raw = raw ! k # drop (Suc k) raw" by (simp add: Cons_nth_drop_Suc)
  then show ?case using Suc by (simp add: sat_add64_assoc replicate_append_same)
qed simp

lemma trim_front_drop: "ev \<le> u64_max \<Longrightarrow> trim_front m raw ev = (drop (length raw - m) raw, sat_add64 ev (length raw - m))"
proof (induction raw arbitrary: ev)
  case (Cons r raw)
  have "sat_add64 ev 1 \<le> u64_max" by (simp add: sat_add64_def)
  then show ?case using Cons by (simp add: sat_add64_assoc Suc_diff_le)
qed simp

definition evicted_lines :: "grid \<Rightarrow> usize \<Rightarrow> usize" where
  "evicted_lines g n = length (gr_raw g) + n - (gr_rows g + gc_max_scrollback (gr_config g))"

lemma full_scroll_lines:
  assumes "n \<le> gr_rows g" "gr_rows g \<le> length (gr_raw g)" "gr_evicted g \<le> u64_max"
  defines "mt \<equiv> gr_rows g + gc_max_scrollback (gr_config g)"
  defines "grow \<equiv> min n (mt - length (gr_raw g))"
  shows "(let (raw, ev) = (recycle_front (gr_cols g) ^^ (n - grow)) (gr_raw g @ replicate grow (row_new (gr_cols g)), gr_evicted g)
      in trim_front mt raw ev) =
    (drop (evicted_lines g n) (gr_raw g @ replicate n (row_new (gr_cols g))), sat_add64 (gr_evicted g) (evicted_lines g n))"
proof -
  let ?b = "row_new (gr_cols g)" and ?k = "n - grow"
  have k: "?k \<le> length (gr_raw g)" using assms by simp
  have bound: "sat_add64 (gr_evicted g) ?k \<le> u64_max" by (simp add: sat_add64_def)
  have "(recycle_front (gr_cols g) ^^ ?k) (gr_raw g @ replicate grow ?b, gr_evicted g) =
      (drop ?k (gr_raw g) @ replicate grow ?b @ replicate ?k ?b, sat_add64 (gr_evicted g) ?k)"
    using k assms(3) by (simp add: recycle_front_many)
  also have "replicate grow ?b @ replicate ?k ?b = replicate n ?b"
    by (metis grow_def le_add_diff_inverse min.cobounded1 replicate_add)
  finally have r: "(recycle_front (gr_cols g) ^^ ?k) (gr_raw g @ replicate grow ?b, gr_evicted g) =
      (drop ?k (gr_raw g) @ replicate n ?b, sat_add64 (gr_evicted g) ?k)" .
  have d: "?k + (length (drop ?k (gr_raw g) @ replicate n ?b) - mt) = evicted_lines g n"
  proof -
    have "n - min n (m - l) + (l - (n - min n (m - l)) + n - m) = l + n - m" if "n \<le> l" "n \<le> m" for l m using that by linarith
    from this [of "length (gr_raw g)" mt] show ?thesis using assms(1,2) by (simp add: evicted_lines_def mt_def grow_def)
  qed
  then have "?k + (n + length (gr_raw g) - (mt + ?k)) = evicted_lines g n" using k by simp
  note d = d this
  have le: "evicted_lines g n \<le> length (gr_raw g)" using assms(1,2) by (simp add: evicted_lines_def)
  show ?thesis unfolding r using k d le by (simp add: trim_front_drop [OF bound] sat_add64_assoc drop_drop add.commute)
qed

section \<open>The operations\<close>

lemma clamp_region_Some:
  "clamp_region g a b = Some (t, m) \<Longrightarrow> t = a \<and> m = min b (gr_rows g - 1) \<and> t \<le> m \<and> m < gr_rows g"
  by (auto simp: clamp_region_def Let_def split: if_splits)

definition whole_screen :: "grid \<Rightarrow> usize \<Rightarrow> usize \<Rightarrow> bool" where
  "whole_screen g t m \<longleftrightarrow> t = 0 \<and> m = gr_rows g - 1"

definition scrolled_up :: "usize \<Rightarrow> usize \<Rightarrow> usize \<Rightarrow> grid \<Rightarrow> grid" where
  "scrolled_up t m n g =
     (if whole_screen g t m
      then g\<lparr>gr_raw := drop (evicted_lines g n) (gr_raw g @ replicate n (row_new (gr_cols g))),
             gr_evicted := sat_add64 (gr_evicted g) (evicted_lines g n)\<rparr>
      else g\<lparr>gr_raw := region_up (scrollback_len g + t) (scrollback_len g + m + 1) n (row_new (gr_cols g)) (gr_raw g)\<rparr>)"

definition tallied :: "usize \<Rightarrow> grid \<Rightarrow> grid" where
  "tallied n g = g\<lparr>gr_mutations := sat_add64 (gr_mutations g) n\<rparr>"

lemma tallied_simps [simp]:
  "gr_raw (tallied n g) = gr_raw g" "gr_rows (tallied n g) = gr_rows g" "gr_cols (tallied n g) = gr_cols g"
  "gr_config (tallied n g) = gr_config g" "gr_dirty (tallied n g) = gr_dirty g" "gr_evicted (tallied n g) = gr_evicted g"
  "scrollback_len (tallied n g) = scrollback_len g" "evicted_lines (tallied n g) = evicted_lines g"
  "whole_screen (tallied n g) = whole_screen g"
  by (simp_all add: tallied_def scrollback_len_def evicted_lines_def whole_screen_def fun_eq_iff)

lemma scroll_up_spec:
  fixes n :: usize
  assumes ok: "grid_ok g" and c: "clamp_region g a b = Some (t, m)"
  defines "k \<equiv> min n (m - t + 1)"
  shows "scroll_up_n a b n g = (if k = 0 then g else mark_scrolled t m (scrolled_up t m k (tallied k g)))"
proof (cases "k = 0")
  case True
  then show ?thesis using c by (simp add: scroll_up_n_def k_def)
next
  case False
  have tm: "t \<le> m" "m < gr_rows g" using clamp_region_Some [OF c] by blast+
  have k: "t + k \<le> m + 1" unfolding k_def using tm by simp
  note okD = grid_okD [OF ok]
  have "k \<le> gr_rows g" using tm k by simp
  note full = full_scroll_lines [OF this okD(1,6)]
  have "scrollback_len g + t + k \<le> scrollback_len g + m + 1" "scrollback_len g + m + 1 \<le> length (gr_raw g)"
    using tm k okD(2) by auto
  note part = rotate_blank_up [OF this, of "gr_cols g"]
  let ?mt = "gr_rows g + gc_max_scrollback (gr_config g)"
  let ?grow = "min k (?mt - length (gr_raw g))"
  obtain raw1 ev1 where r: "(recycle_front (gr_cols g) ^^ (k - ?grow)) (gr_raw g @ replicate ?grow (row_new (gr_cols g)), gr_evicted g) = (raw1, ev1)"
    by fastforce
  have u: "scroll_up_n a b n g = mark_scrolled t m
      (if t = 0 \<and> m = gr_rows g - 1 then
         (tallied k g)\<lparr>gr_raw := fst (trim_front ?mt raw1 ev1), gr_evicted := snd (trim_front ?mt raw1 ev1)\<rparr>
       else (tallied k g)\<lparr>gr_raw := fold (blank_row_at (gr_cols g)) [scrollback_len g + m + 1 - k..<scrollback_len g + m + 1]
               (rotate_range_left (scrollback_len g + t) (scrollback_len g + m + 1) k (gr_raw g))\<rparr>)"
    unfolding scroll_up_n_def c option.case prod.case Let_def k_def [symmetric] using False r
    by (simp add: tallied_def scrollback_len_def split: prod.splits)
  show ?thesis
  proof (cases "whole_screen g t m")
    case True
    then have "t = 0 \<and> m = gr_rows g - 1" by (simp add: whole_screen_def)
    moreover have "trim_front ?mt raw1 ev1 = (drop (evicted_lines g k) (gr_raw g @ replicate k (row_new (gr_cols g))), sat_add64 (gr_evicted g) (evicted_lines g k))"
      using full r by simp
    ultimately have "scroll_up_n a b n g = mark_scrolled t m ((tallied k g)\<lparr>gr_raw := drop (evicted_lines g k) (gr_raw g @ replicate k (row_new (gr_cols g))),
        gr_evicted := sat_add64 (gr_evicted g) (evicted_lines g k)\<rparr>)"
      using u by simp
    then show ?thesis using False True by (simp add: scrolled_up_def)
  next
    case partial: False
    then have "\<not> (t = 0 \<and> m = gr_rows g - 1)" by (simp add: whole_screen_def)
    then have "scroll_up_n a b n g = mark_scrolled t m ((tallied k g)\<lparr>gr_raw := region_up (scrollback_len g + t) (scrollback_len g + m + 1) k (row_new (gr_cols g)) (gr_raw g)\<rparr>)"
      using u part by (simp only: if_False)
    then show ?thesis using False partial by (simp add: scrolled_up_def)
  qed
qed

lemma scroll_up_none: "clamp_region g a b = None \<Longrightarrow> scroll_up_n a b n g = g" "clamp_region g a b = None \<Longrightarrow> scroll_down_n a b n g = g"
  by (simp_all add: scroll_up_n_def scroll_down_n_def)

lemma scroll_down_spec:
  fixes n :: usize
  assumes ok: "grid_ok g" and c: "clamp_region g a b = Some (t, m)"
  defines "k \<equiv> min n (m - t + 1)"
  shows "scroll_down_n a b n g = (if k = 0 then g else mark_scrolled t m
    ((tallied k g)\<lparr>gr_raw := region_down (scrollback_len g + t) (scrollback_len g + m + 1) k (row_new (gr_cols g)) (gr_raw g)\<rparr>))"
proof -
  have tm: "t \<le> m" "m < gr_rows g" using clamp_region_Some [OF c] by blast+
  have k: "t + k \<le> m + 1" unfolding k_def using tm by simp
  note okD = grid_okD [OF ok]
  have "scrollback_len g + t + k \<le> scrollback_len g + m + 1" "scrollback_len g + m + 1 \<le> length (gr_raw g)"
    using tm k okD(2) by auto
  note part = rotate_blank_down [OF this, of "gr_cols g"]
  have "scrollback_len g + m + 1 - (scrollback_len g + t) - k = m - t + 1 - k" using tm by simp
  with part show ?thesis
    unfolding scroll_down_n_def c option.case prod.case Let_def k_def [symmetric] by (simp add: tallied_def scrollback_len_def)
qed

end
