(* ===== verification/Vt_Paint.thy ===== *)
theory Vt_Paint
  imports Vt_Scroll
begin

text \<open>
  What a renderer may rely on.  Every operation of the grid keeps the invariant, and every cell whose
  content it may have changed is in the damage afterwards, together with the damage that was there
  before.  \<open>good g g'\<close> states both for one step.
\<close>

section \<open>Steps that keep the paint\<close>

definition screen :: "grid \<Rightarrow> usize \<Rightarrow> usize \<Rightarrow> cell" where
  "screen g r c = r_cells (gr_raw g ! (scrollback_len g + r)) ! c"

definition damage_of :: "grid \<Rightarrow> (usize \<times> usize) set" where
  "damage_of g = damage (gr_rows g) (gr_cols g) (gr_dirty g)"

text \<open>A cell outside the damage was outside before, in a viewport that had it, with the same content.\<close>

definition keeps_paint :: "grid \<Rightarrow> grid \<Rightarrow> bool" where
  "keeps_paint g g' \<longleftrightarrow> gc_track_dirty (gr_config g') = gc_track_dirty (gr_config g) \<and>
     (gc_track_dirty (gr_config g) \<longrightarrow>
      (\<forall>r < gr_rows g'. \<forall>c < gr_cols g'. (r, c) \<notin> damage_of g' \<longrightarrow>
         r < gr_rows g \<and> c < gr_cols g \<and> (r, c) \<notin> damage_of g \<and> screen g' r c = screen g r c))"

definition good :: "grid \<Rightarrow> grid \<Rightarrow> bool" where
  "good g g' \<longleftrightarrow> grid_ok g' \<and> keeps_paint g g'"

lemma good_trans: "good g g' \<Longrightarrow> good g' g'' \<Longrightarrow> good g g''"
  unfolding good_def keeps_paint_def by metis

lemma good_refl: "grid_ok g \<Longrightarrow> good g g"
  by (simp add: good_def keeps_paint_def)

text \<open>The usual case: the size stays, and the change lies within the new damage.\<close>

lemma goodI:
  assumes ok: "grid_ok g"
    and same: "gr_rows g' = gr_rows g" "gr_cols g' = gr_cols g" "gr_config g' = gr_config g"
    and rows: "gr_rows g \<le> length (gr_raw g')" "\<And>i. i < length (gr_raw g') \<Longrightarrow> row_ok (gr_cols g) (gr_raw g' ! i)"
    and dirty: "dirty_ok (gr_rows g) (gr_cols g) (gr_dirty g')" "ds_enabled (gr_dirty g') = ds_enabled (gr_dirty g)"
    and ev: "gr_evicted g' \<le> u64_max"
    and sub: "damage_of g \<subseteq> damage_of g'"
    and change: "\<And>r c. ds_enabled (gr_dirty g) \<Longrightarrow> r < gr_rows g \<Longrightarrow> c < gr_cols g \<Longrightarrow> (r, c) \<notin> damage_of g' \<Longrightarrow> screen g' r c = screen g r c"
  shows "good g g'"
  using assms by (auto simp: good_def grid_ok_def keeps_paint_def all_set_conv_all_nth)

text \<open>Steps that change neither the lines nor the damage.\<close>

lemma good_aside:
  assumes "grid_ok g" "gr_rows g' = gr_rows g" "gr_cols g' = gr_cols g" "gr_config g' = gr_config g" "gr_raw g' = gr_raw g"
    "gr_dirty g' = gr_dirty g" "gr_evicted g' = gr_evicted g"
  shows "good g g'"
  using assms by (auto simp: good_def grid_ok_def keeps_paint_def damage_of_def screen_def scrollback_len_def)

lemma bump_good: "grid_ok g \<Longrightarrow> good g (bump_mutations g)"
  by (rule good_aside) (simp_all add: bump_mutations_def)

lemma bump_simps [simp]:
  "gr_raw (bump_mutations g) = gr_raw g" "gr_rows (bump_mutations g) = gr_rows g" "gr_cols (bump_mutations g) = gr_cols g"
  "gr_config (bump_mutations g) = gr_config g" "gr_dirty (bump_mutations g) = gr_dirty g"
  "gr_evicted (bump_mutations g) = gr_evicted g" "gr_placements (bump_mutations g) = gr_placements g"
  "gr_placed_bytes (bump_mutations g) = gr_placed_bytes g"
  "scrollback_len (bump_mutations g) = scrollback_len g" "visible_row (bump_mutations g) = visible_row g"
  "grid_ok (bump_mutations g) = grid_ok g"
  by (simp_all add: bump_mutations_def scrollback_len_def visible_row_def grid_ok_def fun_eq_iff Let_def)

section \<open>One row\<close>

lemma dirty_self: "gr_dirty g = d \<Longrightarrow> g\<lparr>gr_dirty := d\<rparr> = g"
  by (cases g) simp

lemma dirty_update_simps [simp]: "scrollback_len (g\<lparr>gr_dirty := d\<rparr>) = scrollback_len g" "visible_row (g\<lparr>gr_dirty := d\<rparr>) = visible_row g"
  by (simp_all add: scrollback_len_def visible_row_def fun_eq_iff Let_def)

lemma set_line_simps [simp]:
  "gr_raw (set_line g i r) = (gr_raw g)[i := r]" "gr_rows (set_line g i r) = gr_rows g" "gr_cols (set_line g i r) = gr_cols g"
  "gr_config (set_line g i r) = gr_config g" "gr_dirty (set_line g i r) = gr_dirty g" "gr_evicted (set_line g i r) = gr_evicted g"
  "scrollback_len (set_line g i r) = scrollback_len g"
  by (simp_all add: set_line_def scrollback_len_def)

lemma line_then_dirty: "set_line (g\<lparr>gr_dirty := d\<rparr>) i r = (set_line g i r)\<lparr>gr_dirty := d\<rparr>"
  by (simp add: set_line_def)

lemma visible_row_Some: "grid_ok g \<Longrightarrow> row < gr_rows g \<Longrightarrow>
    visible_row g row = Some (gr_raw g ! (scrollback_len g + row)) \<and> scrollback_len g + row < length (gr_raw g)"
  using grid_okD(2) by (fastforce simp: visible_row_def)

lemma visible_row_ok: "grid_ok g \<Longrightarrow> visible_row g row = Some r \<Longrightarrow> row < gr_rows g \<and> row_ok (gr_cols g) r"
  using grid_okD(2,3) [of g] by (auto simp: visible_row_def Let_def split: if_splits)

text \<open>Replacing one visible row is good when the damage covers the columns that differ.\<close>

lemma good_line:
  assumes ok: "grid_ok g" and r: "visible_row g row = Some r" and r': "row_ok (gr_cols g) r'"
    and d: "dirty_ok (gr_rows g) (gr_cols g) d" "ds_enabled d = ds_enabled (gr_dirty g)"
      "damage_of g \<subseteq> damage (gr_rows g) (gr_cols g) d"
    and cover: "\<And>c. ds_enabled (gr_dirty g) \<Longrightarrow> c < gr_cols g \<Longrightarrow> (row, c) \<notin> damage (gr_rows g) (gr_cols g) d \<Longrightarrow>
      r_cells r' ! c = r_cells r ! c"
  shows "good g ((set_line g (scrollback_len g + row) r')\<lparr>gr_dirty := d\<rparr>)"
proof (rule goodI [OF ok])
  note okD = grid_okD [OF ok]
  have r0: "r = gr_raw g ! (scrollback_len g + row)" "scrollback_len g + row < length (gr_raw g)"
    using r by (auto simp: visible_row_def Let_def split: if_splits)
  let ?g = "(set_line g (scrollback_len g + row) r')\<lparr>gr_dirty := d\<rparr>"
  fix q c assume q: "ds_enabled (gr_dirty g)" "q < gr_rows g" "c < gr_cols g" "(q, c) \<notin> damage_of ?g"
  then have "(row, c) \<notin> damage (gr_rows g) (gr_cols g) d" if "q = row" using that by (simp add: damage_of_def)
  with q r0 cover show "screen ?g q c = screen g q c"
    by (cases "q = row") (auto simp: screen_def damage_of_def)
next
  fix i assume "i < length (gr_raw ((set_line g (scrollback_len g + row) r')\<lparr>gr_dirty := d\<rparr>))"
  then show "row_ok (gr_cols g) (gr_raw ((set_line g (scrollback_len g + row) r')\<lparr>gr_dirty := d\<rparr>) ! i)"
    using r' grid_okD(3) [OF ok] by (cases "i = scrollback_len g + row") auto
qed (use assms grid_okD [OF ok] in \<open>auto simp: damage_of_def\<close>)

lemma visible_row_mut_good:
  assumes ok: "grid_ok g" and row: "row < gr_rows g" and f: "\<And>r. row_ok (gr_cols g) r \<Longrightarrow> row_ok (gr_cols g) (f r)"
  shows "\<exists>g'. visible_row_mut row f g = Some g' \<and> good g g'" "\<exists>g'. visible_row_mut_marked row f g = Some g' \<and> good g g'"
proof -
  let ?b = "bump_mutations g" and ?r = "gr_raw g ! (scrollback_len g + row)"
  let ?d = "mark_row row (gr_rows g) (gr_cols g) (gr_dirty g)"
  note okD = grid_okD [OF ok]
  have v: "visible_row g row = Some ?r" using visible_row_Some [OF ok row] by simp
  have okb: "grid_ok ?b" using ok by simp
  note m = mark_row_spec [OF okD(4), of row]
  have dmg: "damage_of ?b \<subseteq> damage (gr_rows g) (gr_cols g) ?d" by (simp add: damage_of_def m(3))
  have cover: "c \<in> {..<gr_cols g} \<Longrightarrow> ds_enabled (gr_dirty g) \<Longrightarrow> (row, c) \<in> damage (gr_rows g) (gr_cols g) ?d" for c
    using row by (simp add: m(3))
  have fr: "row_ok (gr_cols g) (f ?r)" using f visible_row_ok [OF ok v] by blast
  have good: "good ?b ((set_line ?b (scrollback_len ?b + row) (f ?r))\<lparr>gr_dirty := d\<rparr>)"
    if "d = ?d \<or> d = gr_dirty g \<and> \<not> should_mark_row (gr_dirty g) row (gr_rows g) (gr_cols g)" for d
  proof (rule good_line [OF okb])
    have e: "damage (gr_rows g) (gr_cols g) d = damage (gr_rows g) (gr_cols g) ?d"
      using that should_mark_row_exact [OF okD(4)] by auto
    show "dirty_ok (gr_rows ?b) (gr_cols ?b) d" "ds_enabled d = ds_enabled (gr_dirty ?b)" using that m okD(4) by auto
    show "damage_of ?b \<subseteq> damage (gr_rows ?b) (gr_cols ?b) d" using dmg e by simp
    show "\<And>c. ds_enabled (gr_dirty ?b) \<Longrightarrow> c < gr_cols ?b \<Longrightarrow> (row, c) \<notin> damage (gr_rows ?b) (gr_cols ?b) d \<Longrightarrow> r_cells (f ?r) ! c = r_cells ?r ! c"
      using cover e by simp
  qed (use v fr in simp_all)
  have gb: "good g ?b" by (rule bump_good [OF ok])
  show "\<exists>g'. visible_row_mut row f g = Some g' \<and> good g g'"
    using v good [of ?d] good [of "gr_dirty g"] good_trans [OF gb]
    by (auto simp: visible_row_mut_def Let_def dirty_self)
  show "\<exists>g'. visible_row_mut_marked row f g = Some g' \<and> good g g'"
    using v good [of ?d] good_trans [OF gb]
    by (auto simp: visible_row_mut_marked_def visible_row_mut_untracked_def Let_def line_then_dirty)
qed

section \<open>Character edits\<close>

lemma edit_good:
  assumes ok: "grid_ok g" and r: "visible_row g row = Some r" and r': "row_ok (gr_cols g) r'"
    and outside: "\<And>c. c < gr_cols g \<Longrightarrow> \<not> (a \<le> c \<and> c < b) \<Longrightarrow> r_cells r' ! c = r_cells r ! c"
  shows "good g ((set_line g (scrollback_len g + row) r')\<lparr>gr_dirty := mark_range row (a, b) (gr_rows g) (gr_cols g) (gr_dirty g)\<rparr>)"
proof (rule good_line [OF ok r r'])
  note m = mark_range_spec [OF grid_okD(4) [OF ok], of row a b]
  have row: "row < gr_rows g" using visible_row_ok [OF ok r] by simp
  let ?d = "mark_range row (a, b) (gr_rows g) (gr_cols g) (gr_dirty g)"
  show "dirty_ok (gr_rows g) (gr_cols g) ?d" "ds_enabled ?d = ds_enabled (gr_dirty g)"
    "damage_of g \<subseteq> damage (gr_rows g) (gr_cols g) ?d" using m(1-3) by (simp_all add: damage_of_def)
  fix c assume "ds_enabled (gr_dirty g)" "c < gr_cols g" "(row, c) \<notin> damage (gr_rows g) (gr_cols g) ?d"
  then have "\<not> (a \<le> c \<and> c < b)" using m(4) row by fastforce
  then show "r_cells r' ! c = r_cells r ! c" using outside \<open>c < gr_cols g\<close> by blast
qed

text \<open>A row edit that changes nothing needs no mark.\<close>

lemma set_line_same: "visible_row g row = Some r \<Longrightarrow> set_line g (scrollback_len g + row) r = g"
  by (cases g) (auto simp: visible_row_def set_line_def Let_def scrollback_len_def list_update_same_conv split: if_splits)

lemma erase_chars_good:
  assumes ok: "grid_ok g" and row: "row < gr_rows g"
  shows "\<exists>g'. erase_chars row col count bg g = Some g' \<and> good g g'"
proof -
  let ?b = "bump_mutations g" and ?r = "gr_raw g ! (scrollback_len g + row)"
  have okb: "grid_ok ?b" and v: "visible_row ?b row = Some ?r" using ok visible_row_Some [OF ok row] by auto
  have rok: "row_ok (gr_cols g) ?r" using visible_row_ok [OF okb v] by simp
  obtain d r' where e: "erase_chars_expanding_wide_pairs col count bg ?r = (d, r')" by fastforce
  have "\<exists>g'. erase_chars row col count bg g = Some g' \<and> good ?b g'"
  proof (cases d)
    case None
    then have "erase_chars row col count bg g = Some ?b"
      using v e erase_spec(1) [OF e] set_line_same [OF v] by (simp add: erase_chars_def Let_def)
    then show ?thesis using good_refl [OF okb] by simp
  next
    case (Some ab)
    obtain a b where ab: "ab = (a, b)" by fastforce
    have r': "r' = ?r\<lparr>r_cells := map_range (cell_reset bg) a b (r_cells ?r)\<rparr>" using erase_spec(2) [OF e] Some ab by simp
    have "row_ok (gr_cols ?b) r'" using erase_row_ok [OF rok, of col count bg] e by simp
    then have "good ?b ((set_line ?b (scrollback_len ?b + row) r')\<lparr>gr_dirty := mark_range row (a, b) (gr_rows ?b) (gr_cols ?b) (gr_dirty ?b)\<rparr>)"
      by (rule edit_good [OF okb v]) (use r' rok in \<open>auto simp: row_ok_def map_range_nth\<close>)
    then show ?thesis using v e Some ab by (simp add: erase_chars_def Let_def)
  qed
  then show ?thesis using good_trans [OF bump_good [OF ok]] by blast
qed

lemma insert_chars_good:
  assumes ok: "grid_ok g" and row: "row < gr_rows g" and count: "0 < count"
  shows "\<exists>g'. insert_chars row col count g = Some g' \<and> good g g'"
proof -
  let ?b = "bump_mutations g" and ?r = "gr_raw g ! (scrollback_len g + row)"
  have okb: "grid_ok ?b" and v: "visible_row ?b row = Some ?r" using ok visible_row_Some [OF ok row] by auto
  have rok: "row_ok (gr_cols g) ?r" using visible_row_ok [OF okb v] by simp
  let ?r' = "row_insert_chars col count ?r"
  have len: "row_len ?r = gr_cols g" "paired (r_cells ?r)" using rok by (auto simp: row_ok_def row_len_def)
  have "\<exists>g'. insert_chars row col count g = Some g' \<and> good ?b g'"
  proof (cases "col < gr_cols g")
    case True
    have "row_ok (gr_cols ?b) ?r'" using row_insert_ok rok by (simp add: row_ok_def)
    then have "good ?b ((set_line ?b (scrollback_len ?b + row) ?r')\<lparr>gr_dirty := mark_range row (col - 1, gr_cols g) (gr_rows ?b) (gr_cols ?b) (gr_dirty ?b)\<rparr>)"
      by (rule edit_good [OF okb v]) (use insert_left_of [OF len(2)] len(1) in \<open>auto simp: row_len_def\<close>)
    then show ?thesis using v len count True by (simp add: insert_chars_def Let_def)
  next
    case False
    then have "?r' = ?r" using len by (cases ?r)
      (simp add: row_insert_chars_def Let_def sanitize_wide_pairs_def shift_right_def map_range_def sanitize_cells_id row_len_def)
    then show ?thesis using v len False set_line_same [OF v] good_refl [OF okb] by (simp add: insert_chars_def Let_def)
  qed
  then show ?thesis using good_trans [OF bump_good [OF ok]] by blast
qed

lemma delete_chars_good:
  assumes ok: "grid_ok g" and row: "row < gr_rows g"
  shows "\<exists>g'. delete_chars row col count g = Some g' \<and> good g g'"
proof -
  let ?b = "bump_mutations g" and ?r = "gr_raw g ! (scrollback_len g + row)"
  have okb: "grid_ok ?b" and v: "visible_row ?b row = Some ?r" using ok visible_row_Some [OF ok row] by auto
  have rok: "row_ok (gr_cols g) ?r" using visible_row_ok [OF okb v] by simp
  let ?n = "min count (gr_cols g - col)"
  let ?r' = "row_delete_chars col ?n ?r"
  have len: "row_len ?r = gr_cols g" "paired (r_cells ?r)" using rok by (auto simp: row_ok_def row_len_def)
  have "\<exists>g'. delete_chars row col count g = Some g' \<and> good ?b g'"
  proof (cases "?n = 0")
    case True
    then show ?thesis using v len good_refl [OF okb] by (simp add: delete_chars_def Let_def)
  next
    case False
    have "row_ok (gr_cols ?b) ?r'" using row_delete_ok rok False by (simp add: row_ok_def)
    then have "good ?b ((set_line ?b (scrollback_len ?b + row) ?r')\<lparr>gr_dirty := mark_range row (col - 1, gr_cols g) (gr_rows ?b) (gr_cols ?b) (gr_dirty ?b)\<rparr>)"
      by (rule edit_good [OF okb v]) (use delete_left_of [OF len(2), of _ col ?n] len(1) False in \<open>auto simp: row_len_def\<close>)
    then show ?thesis using v len False good_refl [OF okb] by (simp add: delete_chars_def Let_def)
  qed
  then show ?thesis using good_trans [OF bump_good [OF ok]] by blast
qed

section \<open>Whole lines\<close>

text \<open>Lines that change in a band of the viewport, all of which is marked.\<close>

lemma good_band:
  assumes ok: "grid_ok g"
    and same: "gr_rows g' = gr_rows g" "gr_cols g' = gr_cols g" "gr_config g' = gr_config g" "gr_evicted g' = gr_evicted g"
    and len: "length (gr_raw g') = length (gr_raw g)"
    and rows: "\<And>i. i < length (gr_raw g) \<Longrightarrow> row_ok (gr_cols g) (gr_raw g' ! i)"
    and d: "gr_dirty g' = mark_rows a b (gr_rows g) (gr_cols g) (gr_dirty g)"
    and outside: "\<And>r. r < gr_rows g \<Longrightarrow> \<not> (a \<le> r \<and> r < b) \<Longrightarrow> gr_raw g' ! (scrollback_len g + r) = gr_raw g ! (scrollback_len g + r)"
  shows "good g g'"
proof (rule goodI [OF ok same(1-3)])
  note m = mark_rows_spec [OF grid_okD(4) [OF ok], of a b]
  show "dirty_ok (gr_rows g) (gr_cols g) (gr_dirty g')" "ds_enabled (gr_dirty g') = ds_enabled (gr_dirty g)" using m(1,2) d by simp_all
  have dmg: "damage_of g' = damage_of g \<union> (if ds_enabled (gr_dirty g) then ({a..<b} \<inter> {..<gr_rows g}) \<times> {..<gr_cols g} else {})"
    using m(3) d same by (simp add: damage_of_def)
  then show "damage_of g \<subseteq> damage_of g'" by simp
  have sb: "scrollback_len g' = scrollback_len g" using len same by (simp add: scrollback_len_def)
  fix r c assume "ds_enabled (gr_dirty g)" "r < gr_rows g" "c < gr_cols g" "(r, c) \<notin> damage_of g'"
  then have "\<not> (a \<le> r \<and> r < b)" using dmg by auto
  then show "screen g' r c = screen g r c" using outside \<open>r < gr_rows g\<close> sb by (simp add: screen_def)
qed (use assms grid_okD [OF ok] in auto)

text \<open>Lines that change anywhere, with the whole frame marked.\<close>

lemma good_frame:
  assumes ok: "grid_ok g" and rows: "gr_rows g' \<le> length (gr_raw g')" "\<And>i. i < length (gr_raw g') \<Longrightarrow> row_ok (gr_cols g') (gr_raw g' ! i)"
    and config: "gr_config g' = gr_config g" and ev: "gr_evicted g' \<le> u64_max"
    and d: "gr_dirty g' = mark_all d" "ds_enabled d = ds_enabled (gr_dirty g)" "length (ds_full_rows d) = gr_rows g'" "length (ds_rows d) = gr_rows g'"
      "\<not> ds_enabled d \<Longrightarrow> dirty_ok (gr_rows g') (gr_cols g') d"
  shows "good g g'"
proof (cases "ds_enabled d")
  case True
  note m = mark_all_spec(1,2) [OF d(3,4) True, of "gr_cols g'"] mark_all_spec(3) [OF d(3,4) True]
  show ?thesis using m assms grid_okD [OF ok] True
    by (auto simp: good_def grid_ok_def keeps_paint_def damage_of_def all_set_conv_all_nth)
next
  case False
  then have "mark_all d = d" by (simp add: mark_all_def)
  then show ?thesis using False assms grid_okD [OF ok]
    by (auto simp: good_def grid_ok_def keeps_paint_def all_set_conv_all_nth)
qed

lemma mark_scrolled_simps [simp]:
  "gr_raw (mark_scrolled t m g) = gr_raw g" "gr_rows (mark_scrolled t m g) = gr_rows g" "gr_cols (mark_scrolled t m g) = gr_cols g"
  "gr_config (mark_scrolled t m g) = gr_config g" "gr_evicted (mark_scrolled t m g) = gr_evicted g"
  by (simp_all add: mark_scrolled_def)

lemma scrolled_good:
  assumes ok: "grid_ok g" and tm: "t \<le> m" "m < gr_rows g"
    and len: "length (gr_raw g') = length (gr_raw g) \<or> whole_screen g t m \<and> gr_rows g \<le> length (gr_raw g')"
    and same: "gr_rows g' = gr_rows g" "gr_cols g' = gr_cols g" "gr_config g' = gr_config g" "gr_dirty g' = gr_dirty g"
    and ev: "gr_evicted g' = gr_evicted g \<or> whole_screen g t m \<and> gr_evicted g' \<le> u64_max"
    and rows: "\<And>i. i < length (gr_raw g') \<Longrightarrow> row_ok (gr_cols g) (gr_raw g' ! i)"
    and outside: "\<And>r. \<not> whole_screen g t m \<Longrightarrow> r < gr_rows g \<Longrightarrow> r < t \<or> m < r \<Longrightarrow>
      gr_raw g' ! (scrollback_len g + r) = gr_raw g ! (scrollback_len g + r)"
  shows "good g (mark_scrolled t m g')"
proof (cases "whole_screen g t m")
  case True
  then have d: "gr_dirty (mark_scrolled t m g') = mark_all (gr_dirty g)" using same by (simp add: mark_scrolled_def whole_screen_def)
  have l: "gr_rows g \<le> length (gr_raw g')" "gr_evicted g' \<le> u64_max" using len ev grid_okD(1,6) [OF ok] by auto
  show ?thesis
    by (rule good_frame [OF ok]) (use d l same rows grid_okD(4) [OF ok] in \<open>auto simp: dirty_ok_def\<close>)
next
  case False
  then have "gr_dirty (mark_scrolled t m g') = mark_rows t (m + 1) (gr_rows g) (gr_cols g) (gr_dirty g)"
    using same by (auto simp: mark_scrolled_def whole_screen_def)
  then show ?thesis by (intro good_band [OF ok]) (use False len ev same rows outside in auto)
qed

lemma scroll_up_good: "grid_ok g \<Longrightarrow> good g (scroll_up_n a b n g)"
proof (cases "clamp_region g a b")
  case None
  then show "grid_ok g \<Longrightarrow> ?thesis" by (simp add: scroll_up_none good_refl)
next
  case (Some tm)
  obtain t m where c: "clamp_region g a b = Some (t, m)" using Some by (cases tm) auto
  assume ok: "grid_ok g"
  have tm: "t \<le> m" "m < gr_rows g" using clamp_region_Some [OF c] by blast+
  define k where "k = min n (m - t + 1)"
  have k: "t + k \<le> m + 1" using tm by (simp add: k_def)
  let ?s = "scrolled_up t m k (tallied k g)" and ?sb = "scrollback_len g"
  note okD = grid_okD [OF ok]
  have fits: "?sb + t + k \<le> ?sb + m + 1" "?sb + m + 1 \<le> length (gr_raw g)" using k tm okD(2) by auto
  have "good g (mark_scrolled t m ?s)"
  proof (rule scrolled_good [OF ok tm])
    have "whole_screen g t m \<Longrightarrow> k \<le> gr_rows g" using k tm by (simp add: whole_screen_def)
    then show "length (gr_raw ?s) = length (gr_raw g) \<or> whole_screen g t m \<and> gr_rows g \<le> length (gr_raw ?s)"
      using fits okD(1) by (auto simp: scrolled_up_def evicted_lines_def)
    show "gr_evicted ?s = gr_evicted g \<or> whole_screen g t m \<and> gr_evicted ?s \<le> u64_max"
      by (auto simp: scrolled_up_def sat_add64_def)
    show "row_ok (gr_cols g) (gr_raw ?s ! i)" if "i < length (gr_raw ?s)" for i
    proof (cases "whole_screen g t m")
      case True
      then show ?thesis using that okD(3) by (auto simp: scrolled_up_def nth_append)
    next
      case False
      then have "gr_raw ?s = region_up (?sb + t) (?sb + m + 1) k (row_new (gr_cols g)) (gr_raw g)" by (simp add: scrolled_up_def)
      then show ?thesis using that fits okD(3) by (auto simp: region_up_nth)
    qed
    fix r assume "\<not> whole_screen g t m" "r < gr_rows g" "r < t \<or> m < r"
    then show "gr_raw ?s ! (?sb + r) = gr_raw g ! (?sb + r)"
      using fits okD(2) by (auto simp: scrolled_up_def region_up_nth)
  qed (simp_all add: scrolled_up_def)
  then show ?thesis using scroll_up_spec [OF ok c, of n] good_refl [OF ok] by (simp add: k_def)
qed

lemma scroll_down_good: "grid_ok g \<Longrightarrow> good g (scroll_down_n a b n g)"
proof (cases "clamp_region g a b")
  case None
  then show "grid_ok g \<Longrightarrow> ?thesis" by (simp add: scroll_up_none good_refl)
next
  case (Some tm)
  obtain t m where c: "clamp_region g a b = Some (t, m)" using Some by (cases tm) auto
  assume ok: "grid_ok g"
  have tm: "t \<le> m" "m < gr_rows g" using clamp_region_Some [OF c] by blast+
  define k where "k = min n (m - t + 1)"
  have k: "t + k \<le> m + 1" using tm by (simp add: k_def)
  let ?sb = "scrollback_len g"
  let ?s = "(tallied k g)\<lparr>gr_raw := region_down (?sb + t) (?sb + m + 1) k (row_new (gr_cols g)) (gr_raw g)\<rparr>"
  note okD = grid_okD [OF ok]
  have fits: "?sb + t + k \<le> ?sb + m + 1" "?sb + m + 1 \<le> length (gr_raw g)" using k tm okD(2) by auto
  have "good g (mark_scrolled t m ?s)"
    by (rule scrolled_good [OF ok tm]) (use fits okD(2,3) in \<open>auto simp: region_down_nth\<close>)
  then show ?thesis using scroll_down_spec [OF ok c, of n] good_refl [OF ok] by (simp add: k_def)
qed

lemma map_lines_simps [simp]:
  "gr_rows (map_lines f a b g) = gr_rows g" "gr_cols (map_lines f a b g) = gr_cols g" "gr_config (map_lines f a b g) = gr_config g"
  "gr_evicted (map_lines f a b g) = gr_evicted g" "length (gr_raw (map_lines f a b g)) = length (gr_raw g)"
  "k < length (gr_raw g) \<Longrightarrow> gr_raw (map_lines f a b g) ! k = (if a \<le> k \<and> k < b then f (gr_raw g ! k) else gr_raw g ! k)"
  by (simp_all add: map_lines_def fold_update_nth)

lemma map_lines_good:
  assumes ok: "grid_ok g" and f: "\<And>r. length (r_cells r) = gr_cols g \<Longrightarrow> row_ok (gr_cols g) (f r)" and i: "i = scrollback_len g + a"
    and b: "b = length (gr_raw g) \<and> e = gr_rows g \<or> b = scrollback_len g + e"
  shows "good g ((map_lines f i b (bump_mutations g))\<lparr>gr_dirty := mark_rows a e (gr_rows g) (gr_cols g) (gr_dirty g)\<rparr>)"
proof (rule good_band [OF ok])
  note okD = grid_okD [OF ok]
  show "row_ok (gr_cols g) (gr_raw ((map_lines f i b (bump_mutations g))\<lparr>gr_dirty := mark_rows a e (gr_rows g) (gr_cols g) (gr_dirty g)\<rparr>) ! k)"
    if "k < length (gr_raw g)" for k
    using that okD(3) [OF that] f by (auto simp: row_ok_def)
  fix r assume "r < gr_rows g" "\<not> (a \<le> r \<and> r < e)"
  then show "gr_raw ((map_lines f i b (bump_mutations g))\<lparr>gr_dirty := mark_rows a e (gr_rows g) (gr_cols g) (gr_dirty g)\<rparr>) ! (scrollback_len g + r) =
      gr_raw g ! (scrollback_len g + r)"
    using b i okD(2) by auto
qed simp_all

lemma clear_good:
  assumes ok: "grid_ok g"
  shows "good g (clear_visible bg g)" "good g (fill_alignment_pattern g)" "good g (clear_below start bg g)"
    "e < gr_rows g \<Longrightarrow> \<exists>g'. clear_above e bg g = Some g' \<and> good g g'"
proof -
  note m = map_lines_good [OF ok]
  show "good g (clear_visible bg g)" unfolding clear_visible_def Let_def bump_simps
    by (rule m) (simp_all add: row_ok_reset)
  show "good g (fill_alignment_pattern g)" unfolding fill_alignment_pattern_def Let_def bump_simps
    by (rule m) (simp_all add: row_ok_alignment)
  show "good g (clear_below start bg g)" unfolding clear_below_def Let_def bump_simps
    by (rule m) (simp_all add: row_ok_reset)
  assume "e < gr_rows g"
  then have "\<not> length (gr_raw g) \<le> scrollback_len g + e" using grid_okD(2) [OF ok] by simp
  moreover have "good g ((map_lines (row_reset bg) (scrollback_len g) (scrollback_len g + e + 1) (bump_mutations g))
      \<lparr>gr_dirty := mark_rows 0 (e + 1) (gr_rows g) (gr_cols g) (gr_dirty g)\<rparr>)"
    by (rule m) (simp_all add: row_ok_reset)
  ultimately show "\<exists>g'. clear_above e bg g = Some g' \<and> good g g'" by (simp add: clear_above_def Let_def)
qed

lemma clear_scrollback_good:
  assumes ok: "grid_ok g"
  shows "good g (clear_scrollback g)"
proof (rule goodI [OF ok])
  note okD = grid_okD [OF ok]
  have sb: "scrollback_len (clear_scrollback g) = 0" by (auto simp: clear_scrollback_def scrollback_len_def Let_def)
  show "\<And>r c. r < gr_rows g \<Longrightarrow> screen (clear_scrollback g) r c = screen g r c"
    using okD(2) by (simp add: screen_def sb) (simp add: clear_scrollback_def Let_def)
qed (use grid_okD [OF ok] in \<open>auto simp: clear_scrollback_def Let_def damage_of_def sat_add64_def\<close>)

lemma mark_all_good: "grid_ok g \<Longrightarrow> good g (mark_all_dirty g)"
  by (rule good_frame [of g "mark_all_dirty g" "gr_dirty g"])
    (auto simp: mark_all_dirty_def dest: grid_okD simp: dirty_ok_def grid_ok_def)

end
