(* ===== verification/Vt_Reflow.thy ===== *)
theory Vt_Reflow
  imports Vt_Paint
begin

text \<open>
  Resizing the grid, the last part of \<^verbatim>\<open>shux-vt/src/grid.rs\<close>.  A change of the width joins soft-wrapped
  rows into logical lines and lays them out again; the alternate screen is cropped or padded instead.
  The positions of the cells are recorded on the way so that the cursor can follow its cell.
\<close>

section \<open>Resizing the canvas\<close>

definition pop_blank_back :: "row list \<Rightarrow> row list" where
  "pop_blank_back raw = (if raw \<noteq> [] \<and> row_is_blank (last raw) then butlast raw else raw)"

definition resize_canvas :: "usize \<Rightarrow> usize \<Rightarrow> grid \<Rightarrow> grid" where
  "resize_canvas new_rows new_cols g =
     (let resized = (new_rows \<noteq> gr_rows g \<or> new_cols \<noteq> gr_cols g);
          raw = (if new_cols \<noteq> gr_cols g
                 then map (\<lambda>r. sanitize_wide_pairs ColorDefault (row_resize new_cols cell_empty r)) (gr_raw g)
                 else gr_raw g);
          raw = (if new_rows < gr_rows g then
                   let raw = (pop_blank_back ^^ (gr_rows g - new_rows)) raw
                   in raw @ replicate (new_rows - length raw) (row_new new_cols)
                 else if gr_rows g < new_rows then
                   let lines_needed = new_rows - gr_rows g;
                       from_scrollback = min lines_needed (length raw - gr_rows g)
                   in raw @ replicate (lines_needed - from_scrollback) (row_new new_cols)
                 else raw);
          d = resize_rows new_rows (gr_dirty g)
      in g\<lparr>gr_raw := raw, gr_rows := new_rows, gr_cols := new_cols, gr_dirty := if resized then mark_all d else d\<rparr>)"

section \<open>Logical lines\<close>

record logical_line =
  ll_cells :: "cell list"
  ll_width :: usize

record cursor_anchor =
  ca_line :: usize
  ca_offset :: usize

definition cell_span :: "cell list \<Rightarrow> usize" where
  "cell_span cells = sum_list (map c_width cells)"

definition span_until :: "cell list \<Rightarrow> usize \<Rightarrow> usize" where
  "span_until cells col = cell_span (take (min col (length cells)) cells)"

definition trim_default_trailing_cells :: "cell list \<Rightarrow> cell list" where
  "trim_default_trailing_cells cells = rev (dropWhile (\<lambda>c. \<not> (c_ch c \<noteq> 32 \<or> is_wide_continuation c)) (rev cells))"

record gather_state =
  gs_anchor :: "cursor_anchor option"
  gs_lines :: "logical_line list"
  gs_current :: logical_line

definition gather_row :: "(usize \<times> usize) option \<Rightarrow> gather_state \<Rightarrow> usize \<times> row \<Rightarrow> gather_state" where
  "gather_row cursor_abs s p =
     (let (abs_row, r) = p;
          is_tail = \<not> r_wrapped r;
          row_cells = (if is_tail then trim_default_trailing_cells (r_cells r) else r_cells r);
          anchor = (case cursor_abs of
                      Some (cursor_row, cursor_col) \<Rightarrow>
                        if cursor_row = abs_row
                        then Some \<lparr>ca_line = length (gs_lines s),
                                   ca_offset = ll_width (gs_current s) + span_until (r_cells r) cursor_col\<rparr>
                        else gs_anchor s
                    | None \<Rightarrow> gs_anchor s);
          current = \<lparr>ll_cells = ll_cells (gs_current s) @ row_cells, ll_width = ll_width (gs_current s) + cell_span row_cells\<rparr>
      in if is_tail
         then \<lparr>gs_anchor = anchor, gs_lines = gs_lines s @ [current], gs_current = \<lparr>ll_cells = [], ll_width = 0\<rparr>\<rparr>
         else \<lparr>gs_anchor = anchor, gs_lines = gs_lines s, gs_current = current\<rparr>)"

definition empty_line :: logical_line where
  "empty_line = \<lparr>ll_cells = [], ll_width = 0\<rparr>"

definition gather_lines :: "(usize \<times> usize) option \<Rightarrow> row list \<Rightarrow> cursor_anchor option \<times> logical_line list" where
  "gather_lines cursor_abs raw =
     (let s = foldl (gather_row cursor_abs) \<lparr>gs_anchor = None, gs_lines = [], gs_current = empty_line\<rparr> (List.enumerate 0 raw);
          ls = (if ll_cells (gs_current s) \<noteq> [] then gs_lines s @ [gs_current s] else gs_lines s);
          ls = (if ls = [] then [empty_line] else ls);
          anchor = map_option (\<lambda>a. if ca_line a < length ls
                     then a\<lparr>ca_offset := min (ca_offset a) (ll_width (ls ! ca_line a))\<rparr> else a) (gs_anchor s)
      in (anchor, ls))"

section \<open>Laying a line out\<close>

record reflowed_cell =
  rc_offset :: usize
  rc_row :: usize
  rc_col :: usize
  rc_width :: usize

record reflowed_line =
  rl_start :: usize
  rl_cells :: "reflowed_cell list"
  rl_end_row :: usize
  rl_end_col :: usize
  rl_width :: usize

record lay_state =
  ly_rows :: "row list"
  ly_row :: row
  ly_col :: usize
  ly_offset :: usize
  ly_positions :: "reflowed_cell list"

definition put_cell :: "usize \<Rightarrow> cell \<Rightarrow> row \<Rightarrow> row" where
  "put_cell col c r = r\<lparr>r_cells := (r_cells r)[col := c]\<rparr>"

definition wrap_row :: "usize \<Rightarrow> lay_state \<Rightarrow> lay_state" where
  "wrap_row cols s = s\<lparr>ly_rows := ly_rows s @ [(ly_row s)\<lparr>r_wrapped := True\<rparr>], ly_row := row_new cols, ly_col := 0\<rparr>"

definition lay_cell :: "usize \<Rightarrow> lay_state \<Rightarrow> cell \<Rightarrow> lay_state" where
  "lay_cell cols s0 cell =
     (let width = max (c_width cell) 1;
          s = (if cols \<le> ly_col s0 then wrap_row cols s0 else s0)
      in if cols < width then
           s\<lparr>ly_row := put_cell (ly_col s) (cell_reset (cs_bg (c_style cell)) cell) (ly_row s),
             ly_positions := ly_positions s @ [\<lparr>rc_offset = ly_offset s, rc_row = length (ly_rows s), rc_col = ly_col s, rc_width = 1\<rparr>],
             ly_offset := ly_offset s + width, ly_col := ly_col s + 1\<rparr>
         else
           let s = (if cols < ly_col s + width \<and> 0 < ly_col s then wrap_row cols s else s);
               r = put_cell (ly_col s) cell (ly_row s);
               r = (if width = 2 \<and> ly_col s + 1 < cols then put_cell (ly_col s + 1) wide_continuation r else r)
           in s\<lparr>ly_positions := ly_positions s @ [\<lparr>rc_offset = ly_offset s, rc_row = length (ly_rows s), rc_col = ly_col s, rc_width = width\<rparr>],
                ly_row := r, ly_offset := ly_offset s + width, ly_col := ly_col s + min width cols\<rparr>)"

definition append_reflowed_line :: "usize \<Rightarrow> row list \<Rightarrow> logical_line \<Rightarrow> row list \<times> reflowed_line" where
  "append_reflowed_line cols rows line =
     (let s = foldl (lay_cell cols) \<lparr>ly_rows = rows, ly_row = row_new cols, ly_col = 0, ly_offset = 0, ly_positions = []\<rparr>
                (filter (\<lambda>c. \<not> is_wide_continuation c) (ll_cells line))
      in (ly_rows s @ [ly_row s],
          \<lparr>rl_start = length rows, rl_cells = ly_positions s, rl_end_row = length (ly_rows s),
           rl_end_col = min (ly_col s) (cols - 1), rl_width = ll_width line\<rparr>))"

definition position_for_offset :: "reflowed_line \<Rightarrow> usize \<Rightarrow> usize \<times> usize" where
  "position_for_offset l off =
     (let off = min off (rl_width l)
      in if off = rl_width l then (rl_end_row l, rl_end_col l)
         else case List.find (\<lambda>c. rc_offset c \<le> off \<and> off < rc_offset c + rc_width c) (rl_cells l) of
                Some c \<Rightarrow> (rc_row c, rc_col c + (off - rc_offset c))
              | None \<Rightarrow> (rl_start l, 0))"

fun lay_lines :: "usize \<Rightarrow> row list \<Rightarrow> logical_line list \<Rightarrow> row list \<times> reflowed_line list" where
  "lay_lines cols rows [] = (rows, [])"
| "lay_lines cols rows (l # ls) =
     (let (rows, m) = append_reflowed_line cols rows l; (rows, ms) = lay_lines cols rows ls in (rows, m # ms))"

text \<open>The loops that fit the rows to the viewport and the scrollback budget.\<close>

definition pad_rows :: "usize \<Rightarrow> usize \<Rightarrow> row list \<Rightarrow> row list" where
  "pad_rows n cols rows = rows @ replicate (n - length rows) (row_new cols)"

function pop_blank_while :: "usize \<Rightarrow> row list \<Rightarrow> row list" where
  "pop_blank_while keep rows =
     (if keep < length rows \<and> row_is_blank (last rows) then pop_blank_while keep (butlast rows) else rows)"
  by pat_completeness auto
termination by (relation "measure (length \<circ> snd)") auto

declare pop_blank_while.simps [simp del]

definition fit_rows :: "usize \<Rightarrow> usize \<Rightarrow> usize \<Rightarrow> usize \<Rightarrow> row list \<Rightarrow> usize \<times> row list" where
  "fit_rows old_scrollback max_scrollback new_rows new_cols rows =
     (let rows = pad_rows new_rows new_cols rows;
          rows = pop_blank_while (min old_scrollback max_scrollback + new_rows) rows;
          rows = pad_rows new_rows new_cols rows;
          dropped = length rows - (new_rows + max_scrollback)
      in (dropped, drop dropped rows))"

definition visible_cursor_from_abs :: "grid \<Rightarrow> usize \<Rightarrow> usize \<Rightarrow> usize \<times> usize" where
  "visible_cursor_from_abs g abs_row col = (min (abs_row - scrollback_len g) (gr_rows g - 1), min col (gr_cols g - 1))"

definition abs_cursor_for_anchor :: "grid \<Rightarrow> reflowed_line list \<Rightarrow> cursor_anchor \<Rightarrow> usize \<Rightarrow> usize \<times> usize" where
  "abs_cursor_for_anchor g line_ranges anchor dropped_rows =
     (if ca_line anchor < length line_ranges
      then let (abs_row, col) = position_for_offset (line_ranges ! ca_line anchor) (ca_offset anchor) in (abs_row - dropped_rows, col)
      else (scrollback_len g, 0))"

definition resize_reflowing_columns ::
  "usize \<Rightarrow> usize \<Rightarrow> (usize \<times> usize) option \<Rightarrow> grid \<Rightarrow> (usize \<times> usize) option \<times> grid" where
  "resize_reflowing_columns new_rows new_cols cursor g0 =
     (let old_scrollback_len = scrollback_len g0;
          cursor_abs = map_option (\<lambda>(row, col). (old_scrollback_len + row, col)) cursor;
          (anchor, logical_lines) = gather_lines cursor_abs (gr_raw g0);
          (reflowed, line_ranges) = lay_lines new_cols [] logical_lines;
          (dropped_rows, reflowed) = fit_rows old_scrollback_len (gc_max_scrollback (gr_config g0)) new_rows new_cols reflowed;
          g = g0\<lparr>gr_evicted := sat_add64 (gr_evicted g0) dropped_rows, gr_raw := reflowed, gr_rows := new_rows, gr_cols := new_cols,
                 gr_dirty := mark_all (resize_rows new_rows (gr_dirty g0))\<rparr>
      in (map_option (\<lambda>a. let (abs_row, col) = abs_cursor_for_anchor g line_ranges a dropped_rows
                         in visible_cursor_from_abs g abs_row col) anchor, g))"

definition resize_with_cursor ::
  "usize \<Rightarrow> usize \<Rightarrow> (usize \<times> usize) option \<Rightarrow> grid \<Rightarrow> (usize \<times> usize) option \<times> grid" where
  "resize_with_cursor new_rows new_cols cursor g =
     (if new_cols \<noteq> gr_cols g \<and> 0 < new_cols \<and> 0 < new_rows then resize_reflowing_columns new_rows new_cols cursor g
      else
        let old_abs_cursor = map_option (\<lambda>(row, col). (scrollback_len g + row, col)) cursor;
            g = resize_canvas new_rows new_cols g
        in (map_option (\<lambda>(abs_row, col). visible_cursor_from_abs g abs_row col) old_abs_cursor, g))"

definition grid_resize :: "usize \<Rightarrow> usize \<Rightarrow> grid \<Rightarrow> grid" where
  "grid_resize new_rows new_cols g = snd (resize_with_cursor new_rows new_cols None g)"

section \<open>The canvas\<close>

lemma length_resize_rows [simp]: "length (ds_full_rows (resize_rows n d)) = n" "length (ds_rows (resize_rows n d)) = n"
  "ds_enabled (resize_rows n d) = ds_enabled d"
  by (simp_all add: resize_rows_def)

lemma resize_rows_id: "dirty_ok rows cols d \<Longrightarrow> resize_rows rows d = d"
  by (cases d) (simp add: resize_rows_def dirty_ok_def)

lemma resize_rows_untracked: "dirty_ok rows cols d \<Longrightarrow> \<not> ds_enabled d \<Longrightarrow> dirty_ok n cols' (resize_rows n d)"
proof -
  assume ok: "dirty_ok rows cols d" and e: "\<not> ds_enabled d"
  then have "\<not> ds_any_dirty d" by (auto simp: dirty_ok_def split: if_splits)
  with ok e have "d = dirty_new rows False" using dirty_ok_not_dirty by fastforce
  then have "resize_rows n d = dirty_new n False"
    by (cases "n \<le> rows") (simp_all add: resize_rows_def dirty_new_def replicate_add [symmetric] min_def)
  then show ?thesis by simp
qed

lemma resized_good:
  assumes ok: "grid_ok g" and rows: "gr_rows g' \<le> length (gr_raw g')" "\<And>r. r \<in> set (gr_raw g') \<Longrightarrow> row_ok (gr_cols g') r"
    and "gr_config g' = gr_config g" "gr_evicted g' \<le> u64_max" "gr_dirty g' = mark_all (resize_rows (gr_rows g') (gr_dirty g))"
  shows "good g g'"
  by (rule good_frame [OF ok, where d = "resize_rows (gr_rows g') (gr_dirty g)"])
    (use assms resize_rows_untracked [OF grid_okD(4) [OF ok]] in auto)

lemma pop_blank_many:
  "set ((pop_blank_back ^^ n) raw) \<subseteq> set raw" "length raw - n \<le> length ((pop_blank_back ^^ n) raw)"
proof (induction n)
  case (Suc n)
  case 1 then show ?case using Suc by (auto simp: pop_blank_back_def dest: in_set_butlastD)
  case 2 then show ?case using Suc by (auto simp: pop_blank_back_def)
qed simp_all

lemma resize_canvas_good:
  assumes ok: "grid_ok g"
  shows "good g (resize_canvas rows cols g)"
proof (cases "rows = gr_rows g \<and> cols = gr_cols g")
  case True
  then have "resize_canvas rows cols g = g"
    using resize_rows_id [OF grid_okD(4) [OF ok]] by (cases g) (simp add: resize_canvas_def)
  then show ?thesis using good_refl [OF ok] by simp
next
  case False
  note okD = grid_okD [OF ok]
  define raw1 where "raw1 = (if cols \<noteq> gr_cols g
      then map (\<lambda>r. sanitize_wide_pairs ColorDefault (row_resize cols cell_empty r)) (gr_raw g) else gr_raw g)"
  have r1: "length raw1 = length (gr_raw g)" "\<And>r. r \<in> set raw1 \<Longrightarrow> row_ok cols r"
    using ok by (auto simp: raw1_def grid_ok_def row_ok_sanitize split: if_splits)
  let ?g = "resize_canvas rows cols g"
  have g: "gr_rows ?g = rows" "gr_cols ?g = cols" "gr_config ?g = gr_config g" "gr_evicted ?g = gr_evicted g"
    "gr_dirty ?g = mark_all (resize_rows rows (gr_dirty g))"
    using False by (auto simp: resize_canvas_def Let_def)
  consider (shrink) "rows < gr_rows g" | (grow) "gr_rows g < rows" | (same) "rows = gr_rows g" by linarith
  then have "rows \<le> length (gr_raw ?g) \<and> (\<forall>r \<in> set (gr_raw ?g). row_ok cols r)"
  proof cases
    case shrink
    let ?p = "(pop_blank_back ^^ (gr_rows g - rows)) raw1"
    have "gr_raw ?g = ?p @ replicate (rows - length ?p) (row_new cols)"
      using shrink by (simp add: resize_canvas_def Let_def raw1_def)
    then show ?thesis using pop_blank_many(1) [of "gr_rows g - rows" raw1] r1 by auto
  next
    case grow
    have "gr_raw ?g = raw1 @ replicate (rows - gr_rows g - min (rows - gr_rows g) (length raw1 - gr_rows g)) (row_new cols)"
      using grow by (simp add: resize_canvas_def Let_def raw1_def)
    then show ?thesis using r1 okD(1) by auto
  next
    case same
    then have "gr_raw ?g = raw1" by (simp add: resize_canvas_def Let_def raw1_def)
    then show ?thesis using r1 okD(1) same by auto
  qed
  then show ?thesis by (intro resized_good [OF ok]) (use g okD(6) in auto)
qed

section \<open>The laid out rows\<close>

text \<open>While a line is laid out, the current row is in order, and blank from the next column on.\<close>

definition lay_ok :: "usize \<Rightarrow> lay_state \<Rightarrow> bool" where
  "lay_ok cols s \<longleftrightarrow> (\<forall>r \<in> set (ly_rows s). row_ok cols r) \<and> row_ok cols (ly_row s) \<and>
     (\<forall>i. ly_col s \<le> i \<and> i < cols \<longrightarrow> r_cells (ly_row s) ! i = cell_empty)"

lemma put_cell_paired:
  assumes "paired cells" "col < length cells" "\<not> is_wide c" "\<not> is_wide_continuation c" "cells ! col = cell_empty"
  shows "paired (cells[col := c])"
  unfolding paired_def
proof (intro allI impI)
  fix i assume i: "i < length (cells[col := c])"
  then have i': "i < length cells" by simp
  note p = pairedD [OF assms(1) i']
  have "head_ok (cells[col := c]) i" using p assms i' by (cases "i = col"; cases "i + 1 = col") (auto simp: head_ok_def)
  moreover have "tail_ok (cells[col := c]) i" using p assms i' by (cases "i = col"; cases "i = col + 1") (auto simp: tail_ok_def nth_list_update)
  ultimately show "in_order (cells[col := c]) i" ..
qed

lemma put_wide_paired:
  assumes "paired cells" "col + 1 < length cells" "is_wide c" "cells ! col = cell_empty" "cells ! (col + 1) = cell_empty"
  shows "paired (cells[col := c, col + 1 := wide_continuation])"
  unfolding paired_def
proof (intro allI impI)
  fix i assume i: "i < length (cells[col := c, col + 1 := wide_continuation])"
  then have i': "i < length cells" by simp
  note p = pairedD [OF assms(1) i']
  have e: "\<not> is_wide (cells ! col)" "\<not> is_wide (cells ! (col + 1))" "\<not> is_wide_continuation (cells ! col)" "\<not> is_wide_continuation (cells ! (col + 1))"
    using assms(4,5) by simp_all
  consider "i = col" | "i = col + 1" | "i + 1 = col" | "i = col + 2" | "i + 1 < col" | "col + 2 < i" by linarith
  then show "in_order (cells[col := c, col + 1 := wide_continuation]) i"
    by cases (use p e assms(2,3) i' in \<open>auto simp: head_ok_def tail_ok_def nth_list_update\<close>)
qed

lemma wrap_row_ok: "lay_ok cols s \<Longrightarrow> lay_ok cols (wrap_row cols s)"
  using row_ok_new [of cols] by (auto simp: lay_ok_def wrap_row_def row_ok_def)

lemma lay_cell_ok:
  assumes ok: "lay_ok cols s0" and c: "\<not> is_wide_continuation c" and cols: "0 < cols"
  shows "lay_ok cols (lay_cell cols s0 c)"
proof -
  let ?w = "max (c_width c) 1"
  define s where "s = (if cols \<le> ly_col s0 then wrap_row cols s0 else s0)"
  have s: "lay_ok cols s" "ly_col s < cols" using ok wrap_row_ok cols by (auto simp: s_def wrap_row_def)
  show ?thesis
  proof (cases "cols < ?w")
    case True
    let ?r = "put_cell (ly_col s) (cell_reset (cs_bg (c_style c)) c) (ly_row s)"
    have "row_ok cols ?r" using s by (auto simp: lay_ok_def row_ok_def put_cell_def intro!: put_cell_paired)
    then show ?thesis using True s
      by (auto simp: lay_cell_def Let_def s_def [symmetric] lay_ok_def put_cell_def)
  next
    case False
    define t where "t = (if cols < ly_col s + ?w \<and> 0 < ly_col s then wrap_row cols s else s)"
    have t: "lay_ok cols t" "ly_col t + ?w \<le> cols"
      using s wrap_row_ok False by (auto simp: t_def wrap_row_def)
    let ?r = "put_cell (ly_col t) c (ly_row t)"
    let ?r2 = "if ?w = 2 \<and> ly_col t + 1 < cols then put_cell (ly_col t + 1) wide_continuation ?r else ?r"
    have blank: "r_cells (ly_row t) ! i = cell_empty" if "ly_col t \<le> i" "i < cols" for i using t(1) that by (simp add: lay_ok_def)
    have len: "length (r_cells (ly_row t)) = cols" "paired (r_cells (ly_row t))" using t(1) by (auto simp: lay_ok_def row_ok_def)
    have "row_ok cols ?r2"
    proof (cases "is_wide c")
      case True
      then have "?w = 2" by (simp add: is_wide_def)
      then show ?thesis using True t(2) len blank put_wide_paired [of "r_cells (ly_row t)" "ly_col t" c]
        by (auto simp: row_ok_def put_cell_def)
    next
      case plain: False
      then have "?w \<noteq> 2" by (auto simp: is_wide_def max_def split: if_splits)
      then show ?thesis using plain c t(2) len blank put_cell_paired [of "r_cells (ly_row t)" "ly_col t" c]
        by (auto simp: row_ok_def put_cell_def)
    qed
    moreover have "r_cells ?r2 ! i = cell_empty" if "ly_col t + ?w \<le> i" "i < cols" for i
      using that blank [of i] by (auto simp: put_cell_def)
    moreover have "ly_rows (lay_cell cols s0 c) = ly_rows t" "ly_row (lay_cell cols s0 c) = ?r2"
      "ly_col (lay_cell cols s0 c) = ly_col t + ?w"
      unfolding lay_cell_def Let_def s_def [symmetric] t_def [symmetric] using False by simp_all
    ultimately show ?thesis using t(1) by (simp add: lay_ok_def)
  qed
qed

end
