(* ===== verification/Vt_Resize.thy ===== *)
theory Vt_Resize
  imports Vt_Reflow
begin

text \<open>
  What a resize keeps.  Every row that is laid out again is in order, the scrollback budget holds
  afterwards, the text survives except for what the budget drops at the front, and the cursor stays
  on the character it was on.
\<close>

section \<open>Text\<close>

definition inky :: "cell \<Rightarrow> bool" where
  "inky c \<longleftrightarrow> \<not> is_wide_continuation c \<and> c_ch c \<noteq> 32"

definition ink_of :: "cell list \<Rightarrow> cell list" where
  "ink_of cells = filter inky cells"

definition ink :: "row list \<Rightarrow> cell list" where
  "ink rows = concat (map (\<lambda>r. ink_of (r_cells r)) rows)"

lemma ink_simps [simp]:
  "ink [] = []" "ink (r # rs) = ink_of (r_cells r) @ ink rs" "ink (rs @ rs') = ink rs @ ink rs'"
  "ink_of [] = []" "ink_of (xs @ ys) = ink_of xs @ ink_of ys" "ink_of (filter (\<lambda>c. \<not> is_wide_continuation c) xs) = ink_of xs"
  "\<not> inky cell_empty" "\<not> inky wide_continuation"
  by (auto simp: ink_def ink_of_def inky_def intro!: filter_cong)

lemma ink_of_none: "(\<And>c. c \<in> set cells \<Longrightarrow> \<not> inky c) \<Longrightarrow> ink_of cells = []"
  by (simp add: ink_of_def filter_empty_conv)

lemma ink_row_new [simp]: "ink_of (r_cells (row_new cols)) = []" "ink_of (replicate n cell_empty) = []" "ink (replicate n (row_new cols)) = []"
  by (auto simp: ink_of_def row_new_def ink_def concat_eq_Nil_conv)

lemma ink_of_blank_tail:
  assumes "length ys = length xs" "i < length xs" "take i ys = take i xs"
    and "\<And>j. i < j \<Longrightarrow> j < length ys \<Longrightarrow> \<not> inky (ys ! j)" "\<And>j. i \<le> j \<Longrightarrow> j < length xs \<Longrightarrow> \<not> inky (xs ! j)"
  shows "ink_of ys = ink_of xs @ ink_of [ys ! i]"
proof -
  have "ys = take i ys @ ys ! i # drop (Suc i) ys" using assms(1,2) by (simp add: id_take_nth_drop)
  moreover have "ink_of (drop (Suc i) ys) = []" using assms(4) by (intro ink_of_none) (auto simp: in_set_conv_nth)
  moreover have "ink_of (drop i xs) = []" using assms(5) by (intro ink_of_none) (auto simp: in_set_conv_nth)
  ultimately show ?thesis using assms(3)
    by (metis append.right_neutral append_take_drop_id ink_simps(5) append_Cons append_Nil)
qed

lemma blank_row_no_ink: "row_is_blank r \<Longrightarrow> ink_of (r_cells r) = []"
  by (rule ink_of_none) (auto simp: row_is_blank_def inky_def list_all_iff)

section \<open>Logical lines\<close>

lemma ink_trim [simp]: "ink_of (trim_default_trailing_cells cells) = ink_of cells"
proof -
  let ?blank = "\<lambda>c. \<not> (c_ch c \<noteq> 32 \<or> is_wide_continuation c)"
  have "cells = trim_default_trailing_cells cells @ rev (takeWhile ?blank (rev cells))"
    unfolding trim_default_trailing_cells_def by (metis rev_append rev_rev_ident takeWhile_dropWhile_id)
  moreover have "ink_of (rev (takeWhile ?blank (rev cells))) = []"
    by (rule ink_of_none) (auto simp: inky_def dest: set_takeWhileD)
  ultimately show ?thesis by (metis append.right_neutral ink_simps(5))
qed

definition line_ink :: "logical_line list \<Rightarrow> cell list" where
  "line_ink ls = concat (map (\<lambda>l. ink_of (ll_cells l)) ls)"

lemma line_ink_simps [simp]: "line_ink [] = []" "line_ink (l # ls) = ink_of (ll_cells l) @ line_ink ls" "line_ink (ls @ ls') = line_ink ls @ line_ink ls'"
  by (simp_all add: line_ink_def)

lemma gather_row_ink:
  "line_ink (gs_lines (gather_row cur s (i, r))) @ ink_of (ll_cells (gs_current (gather_row cur s (i, r)))) =
     line_ink (gs_lines s) @ ink_of (ll_cells (gs_current s)) @ ink_of (r_cells r)"
  by (simp add: gather_row_def Let_def)

lemma gather_fold_ink:
  "line_ink (gs_lines (foldl (gather_row cur) s (List.enumerate n raw))) @
     ink_of (ll_cells (gs_current (foldl (gather_row cur) s (List.enumerate n raw)))) =
   line_ink (gs_lines s) @ ink_of (ll_cells (gs_current s)) @ ink raw"
proof (induction raw arbitrary: s n)
  case (Cons r raw)
  show ?case using Cons [of "gather_row cur s (n, r)" "Suc n"] gather_row_ink [of cur s n r] by simp
qed simp

lemma gather_lines_ink: "line_ink (snd (gather_lines cur raw)) = ink raw"
  using gather_fold_ink [of cur "\<lparr>gs_anchor = None, gs_lines = [], gs_current = empty_line\<rparr>" 0 raw]
  by (auto simp: gather_lines_def Let_def empty_line_def)

section \<open>Laying out\<close>

text \<open>
  The layout loop, once the widths fit: a cell that does not fit any more starts a new row.  \<open>laid\<close>
  relates the state of the loop to the cells it has consumed.
\<close>

definition fits_width :: "usize \<Rightarrow> cell \<Rightarrow> bool" where
  "fits_width cols c \<longleftrightarrow> 1 \<le> c_width c \<and> c_width c \<le> cols"

definition span_row :: "cell \<Rightarrow> usize \<Rightarrow> row \<Rightarrow> row" where
  "span_row c col r =
     (if c_width c = 2 then put_cell (col + 1) wide_continuation (put_cell col c r) else put_cell col c r)"

lemma lay_cell_fits:
  assumes "fits_width cols c"
  shows "lay_cell cols s0 c =
    (let s = (if cols < ly_col s0 + c_width c then wrap_row cols s0 else s0)
     in s\<lparr>ly_positions := ly_positions s @ [\<lparr>rc_offset = ly_offset s, rc_row = length (ly_rows s), rc_col = ly_col s, rc_width = c_width c\<rparr>],
          ly_row := span_row c (ly_col s) (ly_row s), ly_offset := ly_offset s + c_width c, ly_col := ly_col s + c_width c\<rparr>)"
  using assms by (auto simp: lay_cell_def Let_def fits_width_def span_row_def max_def min_def wrap_row_def)

lemma row_ok_length: "row_ok cols r \<Longrightarrow> length (r_cells r) = cols"
  by (simp add: row_ok_def)

definition cell_at :: "row list \<Rightarrow> usize \<Rightarrow> usize \<Rightarrow> cell" where
  "cell_at rows i col = r_cells (rows ! i) ! col"

text \<open>Where the cells consumed so far are.\<close>

definition spot :: "usize \<Rightarrow> lay_state \<Rightarrow> cell list \<Rightarrow> usize \<Rightarrow> reflowed_cell \<Rightarrow> bool" where
  "spot cols s cs i p \<longleftrightarrow> rc_offset p = cell_span (take i cs) \<and> rc_width p = c_width (cs ! i) \<and> rc_col p < cols \<and>
     (rc_row p < length (ly_rows s) \<or> rc_row p = length (ly_rows s) \<and> rc_col p < ly_col s) \<and>
     cell_at (ly_rows s @ [ly_row s]) (rc_row p) (rc_col p) = cs ! i"

definition placed :: "usize \<Rightarrow> lay_state \<Rightarrow> cell list \<Rightarrow> bool" where
  "placed cols s cs \<longleftrightarrow> length (ly_positions s) = length cs \<and> (\<forall>i < length cs. spot cols s cs i (ly_positions s ! i))"

definition laid :: "usize \<Rightarrow> row list \<Rightarrow> lay_state \<Rightarrow> cell list \<Rightarrow> bool" where
  "laid cols rows0 s cs \<longleftrightarrow> lay_ok cols s \<and> take (length rows0) (ly_rows s) = rows0 \<and> length rows0 \<le> length (ly_rows s) \<and>
     ink (ly_rows s @ [ly_row s]) = ink rows0 @ ink_of cs \<and> ly_offset s = cell_span cs \<and> placed cols s cs"

lemma wrap_laid:
  assumes "laid cols rows0 s cs"
  shows "laid cols rows0 (wrap_row cols s) cs"
proof -
  have "cell_at ((ly_rows s @ [(ly_row s)\<lparr>r_wrapped := True\<rparr>]) @ [row_new cols]) i j = cell_at (ly_rows s @ [ly_row s]) i j" if "i \<le> length (ly_rows s)" for i j
    using that by (cases "i = length (ly_rows s)") (auto simp: cell_at_def nth_append)
  then show ?thesis using assms wrap_row_ok [of cols s]
    by (auto simp: laid_def placed_def spot_def wrap_row_def)
qed

lemma span_row_cells:
  assumes "col + c_width c \<le> length (r_cells r)" "1 \<le> c_width c" "\<And>i. col \<le> i \<Longrightarrow> i < length (r_cells r) \<Longrightarrow> r_cells r ! i = cell_empty"
  shows "length (r_cells (span_row c col r)) = length (r_cells r)" "r_cells (span_row c col r) ! col = c"
    "i < col \<Longrightarrow> r_cells (span_row c col r) ! i = r_cells r ! i"
    "ink_of (r_cells (span_row c col r)) = ink_of (r_cells r) @ ink_of [c]"
proof -
  let ?r = "span_row c col r"
  show len: "length (r_cells ?r) = length (r_cells r)" and at: "r_cells ?r ! col = c"
    using assms(1,2) by (auto simp: span_row_def put_cell_def)
  show "i < col \<Longrightarrow> r_cells ?r ! i = r_cells r ! i" by (simp add: span_row_def put_cell_def)
  have "ink_of (r_cells ?r) = ink_of (r_cells r) @ ink_of [r_cells ?r ! col]"
  proof (rule ink_of_blank_tail [OF len])
    show "take col (r_cells ?r) = take col (r_cells r)" by (simp add: span_row_def put_cell_def)
    show "\<And>j. col < j \<Longrightarrow> j < length (r_cells ?r) \<Longrightarrow> \<not> inky (r_cells ?r ! j)"
      using assms(3) len by (auto simp: span_row_def put_cell_def nth_list_update)
  qed (use assms in auto)
  then show "ink_of (r_cells ?r) = ink_of (r_cells r) @ ink_of [c]" unfolding at .
qed

lemma lay_cell_laid:
  assumes l: "laid cols rows0 s0 cs" and c: "\<not> is_wide_continuation c" "fits_width cols c"
  shows "laid cols rows0 (lay_cell cols s0 c) (cs @ [c])"
proof -
  define s where "s = (if cols < ly_col s0 + c_width c then wrap_row cols s0 else s0)"
  have l: "laid cols rows0 s cs" using l wrap_laid by (simp add: s_def)
  have fit: "ly_col s + c_width c \<le> cols" "1 \<le> c_width c" using c(2) by (auto simp: s_def wrap_row_def fits_width_def)
  let ?r = "span_row c (ly_col s) (ly_row s)"
  let ?p = "\<lparr>rc_offset = ly_offset s, rc_row = length (ly_rows s), rc_col = ly_col s, rc_width = c_width c\<rparr>"
  have e: "lay_cell cols s0 c = s\<lparr>ly_positions := ly_positions s @ [?p], ly_row := ?r, ly_offset := ly_offset s + c_width c, ly_col := ly_col s + c_width c\<rparr>"
    using lay_cell_fits [OF c(2), of s0, folded s_def] by (simp add: Let_def)
  have ok: "lay_ok cols s" using l by (simp add: laid_def)
  then have len: "length (r_cells (ly_row s)) = cols" and blank: "\<And>i. ly_col s \<le> i \<Longrightarrow> i < length (r_cells (ly_row s)) \<Longrightarrow> r_cells (ly_row s) ! i = cell_empty"
    by (auto simp: lay_ok_def row_ok_def)
  note r = span_row_cells [OF fit(1) [folded len] fit(2) blank]
  have "lay_ok cols (lay_cell cols s0 c)"
    using lay_cell_ok [of cols s0 c] c assms(1) by (auto simp: laid_def fits_width_def)
  moreover have "placed cols (lay_cell cols s0 c) (cs @ [c])"
  proof -
    have pl: "placed cols s cs" using l by (simp add: laid_def)
    have old: "cell_at (ly_rows s @ [?r]) (rc_row p) (rc_col p) = cell_at (ly_rows s @ [ly_row s]) (rc_row p) (rc_col p)"
      if "spot cols s cs i p" for i p
      using that r(3) by (auto simp: spot_def cell_at_def nth_append)
    have "spot cols (lay_cell cols s0 c) (cs @ [c]) i ((ly_positions s @ [?p]) ! i)" if i: "i < Suc (length cs)" for i
    proof (cases "i < length cs")
      case True
      then have sp: "spot cols s cs i (ly_positions s ! i)" using pl by (simp add: placed_def)
      then show ?thesis using True old [OF sp] pl by (auto simp: spot_def e placed_def nth_append)
    next
      case False
      then have "i = length cs" using i by simp
      moreover have "length (ly_positions s) = length cs" "ly_offset s = cell_span cs" using pl l by (simp_all add: placed_def laid_def)
      ultimately show ?thesis using r(2) fit by (simp add: spot_def e cell_at_def nth_append)
    qed
    then show ?thesis using pl by (simp add: placed_def e)
  qed
  moreover have "cell_span (cs @ [c]) = cell_span cs + c_width c" by (simp add: cell_span_def)
  ultimately show ?thesis using l r(4) by (simp add: laid_def e)
qed

lemma lay_cells_ok:
  assumes "lay_ok cols s" "0 < cols" "\<forall>c \<in> set cs. \<not> is_wide_continuation c"
  shows "lay_ok cols (foldl (lay_cell cols) s cs)"
  using assms by (induction cs arbitrary: s) (auto intro: lay_cell_ok)

lemma lay_cells_laid:
  assumes "laid cols rows0 s done" "\<forall>c \<in> set cs. \<not> is_wide_continuation c \<and> fits_width cols c"
  shows "laid cols rows0 (foldl (lay_cell cols) s cs) (done @ cs)"
  using assms
proof (induction cs arbitrary: s "done")
  case (Cons c cs)
  then have "laid cols rows0 (lay_cell cols s c) (done @ [c])" by (simp add: lay_cell_laid)
  from Cons.IH [OF this] Cons.prems(2) show ?case by simp
qed simp

lemma span_take_mono: "i \<le> j \<Longrightarrow> cell_span (take i cs) \<le> cell_span (take j cs)"
proof -
  assume "i \<le> j"
  then have "take j cs = take i cs @ take (j - i) (drop i cs)" by (metis le_add_diff_inverse take_add)
  then show ?thesis by (simp add: cell_span_def)
qed

lemma span_take_Suc: "i < length cs \<Longrightarrow> cell_span (take (Suc i) cs) = cell_span (take i cs) + c_width (cs ! i)"
  by (simp add: cell_span_def take_Suc_conv_app_nth)

text \<open>The map of a laid out line finds the place of each of its cells.\<close>

definition finds :: "usize \<Rightarrow> row list \<Rightarrow> reflowed_line \<Rightarrow> cell list \<Rightarrow> bool" where
  "finds cols rows m cs \<longleftrightarrow> (\<forall>i < length cs. cell_span (take i cs) < rl_width m \<longrightarrow>
     (\<exists>r c. position_for_offset m (cell_span (take i cs)) = (r, c) \<and> r < length rows \<and> c < cols \<and> cell_at rows r c = cs ! i))"

lemma finds_append: "finds cols rows m cs \<Longrightarrow> finds cols (rows @ extra) m cs"
  unfolding finds_def by (fastforce simp: cell_at_def nth_append)

lemma placed_finds:
  assumes p: "placed cols s cs" and w: "\<forall>c \<in> set cs. 1 \<le> c_width c" and m: "rl_cells m = ly_positions s"
  shows "finds cols (ly_rows s @ [ly_row s]) m cs"
  unfolding finds_def
proof (intro allI impI)
  fix i assume i: "i < length cs" and lt: "cell_span (take i cs) < rl_width m"
  let ?off = "cell_span (take i cs)" and ?p = "ly_positions s ! i"
  let ?P = "\<lambda>c. rc_offset c \<le> ?off \<and> ?off < rc_offset c + rc_width c"
  have at: "spot cols s cs j (ly_positions s ! j)" if "j < length cs" for j using p that by (simp add: placed_def)
  have len: "length (ly_positions s) = length cs" using p by (simp add: placed_def)
  have "\<not> ?P (ly_positions s ! j)" if "j < i" for j
    using at [of j] that i span_take_Suc [of j cs] span_take_mono [of "Suc j" i cs] by (auto simp: spot_def)
  moreover have "?P ?p" using at [OF i] w i by (auto simp: spot_def less_eq_Suc_le)
  ultimately have "List.find ?P (rl_cells m) = Some ?p" using i len m by (auto simp: find_Some_iff)
  moreover have "min ?off (rl_width m) = ?off" "?off \<noteq> rl_width m" using lt by auto
  ultimately have "position_for_offset m ?off = (rc_row ?p, rc_col ?p)"
    using at [OF i] by (simp add: position_for_offset_def Let_def spot_def)
  then show "\<exists>r c. position_for_offset m ?off = (r, c) \<and> r < length (ly_rows s @ [ly_row s]) \<and> c < cols \<and> cell_at (ly_rows s @ [ly_row s]) r c = cs ! i"
    using at [OF i] by (auto simp: spot_def)
qed

abbreviation visible_cells :: "cell list \<Rightarrow> cell list" where
  "visible_cells cells \<equiv> filter (\<lambda>c. \<not> is_wide_continuation c) cells"

lemma append_line_facts:
  assumes "\<forall>r \<in> set rows. row_ok cols r" "0 < cols" and a: "append_reflowed_line cols rows l = (rows', m)"
  shows "\<forall>r \<in> set rows'. row_ok cols r" "rl_width m = ll_width l"
    "\<forall>c \<in> set (ll_cells l). c_width c \<le> cols \<Longrightarrow>
      (\<exists>new. rows' = rows @ new) \<and> ink rows' = ink rows @ ink_of (ll_cells l) \<and> finds cols rows' m (visible_cells (ll_cells l))"
proof -
  let ?init = "\<lparr>ly_rows = rows, ly_row = row_new cols, ly_col = 0, ly_offset = 0, ly_positions = []\<rparr>"
  let ?cs = "visible_cells (ll_cells l)"
  let ?s = "foldl (lay_cell cols) ?init ?cs"
  have e: "rows' = ly_rows ?s @ [ly_row ?s]" "rl_cells m = ly_positions ?s" and w: "rl_width m = ll_width l"
    using a by (auto simp: append_reflowed_line_def Let_def)
  show "rl_width m = ll_width l" by (rule w)
  have ok0: "lay_ok cols ?init" using assms(1) by (auto simp: lay_ok_def)
  show "\<forall>r \<in> set rows'. row_ok cols r" using lay_cells_ok [OF ok0 assms(2), of ?cs] by (auto simp: e(1) lay_ok_def)
  assume "\<forall>c \<in> set (ll_cells l). c_width c \<le> cols"
  then have cs: "\<forall>c \<in> set ?cs. \<not> is_wide_continuation c \<and> fits_width cols c" by (auto simp: fits_width_def is_wide_continuation_def)
  have "laid cols rows ?init []" using ok0 by (simp add: laid_def placed_def cell_span_def)
  from lay_cells_laid [OF this cs] have l: "laid cols rows ?s ?cs" by simp
  then have "placed cols ?s ?cs" by (simp only: laid_def)
  then have "finds cols rows' m ?cs" unfolding e(1) by (rule placed_finds [OF _ _ e(2)]) (use cs in \<open>auto simp: fits_width_def\<close>)
  moreover have "\<exists>new. rows' = rows @ new"
  proof -
    have "take (length rows) (ly_rows ?s) = rows" using l by (simp only: laid_def)
    then have "ly_rows ?s = rows @ drop (length rows) (ly_rows ?s)" by (metis append_take_drop_id)
    then have "rows' = rows @ (drop (length rows) (ly_rows ?s) @ [ly_row ?s])" unfolding e(1) by simp
    then show ?thesis by blast
  qed
  moreover have "ink rows' = ink rows @ ink_of (ll_cells l)" using l unfolding e(1) laid_def by (simp only: ink_simps(6))
  ultimately show "(\<exists>new. rows' = rows @ new) \<and> ink rows' = ink rows @ ink_of (ll_cells l) \<and> finds cols rows' m ?cs" by blast
qed

lemma lay_lines_facts:
  assumes "\<forall>r \<in> set rows. row_ok cols r" "0 < cols" "lay_lines cols rows ls = (rows', ms)"
  shows "\<forall>r \<in> set rows'. row_ok cols r" "length ms = length ls"
    "\<forall>l \<in> set ls. \<forall>c \<in> set (ll_cells l). c_width c \<le> cols \<Longrightarrow>
      (\<exists>new. rows' = rows @ new) \<and> ink rows' = ink rows @ line_ink ls \<and>
      (\<forall>k < length ls. finds cols rows' (ms ! k) (visible_cells (ll_cells (ls ! k))) \<and> rl_width (ms ! k) = ll_width (ls ! k))"
proof -
  have "(\<forall>r \<in> set rows'. row_ok cols r) \<and> length ms = length ls \<and>
    ((\<forall>l \<in> set ls. \<forall>c \<in> set (ll_cells l). c_width c \<le> cols) \<longrightarrow>
      (\<exists>new. rows' = rows @ new) \<and> ink rows' = ink rows @ line_ink ls \<and>
      (\<forall>k < length ls. finds cols rows' (ms ! k) (visible_cells (ll_cells (ls ! k))) \<and> rl_width (ms ! k) = ll_width (ls ! k)))"
    using assms
  proof (induction ls arbitrary: rows ms)
    case (Cons l ls)
    obtain r1 m where a: "append_reflowed_line cols rows l = (r1, m)" by fastforce
    obtain ms' where ms: "lay_lines cols r1 ls = (rows', ms')" "ms = m # ms'" using Cons.prems(3) a by (auto split: prod.splits)
    note f = append_line_facts [OF Cons.prems(1,2) a]
    have f3: "(\<exists>new. r1 = rows @ new) \<and> ink r1 = ink rows @ ink_of (ll_cells l) \<and> finds cols r1 m (visible_cells (ll_cells l))"
      if "\<forall>c \<in> set (ll_cells l). c_width c \<le> cols" using f(3) that .
    from Cons.IH [OF f(1) Cons.prems(2) ms(1)] f(2) f3 show ?case
      by (auto simp: ms(2) less_Suc_eq_0_disj finds_append)
  qed simp
  then show "\<forall>r \<in> set rows'. row_ok cols r" "length ms = length ls"
    "\<forall>l \<in> set ls. \<forall>c \<in> set (ll_cells l). c_width c \<le> cols \<Longrightarrow>
      (\<exists>new. rows' = rows @ new) \<and> ink rows' = ink rows @ line_ink ls \<and>
      (\<forall>k < length ls. finds cols rows' (ms ! k) (visible_cells (ll_cells (ls ! k))) \<and> rl_width (ms ! k) = ll_width (ls ! k))"
    by blast+
qed

section \<open>The budget\<close>

lemma pop_blank_while_spec:
  "\<exists>k. pop_blank_while keep rows = take k rows \<and> min keep (length rows) \<le> k \<and> k \<le> length rows \<and>
     (\<forall>j. k \<le> j \<and> j < length rows \<longrightarrow> row_is_blank (rows ! j))"
proof (induction keep rows rule: pop_blank_while.induct)
  case (1 keep rows)
  show ?case
  proof (cases "keep < length rows \<and> row_is_blank (last rows)")
    case True
    then obtain k where k: "pop_blank_while keep (butlast rows) = take k (butlast rows)" "min keep (length rows - 1) \<le> k" "k \<le> length rows - 1"
      "\<forall>j. k \<le> j \<and> j < length rows - 1 \<longrightarrow> row_is_blank (butlast rows ! j)" using 1 by auto
    have "rows \<noteq> []" using True by auto
    then have "row_is_blank (rows ! j)" if "k \<le> j" "j < length rows" for j
      using that k(4) True by (cases "j = length rows - 1") (auto simp: nth_butlast last_conv_nth)
    moreover have "pop_blank_while keep rows = take k rows"
      using True k(1,3) by (subst pop_blank_while.simps) (simp add: butlast_conv_take min_absorb1)
    ultimately show ?thesis using k(2,3) True by (intro exI [of _ k]) auto
  next
    case False
    then show ?thesis by (intro exI [of _ "length rows"]) (subst pop_blank_while.simps, auto)
  qed
qed

lemma fit_rows_facts:
  assumes "fit_rows old mx new_rows cols rows = (d, rows')"
  shows "new_rows \<le> length rows'" "length rows' \<le> new_rows + mx" "set rows' \<subseteq> insert (row_new cols) (set rows)"
    "\<exists>lost. ink rows = lost @ ink rows' \<and> (d = 0 \<longrightarrow> lost = [])"
    "\<And>i. i < length rows \<Longrightarrow> \<not> row_is_blank (rows ! i) \<Longrightarrow> d \<le> i \<Longrightarrow> i - d < length rows' \<and> rows' ! (i - d) = rows ! i"
    "0 < d \<Longrightarrow> length rows' = new_rows + mx"
proof -
  let ?r1 = "pad_rows new_rows cols rows"
  obtain k where k: "pop_blank_while (min old mx + new_rows) ?r1 = take k ?r1" "k \<le> length ?r1"
    "\<forall>j. k \<le> j \<and> j < length ?r1 \<longrightarrow> row_is_blank (?r1 ! j)" using pop_blank_while_spec by metis
  define r2 where "r2 = pad_rows new_rows cols (take k ?r1)"
  have d: "d = length r2 - (new_rows + mx)" "rows' = drop d r2"
    using assms k(1) by (auto simp: fit_rows_def Let_def r2_def)
  have len: "new_rows \<le> length r2" by (auto simp: r2_def pad_rows_def)
  then show "new_rows \<le> length rows'" "length rows' \<le> new_rows + mx" "0 < d \<Longrightarrow> length rows' = new_rows + mx" using d by auto
  have "set (take k ?r1) \<subseteq> set ?r1" by (rule set_take_subset)
  then have "set r2 \<subseteq> insert (row_new cols) (set rows)" by (auto simp: r2_def pad_rows_def)
  then show "set rows' \<subseteq> insert (row_new cols) (set rows)" using d(2) set_drop_subset by fastforce
  have "ink (drop k ?r1) = []"
  proof -
    have "\<forall>r \<in> set (drop k ?r1). row_is_blank r" using k(3) by (auto simp: in_set_conv_nth)
    then show ?thesis by (auto simp: ink_def blank_row_no_ink)
  qed
  then have "ink r2 = ink ?r1" by (metis append.right_neutral append_take_drop_id ink_row_new(3) ink_simps(3) pad_rows_def r2_def)
  also have "\<dots> = ink rows" by (simp add: pad_rows_def)
  finally have "ink rows = ink (take d r2) @ ink rows'" unfolding d(2) by (metis append_take_drop_id ink_simps(3))
  then show "\<exists>lost. ink rows = lost @ ink rows' \<and> (d = 0 \<longrightarrow> lost = [])" by auto
  fix i assume i: "i < length rows" "\<not> row_is_blank (rows ! i)" "d \<le> i"
  have "?r1 ! i = rows ! i" "i < length ?r1" using i(1) by (auto simp: pad_rows_def nth_append)
  then have "i < k" using k(3) i(2) by (metis not_less)
  then have "i < length r2 \<and> r2 ! i = rows ! i" using \<open>?r1 ! i = rows ! i\<close> \<open>i < length ?r1\<close> by (auto simp: r2_def pad_rows_def nth_append)
  then show "i - d < length rows' \<and> rows' ! (i - d) = rows ! i" using d i(3) by auto
qed

section \<open>The cursor\<close>

text \<open>The anchor points at the character the cursor is on, by its distance from the start of its line.\<close>

definition points_at :: "cell \<Rightarrow> usize \<Rightarrow> logical_line \<Rightarrow> bool" where
  "points_at c off l \<longleftrightarrow> (\<exists>i < length (ll_cells l). ll_cells l ! i = c \<and> off = cell_span (take i (ll_cells l)))"

definition lines_of :: "gather_state \<Rightarrow> logical_line list" where
  "lines_of s = gs_lines s @ [gs_current s]"

definition anchored :: "cell \<Rightarrow> gather_state \<Rightarrow> bool" where
  "anchored c s \<longleftrightarrow> (\<exists>a. gs_anchor s = Some a \<and> ca_line a < length (lines_of s) \<and> points_at c (ca_offset a) (lines_of s ! ca_line a))"

lemma points_at_append: "points_at c off l \<Longrightarrow> points_at c off \<lparr>ll_cells = ll_cells l @ cs, ll_width = w\<rparr>"
  by (auto simp: points_at_def nth_append)

lemma trim_prefix: "\<exists>n. trim_default_trailing_cells cells = take n cells"
  unfolding trim_default_trailing_cells_def by (metis dropWhile_eq_drop rev_drop rev_rev_ident)

lemma inky_kept:
  assumes "col < length cells" "inky (cells ! col)"
  shows "col < length (trim_default_trailing_cells cells)"
    "trim_default_trailing_cells cells ! col = cells ! col" "take col (trim_default_trailing_cells cells) = take col cells"
proof -
  obtain n where n: "trim_default_trailing_cells cells = take n cells" using trim_prefix by blast
  have "col < n"
  proof (rule ccontr)
    assume "\<not> col < n"
    then have "cells ! col \<in> set (drop n cells)" using assms(1) by (auto simp: in_set_conv_nth intro!: exI [of _ "col - n"])
    then have "ink_of (drop n cells) \<noteq> []" using assms(2) by (auto simp: ink_of_def filter_empty_conv)
    moreover have "ink_of (take n cells) = ink_of cells" using ink_trim n by metis
    ultimately show False by (metis append_self_conv append_take_drop_id ink_simps(5))
  qed
  then show "col < length (trim_default_trailing_cells cells)"
    "trim_default_trailing_cells cells ! col = cells ! col" "take col (trim_default_trailing_cells cells) = take col cells"
    unfolding n using assms(1) by (auto simp: min_def)
qed

definition widths_true :: "gather_state \<Rightarrow> bool" where
  "widths_true s \<longleftrightarrow> (\<forall>l \<in> set (lines_of s). ll_width l = cell_span (ll_cells l))"

lemma gather_row_keeps:
  "widths_true s \<Longrightarrow> widths_true (gather_row cur s (i, r))"
  "anchored c s \<Longrightarrow> (\<And>row col. cur = Some (row, col) \<Longrightarrow> row \<noteq> i) \<Longrightarrow> anchored c (gather_row cur s (i, r))"
proof -
  show "widths_true s \<Longrightarrow> widths_true (gather_row cur s (i, r))"
    by (auto simp: widths_true_def lines_of_def gather_row_def Let_def cell_span_def)
  assume a: "anchored c s" and n: "\<And>row col. cur = Some (row, col) \<Longrightarrow> row \<noteq> i"
  then obtain x where x: "gs_anchor s = Some x" "ca_line x < length (lines_of s)" "points_at c (ca_offset x) (lines_of s ! ca_line x)"
    by (auto simp: anchored_def)
  have "gs_anchor (gather_row cur s (i, r)) = Some x"
    using x(1) n by (auto simp: gather_row_def Let_def split: option.splits)
  moreover have "ca_line x < length (lines_of (gather_row cur s (i, r))) \<and> points_at c (ca_offset x) (lines_of (gather_row cur s (i, r)) ! ca_line x)"
    using x(2,3) by (auto simp: lines_of_def gather_row_def Let_def nth_append less_Suc_eq intro: points_at_append split: if_splits)
  ultimately show "anchored c (gather_row cur s (i, r))" unfolding anchored_def by blast
qed

lemma gather_row_anchors:
  assumes "widths_true s" "col < length (r_cells r)" "inky (r_cells r ! col)"
  shows "anchored (r_cells r ! col) (gather_row (Some (i, col)) s (i, r))"
proof -
  let ?rc = "if \<not> r_wrapped r then trim_default_trailing_cells (r_cells r) else r_cells r"
  let ?l = "\<lparr>ll_cells = ll_cells (gs_current s) @ ?rc, ll_width = ll_width (gs_current s) + cell_span ?rc\<rparr>"
  have rc: "col < length ?rc" "?rc ! col = r_cells r ! col" "take col ?rc = take col (r_cells r)"
    using inky_kept [OF assms(2,3)] assms(2) by auto
  have w: "ll_width (gs_current s) = cell_span (ll_cells (gs_current s))" using assms(1) by (simp add: widths_true_def lines_of_def)
  have "points_at (r_cells r ! col) (ll_width (gs_current s) + span_until (r_cells r) col) ?l"
    unfolding points_at_def
    by (rule exI [of _ "length (ll_cells (gs_current s)) + col"]) (use rc w assms(2) in \<open>simp add: span_until_def cell_span_def\<close>)
  then show ?thesis by (auto simp: anchored_def lines_of_def gather_row_def Let_def nth_append)
qed

lemma gather_fold_anchored:
  assumes "widths_true s" "n \<le> row" "row < n + length raw" "col < length (r_cells (raw ! (row - n)))" "inky (r_cells (raw ! (row - n)) ! col)"
  shows "widths_true (foldl (gather_row (Some (row, col))) s (List.enumerate n raw))"
    "anchored (r_cells (raw ! (row - n)) ! col) (foldl (gather_row (Some (row, col))) s (List.enumerate n raw))"
proof -
  have after: "anchored c s \<Longrightarrow> row < n \<Longrightarrow> anchored c (foldl (gather_row (Some (row, col))) s (List.enumerate n raw))" for c s n and raw :: "row list"
  proof (induction raw arbitrary: s n)
    case (Cons r raw)
    then have "anchored c (gather_row (Some (row, col)) s (n, r))" by (intro gather_row_keeps(2)) auto
    then show ?case using Cons by simp
  qed simp
  have wt: "widths_true s \<Longrightarrow> widths_true (foldl (gather_row (Some (row, col))) s (List.enumerate n raw))" for s n and raw :: "row list"
    by (induction raw arbitrary: s n) (auto intro: gather_row_keeps(1))
  show "widths_true (foldl (gather_row (Some (row, col))) s (List.enumerate n raw))" using wt assms(1) by blast
  show "anchored (r_cells (raw ! (row - n)) ! col) (foldl (gather_row (Some (row, col))) s (List.enumerate n raw))"
    using assms
  proof (induction raw arbitrary: s n)
    case (Cons r raw)
    show ?case
    proof (cases "row = n")
      case True
      then have "anchored (r_cells r ! col) (gather_row (Some (row, col)) s (n, r))" using gather_row_anchors [of s col r n] Cons.prems by simp
      then show ?thesis using True after by simp
    next
      case False
      then have "Suc n \<le> row" "row - n = Suc (row - Suc n)" using Cons.prems by auto
      then show ?thesis using Cons.IH [of "gather_row (Some (row, col)) s (n, r)" "Suc n"] Cons.prems gather_row_keeps(1) by auto
    qed
  qed simp
qed

lemma gather_lines_anchored:
  assumes "row < length raw" "col < length (r_cells (raw ! row))" "inky (r_cells (raw ! row) ! col)"
  shows "\<exists>a ls. gather_lines (Some (row, col)) raw = (Some a, ls) \<and> ca_line a < length ls \<and> points_at (r_cells (raw ! row) ! col) (ca_offset a) (ls ! ca_line a) \<and>
    ll_width (ls ! ca_line a) = cell_span (ll_cells (ls ! ca_line a))"
proof -
  let ?s = "foldl (gather_row (Some (row, col))) \<lparr>gs_anchor = None, gs_lines = [], gs_current = empty_line\<rparr> (List.enumerate 0 raw)"
  have "widths_true \<lparr>gs_anchor = None, gs_lines = [], gs_current = empty_line\<rparr>"
    by (simp add: widths_true_def lines_of_def empty_line_def cell_span_def)
  note f = gather_fold_anchored [OF this, of 0 row raw col, simplified, OF assms]
  obtain a where a: "gs_anchor ?s = Some a" "ca_line a < length (lines_of ?s)" "points_at (r_cells (raw ! row) ! col) (ca_offset a) (lines_of ?s ! ca_line a)"
    using f(2) by (auto simp: anchored_def)
  have w: "ll_width (lines_of ?s ! ca_line a) = cell_span (ll_cells (lines_of ?s ! ca_line a))" using f(1) a(2) by (simp add: widths_true_def)
  let ?ls = "if ll_cells (gs_current ?s) \<noteq> [] then lines_of ?s else gs_lines ?s"
  have ls: "ca_line a < length ?ls" "?ls ! ca_line a = lines_of ?s ! ca_line a"
    using a(2,3) by (auto simp: lines_of_def points_at_def nth_append less_Suc_eq split: if_splits)
  have "ca_offset a \<le> ll_width (?ls ! ca_line a)"
  proof -
    obtain i where "ca_offset a = cell_span (take i (ll_cells (lines_of ?s ! ca_line a)))" using a(3) by (auto simp: points_at_def)
    then show ?thesis unfolding ls(2) w by (metis nat_le_linear span_take_mono take_all)
  qed
  then have "gather_lines (Some (row, col)) raw = (Some a, ?ls)"
    using a(1) ls(1) by (cases a) (auto simp: gather_lines_def Let_def lines_of_def min_absorb1 split: if_splits)
  then show ?thesis using ls a(3) w by auto
qed

lemma points_at_visible:
  assumes "points_at c off l" "\<not> is_wide_continuation c"
  shows "\<exists>i < length (visible_cells (ll_cells l)). visible_cells (ll_cells l) ! i = c \<and> off = cell_span (take i (visible_cells (ll_cells l)))"
    "off < cell_span (ll_cells l)"
proof -
  have sp: "cell_span (visible_cells xs) = cell_span xs" for xs by (induction xs) (auto simp: cell_span_def is_wide_continuation_def)
  obtain i where i: "i < length (ll_cells l)" "ll_cells l ! i = c" "off = cell_span (take i (ll_cells l))"
    using assms(1) by (auto simp: points_at_def)
  have e: "ll_cells l = take i (ll_cells l) @ c # drop (Suc i) (ll_cells l)" using i by (metis id_take_nth_drop)
  let ?v = "visible_cells (take i (ll_cells l))"
  have v: "visible_cells (ll_cells l) = ?v @ c # visible_cells (drop (Suc i) (ll_cells l))" using assms(2) by (subst e) simp
  show "\<exists>i < length (visible_cells (ll_cells l)). visible_cells (ll_cells l) ! i = c \<and> off = cell_span (take i (visible_cells (ll_cells l)))"
    by (rule exI [of _ "length ?v"]) (use i(3) sp in \<open>simp add: v nth_append\<close>)
  have "cell_span (ll_cells l) = off + c_width c + cell_span (drop (Suc i) (ll_cells l))"
    using i(3) by (subst e) (simp add: cell_span_def)
  then show "off < cell_span (ll_cells l)" using assms(2) by (simp add: is_wide_continuation_def)
qed

section \<open>Reflowing\<close>

definition widths_fit :: "usize \<Rightarrow> grid \<Rightarrow> bool" where
  "widths_fit cols g \<longleftrightarrow> list_all (\<lambda>r. list_all (\<lambda>c. c_width c \<le> cols) (r_cells r)) (gr_raw g)"

lemma set_trim: "set (trim_default_trailing_cells cells) \<subseteq> set cells"
  using trim_prefix [of cells] set_take_subset by metis

lemma gather_row_cells:
  "\<forall>c \<in> set (r_cells r). P c \<Longrightarrow> \<forall>l \<in> set (lines_of s). \<forall>c \<in> set (ll_cells l). P c \<Longrightarrow>
     \<forall>l \<in> set (lines_of (gather_row cur s (i, r))). \<forall>c \<in> set (ll_cells l). P c"
  using set_trim [of "r_cells r"] by (auto simp: lines_of_def gather_row_def Let_def)

lemma gather_lines_cells:
  assumes "\<forall>r \<in> set raw. \<forall>c \<in> set (r_cells r). P c"
  shows "\<forall>l \<in> set (snd (gather_lines cur raw)). \<forall>c \<in> set (ll_cells l). P c"
proof -
  have "\<forall>l \<in> set (lines_of (foldl (gather_row cur) s (List.enumerate n raw))). \<forall>c \<in> set (ll_cells l). P c"
    if "\<forall>l \<in> set (lines_of s). \<forall>c \<in> set (ll_cells l). P c" for s n
    using that assms
  proof (induction raw arbitrary: s n)
    case (Cons r raw)
    have a: "\<forall>l \<in> set (lines_of (gather_row cur s (n, r))). \<forall>c \<in> set (ll_cells l). P c"
      by (rule gather_row_cells [OF _ Cons.prems(1)]) (use Cons.prems(2) in auto)
    have b: "\<forall>r \<in> set raw. \<forall>c \<in> set (r_cells r). P c" using Cons.prems(2) by auto
    show ?case unfolding enumerate_simps foldl_Cons by (rule Cons.IH [OF a b])
  qed simp
  note fold = this [of "\<lparr>gs_anchor = None, gs_lines = [], gs_current = empty_line\<rparr>" 0]
  let ?s = "foldl (gather_row cur) \<lparr>gs_anchor = None, gs_lines = [], gs_current = empty_line\<rparr> (List.enumerate 0 raw)"
  have "set (snd (gather_lines cur raw)) \<subseteq> insert empty_line (set (lines_of ?s))"
    by (simp add: gather_lines_def Let_def lines_of_def) blast
  moreover have "\<forall>l \<in> set (lines_of ?s). \<forall>c \<in> set (ll_cells l). P c" by (rule fold) (simp add: lines_of_def empty_line_def)
  ultimately show ?thesis by (auto simp: empty_line_def)
qed

lemma gathered_widths:
  assumes "widths_fit cols g" "gather_lines cur (gr_raw g) = (anchor, ls)"
  shows "\<forall>l \<in> set ls. \<forall>c \<in> set (ll_cells l). c_width c \<le> cols"
proof -
  have "\<forall>r \<in> set (gr_raw g). \<forall>c \<in> set (r_cells r). c_width c \<le> cols" using assms(1) by (simp add: widths_fit_def list_all_iff)
  from gather_lines_cells [OF this, of cur] assms(2) show ?thesis by simp
qed

text \<open>The parts of one reflow, named for the proofs below.\<close>

lemma reflow_parts:
  assumes "resize_reflowing_columns new_rows new_cols cursor g = (cur, g')"
  obtains anchor ls rows ms d where
    "gather_lines (map_option (\<lambda>(row, col). (scrollback_len g + row, col)) cursor) (gr_raw g) = (anchor, ls)"
    "lay_lines new_cols [] ls = (rows, ms)"
    "fit_rows (scrollback_len g) (gc_max_scrollback (gr_config g)) new_rows new_cols rows = (d, gr_raw g')"
    "gr_rows g' = new_rows" "gr_cols g' = new_cols" "gr_config g' = gr_config g" "gr_evicted g' = sat_add64 (gr_evicted g) d"
    "gr_dirty g' = mark_all (resize_rows new_rows (gr_dirty g))"
    "cur = map_option (\<lambda>a. let (abs_row, col) = abs_cursor_for_anchor g' ms a d in visible_cursor_from_abs g' abs_row col) anchor"
  using assms that
  by (cases "gather_lines (map_option (\<lambda>(row, col). (scrollback_len g + row, col)) cursor) (gr_raw g)")
    (auto simp: resize_reflowing_columns_def Let_def split: prod.splits)

lemma reflow_good:
  assumes ok: "grid_ok g" and cols: "0 < new_cols" and r: "resize_reflowing_columns new_rows new_cols cursor g = (cur, g')"
  shows "good g g'" "within_cap g'"
proof -
  obtain anchor ls rows ms d where p:
    "lay_lines new_cols [] ls = (rows, ms)" "fit_rows (scrollback_len g) (gc_max_scrollback (gr_config g)) new_rows new_cols rows = (d, gr_raw g')"
    "gr_rows g' = new_rows" "gr_cols g' = new_cols" "gr_config g' = gr_config g" "gr_evicted g' = sat_add64 (gr_evicted g) d"
    "gr_dirty g' = mark_all (resize_rows new_rows (gr_dirty g))"
    using r by (rule reflow_parts)
  note f = fit_rows_facts [OF p(2)]
  have "\<forall>r \<in> set rows. row_ok new_cols r" using lay_lines_facts(1) [OF _ cols p(1)] by simp
  then show "good g g'" by (intro resized_good [OF ok]) (use f(1,3) p in \<open>auto simp: sat_add64_def\<close>)
  show "within_cap g'" using f(2) p by (simp add: within_cap_def)
qed

lemma resize_good: "grid_ok g \<Longrightarrow> good g (snd (resize_with_cursor new_rows new_cols cursor g))"
  using reflow_good(1) [of g new_cols new_rows cursor] resize_canvas_good [of g new_rows new_cols]
  by (cases "resize_reflowing_columns new_rows new_cols cursor g") (auto simp: resize_with_cursor_def Let_def)

lemma reflow_keeps_text:
  assumes ok: "grid_ok g" and cols: "0 < new_cols" and w: "widths_fit new_cols g"
    and r: "resize_reflowing_columns new_rows new_cols cursor g = (cur, g')"
  shows "\<exists>lost. ink (gr_raw g) = lost @ ink (gr_raw g') \<and>
    (lost = [] \<or> length (gr_raw g') = new_rows + gc_max_scrollback (gr_config g))"
proof -
  obtain anchor ls rows ms d where p:
    "gather_lines (map_option (\<lambda>(row, col). (scrollback_len g + row, col)) cursor) (gr_raw g) = (anchor, ls)"
    "lay_lines new_cols [] ls = (rows, ms)" "fit_rows (scrollback_len g) (gc_max_scrollback (gr_config g)) new_rows new_cols rows = (d, gr_raw g')"
    using r by (rule reflow_parts)
  have ls: "line_ink ls = ink (gr_raw g)" using gather_lines_ink [of "map_option (\<lambda>(row, col). (scrollback_len g + row, col)) cursor" "gr_raw g"] p(1) by simp
  have "\<forall>l \<in> set ls. \<forall>c \<in> set (ll_cells l). c_width c \<le> new_cols"
    by (rule gathered_widths [OF w p(1)])
  then have "ink rows = ink (gr_raw g)" using lay_lines_facts(3) [OF _ cols p(2)] ls by simp
  then show ?thesis using fit_rows_facts(4,6) [OF p(3)] by auto
qed

lemma reflow_cursor:
  assumes ok: "grid_ok g" and cols: "0 < new_cols" "0 < new_rows" and w: "widths_fit new_cols g"
    and at: "row < gr_rows g" "col < gr_cols g" "inky (screen g row col)"
    and r: "resize_reflowing_columns new_rows new_cols (Some (row, col)) g = (cur, g')"
  shows "\<exists>r' c'. cur = Some (r', c') \<and> r' < new_rows \<and> c' < new_cols \<and>
    ((\<exists>i < length (gr_raw g'). cell_at (gr_raw g') i c' = screen g row col \<and> r' = i - scrollback_len g') \<or>
     r' = 0 \<and> length (gr_raw g') = new_rows + gc_max_scrollback (gr_config g))"
proof -
  obtain anchor ls rows ms d where p:
    "gather_lines (map_option (\<lambda>(row, col). (scrollback_len g + row, col)) (Some (row, col))) (gr_raw g) = (anchor, ls)"
    "lay_lines new_cols [] ls = (rows, ms)" "fit_rows (scrollback_len g) (gc_max_scrollback (gr_config g)) new_rows new_cols rows = (d, gr_raw g')"
    "gr_rows g' = new_rows" "gr_cols g' = new_cols"
    and cur: "cur = map_option (\<lambda>a. let (abs_row, col) = abs_cursor_for_anchor g' ms a d in visible_cursor_from_abs g' abs_row col) anchor"
    using r by (rule reflow_parts)
  let ?c = "screen g row col"
  have row: "scrollback_len g + row < length (gr_raw g)" "row_ok (gr_cols g) (gr_raw g ! (scrollback_len g + row))"
    using grid_okD(2,3) [OF ok] at(1) by auto
  then have "col < length (r_cells (gr_raw g ! (scrollback_len g + row)))" using at(2) by (simp add: row_ok_def)
  from gather_lines_anchored [OF row(1) this] at(3) obtain a where a: "anchor = Some a" "ca_line a < length ls"
    "points_at ?c (ca_offset a) (ls ! ca_line a)" "ll_width (ls ! ca_line a) = cell_span (ll_cells (ls ! ca_line a))"
    using p(1) by (auto simp: screen_def)
  have "\<forall>l \<in> set ls. \<forall>c \<in> set (ll_cells l). c_width c \<le> new_cols"
    by (rule gathered_widths [OF w p(1)])
  note lay = lay_lines_facts(2) [OF _ cols(1) p(2)] lay_lines_facts(3) [OF _ cols(1) p(2) this]
  have f: "finds new_cols rows (ms ! ca_line a) (visible_cells (ll_cells (ls ! ca_line a)))" "rl_width (ms ! ca_line a) = ll_width (ls ! ca_line a)"
    "ca_line a < length ms" using lay a(2) by auto
  have "\<not> is_wide_continuation ?c" using at(3) by (simp add: inky_def)
  from points_at_visible [OF a(3) this] f a(4) obtain i c' where
    i: "position_for_offset (ms ! ca_line a) (ca_offset a) = (i, c')" "i < length rows" "c' < new_cols" "cell_at rows i c' = ?c"
    unfolding finds_def by metis
  have cur': "cur = Some (min (i - d - scrollback_len g') (new_rows - 1), c')"
    using cur a(1) f(3) i(1,3) p(4,5) by (simp add: abs_cursor_for_anchor_def visible_cursor_from_abs_def Let_def min_def)
  note fit = fit_rows_facts [OF p(3)]
  show ?thesis
  proof (cases "d \<le> i")
    case True
    have rok: "row_ok new_cols (rows ! i)" using lay_lines_facts(1) [OF _ cols(1) p(2)] i(2) by simp
    have "\<not> row_is_blank (rows ! i)"
      using at(3) i(3,4) rok by (auto simp: row_is_blank_def list_all_length cell_at_def inky_def row_ok_def)
    then have k: "i - d < length (gr_raw g')" "gr_raw g' ! (i - d) = rows ! i" using fit(5) [OF i(2)] True by auto
    moreover have "i - d - scrollback_len g' \<le> new_rows - 1" using k(1) fit(1) p(4) cols(2) by (auto simp: scrollback_len_def)
    ultimately show ?thesis using cur' i cols(2) by (auto simp: cell_at_def intro!: exI [of _ "i - d"])
  next
    case False
    then have "0 < d" "i - d = 0" by auto
    then show ?thesis using cur' fit(6) i(3) cols(2) by simp
  qed
qed

end
