(* ===== verification/Vt_Parts.thy ===== *)
theory Vt_Parts
  imports Vt_Cell
begin

text \<open>
  The small parts of a terminal's state, one group per file of \<^verbatim>\<open>shux-vt/src\<close>: character sets
  (\<^verbatim>\<open>charset.rs\<close>), the cursor (\<^verbatim>\<open>cursor.rs\<close>), tab stops (\<^verbatim>\<open>tabstops.rs\<close>), and the modes, margins and
  in-progress sequences of \<^verbatim>\<open>parser.rs\<close>.
\<close>

section \<open>Character sets\<close>

datatype charset_slot = G0 | G1

datatype terminal_charset = CharsetAscii | DecSpecialGraphics

record terminal_charsets =
  tc_g0 :: terminal_charset
  tc_g1 :: terminal_charset
  tc_active :: charset_slot

definition default_charsets :: terminal_charsets where
  "default_charsets = \<lparr>tc_g0 = CharsetAscii, tc_g1 = CharsetAscii, tc_active = G0\<rparr>"

section \<open>Cursor\<close>

datatype cursor_shape = ShapeBlock | ShapeUnderline | ShapeBar

record saved_cursor =
  sv_row :: usize
  sv_col :: usize
  sv_style :: cell_style
  sv_extended :: "extended_attrs option"
  sv_auto_wrap_pending :: bool
  sv_origin_mode :: bool
  sv_charsets :: terminal_charsets

record cursor =
  cu_row :: usize
  cu_col :: usize
  cu_style :: cell_style
  cu_extended :: "extended_attrs option"
  cu_shape :: cursor_shape
  cu_visible :: bool
  cu_auto_wrap_pending :: bool
  cu_saved :: "saved_cursor option"

definition cursor_new :: cursor where
  "cursor_new = \<lparr>cu_row = 0, cu_col = 0, cu_style = default_style, cu_extended = None, cu_shape = ShapeBlock,
     cu_visible = True, cu_auto_wrap_pending = False, cu_saved = None\<rparr>"

definition cursor_save :: "bool \<Rightarrow> terminal_charsets \<Rightarrow> cursor \<Rightarrow> cursor" where
  "cursor_save origin_mode charsets c =
     c\<lparr>cu_saved := Some \<lparr>sv_row = cu_row c, sv_col = cu_col c, sv_style = cu_style c, sv_extended = cu_extended c,
         sv_auto_wrap_pending = cu_auto_wrap_pending c, sv_origin_mode = origin_mode, sv_charsets = charsets\<rparr>\<rparr>"

definition cursor_restore :: "cursor \<Rightarrow> (bool \<times> terminal_charsets) option \<times> cursor" where
  "cursor_restore c =
     (case cu_saved c of
        Some saved \<Rightarrow>
          (Some (sv_origin_mode saved, sv_charsets saved),
           c\<lparr>cu_row := sv_row saved, cu_col := sv_col saved, cu_style := sv_style saved, cu_extended := sv_extended saved,
             cu_auto_wrap_pending := sv_auto_wrap_pending saved\<rparr>)
      | None \<Rightarrow> (None, c))"

definition cursor_clamp :: "usize \<Rightarrow> usize \<Rightarrow> cursor \<Rightarrow> cursor" where
  "cursor_clamp rows cols c =
     c\<lparr>cu_row := min (cu_row c) (rows - 1), cu_col := min (cu_col c) (cols - 1), cu_auto_wrap_pending := False,
       cu_saved := map_option (\<lambda>s. s\<lparr>sv_row := min (sv_row s) (rows - 1), sv_col := min (sv_col s) (cols - 1),
                                     sv_auto_wrap_pending := False\<rparr>) (cu_saved c)\<rparr>"

definition cursor_in :: "usize \<Rightarrow> usize \<Rightarrow> cursor \<Rightarrow> bool" where
  "cursor_in rows cols c \<longleftrightarrow> cu_row c < rows \<and> cu_col c < cols"

lemma cursor_in_simps [simp]:
  "0 < rows \<Longrightarrow> 0 < cols \<Longrightarrow> cursor_in rows cols cursor_new"
  "0 < rows \<Longrightarrow> 0 < cols \<Longrightarrow> cursor_in rows cols (cursor_clamp rows cols c)"
  "cursor_in rows cols (cursor_save o' cs c) = cursor_in rows cols c"
  "cursor_in rows cols (c\<lparr>cu_saved := sv\<rparr>) = cursor_in rows cols c"
  "cursor_in rows cols (c\<lparr>cu_style := st\<rparr>) = cursor_in rows cols c"
  "cursor_in rows cols (c\<lparr>cu_extended := x\<rparr>) = cursor_in rows cols c"
  "cursor_in rows cols (c\<lparr>cu_visible := b\<rparr>) = cursor_in rows cols c"
  "cursor_in rows cols (c\<lparr>cu_shape := sh\<rparr>) = cursor_in rows cols c"
  "cursor_in rows cols (c\<lparr>cu_auto_wrap_pending := p\<rparr>) = cursor_in rows cols c"
  by (auto simp: cursor_in_def cursor_new_def cursor_clamp_def cursor_save_def)

text \<open>A saved cursor comes back as it was, whatever happened to the rest of the cursor in between.\<close>

lemma restore_after_save:
  assumes "cu_saved c' = cu_saved (cursor_save origin charsets c)"
  shows "fst (cursor_restore c') = Some (origin, charsets)"
    "snd (cursor_restore c') = c\<lparr>cu_shape := cu_shape c', cu_visible := cu_visible c', cu_saved := cu_saved c'\<rparr>"
  using assms by (auto simp: cursor_restore_def cursor_save_def)

section \<open>Tab stops\<close>

record tab_stops =
  ts_stops :: "bool list"
  ts_extend_defaults :: bool

definition default_stop :: "usize \<Rightarrow> bool" where
  "default_stop col \<longleftrightarrow> 0 < col \<and> col mod 8 = 0"

definition tabs_new :: "usize \<Rightarrow> tab_stops" where
  "tabs_new cols = \<lparr>ts_stops = map default_stop [0..<cols], ts_extend_defaults = True\<rparr>"

definition tabs_reset :: "usize \<Rightarrow> tab_stops \<Rightarrow> tab_stops" where
  "tabs_reset cols t = tabs_new cols"

definition tabs_resize :: "usize \<Rightarrow> tab_stops \<Rightarrow> tab_stops" where
  "tabs_resize cols t =
     (let old_cols = length (ts_stops t)
      in if cols < old_cols then t\<lparr>ts_stops := take cols (ts_stops t)\<rparr>
         else t\<lparr>ts_stops := ts_stops t @ map (\<lambda>col. ts_extend_defaults t \<and> default_stop col) [old_cols..<cols]\<rparr>)"

definition tabs_set :: "usize \<Rightarrow> tab_stops \<Rightarrow> tab_stops" where
  "tabs_set col t = (if col < length (ts_stops t) then t\<lparr>ts_stops := (ts_stops t)[col := True]\<rparr> else t)"

definition tabs_clear_current :: "usize \<Rightarrow> tab_stops \<Rightarrow> tab_stops" where
  "tabs_clear_current col t = (if col < length (ts_stops t) then t\<lparr>ts_stops := (ts_stops t)[col := False]\<rparr> else t)"

definition tabs_clear_all :: "tab_stops \<Rightarrow> tab_stops" where
  "tabs_clear_all t = t\<lparr>ts_stops := map (\<lambda>_. False) (ts_stops t), ts_extend_defaults := False\<rparr>"

definition next_after :: "tab_stops \<Rightarrow> usize \<Rightarrow> usize option" where
  "next_after t col = List.find (\<lambda>i. ts_stops t ! i) [col + 1..<length (ts_stops t)]"

definition prev_before :: "tab_stops \<Rightarrow> usize \<Rightarrow> usize option" where
  "prev_before t col = List.find (\<lambda>i. ts_stops t ! i) (rev [0..<min col (length (ts_stops t))])"

fun tab_forward :: "tab_stops \<Rightarrow> nat \<Rightarrow> usize \<Rightarrow> usize" where
  "tab_forward t 0 current = current"
| "tab_forward t (Suc n) current =
     (case next_after t current of None \<Rightarrow> length (ts_stops t) - 1 | Some nxt \<Rightarrow> tab_forward t n nxt)"

fun tab_backward :: "tab_stops \<Rightarrow> nat \<Rightarrow> usize \<Rightarrow> usize" where
  "tab_backward t 0 current = current"
| "tab_backward t (Suc n) current =
     (case prev_before t current of None \<Rightarrow> 0 | Some prv \<Rightarrow> tab_backward t n prv)"

definition next_from :: "tab_stops \<Rightarrow> usize \<Rightarrow> usize \<Rightarrow> usize" where
  "next_from t col count =
     (if ts_stops t = [] then 0 else tab_forward t (max count 1) (min col (length (ts_stops t) - 1)))"

definition prev_from :: "tab_stops \<Rightarrow> usize \<Rightarrow> usize \<Rightarrow> usize" where
  "prev_from t col count =
     (if ts_stops t = [] then 0 else tab_backward t (max count 1) (min col (length (ts_stops t) - 1)))"

lemma find_upt: "List.find P [a..<b] = Some i \<longleftrightarrow> a \<le> i \<and> i < b \<and> P i \<and> (\<forall>j. a \<le> j \<and> j < i \<longrightarrow> \<not> P j)"
proof (induction "b - a" arbitrary: a)
  case (Suc n)
  then have "[a..<b] = a # [Suc a..<b]" by (simp add: upt_conv_Cons)
  then show ?case using Suc.hyps(1) [of "Suc a"] Suc.hyps(2) by (auto simp: Suc_le_eq) (metis le_neq_implies_less)+
qed auto

lemma find_rev_upt: "List.find P (rev [0..<b]) = Some i \<longleftrightarrow> i < b \<and> P i \<and> (\<forall>j. i < j \<and> j < b \<longrightarrow> \<not> P j)"
proof (induction b)
  case (Suc b)
  then show ?case by (auto simp: less_Suc_eq)
qed simp

lemma tab_forward_bounds:
  "current < length (ts_stops t) \<Longrightarrow> tab_forward t n current < length (ts_stops t) \<and> current \<le> tab_forward t n current"
proof (induction n arbitrary: current)
  case (Suc n)
  then show ?case
  proof (cases "next_after t current")
    case (Some nxt)
    then have "current < nxt" "nxt < length (ts_stops t)" by (auto simp: next_after_def find_upt)
    then show ?thesis using Suc.IH [of nxt] Some by auto
  qed auto
qed simp

lemma tab_backward_bounds: "tab_backward t n current \<le> current"
proof (induction n arbitrary: current)
  case (Suc n)
  then show ?case
  proof (cases "prev_before t current")
    case (Some prv)
    then have "prv < current" by (auto simp: prev_before_def find_rev_upt)
    then show ?thesis using Suc.IH [of prv] Some by auto
  qed auto
qed simp

lemma tab_in_bounds [simp]:
  assumes "0 < length (ts_stops t)"
  shows "next_from t col n < length (ts_stops t)" "prev_from t col n < length (ts_stops t)"
proof -
  let ?c = "min col (length (ts_stops t) - 1)"
  have "?c < length (ts_stops t)" using assms by linarith
  with tab_forward_bounds [OF this, of "max n 1"] show "next_from t col n < length (ts_stops t)"
    using assms by (simp add: next_from_def)
  have "tab_backward t (max n 1) ?c < length (ts_stops t)"
    using tab_backward_bounds [of t "max n 1" ?c] \<open>?c < length (ts_stops t)\<close> by (rule le_less_trans)
  then show "prev_from t col n < length (ts_stops t)" using assms by (simp add: prev_from_def)
qed

lemma tabs_length [simp]:
  "length (ts_stops (tabs_new cols)) = cols" "length (ts_stops (tabs_resize cols t)) = cols"
  "length (ts_stops (tabs_reset cols t)) = cols" "length (ts_stops (tabs_set c t)) = length (ts_stops t)"
  "length (ts_stops (tabs_clear_current c t)) = length (ts_stops t)" "length (ts_stops (tabs_clear_all t)) = length (ts_stops t)"
  by (auto simp: tabs_new_def tabs_resize_def tabs_reset_def tabs_set_def tabs_clear_current_def tabs_clear_all_def Let_def)

text \<open>A tab goes to the next stop to the right, or to the last column when there is none.\<close>

lemma tab_lands_on_next_stop:
  assumes "col < length (ts_stops t)"
  shows "let d = next_from t col 1 in
    (col < d \<and> ts_stops t ! d \<and> (\<forall>j. col < j \<and> j < d \<longrightarrow> \<not> ts_stops t ! j)) \<or>
    (d = length (ts_stops t) - 1 \<and> (\<forall>j. col < j \<and> j < length (ts_stops t) \<longrightarrow> \<not> ts_stops t ! j))"
proof -
  have n: "next_from t col 1 = (case next_after t col of None \<Rightarrow> length (ts_stops t) - 1 | Some nxt \<Rightarrow> nxt)"
    using assms by (auto simp: next_from_def min_def split: option.splits)
  show ?thesis
  proof (cases "next_after t col")
    case None
    then have "next_from t col 1 = length (ts_stops t) - 1" using n by simp
    moreover have "\<forall>j. col < j \<and> j < length (ts_stops t) \<longrightarrow> \<not> ts_stops t ! j" using None by (auto simp: next_after_def find_None_iff)
    ultimately show ?thesis by (simp add: Let_def)
  next
    case (Some nxt)
    then have "next_from t col 1 = nxt" using n by simp
    moreover have "col < nxt" "ts_stops t ! nxt" "\<forall>j. col < j \<and> j < nxt \<longrightarrow> \<not> ts_stops t ! j" using Some by (auto simp: next_after_def find_upt)
    ultimately show ?thesis by (simp add: Let_def)
  qed
qed

section \<open>Modes, margins, sequences in progress\<close>

datatype mouse_mode = MouseNone | MouseNormal | MouseButtonEvent | MouseAnyEvent

record terminal_modes =
  md_auto_wrap :: bool
  md_application_cursor_keys :: bool
  md_application_keypad :: bool
  md_origin_mode :: bool
  md_cursor_visible :: bool
  md_bracketed_paste :: bool
  md_focus_events :: bool
  md_mouse_tracking :: mouse_mode
  md_sgr_mouse :: bool
  md_utf8_mouse :: bool
  md_urxvt_mouse :: bool
  md_pixel_mouse :: bool
  md_alternate_scroll :: bool
  md_synchronized_output :: bool
  md_alternate_screen :: bool
  md_insert_mode :: bool
  md_newline_mode :: bool

definition default_modes :: terminal_modes where
  "default_modes = \<lparr>md_auto_wrap = True, md_application_cursor_keys = False, md_application_keypad = False,
     md_origin_mode = False, md_cursor_visible = True, md_bracketed_paste = False, md_focus_events = False,
     md_mouse_tracking = MouseNone, md_sgr_mouse = False, md_utf8_mouse = False, md_urxvt_mouse = False,
     md_pixel_mouse = False, md_alternate_scroll = True, md_synchronized_output = False, md_alternate_screen = False,
     md_insert_mode = False, md_newline_mode = False\<rparr>"

record scroll_region =
  sr_top :: usize
  sr_bottom :: usize

definition MAX_DCS_PAYLOAD_BYTES :: usize where "MAX_DCS_PAYLOAD_BYTES = 4096"
definition MAX_RESPONSES_PER_BATCH :: usize where "MAX_RESPONSES_PER_BATCH = 512"
definition MAX_OSC_PAYLOAD_BYTES :: usize where "MAX_OSC_PAYLOAD_BYTES = 4096"
definition VT_MAX_TITLE_CHARS :: usize where "VT_MAX_TITLE_CHARS = 256"
definition VTE_MAX_OSC_PARAMS :: usize where "VTE_MAX_OSC_PARAMS = 16"

record dcs_state =
  dcs_intermediates :: "nat list"
  dcs_action :: rchar
  dcs_payload :: "nat list"
  dcs_overflowed :: bool

record last_graphic =
  lg_ch :: rchar
  lg_rest :: rstring

definition lg_scalars :: "last_graphic \<Rightarrow> rstring" where
  "lg_scalars r = lg_ch r # lg_rest r"

definition scalar_count :: "last_graphic \<Rightarrow> usize" where
  "scalar_count r = 1 + length (lg_rest r)"

end
