(* ===== verification/Vt_Kitty.thy ===== *)
theory Vt_Kitty
  imports Vt_Image Titles
begin

text \<open>
  The kitty graphics protocol: the control block of a command (\<^verbatim>\<open>shux-vt/src/graphics/kitty.rs\<close>), the
  assembly of a picture from chunks and the store of transmitted pictures
  (\<^verbatim>\<open>shux-vt/src/graphics/image.rs\<close>).  A pane controls every byte, so what matters is that a
  transport naming a file is refused and that what a pane can make the terminal hold is bounded.

  The base64 engine is a library: \<open>dec\<close> is its decoder.
\<close>

section \<open>Commands\<close>

datatype kitty_action = Transmit | TransmitAndPlace | PutImage | DeleteImages | QueryImage | Animation

definition kitty_action_parse :: "nat list \<Rightarrow> kitty_action option" where
  "kitty_action_parse value =
     (if value = ascii ''t'' then Some Transmit
      else if value = ascii ''T'' then Some TransmitAndPlace
      else if value = ascii ''p'' then Some PutImage
      else if value = ascii ''d'' then Some DeleteImages
      else if value = ascii ''q'' then Some QueryImage
      else if value = ascii ''f'' \<or> value = ascii ''a'' \<or> value = ascii ''c'' then Some Animation
      else None)"

datatype transport = Direct | FileTransport | TempFile | SharedMemory

definition transport_parse :: "nat list \<Rightarrow> transport option" where
  "transport_parse value =
     (if value = ascii ''d'' then Some Direct
      else if value = ascii ''f'' then Some FileTransport
      else if value = ascii ''t'' then Some TempFile
      else if value = ascii ''s'' then Some SharedMemory
      else None)"

record kitty_command =
  kc_action :: kitty_action
  kc_image_id :: nat
  kc_format :: image_format
  kc_compressed :: bool
  kc_more :: bool
  kc_width :: nat
  kc_height :: nat
  kc_no_cursor_move :: bool
  kc_placement_id :: nat
  kc_src :: "nat \<times> nat \<times> nat \<times> nat"
  kc_cols :: nat
  kc_rows :: nat
  kc_delete :: nat
  kc_z :: int

definition default_command :: kitty_command where
  "default_command = \<lparr>kc_action = Transmit, kc_image_id = 0, kc_format = Rgba32, kc_compressed = False, kc_more = False,
     kc_width = 0, kc_height = 0, kc_no_cursor_move = False, kc_placement_id = 0, kc_src = (0, 0, 0, 0), kc_cols = 0,
     kc_rows = 0, kc_delete = 0, kc_z = 0\<rparr>"

datatype rejection = UnsupportedTransport transport | UnsupportedAnimation | UnsupportedVirtualPlacement
  | BothIdAndNumber | MalformedControl

definition kitty_pair :: "nat list \<Rightarrow> (nat \<times> nat list) option" where
  "kitty_pair part =
     (case (takeWhile (\<lambda>b. b \<noteq> 61) part, dropWhile (\<lambda>b. b \<noteq> 61) part) of
        ([key], _ # value) \<Rightarrow> Some (key, value)
      | _ \<Rightarrow> None)"

definition kitty_pairs :: "nat list \<Rightarrow> ((nat \<times> nat list) list, rejection) result" where
  "kitty_pairs control =
     (if control = [] then Ok []
      else case those (map kitty_pair (split_on (\<lambda>b. b = 44) control)) of
             Some ps \<Rightarrow> Ok ps
           | None \<Rightarrow> Err MalformedControl)"

definition kitty_number :: "nat list \<Rightarrow> nat option" where
  "kitty_number value =
     (if value = [] \<or> 10 < length value \<or> \<not> list_all (\<lambda>b. 48 \<le> b \<and> b \<le> 57) value then None
      else let n = undecimal 0 value in if n \<le> u32_max then Some n else None)"

definition kitty_z :: "nat list \<Rightarrow> int option" where
  "kitty_z value =
     (if take 1 value = [45]
      then Option.bind (kitty_number (drop 1 value)) (\<lambda>n. if n \<le> 2 ^ 31 then Some (- int n) else None)
      else Option.bind (kitty_number value) (\<lambda>n. if n < 2 ^ 31 then Some (int n) else None))"

record kitty_state =
  ks_action :: "kitty_action option option"
  ks_transport :: transport
  ks_malformed :: bool
  ks_virtual :: bool
  ks_number :: nat
  ks_cmd :: kitty_command

definition uint_key :: "nat list \<Rightarrow> (nat \<Rightarrow> kitty_command \<Rightarrow> kitty_command) \<Rightarrow> kitty_state \<Rightarrow> kitty_state" where
  "uint_key value upd s =
     (case kitty_number value of Some n \<Rightarrow> s\<lparr>ks_cmd := upd n (ks_cmd s)\<rparr> | None \<Rightarrow> s\<lparr>ks_malformed := True\<rparr>)"

definition kitty_key :: "kitty_state \<Rightarrow> nat \<times> nat list \<Rightarrow> kitty_state" where
  "kitty_key s kv =
     (let (k, value) = kv; bad = s\<lparr>ks_malformed := True\<rparr>
      in if [k] = ascii ''a'' then s\<lparr>ks_action := Some (kitty_action_parse value)\<rparr>
         else if [k] = ascii ''t'' then (case transport_parse value of Some t \<Rightarrow> s\<lparr>ks_transport := t\<rparr> | None \<Rightarrow> bad)
         else if [k] = ascii ''i'' then uint_key value (\<lambda>n. kc_image_id_update (\<lambda>_. n)) s
         else if [k] = ascii ''I'' then (case kitty_number value of Some n \<Rightarrow> s\<lparr>ks_number := n\<rparr> | None \<Rightarrow> bad)
         else if [k] = ascii ''p'' then uint_key value (\<lambda>n. kc_placement_id_update (\<lambda>_. n)) s
         else if [k] = ascii ''x'' then uint_key value (\<lambda>n. kc_src_update (\<lambda>(x, y, w, h). (n, y, w, h))) s
         else if [k] = ascii ''y'' then uint_key value (\<lambda>n. kc_src_update (\<lambda>(x, y, w, h). (x, n, w, h))) s
         else if [k] = ascii ''w'' then uint_key value (\<lambda>n. kc_src_update (\<lambda>(x, y, w, h). (x, y, n, h))) s
         else if [k] = ascii ''h'' then uint_key value (\<lambda>n. kc_src_update (\<lambda>(x, y, w, h). (x, y, w, n))) s
         else if [k] = ascii ''c'' then uint_key value (\<lambda>n. kc_cols_update (\<lambda>_. n)) s
         else if [k] = ascii ''z'' then (case kitty_z value of Some z \<Rightarrow> s\<lparr>ks_cmd := (ks_cmd s)\<lparr>kc_z := z\<rparr>\<rparr> | None \<Rightarrow> bad)
         else if [k] = ascii ''r'' then uint_key value (\<lambda>n. kc_rows_update (\<lambda>_. n)) s
         else if [k] = ascii ''d'' then
           (case value of
              [t] \<Rightarrow> if t \<in> set (ascii ''aAiIpPcCnNqQxXyYzZrRfF'') then s\<lparr>ks_cmd := (ks_cmd s)\<lparr>kc_delete := t\<rparr>\<rparr> else bad
            | _ \<Rightarrow> bad)
         else if [k] = ascii ''U'' then
           (if value = ascii ''0'' then s else if value = ascii ''1'' then s\<lparr>ks_virtual := True\<rparr> else bad)
         else if [k] = ascii ''s'' then uint_key value (\<lambda>n. kc_width_update (\<lambda>_. n)) s
         else if [k] = ascii ''v'' then uint_key value (\<lambda>n. kc_height_update (\<lambda>_. n)) s
         else if [k] = ascii ''f'' then
           (if value = ascii ''32'' then s\<lparr>ks_cmd := (ks_cmd s)\<lparr>kc_format := Rgba32\<rparr>\<rparr>
            else if value = ascii ''24'' then s\<lparr>ks_cmd := (ks_cmd s)\<lparr>kc_format := Rgb24\<rparr>\<rparr>
            else if value = ascii ''100'' then s\<lparr>ks_cmd := (ks_cmd s)\<lparr>kc_format := Png\<rparr>\<rparr>
            else bad)
         else if [k] = ascii ''o'' then (if value = ascii ''z'' then s\<lparr>ks_cmd := (ks_cmd s)\<lparr>kc_compressed := True\<rparr>\<rparr> else bad)
         else if [k] = ascii ''m'' then
           (if value = ascii ''0'' then s\<lparr>ks_cmd := (ks_cmd s)\<lparr>kc_more := False\<rparr>\<rparr>
            else if value = ascii ''1'' then s\<lparr>ks_cmd := (ks_cmd s)\<lparr>kc_more := True\<rparr>\<rparr>
            else bad)
         else if [k] = ascii ''C'' then s\<lparr>ks_cmd := (ks_cmd s)\<lparr>kc_no_cursor_move := (value = ascii ''1'')\<rparr>\<rparr>
         else s)"

definition kitty_parse :: "nat list \<Rightarrow> (kitty_command, rejection) result" where
  "kitty_parse command =
     (let control = takeWhile (\<lambda>b. b \<noteq> 59) command
      in case kitty_pairs control of
           Err e \<Rightarrow> Err e
         | Ok ps \<Rightarrow>
             let s = foldl kitty_key \<lparr>ks_action = None, ks_transport = Direct, ks_malformed = False, ks_virtual = False,
                                      ks_number = 0, ks_cmd = default_command\<rparr> ps
             in if ks_transport s \<noteq> Direct then Err (UnsupportedTransport (ks_transport s))
                else if ks_malformed s then Err MalformedControl
                else if kc_image_id (ks_cmd s) \<noteq> 0 \<and> ks_number s \<noteq> 0 then Err BothIdAndNumber
                else if ks_virtual s then Err UnsupportedVirtualPlacement
                else case ks_action s of
                       Some (Some Animation) \<Rightarrow> Err UnsupportedAnimation
                     | Some None \<Rightarrow> Err MalformedControl
                     | Some (Some a) \<Rightarrow> Ok ((ks_cmd s)\<lparr>kc_action := a\<rparr>)
                     | None \<Rightarrow> Ok ((ks_cmd s)\<lparr>kc_action := Transmit\<rparr>))"

section \<open>Assembly\<close>

record assembler =
  as_open :: "stored_image option"
  as_opening :: kitty_command

definition assembler_new :: assembler where
  "assembler_new = \<lparr>as_open = None, as_opening = default_command\<rparr>"

definition assembler_done :: "assembler \<Rightarrow> stored_image \<Rightarrow> (stored_image \<times> kitty_command) option" where
  "assembler_done a im =
     (let ready = (im, as_opening a);
          raw = (\<lambda>bpp. if si_compressed im then Some ready
                       else let want = si_width im * si_height im * bpp
                            in if want < 2 ^ 64 \<and> length (si_payload im) = want then Some ready else None)
      in case si_format im of Png \<Rightarrow> Some ready | Rgba32 \<Rightarrow> raw 4 | Rgb24 \<Rightarrow> raw 3)"

definition assembler_feed ::
  "(nat list \<Rightarrow> nat list option) \<Rightarrow> kitty_command \<Rightarrow> nat list \<Rightarrow> assembler \<Rightarrow> (stored_image \<times> kitty_command) option \<times> assembler" where
  "assembler_feed dec cmd payload a =
     (case dec payload of
        None \<Rightarrow> (None, a\<lparr>as_open := None\<rparr>)
      | Some bytes \<Rightarrow>
          let a = (if as_open a = None
                   then \<lparr>as_open = Some \<lparr>si_payload = [], si_format = kc_format cmd, si_compressed = kc_compressed cmd,
                                        si_width = kc_width cmd, si_height = kc_height cmd\<rparr>, as_opening = cmd\<rparr>
                   else a)
          in case as_open a of
               None \<Rightarrow> (None, a)
             | Some im \<Rightarrow>
                 if MAX_IMAGE_BYTES < length (si_payload im) + length bytes then (None, a\<lparr>as_open := None\<rparr>)
                 else
                   let im = im\<lparr>si_payload := si_payload im @ bytes\<rparr>
                   in if kc_more cmd then (None, a\<lparr>as_open := Some im\<rparr>)
                      else (assembler_done a im, a\<lparr>as_open := None\<rparr>))"

definition assembler_is_open :: "assembler \<Rightarrow> bool" where
  "assembler_is_open a \<longleftrightarrow> as_open a \<noteq> None"

definition assembler_abort :: "assembler \<Rightarrow> assembler" where
  "assembler_abort a = a\<lparr>as_open := None\<rparr>"

section \<open>The store\<close>

definition MAX_STORED_IMAGES :: usize where "MAX_STORED_IMAGES = 64"

record image_store =
  is_images :: "(nat \<times> stored_image) list"
  is_bytes :: usize

definition store_new :: image_store where
  "store_new = \<lparr>is_images = [], is_bytes = 0\<rparr>"

fun store_trim :: "(nat \<times> stored_image) list \<Rightarrow> usize \<Rightarrow> image_store" where
  "store_trim [] bytes = \<lparr>is_images = [], is_bytes = bytes\<rparr>"
| "store_trim (x # xs) bytes =
     (if MAX_STORED_IMAGES < length (x # xs) \<or> MAX_IMAGE_BYTES < bytes then store_trim xs (bytes - length (si_payload (snd x)))
      else \<lparr>is_images = x # xs, is_bytes = bytes\<rparr>)"

definition store_retain :: "(nat \<Rightarrow> bool) \<Rightarrow> image_store \<Rightarrow> image_store" where
  "store_retain keep s =
     s\<lparr>is_images := filter (\<lambda>(k, im). keep k) (is_images s),
       is_bytes := is_bytes s - sum_list (map (\<lambda>(k, im). length (si_payload im)) (filter (\<lambda>(k, im). \<not> keep k) (is_images s)))\<rparr>"

definition store_insert :: "nat \<Rightarrow> stored_image \<Rightarrow> image_store \<Rightarrow> image_store" where
  "store_insert i im s0 =
     (let s = store_retain (\<lambda>k. k \<noteq> i) s0
      in store_trim (is_images s @ [(i, im)]) (is_bytes s + length (si_payload im)))"

definition store_get :: "nat \<Rightarrow> image_store \<Rightarrow> stored_image option \<times> image_store" where
  "store_get i s =
     (case position (\<lambda>(k, im). k = i) (is_images s) of
        None \<Rightarrow> (None, s)
      | Some j \<Rightarrow>
          let entry = is_images s ! j
          in (Some (snd entry), s\<lparr>is_images := take j (is_images s) @ drop (Suc j) (is_images s) @ [entry]\<rparr>))"

definition store_clear :: "image_store \<Rightarrow> image_store" where
  "store_clear s = \<lparr>is_images = [], is_bytes = 0\<rparr>"

section \<open>Refused transports\<close>

text \<open>The transport a command asks for is the one of its last \<open>t=\<close>.\<close>

definition asked_transport :: "(nat \<times> nat list) list \<Rightarrow> transport" where
  "asked_transport ps = foldl (\<lambda>t (k, v). if [k] = ascii ''t'' then (case transport_parse v of Some t' \<Rightarrow> t' | None \<Rightarrow> t) else t) Direct ps"

lemma uint_key_transport [simp]: "ks_transport (uint_key v upd s) = ks_transport s"
  by (simp add: uint_key_def split: option.splits)

lemma if_keep: "(c \<Longrightarrow> f a = y) \<Longrightarrow> (\<not> c \<Longrightarrow> f b = y) \<Longrightarrow> f (if c then a else b) = y"
  by simp

lemma kitty_key_transport:
  "ks_transport (kitty_key s (k, v)) =
     (if [k] = ascii ''t'' then (case transport_parse v of Some t' \<Rightarrow> t' | None \<Rightarrow> ks_transport s) else ks_transport s)"
proof (cases "[k] = ascii ''t''")
  case True
  then show ?thesis by (simp add: kitty_key_def split: option.splits)
next
  case False
  have "ks_transport (kitty_key s (k, v)) = ks_transport s"
    unfolding kitty_key_def Let_def prod.case
    by (intro if_keep [where f = ks_transport]) (use False in \<open>simp_all split: option.splits list.splits\<close>)
  then show ?thesis using False by simp
qed

lemma kitty_keys_transport:
  "ks_transport (foldl kitty_key s ps) =
     foldl (\<lambda>t (k, v). if [k] = ascii ''t'' then (case transport_parse v of Some t' \<Rightarrow> t' | None \<Rightarrow> t) else t) (ks_transport s) ps"
  by (induction ps arbitrary: s) (auto simp: kitty_key_transport split: prod.splits)

lemma kitty_parse_direct:
  assumes "kitty_pairs (takeWhile (\<lambda>b. b \<noteq> 59) command) = Ok ps" "asked_transport ps \<noteq> Direct"
  shows "kitty_parse command = Err (UnsupportedTransport (asked_transport ps))"
  using assms by (simp add: kitty_parse_def Let_def kitty_keys_transport asked_transport_def)

section \<open>Bounds\<close>

definition image_bytes :: "(nat \<times> stored_image) list \<Rightarrow> nat" where
  "image_bytes xs = sum_list (map (\<lambda>(k, im). length (si_payload im)) xs)"

definition store_ok :: "image_store \<Rightarrow> bool" where
  "store_ok s \<longleftrightarrow> is_bytes s = image_bytes (is_images s) \<and> length (is_images s) \<le> MAX_STORED_IMAGES \<and>
     is_bytes s \<le> MAX_IMAGE_BYTES \<and> distinct (map fst (is_images s))"

lemma store_trim_ok: "bytes = image_bytes xs \<Longrightarrow> distinct (map fst xs) \<Longrightarrow> store_ok (store_trim xs bytes)"
proof (induction xs bytes rule: store_trim.induct)
  case (2 x xs bytes)
  have b: "bytes - length (si_payload (snd x)) = image_bytes xs" using 2(2) by (cases x) (simp add: image_bytes_def)
  show ?case
  proof (cases "MAX_STORED_IMAGES < length (x # xs) \<or> MAX_IMAGE_BYTES < bytes")
    case True
    then show ?thesis using 2 b by simp
  next
    case False
    then show ?thesis using 2(2,3) by (simp add: store_ok_def)
  qed
qed (simp add: store_ok_def image_bytes_def)

lemma store_retain_bytes:
  assumes "is_bytes s = image_bytes (is_images s)"
  shows "is_bytes (store_retain keep s) = image_bytes (is_images (store_retain keep s))"
proof -
  have "image_bytes xs = image_bytes (filter (\<lambda>(k, im). keep k) xs) + image_bytes (filter (\<lambda>(k, im). \<not> keep k) xs)" for xs
    by (induction xs) (auto simp: image_bytes_def)
  from this [of "is_images s"]
  have "is_bytes s - image_bytes (filter (\<lambda>(k, im). \<not> keep k) (is_images s)) = image_bytes (filter (\<lambda>(k, im). keep k) (is_images s))"
    using assms by simp
  then show ?thesis by (simp add: store_retain_def image_bytes_def)
qed

lemma store_retain_ok: "store_ok s \<Longrightarrow> store_ok (store_retain keep s)"
proof -
  assume ok: "store_ok s"
  have "length (is_images (store_retain keep s)) \<le> length (is_images s)" "is_bytes (store_retain keep s) \<le> is_bytes s"
    by (auto simp: store_retain_def)
  moreover have "distinct (map fst (is_images (store_retain keep s)))" using ok by (simp add: store_retain_def store_ok_def distinct_map_filter)
  ultimately show ?thesis using ok store_retain_bytes [of s keep] by (auto simp: store_ok_def)
qed

lemma store_insert_ok: "store_ok s \<Longrightarrow> store_ok (store_insert i im s)"
proof -
  assume ok: "store_ok s"
  let ?s = "store_retain (\<lambda>k. k \<noteq> i) s"
  have "is_bytes ?s + length (si_payload im) = image_bytes (is_images ?s @ [(i, im)])"
    using ok store_retain_bytes [of s] by (simp add: store_ok_def image_bytes_def)
  moreover have "distinct (map fst (is_images ?s @ [(i, im)]))"
    using store_retain_ok [OF ok, of "\<lambda>k. k \<noteq> i"] by (auto simp: store_ok_def store_retain_def)
  ultimately show ?thesis by (simp add: store_insert_def Let_def store_trim_ok)
qed

lemma store_get_ok: "store_ok s \<Longrightarrow> store_ok (snd (store_get i s))"
proof (cases "position (\<lambda>(k, im). k = i) (is_images s)")
  case (Some j)
  assume ok: "store_ok s"
  let ?x = "is_images s ! j"
  have j: "j < length (is_images s)" using position_Some [OF Some] by blast
  let ?ys = "take j (is_images s) @ drop (Suc j) (is_images s) @ [?x]"
  have e: "is_images s = take j (is_images s) @ ?x # drop (Suc j) (is_images s)" by (rule id_take_nth_drop [OF j])
  have "image_bytes ?ys = image_bytes (is_images s)" by (subst (4) e) (simp add: image_bytes_def)
  moreover have "distinct (map fst ?ys) = distinct (map fst (is_images s))" by (subst (4) e) auto
  moreover have "length ?ys = length (is_images s)" using j by simp
  moreover have "snd (store_get i s) = s\<lparr>is_images := ?ys\<rparr>" using Some by (simp add: store_get_def Let_def)
  ultimately show ?thesis using ok unfolding store_ok_def by (simp del: length_append length_drop length_take distinct_append map_append)
qed (simp add: store_get_def)

lemma store_clear_ok [simp]: "store_ok (store_clear s)" "store_ok store_new"
  by (simp_all add: store_clear_def store_new_def store_ok_def image_bytes_def MAX_STORED_IMAGES_def)

text \<open>A picture that fits on its own is there after it was stored, and a new one is dropped last.\<close>

lemma store_get_after_insert:
  assumes ok: "store_ok s" and fits: "length (si_payload im) \<le> MAX_IMAGE_BYTES"
  shows "fst (store_get i (store_insert i im s)) = Some im"
proof -
  let ?s = "store_retain (\<lambda>k. k \<noteq> i) s"
  have trim: "\<exists>ys. is_images (store_trim (xs @ [(i, im)]) bytes) = ys @ [(i, im)] \<and> set ys \<subseteq> set xs"
    if "bytes = image_bytes (xs @ [(i, im)])" for xs bytes
    using that
  proof (induction xs arbitrary: bytes)
    case Nil
    then show ?case using fits by (simp add: image_bytes_def MAX_STORED_IMAGES_def)
  next
    case (Cons x xs)
    have b: "bytes - length (si_payload (snd x)) = image_bytes (xs @ [(i, im)])" using Cons.prems by (cases x) (simp add: image_bytes_def)
    show ?case using Cons.IH [OF b] by (auto intro: exI [of _ "x # xs"])
  qed
  have b: "is_bytes ?s + length (si_payload im) = image_bytes (is_images ?s @ [(i, im)])"
    using ok store_retain_bytes [of s] by (simp add: store_ok_def image_bytes_def)
  from trim [OF b] obtain ys where ys: "is_images (store_insert i im s) = ys @ [(i, im)]" "set ys \<subseteq> set (is_images ?s)"
    by (auto simp: store_insert_def Let_def)
  have none: "\<forall>x \<in> set ys. \<not> (case x of (k, im) \<Rightarrow> k = i)" using ys(2) by (auto simp: store_retain_def)
  have "position (\<lambda>(k, im). k = i) (ys @ [(i, im)]) = Some (length ys)" using none by (induction ys) (auto split: prod.splits)
  then show ?thesis by (simp add: store_get_def ys(1))
qed

definition assembler_ok :: "assembler \<Rightarrow> bool" where
  "assembler_ok a \<longleftrightarrow> (case as_open a of None \<Rightarrow> True | Some im \<Rightarrow> length (si_payload im) \<le> MAX_IMAGE_BYTES)"

lemma assembler_feed_ok:
  assumes "assembler_ok a"
  shows "assembler_ok (snd (assembler_feed dec cmd payload a))"
    "fst (assembler_feed dec cmd payload a) = Some (im, opening) \<Longrightarrow> length (si_payload im) \<le> MAX_IMAGE_BYTES"
  using assms
  by (auto simp: assembler_feed_def assembler_done_def assembler_ok_def Let_def split: option.splits if_splits image_format.splits)

end
