(* ===== verification/Vt_Status.thy ===== *)
theory Vt_Status
  imports Status_Table Status_Wire
begin

text \<open>
  Program status inside a terminal, the first part of \<^verbatim>\<open>shux-vt/src/program_status.rs\<close>: the record table of
  one terminal with the generation stamped on every change.  The generation counter is shared by the
  whole process; here it is threaded through as a second component.
\<close>

record vt_program_status =
  vp_table :: status_table
  vp_seen :: bool
  vp_generation :: u64

record status_publication =
  sp_generation :: u64
  sp_summary :: "status_summary option"
  sp_seen :: bool
  sp_enabled :: bool

record status_records =
  srs_generation :: u64
  srs_seen :: bool
  srs_records :: "record_view list"

text \<open>\<open>GENERATION.fetch_add(1) + 1\<close>: the new counter is the stamp.\<close>

definition next_generation :: "u64 \<Rightarrow> u64" where
  "next_generation counter = counter + 1"

definition vp_new :: "u64 \<Rightarrow> vt_program_status \<times> u64" where
  "vp_new counter =
     (\<lparr>vp_table = table_new, vp_seen = False, vp_generation = next_generation counter\<rparr>, next_generation counter)"

definition vp_publication :: "vt_program_status \<Rightarrow> status_publication" where
  "vp_publication p = \<lparr>sp_generation = vp_generation p, sp_summary = summary (vp_table p), sp_seen = vp_seen p, sp_enabled = True\<rparr>"

definition vp_records :: "vt_program_status \<Rightarrow> status_records" where
  "vp_records p = \<lparr>srs_generation = vp_generation p, srs_seen = vp_seen p, srs_records = records (vp_table p)\<rparr>"

definition vp_change ::
  "(status_table \<times> bool \<Rightarrow> status_table \<times> bool) \<Rightarrow> vt_program_status \<times> u64 \<Rightarrow> vt_program_status \<times> u64" where
  "vp_change f pc =
     (let (p, counter) = pc; (t, seen) = f (vp_table p, vp_seen p); p' = p\<lparr>vp_table := t, vp_seen := seen\<rparr>
      in if t_revision t \<noteq> t_revision (vp_table p) \<or> seen \<noteq> vp_seen p
         then (p'\<lparr>vp_generation := next_generation counter\<rparr>, next_generation counter)
         else (p', counter))"

definition vp_on_report ::
  "(bytes \<Rightarrow> bytes option) \<Rightarrow> bytes \<Rightarrow> bytes \<Rightarrow> vt_program_status \<times> u64 \<Rightarrow> bytes option \<times> vt_program_status \<times> u64" where
  "vp_on_report dec payload terminator pc =
     (case decode dec payload of
        Ok Query \<Rightarrow> (Some (query_reply terminator), pc)
      | Ok (MsgReport rep) \<Rightarrow>
          let stamp = next_generation (snd pc)
          in (None, vp_change (\<lambda>(t, seen). (table_apply t rep stamp, True)) (fst pc, stamp))
      | Err reject \<Rightarrow> (None, pc))"

definition vp_on_prompt_start :: "vt_program_status \<times> u64 \<Rightarrow> vt_program_status \<times> u64" where
  "vp_on_prompt_start = vp_change (\<lambda>(t, seen). (on_prompt_start t, seen))"

definition vp_on_process_exit :: "vt_program_status \<times> u64 \<Rightarrow> vt_program_status \<times> u64" where
  "vp_on_process_exit = vp_change (\<lambda>(t, seen). (on_process_exit t, seen))"

definition vp_on_full_reset :: "vt_program_status \<times> u64 \<Rightarrow> vt_program_status \<times> u64" where
  "vp_on_full_reset = vp_change (\<lambda>(t, seen). (on_full_reset t, False))"

text \<open>What a reader can see moves only together with the generation.\<close>

lemma vp_change_generation:
  assumes "vp_change f (p, counter) = (p', counter')"
  shows "vp_generation p' = vp_generation p \<and> counter' = counter \<and> t_revision (vp_table p') = t_revision (vp_table p) \<and> vp_seen p' = vp_seen p \<or>
    vp_generation p' = counter' \<and> counter' = counter + 1"
  using assms by (auto simp: vp_change_def next_generation_def Let_def split: prod.splits if_splits)

end
