(* ===== verification/Vt_Handler.thy ===== *)
theory Vt_Handler
  imports Vt_Resize Vt_Parts Vt_Kitty Vt_Status "HOL-Library.Monad_Syntax"
begin

text \<open>
  The state an escape sequence acts on, \<open>VtHandler\<close> in \<^verbatim>\<open>shux-vt/src/parser.rs\<close>, with the wrappers of
  \<^verbatim>\<open>shux-vt/src/sync.rs\<close> around the parts of the presented frame and the alternate screen of
  \<^verbatim>\<open>shux-vt/src/screen.rs\<close>.

  \<open>Presented\<close> hands out a mutable reference only after it has taken the snapshot that synchronized
  output needs.  Here \<open>on_grid\<close>, \<open>on_cursor\<close>, \<open>on_title\<close> and \<open>on_colors\<close> are that access.  An operation
  that indexes a row or subtracts without a check returns \<open>None\<close> where the code would panic.
\<close>

section \<open>State\<close>

record frozen_screen =
  fs_grid :: grid
  fs_history_len :: usize
  fs_evicted :: nat

record handler =
  h_grid :: grid
  h_frozen_grid :: "frozen_screen option"
  h_cursor :: cursor
  h_frozen_cursor :: "cursor option"
  h_modes :: terminal_modes
  h_region :: scroll_region
  h_title :: "rstring option"
  h_frozen_title :: "rstring option option"
  h_colors :: terminal_default_colors
  h_frozen_colors :: "terminal_default_colors option"
  h_alt_grid :: "grid option"
  h_alt_cursor :: "cursor option"
  h_dcs :: "dcs_state option"
  h_armed :: bool
  h_frozen_alt :: "bool option"
  h_eager :: bool
  h_active :: "(usize \<times> usize) option"
  h_last :: "last_graphic option"
  h_charsets :: terminal_charsets
  h_tabs :: tab_stops
  h_responses :: "bytes list"
  h_palette_overridden :: bool
  h_spare :: "grid option"
  h_reuse :: bool
  h_status :: "vt_program_status option"
  h_generation :: u64
  h_stores :: "image_store \<times> image_store"

abbreviation rows_of :: "handler \<Rightarrow> usize" where "rows_of h \<equiv> gr_rows (h_grid h)"
abbreviation cols_of :: "handler \<Rightarrow> usize" where "cols_of h \<equiv> gr_cols (h_grid h)"

section \<open>The presented frame\<close>

definition grid_snapshot :: "grid \<Rightarrow> frozen_screen" where
  "grid_snapshot g = \<lparr>fs_grid = clone_presented_viewport g, fs_history_len = scrollback_len g, fs_evicted = gr_evicted g\<rparr>"

definition freeze_grid :: "handler \<Rightarrow> handler" where
  "freeze_grid h = (if h_armed h \<and> h_frozen_grid h = None then h\<lparr>h_frozen_grid := Some (grid_snapshot (h_grid h))\<rparr> else h)"

definition freeze_cursor :: "handler \<Rightarrow> handler" where
  "freeze_cursor h = (if h_armed h \<and> h_frozen_cursor h = None then h\<lparr>h_frozen_cursor := Some (h_cursor h)\<rparr> else h)"

definition freeze_title :: "handler \<Rightarrow> handler" where
  "freeze_title h = (if h_armed h \<and> h_frozen_title h = None then h\<lparr>h_frozen_title := Some (h_title h)\<rparr> else h)"

definition freeze_colors :: "handler \<Rightarrow> handler" where
  "freeze_colors h = (if h_armed h \<and> h_frozen_colors h = None then h\<lparr>h_frozen_colors := Some (h_colors h)\<rparr> else h)"

definition on_grid :: "(grid \<Rightarrow> grid option) \<Rightarrow> handler \<Rightarrow> handler option" where
  "on_grid f h0 = (let h = freeze_grid h0 in map_option (\<lambda>g. h\<lparr>h_grid := g\<rparr>) (f (h_grid h)))"

definition on_cursor :: "(cursor \<Rightarrow> cursor) \<Rightarrow> handler \<Rightarrow> handler" where
  "on_cursor f h0 = (let h = freeze_cursor h0 in h\<lparr>h_cursor := f (h_cursor h)\<rparr>)"

definition on_title :: "(rstring option \<Rightarrow> rstring option) \<Rightarrow> handler \<Rightarrow> handler" where
  "on_title f h0 = (let h = freeze_title h0 in h\<lparr>h_title := f (h_title h)\<rparr>)"

definition on_colors :: "(terminal_default_colors \<Rightarrow> terminal_default_colors) \<Rightarrow> handler \<Rightarrow> handler" where
  "on_colors f h0 = (let h = freeze_colors h0 in h\<lparr>h_colors := f (h_colors h)\<rparr>)"

definition on_modes :: "(terminal_modes \<Rightarrow> terminal_modes) \<Rightarrow> handler \<Rightarrow> handler" where
  "on_modes f h = h\<lparr>h_modes := f (h_modes h)\<rparr>"

text \<open>\<open>live_mut_unfrozen\<close>, used only to mark the buffer for repainting.\<close>

definition mark_live_dirty :: "handler \<Rightarrow> handler" where
  "mark_live_dirty h = h\<lparr>h_grid := mark_all_dirty (h_grid h)\<rparr>"

definition freeze_alt_flag :: "handler \<Rightarrow> handler" where
  "freeze_alt_flag h =
     (if h_armed h \<and> h_frozen_alt h = None then h\<lparr>h_frozen_alt := Some (md_alternate_screen (h_modes h))\<rparr> else h)"

definition set_alternate_screen :: "bool \<Rightarrow> handler \<Rightarrow> handler" where
  "set_alternate_screen b h = on_modes (md_alternate_screen_update (\<lambda>_. b)) (freeze_alt_flag h)"

definition freeze_whole_presentation :: "handler \<Rightarrow> handler" where
  "freeze_whole_presentation h = freeze_alt_flag (freeze_colors (freeze_title (freeze_cursor (freeze_grid h))))"

definition release_sync_presentation :: "handler \<Rightarrow> handler" where
  "release_sync_presentation h =
     h\<lparr>h_armed := False, h_frozen_grid := None, h_frozen_cursor := None, h_frozen_title := None, h_frozen_colors := None,
       h_frozen_alt := None\<rparr>"

section \<open>The alternate screen\<close>

definition alt_grid_config :: grid_config where
  "alt_grid_config = default_grid_config\<lparr>gc_max_scrollback := 0\<rparr>"

definition alt_canvas :: "bool \<Rightarrow> grid option \<Rightarrow> usize \<Rightarrow> usize \<Rightarrow> grid" where
  "alt_canvas reuse spare rows cols =
     (case (if reuse then spare else None) of
        Some s \<Rightarrow> if is_blank_canvas s rows cols alt_grid_config then s else grid_reset_blank rows cols alt_grid_config s
      | None \<Rightarrow> grid_new rows cols alt_grid_config)"

text \<open>\<open>screen_swap\<close> borrows grid and cursor mutably, which freezes both.\<close>

definition swap_enter :: "bool \<Rightarrow> handler \<Rightarrow> handler" where
  "swap_enter save_cursor h0 =
     (let h = freeze_cursor (freeze_grid h0);
          h = h\<lparr>h_stores := (fst (h_stores h), store_clear (snd (h_stores h)))\<rparr>;
          alt = alt_canvas (h_reuse h) (h_spare h) (rows_of h) (cols_of h);
          h = h\<lparr>h_spare := None, h_alt_grid := Some (h_grid h), h_grid := mark_all_dirty alt\<rparr>
      in if save_cursor
         then h\<lparr>h_alt_cursor := Some (h_cursor h), h_cursor := cursor_new\<lparr>cu_saved := cu_saved (h_cursor h)\<rparr>\<rparr>
         else h\<lparr>h_alt_cursor := None\<rparr>)"

definition swap_leave :: "bool \<Rightarrow> handler \<Rightarrow> handler" where
  "swap_leave restore_cursor h0 =
     (let h = freeze_cursor (freeze_grid h0);
          h = h\<lparr>h_stores := (fst (h_stores h), store_clear (snd (h_stores h)))\<rparr>;
          h = (case h_alt_grid h of
                 Some primary \<Rightarrow>
                   h\<lparr>h_alt_grid := None, h_grid := mark_all_dirty primary,
                     h_spare := if h_reuse h then Some (h_grid h) else h_spare h\<rparr>
               | None \<Rightarrow> h)
      in if restore_cursor
         then (case h_alt_cursor h of
                 Some c \<Rightarrow> h\<lparr>h_alt_cursor := None, h_cursor := c\<rparr>
               | None \<Rightarrow> h)
         else h\<lparr>h_alt_cursor := None\<rparr>)"

section \<open>The character under construction\<close>

definition clear_active_grapheme_cell :: "handler \<Rightarrow> handler" where
  "clear_active_grapheme_cell h = h\<lparr>h_active := None\<rparr>"

definition set_active_grapheme_cell :: "usize \<Rightarrow> usize \<Rightarrow> handler \<Rightarrow> handler" where
  "set_active_grapheme_cell row col h = h\<lparr>h_active := Some (row, col)\<rparr>"

definition remember_graphic_scalar :: "rchar \<Rightarrow> handler \<Rightarrow> handler" where
  "remember_graphic_scalar ch h = h\<lparr>h_last := Some \<lparr>lg_ch = ch, lg_rest = []\<rparr>\<rparr>"

definition extend_remembered_graphic :: "usize \<times> usize \<Rightarrow> rchar \<Rightarrow> handler \<Rightarrow> handler" where
  "extend_remembered_graphic joined ch h =
     (if h_active h \<noteq> Some joined then h
      else h\<lparr>h_last := map_option (\<lambda>r. r\<lparr>lg_rest := lg_rest r @ [ch]\<rparr>) (h_last h)\<rparr>)"

definition cursor_blank_cell :: "handler \<Rightarrow> cell" where
  "cursor_blank_cell h = \<lparr>c_ch = 32, c_width = 1, c_style = cu_style (h_cursor h), c_extended = None\<rparr>"

section \<open>The cursor\<close>

definition save_cursor_state :: "handler \<Rightarrow> handler" where
  "save_cursor_state h = on_cursor (cursor_save (md_origin_mode (h_modes h)) (h_charsets h)) h"

definition grid_last_row :: "handler \<Rightarrow> usize" where
  "grid_last_row h = rows_of h - 1"

definition grid_last_col :: "handler \<Rightarrow> usize" where
  "grid_last_col h = cols_of h - 1"

definition clamp_cursor_to_grid :: "handler \<Rightarrow> handler" where
  "clamp_cursor_to_grid h =
     (let row = min (cu_row (h_cursor h)) (grid_last_row h); col = min (cu_col (h_cursor h)) (grid_last_col h)
      in on_cursor (\<lambda>c. c\<lparr>cu_auto_wrap_pending := cu_auto_wrap_pending c \<and> \<not> (row \<noteq> cu_row c \<or> col \<noteq> cu_col c),
                          cu_row := row, cu_col := col\<rparr>) h)"

definition restore_cursor_state :: "handler \<Rightarrow> handler" where
  "restore_cursor_state h0 =
     (let h = on_cursor (\<lambda>c. snd (cursor_restore c)) h0
      in case fst (cursor_restore (h_cursor h0)) of
           Some (origin, charsets) \<Rightarrow>
             clamp_cursor_to_grid ((on_modes (md_origin_mode_update (\<lambda>_. origin)) h)\<lparr>h_charsets := charsets\<rparr>)
         | None \<Rightarrow> h)"

definition origin_top :: "handler \<Rightarrow> usize" where
  "origin_top h = (if md_origin_mode (h_modes h) then min (sr_top (h_region h)) (grid_last_row h) else 0)"

definition origin_bottom :: "handler \<Rightarrow> usize" where
  "origin_bottom h = (if md_origin_mode (h_modes h) then min (sr_bottom (h_region h)) (grid_last_row h) else grid_last_row h)"

definition addressed_row :: "u16 \<Rightarrow> u16 \<Rightarrow> handler \<Rightarrow> usize" where
  "addressed_row param dflt h =
     (let row_offset = (if param = 0 then dflt else param) - 1;
          top_row = origin_top h; bottom_row = max (origin_bottom h) top_row
      in min (min (sat_add_usize top_row row_offset) bottom_row) (grid_last_row h))"

definition upward_vertical_top :: "handler \<Rightarrow> usize" where
  "upward_vertical_top h =
     (let top_row = min (sr_top (h_region h)) (grid_last_row h); bottom_row = min (sr_bottom (h_region h)) (grid_last_row h)
      in if top_row \<le> bottom_row \<and> top_row \<le> cu_row (h_cursor h) then top_row else 0)"

definition downward_vertical_bottom :: "handler \<Rightarrow> usize" where
  "downward_vertical_bottom h =
     (let top_row = min (sr_top (h_region h)) (grid_last_row h); bottom_row = min (sr_bottom (h_region h)) (grid_last_row h)
      in if top_row \<le> bottom_row \<and> cu_row (h_cursor h) \<le> bottom_row then bottom_row else grid_last_row h)"

definition scroll_region_height :: "handler \<Rightarrow> usize" where
  "scroll_region_height h = sat_add_usize (sr_bottom (h_region h) - sr_top (h_region h)) 1"

definition lines_from_cursor_to_region_bottom :: "handler \<Rightarrow> usize option" where
  "lines_from_cursor_to_region_bottom h =
     (if cu_row (h_cursor h) < sr_top (h_region h) \<or> sr_bottom (h_region h) < cu_row (h_cursor h) then None
      else Some (sat_add_usize (sr_bottom (h_region h) - cu_row (h_cursor h)) 1))"

definition move_cursor_up :: "usize \<Rightarrow> handler \<Rightarrow> handler" where
  "move_cursor_up n h =
     (let top_row = upward_vertical_top h
      in on_cursor (\<lambda>c. c\<lparr>cu_row := max (cu_row c - n) top_row, cu_auto_wrap_pending := False\<rparr>) h)"

definition move_cursor_down :: "usize \<Rightarrow> handler \<Rightarrow> handler" where
  "move_cursor_down n h =
     (let bottom_row = downward_vertical_bottom h
      in on_cursor (\<lambda>c. c\<lparr>cu_row := min (sat_add_usize (cu_row c) n) bottom_row, cu_auto_wrap_pending := False\<rparr>) h)"

definition home_cursor_to_origin :: "handler \<Rightarrow> handler" where
  "home_cursor_to_origin h =
     (let row = origin_top h in on_cursor (\<lambda>c. c\<lparr>cu_row := row, cu_col := 0, cu_auto_wrap_pending := False\<rparr>) h)"

definition screen_alignment_pattern :: "handler \<Rightarrow> handler option" where
  "screen_alignment_pattern h0 =
     do {
       h \<leftarrow> on_grid (Some \<circ> Vt_Grid.fill_alignment_pattern) h0;
       Some (on_cursor (\<lambda>c. c\<lparr>cu_row := 0, cu_col := 0, cu_auto_wrap_pending := False\<rparr>)
         (h\<lparr>h_region := \<lparr>sr_top = 0, sr_bottom = rows_of h - 1\<rparr>\<rparr>))
     }"

section \<open>Character sets\<close>

definition reset_charsets :: "handler \<Rightarrow> handler" where
  "reset_charsets h = h\<lparr>h_charsets := default_charsets\<rparr>"

definition active_charset :: "handler \<Rightarrow> terminal_charset" where
  "active_charset h = (case tc_active (h_charsets h) of G0 \<Rightarrow> tc_g0 (h_charsets h) | G1 \<Rightarrow> tc_g1 (h_charsets h))"

text \<open>The line drawing set maps \<open>_\<close> to a blank and the 31 characters from the backquote on.\<close>

definition dec_special_graphics :: "rchar \<Rightarrow> rchar option" where
  "dec_special_graphics ch =
     (if ch = 95 then Some 32
      else if 96 \<le> ch \<and> ch \<le> 126
      then Some ([0x25C6, 0x2592, 0x2409, 0x240C, 0x240D, 0x240A, 0xB0, 0xB1, 0x2424, 0x240B, 0x2518, 0x2510, 0x250C,
                  0x2514, 0x253C, 0x23BA, 0x23BB, 0x2500, 0x23BC, 0x23BD, 0x251C, 0x2524, 0x2534, 0x252C, 0x2502, 0x2264,
                  0x2265, 0x3C0, 0x2260, 0xA3, 0xB7] ! (ch - 96))
      else None)"

definition translate_printable :: "handler \<Rightarrow> rchar \<Rightarrow> rchar" where
  "translate_printable h ch =
     (if active_charset h \<noteq> DecSpecialGraphics then ch
      else case dec_special_graphics ch of Some c \<Rightarrow> c | None \<Rightarrow> ch)"

definition designate_charset :: "charset_slot \<Rightarrow> nat \<Rightarrow> handler \<Rightarrow> handler" where
  "designate_charset slot final_byte h =
     (let charset = (if final_byte = 48 then DecSpecialGraphics else CharsetAscii)
      in h\<lparr>h_charsets := (case slot of G0 \<Rightarrow> (h_charsets h)\<lparr>tc_g0 := charset\<rparr> | G1 \<Rightarrow> (h_charsets h)\<lparr>tc_g1 := charset\<rparr>)\<rparr>)"

end
