(* ===== verification/Vt_Write.thy ===== *)
theory Vt_Write
  imports Vt_Handler
begin

text \<open>
  Printing, the part of \<^verbatim>\<open>shux-vt/src/parser.rs\<close> that puts characters into cells: wide characters and
  their two halves, combining marks, joined and flag sequences, wrapping and scrolling at the margins,
  and the repetition of the last character.

  \<open>W\<close> is the width function of the \<^verbatim>\<open>unicode-width\<close> crate; \<open>None\<close> means that the scalar has no width.
\<close>

type_synonym width_fn = "rchar \<Rightarrow> usize option"

section \<open>Editing one row\<close>

text \<open>\<open>row[col] = cell\<close> panics out of range.\<close>

definition put_at :: "usize \<Rightarrow> cell \<Rightarrow> row \<Rightarrow> row option" where
  "put_at col c r = (if col < row_len r then Some (put_cell col c r) else None)"

definition edit_row :: "usize \<Rightarrow> (row \<Rightarrow> row option) \<Rightarrow> handler \<Rightarrow> handler option" where
  "edit_row row f =
     on_grid (\<lambda>g. do { r \<leftarrow> visible_row g row; r' \<leftarrow> f r; visible_row_mut_marked row (\<lambda>_. r') g })"

section \<open>Wrapping\<close>

definition wrap_to_next_line :: "handler \<Rightarrow> handler option" where
  "wrap_to_next_line h0 =
     do {
       let h = on_cursor (\<lambda>c. c\<lparr>cu_col := 0, cu_auto_wrap_pending := False\<rparr>) (clear_active_grapheme_cell h0);
       h \<leftarrow> edit_row (cu_row (h_cursor h)) (\<lambda>r. Some (r\<lparr>r_wrapped := True\<rparr>)) h;
       (if cu_row (h_cursor h) = sr_bottom (h_region h)
        then on_grid (Some \<circ> scroll_up (sr_top (h_region h)) (sr_bottom (h_region h))) h
        else Some (if cu_row (h_cursor h) + 1 < rows_of h then on_cursor (\<lambda>c. c\<lparr>cu_row := cu_row c + 1\<rparr>) h else h))
     }"

section \<open>Joining a character to the one before it\<close>

definition active_grapheme_position :: "handler \<Rightarrow> (usize \<times> usize) option option" where
  "active_grapheme_position h =
     (case h_active h of
        None \<Rightarrow> Some None
      | Some (row, col) \<Rightarrow>
          do {
            r \<leftarrow> visible_row (h_grid h) row;
            Some (case row_get r col of
                    None \<Rightarrow> None
                  | Some c \<Rightarrow> if \<not> is_wide_continuation c \<and> c_ch c \<noteq> 32 then Some (row, col) else None)
          })"

definition preceding_cell_position :: "handler \<Rightarrow> (usize \<times> usize) option option" where
  "preceding_cell_position h =
     (let c = h_cursor h
      in if \<not> cu_auto_wrap_pending c \<and> cu_col c = 0 then Some None
         else
           let source_col = (if cu_auto_wrap_pending c then cu_col c else cu_col c - 1)
           in do {
                r \<leftarrow> visible_row (h_grid h) (cu_row c);
                let on_tail = (case row_get r source_col of Some x \<Rightarrow> is_wide_continuation x | None \<Rightarrow> False);
                (if on_tail \<and> source_col = 0 then Some None
                 else
                   let source_col = (if on_tail then source_col - 1 else source_col)
                   in Some (case row_get r source_col of None \<Rightarrow> None | Some _ \<Rightarrow> Some (cu_row c, source_col)))
              })"

definition append_zero_width_scalar :: "rchar \<Rightarrow> handler \<Rightarrow> handler option" where
  "append_zero_width_scalar ch h =
     do {
       a \<leftarrow> active_grapheme_position h;
       p \<leftarrow> (case a of Some x \<Rightarrow> Some (Some x) | None \<Rightarrow> preceding_cell_position h);
       (case p of
          None \<Rightarrow> Some h
        | Some (row, col) \<Rightarrow>
            if rows_of h \<le> row \<or> cols_of h \<le> col then Some h
            else do {
              r \<leftarrow> visible_row (h_grid h) row;
              let will_write = (case row_get r col of Some c \<Rightarrow> \<not> is_wide_continuation c \<and> c_ch c \<noteq> 32 | None \<Rightarrow> False);
              (if \<not> will_write then Some h
               else do {
                 let appended = (case row_get r col of Some c \<Rightarrow> fst (append_grapheme_scalar c ch) | None \<Rightarrow> False);
                 h \<leftarrow> edit_row row (\<lambda>r. Some (case row_get r col of
                                              Some c \<Rightarrow> put_cell col (snd (append_grapheme_scalar c ch)) r
                                            | None \<Rightarrow> r)) h;
                 let h = (if appended then extend_remembered_graphic (row, col) ch h else h);
                 Some (set_active_grapheme_cell row col h)
               })
            })
     }"

definition str_ends_with_zwj :: "rstring \<Rightarrow> bool" where
  "str_ends_with_zwj t \<longleftrightarrow> t \<noteq> [] \<and> last t = 0x200D"

definition is_regional_indicator :: "rchar \<Rightarrow> bool" where
  "is_regional_indicator ch \<longleftrightarrow> 0x1F1E6 \<le> ch \<and> ch \<le> 0x1F1FF"

definition cell_contains_single_regional_indicator :: "cell \<Rightarrow> bool" where
  "cell_contains_single_regional_indicator c =
     (case display_text c of [x] \<Rightarrow> is_regional_indicator x | _ \<Rightarrow> False)"

text \<open>
  The edit both joins make: append the scalar, set the width, and for a wide result put the second
  half behind it.  The flag is \<open>False\<close> for a full payload, which leaves the row as it was.
\<close>

definition join_cell :: "usize \<Rightarrow> rchar \<Rightarrow> usize \<Rightarrow> color \<Rightarrow> row \<Rightarrow> (bool \<times> row) option" where
  "join_cell col ch target_width bg r =
     (case row_get r col of
        None \<Rightarrow> None
      | Some c \<Rightarrow>
          let (appended, c') = append_grapheme_scalar c ch
          in if \<not> appended then Some (False, put_cell col c' r)
             else
               let r = put_cell col (c'\<lparr>c_width := target_width\<rparr>) r
               in if target_width = 2 then
                    do {
                      t \<leftarrow> row_get r (col + 1);
                      r \<leftarrow> put_at (col + 1) wide_continuation
                            (if \<not> is_wide_continuation t then clear_wide_pair_around (col + 1) bg r else r);
                      Some (True, r)
                    }
                  else Some (True, r))"

definition join_at :: "usize \<Rightarrow> usize \<Rightarrow> rchar \<Rightarrow> usize \<Rightarrow> handler \<Rightarrow> (bool \<times> handler) option" where
  "join_at row col ch target_width h =
     do {
       let bg = cs_bg (cu_style (h_cursor h));
       r \<leftarrow> visible_row (h_grid h) row;
       (ok, r') \<leftarrow> join_cell col ch target_width bg r;
       h \<leftarrow> edit_row row (\<lambda>_. Some r') h;
       Some (ok, h)
     }"

definition try_append_to_active_grapheme :: "rchar \<Rightarrow> usize \<Rightarrow> handler \<Rightarrow> (bool \<times> handler) option" where
  "try_append_to_active_grapheme ch width h =
     do {
       p \<leftarrow> active_grapheme_position h;
       (case p of
          None \<Rightarrow> Some (False, h)
        | Some (row, col) \<Rightarrow>
            do {
              r \<leftarrow> visible_row (h_grid h) row;
              let should_join = (case row_get r col of
                                   Some c \<Rightarrow> (case grapheme c of Some t \<Rightarrow> str_ends_with_zwj t | None \<Rightarrow> False)
                                 | None \<Rightarrow> False);
              (if \<not> should_join then Some (False, h)
               else
                 let cols = cols_of h;
                     target_width = min (case row_get r col of Some c \<Rightarrow> max (c_width c) width | None \<Rightarrow> width) 2
                 in if target_width = 2 \<and> cols \<le> col + 1 then Some (False, h)
                    else do {
                      (ok, h) \<leftarrow> join_at row col ch target_width h;
                      (if \<not> ok then Some (False, h)
                       else
                         let h = extend_remembered_graphic (row, col) ch h; next_col = col + target_width
                         in Some (True,
                              if cols \<le> next_col
                              then on_cursor (\<lambda>c. c\<lparr>cu_col := cols - 1, cu_auto_wrap_pending := True\<rparr>) h
                              else on_cursor (\<lambda>c. c\<lparr>cu_col := max (cu_col c) next_col\<rparr>) h))
                    })
            })
     }"

definition try_append_regional_indicator_pair :: "rchar \<Rightarrow> handler \<Rightarrow> (bool \<times> handler) option" where
  "try_append_regional_indicator_pair ch h =
     (if \<not> is_regional_indicator ch then Some (False, h)
      else do {
        p \<leftarrow> active_grapheme_position h;
        (case p of
           None \<Rightarrow> Some (False, h)
         | Some (row, col) \<Rightarrow>
             do {
               r \<leftarrow> visible_row (h_grid h) row;
               let previous_is_single_ri =
                 (case row_get r col of Some c \<Rightarrow> cell_contains_single_regional_indicator c | None \<Rightarrow> False);
               (if \<not> previous_is_single_ri \<or> cols_of h \<le> col + 1 then Some (False, h)
                else do {
                  let cols = cols_of h;
                  (ok, h) \<leftarrow> join_at row col ch 2 h;
                  (if \<not> ok then Some (False, h)
                   else
                     let h = set_active_grapheme_cell row col (extend_remembered_graphic (row, col) ch h)
                     in Some (True, on_cursor (\<lambda>c. c\<lparr>cu_col := min (col + 2) (cols - 1),
                                                      cu_auto_wrap_pending := cols \<le> col + 2\<rparr>) h))
                })
             })
      })"

section \<open>Writing a character\<close>

definition blank_at_cursor :: "handler \<Rightarrow> handler option" where
  "blank_at_cursor h =
     (let col = cu_col (h_cursor h); bg = cs_bg (cu_style (h_cursor h)); blank = cursor_blank_cell h
      in edit_row (cu_row (h_cursor h)) (\<lambda>r. put_at col blank (clear_wide_pair_around col bg r)) h)"

definition glyph_row :: "rchar \<Rightarrow> usize \<Rightarrow> usize \<Rightarrow> cursor \<Rightarrow> row \<Rightarrow> row option" where
  "glyph_row ch width cols cur r =
     (let col = cu_col cur; bg = cs_bg (cu_style cur);
          r = clear_wide_pair_around col bg r;
          r = (if width = 2 then clear_wide_pair_around (col + 1) bg r else r)
      in do {
           r \<leftarrow> put_at col \<lparr>c_ch = ch, c_width = width, c_style = cu_style cur, c_extended = cu_extended cur\<rparr> r;
           (if width = 2 \<and> col + 1 < cols then put_at (col + 1) wide_continuation r else Some r)
         })"

definition place_glyph :: "rchar \<Rightarrow> usize \<Rightarrow> usize \<Rightarrow> handler \<Rightarrow> handler option" where
  "place_glyph ch width cols h0 =
     do {
       h \<leftarrow> (if md_insert_mode (h_modes h0)
             then on_grid (insert_chars (cu_row (h_cursor h0)) (cu_col (h_cursor h0)) width) h0 else Some h0);
       let cur = h_cursor h;
       h \<leftarrow> edit_row (cu_row cur) (glyph_row ch width cols cur) h;
       Some (on_cursor (\<lambda>c. let col = cu_col c + width
                            in if cols \<le> col then c\<lparr>cu_col := cols - 1, cu_auto_wrap_pending := True\<rparr> else c\<lparr>cu_col := col\<rparr>)
         (set_active_grapheme_cell (cu_row cur) (cu_col cur) h))
     }"

definition write_glyph :: "rchar \<Rightarrow> usize \<Rightarrow> handler \<Rightarrow> handler option" where
  "write_glyph ch width h0 =
     do {
       let h = remember_graphic_scalar ch h0;
       let cols = cols_of h;
       let rows = rows_of h;
       h \<leftarrow> (if cu_auto_wrap_pending (h_cursor h) then
               (if md_auto_wrap (h_modes h) then wrap_to_next_line h
                else Some (on_cursor (\<lambda>c. c\<lparr>cu_col := cols - 1, cu_auto_wrap_pending := False\<rparr>) h))
             else Some h);
       let h = (if cols \<le> cu_col (h_cursor h) then on_cursor (\<lambda>c. c\<lparr>cu_col := cols - 1\<rparr>) h else h);
       let h = (if rows \<le> cu_row (h_cursor h) then on_cursor (\<lambda>c. c\<lparr>cu_row := rows - 1\<rparr>) h else h);
       (if width = 2 \<and> cols < 2 then
          do {
            h \<leftarrow> blank_at_cursor h;
            Some (clear_active_grapheme_cell (on_cursor (\<lambda>c. c\<lparr>cu_auto_wrap_pending := False\<rparr>) h))
          }
        else if width = 2 \<and> cols \<le> cu_col (h_cursor h) + 1 then
          do {
            h \<leftarrow> blank_at_cursor h;
            (if md_auto_wrap (h_modes h) then do { h \<leftarrow> wrap_to_next_line h; place_glyph ch width cols h }
             else Some (clear_active_grapheme_cell (on_cursor (\<lambda>c. c\<lparr>cu_auto_wrap_pending := False\<rparr>) h)))
          }
        else place_glyph ch width cols h)
     }"

definition write_char :: "width_fn \<Rightarrow> rchar \<Rightarrow> handler \<Rightarrow> handler option" where
  "write_char W ch h0 =
     (case W ch of
        None \<Rightarrow> Some h0
      | Some w \<Rightarrow>
          let width = min w 2
          in if width = 0 then append_zero_width_scalar ch h0
             else do {
               (joined, h) \<leftarrow> try_append_to_active_grapheme ch width h0;
               (if joined then Some h
                else do {
                  (joined, h) \<leftarrow> try_append_regional_indicator_pair ch h;
                  (if joined then Some h else write_glyph ch width h)
                })
             })"

section \<open>Repetition\<close>

definition repeat_iterations :: "handler \<Rightarrow> usize \<Rightarrow> last_graphic \<Rightarrow> usize" where
  "repeat_iterations h count source =
     (let cells = max (min (rows_of h * cols_of h) usize_max) 1;
          scalar_budget = min (cells * 2) usize_max div scalar_count source
      in min (min count cells) (max scalar_budget 1))"

fun write_scalars :: "width_fn \<Rightarrow> rstring \<Rightarrow> handler \<Rightarrow> handler option" where
  "write_scalars W [] h = Some h"
| "write_scalars W (ch # chs) h = do { h \<leftarrow> write_char W ch h; write_scalars W chs h }"

definition repeat_preceding_char :: "width_fn \<Rightarrow> usize \<Rightarrow> handler \<Rightarrow> handler option" where
  "repeat_preceding_char W count h =
     (if count = 0 then Some h
      else case h_last h of
             None \<Rightarrow> Some h
           | Some source \<Rightarrow>
               write_scalars W (concat (replicate (repeat_iterations h count source) (lg_scalars source))) h)"

section \<open>Moving by lines\<close>

definition next_tab_col :: "handler \<Rightarrow> usize \<Rightarrow> usize" where
  "next_tab_col h count = next_from (h_tabs h) (cu_col (h_cursor h)) count"

definition prev_tab_col :: "handler \<Rightarrow> usize \<Rightarrow> usize" where
  "prev_tab_col h count = prev_from (h_tabs h) (cu_col (h_cursor h)) count"

definition carriage_return :: "handler \<Rightarrow> handler" where
  "carriage_return = on_cursor (\<lambda>c. c\<lparr>cu_col := 0, cu_auto_wrap_pending := False\<rparr>)"

definition linefeed :: "handler \<Rightarrow> handler option" where
  "linefeed h =
     do {
       h \<leftarrow> (if cu_row (h_cursor h) = sr_bottom (h_region h)
             then on_grid (Some \<circ> scroll_up (sr_top (h_region h)) (sr_bottom (h_region h))) h
             else if rows_of h = 0 then None
             else Some (if cu_row (h_cursor h) < rows_of h - 1 then on_cursor (\<lambda>c. c\<lparr>cu_row := cu_row c + 1\<rparr>) h else h));
       let h = (if md_newline_mode (h_modes h) then on_cursor (\<lambda>c. c\<lparr>cu_col := 0\<rparr>) h else h);
       Some (on_cursor (\<lambda>c. c\<lparr>cu_auto_wrap_pending := False\<rparr>) h)
     }"

definition reverse_index :: "handler \<Rightarrow> handler option" where
  "reverse_index h =
     do {
       h \<leftarrow> (if cu_row (h_cursor h) = sr_top (h_region h)
             then on_grid (Some \<circ> scroll_down (sr_top (h_region h)) (sr_bottom (h_region h))) h
             else Some (if 0 < cu_row (h_cursor h) then on_cursor (\<lambda>c. c\<lparr>cu_row := cu_row c - 1\<rparr>) h else h));
       Some (on_cursor (\<lambda>c. c\<lparr>cu_auto_wrap_pending := False\<rparr>) h)
     }"

end
