(* ===== verification/Vt_Sgr.thy ===== *)
theory Vt_Sgr
  imports Vt_Write
begin

text \<open>
  The pen: \<open>SGR\<close> sequences and how the terminal reports the pen back, from \<^verbatim>\<open>shux-vt/src/parser.rs\<close>.
  Parameters arrive grouped: \<open>38:2:1:2:3\<close> is one group, \<open>38;2;1;2;3\<close> five.
\<close>

section \<open>Extended attributes of the cursor\<close>

text \<open>\<open>cursor_extended_mut\<close> and \<open>prune_cursor_extended\<close> around one update.\<close>

definition on_extended :: "(extended_attrs \<Rightarrow> extended_attrs) \<Rightarrow> cursor \<Rightarrow> cursor" where
  "on_extended f c =
     (let x = f (case cu_extended c of Some x \<Rightarrow> x | None \<Rightarrow> default_extended)
      in c\<lparr>cu_extended := if x = default_extended then None else Some x\<rparr>)"

definition set_cursor_hyperlink :: "rstring option \<Rightarrow> handler \<Rightarrow> handler" where
  "set_cursor_hyperlink l = on_cursor (on_extended (xa_hyperlink_update (\<lambda>_. l)))"

definition set_underline_style :: "underline_style \<Rightarrow> cursor \<Rightarrow> cursor" where
  "set_underline_style s = on_extended (xa_underline_style_update (\<lambda>_. s))"

definition set_underline_color :: "color option \<Rightarrow> cursor \<Rightarrow> cursor" where
  "set_underline_color col = on_extended (xa_underline_color_update (\<lambda>_. col))"

section \<open>Applying parameters\<close>

definition pen_flag :: "(cell_flags \<Rightarrow> u8 \<Rightarrow> cell_flags) \<Rightarrow> u8 \<Rightarrow> cursor \<Rightarrow> cursor" where
  "pen_flag f flag c = c\<lparr>cu_style := (cu_style c)\<lparr>cs_flags := f (cs_flags (cu_style c)) flag\<rparr>\<rparr>"

definition pen_fg :: "color \<Rightarrow> cursor \<Rightarrow> cursor" where
  "pen_fg col c = c\<lparr>cu_style := (cu_style c)\<lparr>cs_fg := col\<rparr>\<rparr>"

definition pen_bg :: "color \<Rightarrow> cursor \<Rightarrow> cursor" where
  "pen_bg col c = c\<lparr>cu_style := (cu_style c)\<lparr>cs_bg := col\<rparr>\<rparr>"

text \<open>What one parameter does to the cursor, or \<open>None\<close> where it does not touch it.\<close>

definition sgr_effect :: "u16 \<Rightarrow> (cursor \<Rightarrow> cursor) option" where
  "sgr_effect param =
     (if param = 0 then Some (\<lambda>c. c\<lparr>cu_style := default_style, cu_extended := None\<rparr>)
      else if param = 1 then Some (pen_flag flags_set BOLD)
      else if param = 2 then Some (pen_flag flags_set DIM)
      else if param = 3 then Some (pen_flag flags_set ITALIC)
      else if param = 4 then Some (\<lambda>c. set_underline_style UnderlineSingle (pen_flag flags_set UNDERLINE c))
      else if param = 5 \<or> param = 6 then Some (pen_flag flags_set BLINK)
      else if param = 7 then Some (pen_flag flags_set INVERSE)
      else if param = 8 then Some (pen_flag flags_set HIDDEN)
      else if param = 9 then Some (pen_flag flags_set STRIKETHROUGH)
      else if param = 21 then Some (pen_flag flags_unset BOLD)
      else if param = 22 then Some (\<lambda>c. pen_flag flags_unset DIM (pen_flag flags_unset BOLD c))
      else if param = 23 then Some (pen_flag flags_unset ITALIC)
      else if param = 24 then Some (\<lambda>c. set_underline_style UnderlineNone (pen_flag flags_unset UNDERLINE c))
      else if param = 25 then Some (pen_flag flags_unset BLINK)
      else if param = 27 then Some (pen_flag flags_unset INVERSE)
      else if param = 28 then Some (pen_flag flags_unset HIDDEN)
      else if param = 29 then Some (pen_flag flags_unset STRIKETHROUGH)
      else if 30 \<le> param \<and> param \<le> 37 then Some (pen_fg (Indexed (of_nat (param - 30))))
      else if param = 39 then Some (pen_fg ColorDefault)
      else if 40 \<le> param \<and> param \<le> 47 then Some (pen_bg (Indexed (of_nat (param - 40))))
      else if param = 49 then Some (pen_bg ColorDefault)
      else if param = 59 then Some (set_underline_color None)
      else if 90 \<le> param \<and> param \<le> 97 then Some (pen_fg (Indexed (of_nat (param - 90 + 8))))
      else if 100 \<le> param \<and> param \<le> 107 then Some (pen_bg (Indexed (of_nat (param - 100 + 8))))
      else None)"

definition apply_sgr :: "u16 \<Rightarrow> handler \<Rightarrow> handler" where
  "apply_sgr param h = (case sgr_effect param of Some f \<Rightarrow> on_cursor f h | None \<Rightarrow> h)"

definition sgr_u8 :: "u16 \<Rightarrow> u8" where
  "sgr_u8 v = of_nat (min v 255)"

definition parse_sgr_color_tail :: "u16 list \<Rightarrow> color option" where
  "parse_sgr_color_tail tail =
     (case tail of
        [] \<Rightarrow> None
      | k # rest \<Rightarrow>
          if k = 5 \<and> 2 \<le> length tail then Some (Indexed (sgr_u8 (tail ! 1)))
          else if k = 2 \<and> 4 \<le> length tail then
            (let n = length tail in Some (Rgb (sgr_u8 (tail ! (n - 3))) (sgr_u8 (tail ! (n - 2))) (sgr_u8 (tail ! (n - 1)))))
          else None)"

text \<open>\<open>groups.get(i)?.first()?\<close>.\<close>

definition group_head :: "u16 list list \<Rightarrow> usize \<Rightarrow> u16 option" where
  "group_head groups i = (if i < length groups then (case groups ! i of [] \<Rightarrow> None | x # _ \<Rightarrow> Some x) else None)"

definition parse_sgr_color :: "u16 list list \<Rightarrow> usize \<Rightarrow> (color \<times> usize) option" where
  "parse_sgr_color groups start =
     (if length groups \<le> start then None
      else if 1 < length (groups ! start) then map_option (\<lambda>col. (col, 1)) (parse_sgr_color_tail (tl (groups ! start)))
      else if group_head groups (start + 1) = Some 5 then
        map_option (\<lambda>i. (Indexed (sgr_u8 i), 3)) (group_head groups (start + 2))
      else if group_head groups (start + 1) = Some 2 then
        do {
          r \<leftarrow> group_head groups (start + 2);
          g \<leftarrow> group_head groups (start + 3);
          b \<leftarrow> group_head groups (start + 4);
          Some (Rgb (sgr_u8 r) (sgr_u8 g) (sgr_u8 b), 5)
        }
      else None)"

definition sgr_underline :: "u16 \<Rightarrow> handler \<Rightarrow> handler" where
  "sgr_underline k h =
     (if k = 0 then on_cursor (\<lambda>c. set_underline_style UnderlineNone (pen_flag flags_unset UNDERLINE c)) h
      else if k = 1 then on_cursor (\<lambda>c. set_underline_style UnderlineSingle (pen_flag flags_set UNDERLINE c)) h
      else if k = 2 then on_cursor (\<lambda>c. set_underline_style UnderlineDouble (pen_flag flags_set UNDERLINE c)) h
      else if k = 3 then on_cursor (\<lambda>c. set_underline_style UnderlineCurly (pen_flag flags_set UNDERLINE c)) h
      else if k = 4 then on_cursor (\<lambda>c. set_underline_style UnderlineDotted (pen_flag flags_set UNDERLINE c)) h
      else if k = 5 then on_cursor (\<lambda>c. set_underline_style UnderlineDashed (pen_flag flags_set UNDERLINE c)) h
      else h)"

text \<open>One round of the loop over the groups: the new state and how many groups it consumed.\<close>

definition sgr_color :: "(color \<Rightarrow> cursor \<Rightarrow> cursor) \<Rightarrow> u16 list list \<Rightarrow> usize \<Rightarrow> handler \<Rightarrow> handler \<times> usize" where
  "sgr_color pen groups i h =
     (case parse_sgr_color groups i of Some (col, consumed) \<Rightarrow> (on_cursor (pen col) h, consumed) | None \<Rightarrow> (h, 1))"

definition sgr_group :: "u16 list list \<Rightarrow> usize \<Rightarrow> handler \<Rightarrow> handler \<times> usize" where
  "sgr_group groups i h =
     (case groups ! i of
        [] \<Rightarrow> (apply_sgr 0 h, 1)
      | k # rest \<Rightarrow>
          if k = 4 \<and> rest \<noteq> [] then (sgr_underline (hd rest) h, 1)
          else if k = 38 then sgr_color pen_fg groups i h
          else if k = 48 then sgr_color pen_bg groups i h
          else if k = 58 then sgr_color (\<lambda>col. set_underline_color (Some col)) groups i h
          else if k = 59 then (on_cursor (set_underline_color None) h, 1)
          else (fold apply_sgr (k # rest) h, 1))"

lemma parse_sgr_color_advances: "parse_sgr_color groups i = Some (col, n) \<Longrightarrow> 0 < n"
  by (auto simp: parse_sgr_color_def Let_def split: if_splits bind_splits)

lemma sgr_group_advances [simp]: "0 < snd (sgr_group groups i h)"
  by (auto simp: sgr_group_def sgr_color_def parse_sgr_color_advances split: list.splits option.splits prod.splits if_splits)

function sgr_loop :: "u16 list list \<Rightarrow> usize \<Rightarrow> handler \<Rightarrow> handler" where
  "sgr_loop groups i h =
     (if i < length groups then let (h, n) = sgr_group groups i h in sgr_loop groups (i + n) h else h)"
  by pat_completeness auto
termination
proof (relation "measure (\<lambda>(groups, i, h). length groups - i)")
  fix groups i and h :: handler and x h' n
  assume "i < length groups" "x = sgr_group groups i h" "(h', n) = x"
  then have "0 < n" using sgr_group_advances [of groups i h] by (metis snd_conv)
  then show "((groups, i + n, h'), groups, i, h) \<in> measure (\<lambda>(groups, i, h). length groups - i)"
    using \<open>i < length groups\<close> by simp
qed simp

declare sgr_loop.simps [simp del]

definition csi_sgr :: "u16 list list \<Rightarrow> handler \<Rightarrow> handler" where
  "csi_sgr groups h = (if groups = [] then apply_sgr 0 h else sgr_loop groups 0 h)"

section \<open>Reporting the pen\<close>

definition color_params :: "color \<Rightarrow> bool \<Rightarrow> bytes list" where
  "color_params col background =
     (case col of
        ColorDefault \<Rightarrow> []
      | Indexed i \<Rightarrow>
          let n = unat i
          in if n \<le> 7 then [decimal (n + (if background then 40 else 30))]
             else if n \<le> 15 then [decimal (n - 8 + (if background then 100 else 90))]
             else [decimal (if background then 48 else 38), decimal 5, decimal n]
      | Rgb r g b \<Rightarrow> [decimal (if background then 48 else 38), decimal 2, decimal (unat r), decimal (unat g), decimal (unat b)])"

definition underline_color_params :: "color \<Rightarrow> bytes list" where
  "underline_color_params col =
     (case col of
        ColorDefault \<Rightarrow> [decimal 59]
      | Indexed i \<Rightarrow> [decimal 58, decimal 5, decimal (unat i)]
      | Rgb r g b \<Rightarrow> [decimal 58, decimal 2, decimal (unat r), decimal (unat g), decimal (unat b)])"

definition underline_param :: "underline_style \<Rightarrow> bytes" where
  "underline_param s =
     (case s of
        UnderlineNone \<Rightarrow> ascii ''4'' | UnderlineSingle \<Rightarrow> ascii ''4'' | UnderlineDouble \<Rightarrow> ascii ''4:2''
      | UnderlineCurly \<Rightarrow> ascii ''4:3'' | UnderlineDotted \<Rightarrow> ascii ''4:4'' | UnderlineDashed \<Rightarrow> ascii ''4:5'')"

definition sgr_params :: "cell_style \<Rightarrow> extended_attrs option \<Rightarrow> bytes list" where
  "sgr_params style ext =
     (if flags_contain (cs_flags style) BOLD then [ascii ''1''] else []) @
     (if flags_contain (cs_flags style) DIM then [ascii ''2''] else []) @
     (if flags_contain (cs_flags style) ITALIC then [ascii ''3''] else []) @
     (if flags_contain (cs_flags style) UNDERLINE
      then [underline_param (case ext of Some x \<Rightarrow> xa_underline_style x | None \<Rightarrow> UnderlineSingle)] else []) @
     (if flags_contain (cs_flags style) BLINK then [ascii ''5''] else []) @
     (if flags_contain (cs_flags style) INVERSE then [ascii ''7''] else []) @
     (if flags_contain (cs_flags style) HIDDEN then [ascii ''8''] else []) @
     (if flags_contain (cs_flags style) STRIKETHROUGH then [ascii ''9''] else []) @
     color_params (cs_fg style) False @ color_params (cs_bg style) True @
     (case Option.bind ext xa_underline_color of Some col \<Rightarrow> underline_color_params col | None \<Rightarrow> [])"

text \<open>\<open>params.join(";")\<close>.\<close>

fun join_with :: "nat \<Rightarrow> bytes list \<Rightarrow> bytes" where
  "join_with c [] = []"
| "join_with c [x] = x"
| "join_with c (x # xs) = x @ [c] @ join_with c xs"

definition sgr_response :: "cell_style \<Rightarrow> extended_attrs option \<Rightarrow> bytes" where
  "sgr_response style ext = (let ps = sgr_params style ext in if ps = [] then ascii ''0'' else join_with 59 ps)"

end
