(* ===== verification/Vt_Csi.thy ===== *)
theory Vt_Csi
  imports Vt_Sgr
begin

text \<open>
  Control functions: modes, reports, control sequences (\<open>csi_dispatch\<close>), escape sequences
  (\<open>esc_dispatch\<close>) and control characters (\<open>execute\<close>) of \<^verbatim>\<open>shux-vt/src/parser.rs\<close>.

  The \<^verbatim>\<open>vte\<close> crate splits the byte stream and calls these with the parameters it collected; a parameter
  is a group of \<open>u16\<close> numbers.  \<open>ve_version\<close> is the crate's version, which the build fills in.
\<close>

record vt_env =
  ve_width :: width_fn
  ve_version :: bytes

abbreviation key :: "char \<Rightarrow> nat" where "key c \<equiv> of_char c"

section \<open>Replies\<close>

definition push_response :: "bytes \<Rightarrow> handler \<Rightarrow> handler" where
  "push_response r h =
     (if MAX_RESPONSES_PER_BATCH \<le> length (h_responses h) then h else h\<lparr>h_responses := h_responses h @ [r]\<rparr>)"

definition report_cursor_position :: "bool \<Rightarrow> handler \<Rightarrow> handler" where
  "report_cursor_position private h =
     (let row = (if md_origin_mode (h_modes h)
                 then cu_row (h_cursor h) - min (sr_top (h_region h)) (grid_last_row h) + 1
                 else cu_row (h_cursor h) + 1);
          col = cu_col (h_cursor h) + 1
      in push_response ([27, 91] @ (if private then [63] else []) @ decimal row @ [59] @ decimal col @ ascii ''R'') h)"

definition mode_report :: "bool \<Rightarrow> nat" where
  "mode_report enabled = (if enabled then 1 else 2)"

definition standard_mode_report_value :: "terminal_modes \<Rightarrow> u16 \<Rightarrow> nat" where
  "standard_mode_report_value m mode =
     (if mode = 4 then mode_report (md_insert_mode m)
      else if mode = 20 then mode_report (md_newline_mode m)
      else 0)"

definition private_mode_report_value :: "terminal_modes \<Rightarrow> u16 \<Rightarrow> nat" where
  "private_mode_report_value m mode =
     (if mode = 1 then mode_report (md_application_cursor_keys m)
      else if mode = 6 then mode_report (md_origin_mode m)
      else if mode = 7 then mode_report (md_auto_wrap m)
      else if mode = 25 then mode_report (md_cursor_visible m)
      else if mode = 66 then mode_report (md_application_keypad m)
      else if mode = 1000 then mode_report (md_mouse_tracking m = MouseNormal)
      else if mode = 1002 then mode_report (md_mouse_tracking m = MouseButtonEvent)
      else if mode = 1003 then mode_report (md_mouse_tracking m = MouseAnyEvent)
      else if mode = 1004 then mode_report (md_focus_events m)
      else if mode = 1006 then mode_report (md_sgr_mouse m)
      else if mode = 1007 then mode_report (md_alternate_scroll m)
      else if mode = 47 \<or> mode = 1047 \<or> mode = 1049 then mode_report (md_alternate_screen m)
      else if mode = 2004 then mode_report (md_bracketed_paste m)
      else if mode = 2026 then mode_report (md_synchronized_output m)
      else 0)"

definition report_mode :: "bool \<Rightarrow> u16 \<Rightarrow> handler \<Rightarrow> handler" where
  "report_mode private mode h =
     (let value = (if private then private_mode_report_value (h_modes h) mode else standard_mode_report_value (h_modes h) mode)
      in push_response ([27, 91] @ (if private then [63] else []) @ decimal mode @ [59] @ decimal value @ ascii ''$y'') h)"

section \<open>Private modes\<close>

definition alternate_screen_mode :: "u16 \<Rightarrow> bool \<Rightarrow> handler \<Rightarrow> handler option" where
  "alternate_screen_mode mode enable h0 =
     (if enable then
        (let h = (if mode = 1049 then save_cursor_state h0 else h0)
         in if md_alternate_screen (h_modes h) then
              (if mode = 1049
               then do {
                 let saved = cu_saved (h_cursor h);
                 h \<leftarrow> on_grid (Some \<circ> clear_visible (cs_bg (cu_style (h_cursor h)))) h;
                 Some (on_cursor (\<lambda>_. cursor_new\<lparr>cu_saved := saved\<rparr>) h)
               }
               else Some h)
            else Some (set_alternate_screen True (swap_enter (mode = 1049) h)))
      else
        let h = (if md_alternate_screen (h_modes h0) then set_alternate_screen False (swap_leave (mode = 1049) h0) else h0)
        in Some (if mode = 1049 then restore_cursor_state h else h))"

definition synchronized_output_mode :: "bool \<Rightarrow> handler \<Rightarrow> handler" where
  "synchronized_output_mode enable h =
     (if enable then
        on_modes (md_synchronized_output_update (\<lambda>_. True))
          (if \<not> h_armed h
           then (let h = (mark_live_dirty h)\<lparr>h_armed := True\<rparr> in if h_eager h then freeze_whole_presentation h else h)
           else h)
      else mark_live_dirty (release_sync_presentation (on_modes (md_synchronized_output_update (\<lambda>_. False)) h)))"

definition set_private_mode :: "bool \<Rightarrow> u16 \<Rightarrow> handler \<Rightarrow> handler option" where
  "set_private_mode enable mode h =
     (let set_mode = (\<lambda>f. Some (on_modes f h));
          mouse = (\<lambda>m. Some (on_modes (md_mouse_tracking_update (\<lambda>_. if enable then m else MouseNone)) h))
      in if mode = 1 then set_mode (md_application_cursor_keys_update (\<lambda>_. enable))
         else if mode = 6 then Some (home_cursor_to_origin (on_modes (md_origin_mode_update (\<lambda>_. enable)) h))
         else if mode = 7 then set_mode (md_auto_wrap_update (\<lambda>_. enable))
         else if mode = 25 then
           Some (on_cursor (cu_visible_update (\<lambda>_. enable)) (on_modes (md_cursor_visible_update (\<lambda>_. enable)) h))
         else if mode = 1000 then mouse MouseNormal
         else if mode = 1002 then mouse MouseButtonEvent
         else if mode = 1003 then mouse MouseAnyEvent
         else if mode = 1004 then set_mode (md_focus_events_update (\<lambda>_. enable))
         else if mode = 1005 then set_mode (md_utf8_mouse_update (\<lambda>_. enable))
         else if mode = 1006 then set_mode (md_sgr_mouse_update (\<lambda>_. enable))
         else if mode = 1015 then set_mode (md_urxvt_mouse_update (\<lambda>_. enable))
         else if mode = 1016 then set_mode (md_pixel_mouse_update (\<lambda>_. enable))
         else if mode = 1007 then set_mode (md_alternate_scroll_update (\<lambda>_. enable))
         else if mode = 1048 then Some (if enable then save_cursor_state h else restore_cursor_state h)
         else if mode = 47 \<or> mode = 1047 \<or> mode = 1049 then alternate_screen_mode mode enable h
         else if mode = 2004 then set_mode (md_bracketed_paste_update (\<lambda>_. enable))
         else if mode = 2026 then Some (synchronized_output_mode enable h)
         else Some h)"

fun set_private_modes :: "bool \<Rightarrow> u16 list \<Rightarrow> handler \<Rightarrow> handler option" where
  "set_private_modes enable [] h = Some h"
| "set_private_modes enable (m # ms) h = do { h \<leftarrow> set_private_mode enable m h; set_private_modes enable ms h }"

definition set_standard_mode :: "bool \<Rightarrow> u16 \<Rightarrow> handler \<Rightarrow> handler" where
  "set_standard_mode enable mode h =
     (if mode = 4 then on_modes (md_insert_mode_update (\<lambda>_. enable)) h
      else if mode = 20 then on_modes (md_newline_mode_update (\<lambda>_. enable)) h
      else h)"

section \<open>Control sequences\<close>

definition param :: "u16 list \<Rightarrow> usize \<Rightarrow> u16 \<Rightarrow> u16" where
  "param ps i dflt = (if i < length ps \<and> ps ! i \<noteq> 0 then ps ! i else dflt)"

text \<open>Unchecked subtraction.\<close>

definition csub :: "usize \<Rightarrow> usize \<Rightarrow> usize option" where
  "csub a b = (if b \<le> a then Some (a - b) else None)"

definition goto_col :: "usize \<Rightarrow> handler \<Rightarrow> handler option" where
  "goto_col col h =
     do {
       last_col \<leftarrow> csub (cols_of h) 1;
       Some (on_cursor (\<lambda>c. c\<lparr>cu_col := min col last_col, cu_auto_wrap_pending := False\<rparr>) h)
     }"

definition erase_in_display :: "u16 \<Rightarrow> handler \<Rightarrow> handler option" where
  "erase_in_display k h =
     (let c = h_cursor h; bg = cs_bg (cu_style c)
      in if k = 0 then
           do {
             n \<leftarrow> csub (cols_of h) (cu_col c);
             h \<leftarrow> on_grid (erase_chars (cu_row c) (cu_col c) n bg) h;
             (if cu_row c + 1 < rows_of h then on_grid (Some \<circ> clear_below (cu_row c + 1) bg) h else Some h)
           }
         else if k = 1 then
           do {
             h \<leftarrow> (if 0 < cu_row c then on_grid (clear_above (cu_row c - 1) bg) h else Some h);
             on_grid (erase_chars (cu_row c) 0 (cu_col c + 1) bg) h
           }
         else if k = 2 then on_grid (Some \<circ> clear_visible bg) h
         else if k = 3 then
           do {
             h \<leftarrow> on_grid (Some \<circ> clear_visible bg) h;
             on_grid (Some \<circ> clear_scrollback) h
           }
         else Some h)"

definition erase_in_line :: "u16 \<Rightarrow> handler \<Rightarrow> handler option" where
  "erase_in_line k h =
     (let c = h_cursor h; bg = cs_bg (cu_style c)
      in if k = 0 then do { n \<leftarrow> csub (cols_of h) (cu_col c); on_grid (erase_chars (cu_row c) (cu_col c) n bg) h }
         else if k = 1 then on_grid (erase_chars (cu_row c) 0 (cu_col c + 1) bg) h
         else if k = 2 then on_grid (erase_chars (cu_row c) 0 (cols_of h) bg) h
         else Some h)"

definition set_scroll_region :: "u16 list \<Rightarrow> handler \<Rightarrow> handler" where
  "set_scroll_region ps h =
     (if rows_of h = 0 then h
      else
        let top_row = param ps 0 1 - 1;
            bottom_row = min (param ps 1 (rows_of h mod 65536) - 1) (rows_of h - 1)
        in if top_row < bottom_row
           then home_cursor_to_origin (h\<lparr>h_region := \<lparr>sr_top = top_row, sr_bottom = bottom_row\<rparr>\<rparr>)
           else h)"

definition status_report :: "u16 \<Rightarrow> handler \<Rightarrow> handler" where
  "status_report k h =
     (if k = 5 then push_response ([27] @ ascii ''[0n'') h
      else if k = 6 then report_cursor_position False h
      else h)"

definition private_status_report :: "u16 \<Rightarrow> handler \<Rightarrow> handler" where
  "private_status_report k h =
     (if k = 6 then report_cursor_position True h
      else if k = 15 then push_response ([27] @ ascii ''[?10n'') h
      else if k = 25 then push_response ([27] @ ascii ''[?20n'') h
      else if k = 26 then push_response ([27] @ ascii ''[?27;1;0;0n'') h
      else if k = 53 then push_response ([27] @ ascii ''[?50n'') h
      else h)"

definition cursor_shape_of :: "u16 \<Rightarrow> cursor_shape" where
  "cursor_shape_of k =
     (if k = 3 \<or> k = 4 then ShapeUnderline else if k = 5 \<or> k = 6 then ShapeBar else ShapeBlock)"

text \<open>The sequences without intermediate bytes.\<close>

definition csi_plain :: "vt_env \<Rightarrow> u16 list list \<Rightarrow> u16 list \<Rightarrow> rchar \<Rightarrow> handler \<Rightarrow> handler option" where
  "csi_plain E groups ps action h =
     (let c = h_cursor h; n = param ps 0 1
      in if action = key CHR ''A'' then Some (move_cursor_up n h)
         else if action = key CHR ''B'' then Some (move_cursor_down n h)
         else if action = key CHR ''C'' \<or> action = key CHR ''a'' then goto_col (cu_col c + n) h
         else if action = key CHR ''D'' then Some (on_cursor (\<lambda>c. c\<lparr>cu_col := cu_col c - n, cu_auto_wrap_pending := False\<rparr>) h)
         else if action = key CHR ''E'' then Some (on_cursor (\<lambda>c. c\<lparr>cu_col := 0\<rparr>) (move_cursor_down n h))
         else if action = key CHR ''e'' then Some (move_cursor_down n h)
         else if action = key CHR ''F'' then Some (on_cursor (\<lambda>c. c\<lparr>cu_col := 0\<rparr>) (move_cursor_up n h))
         else if action = key CHR ''G'' \<or> action = key CHR ''`'' then goto_col (n - 1) h
         else if action = key CHR ''I'' then
           (let col = next_tab_col h n in Some (on_cursor (\<lambda>c. c\<lparr>cu_col := col, cu_auto_wrap_pending := False\<rparr>) h))
         else if action = key CHR ''Z'' then
           (let col = prev_tab_col h n in Some (on_cursor (\<lambda>c. c\<lparr>cu_col := col, cu_auto_wrap_pending := False\<rparr>) h))
         else if action = key CHR ''H'' \<or> action = key CHR ''f'' then
           (let row = addressed_row n 1 h
            in do {
                 last_col \<leftarrow> csub (cols_of h) 1;
                 let col = min (param ps 1 1 - 1) last_col;
                 Some (on_cursor (\<lambda>c. c\<lparr>cu_row := row, cu_col := col, cu_auto_wrap_pending := False\<rparr>) h)
               })
         else if action = key CHR ''J'' then erase_in_display (param ps 0 0) h
         else if action = key CHR ''K'' then erase_in_line (param ps 0 0) h
         else if action = key CHR ''L'' then
           (case lines_from_cursor_to_region_bottom h of
              Some limit \<Rightarrow> on_grid (Some \<circ> scroll_down_n (cu_row c) (sr_bottom (h_region h)) (min n limit)) h
            | None \<Rightarrow> Some h)
         else if action = key CHR ''M'' then
           (case lines_from_cursor_to_region_bottom h of
              Some limit \<Rightarrow> on_grid (Some \<circ> scroll_up_n (cu_row c) (sr_bottom (h_region h)) (min n limit)) h
            | None \<Rightarrow> Some h)
         else if action = key CHR ''S'' then
           on_grid (Some \<circ> scroll_up_n (sr_top (h_region h)) (sr_bottom (h_region h)) (min n (scroll_region_height h))) h
         else if action = key CHR ''T'' then
           on_grid (Some \<circ> scroll_down_n (sr_top (h_region h)) (sr_bottom (h_region h)) (min n (scroll_region_height h))) h
         else if action = key CHR ''@'' then on_grid (insert_chars (cu_row c) (cu_col c) n) h
         else if action = key CHR ''P'' then on_grid (delete_chars (cu_row c) (cu_col c) n) h
         else if action = key CHR ''X'' then on_grid (erase_chars (cu_row c) (cu_col c) n (cs_bg (cu_style c))) h
         else if action = key CHR ''b'' then repeat_preceding_char (ve_width E) n h
         else if action = key CHR ''d'' then
           (let row = addressed_row n 1 h in Some (on_cursor (\<lambda>c. c\<lparr>cu_row := row, cu_auto_wrap_pending := False\<rparr>) h))
         else if action = key CHR ''g'' then
           Some (if param ps 0 0 = 0 then h\<lparr>h_tabs := tabs_clear_current (cu_col c) (h_tabs h)\<rparr>
                 else if param ps 0 0 = 3 then h\<lparr>h_tabs := tabs_clear_all (h_tabs h)\<rparr>
                 else h)
         else if action = key CHR ''s'' \<and> list_all (\<lambda>p. p = 0) ps then Some (save_cursor_state h)
         else if action = key CHR ''u'' \<and> list_all (\<lambda>p. p = 0) ps then Some (restore_cursor_state h)
         else if action = key CHR ''m'' then Some (csi_sgr groups h)
         else if action = key CHR ''c'' then
           Some (if ps = [] \<or> ps = [0] then push_response ([27] @ ascii ''[?62;1;2;6;9;15;22c'') h else h)
         else if action = key CHR ''n'' then Some (fold status_report ps h)
         else if action = key CHR ''r'' then Some (set_scroll_region ps h)
         else if action = key CHR ''h'' then Some (fold (set_standard_mode True) ps h)
         else if action = key CHR ''l'' then Some (fold (set_standard_mode False) ps h)
         else Some h)"

definition csi_marked :: "vt_env \<Rightarrow> u16 list \<Rightarrow> nat list \<Rightarrow> rchar \<Rightarrow> handler \<Rightarrow> handler option" where
  "csi_marked E ps marks action h =
     (if action = key CHR ''c'' \<and> marks = ascii ''>'' then
        Some (if ps = [] \<or> ps = [0] then push_response ([27] @ ascii ''[>0;95;0c'') h else h)
      else if action = key CHR ''n'' \<and> marks = ascii ''?'' then Some (fold private_status_report ps h)
      else if action = key CHR ''h'' \<and> marks = ascii ''?'' then set_private_modes True ps h
      else if action = key CHR ''l'' \<and> marks = ascii ''?'' then set_private_modes False ps h
      else if action = key CHR ''q'' \<and> marks = ascii '' '' then
        Some (on_cursor (cu_shape_update (\<lambda>_. cursor_shape_of (param ps 0 1))) h)
      else if action = key CHR ''q'' \<and> marks = ascii ''>'' then
        Some (if ps = [] \<or> ps = [0] then push_response ([27] @ ascii ''P>|shux '' @ ve_version E @ [27, 92]) h else h)
      else if action = key CHR ''p'' \<and> marks = ascii ''$'' then Some (fold (report_mode False) ps h)
      else if action = key CHR ''p'' \<and> marks = ascii ''?$'' then Some (fold (report_mode True) ps h)
      else Some h)"

definition csi_dispatch :: "vt_env \<Rightarrow> u16 list list \<Rightarrow> nat list \<Rightarrow> bool \<Rightarrow> rchar \<Rightarrow> handler \<Rightarrow> handler option" where
  "csi_dispatch E groups marks ignore action h0 =
     (let continues = (marks = [] \<and> (action = key CHR ''m'' \<or> action = key CHR ''b''));
          h = (if continues then h0 else clear_active_grapheme_cell h0)
      in if ignore then Some h
         else if marks = [] then csi_plain E groups (concat groups) action h
         else csi_marked E (concat groups) marks action h)"

section \<open>Escape sequences and control characters\<close>

definition full_reset :: "handler \<Rightarrow> handler option" where
  "full_reset h0 =
     do {
       let h = release_sync_presentation h0;
       let h = (if md_alternate_screen (h_modes h) then swap_leave False h else h);
       h \<leftarrow> on_grid (Some \<circ> clear_visible ColorDefault) h;
       h \<leftarrow> on_grid (Some \<circ> clear_scrollback) h;
       h \<leftarrow> on_grid (Some \<circ> mark_all_dirty) h;
       let h = on_cursor (\<lambda>_. cursor_new) h;
       let h = h\<lparr>h_modes := default_modes\<rparr>;
       let h = on_colors (\<lambda>_. \<lparr>tdc_fg = None, tdc_bg = None, tdc_cursor = None\<rparr>) h;
       let h = h\<lparr>h_last := None\<rparr>;
       let h = (case h_status h of
                  None \<Rightarrow> h
                | Some p \<Rightarrow> let (p, counter) = vp_on_full_reset (p, h_generation h)
                            in h\<lparr>h_status := Some p, h_generation := counter\<rparr>);
       h \<leftarrow> on_grid (Some \<circ> unplace_all) h;
       let h = h\<lparr>h_stores := (store_clear (fst (h_stores h)), store_clear (snd (h_stores h)))\<rparr>;
       let h = reset_charsets h;
       let h = h\<lparr>h_tabs := tabs_reset (cols_of h) (h_tabs h)\<rparr>;
       Some (h\<lparr>h_region := \<lparr>sr_top = 0, sr_bottom = rows_of h - 1\<rparr>\<rparr>)
     }"

definition esc_dispatch :: "nat list \<Rightarrow> bool \<Rightarrow> nat \<Rightarrow> handler \<Rightarrow> handler option" where
  "esc_dispatch marks ignore byte h0 =
     (let h = clear_active_grapheme_cell h0
      in if ignore then Some h
         else if marks = ascii ''('' then Some (designate_charset G0 byte h)
         else if marks = ascii '')'' then Some (designate_charset G1 byte h)
         else if marks = ascii ''#'' \<and> byte = key CHR ''8'' then screen_alignment_pattern h
         else if marks \<noteq> [] then Some h
         else if byte = key CHR ''7'' then Some (save_cursor_state h)
         else if byte = key CHR ''8'' then Some (restore_cursor_state h)
         else if byte = key CHR ''='' then Some (on_modes (md_application_keypad_update (\<lambda>_. True)) h)
         else if byte = key CHR ''>'' then Some (on_modes (md_application_keypad_update (\<lambda>_. False)) h)
         else if byte = key CHR ''H'' then Some (h\<lparr>h_tabs := tabs_set (cu_col (h_cursor h)) (h_tabs h)\<rparr>)
         else if byte = key CHR ''M'' then reverse_index h
         else if byte = key CHR ''D'' then linefeed h
         else if byte = key CHR ''E'' then linefeed (carriage_return h)
         else if byte = key CHR ''c'' then full_reset h
         else Some h)"

definition execute :: "nat \<Rightarrow> handler \<Rightarrow> handler option" where
  "execute byte h0 =
     (let h = clear_active_grapheme_cell h0
      in if byte = 8 then
           Some (if 0 < cu_col (h_cursor h)
                 then on_cursor (\<lambda>c. c\<lparr>cu_col := cu_col c - 1, cu_auto_wrap_pending := False\<rparr>) h else h)
         else if byte = 9 then
           (let col = next_tab_col h 1 in Some (on_cursor (\<lambda>c. c\<lparr>cu_col := col, cu_auto_wrap_pending := False\<rparr>) h))
         else if 10 \<le> byte \<and> byte \<le> 12 then linefeed h
         else if byte = 13 then Some (carriage_return h)
         else if byte = 14 then Some (h\<lparr>h_charsets := (h_charsets h)\<lparr>tc_active := G1\<rparr>\<rparr>)
         else if byte = 15 then Some (h\<lparr>h_charsets := (h_charsets h)\<lparr>tc_active := G0\<rparr>\<rparr>)
         else Some h)"

definition print_char :: "vt_env \<Rightarrow> rchar \<Rightarrow> handler \<Rightarrow> handler option" where
  "print_char E ch h =
     (if 0x80 \<le> ch \<and> ch \<le> 0x9F then execute ch h else write_char (ve_width E) (translate_printable h ch) h)"

end
