(* ===== verification/Vt_Osc.thy ===== *)
theory Vt_Osc
  imports Vt_Csi
begin

text \<open>
  Operating system commands (titles, colours, hyperlinks) and device control strings (capability
  queries) of \<^verbatim>\<open>shux-vt/src/parser.rs\<close>, and the handler as a whole: \<open>perform\<close> is one callback of the
  \<^verbatim>\<open>vte\<close> parser.
\<close>

section \<open>Numbers in text\<close>

definition hex_value :: "nat \<Rightarrow> nat option" where
  "hex_value b = (if 48 \<le> b \<and> b \<le> 57 then Some (b - 48)
                  else if 97 \<le> b \<and> b \<le> 102 then Some (b - 87)
                  else if 65 \<le> b \<and> b \<le> 70 then Some (b - 55)
                  else None)"

text \<open>\<open>from_str_radix\<close> and \<open>parse\<close> for unsigned types take one leading plus sign.\<close>

definition from_digits :: "nat \<Rightarrow> nat \<Rightarrow> bytes \<Rightarrow> nat option" where
  "from_digits base mx s =
     (let ds = (if take 1 s = [43] \<and> 1 < length s then drop 1 s else s)
      in if ds = [] then None
         else case those (map (\<lambda>b. Option.bind (hex_value b) (\<lambda>v. if v < base then Some v else None)) ds) of
                None \<Rightarrow> None
              | Some vs \<Rightarrow> let n = foldl (\<lambda>acc v. acc * base + v) 0 vs in if n \<le> mx then Some n else None)"

definition hex_digit :: "nat \<Rightarrow> nat" where
  "hex_digit d = (if d < 10 then 48 + d else 87 + d)"

definition hex2 :: "nat \<Rightarrow> bytes" where
  "hex2 n = [hex_digit (n div 16), hex_digit (n mod 16)]"

definition hex4 :: "nat \<Rightarrow> bytes" where
  "hex4 n = hex2 (n div 256) @ hex2 (n mod 256)"

section \<open>Colours\<close>

definition format_osc_rgb :: "rgb \<Rightarrow> bytes" where
  "format_osc_rgb c =
     (let (r, g, b) = c
      in ascii ''rgb:'' @ hex4 (unat r * 257) @ [47] @ hex4 (unat g * 257) @ [47] @ hex4 (unat b * 257))"

definition osc_terminator :: "bool \<Rightarrow> bytes" where
  "osc_terminator bell_terminated = (if bell_terminated then [7] else [27, 92])"

definition xterm_256_palette :: "nat \<Rightarrow> rgb" where
  "xterm_256_palette i =
     (if i \<le> 15 then
        [(0, 0, 0), (205, 0, 0), (0, 205, 0), (205, 205, 0), (0, 0, 238), (205, 0, 205), (0, 205, 205), (229, 229, 229),
         (127, 127, 127), (255, 0, 0), (0, 255, 0), (255, 255, 0), (92, 92, 255), (255, 0, 255), (0, 255, 255),
         (255, 255, 255)] ! i
      else if i \<le> 231 then
        (let n = i - 16; component = (\<lambda>v. if v = 0 then 0 else of_nat (55 + v * 40))
         in (component (n div 36), component ((n div 6) mod 6), component (n mod 6)))
      else let level = of_nat (8 + (i - 232) * 10) in (level, level, level))"

definition parse_hex_color :: "bytes \<Rightarrow> rgb option" where
  "parse_hex_color hex =
     (if length hex \<noteq> 6 \<or> \<not> list_all (\<lambda>b. hex_value b \<noteq> None) hex then None
      else do {
        r \<leftarrow> from_digits 16 255 (take 2 hex);
        g \<leftarrow> from_digits 16 255 (take 2 (drop 2 hex));
        b \<leftarrow> from_digits 16 255 (drop 4 hex);
        Some (of_nat r, of_nat g, of_nat b)
      })"

definition parse_rgb_component :: "bytes \<Rightarrow> u8 option" where
  "parse_rgb_component s =
     (if s = [] \<or> 4 < length s then None
      else do {
        v \<leftarrow> from_digits 16 65535 s;
        let mx = 2 ^ (length s * 4) - 1;
        Some (of_nat ((v * 255 + mx div 2) div mx))
      })"

definition parse_rgb_color :: "bytes \<Rightarrow> rgb option" where
  "parse_rgb_color s =
     (case split_on (\<lambda>b. b = 47) s of
        [x, y, z] \<Rightarrow> do { r \<leftarrow> parse_rgb_component x; g \<leftarrow> parse_rgb_component y; b \<leftarrow> parse_rgb_component z; Some (r, g, b) }
      | _ \<Rightarrow> None)"

definition parse_osc_color :: "bytes \<Rightarrow> rgb option" where
  "parse_osc_color s =
     (if utf8_decode s = None then None
      else if take 1 s = ascii ''#'' then parse_hex_color (drop 1 s)
      else if take 4 s = ascii ''rgb:'' then parse_rgb_color (drop 4 s)
      else None)"

section \<open>Operating system commands\<close>

definition osc8_payload_was_truncated :: "bytes list \<Rightarrow> bool" where
  "osc8_payload_was_truncated params \<longleftrightarrow>
     VTE_MAX_OSC_PARAMS \<le> length params \<or> MAX_OSC_PAYLOAD_BYTES \<le> sum_list (map length params)"

definition clamp_title :: "rstring \<Rightarrow> rstring" where
  "clamp_title t = (if length t \<le> VT_MAX_TITLE_CHARS then t else take VT_MAX_TITLE_CHARS t)"

definition join_osc_parts :: "bytes list \<Rightarrow> bytes" where
  "join_osc_parts parts = join_with 59 parts"

definition osc_title :: "bytes list \<Rightarrow> handler \<Rightarrow> handler" where
  "osc_title params h =
     (if length params < 2 then h
      else case utf8_decode (params ! 1) of
             Some t \<Rightarrow> on_title (\<lambda>_. Some (clamp_title t)) h
           | None \<Rightarrow> h)"

definition osc_color_reply :: "bytes \<Rightarrow> terminal_default_colors \<Rightarrow> rgb" where
  "osc_color_reply sel d =
     (let or_default = (\<lambda>v dflt. case v of Some x \<Rightarrow> x | None \<Rightarrow> dflt)
      in if sel = ascii ''10'' then or_default (tdc_fg d) (238, 238, 238)
         else if sel = ascii ''11'' then or_default (tdc_bg d) (0, 0, 0)
         else or_default (case tdc_cursor d of Some c \<Rightarrow> Some c | None \<Rightarrow> tdc_fg d) (238, 238, 238))"

definition osc_color :: "bytes list \<Rightarrow> bytes \<Rightarrow> handler \<Rightarrow> handler option" where
  "osc_color params terminator h =
     (if length params < 2 then Some h
      else if params ! 1 = ascii ''?'' then
        Some (push_response ([27, 93] @ params ! 0 @ [59] @ format_osc_rgb (osc_color_reply (params ! 0) (h_colors h)) @ terminator) h)
      else case parse_osc_color (params ! 1) of
             None \<Rightarrow> Some h
           | Some col \<Rightarrow>
               let repaint = (\<lambda>f. on_grid (Some \<circ> mark_all_dirty) (on_colors f h))
               in if params ! 0 = ascii ''10'' \<and> tdc_fg (h_colors h) \<noteq> Some col then repaint (tdc_fg_update (\<lambda>_. Some col))
                  else if params ! 0 = ascii ''11'' \<and> tdc_bg (h_colors h) \<noteq> Some col then repaint (tdc_bg_update (\<lambda>_. Some col))
                  else if params ! 0 = ascii ''12'' \<and> tdc_cursor (h_colors h) \<noteq> Some col then repaint (tdc_cursor_update (\<lambda>_. Some col))
                  else Some h)"

text \<open>\<open>Option::take\<close> reaches the colours mutably, whether or not there was one.\<close>

definition osc_reset_color ::
  "(terminal_default_colors \<Rightarrow> rgb option) \<Rightarrow> (terminal_default_colors \<Rightarrow> terminal_default_colors) \<Rightarrow> handler \<Rightarrow> handler option" where
  "osc_reset_color get clear h0 =
     (let h = on_colors clear h0
      in if get (h_colors h0) \<noteq> None then on_grid (Some \<circ> mark_all_dirty) h else Some h)"

fun osc_palette :: "bytes list \<Rightarrow> bytes \<Rightarrow> handler \<Rightarrow> handler option" where
  "osc_palette (x # y # rest) terminator h =
     (case (if utf8_decode x = None then None else from_digits 10 255 x) of
        None \<Rightarrow> osc_palette rest terminator h
      | Some i \<Rightarrow>
          if y = ascii ''?'' then
            osc_palette rest terminator
              (push_response ([27] @ ascii '']4;'' @ decimal i @ [59] @ format_osc_rgb (xterm_256_palette i) @ terminator) h)
          else if parse_osc_color y \<noteq> None then
            do {
              h \<leftarrow> on_grid (Some \<circ> mark_all_dirty) (h\<lparr>h_palette_overridden := True\<rparr>);
              osc_palette rest terminator h
            }
          else osc_palette rest terminator h)"
| "osc_palette _ terminator h = Some h"

definition osc_hyperlink :: "bytes list \<Rightarrow> handler \<Rightarrow> handler" where
  "osc_hyperlink params h =
     (if osc8_payload_was_truncated params \<or> length params < 3 then h
      else
        let uri = join_osc_parts (drop 2 params)
        in if uri = [] then set_cursor_hyperlink None h
           else case utf8_decode uri of
                  None \<Rightarrow> h
                | Some u \<Rightarrow> if list_ex is_control u then h else set_cursor_hyperlink (Some u) h)"

definition osc_dispatch :: "bytes list \<Rightarrow> bool \<Rightarrow> handler \<Rightarrow> handler option" where
  "osc_dispatch params bell_terminated h =
     (if params = [] then Some h
      else
        let terminator = osc_terminator bell_terminated; sel = params ! 0
        in if sel = ascii ''7501'' \<or> sel = ascii ''133'' then Some h
           else if sel = ascii ''0'' \<or> sel = ascii ''2'' then Some (osc_title params h)
           else if sel = ascii ''10'' \<or> sel = ascii ''11'' \<or> sel = ascii ''12'' then osc_color params terminator h
           else if sel = ascii ''110'' then osc_reset_color tdc_fg (tdc_fg_update (\<lambda>_. None)) h
           else if sel = ascii ''111'' then osc_reset_color tdc_bg (tdc_bg_update (\<lambda>_. None)) h
           else if sel = ascii ''112'' then osc_reset_color tdc_cursor (tdc_cursor_update (\<lambda>_. None)) h
           else if sel = ascii ''4'' then osc_palette (tl params) terminator h
           else if sel = ascii ''8'' then Some (osc_hyperlink params h)
           else Some h)"

section \<open>Device control strings\<close>

definition decode_hex_ascii :: "bytes \<Rightarrow> rstring option" where
  "decode_hex_ascii enc =
     (if length enc mod 2 \<noteq> 0 then None
      else Option.bind (those (map (\<lambda>i. from_digits 16 255 (take 2 (drop (2 * i) enc))) [0..<length enc div 2])) utf8_decode)"

definition encode_hex_ascii :: "bytes \<Rightarrow> bytes" where
  "encode_hex_ascii s = concat (map hex2 s)"

definition capability :: "rstring \<Rightarrow> bytes option" where
  "capability name =
     map_of [(ascii ''Co'', ascii ''256''), (ascii ''colors'', ascii ''256''),
       (ascii ''TN'', ascii ''xterm-256color''), (ascii ''name'', ascii ''xterm-256color''),
       (ascii ''RGB'', []), (ascii ''Tc'', []), (ascii ''AX'', []),
       (ascii ''Ms'', [27] @ ascii '']52;%p1%s;%p2%s'' @ [7]),
       (ascii ''Ss'', [27] @ ascii ''[%p1%d q''), (ascii ''Se'', [27] @ ascii ''[ q''),
       (ascii ''smcup'', [27] @ ascii ''[?1049h''), (ascii ''ti'', [27] @ ascii ''[?1049h''),
       (ascii ''rmcup'', [27] @ ascii ''[?1049l''), (ascii ''te'', [27] @ ascii ''[?1049l''),
       (ascii ''smkx'', [27] @ ascii ''[?1h'' @ [27, 61]), (ascii ''ks'', [27] @ ascii ''[?1h'' @ [27, 61]),
       (ascii ''rmkx'', [27] @ ascii ''[?1l'' @ [27, 62]), (ascii ''ke'', [27] @ ascii ''[?1l'' @ [27, 62]),
       (ascii ''setaf'', [27] @ ascii ''[%?%p1%{8}%<%t3%p1%d%e%p1%{16}%<%t9%p1%{8}%-%d%e38;5;%p1%d%;m''),
       (ascii ''AF'', [27] @ ascii ''[%?%p1%{8}%<%t3%p1%d%e%p1%{16}%<%t9%p1%{8}%-%d%e38;5;%p1%d%;m''),
       (ascii ''setab'', [27] @ ascii ''[%?%p1%{8}%<%t4%p1%d%e%p1%{16}%<%t10%p1%{8}%-%d%e48;5;%p1%d%;m''),
       (ascii ''AB'', [27] @ ascii ''[%?%p1%{8}%<%t4%p1%d%e%p1%{16}%<%t10%p1%{8}%-%d%e48;5;%p1%d%;m''),
       (ascii ''setrgbf'', [27] @ ascii ''[38;2;%p1%d;%p2%d;%p3%dm''),
       (ascii ''setrgbb'', [27] @ ascii ''[48;2;%p1%d;%p2%d;%p3%dm'')] name"

definition xtgettcap_response :: "bytes \<Rightarrow> bytes option" where
  "xtgettcap_response payload =
     (if utf8_decode payload = None then None
      else do {
        pairs \<leftarrow> those (map (\<lambda>enc. do {
                   name \<leftarrow> decode_hex_ascii enc;
                   value \<leftarrow> capability name;
                   Some (encode_hex_ascii (name @ [61] @ value))
                 }) (filter (\<lambda>n. n \<noteq> []) (split_on (\<lambda>b. b = 59) payload)));
        (if pairs = [] then None else Some ([27] @ ascii ''P1+r'' @ join_with 59 pairs @ [27, 92]))
      })"

definition decrqss_response :: "bytes \<Rightarrow> handler \<Rightarrow> bytes option" where
  "decrqss_response payload h =
     map_option (\<lambda>r. [27] @ ascii ''P1$r'' @ r @ [27, 92])
       (if payload = ascii ''m'' then Some (sgr_response (cu_style (h_cursor h)) (cu_extended (h_cursor h)) @ ascii ''m'')
        else if payload = ascii ''r'' then
          Some (decimal (sr_top (h_region h) + 1) @ [59] @ decimal (sr_bottom (h_region h) + 1) @ ascii ''r'')
        else if payload = ascii '' q'' then
          Some (decimal (case cu_shape (h_cursor h) of ShapeBlock \<Rightarrow> 1 | ShapeUnderline \<Rightarrow> 3 | ShapeBar \<Rightarrow> 5) @ ascii '' q'')
        else if payload = [34] @ ascii ''q'' then Some (ascii ''0'' @ [34] @ ascii ''q'')
        else if payload = [34] @ ascii ''p'' then Some (ascii ''61;1'' @ [34] @ ascii ''p'')
        else None)"

definition dcs_hook :: "nat list \<Rightarrow> bool \<Rightarrow> rchar \<Rightarrow> handler \<Rightarrow> handler" where
  "dcs_hook marks ignore action h =
     (if ignore then h\<lparr>h_dcs := None\<rparr>
      else h\<lparr>h_dcs := Some \<lparr>dcs_intermediates = marks, dcs_action = action, dcs_payload = [], dcs_overflowed = False\<rparr>\<rparr>)"

definition dcs_put :: "nat \<Rightarrow> handler \<Rightarrow> handler" where
  "dcs_put byte h =
     (case h_dcs h of
        None \<Rightarrow> h
      | Some d \<Rightarrow>
          if dcs_overflowed d then h
          else if MAX_DCS_PAYLOAD_BYTES \<le> length (dcs_payload d)
          then h\<lparr>h_dcs := Some (d\<lparr>dcs_overflowed := True, dcs_payload := []\<rparr>)\<rparr>
          else h\<lparr>h_dcs := Some (d\<lparr>dcs_payload := dcs_payload d @ [byte]\<rparr>)\<rparr>)"

definition dcs_unhook :: "handler \<Rightarrow> handler" where
  "dcs_unhook h0 =
     (case h_dcs h0 of
        None \<Rightarrow> h0
      | Some d \<Rightarrow>
          let h = h0\<lparr>h_dcs := None\<rparr>
          in if dcs_overflowed d then h
             else if dcs_intermediates d = ascii ''+'' \<and> dcs_action d = key CHR ''q'' then
               push_response (case xtgettcap_response (dcs_payload d) of Some r \<Rightarrow> r | None \<Rightarrow> [27] @ ascii ''P0+r'' @ [27, 92]) h
             else if dcs_intermediates d = ascii ''$'' \<and> dcs_action d = key CHR ''q'' then
               push_response (case decrqss_response (dcs_payload d) h of Some r \<Rightarrow> r | None \<Rightarrow> [27] @ ascii ''P0$r'' @ [27, 92]) h
             else h)"

section \<open>The handler\<close>

datatype vt_action =
    Print rchar
  | Execute nat
  | Csi "u16 list list" "nat list" bool rchar
  | Esc "nat list" bool nat
  | Osc "bytes list" bool
  | Hook "nat list" bool rchar
  | Put nat
  | Unhook

fun perform :: "vt_env \<Rightarrow> vt_action \<Rightarrow> handler \<Rightarrow> handler option" where
  "perform E (Print ch) h = print_char E ch h"
| "perform E (Execute byte) h = execute byte h"
| "perform E (Csi groups marks ignore action) h = csi_dispatch E groups marks ignore action h"
| "perform E (Esc marks ignore byte) h = esc_dispatch marks ignore byte h"
| "perform E (Osc params bell) h = osc_dispatch params bell h"
| "perform E (Hook marks ignore action) h = Some (dcs_hook marks ignore action h)"
| "perform E (Put byte) h = Some (dcs_put byte h)"
| "perform E Unhook h = Some (dcs_unhook h)"

fun perform_all :: "vt_env \<Rightarrow> vt_action list \<Rightarrow> handler \<Rightarrow> handler option" where
  "perform_all E [] h = Some h"
| "perform_all E (a # as) h = do { h \<leftarrow> perform E a h; perform_all E as h }"

end
