(* ===== verification/Vt_Safe.thy ===== *)
theory Vt_Safe
  imports Vt_Osc
begin

text \<open>
  The invariant of the handler and the three things every step keeps: the invariant, the exactness of
  the presented damage, and the presented frame itself while synchronized output holds it still.
  This theory proves them for the access functions of \<^verbatim>\<open>Vt_Handler\<close>; the operations are compositions of
  those.
\<close>

section \<open>The invariant\<close>

definition places_ok :: "grid \<Rightarrow> bool" where
  "places_ok g \<longleftrightarrow> length (gr_placements g) \<le> MAX_PLACEMENTS \<and> gr_placed_bytes g = sum_list (map payload_len (gr_placements g)) \<and>
     gr_placed_bytes g \<le> MAX_IMAGE_BYTES"

definition usable :: "usize \<Rightarrow> usize \<Rightarrow> grid \<Rightarrow> bool" where
  "usable rows cols g \<longleftrightarrow> grid_ok g \<and> gr_rows g = rows \<and> gr_cols g = cols \<and> gc_track_dirty (gr_config g) \<and> places_ok g"

definition live_ok :: "handler \<Rightarrow> bool" where
  "live_ok h \<longleftrightarrow> 0 < rows_of h \<and> 0 < cols_of h \<and> usable (rows_of h) (cols_of h) (h_grid h) \<and>
     cursor_in (rows_of h) (cols_of h) (h_cursor h) \<and> (\<forall>r c. h_active h = Some (r, c) \<longrightarrow> r < rows_of h) \<and>
     length (ts_stops (h_tabs h)) = cols_of h \<and> sr_top (h_region h) \<le> sr_bottom (h_region h) \<and> sr_bottom (h_region h) < rows_of h"

definition stash_ok :: "handler \<Rightarrow> bool" where
  "stash_ok h \<longleftrightarrow> (\<forall>g. h_alt_grid h = Some g \<longrightarrow> usable (rows_of h) (cols_of h) g) \<and>
     (\<forall>c. h_alt_cursor h = Some c \<longrightarrow> cursor_in (rows_of h) (cols_of h) c) \<and> (\<forall>g. h_spare h = Some g \<longrightarrow> grid_ok g \<and> places_ok g) \<and>
     md_alternate_screen (h_modes h) = (h_alt_grid h \<noteq> None)"

definition frozen_ok :: "handler \<Rightarrow> bool" where
  "frozen_ok h \<longleftrightarrow> (\<forall>f. h_frozen_grid h = Some f \<longrightarrow> grid_ok (fs_grid f) \<and> gc_track_dirty (gr_config (fs_grid f))) \<and>
     (\<not> h_armed h \<longrightarrow> h_frozen_grid h = None \<and> h_frozen_cursor h = None \<and> h_frozen_title h = None \<and> h_frozen_colors h = None \<and>
        h_frozen_alt h = None)"

definition bounded :: "handler \<Rightarrow> bool" where
  "bounded h \<longleftrightarrow> (\<forall>d. h_dcs h = Some d \<longrightarrow> length (dcs_payload d) \<le> MAX_DCS_PAYLOAD_BYTES) \<and>
     (\<forall>t. h_title h = Some t \<longrightarrow> length t \<le> VT_MAX_TITLE_CHARS) \<and> store_ok (fst (h_stores h)) \<and> store_ok (snd (h_stores h))"

definition vt_ok :: "handler \<Rightarrow> bool" where
  "vt_ok h \<longleftrightarrow> live_ok h \<and> stash_ok h \<and> frozen_ok h \<and> bounded h"

lemmas vt_ok_defs = vt_ok_def live_ok_def stash_ok_def frozen_ok_def bounded_def

section \<open>The presented frame\<close>

text \<open>\<open>Presented::presented\<close>: the snapshot if there is one, else what is live.\<close>

definition shown :: "'a option \<Rightarrow> 'a \<Rightarrow> 'a" where
  "shown frozen live = (case frozen of Some x \<Rightarrow> x | None \<Rightarrow> live)"

lemma shown_simps [simp]: "shown None x = x" "shown (Some y) x = y" "shown z (shown z x) = shown z x"
  by (simp_all add: shown_def split: option.split)

definition presented_grid :: "handler \<Rightarrow> grid" where
  "presented_grid h = shown (map_option fs_grid (h_frozen_grid h)) (h_grid h)"

definition presented_cursor :: "handler \<Rightarrow> cursor" where
  "presented_cursor h = shown (h_frozen_cursor h) (h_cursor h)"

definition presented_title :: "handler \<Rightarrow> rstring option" where
  "presented_title h = shown (h_frozen_title h) (h_title h)"

definition presented_colors :: "handler \<Rightarrow> terminal_default_colors" where
  "presented_colors h = shown (h_frozen_colors h) (h_colors h)"

definition presented_alt :: "handler \<Rightarrow> bool" where
  "presented_alt h = shown (h_frozen_alt h) (md_alternate_screen (h_modes h))"

text \<open>What a renderer draws of a grid: the rows of the viewport, and the pictures with the line they are counted from.\<close>

definition viewport :: "grid \<Rightarrow> row list \<times> usize \<times> usize \<times> nat \<times> placement list" where
  "viewport g = (drop (scrollback_len g) (gr_raw g), gr_rows g, gr_cols g, sat_add64 (gr_evicted g) (scrollback_len g), gr_placements g)"

type_synonym frame = "(row list \<times> usize \<times> usize \<times> nat \<times> placement list) \<times> cursor \<times> rstring option \<times> terminal_default_colors \<times> bool"

definition presented_frame :: "handler \<Rightarrow> frame" where
  "presented_frame h = (viewport (presented_grid h), presented_cursor h, presented_title h, presented_colors h, presented_alt h)"

lemmas presented_defs = presented_frame_def presented_grid_def presented_cursor_def presented_title_def presented_colors_def
  presented_alt_def

section \<open>Steps\<close>

definition holds_still :: "handler \<Rightarrow> handler \<Rightarrow> bool" where
  "holds_still h h' \<longleftrightarrow> (h_armed h \<longrightarrow> h_armed h' \<and> presented_frame h' = presented_frame h)"

text \<open>The size stays, and replies queue up to their cap only.\<close>

definition same_size :: "handler \<Rightarrow> handler \<Rightarrow> bool" where
  "same_size h h' \<longleftrightarrow> rows_of h' = rows_of h \<and> cols_of h' = cols_of h \<and>
     length (h_responses h') \<le> max MAX_RESPONSES_PER_BATCH (length (h_responses h))"

definition tracks :: "handler \<Rightarrow> handler \<Rightarrow> bool" where
  "tracks h h' \<longleftrightarrow> vt_ok h' \<and> good (presented_grid h) (presented_grid h') \<and> same_size h h'"

definition step :: "handler \<Rightarrow> handler \<Rightarrow> bool" where
  "step h h' \<longleftrightarrow> vt_ok h' \<and> good (presented_grid h) (presented_grid h') \<and> same_size h h' \<and> holds_still h h'"

lemma step_tracks: "step h h' \<Longrightarrow> tracks h h'"
  by (simp add: step_def tracks_def)

lemma tracks_trans: "tracks h h' \<Longrightarrow> tracks h' h'' \<Longrightarrow> tracks h h''"
  by (auto simp: tracks_def same_size_def intro: good_trans)

definition safe :: "handler \<Rightarrow> handler option \<Rightarrow> bool" where
  "safe h r \<longleftrightarrow> (\<exists>h'. r = Some h' \<and> step h h')"

lemma step_trans: "step h h' \<Longrightarrow> step h' h'' \<Longrightarrow> step h h''"
  by (auto simp: step_def same_size_def holds_still_def intro: good_trans)

lemma stepD: "step h h' \<Longrightarrow> vt_ok h'" "step h h' \<Longrightarrow> rows_of h' = rows_of h" "step h h' \<Longrightarrow> cols_of h' = cols_of h"
  by (auto simp: step_def same_size_def)

lemma vt_okD:
  assumes "vt_ok h"
  shows "0 < rows_of h" "0 < cols_of h" "grid_ok (h_grid h)" "gc_track_dirty (gr_config (h_grid h))" "places_ok (h_grid h)"
    "cu_row (h_cursor h) < rows_of h" "cu_col (h_cursor h) < cols_of h" "length (ts_stops (h_tabs h)) = cols_of h"
    "sr_top (h_region h) \<le> sr_bottom (h_region h)" "sr_bottom (h_region h) < rows_of h"
    "h_active h = Some (r, c) \<Longrightarrow> r < rows_of h"
  using assms by (auto simp: vt_ok_defs usable_def cursor_in_def)

lemma presented_grid_ok: "vt_ok h \<Longrightarrow> grid_ok (presented_grid h)"
  by (cases "h_frozen_grid h") (auto simp: presented_grid_def vt_ok_defs usable_def)

lemma step_refl: "vt_ok h \<Longrightarrow> step h h"
  by (simp add: step_def same_size_def holds_still_def good_refl presented_grid_ok)

lemma safe_Some [intro]: "step h h' \<Longrightarrow> safe h (Some h')"
  by (simp add: safe_def)

lemma safe_bind: "safe h r \<Longrightarrow> (\<And>h'. step h h' \<Longrightarrow> safe h' (f h')) \<Longrightarrow> safe h (r \<bind> f)"
  unfolding safe_def using step_trans by fastforce

lemma safe_bind_eq: "safe h r \<Longrightarrow> (\<And>h'. r = Some h' \<Longrightarrow> step h h' \<Longrightarrow> safe h' (f h')) \<Longrightarrow> safe h (r \<bind> f)"
  unfolding safe_def using step_trans by fastforce

lemma safe_after: "step h h' \<Longrightarrow> safe h' r \<Longrightarrow> safe h r"
  by (auto simp: safe_def intro: step_trans)

lemma safe_if: "(b \<Longrightarrow> safe h x) \<Longrightarrow> (\<not> b \<Longrightarrow> safe h y) \<Longrightarrow> safe h (if b then x else y)"
  by simp

lemma step_if: "(b \<Longrightarrow> step h x) \<Longrightarrow> (\<not> b \<Longrightarrow> step h y) \<Longrightarrow> step h (if b then x else y)"
  by simp

lemma step_fold: "(\<And>x h. vt_ok h \<Longrightarrow> step h (f x h)) \<Longrightarrow> vt_ok h \<Longrightarrow> step h (fold f xs h)"
proof (induction xs arbitrary: h)
  case (Cons x xs)
  then show ?case using step_trans [of h "f x h"] stepD(1) by fastforce
qed (simp add: step_refl)

text \<open>
  A step that touches nothing of the presented frame, neither what is live nor what is frozen, only
  has to keep the invariant.
\<close>

definition untouched :: "handler \<Rightarrow> handler \<Rightarrow> bool" where
  "untouched h h' \<longleftrightarrow> length (h_responses h') \<le> max MAX_RESPONSES_PER_BATCH (length (h_responses h)) \<and> h_grid h' = h_grid h \<and> h_cursor h' = h_cursor h \<and> h_title h' = h_title h \<and> h_colors h' = h_colors h \<and>
     md_alternate_screen (h_modes h') = md_alternate_screen (h_modes h) \<and> h_armed h' = h_armed h \<and>
     h_frozen_grid h' = h_frozen_grid h \<and> h_frozen_cursor h' = h_frozen_cursor h \<and> h_frozen_title h' = h_frozen_title h \<and>
     h_frozen_colors h' = h_frozen_colors h \<and> h_frozen_alt h' = h_frozen_alt h"

lemma untouched_step:
  assumes "vt_ok h'" "untouched h h'"
  shows "step h h'"
proof -
  have "presented_grid h' = presented_grid h" "presented_frame h' = presented_frame h" "same_size h h'" "h_armed h' = h_armed h"
    using assms(2) by (auto simp: presented_defs untouched_def same_size_def)
  then show ?thesis using assms(1) good_refl presented_grid_ok [OF assms(1)] by (simp add: step_def holds_still_def)
qed

section \<open>The parts of the frame\<close>

text \<open>What an operation of the grid has to keep for the handler.\<close>

definition fine :: "grid \<Rightarrow> grid \<Rightarrow> bool" where
  "fine g g' \<longleftrightarrow> good g g' \<and> gr_rows g' = gr_rows g \<and> gr_cols g' = gr_cols g \<and> (places_ok g \<longrightarrow> places_ok g')"

lemma good_track: "good g g' \<Longrightarrow> gc_track_dirty (gr_config g') = gc_track_dirty (gr_config g)"
  by (simp add: good_def keeps_paint_def)

lemma fine_usable: "fine g g' \<Longrightarrow> usable rows cols g \<Longrightarrow> usable rows cols g'"
  using good_track by (auto simp: usable_def fine_def good_def)

lemma viewport_good:
  assumes ok: "grid_ok g"
  shows "good g (clone_presented_viewport g)" "viewport (clone_presented_viewport g) = viewport g"
proof -
  let ?v = "clone_presented_viewport g"
  have sb: "scrollback_len ?v = 0" using grid_okD(1) [OF ok] by (simp add: clone_presented_viewport_def scrollback_len_def Let_def)
  have "sat_add64 (sat_add64 a b) 0 = sat_add64 a b" for a b by (simp add: sat_add64_def)
  then show "viewport ?v = viewport g" by (simp add: viewport_def sb) (simp add: clone_presented_viewport_def Let_def)
  have "damage_of ?v = damage_of g" by (simp add: damage_of_def clone_presented_viewport_def Let_def)
  moreover have "screen ?v r c = screen g r c" if "r < gr_rows g" for r c
    using that grid_okD(2) [OF ok] by (simp add: screen_def sb) (simp add: clone_presented_viewport_def Let_def)
  moreover have "grid_ok ?v" using ok grid_okD(2) [OF ok]
    by (auto simp: grid_ok_def clone_presented_viewport_def Let_def sat_add64_def dest: in_set_dropD)
  ultimately show "good g ?v" by (auto simp: good_def keeps_paint_def clone_presented_viewport_def Let_def)
qed

lemma freeze_grid_step:
  assumes ok: "vt_ok h"
  shows "step h (freeze_grid h)" "h_armed (freeze_grid h) \<longrightarrow> h_frozen_grid (freeze_grid h) \<noteq> None" "h_grid (freeze_grid h) = h_grid h"
proof -
  note g = vt_okD(3,4) [OF ok] and v = viewport_good [OF vt_okD(3) [OF ok]]
  have "vt_ok (freeze_grid h)" using ok v good_track [OF v(1)] g by (auto simp: vt_ok_defs freeze_grid_def grid_snapshot_def good_def)
  moreover have "good (presented_grid h) (presented_grid (freeze_grid h))"
    using v(1) good_refl [OF presented_grid_ok [OF ok]] by (auto simp: presented_grid_def freeze_grid_def grid_snapshot_def)
  moreover have "presented_frame (freeze_grid h) = presented_frame h"
    using v(2) by (auto simp: presented_defs freeze_grid_def grid_snapshot_def)
  moreover have "h_armed (freeze_grid h) = h_armed h" "h_grid (freeze_grid h) = h_grid h" "h_responses (freeze_grid h) = h_responses h"
    by (simp_all add: freeze_grid_def)
  ultimately show "step h (freeze_grid h)" by (simp add: step_def same_size_def holds_still_def)
qed (auto simp: freeze_grid_def)

lemma freeze_cursor_step:
  assumes ok: "vt_ok h"
  shows "step h (freeze_cursor h)" "h_armed (freeze_cursor h) \<longrightarrow> h_frozen_cursor (freeze_cursor h) \<noteq> None"
    "h_cursor (freeze_cursor h) = h_cursor h"
proof -
  have "vt_ok (freeze_cursor h)" using ok by (auto simp: vt_ok_defs freeze_cursor_def)
  then show "step h (freeze_cursor h)" using good_refl [OF presented_grid_ok [OF ok]]
    by (auto simp: step_def same_size_def holds_still_def freeze_cursor_def presented_defs)
qed (auto simp: freeze_cursor_def)

lemma freeze_title_step:
  assumes ok: "vt_ok h"
  shows "step h (freeze_title h)" "h_armed (freeze_title h) \<longrightarrow> h_frozen_title (freeze_title h) \<noteq> None"
    "h_title (freeze_title h) = h_title h"
proof -
  have "vt_ok (freeze_title h)" using ok by (auto simp: vt_ok_defs freeze_title_def)
  then show "step h (freeze_title h)" using good_refl [OF presented_grid_ok [OF ok]]
    by (auto simp: step_def same_size_def holds_still_def freeze_title_def presented_defs)
qed (auto simp: freeze_title_def)

lemma freeze_colors_step:
  assumes ok: "vt_ok h"
  shows "step h (freeze_colors h)" "h_armed (freeze_colors h) \<longrightarrow> h_frozen_colors (freeze_colors h) \<noteq> None"
    "h_colors (freeze_colors h) = h_colors h"
proof -
  have "vt_ok (freeze_colors h)" using ok by (auto simp: vt_ok_defs freeze_colors_def)
  then show "step h (freeze_colors h)" using good_refl [OF presented_grid_ok [OF ok]]
    by (auto simp: step_def same_size_def holds_still_def freeze_colors_def presented_defs)
qed (auto simp: freeze_colors_def)

lemma freeze_alt_step:
  assumes ok: "vt_ok h"
  shows "step h (freeze_alt_flag h)" "h_armed (freeze_alt_flag h) \<longrightarrow> h_frozen_alt (freeze_alt_flag h) \<noteq> None"
proof -
  have "vt_ok (freeze_alt_flag h)" using ok by (auto simp: vt_ok_defs freeze_alt_flag_def)
  then show "step h (freeze_alt_flag h)" using good_refl [OF presented_grid_ok [OF ok]]
    by (auto simp: step_def same_size_def holds_still_def freeze_alt_flag_def presented_defs)
qed (auto simp: freeze_alt_flag_def)

section \<open>Access\<close>

lemma set_grid_step:
  assumes ok: "vt_ok h" and frozen: "h_armed h \<longrightarrow> h_frozen_grid h \<noteq> None" and g: "fine (h_grid h) g'"
  shows "step h (h\<lparr>h_grid := g'\<rparr>)"
proof -
  have "vt_ok (h\<lparr>h_grid := g'\<rparr>)" using ok g fine_usable [OF g] by (simp add: vt_ok_defs fine_def)
  moreover have "good (presented_grid h) (presented_grid (h\<lparr>h_grid := g'\<rparr>))"
    using g good_refl [OF presented_grid_ok [OF ok]] by (cases "h_frozen_grid h") (simp_all add: presented_grid_def fine_def)
  moreover have "h_armed h \<longrightarrow> presented_frame (h\<lparr>h_grid := g'\<rparr>) = presented_frame h"
    using frozen by (auto simp: presented_defs)
  ultimately show ?thesis using g by (simp add: step_def same_size_def holds_still_def fine_def)
qed

lemma on_grid_safe:
  assumes ok: "vt_ok h" and f: "\<exists>g'. f (h_grid h) = Some g' \<and> fine (h_grid h) g'"
  shows "safe h (on_grid f h)"
proof -
  note z = freeze_grid_step [OF ok]
  obtain g' where g': "f (h_grid h) = Some g'" "fine (h_grid h) g'" using f by blast
  have "step (freeze_grid h) ((freeze_grid h)\<lparr>h_grid := g'\<rparr>)"
    by (rule set_grid_step [OF stepD(1) [OF z(1)] z(2)]) (use z(3) g' in simp)
  then show ?thesis using step_trans [OF z(1)] z(3) g'(1) by (auto simp: on_grid_def)
qed

lemma on_cursor_step:
  assumes ok: "vt_ok h" and f: "cursor_in (rows_of h) (cols_of h) (f (h_cursor h))"
  shows "step h (on_cursor f h)"
proof -
  note z = freeze_cursor_step [OF ok]
  let ?k = "freeze_cursor h"
  have k: "vt_ok ?k" "rows_of ?k = rows_of h" "cols_of ?k = cols_of h" using stepD [OF z(1)] by simp_all
  have "vt_ok (?k\<lparr>h_cursor := f (h_cursor h)\<rparr>)" using k f by (simp add: vt_ok_defs)
  then have "step ?k (?k\<lparr>h_cursor := f (h_cursor h)\<rparr>)" using z(2) good_refl [OF presented_grid_ok [OF k(1)]]
    by (auto simp: step_def same_size_def holds_still_def presented_defs)
  then show ?thesis using step_trans [OF z(1)] z(3) by (simp add: on_cursor_def Let_def)
qed

lemma on_title_step:
  assumes ok: "vt_ok h" and f: "\<And>t. f (h_title h) = Some t \<Longrightarrow> length t \<le> VT_MAX_TITLE_CHARS"
  shows "step h (on_title f h)"
proof -
  note z = freeze_title_step [OF ok]
  let ?k = "freeze_title h"
  have "vt_ok (?k\<lparr>h_title := f (h_title h)\<rparr>)" using stepD(1) [OF z(1)] f by (simp add: vt_ok_defs)
  then have "step ?k (?k\<lparr>h_title := f (h_title h)\<rparr>)" using z(2) good_refl [OF presented_grid_ok [OF stepD(1) [OF z(1)]]]
    by (auto simp: step_def same_size_def holds_still_def presented_defs)
  then show ?thesis using step_trans [OF z(1)] z(3) by (simp add: on_title_def Let_def)
qed

lemma on_colors_step:
  assumes ok: "vt_ok h"
  shows "step h (on_colors f h)"
proof -
  note z = freeze_colors_step [OF ok]
  let ?k = "freeze_colors h"
  have "vt_ok (?k\<lparr>h_colors := f (h_colors h)\<rparr>)" using stepD(1) [OF z(1)] by (simp add: vt_ok_defs)
  then have "step ?k (?k\<lparr>h_colors := f (h_colors h)\<rparr>)" using z(2) good_refl [OF presented_grid_ok [OF stepD(1) [OF z(1)]]]
    by (auto simp: step_def same_size_def holds_still_def presented_defs)
  then show ?thesis using step_trans [OF z(1)] z(3) by (simp add: on_colors_def Let_def)
qed

end
