(* ===== verification/Vt_Steps.thy ===== *)
theory Vt_Steps
  imports Vt_Safe
begin

text \<open>
  Every operation that prints, moves or edits is a safe step: it does not panic, keeps the invariant
  and the exactness of the presented damage, and leaves a frame that synchronized output holds alone.
\<close>

section \<open>Grid operations\<close>

definition same_frame :: "grid \<Rightarrow> grid \<Rightarrow> bool" where
  "same_frame g g' \<longleftrightarrow> gr_rows g' = gr_rows g \<and> gr_cols g' = gr_cols g \<and> gr_placements g' = gr_placements g \<and> gr_placed_bytes g' = gr_placed_bytes g"

lemma fineI: "good g g' \<Longrightarrow> same_frame g g' \<Longrightarrow> fine g g'"
  by (simp add: fine_def same_frame_def places_ok_def)

lemma fine_refl: "grid_ok g \<Longrightarrow> fine g g"
  by (simp add: fine_def good_refl)

lemma fine_trans: "fine g g' \<Longrightarrow> fine g' g'' \<Longrightarrow> fine g g''"
  using good_trans by (auto simp: fine_def)

lemma set_line_frame [simp]: "gr_placements (set_line g i r) = gr_placements g" "gr_placed_bytes (set_line g i r) = gr_placed_bytes g"
  by (simp_all add: set_line_def)

lemma visible_row_mut_marked_frame: "visible_row_mut_marked row f g = Some g' \<Longrightarrow> same_frame g g'"
  by (auto simp: visible_row_mut_marked_def visible_row_mut_untracked_def same_frame_def Let_def split: option.splits if_splits)

lemma chars_frame:
  "erase_chars row col n bg g = Some g' \<Longrightarrow> same_frame g g'" "insert_chars row col n g = Some g' \<Longrightarrow> same_frame g g'"
  "delete_chars row col n g = Some g' \<Longrightarrow> same_frame g g'"
  by (auto simp: erase_chars_def insert_chars_def delete_chars_def same_frame_def Let_def split: option.splits if_splits prod.splits)

lemma scroll_frame: "same_frame g (scroll_up_n a b n g)" "same_frame g (scroll_down_n a b n g)"
  by (auto simp: scroll_up_n_def scroll_down_n_def mark_scrolled_def same_frame_def Let_def split: option.splits prod.splits)

lemma clear_frame:
  "same_frame g (clear_visible bg g)" "same_frame g (Vt_Grid.fill_alignment_pattern g)" "same_frame g (clear_below r bg g)"
  "clear_above r bg g = Some g' \<Longrightarrow> same_frame g g'" "same_frame g (clear_scrollback g)" "same_frame g (mark_all_dirty g)"
  by (auto simp: clear_visible_def fill_alignment_pattern_def clear_below_def clear_above_def clear_scrollback_def mark_all_dirty_def
      map_lines_def same_frame_def Let_def split: if_splits)

lemma row_fine:
  assumes "grid_ok g" "row < gr_rows g" "\<And>r. row_ok (gr_cols g) r \<Longrightarrow> row_ok (gr_cols g) (f r)"
  shows "\<exists>g'. visible_row_mut_marked row f g = Some g' \<and> fine g g'"
proof -
  obtain g' where "visible_row_mut_marked row f g = Some g'" "good g g'"
    using visible_row_mut_good(2) [of g row f] assms by blast
  then show ?thesis using visible_row_mut_marked_frame fineI by blast
qed

lemma chars_fine:
  assumes "grid_ok g" "row < gr_rows g"
  shows "\<exists>g'. erase_chars row col n bg g = Some g' \<and> fine g g'" "\<exists>g'. delete_chars row col n g = Some g' \<and> fine g g'"
    "0 < n \<Longrightarrow> \<exists>g'. insert_chars row col n g = Some g' \<and> fine g g'"
proof -
  show "\<exists>g'. erase_chars row col n bg g = Some g' \<and> fine g g'"
    using erase_chars_good [OF assms, of col n bg] chars_frame(1) fineI by blast
  show "\<exists>g'. delete_chars row col n g = Some g' \<and> fine g g'"
    using delete_chars_good [OF assms, of col n] chars_frame(3) fineI by blast
  show "0 < n \<Longrightarrow> \<exists>g'. insert_chars row col n g = Some g' \<and> fine g g'"
    using insert_chars_good [OF assms, of n col] chars_frame(2) fineI by blast
qed

lemma scroll_fine: "grid_ok g \<Longrightarrow> fine g (scroll_up_n a b n g)" "grid_ok g \<Longrightarrow> fine g (scroll_down_n a b n g)"
  by (simp_all add: fineI scroll_up_good scroll_down_good scroll_frame)

lemma clear_fine:
  assumes "grid_ok g"
  shows "fine g (clear_visible bg g)" "fine g (Vt_Grid.fill_alignment_pattern g)" "fine g (clear_below r bg g)"
    "r < gr_rows g \<Longrightarrow> \<exists>g'. clear_above r bg g = Some g' \<and> fine g g'" "fine g (clear_scrollback g)" "fine g (mark_all_dirty g)"
proof -
  note c = clear_good [OF assms]
  show "fine g (clear_visible bg g)" "fine g (Vt_Grid.fill_alignment_pattern g)" "fine g (clear_below r bg g)" "fine g (clear_scrollback g)"
    "fine g (mark_all_dirty g)"
    using c(1-3) clear_scrollback_good [OF assms] mark_all_good [OF assms] clear_frame fineI by blast+
  show "r < gr_rows g \<Longrightarrow> \<exists>g'. clear_above r bg g = Some g' \<and> fine g g'" using c(4) clear_frame(4) fineI by blast
qed

lemma unplace_all_fine: "grid_ok g \<Longrightarrow> fine g (unplace_all g)"
proof -
  assume ok: "grid_ok g"
  have "good g (unplace_all g)" by (rule good_aside [OF ok]) (simp_all add: unplace_all_def bump_mutations_def)
  then show ?thesis by (simp add: fine_def places_ok_def unplace_all_def MAX_IMAGE_BYTES_def)
qed

lemma on_grid_total: "vt_ok h \<Longrightarrow> fine (h_grid h) (f (h_grid h)) \<Longrightarrow> safe h (on_grid (Some \<circ> f) h)"
  by (rule on_grid_safe) simp_all

lemma whole_grid_safe:
  assumes ok: "vt_ok h"
  shows "safe h (on_grid (Some \<circ> scroll_up_n a b n) h)" "safe h (on_grid (Some \<circ> scroll_down_n a b n) h)"
    "safe h (on_grid (Some \<circ> scroll_up a b) h)" "safe h (on_grid (Some \<circ> scroll_down a b) h)"
    "safe h (on_grid (Some \<circ> clear_visible bg) h)" "safe h (on_grid (Some \<circ> Vt_Grid.fill_alignment_pattern) h)"
    "safe h (on_grid (Some \<circ> clear_below r bg) h)" "safe h (on_grid (Some \<circ> clear_scrollback) h)"
    "safe h (on_grid (Some \<circ> mark_all_dirty) h)" "safe h (on_grid (Some \<circ> unplace_all) h)"
  by (rule on_grid_total [OF ok], use vt_okD(3) [OF ok] in \<open>simp add: scroll_fine clear_fine unplace_all_fine scroll_up_def scroll_down_def\<close>)+

lemma edit_row_safe:
  assumes ok: "vt_ok h" and row: "row < rows_of h"
    and f: "\<And>r. row_ok (cols_of h) r \<Longrightarrow> visible_row (h_grid h) row = Some r \<Longrightarrow> \<exists>r'. f r = Some r' \<and> row_ok (cols_of h) r'"
  shows "safe h (edit_row row f h)"
  unfolding edit_row_def
proof (rule on_grid_safe [OF ok])
  note g = vt_okD(3) [OF ok]
  obtain r where r: "visible_row (h_grid h) row = Some r" using visible_row_Some [OF g row] by blast
  obtain r' where r': "f r = Some r'" "row_ok (cols_of h) r'" using f [OF _ r] visible_row_ok [OF g r] by blast
  show "\<exists>g'. visible_row (h_grid h) row \<bind> (\<lambda>r. f r \<bind> (\<lambda>r'. visible_row_mut_marked row (\<lambda>_. r') (h_grid h))) = Some g' \<and> fine (h_grid h) g'"
    using row_fine [OF g row, of "\<lambda>_. r'"] r r' by simp
qed

section \<open>Everything aside\<close>

lemma aside_step:
  assumes ok: "vt_ok h"
  shows "step h (clear_active_grapheme_cell h)" "row < rows_of h \<Longrightarrow> step h (set_active_grapheme_cell row col h)"
    "step h (remember_graphic_scalar ch h)" "step h (extend_remembered_graphic j ch h)" "step h (h\<lparr>h_charsets := cs\<rparr>)"
    "length (ts_stops t) = cols_of h \<Longrightarrow> step h (h\<lparr>h_tabs := t\<rparr>)" "step h (push_response r h)" "step h (h\<lparr>h_palette_overridden := b\<rparr>)"
    "sr_top g \<le> sr_bottom g \<Longrightarrow> sr_bottom g < rows_of h \<Longrightarrow> step h (h\<lparr>h_region := g\<rparr>)"
    "md_alternate_screen (f (h_modes h)) = md_alternate_screen (h_modes h) \<Longrightarrow> step h (on_modes f h)"
    "(\<And>d'. d = Some d' \<Longrightarrow> length (dcs_payload d') \<le> MAX_DCS_PAYLOAD_BYTES) \<Longrightarrow> step h (h\<lparr>h_dcs := d\<rparr>)"
  by (rule untouched_step; use ok in \<open>auto simp: vt_ok_defs untouched_def clear_active_grapheme_cell_def set_active_grapheme_cell_def
      remember_graphic_scalar_def extend_remembered_graphic_def push_response_def on_modes_def\<close>)+

section \<open>Rows under the pen\<close>

abbreviation plain :: "cell \<Rightarrow> bool" where "plain c \<equiv> \<not> is_wide c \<and> \<not> is_wide_continuation c"

lemma put_same_kind:
  assumes p: "paired cells" and i: "i < length cells" and k: "is_wide c = is_wide (cells ! i)" "\<not> is_wide_continuation (cells ! i)"
    "\<not> is_wide_continuation c"
  shows "paired (cells[i := c])"
  unfolding paired_def head_ok_def tail_ok_def
proof (intro allI impI conjI)
  fix j assume j: "j < length (cells[i := c])"
  then have "j < length cells" by simp
  note d = pairedD [OF p this] pairedD [OF p i]
  show "\<not> is_wide (cells[i := c] ! j) \<or> j + 1 < length (cells[i := c]) \<and> is_wide_continuation (cells[i := c] ! (j + 1)) \<and> c_ch (cells[i := c] ! (j + 1)) = 32"
    using d i j k by (cases "j = i"; cases "j + 1 = i") auto
  show "\<not> is_wide_continuation (cells[i := c] ! j) \<or> 0 < j \<and> is_wide (cells[i := c] ! (j - 1)) \<and> c_ch (cells[i := c] ! j) = 32"
    using d i j k by (cases "j = i"; cases "j = i + 1") (auto simp: nth_list_update)
qed

lemma put_pair:
  assumes p: "paired cells" and i: "i + 1 < length cells" and k: "\<not> is_wide_continuation (cells ! i)" "\<not> is_wide (cells ! (i + 1))"
    and c: "is_wide c"
  shows "paired (cells[i := c, i + 1 := wide_continuation])"
  unfolding paired_def head_ok_def tail_ok_def
proof (intro allI impI conjI)
  let ?n = "cells[i := c, i + 1 := wide_continuation]"
  fix j assume j: "j < length ?n"
  then have j': "j < length cells" by simp
  note d = pairedD [OF p j']
  show "\<not> is_wide (?n ! j) \<or> j + 1 < length ?n \<and> is_wide_continuation (?n ! (j + 1)) \<and> c_ch (?n ! (j + 1)) = 32"
    using d(1) i j k c by (cases "j = i"; cases "j + 1 = i"; cases "j = i + 1") auto
  have "is_wide_continuation (cells ! j) \<Longrightarrow> j - 1 \<noteq> i + 1" using d(2) k(2) by auto
  then show "\<not> is_wide_continuation (?n ! j) \<or> 0 < j \<and> is_wide (?n ! (j - 1)) \<and> c_ch (?n ! j) = 32"
    using d(2) i j k c by (cases "j = i"; cases "j = i + 1"; cases "j - 1 = i") (auto simp: nth_list_update)
qed

lemma cleared_plain:
  assumes "row_ok cols r" "col < cols"
  shows "row_ok cols (clear_wide_pair_around col bg r)" "plain (r_cells (clear_wide_pair_around col bg r) ! col)"
    "i < cols \<Longrightarrow> plain (r_cells r ! i) \<Longrightarrow> plain (r_cells (clear_wide_pair_around col bg r) ! i)"
  using assms clear_pair_paired [of r col bg] clear_pair_nth [of r col col bg] clear_pair_nth [of r i col bg]
  by (auto simp: row_ok_def)

lemma put_at_plain:
  assumes "row_ok cols r" "col < cols" "plain (r_cells r ! col)" "plain c"
  shows "\<exists>r'. put_at col c r = Some r' \<and> row_ok cols r'"
  using assms put_same_kind [of "r_cells r" col c] by (auto simp: put_at_def row_len_def put_cell_def row_ok_def)

lemma glyph_row_ok:
  assumes r: "row_ok cols r" and col: "cu_col cur < cols" and w: "width = 1 \<or> width = 2 \<and> cu_col cur + 1 < cols"
  shows "\<exists>r'. glyph_row ch width cols cur r = Some r' \<and> row_ok cols r'"
proof -
  let ?col = "cu_col cur" and ?bg = "cs_bg (cu_style cur)"
  let ?c = "\<lparr>c_ch = ch, c_width = width, c_style = cu_style cur, c_extended = cu_extended cur\<rparr>"
  let ?a = "clear_wide_pair_around ?col ?bg r"
  note a = cleared_plain [OF r col, where bg = ?bg]
  show ?thesis
  proof (cases "width = 2")
    case False
    then have "plain ?c" using w by (simp add: is_wide_def is_wide_continuation_def)
    from put_at_plain [OF a(1) col a(2) this] show ?thesis using False by (simp add: glyph_row_def Let_def)
  next
    case True
    then have n: "?col + 1 < cols" and c: "is_wide ?c" using w by (auto simp: is_wide_def)
    let ?b = "clear_wide_pair_around (?col + 1) ?bg ?a"
    note b = cleared_plain [OF a(1) n, where bg = ?bg]
    have "paired ((r_cells ?b)[?col := ?c, ?col + 1 := wide_continuation])"
      by (rule put_pair) (use b a(2) col n c in \<open>auto simp: row_ok_def\<close>)
    then show ?thesis using True n b(1) by (auto simp: glyph_row_def put_at_def put_cell_def row_len_def row_ok_def Let_def)
  qed
qed

lemma append_scalar_width [simp]: "c_width (snd (append_grapheme_scalar c ch)) = c_width c"
  "is_wide (snd (append_grapheme_scalar c ch)) = is_wide c" "is_wide_continuation (snd (append_grapheme_scalar c ch)) = is_wide_continuation c"
  by (auto simp: append_grapheme_scalar_def set_grapheme_payload_def prune_default_extended_def is_wide_def is_wide_continuation_def Let_def
      split: option.splits)

lemma append_row_ok:
  assumes "row_ok cols r" "row_get r col = Some c" "\<not> is_wide_continuation c"
  shows "row_ok cols (put_cell col (snd (append_grapheme_scalar c ch)) r)"
  using assms put_same_kind [of "r_cells r" col] by (auto simp: row_get_def row_ok_def put_cell_def split: if_splits)

lemma join_cell_ok:
  assumes r: "row_ok cols r" and c: "row_get r col = Some c" "\<not> is_wide_continuation c"
    and t: "t = 2 \<and> col + 1 < cols \<or> t = 1 \<and> c_width c = 1"
  shows "\<exists>ok r'. join_cell col ch t bg r = Some (ok, r') \<and> row_ok cols r'"
proof -
  have col: "col < cols" "c = r_cells r ! col" using r c by (auto simp: row_get_def row_ok_def split: if_splits)
  obtain ok c' where a: "append_grapheme_scalar c ch = (ok, c')" by fastforce
  then have w: "c_width c' = c_width c" using append_scalar_width(1) [of c ch] by simp
  note put = append_row_ok [OF r c, of ch]
  show ?thesis
  proof (cases "ok \<and> t = 2")
    case False
    have "c'\<lparr>c_width := t\<rparr> = c'" if "t \<noteq> 2" using t w that by (cases c') simp
    then show ?thesis using False put a c(1) by (auto simp: join_cell_def Let_def)
  next
    case True
    let ?c = "c'\<lparr>c_width := 2\<rparr>" and ?cells = "r_cells r"
    have n: "col + 1 < cols" and wide: "is_wide ?c" using True t by (auto simp: is_wide_def)
    let ?h = "put_cell col ?c r"
    have len: "length ?cells = cols" "paired ?cells" using r by (auto simp: row_ok_def)
    have tail: "r_cells ?h ! (col + 1) = ?cells ! (col + 1)" by (simp add: put_cell_def)
    let ?m = "if \<not> is_wide_continuation (?cells ! (col + 1)) then clear_wide_pair_around (col + 1) bg ?h else ?h"
    have m: "(r_cells ?m)[col + 1 := wide_continuation] =
        (if is_wide (?cells ! (col + 1)) then r_cells (clear_wide_pair_around (col + 1) bg r) else ?cells)[col := ?c, col + 1 := wide_continuation]"
      using len n by (auto simp: put_cell_def clear_wide_pair_around_def reset_at_def Let_def list_update_swap)
    have "paired ((r_cells ?m)[col + 1 := wide_continuation])"
    proof (cases "is_wide (?cells ! (col + 1))")
      case True
      note b = cleared_plain [OF r n, where bg = bg]
      have "\<not> is_wide_continuation (r_cells (clear_wide_pair_around (col + 1) bg r) ! col)"
        using clear_pair_nth [of r col "col + 1" bg] len n c(2) col(2) by (auto split: if_splits)
      then show ?thesis unfolding m using True b len n wide put_pair [of "r_cells (clear_wide_pair_around (col + 1) bg r)" col ?c]
        by (simp add: row_ok_def)
    next
      case False
      then show ?thesis unfolding m using len n wide c(2) col(2) put_pair [of ?cells col ?c] by simp
    qed
    then show ?thesis using True a c(1) n len tail
      by (auto simp: join_cell_def put_at_def row_get_def row_len_def row_ok_def put_cell_def Let_def split: if_splits)
  qed
qed

section \<open>The cursor\<close>

lemma on_cursor_twice: "on_cursor f (on_cursor g h) = on_cursor (\<lambda>c. f (g c)) h"
  by (auto simp: on_cursor_def freeze_cursor_def Let_def)

lemma vt_ok_cursor: "vt_ok h \<Longrightarrow> cursor_in (rows_of h) (cols_of h) (h_cursor h)"
  by (simp add: vt_ok_defs)

text \<open>Moves that stay in the frame.\<close>

lemma move_step:
  assumes "vt_ok h" "cu_row (f (h_cursor h)) < rows_of h" "cu_col (f (h_cursor h)) < cols_of h"
  shows "step h (on_cursor f h)"
  using assms by (intro on_cursor_step) (simp_all add: cursor_in_def)

lemma pen_step: "vt_ok h \<Longrightarrow> cu_row (f (h_cursor h)) = cu_row (h_cursor h) \<Longrightarrow> cu_col (f (h_cursor h)) = cu_col (h_cursor h) \<Longrightarrow> step h (on_cursor f h)"
  by (rule move_step) (simp_all add: vt_okD)

lemma save_cursor_step: "vt_ok h \<Longrightarrow> step h (save_cursor_state h)"
  unfolding save_cursor_state_def by (rule pen_step) (simp_all add: cursor_save_def)

lemma clamp_restored:
  "clamp_cursor_to_grid ((on_modes f (on_cursor g h))\<lparr>h_charsets := cs\<rparr>) =
     (on_modes f (on_cursor (\<lambda>c. let c = g c; row = min (cu_row c) (rows_of h - 1); col = min (cu_col c) (cols_of h - 1)
        in c\<lparr>cu_auto_wrap_pending := cu_auto_wrap_pending c \<and> \<not> (row \<noteq> cu_row c \<or> col \<noteq> cu_col c), cu_row := row, cu_col := col\<rparr>) h))\<lparr>h_charsets := cs\<rparr>"
  by (auto simp: clamp_cursor_to_grid_def on_modes_def on_cursor_def freeze_cursor_def grid_last_row_def grid_last_col_def Let_def)

lemma restore_cursor_step:
  assumes ok: "vt_ok h"
  shows "step h (restore_cursor_state h)"
proof (cases "cu_saved (h_cursor h)")
  case None
  then have "restore_cursor_state h = on_cursor (\<lambda>c. snd (cursor_restore c)) h" by (simp add: restore_cursor_state_def cursor_restore_def Let_def)
  then show ?thesis using pen_step [OF ok] None by (simp add: cursor_restore_def)
next
  case (Some sv)
  let ?f = "\<lambda>c. let c = snd (cursor_restore c); row = min (cu_row c) (rows_of h - 1); col = min (cu_col c) (cols_of h - 1)
        in c\<lparr>cu_auto_wrap_pending := cu_auto_wrap_pending c \<and> \<not> (row \<noteq> cu_row c \<or> col \<noteq> cu_col c), cu_row := row, cu_col := col\<rparr>"
  have c: "step h (on_cursor ?f h)" by (rule move_step [OF ok]) (use vt_okD(1,2) [OF ok] in \<open>simp_all add: Let_def min_less_iff_disj\<close>)
  let ?h1 = "on_cursor ?f h" and ?m = "md_origin_mode_update (\<lambda>_. sv_origin_mode sv)"
  have m: "step ?h1 (on_modes ?m ?h1)" by (rule aside_step(10) [OF stepD(1) [OF c]]) simp
  have "step h ((on_modes ?m ?h1)\<lparr>h_charsets := sv_charsets sv\<rparr>)"
    using step_trans [OF step_trans [OF c m] aside_step(5) [OF stepD(1) [OF m]]] .
  then show ?thesis using Some by (simp add: restore_cursor_state_def cursor_restore_def clamp_restored)
qed

lemma region_bounds:
  assumes ok: "vt_ok h"
  shows "origin_top h < rows_of h" "addressed_row p d h < rows_of h" "upward_vertical_top h < rows_of h" "downward_vertical_bottom h < rows_of h"
    "cu_row (h_cursor h) \<le> downward_vertical_bottom h"
  using vt_okD(1,6,9,10) [OF ok]
  by (auto simp: origin_top_def addressed_row_def upward_vertical_top_def downward_vertical_bottom_def grid_last_row_def Let_def min_less_iff_disj)

lemma cursor_moves_step:
  assumes ok: "vt_ok h"
  shows "step h (move_cursor_up n h)" "step h (move_cursor_down n h)" "step h (home_cursor_to_origin h)" "step h (carriage_return h)"
  unfolding move_cursor_up_def move_cursor_down_def home_cursor_to_origin_def carriage_return_def Let_def
  using region_bounds [OF ok] vt_okD(2,6,7) [OF ok] by (auto intro!: move_step [OF ok])

lemma alignment_safe:
  assumes ok: "vt_ok h"
  shows "safe h (screen_alignment_pattern h)"
  unfolding screen_alignment_pattern_def
proof (rule safe_bind [OF whole_grid_safe(6) [OF ok]])
  fix k assume "step h k"
  then have k: "vt_ok k" by (rule stepD)
  have r: "step k (k\<lparr>h_region := \<lparr>sr_top = 0, sr_bottom = rows_of k - 1\<rparr>\<rparr>)" using vt_okD(1) [OF k] by (intro aside_step(9) [OF k]) auto
  have "step (k\<lparr>h_region := \<lparr>sr_top = 0, sr_bottom = rows_of k - 1\<rparr>\<rparr>)
      (on_cursor (\<lambda>c. c\<lparr>cu_row := 0, cu_col := 0, cu_auto_wrap_pending := False\<rparr>) (k\<lparr>h_region := \<lparr>sr_top = 0, sr_bottom = rows_of k - 1\<rparr>\<rparr>))"
    by (rule move_step [OF stepD(1) [OF r]]) (use vt_okD(1,2) [OF k] in simp_all)
  then show "safe k (Some (on_cursor (\<lambda>c. c\<lparr>cu_row := 0, cu_col := 0, cu_auto_wrap_pending := False\<rparr>)
      (k\<lparr>h_region := \<lparr>sr_top = 0, sr_bottom = rows_of k - 1\<rparr>\<rparr>)))" using step_trans [OF r] by blast
qed

section \<open>Printing\<close>

lemma wrap_safe:
  assumes ok: "vt_ok h"
  shows "safe h (wrap_to_next_line h)"
proof -
  let ?h = "on_cursor (\<lambda>c. c\<lparr>cu_col := 0, cu_auto_wrap_pending := False\<rparr>) (clear_active_grapheme_cell h)"
  note a = aside_step(1) [OF ok]
  have s: "step h ?h" by (rule step_trans [OF a], rule move_step [OF stepD(1) [OF a]])
      (use vt_okD [OF stepD(1) [OF a]] in simp_all)
  note k = vt_okD [OF stepD(1) [OF s]]
  have "safe ?h (edit_row (cu_row (h_cursor ?h)) (\<lambda>r. Some (r\<lparr>r_wrapped := True\<rparr>)) ?h)"
    by (rule edit_row_safe [OF stepD(1) [OF s] k(6)]) (simp add: row_ok_def)
  then have "safe ?h (edit_row (cu_row (h_cursor ?h)) (\<lambda>r. Some (r\<lparr>r_wrapped := True\<rparr>)) ?h \<bind> (\<lambda>h.
      if cu_row (h_cursor h) = sr_bottom (h_region h) then on_grid (Some \<circ> scroll_up (sr_top (h_region h)) (sr_bottom (h_region h))) h
      else Some (if cu_row (h_cursor h) + 1 < rows_of h then on_cursor (\<lambda>c. c\<lparr>cu_row := cu_row c + 1\<rparr>) h else h)))"
  proof (rule safe_bind, goal_cases)
    case (1 k)
    note k = stepD(1) [OF 1]
    show ?case
      by (rule safe_if, rule whole_grid_safe(3) [OF k], intro safe_Some step_if move_step [OF k] step_refl [OF k])
        (simp_all add: vt_okD [OF k])
  qed
  from safe_after [OF s this] show ?thesis by (simp add: wrap_to_next_line_def Let_def)
qed

lemma linefeed_safe:
  assumes ok: "vt_ok h"
  shows "safe h (linefeed h)"
  unfolding linefeed_def
proof (rule safe_bind)
  show "safe h (if cu_row (h_cursor h) = sr_bottom (h_region h) then on_grid (Some \<circ> scroll_up (sr_top (h_region h)) (sr_bottom (h_region h))) h
      else if rows_of h = 0 then None else Some (if cu_row (h_cursor h) < rows_of h - 1 then on_cursor (\<lambda>c. c\<lparr>cu_row := cu_row c + 1\<rparr>) h else h))"
    using vt_okD [OF ok] whole_grid_safe(3) [OF ok] by (auto intro!: move_step [OF ok] step_refl [OF ok])
  fix k assume "step h k"
  then have k: "vt_ok k" by (rule stepD)
  let ?n = "if md_newline_mode (h_modes k) then on_cursor (\<lambda>c. c\<lparr>cu_col := 0\<rparr>) k else k"
  have n: "step k ?n" by (intro step_if move_step [OF k] step_refl [OF k]) (simp_all add: vt_okD [OF k])
  have "step ?n (on_cursor (\<lambda>c. c\<lparr>cu_auto_wrap_pending := False\<rparr>) ?n)" by (rule pen_step [OF stepD(1) [OF n]]) simp_all
  from step_trans [OF n this]
  show "safe k (let h = ?n in Some (on_cursor (\<lambda>c. c\<lparr>cu_auto_wrap_pending := False\<rparr>) h))" by (simp add: safe_Some)
qed

lemma reverse_index_safe:
  assumes ok: "vt_ok h"
  shows "safe h (reverse_index h)"
  unfolding reverse_index_def
proof (rule safe_bind)
  show "safe h (if cu_row (h_cursor h) = sr_top (h_region h) then on_grid (Some \<circ> scroll_down (sr_top (h_region h)) (sr_bottom (h_region h))) h
      else Some (if 0 < cu_row (h_cursor h) then on_cursor (\<lambda>c. c\<lparr>cu_row := cu_row c - 1\<rparr>) h else h))"
    using vt_okD [OF ok] whole_grid_safe(4) [OF ok] by (auto intro!: move_step [OF ok] step_refl [OF ok])
  fix k assume "step h k"
  then show "safe k (Some (on_cursor (\<lambda>c. c\<lparr>cu_auto_wrap_pending := False\<rparr>) k))"
    by (intro safe_Some pen_step) (auto dest: stepD)
qed

text \<open>Where the character under construction or the one before the cursor is.\<close>

lemma active_position:
  assumes ok: "vt_ok h"
  shows "\<exists>p. active_grapheme_position h = Some p \<and> (\<forall>row col. p = Some (row, col) \<longrightarrow> row < rows_of h \<and>
    (\<exists>r c. visible_row (h_grid h) row = Some r \<and> row_ok (cols_of h) r \<and> row_get r col = Some c \<and> \<not> is_wide_continuation c))"
proof (cases "h_active h")
  case None
  then show ?thesis by (simp add: active_grapheme_position_def)
next
  case (Some rc)
  obtain row col where rc: "h_active h = Some (row, col)" using Some by (cases rc) auto
  have row: "row < rows_of h" using vt_okD(11) [OF ok rc] .
  obtain r where r: "visible_row (h_grid h) row = Some r" using visible_row_Some [OF vt_okD(3) [OF ok] row] by blast
  then have "row_ok (cols_of h) r" using visible_row_ok [OF vt_okD(3) [OF ok]] by blast
  then show ?thesis using rc r row by (auto simp: active_grapheme_position_def split: option.splits)
qed

lemma preceding_position:
  assumes ok: "vt_ok h"
  shows "\<exists>p. preceding_cell_position h = Some p \<and> (\<forall>row col. p = Some (row, col) \<longrightarrow> row < rows_of h)"
proof -
  have row: "cu_row (h_cursor h) < rows_of h" using vt_okD(6) [OF ok] .
  then obtain r where "visible_row (h_grid h) (cu_row (h_cursor h)) = Some r" using visible_row_Some [OF vt_okD(3) [OF ok] row] by blast
  then show ?thesis using row by (auto simp: preceding_cell_position_def Let_def split: option.splits)
qed

lemma zero_width_safe:
  assumes ok: "vt_ok h"
  shows "safe h (append_zero_width_scalar ch h)"
proof -
  obtain a where a: "active_grapheme_position h = Some a" and a': "\<forall>row col. a = Some (row, col) \<longrightarrow> row < rows_of h" using active_position [OF ok] by blast
  obtain p where p: "(case a of Some x \<Rightarrow> Some (Some x) | None \<Rightarrow> preceding_cell_position h) = Some p" "\<forall>row col. p = Some (row, col) \<longrightarrow> row < rows_of h"
    using preceding_position [OF ok] a' by (cases a) auto
  show ?thesis
  proof (cases p)
    case None
    then show ?thesis using a p(1) step_refl [OF ok] by (auto simp: append_zero_width_scalar_def)
  next
    case (Some x)
    obtain row col where x: "p = Some (row, col)" using Some by (cases x) auto
    have row: "row < rows_of h" using p(2) x by blast
    obtain r where r: "visible_row (h_grid h) row = Some r" using visible_row_Some [OF vt_okD(3) [OF ok] row] by blast
    let ?e = "edit_row row (\<lambda>r. Some (case row_get r col of Some c \<Rightarrow> put_cell col (snd (append_grapheme_scalar c ch)) r | None \<Rightarrow> r)) h"
    let ?w = "case row_get r col of Some c \<Rightarrow> \<not> is_wide_continuation c \<and> c_ch c \<noteq> 32 | None \<Rightarrow> False"
    let ?f = "case row_get r col of Some c \<Rightarrow> fst (append_grapheme_scalar c ch) | None \<Rightarrow> False"
    have e: "safe h (?e \<bind> (\<lambda>h. Some (set_active_grapheme_cell row col (if ?f then extend_remembered_graphic (row, col) ch h else h))))" if "?w"
    proof (rule safe_bind)
      show "safe h ?e" by (rule edit_row_safe [OF ok row]) (use that r in \<open>auto split: option.splits intro!: append_row_ok\<close>)
      fix k assume s: "step h k"
      let ?k = "if ?f then extend_remembered_graphic (row, col) ch k else k"
      have k: "step k ?k" by (intro step_if aside_step(4) step_refl) (rule stepD(1) [OF s])+
      have "step ?k (set_active_grapheme_cell row col ?k)" by (rule aside_step(2) [OF stepD(1) [OF k]]) (use row stepD [OF s] stepD [OF k] in simp)
      with step_trans [OF k] show "safe k (Some (set_active_grapheme_cell row col ?k))" by blast
    qed
    then show ?thesis using a p(1) x r step_refl [OF ok] by (auto simp: append_zero_width_scalar_def Let_def)
  qed
qed

definition safe_pair :: "handler \<Rightarrow> (bool \<times> handler) option \<Rightarrow> bool" where
  "safe_pair h r \<longleftrightarrow> (\<exists>b h'. r = Some (b, h') \<and> step h h')"

lemma join_at_safe:
  assumes ok: "vt_ok h" and r: "visible_row (h_grid h) row = Some r" "row_get r col = Some c" "\<not> is_wide_continuation c"
    and t: "t = 2 \<and> col + 1 < cols_of h \<or> t = 1 \<and> c_width c = 1"
  shows "safe_pair h (join_at row col ch t h)"
proof -
  have row: "row < rows_of h" "row_ok (cols_of h) r" using visible_row_ok [OF vt_okD(3) [OF ok] r(1)] by blast+
  obtain b r' where j: "join_cell col ch t (cs_bg (cu_style (h_cursor h))) r = Some (b, r')" "row_ok (cols_of h) r'"
    using join_cell_ok [OF row(2) r(2,3) t] by blast
  have "safe h (edit_row row (\<lambda>_. Some r') h)" by (rule edit_row_safe [OF ok row(1)]) (use j in simp)
  then obtain k where "edit_row row (\<lambda>_. Some r') h = Some k" "step h k" by (auto simp: safe_def)
  then show ?thesis using r(1) j(1) by (simp add: join_at_def safe_pair_def Let_def)
qed

lemma safe_pair_refl: "vt_ok h \<Longrightarrow> safe_pair h (Some (b, h))"
  by (simp add: safe_pair_def step_refl)

lemma join_active_safe:
  assumes ok: "vt_ok h" and w: "width = 1 \<or> width = 2"
  shows "safe_pair h (try_append_to_active_grapheme ch width h)"
proof -
  obtain p where p: "active_grapheme_position h = Some p" and p': "\<And>row col. p = Some (row, col) \<Longrightarrow> row < rows_of h \<and>
    (\<exists>r c. visible_row (h_grid h) row = Some r \<and> row_ok (cols_of h) r \<and> row_get r col = Some c \<and> \<not> is_wide_continuation c)"
    using active_position [OF ok] by blast
  show ?thesis
  proof (cases p)
    case None
    then show ?thesis using p safe_pair_refl [OF ok] by (simp add: try_append_to_active_grapheme_def)
  next
    case (Some x)
    obtain row col where x: "p = Some (row, col)" using Some by (cases x) auto
    then obtain r c where r: "visible_row (h_grid h) row = Some r" "row_ok (cols_of h) r" "row_get r col = Some c" "\<not> is_wide_continuation c"
      using p' by blast
    let ?t = "min (max (c_width c) width) 2"
    have c: "0 < c_width c" using r(4) by (simp add: is_wide_continuation_def)
    then have t: "?t \<noteq> 2 \<Longrightarrow> ?t = 1 \<and> c_width c = 1" "0 < ?t" using w by auto
    let ?f = "\<lambda>k. let h = extend_remembered_graphic (row, col) ch k; next_col = col + ?t
      in if cols_of h \<le> next_col then on_cursor (\<lambda>c. c\<lparr>cu_col := cols_of h - 1, cu_auto_wrap_pending := True\<rparr>) h
         else on_cursor (\<lambda>c. c\<lparr>cu_col := max (cu_col c) next_col\<rparr>) h"
    have cols: "cols_of (extend_remembered_graphic j ch k) = cols_of k" for j k by (simp add: extend_remembered_graphic_def)
    have f: "step k (?f k)" if k: "step h k" for k
    proof -
      note e = aside_step(4) [OF stepD(1) [OF k], of "(row, col)" ch]
      note b = vt_okD [OF stepD(1) [OF e]]
      have "step (extend_remembered_graphic (row, col) ch k) (?f k)" unfolding Let_def
        by (intro step_if move_step [OF stepD(1) [OF e]]) (use b in auto)
      then show ?thesis by (rule step_trans [OF e])
    qed
    show ?thesis
    proof (cases "(case grapheme c of Some t \<Rightarrow> str_ends_with_zwj t | None \<Rightarrow> False) \<and> \<not> (?t = 2 \<and> cols_of h \<le> col + 1)")
      case False
      then show ?thesis using p x r safe_pair_refl [OF ok] by (simp add: try_append_to_active_grapheme_def Let_def)
    next
      case True
      have "safe_pair h (join_at row col ch ?t h)"
        by (rule join_at_safe [OF ok r(1,3,4)]) (use True t in auto)
      then obtain b k where j: "join_at row col ch ?t h = Some (b, k)" and k: "step h k" by (auto simp: safe_pair_def)
      have "try_append_to_active_grapheme ch width h = (if \<not> b then Some (False, k) else Some (True, ?f k))"
        using p x r True j stepD(3) [OF k] cols by (simp add: try_append_to_active_grapheme_def Let_def) blast
      then show ?thesis using k step_trans [OF k f [OF k]] by (auto simp: safe_pair_def)
    qed
  qed
qed

lemma join_flag_safe:
  assumes ok: "vt_ok h"
  shows "safe_pair h (try_append_regional_indicator_pair ch h)"
proof -
  obtain p where p: "active_grapheme_position h = Some p" and p': "\<And>row col. p = Some (row, col) \<Longrightarrow> row < rows_of h \<and>
    (\<exists>r c. visible_row (h_grid h) row = Some r \<and> row_ok (cols_of h) r \<and> row_get r col = Some c \<and> \<not> is_wide_continuation c)"
    using active_position [OF ok] by blast
  show ?thesis
  proof (cases p)
    case None
    then show ?thesis using p safe_pair_refl [OF ok] by (simp add: try_append_regional_indicator_pair_def)
  next
    case (Some x)
    obtain row col where x: "p = Some (row, col)" using Some by (cases x) auto
    then obtain r c where row: "row < rows_of h"
      and r: "visible_row (h_grid h) row = Some r" "row_ok (cols_of h) r" "row_get r col = Some c" "\<not> is_wide_continuation c"
      using p' by blast
    let ?e = "\<lambda>k. set_active_grapheme_cell row col (extend_remembered_graphic (row, col) ch k)"
    let ?f = "\<lambda>k. on_cursor (\<lambda>c. c\<lparr>cu_col := min (col + 2) (cols_of h - 1), cu_auto_wrap_pending := cols_of h \<le> col + 2\<rparr>) (?e k)"
    have f: "step k (?f k)" if k: "step h k" for k
    proof -
      note e = aside_step(4) [OF stepD(1) [OF k], of "(row, col)" ch]
      have a: "step k (?e k)" using step_trans [OF e aside_step(2) [OF stepD(1) [OF e]]] row stepD(2) [OF e] stepD(2) [OF k] by simp
      note b = vt_okD [OF stepD(1) [OF a]]
      have "cols_of (?e k) = cols_of h" using stepD(3) [OF a] stepD(3) [OF k] by simp
      then have "step (?e k) (?f k)" by (intro move_step [OF stepD(1) [OF a]]) (use b in auto)
      then show ?thesis by (rule step_trans [OF a])
    qed
    show ?thesis
    proof (cases "is_regional_indicator ch \<and> cell_contains_single_regional_indicator c \<and> \<not> cols_of h \<le> col + 1")
      case False
      then show ?thesis using p x r safe_pair_refl [OF ok] by (auto simp: try_append_regional_indicator_pair_def Let_def)
    next
      case True
      have "safe_pair h (join_at row col ch 2 h)"
        by (rule join_at_safe [OF ok r(1,3,4)]) (use True in auto)
      then obtain b k where j: "join_at row col ch 2 h = Some (b, k)" and k: "step h k" by (auto simp: safe_pair_def)
      have "try_append_regional_indicator_pair ch h = (if \<not> b then Some (False, k) else Some (True, ?f k))"
        using p x r True j by (simp add: try_append_regional_indicator_pair_def Let_def)
      then show ?thesis using k step_trans [OF k f [OF k]] by (auto simp: safe_pair_def)
    qed
  qed
qed

lemma blank_at_cursor_safe:
  assumes ok: "vt_ok h"
  shows "safe h (blank_at_cursor h)"
  unfolding blank_at_cursor_def Let_def
proof (rule edit_row_safe [OF ok vt_okD(6) [OF ok]])
  fix r assume r: "row_ok (cols_of h) r"
  note c = cleared_plain [OF r vt_okD(7) [OF ok], where bg = "cs_bg (cu_style (h_cursor h))"]
  show "\<exists>r'. put_at (cu_col (h_cursor h)) (cursor_blank_cell h)
      (clear_wide_pair_around (cu_col (h_cursor h)) (cs_bg (cu_style (h_cursor h))) r) = Some r' \<and> row_ok (cols_of h) r'"
    by (rule put_at_plain [OF c(1) vt_okD(7) [OF ok] c(2)])
      (simp add: cursor_blank_cell_def is_wide_def is_wide_continuation_def)
qed

lemma on_grid_aside:
  "on_grid f h = Some k \<Longrightarrow> h_cursor k = h_cursor h \<and> h_modes k = h_modes h \<and> h_region k = h_region h"
  by (auto simp: on_grid_def freeze_grid_def Let_def split: if_splits)

lemma place_glyph_safe:
  assumes ok: "vt_ok h" and w: "width = 1 \<or> width = 2 \<and> cu_col (h_cursor h) + 1 < cols_of h" and cols: "cols = cols_of h"
  shows "safe h (place_glyph ch width cols h)"
  unfolding place_glyph_def
proof (rule safe_bind_eq)
  let ?i = "if md_insert_mode (h_modes h) then on_grid (insert_chars (cu_row (h_cursor h)) (cu_col (h_cursor h)) width) h else Some h"
  let ?c = "\<lambda>c. let col = cu_col c + width in if cols \<le> col then c\<lparr>cu_col := cols - 1, cu_auto_wrap_pending := True\<rparr> else c\<lparr>cu_col := col\<rparr>"
  have "0 < width" using w by auto
  then show i: "safe h ?i" using chars_fine(3) [OF vt_okD(3) [OF ok] vt_okD(6) [OF ok]] on_grid_safe [OF ok] step_refl [OF ok] by auto
  fix k assume e: "?i = Some k" and s: "step h k"
  note k = stepD(1) [OF s]
  have cur: "h_cursor k = h_cursor h" using e on_grid_aside by (cases "md_insert_mode (h_modes h)") auto
  have cols': "cols = cols_of k" using cols stepD(3) [OF s] by simp
  have "safe k (edit_row (cu_row (h_cursor k)) (glyph_row ch width cols (h_cursor k)) k \<bind> (\<lambda>h. Some (on_cursor ?c
      (set_active_grapheme_cell (cu_row (h_cursor k)) (cu_col (h_cursor k)) h))))"
  proof (rule safe_bind)
    show "safe k (edit_row (cu_row (h_cursor k)) (glyph_row ch width cols (h_cursor k)) k)"
    proof (rule edit_row_safe [OF k vt_okD(6) [OF k]])
      fix r assume "row_ok (cols_of k) r"
      then show "\<exists>r'. glyph_row ch width cols (h_cursor k) r = Some r' \<and> row_ok (cols_of k) r'"
        unfolding cols' by (rule glyph_row_ok [OF _ vt_okD(7) [OF k]]) (use w cur cols cols' in simp)
    qed
    fix q assume q: "step k q"
    let ?a = "set_active_grapheme_cell (cu_row (h_cursor k)) (cu_col (h_cursor k)) q"
    have a: "step q ?a" by (rule aside_step(2) [OF stepD(1) [OF q]]) (use vt_okD(6) [OF k] stepD(2) [OF q] in simp)
    have "cols_of ?a = cols" using stepD(3) [OF a] stepD(3) [OF q] cols' by simp
    then have "step ?a (on_cursor ?c ?a)" by (intro move_step [OF stepD(1) [OF a]]) (use vt_okD [OF stepD(1) [OF a]] in \<open>auto simp: Let_def\<close>)
    with step_trans [OF a] show "safe q (Some (on_cursor ?c ?a))" by blast
  qed
  then show "safe k (let cur = h_cursor k in edit_row (cu_row cur) (glyph_row ch width cols cur) k \<bind> (\<lambda>h. Some (on_cursor ?c
      (set_active_grapheme_cell (cu_row cur) (cu_col cur) h))))" by (simp only: Let_def)
qed

lemma drop_wide_safe:
  assumes ok: "vt_ok h"
  shows "step h (clear_active_grapheme_cell (on_cursor (\<lambda>c. c\<lparr>cu_auto_wrap_pending := False\<rparr>) h))"
proof -
  have c: "step h (on_cursor (\<lambda>c. c\<lparr>cu_auto_wrap_pending := False\<rparr>) h)" by (rule pen_step [OF ok]) simp_all
  show ?thesis using step_trans [OF c aside_step(1) [OF stepD(1) [OF c]]] .
qed

text \<open>After wrapping, the cursor is in the first column.\<close>

lemma wrap_col: "wrap_to_next_line h = Some k \<Longrightarrow> cu_col (h_cursor k) = 0"
proof -
  assume w: "wrap_to_next_line h = Some k"
  let ?h = "on_cursor (\<lambda>c. c\<lparr>cu_col := 0, cu_auto_wrap_pending := False\<rparr>) (clear_active_grapheme_cell h)"
  obtain q where q: "edit_row (cu_row (h_cursor ?h)) (\<lambda>r. Some (r\<lparr>r_wrapped := True\<rparr>)) ?h = Some q"
    using w by (auto simp: wrap_to_next_line_def Let_def split: bind_splits)
  have "cu_col (h_cursor q) = 0" using q on_grid_aside by (fastforce simp: edit_row_def on_cursor_def Let_def)
  then show ?thesis using w q on_grid_aside
    by (fastforce simp: wrap_to_next_line_def on_cursor_def freeze_cursor_def Let_def split: if_splits)
qed

lemma write_glyph_safe:
  assumes ok: "vt_ok h" and w: "width = 1 \<or> width = 2"
  shows "safe h (write_glyph ch width h)"
proof -
  let ?h = "remember_graphic_scalar ch h"
  note s = aside_step(3) [OF ok, of ch]
  note k = stepD(1) [OF s]
  have cols: "cols_of ?h = cols_of h" "rows_of ?h = rows_of h" using stepD [OF s] by simp_all
  let ?cols = "cols_of ?h" and ?rows = "rows_of ?h"
  let ?wrap = "if cu_auto_wrap_pending (h_cursor ?h) then (if md_auto_wrap (h_modes ?h) then wrap_to_next_line ?h
    else Some (on_cursor (\<lambda>c. c\<lparr>cu_col := ?cols - 1, cu_auto_wrap_pending := False\<rparr>) ?h)) else Some ?h"
  have "safe ?h ?wrap"
    by (intro safe_if wrap_safe [OF k] safe_Some move_step [OF k] step_refl [OF k]) (use vt_okD [OF k] in simp_all)
  then obtain q where q: "?wrap = Some q" "step ?h q" by (auto simp: safe_def)
  note b = vt_okD [OF stepD(1) [OF q(2)]]
  have size: "cols_of q = ?cols" "rows_of q = ?rows" using stepD [OF q(2)] by simp_all
  note vq = stepD(1) [OF q(2)]
  have wide: "safe q (blank_at_cursor q \<bind> (\<lambda>h. if md_auto_wrap (h_modes h) then wrap_to_next_line h \<bind> place_glyph ch width ?cols
      else Some (clear_active_grapheme_cell (on_cursor (\<lambda>c. c\<lparr>cu_auto_wrap_pending := False\<rparr>) h))))" if "\<not> ?cols < 2"
  proof (rule safe_bind [OF blank_at_cursor_safe [OF vq]], rule safe_if)
    fix p assume p: "step q p"
    show "safe p (wrap_to_next_line p \<bind> place_glyph ch width ?cols)"
    proof (rule safe_bind_eq [OF wrap_safe [OF stepD(1) [OF p]]])
      fix t assume t: "wrap_to_next_line p = Some t" "step p t"
      show "safe t (place_glyph ch width ?cols t)"
        by (rule place_glyph_safe [OF stepD(1) [OF t(2)]]) (use wrap_col [OF t(1)] that size w stepD [OF t(2)] stepD [OF p] in auto)
    qed
    show "safe p (Some (clear_active_grapheme_cell (on_cursor (\<lambda>c. c\<lparr>cu_auto_wrap_pending := False\<rparr>) p)))"
      using drop_wide_safe [OF stepD(1) [OF p]] by blast
  qed
  have narrow: "safe q (blank_at_cursor q \<bind> (\<lambda>h. Some (clear_active_grapheme_cell (on_cursor (\<lambda>c. c\<lparr>cu_auto_wrap_pending := False\<rparr>) h))))"
    by (rule safe_bind [OF blank_at_cursor_safe [OF vq]]) (use drop_wide_safe stepD(1) in blast)
  have "write_glyph ch width h = (if width = 2 \<and> ?cols < 2
      then blank_at_cursor q \<bind> (\<lambda>h. Some (clear_active_grapheme_cell (on_cursor (\<lambda>c. c\<lparr>cu_auto_wrap_pending := False\<rparr>) h)))
      else if width = 2 \<and> ?cols \<le> cu_col (h_cursor q) + 1
      then blank_at_cursor q \<bind> (\<lambda>h. if md_auto_wrap (h_modes h) then wrap_to_next_line h \<bind> place_glyph ch width ?cols
        else Some (clear_active_grapheme_cell (on_cursor (\<lambda>c. c\<lparr>cu_auto_wrap_pending := False\<rparr>) h)))
      else place_glyph ch width ?cols q)"
    using q(1) b(6,7) size by (simp add: write_glyph_def Let_def)
  moreover have "safe q (place_glyph ch width ?cols q)" if "\<not> (width = 2 \<and> ?cols \<le> cu_col (h_cursor q) + 1)"
    by (rule place_glyph_safe [OF vq]) (use that w size in auto)
  ultimately have "safe q (write_glyph ch width h)" using narrow wide by auto
  then show ?thesis by (rule safe_after [OF step_trans [OF s q(2)]])
qed

lemma write_char_safe:
  assumes ok: "vt_ok h"
  shows "safe h (write_char W ch h)"
proof (cases "W ch")
  case None
  then show ?thesis using step_refl [OF ok] by (auto simp: write_char_def)
next
  case (Some w)
  define v where "v = min w 2"
  show ?thesis
  proof (cases "v = 0")
    case True
    then show ?thesis using Some zero_width_safe [OF ok] by (simp add: write_char_def v_def)
  next
    case False
    then have w: "v = 1 \<or> v = 2" by (auto simp: v_def)
    obtain b k where j: "try_append_to_active_grapheme ch v h = Some (b, k)" "step h k"
      using join_active_safe [OF ok w, of ch] by (auto simp: safe_pair_def)
    obtain b' q where f: "try_append_regional_indicator_pair ch k = Some (b', q)" "step k q"
      using join_flag_safe [OF stepD(1) [OF j(2)], of ch] by (auto simp: safe_pair_def)
    note t = step_trans [OF j(2) f(2)]
    have "write_char W ch h = (if b then Some k else if b' then Some q else write_glyph ch v q)"
      using Some False j(1) f(1) by (simp add: write_char_def Let_def flip: v_def)
    then show ?thesis using j(2) t safe_after [OF t write_glyph_safe [OF stepD(1) [OF t] w]] by auto
  qed
qed

lemma write_scalars_safe: "vt_ok h \<Longrightarrow> safe h (write_scalars W chs h)"
proof (induction chs arbitrary: h)
  case Nil
  then show ?case using step_refl by auto
next
  case (Cons ch chs)
  then show ?case by (auto intro!: safe_bind [OF write_char_safe] dest: stepD)
qed

lemma repeat_safe: "vt_ok h \<Longrightarrow> safe h (repeat_preceding_char W n h)"
  using write_scalars_safe step_refl by (auto simp: repeat_preceding_char_def split: option.splits)

end
