(* ===== verification/Vt_Perform.thy ===== *)
theory Vt_Perform
  imports Vt_Steps
begin

text \<open>
  The alternate screen, synchronized output, and every callback of the handler: \<open>perform\<close> never
  panics, keeps the invariant, and reports as damage whatever changes in the presented frame.
\<close>

section \<open>The alternate screen\<close>

lemma grid_reset_blank_is_new: "grid_reset_blank rows cols config g = grid_new rows cols config"
proof -
  have "map (row_reset_blank cols) (take rows (gr_raw g)) @ replicate (rows - min (length (gr_raw g)) rows) (row_new cols) =
      replicate rows (row_new cols)"
    by (rule nth_equalityI) (auto simp: nth_append reset_blank_is_new)
  then show ?thesis
    by (cases g) (simp add: grid_reset_blank_def grid_new_def dirty_reset_is_new Let_def)
qed

lemma alt_canvas_usable:
  assumes "\<And>g. spare = Some g \<Longrightarrow> grid_ok g \<and> places_ok g"
  shows "usable rows cols (alt_canvas reuse spare rows cols)"
proof -
  have "usable rows cols (grid_new rows cols alt_grid_config)"
    by (simp add: usable_def places_ok_def) (simp add: grid_new_def alt_grid_config_def default_grid_config_def MAX_IMAGE_BYTES_def)
  then show ?thesis using assms
    by (auto simp: alt_canvas_def grid_reset_blank_is_new is_blank_canvas_def usable_def alt_grid_config_def default_grid_config_def
        split: option.splits)
qed

lemma repaint_good:
  assumes g: "gc_track_dirty (gr_config g)" and a: "usable rows cols a"
  shows "good g (mark_all_dirty a)" "usable rows cols (mark_all_dirty a)"
proof -
  have ok: "grid_ok a" "gc_track_dirty (gr_config a)" using a by (auto simp: usable_def)
  show u: "usable rows cols (mark_all_dirty a)" using fine_usable [OF clear_fine(6) [OF ok(1)] a] .
  have "length (ds_full_rows (gr_dirty a)) = gr_rows a" "length (ds_rows (gr_dirty a)) = gr_rows a" "ds_enabled (gr_dirty a)"
    using ok by (auto simp: grid_ok_def dirty_ok_def)
  from mark_all_spec(2) [OF this] have "damage_of (mark_all_dirty a) = {..<gr_rows a} \<times> {..<gr_cols a}"
    by (simp add: damage_of_def mark_all_dirty_def)
  then show "good g (mark_all_dirty a)" using u g ok
    by (auto simp: good_def keeps_paint_def usable_def mark_all_dirty_def)
qed

text \<open>A change behind a complete snapshot of what it touches.\<close>

lemma behind_step:
  assumes ok: "vt_ok h" "vt_ok h'" and size: "same_size h h'"
    and kept: "h_armed h' = h_armed h" "h_frozen_grid h' = h_frozen_grid h" "h_frozen_cursor h' = h_frozen_cursor h"
      "h_frozen_alt h' = h_frozen_alt h" "h_frozen_title h' = h_frozen_title h" "h_frozen_colors h' = h_frozen_colors h"
      "h_title h' = h_title h" "h_colors h' = h_colors h"
    and frozen: "h_armed h \<longrightarrow> h_frozen_grid h \<noteq> None \<and> h_frozen_cursor h \<noteq> None \<and> h_frozen_alt h \<noteq> None"
    and good: "good (h_grid h) (h_grid h')"
  shows "step h h'"
proof -
  have "good (presented_grid h) (presented_grid h')"
    using good good_refl [OF presented_grid_ok [OF ok(1)]] kept by (cases "h_frozen_grid h") (simp_all add: presented_grid_def)
  moreover have "h_armed h \<longrightarrow> presented_frame h' = presented_frame h" using frozen kept by (auto simp: presented_defs)
  ultimately show ?thesis using ok(2) size kept by (simp add: step_def holds_still_def)
qed

definition freeze_screen :: "handler \<Rightarrow> handler" where
  "freeze_screen h = freeze_alt_flag (freeze_cursor (freeze_grid h))"

lemma freeze_screen_step:
  assumes ok: "vt_ok h"
  shows "step h (freeze_screen h)"
    "h_armed (freeze_screen h) \<longrightarrow> h_frozen_grid (freeze_screen h) \<noteq> None \<and> h_frozen_cursor (freeze_screen h) \<noteq> None \<and> h_frozen_alt (freeze_screen h) \<noteq> None"
proof -
  note a = freeze_grid_step(1) [OF ok]
  note b = freeze_cursor_step(1) [OF stepD(1) [OF a]]
  note c = freeze_alt_step(1) [OF stepD(1) [OF b]]
  show "step h (freeze_screen h)" unfolding freeze_screen_def by (rule step_trans [OF a step_trans [OF b c]])
qed (auto simp: freeze_screen_def freeze_alt_flag_def freeze_cursor_def freeze_grid_def)

lemma enter_alternate_step:
  assumes ok: "vt_ok h" and off: "\<not> md_alternate_screen (h_modes h)"
  shows "step h (set_alternate_screen True (swap_enter save h))"
proof -
  note z = freeze_screen_step [OF ok]
  let ?k = "freeze_screen h" and ?h = "set_alternate_screen True (swap_enter save h)"
  have k: "vt_ok ?k" by (rule stepD(1) [OF z(1)])
  let ?alt = "alt_canvas (h_reuse h) (h_spare h) (rows_of h) (cols_of h)"
  have u: "usable (rows_of h) (cols_of h) ?alt" by (rule alt_canvas_usable) (use ok in \<open>auto simp: vt_ok_defs\<close>)
  note r = repaint_good [OF vt_okD(4) [OF ok] u]
  have same: "h_grid ?k = h_grid h" "h_cursor ?k = h_cursor h" "h_reuse ?k = h_reuse h" "h_spare ?k = h_spare h" "h_stores ?k = h_stores h"
    "h_modes ?k = h_modes h" by (simp_all add: freeze_screen_def freeze_alt_flag_def freeze_cursor_def freeze_grid_def)
  have eq: "?h = ?k\<lparr>h_grid := mark_all_dirty ?alt,
      h_cursor := if save then cursor_new\<lparr>cu_saved := cu_saved (h_cursor h)\<rparr> else h_cursor h,
      h_modes := (h_modes h)\<lparr>md_alternate_screen := True\<rparr>, h_alt_grid := Some (h_grid h), h_alt_cursor := if save then Some (h_cursor h) else None,
      h_spare := None, h_stores := (fst (h_stores h), store_clear (snd (h_stores h)))\<rparr>"
  proof -
    define q where "q = freeze_cursor (freeze_grid h)"
    have q: "h_grid q = h_grid h" "h_cursor q = h_cursor h" "h_reuse q = h_reuse h" "h_spare q = h_spare h" "h_stores q = h_stores h"
      "h_modes q = h_modes h" by (simp_all add: q_def freeze_cursor_def freeze_grid_def)
    show ?thesis unfolding set_alternate_screen_def swap_enter_def freeze_screen_def on_modes_def Let_def q_def [symmetric]
      by (cases "h_armed q \<and> h_frozen_alt q = None"; cases save) (simp_all add: freeze_alt_flag_def q)
  qed
  have alt_size: "gr_rows (mark_all_dirty ?alt) = rows_of h" "gr_cols (mark_all_dirty ?alt) = cols_of h" using r(2) by (auto simp: usable_def)
  have b: "live_ok ?k" "stash_ok ?k" "frozen_ok ?k" "bounded ?k" using k by (simp_all add: vt_ok_def)
  have "live_ok ?h" "stash_ok ?h" unfolding eq using b(1,2) r(2) alt_size same off by (auto simp: live_ok_def stash_ok_def)
  moreover have "frozen_ok ?h" "bounded ?h" unfolding eq using b(3,4) same by (auto simp: frozen_ok_def bounded_def)
  ultimately have v: "vt_ok ?h" by (simp add: vt_ok_def)
  have "step ?k ?h"
    by (rule behind_step [OF k v _ _ _ _ _ _ _ _ _ z(2)]) (use alt_size same r(1) in \<open>simp_all add: eq same_size_def\<close>)
  then show ?thesis by (rule step_trans [OF z(1)])
qed

lemma leave_alternate_step:
  assumes ok: "vt_ok h" and on: "md_alternate_screen (h_modes h)"
  shows "step h (set_alternate_screen False (swap_leave restore h))"
proof -
  note z = freeze_screen_step [OF ok]
  let ?k = "freeze_screen h" and ?h = "set_alternate_screen False (swap_leave restore h)"
  have k: "vt_ok ?k" by (rule stepD(1) [OF z(1)])
  obtain p where p: "h_alt_grid h = Some p" using ok on by (auto simp: vt_ok_defs)
  have u: "usable (rows_of h) (cols_of h) p" using ok p by (auto simp: vt_ok_defs)
  note r = repaint_good [OF vt_okD(4) [OF ok] u]
  have same: "h_grid ?k = h_grid h" "h_cursor ?k = h_cursor h" "h_reuse ?k = h_reuse h" "h_spare ?k = h_spare h" "h_stores ?k = h_stores h"
    "h_modes ?k = h_modes h" "h_alt_grid ?k = Some p" "h_alt_cursor ?k = h_alt_cursor h"
    using p by (simp_all add: freeze_screen_def freeze_alt_flag_def freeze_cursor_def freeze_grid_def)
  have eq: "?h = ?k\<lparr>h_grid := mark_all_dirty p,
      h_cursor := if restore then shown (h_alt_cursor h) (h_cursor h) else h_cursor h,
      h_modes := (h_modes h)\<lparr>md_alternate_screen := False\<rparr>, h_alt_grid := None,
      h_alt_cursor := None, h_spare := if h_reuse h then Some (h_grid h) else h_spare h,
      h_stores := (fst (h_stores h), store_clear (snd (h_stores h)))\<rparr>"
  proof -
    define q where "q = freeze_cursor (freeze_grid h)"
    have q: "h_grid q = h_grid h" "h_cursor q = h_cursor h" "h_reuse q = h_reuse h" "h_spare q = h_spare h" "h_stores q = h_stores h"
      "h_modes q = h_modes h" "h_alt_grid q = Some p" "h_alt_cursor q = h_alt_cursor h"
      using p by (simp_all add: q_def freeze_cursor_def freeze_grid_def)
    show ?thesis unfolding set_alternate_screen_def swap_leave_def freeze_screen_def on_modes_def Let_def q_def [symmetric]
      by (cases "h_armed q \<and> h_frozen_alt q = None"; cases restore; cases "h_alt_cursor h") (simp_all add: freeze_alt_flag_def q)
  qed
  have size: "gr_rows (mark_all_dirty p) = rows_of h" "gr_cols (mark_all_dirty p) = cols_of h" using r(2) by (auto simp: usable_def)
  have c: "cursor_in (rows_of h) (cols_of h) (shown (h_alt_cursor h) (h_cursor h))" using ok by (cases "h_alt_cursor h") (auto simp: vt_ok_defs)
  have g: "grid_ok (h_grid h)" "places_ok (h_grid h)" using vt_okD [OF ok] by simp_all
  have b: "live_ok ?k" "stash_ok ?k" "frozen_ok ?k" "bounded ?k" using k by (simp_all add: vt_ok_def)
  have "live_ok ?h" "stash_ok ?h" unfolding eq using b(1,2) r(2) size same c g by (auto simp: live_ok_def stash_ok_def)
  moreover have "frozen_ok ?h" "bounded ?h" unfolding eq using b(3,4) same by (auto simp: frozen_ok_def bounded_def)
  ultimately have v: "vt_ok ?h" by (simp add: vt_ok_def)
  have "step ?k ?h"
    by (rule behind_step [OF k v _ _ _ _ _ _ _ _ _ z(2)]) (use size same r(1) in \<open>simp_all add: eq same_size_def\<close>)
  then show ?thesis by (rule step_trans [OF z(1)])
qed

section \<open>Modes\<close>

lemma alternate_screen_mode_safe:
  assumes ok: "vt_ok h"
  shows "safe h (alternate_screen_mode mode enable h)"
proof (cases enable)
  case True
  let ?h = "if mode = 1049 then save_cursor_state h else h"
  have s: "step h ?h" by (simp add: save_cursor_step [OF ok] step_refl [OF ok])
  note k = stepD(1) [OF s]
  have clear: "safe ?h (on_grid (Some \<circ> clear_visible bg) ?h \<bind> (\<lambda>h. Some (on_cursor (\<lambda>_. cursor_new\<lparr>cu_saved := sv\<rparr>) h)))" for bg sv
    by (rule safe_bind [OF whole_grid_safe(5) [OF k]], intro safe_Some on_cursor_step)
      (auto dest: stepD(1) simp: vt_okD)
  have "safe ?h (alternate_screen_mode mode enable h)"
    using True clear step_refl [OF k] enter_alternate_step [OF k] by (auto simp: alternate_screen_mode_def Let_def)
  then show ?thesis by (rule safe_after [OF s])
next
  case False
  let ?h = "if md_alternate_screen (h_modes h) then set_alternate_screen False (swap_leave (mode = 1049) h) else h"
  have s: "step h ?h" using leave_alternate_step [OF ok] step_refl [OF ok] by simp
  have "step ?h (if mode = 1049 then restore_cursor_state ?h else ?h)"
    using restore_cursor_step [OF stepD(1) [OF s]] step_refl [OF stepD(1) [OF s]] by simp
  from step_trans [OF s this] show ?thesis using False by (auto simp: alternate_screen_mode_def Let_def)
qed

lemma freeze_whole_step: "vt_ok h \<Longrightarrow> step h (freeze_whole_presentation h)"
  unfolding freeze_whole_presentation_def
  by (meson freeze_grid_step(1) freeze_cursor_step(1) freeze_title_step(1) freeze_colors_step(1) freeze_alt_step(1) step_trans stepD(1))

lemma sync_on_step:
  assumes ok: "vt_ok h"
  shows "step h (synchronized_output_mode True h)"
proof -
  let ?d = "(mark_live_dirty h)\<lparr>h_armed := True\<rparr>"
  let ?e = "if \<not> h_armed h then (if h_eager ?d then freeze_whole_presentation ?d else ?d) else h"
  have e: "step h ?e"
  proof (cases "h_armed h")
    case False
    then have z: "h_frozen_grid h = None" using ok by (simp add: vt_ok_defs)
    note f = clear_fine(6) [OF vt_okD(3) [OF ok]]
    have "vt_ok ?d" using ok f fine_usable [OF f] by (auto simp: vt_ok_defs mark_live_dirty_def fine_def)
    then have "step h ?d" using f False z by (simp add: step_def same_size_def holds_still_def presented_grid_def mark_live_dirty_def fine_def)
    then show ?thesis using False step_trans [OF \<open>step h ?d\<close> freeze_whole_step [OF \<open>vt_ok ?d\<close>]] by simp
  qed (simp add: step_refl [OF ok])
  have "step ?e (on_modes (md_synchronized_output_update (\<lambda>_. True)) ?e)" by (rule aside_step(10) [OF stepD(1) [OF e]]) simp
  from step_trans [OF e this] show ?thesis by (simp only: synchronized_output_mode_def Let_def if_True)
qed

lemma presented_tracked: "vt_ok h \<Longrightarrow> gc_track_dirty (gr_config (presented_grid h))"
  by (cases "h_frozen_grid h") (auto simp: presented_grid_def vt_ok_defs usable_def)

lemma sync_off_tracks:
  assumes ok: "vt_ok h"
  shows "tracks h (synchronized_output_mode False h)"
proof -
  let ?h = "synchronized_output_mode False h"
  have u: "usable (rows_of h) (cols_of h) (h_grid h)" using ok by (simp add: vt_ok_defs)
  note r = repaint_good [OF presented_tracked [OF ok] u]
  have g: "h_grid ?h = mark_all_dirty (h_grid h)" "presented_grid ?h = mark_all_dirty (h_grid h)" "h_responses ?h = h_responses h"
    by (simp_all add: synchronized_output_mode_def mark_live_dirty_def release_sync_presentation_def on_modes_def presented_grid_def)
  have size: "gr_rows (mark_all_dirty (h_grid h)) = rows_of h" "gr_cols (mark_all_dirty (h_grid h)) = cols_of h" by (simp_all add: mark_all_dirty_def)
  have b: "live_ok h" "stash_ok h" "bounded h" using ok by (simp_all add: vt_ok_def)
  have "live_ok ?h" "stash_ok ?h" "bounded ?h" using b r(2) size
    by (simp_all add: synchronized_output_mode_def mark_live_dirty_def release_sync_presentation_def on_modes_def live_ok_def stash_ok_def bounded_def)
  moreover have "frozen_ok ?h"
    by (simp add: synchronized_output_mode_def mark_live_dirty_def release_sync_presentation_def on_modes_def frozen_ok_def)
  ultimately show ?thesis using r(1) size g by (simp add: tracks_def vt_ok_def same_size_def)
qed

definition follows :: "bool \<Rightarrow> handler \<Rightarrow> handler option \<Rightarrow> bool" where
  "follows still h r \<longleftrightarrow> (\<exists>h'. r = Some h' \<and> tracks h h' \<and> (still \<longrightarrow> holds_still h h'))"

lemma safe_follows: "safe h r \<Longrightarrow> follows still h r"
  by (auto simp: safe_def follows_def step_def tracks_def)

lemma follows_safe: "follows True h r \<Longrightarrow> safe h r"
  by (auto simp: safe_def follows_def step_def tracks_def)

lemma follows_bind: "follows s h r \<Longrightarrow> (\<And>h'. vt_ok h' \<Longrightarrow> follows s h' (f h')) \<Longrightarrow> follows s h (r \<bind> f)"
proof -
  assume r: "follows s h r" and f: "\<And>h'. vt_ok h' \<Longrightarrow> follows s h' (f h')"
  obtain k where k: "r = Some k" "tracks h k" "s \<longrightarrow> holds_still h k" using r by (auto simp: follows_def)
  then have "vt_ok k" by (simp add: tracks_def)
  from f [OF this] obtain q where q: "f k = Some q" "tracks k q" "s \<longrightarrow> holds_still k q" by (auto simp: follows_def)
  then show ?thesis using k tracks_trans [OF k(2) q(2)] by (auto simp: follows_def holds_still_def)
qed

lemma set_private_mode_follows:
  assumes ok: "vt_ok h"
  shows "follows (enable \<or> mode \<noteq> 2026) h (set_private_mode enable mode h)"
proof (cases "mode = 2026 \<and> \<not> enable")
  case True
  then show ?thesis using sync_off_tracks [OF ok] by (simp add: set_private_mode_def follows_def)
next
  case False
  note m = aside_step(10) [OF ok]
  have home: "step h (home_cursor_to_origin (on_modes (md_origin_mode_update (\<lambda>_. enable)) h))"
    using step_trans [OF m cursor_moves_step(3) [OF stepD(1) [OF m]]] by simp
  have vis: "step h (on_cursor (cu_visible_update (\<lambda>_. enable)) (on_modes (md_cursor_visible_update (\<lambda>_. enable)) h))"
    using step_trans [OF m pen_step [OF stepD(1) [OF m]]] by simp
  have "safe h (set_private_mode enable mode h)"
    unfolding set_private_mode_def Let_def
    by (intro safe_if safe_Some home vis step_if save_cursor_step [OF ok] restore_cursor_step [OF ok] alternate_screen_mode_safe [OF ok]
        step_refl [OF ok] m) (use False sync_on_step [OF ok] in auto)
  then show ?thesis by (rule safe_follows)
qed

lemma set_private_modes_follows: "vt_ok h \<Longrightarrow> follows (enable \<or> 2026 \<notin> set ms) h (set_private_modes enable ms h)"
proof (induction ms arbitrary: h)
  case Nil
  then show ?case using step_refl by (auto intro: safe_follows)
next
  case (Cons m ms)
  have weak: "follows s k r \<Longrightarrow> (t \<Longrightarrow> s) \<Longrightarrow> follows t k r" for s t k r by (auto simp: follows_def)
  have "follows (enable \<or> 2026 \<notin> set (m # ms)) h (set_private_mode enable m h)"
    by (rule weak [OF set_private_mode_follows [OF Cons.prems]]) auto
  moreover have "follows (enable \<or> 2026 \<notin> set (m # ms)) k (set_private_modes enable ms k)" if "vt_ok k" for k
    by (rule weak [OF Cons.IH [OF that]]) auto
  ultimately show ?case by (simp add: follows_bind)
qed

section \<open>Control sequences\<close>

lemma goto_col_safe:
  assumes ok: "vt_ok h"
  shows "safe h (goto_col col h)"
  using vt_okD(2,6) [OF ok] by (auto simp: goto_col_def csub_def intro!: safe_Some move_step [OF ok])

lemma erase_safe: "vt_ok h \<Longrightarrow> r < rows_of h \<Longrightarrow> safe h (on_grid (erase_chars r c n bg) h)"
  by (rule on_grid_safe) (simp_all add: chars_fine vt_okD)

lemma above_safe: "vt_ok h \<Longrightarrow> r < rows_of h \<Longrightarrow> safe h (on_grid (clear_above r bg) h)"
  by (rule on_grid_safe) (simp_all add: clear_fine vt_okD)

lemma erase_in_display_safe:
  assumes ok: "vt_ok h"
  shows "safe h (erase_in_display k h)"
proof -
  let ?c = "h_cursor h"
  let ?bg = "cs_bg (cu_style ?c)"
  note b = vt_okD [OF ok]
  have later: "vt_ok q" "cu_row ?c < rows_of q" "cu_row ?c - 1 < rows_of q" if "step h q" for q using stepD [OF that] b(6) by auto
  have "safe h (on_grid (erase_chars (cu_row ?c) (cu_col ?c) n ?bg) h \<bind>
      (\<lambda>q. if cu_row ?c + 1 < rows_of q then on_grid (Some \<circ> clear_below (cu_row ?c + 1) ?bg) q else Some q))" for n
    by (rule safe_bind [OF erase_safe [OF ok b(6)]]) (auto intro: whole_grid_safe step_refl dest: later)
  moreover have "safe h ((if 0 < cu_row ?c then on_grid (clear_above (cu_row ?c - 1) ?bg) h else Some h) \<bind>
      on_grid (erase_chars (cu_row ?c) 0 (cu_col ?c + 1) ?bg))"
    by (rule safe_bind, rule safe_if) (use later b(6) in \<open>auto intro!: above_safe [OF ok] step_refl [OF ok] erase_safe\<close>)
  moreover have "safe h (on_grid (Some \<circ> clear_visible ?bg) h \<bind> on_grid (Some \<circ> clear_scrollback))"
    by (rule safe_bind [OF whole_grid_safe(5) [OF ok]]) (auto intro: whole_grid_safe dest: stepD)
  ultimately show ?thesis using b(7) whole_grid_safe(5) [OF ok] step_refl [OF ok] by (auto simp: erase_in_display_def csub_def Let_def)
qed

lemma erase_in_line_safe:
  assumes ok: "vt_ok h"
  shows "safe h (erase_in_line k h)"
  using vt_okD(7) [OF ok] erase_safe [OF ok vt_okD(6) [OF ok]] step_refl [OF ok] by (auto simp: erase_in_line_def csub_def Let_def)

lemma set_scroll_region_step:
  assumes ok: "vt_ok h"
  shows "step h (set_scroll_region ps h)"
proof -
  let ?t = "param ps 0 1 - 1" and ?b = "min (param ps 1 (rows_of h mod 65536) - 1) (rows_of h - 1)"
  have "step h (home_cursor_to_origin (h\<lparr>h_region := \<lparr>sr_top = ?t, sr_bottom = ?b\<rparr>\<rparr>))" if "?t < ?b"
  proof -
    have r: "step h (h\<lparr>h_region := \<lparr>sr_top = ?t, sr_bottom = ?b\<rparr>\<rparr>)" by (rule aside_step(9) [OF ok]) (use that vt_okD(1) [OF ok] in auto)
    show ?thesis by (rule step_trans [OF r cursor_moves_step(3) [OF stepD(1) [OF r]]])
  qed
  then show ?thesis using step_refl [OF ok] by (auto simp: set_scroll_region_def Let_def)
qed

lemma reports_step:
  assumes ok: "vt_ok h"
  shows "step h (fold status_report ps h)" "step h (fold private_status_report ps h)" "step h (fold (report_mode b) ps h)"
    "step h (fold (set_standard_mode b) ps h)"
proof -
  show "step h (fold status_report ps h)" using ok
    by (rule step_fold [rotated]) (auto simp: status_report_def report_cursor_position_def Let_def intro: aside_step(7) step_refl)
  show "step h (fold private_status_report ps h)" using ok
    by (rule step_fold [rotated]) (auto simp: private_status_report_def report_cursor_position_def Let_def intro: aside_step(7) step_refl)
  show "step h (fold (report_mode b) ps h)" using ok
    by (rule step_fold [rotated]) (auto simp: report_mode_def Let_def intro: aside_step(7))
  show "step h (fold (set_standard_mode b) ps h)" using ok
    by (rule step_fold [rotated]) (auto simp: set_standard_mode_def intro: aside_step(10) step_refl)
qed

lemma pen_place [simp]:
  "cu_row (pen_flag f x c) = cu_row c" "cu_col (pen_flag f x c) = cu_col c" "cu_row (pen_fg k c) = cu_row c" "cu_col (pen_fg k c) = cu_col c"
  "cu_row (pen_bg k c) = cu_row c" "cu_col (pen_bg k c) = cu_col c" "cu_row (on_extended u c) = cu_row c" "cu_col (on_extended u c) = cu_col c"
  "cu_row (set_underline_style s c) = cu_row c" "cu_col (set_underline_style s c) = cu_col c"
  "cu_row (set_underline_color o' c) = cu_row c" "cu_col (set_underline_color o' c) = cu_col c"
  by (simp_all add: pen_flag_def pen_fg_def pen_bg_def on_extended_def set_underline_style_def set_underline_color_def Let_def)

lemma if_Some_elim: "(if b then Some g else r) = Some f \<Longrightarrow> (g = f \<Longrightarrow> P) \<Longrightarrow> (r = Some f \<Longrightarrow> P) \<Longrightarrow> P"
  by (cases b) auto

lemma sgr_effect_place: "sgr_effect p = Some f \<Longrightarrow> cu_row (f c) = cu_row c \<and> cu_col (f c) = cu_col c"
  unfolding sgr_effect_def by (elim if_Some_elim) auto

lemma apply_sgr_step: "vt_ok h \<Longrightarrow> step h (apply_sgr p h)"
  using sgr_effect_place by (auto simp: apply_sgr_def step_refl split: option.split intro!: pen_step)

lemma sgr_group_step:
  assumes ok: "vt_ok h"
  shows "step h (fst (sgr_group groups i h))"
proof -
  have u: "step h (sgr_underline k h)" for k using ok by (auto simp: sgr_underline_def intro: pen_step step_refl)
  have c: "step h (fst (sgr_color pen groups i h))" if "\<And>k c. cu_row (pen k c) = cu_row c \<and> cu_col (pen k c) = cu_col c" for pen
    using ok that by (auto simp: sgr_color_def step_refl split: option.split intro!: pen_step)
  have f: "step h (fold apply_sgr ps (apply_sgr p h))" for p ps using step_fold [OF apply_sgr_step ok, where xs = "p # ps"] by simp
  show ?thesis
    using u c [of pen_fg] c [of pen_bg] c [of "\<lambda>col. set_underline_color (Some col)"] f apply_sgr_step [OF ok] pen_step [OF ok, of "set_underline_color None"]
    by (auto simp: sgr_group_def split: list.split)
qed

lemma sgr_loop_step: "vt_ok h \<Longrightarrow> step h (sgr_loop groups i h)"
proof (induction groups i h rule: sgr_loop.induct)
  case (1 groups i h)
  show ?case
  proof (cases "i < length groups")
    case True
    obtain k n where g: "sgr_group groups i h = (k, n)" by fastforce
    have k: "step h k" using sgr_group_step [OF "1.prems", of groups i] g by simp
    have "step k (sgr_loop groups (i + n) k)" using 1(1) [OF True g [symmetric]] stepD(1) [OF k] by simp
    then show ?thesis using True g step_trans [OF k] by (simp add: sgr_loop.simps [of groups i h])
  qed (simp add: sgr_loop.simps [of groups i h] step_refl [OF "1.prems"])
qed

lemma csi_sgr_step: "vt_ok h \<Longrightarrow> step h (csi_sgr groups h)"
  by (simp add: csi_sgr_def apply_sgr_step sgr_loop_step)

lemma param_default: "0 < d \<Longrightarrow> 0 < param ps i d"
  by (simp add: param_def)

lemma chars_safe:
  assumes ok: "vt_ok h"
  shows "safe h (on_grid (insert_chars (cu_row (h_cursor h)) col (param ps 0 1)) h)" "safe h (on_grid (delete_chars (cu_row (h_cursor h)) col n) h)"
  by (rule on_grid_safe [OF ok]; use chars_fine [OF vt_okD(3) [OF ok] vt_okD(6) [OF ok]] param_default in auto)+

lemma csi_plain_safe:
  assumes ok: "vt_ok h"
  shows "safe h (csi_plain E groups ps action h)"
proof -
  note b = vt_okD [OF ok] and r = region_bounds [OF ok]
  have tabs: "next_tab_col h n < cols_of h" "prev_tab_col h n < cols_of h" for n
    using tab_in_bounds [of "h_tabs h"] b(2,8) by (simp_all add: next_tab_col_def prev_tab_col_def)
  have down: "step h (on_cursor (\<lambda>c. c\<lparr>cu_col := 0\<rparr>) (move_cursor_down n h))" "step h (on_cursor (\<lambda>c. c\<lparr>cu_col := 0\<rparr>) (move_cursor_up n h))" for n
  proof -
    have *: "step k (on_cursor (\<lambda>c. c\<lparr>cu_col := 0\<rparr>) k)" if "vt_ok k" for k by (rule move_step [OF that]) (simp_all add: vt_okD [OF that])
    show "step h (on_cursor (\<lambda>c. c\<lparr>cu_col := 0\<rparr>) (move_cursor_down n h))" "step h (on_cursor (\<lambda>c. c\<lparr>cu_col := 0\<rparr>) (move_cursor_up n h))"
      using cursor_moves_step [OF ok] * step_trans stepD(1) by blast+
  qed
  have goto: "safe h (csub (cols_of h) 1 \<bind> (\<lambda>last_col. let col = min (param ps 1 1 - 1) last_col
      in Some (on_cursor (\<lambda>c. c\<lparr>cu_row := addressed_row n 1 h, cu_col := col, cu_auto_wrap_pending := False\<rparr>) h)))" for n
    using b(2) r(2) by (auto simp: csub_def Let_def intro!: safe_Some move_step [OF ok])
  have lines: "safe h (case lines_from_cursor_to_region_bottom h of Some limit \<Rightarrow> on_grid (Some \<circ> scroll_down_n x y (min n limit)) h | None \<Rightarrow> Some h)"
    "safe h (case lines_from_cursor_to_region_bottom h of Some limit \<Rightarrow> on_grid (Some \<circ> scroll_up_n x y (min n limit)) h | None \<Rightarrow> Some h)" for x y n
    using whole_grid_safe(1,2) [OF ok] step_refl [OF ok] by (auto split: option.split)
  show ?thesis unfolding csi_plain_def Let_def
    by (intro safe_if safe_Some step_if goto_col_safe [OF ok] cursor_moves_step [OF ok] down goto [unfolded Let_def] lines
        whole_grid_safe(1,2) [OF ok] chars_safe [OF ok] erase_in_display_safe [OF ok] erase_in_line_safe [OF ok] erase_safe [OF ok]
        repeat_safe [OF ok] reports_step [OF ok] save_cursor_step [OF ok] restore_cursor_step [OF ok] csi_sgr_step [OF ok]
        set_scroll_region_step [OF ok] step_refl [OF ok] aside_step(6,7) [OF ok] move_step [OF ok])
      (use b r tabs in auto)
qed

lemma csi_marked_follows:
  assumes ok: "vt_ok h"
  shows "follows (\<not> (action = key CHR ''l'' \<and> marks = ascii ''?'' \<and> 2026 \<in> set ps)) h (csi_marked E ps marks action h)"
proof (cases "marks = ascii ''?'' \<and> (action = key CHR ''h'' \<or> action = key CHR ''l'')")
  case True
  then show ?thesis using set_private_modes_follows [OF ok, of True ps] set_private_modes_follows [OF ok, of False ps]
    by (auto simp: csi_marked_def follows_def)
next
  case False
  have "safe h (csi_marked E ps marks action h)" unfolding csi_marked_def
    by (intro safe_if safe_Some step_if reports_step [OF ok] aside_step(7) [OF ok] pen_step [OF ok] step_refl [OF ok]) (use False in auto)
  then show ?thesis by (rule safe_follows)
qed

lemma csi_dispatch_follows:
  assumes ok: "vt_ok h"
  shows "follows (\<not> (\<not> ignore \<and> action = key CHR ''l'' \<and> marks = ascii ''?'' \<and> 2026 \<in> set (concat groups))) h
    (csi_dispatch E groups marks ignore action h)"
proof -
  let ?still = "\<not> (\<not> ignore \<and> action = key CHR ''l'' \<and> marks = ascii ''?'' \<and> 2026 \<in> set (concat groups))"
  define k where "k = (if marks = [] \<and> (action = key CHR ''m'' \<or> action = key CHR ''b'') then h else clear_active_grapheme_cell h)"
  let ?r = "if ignore then Some k else if marks = [] then csi_plain E groups (concat groups) action k
    else csi_marked E (concat groups) marks action k"
  have s: "step h k" unfolding k_def by (intro step_if step_refl [OF ok] aside_step(1) [OF ok])
  note k = stepD(1) [OF s]
  have "follows ?still k ?r"
  proof (cases "ignore \<or> marks = []")
    case True
    have "safe k ?r" using True csi_plain_safe [OF k] step_refl [OF k] by auto
    then show ?thesis by (rule safe_follows)
  next
    case False
    then show ?thesis using csi_marked_follows [OF k, of action marks "concat groups" E] by simp
  qed
  then have "follows ?still h ?r"
    using s by (auto simp: follows_def step_def tracks_def same_size_def holds_still_def intro: good_trans)
  then show ?thesis by (simp only: csi_dispatch_def Let_def k_def)
qed

section \<open>Reset\<close>

lemma full_reset_tracks:
  assumes ok: "vt_ok h"
  shows "follows False h (full_reset h)"
proof -
  let ?alt = "md_alternate_screen (h_modes h)"
  define p where "p = (if ?alt then mark_all_dirty (the (h_alt_grid h)) else h_grid h)"
  define g where "g = unplace_all (mark_all_dirty (clear_scrollback (clear_visible ColorDefault p)))"
  have hg: "usable (rows_of h) (cols_of h) (h_grid h)" using ok by (simp add: vt_ok_defs)
  have stash: "?alt \<Longrightarrow> \<exists>q. h_alt_grid h = Some q \<and> usable (rows_of h) (cols_of h) q" using ok by (auto simp: vt_ok_defs)
  have p: "usable (rows_of h) (cols_of h) p"
  proof (cases ?alt)
    case True
    then show ?thesis using stash repaint_good(2) [OF vt_okD(4) [OF ok]] by (auto simp: p_def)
  qed (simp add: p_def hg)
  let ?q = "clear_scrollback (clear_visible ColorDefault p)"
  have fine: "grid_ok (clear_visible ColorDefault p)" using fine_usable [OF clear_fine(1) p] p by (simp add: usable_def)
  have q: "usable (rows_of h) (cols_of h) ?q"
    by (rule fine_usable [OF clear_fine(5) [OF fine] fine_usable [OF clear_fine(1) p]]) (use p in \<open>simp add: usable_def\<close>)
  note r = repaint_good [OF presented_tracked [OF ok] q]
  have m: "grid_ok (mark_all_dirty ?q)" using r(2) by (simp add: usable_def)
  have g: "usable (rows_of h) (cols_of h) g" "good (presented_grid h) g"
    using fine_usable [OF unplace_all_fine [OF m] r(2)] good_trans [OF r(1)] unplace_all_fine [OF m] by (auto simp: g_def fine_def)
  obtain st gen where st: "(st, gen) = (case h_status h of None \<Rightarrow> (None, h_generation h)
      | Some p \<Rightarrow> map_prod Some id (vp_on_full_reset (p, h_generation h)))" by (metis surj_pair)
  let ?h = "(release_sync_presentation h)\<lparr>h_grid := g, h_cursor := cursor_new, h_modes := default_modes, h_region := \<lparr>sr_top = 0, sr_bottom = rows_of h - 1\<rparr>,
    h_colors := \<lparr>tdc_fg = None, tdc_bg = None, tdc_cursor = None\<rparr>, h_alt_grid := if ?alt then None else h_alt_grid h,
    h_alt_cursor := if ?alt then None else h_alt_cursor h, h_last := None, h_charsets := default_charsets, h_tabs := tabs_new (cols_of h),
    h_spare := if ?alt \<and> h_reuse h then Some (h_grid h) else h_spare h, h_status := st, h_generation := gen,
    h_stores := (store_clear (fst (h_stores h)), store_clear (snd (h_stores h)))\<rparr>"
  have size: "gr_rows g = rows_of h" "gr_cols g = cols_of h" using g(1) by (simp_all add: usable_def)
  have "full_reset h = Some ?h"
  proof -
    have free: "on_grid f k = map_option (\<lambda>g. k\<lparr>h_grid := g\<rparr>) (f (h_grid k))" "on_cursor f' k = k\<lparr>h_cursor := f' (h_cursor k)\<rparr>"
      "on_colors f'' k = k\<lparr>h_colors := f'' (h_colors k)\<rparr>" "freeze_grid k = k" "freeze_cursor k = k" if "\<not> h_armed k" for f f' f'' k
      using that by (simp_all add: on_grid_def on_cursor_def on_colors_def freeze_grid_def freeze_cursor_def freeze_colors_def)
    let ?r = "release_sync_presentation h"
    define k where "k = (if md_alternate_screen (h_modes ?r) then swap_leave False ?r else ?r)"
    have k: "k = ?r\<lparr>h_grid := p, h_alt_grid := if ?alt then None else h_alt_grid h, h_alt_cursor := if ?alt then None else h_alt_cursor h,
        h_spare := if ?alt \<and> h_reuse h then Some (h_grid h) else h_spare h, h_stores := h_stores k\<rparr>"
      using stash by (cases ?alt) (auto simp: k_def p_def swap_leave_def free release_sync_presentation_def)
    have na: "\<not> h_armed k" "h_grid k = p" "h_status k = h_status h" "h_generation k = h_generation h" "h_stores k = h_stores k"
      by (subst k, simp add: release_sync_presentation_def)+
    have final: "full_reset h = Some (k\<lparr>h_grid := g, h_cursor := cursor_new, h_modes := default_modes, h_region := \<lparr>sr_top = 0, sr_bottom = rows_of h - 1\<rparr>,
        h_colors := \<lparr>tdc_fg = None, tdc_bg = None, tdc_cursor = None\<rparr>, h_last := None, h_charsets := default_charsets, h_tabs := tabs_new (cols_of h),
        h_status := st, h_generation := gen, h_stores := (store_clear (fst (h_stores h)), store_clear (snd (h_stores h)))\<rparr>)"
      unfolding full_reset_def Let_def k_def [symmetric] using st na(1-4)
      by (cases "h_status h"; cases "vp_on_full_reset (the (h_status h), h_generation h)")
        (simp_all add: free reset_charsets_def tabs_reset_def store_clear_def size g_def [symmetric])
    show ?thesis unfolding final by (subst k) simp
  qed
  moreover have "vt_ok ?h"
  proof -
    have b: "live_ok h" "stash_ok h" "bounded h" using ok by (simp_all add: vt_ok_def)
    have "live_ok ?h" using b(1) g(1) size by (auto simp: live_ok_def release_sync_presentation_def)
    moreover have "stash_ok ?h" using b(2) size vt_okD(3,5) [OF ok]
      by (cases ?alt; cases "h_reuse h") (simp_all add: stash_ok_def release_sync_presentation_def default_modes_def)
    moreover have "frozen_ok ?h" by (simp add: frozen_ok_def release_sync_presentation_def)
    moreover have "bounded ?h" using b(3) by (simp add: bounded_def release_sync_presentation_def)
    ultimately show ?thesis unfolding vt_ok_def by blast
  qed
  ultimately show ?thesis using g size by (simp add: follows_def tracks_def same_size_def presented_grid_def release_sync_presentation_def)
qed

section \<open>Every callback\<close>

lemma esc_dispatch_follows:
  assumes ok: "vt_ok h"
  shows "follows (\<not> (\<not> ignore \<and> marks = [] \<and> byte = key CHR ''c'')) h (esc_dispatch marks ignore byte h)"
proof -
  define k where "k = clear_active_grapheme_cell h"
  have s: "step h k" unfolding k_def by (rule aside_step(1) [OF ok])
  note k = stepD(1) [OF s]
  have cr: "safe k (linefeed (carriage_return k))"
    using safe_after [OF cursor_moves_step(4) [OF k] linefeed_safe] stepD(1) [OF cursor_moves_step(4) [OF k]] by blast
  have charset: "step k (designate_charset slot b k)" for slot b unfolding designate_charset_def Let_def by (rule aside_step(5) [OF k])
  have "follows (\<not> (\<not> ignore \<and> marks = [] \<and> byte = key CHR ''c'')) k (esc_dispatch marks ignore byte h)"
  proof (cases "\<not> ignore \<and> marks = [] \<and> byte = key CHR ''c''")
    case True
    then have "esc_dispatch marks ignore byte h = full_reset k" by (simp add: esc_dispatch_def k_def)
    then show ?thesis using True full_reset_tracks [OF k] by simp
  next
    case False
    have "safe k (esc_dispatch marks ignore byte h)" unfolding esc_dispatch_def Let_def k_def [symmetric]
      by (intro safe_if safe_Some cr charset alignment_safe [OF k] save_cursor_step [OF k] restore_cursor_step [OF k] reverse_index_safe [OF k]
          linefeed_safe [OF k] aside_step(6,10) [OF k] step_refl [OF k]) (use False vt_okD [OF k] in auto)
    then show ?thesis by (rule safe_follows)
  qed
  then show ?thesis using s by (auto simp: follows_def step_def tracks_def same_size_def holds_still_def intro: good_trans)
qed

lemma execute_safe:
  assumes ok: "vt_ok h"
  shows "safe h (execute byte h)"
proof -
  define k where "k = clear_active_grapheme_cell h"
  have s: "step h k" unfolding k_def by (rule aside_step(1) [OF ok])
  note k = stepD(1) [OF s] and b = vt_okD [OF stepD(1) [OF s]]
  have tab: "next_tab_col k n < cols_of k" for n using tab_in_bounds [of "h_tabs k"] b(2,8) by (simp add: next_tab_col_def)
  have "safe k (execute byte h)" unfolding execute_def Let_def k_def [symmetric]
    by (intro safe_if safe_Some step_if linefeed_safe [OF k] cursor_moves_step(4) [OF k] aside_step(5) [OF k] step_refl [OF k] move_step [OF k])
      (use b tab in auto)
  then show ?thesis by (rule safe_after [OF s])
qed

lemma osc_palette_safe: "vt_ok h \<Longrightarrow> safe h (osc_palette ps t h)"
proof (induction ps t h rule: osc_palette.induct)
  case (1 x y rest t h)
  note ok = "1.prems"
  show ?case
  proof (cases "if utf8_decode x = None then None else from_digits 10 255 x")
    case None
    then show ?thesis using 1(1) ok by simp
  next
    case (Some i)
    let ?r = "[27] @ ascii '']4;'' @ decimal i @ [59] @ format_osc_rgb (xterm_256_palette i) @ t"
    note p = aside_step(7) [OF ok, of ?r] and o' = aside_step(8) [OF ok, of True]
    have q: "safe h (osc_palette rest t (push_response ?r h))" if "y = ascii ''?''"
      using safe_after [OF p] 1(2) [OF Some that] stepD(1) [OF p] by blast
    have m: "safe h (on_grid (Some \<circ> mark_all_dirty) (h\<lparr>h_palette_overridden := True\<rparr>) \<bind> osc_palette rest t)"
      if "y \<noteq> ascii ''?''" "parse_osc_color y \<noteq> None"
      by (rule safe_after [OF o'], rule safe_bind_eq [OF whole_grid_safe(9) [OF stepD(1) [OF o']]], rule 1(3) [OF Some that])
        (auto dest: stepD(1))
    show ?thesis using Some q m 1(4) [OF Some] ok by simp
  qed
qed (use step_refl in auto)

lemma repaint_after:
  assumes ok: "vt_ok h"
  shows "safe h (on_grid (Some \<circ> mark_all_dirty) (on_colors f h))"
  by (rule safe_after [OF on_colors_step [OF ok]], rule whole_grid_safe(9) [OF stepD(1) [OF on_colors_step [OF ok]]])

lemma osc_dispatch_safe:
  assumes ok: "vt_ok h"
  shows "safe h (osc_dispatch params bell h)"
proof -
  have title: "step h (osc_title params h)"
    using step_refl [OF ok] by (auto simp: osc_title_def clamp_title_def split: option.split intro!: on_title_step [OF ok])
  have color: "safe h (osc_color params t h)" for t
    unfolding osc_color_def Let_def
    using repaint_after [OF ok] step_refl [OF ok] aside_step(7) [OF ok] by (auto split: option.split)
  have reset: "safe h (osc_reset_color get clear h)" for get clear
    using repaint_after [OF ok] on_colors_step [OF ok] by (auto simp: osc_reset_color_def Let_def)
  have link: "step h (osc_hyperlink params h)"
    using step_refl [OF ok] by (auto simp: osc_hyperlink_def set_cursor_hyperlink_def Let_def split: option.split intro!: pen_step [OF ok])
  show ?thesis unfolding osc_dispatch_def Let_def
    by (intro safe_if safe_Some title color reset link osc_palette_safe [OF ok] step_refl [OF ok])
qed

lemma dcs_step:
  assumes ok: "vt_ok h"
  shows "step h (dcs_hook marks ignore action h)" "step h (dcs_put byte h)" "step h (dcs_unhook h)"
proof -
  show "step h (dcs_hook marks ignore action h)" unfolding dcs_hook_def by (intro step_if aside_step(11) [OF ok]) auto
  show "step h (dcs_put byte h)" using ok step_refl [OF ok]
    by (auto simp: dcs_put_def split: option.split intro!: aside_step(11))
  have n: "step h (h\<lparr>h_dcs := None\<rparr>)" by (rule aside_step(11) [OF ok]) simp
  have "step h (push_response r (h\<lparr>h_dcs := None\<rparr>))" for r using step_trans [OF n aside_step(7) [OF stepD(1) [OF n]]] .
  then show "step h (dcs_unhook h)" using step_refl [OF ok] n by (simp add: dcs_unhook_def Let_def split: option.split)
qed

text \<open>The callbacks that show a new frame at once: the end of synchronized output and the full reset.\<close>

fun releases :: "vt_action \<Rightarrow> bool" where
  "releases (Csi groups marks ignore action) \<longleftrightarrow> \<not> ignore \<and> action = key CHR ''l'' \<and> marks = ascii ''?'' \<and> 2026 \<in> set (concat groups)"
| "releases (Esc marks ignore byte) \<longleftrightarrow> \<not> ignore \<and> marks = [] \<and> byte = key CHR ''c''"
| "releases _ \<longleftrightarrow> False"

lemma perform_follows:
  assumes ok: "vt_ok h"
  shows "follows (\<not> releases a) h (perform E a h)"
proof (cases a)
  case (Print ch)
  then show ?thesis using execute_safe [OF ok] write_char_safe [OF ok] by (auto simp: print_char_def intro: safe_follows)
next
  case (Execute b)
  then show ?thesis using execute_safe [OF ok] by (auto intro: safe_follows)
next
  case (Csi groups marks ignore action)
  then show ?thesis using csi_dispatch_follows [OF ok] by simp
next
  case (Esc marks ignore byte)
  then show ?thesis using esc_dispatch_follows [OF ok] by simp
next
  case (Osc params bell)
  then show ?thesis using osc_dispatch_safe [OF ok] by (auto intro: safe_follows)
qed (use dcs_step [OF ok] in \<open>auto intro!: safe_follows\<close>)

lemma perform_all_follows: "vt_ok h \<Longrightarrow> follows (list_all (\<lambda>a. \<not> releases a) as) h (perform_all E as h)"
proof (induction as arbitrary: h)
  case Nil
  then show ?case using step_refl by (auto intro: safe_follows)
next
  case (Cons a as)
  have weak: "follows s k r \<Longrightarrow> (t \<Longrightarrow> s) \<Longrightarrow> follows t k r" for s t k r by (auto simp: follows_def)
  have "follows (list_all (\<lambda>a. \<not> releases a) (a # as)) h (perform E a h)"
    by (rule weak [OF perform_follows [OF Cons.prems]]) simp
  moreover have "follows (list_all (\<lambda>a. \<not> releases a) (a # as)) k (perform_all E as k)" if "vt_ok k" for k
    by (rule weak [OF Cons.IH [OF that]]) simp
  ultimately show ?case by (simp add: follows_bind)
qed

end
