(* ===== verification/Vt_Scan.thy ===== *)
theory Vt_Scan
  imports Vt_Kitty Vt_Status "HOL-Library.Monad_Syntax"
begin

text \<open>
  The two scanners that look at a pane's raw output beside the escape sequence parser, and what they
  find: picture commands (\<^verbatim>\<open>shux-vt/src/graphics/apc.rs\<close>), program status reports and command boundaries
  (\<^verbatim>\<open>shux-vt/src/program_status.rs\<close>, \<^verbatim>\<open>shux-vt/src/commands.rs\<close>).

  Both jump from one interesting byte to the next with \<^verbatim>\<open>memchr\<close>.  What they find is what a scanner that
  reads byte by byte finds, and so does not depend on how the output was cut into reads.
\<close>

section \<open>Byte by byte\<close>

fun run_bytes :: "(nat \<Rightarrow> 's \<Rightarrow> 'c option \<times> 's) \<Rightarrow> usize \<Rightarrow> bytes \<Rightarrow> 's \<Rightarrow> (usize \<times> 'c) list \<times> 's" where
  "run_bytes f i [] s = ([], s)"
| "run_bytes f i (b # bs) s =
     (let (c, s) = f b s; (cuts, s) = run_bytes f (i + 1) bs s
      in ((case c of Some x \<Rightarrow> [(i + 1, x)] | None \<Rightarrow> []) @ cuts, s))"

lemma run_bytes_append:
  "run_bytes f i (xs @ ys) s =
     (let (c, s) = run_bytes f i xs s; (d, s) = run_bytes f (i + length xs) ys s in (c @ d, s))"
  by (induction xs arbitrary: i s) (auto simp: Let_def split: prod.splits)

lemma run_bytes_shift: "run_bytes f (i + k) xs s = (map (\<lambda>(e, x). (e + k, x)) (fst (run_bytes f i xs s)), snd (run_bytes f i xs s))"
proof (induction xs arbitrary: i s)
  case (Cons b bs)
  obtain c s' where f: "f b s = (c, s')" by fastforce
  show ?case using Cons.IH [of "i + 1" s'] f by (cases c) (auto simp: Let_def split: prod.splits)
qed simp

text \<open>Bytes that find nothing are one step.\<close>

lemma run_bytes_quiet:
  assumes "\<And>s b. Q s \<Longrightarrow> b \<in> set xs \<Longrightarrow> f b s = (None, g b s) \<and> Q (g b s)" "Q s"
  shows "run_bytes f i xs s = ([], fold g xs s)"
  using assms by (induction xs arbitrary: i s) (auto simp: Let_def split: prod.splits)

lemma fold_id_when [simp]: "fold (\<lambda>b s. s) xs s = s"
  by (induction xs) auto

text \<open>What a scanner promises: on a state it can be in, one call is its bytes in turn.\<close>

locale byte_scanner =
  fixes scan :: "bytes \<Rightarrow> 's \<Rightarrow> (usize \<times> 'c) list \<times> 's" and byte :: "nat \<Rightarrow> 's \<Rightarrow> 'c option \<times> 's" and ok :: "'s \<Rightarrow> bool"
  assumes scan_is_bytes: "ok s \<Longrightarrow> scan chunk s = run_bytes byte 0 chunk s"
    and byte_ok: "ok s \<Longrightarrow> ok (snd (byte b s))"
begin

lemma bytes_ok: "ok s \<Longrightarrow> ok (snd (run_bytes byte i xs s))"
proof (induction xs arbitrary: i s)
  case (Cons b bs)
  obtain c s' where b: "byte b s = (c, s')" by fastforce
  then have "ok s'" using byte_ok [OF Cons.prems, of b] by simp
  then show ?case using Cons.IH [of s' "i + 1"] b by (auto simp: Let_def split: prod.splits)
qed simp

lemma scan_ok: "ok s \<Longrightarrow> ok (snd (scan chunk s))"
  using bytes_ok scan_is_bytes by simp

text \<open>One read or two: the same finds, at the same places in the stream.\<close>

lemma scan_append:
  assumes "ok s"
  shows "scan (xs @ ys) s =
    (let (c, s) = scan xs s; (d, s) = scan ys s in (c @ map (\<lambda>(e, x). (e + length xs, x)) d, s))"
proof -
  have "ok (snd (run_bytes byte 0 xs s))" by (rule bytes_ok [OF assms])
  then show ?thesis using scan_is_bytes [OF assms] scan_is_bytes [of "snd (run_bytes byte 0 xs s)"] run_bytes_shift [of byte 0 "length xs" ys]
    by (auto simp: run_bytes_append Let_def split: prod.splits)
qed

end

section \<open>Picture commands\<close>

definition MAX_APC_BODY_BYTES :: usize where "MAX_APC_BODY_BYTES = 64 * 1024"

datatype apc_state = ApcGround | ApcGroundEsc | ApcBody | ApcEsc

record apc_scanner =
  ap_state :: apc_state
  ap_body :: bytes
  ap_overflowed :: bool

definition apc_scanner_new :: apc_scanner where
  "apc_scanner_new = \<lparr>ap_state = ApcGround, ap_body = [], ap_overflowed = False\<rparr>"

definition apc_begin :: "apc_scanner \<Rightarrow> apc_scanner" where
  "apc_begin s = s\<lparr>ap_state := ApcBody, ap_body := [], ap_overflowed := False\<rparr>"

definition apc_abort :: "apc_scanner \<Rightarrow> apc_scanner" where
  "apc_abort s = s\<lparr>ap_state := ApcGround, ap_body := [], ap_overflowed := False\<rparr>"

definition apc_push_span :: "bytes \<Rightarrow> apc_scanner \<Rightarrow> apc_scanner" where
  "apc_push_span span s =
     (if ap_overflowed s then s
      else if MAX_APC_BODY_BYTES < length (ap_body s) + length span then s\<lparr>ap_body := [], ap_overflowed := True\<rparr>
      else s\<lparr>ap_body := ap_body s @ span\<rparr>)"

definition stays_in_escape :: "nat \<Rightarrow> bool" where
  "stays_in_escape b \<longleftrightarrow> b \<le> 0x17 \<or> b = 0x19 \<or> 0x1b \<le> b \<and> b \<le> 0x1f \<or> 0x7f \<le> b"

function apc_scan_slow :: "usize \<Rightarrow> bytes \<Rightarrow> apc_scanner \<Rightarrow> (usize \<times> bytes) list \<times> apc_scanner" where
  "apc_scan_slow i chunk s =
     (if chunk = [] then ([], s)
      else case ap_state s of
        ApcGround \<Rightarrow>
          (case position (\<lambda>b. b = 0x1b) chunk of
             Some off \<Rightarrow> apc_scan_slow (i + off + 1) (drop (off + 1) chunk) (s\<lparr>ap_state := ApcGroundEsc\<rparr>)
           | None \<Rightarrow> ([], s))
      | ApcBody \<Rightarrow>
          (case position (\<lambda>b. b = 0x1b \<or> b = 0x18 \<or> b = 0x1a) chunk of
             Some off \<Rightarrow>
               let s = apc_push_span (take off chunk) s
               in apc_scan_slow (i + off + 1) (drop (off + 1) chunk)
                    (if chunk ! off = 0x1b then s\<lparr>ap_state := ApcEsc\<rparr> else apc_abort s)
           | None \<Rightarrow> ([], apc_push_span chunk s))
      | ApcGroundEsc \<Rightarrow>
          let b = hd chunk
          in apc_scan_slow (i + 1) (tl chunk)
               (if b = 95 then apc_begin s else if stays_in_escape b then s else s\<lparr>ap_state := ApcGround\<rparr>)
      | ApcEsc \<Rightarrow>
          let b = hd chunk;
              found = (if b = 92 \<and> \<not> ap_overflowed s then [(i + 1, ap_body s)] else []);
              (cuts, s) = apc_scan_slow (i + 1) (tl chunk)
                (if b = 92 then apc_abort s else if b = 95 then apc_begin s else if stays_in_escape b then s else apc_abort s)
          in (found @ cuts, s))"
  by pat_completeness auto
termination by (relation "measure (\<lambda>(i, chunk, s). length chunk)") (auto dest: position_Some)

declare apc_scan_slow.simps [simp del]

definition apc_scan :: "bytes \<Rightarrow> apc_scanner \<Rightarrow> (usize \<times> bytes) list \<times> apc_scanner" where
  "apc_scan chunk s =
     (if ap_state s = ApcGround \<and> position (\<lambda>b. b = 0x1b) chunk = None then ([], s) else apc_scan_slow 0 chunk s)"

subsection \<open>The same, one byte at a time\<close>

definition apc_byte :: "nat \<Rightarrow> apc_scanner \<Rightarrow> bytes option \<times> apc_scanner" where
  "apc_byte b s =
     (case ap_state s of
        ApcGround \<Rightarrow> (None, if b = 0x1b then s\<lparr>ap_state := ApcGroundEsc\<rparr> else s)
      | ApcBody \<Rightarrow> (None, if b = 0x1b then s\<lparr>ap_state := ApcEsc\<rparr> else if b = 0x18 \<or> b = 0x1a then apc_abort s else apc_push_span [b] s)
      | ApcGroundEsc \<Rightarrow> (None, if b = 95 then apc_begin s else if stays_in_escape b then s else s\<lparr>ap_state := ApcGround\<rparr>)
      | ApcEsc \<Rightarrow>
          (if b = 92 \<and> \<not> ap_overflowed s then Some (ap_body s) else None,
           if b = 92 then apc_abort s else if b = 95 then apc_begin s else if stays_in_escape b then s else apc_abort s))"

definition apc_ok :: "apc_scanner \<Rightarrow> bool" where
  "apc_ok s \<longleftrightarrow> length (ap_body s) \<le> MAX_APC_BODY_BYTES \<and> (ap_overflowed s \<longrightarrow> ap_body s = [])"

lemma apc_push_simps [simp]:
  "ap_state (apc_push_span xs s) = ap_state s" "apc_ok s \<Longrightarrow> apc_ok (apc_push_span xs s)" "apc_ok s \<Longrightarrow> apc_push_span [] s = s"
  by (auto simp: apc_push_span_def apc_ok_def)

lemma apc_byte_ok: "apc_ok s \<Longrightarrow> apc_ok (snd (apc_byte b s))"
  by (auto simp: apc_byte_def apc_begin_def apc_abort_def split: apc_state.split) (auto simp: apc_ok_def)

lemma apc_push_fold: "apc_ok s \<Longrightarrow> fold (\<lambda>b. apc_push_span [b]) xs s = apc_push_span xs s"
proof (induction xs arbitrary: s)
  case (Cons b bs)
  then show ?case by (auto simp: apc_push_span_def apc_ok_def)
qed simp

lemma apc_body_quiet:
  assumes "\<forall>b \<in> set xs. b \<noteq> 0x1b \<and> b \<noteq> 0x18 \<and> b \<noteq> 0x1a" "ap_state s = ApcBody" "apc_ok s"
  shows "run_bytes apc_byte i xs s = ([], apc_push_span xs s)"
  using run_bytes_quiet [of "\<lambda>s. ap_state s = ApcBody" xs apc_byte "\<lambda>b. apc_push_span [b]" s i] assms
  by (simp add: apc_push_fold apc_byte_def)

lemma apc_ground_quiet:
  assumes "\<forall>b \<in> set xs. b \<noteq> 0x1b" "ap_state s = ApcGround"
  shows "run_bytes apc_byte i xs s = ([], s)"
  using run_bytes_quiet [of "\<lambda>s. ap_state s = ApcGround" xs apc_byte "\<lambda>b s. s" s i] assms
  by (simp add: apc_byte_def)

lemma position_split:
  assumes "position P xs = Some k"
  shows "xs = take k xs @ xs ! k # drop (k + 1) xs" "P (xs ! k)" "\<forall>x \<in> set (take k xs). \<not> P x" "length (take k xs) = k"
  using position_Some [OF assms] by (auto simp: id_take_nth_drop [symmetric] in_set_conv_nth)

lemma apc_scan_slow_bytes: "apc_ok s \<Longrightarrow> apc_scan_slow i chunk s = run_bytes apc_byte i chunk s"
proof (induction i chunk s rule: apc_scan_slow.induct)
  case (1 i chunk s)
  note ok = "1.prems"
  show ?case
  proof (cases chunk)
    case Nil
    then show ?thesis by (simp add: apc_scan_slow.simps)
  next
    case (Cons b bs)
    then have ne: "chunk \<noteq> []" by simp
    show ?thesis
    proof (cases "ap_state s")
      case ApcGround
      show ?thesis
      proof (cases "position (\<lambda>b. b = 0x1b) chunk")
        case None
        then have "\<forall>b \<in> set chunk. b \<noteq> 0x1b" by (simp add: position_None)
        then show ?thesis using None ne ApcGround apc_ground_quiet by (simp add: apc_scan_slow.simps [of i chunk])
      next
        case (Some off)
        let ?s = "s\<lparr>ap_state := ApcGroundEsc\<rparr>"
        note p = position_split [OF Some]
        have "run_bytes apc_byte i chunk s = run_bytes apc_byte (i + off + 1) (drop (off + 1) chunk) ?s"
          using p ApcGround apc_ground_quiet [of "take off chunk" s i]
          by (subst p(1), subst run_bytes_append) (auto simp: apc_byte_def Let_def split: prod.splits)
        moreover have "apc_ok ?s" using ok by (simp add: apc_ok_def)
        ultimately show ?thesis using 1(1) [OF ne ApcGround Some] ne ApcGround Some by (simp add: apc_scan_slow.simps [of i chunk])
      qed
    next
      case ApcBody
      show ?thesis
      proof (cases "position (\<lambda>b. b = 0x1b \<or> b = 0x18 \<or> b = 0x1a) chunk")
        case None
        then have "\<forall>b \<in> set chunk. b \<noteq> 0x1b \<and> b \<noteq> 0x18 \<and> b \<noteq> 0x1a" by (simp add: position_None)
        then show ?thesis using None ne ApcBody apc_body_quiet ok by (simp add: apc_scan_slow.simps [of i chunk])
      next
        case (Some off)
        let ?p = "apc_push_span (take off chunk) s"
        let ?s = "if chunk ! off = 0x1b then ?p\<lparr>ap_state := ApcEsc\<rparr> else apc_abort ?p"
        note p = position_split [OF Some]
        have "run_bytes apc_byte i chunk s = run_bytes apc_byte (i + off + 1) (drop (off + 1) chunk) ?s"
          using p ApcBody apc_body_quiet [of "take off chunk" s i] ok
          by (subst p(1), subst run_bytes_append) (auto simp: apc_byte_def Let_def split: prod.splits)
        moreover have "apc_ok ?s" using apc_push_simps(2) [OF ok, of "take off chunk"] by (auto simp: apc_ok_def apc_abort_def)
        ultimately show ?thesis using 1(3) [OF ne ApcBody Some refl] ne ApcBody Some by (simp add: apc_scan_slow.simps [of i chunk] Let_def)
      qed
    next
      case ApcGroundEsc
      have "apc_byte b s = (None, if b = 95 then apc_begin s else if stays_in_escape b then s else s\<lparr>ap_state := ApcGround\<rparr>)"
        using ApcGroundEsc by (simp add: apc_byte_def)
      then show ?thesis using 1(2) [OF ne ApcGroundEsc refl, unfolded Cons list.sel] apc_byte_ok [OF ok, of b] ApcGroundEsc Cons
        by (cases "b = 95"; cases "stays_in_escape b") (simp_all add: apc_scan_slow.simps [of i "c # cs" for c cs] Let_def split: prod.splits)
    next
      case ApcEsc
      have "apc_byte b s = (if b = 92 \<and> \<not> ap_overflowed s then Some (ap_body s) else None,
          if b = 92 then apc_abort s else if b = 95 then apc_begin s else if stays_in_escape b then s else apc_abort s)"
        using ApcEsc by (simp add: apc_byte_def)
      then show ?thesis using 1(4) [OF ne ApcEsc refl refl, unfolded Cons list.sel] apc_byte_ok [OF ok, of b] ApcEsc Cons
        by (cases "b = 92"; cases "b = 95"; cases "stays_in_escape b") (simp_all add: apc_scan_slow.simps [of i "c # cs" for c cs] Let_def split: prod.splits)
    qed
  qed
qed

interpretation apc: byte_scanner apc_scan apc_byte apc_ok
proof unfold_locales
  fix s chunk assume ok: "apc_ok s"
  show "apc_scan chunk s = run_bytes apc_byte 0 chunk s"
    using apc_scan_slow_bytes [OF ok] apc_ground_quiet by (auto simp: apc_scan_def position_None)
qed (rule apc_byte_ok)

section \<open>Status reports and command boundaries\<close>

datatype cut_action = ReportCut bytes bool | PromptStart | CommandStart | CommandEnd "int option"

definition POISONED_PREFIX :: usize where "POISONED_PREFIX = 24"

datatype osc_state = OscGround | OscEscape | OscBody | OscEsc

record osc_scanner =
  os_state :: osc_state
  os_body :: bytes
  os_raw_len :: usize
  os_poisoned :: bool

definition osc_scanner_new :: osc_scanner where
  "osc_scanner_new = \<lparr>os_state = OscGround, os_body = [], os_raw_len = 0, os_poisoned = False\<rparr>"

definition strip_prefix :: "bytes \<Rightarrow> bytes \<Rightarrow> bytes option" where
  "strip_prefix p s = (if take (length p) s = p then Some (drop (length p) s) else None)"

text \<open>\<open>parse::<i32>\<close> of a field that is known to be decimal digits behind at most one minus sign.\<close>

definition exit_field :: "bytes \<Rightarrow> bool \<Rightarrow> int option" where
  "exit_field body truncated =
     do {
       rest \<leftarrow> strip_prefix (ascii ''133;D;'') body;
       let stop = position (\<lambda>b. b = 59) rest;
       (if truncated \<and> stop = None then None
        else
          let field = take (case stop of Some k \<Rightarrow> k | None \<Rightarrow> length rest) rest;
              digits = (case strip_prefix [45] field of Some d \<Rightarrow> d | None \<Rightarrow> field)
          in if digits = [] \<or> \<not> list_all (\<lambda>b. 48 \<le> b \<and> b \<le> 57) digits then None
             else
               let n = undecimal 0 digits
               in if take 1 field = [45] then (if n \<le> 2 ^ 31 then Some (- int n) else None)
                  else (if n < 2 ^ 31 then Some (int n) else None))
     }"

definition classify :: "bytes \<Rightarrow> bool \<Rightarrow> cut_action option" where
  "classify body bel =
     (case strip_prefix (ascii ''7501;'') body of
        Some payload \<Rightarrow> Some (ReportCut payload bel)
      | None \<Rightarrow>
          (case strip_prefix (ascii ''133;'') body of
             Some (mark # params) \<Rightarrow>
               if \<not> (params = [] \<or> take 1 params = [59]) then None
               else if mark = 65 then Some PromptStart
               else if mark = 67 then Some CommandStart
               else if mark = 68 then Some (CommandEnd (exit_field body False))
               else None
           | _ \<Rightarrow> None))"

definition osc_reset :: "osc_state \<Rightarrow> osc_scanner \<Rightarrow> osc_scanner" where
  "osc_reset state s = s\<lparr>os_state := state, os_body := [], os_raw_len := 0, os_poisoned := False\<rparr>"

definition osc_begin :: "osc_scanner \<Rightarrow> osc_scanner" where
  "osc_begin s = (osc_reset OscBody s)\<lparr>os_raw_len := 2\<rparr>"

definition osc_kept :: "nat \<Rightarrow> bool" where
  "osc_kept b \<longleftrightarrow> \<not> (b \<le> 0x06 \<or> 0x08 \<le> b \<and> b \<le> 0x17 \<or> b = 0x19 \<or> 0x1c \<le> b \<and> b \<le> 0x1f)"

definition osc_take_body :: "bytes \<Rightarrow> osc_scanner \<Rightarrow> osc_scanner" where
  "osc_take_body span s0 =
     (let s = s0\<lparr>os_raw_len := sat_add_usize (os_raw_len s0) (length span)\<rparr>; kept = filter osc_kept span
      in if os_poisoned s \<or> MAX_SEQUENCE_BYTES < os_raw_len s
         then (let body = take POISONED_PREFIX (os_body s)
               in s\<lparr>os_body := body @ take (POISONED_PREFIX - length body) kept, os_poisoned := True\<rparr>)
         else s\<lparr>os_body := os_body s @ kept\<rparr>)"

definition osc_finish :: "bool \<Rightarrow> osc_scanner \<Rightarrow> cut_action option \<times> osc_scanner" where
  "osc_finish bel s =
     (if os_poisoned s \<or> MAX_SEQUENCE_BYTES < os_raw_len s
      then (case classify (os_body s) bel of
              Some CommandStart \<Rightarrow> Some CommandStart
            | Some (CommandEnd _) \<Rightarrow> Some (CommandEnd (exit_field (os_body s) (POISONED_PREFIX \<le> length (os_body s))))
            | _ \<Rightarrow> None)
      else classify (os_body s) bel,
      osc_reset OscGround s)"

definition osc_count :: "osc_scanner \<Rightarrow> osc_scanner" where
  "osc_count s = s\<lparr>os_raw_len := sat_add_usize (os_raw_len s) 1\<rparr>"

text \<open>CAN and SUB are looked for only before the first BEL or ESC.\<close>

definition osc_stop :: "bytes \<Rightarrow> usize option" where
  "osc_stop rest =
     (let stop = position (\<lambda>b. b = 0x07 \<or> b = 0x1b) rest;
          window = take (case stop of Some k \<Rightarrow> k | None \<Rightarrow> length rest) rest
      in case position (\<lambda>b. b = 0x18 \<or> b = 0x1a) window of Some k \<Rightarrow> Some k | None \<Rightarrow> stop)"

lemma position_or:
  "(let stop = position P xs in case position Q (take (case stop of Some k \<Rightarrow> k | None \<Rightarrow> length xs) xs) of Some k \<Rightarrow> Some k | None \<Rightarrow> stop) =
     position (\<lambda>b. P b \<or> Q b) xs"
  by (induction xs) (auto simp: Let_def split: option.splits)

lemma osc_stop_position: "osc_stop rest = position (\<lambda>b. (b = 0x07 \<or> b = 0x1b) \<or> b = 0x18 \<or> b = 0x1a) rest"
  unfolding osc_stop_def Let_def using position_or [of "\<lambda>b. b = 0x07 \<or> b = 0x1b" rest "\<lambda>b. b = 0x18 \<or> b = 0x1a"] by (simp add: Let_def)

function osc_scan_loop :: "usize \<Rightarrow> bytes \<Rightarrow> osc_scanner \<Rightarrow> (usize \<times> cut_action) list \<times> osc_scanner" where
  "osc_scan_loop i chunk s =
     (if chunk = [] then ([], s)
      else case os_state s of
        OscGround \<Rightarrow>
          (case position (\<lambda>b. b = 0x1b) chunk of
             Some off \<Rightarrow> osc_scan_loop (i + off + 1) (drop (off + 1) chunk) (s\<lparr>os_state := OscEscape\<rparr>)
           | None \<Rightarrow> ([], s))
      | OscEscape \<Rightarrow>
          let b = hd chunk
          in osc_scan_loop (i + 1) (tl chunk)
               (if b = 93 then osc_begin s else if stays_in_escape b then s else s\<lparr>os_state := OscGround\<rparr>)
      | OscBody \<Rightarrow>
          (case osc_stop chunk of
             Some off \<Rightarrow>
               let s = osc_count (osc_take_body (take off chunk) s); b = chunk ! off;
                   (action, s) = (if b = 0x07 then osc_finish True s
                                  else (None, if b = 0x1b then s\<lparr>os_state := OscEsc\<rparr> else osc_reset OscGround s));
                   (cuts, s) = osc_scan_loop (i + off + 1) (drop (off + 1) chunk) s
               in ((case action of Some a \<Rightarrow> [(i + off + 1, a)] | None \<Rightarrow> []) @ cuts, s)
           | None \<Rightarrow> ([], osc_take_body chunk s))
      | OscEsc \<Rightarrow>
          if hd chunk = 92 then
            let (action, s) = osc_finish False (osc_count s); (cuts, s) = osc_scan_loop (i + 1) (tl chunk) s
            in ((case action of Some a \<Rightarrow> [(i + 1, a)] | None \<Rightarrow> []) @ cuts, s)
          else osc_scan_loop i chunk (osc_reset OscEscape s))"
  by pat_completeness auto
termination
  by (relation "measure (\<lambda>(i, chunk, s). 2 * length chunk + (if os_state s = OscEsc then 1 else 0))")
    (auto simp: osc_reset_def osc_begin_def osc_stop_position dest!: position_Some)

declare osc_scan_loop.simps [simp del]

definition osc_scan :: "bytes \<Rightarrow> osc_scanner \<Rightarrow> (usize \<times> cut_action) list \<times> osc_scanner" where
  "osc_scan chunk s =
     (if os_state s = OscGround \<and> position (\<lambda>b. b = 0x1b) chunk = None then ([], s) else osc_scan_loop 0 chunk s)"

subsection \<open>The same, one byte at a time\<close>

definition osc_escape_byte :: "nat \<Rightarrow> osc_scanner \<Rightarrow> osc_scanner" where
  "osc_escape_byte b s = (if b = 93 then osc_begin s else if stays_in_escape b then s else s\<lparr>os_state := OscGround\<rparr>)"

definition osc_byte :: "nat \<Rightarrow> osc_scanner \<Rightarrow> cut_action option \<times> osc_scanner" where
  "osc_byte b s =
     (case os_state s of
        OscGround \<Rightarrow> (None, if b = 0x1b then s\<lparr>os_state := OscEscape\<rparr> else s)
      | OscEscape \<Rightarrow> (None, osc_escape_byte b s)
      | OscBody \<Rightarrow>
          if b = 0x07 then osc_finish True (osc_count s)
          else if b = 0x1b then (None, (osc_count s)\<lparr>os_state := OscEsc\<rparr>)
          else if b = 0x18 \<or> b = 0x1a then (None, osc_reset OscGround s)
          else (None, osc_take_body [b] s)
      | OscEsc \<Rightarrow>
          if b = 92 then osc_finish False (osc_count s) else (None, osc_escape_byte b (osc_reset OscEscape s)))"

definition osc_ok :: "osc_scanner \<Rightarrow> bool" where
  "osc_ok s \<longleftrightarrow> (os_poisoned s \<longrightarrow> length (os_body s) \<le> POISONED_PREFIX) \<and>
     (os_state s = OscBody \<longrightarrow> os_poisoned s \<or> os_raw_len s \<le> MAX_SEQUENCE_BYTES) \<and> os_raw_len s \<le> usize_max"

lemma sequence_limit: "MAX_SEQUENCE_BYTES < usize_max"
  by (simp add: MAX_SEQUENCE_BYTES_def usize_max_def)

lemma osc_take_simps [simp]: "os_state (osc_take_body xs s) = os_state s" "osc_ok s \<Longrightarrow> osc_ok (osc_take_body xs s)"
  by (auto simp: osc_take_body_def osc_ok_def sat_add_usize_def Let_def min_def)

lemma osc_take_nil: "osc_ok s \<Longrightarrow> os_state s = OscBody \<Longrightarrow> osc_take_body [] s = s"
  by (cases s) (auto simp: osc_take_body_def osc_ok_def sat_add_usize_def Let_def)

lemma osc_take_append:
  assumes "osc_ok s"
  shows "osc_take_body (xs @ ys) s = osc_take_body ys (osc_take_body xs s)"
proof -
  have r: "sat_add_usize (sat_add_usize a b) c = sat_add_usize a (b + c)" for a b c by (simp add: sat_add_usize_def)
  let ?x = "sat_add_usize (os_raw_len s) (length xs)" and ?xy = "sat_add_usize (os_raw_len s) (length xs + length ys)"
  have mono: "MAX_SEQUENCE_BYTES < ?x \<Longrightarrow> MAX_SEQUENCE_BYTES < ?xy" by (auto simp: sat_add_usize_def)
  show ?thesis
  proof (cases "os_poisoned s \<or> MAX_SEQUENCE_BYTES < ?x")
    case True
    then have "os_poisoned s \<or> MAX_SEQUENCE_BYTES < ?xy" using mono by blast
    then show ?thesis using True by (simp add: osc_take_body_def Let_def r min_def)
  next
    case False
    then show ?thesis by (simp add: osc_take_body_def Let_def r min_def)
  qed
qed

lemma osc_take_fold: "osc_ok s \<Longrightarrow> os_state s = OscBody \<Longrightarrow> fold (\<lambda>b. osc_take_body [b]) xs s = osc_take_body xs s"
proof (induction xs arbitrary: s)
  case (Cons b bs)
  then show ?case using osc_take_append [OF Cons.prems(1), of "[b]" bs] by simp
qed (simp add: osc_take_nil)

lemma osc_byte_ok: "osc_ok s \<Longrightarrow> osc_ok (snd (osc_byte b s))"
proof (cases "os_state s")
  case OscBody
  assume ok: "osc_ok s"
  then have "osc_ok (osc_take_body [b] s)" by simp
  then show ?thesis using OscBody ok by (auto simp: osc_byte_def osc_finish_def osc_reset_def osc_count_def)
      (auto simp: osc_ok_def sat_add_usize_def)
qed (auto simp: osc_byte_def osc_ok_def osc_escape_byte_def osc_begin_def osc_reset_def osc_finish_def MAX_SEQUENCE_BYTES_def usize_max_def)

lemma osc_body_quiet:
  assumes "\<forall>b \<in> set xs. \<not> ((b = 0x07 \<or> b = 0x1b) \<or> b = 0x18 \<or> b = 0x1a)" "os_state s = OscBody" "osc_ok s"
  shows "run_bytes osc_byte i xs s = ([], osc_take_body xs s)"
  using run_bytes_quiet [of "\<lambda>s. os_state s = OscBody" xs osc_byte "\<lambda>b. osc_take_body [b]" s i] assms
  by (simp add: osc_take_fold osc_byte_def)

lemma osc_ground_quiet:
  assumes "\<forall>b \<in> set xs. b \<noteq> 0x1b" "os_state s = OscGround"
  shows "run_bytes osc_byte i xs s = ([], s)"
  using run_bytes_quiet [of "\<lambda>s. os_state s = OscGround" xs osc_byte "\<lambda>b s. s" s i] assms by (simp add: osc_byte_def)

text \<open>Reading up to a byte at which the quiet stretch ends.\<close>

lemma run_bytes_stop:
  assumes p: "position P chunk = Some off" and q: "run_bytes f i (take off chunk) s = ([], s')" and b: "f (chunk ! off) s' = (c, s'')"
  shows "run_bytes f i chunk s =
    (let (cuts, t) = run_bytes f (i + off + 1) (drop (off + 1) chunk) s'' in ((case c of Some x \<Rightarrow> [(i + off + 1, x)] | None \<Rightarrow> []) @ cuts, t))"
proof -
  note n = position_split [OF p]
  have l: "length (take off chunk) = off" by (rule n(4))
  show ?thesis by (subst n(1), subst run_bytes_append) (simp add: q b Let_def l split: prod.split del: length_take)
qed

lemma osc_scan_loop_bytes: "osc_ok s \<Longrightarrow> osc_scan_loop i chunk s = run_bytes osc_byte i chunk s"
proof (induction i chunk s rule: osc_scan_loop.induct)
  case (1 i chunk s)
  note ok = "1.prems"
  show ?case
  proof (cases chunk)
    case Nil
    then show ?thesis by (simp add: osc_scan_loop.simps)
  next
    case (Cons b bs)
    then have ne: "chunk \<noteq> []" by simp
    note here = osc_scan_loop.simps [of i chunk s]
    show ?thesis
    proof (cases "os_state s")
      case OscGround
      show ?thesis
      proof (cases "position (\<lambda>b. b = 0x1b) chunk")
        case None
        then have "\<forall>b \<in> set chunk. b \<noteq> 0x1b" by (simp add: position_None)
        then show ?thesis using None ne OscGround osc_ground_quiet here by simp
      next
        case (Some off)
        let ?s = "s\<lparr>os_state := OscEscape\<rparr>"
        have q: "run_bytes osc_byte i (take off chunk) s = ([], s)"
          using position_split(3) [OF Some] OscGround osc_ground_quiet by blast
        have "run_bytes osc_byte i chunk s = run_bytes osc_byte (i + off + 1) (drop (off + 1) chunk) ?s"
          by (subst run_bytes_stop [OF Some q, of None ?s])
            (use OscGround position_split(2) [OF Some] in \<open>auto simp: osc_byte_def Let_def split: prod.split\<close>)
        moreover have "osc_ok ?s" using ok by (simp add: osc_ok_def)
        ultimately show ?thesis using 1(1) [OF ne OscGround Some] ne OscGround Some here by simp
      qed
    next
      case OscEscape
      have "osc_byte b s = (None, osc_escape_byte b s)" using OscEscape by (simp add: osc_byte_def)
      then show ?thesis using 1(2) [OF ne OscEscape refl, unfolded Cons list.sel, folded osc_escape_byte_def] osc_byte_ok [OF ok, of b] OscEscape
          here [unfolded Cons list.sel, folded osc_escape_byte_def] Cons
        by (simp add: Let_def split: prod.split)
    next
      case OscBody
      show ?thesis
      proof (cases "osc_stop chunk")
        case None
        then have "\<forall>b \<in> set chunk. \<not> ((b = 0x07 \<or> b = 0x1b) \<or> b = 0x18 \<or> b = 0x1a)" by (simp only: osc_stop_position position_None)
        from osc_body_quiet [OF this OscBody ok] show ?thesis using None ne OscBody here by simp
      next
        case (Some off)
        define k where "k = osc_take_body (take off chunk) s"
        define c where "c = (if chunk ! off = 0x07 then osc_finish True (osc_count k)
          else (None, if chunk ! off = 0x1b then (osc_count k)\<lparr>os_state := OscEsc\<rparr> else osc_reset OscGround (osc_count k)))"
        have p: "position (\<lambda>b. (b = 0x07 \<or> b = 0x1b) \<or> b = 0x18 \<or> b = 0x1a) chunk = Some off" using Some by (simp add: osc_stop_position)
        have q: "run_bytes osc_byte i (take off chunk) s = ([], k)"
          unfolding k_def using position_split(3) [OF p] OscBody osc_body_quiet ok by blast
        have k: "osc_ok k" "os_state k = OscBody" using ok OscBody by (simp_all add: k_def)
        have b: "osc_byte (chunk ! off) k = c"
          using position_split(2) [OF p] k(2) by (auto simp: osc_byte_def c_def osc_reset_def osc_count_def)
        obtain act t where c: "c = (act, t)" by fastforce
        have "osc_ok t" using osc_byte_ok [OF k(1), of "chunk ! off"] b c by simp
        then have "osc_scan_loop (i + off + 1) (drop (off + 1) chunk) t = run_bytes osc_byte (i + off + 1) (drop (off + 1) chunk) t"
          using 1(3) [OF ne OscBody Some refl refl, folded k_def, folded c_def] c by simp
        then show ?thesis using run_bytes_stop [OF p q b [unfolded c]] ne OscBody Some here c
          by (simp add: Let_def k_def [symmetric] c_def [symmetric])
      qed
    next
      case OscEsc
      show ?thesis
      proof (cases "b = 92")
        case True
        obtain act t where f: "osc_finish False (osc_count s) = (act, t)" by fastforce
        have ob: "osc_byte b s = (act, t)" using OscEsc True f by (simp add: osc_byte_def)
        then have "osc_ok t" using osc_byte_ok [OF ok, of b] by simp
        then have "osc_scan_loop (i + 1) bs t = run_bytes osc_byte (i + 1) bs t" using 1(4) [OF ne OscEsc] f Cons True by simp
        then show ?thesis using here OscEsc True f Cons ob by (simp add: Let_def split: prod.split)
      next
        case False
        let ?r = "osc_reset OscEscape s"
        have r: "osc_ok ?r" "os_state ?r = OscEscape" by (simp_all add: osc_ok_def osc_reset_def)
        have "osc_scan_loop i chunk s = run_bytes osc_byte i chunk ?r"
          using here OscEsc False Cons 1(5) [OF ne OscEsc _ r(1)] by simp
        moreover have "osc_byte b ?r = osc_byte b s" using OscEsc False r by (simp add: osc_byte_def)
        ultimately show ?thesis using Cons by simp
      qed
    qed
  qed
qed

interpretation osc: byte_scanner osc_scan osc_byte osc_ok
proof unfold_locales
  fix s chunk assume ok: "osc_ok s"
  show "osc_scan chunk s = run_bytes osc_byte 0 chunk s"
    using osc_scan_loop_bytes [OF ok] osc_ground_quiet by (auto simp: osc_scan_def position_None)
qed (rule osc_byte_ok)

end
