(* ===== verification/Vt_Commands.thy ===== *)
theory Vt_Commands
  imports Vt_Status
begin

text \<open>
  Command boundaries, \<^verbatim>\<open>shux-vt/src/commands.rs\<close>: when a command typed into the shell started and how it
  ended.  Stamps come from the process-wide generation counter, which is threaded through.
\<close>

section \<open>State and operations\<close>

definition KEEP_ENDED :: usize where "KEEP_ENDED = 32"

datatype ended_by = EndedByEnd | EndedByPrompt | EndedByNextCommand

record command_record =
  cr_started :: u64
  cr_ended :: u64
  cr_exit_code :: "int option"
  cr_ended_by :: ended_by

datatype command_lookup = CommandFound command_record | CommandPending | CommandOverrun

record command_boundaries =
  cb_open :: "u64 option"
  cb_ended :: "command_record list"
  cb_dropped_through :: u64

definition cb_new :: command_boundaries where
  "cb_new = \<lparr>cb_open = None, cb_ended = [], cb_dropped_through = 0\<rparr>"

text \<open>The loop that drops the oldest records.\<close>

fun cb_trim :: "command_record list \<Rightarrow> u64 \<Rightarrow> command_record list \<times> u64" where
  "cb_trim [] d = ([], d)"
| "cb_trim (c # cs) d = (if KEEP_ENDED < length (c # cs) then cb_trim cs (cr_started c) else (c # cs, d))"

definition cb_close :: "int option \<Rightarrow> ended_by \<Rightarrow> command_boundaries \<times> u64 \<Rightarrow> command_boundaries \<times> u64" where
  "cb_close exit_code how bc =
     (let (b, counter) = bc
      in case cb_open b of
           None \<Rightarrow> (b, counter)
         | Some started \<Rightarrow>
             let r = \<lparr>cr_started = started, cr_ended = next_generation counter, cr_exit_code = exit_code, cr_ended_by = how\<rparr>;
                 (ended, dropped) = cb_trim (cb_ended b @ [r]) (cb_dropped_through b)
             in (b\<lparr>cb_open := None, cb_ended := ended, cb_dropped_through := dropped\<rparr>, next_generation counter))"

definition cb_on_start :: "command_boundaries \<times> u64 \<Rightarrow> command_boundaries \<times> u64" where
  "cb_on_start bc =
     (let (b, counter) = cb_close None EndedByNextCommand bc
      in (b\<lparr>cb_open := Some (next_generation counter)\<rparr>, next_generation counter))"

definition cb_on_end :: "int option \<Rightarrow> command_boundaries \<times> u64 \<Rightarrow> command_boundaries \<times> u64" where
  "cb_on_end exit_code = cb_close exit_code EndedByEnd"

definition cb_on_prompt :: "command_boundaries \<times> u64 \<Rightarrow> command_boundaries \<times> u64" where
  "cb_on_prompt = cb_close None EndedByPrompt"

definition cb_seen :: "command_boundaries \<Rightarrow> bool" where
  "cb_seen b \<longleftrightarrow> cb_open b \<noteq> None \<or> cb_ended b \<noteq> []"

definition cb_running :: "command_boundaries \<Rightarrow> bool" where
  "cb_running b \<longleftrightarrow> cb_open b \<noteq> None"

definition cb_last_end :: "command_boundaries \<Rightarrow> u64" where
  "cb_last_end b = (if cb_ended b = [] then 0 else cr_ended (last (cb_ended b)))"

definition cb_first_after :: "u64 \<Rightarrow> command_boundaries \<Rightarrow> command_lookup" where
  "cb_first_after floor b =
     (if floor < cb_dropped_through b then CommandOverrun
      else case List.find (\<lambda>c. floor < cr_started c) (cb_ended b) of
             Some c \<Rightarrow> CommandFound c
           | None \<Rightarrow> CommandPending)"

section \<open>Stamps in order\<close>

definition cb_ok :: "u64 \<Rightarrow> command_boundaries \<Rightarrow> bool" where
  "cb_ok counter b \<longleftrightarrow>
     sorted_wrt (<) (map cr_started (cb_ended b)) \<and> length (cb_ended b) \<le> KEEP_ENDED \<and>
     (\<forall>c \<in> set (cb_ended b). cb_dropped_through b < cr_started c \<and> cr_started c < cr_ended c \<and> cr_ended c \<le> counter) \<and>
     cb_dropped_through b \<le> counter \<and>
     (\<forall>s. cb_open b = Some s \<longrightarrow> s \<le> counter \<and> cb_dropped_through b < s \<and> (\<forall>c \<in> set (cb_ended b). cr_ended c < s))"

lemma cb_trim_short: "length cs \<le> KEEP_ENDED \<Longrightarrow> cb_trim cs d = (cs, d)"
  by (cases cs) auto

text \<open>A list one too long loses its oldest record, and only that.\<close>

lemma cb_trim_one: "length cs = KEEP_ENDED \<Longrightarrow> cb_trim (c # cs) d = (cs, cr_started c)"
  by (simp add: cb_trim_short)

lemma stamp_up: "unat counter < 2 ^ 64 - 1 \<Longrightarrow> counter < next_generation counter \<and> unat (next_generation counter) = unat counter + 1" for counter :: u64
  by (simp add: next_generation_def unat_word_ariths word_less_nat_alt)

lemma cb_close_ok:
  assumes ok: "cb_ok counter b" and room: "unat counter < 2 ^ 64 - 1"
  shows "cb_ok (snd (cb_close e how (b, counter))) (fst (cb_close e how (b, counter)))" "cb_open (fst (cb_close e how (b, counter))) = None"
    "counter \<le> snd (cb_close e how (b, counter))" "unat (snd (cb_close e how (b, counter))) \<le> unat counter + 1"
proof -
  note up = stamp_up [OF room]
  let ?bc = "cb_close e how (b, counter)"
  show "cb_open (fst ?bc) = None" by (auto simp: cb_close_def Let_def split: option.splits prod.splits)
  show "counter \<le> snd ?bc" "unat (snd ?bc) \<le> unat counter + 1" using up by (auto simp: cb_close_def Let_def split: option.splits prod.splits)
  show "cb_ok (snd ?bc) (fst ?bc)"
  proof (cases "cb_open b")
    case None
    then show ?thesis using ok by (simp add: cb_close_def)
  next
    case (Some s)
    let ?r = "\<lparr>cr_started = s, cr_ended = next_generation counter, cr_exit_code = e, cr_ended_by = how\<rparr>"
    have s: "s \<le> counter" "cb_dropped_through b < s" "\<And>c. c \<in> set (cb_ended b) \<Longrightarrow> cr_ended c < s" using ok Some by (auto simp: cb_ok_def)
    have o: "sorted_wrt (<) (map cr_started (cb_ended b))" "length (cb_ended b) \<le> KEEP_ENDED"
      "\<And>c. c \<in> set (cb_ended b) \<Longrightarrow> cb_dropped_through b < cr_started c \<and> cr_started c < cr_ended c \<and> cr_ended c \<le> counter"
      using ok by (auto simp: cb_ok_def)
    have new: "cr_started c < s" "cr_ended c \<le> next_generation counter" if "c \<in> set (cb_ended b)" for c
      using o(3) [OF that] s(3) [OF that] up by (auto intro: less_trans order_trans [of _ counter])
    have srt: "sorted_wrt (<) (map cr_started (cb_ended b @ [?r]))" using o(1) new(1) by (simp add: sorted_wrt_append)
    have sn: "s < next_generation counter" using s(1) up by (metis le_less_trans)
    show ?thesis
    proof (cases "length (cb_ended b) = KEEP_ENDED")
      case False
      then have "cb_trim (cb_ended b @ [?r]) (cb_dropped_through b) = (cb_ended b @ [?r], cb_dropped_through b)"
        using o(2) by (intro cb_trim_short) simp
      then show ?thesis using Some o s new srt sn up False
        by (auto simp: cb_close_def cb_ok_def Let_def intro: less_imp_le order_trans)
    next
      case True
      then obtain c0 cs where c: "cb_ended b = c0 # cs" by (cases "cb_ended b") (auto simp: KEEP_ENDED_def)
      then have t: "cb_trim (cb_ended b @ [?r]) (cb_dropped_through b) = (cs @ [?r], cr_started c0)" using True cb_trim_one by simp
      have "\<forall>x \<in> set (cs @ [?r]). cr_started c0 < cr_started x" using srt c by auto
      moreover have "cr_started c0 \<le> next_generation counter" using new [of c0] c sn by (auto intro: less_imp_le less_trans)
      ultimately show ?thesis using Some t o s new srt sn True c
        by (auto simp: cb_close_def cb_ok_def Let_def)
    qed
  qed
qed

lemma cb_start_ok:
  assumes ok: "cb_ok counter b" and room: "unat counter < 2 ^ 64 - 2"
  shows "cb_ok (snd (cb_on_start (b, counter))) (fst (cb_on_start (b, counter)))"
proof -
  obtain b' c' where bc: "cb_close None EndedByNextCommand (b, counter) = (b', c')" by fastforce
  have room': "unat counter < 2 ^ 64 - 1" using room by simp
  note k = cb_close_ok [OF ok room', of None EndedByNextCommand, unfolded bc fst_conv snd_conv]
  have up: "c' < next_generation c'" using stamp_up [of c'] k(4) room by simp
  then have "cb_ok (next_generation c') (b'\<lparr>cb_open := Some (next_generation c')\<rparr>)"
    using k(1) by (auto simp: cb_ok_def intro: order_trans less_imp_le le_less_trans)
  then show ?thesis by (simp add: cb_on_start_def bc)
qed

text \<open>The lookup is exact: the earliest command that started above the floor, unless one of those is gone.\<close>

lemma cb_first_after_exact:
  assumes ok: "cb_ok counter b" and f: "cb_dropped_through b \<le> floor"
  shows "cb_first_after floor b = CommandFound c \<longleftrightarrow>
    c \<in> set (cb_ended b) \<and> floor < cr_started c \<and> (\<forall>d \<in> set (cb_ended b). floor < cr_started d \<longrightarrow> cr_started c \<le> cr_started d)"
proof -
  have srt: "sorted_wrt (<) (map cr_started (cb_ended b))" using ok by (simp add: cb_ok_def)
  have "List.find (\<lambda>c. floor < cr_started c) cs = Some c \<longleftrightarrow>
      c \<in> set cs \<and> floor < cr_started c \<and> (\<forall>d \<in> set cs. floor < cr_started d \<longrightarrow> cr_started c \<le> cr_started d)"
    if "sorted_wrt (<) (map cr_started cs)" for cs
    using that
  proof (induction cs)
    case (Cons x xs)
    then show ?case by (auto simp: not_le dest: less_imp_le)
  qed simp
  from this [OF srt] show ?thesis using f by (auto simp: cb_first_after_def not_less split: option.splits)
qed

end
