(* ===== verification/Vt_Terminal.thy ===== *)
theory Vt_Terminal
  imports Vt_Perform Vt_Scan Vt_Commands
begin

text \<open>
  The virtual terminal, \<open>VirtualTerminal\<close> in \<^verbatim>\<open>shux-vt/src/lib.rs\<close>: construction, one batch of output with the
  replies it queues, pictures, program status, the release of synchronized output, resizing, and what
  the rest of shux reads.

  The escape sequence parser of the \<^verbatim>\<open>vte\<close> crate is a parameter: from its state and the bytes it gets, the
  callbacks in order and its new state.  The two base64 engines are parameters.  Clock readings are
  arguments of the operations that take them.  Row numbers are unchecked \<open>u64\<close> sums in the code; here
  they are natural numbers, which differs only after \<open>2 ^ 64\<close> lines of output.
\<close>

section \<open>State\<close>

record 'p term_env =
  te_vt :: vt_env
  te_vte :: "'p \<Rightarrow> bytes \<Rightarrow> vt_action list \<times> 'p"
  te_status_base64 :: "bytes \<Rightarrow> bytes option"
  te_image_base64 :: "bytes \<Rightarrow> bytes option"

record 'p terminal =
  tm_h :: handler
  tm_parser :: 'p
  tm_apc :: apc_scanner
  tm_cut_slicing :: bool
  tm_osc :: osc_scanner
  tm_commands :: command_boundaries
  tm_disabled_generation :: u64
  tm_refusals :: nat
  tm_assembler :: assembler
  tm_transfer_on_alt :: bool
  tm_opened_ns :: nat
  tm_bytes :: nat
  tm_rows :: usize
  tm_cols :: usize
  tm_revision :: nat
  tm_last_mutation_ns :: nat
  tm_hidden_class_a :: bool

definition SYNC_UPDATE_TIMEOUT_MS :: nat where "SYNC_UPDATE_TIMEOUT_MS = 150"

definition SYNC_UPDATE_MAX_BYTES :: nat where "SYNC_UPDATE_MAX_BYTES = 2 * 1024 * 1024"

definition clamp_dims :: "usize \<Rightarrow> usize \<Rightarrow> usize \<times> usize" where
  "clamp_dims rows cols = (max rows 1, max cols 1)"

definition handler_new :: "usize \<Rightarrow> usize \<Rightarrow> grid_config \<Rightarrow> u64 \<Rightarrow> handler" where
  "handler_new rows cols config counter =
     \<lparr>h_grid = grid_new rows cols config, h_frozen_grid = None, h_cursor = cursor_new, h_frozen_cursor = None,
      h_modes = default_modes, h_region = \<lparr>sr_top = 0, sr_bottom = rows - 1\<rparr>, h_title = None, h_frozen_title = None,
      h_colors = \<lparr>tdc_fg = None, tdc_bg = None, tdc_cursor = None\<rparr>, h_frozen_colors = None, h_alt_grid = None,
      h_alt_cursor = None, h_dcs = None, h_armed = False, h_frozen_alt = None, h_eager = False, h_active = None,
      h_last = None, h_charsets = default_charsets, h_tabs = tabs_new cols, h_responses = [], h_palette_overridden = False,
      h_spare = None, h_reuse = True, h_status = None, h_generation = counter, h_stores = (store_new, store_new)\<rparr>"

definition terminal_with_config :: "'p \<Rightarrow> usize \<Rightarrow> usize \<Rightarrow> grid_config \<Rightarrow> u64 \<Rightarrow> nat \<Rightarrow> 'p terminal" where
  "terminal_with_config parser rows0 cols0 config counter now =
     (let (rows, cols) = clamp_dims rows0 cols0; stamp = next_generation counter
      in \<lparr>tm_h = handler_new rows cols config stamp, tm_parser = parser, tm_apc = apc_scanner_new, tm_cut_slicing = True,
          tm_osc = osc_scanner_new, tm_commands = cb_new, tm_disabled_generation = stamp, tm_refusals = 0,
          tm_assembler = assembler_new, tm_transfer_on_alt = False, tm_opened_ns = 0, tm_bytes = 0, tm_rows = rows,
          tm_cols = cols, tm_revision = 1, tm_last_mutation_ns = now, tm_hidden_class_a = False\<rparr>)"

definition terminal_new :: "'p \<Rightarrow> usize \<Rightarrow> usize \<Rightarrow> u64 \<Rightarrow> nat \<Rightarrow> 'p terminal" where
  "terminal_new parser rows cols = terminal_with_config parser rows cols default_grid_config"

text \<open>Acting on the part that the handler borrows.\<close>

definition on_handler :: "(handler \<Rightarrow> handler) \<Rightarrow> 'p terminal \<Rightarrow> 'p terminal" where
  "on_handler f t = t\<lparr>tm_h := f (tm_h t)\<rparr>"

definition set_apc_cut_slicing :: "bool \<Rightarrow> 'p terminal \<Rightarrow> 'p terminal" where
  "set_apc_cut_slicing enabled t = t\<lparr>tm_cut_slicing := enabled\<rparr>"

definition set_retired_grid_reuse :: "bool \<Rightarrow> 'p terminal \<Rightarrow> 'p terminal" where
  "set_retired_grid_reuse enabled =
     on_handler (\<lambda>h. h\<lparr>h_reuse := enabled, h_spare := if enabled then h_spare h else None\<rparr>)"

definition set_eager_sync_freeze :: "bool \<Rightarrow> 'p terminal \<Rightarrow> 'p terminal" where
  "set_eager_sync_freeze enabled =
     on_handler (\<lambda>h. let h = h\<lparr>h_eager := enabled\<rparr> in if enabled \<and> h_armed h then freeze_whole_presentation h else h)"

section \<open>Releasing synchronized output\<close>

definition record_class_a_batch :: "nat \<Rightarrow> 'p terminal \<Rightarrow> 'p terminal" where
  "record_class_a_batch now t = t\<lparr>tm_revision := sat_add64 (tm_revision t) 1, tm_last_mutation_ns := now\<rparr>"

definition sync_release_reveals_class_a :: "'p terminal \<Rightarrow> bool" where
  "sync_release_reveals_class_a t \<longleftrightarrow>
     tm_hidden_class_a t \<or> h_frozen_grid (tm_h t) \<noteq> None \<or> h_frozen_cursor (tm_h t) \<noteq> None \<or>
     h_frozen_colors (tm_h t) \<noteq> None \<or> h_frozen_alt (tm_h t) \<noteq> None"

definition force_release_sync :: "'p terminal \<Rightarrow> bool \<times> 'p terminal" where
  "force_release_sync t =
     (sync_release_reveals_class_a t \<or> h_frozen_title (tm_h t) \<noteq> None,
      (on_handler (\<lambda>h. mark_live_dirty (on_modes (md_synchronized_output_update (\<lambda>_. False)) (release_sync_presentation h))) t)
        \<lparr>tm_opened_ns := 0, tm_bytes := 0\<rparr>)"

definition sync_window_expired :: "nat \<Rightarrow> 'p terminal \<Rightarrow> bool" where
  "sync_window_expired now t \<longleftrightarrow>
     h_armed (tm_h t) \<and> tm_opened_ns t \<noteq> 0 \<and>
     (SYNC_UPDATE_MAX_BYTES \<le> tm_bytes t \<or> SYNC_UPDATE_TIMEOUT_MS * 1000000 \<le> now - tm_opened_ns t)"

definition release_expired_sync :: "nat \<Rightarrow> nat \<Rightarrow> 'p terminal \<Rightarrow> bool \<times> 'p terminal" where
  "release_expired_sync clock now t =
     (if \<not> sync_window_expired clock t then (False, t)
      else
        let class_a = sync_release_reveals_class_a t;
            (revealed, t) = force_release_sync t;
            t = t\<lparr>tm_hidden_class_a := False\<rparr>
        in (revealed, if class_a then record_class_a_batch now t else t))"

definition sync_output_active :: "'p terminal \<Rightarrow> bool" where
  "sync_output_active t \<longleftrightarrow> h_armed (tm_h t)"

section \<open>Program status\<close>

definition on_status :: "(vt_program_status \<times> u64 \<Rightarrow> vt_program_status \<times> u64) \<Rightarrow> 'p terminal \<Rightarrow> 'p terminal" where
  "on_status f =
     on_handler (\<lambda>h. case h_status h of
                       None \<Rightarrow> h
                     | Some p \<Rightarrow> let (p, counter) = f (p, h_generation h) in h\<lparr>h_status := Some p, h_generation := counter\<rparr>)"

definition on_commands :: "(command_boundaries \<times> u64 \<Rightarrow> command_boundaries \<times> u64) \<Rightarrow> 'p terminal \<Rightarrow> 'p terminal" where
  "on_commands f t =
     (let (b, counter) = f (tm_commands t, h_generation (tm_h t))
      in t\<lparr>tm_commands := b, tm_h := (tm_h t)\<lparr>h_generation := counter\<rparr>\<rparr>)"

fun dispatch_program_status :: "'p term_env \<Rightarrow> cut_action \<Rightarrow> 'p terminal \<Rightarrow> 'p terminal" where
  "dispatch_program_status E CommandStart t = on_commands cb_on_start t"
| "dispatch_program_status E (CommandEnd exit_code) t = on_commands (cb_on_end exit_code) t"
| "dispatch_program_status E PromptStart t = on_status vp_on_prompt_start (on_commands cb_on_prompt t)"
| "dispatch_program_status E (ReportCut payload bel) t =
     on_handler (\<lambda>h. case h_status h of
         None \<Rightarrow> h
       | Some p \<Rightarrow>
           let (reply, p, counter) = vp_on_report (te_status_base64 E) payload (if bel then [7] else [27, 92]) (p, h_generation h);
               h = h\<lparr>h_status := Some p, h_generation := counter\<rparr>
           in case reply of
                Some r \<Rightarrow> if length (h_responses h) < MAX_RESPONSES_PER_BATCH then h\<lparr>h_responses := h_responses h @ [r]\<rparr> else h
              | None \<Rightarrow> h) t"

definition commands_seen :: "'p terminal \<Rightarrow> bool" where
  "commands_seen t = cb_seen (tm_commands t)"

definition command_running :: "'p terminal \<Rightarrow> bool" where
  "command_running t = cb_running (tm_commands t)"

definition command_after :: "u64 \<Rightarrow> 'p terminal \<Rightarrow> command_lookup" where
  "command_after floor t = cb_first_after floor (tm_commands t)"

definition last_command_end :: "'p terminal \<Rightarrow> u64" where
  "last_command_end t = cb_last_end (tm_commands t)"

definition set_program_status_enabled :: "bool \<Rightarrow> 'p terminal \<Rightarrow> 'p terminal" where
  "set_program_status_enabled enabled t =
     (let h = tm_h t
      in if enabled then
           (if h_status h = None
            then (let (p, counter) = vp_new (h_generation h) in t\<lparr>tm_h := h\<lparr>h_status := Some p, h_generation := counter\<rparr>\<rparr>)
            else t)
         else
           let stamp = next_generation (h_generation h)
           in t\<lparr>tm_h := h\<lparr>h_status := None, h_generation := stamp\<rparr>, tm_disabled_generation := stamp\<rparr>)"

definition program_status_enabled :: "'p terminal \<Rightarrow> bool" where
  "program_status_enabled t \<longleftrightarrow> h_status (tm_h t) \<noteq> None"

definition program_status_publication :: "'p terminal \<Rightarrow> status_publication" where
  "program_status_publication t =
     (case h_status (tm_h t) of
        Some p \<Rightarrow> vp_publication p
      | None \<Rightarrow> \<lparr>sp_generation = tm_disabled_generation t, sp_summary = None, sp_seen = False, sp_enabled = False\<rparr>)"

definition program_status_records :: "'p terminal \<Rightarrow> status_records option" where
  "program_status_records t = map_option vp_records (h_status (tm_h t))"

definition note_process_exit :: "'p terminal \<Rightarrow> 'p terminal" where
  "note_process_exit = on_status vp_on_process_exit"

section \<open>Pictures\<close>

definition refuse :: "'p terminal \<Rightarrow> 'p terminal" where
  "refuse t = t\<lparr>tm_refusals := sat_add64 (tm_refusals t) 1\<rparr>"

text \<open>The store of the screen now showing.\<close>

definition on_store :: "(image_store \<Rightarrow> image_store) \<Rightarrow> handler \<Rightarrow> handler" where
  "on_store f h =
     h\<lparr>h_stores := if md_alternate_screen (h_modes h) then (fst (h_stores h), f (snd (h_stores h)))
                   else (f (fst (h_stores h)), snd (h_stores h))\<rparr>"

definition the_store :: "handler \<Rightarrow> image_store" where
  "the_store h = (if md_alternate_screen (h_modes h) then snd (h_stores h) else fst (h_stores h))"

definition first_visible_line :: "handler \<Rightarrow> nat" where
  "first_visible_line h = gr_evicted (h_grid h) + scrollback_len (h_grid h)"

text \<open>A change of the live grid that cannot fail, through \<open>Presented\<close>.\<close>

definition on_live_grid :: "(grid \<Rightarrow> grid) \<Rightarrow> handler \<Rightarrow> handler" where
  "on_live_grid f h0 = (let h = freeze_grid h0 in h\<lparr>h_grid := f (h_grid h)\<rparr>)"

definition covers :: "placement \<Rightarrow> usize option \<Rightarrow> nat option \<Rightarrow> bool" where
  "covers p col row \<longleftrightarrow>
     (let (w, h) = geometry_cells (pl_geometry p)
      in (case col of None \<Rightarrow> True | Some c \<Rightarrow> pl_col p \<le> c \<and> c < pl_col p + w) \<and>
         (case row of None \<Rightarrow> True | Some r \<Rightarrow> pl_abs_row p \<le> r \<and> r < pl_abs_row p + h))"

definition ascii_lower :: "nat \<Rightarrow> nat" where
  "ascii_lower b = (if 65 \<le> b \<and> b \<le> 90 then b + 32 else b)"

definition delete_hits :: "kitty_command \<Rightarrow> nat \<Rightarrow> handler \<Rightarrow> (placement \<Rightarrow> bool) option" where
  "delete_hits cmd target h =
     (let first = first_visible_line h; (x, y, _, _) = kc_src cmd;
          cell_col = (if x = 0 then usize_max else x - 1); cell_row = (if y = 0 then u64_max else first + (y - 1));
          cur_col = cu_col (h_cursor h); cur_row = first + cu_row (h_cursor h);
          i = kc_image_id cmd; pid = kc_placement_id cmd; z = kc_z cmd; k = ascii_lower target
      in if k = 97 then
           Some (\<lambda>p. pl_abs_row p < first + rows_of h \<and> first < pl_abs_row p + snd (geometry_cells (pl_geometry p)))
         else if k = 105 \<and> i \<noteq> 0 then Some (\<lambda>p. pl_image_id p = i \<and> (pid = 0 \<or> pl_placement_id p = pid))
         else if k = 114 \<and> x \<le> y then Some (\<lambda>p. x \<le> pl_image_id p \<and> pl_image_id p \<le> y)
         else if k = 99 then Some (\<lambda>p. covers p (Some cur_col) (Some cur_row))
         else if k = 112 then Some (\<lambda>p. covers p (Some cell_col) (Some cell_row))
         else if k = 113 then Some (\<lambda>p. pl_z p = z \<and> covers p (Some cell_col) (Some cell_row))
         else if k = 120 then Some (\<lambda>p. covers p (Some cell_col) None)
         else if k = 121 then Some (\<lambda>p. covers p None (Some cell_row))
         else if k = 122 then Some (\<lambda>p. pl_z p = z)
         else None)"

definition delete_images :: "kitty_command \<Rightarrow> 'p terminal \<Rightarrow> 'p terminal" where
  "delete_images cmd t =
     (let target = (if kc_delete cmd = 0 then 97 else kc_delete cmd); (x, y, _, _) = kc_src cmd
      in case delete_hits cmd target (tm_h t) of
           None \<Rightarrow> refuse t
         | Some hit \<Rightarrow>
             let removed = fst (unplace_where hit (h_grid (tm_h t)));
                 t = on_handler (on_live_grid (snd \<circ> unplace_where hit)) t;
                 named = (\<lambda>k. if target = 73 then kc_placement_id cmd = 0 \<and> k = kc_image_id cmd
                               else if target = 82 then x \<le> k \<and> k \<le> y
                               else False)
             in if 65 \<le> target \<and> target \<le> 90
                then on_handler (\<lambda>h. on_store (store_retain (\<lambda>k. \<not> (k \<in> set removed \<or> named k) \<or> shows_image (h_grid h) k)) h) t
                else t)"

fun advance_lines :: "nat \<Rightarrow> handler \<Rightarrow> handler" where
  "advance_lines 0 h = h"
| "advance_lines (Suc n) h =
     advance_lines n
       (if rows_of h \<le> cu_row (h_cursor h) + 1 then on_live_grid (scroll_up 0 (rows_of h - 1)) h
        else on_cursor (\<lambda>c. c\<lparr>cu_row := cu_row c + 1\<rparr>) h)"

definition place_image :: "stored_image \<Rightarrow> kitty_command \<Rightarrow> 'p terminal \<Rightarrow> 'p terminal" where
  "place_image im cmd t =
     (let h = tm_h t
      in case geometry_resolve (si_width im, si_height im) (kc_src cmd) (kc_cols cmd, kc_rows cmd) (cols_of h, rows_of h) of
           None \<Rightarrow> t
         | Some geometry \<Rightarrow>
             let (c, r) = geometry_cells geometry; cols = min c (cols_of h); rows = min r (rows_of h)
             in if cols = 0 \<or> rows = 0 then t
                else
                  let p = \<lparr>pl_image = im, pl_abs_row = first_visible_line h + cu_row (h_cursor h), pl_col = cu_col (h_cursor h),
                           pl_image_id = kc_image_id cmd, pl_placement_id = kc_placement_id cmd, pl_z = kc_z cmd,
                           pl_geometry = geometry\<rparr>;
                      accepted = fst (put_placement (h_grid h) p);
                      h = on_live_grid (\<lambda>g. snd (put_placement g p)) h
                  in if \<not> accepted then refuse (t\<lparr>tm_h := h\<rparr>)
                     else if kc_no_cursor_move cmd then t\<lparr>tm_h := h\<rparr>
                     else
                       let target = cu_col (h_cursor h) + cols; wraps = cols_of h \<le> target;
                           h = on_cursor (\<lambda>c. c\<lparr>cu_col := if wraps then 0 else target\<rparr>) h
                       in t\<lparr>tm_h := advance_lines (rows - 1 + (if wraps then 1 else 0)) h\<rparr>)"

text \<open>Transmission, the first arm of \<open>dispatch_graphics\<close>: what an opening drops, and what a finished one does.\<close>

definition open_transfer :: "kitty_command \<Rightarrow> 'p terminal \<Rightarrow> 'p terminal" where
  "open_transfer cmd t0 =
     (if assembler_is_open (tm_assembler t0) then t0
      else
        let t = t0\<lparr>tm_transfer_on_alt := md_alternate_screen (h_modes (tm_h t0))\<rparr>
        in if kc_image_id cmd \<noteq> 0
           then on_handler (on_live_grid (\<lambda>g. snd (unplace_image (kc_image_id cmd) 0 g)))
                  (on_handler (on_store (store_retain (\<lambda>k. k \<noteq> kc_image_id cmd))) t)
           else t)"

definition finish_transfer :: "stored_image \<Rightarrow> kitty_command \<Rightarrow> 'p terminal \<Rightarrow> 'p terminal" where
  "finish_transfer im opening t =
     (if tm_transfer_on_alt t \<noteq> md_alternate_screen (h_modes (tm_h t)) then refuse t
      else
        let t = (if kc_image_id opening \<noteq> 0 then on_handler (on_store (store_insert (kc_image_id opening) im)) t else t)
        in if kc_action opening = TransmitAndPlace then place_image im opening t else t)"

definition transmit_image :: "'p term_env \<Rightarrow> kitty_command \<Rightarrow> bytes \<Rightarrow> 'p terminal \<Rightarrow> 'p terminal" where
  "transmit_image E cmd payload t0 =
     (let t = open_transfer cmd t0;
          (ready, a) = assembler_feed (te_image_base64 E) cmd payload (tm_assembler t);
          t = t\<lparr>tm_assembler := a\<rparr>
      in case ready of None \<Rightarrow> t | Some (im, opening) \<Rightarrow> finish_transfer im opening t)"

definition put_stored_image :: "kitty_command \<Rightarrow> 'p terminal \<Rightarrow> 'p terminal" where
  "put_stored_image cmd t0 =
     (let found = fst (store_get (kc_image_id cmd) (the_store (tm_h t0)));
          t = on_handler (on_store (\<lambda>s. snd (store_get (kc_image_id cmd) s))) t0
      in case found of Some im \<Rightarrow> place_image im cmd t | None \<Rightarrow> refuse t)"

definition abort_transfer :: "'p terminal \<Rightarrow> 'p terminal" where
  "abort_transfer t = t\<lparr>tm_assembler := assembler_abort (tm_assembler t)\<rparr>"

definition dispatch_graphics :: "'p term_env \<Rightarrow> bytes \<Rightarrow> 'p terminal \<Rightarrow> 'p terminal" where
  "dispatch_graphics E body t =
     (if take 1 body \<noteq> [71] then t
      else
        let command = drop 1 body;
            control = takeWhile (\<lambda>b. b \<noteq> 59) command; payload = drop (length control + 1) command
        in case kitty_parse control of
             Err _ \<Rightarrow> abort_transfer (refuse t)
           | Ok cmd \<Rightarrow>
               (case kc_action cmd of
                  Transmit \<Rightarrow> transmit_image E cmd payload t
                | TransmitAndPlace \<Rightarrow> transmit_image E cmd payload t
                | PutImage \<Rightarrow> put_stored_image cmd t
                | DeleteImages \<Rightarrow> abort_transfer (delete_images cmd t)
                | QueryImage \<Rightarrow>
                    if kc_image_id cmd \<noteq> 0
                    then on_handler (\<lambda>h. h\<lparr>h_responses := h_responses h @ [[27] @ ascii ''_Gi='' @ decimal (kc_image_id cmd) @ ascii '';OK'' @ [27, 92]]\<rparr>) t
                    else t
                | Animation \<Rightarrow> t))"

section \<open>A batch of output\<close>

definition advance_slice :: "'p term_env \<Rightarrow> bytes \<Rightarrow> 'p terminal \<Rightarrow> 'p terminal option" where
  "advance_slice E bs t =
     (if bs = [] then Some t
      else
        let (actions, parser) = te_vte E (tm_parser t) bs
        in map_option (\<lambda>h. t\<lparr>tm_h := h, tm_parser := parser\<rparr>) (perform_all (te_vt E) actions (tm_h t)))"

text \<open>The two lists of cuts are merged by position; a picture command goes first at the same one.\<close>

fun run_cuts :: "'p term_env \<Rightarrow> bytes \<Rightarrow> usize \<Rightarrow> (usize \<times> bytes) list \<Rightarrow> (usize \<times> cut_action) list \<Rightarrow> 'p terminal \<Rightarrow> 'p terminal option" where
  "run_cuts E bs at [] [] t = advance_slice E (drop at bs) t"
| "run_cuts E bs at ((e, body) # apc) [] t =
     do { t \<leftarrow> advance_slice E (take (e - at) (drop at bs)) t; run_cuts E bs e apc [] (dispatch_graphics E body t) }"
| "run_cuts E bs at [] ((e, a) # st) t =
     do { t \<leftarrow> advance_slice E (take (e - at) (drop at bs)) t; run_cuts E bs e [] st (dispatch_program_status E a t) }"
| "run_cuts E bs at ((e, body) # apc) ((e', a) # st) t =
     (if e \<le> e'
      then do { t \<leftarrow> advance_slice E (take (e - at) (drop at bs)) t; run_cuts E bs e apc ((e', a) # st) (dispatch_graphics E body t) }
      else do { t \<leftarrow> advance_slice E (take (e' - at) (drop at bs)) t; run_cuts E bs e' ((e, body) # apc) st (dispatch_program_status E a t) })"

definition scan_batch :: "bytes \<Rightarrow> 'p terminal \<Rightarrow> (usize \<times> bytes) list \<times> (usize \<times> cut_action) list \<times> 'p terminal" where
  "scan_batch bs t =
     (let (apc, a) = (if tm_cut_slicing t then apc_scan bs (tm_apc t) else ([], tm_apc t));
          (st, o') = osc_scan bs (tm_osc t);
          st = (if h_status (tm_h t) = None then filter (\<lambda>(e, c). case c of ReportCut _ _ \<Rightarrow> False | _ \<Rightarrow> True) st else st)
      in (apc, st, t\<lparr>tm_apc := a, tm_osc := o'\<rparr>))"

definition default_colors :: "'p terminal \<Rightarrow> terminal_default_colors" where
  "default_colors t = presented_colors (tm_h t)"

definition cursor_signal :: "'p terminal \<Rightarrow> usize \<times> usize \<times> bool" where
  "cursor_signal t = (let c = h_cursor (tm_h t) in (cu_row c, cu_col c, cu_visible c))"

text \<open>The revision after a batch, given what the terminal was like before it, and the deadline's bookkeeping.\<close>

definition settle_revision :: "nat \<Rightarrow> 'p terminal \<Rightarrow> 'p terminal \<Rightarrow> 'p terminal" where
  "settle_revision now before t =
     (let alt = (\<lambda>t. md_alternate_screen (h_modes (tm_h t))); writes = (\<lambda>t. gr_mutations (h_grid (tm_h t)));
          colors_changed = (default_colors t \<noteq> default_colors before);
          other_class_a = (alt t \<noteq> alt before \<or> cursor_signal t \<noteq> cursor_signal before \<or>
                           alt before = alt t \<and> writes t \<noteq> writes before)
      in if h_armed (tm_h t) then
           (let t = (if colors_changed then record_class_a_batch now t else t)
            in if other_class_a then t\<lparr>tm_hidden_class_a := True\<rparr> else t)
         else
           let hidden = tm_hidden_class_a t; t = t\<lparr>tm_hidden_class_a := False\<rparr>
           in if hidden \<or> colors_changed \<or> other_class_a then record_class_a_batch now t else t)"

definition note_deadline :: "nat \<Rightarrow> usize \<Rightarrow> 'p terminal \<Rightarrow> 'p terminal" where
  "note_deadline clock n t =
     (if h_armed (tm_h t)
      then t\<lparr>tm_opened_ns := if tm_opened_ns t = 0 then clock else tm_opened_ns t, tm_bytes := sat_add64 (tm_bytes t) n\<rparr>
      else t\<lparr>tm_opened_ns := 0, tm_bytes := 0\<rparr>)"

definition process_with_responses :: "'p term_env \<Rightarrow> nat \<Rightarrow> nat \<Rightarrow> bytes \<Rightarrow> 'p terminal \<Rightarrow> (bytes list \<times> 'p terminal) option" where
  "process_with_responses E now clock bs t0 =
     (let t = (if h_armed (tm_h t0) \<and> SYNC_UPDATE_MAX_BYTES \<le> tm_bytes t0 then snd (force_release_sync t0) else t0);
          before = t;
          t = on_handler (h_responses_update (\<lambda>_. [])) t;
          (apc, st, t) = scan_batch bs t
      in do {
           t \<leftarrow> (if apc = [] \<and> st = [] then advance_slice E bs t else run_cuts E bs 0 apc st t);
           let t = note_deadline clock (length bs) (settle_revision now before t);
           Some (h_responses (tm_h t), t)
         })"

section \<open>Reading the presented frame\<close>

definition term_grid :: "'p terminal \<Rightarrow> grid" where
  "term_grid t = presented_grid (tm_h t)"

definition term_cursor :: "'p terminal \<Rightarrow> cursor" where
  "term_cursor t = presented_cursor (tm_h t)"

definition term_title :: "'p terminal \<Rightarrow> rstring option" where
  "term_title t = presented_title (tm_h t)"

definition is_alternate_screen :: "'p terminal \<Rightarrow> bool" where
  "is_alternate_screen t = presented_alt (tm_h t)"

definition presented_history_grid :: "'p terminal \<Rightarrow> grid" where
  "presented_history_grid t =
     (let h = tm_h t
      in if (case h_frozen_alt h of Some b \<Rightarrow> b \<noteq> md_alternate_screen (h_modes h) | None \<Rightarrow> False)
         then (case h_alt_grid h of Some g \<Rightarrow> g | None \<Rightarrow> h_grid h)
         else h_grid h)"

definition presented_history_len :: "'p terminal \<Rightarrow> usize" where
  "presented_history_len t =
     (case h_frozen_grid (tm_h t) of
        None \<Rightarrow> scrollback_len (h_grid (tm_h t))
      | Some f \<Rightarrow> fs_history_len f - (gr_evicted (presented_history_grid t) - fs_evicted f))"

definition presented_total_lines :: "'p terminal \<Rightarrow> usize" where
  "presented_total_lines t =
     (case h_frozen_grid (tm_h t) of
        Some f \<Rightarrow> presented_history_len t + total_lines (fs_grid f)
      | None \<Rightarrow> total_lines (h_grid (tm_h t)))"

definition presented_row :: "usize \<Rightarrow> 'p terminal \<Rightarrow> row option" where
  "presented_row idx t =
     (case h_frozen_grid (tm_h t) of
        None \<Rightarrow> grid_row (h_grid (tm_h t)) idx
      | Some f \<Rightarrow>
          let history = presented_history_len t
          in if idx < history then grid_row (presented_history_grid t) idx else grid_row (fs_grid f) (idx - history))"

definition term_is_dirty :: "'p terminal \<Rightarrow> bool" where
  "term_is_dirty t = grid_is_dirty (term_grid t)"

definition term_take_dirty_regions :: "'p terminal \<Rightarrow> dirty_region list \<times> 'p terminal" where
  "term_take_dirty_regions t =
     (let h = tm_h t
      in case h_frozen_grid h of
           Some f \<Rightarrow> let (rs, g) = take_dirty_regions (fs_grid f) in (rs, t\<lparr>tm_h := h\<lparr>h_frozen_grid := Some (f\<lparr>fs_grid := g\<rparr>)\<rparr>\<rparr>)
         | None \<Rightarrow> let (rs, g) = take_dirty_regions (h_grid h) in (rs, t\<lparr>tm_h := h\<lparr>h_grid := g\<rparr>\<rparr>))"

definition capture_text :: "usize option \<Rightarrow> 'p terminal \<Rightarrow> rstring option" where
  "capture_text lines t =
     (let g = term_grid t
      in if gr_rows g = 0 then Some []
         else do {
           rs \<leftarrow> those (map (visible_row g) [0..<gr_rows g]);
           let last_content = (case List.find (\<lambda>r. \<not> row_is_blank (rs ! r)) (rev [0..<gr_rows g]) of Some r \<Rightarrow> r | None \<Rightarrow> 0);
           let stop = last_content + 1;
           (if lines = Some 0 then Some []
            else
              let start = (case lines of Some n \<Rightarrow> stop - n | None \<Rightarrow> 0)
              in Some (concat (map (\<lambda>r. rev (dropWhile is_whitespace (rev (row_text (rs ! r)))) @ [10]) [start..<stop])))
         })"

section \<open>Resizing and the screens\<close>

definition resize_screens :: "usize \<Rightarrow> usize \<Rightarrow> handler \<Rightarrow> handler" where
  "resize_screens rows cols h =
     (if md_alternate_screen (h_modes h) then
        (let h = h\<lparr>h_grid := resize_canvas rows cols (h_grid h)\<rparr>
         in case h_alt_grid h of
              None \<Rightarrow> h
            | Some primary \<Rightarrow>
                (case h_alt_cursor h of
                   Some c \<Rightarrow>
                     let (moved, primary) = resize_with_cursor rows cols (Some (cu_row c, cu_col c)) primary;
                         c = (case moved of Some (row, col) \<Rightarrow> c\<lparr>cu_row := row, cu_col := col\<rparr> | None \<Rightarrow> c)
                     in h\<lparr>h_alt_grid := Some primary, h_alt_cursor := Some (cursor_clamp rows cols c)\<rparr>
                 | None \<Rightarrow> h\<lparr>h_alt_grid := Some (snd (resize_with_cursor rows cols None primary))\<rparr>))
      else
        let c = h_cursor h;
            (moved, g) = resize_with_cursor rows cols (Some (cu_row c, cu_col c)) (h_grid h);
            c = (case moved of Some (row, col) \<Rightarrow> c\<lparr>cu_row := row, cu_col := col\<rparr> | None \<Rightarrow> c)
        in h\<lparr>h_grid := g, h_cursor := c, h_alt_grid := map_option (resize_canvas rows cols) (h_alt_grid h)\<rparr>)"

definition resize_handler :: "bool \<Rightarrow> usize \<Rightarrow> usize \<Rightarrow> handler \<Rightarrow> handler" where
  "resize_handler dims_changed rows cols h0 =
     (let h = h0\<lparr>h_active := None, h_spare := if dims_changed then None else h_spare h0\<rparr>;
          h = resize_screens rows cols h
      in h\<lparr>h_tabs := tabs_resize cols (h_tabs h), h_region := \<lparr>sr_top = 0, sr_bottom = rows - 1\<rparr>,
           h_cursor := cursor_clamp rows cols (h_cursor h), h_alt_cursor := map_option (cursor_clamp rows cols) (h_alt_cursor h),
           h_frozen_cursor := map_option (cursor_clamp rows cols) (h_frozen_cursor h)\<rparr>)"

definition term_resize :: "nat \<Rightarrow> usize \<Rightarrow> usize \<Rightarrow> 'p terminal \<Rightarrow> 'p terminal" where
  "term_resize now rows0 cols0 t0 =
     (let (rows, cols) = clamp_dims rows0 cols0;
          dims_changed = (rows \<noteq> tm_rows t0 \<or> cols \<noteq> tm_cols t0);
          t = (if dims_changed \<and> h_armed (tm_h t0) then (snd (force_release_sync t0))\<lparr>tm_hidden_class_a := False\<rparr> else t0);
          t = (on_handler (resize_handler dims_changed rows cols) t)\<lparr>tm_rows := rows, tm_cols := cols\<rparr>
      in if dims_changed then record_class_a_batch now t else t)"

text \<open>Outside the parser there is no wrapper: the whole frame is frozen first, and the swap then finds it frozen.\<close>

definition enter_alternate_screen :: "'p terminal \<Rightarrow> 'p terminal" where
  "enter_alternate_screen =
     on_handler (\<lambda>h. let h = clear_active_grapheme_cell (freeze_whole_presentation h)
                      in if md_alternate_screen (h_modes h) then h
                         else on_modes (md_alternate_screen_update (\<lambda>_. True)) (swap_enter True h))"

definition leave_alternate_screen :: "'p terminal \<Rightarrow> 'p terminal" where
  "leave_alternate_screen =
     on_handler (\<lambda>h. let h = clear_active_grapheme_cell (freeze_whole_presentation h)
                      in if md_alternate_screen (h_modes h)
                         then on_modes (md_alternate_screen_update (\<lambda>_. False)) (swap_leave True h)
                         else h)"

definition term_clear_scrollback :: "'p terminal \<Rightarrow> 'p terminal" where
  "term_clear_scrollback = on_handler (\<lambda>h. h\<lparr>h_grid := clear_scrollback (h_grid h)\<rparr>)"

definition term_scrollback_len :: "'p terminal \<Rightarrow> usize" where
  "term_scrollback_len t = scrollback_len (h_grid (tm_h t))"

end
