(* ===== verification/Vt_Batch.thy ===== *)
theory Vt_Batch
  imports Vt_Terminal "HOL-Library.Sublist"
begin

text \<open>
  The terminal as a whole keeps the invariant of its handler through batches of output, pictures,
  status reports, releases and resizes, and none of them panics.
\<close>

section \<open>Pictures on the grid\<close>

lemma sum_list_filter_split: "sum_list (map f (filter P xs)) + sum_list (map f (filter (\<lambda>x. \<not> P x) xs)) = sum_list (map f xs)"
  for f :: "'a \<Rightarrow> nat"
  by (induction xs) auto

lemma prune_places: "places_ok g \<Longrightarrow> places_ok (prune_evicted_placements g)"
  using sum_list_filter_split [of payload_len "placement_live (gr_evicted g)" "gr_placements g"]
  by (auto simp: places_ok_def prune_evicted_placements_def Let_def intro: le_trans [OF length_filter_le])

lemma unplace_where_fine:
  assumes ok: "grid_ok g"
  shows "fine g (snd (unplace_where hit g))"
proof -
  have "good g (snd (unplace_where hit g))" by (rule good_aside [OF ok]) (simp_all add: unplace_where_def Let_def)
  moreover have "places_ok g \<Longrightarrow> places_ok (snd (unplace_where hit g))"
    using sum_list_filter_split [of payload_len hit "gr_placements g"]
    by (auto simp: places_ok_def unplace_where_def Let_def intro: le_trans [OF length_filter_le])
  ultimately show ?thesis by (simp add: fine_def) (simp add: unplace_where_def Let_def)
qed

lemma put_placement_fine:
  assumes ok: "grid_ok g"
  shows "fine g (snd (put_placement g p))"
proof -
  let ?q = "prune_evicted_placements g"
  have q: "gr_rows ?q = gr_rows g" "gr_cols ?q = gr_cols g" "gr_config ?q = gr_config g" "gr_raw ?q = gr_raw g" "gr_dirty ?q = gr_dirty g"
    "gr_evicted ?q = gr_evicted g" by (simp_all add: prune_evicted_placements_def Let_def)
  have "good g (snd (put_placement g p))"
    by (rule good_aside [OF ok]) (simp_all add: put_placement_def q Let_def split: option.split)
  moreover have "places_ok (snd (put_placement g p))" if g: "places_ok g"
  proof -
    have pq: "places_ok ?q" by (rule prune_places [OF g])
    define same where "same = (\<lambda>q :: placement. pl_image_id p \<noteq> 0 \<and> pl_placement_id p \<noteq> 0 \<and> pl_image_id q = pl_image_id p \<and> pl_placement_id q = pl_placement_id p)"
    have e: "put_placement g p = (case position same (gr_placements ?q) of
        Some i \<Rightarrow> let rest = gr_placed_bytes ?q - payload_len (gr_placements ?q ! i)
          in if MAX_IMAGE_BYTES < rest + payload_len p then (False, ?q)
             else (True, bump_mutations (?q\<lparr>gr_placed_bytes := rest + payload_len p, gr_placements := (gr_placements ?q)[i := p]\<rparr>))
      | None \<Rightarrow> if MAX_PLACEMENTS \<le> length (gr_placements ?q) \<or> MAX_IMAGE_BYTES < gr_placed_bytes ?q + payload_len p then (False, ?q)
          else (True, bump_mutations (?q\<lparr>gr_placed_bytes := gr_placed_bytes ?q + payload_len p, gr_placements := gr_placements ?q @ [p]\<rparr>)))"
      unfolding put_placement_def Let_def same_def by (rule refl)
    show ?thesis
    proof (cases "position same (gr_placements ?q)")
      case None
      then show ?thesis using pq by (auto simp: e places_ok_def)
    next
      case (Some i)
      have i: "i < length (gr_placements ?q)" using position_Some [OF Some] by blast
      have "sum_list (map payload_len ((gr_placements ?q)[i := p])) = sum_list (map payload_len (gr_placements ?q)) - payload_len (gr_placements ?q ! i) + payload_len p"
        using i elem_le_sum_list [of i "map payload_len (gr_placements ?q)"] by (simp add: map_update sum_list_update)
      then show ?thesis using pq Some i by (auto simp: e places_ok_def Let_def)
    qed
  qed
  ultimately show ?thesis by (simp add: fine_def) (simp add: put_placement_def q Let_def split: option.split)
qed

section \<open>Handler steps from outside the parser\<close>

lemma on_live_grid_step:
  assumes ok: "vt_ok h" and f: "fine (h_grid h) (f (h_grid h))"
  shows "step h (on_live_grid f h)"
  using on_grid_total [of h f] ok f by (simp add: safe_def on_grid_def on_live_grid_def Let_def)

lemma on_store_step:
  assumes ok: "vt_ok h" and f: "store_ok (the_store h) \<Longrightarrow> store_ok (f (the_store h))"
  shows "step h (on_store f h)"
  by (rule untouched_step; use ok f in \<open>auto simp: on_store_def the_store_def vt_ok_defs untouched_def split: if_splits\<close>)

lemma advance_lines_step: "vt_ok h \<Longrightarrow> step h (advance_lines n h)"
proof (induction n arbitrary: h)
  case (Suc n)
  let ?h = "if rows_of h \<le> cu_row (h_cursor h) + 1 then on_live_grid (scroll_up 0 (rows_of h - 1)) h
      else on_cursor (\<lambda>c. c\<lparr>cu_row := cu_row c + 1\<rparr>) h"
  have s: "step h ?h"
  proof (rule step_if)
    show "step h (on_live_grid (scroll_up 0 (rows_of h - 1)) h)"
      by (rule on_live_grid_step [OF Suc.prems]) (simp add: scroll_up_def scroll_fine vt_okD(3) [OF Suc.prems])
    show "step h (on_cursor (\<lambda>c. c\<lparr>cu_row := cu_row c + 1\<rparr>) h)" if "\<not> rows_of h \<le> cu_row (h_cursor h) + 1"
      by (rule move_step [OF Suc.prems]) (use that vt_okD(7) [OF Suc.prems] in auto)
  qed
  show ?case using step_trans [OF s Suc.IH [OF stepD(1) [OF s]]] by (simp only: advance_lines.simps)
qed (simp add: step_refl)

text \<open>A step without the bound on replies, which a picture query may exceed.\<close>

definition goes :: "bool \<Rightarrow> handler \<Rightarrow> handler \<Rightarrow> bool" where
  "goes still h h' \<longleftrightarrow> vt_ok h' \<and> good (presented_grid h) (presented_grid h') \<and> rows_of h' = rows_of h \<and> cols_of h' = cols_of h \<and>
     (still \<longrightarrow> holds_still h h')"

lemma step_goes: "step h h' \<Longrightarrow> goes still h h'"
  by (simp add: step_def goes_def same_size_def)

lemma goes_trans: "goes s h h' \<Longrightarrow> goes s h' h'' \<Longrightarrow> goes s h h''"
  by (auto simp: goes_def holds_still_def intro: good_trans)

lemma goes_refl: "vt_ok h \<Longrightarrow> goes s h h"
  using step_goes step_refl by blast

lemma goes_ok: "goes s h h' \<Longrightarrow> vt_ok h'"
  by (simp add: goes_def)

lemma responses_goes: "vt_ok h \<Longrightarrow> goes s h (h\<lparr>h_responses := r\<rparr>)"
  using good_refl [OF presented_grid_ok] by (auto simp: goes_def holds_still_def presented_defs vt_ok_defs)

section \<open>The terminal's invariant\<close>

definition term_ok :: "'p terminal \<Rightarrow> bool" where
  "term_ok t \<longleftrightarrow> vt_ok (tm_h t) \<and> tm_rows t = rows_of (tm_h t) \<and> tm_cols t = cols_of (tm_h t) \<and> apc_ok (tm_apc t) \<and> osc_ok (tm_osc t) \<and>
     assembler_ok (tm_assembler t) \<and> 1 \<le> tm_revision t \<and> tm_revision t \<le> u64_max"

definition carries :: "bool \<Rightarrow> 'p terminal \<Rightarrow> 'p terminal \<Rightarrow> bool" where
  "carries still t t' \<longleftrightarrow> term_ok t' \<and> goes still (tm_h t) (tm_h t') \<and> tm_rows t' = tm_rows t \<and> tm_cols t' = tm_cols t"

lemma carries_trans: "carries s t t' \<Longrightarrow> carries s t' t'' \<Longrightarrow> carries s t t''"
  by (auto simp: carries_def intro: goes_trans)

lemma carries_refl: "term_ok t \<Longrightarrow> carries s t t"
  by (simp add: carries_def goes_refl term_ok_def)

lemma carriesD: "carries s t t' \<Longrightarrow> term_ok t'"
  by (simp add: carries_def)

lemma handler_carries: "term_ok t \<Longrightarrow> goes s (tm_h t) h \<Longrightarrow> carries s t (t\<lparr>tm_h := h\<rparr>)"
  by (simp add: carries_def term_ok_def goes_def)

lemma on_handler_carries: "term_ok t \<Longrightarrow> goes s (tm_h t) (f (tm_h t)) \<Longrightarrow> carries s t (on_handler f t)"
  unfolding on_handler_def by (rule handler_carries)

lemma aside_carries:
  assumes "term_ok t"
  shows "carries s t (refuse t)" "assembler_ok a \<Longrightarrow> carries s t (t\<lparr>tm_assembler := a\<rparr>)" "carries s t (t\<lparr>tm_transfer_on_alt := b\<rparr>)"
    "carries s t (t\<lparr>tm_commands := c\<rparr>)" "carries s t (t\<lparr>tm_hidden_class_a := b\<rparr>)" "carries s t (t\<lparr>tm_parser := p\<rparr>)"
    "apc_ok ap \<Longrightarrow> osc_ok os \<Longrightarrow> carries s t (t\<lparr>tm_apc := ap, tm_osc := os\<rparr>)" "carries s t (t\<lparr>tm_opened_ns := n, tm_bytes := m\<rparr>)"
    "carries s t (record_class_a_batch now t)"
  using assms goes_refl [of "tm_h t"] by (auto simp: carries_def term_ok_def refuse_def record_class_a_batch_def sat_add64_def u64_max_def)

section \<open>Pictures\<close>

lemma delete_images_carries:
  assumes ok: "term_ok t"
  shows "carries s t (delete_images cmd t)"
proof -
  let ?target = "if kc_delete cmd = 0 then 97 else kc_delete cmd"
  obtain x y w z where src: "kc_src cmd = (x, y, w, z)" by (cases "kc_src cmd") auto
  show ?thesis
  proof (cases "delete_hits cmd ?target (tm_h t)")
    case None
    then show ?thesis using aside_carries(1) [OF ok] by (simp add: delete_images_def src Let_def)
  next
    case (Some hit)
    let ?t = "on_handler (on_live_grid (snd \<circ> unplace_where hit)) t"
    have h: "vt_ok (tm_h t)" using ok by (simp add: term_ok_def)
    have a: "carries s t ?t"
      by (rule on_handler_carries [OF ok], rule step_goes, rule on_live_grid_step [OF h]) (simp add: unplace_where_fine vt_okD(3) [OF h])
    have r: "carries s ?t (on_handler (\<lambda>h. on_store (store_retain (K h)) h) ?t)" for K
    proof -
      have v: "vt_ok (tm_h ?t)" using carriesD [OF a] by (simp add: term_ok_def)
      show ?thesis by (rule on_handler_carries [OF carriesD [OF a]], rule step_goes, rule on_store_step [OF v]) (rule store_retain_ok)
    qed
    show ?thesis using Some a carries_trans [OF a r] by (simp add: delete_images_def src Let_def)
  qed
qed

lemma place_image_carries:
  assumes ok: "term_ok t"
  shows "carries s t (place_image im cmd t)"
proof (cases "geometry_resolve (si_width im, si_height im) (kc_src cmd) (kc_cols cmd, kc_rows cmd) (cols_of (tm_h t), rows_of (tm_h t))")
  case None
  then show ?thesis using carries_refl [OF ok] by (simp add: place_image_def)
next
  case (Some geometry)
  let ?h = "tm_h t"
  have h: "vt_ok ?h" using ok by (simp add: term_ok_def)
  obtain c r where cells: "geometry_cells geometry = (c, r)" by fastforce
  define p where "p = \<lparr>pl_image = im, pl_abs_row = first_visible_line ?h + cu_row (h_cursor ?h), pl_col = cu_col (h_cursor ?h),
    pl_image_id = kc_image_id cmd, pl_placement_id = kc_placement_id cmd, pl_z = kc_z cmd, pl_geometry = geometry\<rparr>"
  define k where "k = on_live_grid (\<lambda>g. snd (put_placement g p)) ?h"
  have k: "step ?h k" unfolding k_def by (rule on_live_grid_step [OF h]) (rule put_placement_fine [OF vt_okD(3) [OF h]])
  note vk = vt_okD [OF stepD(1) [OF k]]
  let ?target = "cu_col (h_cursor k) + min c (cols_of ?h)"
  let ?w = "cols_of k \<le> ?target"
  let ?c = "on_cursor (\<lambda>c. c\<lparr>cu_col := if ?w then 0 else ?target\<rparr>) k"
  have c: "step k ?c" by (rule move_step [OF stepD(1) [OF k]]) (use vk in auto)
  let ?d = "advance_lines (min r (rows_of ?h) - 1 + (if ?w then 1 else 0)) ?c"
  have d: "step ?h ?d" by (rule step_trans [OF k step_trans [OF c advance_lines_step [OF stepD(1) [OF c]]]])
  have ck: "carries s t (t\<lparr>tm_h := k\<rparr>)" "carries s t (t\<lparr>tm_h := ?d\<rparr>)" by (rule handler_carries [OF ok step_goes], fact)+
  have cr: "carries s t (refuse (t\<lparr>tm_h := k\<rparr>))" using carries_trans [OF ck(1) aside_carries(1) [OF carriesD [OF ck(1)]]] .
  have "place_image im cmd t = (if min c (cols_of ?h) = 0 \<or> min r (rows_of ?h) = 0 then t
      else if \<not> fst (put_placement (h_grid ?h) p) then refuse (t\<lparr>tm_h := k\<rparr>)
      else if kc_no_cursor_move cmd then t\<lparr>tm_h := k\<rparr> else t\<lparr>tm_h := ?d\<rparr>)"
    by (simp only: place_image_def Some cells Let_def option.case prod.case p_def k_def)
  then show ?thesis using ck cr carries_refl [OF ok] by (simp only: split: if_split) blast
qed

lemma store_carries: "term_ok t \<Longrightarrow> (\<And>st. store_ok st \<Longrightarrow> store_ok (f st)) \<Longrightarrow> carries s t (on_handler (on_store f) t)"
  by (rule on_handler_carries, assumption, rule step_goes, rule on_store_step) (auto simp: term_ok_def)

lemma live_grid_carries: "term_ok t \<Longrightarrow> (\<And>g. grid_ok g \<Longrightarrow> fine g (f g)) \<Longrightarrow> carries s t (on_handler (on_live_grid f) t)"
  by (rule on_handler_carries, assumption, rule step_goes, rule on_live_grid_step) (auto simp: term_ok_def vt_okD)

lemma abort_carries: "term_ok t \<Longrightarrow> carries s t (abort_transfer t)"
  unfolding abort_transfer_def by (rule aside_carries(2)) (simp_all add: assembler_ok_def assembler_abort_def)

text \<open>Composition: a step from any well-formed terminal follows a step.\<close>

lemma carries_then: "carries s t u \<Longrightarrow> (\<And>q. term_ok q \<Longrightarrow> carries s q (f q)) \<Longrightarrow> carries s t (f u)"
  using carries_trans carriesD by blast

lemma open_transfer_carries:
  assumes ok: "term_ok t"
  shows "carries s t (open_transfer cmd t)"
proof -
  note a = aside_carries(3) [OF ok]
  have "fine g (snd (unplace_image i 0 g))" if "grid_ok g" for i g by (simp add: unplace_image_def unplace_where_fine [OF that])
  then have drop: "carries s q (on_handler (on_live_grid (\<lambda>g. snd (unplace_image (kc_image_id cmd) 0 g)))
      (on_handler (on_store (store_retain (\<lambda>k. k \<noteq> kc_image_id cmd))) q))" if "term_ok q" for q :: "'a terminal"
    by (intro carries_then [OF store_carries [OF that store_retain_ok] live_grid_carries])
  show ?thesis using carries_refl [OF ok] a carries_then [OF a drop] by (simp add: open_transfer_def Let_def)
qed

lemma finish_transfer_carries:
  assumes ok: "term_ok t"
  shows "carries s t (finish_transfer im opening t)"
proof -
  define v where "v = (if kc_image_id opening \<noteq> 0 then on_handler (on_store (store_insert (kc_image_id opening) im)) t else t)"
  have v: "carries s t v" using store_carries [OF ok store_insert_ok] carries_refl [OF ok] by (simp add: v_def)
  have "carries s t (place_image im opening v)" by (rule carries_then [OF v place_image_carries])
  then show ?thesis using v aside_carries(1) [OF ok] unfolding finish_transfer_def v_def [symmetric] Let_def by (simp split: if_split)
qed

lemma transmit_carries:
  assumes ok: "term_ok t"
  shows "carries s t (transmit_image E cmd payload t)"
proof -
  define u where "u = open_transfer cmd t"
  have u: "carries s t u" unfolding u_def by (rule open_transfer_carries [OF ok])
  obtain ready a where f: "assembler_feed (te_image_base64 E) cmd payload (tm_assembler u) = (ready, a)" by fastforce
  have "assembler_ok a"
    using assembler_feed_ok(1) [of "tm_assembler u" "te_image_base64 E" cmd payload] carriesD [OF u] f by (simp add: term_ok_def)
  then have a: "carries s t (u\<lparr>tm_assembler := a\<rparr>)" by (rule carries_trans [OF u aside_carries(2) [OF carriesD [OF u]]])
  have "carries s t (finish_transfer im opening (u\<lparr>tm_assembler := a\<rparr>))" for im and "opening" by (rule carries_then [OF a finish_transfer_carries])
  then show ?thesis using a f by (simp add: transmit_image_def u_def [symmetric] Let_def split: option.split)
qed

lemma put_stored_carries:
  assumes ok: "term_ok t"
  shows "carries s t (put_stored_image cmd t)"
proof -
  have g: "carries s t (on_handler (on_store (\<lambda>s. snd (store_get (kc_image_id cmd) s))) t)" by (rule store_carries [OF ok store_get_ok])
  have "carries s t (place_image im cmd (on_handler (on_store (\<lambda>s. snd (store_get (kc_image_id cmd) s))) t))" for im
    by (rule carries_then [OF g place_image_carries])
  then show ?thesis using carries_then [OF g aside_carries(1)]
    by (simp add: put_stored_image_def Let_def split: option.split)
qed

lemma dispatch_graphics_carries:
  assumes ok: "term_ok t"
  shows "carries s t (dispatch_graphics E body t)"
proof -
  have query: "carries s t (on_handler (\<lambda>h. h\<lparr>h_responses := r h\<rparr>) t)" for r
    by (rule on_handler_carries [OF ok], rule responses_goes) (use ok in \<open>simp add: term_ok_def\<close>)
  show ?thesis
    unfolding dispatch_graphics_def Let_def
    using carries_refl [OF ok] carries_then [OF aside_carries(1) [OF ok] abort_carries] carries_then [OF delete_images_carries [OF ok] abort_carries]
      transmit_carries [OF ok] put_stored_carries [OF ok] query
    by (simp split: result.split kitty_action.split)
qed

section \<open>Status\<close>

lemma status_goes: "vt_ok h \<Longrightarrow> goes s h (h\<lparr>h_status := p, h_generation := c\<rparr>)" "vt_ok h \<Longrightarrow> goes s h (h\<lparr>h_generation := c\<rparr>)"
  using good_refl [OF presented_grid_ok] by (auto simp: goes_def holds_still_def presented_defs vt_ok_defs)

lemma on_commands_carries:
  assumes ok: "term_ok t"
  shows "carries s t (on_commands f t)"
proof -
  obtain b c where f: "f (tm_commands t, h_generation (tm_h t)) = (b, c)" by fastforce
  have "carries s t (t\<lparr>tm_commands := b\<rparr>)" by (rule aside_carries(4) [OF ok])
  moreover have "carries s (t\<lparr>tm_commands := b\<rparr>) (t\<lparr>tm_commands := b, tm_h := (tm_h t)\<lparr>h_generation := c\<rparr>\<rparr>)"
    using handler_carries [of "t\<lparr>tm_commands := b\<rparr>" s "(tm_h t)\<lparr>h_generation := c\<rparr>"] status_goes(2) ok carriesD [OF calculation] by (auto simp: term_ok_def)
  ultimately show ?thesis using carries_trans by (simp add: on_commands_def f) blast
qed

lemma on_status_carries: "term_ok t \<Longrightarrow> carries s t (on_status f t)"
  unfolding on_status_def
  by (rule on_handler_carries) (auto simp: term_ok_def Let_def split: option.split prod.split intro: goes_refl status_goes)

lemma dispatch_status_carries:
  assumes ok: "term_ok t"
  shows "carries s t (dispatch_program_status E a t)"
proof (cases a)
  case (ReportCut payload bel)
  have h: "vt_ok (tm_h t)" using ok by (simp add: term_ok_def)
  have push: "goes s (tm_h t) ((tm_h t)\<lparr>h_status := p, h_generation := c, h_responses := r\<rparr>)" for p c r
    using goes_trans [OF status_goes(1) [OF h] responses_goes [OF goes_ok [OF status_goes(1) [OF h]]]] by simp
  show ?thesis unfolding ReportCut dispatch_program_status.simps
    by (rule on_handler_carries [OF ok]) (auto simp: Let_def split: option.split prod.split intro: goes_refl [OF h] status_goes(1) [OF h] push)
qed (use on_commands_carries [OF ok] carries_then [OF on_commands_carries [OF ok] on_status_carries] in auto)

section \<open>A batch of output\<close>

text \<open>Where \<open>still\<close> is set, nothing the parser makes of any stretch of the batch may release the frame.\<close>

definition quiet :: "'p term_env \<Rightarrow> bytes \<Rightarrow> bool" where
  "quiet E bs \<longleftrightarrow> (\<forall>p part. sublist part bs \<longrightarrow> list_all (\<lambda>a. \<not> releases a) (fst (te_vte E p part)))"

lemma advance_slice_carries:
  assumes ok: "term_ok t" and q: "still \<Longrightarrow> quiet E bs" and part: "sublist part bs"
  shows "\<exists>t'. advance_slice E part t = Some t' \<and> carries still t t'"
proof (cases "part = []")
  case True
  then show ?thesis using carries_refl [OF ok] by (simp add: advance_slice_def)
next
  case False
  obtain as p where v: "te_vte E (tm_parser t) part = (as, p)" by fastforce
  have h: "vt_ok (tm_h t)" using ok by (simp add: term_ok_def)
  obtain h' where h': "perform_all (te_vt E) as (tm_h t) = Some h'" "tracks (tm_h t) h'" "list_all (\<lambda>a. \<not> releases a) as \<Longrightarrow> holds_still (tm_h t) h'"
    using perform_all_follows [OF h, of as "te_vt E"] by (auto simp: follows_def)
  have "still \<Longrightarrow> list_all (\<lambda>a. \<not> releases a) as" using q part v unfolding quiet_def by (metis fst_conv)
  then have g: "goes still (tm_h t) h'" using h'(2,3) by (auto simp: goes_def tracks_def same_size_def)
  note a = handler_carries [OF ok g]
  have "carries still t (t\<lparr>tm_h := h', tm_parser := p\<rparr>)" by (rule carries_trans [OF a aside_carries(6) [OF carriesD [OF a]]])
  then show ?thesis using False v h'(1) by (simp add: advance_slice_def)
qed

lemma sublist_slice: "sublist (take n (drop k xs)) xs" "sublist (drop k xs) xs"
  by (meson sublist_take sublist_drop sublist_order.order.trans)+

lemma run_cuts_carries:
  "term_ok t \<Longrightarrow> (still \<Longrightarrow> quiet E bs) \<Longrightarrow> \<exists>t'. run_cuts E bs k apc st t = Some t' \<and> carries still t t'"
proof (induction E bs k apc st t rule: run_cuts.induct)
  case (1 E bs k t)
  then show ?case using advance_slice_carries sublist_slice by (metis run_cuts.simps(1))
next
  case (2 E bs k e body apc t)
  obtain u where u: "advance_slice E (take (e - k) (drop k bs)) t = Some u" "carries still t u"
    using advance_slice_carries [OF 2(2,3) sublist_slice(1)] by blast
  note g = carries_then [OF u(2), of "dispatch_graphics E body", OF dispatch_graphics_carries]
  show ?case using 2(1) [OF u(1) carriesD [OF g] 2(3)] u(1) carries_trans [OF g] by auto
next
  case (3 E bs k e a st t)
  obtain u where u: "advance_slice E (take (e - k) (drop k bs)) t = Some u" "carries still t u"
    using advance_slice_carries [OF 3(2,3) sublist_slice(1)] by blast
  note g = carries_then [OF u(2), of "dispatch_program_status E a", OF dispatch_status_carries]
  show ?case using 3(1) [OF u(1) carriesD [OF g] 3(3)] u(1) carries_trans [OF g] by auto
next
  case (4 E bs k e body apc e' a st t)
  show ?case
  proof (cases "e \<le> e'")
    case True
    obtain u where u: "advance_slice E (take (e - k) (drop k bs)) t = Some u" "carries still t u"
      using advance_slice_carries [OF 4(3,4) sublist_slice(1)] by blast
    note g = carries_then [OF u(2), of "dispatch_graphics E body", OF dispatch_graphics_carries]
    show ?thesis using 4(1) [OF True u(1) carriesD [OF g] 4(4)] u(1) carries_trans [OF g] True by auto
  next
    case False
    obtain u where u: "advance_slice E (take (e' - k) (drop k bs)) t = Some u" "carries still t u"
      using advance_slice_carries [OF 4(3,4) sublist_slice(1)] by blast
    note g = carries_then [OF u(2), of "dispatch_program_status E a", OF dispatch_status_carries]
    show ?thesis using 4(2) [OF False u(1) carriesD [OF g] 4(4)] u(1) carries_trans [OF g] False by auto
  qed
qed

lemma settle_carries:
  assumes ok: "term_ok t"
  shows "carries s t (settle_revision now before t)"
proof -
  define r where "r b q = (if b then record_class_a_batch now q else q)" for b and q :: "'a terminal"
  define m where "m b q = (if b then q\<lparr>tm_hidden_class_a := True\<rparr> else q)" for b and q :: "'a terminal"
  have r: "carries s q (r b q)" "carries s q (m b q)" if "term_ok q" for q b
    using aside_carries(5,9) [OF that] carries_refl [OF that] by (simp_all add: r_def m_def)
  have a: "carries s t (m b (r b' t))" "carries s t (r b (t\<lparr>tm_hidden_class_a := False\<rparr>))" for b b'
    using carries_trans [OF r(1) [OF ok] r(2) [OF carriesD [OF r(1) [OF ok]]]]
      carries_trans [OF aside_carries(5) [OF ok] r(1) [OF carriesD [OF aside_carries(5) [OF ok]]]] by blast+
  show ?thesis unfolding settle_revision_def Let_def r_def [symmetric] m_def [symmetric] using a by (simp only: split: if_split) blast
qed

lemma deadline_carries: "term_ok t \<Longrightarrow> carries s t (note_deadline clock n t)"
  using aside_carries(8) [of t s] unfolding note_deadline_def by (simp only: split: if_split) blast

lemma force_release_carries:
  assumes ok: "term_ok t"
  shows "carries False t (snd (force_release_sync t))"
proof -
  have "mark_live_dirty (on_modes f (release_sync_presentation h)) = mark_live_dirty (release_sync_presentation (on_modes f h))" for f h
    by (simp add: mark_live_dirty_def on_modes_def release_sync_presentation_def)
  then have g: "goes False (tm_h t) (mark_live_dirty (on_modes (md_synchronized_output_update (\<lambda>_. False)) (release_sync_presentation (tm_h t))))"
    using sync_off_tracks [of "tm_h t"] ok by (simp add: synchronized_output_mode_def goes_def tracks_def same_size_def term_ok_def)
  have h: "carries False t (on_handler (\<lambda>h. mark_live_dirty (on_modes (md_synchronized_output_update (\<lambda>_. False)) (release_sync_presentation h))) t)"
    by (rule on_handler_carries [OF ok]) (rule g)
  show ?thesis using carries_trans [OF h aside_carries(8) [OF carriesD [OF h]]] by (simp add: force_release_sync_def)
qed

lemma scan_batch_carries:
  assumes ok: "term_ok t"
  shows "carries s t (snd (snd (scan_batch bs t)))"
proof -
  obtain apc a where a: "(if tm_cut_slicing t then apc_scan bs (tm_apc t) else ([], tm_apc t)) = (apc, a)" by fastforce
  obtain st os where o: "osc_scan bs (tm_osc t) = (st, os)" by fastforce
  have "apc_ok a" "osc_ok os" using ok apc.scan_ok [of "tm_apc t" bs] osc.scan_ok [of "tm_osc t" bs] a o by (auto simp: term_ok_def split: if_splits)
  then show ?thesis using aside_carries(7) [OF ok] by (simp only: scan_batch_def a o Let_def prod.case snd_conv)
qed

lemma process_carries:
  assumes ok: "term_ok t" and q: "still \<Longrightarrow> quiet E bs \<and> \<not> (h_armed (tm_h t) \<and> SYNC_UPDATE_MAX_BYTES \<le> tm_bytes t)"
  shows "\<exists>rs t'. process_with_responses E now clock bs t = Some (rs, t') \<and> carries still t t'"
proof -
  define u where "u = (if h_armed (tm_h t) \<and> SYNC_UPDATE_MAX_BYTES \<le> tm_bytes t then snd (force_release_sync t) else t)"
  have u: "carries still t u"
    using force_release_carries [OF ok] carries_refl [OF ok] q by (cases still) (auto simp: u_def)
  define v where "v = on_handler (h_responses_update (\<lambda>_. [])) u"
  have v: "carries still t v" unfolding v_def
    by (rule carries_trans [OF u], rule on_handler_carries [OF carriesD [OF u]], rule responses_goes) (use carriesD [OF u] in \<open>simp add: term_ok_def\<close>)
  obtain apc st w where b: "scan_batch bs v = (apc, st, w)" by (metis surj_pair)
  have w: "carries still t w" using carries_trans [OF v scan_batch_carries [OF carriesD [OF v], of still bs]] b by simp
  obtain x where x: "(if apc = [] \<and> st = [] then advance_slice E bs w else run_cuts E bs 0 apc st w) = Some x" "carries still w x"
  proof -
    have "still \<Longrightarrow> quiet E bs" using q by blast
    then show ?thesis using that advance_slice_carries [OF carriesD [OF w], of still E bs bs] run_cuts_carries [OF carriesD [OF w], of still E bs 0 apc st]
      by (cases "apc = [] \<and> st = []") (simp_all, blast+)
  qed
  have e: "carries still t (note_deadline clock (length bs) (settle_revision now u x))"
    by (rule carries_then [OF carries_then [OF carries_trans [OF w x(2)] settle_carries] deadline_carries])
  have "process_with_responses E now clock bs t =
      Some (h_responses (tm_h (note_deadline clock (length bs) (settle_revision now u x))), note_deadline clock (length bs) (settle_revision now u x))"
    unfolding process_with_responses_def Let_def u_def [symmetric] v_def [symmetric] b prod.case x(1) by simp
  then show ?thesis using e by blast
qed

lemma release_expired_carries:
  assumes ok: "term_ok t"
  shows "carries False t (snd (release_expired_sync clock now t))"
proof -
  define u where "u = (snd (force_release_sync t))\<lparr>tm_hidden_class_a := False\<rparr>"
  note f = force_release_carries [OF ok]
  have u: "carries False t u" unfolding u_def by (rule carries_trans [OF f aside_carries(5) [OF carriesD [OF f]]])
  have "snd (release_expired_sync clock now t) =
      (if \<not> sync_window_expired clock t then t else if sync_release_reveals_class_a t then record_class_a_batch now u else u)"
    by (simp add: release_expired_sync_def u_def Let_def split: prod.split)
  then show ?thesis using u carries_trans [OF u aside_carries(9) [OF carriesD [OF u]]] carries_refl [OF ok] by simp
qed

section \<open>Screens and damage\<close>

lemma enter_carries:
  assumes ok: "term_ok t"
  shows "carries s t (enter_alternate_screen t)"
proof -
  have h: "vt_ok (tm_h t)" using ok by (simp add: term_ok_def)
  define k where "k = clear_active_grapheme_cell (freeze_whole_presentation (tm_h t))"
  note f = freeze_whole_step [OF h]
  have k: "step (tm_h t) k" unfolding k_def by (rule step_trans [OF f aside_step(1) [OF stepD(1) [OF f]]])
  have "h_armed k \<longrightarrow> h_frozen_alt k \<noteq> None"
    by (simp add: k_def clear_active_grapheme_cell_def freeze_whole_presentation_def freeze_alt_flag_def)
  then have "freeze_alt_flag (swap_enter True k) = swap_enter True k"
    by (auto simp: freeze_alt_flag_def swap_enter_def freeze_cursor_def freeze_grid_def Let_def)
  then have e: "set_alternate_screen True (swap_enter True k) = on_modes (md_alternate_screen_update (\<lambda>_. True)) (swap_enter True k)"
    by (simp add: set_alternate_screen_def)
  have "step k (if md_alternate_screen (h_modes k) then k else on_modes (md_alternate_screen_update (\<lambda>_. True)) (swap_enter True k))"
    using enter_alternate_step [OF stepD(1) [OF k], of True] step_refl [OF stepD(1) [OF k]] e by simp
  from step_goes [OF step_trans [OF k this]] show ?thesis
    unfolding enter_alternate_screen_def by (intro on_handler_carries [OF ok]) (simp only: Let_def k_def)
qed

lemma leave_carries:
  assumes ok: "term_ok t"
  shows "carries s t (leave_alternate_screen t)"
proof -
  have h: "vt_ok (tm_h t)" using ok by (simp add: term_ok_def)
  define k where "k = clear_active_grapheme_cell (freeze_whole_presentation (tm_h t))"
  note f = freeze_whole_step [OF h]
  have k: "step (tm_h t) k" unfolding k_def by (rule step_trans [OF f aside_step(1) [OF stepD(1) [OF f]]])
  have fz: "h_armed k \<longrightarrow> h_frozen_alt k \<noteq> None"
    by (simp add: k_def clear_active_grapheme_cell_def freeze_whole_presentation_def freeze_alt_flag_def)
  have kept: "h_armed (swap_leave True k) = h_armed k" "h_frozen_alt (swap_leave True k) = h_frozen_alt k"
    by (simp_all add: swap_leave_def freeze_cursor_def freeze_grid_def Let_def split: option.split)
  then have e: "set_alternate_screen False (swap_leave True k) = on_modes (md_alternate_screen_update (\<lambda>_. False)) (swap_leave True k)"
    using fz by (auto simp: set_alternate_screen_def freeze_alt_flag_def)
  have "step k (if md_alternate_screen (h_modes k) then on_modes (md_alternate_screen_update (\<lambda>_. False)) (swap_leave True k) else k)"
    using leave_alternate_step [OF stepD(1) [OF k], of True] step_refl [OF stepD(1) [OF k]] e by simp
  from step_goes [OF step_trans [OF k this]] show ?thesis
    unfolding leave_alternate_screen_def by (intro on_handler_carries [OF ok]) (simp only: Let_def k_def)
qed

lemma clear_scrollback_viewport:
  assumes ok: "grid_ok g"
  shows "viewport (clear_scrollback g) = viewport g"
proof -
  have "sat_add64 (sat_add64 a b) 0 = sat_add64 a b" for a b by (simp add: sat_add64_def)
  moreover have "sat_add64 (gr_evicted g) 0 = gr_evicted g" using grid_okD(6) [OF ok] by (simp add: sat_add64_def)
  ultimately show ?thesis by (auto simp: viewport_def clear_scrollback_def scrollback_len_def Let_def)
qed

lemma clear_scrollback_carries:
  assumes ok: "term_ok t"
  shows "carries s t (term_clear_scrollback t)"
proof -
  let ?h = "tm_h t" and ?k = "(tm_h t)\<lparr>h_grid := clear_scrollback (h_grid (tm_h t))\<rparr>"
  have h: "vt_ok ?h" using ok by (simp add: term_ok_def)
  have f: "fine (h_grid ?h) (clear_scrollback (h_grid ?h))" by (rule clear_fine(5) [OF vt_okD(3) [OF h]])
  have v: "vt_ok ?k" using h f fine_usable [OF f] by (simp add: vt_ok_defs fine_def)
  have "good (presented_grid ?h) (presented_grid ?k)"
    using f good_refl [OF presented_grid_ok [OF h]] by (cases "h_frozen_grid ?h") (simp_all add: presented_grid_def fine_def)
  moreover have "presented_frame ?k = presented_frame ?h"
    using clear_scrollback_viewport [OF vt_okD(3) [OF h]] by (cases "h_frozen_grid ?h") (simp_all add: presented_defs)
  ultimately have "goes s ?h ?k" using v f by (simp add: goes_def holds_still_def fine_def)
  then show ?thesis unfolding term_clear_scrollback_def by (intro on_handler_carries [OF ok])
qed

text \<open>Draining the damage hands out exactly the damaged cells and leaves the frame as it is.\<close>

lemma take_dirty_regions_spec:
  assumes ok: "grid_ok g" and r: "take_dirty_regions g = (regions, g')"
  shows "region_cells regions = damage_of g" "damage_of g' = {}" "grid_ok g'" "viewport g' = viewport g" "screen g' = screen g"
    "gr_rows g' = gr_rows g" "gr_cols g' = gr_cols g" "gr_config g' = gr_config g" "places_ok g' = places_ok g"
proof -
  obtain d where d: "dirty_take (gr_rows g) (gr_cols g) (gr_dirty g) = (regions, d)" "g' = g\<lparr>gr_dirty := d\<rparr>"
    using r by (auto simp: take_dirty_regions_def Let_def split: prod.splits)
  note t = dirty_take_spec [OF grid_okD(4) [OF ok], unfolded d(1) fst_conv snd_conv]
  show "region_cells regions = damage_of g" "damage_of g' = {}" using t d(2) by (simp_all add: damage_of_def)
  show "grid_ok g'" using ok t d(2) by (simp add: grid_ok_def)
  show "viewport g' = viewport g" "screen g' = screen g" "gr_rows g' = gr_rows g" "gr_cols g' = gr_cols g" "gr_config g' = gr_config g" "places_ok g' = places_ok g"
    using d(2) by (auto simp: viewport_def screen_def fun_eq_iff places_ok_def)
qed

end
