(* ===== verification/Vt_Render.thy ===== *)
theory Vt_Render
  imports Vt_Batch
begin

text \<open>
  Resizing, and the terminal as the rest of shux drives it: any sequence of its operations keeps the
  invariant, and a renderer that repaints only the regions it is handed shows the presented frame.
\<close>

section \<open>Resizing\<close>

lemma resized:
  "gr_rows (resize_canvas r c g) = r" "gr_cols (resize_canvas r c g) = c" "places_ok (resize_canvas r c g) = places_ok g"
  "gr_rows (snd (resize_with_cursor r c cur g)) = r" "gr_cols (snd (resize_with_cursor r c cur g)) = c"
  "places_ok (snd (resize_with_cursor r c cur g)) = places_ok g"
  by (simp_all add: resize_canvas_def resize_with_cursor_def resize_reflowing_columns_def places_ok_def Let_def split: prod.splits)

lemma screens_resized_usable:
  assumes "usable rows cols g"
  shows "usable r c (resize_canvas r c g)" "usable r c (snd (resize_with_cursor r c cur g))"
  using assms resize_canvas_good [of g r c] resize_good [of g r c cur] good_track
  by (auto simp: usable_def resized good_def)

lemma screens_resized_good: "usable rows cols g \<Longrightarrow> good g (resize_canvas r c g)" "usable rows cols g \<Longrightarrow> good g (snd (resize_with_cursor r c cur g))"
  by (simp_all add: usable_def resize_canvas_good resize_good)

text \<open>Every screen of the terminal gets the new size.\<close>

lemma resize_handler_ok:
  assumes ok: "vt_ok h" and size: "0 < rows" "0 < cols"
  shows "vt_ok (resize_handler d rows cols h)" "rows_of (resize_handler d rows cols h) = rows" "cols_of (resize_handler d rows cols h) = cols"
    "good (h_grid h) (h_grid (resize_handler d rows cols h))" "h_frozen_grid (resize_handler d rows cols h) = h_frozen_grid h"
    "h_armed (resize_handler d rows cols h) = h_armed h"
proof -
  let ?h = "resize_handler d rows cols h"
  have b: "live_ok h" "stash_ok h" "frozen_ok h" "bounded h" using ok by (simp_all add: vt_ok_def)
  have u: "usable (rows_of h) (cols_of h) (h_grid h)" using b(1) by (simp add: live_ok_def)
  have g: "h_grid ?h = (if md_alternate_screen (h_modes h) then resize_canvas rows cols (h_grid h)
      else snd (resize_with_cursor rows cols (Some (cu_row (h_cursor h), cu_col (h_cursor h))) (h_grid h)))"
    by (simp add: resize_handler_def resize_screens_def Let_def split: option.split prod.split)
  have ug: "usable rows cols (h_grid ?h)" using g screens_resized_usable [OF u] by simp
  then show r: "rows_of ?h = rows" "cols_of ?h = cols" by (simp_all add: usable_def)
  show "good (h_grid h) (h_grid ?h)" using g screens_resized_good [OF u] by simp
  have misc: "h_modes ?h = h_modes h" "h_active ?h = None" "h_frozen_grid ?h = h_frozen_grid h" "h_armed ?h = h_armed h" "h_title ?h = h_title h"
    "h_spare ?h = (if d then None else h_spare h)" "h_frozen_title ?h = h_frozen_title h" "h_frozen_colors ?h = h_frozen_colors h"
    "h_frozen_alt ?h = h_frozen_alt h" "h_frozen_cursor ?h = map_option (cursor_clamp rows cols) (h_frozen_cursor h)" "h_dcs ?h = h_dcs h"
    "h_stores ?h = h_stores h" "h_tabs ?h = tabs_resize cols (h_tabs h)" "h_region ?h = \<lparr>sr_top = 0, sr_bottom = rows - 1\<rparr>"
    by (simp_all add: resize_handler_def resize_screens_def Let_def split: option.split prod.split)
  show "h_frozen_grid ?h = h_frozen_grid h" "h_armed ?h = h_armed h" by (fact misc)+
  have c: "cursor_in rows cols (h_cursor ?h)"
    by (simp add: resize_handler_def size Let_def)
  have alt: "h_alt_grid ?h = map_option (\<lambda>p. if md_alternate_screen (h_modes h)
      then snd (resize_with_cursor rows cols (map_option (\<lambda>c. (cu_row c, cu_col c)) (h_alt_cursor h)) p) else resize_canvas rows cols p) (h_alt_grid h)"
    by (cases "h_alt_grid h"; cases "h_alt_cursor h") (simp_all add: resize_handler_def resize_screens_def Let_def split: prod.split)
  have "usable (rows_of h) (cols_of h) p" if "h_alt_grid h = Some p" for p using that b(2) by (simp add: stash_ok_def)
  then have ag: "usable rows cols a" if "h_alt_grid ?h = Some a" for a using that screens_resized_usable by (auto simp: alt)
  have an: "h_alt_grid ?h = None \<longleftrightarrow> h_alt_grid h = None" by (simp add: alt)
  have ac: "cursor_in rows cols a" if "h_alt_cursor ?h = Some a" for a
    using that size by (auto simp: resize_handler_def Let_def)
  have "live_ok ?h" using ug r c misc size b(1) by (simp add: live_ok_def)
  moreover have "stash_ok ?h" unfolding stash_ok_def r using ag ac an b(2) by (auto simp: misc stash_ok_def)
  moreover have "frozen_ok ?h" using b(3) by (simp add: frozen_ok_def misc)
  moreover have "bounded ?h" using b(4) by (simp add: bounded_def misc)
  ultimately show "vt_ok ?h" by (simp add: vt_ok_def)
qed

lemma resize_ok:
  assumes ok: "term_ok t"
  shows "term_ok (term_resize now rows cols t)" "tm_rows (term_resize now rows cols t) = max rows 1" "tm_cols (term_resize now rows cols t) = max cols 1"
    "good (presented_grid (tm_h t)) (presented_grid (tm_h (term_resize now rows cols t)))"
proof -
  let ?r = "max rows 1" and ?c = "max cols 1"
  define d where "d \<longleftrightarrow> ?r \<noteq> tm_rows t \<or> ?c \<noteq> tm_cols t"
  define u where "u = (if d \<and> h_armed (tm_h t) then (snd (force_release_sync t))\<lparr>tm_hidden_class_a := False\<rparr> else t)"
  note f = force_release_carries [OF ok]
  have u: "carries False t u"
    using carries_trans [OF f aside_carries(5) [OF carriesD [OF f]]] carries_refl [OF ok] by (simp add: u_def)
  have free: "h_frozen_grid (tm_h u) = None \<or> \<not> d"
    using ok by (auto simp: u_def force_release_sync_def on_handler_def mark_live_dirty_def on_modes_def release_sync_presentation_def term_ok_def vt_ok_defs)
  have uok: "vt_ok (tm_h u)" "term_ok u" using carriesD [OF u] by (simp_all add: term_ok_def)
  have pos: "0 < ?r" "0 < ?c" by auto
  define v where "v = (on_handler (resize_handler d ?r ?c) u)\<lparr>tm_rows := ?r, tm_cols := ?c\<rparr>"
  note h = resize_handler_ok [OF uok(1) pos, of d]
  have v: "term_ok v" using h uok(2) by (simp add: v_def on_handler_def term_ok_def)
  have "good (presented_grid (tm_h u)) (presented_grid (tm_h v))"
    using h(4,5) good_refl [OF presented_grid_ok [OF uok(1)]] free
    by (cases "h_frozen_grid (tm_h u)") (auto simp: v_def on_handler_def presented_grid_def)
  then have g: "good (presented_grid (tm_h t)) (presented_grid (tm_h v))" using u good_trans by (auto simp: carries_def goes_def)
  have t: "term_resize now rows cols t = (if d then record_class_a_batch now v else v)"
    by (simp add: term_resize_def clamp_dims_def d_def u_def v_def Let_def)
  show "term_ok (term_resize now rows cols t)" using v carriesD [OF aside_carries(9) [OF v, of False now]] by (simp add: t)
  show "tm_rows (term_resize now rows cols t) = ?r" "tm_cols (term_resize now rows cols t) = ?c"
    "good (presented_grid (tm_h t)) (presented_grid (tm_h (term_resize now rows cols t)))"
    using g by (simp_all add: t record_class_a_batch_def) (simp_all add: v_def)
qed

section \<open>Driving a terminal\<close>

datatype term_op =
    OpProcess bytes nat nat
  | OpResize usize usize nat
  | OpRelease nat nat
  | OpDrain
  | OpEnterAlternate
  | OpLeaveAlternate
  | OpClearScrollback
  | OpStatusEnabled bool
  | OpProcessExit
  | OpReuse bool
  | OpEager bool
  | OpCutSlicing bool

fun term_step :: "'p term_env \<Rightarrow> term_op \<Rightarrow> 'p terminal \<Rightarrow> 'p terminal option" where
  "term_step E (OpProcess bs now clock) t = map_option snd (process_with_responses E now clock bs t)"
| "term_step E (OpResize rows cols now) t = Some (term_resize now rows cols t)"
| "term_step E (OpRelease clock now) t = Some (snd (release_expired_sync clock now t))"
| "term_step E OpDrain t = Some (snd (term_take_dirty_regions t))"
| "term_step E OpEnterAlternate t = Some (enter_alternate_screen t)"
| "term_step E OpLeaveAlternate t = Some (leave_alternate_screen t)"
| "term_step E OpClearScrollback t = Some (term_clear_scrollback t)"
| "term_step E (OpStatusEnabled b) t = Some (set_program_status_enabled b t)"
| "term_step E OpProcessExit t = Some (note_process_exit t)"
| "term_step E (OpReuse b) t = Some (set_retired_grid_reuse b t)"
| "term_step E (OpEager b) t = Some (set_eager_sync_freeze b t)"
| "term_step E (OpCutSlicing b) t = Some (set_apc_cut_slicing b t)"

fun term_run :: "'p term_env \<Rightarrow> term_op list \<Rightarrow> 'p terminal \<Rightarrow> 'p terminal option" where
  "term_run E [] t = Some t"
| "term_run E (op # ops) t = do { t \<leftarrow> term_step E op t; term_run E ops t }"

lemma switches_carry:
  assumes ok: "term_ok t"
  shows "carries s t (set_program_status_enabled b t)" "carries s t (set_retired_grid_reuse b t)" "carries s t (set_eager_sync_freeze b t)"
    "carries s t (set_apc_cut_slicing b t)"
proof -
  have h: "vt_ok (tm_h t)" using ok by (simp add: term_ok_def)
  have "carries s t (t\<lparr>tm_h := (tm_h t)\<lparr>h_status := p, h_generation := c\<rparr>, tm_disabled_generation := g\<rparr>)" for p c g
    using handler_carries [OF ok status_goes(1) [OF h]] by (simp add: carries_def term_ok_def)
  then show "carries s t (set_program_status_enabled b t)"
    using handler_carries [OF ok status_goes(1) [OF h]] carries_refl [OF ok] by (simp add: set_program_status_enabled_def Let_def split: prod.split)
  have "goes s (tm_h t) ((tm_h t)\<lparr>h_reuse := b, h_spare := if b then h_spare (tm_h t) else None\<rparr>)"
    by (rule step_goes, rule untouched_step; use h in \<open>auto simp: vt_ok_defs untouched_def\<close>)
  then show "carries s t (set_retired_grid_reuse b t)" unfolding set_retired_grid_reuse_def by (intro on_handler_carries [OF ok])
  have e: "step (tm_h t) ((tm_h t)\<lparr>h_eager := b\<rparr>)" by (rule untouched_step; use h in \<open>auto simp: vt_ok_defs untouched_def\<close>)
  show "carries s t (set_eager_sync_freeze b t)" unfolding set_eager_sync_freeze_def
    using e step_trans [OF e freeze_whole_step [OF stepD(1) [OF e]]] by (intro on_handler_carries [OF ok] step_goes) (cases b; simp add: Let_def)
  show "carries s t (set_apc_cut_slicing b t)" using ok goes_refl [OF h] by (simp add: set_apc_cut_slicing_def carries_def term_ok_def)
qed

lemma drain_ok:
  assumes ok: "term_ok t"
  shows "term_ok (snd (term_take_dirty_regions t))" "presented_frame (tm_h (snd (term_take_dirty_regions t))) = presented_frame (tm_h t)"
    "region_cells (fst (term_take_dirty_regions t)) = damage_of (term_grid t)" "damage_of (term_grid (snd (term_take_dirty_regions t))) = {}"
    "screen (term_grid (snd (term_take_dirty_regions t))) = screen (term_grid t)"
    "gr_rows (term_grid (snd (term_take_dirty_regions t))) = gr_rows (term_grid t)" "gr_cols (term_grid (snd (term_take_dirty_regions t))) = gr_cols (term_grid t)"
proof -
  let ?h = "tm_h t" and ?t = "snd (term_take_dirty_regions t)"
  have h: "vt_ok ?h" using ok by (simp add: term_ok_def)
  obtain rs g where r: "take_dirty_regions (term_grid t) = (rs, g)" by fastforce
  note d = take_dirty_regions_spec [OF presented_grid_ok [OF h] r [unfolded term_grid_def], folded term_grid_def]
  have e: "?t = (case h_frozen_grid ?h of Some f \<Rightarrow> t\<lparr>tm_h := ?h\<lparr>h_frozen_grid := Some (f\<lparr>fs_grid := g\<rparr>)\<rparr>\<rparr> | None \<Rightarrow> t\<lparr>tm_h := ?h\<lparr>h_grid := g\<rparr>\<rparr>)"
    "fst (term_take_dirty_regions t) = rs"
    using r by (auto simp: term_take_dirty_regions_def term_grid_def presented_grid_def Let_def split: option.splits)
  have g: "term_grid ?t = g" by (cases "h_frozen_grid ?h") (simp_all add: e term_grid_def presented_grid_def)
  show "region_cells (fst (term_take_dirty_regions t)) = damage_of (term_grid t)" "damage_of (term_grid ?t) = {}" "screen (term_grid ?t) = screen (term_grid t)"
    "gr_rows (term_grid ?t) = gr_rows (term_grid t)" "gr_cols (term_grid ?t) = gr_cols (term_grid t)"
    using d e(2) g by simp_all
  show "presented_frame (tm_h ?t) = presented_frame ?h"
    using d(4) by (cases "h_frozen_grid ?h") (simp_all add: e(1) presented_defs term_grid_def)
  show "term_ok ?t"
  proof (cases "h_frozen_grid ?h")
    case None
    then have "usable (rows_of ?h) (cols_of ?h) g" using h d by (auto simp: vt_ok_defs usable_def term_grid_def presented_grid_def)
    then have "vt_ok (?h\<lparr>h_grid := g\<rparr>)" using h d(6,7) None by (simp add: vt_ok_defs term_grid_def presented_grid_def)
    then show ?thesis using ok None d(6,7) by (simp add: e(1) term_ok_def term_grid_def presented_grid_def)
  next
    case (Some f)
    then have "vt_ok (?h\<lparr>h_frozen_grid := Some (f\<lparr>fs_grid := g\<rparr>)\<rparr>)" using h d(3,8) by (auto simp: vt_ok_defs term_grid_def presented_grid_def)
    then show ?thesis using ok Some by (simp add: e(1) term_ok_def)
  qed
qed

lemma term_step_ok:
  assumes ok: "term_ok t"
  shows "\<exists>t'. term_step E op t = Some t' \<and> term_ok t' \<and> (op = OpDrain \<or> good (term_grid t) (term_grid t'))"
proof -
  have c: "carries False t t' \<Longrightarrow> term_ok t' \<and> good (term_grid t) (term_grid t')" for t' by (simp add: carries_def goes_def term_grid_def)
  show ?thesis
  proof (cases op)
    case (OpProcess bs now clock)
    obtain rs t' where "process_with_responses E now clock bs t = Some (rs, t')" "carries False t t'"
      using process_carries [OF ok, of False] by blast
    then show ?thesis using OpProcess c by auto
  next
    case (OpResize rows cols now)
    then show ?thesis using resize_ok [OF ok] by (simp add: term_grid_def)
  next
    case OpDrain
    then show ?thesis using drain_ok(1) [OF ok] by simp
  qed (use c release_expired_carries [OF ok] enter_carries [OF ok] leave_carries [OF ok] clear_scrollback_carries [OF ok] switches_carry [OF ok]
      on_status_carries [OF ok] in \<open>auto simp: note_process_exit_def\<close>)
qed

lemma handler_new_ok:
  assumes "0 < rows" "0 < cols" "gc_track_dirty config"
  shows "vt_ok (handler_new rows cols config counter)"
proof -
  have "usable rows cols (grid_new rows cols config)"
    using assms by (simp add: usable_def places_ok_def) (simp add: grid_new_def MAX_IMAGE_BYTES_def)
  moreover have "gr_rows (grid_new rows cols config) = rows" "gr_cols (grid_new rows cols config) = cols" by (simp_all add: grid_new_def)
  ultimately show ?thesis using assms by (simp add: vt_ok_defs handler_new_def default_modes_def)
qed

lemma terminal_new_ok: "term_ok (terminal_new p rows cols counter now)"
proof -
  have "vt_ok (handler_new (max rows 1) (max cols 1) default_grid_config (next_generation counter))"
    by (rule handler_new_ok) (auto simp: default_grid_config_def)
  then show ?thesis
    by (simp add: terminal_new_def terminal_with_config_def clamp_dims_def term_ok_def apc_ok_def osc_ok_def assembler_ok_def apc_scanner_new_def
        osc_scanner_new_def assembler_new_def u64_max_def Let_def)
      (simp add: handler_new_def grid_new_def)
qed

lemma term_run_ok: "term_ok t \<Longrightarrow> \<exists>t'. term_run E ops t = Some t' \<and> term_ok t'"
proof (induction ops arbitrary: t)
  case (Cons op ops)
  then show ?case using term_step_ok [OF Cons.prems, of E op] by auto
qed simp

section \<open>A renderer\<close>

text \<open>
  A renderer keeps a picture of the screen and repaints, at each drain, the cells of the regions it is
  handed, from the presented grid.
\<close>

type_synonym canvas = "usize \<Rightarrow> usize \<Rightarrow> cell"

definition repaint :: "dirty_region list \<Rightarrow> grid \<Rightarrow> canvas \<Rightarrow> canvas" where
  "repaint regions g p = (\<lambda>r c. if (r, c) \<in> region_cells regions then screen g r c else p r c)"

fun watch :: "'p term_env \<Rightarrow> term_op list \<Rightarrow> 'p terminal \<times> canvas \<Rightarrow> ('p terminal \<times> canvas) option" where
  "watch E [] tp = Some tp"
| "watch E (op # ops) (t, p) =
     do {
       let p = (if op = OpDrain then repaint (fst (term_take_dirty_regions t)) (term_grid t) p else p);
       t \<leftarrow> term_step E op t;
       watch E ops (t, p)
     }"

definition up_to_date :: "'p terminal \<Rightarrow> canvas \<Rightarrow> bool" where
  "up_to_date t p \<longleftrightarrow> (let g = term_grid t in \<forall>r < gr_rows g. \<forall>c < gr_cols g. (r, c) \<notin> damage_of g \<longrightarrow> p r c = screen g r c)"

definition painted :: "canvas \<Rightarrow> grid \<Rightarrow> cell list list" where
  "painted p g = map (\<lambda>r. map (p r) [0..<gr_cols g]) [0..<gr_rows g]"

definition viewport_cells :: "grid \<Rightarrow> cell list list" where
  "viewport_cells g = map r_cells (drop (scrollback_len g) (gr_raw g))"

lemma viewport_cells_screen:
  assumes ok: "grid_ok g"
  shows "viewport_cells g = painted (screen g) g"
proof (rule nth_equalityI)
  note d = grid_okD [OF ok]
  show "length (viewport_cells g) = length (painted (screen g) g)" using d(1,2) by (simp add: viewport_cells_def painted_def scrollback_len_def)
  fix r assume "r < length (viewport_cells g)"
  then have r: "r < gr_rows g" "scrollback_len g + r < length (gr_raw g)" using d(2) by (auto simp: viewport_cells_def)
  then have "length (r_cells (gr_raw g ! (scrollback_len g + r))) = gr_cols g" using d(3) by (simp add: row_ok_def)
  then show "viewport_cells g ! r = painted (screen g) g ! r"
    using r by (auto simp: viewport_cells_def painted_def screen_def intro: nth_equalityI)
qed

lemma watch_step:
  assumes ok: "term_ok t" and p: "up_to_date t p"
  shows "\<exists>t'. term_step E op t = Some t' \<and> term_ok t' \<and>
    up_to_date t' (if op = OpDrain then repaint (fst (term_take_dirty_regions t)) (term_grid t) p else p)"
proof (cases "op = OpDrain")
  case True
  then show ?thesis using drain_ok [OF ok] p by (auto simp: up_to_date_def repaint_def Let_def)
next
  case False
  obtain t' where t': "term_step E op t = Some t'" "term_ok t'" "good (term_grid t) (term_grid t')" using term_step_ok [OF ok, of E op] False by blast
  have "gc_track_dirty (gr_config (term_grid t))" using presented_tracked ok by (simp add: term_ok_def term_grid_def)
  then have "up_to_date t' p" using t'(3) p by (auto simp: good_def keeps_paint_def up_to_date_def Let_def)
  then show ?thesis using t' False by simp
qed

lemma watch_ok: "term_ok t \<Longrightarrow> up_to_date t p \<Longrightarrow> \<exists>t' p'. watch E ops (t, p) = Some (t', p') \<and> term_ok t' \<and> up_to_date t' p'"
proof (induction ops arbitrary: t p)
  case (Cons op ops)
  obtain t' where t': "term_step E op t = Some t'" "term_ok t'"
    "up_to_date t' (if op = OpDrain then repaint (fst (term_take_dirty_regions t)) (term_grid t) p else p)"
    using watch_step [OF Cons.prems, of E op] by blast
  show ?case using Cons.IH [OF t'(2,3)] t'(1) by (simp add: Let_def)
qed simp

lemma watch_append: "watch E (xs @ ys) tp = watch E xs tp \<bind> watch E ys"
proof (induction xs arbitrary: tp)
  case (Cons op xs)
  then show ?case by (cases tp) (simp add: Let_def)
qed simp

text \<open>Watching does not disturb the terminal.\<close>

lemma watch_runs: "watch E ops (t, p) = Some (t', p') \<Longrightarrow> term_run E ops t = Some t'"
proof (induction ops arbitrary: t p)
  case (Cons op ops)
  then obtain u q where "term_step E op t = Some u" "watch E ops (u, q) = Some (t', p')" by (auto simp: Let_def bind_eq_Some_conv)
  then show ?case using Cons.IH by simp
qed simp

end
