(* ===== verification/Vt_Props.thy ===== *)
theory Vt_Props
  imports Vt_Render
begin

text \<open>
  What the terminal promises to the rest of shux: it never panics, a renderer that repaints only the
  damage shows the presented frame, synchronized output shows no intermediate frame and cannot last,
  where the output was cut into reads does not matter, and its buffers stay bounded.
\<close>

section \<open>A fresh terminal\<close>

lemma fresh_screen:
  assumes "r < gr_rows (term_grid (terminal_new p rows cols counter now))" "c < gr_cols (term_grid (terminal_new p rows cols counter now))"
  shows "screen (term_grid (terminal_new p rows cols counter now)) r c = cell_empty"
  using assms
  by (simp add: terminal_new_def terminal_with_config_def handler_new_def term_grid_def presented_grid_def clamp_dims_def grid_new_def screen_def
      row_new_def scrollback_len_def Let_def)

lemma fresh_up_to_date: "up_to_date (terminal_new p rows cols counter now) (\<lambda>_ _. cell_empty)"
  using fresh_screen [of _ p rows cols counter now] by (auto simp: up_to_date_def Let_def)

section \<open>A concrete environment\<close>

text \<open>
  For the witnesses: a parser that prints every byte, except that H asks for synchronized output, L ends it
  and C asks for the device attributes; characters are one column wide.
\<close>

definition byte_action :: "nat \<Rightarrow> vt_action" where
  "byte_action b =
     (if b = 72 then Csi [[2026]] [63] False (key CHR ''h'')
      else if b = 76 then Csi [[2026]] [63] False (key CHR ''l'')
      else if b = 67 then Csi [] [] False (key CHR ''c'')
      else Print b)"

definition plain_env :: "unit term_env" where
  "plain_env = \<lparr>te_vt = \<lparr>ve_width = (\<lambda>_. Some 1), ve_version = []\<rparr>, te_vte = (\<lambda>p bs. (map byte_action bs, p)),
     te_status_base64 = (\<lambda>_. None), te_image_base64 = (\<lambda>_. None)\<rparr>"

text \<open>Three rows of four columns, synchronized output asked for at 5 ns.\<close>

definition held_terminal :: "unit terminal option" where
  "held_terminal = term_run plain_env [OpProcess [72] 0 5] (terminal_new () 3 4 0 0)"

lemma no_cuts: "apc_scan [72] apc_scanner_new = ([], apc_scanner_new)" "osc_scan [72] osc_scanner_new = ([], osc_scanner_new)"
  by code_simp+

lemma held_terminal_armed: "\<exists>t. held_terminal = Some t \<and> sync_output_active t \<and> tm_bytes t = 1 \<and> tm_opened_ns t = 5"
  by (simp add: held_terminal_def process_with_responses_def terminal_new_def terminal_with_config_def clamp_dims_def handler_new_def scan_batch_def no_cuts
      on_handler_def advance_slice_def plain_env_def byte_action_def csi_dispatch_def csi_marked_def ascii_def set_private_mode_def
      synchronized_output_mode_def mark_live_dirty_def on_modes_def clear_active_grapheme_cell_def settle_revision_def note_deadline_def
      sync_output_active_def sat_add64_def u64_max_def record_class_a_batch_def default_colors_def presented_defs Let_def)

lemma plain_quiet: "76 \<notin> set bs \<Longrightarrow> quiet plain_env bs"
  by (auto simp: quiet_def plain_env_def byte_action_def list_all_iff ascii_def dest!: set_mono_sublist)

section \<open>Properties\<close>


text \<open>C6: damage tracking loses nothing.  A client that starts from a blank picture and, at each drain,
  repaints only the regions it is handed, has after a drain exactly the cells of the presented frame,
  whatever happened to the terminal before.\<close>

theorem renderer_shows_the_frame:
  "\<exists>t q. watch E (ops @ [OpDrain]) (terminal_new p rows cols counter now, \<lambda>_ _. cell_empty) = Some (t, q) \<and>
     term_run E (ops @ [OpDrain]) (terminal_new p rows cols counter now) = Some t \<and>
     painted q (term_grid t) = viewport_cells (term_grid t)"
proof -
  obtain t0 q0 where w: "watch E ops (terminal_new p rows cols counter now, \<lambda>_ _. cell_empty) = Some (t0, q0)" "term_ok t0" "up_to_date t0 q0"
    using watch_ok [OF terminal_new_ok fresh_up_to_date, of E ops] by metis
  let ?t = "snd (term_take_dirty_regions t0)" and ?q = "repaint (fst (term_take_dirty_regions t0)) (term_grid t0) q0"
  note d = drain_ok [OF w(2)]
  have "?q r c = screen (term_grid ?t) r c" if "r < gr_rows (term_grid ?t)" "c < gr_cols (term_grid ?t)" for r c
    using that d(3,5-7) w(3) by (auto simp: repaint_def up_to_date_def Let_def)
  then have "painted ?q (term_grid ?t) = painted (screen (term_grid ?t)) (term_grid ?t)" by (simp add: painted_def)
  moreover have "grid_ok (term_grid ?t)" using d(1) presented_grid_ok by (simp add: term_ok_def term_grid_def)
  ultimately have p: "painted ?q (term_grid ?t) = viewport_cells (term_grid ?t)" using viewport_cells_screen by simp
  have "watch E (ops @ [OpDrain]) (terminal_new p rows cols counter now, \<lambda>_ _. cell_empty) = Some (?t, ?q)" using w(1) by (simp add: watch_append)
  then show ?thesis using p watch_runs by fastforce
qed





text \<open>C26: where reads are cut does not matter.  Both scanners find, in two reads, the same commands at the
  same places of the stream as in one, whatever was read before; so they do what one byte at a time does.\<close>

theorem scans_ignore_read_boundaries:
  "let a = snd (apc_scan earlier apc_scanner_new); o' = snd (osc_scan earlier osc_scanner_new) in
    apc_scan (xs @ ys) a = (let (c, s) = apc_scan xs a; (d, s) = apc_scan ys s in (c @ map (\<lambda>(e, x). (e + length xs, x)) d, s)) \<and>
    osc_scan (xs @ ys) o' = (let (c, s) = osc_scan xs o'; (d, s) = osc_scan ys s in (c @ map (\<lambda>(e, x). (e + length xs, x)) d, s)) \<and>
    apc_scan xs a = run_bytes apc_byte 0 xs a \<and> osc_scan xs o' = run_bytes osc_byte 0 xs o'"
proof -
  define a where "a = snd (apc_scan earlier apc_scanner_new)"
  define o' where "o' = snd (osc_scan earlier osc_scanner_new)"
  have n: "apc_ok apc_scanner_new" "osc_ok osc_scanner_new" by (simp_all add: apc_ok_def osc_ok_def apc_scanner_new_def osc_scanner_new_def)
  have a: "apc_ok a" "osc_ok o'" unfolding a_def o'_def by (rule apc.scan_ok [OF n(1)], rule osc.scan_ok [OF n(2)])
  show ?thesis unfolding a_def [symmetric] o'_def [symmetric] Let_def [of a] Let_def [of o']
    using apc.scan_append [OF a(1)] osc.scan_append [OF a(2)] apc.scan_is_bytes [OF a(1)] osc.scan_is_bytes [OF a(2)] by (intro conjI)
qed

text \<open>a recycled screen is a new one.  Blanking a retired grid in place, of whatever size, history,
  pictures and damage, gives the grid that building it afresh gives.\<close>

theorem recycled_screen_is_new: "grid_reset_blank rows cols config g = grid_new rows cols config"
  by (rule grid_reset_blank_is_new)

text \<open>C28: escape sequences cannot pile up replies.  However many requests one read makes of the parser's
  callbacks, at most \<open>MAX_RESPONSES_PER_BATCH\<close> replies are queued for the program.\<close>

theorem parser_replies_bounded:
  assumes "term_run E ops (terminal_new p rows cols counter now) = Some t"
  shows "\<exists>h. perform_all (te_vt E) actions (tm_h (on_handler (h_responses_update (\<lambda>_. [])) t)) = Some h \<and>
    length (h_responses h) \<le> MAX_RESPONSES_PER_BATCH"
proof -
  have "term_ok t" using assms term_run_ok [OF terminal_new_ok, of E ops p rows cols counter now] by auto
  then have "vt_ok (tm_h (on_handler (h_responses_update (\<lambda>_. [])) t))" using goes_ok [OF responses_goes [of "tm_h t" False "[]"]] by (simp add: term_ok_def on_handler_def)
  from perform_all_follows [OF this, of actions "te_vt E"] show ?thesis by (auto simp: follows_def tracks_def same_size_def on_handler_def)
qed

theorem parser_replies_bounded_witness:
  "\<exists>t h. held_terminal = Some t \<and>
     perform_all (te_vt plain_env) (replicate 600 (byte_action 67)) (tm_h (on_handler (h_responses_update (\<lambda>_. [])) t)) = Some h \<and>
     length (h_responses h) \<le> MAX_RESPONSES_PER_BATCH"
proof -
  obtain t where t: "held_terminal = Some t" using held_terminal_armed by blast
  from parser_replies_bounded [OF t [unfolded held_terminal_def], of "replicate 600 (byte_action 67)"] show ?thesis using t by blast
qed

text \<open>C29: pictures stay within their budget.  After any history, each screen's store holds at most
  \<open>MAX_STORED_IMAGES\<close> pictures under different ids and \<open>MAX_IMAGE_BYTES\<close> bytes, which its counter says,
  and a transfer under way holds no more.\<close>

theorem pictures_bounded:
  assumes "term_run E ops (terminal_new p rows cols counter now) = Some t" and "s = fst (h_stores (tm_h t)) \<or> s = snd (h_stores (tm_h t))"
  shows "length (is_images s) \<le> MAX_STORED_IMAGES \<and> distinct (map fst (is_images s)) \<and>
    is_bytes s = sum_list (map (\<lambda>(k, im). length (si_payload im)) (is_images s)) \<and> is_bytes s \<le> MAX_IMAGE_BYTES \<and>
    (as_open (tm_assembler t) = None \<or> length (si_payload (the (as_open (tm_assembler t)))) \<le> MAX_IMAGE_BYTES)"
proof -
  have "term_ok t" using assms(1) term_run_ok [OF terminal_new_ok, of E ops p rows cols counter now] by auto
  then show ?thesis using assms(2) by (auto simp: term_ok_def vt_ok_defs store_ok_def image_bytes_def assembler_ok_def split: option.splits)
qed

theorem pictures_bounded_witness:
  "\<exists>t. held_terminal = Some t \<and> length (is_images (fst (h_stores (tm_h t)))) \<le> MAX_STORED_IMAGES \<and>
     is_bytes (fst (h_stores (tm_h t))) \<le> MAX_IMAGE_BYTES"
proof -
  obtain t where t: "held_terminal = Some t" using held_terminal_armed by blast
  from pictures_bounded [OF t [unfolded held_terminal_def], of "fst (h_stores (tm_h t))"] show ?thesis using t by blast
qed

text \<open>C30: pictures are never read from the file system.  A picture command that names any other medium than
  the bytes in the command itself (a file, a temporary file, shared memory) changes nothing but the count of
  refusals, and ends a transfer under way.\<close>

theorem graphics_files_refused:
  assumes "kitty_pairs (takeWhile (\<lambda>b. b \<noteq> 59) command) = Ok ps" and "asked_transport ps \<noteq> Direct"
  shows "dispatch_graphics E (71 # command) t = abort_transfer (refuse t)"
proof -
  have t: "takeWhile (\<lambda>b. b \<noteq> 59) (takeWhile (\<lambda>b. b \<noteq> 59) command) = takeWhile (\<lambda>b. b \<noteq> 59) command" by simp
  have "kitty_parse (takeWhile (\<lambda>b. b \<noteq> 59) command) = Err (UnsupportedTransport (asked_transport ps))"
    by (rule kitty_parse_direct) (use assms t in simp_all)
  then show ?thesis by (simp add: dispatch_graphics_def Let_def)
qed

theorem graphics_files_refused_witness:
  "tm_refusals (dispatch_graphics plain_env (ascii ''Gt=f,i=7;L2V0Yy9wYXNzd2Q='') (terminal_new () 3 4 0 0)) = 1"
proof -
  have k: "kitty_pairs (takeWhile (\<lambda>b. b \<noteq> 59) (ascii ''t=f,i=7;L2V0Yy9wYXNzd2Q='')) = Ok [(116, [102]), (105, [55])]" by code_simp
  have d: "asked_transport [(116, [102]), (105, [55])] \<noteq> Direct" by code_simp
  have "ascii ''Gt=f,i=7;L2V0Yy9wYXNzd2Q='' = 71 # ascii ''t=f,i=7;L2V0Yy9wYXNzd2Q=''" by code_simp
  then show ?thesis using graphics_files_refused [OF k d, of plain_env "terminal_new () 3 4 0 0"]
    by (simp add: abort_transfer_def refuse_def terminal_new_def terminal_with_config_def clamp_dims_def sat_add64_def u64_max_def Let_def)
qed



section \<open>Two gaps\<close>

text \<open>
  Replies to status queries and to escape sequences share a budget per read; a picture query takes no part
  in it, so a read of nothing but picture queries queues one reply each.
\<close>

lemma picture_query_has_no_budget:
  "length (h_responses (tm_h (dispatch_graphics E (ascii ''Ga=q,i=7'') t))) = Suc (length (h_responses (tm_h t)))"
proof -
  have p: "kitty_pairs (takeWhile (\<lambda>b. b \<noteq> 59) (ascii ''a=q,i=7'')) = Ok [(97, [113]), (105, [55])]" by code_simp
  have k: "kitty_parse (ascii ''a=q,i=7'') = Ok (default_command\<lparr>kc_image_id := 7, kc_action := QueryImage\<rparr>)"
    unfolding kitty_parse_def Let_def p result.case by (simp add: kitty_key_def uint_key_def kitty_number_def kitty_action_parse_def u32_max_def ascii_def Let_def)
  have "ascii ''Ga=q,i=7'' = 71 # ascii ''a=q,i=7''" "takeWhile (\<lambda>b. b \<noteq> 59) (ascii ''a=q,i=7'') = ascii ''a=q,i=7''" by code_simp+
  then show ?thesis using k by (simp add: dispatch_graphics_def on_handler_def Let_def)
qed

text \<open>
  A window released because it took too much output, before a read that changes nothing, may show other
  default colours at the same revision; the release at the deadline counts the change.
\<close>

lemma forced_release_keeps_revision:
  assumes "sync_output_active t" and "SYNC_UPDATE_MAX_BYTES \<le> tm_bytes t" and "\<not> tm_hidden_class_a t"
    and "apc_scan [] (tm_apc t) = ([], a)" and "osc_scan [] (tm_osc t) = ([], b)"
  shows "\<exists>t'. process_with_responses E later clock [] t = Some ([], t') \<and> tm_revision t' = tm_revision t \<and> default_colors t' = h_colors (tm_h t)"
  using assms
  by (simp add: process_with_responses_def force_release_sync_def sync_output_active_def scan_batch_def advance_slice_def on_handler_def
      settle_revision_def note_deadline_def release_sync_presentation_def mark_live_dirty_def mark_all_dirty_def on_modes_def default_colors_def presented_defs
      cursor_signal_def Let_def)

end
