(* ===== verification/Vt_Log.thy ===== *)
theory Vt_Log
  imports Vt_Commands
begin

text \<open>
  The commands of a shell as a log that forgets nothing, and the bounded list of \<^verbatim>\<open>commands.rs\<close> as its end:
  a lookup gives the command the whole log gives, or says that it cannot know.
\<close>

section \<open>The log\<close>

text \<open>A mark in the output: a command starts, ends, or a prompt shows that it has.\<close>

datatype mark = MarkStart | MarkEnd "int option" | MarkPrompt

fun boundary :: "mark \<Rightarrow> command_boundaries \<times> u64 \<Rightarrow> command_boundaries \<times> u64" where
  "boundary MarkStart = cb_on_start"
| "boundary (MarkEnd exit_code) = cb_on_end exit_code"
| "boundary MarkPrompt = cb_on_prompt"

type_synonym command_log = "u64 option \<times> command_record list \<times> u64"

fun log_close :: "int option \<Rightarrow> ended_by \<Rightarrow> command_log \<Rightarrow> command_log" where
  "log_close e how (None, all, n) = (None, all, n)"
| "log_close e how (Some s, all, n) =
     (None, all @ [\<lparr>cr_started = s, cr_ended = next_generation n, cr_exit_code = e, cr_ended_by = how\<rparr>], next_generation n)"

fun log_mark :: "mark \<Rightarrow> command_log \<Rightarrow> command_log" where
  "log_mark MarkStart l = (case log_close None EndedByNextCommand l of (_, all, n) \<Rightarrow> (Some (next_generation n), all, next_generation n))"
| "log_mark (MarkEnd e) l = log_close e EndedByEnd l"
| "log_mark MarkPrompt l = log_close None EndedByPrompt l"

section \<open>The bounded list is its end\<close>

definition forgotten :: "command_record list \<Rightarrow> command_record list" where
  "forgotten all = take (length all - KEEP_ENDED) all"

fun kept :: "command_log \<Rightarrow> command_boundaries \<times> u64" where
  "kept (o', all, n) =
     (\<lparr>cb_open = o', cb_ended = drop (length all - KEEP_ENDED) all,
       cb_dropped_through = (if forgotten all = [] then 0 else cr_started (last (forgotten all)))\<rparr>, n)"

lemma forgotten_snoc:
  "forgotten (all @ [r]) = (if length all < KEEP_ENDED then [] else forgotten all @ [all ! (length all - KEEP_ENDED)])"
proof (cases "length all < KEEP_ENDED")
  case False
  then have "length (all @ [r]) - KEEP_ENDED = Suc (length all - KEEP_ENDED)" "length all - KEEP_ENDED < length all" by (simp_all add: KEEP_ENDED_def)
  then show ?thesis using False by (simp add: forgotten_def take_Suc_conv_app_nth)
qed (simp add: forgotten_def)

lemma trim_kept:
  "cb_trim (drop (length all - KEEP_ENDED) all @ [r]) d =
     (drop (length (all @ [r]) - KEEP_ENDED) (all @ [r]), if length all < KEEP_ENDED then d else cr_started (all ! (length all - KEEP_ENDED)))"
proof (cases "length all < KEEP_ENDED")
  case False
  let ?k = "length all - KEEP_ENDED"
  have k: "?k < length all" using False by (simp add: KEEP_ENDED_def)
  have "drop ?k all = all ! ?k # drop (Suc ?k) all" by (rule Cons_nth_drop_Suc [symmetric, OF k])
  moreover have "length (drop (Suc ?k) all @ [r]) = KEEP_ENDED" using False by (simp add: KEEP_ENDED_def)
  ultimately show ?thesis using False cb_trim_one by (simp add: Suc_diff_le)
qed (simp add: cb_trim_short)

lemma close_kept: "cb_close e how (kept l) = kept (log_close e how l)"
proof (cases l)
  case (fields o' all n)
  then show ?thesis by (cases o') (simp_all add: cb_close_def trim_kept forgotten_snoc, simp add: forgotten_def)
qed

lemma mark_kept: "boundary m (kept l) = kept (log_mark m l)"
  by (cases m) (simp_all add: cb_on_start_def cb_on_end_def cb_on_prompt_def close_kept split: prod.split)

lemma marks_kept: "fold boundary ms (kept l) = kept (fold log_mark ms l)"
  by (induction ms arbitrary: l) (simp_all add: mark_kept)

section \<open>Stamps in order\<close>

fun log_ok :: "command_log \<Rightarrow> bool" where
  "log_ok (o', all, n) \<longleftrightarrow> sorted_wrt (<) (map cr_started all) \<and> (\<forall>c \<in> set all. cr_started c \<le> n) \<and>
     (\<forall>s. o' = Some s \<longrightarrow> s \<le> n \<and> (\<forall>c \<in> set all. cr_started c < s))"

lemma close_ok:
  assumes "log_ok l" "unat (snd (snd l)) < 2 ^ 64 - 1"
  shows "log_ok (log_close e how l)" "unat (snd (snd (log_close e how l))) \<le> unat (snd (snd l)) + 1" "fst (log_close e how l) = None"
proof -
  obtain o' all n where l: "l = (o', all, n)" by (cases l)
  note up = stamp_up [of n]
  show "log_ok (log_close e how l)" using assms up
    by (cases o') (auto simp: l sorted_wrt_append intro: order_trans less_imp_le le_less_trans)
  show "unat (snd (snd (log_close e how l))) \<le> unat (snd (snd l)) + 1" "fst (log_close e how l) = None"
    using assms up by (cases o'; simp add: l)+
qed

lemma mark_ok:
  assumes "log_ok l" "unat (snd (snd l)) + 2 < 2 ^ 64"
  shows "log_ok (log_mark m l) \<and> unat (snd (snd (log_mark m l))) \<le> unat (snd (snd l)) + 2"
proof -
  have room: "unat (snd (snd l)) < 2 ^ 64 - 1" using assms(2) by simp
  show ?thesis
  proof (cases m)
    case MarkStart
    obtain o' all n where c: "log_close None EndedByNextCommand l = (o', all, n)" by (cases "log_close None EndedByNextCommand l")
    note k = close_ok [OF assms(1) room, of None EndedByNextCommand, unfolded c]
    have "n < next_generation n \<and> unat (next_generation n) = unat n + 1" using stamp_up [of n] k(2) assms(2) by simp
    then show ?thesis using k MarkStart c by (auto intro: order_trans less_imp_le le_less_trans)
  qed (use close_ok(1,2) [OF assms(1) room] in \<open>simp_all add: le_SucI\<close>)
qed

lemma marks_ok:
  assumes "log_ok l" "unat (snd (snd l)) + 2 * length ms < 2 ^ 64"
  shows "log_ok (fold log_mark ms l)"
  using assms
proof (induction ms arbitrary: l)
  case (Cons m ms)
  have "unat (snd (snd l)) + 2 < 2 ^ 64" using Cons.prems(2) by simp
  from mark_ok [OF Cons.prems(1) this, of m] show ?case using Cons.IH [of "log_mark m l"] Cons.prems(2) by simp
qed simp

section \<open>Looking a command up\<close>

lemma find_append_None: "List.find P xs = None \<Longrightarrow> List.find P (xs @ ys) = List.find P ys"
  by (induction xs) (auto split: if_splits)

lemma sorted_last_least:
  "sorted_wrt (<) (map f (xs @ [y])) \<Longrightarrow> x \<in> set xs \<Longrightarrow> f x \<le> (f y :: 'a :: order)"
  by (auto simp: sorted_wrt_append intro: less_imp_le)

lemma forgotten_below:
  assumes "sorted_wrt (<) (map cr_started all)" "forgotten all \<noteq> []" "c \<in> set (forgotten all)"
  shows "cr_started c \<le> cr_started (last (forgotten all))"
proof -
  have s: "sorted_wrt (<) (map cr_started (forgotten all))" using assms(1) by (simp add: forgotten_def take_map [symmetric] sorted_wrt_take)
  have f: "forgotten all = butlast (forgotten all) @ [last (forgotten all)]" using assms(2) by simp
  show ?thesis using sorted_last_least [of cr_started "butlast (forgotten all)" "last (forgotten all)" c] s assms(3) f
    by (metis Un_iff empty_iff insert_iff list.set(1,2) order_refl set_append)
qed

text \<open>C33: looking up a shell command never gives a wrong one.  Of the commands marked in the output, in the
  order they ended and with none forgotten, the bounded list answers with the first that started after the
  floor, or that there is none yet; where that answer could need a forgotten command it says so instead.\<close>

theorem command_lookup_refines_log:
  assumes "unat counter + 2 * length marks < 2 ^ 64"
  shows "let (_, all, _) = fold log_mark marks (None, [], counter); after = List.find (\<lambda>c. floor < cr_started c) all in
    case cb_first_after floor (fst (fold boundary marks (cb_new, counter))) of
      CommandFound c \<Rightarrow> after = Some c
    | CommandPending \<Rightarrow> after = None
    | CommandOverrun \<Rightarrow> \<exists>c \<in> set (forgotten all). floor < cr_started c"
proof -
  have new: "(cb_new, counter) = kept (None, [], counter)" by (simp add: cb_new_def forgotten_def)
  obtain o' all n where l: "fold log_mark marks (None, [], counter) = (o', all, n)" by (cases "fold log_mark marks (None, [], counter)")
  have ok: "log_ok (o', all, n)" using marks_ok [of "(None, [], counter)" marks] assms l by simp
  let ?p = "\<lambda>c. floor < cr_started c"
  have b: "fst (fold boundary marks (cb_new, counter)) = fst (kept (o', all, n))" unfolding new marks_kept l ..
  show ?thesis
  proof (cases "\<exists>c \<in> set (forgotten all). ?p c")
    case True
    then have "floor < cr_started (last (forgotten all)) \<and> forgotten all \<noteq> []"
      using ok forgotten_below by (fastforce dest: less_le_trans)
    then show ?thesis using True by (simp add: l b cb_first_after_def)
  next
    case False
    then have f: "List.find ?p (forgotten all) = None" by (auto simp: find_None_iff)
    have "all = forgotten all @ drop (length all - KEEP_ENDED) all" by (simp add: forgotten_def)
    then have a: "List.find ?p all = List.find ?p (drop (length all - KEEP_ENDED) all)" using f by (metis find_append_None)
    have "\<not> (forgotten all \<noteq> [] \<and> floor < cr_started (last (forgotten all)))" using False by auto
    then show ?thesis using a by (auto simp: l b cb_first_after_def split: option.splits)
  qed
qed

theorem command_lookup_refines_log_witness:
  "(case fold log_mark [MarkStart, MarkEnd (Some 0), MarkStart, MarkPrompt] (None, [], 0) of (_, all, _) \<Rightarrow> length all = 2) \<and>
   (case cb_first_after 1 (fst (fold boundary [MarkStart, MarkEnd (Some 0), MarkStart, MarkPrompt] (cb_new, 0))) of
      CommandFound c \<Rightarrow> cr_started c = 3 \<and> cr_ended_by c = EndedByPrompt | _ \<Rightarrow> False)"
  using command_lookup_refines_log [of 0 "[MarkStart, MarkEnd (Some 0), MarkStart, MarkPrompt]" 1]
  by (simp add: cb_on_start_def cb_on_end_def cb_on_prompt_def cb_close_def cb_new_def cb_trim_short KEEP_ENDED_def next_generation_def cb_first_after_def)

end
