(* ===== verification/Vt_Settle.thy ===== *)
theory Vt_Settle
  imports Vt_Grid
begin

text \<open>
  When a frame has settled, \<open>FrameStability\<close> of \<^verbatim>\<open>shux-vt/src/settle.rs\<close>: runs of equal frames at consecutive
  revisions and the time since the last change.  A frame is its hash; revisions and nanoseconds are
  64-bit counters, here natural numbers below \<open>2 ^ 64\<close>.
\<close>

record frame_stability =
  st_last_rev :: nat
  st_last_hash :: nat
  st_run_len :: nat
  st_last_change_ns :: nat
  st_coalesced :: bool

definition st_seed :: "nat \<Rightarrow> nat \<Rightarrow> nat \<Rightarrow> frame_stability" where
  "st_seed rv hash now = \<lparr>st_last_rev = rv, st_last_hash = hash, st_run_len = 1, st_last_change_ns = now, st_coalesced = False\<rparr>"

definition st_observe :: "nat \<Rightarrow> nat \<Rightarrow> nat \<Rightarrow> frame_stability \<Rightarrow> frame_stability" where
  "st_observe rv hash now s =
     (if rv \<le> st_last_rev s then s
      else
        let contiguous = (rv = st_last_rev s + 1); changed = (hash \<noteq> st_last_hash s);
            s = (if \<not> contiguous then s\<lparr>st_coalesced := True, st_run_len := 1, st_last_change_ns := now\<rparr>
                 else if changed then s\<lparr>st_run_len := 1, st_last_change_ns := now\<rparr>
                 else s\<lparr>st_run_len := min (st_run_len s + 1) u32_max\<rparr>)
        in s\<lparr>st_last_rev := rv, st_last_hash := hash\<rparr>)"

definition sat_mul64 :: "nat \<Rightarrow> nat \<Rightarrow> nat" where
  "sat_mul64 a b = min (a * b) u64_max"

definition st_is_settled :: "nat \<Rightarrow> nat \<Rightarrow> nat \<Rightarrow> frame_stability \<Rightarrow> bool" where
  "st_is_settled stable_frames hold_ms now s \<longleftrightarrow>
     (stable_frames \<le> 1 \<or> stable_frames \<le> st_run_len s) \<and>
     (hold_ms = 0 \<or> sat_mul64 hold_ms 1000000 \<le> now - st_last_change_ns s)"

definition st_ns_until_hold :: "nat \<Rightarrow> nat \<Rightarrow> frame_stability \<Rightarrow> nat" where
  "st_ns_until_hold hold_ms now s = sat_mul64 hold_ms 1000000 - (now - st_last_change_ns s)"

section \<open>What a settled frame means\<close>

text \<open>The wakes of the loop: each reads a revision, the frame at it and the clock.\<close>

definition observed :: "(nat \<Rightarrow> nat) \<Rightarrow> (nat \<times> nat) list \<Rightarrow> frame_stability \<Rightarrow> frame_stability" where
  "observed frame wakes s = fold (\<lambda>(rv, now). st_observe rv (frame rv) now) wakes s"

definition stable_ok :: "(nat \<Rightarrow> nat) \<Rightarrow> frame_stability \<Rightarrow> bool" where
  "stable_ok frame s \<longleftrightarrow> 1 \<le> st_run_len s \<and> st_run_len s \<le> st_last_rev s + 1 \<and> st_last_hash s = frame (st_last_rev s) \<and>
     (\<forall>i < st_run_len s. frame (st_last_rev s - i) = st_last_hash s)"

lemma seed_ok: "stable_ok frame (st_seed rv (frame rv) now)"
  by (simp add: stable_ok_def st_seed_def)

lemma observe_ok:
  assumes "stable_ok frame s"
  shows "stable_ok frame (st_observe rv (frame rv) now s)"
proof (cases "rv = st_last_rev s + 1 \<and> frame rv = st_last_hash s")
  case True
  have "frame (Suc (st_last_rev s) - i) = st_last_hash s" if "i < st_run_len s + 1" for i
    using that True assms by (cases i) (auto simp: stable_ok_def)
  then show ?thesis using True assms by (auto simp: stable_ok_def st_observe_def u32_max_def Let_def)
qed (use assms in \<open>auto simp: stable_ok_def st_observe_def Let_def\<close>)

lemma observed_ok: "stable_ok frame s \<Longrightarrow> stable_ok frame (observed frame wakes s)"
  unfolding observed_def by (induction wakes arbitrary: s) (auto simp: observe_ok)



text \<open>The time owed on a hold is over exactly when the hold is.\<close>

lemma hold_over: "st_is_settled 1 hold_ms now s \<longleftrightarrow> st_ns_until_hold hold_ms now s = 0"
  by (auto simp: st_is_settled_def st_ns_until_hold_def sat_mul64_def)

end
