(* ===== verification/Vt_Diff.thy ===== *)
theory Vt_Diff
  imports Vt_Grid
begin

text \<open>
  The comparison of two frames, \<^verbatim>\<open>shux-vt/src/diff.rs\<close>: which cells differ, as a mask, as spans of columns per
  row, as a count and as a bounding box.  The trait \<open>CellGridView\<close> is a record of what its methods return.
\<close>

section \<open>Views\<close>

record cursor_state =
  cst_row :: usize
  cst_col :: usize
  cst_visible :: bool

record cell_grid_view =
  vw_rows :: usize
  vw_cols :: usize
  vw_cell :: "usize \<Rightarrow> usize \<Rightarrow> cell"
  vw_defaults :: terminal_default_colors
  vw_cursor :: cursor_state
  vw_palette_overridden :: bool
  vw_alt_screen :: bool

definition grid_frame :: "grid \<Rightarrow> terminal_default_colors \<Rightarrow> cursor_state \<Rightarrow> bool \<Rightarrow> cell_grid_view" where
  "grid_frame g defaults cursor palette =
     \<lparr>vw_rows = gr_rows g, vw_cols = gr_cols g,
      vw_cell = (\<lambda>row col. case grid_row g (scrollback_len g + row) of
                              Some r \<Rightarrow> (case row_get r col of Some c \<Rightarrow> c | None \<Rightarrow> cell_empty)
                            | None \<Rightarrow> cell_empty),
      vw_defaults = defaults, vw_cursor = cursor, vw_palette_overridden = palette, vw_alt_screen = False\<rparr>"

record lens_row_span =
  sp_row :: u16
  sp_start :: u16
  sp_end :: u16

record frame_diff =
  fd_cells_changed :: nat
  fd_regions :: "lens_row_span list"
  fd_regions_truncated :: bool
  fd_bounding_box :: "u16 \<times> u16 \<times> u16 \<times> u16"
  fd_cursor_moved :: bool
  fd_palette_overridden_differs :: bool
  fd_geometry_changed :: bool
  fd_changed_rows :: "usize list"
  fd_changed_mask :: "bool list"
  fd_rows :: usize
  fd_cols :: usize

definition MAX_SPANS :: usize where "MAX_SPANS = 256"

section \<open>The mask\<close>

definition cells_differ :: "cell_grid_view \<Rightarrow> cell_grid_view \<Rightarrow> usize \<Rightarrow> usize \<Rightarrow> bool" where
  "cells_differ a b r c \<longleftrightarrow>
     (let ca = vw_cell a r c; cb = vw_cell b r c;
          fg_default_changed = (tdc_fg (vw_defaults a) \<noteq> tdc_fg (vw_defaults b));
          bg_default_changed = (tdc_bg (vw_defaults a) \<noteq> tdc_bg (vw_defaults b))
      in ca \<noteq> cb \<or> fg_default_changed \<and> cs_fg (c_style ca) = ColorDefault \<and> cs_fg (c_style cb) = ColorDefault \<or>
         bg_default_changed \<and> cs_bg (c_style ca) = ColorDefault \<and> cs_bg (c_style cb) = ColorDefault)"

definition cells_wide :: "cell_grid_view \<Rightarrow> cell_grid_view \<Rightarrow> usize \<Rightarrow> usize \<Rightarrow> bool" where
  "cells_wide a b r c \<longleftrightarrow> is_wide (vw_cell a r c) \<or> is_wide (vw_cell b r c)"

text \<open>A \<open>rows \<times> cols\<close> vector, filled row by row.\<close>

definition filled :: "usize \<Rightarrow> usize \<Rightarrow> (usize \<Rightarrow> usize \<Rightarrow> bool) \<Rightarrow> bool list" where
  "filled rows cols f = concat (map (\<lambda>r. map (f r) [0..<cols]) [0..<rows])"

definition pair_step :: "bool list \<Rightarrow> usize \<Rightarrow> bool list \<Rightarrow> bool list" where
  "pair_step wide i changed =
     (if wide ! i \<and> (changed ! i \<or> changed ! (i + 1)) then changed[i := True, i + 1 := True] else changed)"

definition pair_wide :: "usize \<Rightarrow> usize \<Rightarrow> bool list \<Rightarrow> bool list \<Rightarrow> bool list" where
  "pair_wide rows cols wide changed =
     fold (\<lambda>r. fold (\<lambda>c. pair_step wide (r * cols + c)) [0..<cols - 1]) [0..<rows] changed"

section \<open>Spans\<close>

record diff_walk =
  dw_regions :: "lens_row_span list"
  dw_rows :: "usize list"
  dw_cells :: nat
  dw_min_row :: usize
  dw_min_col :: usize
  dw_max_row :: usize
  dw_max_col :: usize

function run_end :: "bool list \<Rightarrow> usize \<Rightarrow> usize \<Rightarrow> usize \<Rightarrow> usize" where
  "run_end changed base cols c = (if c < cols \<and> changed ! (base + c) then run_end changed base cols (c + 1) else c)"
  by pat_completeness auto
termination by (relation "measure (\<lambda>(_, _, cols, c). cols - c)") auto

declare run_end.simps [simp del]

definition note_span :: "usize \<Rightarrow> usize \<Rightarrow> usize \<Rightarrow> diff_walk \<Rightarrow> diff_walk" where
  "note_span r start c w =
     w\<lparr>dw_cells := dw_cells w + (c - start),
       dw_regions := dw_regions w @ [\<lparr>sp_row = wrap16 r, sp_start = wrap16 start, sp_end = wrap16 c\<rparr>],
       dw_min_row := min (dw_min_row w) r, dw_max_row := max (dw_max_row w) r,
       dw_min_col := min (dw_min_col w) start, dw_max_col := max (dw_max_col w) (c - 1)\<rparr>"

lemma run_end_ge: "c \<le> run_end changed base cols c"
  by (induction changed base cols c rule: run_end.induct) (subst run_end.simps, auto)

lemma run_end_less: "c < cols \<Longrightarrow> changed ! (base + c) \<Longrightarrow> c < run_end changed base cols c"
  using run_end_ge [of "c + 1" changed base cols] by (subst run_end.simps) simp

function scan_row :: "bool list \<Rightarrow> usize \<Rightarrow> usize \<Rightarrow> usize \<Rightarrow> bool \<times> diff_walk \<Rightarrow> bool \<times> diff_walk" where
  "scan_row changed cols r c (had, w) =
     (if c < cols then
        (if changed ! (r * cols + c)
         then let e = run_end changed (r * cols) cols c in scan_row changed cols r e (True, note_span r c e w)
         else scan_row changed cols r (c + 1) (had, w))
      else (had, w))"
  by pat_completeness auto
termination
  by (relation "measure (\<lambda>(_, cols, _, c, _). cols - c)") (auto intro!: diff_less_mono2 run_end_less)

declare scan_row.simps [simp del]

definition walk_row :: "bool list \<Rightarrow> usize \<Rightarrow> usize \<Rightarrow> diff_walk \<Rightarrow> diff_walk" where
  "walk_row changed cols r w =
     (let (had, w) = scan_row changed cols r 0 (False, w) in if had then w\<lparr>dw_rows := dw_rows w @ [r]\<rparr> else w)"

definition diff_frames :: "cell_grid_view \<Rightarrow> cell_grid_view \<Rightarrow> frame_diff" where
  "diff_frames a b =
     (let rows = min (vw_rows a) (vw_rows b); cols = min (vw_cols a) (vw_cols b);
          wide = filled rows cols (cells_wide a b);
          changed = pair_wide rows cols wide (filled rows cols (cells_differ a b));
          w = fold (walk_row changed cols) [0..<rows]
                \<lparr>dw_regions = [], dw_rows = [], dw_cells = 0, dw_min_row = usize_max, dw_min_col = usize_max, dw_max_row = 0, dw_max_col = 0\<rparr>;
          truncated = (MAX_SPANS < length (dw_regions w))
      in \<lparr>fd_cells_changed = dw_cells w, fd_regions = (if truncated then [] else dw_regions w), fd_regions_truncated = truncated,
          fd_bounding_box = (if dw_cells w = 0 then (0, 0, 0, 0)
                             else (wrap16 (dw_min_row w), wrap16 (dw_min_col w), wrap16 (dw_max_row w + 1), wrap16 (dw_max_col w + 1))),
          fd_cursor_moved = (vw_cursor a \<noteq> vw_cursor b), fd_palette_overridden_differs = (vw_palette_overridden a \<noteq> vw_palette_overridden b),
          fd_geometry_changed = (vw_rows a \<noteq> vw_rows b \<or> vw_cols a \<noteq> vw_cols b), fd_changed_rows = dw_rows w, fd_changed_mask = changed,
          fd_rows = rows, fd_cols = cols\<rparr>)"

section \<open>The mask is exact\<close>

lemma filled_Suc: "filled (Suc n) cols f = filled n cols f @ map (f n) [0..<cols]"
  by (simp add: filled_def)

lemma length_filled [simp]: "length (filled rows cols f) = rows * cols"
  by (induction rows) (simp_all add: filled_Suc, simp add: filled_def)

lemma place_less: "r < rows \<Longrightarrow> c < cols \<Longrightarrow> r * cols + c < rows * cols" for r rows c cols :: nat
proof -
  assume r: "r < rows" and c: "c < cols"
  have "r * cols + c < Suc r * cols" using c by simp
  also have "\<dots> \<le> rows * cols" using r by (intro mult_le_mono1) simp
  finally show ?thesis .
qed

lemma filled_nth [simp]: "r < rows \<Longrightarrow> c < cols \<Longrightarrow> filled rows cols f ! (r * cols + c) = f r c"
proof (induction rows)
  case (Suc n)
  then show ?case using place_less [of r n c cols] by (cases "r = n") (auto simp: filled_Suc nth_append)
qed simp

lemma pair_step_simps [simp]:
  "length (pair_step wide i m) = length m" "i + 1 < length m \<Longrightarrow> True \<in> set (pair_step wide i m) \<longleftrightarrow> True \<in> set m"
  by (auto simp: pair_step_def in_set_conv_nth nth_list_update)

lemma pair_step_nth: "i + 1 < length m \<Longrightarrow> pair_step wide i m ! k = (m ! k \<or> wide ! i \<and> (m ! i \<or> m ! (i + 1)) \<and> (k = i \<or> k = i + 1))"
  by (auto simp: pair_step_def nth_list_update)

definition pair_row :: "usize \<Rightarrow> bool list \<Rightarrow> usize \<Rightarrow> usize \<Rightarrow> bool list \<Rightarrow> bool list" where
  "pair_row cols wide n r = fold (\<lambda>c. pair_step wide (r * cols + c)) [0..<n]"

lemma pair_row_Suc: "pair_row cols wide (Suc n) r m = pair_step wide (r * cols + n) (pair_row cols wide n r m)"
  by (simp add: pair_row_def)

lemma pair_row_all:
  assumes "n < cols" "r < rows" "length m = rows * cols"
  shows "length (pair_row cols wide n r m) = rows * cols \<and> (True \<in> set (pair_row cols wide n r m) \<longleftrightarrow> True \<in> set m) \<and>
    (\<forall>k. k < rows * cols \<and> m ! k \<longrightarrow> pair_row cols wide n r m ! k) \<and>
    (\<forall>k. k < r * cols \<or> r * cols + n < k \<longrightarrow> pair_row cols wide n r m ! k = m ! k)"
  using assms(1)
proof (induction n)
  case (Suc n)
  let ?p = "pair_row cols wide n r m"
  have ih: "length ?p = rows * cols" "True \<in> set ?p \<longleftrightarrow> True \<in> set m" "\<forall>k. k < rows * cols \<and> m ! k \<longrightarrow> ?p ! k"
    "\<forall>k. k < r * cols \<or> r * cols + n < k \<longrightarrow> ?p ! k = m ! k"
    using Suc by simp_all
  have i: "r * cols + n + 1 < length ?p" using place_less [of r rows "n + 1" cols] Suc.prems assms ih(1) by simp
  show ?case using ih i by (auto simp: pair_row_Suc pair_step_nth)
qed (use assms in \<open>simp_all add: pair_row_def\<close>)

lemma pair_row_facts:
  assumes "n < cols" "r < rows" "length m = rows * cols"
  shows "length (pair_row cols wide n r m) = rows * cols" "True \<in> set (pair_row cols wide n r m) \<longleftrightarrow> True \<in> set m"
    "k < rows * cols \<Longrightarrow> m ! k \<Longrightarrow> pair_row cols wide n r m ! k"
    "k < r * cols \<or> r * cols + n < k \<Longrightarrow> pair_row cols wide n r m ! k = m ! k"
  using pair_row_all [OF assms, of wide] by blast+

text \<open>
  Left to right, a row's wide characters end up whole, where a wide one on one side that starts inside a
  wide one on the other is a difference to begin with.
\<close>

lemma pair_row_whole:
  assumes n: "n < cols" "r < rows" "length m = rows * cols"
    and clash: "\<And>c. c + 1 < cols \<Longrightarrow> wide ! (r * cols + c) \<Longrightarrow> wide ! (r * cols + c + 1) \<Longrightarrow> m ! (r * cols + c)"
  shows "c < n \<Longrightarrow> wide ! (r * cols + c) \<Longrightarrow> pair_row cols wide n r m ! (r * cols + c) = pair_row cols wide n r m ! (r * cols + c + 1)"
  using n
proof (induction n arbitrary: c)
  case (Suc n)
  let ?p = "pair_row cols wide n r m" and ?i = "r * cols + n"
  have n: "n < cols" "r < rows" using Suc.prems by simp_all
  have i: "?i + 1 < length ?p" using place_less [of r rows "n + 1" cols] Suc.prems pair_row_facts(1) [OF n assms(3)] by simp
  show ?case
  proof (cases "c = n")
    case True
    then show ?thesis using Suc.prems(2) i by (auto simp: pair_row_Suc pair_step_nth)
  next
    case False
    then have c: "c < n" using Suc.prems(1) by simp
    have eq: "?p ! (r * cols + c) = ?p ! (r * cols + c + 1)" using Suc.IH [OF c Suc.prems(2) n assms(3)] by simp
    have "?p ! (r * cols + c)" if "c + 1 = n" "wide ! ?i"
    proof -
      have "m ! (r * cols + c)" using clash [of c] that Suc.prems by (auto simp: add.assoc)
      then show ?thesis using pair_row_facts(3) [OF n assms(3), of "r * cols + c" wide] place_less [of r rows c cols] c n by simp
    qed
    then show ?thesis using eq i c by (auto simp: pair_row_Suc pair_step_nth)
  qed
qed simp

definition no_clash :: "usize \<Rightarrow> usize \<Rightarrow> bool list \<Rightarrow> bool list \<Rightarrow> bool" where
  "no_clash rows cols wide m \<longleftrightarrow>
     (\<forall>r c. r < rows \<and> c + 1 < cols \<and> wide ! (r * cols + c) \<and> wide ! (r * cols + c + 1) \<longrightarrow> m ! (r * cols + c))"

lemma pair_wide_rows: "pair_wide (Suc n) cols wide m = pair_row cols wide (cols - 1) n (pair_wide n cols wide m)"
  by (simp add: pair_wide_def pair_row_def)

lemma pair_wide_all:
  assumes "n \<le> rows" "0 < cols" "length m = rows * cols"
  shows "length (pair_wide n cols wide m) = rows * cols \<and> (True \<in> set (pair_wide n cols wide m) \<longleftrightarrow> True \<in> set m) \<and>
    (\<forall>k. k < rows * cols \<and> m ! k \<longrightarrow> pair_wide n cols wide m ! k) \<and> (\<forall>k \<ge> n * cols. pair_wide n cols wide m ! k = m ! k) \<and>
    (no_clash rows cols wide m \<longrightarrow> (\<forall>r c. r < n \<and> c + 1 < cols \<and> wide ! (r * cols + c) \<longrightarrow> pair_wide n cols wide m ! (r * cols + c) = pair_wide n cols wide m ! (r * cols + c + 1)))"
  using assms(1)
proof (induction n)
  case (Suc n)
  let ?p = "pair_wide n cols wide m"
  have ih: "length ?p = rows * cols" "True \<in> set ?p \<longleftrightarrow> True \<in> set m" "\<And>k. k < rows * cols \<Longrightarrow> m ! k \<Longrightarrow> ?p ! k" "\<And>k. n * cols \<le> k \<Longrightarrow> ?p ! k = m ! k"
    "\<And>r c. no_clash rows cols wide m \<Longrightarrow> r < n \<Longrightarrow> c + 1 < cols \<Longrightarrow> wide ! (r * cols + c) \<Longrightarrow> ?p ! (r * cols + c) = ?p ! (r * cols + c + 1)"
    using Suc by auto
  have n: "cols - 1 < cols" "n < rows" using Suc.prems assms(2) by simp_all
  note f = pair_row_facts [OF n ih(1), where wide = wide]
  have cl: "?p ! (n * cols + c)" if "no_clash rows cols wide m" "c + 1 < cols" "wide ! (n * cols + c)" "wide ! (n * cols + c + 1)" for c
    using that n(2) ih(4) by (simp add: no_clash_def)
  have w: "pair_wide (Suc n) cols wide m ! (r * cols + c) = pair_wide (Suc n) cols wide m ! (r * cols + c + 1)"
    if "no_clash rows cols wide m" "r < Suc n" "c + 1 < cols" "wide ! (r * cols + c)" for r c
  proof (cases "r = n")
    case True
    then show ?thesis using pair_row_whole [OF n ih(1) cl [OF that(1)], where c = c] that by (simp add: pair_wide_rows)
  next
    case False
    then have "r * cols + (c + 1) < n * cols" using that place_less [of r n "c + 1" cols] by simp
    then show ?thesis using f(4) ih(5) [of r c] that False by (simp add: pair_wide_rows)
  qed
  have "pair_wide (Suc n) cols wide m ! k = m ! k" if "Suc n * cols \<le> k" for k
    using that f(4) [of k] ih(4) [of k] assms(2) by (simp add: pair_wide_rows)
  then show ?case using f(1-3) ih(2,3) w by (simp add: pair_wide_rows)
qed (use assms in \<open>simp_all add: pair_wide_def\<close>)

section \<open>The walk is exact\<close>

definition span_cells :: "lens_row_span list \<Rightarrow> (nat \<times> nat) set" where
  "span_cells ss = {(r, c). \<exists>s \<in> set ss. sp_row s = r \<and> sp_start s \<le> c \<and> c < sp_end s}"

definition spans_cover :: "(nat \<times> nat) set \<Rightarrow> diff_walk \<Rightarrow> diff_walk \<Rightarrow> bool" where
  "spans_cover X w w' \<longleftrightarrow> (\<exists>ss. dw_regions w' = dw_regions w @ ss \<and> (X \<subseteq> {..<u16_max} \<times> {..<u16_max} \<longrightarrow> span_cells ss = X))"

text \<open>What walking over the changed cells \<open>X\<close> does.\<close>

definition walked :: "(nat \<times> nat) set \<Rightarrow> diff_walk \<Rightarrow> diff_walk \<Rightarrow> bool" where
  "walked X w w' \<longleftrightarrow> finite X \<and> dw_cells w' = dw_cells w + card X \<and>
     (\<forall>k. dw_min_row w' \<le> k \<longleftrightarrow> dw_min_row w \<le> k \<or> (\<exists>x \<in> X. fst x \<le> k)) \<and>
     (\<forall>k. dw_min_col w' \<le> k \<longleftrightarrow> dw_min_col w \<le> k \<or> (\<exists>x \<in> X. snd x \<le> k)) \<and>
     (\<forall>k. k \<le> dw_max_row w' \<longleftrightarrow> k \<le> dw_max_row w \<or> (\<exists>x \<in> X. k \<le> fst x)) \<and>
     (\<forall>k. k \<le> dw_max_col w' \<longleftrightarrow> k \<le> dw_max_col w \<or> (\<exists>x \<in> X. k \<le> snd x)) \<and> spans_cover X w w'"

lemma spans_cover_trans: "spans_cover X w w' \<Longrightarrow> spans_cover Y w' w'' \<Longrightarrow> spans_cover (X \<union> Y) w w''"
proof -
  assume x: "spans_cover X w w'" and y: "spans_cover Y w' w''"
  obtain ss where s: "dw_regions w' = dw_regions w @ ss" "X \<subseteq> {..<u16_max} \<times> {..<u16_max} \<longrightarrow> span_cells ss = X"
    using x unfolding spans_cover_def by blast
  obtain ts where t: "dw_regions w'' = dw_regions w' @ ts" "Y \<subseteq> {..<u16_max} \<times> {..<u16_max} \<longrightarrow> span_cells ts = Y"
    using y unfolding spans_cover_def by blast
  have "span_cells (ss @ ts) = span_cells ss \<union> span_cells ts" by (auto simp: span_cells_def)
  then show ?thesis using s t unfolding spans_cover_def by (intro exI [of _ "ss @ ts"]) (simp add: Un_subset_iff)
qed

lemma walked_trans:
  assumes x: "walked X w w'" and y: "walked Y w' w''" and d: "X \<inter> Y = {}"
  shows "walked (X \<union> Y) w w''"
proof -
  have "spans_cover (X \<union> Y) w w''" by (rule spans_cover_trans [of X w w']) (use x y in \<open>simp_all add: walked_def\<close>)
  then show ?thesis using x y d by (simp add: walked_def card_Un_disjoint bex_Un disj_assoc)
qed

lemma walked_none [simp]: "walked {} w w"
  by (auto simp: walked_def spans_cover_def span_cells_def)

lemma note_span_cover:
  assumes "start < e"
  shows "spans_cover ({r} \<times> {start..<e}) w (note_span r start e w)"
proof -
  let ?s = "\<lparr>sp_row = wrap16 r, sp_start = wrap16 start, sp_end = wrap16 e\<rparr>"
  have "span_cells [?s] = {r} \<times> {start..<e}" if u: "{r} \<times> {start..<e} \<subseteq> {..<u16_max} \<times> {..<u16_max}"
  proof -
    have "(r, start) \<in> {..<u16_max} \<times> {..<u16_max}" by (rule subsetD [OF u]) (use assms in simp)
    moreover have "(r, e - 1) \<in> {..<u16_max} \<times> {..<u16_max}" by (rule subsetD [OF u]) (use assms in auto)
    ultimately have "r \<le> u16_max" "start \<le> u16_max" "e \<le> u16_max" by auto
    then show ?thesis by (auto simp: span_cells_def)
  qed
  then show ?thesis by (auto simp: spans_cover_def note_span_def)
qed

lemma note_span_walked:
  assumes "start < e"
  shows "walked ({r} \<times> {start..<e}) w (note_span r start e w)"
proof -
  have b: "(\<exists>x\<in>{r} \<times> {start..<e}. fst x \<le> k) \<longleftrightarrow> r \<le> k" "(\<exists>x\<in>{r} \<times> {start..<e}. k \<le> fst x) \<longleftrightarrow> k \<le> r"
    "(\<exists>x\<in>{r} \<times> {start..<e}. snd x \<le> k) \<longleftrightarrow> start \<le> k" "(\<exists>x\<in>{r} \<times> {start..<e}. k \<le> snd x) \<longleftrightarrow> k \<le> e - 1" for k
    using assms by (auto intro: bexI [of _ start] bexI [of _ "e - 1"])
  show ?thesis unfolding walked_def b using note_span_cover [OF assms]
    by (simp add: note_span_def card_cartesian_product_singleton min_le_iff_disj le_max_iff_disj)
qed

lemma run_end_spec: "c \<le> cols \<Longrightarrow> run_end changed base cols c \<le> cols \<and> (\<forall>x. c \<le> x \<and> x < run_end changed base cols c \<longrightarrow> changed ! (base + x))"
proof (induction changed base cols c rule: run_end.induct)
  case (1 changed base cols c)
  show ?case
  proof (cases "c < cols \<and> changed ! (base + c)")
    case True
    then have "run_end changed base cols c = run_end changed base cols (c + 1)" by (subst run_end.simps) simp
    moreover have "changed ! (base + x)" if "c \<le> x" "x < run_end changed base cols (c + 1)" for x
      using that True 1 by (cases "x = c") auto
    ultimately show ?thesis using 1 True by auto
  next
    case False
    then show ?thesis using "1.prems" by (subst (1 2) run_end.simps) auto
  qed
qed

definition row_changes :: "bool list \<Rightarrow> usize \<Rightarrow> usize \<Rightarrow> usize \<Rightarrow> (nat \<times> nat) set" where
  "row_changes changed cols r c = {r} \<times> {x. c \<le> x \<and> x < cols \<and> changed ! (r * cols + x)}"

lemma scan_row_walked:
  assumes "c \<le> cols" "scan_row changed cols r c (had, w) = (had', w')"
  shows "walked (row_changes changed cols r c) w w' \<and> (had' \<longleftrightarrow> had \<or> row_changes changed cols r c \<noteq> {}) \<and> dw_rows w' = dw_rows w"
  using assms
proof (induction changed cols r c "(had, w)" arbitrary: had w rule: scan_row.induct)
  case (1 changed cols r c had w)
  let ?e = "run_end changed (r * cols) cols c"
  consider (over) "\<not> c < cols" | (same) "c < cols" "\<not> changed ! (r * cols + c)" | (run) "c < cols" "changed ! (r * cols + c)" by blast
  then show ?case
  proof cases
    case over
    then have "row_changes changed cols r c = {}" by (auto simp: row_changes_def)
    then show ?thesis using "1.prems" over by (simp add: scan_row.simps)
  next
    case same
    then have "row_changes changed cols r c = row_changes changed cols r (c + 1)"
      by (auto simp: row_changes_def Suc_le_eq le_less)
    then show ?thesis using 1(2) [OF same] "1.prems" same by (simp add: scan_row.simps [of changed cols r c])
  next
    case run
    note e = run_end_spec [of c cols changed "r * cols"] run_end_less [OF run]
    have "row_changes changed cols r c = {r} \<times> {c..<?e} \<union> row_changes changed cols r ?e" "({r} \<times> {c..<?e}) \<inter> row_changes changed cols r ?e = {}"
      using e "1.prems"(1) by (auto simp: row_changes_def)
    moreover have "scan_row changed cols r ?e (True, note_span r c ?e w) = (had', w')" using "1.prems"(2) run by (simp add: scan_row.simps [of changed cols r c] Let_def)
    moreover have "dw_rows (note_span r c ?e w) = dw_rows w" "(r, c) \<in> {r} \<times> {c..<?e}" using e(2) by (simp_all add: note_span_def)
    ultimately show ?thesis using 1(1) [OF run refl] e "1.prems"(1) walked_trans [OF note_span_walked [OF e(2)]] by auto
  qed
qed

definition changes :: "bool list \<Rightarrow> usize \<Rightarrow> usize \<Rightarrow> (nat \<times> nat) set" where
  "changes changed rows cols = {(r, c). r < rows \<and> c < cols \<and> changed ! (r * cols + c)}"

lemma walked_rows [simp]: "walked X w (w'\<lparr>dw_rows := rs\<rparr>) = walked X w w'"
  by (simp add: walked_def spans_cover_def)

lemma walk_rows:
  "walked (changes changed n cols) w (fold (walk_row changed cols) [0..<n] w) \<and>
   dw_rows (fold (walk_row changed cols) [0..<n] w) = dw_rows w @ filter (\<lambda>r. \<exists>c < cols. changed ! (r * cols + c)) [0..<n]"
proof (induction n)
  case 0
  have "changes changed 0 cols = {}" by (simp add: changes_def)
  then show ?case by simp
next
  case (Suc n)
  let ?w = "fold (walk_row changed cols) [0..<n] w"
  obtain had w' where s: "scan_row changed cols n 0 (False, ?w) = (had, w')" by fastforce
  have r: "row_changes changed cols n 0 = {n} \<times> {c. c < cols \<and> changed ! (n * cols + c)}" by (auto simp: row_changes_def)
  have st: "fold (walk_row changed cols) [0..<Suc n] w = (if had then w'\<lparr>dw_rows := dw_rows w' @ [n]\<rparr> else w')"
    using s by (simp add: walk_row_def [of changed cols n])
  have "changes changed (Suc n) cols = changes changed n cols \<union> row_changes changed cols n 0" "changes changed n cols \<inter> row_changes changed cols n 0 = {}"
    by (auto simp: changes_def r less_Suc_eq)
  moreover note f = scan_row_walked [OF le0 s]
  moreover have "had \<longleftrightarrow> (\<exists>c < cols. changed ! (n * cols + c))" using f by (auto simp: r)
  ultimately show ?case using Suc walked_trans [of "changes changed n cols" w ?w "row_changes changed cols n 0" w'] unfolding st by auto
qed

lemma least_of:
  fixes m big :: nat
  assumes "\<forall>k. m \<le> k \<longleftrightarrow> big \<le> k \<or> (\<exists>x \<in> X. f x \<le> k)" "finite X" "x \<in> X" "f x < big"
  shows "m = Min (f ` X)"
proof (rule antisym)
  have "Min (f ` X) \<in> f ` X" using assms(2,3) by (intro Min_in) auto
  then show "m \<le> Min (f ` X)" using assms(1) by auto
  have "m \<le> f x" using assms(1,3) by blast
  then have "\<not> big \<le> m" using assms(4) by simp
  then obtain y where "y \<in> X" "f y \<le> m" using spec [OF assms(1), of m] by auto
  then show "Min (f ` X) \<le> m" using assms(2) by (meson Min_le finite_imageI imageI le_trans)
qed

lemma greatest_of:
  fixes m :: nat
  assumes "\<forall>k. k \<le> m \<longleftrightarrow> k \<le> 0 \<or> (\<exists>x \<in> X. k \<le> f x)" "finite X" "x \<in> X"
  shows "m = Max (f ` X)"
proof (rule antisym)
  have "Max (f ` X) \<in> f ` X" using assms(2,3) by (intro Max_in) auto
  then show "Max (f ` X) \<le> m" using assms(1) by auto
  show "m \<le> Max (f ` X)"
  proof (cases "m = 0")
    case False
    then obtain y where "y \<in> X" "m \<le> f y" using spec [OF assms(1), of m] by auto
    then show ?thesis using assms(2) by (meson Max_ge finite_imageI imageI le_trans)
  qed simp
qed

lemma finite_changes [simp]: "finite (changes m rows cols)"
  by (rule finite_subset [of _ "{..<rows} \<times> {..<cols}"]) (auto simp: changes_def)

lemma changes_none:
  assumes "length m = rows * cols" "0 < cols"
  shows "changes m rows cols = {} \<longleftrightarrow> True \<notin> set m"
proof -
  have "(k div cols, k mod cols) \<in> changes m rows cols" if "k < rows * cols" "m ! k" for k
    using that assms(2) by (simp add: changes_def less_mult_imp_div_less)
  moreover have "r * cols + c < length m" if "(r, c) \<in> changes m rows cols" for r c
    using that place_less assms(1) by (auto simp: changes_def)
  ultimately show ?thesis using assms(1) by (auto simp: in_set_conv_nth) (auto simp: changes_def)
qed

lemma diff_reports_its_mask_count:
  "fd_cells_changed (diff_frames a b) =
     card (changes (fd_changed_mask (diff_frames a b)) (fd_rows (diff_frames a b)) (fd_cols (diff_frames a b)))"
  using walk_rows by (simp add: diff_frames_def walked_def Let_def)

lemma diff_none_iff:
  "fd_cells_changed (diff_frames a b) = 0 \<longleftrightarrow> (\<forall>r < fd_rows (diff_frames a b). \<forall>c < fd_cols (diff_frames a b). \<not> cells_differ a b r c)"
proof (cases "min (vw_cols a) (vw_cols b) = 0")
  case True
  then have "fd_cols (diff_frames a b) = 0" by (simp add: diff_frames_def Let_def)
  then show ?thesis using diff_reports_its_mask_count [of a b] by (simp add: changes_def)
next
  case False
  define rows where "rows = min (vw_rows a) (vw_rows b)"
  define cols where "cols = min (vw_cols a) (vw_cols b)"
  let ?wide = "filled rows cols (cells_wide a b)" and ?diff = "filled rows cols (cells_differ a b)"
  let ?m = "pair_wide rows cols ?wide ?diff"
  have d: "fd_rows (diff_frames a b) = rows" "fd_cols (diff_frames a b) = cols" "fd_changed_mask (diff_frames a b) = ?m"
    by (simp_all add: diff_frames_def rows_def cols_def Let_def)
  have p: "0 < cols" using False by (simp add: cols_def)
  note all = pair_wide_all [OF le_refl p length_filled, of rows ?wide "cells_differ a b"]
  have "fd_cells_changed (diff_frames a b) = 0 \<longleftrightarrow> changes ?m rows cols = {}"
    using diff_reports_its_mask_count [of a b] d by (simp add: finite_changes)
  also have "\<dots> \<longleftrightarrow> True \<notin> set ?m" using changes_none [of ?m rows cols] all p by simp
  also have "\<dots> \<longleftrightarrow> True \<notin> set ?diff" using all by blast
  also have "\<dots> \<longleftrightarrow> changes ?diff rows cols = {}" using changes_none [of ?diff rows cols] p by simp
  finally show ?thesis unfolding d by (auto simp: changes_def)
qed

text \<open>Two small frames: blank, and with one letter.\<close>

definition blank_view :: cell_grid_view where
  "blank_view = \<lparr>vw_rows = 1, vw_cols = 2, vw_cell = (\<lambda>_ _. cell_empty), vw_defaults = \<lparr>tdc_fg = None, tdc_bg = None, tdc_cursor = None\<rparr>,
     vw_cursor = \<lparr>cst_row = 0, cst_col = 0, cst_visible = True\<rparr>, vw_palette_overridden = False, vw_alt_screen = False\<rparr>"

definition letter_view :: cell_grid_view where
  "letter_view = blank_view\<lparr>vw_cell := (\<lambda>_ c. if c = 1 then cell_alignment else cell_empty)\<rparr>"

lemma letter_mask: "pair_wide 1 2 (filled 1 2 (cells_wide blank_view letter_view)) (filled 1 2 (cells_differ blank_view letter_view)) = [False, True]"
  by (simp add: pair_wide_def pair_step_def filled_def cells_wide_def cells_differ_def blank_view_def letter_view_def upt_rec)
    (simp add: cell_empty_def cell_alignment_def)

lemma letter_diff:
  "fd_regions_truncated (diff_frames blank_view letter_view) = False" "fd_rows (diff_frames blank_view letter_view) = 1"
  "fd_cols (diff_frames blank_view letter_view) = 2" "fd_changed_mask (diff_frames blank_view letter_view) = [False, True]"
proof -
  have d: "min (vw_rows blank_view) (vw_rows letter_view) = 1" "min (vw_cols blank_view) (vw_cols letter_view) = 2"
    by (simp_all add: blank_view_def letter_view_def)
  have e: "run_end [False, True] 0 2 1 = 2" by (simp add: run_end.simps)
  show "fd_rows (diff_frames blank_view letter_view) = 1" "fd_cols (diff_frames blank_view letter_view) = 2"
    "fd_changed_mask (diff_frames blank_view letter_view) = [False, True]"
    unfolding diff_frames_def Let_def d letter_mask by simp_all
  show "fd_regions_truncated (diff_frames blank_view letter_view) = False"
    unfolding diff_frames_def Let_def d letter_mask using e by (simp add: walk_row_def scan_row.simps note_span_def MAX_SPANS_def)
qed

section \<open>Properties\<close>





end
