(* ===== verification/Vt_Capture.thy ===== *)
theory Vt_Capture
  imports Vt_Diff Vt_Render
begin

text \<open>
  Frames as goldens, \<^verbatim>\<open>shux-vt/src/capture.rs\<close> and the golden view of \<^verbatim>\<open>diff.rs\<close>: a row becomes runs of cells of one
  style, blank cells are left out, masked columns are replaced by their number, and the runs are read back
  into cells.  The JSON text around the envelope is \<^verbatim>\<open>serde\<close>'s and is left out; so is the wording of errors.
  \<open>UnderlineStyleRepr\<close>, \<open>CursorShapeRepr\<close> and \<open>Defaults\<close> have the constructors and fields of the types they
  copy, and are those types here.
\<close>

section \<open>Styles\<close>

definition SCHEMA_VERSION :: nat where "SCHEMA_VERSION = 1"

datatype capture_error = UnsupportedSchema nat nat | NonCanonical u16

datatype cap_color = CapIdx u8 | CapRgb u8 u8 u8

fun cap_from_color :: "color \<Rightarrow> cap_color option" where
  "cap_from_color ColorDefault = None"
| "cap_from_color (Indexed i) = Some (CapIdx i)"
| "cap_from_color (Rgb r g b) = Some (CapRgb r g b)"

fun cap_to_color :: "cap_color \<Rightarrow> color" where
  "cap_to_color (CapIdx i) = Indexed i"
| "cap_to_color (CapRgb r g b) = Rgb r g b"

definition color_from_opt :: "cap_color option \<Rightarrow> color" where
  "color_from_opt x = (case x of Some c \<Rightarrow> cap_to_color c | None \<Rightarrow> ColorDefault)"

record cap_style =
  cap_fg :: "cap_color option"
  cap_bg :: "cap_color option"
  cap_bold :: bool
  cap_dim :: bool
  cap_italic :: bool
  cap_underline :: bool
  cap_blink :: bool
  cap_inverse :: bool
  cap_hidden :: bool
  cap_strikethrough :: bool
  cap_hyperlink :: "rstring option"
  cap_underline_color :: "cap_color option"
  cap_underline_style :: underline_style

definition cap_from_cell :: "cell \<Rightarrow> cap_style" where
  "cap_from_cell c =
     (let s = c_style c; f = cs_flags s; ext = c_extended c
      in \<lparr>cap_fg = cap_from_color (cs_fg s), cap_bg = cap_from_color (cs_bg s), cap_bold = flags_contain f BOLD, cap_dim = flags_contain f DIM,
          cap_italic = flags_contain f ITALIC, cap_underline = flags_contain f UNDERLINE, cap_blink = flags_contain f BLINK,
          cap_inverse = flags_contain f INVERSE, cap_hidden = flags_contain f HIDDEN, cap_strikethrough = flags_contain f STRIKETHROUGH,
          cap_hyperlink = Option.bind ext xa_hyperlink, cap_underline_color = Option.bind (Option.bind ext xa_underline_color) cap_from_color,
          cap_underline_style = (case ext of Some e \<Rightarrow> xa_underline_style e | None \<Rightarrow> UnderlineNone)\<rparr>)"

definition cap_to_flags :: "cap_style \<Rightarrow> cell_flags" where
  "cap_to_flags s =
     (let set_if = (\<lambda>b flag f. if b then flags_set f flag else f)
      in (set_if (cap_strikethrough s) STRIKETHROUGH \<circ> set_if (cap_hidden s) HIDDEN \<circ> set_if (cap_inverse s) INVERSE \<circ>
          set_if (cap_blink s) BLINK \<circ> set_if (cap_underline s) UNDERLINE \<circ> set_if (cap_italic s) ITALIC \<circ>
          set_if (cap_dim s) DIM \<circ> set_if (cap_bold s) BOLD) (CellFlags 0))"

definition cap_to_extended :: "cap_style \<Rightarrow> rstring option \<Rightarrow> extended_attrs option" where
  "cap_to_extended s g =
     (let uc = map_option cap_to_color (cap_underline_color s); us = cap_underline_style s
      in if g = None \<and> cap_hyperlink s = None \<and> uc = None \<and> us = UnderlineNone then None
         else Some \<lparr>xa_grapheme = g, xa_hyperlink = cap_hyperlink s, xa_underline_color = uc, xa_underline_style = us\<rparr>)"

section \<open>Runs\<close>

datatype run_content = SimpleRun rstring | ComplexRun "rstring list"

datatype run = CellsRun u16 run_content cap_style | MaskRun u16 u16

record row_repr =
  rr_row :: u16
  rr_runs :: "run list"

record cursor_repr =
  cr_row :: u16
  cr_col :: u16
  cr_visible :: bool
  cr_shape :: cursor_shape

record frame_envelope =
  fe_schema :: nat
  fe_rows :: u16
  fe_cols :: u16
  fe_alt_screen :: bool
  fe_defaults :: terminal_default_colors
  fe_cursor :: cursor_repr
  fe_palette_overridden :: bool
  fe_lines :: "row_repr list"

section \<open>Masks\<close>

record mask_rect =
  mr_row :: u16
  mr_col :: u16
  mr_width :: u16

type_synonym mask_set = "mask_rect list"

definition masks_with :: "u16 \<Rightarrow> u16 \<Rightarrow> u16 \<Rightarrow> mask_set \<Rightarrow> mask_set" where
  "masks_with row col width ms = (if 0 < width then ms @ [\<lparr>mr_row = row, mr_col = col, mr_width = width\<rparr>] else ms)"

definition rect_covers :: "u16 \<Rightarrow> u16 \<Rightarrow> mask_rect \<Rightarrow> bool" where
  "rect_covers row col r \<longleftrightarrow> mr_row r = row \<and> mr_col r \<le> col \<and> col < sat_add16 (mr_col r) (mr_width r)"

definition masked :: "u16 \<Rightarrow> u16 \<Rightarrow> mask_set \<Rightarrow> bool" where
  "masked row col ms = list_ex (rect_covers row col) ms"

definition any_in_row :: "u16 \<Rightarrow> mask_set \<Rightarrow> bool" where
  "any_in_row row ms = list_ex (\<lambda>r. mr_row r = row) ms"

definition cursor_redaction_col :: "u16 \<Rightarrow> u16 \<Rightarrow> mask_set \<Rightarrow> u16 option" where
  "cursor_redaction_col row col ms =
     (case map mr_col (filter (rect_covers row col) ms) of [] \<Rightarrow> None | x # xs \<Rightarrow> Some (fold min xs x))"

section \<open>From cells to runs\<close>

definition cell_is_simple :: "cell \<Rightarrow> bool" where
  "cell_is_simple c \<longleftrightarrow> c_width c = 1 \<and> Option.bind (c_extended c) xa_grapheme = None"

definition cell_is_blank_default :: "cell \<Rightarrow> bool" where
  "cell_is_blank_default c \<longleftrightarrow> c_ch c = 32 \<and> c_width c = 1 \<and> c_style c = default_style \<and> c_extended c = None"

record run_builder =
  rb_start :: u16
  rb_entries :: "rstring list"
  rb_style :: cap_style
  rb_all_simple :: bool
  rb_next_col :: u16

definition builder_finish :: "run_builder \<Rightarrow> run" where
  "builder_finish b =
     CellsRun (rb_start b) (if rb_all_simple b then SimpleRun (concat (rb_entries b)) else ComplexRun (rb_entries b)) (rb_style b)"

definition mask_step :: "(usize \<Rightarrow> cell option) \<Rightarrow> usize \<Rightarrow> usize \<Rightarrow> bool list \<Rightarrow> bool list" where
  "mask_step cell cols c m =
     (if (case cell c of Some x \<Rightarrow> is_wide x | None \<Rightarrow> False) \<and> c + 1 < cols \<and> (m ! c \<or> m ! (c + 1)) then m[c := True, c + 1 := True] else m)"

definition masked_columns :: "(usize \<Rightarrow> cell option) \<Rightarrow> usize \<Rightarrow> u16 \<Rightarrow> mask_set \<Rightarrow> bool list" where
  "masked_columns cell cols row ms = fold (mask_step cell cols) [0..<cols] (map (\<lambda>c. masked row (wrap16 c) ms) [0..<cols])"

text \<open>The locals of the loop: the runs so far, the run being built, and where the masked stretch began.\<close>

record build_state =
  bs_runs :: "run list"
  bs_cur :: "run_builder option"
  bs_mask_start :: "u16 option"

definition flush_cells :: "build_state \<Rightarrow> build_state" where
  "flush_cells s = (case bs_cur s of Some b \<Rightarrow> s\<lparr>bs_cur := None, bs_runs := bs_runs s @ [builder_finish b]\<rparr> | None \<Rightarrow> s)"

definition end_mask :: "u16 \<Rightarrow> build_state \<Rightarrow> build_state" where
  "end_mask col s = (case bs_mask_start s of Some ms \<Rightarrow> s\<lparr>bs_mask_start := None, bs_runs := bs_runs s @ [MaskRun ms (col - ms)]\<rparr> | None \<Rightarrow> s)"

definition push_cell :: "u16 \<Rightarrow> cell \<Rightarrow> build_state \<Rightarrow> build_state" where
  "push_cell col c s =
     (let style = cap_from_cell c;
          matches = (case bs_cur s of Some b \<Rightarrow> rb_style b = style \<and> rb_next_col b = col | None \<Rightarrow> False);
          s = (if matches then s
               else (flush_cells s)\<lparr>bs_cur := Some \<lparr>rb_start = col, rb_entries = [], rb_style = style, rb_all_simple = True, rb_next_col = col\<rparr>\<rparr>)
      in s\<lparr>bs_cur := map_option (\<lambda>b.
            let b = b\<lparr>rb_entries := rb_entries b @ [display_text c]\<rparr>
            in if is_wide c then b\<lparr>rb_entries := rb_entries b @ [[]], rb_all_simple := False, rb_next_col := col + 2\<rparr>
               else b\<lparr>rb_all_simple := rb_all_simple b \<and> cell_is_simple c, rb_next_col := col + 1\<rparr>) (bs_cur s)\<rparr>)"

function build_loop :: "(usize \<Rightarrow> cell option) \<Rightarrow> usize \<Rightarrow> bool \<Rightarrow> bool list \<Rightarrow> usize \<Rightarrow> build_state \<Rightarrow> build_state" where
  "build_loop cell cols has_masks m col s =
     (if col < cols then
        let colu = wrap16 col
        in if has_masks \<and> m ! col
           then (let s = flush_cells s
                 in build_loop cell cols has_masks m (col + 1) (s\<lparr>bs_mask_start := case bs_mask_start s of None \<Rightarrow> Some colu | Some x \<Rightarrow> Some x\<rparr>))
           else
             let s = end_mask colu s; c = (case cell col of Some x \<Rightarrow> x | None \<Rightarrow> cell_empty)
             in if is_wide_continuation c \<or> cell_is_blank_default c then build_loop cell cols has_masks m (col + 1) (flush_cells s)
                else build_loop cell cols has_masks m (if is_wide c then col + 2 else col + 1) (push_cell colu c s)
      else s)"
  by pat_completeness auto
termination by (relation "measure (\<lambda>(_, cols, _, _, col, _). cols - col)") auto

declare build_loop.simps [simp del]

definition row_cell :: "grid \<Rightarrow> usize \<Rightarrow> usize \<Rightarrow> cell option" where
  "row_cell g r c = Option.bind (grid_row g (scrollback_len g + r)) (\<lambda>row. row_get row c)"

definition build_row_runs :: "grid \<Rightarrow> usize \<Rightarrow> usize \<Rightarrow> mask_set \<Rightarrow> run list" where
  "build_row_runs g r cols ms =
     (let cell = row_cell g r; has_masks = any_in_row (wrap16 r) ms;
          m = (if has_masks then masked_columns cell cols (wrap16 r) ms else []);
          s = build_loop cell cols has_masks m 0 \<lparr>bs_runs = [], bs_cur = None, bs_mask_start = None\<rparr>
      in bs_runs (end_mask (wrap16 cols) (flush_cells s)))"

definition from_parts :: "grid \<Rightarrow> cursor \<Rightarrow> terminal_default_colors \<Rightarrow> bool \<Rightarrow> bool \<Rightarrow> mask_set \<Rightarrow> frame_envelope" where
  "from_parts g cur defaults alt palette ms =
     \<lparr>fe_schema = SCHEMA_VERSION, fe_rows = wrap16 (gr_rows g), fe_cols = wrap16 (gr_cols g), fe_alt_screen = alt, fe_defaults = defaults,
      fe_cursor = \<lparr>cr_row = wrap16 (cu_row cur),
                   cr_col = (case cursor_redaction_col (wrap16 (cu_row cur)) (wrap16 (cu_col cur)) ms of Some c \<Rightarrow> c | None \<Rightarrow> wrap16 (cu_col cur)),
                   cr_visible = cu_visible cur, cr_shape = cu_shape cur\<rparr>,
      fe_palette_overridden = palette,
      fe_lines = map (\<lambda>r. \<lparr>rr_row = wrap16 r, rr_runs = build_row_runs g r (gr_cols g) ms\<rparr>) [0..<gr_rows g]\<rparr>"

definition from_snapshot :: "grid \<Rightarrow> u16 \<Rightarrow> u16 \<Rightarrow> bool \<Rightarrow> cursor_shape \<Rightarrow> terminal_default_colors \<Rightarrow> bool \<Rightarrow> bool \<Rightarrow> mask_set \<Rightarrow> frame_envelope" where
  "from_snapshot g row col vis shape defaults alt palette ms =
     \<lparr>fe_schema = SCHEMA_VERSION, fe_rows = wrap16 (gr_rows g), fe_cols = wrap16 (gr_cols g), fe_alt_screen = alt, fe_defaults = defaults,
      fe_cursor = \<lparr>cr_row = row, cr_col = (case cursor_redaction_col row col ms of Some c \<Rightarrow> c | None \<Rightarrow> col), cr_visible = vis, cr_shape = shape\<rparr>,
      fe_palette_overridden = palette,
      fe_lines = map (\<lambda>r. \<lparr>rr_row = wrap16 r, rr_runs = build_row_runs g r (gr_cols g) ms\<rparr>) [0..<gr_rows g]\<rparr>"

definition from_terminal :: "'p terminal \<Rightarrow> mask_set \<Rightarrow> frame_envelope" where
  "from_terminal t = from_parts (term_grid t) (term_cursor t) (default_colors t) (is_alternate_screen t) (h_palette_overridden (tm_h t))"

section \<open>From runs to cells\<close>

definition make_cell :: "rchar \<Rightarrow> rstring option \<Rightarrow> nat \<Rightarrow> cap_style \<Rightarrow> cell" where
  "make_cell ch g width s =
     \<lparr>c_ch = ch, c_width = width, c_style = \<lparr>cs_fg = color_from_opt (cap_fg s), cs_bg = color_from_opt (cap_bg s), cs_flags = cap_to_flags s\<rparr>,
      c_extended = cap_to_extended s g\<rparr>"

definition mask_placeholder :: cell where
  "mask_placeholder = \<lparr>c_ch = 0x25AE, c_width = 1, c_style = default_style, c_extended = None\<rparr>"

fun decode_simple :: "usize \<Rightarrow> cap_style \<Rightarrow> usize \<Rightarrow> rstring \<Rightarrow> cell list \<Rightarrow> cell list" where
  "decode_simple cols s c [] line = line"
| "decode_simple cols s c (ch # chs) line =
     (if cols \<le> c then line else decode_simple cols s (c + 1) chs (line[c := make_cell ch None 1 s]))"

fun decode_complex :: "usize \<Rightarrow> cap_style \<Rightarrow> usize \<Rightarrow> rstring list \<Rightarrow> cell list \<Rightarrow> cell list" where
  "decode_complex cols s c [] line = line"
| "decode_complex cols s c (e # es) line =
     (if cols \<le> c then line
      else if e = [] then decode_complex cols s (c + 1) es (line[c := cell_empty])
      else
        let wide = (case es of n # _ \<Rightarrow> n = [] | [] \<Rightarrow> False);
            g = (if 1 < length e then Some e else None);
            line = line[c := make_cell (hd e) g (if wide then 2 else 1) s]
        in if wide
           then decode_complex cols s (c + 2) (drop 1 es) (if c + 1 < cols then line[c + 1 := wide_continuation] else line)
           else decode_complex cols s (c + 1) es line)"

fun decode_run_into :: "usize \<Rightarrow> run \<Rightarrow> cell list \<Rightarrow> cell list" where
  "decode_run_into cols (MaskRun col n) line =
     (let start = min col cols; stop = min (start + n) cols in fold (\<lambda>c l. l[c := mask_placeholder]) [start..<stop] line)"
| "decode_run_into cols (CellsRun col body s) line =
     (case body of SimpleRun t \<Rightarrow> decode_simple cols s col t line | ComplexRun es \<Rightarrow> decode_complex cols s col es line)"

definition to_cells :: "frame_envelope \<Rightarrow> cell list list" where
  "to_cells env =
     fold (\<lambda>row g. if rr_row row < length g then g[rr_row row := fold (decode_run_into (fe_cols env)) (rr_runs row) (g ! rr_row row)] else g)
       (fe_lines env) (replicate (fe_rows env) (replicate (fe_cols env) cell_empty))"

definition copy_row :: "cell list list \<Rightarrow> usize \<Rightarrow> grid \<Rightarrow> grid option" where
  "copy_row cells r =
     visible_row_mut_marked r (\<lambda>dst. dst\<lparr>r_cells := fold (\<lambda>c l. l[c := cells ! r ! c]) [0..<length (cells ! r)] (r_cells dst)\<rparr>)"

definition to_grid :: "frame_envelope \<Rightarrow> grid option" where
  "to_grid env =
     (let cells = to_cells env; rows = length cells; cols = (case cells of [] \<Rightarrow> 0 | r # _ \<Rightarrow> length r)
      in fold (\<lambda>r g. Option.bind g (copy_row cells r)) [0..<rows] (Some (grid_new rows cols default_grid_config)))"

section \<open>The validator\<close>

type_synonym char_width = "rchar \<Rightarrow> usize option"

definition grapheme_display_width :: "char_width \<Rightarrow> rstring \<Rightarrow> usize" where
  "grapheme_display_width w t = (case t of [] \<Rightarrow> 0 | ch # _ \<Rightarrow> (case w ch of Some n \<Rightarrow> n | None \<Rightarrow> 0))"

fun validate_entries :: "char_width \<Rightarrow> u16 \<Rightarrow> rstring list \<Rightarrow> u16 \<Rightarrow> bool \<Rightarrow> (u16 \<times> bool, capture_error) result" where
  "validate_entries w row [] span all_simple = Ok (span, all_simple)"
| "validate_entries w row (t # ts) span all_simple =
     (let single = (length t = 1); followed_by_empty = (case ts of n # _ \<Rightarrow> n = [] | [] \<Rightarrow> False)
      in if t = [] then Err (NonCanonical row)
         else if followed_by_empty then
           (if single \<and> grapheme_display_width w t \<noteq> 2 then Err (NonCanonical row)
            else if (case drop 1 ts of n # _ \<Rightarrow> n = [] | [] \<Rightarrow> False) then Err (NonCanonical row)
            else validate_entries w row (drop 1 ts) (sat_add16 span 2) False)
         else if single \<and> (grapheme_display_width w t = 0 \<or> grapheme_display_width w t = 2) then Err (NonCanonical row)
         else validate_entries w row ts (sat_add16 span 1) (all_simple \<and> single))"

definition validate_cells_run :: "char_width \<Rightarrow> u16 \<Rightarrow> run_content \<Rightarrow> (u16, capture_error) result" where
  "validate_cells_run w row body =
     (case body of
        SimpleRun t \<Rightarrow>
          if t = [] \<or> list_ex (\<lambda>ch. grapheme_display_width w [ch] \<noteq> 1) t \<or> u16_max < length t then Err (NonCanonical row)
          else Ok (length t)
      | ComplexRun es \<Rightarrow>
          if es = [] then Err (NonCanonical row)
          else case validate_entries w row es 0 True of
                 Err e \<Rightarrow> Err e
               | Ok (span, all_simple) \<Rightarrow> if all_simple then Err (NonCanonical row) else Ok span)"

datatype run_key = KeyMask | KeyStyle cap_style

definition run_extent :: "char_width \<Rightarrow> u16 \<Rightarrow> run \<Rightarrow> (u16 \<times> u16 \<times> run_key, capture_error) result" where
  "run_extent w row run =
     (case run of
        MaskRun col n \<Rightarrow> if n = 0 then Err (NonCanonical row) else Ok (col, n, KeyMask)
      | CellsRun col body style \<Rightarrow>
          (case validate_cells_run w row body of Err e \<Rightarrow> Err e | Ok span \<Rightarrow> Ok (col, span, KeyStyle style)))"

fun validate_runs :: "char_width \<Rightarrow> u16 \<Rightarrow> u16 \<Rightarrow> run list \<Rightarrow> u16 \<times> (u16 \<times> run_key) option \<Rightarrow> (u16 \<times> (u16 \<times> run_key) option, capture_error) result" where
  "validate_runs w row cols [] st = Ok st"
| "validate_runs w row cols (run # runs) st =
     (case run_extent w row run of
        Err e \<Rightarrow> Err e
      | Ok (col, span, kind) \<Rightarrow>
          if col < fst st then Err (NonCanonical row)
          else if snd st = Some (col, kind) then Err (NonCanonical row)
          else if u16_max < col + span then Err (NonCanonical row)
          else if cols < col + span then Err (NonCanonical row)
          else validate_runs w row cols runs (col + span, Some (col + span, kind)))"

fun validate_lines :: "char_width \<Rightarrow> u16 \<Rightarrow> usize \<Rightarrow> row_repr list \<Rightarrow> (unit, capture_error) result" where
  "validate_lines w cols i [] = Ok ()"
| "validate_lines w cols i (row # rows) =
     (if rr_row row \<noteq> i then Err (NonCanonical (rr_row row))
      else case validate_runs w (rr_row row) cols (rr_runs row) (0, None) of Err e \<Rightarrow> Err e | Ok _ \<Rightarrow> validate_lines w cols (i + 1) rows)"

definition validate :: "char_width \<Rightarrow> frame_envelope \<Rightarrow> (unit, capture_error) result" where
  "validate w env =
     (if fe_schema env \<noteq> SCHEMA_VERSION then Err (UnsupportedSchema (fe_schema env) SCHEMA_VERSION)
      else if length (fe_lines env) \<noteq> fe_rows env then Err (NonCanonical 0)
      else if fe_rows env \<le> cr_row (fe_cursor env) then Err (NonCanonical 0)
      else if fe_cols env < cr_col (fe_cursor env) then Err (NonCanonical 0)
      else validate_lines w (fe_cols env) 0 (fe_lines env))"

definition MAX_VIEW_CELLS :: usize where "MAX_VIEW_CELLS = 16000000"

definition try_view :: "char_width \<Rightarrow> frame_envelope \<Rightarrow> (cell_grid_view, capture_error) result" where
  "try_view w env =
     (case validate w env of
        Err e \<Rightarrow> Err e
      | Ok _ \<Rightarrow>
          if MAX_VIEW_CELLS < fe_rows env * fe_cols env then Err (NonCanonical 0)
          else
            let cells = to_cells env
            in Ok \<lparr>vw_rows = fe_rows env, vw_cols = fe_cols env,
                   vw_cell = (\<lambda>r c. if r < length cells \<and> c < length (cells ! r) then cells ! r ! c else cell_empty),
                   vw_defaults = fe_defaults env,
                   vw_cursor = \<lparr>cst_row = cr_row (fe_cursor env), cst_col = cr_col (fe_cursor env), cst_visible = cr_visible (fe_cursor env)\<rparr>,
                   vw_palette_overridden = fe_palette_overridden env, vw_alt_screen = fe_alt_screen env\<rparr>)"

section \<open>One cell there and back\<close>

definition plain_cell :: "cell \<Rightarrow> bool" where
  "plain_cell x \<longleftrightarrow> c_width x \<le> 2 \<and> (is_wide_continuation x \<longrightarrow> x = wide_continuation) \<and>
     (case c_extended x of
        None \<Rightarrow> True
      | Some e \<Rightarrow> e \<noteq> default_extended \<and> xa_underline_color e \<noteq> Some ColorDefault \<and>
          (case xa_grapheme e of None \<Rightarrow> True | Some t \<Rightarrow> 1 < length t \<and> hd t = c_ch x))"

lemma color_back [simp]: "color_from_opt (cap_from_color c) = c"
  by (cases c) (simp_all add: color_from_opt_def)

lemma flag_push:
  "BOLD = push_bit 0 1" "DIM = push_bit 1 1" "ITALIC = push_bit 2 1" "UNDERLINE = push_bit 3 1" "BLINK = push_bit 4 1"
  "INVERSE = push_bit 5 1" "HIDDEN = push_bit 6 1" "STRIKETHROUGH = push_bit 7 1"
  by (simp_all add: BOLD_def DIM_def ITALIC_def UNDERLINE_def BLINK_def INVERSE_def HIDDEN_def STRIKETHROUGH_def)

lemma flag_bit: "w AND push_bit n 1 \<noteq> 0 \<longleftrightarrow> bit w n" for w :: u8
  by (simp only: bit_iff_and_push_bit_not_eq_0)

lemma flag_or: "bit (if b then push_bit k 1 else (0 :: u8)) n \<longleftrightarrow> b \<and> n = k \<and> k < 8"
  by (auto simp: bit_simps)

text \<open>A byte is the join of its eight bits.\<close>

definition join_bits :: "(nat \<Rightarrow> bool) \<Rightarrow> u8" where
  "join_bits b = fold (\<lambda>k w. w OR (if b k then push_bit k 1 else 0)) [0, 1, 2, 3, 4, 5, 6, 7] 0"

lemma join_bits_bit: "join_bits (bit w) = w"
proof (rule bit_word_eqI)
  fix n assume "n < LENGTH(8)"
  then have n: "n = 0 \<or> n = 1 \<or> n = 2 \<or> n = 3 \<or> n = 4 \<or> n = 5 \<or> n = 6 \<or> n = 7" by auto
  have f: "bit (join_bits (bit w)) n \<longleftrightarrow> bit w 0 \<and> n = 0 \<or> bit w 1 \<and> n = 1 \<or> bit w 2 \<and> n = 2 \<or> bit w 3 \<and> n = 3 \<or> bit w 4 \<and> n = 4 \<or>
      bit w 5 \<and> n = 5 \<or> bit w 6 \<and> n = 6 \<or> bit w 7 \<and> n = 7"
    unfolding join_bits_def fold_simps comp_def id_def bit_or_iff flag_or by simp
  show "bit (join_bits (bit w)) n = bit w n" unfolding f using n by (elim disjE) simp_all
qed

lemma flags_back: "cap_to_flags (cap_from_cell x) = cs_flags (c_style x)"
proof -
  obtain w where w: "cs_flags (c_style x) = CellFlags w" by (cases "cs_flags (c_style x)")
  have o: "(if b then flags_set (CellFlags v) k else CellFlags v) = CellFlags (v OR (if b then k else 0))" for b v k by (simp add: flags_set_def)
  have "cap_to_flags (cap_from_cell x) = CellFlags (join_bits (bit w))"
    unfolding cap_to_flags_def cap_from_cell_def Let_def w flags_contain_def cell_flags.sel flag_push flag_bit comp_def cap_style.simps o join_bits_def fold_simps id_def ..
  then show ?thesis by (simp add: w join_bits_bit)
qed

lemma extended_back:
  assumes "plain_cell x"
  shows "cap_to_extended (cap_from_cell x) (grapheme x) = c_extended x"
proof (cases "c_extended x")
  case (Some e)
  obtain g h uc us where e: "e = \<lparr>xa_grapheme = g, xa_hyperlink = h, xa_underline_color = uc, xa_underline_style = us\<rparr>" by (cases e)
  have "map_option cap_to_color (Option.bind uc cap_from_color) = uc"
    using assms Some by (cases uc; cases "the uc") (auto simp: plain_cell_def e)
  then show ?thesis using assms Some
    by (auto simp: cap_to_extended_def cap_from_cell_def grapheme_def plain_cell_def e default_extended_def Let_def)
qed (simp add: cap_to_extended_def cap_from_cell_def grapheme_def Let_def)

lemma cell_back: "plain_cell x \<Longrightarrow> make_cell (c_ch x) (grapheme x) (c_width x) (cap_from_cell x) = x"
  using extended_back [of x] flags_back [of x] by (simp add: make_cell_def) (simp add: cap_from_cell_def Let_def)

section \<open>One run there and back\<close>

definition expand :: "cell \<Rightarrow> cell list" where
  "expand x = (if is_wide x then [x, wide_continuation] else [x])"

definition entries_of :: "cell \<Rightarrow> rstring list" where
  "entries_of x = display_text x # (if is_wide x then [[]] else [])"

text \<open>A character that starts in its cell, with the style \<open>s\<close>.\<close>

definition heads :: "cap_style \<Rightarrow> cell \<Rightarrow> bool" where
  "heads s x \<longleftrightarrow> plain_cell x \<and> \<not> is_wide_continuation x \<and> cap_from_cell x = s"

lemma heads_text:
  assumes "heads s x"
  shows "display_text x \<noteq> []" "hd (display_text x) = c_ch x" "(if 1 < length (display_text x) then Some (display_text x) else None) = grapheme x"
    "c_width x = (if is_wide x then 2 else 1)"
  using assms
  by (auto simp: heads_def plain_cell_def display_text_def grapheme_def is_wide_def is_wide_continuation_def split: option.splits)

lemma decode_simple_writes:
  assumes "\<forall>x \<in> set xs. heads s x \<and> cell_is_simple x" "c + length xs \<le> length line"
  shows "decode_simple (length line) s c (map c_ch xs) line = take c line @ xs @ drop (c + length xs) line"
  using assms
proof (induction xs arbitrary: c line)
  case (Cons x xs)
  have "make_cell (c_ch x) None 1 s = x"
    using Cons.prems(1) cell_back [of x] by (simp add: heads_def cell_is_simple_def grapheme_def)
  moreover have "decode_simple (length line) s (c + 1) (map c_ch xs) (line[c := x]) =
      take (c + 1) (line[c := x]) @ xs @ drop (c + 1 + length xs) (line[c := x])"
    using Cons.IH [of "c + 1" "line[c := x]"] Cons.prems by simp
  ultimately show ?case using Cons.prems(2) by (simp add: take_Suc_conv_app_nth)
qed simp

lemma decode_complex_writes:
  assumes "\<forall>x \<in> set xs. heads s x" "c + length (concat (map expand xs)) \<le> length line"
  shows "decode_complex (length line) s c (concat (map entries_of xs)) line =
    take c line @ concat (map expand xs) @ drop (c + length (concat (map expand xs))) line"
  using assms
proof (induction xs arbitrary: c line)
  case (Cons x xs)
  note h = heads_text [of s x]
  have x: "heads s x" using Cons.prems(1) by simp
  have m: "make_cell (c_ch x) (grapheme x) (if is_wide x then 2 else 1) s = x" using x cell_back [of x] h(4) [OF x] by (simp add: heads_def)
  have narrow: "\<not> (case concat (map entries_of xs) of n # _ \<Rightarrow> n = [] | [] \<Rightarrow> False)"
    using Cons.prems(1) heads_text(1) by (cases xs) (auto simp: entries_of_def)
  show ?case
  proof (cases "is_wide x")
    case True
    let ?l = "line[c := x, c + 1 := wide_continuation]"
    have "decode_complex (length line) s (c + 2) (concat (map entries_of xs)) ?l =
        take (c + 2) ?l @ concat (map expand xs) @ drop (c + 2 + length (concat (map expand xs))) ?l"
      using Cons.IH [of "c + 2" ?l] Cons.prems True by (simp add: expand_def [of x])
    moreover have "take (c + 2) ?l = take c line @ [x, wide_continuation]"
      using Cons.prems(2) True by (simp add: expand_def [of x] take_Suc_conv_app_nth)
    ultimately show ?thesis using Cons.prems(2) True h(1-3) [OF x] m by (simp add: expand_def [of x] entries_of_def [of x])
  next
    case False
    let ?l = "line[c := x]"
    have "decode_complex (length line) s (c + 1) (concat (map entries_of xs)) ?l =
        take (c + 1) ?l @ concat (map expand xs) @ drop (c + 1 + length (concat (map expand xs))) ?l"
      using Cons.IH [of "c + 1" ?l] Cons.prems False by (simp add: expand_def [of x])
    moreover have "take (c + 1) ?l = take c line @ [x]" using Cons.prems(2) False by (simp add: expand_def [of x] take_Suc_conv_app_nth)
    ultimately show ?thesis using Cons.prems(2) False h(1-3) [OF x] m narrow by (simp add: expand_def [of x] entries_of_def [of x])
  qed
qed simp

section \<open>One row there and back\<close>

text \<open>The run being built holds the characters \<open>xs\<close>.\<close>

definition builds :: "run_builder \<Rightarrow> cell list \<Rightarrow> bool" where
  "builds b xs \<longleftrightarrow> (\<forall>x \<in> set xs. heads (rb_style b) x) \<and> rb_entries b = concat (map entries_of xs) \<and>
     rb_all_simple b = (\<forall>x \<in> set xs. cell_is_simple x) \<and> rb_next_col b = rb_start b + length (concat (map expand xs))"

lemma simple_not_wide: "cell_is_simple x \<Longrightarrow> \<not> is_wide x \<and> display_text x = [c_ch x]"
  by (simp add: cell_is_simple_def is_wide_def display_text_def grapheme_def)

lemma finish_writes:
  assumes b: "builds b xs" and l: "rb_next_col b \<le> length line"
  shows "decode_run_into (length line) (builder_finish b) line = take (rb_start b) line @ concat (map expand xs) @ drop (rb_next_col b) line"
proof (cases "rb_all_simple b")
  case True
  then have s: "\<forall>x \<in> set xs. heads (rb_style b) x \<and> cell_is_simple x" using b by (simp add: builds_def)
  then have e: "concat (map expand xs) = xs" "concat (concat (map entries_of xs)) = map c_ch xs"
    by (induction xs) (auto simp: expand_def entries_of_def simple_not_wide)
  show ?thesis using decode_simple_writes [OF s, of "rb_start b" line] True b l by (simp add: builder_finish_def builds_def e)
next
  case False
  then show ?thesis using decode_complex_writes [of xs "rb_style b" "rb_start b" line] b l by (simp add: builder_finish_def builds_def)
qed

lemma push_builds:
  assumes "builds b xs" "heads (rb_style b) x"
  shows "builds (let b = b\<lparr>rb_entries := rb_entries b @ [display_text x]\<rparr>
     in if is_wide x then b\<lparr>rb_entries := rb_entries b @ [[]], rb_all_simple := False, rb_next_col := rb_next_col b + 2\<rparr>
        else b\<lparr>rb_all_simple := rb_all_simple b \<and> cell_is_simple x, rb_next_col := rb_next_col b + 1\<rparr>) (xs @ [x])"
  using assms simple_not_wide [of x] by (auto simp: builds_def entries_of_def expand_def)

text \<open>After the columns before \<open>col\<close>, the runs made so far read back to them.\<close>

definition read_back :: "cell list \<Rightarrow> usize \<Rightarrow> build_state \<Rightarrow> bool" where
  "read_back cells col s \<longleftrightarrow> bs_mask_start s = None \<and>
     (case bs_cur s of
        None \<Rightarrow> fold (decode_run_into (length cells)) (bs_runs s) (replicate (length cells) cell_empty) = take col cells @ replicate (length cells - col) cell_empty
      | Some b \<Rightarrow> rb_next_col b = col \<and> (\<exists>xs. builds b xs \<and> take col cells = take (rb_start b) cells @ concat (map expand xs)) \<and> rb_start b \<le> col \<and>
          fold (decode_run_into (length cells)) (bs_runs s) (replicate (length cells) cell_empty) =
            take (rb_start b) cells @ replicate (length cells - rb_start b) cell_empty)"

lemma flush_read_back:
  assumes "read_back cells col s" "col \<le> length cells"
  shows "read_back cells col (flush_cells s)" "bs_cur (flush_cells s) = None"
proof -
  show "bs_cur (flush_cells s) = None" by (simp add: flush_cells_def split: option.split)
  show "read_back cells col (flush_cells s)"
  proof (cases "bs_cur s")
    case (Some b)
    obtain xs where b: "builds b xs" "take col cells = take (rb_start b) cells @ concat (map expand xs)" "rb_next_col b = col" "rb_start b \<le> col"
      "fold (decode_run_into (length cells)) (bs_runs s) (replicate (length cells) cell_empty) = take (rb_start b) cells @ replicate (length cells - rb_start b) cell_empty"
      using assms(1) Some by (auto simp: read_back_def)
    let ?l = "take (rb_start b) cells @ replicate (length cells - rb_start b) cell_empty"
    have len: "length ?l = length cells" using b(4) assms(2) by simp
    have "decode_run_into (length cells) (builder_finish b) ?l = take (rb_start b) ?l @ concat (map expand xs) @ drop col ?l"
      using finish_writes [OF b(1), of ?l] len b(3) assms(2) by simp
    also have "\<dots> = take col cells @ replicate (length cells - col) cell_empty" using b(2,4) assms(2) by simp
    finally show ?thesis using Some assms(1) b(5) by (simp add: read_back_def flush_cells_def)
  qed (use assms in \<open>simp add: flush_cells_def\<close>)
qed

lemma blank_read_back:
  assumes "read_back cells col s" "bs_cur s = None" "col < length cells" "cells ! col = cell_empty"
  shows "read_back cells (col + 1) s"
proof -
  have "replicate (length cells - col) cell_empty = cell_empty # replicate (length cells - (col + 1)) cell_empty"
    using assms(3) by (simp add: Suc_diff_Suc flip: replicate_Suc)
  then show ?thesis using assms by (simp add: read_back_def take_Suc_conv_app_nth)
qed

lemma push_read_back:
  assumes r: "read_back cells col s" and x: "heads (cap_from_cell x) x" "take (col + length (expand x)) cells = take col cells @ expand x"
    and c: "col + length (expand x) \<le> length cells"
  shows "read_back cells (col + length (expand x)) (push_cell col x s)"
proof (cases "case bs_cur s of Some b \<Rightarrow> rb_style b = cap_from_cell x \<and> rb_next_col b = col | None \<Rightarrow> False")
  case True
  then obtain b where b: "bs_cur s = Some b" "rb_style b = cap_from_cell x" "rb_next_col b = col" by (auto split: option.splits)
  obtain xs where xs: "builds b xs" "take col cells = take (rb_start b) cells @ concat (map expand xs)" "rb_start b \<le> col"
    "fold (decode_run_into (length cells)) (bs_runs s) (replicate (length cells) cell_empty) = take (rb_start b) cells @ replicate (length cells - rb_start b) cell_empty"
    using r b(1) by (auto simp: read_back_def)
  note p = push_builds [OF xs(1), of x, unfolded b(2,3), OF x(1)]
  have "take (col + length (expand x)) cells = take (rb_start b) cells @ concat (map expand (xs @ [x]))" using x(2) xs(2) by simp
  moreover have "bs_mask_start s = None" using r by (simp add: read_back_def)
  ultimately show ?thesis using p xs(3,4) b True
    by (auto simp: push_cell_def read_back_def expand_def Let_def intro!: exI [of _ "xs @ [x]"])
next
  case False
  have c': "col \<le> length cells" using c by simp
  note f = flush_read_back [OF r c']
  let ?b = "\<lparr>rb_start = col, rb_entries = [], rb_style = cap_from_cell x, rb_all_simple = True, rb_next_col = col\<rparr>"
  have p: "builds (let b = ?b\<lparr>rb_entries := [display_text x]\<rparr>
     in if is_wide x then b\<lparr>rb_entries := rb_entries b @ [[]], rb_all_simple := False, rb_next_col := col + 2\<rparr>
        else b\<lparr>rb_all_simple := rb_all_simple b \<and> cell_is_simple x, rb_next_col := col + 1\<rparr>) [x]"
    using x(1) simple_not_wide [of x] by (auto simp: builds_def entries_of_def expand_def Let_def)
  have k: "bs_mask_start (flush_cells s) = None"
    "fold (decode_run_into (length cells)) (bs_runs (flush_cells s)) (replicate (length cells) cell_empty) = take col cells @ replicate (length cells - col) cell_empty"
    using f by (simp_all add: read_back_def)
  show ?thesis using p k x(2) False
    by (auto simp: push_cell_def read_back_def expand_def Let_def intro!: exI [of _ "[x]"])
qed

definition cells_fn :: "cell list \<Rightarrow> usize \<Rightarrow> cell option" where
  "cells_fn cells c = (if c < length cells then Some (cells ! c) else None)"

lemma blank_default_empty: "cell_is_blank_default x \<longleftrightarrow> x = cell_empty"
  by (auto simp: cell_is_blank_default_def cell_empty_def)

lemma no_mask_step: "bs_mask_start s = None \<Longrightarrow> end_mask col s = s"
  by (simp add: end_mask_def)

text \<open>Where characters start in a row whose wide ones are whole.\<close>

lemma next_start:
  assumes p: "paired cells" and c: "col < length cells" "\<not> is_wide_continuation (cells ! col)" and plain: "list_all plain_cell cells"
  shows "col + length (expand (cells ! col)) \<le> length cells"
    "take (col + length (expand (cells ! col))) cells = take col cells @ expand (cells ! col)"
    "col + length (expand (cells ! col)) < length cells \<Longrightarrow> \<not> is_wide_continuation (cells ! (col + length (expand (cells ! col))))"
proof -
  note w = pairedD(1) [OF p c(1)]
  have wc: "cells ! (col + 1) = wide_continuation" if "is_wide (cells ! col)"
    using w [OF that] plain by (auto simp: plain_cell_def list_all_length)
  show "col + length (expand (cells ! col)) \<le> length cells" using w c(1) by (auto simp: expand_def)
  show "take (col + length (expand (cells ! col))) cells = take col cells @ expand (cells ! col)"
    using w wc c(1) by (auto simp: expand_def take_Suc_conv_app_nth)
  show "\<not> is_wide_continuation (cells ! (col + length (expand (cells ! col))))" if l: "col + length (expand (cells ! col)) < length cells"
    using pairedD(2) [OF p l] wc by (auto simp: expand_def split: if_splits)
qed

lemma build_loop_reads_back:
  assumes "paired cells" "list_all plain_cell cells" "length cells \<le> u16_max" "read_back cells col s" "col \<le> length cells"
    "col < length cells \<Longrightarrow> \<not> is_wide_continuation (cells ! col)"
  shows "read_back cells (length cells) (build_loop (cells_fn cells) (length cells) False m col s)"
  using assms(4-6)
proof (induction "cells_fn cells" "length cells" False m col s rule: build_loop.induct)
  case (1 m col s)
  show ?case
  proof (cases "col < length cells")
    case False
    then show ?thesis using "1.prems" by (subst build_loop.simps) simp
  next
    case True
    have nc: "\<not> is_wide_continuation (cells ! col)" using "1.prems"(3) True by simp
    note n = next_start [OF assms(1) True nc assms(2)]
    have k: "wrap16 col = col" "end_mask col s = s" using True assms(3) "1.prems"(1) by (simp_all add: no_mask_step read_back_def)
    have cell: "cells_fn cells col = Some (cells ! col)" using True by (simp add: cells_fn_def)
    show ?thesis
    proof (cases "cell_is_blank_default (cells ! col)")
      case blank: True
      then have e: "cells ! col = cell_empty" "expand (cells ! col) = [cell_empty]" by (simp_all add: blank_default_empty expand_def)
      have "read_back cells (col + 1) (flush_cells s)"
        using flush_read_back [OF "1.prems"(1)] blank_read_back [of cells col "flush_cells s"] True e(1) by simp
      then have "read_back cells (length cells) (build_loop (cells_fn cells) (length cells) False m (col + 1) (flush_cells s))"
        using 1(2) [OF True refl _ refl refl] blank True n(3) e k cell by simp
      then show ?thesis using True blank k cell by (subst build_loop.simps) (simp add: Let_def)
    next
      case not_blank: False
      have h: "heads (cap_from_cell (cells ! col)) (cells ! col)" using nc True assms(2) by (simp add: heads_def list_all_length)
      note r = push_read_back [OF "1.prems"(1) h n(2,1)]
      have l: "col + length (expand (cells ! col)) = (if is_wide (cells ! col) then col + 2 else col + 1)" by (simp add: expand_def)
      have "read_back cells (length cells) (build_loop (cells_fn cells) (length cells) False m (if is_wide (cells ! col) then col + 2 else col + 1)
          (push_cell col (cells ! col) s))"
        using 1(3) [OF True refl _ refl refl] not_blank nc True r n k cell unfolding l by simp
      then show ?thesis using True not_blank nc k cell by (subst build_loop.simps) (simp add: Let_def)
    qed
  qed
qed

section \<open>One frame there and back\<close>

lemma row_runs_read_back:
  assumes p: "paired cells" "list_all plain_cell cells" "length cells \<le> u16_max" and r: "row_cell g r = cells_fn cells" and c: "cols = length cells"
  shows "fold (decode_run_into cols) (build_row_runs g r cols []) (replicate cols cell_empty) = cells"
proof -
  let ?s = "build_loop (cells_fn cells) (length cells) False [] 0 \<lparr>bs_runs = [], bs_cur = None, bs_mask_start = None\<rparr>"
  have "\<not> is_wide_continuation (cells ! 0)" if "0 < length cells" using pairedD(2) [OF p(1) that] by auto
  then have "read_back cells (length cells) ?s" using build_loop_reads_back [OF p, of 0] by (simp add: read_back_def)
  note f = flush_read_back [OF this le_refl]
  have "bs_mask_start (flush_cells ?s) = None"
    "fold (decode_run_into (length cells)) (bs_runs (flush_cells ?s)) (replicate (length cells) cell_empty) = cells"
    using f by (simp_all add: read_back_def)
  then show ?thesis by (simp add: build_row_runs_def r c any_in_row_def no_mask_step)
qed

text \<open>Filling the lines one after the other.\<close>

lemma fill_lines:
  assumes "\<And>i. i < n \<Longrightarrow> ix i = i"
  shows "n \<le> length g \<Longrightarrow> fold (\<lambda>i l. if ix i < length l then l[ix i := f i (l ! ix i)] else l) [0..<n] g = map (\<lambda>i. f i (g ! i)) [0..<n] @ drop n g"
  using assms
proof (induction n)
  case (Suc n)
  have ih: "fold (\<lambda>i l. if ix i < length l then l[ix i := f i (l ! ix i)] else l) [0..<n] g = map (\<lambda>i. f i (g ! i)) [0..<n] @ drop n g"
    using Suc by simp
  let ?l = "map (\<lambda>i. f i (g ! i)) [0..<n] @ g ! n # drop (Suc n) g"
  have "drop n g = g ! n # drop (Suc n) g" using Suc.prems(1) by (simp add: Cons_nth_drop_Suc)
  moreover have "n < length ?l" "?l ! n = g ! n" "?l[n := y] = map (\<lambda>i. f i (g ! i)) [0..<n] @ y # drop (Suc n) g" for y
    by (simp_all add: nth_append list_update_append)
  ultimately show ?case using ih Suc.prems(2) [of n] by simp
qed simp

lemma fold_pointwise: "(\<And>x y. x \<in> set xs \<Longrightarrow> f x y = g x y) \<Longrightarrow> fold f xs s = fold g xs s"
  by (induction xs arbitrary: s) auto

lemma capture_cells:
  assumes "grid_ok g" and "gr_rows g \<le> u16_max" and "gr_cols g \<le> u16_max"
    and "list_all (\<lambda>row. list_all plain_cell (r_cells row)) (gr_raw g)"
  shows "to_cells (from_parts g cur defaults alt palette []) = viewport_cells g"
proof -
  let ?n = "gr_rows g" and ?c = "gr_cols g" and ?sb = "scrollback_len g"
  note d = grid_okD [OF assms(1)]
  have line: "fold (decode_run_into ?c) (build_row_runs g r ?c []) (replicate ?c cell_empty) = r_cells (gr_raw g ! (?sb + r))" if "r < ?n" for r
  proof -
    have i: "?sb + r < length (gr_raw g)" using d(1) that by (simp add: scrollback_len_def)
    then have "row_ok ?c (gr_raw g ! (?sb + r))" using d(3) by simp
    then have p: "paired (r_cells (gr_raw g ! (?sb + r)))" "length (r_cells (gr_raw g ! (?sb + r))) = ?c" by (simp_all add: row_ok_def)
    have "row_cell g r = cells_fn (r_cells (gr_raw g ! (?sb + r)))" using i by (simp add: row_cell_def cells_fn_def grid_row_def row_get_def fun_eq_iff)
    moreover have "list_all plain_cell (r_cells (gr_raw g ! (?sb + r)))" using assms(4) nth_mem [OF i] by (simp add: list_all_iff)
    ultimately show ?thesis using p assms(3) by (intro row_runs_read_back) simp_all
  qed
  have e: "fe_cols (from_parts g cur defaults alt palette []) = ?c" "fe_rows (from_parts g cur defaults alt palette []) = ?n"
    "fe_lines (from_parts g cur defaults alt palette []) = map (\<lambda>r. \<lparr>rr_row = wrap16 r, rr_runs = build_row_runs g r ?c []\<rparr>) [0..<?n]"
    using assms(2,3) by (simp_all add: from_parts_def)
  have "to_cells (from_parts g cur defaults alt palette []) =
      fold (\<lambda>i l. if wrap16 i < length l then l[wrap16 i := fold (decode_run_into ?c) (build_row_runs g i ?c []) (l ! wrap16 i)] else l) [0..<?n]
        (replicate ?n (replicate ?c cell_empty))"
    unfolding to_cells_def e fold_map by (intro fold_pointwise) simp
  also have "\<dots> = map (\<lambda>i. fold (decode_run_into ?c) (build_row_runs g i ?c []) (replicate ?n (replicate ?c cell_empty) ! i)) [0..<?n] @ drop ?n (replicate ?n (replicate ?c cell_empty))"
    using assms(2) by (intro fill_lines) simp_all
  also have "\<dots> = map (\<lambda>i. r_cells (gr_raw g ! (?sb + i))) [0..<?n]" using line by simp
  also have "\<dots> = viewport_cells g"
    using d(1) by (intro nth_equalityI) (auto simp: viewport_cells_def scrollback_len_def)
  finally show ?thesis .
qed

text \<open>A grid of one line, and a line with a wide character.\<close>

definition line_grid :: "cell list \<Rightarrow> grid" where
  "line_grid cells = (grid_new 1 (length cells) default_grid_config)\<lparr>gr_raw := [\<lparr>r_cells = cells, r_wrapped = False\<rparr>]\<rparr>"

definition no_colors :: terminal_default_colors where
  "no_colors = \<lparr>tdc_fg = None, tdc_bg = None, tdc_cursor = None\<rparr>"

definition wide_demo :: cell where
  "wide_demo = \<lparr>c_ch = 0x3042, c_width = 2, c_style = default_style, c_extended = None\<rparr>"

lemma line_grid_simps [simp]:
  "gr_rows (line_grid cells) = 1" "gr_cols (line_grid cells) = length cells" "gr_raw (line_grid cells) = [\<lparr>r_cells = cells, r_wrapped = False\<rparr>]"
  "scrollback_len (line_grid cells) = 0" "viewport_cells (line_grid cells) = [cells]"
  by (simp_all add: line_grid_def grid_new_def scrollback_len_def viewport_cells_def)

lemma line_grid_ok: "paired cells \<Longrightarrow> grid_ok (line_grid cells)"
  using grid_new_ok(1) [of 1 "length cells" default_grid_config] by (simp add: grid_ok_def line_grid_def row_ok_def grid_new_def)

lemma demo_line:
  "paired [wide_demo, wide_continuation, cell_alignment]" "list_all plain_cell [wide_demo, wide_continuation, cell_alignment]"
  by (auto simp: paired_def head_ok_def tail_ok_def less_Suc_eq wide_demo_def wide_continuation_def cell_alignment_def is_wide_def is_wide_continuation_def)
    (simp_all add: plain_cell_def wide_demo_def wide_continuation_def cell_alignment_def is_wide_continuation_def)

text \<open>C10: a captured frame reads back as it was.  For every grid whose wide characters are whole, with no
  masks, decoding the capture gives the cells of the viewport: characters, clusters, widths, colours,
  flags, links and underlines.\<close>

theorem capture_reads_back:
  assumes "grid_ok g" and "gr_rows g \<le> u16_max" and "gr_cols g \<le> u16_max"
    and "list_all (\<lambda>row. list_all plain_cell (r_cells row)) (gr_raw g)"
  shows "to_cells (from_parts g cur defaults alt palette []) = viewport_cells g"
  using assms by (rule capture_cells)

theorem capture_reads_back_witness:
  "to_cells (from_parts (line_grid [wide_demo, wide_continuation, cell_alignment]) cursor_new no_colors False False []) =
   [[wide_demo, wide_continuation, cell_alignment]]"
  using capture_reads_back [of "line_grid [wide_demo, wide_continuation, cell_alignment]" cursor_new no_colors False False]
    demo_line(1,2) line_grid_ok [OF demo_line(1)]
  by (simp add: u16_max_def line_grid_simps)

section \<open>Masks\<close>

text \<open>The loop looks at no cell of a masked column.\<close>

lemma build_loop_masked:
  assumes "\<And>c. c < cols \<Longrightarrow> \<not> (has_masks \<and> m ! c) \<Longrightarrow> cell' c = cell c"
  shows "build_loop cell' cols has_masks m col s = build_loop cell cols has_masks m col s"
  using assms
proof (induction cell cols has_masks m col s rule: build_loop.induct)
  case (1 cell cols has_masks m col s)
  show ?case
  proof (cases "col < cols \<and> \<not> (has_masks \<and> m ! col)")
    case True
    then have c: "cell' col = cell col" "col < cols" "\<not> (has_masks \<and> m ! col)" using "1.prems" by simp_all
    let ?c = "case cell col of Some x \<Rightarrow> x | None \<Rightarrow> cell_empty"
    show ?thesis
    proof (cases "is_wide_continuation ?c \<or> cell_is_blank_default ?c")
      case b: True
      from 1(2) [OF c(2) refl c(3) refl refl b "1.prems"] show ?thesis
        using c b unfolding build_loop.simps [of cell' cols has_masks m col s] build_loop.simps [of cell cols has_masks m col s] by (auto simp: Let_def)
    next
      case b: False
      from 1(3) [OF c(2) refl c(3) refl refl b "1.prems"] show ?thesis
        using c b unfolding build_loop.simps [of cell' cols has_masks m col s] build_loop.simps [of cell cols has_masks m col s] by (auto simp: Let_def)
    qed
  next
    case False
    then show ?thesis using 1(1) [OF _ refl _ refl] "1.prems" by (subst (1 2) build_loop.simps) (auto simp: Let_def)
  qed
qed

lemma mask_step_simps:
  "length (mask_step cell cols c m) = length m"
  "c < cols \<Longrightarrow> length m = cols \<Longrightarrow> m ! k \<Longrightarrow> mask_step cell cols c m ! k"
  by (auto simp: mask_step_def nth_list_update)

lemma masked_columns_keeps:
  assumes "c < cols" "masked row (wrap16 c) ms"
  shows "masked_columns cell cols row ms ! c"
proof -
  have "length (fold (mask_step cell cols) xs m) = cols \<and> fold (mask_step cell cols) xs m ! k" if "length m = cols" "m ! k" "set xs \<subseteq> {..<cols}" for xs m k
    using that by (induction xs arbitrary: m) (simp_all add: mask_step_simps)
  from this [of "map (\<lambda>c. masked row (wrap16 c) ms) [0..<cols]" c "[0..<cols]"] show ?thesis
    using assms by (simp add: masked_columns_def atLeast0LessThan)
qed

lemma masked_columns_shape:
  assumes "\<And>c. c < cols \<Longrightarrow> (case cell c of Some x \<Rightarrow> is_wide x | None \<Rightarrow> False) = (case cell' c of Some x \<Rightarrow> is_wide x | None \<Rightarrow> False)"
  shows "masked_columns cell cols row ms = masked_columns cell' cols row ms"
proof -
  have "mask_step cell cols c m = mask_step cell' cols c m" if "c < cols" for c m using assms [OF that] by (simp add: mask_step_def)
  then show ?thesis unfolding masked_columns_def by (intro fold_pointwise) simp
qed

lemma masked_parts_equal:
  assumes "gr_rows g' = gr_rows g" and "gr_cols g' = gr_cols g"
    and "\<And>r c. r < gr_rows g \<Longrightarrow> c < gr_cols g \<Longrightarrow>
      (case row_cell g' r c of Some x \<Rightarrow> is_wide x | None \<Rightarrow> False) = (case row_cell g r c of Some x \<Rightarrow> is_wide x | None \<Rightarrow> False) \<and>
      (masked (wrap16 r) (wrap16 c) ms \<or> row_cell g' r c = row_cell g r c)"
  shows "from_parts g' cur defaults alt palette ms = from_parts g cur defaults alt palette ms"
proof -
  have "build_row_runs g' r (gr_cols g) ms = build_row_runs g r (gr_cols g) ms" if r: "r < gr_rows g" for r
  proof -
    have m: "masked_columns (row_cell g' r) (gr_cols g) (wrap16 r) ms = masked_columns (row_cell g r) (gr_cols g) (wrap16 r) ms"
      using assms(3) [OF r] by (intro masked_columns_shape) blast
    let ?m = "if any_in_row (wrap16 r) ms then masked_columns (row_cell g r) (gr_cols g) (wrap16 r) ms else []"
    have any: "any_in_row (wrap16 r) ms" if "masked (wrap16 r) c ms" for c
      using that by (auto simp: masked_def any_in_row_def rect_covers_def list_ex_iff)
    have "row_cell g' r c = row_cell g r c" if "c < gr_cols g" "\<not> (any_in_row (wrap16 r) ms \<and> ?m ! c)" for c
      using assms(3) [OF r that(1)] that masked_columns_keeps [OF that(1), of "wrap16 r" ms "row_cell g r"] any by (auto split: if_splits)
    from build_loop_masked [of "gr_cols g" "any_in_row (wrap16 r) ms" ?m, OF this] show ?thesis unfolding build_row_runs_def Let_def m by simp
  qed
  then show ?thesis using assms(1,2) by (simp add: from_parts_def)
qed



end
