(* ===== verification/Vt_Golden.thy ===== *)
theory Vt_Golden
  imports Vt_Capture
begin

text \<open>
  Goldens: what shux captures, its own validator accepts, and compared with the frame it was taken from it
  shows no difference.
\<close>

section \<open>Runs that validate\<close>

text \<open>A character of one code point is as wide as the width table says.\<close>

definition width_fits :: "char_width \<Rightarrow> cell \<Rightarrow> bool" where
  "width_fits w x \<longleftrightarrow> grapheme x \<noteq> None \<or> w (c_ch x) = Some (c_width x)"

lemma head_width:
  assumes "heads s x" "width_fits w x"
  shows "length (display_text x) = 1 \<Longrightarrow> grapheme_display_width w (display_text x) = (if is_wide x then 2 else 1)"
    "length (display_text x) = 1 \<longleftrightarrow> grapheme x = None" "cell_is_simple x \<longleftrightarrow> \<not> is_wide x \<and> length (display_text x) = 1"
proof -
  note t = heads_text [OF assms(1)]
  have one: "length (display_text x) = 1 \<longleftrightarrow> \<not> 1 < length (display_text x)" using t(1) by (cases "display_text x") auto
  show g: "length (display_text x) = 1 \<longleftrightarrow> grapheme x = None" using one t(3) by (metis option.distinct(1))
  show "grapheme_display_width w (display_text x) = (if is_wide x then 2 else 1)" if "length (display_text x) = 1"
    using that g assms(2) t(4) by (simp add: width_fits_def grapheme_display_width_def display_text_def)
  show "cell_is_simple x \<longleftrightarrow> \<not> is_wide x \<and> length (display_text x) = 1" unfolding g using t(4) by (simp add: cell_is_simple_def grapheme_def)
qed

lemma entries_validate:
  assumes "\<forall>x \<in> set xs. heads s x \<and> width_fits w x" "span + length (concat (map expand xs)) \<le> u16_max"
  shows "validate_entries w row (concat (map entries_of xs)) span b =
    Ok (span + length (concat (map expand xs)), b \<and> (\<forall>x \<in> set xs. cell_is_simple x))"
  using assms
proof (induction xs arbitrary: span b)
  case (Cons x xs)
  have x: "heads s x" "width_fits w x" using Cons.prems(1) by simp_all
  note h = heads_text(1) [OF x(1)] head_width [OF x]
  have nxt: "\<not> (case concat (map entries_of xs) of n # _ \<Rightarrow> n = [] | [] \<Rightarrow> False)"
    using Cons.prems(1) heads_text(1) by (cases xs) (auto simp: entries_of_def)
  have ih: "validate_entries w row (concat (map entries_of xs)) (span + length (expand x)) b' =
      Ok (span + length (expand x) + length (concat (map expand xs)), b' \<and> (\<forall>x \<in> set xs. cell_is_simple x))" for b'
    using Cons.IH [of "span + length (expand x)" b'] Cons.prems by simp
  have s: "sat_add16 span (length (expand x)) = span + length (expand x)" using Cons.prems(2) by (simp add: sat_add16_def)
  show ?case
  proof (cases "is_wide x")
    case True
    then have "sat_add16 span 2 = Suc (Suc span)" using s by (simp add: expand_def numeral_2_eq_2)
    then show ?thesis using True h nxt ih by (cases "grapheme x") (simp_all add: entries_of_def [of x] expand_def [of x])
  next
    case False
    then show ?thesis using h nxt ih s by (cases "grapheme x") (simp_all add: entries_of_def [of x] expand_def [of x] Let_def)
  qed
qed simp

lemma finish_extent:
  assumes b: "builds b xs" "xs \<noteq> []" "\<forall>x \<in> set xs. width_fits w x" "rb_next_col b \<le> u16_max"
  shows "run_extent w row (builder_finish b) = Ok (rb_start b, rb_next_col b - rb_start b, KeyStyle (rb_style b))"
proof -
  have hs: "\<forall>x \<in> set xs. heads (rb_style b) x \<and> width_fits w x" using b by (simp add: builds_def)
  have n: "rb_next_col b = rb_start b + length (concat (map expand xs))" "length (concat (map expand xs)) \<le> u16_max" using b by (auto simp: builds_def)
  show ?thesis
  proof (cases "rb_all_simple b")
    case True
    then have s: "\<forall>x \<in> set xs. heads (rb_style b) x \<and> cell_is_simple x \<and> width_fits w x" using b hs by (auto simp: builds_def)
    then have e: "concat (map expand xs) = xs" "concat (concat (map entries_of xs)) = map c_ch xs"
      by (induction xs) (auto simp: expand_def entries_of_def simple_not_wide)
    have "\<forall>x \<in> set xs. grapheme_display_width w [c_ch x] = 1"
      using s by (auto simp: width_fits_def cell_is_simple_def grapheme_def grapheme_display_width_def)
    then show ?thesis using True b n e
      by (auto simp: run_extent_def builder_finish_def validate_cells_run_def builds_def list_ex_iff)
  next
    case False
    have "concat (map entries_of xs) \<noteq> []" using b(2) by (cases xs) (auto simp: entries_of_def)
    then show ?thesis using False b n entries_validate [OF hs, of 0 row True]
      by (simp add: run_extent_def builder_finish_def validate_cells_run_def builds_def)
  qed
qed

lemma validate_runs_append:
  "validate_runs w row cols (xs @ ys) st = (case validate_runs w row cols xs st of Err e \<Rightarrow> Err e | Ok st \<Rightarrow> validate_runs w row cols ys st)"
  by (induction xs arbitrary: st) (auto split: result.split prod.split)

section \<open>The loop writes canonical runs\<close>

text \<open>The runs so far validate and end at \<open>e\<close>; \<open>p\<close> is the last one's end and kind.\<close>

definition ends_at :: "char_width \<Rightarrow> u16 \<Rightarrow> u16 \<Rightarrow> build_state \<Rightarrow> u16 \<Rightarrow> (u16 \<times> run_key) option \<Rightarrow> bool" where
  "ends_at w row cols s e p \<longleftrightarrow> validate_runs w row cols (bs_runs s) (0, None) = Ok (e, p) \<and> (\<forall>pe k. p = Some (pe, k) \<longrightarrow> pe = e)"

definition canon :: "char_width \<Rightarrow> u16 \<Rightarrow> u16 \<Rightarrow> usize \<Rightarrow> build_state \<Rightarrow> bool" where
  "canon w row cols col s \<longleftrightarrow> (\<exists>e p. ends_at w row cols s e p \<and>
     (case bs_mask_start s of
        Some ms \<Rightarrow> bs_cur s = None \<and> e \<le> ms \<and> ms < col \<and> p \<noteq> Some (ms, KeyMask)
      | None \<Rightarrow>
          (case bs_cur s of
             None \<Rightarrow> e \<le> col \<and> (\<forall>k. p \<noteq> Some (col, k))
           | Some b \<Rightarrow> rb_next_col b = col \<and> e \<le> rb_start b \<and> p \<noteq> Some (rb_start b, KeyStyle (rb_style b)) \<and> rb_start b \<le> col \<and>
               (\<exists>xs. xs \<noteq> [] \<and> builds b xs \<and> (\<forall>x \<in> set xs. width_fits w x)))))"

text \<open>Between runs: the last one ends at or before \<open>col\<close>, and one that ends there is of a kind in \<open>K\<close>.\<close>

definition between :: "char_width \<Rightarrow> u16 \<Rightarrow> u16 \<Rightarrow> usize \<Rightarrow> run_key set \<Rightarrow> build_state \<Rightarrow> bool" where
  "between w row cols col K s \<longleftrightarrow> bs_cur s = None \<and> bs_mask_start s = None \<and>
     (\<exists>e p. ends_at w row cols s e p \<and> e \<le> col \<and> (\<forall>k. p = Some (col, k) \<longrightarrow> k \<in> K))"

lemma between_next: "between w row cols col K s \<Longrightarrow> canon w row cols (col + 1) s"
  unfolding between_def canon_def ends_at_def by fastforce

lemma between_mono: "between w row cols col K s \<Longrightarrow> K \<subseteq> L \<Longrightarrow> between w row cols col L s"
  unfolding between_def by blast

lemma ends_at_snoc:
  assumes "ends_at w row cols s e p" "run_extent w row run = Ok (c, n, k)" "e \<le> c" "p \<noteq> Some (c, k)" "c + n \<le> cols" "cols \<le> u16_max"
  shows "validate_runs w row cols (bs_runs s @ [run]) (0, None) = Ok (c + n, Some (c + n, k))"
  using assms by (simp add: ends_at_def validate_runs_append)

lemma flush_between:
  assumes c: "canon w row cols col s" "bs_mask_start s = None" "col \<le> cols" "cols \<le> u16_max"
  shows "between w row cols col (case bs_cur s of Some b \<Rightarrow> {KeyStyle (rb_style b)} | None \<Rightarrow> {}) (flush_cells s)"
proof -
  obtain e p where e: "ends_at w row cols s e p" and r: "case bs_cur s of
             None \<Rightarrow> e \<le> col \<and> (\<forall>k. p \<noteq> Some (col, k))
           | Some b \<Rightarrow> rb_next_col b = col \<and> e \<le> rb_start b \<and> p \<noteq> Some (rb_start b, KeyStyle (rb_style b)) \<and> rb_start b \<le> col \<and>
               (\<exists>xs. xs \<noteq> [] \<and> builds b xs \<and> (\<forall>x \<in> set xs. width_fits w x))"
    using c(1,2) by (auto simp: canon_def)
  show ?thesis
  proof (cases "bs_cur s")
    case None
    then show ?thesis using e r c(2) by (auto simp: between_def flush_cells_def)
  next
    case (Some b)
    then obtain xs where xs: "xs \<noteq> []" "builds b xs" "\<forall>x \<in> set xs. width_fits w x" "rb_next_col b = col" "e \<le> rb_start b"
      "p \<noteq> Some (rb_start b, KeyStyle (rb_style b))" "rb_start b \<le> col" using r by auto
    have "run_extent w row (builder_finish b) = Ok (rb_start b, col - rb_start b, KeyStyle (rb_style b))"
      using finish_extent [OF xs(2,1,3), of row] xs(4) c by simp
    from ends_at_snoc [OF e this xs(5,6)] have "validate_runs w row cols (bs_runs s @ [builder_finish b]) (0, None) = Ok (col, Some (col, KeyStyle (rb_style b)))"
      using c xs(7) by simp
    then show ?thesis using Some c(2) by (auto simp: between_def flush_cells_def ends_at_def)
  qed
qed

lemma end_mask_canon:
  assumes c: "canon w row cols col s" "col \<le> cols" "cols \<le> u16_max"
  shows "bs_mask_start (end_mask col s) = None"
    "bs_mask_start s = None \<Longrightarrow> end_mask col s = s" "bs_mask_start s \<noteq> None \<Longrightarrow> between w row cols col {KeyMask} (end_mask col s)"
proof -
  show "bs_mask_start (end_mask col s) = None" "bs_mask_start s = None \<Longrightarrow> end_mask col s = s" by (auto simp: end_mask_def split: option.split)
  assume "bs_mask_start s \<noteq> None"
  then obtain ms where ms: "bs_mask_start s = Some ms" by blast
  then obtain e p where e: "ends_at w row cols s e p" "bs_cur s = None" "e \<le> ms" "ms < col" "p \<noteq> Some (ms, KeyMask)" using c(1) by (auto simp: canon_def)
  have "run_extent w row (MaskRun ms (col - ms)) = Ok (ms, col - ms, KeyMask)" using e(4) by (simp add: run_extent_def)
  from ends_at_snoc [OF e(1) this e(3,5)] have "validate_runs w row cols (bs_runs s @ [MaskRun ms (col - ms)]) (0, None) = Ok (col, Some (col, KeyMask))"
    using c e(4) by simp
  then show "between w row cols col {KeyMask} (end_mask col s)" using ms e(2) by (auto simp: between_def end_mask_def ends_at_def)
qed

lemma push_canon:
  assumes s: "canon w row cols col s \<and> bs_mask_start s = None \<or> between w row cols col {KeyMask} s" and x: "heads (cap_from_cell x) x" "width_fits w x"
    and c: "col \<le> cols" "cols \<le> u16_max"
  shows "canon w row cols (if is_wide x then col + 2 else col + 1) (push_cell col x s)"
proof (cases "case bs_cur s of Some b \<Rightarrow> rb_style b = cap_from_cell x \<and> rb_next_col b = col | None \<Rightarrow> False")
  case True
  then obtain b where b: "bs_cur s = Some b" "rb_style b = cap_from_cell x" "rb_next_col b = col" by (auto split: option.splits)
  then have m: "canon w row cols col s" "bs_mask_start s = None" using s by (auto simp: between_def)
  obtain e p xs where e: "ends_at w row cols s e p" "e \<le> rb_start b" "p \<noteq> Some (rb_start b, KeyStyle (rb_style b))" "rb_start b \<le> col" "builds b xs"
    "\<forall>x \<in> set xs. width_fits w x"
    using m b(1) by (auto simp: canon_def)
  note p = push_builds [OF e(5), of x, unfolded b(2,3), OF x(1)]
  show ?thesis unfolding canon_def
    by (rule exI [of _ e], rule exI [of _ p]) (use p e b m(2) x(2) True in \<open>auto simp: push_cell_def ends_at_def Let_def intro!: exI [of _ "xs @ [x]"]\<close>)
next
  case False
  let ?s = "flush_cells s"
  have "between w row cols col {k. k \<noteq> KeyStyle (cap_from_cell x)} ?s"
  proof (cases "between w row cols col {KeyMask} s")
    case True
    then have "?s = s" by (simp add: between_def flush_cells_def)
    then show ?thesis using between_mono [OF True] by auto
  next
    case m: False
    then have k: "canon w row cols col s" "bs_mask_start s = None" using s by simp_all
    have "rb_style b \<noteq> cap_from_cell x" if "bs_cur s = Some b" for b using False that k by (auto simp: canon_def)
    then show ?thesis using between_mono [OF flush_between [OF k c]] by (auto split: option.splits)
  qed
  then obtain e p where e: "ends_at w row cols ?s e p" "e \<le> col" "p \<noteq> Some (col, KeyStyle (cap_from_cell x))" "bs_mask_start ?s = None"
    by (auto simp: between_def)
  let ?b = "\<lparr>rb_start = col, rb_entries = [], rb_style = cap_from_cell x, rb_all_simple = True, rb_next_col = col\<rparr>"
  have b: "builds ?b []" by (simp add: builds_def)
  note p = push_builds [OF b, of x, simplified, OF x(1)]
  show ?thesis unfolding canon_def
    by (rule exI [of _ e], rule exI [of _ p]) (use p e x(2) False in \<open>auto simp: push_cell_def ends_at_def Let_def intro!: exI [of _ "[x]"]\<close>)
qed

definition cells_fit :: "char_width \<Rightarrow> usize \<Rightarrow> (usize \<Rightarrow> cell option) \<Rightarrow> bool" where
  "cells_fit w cols cell \<longleftrightarrow> (\<forall>c x. c < cols \<and> cell c = Some x \<longrightarrow>
     plain_cell x \<and> (is_wide_continuation x \<or> width_fits w x) \<and> (is_wide x \<longrightarrow> c + 2 \<le> cols))"

lemma mask_canon:
  assumes c: "canon w row cols col s" "col \<le> cols" "cols \<le> u16_max"
  shows "canon w row cols (col + 1) ((flush_cells s)\<lparr>bs_mask_start := case bs_mask_start (flush_cells s) of None \<Rightarrow> Some col | Some x \<Rightarrow> Some x\<rparr>)"
proof (cases "bs_mask_start s")
  case None
  have "between w row cols col {k. k \<noteq> KeyMask} (flush_cells s)"
    using between_mono [OF flush_between [OF c(1) None c(2,3)]] by (auto split: option.splits)
  then show ?thesis by (auto simp: between_def canon_def ends_at_def)
next
  case (Some ms)
  then have "flush_cells s = s" using c(1) by (auto simp: canon_def flush_cells_def split: option.splits)
  then show ?thesis using c(1) Some by (auto simp: canon_def ends_at_def)
qed

lemma build_loop_canon:
  assumes "cells_fit w cols cell" "cols \<le> u16_max" "canon w row cols col s" "col \<le> cols"
  shows "canon w row cols cols (build_loop cell cols has_masks m col s)"
  using assms
proof (induction cell cols has_masks m col s rule: build_loop.induct)
  case (1 cell cols has_masks m col s)
  note u = build_loop.simps [of cell cols has_masks m col s]
  show ?case
  proof (cases "col < cols")
    case False
    then show ?thesis using "1.prems" by (subst u) simp
  next
    case col: True
    have wr: "wrap16 col = col" using col "1.prems"(2) by simp
    have le: "col \<le> cols" using col by simp
    show ?thesis
    proof (cases "has_masks \<and> m ! col")
      case True
      from 1(1) [OF col refl True refl "1.prems"(1,2), unfolded wr] show ?thesis
        using mask_canon [OF "1.prems"(3) le "1.prems"(2)] True col wr by (subst u) (simp add: Let_def)
    next
      case unmasked: False
      let ?s = "end_mask col s" and ?c = "case cell col of Some x \<Rightarrow> x | None \<Rightarrow> cell_empty"
      note em = end_mask_canon [OF "1.prems"(3) le "1.prems"(2)]
      have s: "canon w row cols col ?s \<and> bs_mask_start ?s = None \<or> between w row cols col {KeyMask} ?s"
        using em "1.prems"(3) by (cases "bs_mask_start s") auto
      show ?thesis
      proof (cases "is_wide_continuation ?c \<or> cell_is_blank_default ?c")
        case True
        have "canon w row cols (col + 1) (flush_cells ?s)"
        proof (cases "between w row cols col {KeyMask} ?s")
          case True
          then have "flush_cells ?s = ?s" by (simp add: between_def flush_cells_def)
          then show ?thesis using between_next [OF True] by simp
        next
          case False
          then show ?thesis using s between_next [OF flush_between [OF _ _ le "1.prems"(2)]] by blast
        qed
        then show ?thesis using 1(2) [OF col refl unmasked refl refl, unfolded wr] True "1.prems"(1,2) unmasked col wr by (subst u) (auto simp: Let_def)
      next
        case False
        obtain x where x: "cell col = Some x" using False by (cases "cell col") (auto simp: blank_default_empty)
        have f: "plain_cell x" "width_fits w x" "is_wide x \<longrightarrow> col + 2 \<le> cols" "\<not> is_wide_continuation x"
          using "1.prems"(1) col x False by (auto simp: cells_fit_def)
        have "canon w row cols (if is_wide x then col + 2 else col + 1) (push_cell col x ?s)"
          using f by (intro push_canon [OF s _ _ le "1.prems"(2)]) (simp_all add: heads_def)
        then show ?thesis using 1(3) [OF col refl unmasked refl refl, unfolded wr] False "1.prems"(1,2) unmasked col wr x f(3) by (subst u) (auto simp: Let_def)
      qed
    qed
  qed
qed

section \<open>Captures validate\<close>

lemma row_runs_validate:
  assumes f: "cells_fit w cols (row_cell g r)" and c: "cols \<le> u16_max"
  shows "\<exists>st. validate_runs w row cols (build_row_runs g r cols ms) (0, None) = Ok st"
proof -
  let ?h = "any_in_row (wrap16 r) ms"
  let ?m = "if ?h then masked_columns (row_cell g r) cols (wrap16 r) ms else []"
  define s where "s = build_loop (row_cell g r) cols ?h ?m 0 \<lparr>bs_runs = [], bs_cur = None, bs_mask_start = None\<rparr>"
  have runs: "build_row_runs g r cols ms = bs_runs (end_mask cols (flush_cells s))" using c by (simp add: build_row_runs_def s_def Let_def)
  have k: "canon w row cols cols s" unfolding s_def by (rule build_loop_canon [OF f c]) (simp_all add: canon_def ends_at_def)
  show ?thesis
  proof (cases "bs_mask_start s")
    case None
    note b = flush_between [OF k None le_refl c]
    then have "end_mask cols (flush_cells s) = flush_cells s" by (simp add: between_def end_mask_def)
    then show ?thesis using b by (auto simp: runs between_def ends_at_def)
  next
    case (Some m)
    then have "flush_cells s = s" using k by (auto simp: canon_def flush_cells_def split: option.splits)
    then show ?thesis using end_mask_canon(3) [OF k le_refl c] Some by (auto simp: runs between_def ends_at_def)
  qed
qed

lemma validate_lines_ok:
  assumes "\<And>k. k < length rows \<Longrightarrow> rr_row (rows ! k) = i + k \<and> (\<exists>st. validate_runs w (rr_row (rows ! k)) cols (rr_runs (rows ! k)) (0, None) = Ok st)"
  shows "validate_lines w cols i rows = Ok ()"
  using assms
proof (induction rows arbitrary: i)
  case (Cons row rows)
  have "validate_lines w cols (i + 1) rows = Ok ()" using Cons.prems [of "Suc k" for k] by (intro Cons.IH) fastforce
  then show ?case using Cons.prems [of 0] by auto
qed simp

lemma redaction_le:
  assumes "cursor_redaction_col row col ms = Some c"
  shows "c \<le> col"
proof -
  have "fold min xs x \<le> x" for xs and x :: nat by (induction xs arbitrary: x) (auto intro: order_trans [OF _ min.cobounded2])
  moreover obtain x xs where x: "map mr_col (filter (rect_covers row col) ms) = x # xs" "c = fold min xs x"
    using assms by (auto simp: cursor_redaction_col_def split: list.splits)
  have "x \<in> set (map mr_col (filter (rect_covers row col) ms))" unfolding x(1) by simp
  then have "x \<le> col" by (auto simp: rect_covers_def)
  ultimately show ?thesis unfolding x(2) by (rule order_trans)
qed

text \<open>A frame as the terminal keeps it: whole wide characters, plain cells whose widths are the table's, and
  a size and a cursor the envelope can hold.\<close>

definition frame_fits :: "char_width \<Rightarrow> grid \<Rightarrow> cursor \<Rightarrow> bool" where
  "frame_fits w g cur \<longleftrightarrow> grid_ok g \<and> gr_rows g \<le> u16_max \<and> gr_cols g \<le> u16_max \<and>
     list_all (\<lambda>row. list_all (\<lambda>x. plain_cell x \<and> (is_wide_continuation x \<or> width_fits w x)) (r_cells row)) (gr_raw g) \<and>
     cu_row cur < gr_rows g \<and> cu_col cur \<le> gr_cols g"

lemma frame_cells_fit:
  assumes "frame_fits w g cur" "r < gr_rows g"
  shows "cells_fit w (gr_cols g) (row_cell g r)"
proof (unfold cells_fit_def, intro allI impI, elim conjE)
  fix c x assume c: "c < gr_cols g" "row_cell g r c = Some x"
  then obtain row where row: "grid_row g (scrollback_len g + r) = Some row" "row_get row c = Some x" by (auto simp: row_cell_def bind_eq_Some_conv)
  then have m: "row \<in> set (gr_raw g)" "c < length (r_cells row)" "x = r_cells row ! c" by (auto simp: grid_row_def row_get_def split: if_splits)
  then have "x \<in> set (r_cells row)" by simp
  moreover have "row_ok (gr_cols g) row" using assms(1) m(1) by (simp add: frame_fits_def grid_ok_def)
  then have "is_wide x \<longrightarrow> c + 1 < gr_cols g" using pairedD(1) [of "r_cells row" c] m by (auto simp: row_ok_def)
  ultimately show "plain_cell x \<and> (is_wide_continuation x \<or> width_fits w x) \<and> (is_wide x \<longrightarrow> c + 2 \<le> gr_cols g)"
    using assms(1) m(1) by (auto simp: frame_fits_def list_all_iff)
qed

lemma capture_valid:
  assumes "frame_fits w g cur"
  shows "validate w (from_parts g cur defaults alt palette ms) = Ok ()"
proof -
  have b: "gr_rows g \<le> u16_max" "gr_cols g \<le> u16_max" "cu_row cur < gr_rows g" "cu_col cur \<le> gr_cols g" using assms by (simp_all add: frame_fits_def)
  let ?lines = "map (\<lambda>r. \<lparr>rr_row = wrap16 r, rr_runs = build_row_runs g r (gr_cols g) ms\<rparr>) [0..<gr_rows g]"
  have "\<exists>st. validate_runs w r (gr_cols g) (build_row_runs g r (gr_cols g) ms) (0, None) = Ok st" if "r < gr_rows g" for r
    using row_runs_validate [OF frame_cells_fit [OF assms that] b(2)] .
  then have "validate_lines w (gr_cols g) 0 ?lines = Ok ()" using b(1) by (intro validate_lines_ok) simp
  then show ?thesis using b redaction_le [of "cu_row cur" "cu_col cur" ms]
    by (auto simp: validate_def from_parts_def SCHEMA_VERSION_def split: option.split dest: order_trans)
qed

section \<open>The grid the gate renders\<close>

lemma copy_cells: "length l = length xs \<Longrightarrow> fold (\<lambda>c l. l[c := xs ! c]) [0..<length xs] l = xs"
proof -
  have "n \<le> length xs \<Longrightarrow> length l = length xs \<Longrightarrow> fold (\<lambda>c l. l[c := xs ! c]) [0..<n] l = take n xs @ drop n l" for n
  proof (induction n)
    case (Suc n)
    then have "drop n l = l ! n # drop (Suc n) l" by (simp add: Cons_nth_drop_Suc)
    then show ?case using Suc by (simp add: take_Suc_conv_app_nth list_update_append)
  qed simp
  then show "length l = length xs \<Longrightarrow> fold (\<lambda>c l. l[c := xs ! c]) [0..<length xs] l = xs" by simp
qed

lemma copy_rows:
  assumes "\<forall>row \<in> set cells. length row = cols"
  shows "n \<le> length cells \<Longrightarrow> \<exists>g. fold (\<lambda>r g. Option.bind g (copy_row cells r))
      [0..<n] (Some (grid_new (length cells) cols config)) = Some g \<and> gr_rows g = length cells \<and> gr_cols g = cols \<and>
      map r_cells (gr_raw g) = take n cells @ replicate (length cells - n) (replicate cols cell_empty)"
proof (induction n)
  case 0
  show ?case by (simp add: grid_new_def row_new_def)
next
  case (Suc n)
  then obtain g where g: "fold (\<lambda>r g. Option.bind g (copy_row cells r))
      [0..<n] (Some (grid_new (length cells) cols config)) = Some g" "gr_rows g = length cells" "gr_cols g = cols"
    and raw: "map r_cells (gr_raw g) = take n cells @ replicate (length cells - n) (replicate cols cell_empty)" by auto
  have len: "length (gr_raw g) = length cells" using arg_cong [OF raw, of length] Suc.prems by simp
  have "r_cells (gr_raw g ! n) = map r_cells (gr_raw g) ! n" using len Suc.prems by simp
  also have "\<dots> = replicate cols cell_empty" unfolding raw using Suc.prems by (simp add: nth_append)
  finally have "r_cells (gr_raw g ! n) = replicate cols cell_empty" .
  moreover have "length (cells ! n) = cols" using assms Suc.prems by simp
  ultimately have c: "fold (\<lambda>c l. l[c := cells ! n ! c]) [0..<length (cells ! n)] (r_cells (gr_raw g ! n)) = cells ! n" by (intro copy_cells) simp
  have "map r_cells ((gr_raw g)[n := (gr_raw g ! n)\<lparr>r_cells := cells ! n\<rparr>]) = take (Suc n) cells @ replicate (length cells - Suc n) (replicate cols cell_empty)"
  proof -
    have "length cells - n = Suc (length cells - Suc n)" using Suc.prems by simp
    then have "replicate (length cells - n) (replicate cols cell_empty) = replicate cols cell_empty # replicate (length cells - Suc n) (replicate cols cell_empty)" by simp
    then show ?thesis using Suc.prems by (simp add: map_update raw take_Suc_conv_app_nth list_update_append)
  qed
  moreover have "copy_row cells n g = Some (set_line (bump_mutations g\<lparr>gr_dirty := mark_row n (gr_rows g) (gr_cols g) (gr_dirty g)\<rparr>) n ((gr_raw g ! n)\<lparr>r_cells := cells ! n\<rparr>))"
    using g c len Suc.prems by (simp add: copy_row_def visible_row_mut_marked_def visible_row_mut_untracked_def visible_row_def scrollback_len_def bump_mutations_def Let_def)
  ultimately show ?case using g by (simp add: set_line_def bump_mutations_def)
qed

lemma decode_length:
  "length (decode_simple cols st c t line) = length line" "length (decode_complex cols st c es line) = length line"
  "length (decode_run_into cols r line) = length line"
proof -
  show s: "length (decode_simple cols st c t line) = length line" for cols st c t line
    by (induction cols st c t line rule: decode_simple.induct) simp_all
  show k: "length (decode_complex cols st c es line) = length line" for cols st c es line
    by (induction cols st c es line rule: decode_complex.induct) (simp_all add: Let_def)
  have "length (fold (\<lambda>c l. l[c := mask_placeholder]) xs line) = length line" for xs by (induction xs arbitrary: line) simp_all
  then show "length (decode_run_into cols r line) = length line"
    using s k by (cases r) (auto simp: Let_def split: run_content.split)
qed

lemma to_cells_shape:
  "length (to_cells env) = fe_rows env" "row \<in> set (to_cells env) \<Longrightarrow> length row = fe_cols env"
proof -
  let ?ok = "\<lambda>g. length g = fe_rows env \<and> (\<forall>row \<in> set g. length row = fe_cols env)"
  have runs: "length (fold (decode_run_into cols) rs line) = length line" for cols rs line
    by (induction rs arbitrary: line) (simp_all add: decode_length)
  let ?f = "\<lambda>row g. if rr_row row < length g then g[rr_row row := fold (decode_run_into (fe_cols env)) (rr_runs row) (g ! rr_row row)] else g"
  have step: "?ok g \<Longrightarrow> ?ok (?f l g)" for l g by (auto simp: runs dest!: set_update_subset_insert [THEN subsetD])
  have "?ok (fold ?f (fe_lines env) (replicate (fe_rows env) (replicate (fe_cols env) cell_empty)))"
    by (rule fold_invariant [where Q = "\<lambda>_. True" and P = ?ok]) (blast | rule step | simp)+
  then have "?ok (to_cells env)" by (simp add: to_cells_def)
  then show "length (to_cells env) = fe_rows env" "row \<in> set (to_cells env) \<Longrightarrow> length row = fe_cols env" by simp_all
qed

lemma rendered_grid: "\<exists>g. to_grid env = Some g \<and> viewport_cells g = to_cells env"
proof -
  let ?cells = "to_cells env"
  let ?cols = "case ?cells of [] \<Rightarrow> 0 | r # _ \<Rightarrow> length r"
  have "\<forall>row \<in> set ?cells. length row = ?cols" using to_cells_shape(2) [of _ env] by (auto split: list.split)
  from copy_rows [OF this le_refl, of default_grid_config] obtain g where g: "to_grid env = Some g" "gr_rows g = length ?cells" "map r_cells (gr_raw g) = ?cells"
    by (auto simp: to_grid_def Let_def)
  moreover have "length (gr_raw g) = length ?cells" using arg_cong [OF g(3), of length] by simp
  ultimately show ?thesis by (simp add: viewport_cells_def scrollback_len_def drop_map)
qed

section \<open>Properties\<close>

text \<open>C23: shux accepts its own goldens.  Under any masks, the capture of a frame passes the strict validator,
  which checks the version, the cursor, and that the runs of every row are ordered, merged and of the
  width their characters have.\<close>

theorem captures_validate:
  assumes "frame_fits w g cur"
  shows "validate w (from_parts g cur defaults alt palette ms) = Ok ()"
  using assms by (rule capture_valid)

text \<open>C11: a golden shows no difference from the frame it was taken from.  Read back through the bounded view
  and compared with the live grid, no cell has changed, the size is the same and the cursor has not moved.\<close>

theorem golden_matches_its_frame:
  assumes "frame_fits w g cur" and "gr_rows g * gr_cols g \<le> MAX_VIEW_CELLS"
  shows "\<exists>v. try_view w (from_parts g cur defaults alt palette []) = Ok v \<and>
    (let d = diff_frames v (grid_frame g defaults \<lparr>cst_row = cu_row cur, cst_col = cu_col cur, cst_visible = cu_visible cur\<rparr> palette) in
     fd_cells_changed d = 0 \<and> \<not> fd_cursor_moved d \<and> \<not> fd_geometry_changed d \<and> \<not> fd_palette_overridden_differs d)"
proof -
  let ?e = "from_parts g cur defaults alt palette []"
  have b: "gr_rows g \<le> u16_max" "gr_cols g \<le> u16_max" "cu_row cur < gr_rows g" "cu_col cur \<le> gr_cols g" "grid_ok g"
    "list_all (\<lambda>row. list_all plain_cell (r_cells row)) (gr_raw g)" using assms(1) by (auto simp: frame_fits_def list_all_iff)
  have e: "fe_rows ?e = gr_rows g" "fe_cols ?e = gr_cols g" "fe_defaults ?e = defaults" "fe_palette_overridden ?e = palette"
    "fe_cursor ?e = \<lparr>cr_row = cu_row cur, cr_col = cu_col cur, cr_visible = cu_visible cur, cr_shape = cu_shape cur\<rparr>"
    using b by (simp_all add: from_parts_def cursor_redaction_col_def)
  note cells = capture_cells [OF b(5,1,2,6), of cur defaults alt palette]
  obtain v where v: "try_view w ?e = Ok v" "vw_rows v = gr_rows g" "vw_cols v = gr_cols g" "vw_defaults v = defaults" "vw_palette_overridden v = palette"
    "vw_cursor v = \<lparr>cst_row = cu_row cur, cst_col = cu_col cur, cst_visible = cu_visible cur\<rparr>"
    "vw_cell v = (\<lambda>r c. if r < length (viewport_cells g) \<and> c < length (viewport_cells g ! r) then viewport_cells g ! r ! c else cell_empty)"
    using assms(2) by (simp add: try_view_def capture_valid [OF assms(1)] e cells Let_def)
  let ?f = "grid_frame g defaults \<lparr>cst_row = cu_row cur, cst_col = cu_col cur, cst_visible = cu_visible cur\<rparr> palette"
  have "vw_cell v r c = vw_cell ?f r c" if "r < gr_rows g" "c < gr_cols g" for r c
    using that grid_okD(1) [OF b(5)] by (auto simp: v(7) grid_frame_def viewport_cells_def scrollback_len_def grid_row_def row_get_def)
  then have "fd_cells_changed (diff_frames v ?f) = 0"
    unfolding diff_none_iff by (auto simp: cells_differ_def v(2-4) diff_frames_def grid_frame_def Let_def)
  then show ?thesis using v by (auto simp: diff_frames_def grid_frame_def Let_def)
qed

text \<open>a masked cell never reaches a rendered picture.  The grid the gate renders is rebuilt from the masked
  capture, and two frames that differ only in masked columns give grids with the same cells.\<close>

theorem masked_cells_are_not_rendered:
  assumes "gr_rows g' = gr_rows g" and "gr_cols g' = gr_cols g"
    and "\<And>r c. r < gr_rows g \<Longrightarrow> c < gr_cols g \<Longrightarrow>
      (case row_cell g' r c of Some x \<Rightarrow> is_wide x | None \<Rightarrow> False) = (case row_cell g r c of Some x \<Rightarrow> is_wide x | None \<Rightarrow> False) \<and>
      (masked (wrap16 r) (wrap16 c) ms \<or> row_cell g' r c = row_cell g r c)"
  shows "\<exists>p p'. to_grid (from_parts g cur defaults alt palette ms) = Some p \<and> to_grid (from_parts g' cur defaults alt palette ms) = Some p' \<and>
    viewport_cells p = viewport_cells p' \<and> viewport_cells p = to_cells (from_parts g cur defaults alt palette ms)"
  using rendered_grid [of "from_parts g cur defaults alt palette ms"] masked_parts_equal [OF assms] by metis

definition table_demo :: char_width where
  "table_demo ch = Some (if 0x1100 \<le> ch then 2 else 1)"

lemma demo_fits: "frame_fits table_demo (line_grid [wide_demo, wide_continuation, cell_alignment]) cursor_new"
  using line_grid_ok [OF demo_line(1)] demo_line(2)
  by (simp add: frame_fits_def u16_max_def width_fits_def table_demo_def cursor_new_def)
    (simp add: wide_demo_def wide_continuation_def cell_alignment_def is_wide_continuation_def grapheme_def)

theorem captures_validate_witness:
  "validate table_demo (from_parts (line_grid [wide_demo, wide_continuation, cell_alignment]) cursor_new no_colors False False
     [\<lparr>mr_row = 0, mr_col = 1, mr_width = 1\<rparr>]) = Ok ()"
  by (rule captures_validate [OF demo_fits])

theorem golden_matches_its_frame_witness:
  "\<exists>v. try_view table_demo (from_parts (line_grid [wide_demo, wide_continuation, cell_alignment]) cursor_new no_colors False False []) = Ok v \<and>
    fd_cells_changed (diff_frames v (grid_frame (line_grid [wide_demo, wide_continuation, cell_alignment]) no_colors
      \<lparr>cst_row = 0, cst_col = 0, cst_visible = True\<rparr> False)) = 0"
  using golden_matches_its_frame [OF demo_fits, of no_colors False False] by (auto simp: MAX_VIEW_CELLS_def cursor_new_def Let_def)

end
