(* ===== verification/Ui_Buffer.thy ===== *)
theory Ui_Buffer
  imports Vt_Cell
begin

text \<open>
  The frame buffer of the terminal UI, \<^verbatim>\<open>shux-ui/src/buffer.rs\<close>, with the colour conversions of
  \<^verbatim>\<open>vt_convert.rs\<close>: cells as they are drawn, the frame being composed beside the one on the screen, and
  the list of cells in which they differ.  \<open>ct_color\<close> has the constructors of crossterm's colour type that
  the sources name.
\<close>

section \<open>Colours\<close>

datatype ct_color =
    CtReset | CtBlack | CtDarkRed | CtDarkGreen | CtDarkYellow | CtDarkBlue | CtDarkMagenta | CtDarkCyan | CtGrey
  | CtDarkGrey | CtRed | CtGreen | CtYellow | CtBlue | CtMagenta | CtCyan | CtWhite
  | CtAnsiValue u8 | CtRgb u8 u8 u8

fun vt_color_to_crossterm :: "color \<Rightarrow> ct_color option" where
  "vt_color_to_crossterm ColorDefault = None"
| "vt_color_to_crossterm (Indexed n) = Some (CtAnsiValue n)"
| "vt_color_to_crossterm (Rgb r g b) = Some (CtRgb r g b)"

definition vt_color_to_crossterm_with_default :: "color \<Rightarrow> rgb option \<Rightarrow> ct_color option" where
  "vt_color_to_crossterm_with_default c d =
     (case c of ColorDefault \<Rightarrow> map_option (\<lambda>(r, g, b). CtRgb r g b) d | other \<Rightarrow> vt_color_to_crossterm other)"

fun crossterm_to_vt :: "ct_color \<Rightarrow> color" where
  "crossterm_to_vt CtReset = ColorDefault"
| "crossterm_to_vt CtBlack = Indexed 0"
| "crossterm_to_vt CtDarkRed = Indexed 1"
| "crossterm_to_vt CtDarkGreen = Indexed 2"
| "crossterm_to_vt CtDarkYellow = Indexed 3"
| "crossterm_to_vt CtDarkBlue = Indexed 4"
| "crossterm_to_vt CtDarkMagenta = Indexed 5"
| "crossterm_to_vt CtDarkCyan = Indexed 6"
| "crossterm_to_vt CtGrey = Indexed 7"
| "crossterm_to_vt CtDarkGrey = Indexed 8"
| "crossterm_to_vt CtRed = Indexed 9"
| "crossterm_to_vt CtGreen = Indexed 10"
| "crossterm_to_vt CtYellow = Indexed 11"
| "crossterm_to_vt CtBlue = Indexed 12"
| "crossterm_to_vt CtMagenta = Indexed 13"
| "crossterm_to_vt CtCyan = Indexed 14"
| "crossterm_to_vt CtWhite = Indexed 15"
| "crossterm_to_vt (CtAnsiValue n) = Indexed n"
| "crossterm_to_vt (CtRgb r g b) = Rgb r g b"

lemma color_there_and_back: "(case vt_color_to_crossterm c of Some d \<Rightarrow> crossterm_to_vt d | None \<Rightarrow> ColorDefault) = c"
  by (cases c) simp_all

section \<open>Cells\<close>

record render_attrs =
  ra_bold :: bool
  ra_dim :: bool
  ra_italic :: bool
  ra_underline :: bool
  ra_blink :: bool
  ra_reverse :: bool
  ra_hidden :: bool
  ra_strikethrough :: bool

definition default_attrs :: render_attrs where
  "default_attrs = \<lparr>ra_bold = False, ra_dim = False, ra_italic = False, ra_underline = False, ra_blink = False, ra_reverse = False,
     ra_hidden = False, ra_strikethrough = False\<rparr>"

record render_cell =
  rc_ch :: rchar
  rc_fg :: "ct_color option"
  rc_bg :: "ct_color option"
  rc_attrs :: render_attrs
  rc_extended :: "extended_attrs option"
  rc_wide_continuation :: bool

definition render_styled :: "rchar \<Rightarrow> ct_color option \<Rightarrow> ct_color option \<Rightarrow> render_attrs \<Rightarrow> render_cell" where
  "render_styled ch fg bg attrs =
     \<lparr>rc_ch = ch, rc_fg = fg, rc_bg = bg, rc_attrs = attrs, rc_extended = None, rc_wide_continuation = False\<rparr>"

definition render_text :: "rchar \<Rightarrow> render_cell" where
  "render_text ch = \<lparr>rc_ch = ch, rc_fg = None, rc_bg = None, rc_attrs = default_attrs, rc_extended = None, rc_wide_continuation = False\<rparr>"

definition default_render_cell :: render_cell where
  "default_render_cell = \<lparr>rc_ch = 32, rc_fg = None, rc_bg = None, rc_attrs = default_attrs, rc_extended = None, rc_wide_continuation = False\<rparr>"

definition rc_display_text :: "render_cell \<Rightarrow> rstring" where
  "rc_display_text c = (case Option.bind (rc_extended c) xa_grapheme of Some t \<Rightarrow> t | None \<Rightarrow> [rc_ch c])"

definition from_vt_cell_with_defaults :: "cell \<Rightarrow> terminal_default_colors \<Rightarrow> render_cell" where
  "from_vt_cell_with_defaults c d =
     (let f = cs_flags (c_style c)
      in \<lparr>rc_ch = c_ch c, rc_fg = vt_color_to_crossterm_with_default (cs_fg (c_style c)) (tdc_fg d),
          rc_bg = vt_color_to_crossterm_with_default (cs_bg (c_style c)) (tdc_bg d),
          rc_attrs = \<lparr>ra_bold = flags_contain f BOLD, ra_dim = flags_contain f DIM, ra_italic = flags_contain f ITALIC,
                      ra_underline = flags_contain f UNDERLINE, ra_blink = flags_contain f BLINK, ra_reverse = flags_contain f INVERSE,
                      ra_hidden = flags_contain f HIDDEN, ra_strikethrough = flags_contain f STRIKETHROUGH\<rparr>,
          rc_extended = c_extended c, rc_wide_continuation = is_wide_continuation c\<rparr>)"

section \<open>The two frames\<close>

record frame_buffer =
  fb_width :: u16
  fb_height :: u16
  fb_current :: "render_cell list"
  fb_previous :: "render_cell list"

record dirty_cell =
  dc_col :: u16
  dc_row :: u16
  dc_cell :: render_cell

definition fb_new :: "u16 \<Rightarrow> u16 \<Rightarrow> frame_buffer" where
  "fb_new width height =
     \<lparr>fb_width = width, fb_height = height, fb_current = replicate (width * height) default_render_cell,
      fb_previous = replicate (width * height) default_render_cell\<rparr>"

definition fb_resize :: "u16 \<Rightarrow> u16 \<Rightarrow> frame_buffer \<Rightarrow> frame_buffer" where
  "fb_resize width height b =
     b\<lparr>fb_width := width, fb_height := height, fb_current := replicate (width * height) default_render_cell,
       fb_previous := replicate (width * height) default_render_cell\<rparr>"

definition fb_index :: "frame_buffer \<Rightarrow> u16 \<Rightarrow> u16 \<Rightarrow> usize" where
  "fb_index b col row = row * fb_width b + col"

text \<open>\<open>cell_mut\<close> with the write done through the reference.\<close>

definition fb_cell_mut :: "u16 \<Rightarrow> u16 \<Rightarrow> (render_cell \<Rightarrow> render_cell) \<Rightarrow> frame_buffer \<Rightarrow> frame_buffer" where
  "fb_cell_mut col row f b =
     (if col < fb_width b \<and> row < fb_height b
      then b\<lparr>fb_current := (fb_current b)[fb_index b col row := f (fb_current b ! fb_index b col row)]\<rparr> else b)"

definition fb_set_cell :: "u16 \<Rightarrow> u16 \<Rightarrow> render_cell \<Rightarrow> frame_buffer \<Rightarrow> frame_buffer" where
  "fb_set_cell col row c b =
     (if col < fb_width b \<and> row < fb_height b then b\<lparr>fb_current := (fb_current b)[fb_index b col row := c]\<rparr> else b)"

definition fb_clear_current :: "frame_buffer \<Rightarrow> frame_buffer" where
  "fb_clear_current b = b\<lparr>fb_current := map (\<lambda>_. default_render_cell) (fb_current b)\<rparr>"

definition dirty_at :: "frame_buffer \<Rightarrow> u16 \<Rightarrow> u16 \<Rightarrow> dirty_cell list" where
  "dirty_at b row col =
     (let i = fb_index b col row
      in if fb_current b ! i \<noteq> fb_previous b ! i then
           (if \<not> rc_wide_continuation (fb_current b ! i) then [\<lparr>dc_col = col, dc_row = row, dc_cell = fb_current b ! i\<rparr>] else [])
         else [])"

definition fb_diff :: "frame_buffer \<Rightarrow> dirty_cell list" where
  "fb_diff b = concat (map (\<lambda>row. concat (map (dirty_at b row) [0..<fb_width b])) [0..<fb_height b])"

definition fb_swap :: "frame_buffer \<Rightarrow> frame_buffer" where
  "fb_swap b = b\<lparr>fb_previous := fb_current b\<rparr>"

definition fb_invalidate :: "frame_buffer \<Rightarrow> frame_buffer" where
  "fb_invalidate b = b\<lparr>fb_previous := map (\<lambda>_. default_render_cell\<lparr>rc_ch := 0\<rparr>) (fb_previous b)\<rparr>"

section \<open>Both frames have the size of the buffer\<close>

definition fb_ok :: "frame_buffer \<Rightarrow> bool" where
  "fb_ok b \<longleftrightarrow> length (fb_current b) = fb_width b * fb_height b \<and> length (fb_previous b) = fb_width b * fb_height b"

lemma fb_ok_simps [simp]:
  "fb_ok (fb_new width height)" "fb_ok (fb_resize width height b)"
  "fb_ok (fb_cell_mut col row f b) = fb_ok b" "fb_ok (fb_set_cell col row c b) = fb_ok b"
  "fb_ok (fb_clear_current b) = fb_ok b" "fb_ok b \<Longrightarrow> fb_ok (fb_swap b)" "fb_ok (fb_invalidate b) = fb_ok b"
  by (simp_all add: fb_ok_def fb_new_def fb_resize_def fb_cell_mut_def fb_set_cell_def fb_clear_current_def fb_swap_def fb_invalidate_def mult.commute)

text \<open>What a frame shows at a place.\<close>

definition fb_at :: "frame_buffer \<Rightarrow> u16 \<Rightarrow> u16 \<Rightarrow> render_cell" where
  "fb_at b row col = fb_current b ! fb_index b col row"

lemma fb_index_less: "col < fb_width b \<Longrightarrow> row < fb_height b \<Longrightarrow> fb_index b col row < fb_width b * fb_height b"
proof -
  assume c: "col < fb_width b" "row < fb_height b"
  then have "row * fb_width b + col < Suc row * fb_width b" by simp
  also have "\<dots> \<le> fb_height b * fb_width b" using c by (intro mult_le_mono1) simp
  finally show ?thesis by (simp add: fb_index_def mult.commute)
qed

lemma fb_index_eq:
  assumes "col < fb_width b" "col' < fb_width b"
  shows "fb_index b col row = fb_index b col' row' \<longleftrightarrow> col = col' \<and> row = row'"
proof
  assume e: "fb_index b col row = fb_index b col' row'"
  from arg_cong [OF this, of "\<lambda>n. n mod fb_width b"] have "col = col'" using assms by (simp add: fb_index_def)
  then show "col = col' \<and> row = row'" using e assms by (simp add: fb_index_def)
qed simp

lemma fb_size_simps [simp]:
  "fb_width (fb_set_cell col row c b) = fb_width b" "fb_height (fb_set_cell col row c b) = fb_height b"
  "fb_width (fb_clear_current b) = fb_width b" "fb_height (fb_clear_current b) = fb_height b"
  "fb_previous (fb_set_cell col row c b) = fb_previous b" "fb_previous (fb_clear_current b) = fb_previous b"
  "fb_width (fb_swap b) = fb_width b" "fb_height (fb_swap b) = fb_height b"
  "fb_width (fb_invalidate b) = fb_width b" "fb_height (fb_invalidate b) = fb_height b"
  by (simp_all add: fb_set_cell_def fb_clear_current_def fb_swap_def fb_invalidate_def)

lemma fb_at_set:
  assumes "fb_ok b" "col' < fb_width b" "row' < fb_height b"
  shows "fb_at (fb_set_cell col row c b) row' col' = (if col = col' \<and> row = row' then c else fb_at b row' col')"
proof (cases "col < fb_width b \<and> row < fb_height b")
  case True
  then have "fb_index b col row < length (fb_current b)" using fb_index_less [of col b row] assms(1) by (simp add: fb_ok_def)
  then show ?thesis using True fb_index_eq [of col b col' row row'] assms(2)
    by (simp add: fb_set_cell_def fb_at_def nth_list_update fb_index_def)
next
  case False
  then show ?thesis using assms by (auto simp: fb_set_cell_def)
qed

end
