(* ===== verification/Ui_Render.thy ===== *)
theory Ui_Render
  imports Ui_Buffer Vt_Parts
begin

text \<open>
  The output side of the terminal UI, \<open>RenderBackend\<close> of \<^verbatim>\<open>shux-ui/src/render.rs\<close>: dirty cells become commands
  for the host terminal, and a style is sent only when it differs from the one sent last.  The writer is
  the list of what was queued; a write is taken to succeed, as on the \<open>Vec\<close> the attach loop uses.
\<close>

section \<open>Commands\<close>

datatype color_target = TargetForeground | TargetBackground | TargetUnderline

fun reset_code :: "color_target \<Rightarrow> nat" where
  "reset_code TargetForeground = 39"
| "reset_code TargetBackground = 49"
| "reset_code TargetUnderline = 59"

fun extended_code :: "color_target \<Rightarrow> nat" where
  "extended_code TargetForeground = 38"
| "extended_code TargetBackground = 48"
| "extended_code TargetUnderline = 58"

fun named_color_index :: "ct_color \<Rightarrow> nat option" where
  "named_color_index CtBlack = Some 0"
| "named_color_index CtDarkRed = Some 1"
| "named_color_index CtDarkGreen = Some 2"
| "named_color_index CtDarkYellow = Some 3"
| "named_color_index CtDarkBlue = Some 4"
| "named_color_index CtDarkMagenta = Some 5"
| "named_color_index CtDarkCyan = Some 6"
| "named_color_index CtGrey = Some 7"
| "named_color_index CtDarkGrey = Some 8"
| "named_color_index CtRed = Some 9"
| "named_color_index CtGreen = Some 10"
| "named_color_index CtYellow = Some 11"
| "named_color_index CtBlue = Some 12"
| "named_color_index CtMagenta = Some 13"
| "named_color_index CtCyan = Some 14"
| "named_color_index CtWhite = Some 15"
| "named_color_index _ = None"

definition sgr_text :: "nat list \<Rightarrow> rstring" where
  "sgr_text ps = [27] @ ascii ''['' @ (case map decimal ps of [] \<Rightarrow> [] | d # ds \<Rightarrow> d @ concat (map (\<lambda>e. ascii '';'' @ e) ds)) @ ascii ''m''"

definition write_color_sgr :: "color_target \<Rightarrow> ct_color \<Rightarrow> rstring" where
  "write_color_sgr target color =
     (case color of
        CtReset \<Rightarrow> sgr_text [reset_code target]
      | CtAnsiValue index \<Rightarrow> sgr_text [extended_code target, 5, unat index]
      | CtRgb r g b \<Rightarrow> sgr_text [extended_code target, 2, unat r, unat g, unat b]
      | named \<Rightarrow>
          (case named_color_index named of
             None \<Rightarrow> sgr_text [reset_code target]
           | Some index \<Rightarrow>
               (case target of
                  TargetUnderline \<Rightarrow> sgr_text [extended_code target, 5, index]
                | TargetForeground \<Rightarrow> sgr_text [(if index < 8 then 30 else 90) + index mod 8]
                | TargetBackground \<Rightarrow> sgr_text [(if index < 8 then 40 else 100) + index mod 8])))"

datatype text_attr =
    AttrReset | AttrBold | AttrDim | AttrItalic | AttrUnderlined | AttrDoubleUnderlined | AttrUndercurled | AttrUnderdotted
  | AttrUnderdashed | AttrSlowBlink | AttrReverse | AttrHidden | AttrCrossedOut

text \<open>What is queued.  \<open>Raw\<close> is text written as it is; the colour commands are \<open>write_color_sgr\<close> of their colour.\<close>

datatype term_cmd =
    BeginSynchronizedUpdate
  | EndSynchronizedUpdate
  | MoveTo u16 u16
  | SetAttribute text_attr
  | SetAnsiForegroundColor ct_color
  | SetAnsiBackgroundColor ct_color
  | SetAnsiUnderlineColor ct_color
  | ResetColor
  | PrintText rstring
  | Raw rstring
  | ClearAll
  | HideCursor
  | ShowCursor
  | SetCursorStyle cursor_shape

section \<open>The backend\<close>

record backend =
  be_out :: "term_cmd list"
  be_last_fg :: "ct_color option option"
  be_last_bg :: "ct_color option option"
  be_last_attrs :: "render_attrs option"
  be_last_underline_style :: "underline_style option"
  be_last_underline_color :: "ct_color option option"
  be_last_hyperlink :: "rstring option option"

definition backend_new :: backend where
  "backend_new = \<lparr>be_out = [], be_last_fg = None, be_last_bg = None, be_last_attrs = None, be_last_underline_style = None,
     be_last_underline_color = None, be_last_hyperlink = None\<rparr>"

definition queue :: "term_cmd list \<Rightarrow> backend \<Rightarrow> backend" where
  "queue cs b = b\<lparr>be_out := be_out b @ cs\<rparr>"

definition link_text :: "rstring \<Rightarrow> rstring" where
  "link_text uri = [27] @ ascii '']8;;'' @ uri @ [27, 92]"

definition apply_hyperlink :: "rstring option \<Rightarrow> backend \<Rightarrow> backend" where
  "apply_hyperlink link b =
     (if be_last_hyperlink b = None \<and> link = None then b
      else if be_last_hyperlink b = Some link then b
      else (queue [Raw (link_text (case link of Some uri \<Rightarrow> uri | None \<Rightarrow> []))] b)\<lparr>be_last_hyperlink := Some link\<rparr>)"

definition clear_hyperlink :: "backend \<Rightarrow> backend" where
  "clear_hyperlink b =
     (if be_last_hyperlink b \<noteq> None \<and> be_last_hyperlink b \<noteq> Some None then queue [Raw (link_text [])] b else b)\<lparr>be_last_hyperlink := None\<rparr>"

definition underline_style_of :: "render_cell \<Rightarrow> underline_style" where
  "underline_style_of c = (case rc_extended c of Some e \<Rightarrow> xa_underline_style e | None \<Rightarrow> UnderlineNone)"

definition underline_color_of :: "render_cell \<Rightarrow> ct_color option" where
  "underline_color_of c = Option.bind (Option.bind (rc_extended c) xa_underline_color) vt_color_to_crossterm"

definition hyperlink_of :: "render_cell \<Rightarrow> rstring option" where
  "hyperlink_of c = Option.bind (rc_extended c) xa_hyperlink"

definition underline_cmds :: "underline_style \<Rightarrow> bool \<Rightarrow> term_cmd list" where
  "underline_cmds u plain =
     (case u of
        UnderlineNone \<Rightarrow> if plain then [SetAttribute AttrUnderlined] else []
      | UnderlineSingle \<Rightarrow> [SetAttribute AttrUnderlined]
      | UnderlineDouble \<Rightarrow> [SetAttribute AttrDoubleUnderlined]
      | UnderlineCurly \<Rightarrow> [SetAttribute AttrUndercurled]
      | UnderlineDotted \<Rightarrow> [SetAttribute AttrUnderdotted]
      | UnderlineDashed \<Rightarrow> [SetAttribute AttrUnderdashed])"

definition when_set :: "bool \<Rightarrow> text_attr \<Rightarrow> term_cmd list" where
  "when_set b a = (if b then [SetAttribute a] else [])"

definition attr_cmds :: "render_attrs \<Rightarrow> underline_style \<Rightarrow> ct_color option \<Rightarrow> term_cmd list" where
  "attr_cmds a u uc =
     [SetAttribute AttrReset] @ when_set (ra_bold a) AttrBold @ when_set (ra_dim a) AttrDim @ when_set (ra_italic a) AttrItalic @
     underline_cmds u (ra_underline a) @ (case uc of Some c \<Rightarrow> [SetAnsiUnderlineColor c] | None \<Rightarrow> []) @
     when_set (ra_blink a) AttrSlowBlink @ when_set (ra_reverse a) AttrReverse @ when_set (ra_hidden a) AttrHidden @
     when_set (ra_strikethrough a) AttrCrossedOut"

definition apply_attrs :: "render_cell \<Rightarrow> backend \<Rightarrow> backend" where
  "apply_attrs c b =
     (let u = underline_style_of c; uc = underline_color_of c
      in if be_last_attrs b \<noteq> Some (rc_attrs c) \<or> be_last_underline_style b \<noteq> Some u \<or> be_last_underline_color b \<noteq> Some uc
         then (queue (attr_cmds (rc_attrs c) u uc) b)
                \<lparr>be_last_attrs := Some (rc_attrs c), be_last_underline_style := Some u, be_last_underline_color := Some uc,
                 be_last_fg := None, be_last_bg := None\<rparr>
         else b)"

definition apply_fg :: "ct_color option \<Rightarrow> backend \<Rightarrow> backend" where
  "apply_fg fg b =
     (if be_last_fg b \<noteq> Some fg
      then (queue [SetAnsiForegroundColor (case fg of Some color \<Rightarrow> color | None \<Rightarrow> CtReset)] b)\<lparr>be_last_fg := Some fg\<rparr> else b)"

definition apply_bg :: "ct_color option \<Rightarrow> backend \<Rightarrow> backend" where
  "apply_bg bg b =
     (if be_last_bg b \<noteq> Some bg
      then (queue [SetAnsiBackgroundColor (case bg of Some color \<Rightarrow> color | None \<Rightarrow> CtReset)] b)\<lparr>be_last_bg := Some bg\<rparr> else b)"

definition apply_style :: "render_cell \<Rightarrow> backend \<Rightarrow> backend" where
  "apply_style c b = apply_bg (rc_bg c) (apply_fg (rc_fg c) (apply_attrs c (apply_hyperlink (hyperlink_of c) b)))"

definition forget_style :: "backend \<Rightarrow> backend" where
  "forget_style b = b\<lparr>be_last_fg := None, be_last_bg := None, be_last_attrs := None, be_last_underline_style := None, be_last_underline_color := None\<rparr>"

definition render_cell_at :: "dirty_cell \<Rightarrow> backend \<Rightarrow> backend" where
  "render_cell_at d b = queue [PrintText (rc_display_text (dc_cell d))] (apply_style (dc_cell d) (queue [MoveTo (dc_col d) (dc_row d)] b))"

definition finish_frame :: "backend \<Rightarrow> backend" where
  "finish_frame b = forget_style (queue [ResetColor, EndSynchronizedUpdate] (clear_hyperlink b))"

definition render_diff :: "dirty_cell list \<Rightarrow> backend \<Rightarrow> backend" where
  "render_diff dirty b =
     (if dirty = [] then b else finish_frame (fold render_cell_at dirty (queue [BeginSynchronizedUpdate] b)))"

definition render_row :: "u16 \<Rightarrow> render_cell list \<Rightarrow> u16 \<Rightarrow> backend \<Rightarrow> backend" where
  "render_row width cells row b =
     fold (\<lambda>col b. let c = cells ! (row * width + col)
                   in if rc_wide_continuation c then b else queue [PrintText (rc_display_text c)] (apply_style c b))
       [0..<width] (queue [MoveTo 0 row] b)"

definition render_full :: "u16 \<Rightarrow> u16 \<Rightarrow> render_cell list \<Rightarrow> backend \<Rightarrow> backend" where
  "render_full width height cells b =
     finish_frame (fold (render_row width cells) [0..<height] (queue [BeginSynchronizedUpdate] b))"

definition clear_screen :: "backend \<Rightarrow> backend" where
  "clear_screen = queue [ClearAll, MoveTo 0 0]"

definition hide_cursor :: "backend \<Rightarrow> backend" where
  "hide_cursor = queue [HideCursor]"

definition show_cursor :: "backend \<Rightarrow> backend" where
  "show_cursor = queue [ShowCursor]"

definition set_cursor_shape :: "cursor_shape \<Rightarrow> backend \<Rightarrow> backend" where
  "set_cursor_shape shape = queue [SetCursorStyle shape]"

definition hex_pair :: "u8 \<Rightarrow> rstring" where
  "hex_pair x = (let d = (\<lambda>n::nat. if n < 10 then 48 + n else 87 + n) in [d (unat x div 16), d (unat x mod 16)])"

definition set_cursor_color :: "rgb option \<Rightarrow> backend \<Rightarrow> backend" where
  "set_cursor_color color =
     queue [Raw (case color of
                   Some (r, g, b) \<Rightarrow> [27] @ ascii '']12;#'' @ hex_pair r @ hex_pair g @ hex_pair b @ [27, 92]
                 | None \<Rightarrow> [27] @ ascii '']112'' @ [27, 92])]"

definition set_cursor :: "u16 \<Rightarrow> u16 \<Rightarrow> backend \<Rightarrow> backend" where
  "set_cursor col row = queue [MoveTo col row]"

end
