(* ===== verification/Ui_Host.thy ===== *)
theory Ui_Host
  imports Ui_Render
begin

text \<open>
  What the host terminal shows.  The host is a reference for the documented meaning of the commands: a pen,
  a link, a position and a screen of characters.  A character over half of a wide one leaves the other half
  undefined (\<open>None\<close>), since terminals differ there.  Rendering the difference of two frames takes a host
  that shows the first to one that shows the second.
\<close>

section \<open>The host\<close>

record pen =
  pn_bold :: bool
  pn_dim :: bool
  pn_italic :: bool
  pn_blink :: bool
  pn_reverse :: bool
  pn_hidden :: bool
  pn_strike :: bool
  pn_underline :: underline_style
  pn_underline_color :: "ct_color option"
  pn_fg :: "ct_color option"
  pn_bg :: "ct_color option"

definition pen_reset :: pen where
  "pen_reset = \<lparr>pn_bold = False, pn_dim = False, pn_italic = False, pn_blink = False, pn_reverse = False, pn_hidden = False, pn_strike = False,
     pn_underline = UnderlineNone, pn_underline_color = None, pn_fg = None, pn_bg = None\<rparr>"

text \<open>A shown character with its pen and link, or the second half of a wide one.\<close>

datatype glyph = Glyph rstring pen "rstring option" | Tail

type_synonym screen_cells = "nat \<Rightarrow> nat \<Rightarrow> glyph option"

record host =
  ho_cells :: screen_cells
  ho_row :: nat
  ho_col :: nat
  ho_pen :: pen
  ho_link :: "rstring option"

text \<open>\<open>wd\<close> is how many columns the host gives to a text.\<close>

type_synonym text_width = "rstring \<Rightarrow> nat"

fun wide_glyph :: "text_width \<Rightarrow> glyph option \<Rightarrow> bool" where
  "wide_glyph wd (Some (Glyph t p l)) = (wd t = 2)"
| "wide_glyph wd _ = False"

text \<open>One line after a character was put at \<open>c\<close>.\<close>

definition put_glyph :: "text_width \<Rightarrow> nat \<Rightarrow> rstring \<Rightarrow> pen \<Rightarrow> rstring option \<Rightarrow> (nat \<Rightarrow> glyph option) \<Rightarrow> nat \<Rightarrow> glyph option" where
  "put_glyph wd c t p l line =
     (let n = (if wd t = 2 then 2 else 1)
      in (\<lambda>k. if k = c then Some (Glyph t p l)
             else if k = c + 1 \<and> n = 2 then Some Tail
             else if k + 1 = c \<and> line c = Some Tail then None
             else if k = c + n \<and> line k = Some Tail then None
             else line k))"

fun pen_attr :: "text_attr \<Rightarrow> pen \<Rightarrow> pen" where
  "pen_attr AttrReset p = pen_reset"
| "pen_attr AttrBold p = p\<lparr>pn_bold := True\<rparr>"
| "pen_attr AttrDim p = p\<lparr>pn_dim := True\<rparr>"
| "pen_attr AttrItalic p = p\<lparr>pn_italic := True\<rparr>"
| "pen_attr AttrUnderlined p = p\<lparr>pn_underline := UnderlineSingle\<rparr>"
| "pen_attr AttrDoubleUnderlined p = p\<lparr>pn_underline := UnderlineDouble\<rparr>"
| "pen_attr AttrUndercurled p = p\<lparr>pn_underline := UnderlineCurly\<rparr>"
| "pen_attr AttrUnderdotted p = p\<lparr>pn_underline := UnderlineDotted\<rparr>"
| "pen_attr AttrUnderdashed p = p\<lparr>pn_underline := UnderlineDashed\<rparr>"
| "pen_attr AttrSlowBlink p = p\<lparr>pn_blink := True\<rparr>"
| "pen_attr AttrReverse p = p\<lparr>pn_reverse := True\<rparr>"
| "pen_attr AttrHidden p = p\<lparr>pn_hidden := True\<rparr>"
| "pen_attr AttrCrossedOut p = p\<lparr>pn_strike := True\<rparr>"

definition plain_color :: "ct_color option \<Rightarrow> ct_color option" where
  "plain_color c = (if c = Some CtReset then None else c)"

text \<open>OSC 8 sets the link; the string ends at the first control character, and an empty one ends the link.\<close>

definition plain_link :: "rstring option \<Rightarrow> rstring option" where
  "plain_link l = (if l = Some [] then None else l)"

definition is_link_text :: "rstring \<Rightarrow> bool" where
  "is_link_text s \<longleftrightarrow> take 5 s = [27] @ ascii '']8;;''"

definition read_link :: "rstring \<Rightarrow> rstring option" where
  "read_link s = plain_link (Some (takeWhile (\<lambda>ch. 32 \<le> ch) (drop 5 s)))"

fun host_exec :: "text_width \<Rightarrow> term_cmd \<Rightarrow> host \<Rightarrow> host" where
  "host_exec wd (MoveTo col row) h = h\<lparr>ho_row := row, ho_col := col\<rparr>"
| "host_exec wd (SetAttribute a) h = h\<lparr>ho_pen := pen_attr a (ho_pen h)\<rparr>"
| "host_exec wd (SetAnsiForegroundColor c) h = h\<lparr>ho_pen := (ho_pen h)\<lparr>pn_fg := plain_color (Some c)\<rparr>\<rparr>"
| "host_exec wd (SetAnsiBackgroundColor c) h = h\<lparr>ho_pen := (ho_pen h)\<lparr>pn_bg := plain_color (Some c)\<rparr>\<rparr>"
| "host_exec wd (SetAnsiUnderlineColor c) h = h\<lparr>ho_pen := (ho_pen h)\<lparr>pn_underline_color := plain_color (Some c)\<rparr>\<rparr>"
| "host_exec wd ResetColor h = h\<lparr>ho_pen := pen_reset\<rparr>"
| "host_exec wd (PrintText t) h =
     h\<lparr>ho_cells := (ho_cells h)(ho_row h := put_glyph wd (ho_col h) t (ho_pen h) (ho_link h) (ho_cells h (ho_row h))),
       ho_col := ho_col h + (if wd t = 2 then 2 else 1)\<rparr>"
| "host_exec wd (Raw s) h = (if is_link_text s then h\<lparr>ho_link := read_link s\<rparr> else h)"
| "host_exec wd ClearAll h = h\<lparr>ho_cells := (\<lambda>_ _. None)\<rparr>"
| "host_exec wd _ h = h"

definition host_run :: "text_width \<Rightarrow> term_cmd list \<Rightarrow> host \<Rightarrow> host" where
  "host_run wd cs h = fold (host_exec wd) cs h"

lemma host_run_simps [simp]:
  "host_run wd [] h = h" "host_run wd (c # cs) h = host_run wd cs (host_exec wd c h)" "host_run wd (cs @ ds) h = host_run wd ds (host_run wd cs h)"
  by (simp_all add: host_run_def)

section \<open>Styles are never stale\<close>

definition attrs_pen :: "render_attrs \<Rightarrow> underline_style \<Rightarrow> ct_color option \<Rightarrow> pen" where
  "attrs_pen a u uc =
     \<lparr>pn_bold = ra_bold a, pn_dim = ra_dim a, pn_italic = ra_italic a, pn_blink = ra_blink a, pn_reverse = ra_reverse a, pn_hidden = ra_hidden a,
      pn_strike = ra_strikethrough a, pn_underline = (if u = UnderlineNone \<and> ra_underline a then UnderlineSingle else u),
      pn_underline_color = plain_color uc, pn_fg = None, pn_bg = None\<rparr>"

definition cell_pen :: "render_cell \<Rightarrow> pen" where
  "cell_pen c = (attrs_pen (rc_attrs c) (underline_style_of c) (underline_color_of c))\<lparr>pn_fg := plain_color (rc_fg c), pn_bg := plain_color (rc_bg c)\<rparr>"

definition link_clean :: "rstring option \<Rightarrow> bool" where
  "link_clean l \<longleftrightarrow> (case l of Some uri \<Rightarrow> list_all (\<lambda>ch. 32 \<le> ch) uri | None \<Rightarrow> True)"

text \<open>What the backend remembers of the host is true of it.\<close>

definition agrees :: "backend \<Rightarrow> host \<Rightarrow> bool" where
  "agrees b h \<longleftrightarrow>
     (\<forall>a u uc. be_last_attrs b = Some a \<and> be_last_underline_style b = Some u \<and> be_last_underline_color b = Some uc \<longrightarrow>
        (ho_pen h)\<lparr>pn_fg := None, pn_bg := None\<rparr> = attrs_pen a u uc) \<and>
     (\<forall>c. be_last_fg b = Some c \<longrightarrow> pn_fg (ho_pen h) = plain_color c) \<and> (\<forall>c. be_last_bg b = Some c \<longrightarrow> pn_bg (ho_pen h) = plain_color c) \<and>
     ho_link h = (case be_last_hyperlink b of None \<Rightarrow> None | Some l \<Rightarrow> plain_link l)"

lemma when_set_pen [simp]:
  "host_run wd (when_set b a) h = h\<lparr>ho_pen := (if b then pen_attr a (ho_pen h) else ho_pen h)\<rparr>"
  by (simp add: when_set_def)

lemma underline_pen [simp]:
  "host_run wd (underline_cmds u plain) h =
     h\<lparr>ho_pen := (if u = UnderlineNone \<and> \<not> plain then ho_pen h else (ho_pen h)\<lparr>pn_underline := (if u = UnderlineNone then UnderlineSingle else u)\<rparr>)\<rparr>"
  by (cases u) (simp_all add: underline_cmds_def)

lemma underline_color_pen [simp]:
  "host_run wd (case uc of Some c \<Rightarrow> [SetAnsiUnderlineColor c] | None \<Rightarrow> []) h =
     h\<lparr>ho_pen := (case uc of Some c \<Rightarrow> (ho_pen h)\<lparr>pn_underline_color := plain_color uc\<rparr> | None \<Rightarrow> ho_pen h)\<rparr>"
  by (cases uc) simp_all

lemma if_pen [simp]:
  "(if b then p\<lparr>pn_bold := True\<rparr> else p) = p\<lparr>pn_bold := b \<or> pn_bold p\<rparr>" "(if b then p\<lparr>pn_dim := True\<rparr> else p) = p\<lparr>pn_dim := b \<or> pn_dim p\<rparr>"
  "(if b then p\<lparr>pn_italic := True\<rparr> else p) = p\<lparr>pn_italic := b \<or> pn_italic p\<rparr>" "(if b then p\<lparr>pn_blink := True\<rparr> else p) = p\<lparr>pn_blink := b \<or> pn_blink p\<rparr>"
  "(if b then p\<lparr>pn_reverse := True\<rparr> else p) = p\<lparr>pn_reverse := b \<or> pn_reverse p\<rparr>" "(if b then p\<lparr>pn_hidden := True\<rparr> else p) = p\<lparr>pn_hidden := b \<or> pn_hidden p\<rparr>"
  "(if b then p\<lparr>pn_strike := True\<rparr> else p) = p\<lparr>pn_strike := b \<or> pn_strike p\<rparr>"
  by simp_all

lemma attr_cmds_pen: "host_run wd (attr_cmds a u uc) h = h\<lparr>ho_pen := attrs_pen a u uc\<rparr>"
  by (cases uc) (auto simp: attr_cmds_def attrs_pen_def pen_reset_def plain_color_def)

lemma link_text_read:
  assumes "list_all (\<lambda>ch. 32 \<le> ch) uri"
  shows "host_exec wd (Raw (link_text uri)) h = h\<lparr>ho_link := plain_link (Some uri)\<rparr>"
proof -
  have "takeWhile (\<lambda>ch. 32 \<le> ch) (uri @ [27, 92]) = uri" using assms by (induction uri) simp_all
  then show ?thesis by (simp add: link_text_def is_link_text_def read_link_def)
qed

text \<open>The host after everything queued so far.\<close>

definition seen_by :: "text_width \<Rightarrow> host \<Rightarrow> backend \<Rightarrow> host" where
  "seen_by wd h b = host_run wd (be_out b) h"

lemma seen_queue [simp]: "seen_by wd h (queue cs b) = host_run wd cs (seen_by wd h b)"
  by (simp add: seen_by_def queue_def)

lemma seen_same [simp]:
  "seen_by wd h (b\<lparr>be_last_fg := x1\<rparr>) = seen_by wd h b" "seen_by wd h (b\<lparr>be_last_bg := x1\<rparr>) = seen_by wd h b"
  "seen_by wd h (b\<lparr>be_last_attrs := x2\<rparr>) = seen_by wd h b" "seen_by wd h (b\<lparr>be_last_underline_style := x3\<rparr>) = seen_by wd h b"
  "seen_by wd h (b\<lparr>be_last_underline_color := x1\<rparr>) = seen_by wd h b" "seen_by wd h (b\<lparr>be_last_hyperlink := x4\<rparr>) = seen_by wd h b"
  by (simp_all add: seen_by_def)

lemma queue_keeps [simp]:
  "be_last_fg (queue cs b) = be_last_fg b" "be_last_bg (queue cs b) = be_last_bg b" "be_last_attrs (queue cs b) = be_last_attrs b"
  "be_last_underline_style (queue cs b) = be_last_underline_style b" "be_last_underline_color (queue cs b) = be_last_underline_color b"
  "be_last_hyperlink (queue cs b) = be_last_hyperlink b"
  by (simp_all add: queue_def)

abbreviation same_place :: "host \<Rightarrow> host \<Rightarrow> bool" where
  "same_place s s' \<equiv> ho_cells s' = ho_cells s \<and> ho_row s' = ho_row s \<and> ho_col s' = ho_col s"

lemma hyperlink_sent:
  assumes "agrees b (seen_by wd h b)" "link_clean l"
  shows "agrees (apply_hyperlink l b) (seen_by wd h (apply_hyperlink l b))" "ho_link (seen_by wd h (apply_hyperlink l b)) = plain_link l"
    "same_place (seen_by wd h b) (seen_by wd h (apply_hyperlink l b))"
proof -
  have r: "host_exec wd (Raw (link_text (case l of Some uri \<Rightarrow> uri | None \<Rightarrow> []))) s = s\<lparr>ho_link := plain_link l\<rparr>" for s
    using assms(2) link_text_read [of "case l of Some uri \<Rightarrow> uri | None \<Rightarrow> []" wd s] by (cases l) (simp_all add: link_clean_def plain_link_def)
  have s: "seen_by wd h (apply_hyperlink l b) =
      (if be_last_hyperlink b = None \<and> l = None \<or> be_last_hyperlink b = Some l then seen_by wd h b else (seen_by wd h b)\<lparr>ho_link := plain_link l\<rparr>)"
    by (simp add: apply_hyperlink_def r del: host_exec.simps)
  have k: "be_last_fg (apply_hyperlink l b) = be_last_fg b" "be_last_bg (apply_hyperlink l b) = be_last_bg b"
    "be_last_attrs (apply_hyperlink l b) = be_last_attrs b" "be_last_underline_style (apply_hyperlink l b) = be_last_underline_style b"
    "be_last_underline_color (apply_hyperlink l b) = be_last_underline_color b"
    "be_last_hyperlink (apply_hyperlink l b) = (if be_last_hyperlink b = None \<and> l = None then None else Some l)"
    by (simp_all add: apply_hyperlink_def)
  show "same_place (seen_by wd h b) (seen_by wd h (apply_hyperlink l b))" by (simp add: s)
  show "agrees (apply_hyperlink l b) (seen_by wd h (apply_hyperlink l b))" using assms(1) by (auto simp: agrees_def s k)
  show "ho_link (seen_by wd h (apply_hyperlink l b)) = plain_link l" using assms(1) by (auto simp: agrees_def s plain_link_def)
qed

lemma attrs_sent:
  assumes "agrees b (seen_by wd h b)"
  shows "agrees (apply_attrs c b) (seen_by wd h (apply_attrs c b))"
    "(ho_pen (seen_by wd h (apply_attrs c b)))\<lparr>pn_fg := None, pn_bg := None\<rparr> = attrs_pen (rc_attrs c) (underline_style_of c) (underline_color_of c)"
    "same_place (seen_by wd h b) (seen_by wd h (apply_attrs c b))" "ho_link (seen_by wd h (apply_attrs c b)) = ho_link (seen_by wd h b)"
proof -
  have p: "(attrs_pen a u uc)\<lparr>pn_fg := None, pn_bg := None\<rparr> = attrs_pen a u uc" for a u uc by (simp add: attrs_pen_def)
  show "agrees (apply_attrs c b) (seen_by wd h (apply_attrs c b))"
    using assms by (auto simp: apply_attrs_def agrees_def attr_cmds_pen p Let_def)
  show "(ho_pen (seen_by wd h (apply_attrs c b)))\<lparr>pn_fg := None, pn_bg := None\<rparr> = attrs_pen (rc_attrs c) (underline_style_of c) (underline_color_of c)"
    using assms by (auto simp: apply_attrs_def agrees_def attr_cmds_pen p Let_def)
  show "same_place (seen_by wd h b) (seen_by wd h (apply_attrs c b))" "ho_link (seen_by wd h (apply_attrs c b)) = ho_link (seen_by wd h b)"
    by (simp_all add: apply_attrs_def attr_cmds_pen Let_def)
qed

lemma colors_sent:
  assumes "agrees b (seen_by wd h b)"
  shows "agrees (apply_fg fg b) (seen_by wd h (apply_fg fg b))" "agrees (apply_bg bg b) (seen_by wd h (apply_bg bg b))"
    "ho_pen (seen_by wd h (apply_fg fg b)) = (ho_pen (seen_by wd h b))\<lparr>pn_fg := plain_color fg\<rparr>"
    "ho_pen (seen_by wd h (apply_bg bg b)) = (ho_pen (seen_by wd h b))\<lparr>pn_bg := plain_color bg\<rparr>"
    "same_place (seen_by wd h b) (seen_by wd h (apply_fg fg b))" "same_place (seen_by wd h b) (seen_by wd h (apply_bg bg b))"
    "ho_link (seen_by wd h (apply_fg fg b)) = ho_link (seen_by wd h b)" "ho_link (seen_by wd h (apply_bg bg b)) = ho_link (seen_by wd h b)"
proof -
  have c: "plain_color (Some (case f of Some color \<Rightarrow> color | None \<Rightarrow> CtReset)) = plain_color f" for f by (cases f) (simp_all add: plain_color_def)
  show "agrees (apply_fg fg b) (seen_by wd h (apply_fg fg b))" "agrees (apply_bg bg b) (seen_by wd h (apply_bg bg b))"
    using assms by (auto simp: apply_fg_def apply_bg_def agrees_def c)
  show "ho_pen (seen_by wd h (apply_fg fg b)) = (ho_pen (seen_by wd h b))\<lparr>pn_fg := plain_color fg\<rparr>"
    "ho_pen (seen_by wd h (apply_bg bg b)) = (ho_pen (seen_by wd h b))\<lparr>pn_bg := plain_color bg\<rparr>"
    using assms by (auto simp: apply_fg_def apply_bg_def agrees_def c)
  show "same_place (seen_by wd h b) (seen_by wd h (apply_fg fg b))" "same_place (seen_by wd h b) (seen_by wd h (apply_bg bg b))"
    "ho_link (seen_by wd h (apply_fg fg b)) = ho_link (seen_by wd h b)" "ho_link (seen_by wd h (apply_bg bg b)) = ho_link (seen_by wd h b)"
    by (simp_all add: apply_fg_def apply_bg_def)
qed

lemma style_sent:
  assumes "agrees b (seen_by wd h b)" "link_clean (hyperlink_of c)"
  defines "b' \<equiv> apply_style c b"
  shows "agrees b' (seen_by wd h b')" "ho_pen (seen_by wd h b') = cell_pen c" "ho_link (seen_by wd h b') = plain_link (hyperlink_of c)"
    "same_place (seen_by wd h b) (seen_by wd h b')"
proof -
  let ?b1 = "apply_hyperlink (hyperlink_of c) b"
  let ?b2 = "apply_attrs c ?b1"
  let ?b3 = "apply_fg (rc_fg c) ?b2"
  note l = hyperlink_sent [OF assms(1,2)]
  note a = attrs_sent [OF l(1), of c]
  note f = colors_sent(1,3,5,7) [OF a(1), of "rc_fg c"]
  note g = colors_sent(2,4,6,8) [OF f(1), of "rc_bg c"]
  have e: "b' = apply_bg (rc_bg c) ?b3" by (simp add: b'_def apply_style_def)
  show "agrees b' (seen_by wd h b')" unfolding e by (rule g(1))
  show "ho_link (seen_by wd h b') = plain_link (hyperlink_of c)" unfolding e using g(4) f(4) a(4) l(2) by simp
  show "same_place (seen_by wd h b) (seen_by wd h b')" unfolding e using g(3) f(3) a(3) l(3) by simp
  have "ho_pen (seen_by wd h b') = (ho_pen (seen_by wd h ?b2))\<lparr>pn_fg := plain_color (rc_fg c), pn_bg := plain_color (rc_bg c)\<rparr>"
    unfolding e using g(2) f(2) by simp
  also have "\<dots> = ((ho_pen (seen_by wd h ?b2))\<lparr>pn_fg := None, pn_bg := None\<rparr>)\<lparr>pn_fg := plain_color (rc_fg c), pn_bg := plain_color (rc_bg c)\<rparr>" by simp
  finally show "ho_pen (seen_by wd h b') = cell_pen c" unfolding a(2) by (simp add: cell_pen_def)
qed

section \<open>One line\<close>

definition shown_glyph :: "render_cell \<Rightarrow> glyph" where
  "shown_glyph c = (if rc_wide_continuation c then Tail else Glyph (rc_display_text c) (cell_pen c) (plain_link (hyperlink_of c)))"

definition wide_head :: "text_width \<Rightarrow> render_cell \<Rightarrow> bool" where
  "wide_head wd c \<longleftrightarrow> \<not> rc_wide_continuation c \<and> wd (rc_display_text c) = 2"

lemma wide_shown [simp]: "wide_glyph wd (Some (shown_glyph c)) = wide_head wd c" "shown_glyph c = Tail \<longleftrightarrow> rc_wide_continuation c"
  by (simp_all add: shown_glyph_def wide_head_def)

text \<open>A line of a frame whose wide characters are whole, and a line of the host in which they are.\<close>

definition whole_line :: "text_width \<Rightarrow> nat \<Rightarrow> (nat \<Rightarrow> render_cell) \<Rightarrow> bool" where
  "whole_line wd n f \<longleftrightarrow> (\<forall>k < n. (rc_wide_continuation (f k) \<longleftrightarrow> 0 < k \<and> wide_head wd (f (k - 1))) \<and> (wide_head wd (f k) \<longrightarrow> k + 1 < n))"

definition tidy :: "text_width \<Rightarrow> nat \<Rightarrow> (nat \<Rightarrow> glyph option) \<Rightarrow> bool" where
  "tidy wd n line \<longleftrightarrow> (\<forall>k < n. (line k = Some Tail \<longrightarrow> 0 < k \<and> wide_glyph wd (line (k - 1))) \<and> (wide_glyph wd (line k) \<longrightarrow> k + 1 < n \<and> line (k + 1) = Some Tail))"

lemma tidyD:
  "tidy wd n line \<Longrightarrow> k < n \<Longrightarrow> line k = Some Tail \<Longrightarrow> 0 < k \<and> wide_glyph wd (line (k - 1))"
  "tidy wd n line \<Longrightarrow> k < n \<Longrightarrow> wide_glyph wd (line k) \<Longrightarrow> k + 1 < n \<and> line (k + 1) = Some Tail"
  by (simp_all add: tidy_def)

lemma whole_lineD:
  "whole_line wd n f \<Longrightarrow> k < n \<Longrightarrow> rc_wide_continuation (f k) \<longleftrightarrow> 0 < k \<and> wide_head wd (f (k - 1))"
  "whole_line wd n f \<Longrightarrow> k < n \<Longrightarrow> wide_head wd (f k) \<Longrightarrow> k + 1 < n"
  by (simp_all add: whole_line_def)

lemma put_glyph_other:
  assumes "k \<noteq> c" "\<not> (k = c + 1 \<and> wd t = 2)" "k + 1 \<noteq> c" "\<not> (k = c + (if wd t = 2 then 2 else 1) \<and> line k = Some Tail)"
  shows "put_glyph wd c t p l line k = line k"
  using assms by (cases "wd t = 2") (auto simp: put_glyph_def Let_def)

lemma put_tidy:
  assumes t: "tidy wd n line" and c: "c < n" "wd t = 2 \<Longrightarrow> c + 1 < n"
  shows "tidy wd n (put_glyph wd c t p l line)"
proof -
  let ?new = "put_glyph wd c t p l line" and ?n = "if wd t = 2 then 2 else 1 :: nat"
  have a: "0 < k \<and> wide_glyph wd (?new (k - 1))" if k: "k < n" "?new k = Some Tail" for k
  proof (cases "k = c + 1 \<and> wd t = 2")
    case True
    then show ?thesis by (simp add: put_glyph_def)
  next
    case False
    then have o: "line k = Some Tail" "k \<noteq> c" "k \<noteq> c + ?n" using k(2) by (auto simp: put_glyph_def Let_def split: if_splits)
    note w = tidyD(1) [OF t k(1) o(1)]
    have "line (k - 1) \<noteq> Some Tail" using w by (auto elim: wide_glyph.elims)
    moreover have "k - 1 \<noteq> c" "wd t = 2 \<longrightarrow> k - 1 \<noteq> c + 1" "k - 1 + 1 \<noteq> c" using False o w by (auto split: if_splits)
    ultimately have "?new (k - 1) = line (k - 1)" by (auto simp: put_glyph_def Let_def)
    then show ?thesis using w by simp
  qed
  have b: "k + 1 < n \<and> ?new (k + 1) = Some Tail" if k: "k < n" "wide_glyph wd (?new k)" for k
  proof (cases "k = c")
    case True
    then show ?thesis using k c by (simp add: put_glyph_def Let_def)
  next
    case False
    then have o: "?new k = line k" "\<not> (k + 1 = c \<and> line c = Some Tail)" "\<not> (wd t = 2 \<and> k = c + 1)" using k(2) by (auto simp: put_glyph_def Let_def split: if_splits)
    note w = tidyD(2) [OF t k(1)] k(2) [unfolded o(1)]
    have w': "k + 1 < n" "line (k + 1) = Some Tail" using w by simp_all
    have "\<not> (k + 2 = c \<and> line c = Some Tail)" using tidyD(1) [OF t c(1)] w'(2) by auto
    then have "?new (k + 1) = Some Tail" using o w' False by (auto simp: put_glyph_def Let_def)
    then show ?thesis using w' by simp
  qed
  show ?thesis unfolding tidy_def using a b by blast
qed

definition paint_cell :: "text_width \<Rightarrow> (nat \<Rightarrow> render_cell) \<Rightarrow> (nat \<Rightarrow> bool) \<Rightarrow> nat \<Rightarrow> (nat \<Rightarrow> glyph option) \<Rightarrow> nat \<Rightarrow> glyph option" where
  "paint_cell wd f D c line =
     (if D c \<and> \<not> rc_wide_continuation (f c) then put_glyph wd c (rc_display_text (f c)) (cell_pen (f c)) (plain_link (hyperlink_of (f c))) line else line)"

lemma paint_step:
  assumes f: "whole_line wd n f" and t: "tidy wd n line" and c: "c < n"
    and before: "\<forall>k < c. line k = Some (shown_glyph (f k))" and after: "\<forall>k. c \<le> k \<and> k < n \<longrightarrow> D k \<or> line k = Some (shown_glyph (f k))"
  defines "new \<equiv> paint_cell wd f D c line"
  shows "tidy wd n new" "\<forall>k < c + 1. new k = Some (shown_glyph (f k))" "\<forall>k. c + 1 \<le> k \<and> k < n \<longrightarrow> D k \<or> new k = Some (shown_glyph (f k))"
proof -
  consider (paint) "D c" "\<not> rc_wide_continuation (f c)" | (tail) "rc_wide_continuation (f c)" | (keep) "\<not> D c" "\<not> rc_wide_continuation (f c)" by blast
  then have "tidy wd n new \<and> (\<forall>k < c + 1. new k = Some (shown_glyph (f k))) \<and> (\<forall>k. c + 1 \<le> k \<and> k < n \<longrightarrow> D k \<or> new k = Some (shown_glyph (f k)))"
  proof cases
    case paint
    let ?t = "rc_display_text (f c)"
    have new: "new = put_glyph wd c ?t (cell_pen (f c)) (plain_link (hyperlink_of (f c))) line" using paint by (simp add: new_def paint_cell_def)
    have w: "wide_head wd (f c) \<longleftrightarrow> wd ?t = 2" using paint by (simp add: wide_head_def)
    have "tidy wd n new" unfolding new using whole_lineD(2) [OF f c] w by (intro put_tidy [OF t c]) simp
    moreover have nt: "line c \<noteq> Some Tail"
    proof
      assume "line c = Some Tail"
      then have h: "0 < c" "wide_glyph wd (line (c - 1))" using tidyD(1) [OF t c] by simp_all
      then have "wide_head wd (f (c - 1))" using before by (metis diff_less less_numeral_extra(1) wide_shown(1))
      then show False using whole_lineD(1) [OF f c] h(1) paint(2) by simp
    qed
    have "new k = Some (shown_glyph (f k))" if "k < c + 1" for k
      using that before nt paint by (cases "k = c") (simp_all add: new put_glyph_def Let_def shown_glyph_def)
    moreover have "D k \<or> new k = Some (shown_glyph (f k))" if k: "c + 1 \<le> k" "k < n" for k
    proof (cases "k = c + 1 \<and> wd ?t = 2")
      case True
      then have "rc_wide_continuation (f k)" using whole_lineD(1) [OF f k(2)] w by simp
      then show ?thesis using True by (simp add: new put_glyph_def shown_glyph_def)
    next
      case out: False
      show ?thesis
      proof (cases "k = c + (if wd ?t = 2 then 2 else 1) \<and> line k = Some Tail")
        case True
        have "\<not> rc_wide_continuation (f k)"
        proof
          assume "rc_wide_continuation (f k)"
          then have h: "wide_head wd (f (k - 1))" using whole_lineD(1) [OF f k(2)] by simp
          show False
          proof (cases "wd ?t = 2")
            case w2: True
            then have "k - 1 = c + 1" "c + 1 < n" using True k by auto
            then have "rc_wide_continuation (f (k - 1))" using whole_lineD(1) [OF f, of "c + 1"] w w2 by simp
            then show ?thesis using h by (simp add: wide_head_def)
          next
            case w1: False
            then show ?thesis using True h w by auto
          qed
        qed
        then have "line k \<noteq> Some (shown_glyph (f k))" using True wide_shown(2) [of "f k"] by (metis option.inject)
        moreover have "c \<le> k" using k by simp
        ultimately show ?thesis using after k(2) by blast
      next
        case False
        have "k \<noteq> c" "k + 1 \<noteq> c" using k(1) by simp_all
        then have "new k = line k" unfolding new using out False by (metis put_glyph_other)
        moreover have "c \<le> k" using k by simp
        ultimately show ?thesis using after k(2) by metis
      qed
    qed
    ultimately show ?thesis by blast
  next
    case tail
    then have n: "new = line" by (simp add: new_def paint_cell_def)
    have h: "0 < c" "wide_head wd (f (c - 1))" using whole_lineD(1) [OF f c] tail by simp_all
    then have "wide_glyph wd (line (c - 1))" using before by (metis diff_less less_numeral_extra(1) wide_shown(1))
    then have "line c = Some Tail" using tidyD(2) [OF t, of "c - 1"] h(1) c by simp
    then have "line c = Some (shown_glyph (f c))" using tail by (simp add: shown_glyph_def)
    then show ?thesis using n t before after by (auto simp: less_Suc_eq)
  next
    case keep
    then have n: "new = line" by (simp add: new_def paint_cell_def)
    have "line c = Some (shown_glyph (f c))" using after c keep(1) by auto
    then show ?thesis using n t before after by (auto simp: less_Suc_eq)
  qed
  then show "tidy wd n new" "\<forall>k < c + 1. new k = Some (shown_glyph (f k))" "\<forall>k. c + 1 \<le> k \<and> k < n \<longrightarrow> D k \<or> new k = Some (shown_glyph (f k))" by blast+
qed

lemma paint_line:
  assumes "whole_line wd n f" "tidy wd n line" "\<forall>k < n. D k \<or> line k = Some (shown_glyph (f k))"
  shows "tidy wd n (fold (paint_cell wd f D) [0..<n] line)" "\<forall>k < n. fold (paint_cell wd f D) [0..<n] line k = Some (shown_glyph (f k))"
proof -
  have "m \<le> n \<Longrightarrow> tidy wd n (fold (paint_cell wd f D) [0..<m] line) \<and> (\<forall>k < m. fold (paint_cell wd f D) [0..<m] line k = Some (shown_glyph (f k))) \<and>
      (\<forall>k. m \<le> k \<and> k < n \<longrightarrow> D k \<or> fold (paint_cell wd f D) [0..<m] line k = Some (shown_glyph (f k)))" for m
  proof (induction m)
    case 0
    then show ?case using assms(2,3) by simp
  next
    case (Suc m)
    then have ih: "tidy wd n (fold (paint_cell wd f D) [0..<m] line)" "\<forall>k < m. fold (paint_cell wd f D) [0..<m] line k = Some (shown_glyph (f k))"
      "\<forall>k. m \<le> k \<and> k < n \<longrightarrow> D k \<or> fold (paint_cell wd f D) [0..<m] line k = Some (shown_glyph (f k))" "m < n" by simp_all
    from paint_step [OF assms(1) ih(1,4,2,3)] show ?case by simp
  qed
  from this [of n] show "tidy wd n (fold (paint_cell wd f D) [0..<n] line)" "\<forall>k < n. fold (paint_cell wd f D) [0..<n] line k = Some (shown_glyph (f k))" by simp_all
qed

section \<open>One frame\<close>

definition paint :: "text_width \<Rightarrow> dirty_cell \<Rightarrow> screen_cells \<Rightarrow> screen_cells" where
  "paint wd d s = s(dc_row d := put_glyph wd (dc_col d) (rc_display_text (dc_cell d)) (cell_pen (dc_cell d)) (plain_link (hyperlink_of (dc_cell d))) (s (dc_row d)))"

lemma cell_sent:
  assumes "agrees b (seen_by wd h b)" "link_clean (hyperlink_of (dc_cell d))"
  shows "agrees (render_cell_at d b) (seen_by wd h (render_cell_at d b))"
    "ho_cells (seen_by wd h (render_cell_at d b)) = paint wd d (ho_cells (seen_by wd h b))"
proof -
  let ?b = "queue [MoveTo (dc_col d) (dc_row d)] b"
  have "agrees ?b (seen_by wd h ?b)" using assms(1) by (simp add: agrees_def)
  note t = style_sent [OF this assms(2)]
  show "agrees (render_cell_at d b) (seen_by wd h (render_cell_at d b))" using t(1) by (simp add: render_cell_at_def agrees_def)
  show "ho_cells (seen_by wd h (render_cell_at d b)) = paint wd d (ho_cells (seen_by wd h b))"
    using t(2-4) by (simp add: render_cell_at_def paint_def)
qed

lemma cells_sent:
  assumes "agrees b (seen_by wd h b)" "\<forall>d \<in> set ds. link_clean (hyperlink_of (dc_cell d))"
  shows "agrees (fold render_cell_at ds b) (seen_by wd h (fold render_cell_at ds b)) \<and>
    ho_cells (seen_by wd h (fold render_cell_at ds b)) = fold (paint wd) ds (ho_cells (seen_by wd h b))"
  using assms
proof (induction ds arbitrary: b)
  case (Cons d ds)
  have "link_clean (hyperlink_of (dc_cell d))" using Cons.prems(2) by simp
  note s = cell_sent [OF Cons.prems(1) this]
  show ?case using Cons.IH [OF s(1)] Cons.prems(2) s(2) by simp
qed simp

lemma frame_finished:
  assumes "agrees b (seen_by wd h b)"
  shows "agrees (finish_frame b) (seen_by wd h (finish_frame b))" "ho_cells (seen_by wd h (finish_frame b)) = ho_cells (seen_by wd h b)"
proof -
  have r: "host_exec wd (Raw (link_text [])) s = s\<lparr>ho_link := None\<rparr>" for s using link_text_read [of "[]" wd s] by (simp add: plain_link_def)
  have k: "seen_by wd h (clear_hyperlink b) = (seen_by wd h b)\<lparr>ho_link := None\<rparr>" "be_last_hyperlink (clear_hyperlink b) = None"
    using assms by (auto simp: clear_hyperlink_def r agrees_def plain_link_def simp del: host_exec.simps split: option.splits intro: host.equality)
  show "agrees (finish_frame b) (seen_by wd h (finish_frame b))" "ho_cells (seen_by wd h (finish_frame b)) = ho_cells (seen_by wd h b)"
    using k by (simp_all add: finish_frame_def forget_style_def agrees_def)
qed

definition dirty :: "frame_buffer \<Rightarrow> nat \<Rightarrow> nat \<Rightarrow> bool" where
  "dirty b row col \<longleftrightarrow> fb_current b ! fb_index b col row \<noteq> fb_previous b ! fb_index b col row"

lemma paint_row:
  "fold (paint wd) (concat (map (dirty_at b row) cols)) s = s(row := fold (paint_cell wd (fb_at b row) (dirty b row)) cols (s row))"
proof (induction cols arbitrary: s)
  case (Cons col cols)
  have "fold (paint wd) (dirty_at b row col) s = s(row := paint_cell wd (fb_at b row) (dirty b row) col (s row))"
    by (simp add: dirty_at_def paint_cell_def dirty_def fb_at_def paint_def Let_def)
  then show ?case unfolding list.map concat.simps fold_append o_apply Cons.IH by (intro ext) simp
qed (simp add: fun_eq_iff)

lemma paint_rows:
  "distinct rows \<Longrightarrow> fold (paint wd) (concat (map (\<lambda>row. concat (map (dirty_at b row) cols)) rows)) s =
     (\<lambda>r. if r \<in> set rows then fold (paint_cell wd (fb_at b r) (dirty b r)) cols (s r) else s r)"
  by (induction rows arbitrary: s) (auto simp: paint_row fun_eq_iff)

text \<open>A frame that can be drawn: wide characters are whole, links are text and no cell is the mark of
  \<open>invalidate\<close>.\<close>

definition drawable :: "text_width \<Rightarrow> frame_buffer \<Rightarrow> bool" where
  "drawable wd b \<longleftrightarrow> fb_ok b \<and> (\<forall>row < fb_height b. whole_line wd (fb_width b) (fb_at b row)) \<and>
     (\<forall>c \<in> set (fb_current b). link_clean (hyperlink_of c) \<and> rc_ch c \<noteq> 0)"

definition host_tidy :: "text_width \<Rightarrow> nat \<Rightarrow> nat \<Rightarrow> screen_cells \<Rightarrow> bool" where
  "host_tidy wd width height s \<longleftrightarrow> (\<forall>row < height. tidy wd width (s row))"

definition host_shows :: "frame_buffer \<Rightarrow> screen_cells \<Rightarrow> bool" where
  "host_shows b s \<longleftrightarrow> (\<forall>row < fb_height b. \<forall>col < fb_width b. s row col = Some (shown_glyph (fb_at b row col)))"

lemma diff_clean:
  assumes "drawable wd b" "d \<in> set (fb_diff b)"
  shows "link_clean (hyperlink_of (dc_cell d))"
proof -
  obtain row col where rc: "row < fb_height b" "col < fb_width b" "d \<in> set (dirty_at b row col)" using assms(2) by (auto simp: fb_diff_def)
  then have "dc_cell d = fb_current b ! fb_index b col row" by (auto simp: dirty_at_def Let_def split: if_splits)
  moreover have "fb_index b col row < length (fb_current b)" using fb_index_less [OF rc(2,1)] assms(1) by (simp add: drawable_def fb_ok_def)
  ultimately show ?thesis using assms(1) by (simp add: drawable_def)
qed

lemma diff_sent:
  assumes b: "drawable wd b" and a: "agrees be (seen_by wd h be)" and t: "host_tidy wd (fb_width b) (fb_height b) (ho_cells (seen_by wd h be))"
    and d: "\<forall>row < fb_height b. \<forall>col < fb_width b. dirty b row col \<or> ho_cells (seen_by wd h be) row col = Some (shown_glyph (fb_at b row col))"
  defines "be' \<equiv> render_diff (fb_diff b) be"
  shows "agrees be' (seen_by wd h be')" "host_shows b (ho_cells (seen_by wd h be'))" "host_tidy wd (fb_width b) (fb_height b) (ho_cells (seen_by wd h be'))"
proof -
  let ?s = "ho_cells (seen_by wd h be)"
  have "agrees (queue [BeginSynchronizedUpdate] be) (seen_by wd h (queue [BeginSynchronizedUpdate] be))" using a by (simp add: agrees_def)
  note c = cells_sent [OF this, of "fb_diff b"]
  have e: "agrees be' (seen_by wd h be') \<and> ho_cells (seen_by wd h be') = fold (paint wd) (fb_diff b) ?s"
    using c diff_clean [OF b] frame_finished [of "fold render_cell_at (fb_diff b) (queue [BeginSynchronizedUpdate] be)" wd h] a
    by (cases "fb_diff b = []") (simp_all add: be'_def render_diff_def)
  have p: "fold (paint wd) (fb_diff b) ?s = (\<lambda>r. if r < fb_height b then fold (paint_cell wd (fb_at b r) (dirty b r)) [0..<fb_width b] (?s r) else ?s r)"
    unfolding fb_diff_def by (subst paint_rows) (simp_all add: fun_eq_iff)
  have l: "whole_line wd (fb_width b) (fb_at b row)" "tidy wd (fb_width b) (?s row)"
    "\<forall>k < fb_width b. dirty b row k \<or> ?s row k = Some (shown_glyph (fb_at b row k))" if "row < fb_height b" for row
    using that b t d by (simp_all add: drawable_def host_tidy_def)
  show "agrees be' (seen_by wd h be')" using e by simp
  show "host_shows b (ho_cells (seen_by wd h be'))" using e p paint_line(2) [OF l] by (simp add: host_shows_def)
  show "host_tidy wd (fb_width b) (fb_height b) (ho_cells (seen_by wd h be'))" using e p paint_line(1) [OF l] by (simp add: host_tidy_def)
qed

end
