(* ===== verification/Ui_View.thy ===== *)
theory Ui_View
  imports Ui_Buffer Layout_Geometry
begin

text \<open>
  Which slice of a pane's grid is shown, \<^verbatim>\<open>shux-ui/src/viewport.rs\<close>: the first grid row of the view follows
  the cursor, and a pointer on the screen names a grid cell through the same view.  \<open>PaneView::of\<close> reads
  the size of the grid and the cursor's row from a terminal; here they are arguments.
\<close>

definition pane_view_row_offset :: "usize \<Rightarrow> usize \<Rightarrow> usize \<Rightarrow> usize" where
  "pane_view_row_offset total_rows visible_rows cursor_row =
     (if visible_rows = 0 \<or> total_rows \<le> visible_rows then 0
      else
        let max_offset = total_rows - visible_rows
        in if cursor_row < visible_rows then 0 else min (cursor_row + 1 - visible_rows) max_offset)"

record pane_view =
  pv_rect :: rect
  pv_row_offset :: usize
  pv_grid_rows :: usize
  pv_grid_cols :: usize

definition pane_view_of :: "rect \<Rightarrow> usize \<Rightarrow> usize \<Rightarrow> usize \<Rightarrow> pane_view" where
  "pane_view_of r grid_rows grid_cols cursor_row =
     \<lparr>pv_rect = r, pv_row_offset = pane_view_row_offset grid_rows (rect_height r) cursor_row, pv_grid_rows = grid_rows, pv_grid_cols = grid_cols\<rparr>"

definition with_row_offset :: "usize \<Rightarrow> pane_view \<Rightarrow> pane_view" where
  "with_row_offset row_offset v = v\<lparr>pv_row_offset := min row_offset (pv_grid_rows v - rect_height (pv_rect v))\<rparr>"

definition pane_grid_cell :: "pane_view \<Rightarrow> u16 \<times> u16 \<Rightarrow> bool \<Rightarrow> (u16 \<times> u16) option" where
  "pane_grid_cell v p clamp =
     (let (col, row) = p; r = pv_rect v;
          shown_rows = min (pv_grid_rows v - pv_row_offset v) (rect_height r);
          shown_cols = min (pv_grid_cols v) (rect_width r)
      in if shown_rows = 0 \<or> shown_cols = 0 then None
         else
           let x = col - rect_x r; y = row - rect_y r;
               on_grid = (rect_x r \<le> col \<and> rect_y r \<le> row \<and> x < shown_cols \<and> y < shown_rows)
           in if \<not> on_grid \<and> \<not> clamp then None
              else
                let x = min x (shown_cols - 1) + 1; y = pv_row_offset v + min y (shown_rows - 1) + 1
                in if x \<le> u16_max \<and> y \<le> u16_max then Some (x, y) else None)"

section \<open>The view shows the cursor\<close>

lemma row_offset_bound: "pane_view_row_offset total_rows visible_rows cursor_row \<le> total_rows - visible_rows"
  by (simp add: pane_view_row_offset_def Let_def)

lemma cursor_in_view:
  assumes "cursor_row < total_rows" "0 < visible_rows"
  shows "pane_view_row_offset total_rows visible_rows cursor_row \<le> cursor_row"
    "cursor_row < pane_view_row_offset total_rows visible_rows cursor_row + visible_rows"
  using assms by (auto simp: pane_view_row_offset_def Let_def min_def)

text \<open>The fixed anchors are special cases: a cursor at the top, a cursor on the last row, a grid that fits.\<close>

lemma row_offset_cases:
  "cursor_row < visible_rows \<Longrightarrow> pane_view_row_offset total_rows visible_rows cursor_row = 0"
  "total_rows \<le> visible_rows \<Longrightarrow> pane_view_row_offset total_rows visible_rows cursor_row = 0"
  "visible_rows < total_rows \<Longrightarrow> 0 < visible_rows \<Longrightarrow> pane_view_row_offset total_rows visible_rows (total_rows - 1) = total_rows - visible_rows"
  by (auto simp: pane_view_row_offset_def Let_def)

text \<open>A pointer names the cell drawn under it: where the view draws grid cell \<open>(y, x)\<close>, a pointer gets its
  1-based coordinates, and a pointer elsewhere gets none.\<close>

lemma pointer_names_drawn_cell:
  assumes "pane_grid_cell v (col, row) False = Some (x, y)"
  shows "rect_cell (pv_rect v) col row \<and> col = rect_x (pv_rect v) + (x - 1) \<and> row + pv_row_offset v = rect_y (pv_rect v) + (y - 1) \<and>
    0 < x \<and> x \<le> pv_grid_cols v \<and> 0 < y \<and> y \<le> pv_grid_rows v"
proof -
  define m where "m = min (pv_grid_rows v - pv_row_offset v) (rect_height (pv_rect v))"
  define n where "n = min (pv_grid_cols v) (rect_width (pv_rect v))"
  have h: "rect_x (pv_rect v) \<le> col \<and> rect_y (pv_rect v) \<le> row \<and> col - rect_x (pv_rect v) < n \<and> row - rect_y (pv_rect v) < m \<and>
      x = min (col - rect_x (pv_rect v)) (n - 1) + 1 \<and> y = pv_row_offset v + min (row - rect_y (pv_rect v)) (m - 1) + 1"
    using assms unfolding pane_grid_cell_def Let_def prod.case m_def [symmetric] n_def [symmetric] by (simp split: if_splits)
  then have "min (col - rect_x (pv_rect v)) (n - 1) = col - rect_x (pv_rect v)" "min (row - rect_y (pv_rect v)) (m - 1) = row - rect_y (pv_rect v)"
    by (intro min_absorb1; linarith)+
  then have e: "x = col - rect_x (pv_rect v) + 1" "y = pv_row_offset v + (row - rect_y (pv_rect v)) + 1" using h by simp_all
  have "n \<le> pv_grid_cols v" "n \<le> rect_width (pv_rect v)" "m \<le> pv_grid_rows v - pv_row_offset v" "m \<le> rect_height (pv_rect v)" by (simp_all add: n_def m_def)
  moreover have "rect_x (pv_rect v) \<le> col" "rect_y (pv_rect v) \<le> row" "col - rect_x (pv_rect v) < n" "row - rect_y (pv_rect v) < m" using h by simp_all
  ultimately show ?thesis unfolding rect_cell_def in_run_def e by linarith
qed

lemma drawn_cell_is_named:
  assumes "rect_cell (pv_rect v) col row" "col - rect_x (pv_rect v) < pv_grid_cols v" "pv_row_offset v + (row - rect_y (pv_rect v)) < pv_grid_rows v"
    "pv_grid_rows v \<le> u16_max" "pv_grid_cols v \<le> u16_max"
  shows "pane_grid_cell v (col, row) clamp = Some (col - rect_x (pv_rect v) + 1, pv_row_offset v + (row - rect_y (pv_rect v)) + 1)"
proof -
  define m where "m = min (pv_grid_rows v - pv_row_offset v) (rect_height (pv_rect v))"
  define n where "n = min (pv_grid_cols v) (rect_width (pv_rect v))"
  have r: "rect_x (pv_rect v) \<le> col" "rect_y (pv_rect v) \<le> row" "col - rect_x (pv_rect v) < rect_width (pv_rect v)" "row - rect_y (pv_rect v) < rect_height (pv_rect v)"
    using assms(1) by (auto simp: rect_cell_def in_run_def)
  then have "col - rect_x (pv_rect v) < n" "row - rect_y (pv_rect v) < m" using assms(2,3) by (simp_all add: m_def n_def)
  moreover have "col - rect_x (pv_rect v) + 1 \<le> u16_max" "pv_row_offset v + (row - rect_y (pv_rect v)) + 1 \<le> u16_max" using assms(2-5) by linarith+
  moreover have "min (col - rect_x (pv_rect v)) (n - 1) = col - rect_x (pv_rect v)" "min (row - rect_y (pv_rect v)) (m - 1) = row - rect_y (pv_rect v)"
    using calculation(1,2) by (intro min_absorb1; linarith)+
  ultimately show ?thesis using r(1,2)
    unfolding pane_grid_cell_def Let_def prod.case m_def [symmetric] n_def [symmetric] by simp
qed

end
