(* ===== verification/Ui_Borders.thy ===== *)
theory Ui_Borders
  imports Ui_Buffer Layout_Geometry
begin

text \<open>
  Borders between panes, \<^verbatim>\<open>shux-ui/src/borders.rs\<close>: the outline of the window and the four edges of every pane
  are drawn as lines on a grid of marks, and each mark becomes the glyph of the lines that meet there.
  Coordinates are the \<open>i32\<close> of the source, here \<open>int\<close>.
\<close>

section \<open>Styles\<close>

datatype border_style = BorderThin | BorderThick | BorderDouble | BorderRounded | BorderAscii | BorderNone

definition lowercase_ascii :: "rchar \<Rightarrow> rchar" where
  "lowercase_ascii c = (if 65 \<le> c \<and> c \<le> 90 then c + 32 else c)"

definition border_style_parse :: "rstring \<Rightarrow> border_style" where
  "border_style_parse s =
     (let s = map lowercase_ascii s
      in if s = ascii ''thin'' then BorderThin
         else if s = ascii ''thick'' then BorderThick
         else if s = ascii ''double'' then BorderDouble
         else if s = ascii ''rounded'' then BorderRounded
         else if s = ascii ''ascii'' then BorderAscii
         else if s = ascii ''none'' then BorderNone
         else BorderRounded)"

record border_chars =
  bc_horizontal :: rchar
  bc_vertical :: rchar
  bc_top_left :: rchar
  bc_top_right :: rchar
  bc_bottom_left :: rchar
  bc_bottom_right :: rchar
  bc_tee_left :: rchar
  bc_tee_right :: rchar
  bc_tee_top :: rchar
  bc_tee_bottom :: rchar
  bc_cross :: rchar

definition thin_chars :: border_chars where
  "thin_chars = \<lparr>bc_horizontal = 0x2500, bc_vertical = 0x2502, bc_top_left = 0x250C, bc_top_right = 0x2510, bc_bottom_left = 0x2514,
     bc_bottom_right = 0x2518, bc_tee_left = 0x251C, bc_tee_right = 0x2524, bc_tee_top = 0x252C, bc_tee_bottom = 0x2534, bc_cross = 0x253C\<rparr>"

definition thick_chars :: border_chars where
  "thick_chars = \<lparr>bc_horizontal = 0x2501, bc_vertical = 0x2503, bc_top_left = 0x250F, bc_top_right = 0x2513, bc_bottom_left = 0x2517,
     bc_bottom_right = 0x251B, bc_tee_left = 0x2523, bc_tee_right = 0x252B, bc_tee_top = 0x2533, bc_tee_bottom = 0x253B, bc_cross = 0x254B\<rparr>"

definition double_chars :: border_chars where
  "double_chars = \<lparr>bc_horizontal = 0x2550, bc_vertical = 0x2551, bc_top_left = 0x2554, bc_top_right = 0x2557, bc_bottom_left = 0x255A,
     bc_bottom_right = 0x255D, bc_tee_left = 0x2560, bc_tee_right = 0x2563, bc_tee_top = 0x2566, bc_tee_bottom = 0x2569, bc_cross = 0x256C\<rparr>"

definition rounded_chars :: border_chars where
  "rounded_chars = thin_chars\<lparr>bc_top_left := 0x256D, bc_top_right := 0x256E, bc_bottom_left := 0x2570, bc_bottom_right := 0x256F\<rparr>"

definition ascii_chars :: border_chars where
  "ascii_chars = \<lparr>bc_horizontal = 45, bc_vertical = 124, bc_top_left = 43, bc_top_right = 43, bc_bottom_left = 43,
     bc_bottom_right = 43, bc_tee_left = 43, bc_tee_right = 43, bc_tee_top = 43, bc_tee_bottom = 43, bc_cross = 43\<rparr>"

fun border_chars_of :: "border_style \<Rightarrow> border_chars option" where
  "border_chars_of BorderThin = Some thin_chars"
| "border_chars_of BorderThick = Some thick_chars"
| "border_chars_of BorderDouble = Some double_chars"
| "border_chars_of BorderRounded = Some rounded_chars"
| "border_chars_of BorderAscii = Some ascii_chars"
| "border_chars_of BorderNone = None"

record border_colors =
  bcl_focused :: ct_color
  bcl_unfocused :: ct_color

record border_segment =
  bs_x :: u16
  bs_y :: u16
  bs_ch :: rchar
  bs_focused :: bool

section \<open>Lines\<close>

record border_mark =
  mk_up :: bool
  mk_down :: bool
  mk_left :: bool
  mk_right :: bool
  mk_focused :: bool

definition no_mark :: border_mark where
  "no_mark = \<lparr>mk_up = False, mk_down = False, mk_left = False, mk_right = False, mk_focused = False\<rparr>"

text \<open>A line from its first cell to its last.\<close>

record segment_line =
  ln_x0 :: int
  ln_y0 :: int
  ln_x1 :: int
  ln_y1 :: int
  ln_focused :: bool

definition mark_cell :: "segment_line \<Rightarrow> int \<Rightarrow> int \<Rightarrow> border_mark \<Rightarrow> border_mark" where
  "mark_cell l cx cy m =
     m\<lparr>mk_up := mk_up m \<or> ln_y0 l < cy, mk_down := mk_down m \<or> cy < ln_y1 l, mk_left := mk_left m \<or> ln_x0 l < cx,
       mk_right := mk_right m \<or> cx < ln_x1 l, mk_focused := mk_focused m \<or> ln_focused l\<rparr>"

definition mark_line :: "rect \<Rightarrow> segment_line \<Rightarrow> border_mark list \<Rightarrow> border_mark list" where
  "mark_line v l0 grid =
     (let ox = int (rect_x v); oy = int (rect_y v); w = rect_width v;
          l = l0\<lparr>ln_x0 := max (ln_x0 l0) ox, ln_x1 := min (ln_x1 l0) (ox + int w - 1),
                 ln_y0 := max (ln_y0 l0) oy, ln_y1 := min (ln_y1 l0) (oy + int (rect_height v) - 1)\<rparr>
      in fold (\<lambda>cy. fold (\<lambda>cx g. let i = nat (cy - oy) * w + nat (cx - ox) in g[i := mark_cell l cx cy (g ! i)]) [ln_x0 l..ln_x1 l])
           [ln_y0 l..ln_y1 l] grid)"

definition seg_line :: "int \<Rightarrow> int \<Rightarrow> int \<Rightarrow> int \<Rightarrow> bool \<Rightarrow> segment_line" where
  "seg_line x0 y0 x1 y1 foc = \<lparr>ln_x0 = x0, ln_y0 = y0, ln_x1 = x1, ln_y1 = y1, ln_focused = foc\<rparr>"

definition outline :: "rect \<Rightarrow> segment_line list" where
  "outline v =
     (let ox = int (rect_x v); oy = int (rect_y v); r = ox + int (rect_width v) - 1; b = oy + int (rect_height v) - 1
      in [seg_line ox oy ox b False, seg_line r oy r b False, seg_line ox oy r oy False, seg_line ox b r b False])"

definition pane_edges :: "pane_id \<Rightarrow> pane_id \<times> rect \<Rightarrow> segment_line list" where
  "pane_edges focused pr =
     (let (pid, r) = pr; foc = (pid = focused); l = int (rect_x r) - 1; rt = int (rect_x r) + int (rect_width r);
          t = int (rect_y r) - 1; b = int (rect_y r) + int (rect_height r)
      in [seg_line l t l b foc, seg_line rt t rt b foc, seg_line l t rt t foc, seg_line l b rt b foc])"

definition mark_glyph :: "border_chars \<Rightarrow> border_mark \<Rightarrow> rchar option" where
  "mark_glyph ch m =
     (case (mk_up m, mk_down m, mk_left m, mk_right m) of
        (False, False, False, False) \<Rightarrow> None
      | (True, True, True, True) \<Rightarrow> Some (bc_cross ch)
      | (True, True, False, True) \<Rightarrow> Some (bc_tee_left ch)
      | (True, True, True, False) \<Rightarrow> Some (bc_tee_right ch)
      | (False, True, True, True) \<Rightarrow> Some (bc_tee_top ch)
      | (True, False, True, True) \<Rightarrow> Some (bc_tee_bottom ch)
      | (False, True, False, True) \<Rightarrow> Some (bc_top_left ch)
      | (False, True, True, False) \<Rightarrow> Some (bc_top_right ch)
      | (True, False, False, True) \<Rightarrow> Some (bc_bottom_left ch)
      | (True, False, True, False) \<Rightarrow> Some (bc_bottom_right ch)
      | (_, _, False, False) \<Rightarrow> Some (bc_vertical ch)
      | _ \<Rightarrow> Some (bc_horizontal ch))"

definition segment_at :: "border_chars \<Rightarrow> rect \<Rightarrow> border_mark list \<Rightarrow> usize \<Rightarrow> usize \<Rightarrow> border_segment list" where
  "segment_at ch v grid ry rx =
     (let m = grid ! (ry * rect_width v + rx)
      in case mark_glyph ch m of
           None \<Rightarrow> []
         | Some c \<Rightarrow> [\<lparr>bs_x = wrap16 (rx + rect_x v), bs_y = wrap16 (ry + rect_y v), bs_ch = c, bs_focused = mk_focused m\<rparr>])"

definition compute_borders :: "(pane_id \<times> rect) list \<Rightarrow> pane_id \<Rightarrow> rect \<Rightarrow> border_style \<Rightarrow> border_segment list" where
  "compute_borders pane_rects focused v style =
     (case border_chars_of style of
        None \<Rightarrow> []
      | Some ch \<Rightarrow>
          if rect_width v < 2 \<or> rect_height v < 2 then []
          else
            let grid = replicate (rect_width v * rect_height v) no_mark;
                grid = fold (mark_line v) (outline v @ concat (map (pane_edges focused) pane_rects)) grid
            in concat (map (\<lambda>ry. concat (map (segment_at ch v grid ry) [0..<rect_width v])) [0..<rect_height v]))"

section \<open>Only lines are drawn\<close>

definition on_line :: "segment_line \<Rightarrow> int \<Rightarrow> int \<Rightarrow> bool" where
  "on_line l cx cy \<longleftrightarrow> ln_x0 l \<le> cx \<and> cx \<le> ln_x1 l \<and> ln_y0 l \<le> cy \<and> cy \<le> ln_y1 l"

lemma cell_index:
  fixes w c :: nat
  assumes "c < w" "c' < w" "r * w + c = r' * w + c'"
  shows "r = r' \<and> c = c'"
proof -
  have "(r * w + c) mod w = c" "(r' * w + c') mod w = c'" using assms(1,2) by simp_all
  then have "c = c'" using assms(3) by metis
  then show ?thesis using assms by simp
qed

lemma mark_line_other:
  assumes rx: "rx < rect_width v" and off: "\<not> on_line l (int (rx + rect_x v)) (int (ry + rect_y v))"
  shows "mark_line v l grid ! (ry * rect_width v + rx) = grid ! (ry * rect_width v + rx)"
proof -
  let ?w = "rect_width v" and ?ox = "int (rect_x v)" and ?oy = "int (rect_y v)" and ?i = "ry * rect_width v + rx"
  define m where "m = l\<lparr>ln_x0 := max (ln_x0 l) ?ox, ln_x1 := min (ln_x1 l) (?ox + int ?w - 1), ln_y0 := max (ln_y0 l) ?oy, ln_y1 := min (ln_y1 l) (?oy + int (rect_height v) - 1)\<rparr>"
  have other: "nat (cy - ?oy) * ?w + nat (cx - ?ox) \<noteq> ?i" if "cx \<in> {ln_x0 m..ln_x1 m}" "cy \<in> {ln_y0 m..ln_y1 m}" for cx cy
  proof
    assume e: "nat (cy - ?oy) * ?w + nat (cx - ?ox) = ?i"
    have "nat (cx - ?ox) < ?w" "?ox \<le> cx" "?oy \<le> cy" using that rx by (auto simp: m_def)
    then have "cy = int (ry + rect_y v)" "cx = int (rx + rect_x v)" using cell_index [OF _ rx e] by auto
    then show False using that off by (auto simp: m_def on_line_def)
  qed
  have row: "fold (\<lambda>cx g. let i = nat (cy - ?oy) * ?w + nat (cx - ?ox) in g[i := mark_cell m cx cy (g ! i)]) xs g ! ?i = g ! ?i"
    if "cy \<in> {ln_y0 m..ln_y1 m}" "set xs \<subseteq> {ln_x0 m..ln_x1 m}" for xs cy and g :: "border_mark list"
    using that(2) other [OF _ that(1)] by (induction xs arbitrary: g) (auto simp: Let_def)
  have "fold (\<lambda>cy. fold (\<lambda>cx g. let i = nat (cy - ?oy) * ?w + nat (cx - ?ox) in g[i := mark_cell m cx cy (g ! i)]) [ln_x0 m..ln_x1 m]) ys g ! ?i = g ! ?i"
    if "set ys \<subseteq> {ln_y0 m..ln_y1 m}" for ys and g :: "border_mark list"
    using that row [of _ "[ln_x0 m..ln_x1 m]"] by (induction ys arbitrary: g) auto
  from this [of "[ln_y0 m..ln_y1 m]" grid] show ?thesis unfolding mark_line_def Let_def m_def [symmetric] by simp
qed

lemma mark_lines_other:
  assumes "rx < rect_width v" "\<forall>l \<in> set ls. \<not> on_line l (int (rx + rect_x v)) (int (ry + rect_y v))"
  shows "fold (mark_line v) ls grid ! (ry * rect_width v + rx) = grid ! (ry * rect_width v + rx)"
  using assms(2) by (induction ls arbitrary: grid) (simp_all add: mark_line_other [OF assms(1)])

text \<open>The frame of a rectangle: the cells around it.\<close>

definition on_frame :: "rect \<Rightarrow> int \<Rightarrow> int \<Rightarrow> bool" where
  "on_frame r cx cy \<longleftrightarrow>
     (let l = int (rect_x r) - 1; rt = int (rect_x r) + int (rect_width r); t = int (rect_y r) - 1; b = int (rect_y r) + int (rect_height r)
      in l \<le> cx \<and> cx \<le> rt \<and> t \<le> cy \<and> cy \<le> b \<and> (cx = l \<or> cx = rt \<or> cy = t \<or> cy = b))"

lemma edges_on_frame: "l \<in> set (pane_edges focused (pid, r)) \<Longrightarrow> on_line l cx cy \<Longrightarrow> on_frame r cx cy"
  by (auto simp: pane_edges_def on_line_def on_frame_def seg_line_def Let_def)

lemma outline_on_edge:
  "l \<in> set (outline v) \<Longrightarrow> on_line l cx cy \<Longrightarrow>
    cx = int (rect_x v) \<or> cx = int (rect_x v) + int (rect_width v) - 1 \<or> cy = int (rect_y v) \<or> cy = int (rect_y v) + int (rect_height v) - 1"
  by (auto simp: outline_def on_line_def seg_line_def Let_def)

lemma borders_on_lines:
  assumes "g \<in> set (compute_borders prs focused v style)" "rect_in_range v"
  shows "rect_cell v (bs_x g) (bs_y g) \<and>
    (bs_x g = rect_x v \<or> bs_x g = rect_x v + rect_width v - 1 \<or> bs_y g = rect_y v \<or> bs_y g = rect_y v + rect_height v - 1 \<or>
     (\<exists>(pid, r) \<in> set prs. on_frame r (int (bs_x g)) (int (bs_y g))))"
proof -
  let ?ls = "outline v @ concat (map (pane_edges focused) prs)"
  let ?grid = "fold (mark_line v) ?ls (replicate (rect_width v * rect_height v) no_mark)"
  obtain ch where ch: "border_chars_of style = Some ch" using assms(1) by (cases "border_chars_of style") (auto simp: compute_borders_def)
  then obtain ry rx where r: "ry < rect_height v" "rx < rect_width v" and g: "g \<in> set (segment_at ch v ?grid ry rx)"
    using assms(1) by (auto simp: compute_borders_def Let_def split: if_splits)
  have xy: "bs_x g = rx + rect_x v" "bs_y g = ry + rect_y v"
    using g r assms(2) by (auto simp: segment_at_def rect_in_range_def Let_def split: option.splits)
  have i: "ry * rect_width v + rx < rect_width v * rect_height v"
  proof -
    have "ry * rect_width v + rx < Suc ry * rect_width v" using r by simp
    also have "\<dots> \<le> rect_height v * rect_width v" using r by (intro mult_le_mono1) simp
    finally show ?thesis by (simp add: mult.commute)
  qed
  have "\<exists>l \<in> set ?ls. on_line l (int (rx + rect_x v)) (int (ry + rect_y v))"
  proof (rule ccontr)
    assume "\<not> ?thesis"
    then have "?grid ! (ry * rect_width v + rx) = no_mark" using mark_lines_other [OF r(2), of ?ls ry] i by simp
    then show False using g by (simp add: segment_at_def mark_glyph_def no_mark_def)
  qed
  then obtain l where l: "l \<in> set ?ls" "on_line l (int (rx + rect_x v)) (int (ry + rect_y v))" by blast
  have c: "rect_cell v (bs_x g) (bs_y g)" using xy r by (simp add: rect_cell_def in_run_def)
  show ?thesis
  proof (cases "l \<in> set (outline v)")
    case True
    from outline_on_edge [OF this l(2)] show ?thesis using c xy r by auto
  next
    case False
    then obtain pid q where "(pid, q) \<in> set prs" "l \<in> set (pane_edges focused (pid, q))" using l(1) by auto
    then show ?thesis using edges_on_frame [OF _ l(2)] c xy by fastforce
  qed
qed

section \<open>Frames lie between panes\<close>

text \<open>When every pane has room, the cells around a pane are cells around the viewport or separators.\<close>

lemma visible_viewport:
  assumes "ratios_ok t" "rect_in_range v" "\<forall>(p, r) \<in> set (compute_rects t v). is_visible r"
  shows "is_visible v"
  using assms
proof (induction t arbitrary: v)
  case (Leaf p)
  then show ?case by (simp add: compute_rects_def)
next
  case (Split d r a b)
  have ok: "ratio_ok r" "ratios_ok a" "ratios_ok b" using Split.prems(1) by auto
  have "\<forall>(p, q) \<in> set (compute_rects a (fst (split_rect v d r))). is_visible q" using Split.prems(3) by simp
  then have "is_visible (fst (split_rect v d r))"
    using Split.IH(1) [OF ok(2)] split_rect_in_range [OF Split.prems(2) ok(1), of d] by simp
  then obtain cx cy where "rect_cell (fst (split_rect v d r)) cx cy" by (auto simp: is_visible_def rect_cell_def in_run_def intro!: that [of "rect_x (fst (split_rect v d r))" "rect_y (fst (split_rect v d r))"])
  from split_rect_cells(1) [OF Split.prems(2) ok(1) this] show ?case by (auto simp: is_visible_def rect_cell_def in_run_def)
qed

definition around :: "rect \<Rightarrow> nat \<Rightarrow> nat \<Rightarrow> bool" where
  "around v cx cy \<longleftrightarrow> rect_x v \<le> cx + 1 \<and> cx \<le> rect_x v + rect_width v \<and> rect_y v \<le> cy + 1 \<and> cy \<le> rect_y v + rect_height v"

lemma split_halves:
  assumes "rect_in_range v" "ratio_ok r" "is_visible v"
  obtains (V) w where "d = Vertical" "w \<le> rect_width v - 1"
      "split_rect v d r = (rect_new (rect_x v) (rect_y v) w (rect_height v), rect_new (rect_x v + w + 1) (rect_y v) (rect_width v - 1 - w) (rect_height v))"
    | (H) h where "d = Horizontal" "h \<le> rect_height v - 1"
      "split_rect v d r = (rect_new (rect_x v) (rect_y v) (rect_width v) h, rect_new (rect_x v) (rect_y v + h + 1) (rect_width v) (rect_height v - 1 - h))"
proof -
  have le: "rect_x v + rect_width v \<le> u16_max" "rect_y v + rect_height v \<le> u16_max" using assms(1) by (auto simp: rect_in_range_def)
  show ?thesis
  proof (cases d)
    case Vertical
    then show ?thesis
      using V [of "f32_share r (rect_width v - 1)"] f32_cells.share_pred_le [OF assms(2) le(1)] f32_cells.second_start [OF assms(2) le(1)] assms(3)
      by (simp add: SEPARATOR_SIZE_def is_visible_def Let_def)
  next
    case Horizontal
    then show ?thesis
      using H [of "f32_share r (rect_height v - 1)"] f32_cells.share_pred_le [OF assms(2) le(2)] f32_cells.second_start [OF assms(2) le(2)] assms(3)
      by (simp add: SEPARATOR_SIZE_def is_visible_def Let_def)
  qed
qed

lemma frame_around:
  assumes "ratios_ok t" "rect_in_range v" "\<forall>(p, r) \<in> set (compute_rects t v). is_visible r" "(p, r) \<in> set (compute_rects t v)"
    "on_frame r (int cx) (int cy)"
  shows "around v cx cy \<and> (rect_cell v cx cy \<longrightarrow> separator_at t v cx cy)"
  using assms
proof (induction t arbitrary: v)
  case (Leaf q)
  then show ?case by (auto simp: compute_rects_def on_frame_def around_def rect_cell_def in_run_def Let_def)
next
  case (Split d q a b)
  have ok: "ratio_ok q" "ratios_ok a" "ratios_ok b" using Split.prems(1) by auto
  let ?va = "fst (split_rect v d q)" and ?vb = "snd (split_rect v d q)"
  have rng: "rect_in_range ?va" "rect_in_range ?vb" using split_rect_in_range [OF Split.prems(2) ok(1), of d] by auto
  have vis: "is_visible v" using visible_viewport [OF Split.prems(1-3)] .
  have all: "\<forall>(p, r) \<in> set (compute_rects a ?va). is_visible r" "\<forall>(p, r) \<in> set (compute_rects b ?vb). is_visible r"
    using Split.prems(3) by auto
  consider (a) "(p, r) \<in> set (compute_rects a ?va)" | (b) "(p, r) \<in> set (compute_rects b ?vb)" using Split.prems(4) by auto
  then have "around ?va cx cy \<and> (rect_cell ?va cx cy \<longrightarrow> separator_at a ?va cx cy) \<or> around ?vb cx cy \<and> (rect_cell ?vb cx cy \<longrightarrow> separator_at b ?vb cx cy)"
    using Split.IH(1) [OF ok(2) rng(1) all(1)] Split.IH(2) [OF ok(3) rng(2) all(2)] Split.prems(5) by cases auto
  then show ?case
  proof (elim disjE conjE)
    assume s: "around ?va cx cy" "rect_cell ?va cx cy \<longrightarrow> separator_at a ?va cx cy"
    from Split.prems(2) ok(1) vis show ?thesis
    proof (cases rule: split_halves [where d = d])
      case (V w)
      then show ?thesis using s vis by (auto simp: around_def rect_cell_def in_run_def rect_new_def is_visible_def)
    next
      case (H h)
      then show ?thesis using s vis by (auto simp: around_def rect_cell_def in_run_def rect_new_def is_visible_def)
    qed
  next
    assume s: "around ?vb cx cy" "rect_cell ?vb cx cy \<longrightarrow> separator_at b ?vb cx cy"
    from Split.prems(2) ok(1) vis show ?thesis
    proof (cases rule: split_halves [where d = d])
      case (V w)
      then show ?thesis using s vis by (auto simp: around_def rect_cell_def in_run_def rect_new_def is_visible_def)
    next
      case (H h)
      then show ?thesis using s vis by (auto simp: around_def rect_cell_def in_run_def rect_new_def is_visible_def)
    qed
  qed
qed

text \<open>A cell of a pane is a cell of the viewport off the separators.\<close>

lemma pane_cell:
  assumes "ratios_ok t" "rect_in_range v" "(p, r) \<in> set (compute_rects t v)" "rect_cell r cx cy"
  shows "rect_cell v cx cy \<and> \<not> separator_at t v cx cy"
proof -
  have "(p, r) \<in> set (panes_at t v cx cy)" using assms(3,4) by (simp add: panes_at_def)
  then have "length (panes_at t v cx cy) \<noteq> 0" by auto
  then show ?thesis using panes_at_count [OF assms(1,2), of cx cy] by (auto split: if_splits)
qed

text \<open>The viewport the panes are laid out in, one cell inside the window.\<close>

definition inset :: "rect \<Rightarrow> rect" where
  "inset c = rect_new (rect_x c + 1) (rect_y c + 1) (rect_width c - 2) (rect_height c - 2)"

lemma inset_in_range: "rect_in_range c \<Longrightarrow> 3 \<le> rect_width c \<Longrightarrow> 3 \<le> rect_height c \<Longrightarrow> rect_in_range (inset c)"
  by (auto simp: inset_def rect_in_range_def rect_new_def)

lemma borders_spare_panes:
  assumes t: "ratios_ok t" and c: "rect_in_range c" "3 \<le> rect_width c" "3 \<le> rect_height c"
    and vis: "\<forall>(p, r) \<in> set (compute_rects t (inset c)). is_visible r"
    and g: "g \<in> set (compute_borders (compute_rects t (inset c)) focused c style)" and r: "(p, r) \<in> set (compute_rects t (inset c))"
  shows "\<not> rect_cell r (bs_x g) (bs_y g)"
proof
  assume cell: "rect_cell r (bs_x g) (bs_y g)"
  note v = inset_in_range [OF c]
  note p = pane_cell [OF t v r cell]
  have n: "\<not> on_frame q (int (bs_x g)) (int (bs_y g))" if "(pid, q) \<in> set (compute_rects t (inset c))" for pid q
    using frame_around [OF t v vis that] p by blast
  from borders_on_lines [OF g c(1)] n show False using p by (auto simp: rect_cell_def in_run_def inset_def rect_new_def)
qed

end
