(* ===== verification/Ui_Chrome.thy ===== *)
theory Ui_Chrome
  imports Ui_Borders Vt_Terminal Utf8 Titles
begin

text \<open>
  What a pane draws on its top border, \<^verbatim>\<open>shux-ui/src/chrome.rs\<close>.  A title is laid out in the cells the
  emulator would store its text in (\<open>text_cells\<close> runs a terminal of one row); the layout functions take that
  function and the character width table as arguments.
\<close>

type_synonym text_cells_fn = "rstring \<Rightarrow> (rstring \<times> nat) list"

record status_badge =
  bg_glyph :: rchar
  bg_color :: ct_color

record pane_chrome =
  pc_title :: rstring
  pc_badge :: "status_badge option"

definition pane_chrome_titled :: "rstring \<Rightarrow> pane_chrome" where
  "pane_chrome_titled title = \<lparr>pc_title = title, pc_badge = None\<rparr>"

record title_glyph =
  tg_x :: u16
  tg_text :: rstring
  tg_width :: nat
  tg_color :: "ct_color option"

definition is_horizontal :: "rchar \<Rightarrow> bool" where
  "is_horizontal ch \<longleftrightarrow> ch = 0x2500 \<or> ch = 0x2501 \<or> ch = 0x2550 \<or> ch = 45"

section \<open>The cells of a text\<close>

definition text_cells :: "'p term_env \<Rightarrow> 'p \<Rightarrow> rstring \<Rightarrow> (rstring \<times> nat) list option" where
  "text_cells E p s =
     (let text = filter (\<lambda>c. \<not> is_control c) s; cols = 2 * length text + 2
      in Option.bind (process_with_responses E 0 0 (utf8_encode text) (terminal_new p 1 cols 0 0)) (\<lambda>(_, vt).
           Option.bind (visible_row (term_grid vt) 0) (\<lambda>row.
             Some (map (\<lambda>c. (case grapheme c of Some t \<Rightarrow> t | None \<Rightarrow> [c_ch c], min (c_width c) 2))
                     (filter (\<lambda>c. 0 < c_width c) (map ((!) (r_cells row)) [0..<cu_col (term_cursor vt)]))))))"

section \<open>The title on the border\<close>

definition badge_width :: "(rchar \<Rightarrow> usize option) \<Rightarrow> rchar \<Rightarrow> usize" where
  "badge_width w ch = max 1 (min 2 (case w ch of Some n \<Rightarrow> n | None \<Rightarrow> 1))"

fun fit_title :: "usize \<Rightarrow> usize \<Rightarrow> (rstring \<times> nat) list \<Rightarrow> (rstring \<times> nat) list" where
  "fit_title avail used [] = []"
| "fit_title avail used ((t, n) # cells) = (if avail < used + n then [] else (t, n) # fit_title avail (used + n) cells)"

definition overlay_body :: "(rchar \<Rightarrow> usize option) \<Rightarrow> text_cells_fn \<Rightarrow> pane_chrome \<Rightarrow> usize \<Rightarrow> (rstring \<times> nat \<times> ct_color option) list" where
  "overlay_body w cells_of chrome avail =
     (case pc_badge chrome of
        Some b \<Rightarrow>
          let n = badge_width w (bg_glyph b); title = fit_title avail (n + 1) (cells_of (pc_title chrome))
          in if avail < n then []
             else ([bg_glyph b], n, Some (bg_color b)) # (if title = [] then [] else ([32], 1, None) # map (\<lambda>(t, k). (t, k, None)) title)
      | None \<Rightarrow> map (\<lambda>(t, k). (t, k, None)) (fit_title avail 0 (cells_of (pc_title chrome))))"

fun place_glyphs :: "u16 \<Rightarrow> (rstring \<times> nat \<times> ct_color option) list \<Rightarrow> title_glyph list" where
  "place_glyphs x [] = []"
| "place_glyphs x ((t, n, c) # gs) = \<lparr>tg_x = x, tg_text = t, tg_width = n, tg_color = c\<rparr> # place_glyphs (x + n) gs"

definition overlay_end :: "rect \<Rightarrow> border_segment list \<Rightarrow> u16" where
  "overlay_end v borders =
     (let x0 = sat_add16 (rect_x v) 1; y = rect_y v - 1
      in fold min (map bs_x (filter (\<lambda>s. bs_y s = y \<and> x0 \<le> bs_x s \<and> \<not> is_horizontal (bs_ch s)) borders)) (rect_x v + rect_width v - 1))"

definition title_overlay :: "(rchar \<Rightarrow> usize option) \<Rightarrow> text_cells_fn \<Rightarrow> pane_chrome \<Rightarrow> rect \<Rightarrow> border_segment list \<Rightarrow> title_glyph list" where
  "title_overlay w cells_of chrome v borders =
     (if rect_width v < 6 \<or> rect_height v = 0 then []
      else
        let x0 = sat_add16 (rect_x v) 1; room = overlay_end v borders - x0
        in if room < 2 \<or> room - 2 = 0 then []
           else
             let body = overlay_body w cells_of chrome (room - 2)
             in if body = [] then [] else place_glyphs x0 (([32], 1, None) # body @ [([32], 1, None)]))"

section \<open>A title stays on its border\<close>

lemma fit_title_width: "used \<le> avail \<Longrightarrow> used + sum_list (map snd (fit_title avail used cells)) \<le> avail"
  by (induction avail used cells rule: fit_title.induct) auto

fun glyphs_width :: "(rstring \<times> nat \<times> ct_color option) list \<Rightarrow> usize" where
  "glyphs_width [] = 0"
| "glyphs_width ((t, n, c) # gs) = n + glyphs_width gs"

lemma glyphs_width_simps [simp]:
  "glyphs_width (gs @ hs) = glyphs_width gs + glyphs_width hs" "glyphs_width (map (\<lambda>(t, k). (t, k, c)) cells) = sum_list (map snd cells)"
  by (induction gs rule: glyphs_width.induct) (auto, induction cells, auto)

lemma overlay_body_width: "glyphs_width (overlay_body w cells_of chrome avail) \<le> avail"
proof (cases "pc_badge chrome")
  case None
  then show ?thesis using fit_title_width [of 0 avail "cells_of (pc_title chrome)"] by (simp add: overlay_body_def)
next
  case (Some b)
  let ?n = "badge_width w (bg_glyph b)"
  let ?t = "fit_title avail (?n + 1) (cells_of (pc_title chrome))"
  have "?n + 1 + sum_list (map snd ?t) \<le> avail" if "?t \<noteq> []"
  proof (cases "?n + 1 \<le> avail")
    case True
    then show ?thesis by (rule fit_title_width)
  next
    case False
    then have "?t = []" by (cases "cells_of (pc_title chrome)") auto
    then show ?thesis using that by simp
  qed
  then show ?thesis using Some by (auto simp: overlay_body_def Let_def)
qed

lemma place_glyphs_within:
  "g \<in> set (place_glyphs x gs) \<Longrightarrow> x \<le> tg_x g \<and> tg_x g + tg_width g \<le> x + glyphs_width gs"
  by (induction x gs rule: place_glyphs.induct) auto

lemma overlay_end_le: "overlay_end v borders \<le> rect_x v + rect_width v - 1"
proof -
  have "fold min xs a \<le> a" for xs and a :: nat by (induction xs arbitrary: a) (auto intro: order_trans [OF _ min.cobounded2])
  then show ?thesis by (simp add: overlay_end_def Let_def)
qed

text \<open>Every cell of a title lies on the top border of its pane, between its corners.\<close>

lemma title_on_border:
  assumes "g \<in> set (title_overlay w cells_of chrome v borders)" "rect_in_range v" "x \<in> {tg_x g..<tg_x g + max 1 (tg_width g)}"
  shows "rect_x v < x \<and> x + 1 \<le> rect_x v + rect_width v \<and> 6 \<le> rect_width v"
proof -
  let ?x0 = "sat_add16 (rect_x v) 1" and ?room = "overlay_end v borders - sat_add16 (rect_x v) 1"
  have g: "6 \<le> rect_width v" "2 < ?room" "g \<in> set (place_glyphs ?x0 (([32], 1, None) # overlay_body w cells_of chrome (?room - 2) @ [([32], 1, None)]))"
    using assms(1) by (auto simp: title_overlay_def Let_def split: if_splits)
  have x0: "?x0 = rect_x v + 1" using assms(2) g(1) by (simp add: sat_add16_def rect_in_range_def)
  note p = place_glyphs_within [OF g(3)]
  have "glyphs_width (([32], 1, None) # overlay_body w cells_of chrome (?room - 2) @ [([32], 1, None)]) \<le> ?room"
    using overlay_body_width [of w cells_of chrome "?room - 2"] g(2) by simp
  then have "tg_x g + tg_width g \<le> ?x0 + ?room" using p by linarith
  then show ?thesis using overlay_end_le [of v borders] assms(3) p x0 g(1) by auto
qed

end
