(* ===== verification/Ui_Status.thy ===== *)
theory Ui_Status
  imports Ui_Chrome
begin

text \<open>
  The status bar, \<^verbatim>\<open>shux-ui/src/statusbar.rs\<close>: three zones of styled segments in one row, which never share a
  cell.  A zone short of columns loses its trailing spaces, then its end, or is left out.
\<close>

record status_segment =
  sg_text :: rstring
  sg_fg :: "ct_color option"
  sg_bg :: "ct_color option"
  sg_bold :: bool

definition segment_plain :: "rstring \<Rightarrow> status_segment" where
  "segment_plain text = \<lparr>sg_text = text, sg_fg = None, sg_bg = None, sg_bold = False\<rparr>"

definition segment_styled :: "rstring \<Rightarrow> ct_color \<Rightarrow> bool \<Rightarrow> status_segment" where
  "segment_styled text fg bold = \<lparr>sg_text = text, sg_fg = Some fg, sg_bg = None, sg_bold = bold\<rparr>"

record status_bar =
  sb_left :: "status_segment list"
  sb_center :: "status_segment list"
  sb_right :: "status_segment list"
  sb_bg :: "ct_color option"

definition segments_width :: "text_cells_fn \<Rightarrow> status_segment list \<Rightarrow> usize" where
  "segments_width cells_of segs = sum_list (map snd (concat (map (\<lambda>s. cells_of (sg_text s)) segs)))"

type_synonym zone_style = "ct_color option \<times> ct_color option \<times> render_attrs"

definition zone_items :: "text_cells_fn \<Rightarrow> ct_color option \<Rightarrow> status_segment list \<Rightarrow> (rstring \<times> nat \<times> zone_style) list" where
  "zone_items cells_of fallback_bg segs =
     concat (map (\<lambda>s. map (\<lambda>(t, n). (t, n, sg_fg s, (case sg_bg s of Some c \<Rightarrow> Some c | None \<Rightarrow> fallback_bg), default_attrs\<lparr>ra_bold := sg_bold s\<rparr>))
                        (cells_of (sg_text s))) segs)"

definition glyph_cell :: "rstring \<Rightarrow> zone_style \<Rightarrow> render_cell" where
  "glyph_cell t st =
     (let (fg, bg, attrs) = st
      in \<lparr>rc_ch = hd t, rc_fg = fg, rc_bg = bg, rc_attrs = attrs,
          rc_extended = (if 1 < length t then Some (default_extended\<lparr>xa_grapheme := Some t\<rparr>) else None), rc_wide_continuation = False\<rparr>)"

definition fill_slice :: "usize \<Rightarrow> usize \<Rightarrow> render_cell \<Rightarrow> render_cell list \<Rightarrow> render_cell list" where
  "fill_slice a b c row = take a row @ replicate (b - a) c @ drop b row"

definition rotate_slice :: "usize \<Rightarrow> usize \<Rightarrow> usize \<Rightarrow> render_cell list \<Rightarrow> render_cell list" where
  "rotate_slice a b k row = take a row @ rotate (b - a - k) (take (b - a) (drop a row)) @ drop b row"

text \<open>The loop over the glyphs of a zone; \<open>text_end\<close> and \<open>st\<close> say where an ellipsis would go and how it looks.\<close>

fun paint_loop ::
  "usize \<Rightarrow> usize \<Rightarrow> usize \<Rightarrow> bool \<Rightarrow> bool \<Rightarrow> ct_color option \<Rightarrow> (rstring \<times> nat \<times> zone_style) list \<Rightarrow> usize \<Rightarrow> usize \<Rightarrow> zone_style \<Rightarrow>
   render_cell list \<Rightarrow> (usize \<times> usize) option \<times> render_cell list" where
  "paint_loop start stop limit shorten flush bg [] cursor text_end st row = (Some (start, cursor), row)"
| "paint_loop start stop limit shorten flush bg ((t, n, s) # items) cursor text_end st row =
     (if limit < cursor + n then
        (if \<not> shorten then (Some (start, cursor), row)
         else
           let row = fill_slice text_end cursor (default_render_cell\<lparr>rc_bg := bg\<rparr>) row
           in if text_end = start then (None, row)
              else
                let row = row[text_end := glyph_cell [0x2026] st]; shift = (if flush then stop - (text_end + 1) else 0)
                in (Some (start + shift, text_end + 1 + shift), rotate_slice start stop shift row))
      else if t = [] then paint_loop start stop limit shorten flush bg items cursor text_end st row
      else
        let row = row[cursor := glyph_cell t s];
            row = (if n = 2 then row[cursor + 1 := default_render_cell\<lparr>rc_bg := fst (snd s), rc_wide_continuation := True\<rparr>] else row)
        in if is_whitespace (hd t) then paint_loop start stop limit shorten flush bg items (cursor + n) text_end st row
           else paint_loop start stop limit shorten flush bg items (cursor + n) (cursor + n) s row)"

definition trim_end :: "rstring \<Rightarrow> rstring" where
  "trim_end s = rev (dropWhile is_whitespace (rev s))"

text \<open>Where a zone starts, how far its glyphs may go and whether an ellipsis ends it.\<close>

definition zone_plan :: "usize \<Rightarrow> usize \<Rightarrow> usize \<Rightarrow> usize \<Rightarrow> bool \<Rightarrow> (usize \<times> usize \<times> bool) option" where
  "zone_plan start stop zw trimmed flush =
     (let avail = stop - start; padding = zw - trimmed
      in if zw = 0 then None
         else if zw \<le> avail then Some (start, stop, False)
         else if zw = padding then None
         else if zw - padding \<le> avail then
           (let start = (if flush then stop - (zw - padding) else start) in Some (start, start + zw - padding, False))
         else if 2 \<le> avail then Some (start, stop - 1, True)
         else None)"

definition paint_zone ::
  "text_cells_fn \<Rightarrow> usize \<Rightarrow> usize \<Rightarrow> status_segment list \<Rightarrow> ct_color option \<Rightarrow> bool \<Rightarrow> render_cell list \<Rightarrow> (usize \<times> usize) option \<times> render_cell list" where
  "paint_zone cells_of start stop segs bg flush row =
     (case zone_plan start stop (segments_width cells_of segs)
             (segments_width cells_of [segment_plain (trim_end (concat (map sg_text segs)))]) flush of
        None \<Rightarrow> (None, row)
      | Some (start, limit, shorten) \<Rightarrow>
          paint_loop start stop limit shorten flush bg (zone_items cells_of bg segs) start start (None, None, default_attrs) row)"

definition status_blank :: "status_bar \<Rightarrow> render_cell" where
  "status_blank bar = default_render_cell\<lparr>rc_bg := sb_bg bar\<rparr>"

definition status_render_row :: "text_cells_fn \<Rightarrow> status_bar \<Rightarrow> u16 \<Rightarrow> render_cell list" where
  "status_render_row cells_of bar w =
     (let row = replicate w (status_blank bar);
          (l, row) = paint_zone cells_of 0 w (sb_left bar) (sb_bg bar) False row;
          left_end = (case l of Some (_, e) \<Rightarrow> e | None \<Rightarrow> 0);
          rw = segments_width cells_of (sb_right bar);
          (r, row) = paint_zone cells_of (max (w - rw) left_end) w (sb_right bar) (sb_bg bar) True row;
          after_left = left_end + (if 0 < left_end then 1 else 0);
          before_right = (case r of Some (s, _) \<Rightarrow> s - 1 | None \<Rightarrow> w);
          cw = segments_width cells_of (sb_center bar);
          start = (if after_left + cw \<le> before_right then max after_left (min ((w - cw) div 2) (before_right - cw)) else after_left)
      in snd (paint_zone cells_of start before_right (sb_center bar) (sb_bg bar) False row))"

section \<open>A zone keeps to its columns\<close>

definition cells_fn_ok :: "text_cells_fn \<Rightarrow> bool" where
  "cells_fn_ok cells_of \<longleftrightarrow> (\<forall>s t n. (t, n) \<in> set (cells_of s) \<longrightarrow> 1 \<le> n \<and> n \<le> 2)"

definition same_outside :: "usize \<Rightarrow> usize \<Rightarrow> render_cell list \<Rightarrow> render_cell list \<Rightarrow> bool" where
  "same_outside a b row row' \<longleftrightarrow> length row' = length row \<and> (\<forall>k < length row. k < a \<or> b \<le> k \<longrightarrow> row' ! k = row ! k)"

lemma same_outside_refl [simp]: "same_outside a b row row" by (simp add: same_outside_def)

lemma same_outside_trans: "same_outside a b x y \<Longrightarrow> same_outside a b y z \<Longrightarrow> same_outside a b x z"
  by (simp add: same_outside_def)

lemma same_outside_update [simp]: "a \<le> k \<Longrightarrow> k < b \<Longrightarrow> same_outside a b row (row[k := c])"
  by (auto simp: same_outside_def nth_list_update)

lemma same_outside_slice:
  assumes "a \<le> b" "b \<le> length row" "length mid = b - a"
  shows "same_outside a b row (take a row @ mid @ drop b row)"
  using assms by (auto simp: same_outside_def nth_append)

lemma same_outside_fill: "a \<le> c \<Longrightarrow> c \<le> d \<Longrightarrow> d \<le> b \<Longrightarrow> b \<le> length row \<Longrightarrow> same_outside a b row (fill_slice c d x row)"
  using same_outside_slice [of c d row "replicate (d - c) x"] by (auto simp: same_outside_def fill_slice_def)

lemma same_outside_rotate: "a \<le> b \<Longrightarrow> b \<le> length row \<Longrightarrow> same_outside a b row (rotate_slice a b k row)"
  unfolding rotate_slice_def by (rule same_outside_slice) simp_all

lemma paint_loop_within:
  assumes "\<forall>(t, n, s) \<in> set items. 1 \<le> n \<and> n \<le> 2" "start \<le> text_end" "text_end \<le> cursor" "cursor \<le> limit" "limit \<le> stop" "shorten \<Longrightarrow> limit < stop"
    "stop \<le> length row" "paint_loop start stop limit shorten flush bg items cursor text_end st row = (res, row')"
  shows "same_outside start stop row row' \<and> (\<forall>a b. res = Some (a, b) \<longrightarrow> start \<le> a \<and> a \<le> b \<and> b \<le> stop)"
  using assms
proof (induction start stop limit shorten flush bg items cursor text_end st row rule: paint_loop.induct)
  case (1 start stop limit shorten flush bg cursor text_end st row)
  then show ?case by auto
next
  case (2 start stop limit shorten flush bg t n s items cursor text_end st row)
  let ?r1 = "row[cursor := glyph_cell t s]"
  let ?r2 = "if n = 2 then ?r1[cursor + 1 := default_render_cell\<lparr>rc_bg := fst (snd s), rc_wide_continuation := True\<rparr>] else ?r1"
  consider (full) "limit < cursor + n" | (empty) "cursor + n \<le> limit" "t = []" | (put) "cursor + n \<le> limit" "t \<noteq> []" by linarith
  then show ?case
  proof cases
    case full
    show ?thesis
    proof (cases "shorten \<and> text_end \<noteq> start")
      case True
      let ?f = "fill_slice text_end cursor (default_render_cell\<lparr>rc_bg := bg\<rparr>) row"
      let ?k = "if flush then stop - (text_end + 1) else 0"
      have c: "cursor < stop" "start < stop" using True "2.prems" by auto
      have r: "res = Some (start + ?k, text_end + 1 + ?k)" "row' = rotate_slice start stop ?k (?f[text_end := glyph_cell [0x2026] st])"
        using full True "2.prems"(8) by (auto simp: Let_def)
      have f: "same_outside start stop row ?f" using "2.prems" c by (intro same_outside_fill) auto
      have u: "same_outside start stop row (?f[text_end := glyph_cell [0x2026] st])"
        using "2.prems" c by (intro same_outside_trans [OF f] same_outside_update) auto
      have "same_outside start stop row row'" unfolding r(2) using u c "2.prems"(7)
        by (intro same_outside_trans [OF u] same_outside_rotate) (auto simp: same_outside_def)
      then show ?thesis using r(1) "2.prems"(2,3) c by auto
    next
      case False
      then show ?thesis using full "2.prems" by (auto simp: Let_def split: if_splits intro!: same_outside_fill)
    qed
  next
    case empty
    have nl: "\<not> limit < cursor + n" using empty by simp
    have loop: "paint_loop start stop limit shorten flush bg items cursor text_end st row = (res, row')" using empty "2.prems"(8) by simp
    have items: "\<forall>(t, n, s) \<in> set items. 1 \<le> n \<and> n \<le> 2" using "2.prems"(1) by auto
    show ?thesis by (rule "2.IH"(1) [OF nl empty(2) items "2.prems"(2-5) "2.prems"(6) "2.prems"(7) loop])
  next
    case put
    have n: "1 \<le> n" "n \<le> 2" using "2.prems"(1) by auto
    have c: "cursor < stop" "n = 2 \<longrightarrow> cursor + 1 < stop" "start \<le> cursor" using n put(1) "2.prems"(2-5) by linarith+
    have r1: "same_outside start stop row ?r1" by (rule same_outside_update [OF c(3,1)])
    have r: "same_outside start stop row ?r2" using c by (cases "n = 2") (auto intro: same_outside_trans [OF r1] simp: r1)
    have items: "\<forall>(t, n, s) \<in> set items. 1 \<le> n \<and> n \<le> 2" using "2.prems"(1) by auto
    have nl: "\<not> limit < cursor + n" using put by simp
    have len: "stop \<le> length ?r2" using "2.prems"(7) by simp
    have "same_outside start stop ?r2 row' \<and> (\<forall>a b. res = Some (a, b) \<longrightarrow> start \<le> a \<and> a \<le> b \<and> b \<le> stop)"
    proof (cases "is_whitespace (hd t)")
      case True
      have loop: "paint_loop start stop limit shorten flush bg items (cursor + n) text_end st ?r2 = (res, row')" using put True "2.prems"(8) by (simp add: Let_def)
      have te: "text_end \<le> cursor + n" using "2.prems"(3) by simp
      show ?thesis by (rule "2.IH"(2) [OF nl put(2) refl refl True items "2.prems"(2) te put(1) "2.prems"(5) "2.prems"(6) len loop])
    next
      case False
      have loop: "paint_loop start stop limit shorten flush bg items (cursor + n) (cursor + n) s ?r2 = (res, row')" using put False "2.prems"(8) by (simp add: Let_def)
      have te: "start \<le> cursor + n" using c(3) by simp
      show ?thesis by (rule "2.IH"(3) [OF nl put(2) refl refl False items te le_refl put(1) "2.prems"(5) "2.prems"(6) len loop])
    qed
    then show ?thesis using same_outside_trans [OF r] by blast
  qed
qed

lemma zone_items_ok: "cells_fn_ok cells_of \<Longrightarrow> \<forall>(t, n, s) \<in> set (zone_items cells_of bg segs). 1 \<le> n \<and> n \<le> 2"
  by (auto simp: zone_items_def cells_fn_ok_def)

lemma same_outside_wider: "same_outside a b row row' \<Longrightarrow> c \<le> a \<Longrightarrow> b \<le> d \<Longrightarrow> same_outside c d row row'"
  by (auto simp: same_outside_def)

lemma zone_plan_ok:
  assumes "zone_plan start stop zw trimmed flush = Some (s, limit, shorten)"
  shows "start \<le> s \<and> s \<le> limit \<and> limit \<le> stop \<and> (shorten \<longrightarrow> limit < stop)"
proof -
  define pad where "pad = zw - trimmed"
  have pad: "pad \<le> zw" by (simp add: pad_def)
  note p = assms [unfolded zone_plan_def Let_def, folded pad_def]
  consider "zw = 0" | "zw \<noteq> 0" "zw \<le> stop - start" | "\<not> zw \<le> stop - start" "zw = pad" | "\<not> zw \<le> stop - start" "zw \<noteq> pad" "zw - pad \<le> stop - start"
    | "\<not> zw \<le> stop - start" "zw \<noteq> pad" "\<not> zw - pad \<le> stop - start" by blast
  then show ?thesis
  proof cases
    case 4
    show ?thesis
    proof (cases flush)
      case True
      then have e: "s = stop - (zw - pad)" "limit = stop - (zw - pad) + zw - pad" "\<not> shorten" using p 4 by (cases "zw = 0"; simp)+
      have "0 < zw - pad" "zw - pad \<le> stop" using 4 pad by linarith+
      then show ?thesis unfolding e(1,2) using 4 pad e(3) by simp linarith
    next
      case False
      then have e: "s = start" "limit = start + zw - pad" "\<not> shorten" using p 4 by (cases "zw = 0"; simp)+
      show ?thesis unfolding e(1,2) using 4 pad e(3) by simp linarith
    qed
  qed (use p in \<open>auto split: if_splits\<close>)
qed

lemma paint_zone_within:
  assumes f: "cells_fn_ok cells_of" and stop: "stop \<le> length row" and p: "paint_zone cells_of start stop segs bg flush row = (res, row')"
  shows "same_outside start stop row row' \<and> (\<forall>a b. res = Some (a, b) \<longrightarrow> start \<le> a \<and> a \<le> b \<and> b \<le> stop)"
proof (cases "zone_plan start stop (segments_width cells_of segs) (segments_width cells_of [segment_plain (trim_end (concat (map sg_text segs)))]) flush")
  case None
  then show ?thesis using p by (simp add: paint_zone_def)
next
  case (Some q)
  obtain s limit shorten where q: "q = (s, limit, shorten)" by (cases q)
  note z = zone_plan_ok [OF Some [unfolded q]]
  have "same_outside s stop row row' \<and> (\<forall>a b. res = Some (a, b) \<longrightarrow> s \<le> a \<and> a \<le> b \<and> b \<le> stop)"
    using p Some q z by (intro paint_loop_within [OF zone_items_ok [OF f] le_refl le_refl _ _ _ stop]) (auto simp: paint_zone_def)
  then show ?thesis using z same_outside_wider [of s stop row row' start stop] by auto
qed

text \<open>Left wins over right and both over the centre: what they painted is in the finished row, which is as
  long as the bar is wide.\<close>

lemma status_row_zones:
  assumes f: "cells_fn_ok cells_of"
    and l: "paint_zone cells_of 0 w (sb_left bar) (sb_bg bar) False (replicate w (status_blank bar)) = (lz, row1)"
    and r: "paint_zone cells_of (max (w - segments_width cells_of (sb_right bar)) le) w (sb_right bar) (sb_bg bar) True row1 = (rz, row2)"
    and le: "le = (case lz of Some (_, e) \<Rightarrow> e | None \<Rightarrow> 0)"
  shows "length (status_render_row cells_of bar w) = w" "k < le \<Longrightarrow> status_render_row cells_of bar w ! k = row1 ! k"
    "rz = Some (a, b) \<Longrightarrow> a \<le> k \<Longrightarrow> k < w \<Longrightarrow> le \<le> a \<and> status_render_row cells_of bar w ! k = row2 ! k"
proof -
  let ?row = "status_render_row cells_of bar w"
  note zl = paint_zone_within [OF f _ l]
  have l1: "length row1 = w" "le \<le> w" using zl le by (auto simp: same_outside_def split: option.splits)
  note zr = paint_zone_within [OF f _ r]
  have r1: "same_outside (max (w - segments_width cells_of (sb_right bar)) le) w row1 row2"
    "\<And>a b. rz = Some (a, b) \<Longrightarrow> max (w - segments_width cells_of (sb_right bar)) le \<le> a \<and> a \<le> b \<and> b \<le> w" using zr l1 by auto
  have l2: "length row2 = w" using r1(1) l1 by (simp add: same_outside_def)
  define before where "before = (case rz of Some (s, _) \<Rightarrow> s - 1 | None \<Rightarrow> w)"
  define cw where "cw = segments_width cells_of (sb_center bar)"
  define start where "start = (if le + (if 0 < le then 1 else 0) + cw \<le> before then max (le + (if 0 < le then 1 else 0)) (min ((w - cw) div 2) (before - cw)) else le + (if 0 < le then 1 else 0))"
  obtain cz row3 where c: "paint_zone cells_of start before (sb_center bar) (sb_bg bar) False row2 = (cz, row3)" by fastforce
  have e: "?row = row3"
    unfolding status_render_row_def Let_def unfolding l prod.case unfolding le [symmetric] unfolding r prod.case
    unfolding before_def [symmetric] cw_def [symmetric] unfolding start_def [symmetric] c by simp
  have "before \<le> w" using r1(2) by (fastforce simp: before_def split: option.splits)
  then have s: "same_outside start before row2 row3" using paint_zone_within [OF f _ c] l2 by simp
  show "length ?row = w" using s l2 by (simp add: e same_outside_def)
  have "le \<le> start" unfolding start_def by (auto simp: le_max_iff_disj)
  then show "?row ! k = row1 ! k" if "k < le" using that s r1(1) l1 l2 by (simp add: e same_outside_def)
  show "le \<le> a \<and> ?row ! k = row2 ! k" if h: "rz = Some (a, b)" "a \<le> k" "k < w"
  proof -
    have "before \<le> k" using h by (auto simp: before_def)
    then show ?thesis using r1(2) [OF h(1)] s h l2 by (simp add: e same_outside_def)
  qed
qed

end
