(* ===== verification/Ui_Compositor.thy ===== *)
theory Ui_Compositor
  imports Ui_Host Ui_View Ui_Status
begin

text \<open>
  The compositor of an attached client, \<^verbatim>\<open>shux-ui/src/compositor.rs\<close>: panes, borders, titles and the status bar
  are composed into the frame buffer, and the difference to the last frame goes to the host terminal.
  Timing statistics are left out, and so are pictures, which are off unless the client asks for them.
\<close>

section \<open>State\<close>

record compositor_config =
  cc_show_border :: bool
  cc_status_bar_height :: u16
  cc_border_style :: border_style
  cc_border_colors :: border_colors

record cursor_visual =
  cv_shape :: cursor_shape
  cv_color :: "rgb option"

record cursor_target =
  tgt_x :: u16
  tgt_y :: u16
  tgt_visual :: cursor_visual

record compositor =
  cm_buffer :: frame_buffer
  cm_backend :: backend
  cm_config :: compositor_config
  cm_force_full_redraw :: bool
  cm_terminal_cursor :: "(u16 \<times> u16) option"
  cm_cursor_visual :: "cursor_visual option"
  cm_cursor_known :: bool
  cm_cursor_hidden :: bool
  cm_pane_views :: "(pane_id \<times> pane_view) list"

record 'p multi_pane_frame =
  mf_layout :: layout_node
  mf_zoom :: "pane_id option"
  mf_focused :: pane_id
  mf_vts :: "pane_id \<Rightarrow> 'p terminal option"
  mf_chrome :: "(pane_id \<Rightarrow> pane_chrome option) option"
  mf_status_bar :: "status_bar option"

text \<open>The width table and the cells of a text, which titles and the status bar are laid out with.\<close>

record ui_env =
  ue_width :: "rchar \<Rightarrow> usize option"
  ue_cells :: text_cells_fn

definition borders_visible :: "rect \<Rightarrow> border_style \<Rightarrow> bool \<Rightarrow> bool" where
  "borders_visible c style zoomed \<longleftrightarrow> \<not> zoomed \<and> style \<noteq> BorderNone \<and> 3 \<le> rect_width c \<and> 3 \<le> rect_height c"

definition pane_viewport :: "rect \<Rightarrow> border_style \<Rightarrow> bool \<Rightarrow> rect" where
  "pane_viewport c style zoomed =
     (if borders_visible c style zoomed then rect_new (rect_x c + 1) (rect_y c + 1) (rect_width c - 2) (rect_height c - 2) else c)"

definition compositor_new :: "u16 \<Rightarrow> u16 \<Rightarrow> backend \<Rightarrow> compositor_config \<Rightarrow> compositor" where
  "compositor_new width height out config =
     \<lparr>cm_buffer = fb_new width height, cm_backend = out, cm_config = config, cm_force_full_redraw = True, cm_terminal_cursor = None,
      cm_cursor_visual = None, cm_cursor_known = False, cm_cursor_hidden = False, cm_pane_views = []\<rparr>"

definition cm_resize :: "u16 \<Rightarrow> u16 \<Rightarrow> compositor \<Rightarrow> compositor" where
  "cm_resize width height cm =
     cm\<lparr>cm_buffer := fb_resize width height (cm_buffer cm), cm_force_full_redraw := True, cm_cursor_known := False, cm_cursor_visual := None\<rparr>"

definition cm_set_cursor_hidden :: "bool \<Rightarrow> compositor \<Rightarrow> compositor" where
  "cm_set_cursor_hidden hidden cm = cm\<lparr>cm_cursor_hidden := hidden\<rparr>"

definition cm_restore_cursor :: "compositor \<Rightarrow> compositor" where
  "cm_restore_cursor cm =
     (case cm_terminal_cursor cm of Some (col, row) \<Rightarrow> cm\<lparr>cm_backend := set_cursor col row (cm_backend cm)\<rparr> | None \<Rightarrow> cm)"

definition cm_force_redraw :: "compositor \<Rightarrow> compositor" where
  "cm_force_redraw cm = cm\<lparr>cm_force_full_redraw := True\<rparr>"

definition cm_set_border_style :: "border_style \<Rightarrow> compositor \<Rightarrow> compositor" where
  "cm_set_border_style style cm =
     (if cc_border_style (cm_config cm) \<noteq> style then cm\<lparr>cm_config := (cm_config cm)\<lparr>cc_border_style := style\<rparr>, cm_force_full_redraw := True\<rparr> else cm)"

definition cm_set_border_colors :: "border_colors \<Rightarrow> compositor \<Rightarrow> compositor" where
  "cm_set_border_colors colors cm =
     (let old = cc_border_colors (cm_config cm)
      in if (bcl_focused old, bcl_unfocused old) \<noteq> (bcl_focused colors, bcl_unfocused colors)
         then cm\<lparr>cm_config := (cm_config cm)\<lparr>cc_border_colors := colors\<rparr>, cm_force_full_redraw := True\<rparr> else cm)"

definition cm_clear :: "compositor \<Rightarrow> compositor" where
  "cm_clear cm = cm\<lparr>cm_backend := clear_screen (cm_backend cm), cm_force_full_redraw := True\<rparr>"

definition content_rect :: "compositor \<Rightarrow> rect" where
  "content_rect cm = rect_new 0 0 (fb_width (cm_buffer cm)) (fb_height (cm_buffer cm) - cc_status_bar_height (cm_config cm))"

section \<open>Composing\<close>

type_synonym cell_write = "u16 \<times> u16 \<times> render_cell"

definition put_cells :: "cell_write list \<Rightarrow> frame_buffer \<Rightarrow> frame_buffer" where
  "put_cells ws b = fold (\<lambda>(col, row, c). fb_set_cell col row c) ws b"

definition grid_cell :: "grid \<Rightarrow> usize \<Rightarrow> usize \<Rightarrow> cell" where
  "grid_cell g row col = r_cells (gr_raw g ! (scrollback_len g + row)) ! col"

definition pane_cells :: "pane_view \<Rightarrow> 'p terminal \<Rightarrow> cell_write list" where
  "pane_cells v vt =
     (let rc = pv_rect v; g = term_grid vt; d = default_colors vt
      in concat (map (\<lambda>r. if gr_rows g \<le> pv_row_offset v + r then []
                          else map (\<lambda>c. (wrap16 (rect_x rc + c), wrap16 (rect_y rc + r), from_vt_cell_with_defaults (grid_cell g (pv_row_offset v + r) c) d))
                                 [0..<min (rect_width rc) (gr_cols g)])
                   [0..<rect_height rc]))"

definition placeholder_cells :: "rect \<Rightarrow> rstring \<Rightarrow> cell_write list" where
  "placeholder_cells rc text =
     (if rect_width rc = 0 \<or> rect_height rc = 0 then []
      else
        let col = sat_add16 (rect_x rc) (wrap16 (rect_width rc - length text) div 2); row = rect_y rc + rect_height rc div 2
        in map (\<lambda>i. (wrap16 (col + i), row, render_styled (text ! i) None None (default_attrs\<lparr>ra_dim := True\<rparr>))) [0..<length text])"

definition view_of_vt :: "rect \<Rightarrow> 'p terminal \<Rightarrow> pane_view" where
  "view_of_vt rc vt = pane_view_of rc (gr_rows (term_grid vt)) (gr_cols (term_grid vt)) (cu_row (term_cursor vt))"

definition pane_writes :: "'p multi_pane_frame \<Rightarrow> pane_id \<times> rect \<Rightarrow> cell_write list" where
  "pane_writes f pr =
     (case mf_vts f (fst pr) of
        Some vt \<Rightarrow> pane_cells (view_of_vt (snd pr) vt) vt
      | None \<Rightarrow> placeholder_cells (snd pr) (ascii ''(no output)''))"

definition segment_writes :: "border_colors \<Rightarrow> border_segment list \<Rightarrow> cell_write list" where
  "segment_writes colors segs =
     map (\<lambda>s. (bs_x s, bs_y s, render_styled (bs_ch s) (Some (if bs_focused s then bcl_focused colors else bcl_unfocused colors)) None default_attrs)) segs"

definition glyph_writes :: "ct_color \<Rightarrow> u16 \<Rightarrow> title_glyph \<Rightarrow> cell_write list" where
  "glyph_writes border row g =
     (if tg_text g = [] then []
      else
        (tg_x g, row, glyph_cell (tg_text g) (Some (case tg_color g of Some c \<Rightarrow> c | None \<Rightarrow> border), None, default_attrs)) #
        (if tg_width g = 2 then [(tg_x g + 1, row, default_render_cell\<lparr>rc_wide_continuation := True\<rparr>)] else []))"

definition chrome_writes :: "ui_env \<Rightarrow> border_colors \<Rightarrow> 'p multi_pane_frame \<Rightarrow> border_segment list \<Rightarrow> pane_id \<times> rect \<Rightarrow> cell_write list" where
  "chrome_writes E colors f segs pr =
     (case mf_chrome f of
        None \<Rightarrow> []
      | Some chrome \<Rightarrow>
          (case chrome (fst pr) of
             None \<Rightarrow> []
           | Some pc \<Rightarrow>
               concat (map (glyph_writes (if fst pr = mf_focused f then bcl_focused colors else bcl_unfocused colors) (rect_y (snd pr) - 1))
                 (title_overlay (ue_width E) (ue_cells E) pc (snd pr) segs))))"

definition status_writes :: "ui_env \<Rightarrow> compositor \<Rightarrow> 'p multi_pane_frame \<Rightarrow> cell_write list" where
  "status_writes E cm f =
     (case mf_status_bar f of
        None \<Rightarrow> []
      | Some bar \<Rightarrow>
          let w = fb_width (cm_buffer cm); n = cc_status_bar_height (cm_config cm); first = fb_height (cm_buffer cm) - n
          in concat (map (\<lambda>k. if k + 1 = n then map (\<lambda>(col, c). (wrap16 col, first + k, c)) (enumerate 0 (status_render_row (ue_cells E) bar w))
                              else map (\<lambda>col. (col, first + k, default_render_cell)) [0..<w]) [0..<n]))"

definition frame_rects :: "compositor \<Rightarrow> 'p multi_pane_frame \<Rightarrow> (pane_id \<times> rect) list" where
  "frame_rects cm f =
     (let c = content_rect cm
      in case mf_zoom f of
           Some pid \<Rightarrow> [(pid, c)]
         | None \<Rightarrow> compute_rects (mf_layout f) (pane_viewport c (cc_border_style (cm_config cm)) False))"

definition frame_writes :: "ui_env \<Rightarrow> compositor \<Rightarrow> 'p multi_pane_frame \<Rightarrow> cell_write list" where
  "frame_writes E cm f =
     (let c = content_rect cm; style = cc_border_style (cm_config cm); colors = cc_border_colors (cm_config cm); rects = frame_rects cm f;
          segs = compute_borders rects (mf_focused f) c style
      in concat (map (pane_writes f) rects) @
         (if borders_visible c style (mf_zoom f \<noteq> None) then segment_writes colors segs @ concat (map (chrome_writes E colors f segs) rects) else []) @
         status_writes E cm f)"

definition compose_frame :: "ui_env \<Rightarrow> 'p multi_pane_frame \<Rightarrow> compositor \<Rightarrow> compositor" where
  "compose_frame E f cm =
     cm\<lparr>cm_buffer := put_cells (frame_writes E cm f) (fb_clear_current (cm_buffer cm)),
        cm_pane_views := concat (map (\<lambda>(pid, rc). case mf_vts f pid of Some vt \<Rightarrow> [(pid, view_of_vt rc vt)] | None \<Rightarrow> []) (frame_rects cm f))\<rparr>"

section \<open>Rendering\<close>

definition frame_cursor :: "'p multi_pane_frame \<Rightarrow> compositor \<Rightarrow> cursor_target option" where
  "frame_cursor f cm =
     (case List.find (\<lambda>(pid, _). pid = mf_focused f) (frame_rects cm f) of
        None \<Rightarrow> None
      | Some (_, rc) \<Rightarrow>
          (case mf_vts f (mf_focused f) of
             None \<Rightarrow> None
           | Some vt \<Rightarrow>
               let cur = term_cursor vt;
                   off = pane_view_row_offset (gr_rows (term_grid vt)) (rect_height rc) (cu_row cur);
                   vy = min (wrap16 (cu_row cur - off)) (rect_height rc - 1);
                   sx = sat_add16 (rect_x rc) (min (wrap16 (cu_col cur)) (rect_width rc - 1));
                   sy = sat_add16 (rect_y rc) vy
               in if cu_visible cur \<and> sx < sat_add16 (rect_x rc) (rect_width rc) \<and> sy < sat_add16 (rect_y rc) (rect_height rc) \<and>
                     sx < fb_width (cm_buffer cm) \<and> sy < fb_height (cm_buffer cm) \<and> \<not> cm_cursor_hidden cm
                  then Some \<lparr>tgt_x = sx, tgt_y = sy, tgt_visual = \<lparr>cv_shape = cu_shape cur, cv_color = tdc_cursor (default_colors vt)\<rparr>\<rparr>
                  else None))"

definition hide_before :: "dirty_cell list \<Rightarrow> cursor_target option \<Rightarrow> compositor \<Rightarrow> compositor" where
  "hide_before ds target cm =
     (let cursor_unknown = \<not> cm_cursor_known cm; vis = (cm_terminal_cursor cm \<noteq> None)
      in if cursor_unknown \<or> ds \<noteq> [] \<and> vis \<or> target = None \<and> vis
         then cm\<lparr>cm_backend := hide_cursor (cm_backend cm), cm_terminal_cursor := None,
                 cm_cursor_visual := (if cursor_unknown then None else cm_cursor_visual cm), cm_cursor_known := True\<rparr>
         else cm)"

definition place_cursor :: "cursor_target \<Rightarrow> compositor \<Rightarrow> compositor" where
  "place_cursor t cm0 =
     (let cm = (if cm_cursor_visual cm0 \<noteq> Some (tgt_visual t)
                then cm0\<lparr>cm_backend := set_cursor_color (cv_color (tgt_visual t)) (set_cursor_shape (cv_shape (tgt_visual t)) (cm_backend cm0)),
                         cm_cursor_visual := Some (tgt_visual t)\<rparr>
                else cm0)
      in if cm_terminal_cursor cm \<noteq> Some (tgt_x t, tgt_y t)
         then let was_hidden = (cm_terminal_cursor cm = None); b = set_cursor (tgt_x t) (tgt_y t) (cm_backend cm)
              in cm\<lparr>cm_backend := (if was_hidden then show_cursor b else b), cm_terminal_cursor := Some (tgt_x t, tgt_y t), cm_cursor_known := True\<rparr>
         else cm)"

definition render_dirty_and_cursor :: "dirty_cell list \<Rightarrow> cursor_target option \<Rightarrow> compositor \<Rightarrow> compositor" where
  "render_dirty_and_cursor ds target cm0 =
     (let cm = hide_before ds target cm0;
          cm = cm\<lparr>cm_backend := render_diff ds (cm_backend cm)\<rparr>
      in case target of Some t \<Rightarrow> place_cursor t cm | None \<Rightarrow> cm)"

definition diff_phase :: "compositor \<Rightarrow> compositor" where
  "diff_phase cm =
     (if cm_force_full_redraw cm then cm\<lparr>cm_buffer := fb_invalidate (cm_buffer cm), cm_force_full_redraw := False\<rparr> else cm)"

definition render_phase :: "cursor_target option \<Rightarrow> compositor \<Rightarrow> compositor" where
  "render_phase target cm0 =
     (let cm = diff_phase cm0; cm = render_dirty_and_cursor (fb_diff (cm_buffer cm)) target cm
      in cm\<lparr>cm_buffer := fb_swap (cm_buffer cm)\<rparr>)"

definition render_multi_pane :: "ui_env \<Rightarrow> 'p multi_pane_frame \<Rightarrow> compositor \<Rightarrow> compositor" where
  "render_multi_pane E f cm = render_phase (frame_cursor f cm) (compose_frame E f cm)"

section \<open>The single-pane path\<close>

definition border_box :: "compositor \<Rightarrow> cell_write list" where
  "border_box cm =
     (let w = fb_width (cm_buffer cm); h = fb_height (cm_buffer cm) - cc_status_bar_height (cm_config cm); put = (\<lambda>col row ch. (col, row, render_text ch))
      in if w < 2 \<or> h < 2 then []
         else
           [put 0 0 0x250C, put (w - 1) 0 0x2510, put 0 (h - 1) 0x2514, put (w - 1) (h - 1) 0x2518] @
           concat (map (\<lambda>col. [put col 0 0x2500, put col (h - 1) 0x2500]) [1..<w - 1]) @
           concat (map (\<lambda>row. [put 0 row 0x2502, put (w - 1) row 0x2502]) [1..<h - 1]))"

definition content_area :: "compositor \<Rightarrow> u16 \<times> u16 \<times> u16 \<times> u16" where
  "content_area cm =
     (let o' = (if cc_show_border (cm_config cm) then 1 else 0)
      in (o', o', fb_width (cm_buffer cm) - o' * 2, fb_height (cm_buffer cm) - o' * 2 - cc_status_bar_height (cm_config cm)))"

definition render_frame :: "(u16 \<Rightarrow> u16 \<Rightarrow> render_cell) \<Rightarrow> u16 \<Rightarrow> u16 \<Rightarrow> (u16 \<times> u16) option \<Rightarrow> compositor \<Rightarrow> compositor" where
  "render_frame cell grid_width grid_height cursor_pos cm =
     (let (cx, cy, cw, ch) = content_area cm;
          ws = (if cc_show_border (cm_config cm) then border_box cm else []) @
               concat (map (\<lambda>row. map (\<lambda>col. (cx + col, cy + row, cell col row)) [0..<min cw grid_width]) [0..<min ch grid_height]);
          target = (case cursor_pos of
                      Some (col, row) \<Rightarrow>
                        if cx + col < fb_width (cm_buffer cm) \<and> cy + row < fb_height (cm_buffer cm)
                        then Some \<lparr>tgt_x = cx + col, tgt_y = cy + row, tgt_visual = \<lparr>cv_shape = ShapeBlock, cv_color = None\<rparr>\<rparr> else None
                    | None \<Rightarrow> None)
      in render_phase target (cm\<lparr>cm_buffer := put_cells ws (fb_clear_current (cm_buffer cm))\<rparr>))"

end
