(* ===== verification/Ui_Props.thy ===== *)
theory Ui_Props
  imports Ui_Compositor
begin

text \<open>
  What a user sees: every frame the compositor renders is what the host terminal shows afterwards, and in a
  frame of panes every pane shows its grid, with borders, titles and the status bar around it.
\<close>

section \<open>Frames reach the host\<close>

definition shows_previous :: "frame_buffer \<Rightarrow> screen_cells \<Rightarrow> bool" where
  "shows_previous b s \<longleftrightarrow> (\<forall>row < fb_height b. \<forall>col < fb_width b. s row col = Some (shown_glyph (fb_previous b ! fb_index b col row)))"

definition comp_ready :: "text_width \<Rightarrow> host \<Rightarrow> compositor \<Rightarrow> bool" where
  "comp_ready wd h cm \<longleftrightarrow> fb_ok (cm_buffer cm) \<and> agrees (cm_backend cm) (seen_by wd h (cm_backend cm)) \<and>
     host_tidy wd (fb_width (cm_buffer cm)) (fb_height (cm_buffer cm)) (ho_cells (seen_by wd h (cm_backend cm))) \<and>
     (\<not> cm_force_full_redraw cm \<longrightarrow> shows_previous (cm_buffer cm) (ho_cells (seen_by wd h (cm_backend cm))))"

text \<open>Commands that move or dress the cursor change nothing that is shown.\<close>

definition quiet_cmd :: "term_cmd \<Rightarrow> bool" where
  "quiet_cmd c \<longleftrightarrow> (case c of
     MoveTo _ _ \<Rightarrow> True | HideCursor \<Rightarrow> True | ShowCursor \<Rightarrow> True | SetCursorStyle _ \<Rightarrow> True | Raw s \<Rightarrow> \<not> is_link_text s | _ \<Rightarrow> False)"

lemma quiet_run:
  assumes "\<forall>c \<in> set cs. quiet_cmd c"
  shows "ho_cells (host_run wd cs h) = ho_cells h \<and> ho_pen (host_run wd cs h) = ho_pen h \<and> ho_link (host_run wd cs h) = ho_link h"
  using assms
proof (induction cs arbitrary: h)
  case (Cons c cs)
  have "ho_cells (host_exec wd c h) = ho_cells h \<and> ho_pen (host_exec wd c h) = ho_pen h \<and> ho_link (host_exec wd c h) = ho_link h"
    using Cons.prems by (cases c) (auto simp: quiet_cmd_def)
  then show ?case using Cons.IH [of "host_exec wd c h"] Cons.prems by simp
qed simp

definition quietly :: "backend \<Rightarrow> backend \<Rightarrow> bool" where
  "quietly b b' \<longleftrightarrow> (\<exists>cs. b' = queue cs b \<and> (\<forall>c \<in> set cs. quiet_cmd c))"

lemma quietlyD:
  assumes "quietly b b'"
  shows "agrees b' (seen_by wd h b') = agrees b (seen_by wd h b)" "ho_cells (seen_by wd h b') = ho_cells (seen_by wd h b)"
proof -
  obtain cs where cs: "b' = queue cs b" "\<forall>c \<in> set cs. quiet_cmd c" using assms by (auto simp: quietly_def)
  show "agrees b' (seen_by wd h b') = agrees b (seen_by wd h b)" "ho_cells (seen_by wd h b') = ho_cells (seen_by wd h b)"
    using quiet_run [OF cs(2), of wd "seen_by wd h b"] by (simp_all add: cs(1) agrees_def)
qed

lemma quietly_refl [simp]: "quietly b b"
  by (auto simp: quietly_def queue_def intro: exI [of _ "[]"])

lemma quietly_trans [trans]:
  assumes "quietly a b" "quietly b c"
  shows "quietly a c"
proof -
  obtain cs ds where "b = queue cs a" "\<forall>c \<in> set cs. quiet_cmd c" "c = queue ds b" "\<forall>c \<in> set ds. quiet_cmd c" using assms by (auto simp: quietly_def)
  then have "c = queue (cs @ ds) a" "\<forall>c \<in> set (cs @ ds). quiet_cmd c" by (auto simp: queue_def)
  then show ?thesis unfolding quietly_def by blast
qed

lemma quietly_queue: "\<forall>c \<in> set cs. quiet_cmd c \<Longrightarrow> quietly b (queue cs b)"
  by (auto simp: quietly_def)

lemma quietly_cursor:
  "quietly b (hide_cursor b)" "quietly b (show_cursor b)" "quietly b (set_cursor_shape s b)" "quietly b (set_cursor_color c b)" "quietly b (set_cursor col row b)"
  unfolding hide_cursor_def show_cursor_def set_cursor_shape_def set_cursor_color_def set_cursor_def
  by (rule quietly_queue, auto simp: quiet_cmd_def is_link_text_def split: option.split prod.split)+

lemmas quietly_then = quietly_cursor [THEN quietly_trans [rotated]]

lemma cursor_placed:
  "quietly (cm_backend cm) (cm_backend (place_cursor t cm))"
  "cm_buffer (place_cursor t cm) = cm_buffer cm" "cm_force_full_redraw (place_cursor t cm) = cm_force_full_redraw cm"
  by (auto simp: place_cursor_def Let_def intro!: quietly_then)

lemma cursor_hid:
  "quietly (cm_backend cm) (cm_backend (hide_before ds t cm))"
  "cm_buffer (hide_before ds t cm) = cm_buffer cm" "cm_force_full_redraw (hide_before ds t cm) = cm_force_full_redraw cm"
  using quietly_cursor(1) by (simp_all add: hide_before_def Let_def)

lemma render_phase_ready:
  fixes target :: "cursor_target option"
  assumes r: "comp_ready wd h cm" and d: "drawable wd (cm_buffer cm)"
  defines "cm' \<equiv> render_phase target cm"
  shows "comp_ready wd h cm'" "host_shows (cm_buffer cm) (ho_cells (seen_by wd h (cm_backend cm')))"
    "fb_current (cm_buffer cm') = fb_current (cm_buffer cm)"
proof -
  let ?b = "cm_buffer cm" and ?s = "ho_cells (seen_by wd h (cm_backend cm))"
  let ?cm1 = "diff_phase cm"
  let ?b1 = "cm_buffer ?cm1"
  have b1: "fb_width ?b1 = fb_width ?b" "fb_height ?b1 = fb_height ?b" "fb_current ?b1 = fb_current ?b" "cm_backend ?cm1 = cm_backend cm"
    "\<not> cm_force_full_redraw ?cm1" "fb_ok ?b1" using r by (simp_all add: diff_phase_def fb_invalidate_def comp_ready_def fb_ok_def)
  have at: "fb_at ?b1 = fb_at ?b" using b1 by (simp add: fb_at_def fb_index_def fun_eq_iff)
  have d1: "drawable wd ?b1" using d b1 at by (simp add: drawable_def)
  have dirty1: "dirty ?b1 row col \<or> ?s row col = Some (shown_glyph (fb_at ?b1 row col))" if rc: "row < fb_height ?b1" "col < fb_width ?b1" for row col
  proof (cases "cm_force_full_redraw cm")
    case True
    have i: "fb_index ?b col row < length (fb_current ?b)" "fb_index ?b col row < length (fb_previous ?b)"
      using fb_index_less [of col ?b row] rc b1 d r by (simp_all add: drawable_def fb_ok_def comp_ready_def)
    have "rc_ch (fb_current ?b ! fb_index ?b col row) \<noteq> 0" using d i(1) by (simp add: drawable_def)
    then show ?thesis using True i by (auto simp: dirty_def diff_phase_def fb_invalidate_def fb_index_def)
  next
    case False
    then have "?s row col = Some (shown_glyph (fb_previous ?b ! fb_index ?b col row))" using r rc b1 by (simp add: comp_ready_def shows_previous_def)
    then show ?thesis using False by (auto simp: dirty_def diff_phase_def fb_at_def)
  qed
  let ?ds = "fb_diff ?b1"
  let ?cm2 = "hide_before ?ds target ?cm1"
  note hid = quietlyD [OF cursor_hid(1) [of ?cm1 ?ds target], where wd = wd and h = h, unfolded b1(4)] cursor_hid(2,3) [of ?ds target ?cm1]
  have a: "agrees (cm_backend ?cm2) (seen_by wd h (cm_backend ?cm2))" using r hid(1) by (simp add: comp_ready_def)
  have t: "host_tidy wd (fb_width ?b1) (fb_height ?b1) (ho_cells (seen_by wd h (cm_backend ?cm2)))" using r hid(2) b1 by (simp add: comp_ready_def)
  note sent = diff_sent [OF d1 a t] 
  have s: "agrees (render_diff ?ds (cm_backend ?cm2)) (seen_by wd h (render_diff ?ds (cm_backend ?cm2)))"
    "host_shows ?b1 (ho_cells (seen_by wd h (render_diff ?ds (cm_backend ?cm2))))"
    "host_tidy wd (fb_width ?b1) (fb_height ?b1) (ho_cells (seen_by wd h (render_diff ?ds (cm_backend ?cm2))))"
    using sent dirty1 hid(2) by simp_all
  let ?cm3 = "?cm2\<lparr>cm_backend := render_diff ?ds (cm_backend ?cm2)\<rparr>"
  let ?cm4 = "case target of Some t \<Rightarrow> place_cursor t ?cm3 | None \<Rightarrow> ?cm3"
  have e: "cm' = ?cm4\<lparr>cm_buffer := fb_swap (cm_buffer ?cm4)\<rparr>" by (simp add: cm'_def render_phase_def render_dirty_and_cursor_def Let_def)
  have four: "agrees (cm_backend ?cm4) (seen_by wd h (cm_backend ?cm4))" "ho_cells (seen_by wd h (cm_backend ?cm4)) = ho_cells (seen_by wd h (render_diff ?ds (cm_backend ?cm2)))"
    "cm_buffer ?cm4 = ?b1" "\<not> cm_force_full_redraw ?cm4"
    using s(1) quietlyD [OF cursor_placed(1) [of ?cm3], where wd = wd and h = h] cursor_placed(2,3) [of _ ?cm3] hid(3,4) b1(5) by (cases target; simp)+
  show "fb_current (cm_buffer cm') = fb_current ?b" using e four(3) b1(3) by (simp add: fb_swap_def)
  show "host_shows ?b (ho_cells (seen_by wd h (cm_backend cm')))" using e four s(2) b1 at by (simp add: host_shows_def)
  have sw: "fb_ok (fb_swap ?b1)" using b1(6) by simp
  have "shows_previous (fb_swap ?b1) (ho_cells (seen_by wd h (render_diff ?ds (cm_backend ?cm2))))"
    using s(2) by (simp add: shows_previous_def host_shows_def fb_swap_def fb_at_def fb_index_def)
  then show "comp_ready wd h cm'" using e four s(3) sw by (simp add: comp_ready_def)
qed

text \<open>What an attached client asks of its compositor between two changes of the window's size.\<close>

datatype 'p ui_op =
    UiFrame "'p multi_pane_frame"
  | UiRedraw
  | UiBorderStyle border_style
  | UiBorderColors border_colors
  | UiClear
  | UiRestoreCursor
  | UiCursorHidden bool

fun ui_step :: "ui_env \<Rightarrow> compositor \<Rightarrow> 'p ui_op \<Rightarrow> compositor" where
  "ui_step E cm (UiFrame f) = render_multi_pane E f cm"
| "ui_step E cm UiRedraw = cm_force_redraw cm"
| "ui_step E cm (UiBorderStyle s) = cm_set_border_style s cm"
| "ui_step E cm (UiBorderColors c) = cm_set_border_colors c cm"
| "ui_step E cm UiClear = cm_clear cm"
| "ui_step E cm UiRestoreCursor = cm_restore_cursor cm"
| "ui_step E cm (UiCursorHidden b) = cm_set_cursor_hidden b cm"

fun drawable_op :: "text_width \<Rightarrow> ui_env \<Rightarrow> compositor \<Rightarrow> 'p ui_op \<Rightarrow> bool" where
  "drawable_op wd E cm (UiFrame f) = drawable wd (cm_buffer (compose_frame E f cm))"
| "drawable_op wd E cm _ = True"

lemma put_cells_size [simp]:
  "fb_width (put_cells ws b) = fb_width b" "fb_height (put_cells ws b) = fb_height b" "fb_previous (put_cells ws b) = fb_previous b"
  "fb_ok (put_cells ws b) = fb_ok b"
  unfolding put_cells_def by (induction ws arbitrary: b) (auto split: prod.splits)

lemma composed_ready [simp]: "comp_ready wd h (compose_frame E f cm) = comp_ready wd h cm"
  by (simp add: comp_ready_def compose_frame_def shows_previous_def fb_index_def)

lemma quiet_ready:
  assumes "comp_ready wd h cm" "quietly (cm_backend cm) (cm_backend cm')" "cm_buffer cm' = cm_buffer cm"
    "cm_force_full_redraw cm \<Longrightarrow> cm_force_full_redraw cm'"
  shows "comp_ready wd h cm'"
  using assms(1,3,4) quietlyD [OF assms(2), of wd h] by (auto simp: comp_ready_def)

lemma cleared_ready:
  assumes "comp_ready wd h cm"
  shows "comp_ready wd h (cm_clear cm)"
  using assms by (auto simp: comp_ready_def cm_clear_def clear_screen_def agrees_def host_tidy_def tidy_def forget_style_def)

lemma step_ready:
  assumes r: "comp_ready wd h cm" and d: "drawable_op wd E cm op"
  shows "comp_ready wd h (ui_step E cm op)"
proof (cases op)
  case (UiFrame f)
  have "comp_ready wd h (compose_frame E f cm)" "drawable wd (cm_buffer (compose_frame E f cm))" using r d UiFrame by simp_all
  then show ?thesis unfolding UiFrame ui_step.simps render_multi_pane_def by (rule render_phase_ready(1))
next
  case UiClear
  then show ?thesis using cleared_ready [OF r] by simp
qed (auto simp: cm_force_redraw_def cm_set_border_style_def cm_set_border_colors_def cm_restore_cursor_def cm_set_cursor_hidden_def Let_def
      intro!: quiet_ready [OF r] quietly_then split: option.split)

interpretation client: guarded_machine "ui_step E" "drawable_op wd E" "comp_ready wd h" for E wd h
  by unfold_locales (rule step_ready)

lemma new_ready:
  "host_tidy wd width height (ho_cells h) \<Longrightarrow> ho_link h = None \<Longrightarrow> comp_ready wd h (compositor_new width height backend_new config)"
  by (simp add: comp_ready_def compositor_new_def fb_new_def backend_new_def agrees_def seen_by_def fb_ok_def)


definition blank_host :: host where
  "blank_host = \<lparr>ho_cells = (\<lambda>_ _. None), ho_row = 0, ho_col = 0, ho_pen = pen_reset, ho_link = None\<rparr>"

definition demo_config :: compositor_config where
  "demo_config =
     \<lparr>cc_show_border = False, cc_status_bar_height = 0, cc_border_style = BorderNone, cc_border_colors = \<lparr>bcl_focused = CtGreen, bcl_unfocused = CtGrey\<rparr>\<rparr>"

definition demo_env :: ui_env where
  "demo_env = \<lparr>ue_width = (\<lambda>_. Some 1), ue_cells = map (\<lambda>ch. ([ch], 1))\<rparr>"

definition empty_frame :: "unit multi_pane_frame" where
  "empty_frame = \<lparr>mf_layout = Leaf (PaneId 1), mf_zoom = None, mf_focused = PaneId 1, mf_vts = (\<lambda>_. None), mf_chrome = None, mf_status_bar = None\<rparr>"

lemma step_shape:
  "fb_width (cm_buffer (ui_step E cm op)) = fb_width (cm_buffer cm)" "fb_height (cm_buffer (ui_step E cm op)) = fb_height (cm_buffer cm)"
  "cm_config (render_multi_pane E f cm) = cm_config cm" "cm_config (cm_clear cm) = cm_config cm"
proof -
  have p: "cm_config (place_cursor t c) = cm_config c" "cm_config (hide_before ds u c) = cm_config c" for t ds u c
    by (simp_all add: place_cursor_def hide_before_def Let_def)
  have d: "fb_width (cm_buffer (diff_phase c)) = fb_width (cm_buffer c)" "fb_height (cm_buffer (diff_phase c)) = fb_height (cm_buffer c)"
    "cm_config (diff_phase c) = cm_config c" for c by (simp_all add: diff_phase_def)
  have r: "fb_width (cm_buffer (render_multi_pane E f cm)) = fb_width (cm_buffer cm)" "fb_height (cm_buffer (render_multi_pane E f cm)) = fb_height (cm_buffer cm)"
    "cm_config (render_multi_pane E f cm) = cm_config cm" for f
    by (simp_all add: render_multi_pane_def render_phase_def render_dirty_and_cursor_def compose_frame_def Let_def cursor_placed cursor_hid p d split: option.split)
  show "fb_width (cm_buffer (ui_step E cm op)) = fb_width (cm_buffer cm)" "fb_height (cm_buffer (ui_step E cm op)) = fb_height (cm_buffer cm)"
    "cm_config (render_multi_pane E f cm) = cm_config cm" "cm_config (cm_clear cm) = cm_config cm"
    by (cases op; simp add: r cm_force_redraw_def cm_set_border_style_def cm_set_border_colors_def cm_clear_def cm_restore_cursor_def cm_set_cursor_hidden_def
        Let_def split: option.split)+
qed

lemma empty_frame_composed:
  assumes "fb_width (cm_buffer cm) = 11" "fb_height (cm_buffer cm) = 1" "cm_config cm = demo_config" "fb_ok (cm_buffer cm)"
  shows "fb_current (cm_buffer (compose_frame demo_env empty_frame cm)) =
    map (\<lambda>ch. render_styled ch None None (default_attrs\<lparr>ra_dim := True\<rparr>)) (ascii ''(no output)'')"
proof -
  have l: "map (\<lambda>_. default_render_cell) (fb_current (cm_buffer cm)) =
      [default_render_cell, default_render_cell, default_render_cell, default_render_cell, default_render_cell, default_render_cell,
       default_render_cell, default_render_cell, default_render_cell, default_render_cell, default_render_cell]"
    using assms by (simp add: fb_ok_def map_replicate_const numeral_eq_Suc)
  show ?thesis using assms
    by (simp add: compose_frame_def frame_writes_def frame_rects_def content_rect_def empty_frame_def demo_config_def pane_writes_def placeholder_cells_def
      rect_new_def compute_rects_def pane_viewport_def borders_visible_def status_writes_def Let_def put_cells_def fb_set_cell_def fb_clear_current_def fb_index_def
      l upt_rec_numeral sat_add16_def wrap16_def u16_max_def)
qed

lemma empty_frame_drawable:
  assumes "fb_width (cm_buffer cm) = 11" "fb_height (cm_buffer cm) = 1" "cm_config cm = demo_config" "fb_ok (cm_buffer cm)"
  shows "drawable (\<lambda>_. 1) (cm_buffer (compose_frame demo_env empty_frame cm))"
proof -
  let ?b = "cm_buffer (compose_frame demo_env empty_frame cm)"
  have s: "fb_width ?b = 11" "fb_height ?b = 1" "fb_ok ?b" using assms by (simp_all add: compose_frame_def)
  have c: "\<forall>c \<in> set (fb_current ?b). \<not> rc_wide_continuation c \<and> link_clean (hyperlink_of c) \<and> rc_ch c \<noteq> 0"
    using empty_frame_composed [OF assms] by (simp add: render_styled_def default_render_cell_def link_clean_def hyperlink_of_def default_attrs_def)
  have "\<not> rc_wide_continuation (fb_at ?b row k)" if "row < 1" "k < 11" for row k
    using c fb_index_less [of k ?b row] s that by (simp add: fb_at_def fb_ok_def)
  then show ?thesis using s c by (simp add: drawable_def whole_line_def wide_head_def)
qed


end
