(* ===== verification/Ui_Panes.thy ===== *)
theory Ui_Panes
  imports Ui_Props
begin

text \<open>
  What a composed frame shows: borders, titles and the status bar are drawn around the panes and never over
  them, so every pane of a split window shows its part of its grid.
\<close>

section \<open>Writes\<close>

lemma put_cells_Cons [simp]: "put_cells [] b = b" "put_cells ((col, row, c) # ws) b = put_cells ws (fb_set_cell col row c b)"
  by (simp_all add: put_cells_def)

lemma put_cells_append: "put_cells (ws @ ws') b = put_cells ws' (put_cells ws b)"
  by (simp add: put_cells_def)

definition writes_to :: "cell_write list \<Rightarrow> u16 \<Rightarrow> u16 \<Rightarrow> render_cell set" where
  "writes_to ws col row = {c. (col, row, c) \<in> set ws}"

lemma put_cells_other:
  assumes "fb_ok b" "col < fb_width b" "row < fb_height b" "writes_to ws col row = {}"
  shows "fb_at (put_cells ws b) row col = fb_at b row col"
  using assms
proof (induction ws arbitrary: b)
  case (Cons w ws)
  obtain x y c where w: "w = (x, y, c)" by (cases w) auto
  have "writes_to ws col row = {}" "\<not> (x = col \<and> y = row)" using Cons.prems(4) w by (auto simp: writes_to_def)
  then show ?case using Cons.IH [of "fb_set_cell x y c b"] Cons.prems(1-3) w fb_at_set [OF Cons.prems(1-3), of x y c] by auto
qed simp

lemma put_cells_same:
  assumes "fb_ok b" "col < fb_width b" "row < fb_height b" "writes_to ws col row = {c}"
  shows "fb_at (put_cells ws b) row col = c"
  using assms
proof (induction ws arbitrary: b)
  case (Cons w ws)
  obtain x y d where w: "w = (x, y, d)" by (cases w) auto
  show ?case
  proof (cases "writes_to ws col row = {}")
    case True
    then have "x = col" "y = row" "d = c" using Cons.prems(4) w by (auto simp: writes_to_def)
    then show ?thesis using put_cells_other [of "fb_set_cell x y d b" col row ws] True Cons.prems(1-3) w fb_at_set [OF Cons.prems(1-3), of x y d] by simp
  next
    case False
    then have "writes_to ws col row = {c}" using Cons.prems(4) w by (auto simp: writes_to_def)
    then show ?thesis using Cons.IH [of "fb_set_cell x y d b"] Cons.prems(1-3) w by simp
  qed
qed (simp add: writes_to_def)

section \<open>Panes\<close>

lemma one_pane_per_cell:
  assumes "ratios_ok t" "rect_in_range v" "(p, r) \<in> set (compute_rects t v)" "(q, s) \<in> set (compute_rects t v)" "rect_cell r cx cy" "rect_cell s cx cy"
  shows "q = p \<and> s = r"
proof -
  have i: "(p, r) \<in> set (panes_at t v cx cy)" "(q, s) \<in> set (panes_at t v cx cy)" using assms(3-6) by (simp_all add: panes_at_def)
  have "length (panes_at t v cx cy) \<le> 1" using panes_at_count [OF assms(1,2)] by simp
  then show ?thesis using i by (cases "panes_at t v cx cy") auto
qed

lemma pane_in_range:
  assumes "ratios_ok t" "rect_in_range v" "(p, r) \<in> set (compute_rects t v)"
  shows "rect_in_range r"
  using assms
proof (induction t arbitrary: v)
  case (Split d q a b)
  then show ?case using split_rect_in_range [OF Split.prems(2), of q d] by auto
qed (simp add: compute_rects_def)

text \<open>What one pane writes, with no wrap around in a range of cells.\<close>

lemma pane_cells_written:
  assumes "rect_in_range (pv_rect v)"
  shows "writes_to (pane_cells v vt) col row =
    (if rect_cell (pv_rect v) col row \<and> col - rect_x (pv_rect v) < gr_cols (term_grid vt) \<and> pv_row_offset v + (row - rect_y (pv_rect v)) < gr_rows (term_grid vt)
     then {from_vt_cell_with_defaults (grid_cell (term_grid vt) (pv_row_offset v + (row - rect_y (pv_rect v))) (col - rect_x (pv_rect v))) (default_colors vt)}
     else {})"
proof -
  let ?r = "pv_rect v" and ?g = "term_grid vt"
  have w: "wrap16 (rect_x ?r + c) = rect_x ?r + c" if "c < rect_width ?r" for c using that assms by (intro wrap16_id) (simp add: rect_in_range_def)
  have h: "wrap16 (rect_y ?r + c) = rect_y ?r + c" if "c < rect_height ?r" for c using that assms by (intro wrap16_id) (simp add: rect_in_range_def)
  have m: "(col, row, x) \<in> set (pane_cells v vt) \<longleftrightarrow>
      (\<exists>a < rect_height ?r. \<exists>c < min (rect_width ?r) (gr_cols ?g). pv_row_offset v + a < gr_rows ?g \<and> col = rect_x ?r + c \<and> row = rect_y ?r + a \<and>
        x = from_vt_cell_with_defaults (grid_cell ?g (pv_row_offset v + a) c) (default_colors vt))" for x
    using w h by (auto simp: pane_cells_def Let_def) fastforce+
  show ?thesis
  proof (cases "rect_cell ?r col row \<and> col - rect_x ?r < gr_cols ?g \<and> pv_row_offset v + (row - rect_y ?r) < gr_rows ?g")
    case True
    then obtain a c where "a < rect_height ?r" "c < rect_width ?r" "col = rect_x ?r + c" "row = rect_y ?r + a"
      by (auto simp: rect_cell_def in_run_def intro: that [of "row - rect_y ?r" "col - rect_x ?r"])
    then show ?thesis using True unfolding writes_to_def m by auto
  next
    case False
    then show ?thesis unfolding writes_to_def m by (auto simp: rect_cell_def in_run_def)
  qed
qed

lemma writes_to_simps [simp]:
  "writes_to [] col row = {}" "writes_to (ws @ ws') col row = writes_to ws col row \<union> writes_to ws' col row"
  "writes_to (concat wss) col row = (\<Union>ws \<in> set wss. writes_to ws col row)"
  by (auto simp: writes_to_def)

lemma view_simps [simp]:
  "pv_rect (view_of_vt r vt) = r" "pv_grid_rows (view_of_vt r vt) = gr_rows (term_grid vt)" "pv_grid_cols (view_of_vt r vt) = gr_cols (term_grid vt)"
  by (simp_all add: view_of_vt_def pane_view_of_def)

text \<open>The panes write a cell of a pane once, all of them together.\<close>

lemma panes_write_once:
  assumes t: "ratios_ok t" and v: "rect_in_range v" and p: "(p, r) \<in> set (compute_rects t v)" "mf_vts f p = Some vt"
    and all: "\<forall>(q, s) \<in> set (compute_rects t v). mf_vts f q \<noteq> None" and c: "rect_cell r col row"
  shows "writes_to (concat (map (pane_writes f) (compute_rects t v))) col row = writes_to (pane_cells (view_of_vt r vt) vt) col row"
proof -
  have "writes_to (pane_writes f pr) col row = (if pr = (p, r) then writes_to (pane_cells (view_of_vt r vt) vt) col row else {})"
    if pr: "pr \<in> set (compute_rects t v)" for pr
  proof (cases "pr = (p, r)")
    case True
    then show ?thesis using p(2) by (simp add: pane_writes_def)
  next
    case False
    obtain q s where q: "pr = (q, s)" by (cases pr) auto
    then obtain vt' where vt': "mf_vts f q = Some vt'" using all pr by auto
    have "\<not> rect_cell s col row" using one_pane_per_cell [OF t v p(1) _ c, of q s] pr q False by blast
    then have "writes_to (pane_cells (view_of_vt s vt') vt') col row = {}"
      using pane_cells_written [of "view_of_vt s vt'" vt' col row] pane_in_range [OF t v, of q s] pr q by simp
    then show ?thesis using False q vt' by (simp only: pane_writes_def if_False fst_conv snd_conv option.case)
  qed
  then show ?thesis using p(1) by auto
qed

section \<open>Around the panes\<close>

lemma pane_viewport_facts:
  assumes "rect_in_range c"
  shows "rect_in_range (pane_viewport c style z)" "rect_cell (pane_viewport c style z) x y \<Longrightarrow> rect_cell c x y"
    "borders_visible c style z \<Longrightarrow> pane_viewport c style z = inset c \<and> 3 \<le> rect_width c \<and> 3 \<le> rect_height c"
  using assms inset_in_range [OF assms]
  by (auto simp: pane_viewport_def borders_visible_def inset_def rect_cell_def in_run_def rect_new_def split: if_splits)

lemma titles_spare_panes:
  assumes t: "ratios_ok t" and v: "rect_in_range v" "0 < rect_y v" and vis: "\<forall>(p, r) \<in> set (compute_rects t v). is_visible r"
    and p: "(p, r) \<in> set (compute_rects t v)" "rect_cell r col row" and q: "pr \<in> set (compute_rects t v)"
  shows "writes_to (chrome_writes E colors f segs pr) col row = {}"
proof (rule equals0I)
  fix c
  assume "c \<in> writes_to (chrome_writes E colors f segs pr) col row"
  then obtain pc border g where g: "g \<in> set (title_overlay (ue_width E) (ue_cells E) pc (snd pr) segs)"
      "(col, row, c) \<in> set (glyph_writes border (rect_y (snd pr) - 1) g)"
    by (auto simp: writes_to_def chrome_writes_def split: option.splits)
  obtain id s where s: "pr = (id, s)" by (cases pr) auto
  have "col \<in> {tg_x g..<tg_x g + max 1 (tg_width g)}" and row: "row = rect_y s - 1" using g(2) s by (auto simp: glyph_writes_def split: if_splits)
  from title_on_border [OF g(1) _ this(1)] have x: "rect_x s < col" "col + 1 \<le> rect_x s + rect_width s" using pane_in_range [OF t v(1)] q s by auto
  have "is_visible s" using vis q s by auto
  then have "rect_cell s (rect_x s) (rect_y s)" by (simp add: is_visible_def rect_cell_def in_run_def)
  then have "rect_cell v (rect_x s) (rect_y s)" using pane_cell [OF t v(1)] q s by blast
  then have "0 < rect_y s" using v(2) by (simp add: rect_cell_def in_run_def)
  then have "on_frame s (int col) (int row)" using x row by (auto simp: on_frame_def Let_def)
  then show False using frame_around [OF t v(1) vis] q s pane_cell [OF t v(1) p] by blast
qed

lemma borders_spare_panes_written:
  assumes "ratios_ok t" "rect_in_range c" "3 \<le> rect_width c" "3 \<le> rect_height c"
    "\<forall>(p, r) \<in> set (compute_rects t (inset c)). is_visible r" "(p, r) \<in> set (compute_rects t (inset c))" "rect_cell r col row"
  shows "writes_to (segment_writes colors (compute_borders (compute_rects t (inset c)) focused c style)) col row = {}"
  using borders_spare_panes [OF assms(1-5) _ assms(6)] assms(7) by (auto simp: writes_to_def segment_writes_def)

lemma status_below:
  assumes "row < fb_height (cm_buffer cm) - cc_status_bar_height (cm_config cm)"
  shows "writes_to (status_writes E cm f) col row = {}"
proof (rule equals0I)
  fix c
  assume "c \<in> writes_to (status_writes E cm f) col row"
  then obtain k where "row = fb_height (cm_buffer cm) - cc_status_bar_height (cm_config cm) + k"
    by (auto simp: writes_to_def status_writes_def Let_def split: option.splits if_splits)
  then show False using assms by simp
qed

lemma pane_shows_grid:
  assumes t: "ratios_ok (mf_layout f)" "mf_zoom f = None" and b: "fb_ok (cm_buffer cm)" "fb_width (cm_buffer cm) \<le> u16_max" "fb_height (cm_buffer cm) \<le> u16_max"
    and all: "\<forall>(q, s) \<in> set (frame_rects cm f). is_visible s \<and> mf_vts f q \<noteq> None"
    and p: "(p, r) \<in> set (frame_rects cm f)" "mf_vts f p = Some vt"
    and xy: "x < rect_width r" "x < gr_cols (term_grid vt)" "y < rect_height r" "pv_row_offset (view_of_vt r vt) + y < gr_rows (term_grid vt)"
  shows "fb_at (cm_buffer (compose_frame E f cm)) (rect_y r + y) (rect_x r + x) =
    from_vt_cell_with_defaults (grid_cell (term_grid vt) (pv_row_offset (view_of_vt r vt) + y) x) (default_colors vt)"
proof -
  define c where "c = content_rect cm"
  define v where "v = pane_viewport c (cc_border_style (cm_config cm)) False"
  have rects: "frame_rects cm f = compute_rects (mf_layout f) v" using t(2) by (simp add: frame_rects_def c_def v_def Let_def)
  have c: "rect_in_range c" using b(2,3) by (auto simp: c_def content_rect_def rect_in_range_def rect_new_def)
  have v: "rect_in_range v" using pane_viewport_facts(1) [OF c] by (simp add: v_def)
  have vis: "\<forall>(p, r) \<in> set (compute_rects (mf_layout f) v). is_visible r" "\<forall>(q, s) \<in> set (compute_rects (mf_layout f) v). mf_vts f q \<noteq> None"
    using all rects by auto
  let ?col = "rect_x r + x" and ?row = "rect_y r + y"
  have p': "(p, r) \<in> set (compute_rects (mf_layout f) v)" and cell: "rect_cell r ?col ?row" using p(1) rects xy by (simp_all add: rect_cell_def in_run_def)
  have "rect_cell c ?col ?row" using pane_cell [OF t(1) v p' cell] pane_viewport_facts(2) [OF c] unfolding v_def by blast
  then have in_c: "?col < fb_width (cm_buffer cm)" "?row < fb_height (cm_buffer cm) - cc_status_bar_height (cm_config cm)"
    by (simp_all add: c_def content_rect_def rect_cell_def in_run_def rect_new_def)
  have once: "writes_to (concat (map (pane_writes f) (frame_rects cm f))) ?col ?row =
      {from_vt_cell_with_defaults (grid_cell (term_grid vt) (pv_row_offset (view_of_vt r vt) + y) x) (default_colors vt)}"
    unfolding rects panes_write_once [OF t(1) v p' p(2) vis(2) cell] using pane_cells_written [of "view_of_vt r vt" vt ?col ?row] pane_in_range [OF t(1) v p'] cell xy by simp
  have rest: "writes_to (segment_writes colors (compute_borders (frame_rects cm f) (mf_focused f) c (cc_border_style (cm_config cm)))) ?col ?row = {}"
    "writes_to (concat (map (chrome_writes E colors f segs) (frame_rects cm f))) ?col ?row = {}"
    if bv: "borders_visible c (cc_border_style (cm_config cm)) False" for colors segs
  proof -
    have i: "v = inset c" "3 \<le> rect_width c" "3 \<le> rect_height c" using pane_viewport_facts(3) [OF c bv] by (simp_all add: v_def)
    show "writes_to (segment_writes colors (compute_borders (frame_rects cm f) (mf_focused f) c (cc_border_style (cm_config cm)))) ?col ?row = {}"
      unfolding rects i(1) using borders_spare_panes_written [OF t(1) c i(2,3), folded i(1), OF vis(1) p' cell] by (simp add: i(1))
    have "0 < rect_y v" by (simp add: i(1) inset_def rect_new_def)
    from titles_spare_panes [OF t(1) v this vis(1) p' cell, where f = f]
    show "writes_to (concat (map (chrome_writes E colors f segs) (frame_rects cm f))) ?col ?row = {}" unfolding rects by simp
  qed
  have "writes_to (frame_writes E cm f) ?col ?row = {from_vt_cell_with_defaults (grid_cell (term_grid vt) (pv_row_offset (view_of_vt r vt) + y) x) (default_colors vt)}"
    using once rest status_below [OF in_c(2), where f = f and E = E] t(2) by (simp add: frame_writes_def Let_def c_def [symmetric])
  then show ?thesis using b(1) in_c by (simp add: compose_frame_def put_cells_same)
qed

text \<open>C8: Every pane of a split window shows its grid: where pane \<open>p\<close> has rectangle \<open>r\<close>, the composed frame holds,
  \<open>x\<close> columns and \<open>y\<close> rows into \<open>r\<close>, the grid's cell \<open>x\<close> columns and \<open>y\<close> rows into the view that follows the
  cursor, whatever borders, titles, badges and status bar the frame has.\<close>

theorem panes_are_shown:
  assumes t: "ratios_ok (mf_layout f)" "mf_zoom f = None" and b: "fb_ok (cm_buffer cm)" "fb_width (cm_buffer cm) \<le> u16_max" "fb_height (cm_buffer cm) \<le> u16_max"
    and all: "\<forall>(q, s) \<in> set (frame_rects cm f). is_visible s \<and> mf_vts f q \<noteq> None"
    and p: "(p, r) \<in> set (frame_rects cm f)" "mf_vts f p = Some vt"
    and xy: "x < rect_width r" "x < gr_cols (term_grid vt)" "y < rect_height r" "pv_row_offset (view_of_vt r vt) + y < gr_rows (term_grid vt)"
  shows "fb_at (cm_buffer (compose_frame E f cm)) (rect_y r + y) (rect_x r + x) =
    from_vt_cell_with_defaults (grid_cell (term_grid vt) (pv_row_offset (view_of_vt r vt) + y) x) (default_colors vt)"
  by (rule pane_shows_grid [OF assms])

text \<open>C32: A pointer names what it points at: the cell that \<open>pane_grid_cell\<close> gives for a place on the screen, counted
  from 1, is the cell of the pane's grid that the frame shows at that place.\<close>

theorem pointer_names_shown_cell:
  assumes "ratios_ok (mf_layout f)" "mf_zoom f = None" "fb_ok (cm_buffer cm)" "fb_width (cm_buffer cm) \<le> u16_max" "fb_height (cm_buffer cm) \<le> u16_max"
    and "\<forall>(q, s) \<in> set (frame_rects cm f). is_visible s \<and> mf_vts f q \<noteq> None"
    and "(p, r) \<in> set (frame_rects cm f)" "mf_vts f p = Some vt"
    and g: "pane_grid_cell (view_of_vt r vt) (col, row) False = Some (x, y)"
  shows "fb_at (cm_buffer (compose_frame E f cm)) row col = from_vt_cell_with_defaults (grid_cell (term_grid vt) (y - 1) (x - 1)) (default_colors vt)"
proof -
  let ?v = "view_of_vt r vt"
  have "rect_cell r col row \<and> col = rect_x r + (x - 1) \<and> row + pv_row_offset ?v = rect_y r + (y - 1) \<and> 0 < x \<and> x \<le> gr_cols (term_grid vt) \<and>
      0 < y \<and> y \<le> gr_rows (term_grid vt)" using pointer_names_drawn_cell [OF g] unfolding view_simps .
  then have n: "rect_cell r col row" "col = rect_x r + (x - 1)" "row + pv_row_offset ?v = rect_y r + (y - 1)" "0 < x" "x \<le> gr_cols (term_grid vt)"
    "0 < y" "y \<le> gr_rows (term_grid vt)" by blast+
  define k where "k = row - rect_y r"
  have k: "row = rect_y r + k" "k < rect_height r" "pv_row_offset ?v + k = y - 1" using n(1,3) by (auto simp: k_def rect_cell_def in_run_def)
  have "x - 1 < rect_width r" "x - 1 < gr_cols (term_grid vt)" "pv_row_offset ?v + k < gr_rows (term_grid vt)"
    using n k(3) by (auto simp: rect_cell_def in_run_def)
  then show ?thesis using pane_shows_grid [OF assms(1-8), of "x - 1" k E] k n(2) by simp
qed

text \<open>Two panes side by side, each running a program that printed \<open>EEE\<close>, with titles and a status bar.\<close>

definition demo_terminal :: "unit terminal" where
  "demo_terminal =
     (let t = terminal_new () 1 3 0 0
      in t\<lparr>tm_h := (tm_h t)\<lparr>h_grid := (h_grid (tm_h t))\<lparr>gr_raw := [\<lparr>r_cells = replicate 3 cell_alignment, r_wrapped = False\<rparr>]\<rparr>\<rparr>\<rparr>)"

definition demo_frame :: "unit multi_pane_frame" where
  "demo_frame =
     \<lparr>mf_layout = Split Vertical (Fin (1 / 2)) (Leaf (PaneId 1)) (Leaf (PaneId 2)), mf_zoom = None, mf_focused = PaneId 2, mf_vts = (\<lambda>_. Some demo_terminal),
      mf_chrome = Some (\<lambda>_. Some (pane_chrome_titled (ascii ''shell''))),
      mf_status_bar = Some \<lparr>sb_left = [segment_plain (ascii ''shux'')], sb_center = [], sb_right = [], sb_bg = Some CtGrey\<rparr>\<rparr>"

definition demo_compositor :: compositor where
  "demo_compositor = compositor_new 82 5 backend_new (demo_config\<lparr>cc_border_style := BorderThin, cc_status_bar_height := 1\<rparr>)"

lemma demo_rects: "frame_rects demo_compositor demo_frame = [(PaneId 1, rect_new 1 1 40 2), (PaneId 2, rect_new 42 1 39 2)]"
  by (simp add: frame_rects_def demo_frame_def demo_compositor_def compositor_new_def content_rect_def fb_new_def pane_viewport_def borders_visible_def demo_config_def
    rect_new_def half_share_79 SEPARATOR_SIZE_def wrap16_def)

lemma demo_terminal_facts:
  "gr_cols (term_grid demo_terminal) = 3" "gr_rows (term_grid demo_terminal) = 1" "cu_row (term_cursor demo_terminal) = 0"
  "grid_cell (term_grid demo_terminal) 0 2 = cell_alignment"
  by (simp_all add: demo_terminal_def terminal_new_def terminal_with_config_def handler_new_def clamp_dims_def term_grid_def term_cursor_def presented_grid_def
    presented_cursor_def grid_new_def cursor_new_def grid_cell_def scrollback_len_def Let_def)

lemma demo_offset: "0 < rect_height s \<Longrightarrow> pv_row_offset (view_of_vt s demo_terminal) = 0"
  by (simp add: view_of_vt_def pane_view_of_def demo_terminal_facts row_offset_cases(1))

lemma demo_premises:
  "ratios_ok (mf_layout demo_frame)" "mf_zoom demo_frame = None" "fb_ok (cm_buffer demo_compositor)" "fb_width (cm_buffer demo_compositor) \<le> u16_max"
  "fb_height (cm_buffer demo_compositor) \<le> u16_max" "\<forall>(q, s) \<in> set (frame_rects demo_compositor demo_frame). is_visible s \<and> mf_vts demo_frame q \<noteq> None"
  "(PaneId 2, rect_new 42 1 39 2) \<in> set (frame_rects demo_compositor demo_frame)" "mf_vts demo_frame (PaneId 2) = Some demo_terminal"
proof -
  show "ratios_ok (mf_layout demo_frame)" by (simp add: demo_frame_def ratio_ok_def clamp_ratio_def f32_clamp_def ratio_consts Let_def)
  show "\<forall>(q, s) \<in> set (frame_rects demo_compositor demo_frame). is_visible s \<and> mf_vts demo_frame q \<noteq> None"
    unfolding demo_rects by (simp add: is_visible_def rect_new_def demo_frame_def)
  show "(PaneId 2, rect_new 42 1 39 2) \<in> set (frame_rects demo_compositor demo_frame)" by (simp add: demo_rects)
  show "mf_zoom demo_frame = None" "mf_vts demo_frame (PaneId 2) = Some demo_terminal" by (simp_all add: demo_frame_def)
  show "fb_ok (cm_buffer demo_compositor)" "fb_width (cm_buffer demo_compositor) \<le> u16_max" "fb_height (cm_buffer demo_compositor) \<le> u16_max"
    by (simp_all add: demo_compositor_def compositor_new_def fb_new_def fb_ok_def u16_max_def)
qed

theorem panes_are_shown_witness:
  "rc_ch (fb_at (cm_buffer (compose_frame demo_env demo_frame demo_compositor)) 1 44) = 69"
proof -
  have "2 < rect_width (rect_new 42 1 39 2)" "2 < gr_cols (term_grid demo_terminal)" "0 < rect_height (rect_new 42 1 39 2)"
    "pv_row_offset (view_of_vt (rect_new 42 1 39 2) demo_terminal) + 0 < gr_rows (term_grid demo_terminal)"
    by (simp_all add: demo_terminal_facts demo_offset rect_new_def)
  from panes_are_shown [OF demo_premises this, of demo_env] show ?thesis
    by (simp add: demo_offset demo_terminal_facts rect_new_def from_vt_cell_with_defaults_def cell_alignment_def Let_def)
qed

theorem pointer_names_shown_cell_witness:
  "pane_grid_cell (view_of_vt (rect_new 42 1 39 2) demo_terminal) (44, 1) False = Some (3, 1) \<and>
   fb_at (cm_buffer (compose_frame demo_env demo_frame demo_compositor)) 1 44 = from_vt_cell_with_defaults cell_alignment (default_colors demo_terminal)"
proof -
  have p: "pane_grid_cell (view_of_vt (rect_new 42 1 39 2) demo_terminal) (44, 1) False = Some (3, 1)"
    by (simp add: pane_grid_cell_def demo_terminal_facts demo_offset rect_new_def u16_max_def)
  from pointer_names_shown_cell [OF demo_premises p, of demo_env] p show ?thesis by (simp add: demo_terminal_facts)
qed

section \<open>Where the frame is not what a comment says\<close>

text \<open>The placeholder of a pane without a terminal is not clipped: in a pane of four columns it covers the next six.\<close>

lemma placeholder_overruns_its_pane:
  "\<exists>c. (11, 2, c) \<in> set (placeholder_cells (rect_new 1 1 4 2) (ascii ''(no output)''))" "\<not> rect_cell (rect_new 1 1 4 2) 11 2"
  by (simp_all add: placeholder_cells_def rect_new_def sat_add16_def wrap16_def u16_max_def rect_cell_def in_run_def upt_rec_numeral)

text \<open>Resizing the buffer alone makes no cell dirty; the compositor asks for the full redraw itself.\<close>

lemma resize_alone_redraws_nothing: "fb_diff (fb_resize width height b) = []"
proof -
  have "dirty_at (fb_resize width height b) row col = []" if "row < height" "col < width" for row col
    using that fb_index_less [of col "fb_resize width height b" row] by (simp add: dirty_at_def fb_resize_def fb_index_def Let_def)
  then show ?thesis by (simp add: fb_diff_def fb_resize_def)
qed

end
