(* ===== verification/Spec2Isabelle.thy ===== *)
theory Spec2Isabelle
  imports Layout_Tree Layout_Fit Status_Wire Status_Table Graph_Order Graph_Spec IdRef Vt_Props Vt_Log Vt_Settle Vt_Golden Ui_Panes
begin

text \<open>
  A verification development for \<^bold>\<open>shux\<close>, a terminal multiplexer written in Rust.  It models the session
  graph with its layouts, titles, events and batches (\<^verbatim>\<open>crates/shux-core\<close>), the program-status protocol
  (\<^verbatim>\<open>crates/shux-program-status\<close>), the terminal emulator of a pane (\<^verbatim>\<open>crates/shux-vt\<close>), and the part of the user
  interface that draws a window of panes on the terminal of an attached client (\<^verbatim>\<open>crates/shux-ui\<close>).

  \<^bold>\<open>How the program works.\<close>  A daemon owns one \<open>SessionGraph\<close>: an immutable snapshot of sessions, windows
  and panes behind an atomic pointer, written by one task (\<open>run_graph_loop\<close>) that takes commands from
  a channel.  A window arranges its panes with a layout tree.  Each mutation validates, builds a new
  snapshot, commits it and publishes events on the event bus, from which clients read live or catch
  up by sequence number.  A batch stages several operations on a private copy and commits them
  together.  The output of the program in a pane goes through a \<open>VirtualTerminal\<close>, which keeps the grid of
  cells, answers queries, collects pictures, command boundaries and status reports, and reports the
  damage a renderer has to repaint.  Frames can be captured as goldens and compared.  For an attached
  client the compositor draws the grids of all panes with borders, titles and a status bar into a frame
  buffer and sends the difference to the last frame.

  \<^bold>\<open>Theories, in the order they build on each other.\<close>

  \<^item> \<^verbatim>\<open>Prelude\<close>: machine integers (\<open>u64\<close> a 64-bit word, \<open>u16\<close> and \<open>usize\<close> naturals with the wrap or the
    saturation written out), \<open>result\<close>, strings as lists of code points, \<open>HashMap\<close> as an association
    list with distinct keys (\<open>hm_wf\<close>), whose order is the iteration order the map happens to have,
    and the locale \<open>guarded_machine\<close> with reachability and invariants.
  \<^item> \<^verbatim>\<open>Float32\<close>: binary32 arithmetic with rounding to nearest even, as \<^verbatim>\<open>layout.rs\<close> uses it.
  \<^item> \<^verbatim>\<open>Ids\<close>, \<^verbatim>\<open>Layout\<close>, \<^verbatim>\<open>Layout_Geometry\<close>, \<^verbatim>\<open>Layout_Fit\<close>, \<^verbatim>\<open>Layout_Tree\<close>: \<^verbatim>\<open>layout.rs\<close>.  The panes tile the
    viewport; splitting and removing are inverse; zoom keeps the arrangement; the fitted viewport is
    the smallest in which no pane is short.  \<^verbatim>\<open>Layout_Tree\<close> ends with the locale \<open>pane_arrangement\<close>,
    the contract the session graph relies on, interpreted on window layouts.
  \<^item> \<^verbatim>\<open>Titles\<close>, \<^verbatim>\<open>Model\<close>: \<^verbatim>\<open>model.rs\<close>.  Which characters may enter a title, the name shown for a command,
    and the precedence of manual, OSC and derived pane titles.
  \<^item> \<^verbatim>\<open>Status_Model\<close>, \<^verbatim>\<open>Utf8\<close>, \<^verbatim>\<open>Status_Wire\<close>, \<^verbatim>\<open>Status_Table\<close>: \<^verbatim>\<open>limits.rs\<close>, \<^verbatim>\<open>model.rs\<close>, \<^verbatim>\<open>rank.rs\<close>,
    \<^verbatim>\<open>summary.rs\<close>, \<^verbatim>\<open>display.rs\<close>, \<^verbatim>\<open>wire.rs\<close> and \<^verbatim>\<open>table.rs\<close> of \<^verbatim>\<open>shux-program-status\<close>.  The codec round trip
    and its limits; a bounded table with least-recently-reported eviction; lifetimes and ranking.
  \<^item> \<^verbatim>\<open>Event\<close>, \<^verbatim>\<open>Bus\<close>: \<^verbatim>\<open>event.rs\<close> and \<^verbatim>\<open>bus.rs\<close>.  The bus is a bounded log with consecutive sequence
    numbers, and resuming from one loses nothing silently.
  \<^item> \<^verbatim>\<open>Graph_State\<close>, \<^verbatim>\<open>Graph_Ops\<close>, \<^verbatim>\<open>Graph_Stage\<close>, \<^verbatim>\<open>Apply\<close>: the data and the operations of \<^verbatim>\<open>graph.rs\<close> and
    \<^verbatim>\<open>apply.rs\<close>, one definition per method.  A method that returns \<open>Result\<close> and mutates through the
    atomic pointer becomes a function from a graph to a result and a graph.
  \<^item> \<^verbatim>\<open>Graph_Inv\<close>, \<^verbatim>\<open>Graph_Keeps\<close>, \<^verbatim>\<open>Graph_Effects\<close>: the invariants, and one lemma per operation for each
    thing it keeps.
  \<^item> \<^verbatim>\<open>Graph_Loop\<close>, \<^verbatim>\<open>Graph_Safety\<close>, \<^verbatim>\<open>Graph_Order\<close>, \<^verbatim>\<open>Graph_Spec\<close>: the commands, the loop as a step relation
    between channel and graph, and the properties of whole histories.  The locale \<open>command_contract\<close>
    turns an invariant kept by each command into one of transactions and histories; it is
    interpreted for consistency, for focus, for the two ordering properties and for the refinement
    of the abstract directory of session names.
  \<^item> \<^verbatim>\<open>IdRef\<close>: \<^verbatim>\<open>idref.rs\<close>, references to entities by prefix.
  \<^item> \<^verbatim>\<open>Vt_Cell\<close>, \<^verbatim>\<open>Vt_Row\<close>, \<^verbatim>\<open>Vt_Dirty\<close>, \<^verbatim>\<open>Vt_Image\<close>, \<^verbatim>\<open>Vt_Grid\<close>, \<^verbatim>\<open>Vt_Scroll\<close>, \<^verbatim>\<open>Vt_Paint\<close>, \<^verbatim>\<open>Vt_Reflow\<close>,
    \<^verbatim>\<open>Vt_Resize\<close>: \<^verbatim>\<open>cell.rs\<close> and \<^verbatim>\<open>grid.rs\<close> of \<^verbatim>\<open>shux-vt\<close>.  Wide characters stay whole, every changed cell is in
    the damage, scrolling is list surgery, and a change of the width keeps the text and the cursor's
    place in it.
  \<^item> \<^verbatim>\<open>Vt_Parts\<close>, \<^verbatim>\<open>Vt_Kitty\<close>, \<^verbatim>\<open>Vt_Status\<close>, \<^verbatim>\<open>Vt_Handler\<close>, \<^verbatim>\<open>Vt_Write\<close>, \<^verbatim>\<open>Vt_Sgr\<close>, \<^verbatim>\<open>Vt_Csi\<close>, \<^verbatim>\<open>Vt_Osc\<close>: the state and
    the callbacks of the escape sequence handler, \<^verbatim>\<open>parser.rs\<close> with \<^verbatim>\<open>cursor.rs\<close>, \<^verbatim>\<open>charset.rs\<close>, \<^verbatim>\<open>tabstops.rs\<close>,
    \<^verbatim>\<open>screen.rs\<close>, \<^verbatim>\<open>sync.rs\<close> and \<^verbatim>\<open>graphics/\<close>.  An operation that could panic in Rust (an index out of range, a
    subtraction below zero) returns \<open>None\<close>.
  \<^item> \<^verbatim>\<open>Vt_Safe\<close>, \<^verbatim>\<open>Vt_Steps\<close>, \<^verbatim>\<open>Vt_Perform\<close>: every callback returns, keeps the invariant and the exactness of the
    presented damage, and leaves a frame alone that synchronized output holds.
  \<^item> \<^verbatim>\<open>Vt_Scan\<close>, \<^verbatim>\<open>Vt_Commands\<close>, \<^verbatim>\<open>Vt_Terminal\<close>, \<^verbatim>\<open>Vt_Batch\<close>, \<^verbatim>\<open>Vt_Render\<close>, \<^verbatim>\<open>Vt_Props\<close>, \<^verbatim>\<open>Vt_Log\<close>: the scanners beside
    the parser (locale \<open>byte_scanner\<close>, interpreted for both), command boundaries, and \<open>VirtualTerminal\<close> of
    \<^verbatim>\<open>lib.rs\<close> with the properties of whole sequences of its operations.
  \<^item> \<^verbatim>\<open>Vt_Settle\<close>, \<^verbatim>\<open>Vt_Diff\<close>, \<^verbatim>\<open>Vt_Capture\<close>, \<^verbatim>\<open>Vt_Golden\<close>: \<^verbatim>\<open>settle.rs\<close>, \<^verbatim>\<open>diff.rs\<close> and \<^verbatim>\<open>capture.rs\<close>.  No change
    passes the comparison unseen; a capture reads back, passes its own validator and equals its frame;
    masked cells leave no trace.
  \<^item> \<^verbatim>\<open>Ui_Buffer\<close>, \<^verbatim>\<open>Ui_Render\<close>, \<^verbatim>\<open>Ui_Host\<close>: \<^verbatim>\<open>buffer.rs\<close>, \<^verbatim>\<open>vt_convert.rs\<close> and \<^verbatim>\<open>render.rs\<close> of \<^verbatim>\<open>shux-ui\<close>, and a
    reference host terminal that carries the queued commands out.  What the backend remembers of the
    host's style is true of it, and sending the changed cells makes the host show the frame.
  \<^item> \<^verbatim>\<open>Ui_View\<close>, \<^verbatim>\<open>Ui_Borders\<close>, \<^verbatim>\<open>Ui_Chrome\<close>, \<^verbatim>\<open>Ui_Status\<close>: \<^verbatim>\<open>viewport.rs\<close>, \<^verbatim>\<open>borders.rs\<close>, \<^verbatim>\<open>chrome.rs\<close> and
    \<^verbatim>\<open>statusbar.rs\<close>.  The cursor is in view, borders and titles lie between the panes, the zones of the
    status bar share no cell.
  \<^item> \<^verbatim>\<open>Ui_Compositor\<close>, \<^verbatim>\<open>Ui_Props\<close>, \<^verbatim>\<open>Ui_Panes\<close>: \<^verbatim>\<open>compositor.rs\<close>.  The compositor is a \<open>guarded_machine\<close> whose
    invariant ties the host's screen to the last frame; every pane shows its grid.

  \<^bold>\<open>Parameters.\<close>  What is not in the repository is an argument.  \<open>host\<close> holds how a UUID is shown,
  Unicode's alphanumeric test and the size of a pane's serialised form; \<open>fresh\<close> and \<open>draw\<close> hold the
  UUIDs and timestamps one command draws, with the hypothesis \<open>new_ids\<close> that drawn ids are not in use
  (UUIDs of version 4); the base64 engines come with their documented laws.  The broadcast and command
  channels of tokio are the list of outcomes a receiver yields and a queue.  The escape sequence parser
  (vte) is a function from a state and bytes to callbacks, about which nothing is assumed; the table of
  character widths and the clock are arguments.  The width the host terminal gives to a text is an
  argument of \<open>Ui_Host\<close>; what the host does with a character over half of a wide one is left undefined.

  \<^bold>\<open>Loops and bounds.\<close>  Every function of the model is total.  The two growth loops of \<open>fitted\<close> end at
  the cap of the viewport, the searches for a free title and a free session name at a number bounded
  by the names in use, each by a measure.  Arithmetic on \<open>u64\<close> counters wraps.  Batches of the
  terminal are lists of callbacks, so every batch ends; the release of synchronized output is proved
  to happen by its deadline.

  \<^bold>\<open>What the frame theorems assume.\<close>  A frame is drawable when its wide characters are whole, its links
  are text and no cell holds the mark of \<open>invalidate\<close>.  A pane narrower than its grid can cut a wide
  character at its edge; such a frame is not drawable and nothing is claimed of it.

  \<^bold>\<open>Not modelled.\<close>  Serialisation (serde derives, \<open>to_wire_json\<close>, the JSON text of captures and recordings),
  \<open>Display\<close> texts of errors, logging and timing statistics; the handle methods that only put a command
  into the channel; of the user interface the pictures of a frame (\<^verbatim>\<open>kitty_emit.rs\<close>, \<^verbatim>\<open>composed.rs\<close>), keys and
  bindings, copy mode, the help overlay and raw mode; RPC transport, plugins, PTYs, the rasteriser, the
  command line and the daemon's process management, which are input and output around the core.
\<close>

end
